(* ===== verification/Prelude.thy ===== *)
theory Prelude
  imports Main "HOL-Library.List_Lexorder" "HOL-Library.Char_ord"
begin

section \<open>Shared types, errors and generic lemmas\<close>

text \<open>
  What every theory of the development shares: the result type of the fallible Go functions,
  Go's 64-bit signed integers, the three-valued comparison of (HLC, device id, event id)
  coordinates, and the small string functions of Go's \<^verbatim>\<open>strings\<close> package that the modelled
  code calls. Strings are lists of bytes (\<open>char\<close>), and \<open><\<close> on them is the bytewise
  lexicographic order of \<^theory_text>\<open>HOL-Library.List_Lexorder\<close>, which is Go's \<^verbatim>\<open><\<close> on strings and
  SQLite's BINARY collation.
\<close>

named_theorems sync_simps \<open>equations of the modelled operations that simp may unfold freely\<close>
named_theorems sync_inv \<open>invariant preservation of the store operations\<close>
named_theorems sync_frame \<open>what an operation leaves unchanged\<close>

subsection \<open>Errors as values\<close>

text \<open>
  A Go error is modelled by the list of the sentinel errors it wraps (what
  \<^verbatim>\<open>errors.Is\<close> can see) and its message. \<open>KOther\<close> stands for an error that wraps no
  sentinel of the program.
\<close>

datatype err_kind =
    KVerification | KDivergent | KHashChain | KEnvPending | KDraftPending
  | KPathEmpty | KPathAbsolute | KPathEscape | KPathEmptyPart | KPathConflict
  | KNotFound | KOther
  | KNotExist | KSecretNotFound | KUnsupported | KKeychainUnreachable
  | KMissingKey | KUnknownVersion | KPlaintext
  | KSnapshotRequired | KBlobNotFound | KInvalidBlobKey
  | KSnapshotVerification | KRetentionNotFound | KRetentionConflict | KRetentionRollback
  | KSweepLockNotFound | KSweepLockHeld
  | KPreconditionFailed | KS3Throttle | KS3Transient | KFuel
  | KExitNetwork | KExitInvalidConfig | KExitConflict

datatype err = Err (err_kinds: "err_kind list") (err_msg: string)

type_synonym 'a res = "err + 'a"

definition err_is :: "err \<Rightarrow> err_kind \<Rightarrow> bool" where
  "err_is e k \<longleftrightarrow> k \<in> set (err_kinds e)"

lemma err_is_Err [simp]: "err_is (Err ks m) k \<longleftrightarrow> k \<in> set ks"
  by (simp add: err_is_def)

definition fail :: "err_kind \<Rightarrow> string \<Rightarrow> 'a res" where
  "fail k m = Inl (Err [k] m)"

definition bindr :: "'a res \<Rightarrow> ('a \<Rightarrow> 'b res) \<Rightarrow> 'b res" where
  "bindr r f = (case r of Inl e \<Rightarrow> Inl e | Inr x \<Rightarrow> f x)"

lemma bindr_simps [simp]: "bindr (Inl e) f = Inl e" "bindr (Inr x) f = f x"
  by (simp_all add: bindr_def)

lemma bindr_Inr_iff [simp]: "bindr r f = Inr y \<longleftrightarrow> (\<exists>x. r = Inr x \<and> f x = Inr y)"
  by (cases r) auto

lemma bindr_Inl_iff: "bindr r f = Inl e \<longleftrightarrow> r = Inl e \<or> (\<exists>x. r = Inr x \<and> f x = Inl e)"
  by (cases r) auto

lemma fail_neq_Inr [simp]: "fail k m \<noteq> Inr x" "Inr x \<noteq> fail k m"
  by (simp_all add: fail_def)

lemma bindr_fail [simp]: "bindr (fail k m) f = fail k m"
  by (simp add: fail_def)

text \<open>\<^verbatim>\<open>fmt.Errorf("label: %w", err)\<close>.\<close>

definition relabel :: "string \<Rightarrow> 'a res \<Rightarrow> 'a res" where
  "relabel label r = (case r of Inl e \<Rightarrow> Inl (Err (err_kinds e) (label @ err_msg e)) | Inr v \<Rightarrow> Inr v)"

lemma relabel_Inr [simp]: "relabel l r = Inr v \<longleftrightarrow> r = Inr v"
  by (cases r) (auto simp: relabel_def)

text \<open>Folding a fallible step over a list stops at the first error, as a Go loop that returns it.\<close>

fun foldr_res :: "('s \<Rightarrow> 'a \<Rightarrow> 's res) \<Rightarrow> 's \<Rightarrow> 'a list \<Rightarrow> 's res" where
  "foldr_res f s [] = Inr s"
| "foldr_res f s (x # xs) = bindr (f s x) (\<lambda>s'. foldr_res f s' xs)"

lemma foldr_res_append:
  "foldr_res f s (xs @ ys) = bindr (foldr_res f s xs) (\<lambda>s'. foldr_res f s' ys)"
  by (induction xs arbitrary: s) (auto simp: bindr_def split: sum.splits)

lemma foldr_res_inv:
  assumes "foldr_res f s xs = Inr s'" and "I s"
    and "\<And>t x t'. I t \<Longrightarrow> x \<in> set xs \<Longrightarrow> f t x = Inr t' \<Longrightarrow> I t'"
  shows "I s'"
  using assms
proof (induction xs arbitrary: s)
  case (Cons x xs)
  from Cons.prems(1) obtain t where t: "f s x = Inr t" and r: "foldr_res f t xs = Inr s'"
    by auto
  have "I t" by (rule Cons.prems(3) [OF Cons.prems(2) _ t]) simp
  then show ?case by (rule Cons.IH [OF r]) (rule Cons.prems(3), auto)
qed simp

subsection \<open>Steps that change a state and may fail\<close>

text \<open>A Go method with a pointer receiver: its result and the state it leaves, also on failure.\<close>

type_synonym ('s, 'a) op = "'s \<Rightarrow> 'a res \<times> 's"

definition okk :: "'a \<Rightarrow> ('s, 'a) op" where "okk v k = (Inr v, k)"
definition errk :: "err \<Rightarrow> ('s, 'a) op" where "errk e k = (Inl e, k)"

definition bindk :: "('s, 'a) op \<Rightarrow> ('a \<Rightarrow> ('s, 'b) op) \<Rightarrow> ('s, 'b) op" where
  "bindk m f k = (case m k of (Inl e, k') \<Rightarrow> (Inl e, k') | (Inr v, k') \<Rightarrow> f v k')"

text \<open>A fallible read of the state, with a prefix for its error.\<close>

definition askk :: "string \<Rightarrow> ('s \<Rightarrow> 'a res) \<Rightarrow> ('s, 'a) op" where
  "askk label f k = (relabel label (f k), k)"

definition updk :: "('s \<Rightarrow> 's) \<Rightarrow> ('s, unit) op" where
  "updk f k = (Inr (), f k)"

fun mapk :: "('a \<Rightarrow> ('s, 'b) op) \<Rightarrow> 'a list \<Rightarrow> ('s, 'b list) op" where
  "mapk f [] = okk []"
| "mapk f (x # xs) = bindk (f x) (\<lambda>y. bindk (mapk f xs) (\<lambda>ys. okk (y # ys)))"

lemma bindk_Inr: "bindk m f k = (Inr v, k2) \<longleftrightarrow> (\<exists>u k1. m k = (Inr u, k1) \<and> f u k1 = (Inr v, k2))"
  by (auto simp: bindk_def split: prod.splits sum.splits)

lemma okk_Inr [simp]: "okk u k = (Inr v, k') \<longleftrightarrow> u = v \<and> k = k'"
  by (auto simp: okk_def)

lemma errk_Inr [simp]: "errk e k \<noteq> (Inr v, k')"
  by (simp add: errk_def)

lemma askk_Inr [simp]: "askk l f k = (Inr v, k') \<longleftrightarrow> f k = Inr v \<and> k' = k"
  by (auto simp: askk_def)

lemma updk_Inr [simp]: "updk f k = (Inr v, k') \<longleftrightarrow> k' = f k"
  by (auto simp: updk_def)

subsection \<open>Go's int64\<close>

definition wrap64 :: "int \<Rightarrow> int" where
  "wrap64 x = (x + 2 ^ 63) mod 2 ^ 64 - 2 ^ 63"

definition int64 :: "int \<Rightarrow> bool" where
  "int64 x \<longleftrightarrow> - (2 ^ 63) \<le> x \<and> x < 2 ^ 63"

lemma wrap64_id [simp]: "int64 x \<Longrightarrow> wrap64 x = x"
  by (simp add: wrap64_def int64_def)

lemma int64_wrap64 [simp]: "int64 (wrap64 x)"
  by (simp add: wrap64_def int64_def)

subsection \<open>Event coordinates\<close>

text \<open>
  \<^verbatim>\<open>samePathLess\<close> compares (HLC, device id, event id) lexicographically; the model's
  coordinate is that triple, and the library's product order is not used so that the comparison
  reads as the code does.
\<close>

record coord =
  c_hlc :: int
  c_dev :: string
  c_id :: string

definition coord_less :: "coord \<Rightarrow> coord \<Rightarrow> bool" where
  "coord_less a b =
     (if c_hlc a \<noteq> c_hlc b then c_hlc a < c_hlc b
      else if c_dev a \<noteq> c_dev b then c_dev a < c_dev b
      else c_id a < c_id b)"

lemma coord_less_irrefl [simp]: "\<not> coord_less a a"
  by (simp add: coord_less_def)

lemma coord_less_trans: "coord_less a b \<Longrightarrow> coord_less b c \<Longrightarrow> coord_less a c"
  by (auto simp: coord_less_def split: if_splits)

lemma coord_less_asym: "coord_less a b \<Longrightarrow> \<not> coord_less b a"
  by (auto simp: coord_less_def split: if_splits)

lemma coord_less_total: "coord_less a b \<or> a = b \<or> coord_less b a"
  by (cases a; cases b) (auto simp: coord_less_def)

lemma coord_less_hlc: "coord_less a b \<Longrightarrow> c_hlc a \<le> c_hlc b"
  by (auto simp: coord_less_def split: if_splits)

lemma coord_less_hlcI: "c_hlc a < c_hlc b \<Longrightarrow> coord_less a b"
  by (simp add: coord_less_def)

subsection \<open>Strings\<close>

definition prefixb :: "string \<Rightarrow> string \<Rightarrow> bool" where
  "prefixb p s \<longleftrightarrow> take (length p) s = p"

lemma prefixb_append [simp]: "prefixb p (p @ s)"
  by (simp add: prefixb_def)

lemma prefixb_iff: "prefixb p s \<longleftrightarrow> (\<exists>r. s = p @ r)"
  by (metis append_eq_conv_conj append_take_drop_id prefixb_def)

text \<open>\<^verbatim>\<open>strings.Split\<close> with a one-byte separator: never empty, one more part than separators.\<close>

fun split_on :: "char \<Rightarrow> string \<Rightarrow> string list" where
  "split_on c [] = [[]]"
| "split_on c (x # xs) =
     (if x = c then [] # split_on c xs
      else case split_on c xs of [] \<Rightarrow> [[x]] | p # ps \<Rightarrow> (x # p) # ps)"

fun join_with :: "char \<Rightarrow> string list \<Rightarrow> string" where
  "join_with c [] = []"
| "join_with c [p] = p"
| "join_with c (p # q # ps) = p @ c # join_with c (q # ps)"

lemma split_on_nonempty [simp]: "split_on c s \<noteq> []"
  by (induction s) (auto split: list.splits)

lemma split_on_no_sep: "p \<in> set (split_on c s) \<Longrightarrow> c \<notin> set p"
proof (induction s arbitrary: p)
  case (Cons x xs)
  then show ?case by (auto split: list.splits if_splits)
qed simp

lemma join_split [simp]: "join_with c (split_on c s) = s"
proof (induction s)
  case (Cons x xs)
  obtain p ps where sp: "split_on c xs = p # ps"
    by (metis list.exhaust split_on_nonempty)
  then show ?case using Cons.IH by (cases ps) auto
qed simp

lemma split_on_append_sep:
  "c \<notin> set p \<Longrightarrow> split_on c (p @ c # s) = p # split_on c s"
  by (induction p) auto

lemma split_on_atom: "c \<notin> set p \<Longrightarrow> split_on c p = [p]"
  by (induction p) auto

lemma split_join:
  "ps \<noteq> [] \<Longrightarrow> \<forall>p \<in> set ps. c \<notin> set p \<Longrightarrow> split_on c (join_with c ps) = ps"
  by (induction c ps rule: join_with.induct) (auto simp: split_on_append_sep split_on_atom)

text \<open>\<^verbatim>\<open>strings.Contains\<close> (substring).\<close>

fun containsb :: "string \<Rightarrow> string \<Rightarrow> bool" where
  "containsb p [] = (p = [])"
| "containsb p (x # xs) = (prefixb p (x # xs) \<or> containsb p xs)"

text \<open>\<^verbatim>\<open>strings.LastIndex\<close>: the greatest index at which \<open>p\<close> occurs in \<open>s\<close>.\<close>

fun last_index_from :: "nat \<Rightarrow> string \<Rightarrow> string \<Rightarrow> nat option" where
  "last_index_from i p [] = (if p = [] then Some i else None)"
| "last_index_from i p (x # xs) =
     (case last_index_from (Suc i) p xs of
        Some j \<Rightarrow> Some j
      | None \<Rightarrow> if prefixb p (x # xs) then Some i else None)"

text \<open>
  \<^verbatim>\<open>strings.TrimSpace\<close> on a string whose first and last bytes are ASCII: the six ASCII
  white-space bytes are cut off both ends.
\<close>

definition ascii_space :: "char \<Rightarrow> bool" where
  "ascii_space c \<longleftrightarrow> of_char c \<in> {9::nat, 10, 11, 12, 13, 32}"

definition trim_ascii :: "string \<Rightarrow> string" where
  "trim_ascii s = rev (dropWhile ascii_space (rev (dropWhile ascii_space s)))"

definition is_ascii :: "char \<Rightarrow> bool" where
  "is_ascii c \<longleftrightarrow> (of_char c :: nat) < 128"

definition lower_ascii_char :: "char \<Rightarrow> char" where
  "lower_ascii_char c = (let n = of_char c :: nat in if 65 \<le> n \<and> n \<le> 90 then char_of (n + 32) else c)"

lemma lower_ascii_char_idem [simp]: "lower_ascii_char (lower_ascii_char c) = lower_ascii_char c"
  by (auto simp: lower_ascii_char_def Let_def)

text \<open>Decimal digits, as \<^verbatim>\<open>%d\<close> prints an integer.\<close>

fun show_nat_aux :: "nat \<Rightarrow> nat \<Rightarrow> string" where
  "show_nat_aux 0 n = []"
| "show_nat_aux (Suc f) n =
     (if n < 10 then [char_of (48 + n)] else show_nat_aux f (n div 10) @ [char_of (48 + n mod 10)])"

definition show_nat :: "nat \<Rightarrow> string" where
  "show_nat n = show_nat_aux (Suc n) n"

definition show_int :: "int \<Rightarrow> string" where
  "show_int i = (if i < 0 then CHR ''-'' # show_nat (nat (- i)) else show_nat (nat i))"

subsection \<open>Lists\<close>

lemma find_Some_set: "find P xs = Some x \<Longrightarrow> x \<in> set xs \<and> P x"
  by (induction xs) (auto split: if_splits)

lemma find_filter_hd: "find P xs = (case filter P xs of [] \<Rightarrow> None | x # _ \<Rightarrow> Some x)"
  by (induction xs) auto

end
