(* ===== verification/Tables.thy ===== *)
theory Tables
  imports Prelude
begin

section \<open>SQL tables\<close>

text \<open>
  A table of the local SQLite store is the list of its rows in insertion (rowid) order. These are
  the statements the store uses on it: a keyed read, \<^verbatim>\<open>UPDATE .. WHERE\<close>,
  \<^verbatim>\<open>INSERT .. ON CONFLICT(key) DO UPDATE\<close> (with an optional \<^verbatim>\<open>WHERE\<close> inside the
  update function), \<^verbatim>\<open>INSERT OR IGNORE\<close> and \<^verbatim>\<open>DELETE .. WHERE\<close>. A unique key is the
  invariant \<open>uniq\<close>, which every statement keeps.
\<close>

definition tget :: "('r \<Rightarrow> 'k) \<Rightarrow> 'k \<Rightarrow> 'r list \<Rightarrow> 'r option" where
  "tget key k t = find (\<lambda>r. key r = k) t"

definition tmod :: "('r \<Rightarrow> bool) \<Rightarrow> ('r \<Rightarrow> 'r) \<Rightarrow> 'r list \<Rightarrow> 'r list" where
  "tmod P f t = map (\<lambda>r. if P r then f r else r) t"

definition tput :: "('r \<Rightarrow> 'k) \<Rightarrow> 'r \<Rightarrow> ('r \<Rightarrow> 'r) \<Rightarrow> 'r list \<Rightarrow> 'r list" where
  "tput key r f t =
     (if list_ex (\<lambda>x. key x = key r) t then tmod (\<lambda>x. key x = key r) f t else t @ [r])"

definition tins :: "('r \<Rightarrow> 'k) \<Rightarrow> 'r \<Rightarrow> 'r list \<Rightarrow> 'r list" where
  "tins key r t = (if list_ex (\<lambda>x. key x = key r) t then t else t @ [r])"

definition tdel :: "('r \<Rightarrow> bool) \<Rightarrow> 'r list \<Rightarrow> 'r list" where
  "tdel P t = filter (\<lambda>r. \<not> P r) t"

definition tcount :: "('r \<Rightarrow> bool) \<Rightarrow> 'r list \<Rightarrow> nat" where
  "tcount P t = length (filter P t)"

definition uniq :: "('r \<Rightarrow> 'k) \<Rightarrow> 'r list \<Rightarrow> bool" where
  "uniq key t \<longleftrightarrow> distinct (map key t)"

lemma tget_Nil [simp]: "tget key k [] = None"
  by (simp add: tget_def)

lemma tget_Cons [simp]: "tget key k (r # t) = (if key r = k then Some r else tget key k t)"
  by (simp add: tget_def)

lemma tget_append: "tget key k (s @ t) = (case tget key k s of None \<Rightarrow> tget key k t | x \<Rightarrow> x)"
  by (induction s) auto

lemma tget_SomeD: "tget key k t = Some r \<Longrightarrow> r \<in> set t \<and> key r = k"
  by (induction t) (auto split: if_splits)

lemma tget_None: "tget key k t = None \<longleftrightarrow> k \<notin> key ` set t"
  by (induction t) auto

lemma tget_uniq: "uniq key t \<Longrightarrow> tget key k t = Some r \<longleftrightarrow> r \<in> set t \<and> key r = k"
  by (induction t) (auto simp: uniq_def image_iff)

lemma ex_tget: "list_ex (\<lambda>x. key x = k) t \<longleftrightarrow> tget key k t \<noteq> None"
  by (induction t) auto

lemma tget_tmod:
  assumes "\<And>r. key (f r) = key r"
  shows "tget key k (tmod P f t) = map_option (\<lambda>r. if P r then f r else r) (tget key k t)"
  by (induction t) (auto simp: tmod_def assms)

lemma tget_tmod_eq:
  assumes "\<And>r. key (f r) = key r"
  shows "tget key k (tmod (\<lambda>r. key r = j) f t) =
     (if k = j then map_option f (tget key k t) else tget key k t)"
  by (induction t) (auto simp: tmod_def assms)

lemma tget_tput:
  assumes "\<And>x. key (f x) = key x"
  shows "tget key k (tput key r f t) =
     (if k = key r then (case tget key k t of None \<Rightarrow> Some r | Some x \<Rightarrow> Some (f x)) else tget key k t)"
proof (cases "list_ex (\<lambda>x. key x = key r) t")
  case True
  then show ?thesis
    by (auto simp: tput_def tget_tmod_eq [of key f, OF assms] ex_tget split: option.splits)
next
  case False
  then have "tget key (key r) t = None" by (simp add: ex_tget)
  then show ?thesis using False by (auto simp: tput_def tget_append split: option.splits)
qed

lemma tget_tins:
  "tget key k (tins key r t) = (if k = key r \<and> tget key k t = None then Some r else tget key k t)"
  by (auto simp: tins_def ex_tget tget_append split: option.splits)

lemma tget_tdel_other: "(\<And>r. r \<in> set t \<Longrightarrow> key r = k \<Longrightarrow> \<not> P r) \<Longrightarrow> tget key k (tdel P t) = tget key k t"
  by (induction t) (auto simp: tdel_def)

lemma tget_tdel_key: "tget key k (tdel (\<lambda>r. key r = k) t) = None"
  by (induction t) (auto simp: tdel_def)

lemma uniq_Nil [simp]: "uniq key []"
  by (simp add: uniq_def)

lemma uniq_tmod [sync_inv]: "(\<And>r. key (f r) = key r) \<Longrightarrow> uniq key (tmod P f t) \<longleftrightarrow> uniq key t"
proof -
  assume "\<And>r. key (f r) = key r"
  then have "map key (tmod P f t) = map key t" by (induction t) (auto simp: tmod_def)
  then show ?thesis by (simp add: uniq_def)
qed

lemma uniq_snoc: "uniq key (t @ [r]) \<longleftrightarrow> uniq key t \<and> tget key (key r) t = None"
  by (auto simp: uniq_def tget_None)

lemma uniq_tput [sync_inv]: "(\<And>x. key (f x) = key x) \<Longrightarrow> uniq key t \<Longrightarrow> uniq key (tput key r f t)"
  by (auto simp: tput_def uniq_tmod uniq_snoc ex_tget)

lemma uniq_tins [sync_inv]: "uniq key t \<Longrightarrow> uniq key (tins key r t)"
  by (auto simp: tins_def uniq_snoc ex_tget)

lemma uniq_tdel [sync_inv]: "uniq key t \<Longrightarrow> uniq key (tdel P t)"
  by (induction t) (auto simp: uniq_def tdel_def)

lemma in_tmod: "x \<in> set (tmod P f t) \<longleftrightarrow> (\<exists>r \<in> set t. x = (if P r then f r else r))"
  by (auto simp: tmod_def)

end
