(* ===== verification/Json.thy ===== *)
theory Json
  imports Prelude
begin

section \<open>JSON as the program uses it\<close>

text \<open>
  The part of Go's \<^verbatim>\<open>encoding/json\<close> that the event payloads and conflict details go through:
  \<^verbatim>\<open>json.Unmarshal\<close> of a text into a flat struct and \<^verbatim>\<open>json.Marshal\<close> of one. The parser
  works on the bytes of the text: white space, literals, numbers, strings with escapes and
  surrogate pairs (invalid UTF-8 and lone surrogates become U+FFFD), arrays and objects with Go's
  nesting limit of 10000. Each recursive call of the parser consumes a byte or hands over to the
  parser of the element, so a fuel of twice the length plus two is never exhausted. The printer
  escapes the way \<^verbatim>\<open>json.Marshal\<close> does (HTML characters and U+2028/U+2029 included).
\<close>

abbreviation nat_of :: "char \<Rightarrow> nat" where "nat_of \<equiv> of_char"
abbreviation chr :: "nat \<Rightarrow> char" where "chr \<equiv> char_of"

datatype json =
    JNull | JBool bool | JInt int | JNum string | JStr string
  | JArr "json list" | JObj "(string \<times> json) list"

subsection \<open>UTF-8\<close>

definition cont :: "nat \<Rightarrow> bool" where "cont n \<longleftrightarrow> 128 \<le> n \<and> n < 192"

text \<open>The length of the UTF-8 sequence at the head of a byte string, 0 where it is invalid
  (\<^verbatim>\<open>utf8.DecodeRune\<close>'s acceptance ranges).\<close>

definition rune_len :: "string \<Rightarrow> nat" where
  "rune_len s = (case map nat_of (take 4 s) of
       [] \<Rightarrow> 0
     | a # r \<Rightarrow>
        if a < 128 then 1
        else if 194 \<le> a \<and> a < 224
        then (case r of b # _ \<Rightarrow> if cont b then 2 else 0 | _ \<Rightarrow> 0)
        else if 224 \<le> a \<and> a < 240
        then (case r of b # c # _ \<Rightarrow>
                if cont b \<and> cont c \<and> (a = 224 \<longrightarrow> 160 \<le> b) \<and> (a = 237 \<longrightarrow> b < 160) then 3 else 0
              | _ \<Rightarrow> 0)
        else if 240 \<le> a \<and> a < 245
        then (case r of b # c # d # _ \<Rightarrow>
                if cont b \<and> cont c \<and> cont d \<and> (a = 240 \<longrightarrow> 144 \<le> b) \<and> (a = 244 \<longrightarrow> b < 144) then 4 else 0
              | _ \<Rightarrow> 0)
        else 0)"

definition utf8_encode :: "nat \<Rightarrow> string" where
  "utf8_encode n =
     (if n < 128 then [chr n]
      else if n < 2048 then [chr (192 + n div 64), chr (128 + n mod 64)]
      else if n < 65536 then
        [chr (224 + n div 4096), chr (128 + n div 64 mod 64), chr (128 + n mod 64)]
      else [chr (240 + n div 262144), chr (128 + n div 4096 mod 64),
            chr (128 + n div 64 mod 64), chr (128 + n mod 64)])"

definition replacement :: string where "replacement = [chr 239, chr 191, chr 189]"

subsection \<open>Parsing\<close>

definition json_ws :: "char \<Rightarrow> bool" where
  "json_ws c \<longleftrightarrow> nat_of c \<in> {32, 9, 10, 13}"

definition skip_ws :: "string \<Rightarrow> string" where
  "skip_ws s = dropWhile json_ws s"

definition is_digit :: "char \<Rightarrow> bool" where
  "is_digit c \<longleftrightarrow> 48 \<le> nat_of c \<and> nat_of c \<le> 57"

definition hex_val :: "char \<Rightarrow> nat option" where
  "hex_val c = (let n = nat_of c in
     if 48 \<le> n \<and> n \<le> 57 then Some (n - 48)
     else if 97 \<le> n \<and> n \<le> 102 then Some (n - 87)
     else if 65 \<le> n \<and> n \<le> 70 then Some (n - 55)
     else None)"

fun hex4 :: "string \<Rightarrow> (nat \<times> string) option" where
  "hex4 (a # b # c # d # s) =
     (case (hex_val a, hex_val b, hex_val c, hex_val d) of
        (Some w, Some x, Some y, Some z) \<Rightarrow> Some (((w * 16 + x) * 16 + y) * 16 + z, s)
      | _ \<Rightarrow> None)"
| "hex4 _ = None"

text \<open>After \<^verbatim>\<open>\u\<close> and its four digits: a high surrogate followed by an escaped low one is one
  rune, any other surrogate is U+FFFD and the following escape is read again.\<close>

definition unicode_escape :: "nat \<Rightarrow> string \<Rightarrow> string \<times> string" where
  "unicode_escape n s =
     (if 55296 \<le> n \<and> n < 57344 then
        (case s of a # b # s' \<Rightarrow>
            if n < 56320 \<and> nat_of a = 92 \<and> nat_of b = 117 then
              (case hex4 s' of
                 Some (m, s'') \<Rightarrow>
                   if 56320 \<le> m \<and> m < 57344
                   then (utf8_encode (65536 + (n - 55296) * 1024 + (m - 56320)), s'')
                   else (replacement, s)
               | None \<Rightarrow> (replacement, s))
            else (replacement, s)
         | _ \<Rightarrow> (replacement, s))
      else (utf8_encode n, s))"

definition simple_escape :: "nat \<Rightarrow> char option" where
  "simple_escape n =
     (if n \<in> {34, 47, 92} then Some (chr n)
      else if n = 98 then Some (chr 8) else if n = 102 then Some (chr 12)
      else if n = 110 then Some (chr 10) else if n = 114 then Some (chr 13)
      else if n = 116 then Some (chr 9) else None)"

definition cons_fst :: "string \<Rightarrow> (string \<times> string) option \<Rightarrow> (string \<times> string) option" where
  "cons_fst p r = map_option (\<lambda>(x, s). (p @ x, s)) r"

text \<open>The rest of a string literal after its opening quote.\<close>

fun parse_str :: "nat \<Rightarrow> string \<Rightarrow> (string \<times> string) option" where
  "parse_str 0 s = None"
| "parse_str (Suc k) [] = None"
| "parse_str (Suc k) (c # s) =
     (let n = nat_of c in
      if n = 34 then Some ([], s)
      else if n < 32 then None
      else if n = 92 then
        (case s of
           [] \<Rightarrow> None
         | e # s' \<Rightarrow>
             if nat_of e = 117 then
               (case hex4 s' of
                  None \<Rightarrow> None
                | Some (m, s'') \<Rightarrow> let (u, t) = unicode_escape m s'' in cons_fst u (parse_str k t))
             else (case simple_escape (nat_of e) of
                     Some x \<Rightarrow> cons_fst [x] (parse_str k s')
                   | None \<Rightarrow> None))
      else if n < 128 then cons_fst [c] (parse_str k s)
      else (let l = rune_len (c # s) in
            if l = 0 then cons_fst replacement (parse_str k s)
            else cons_fst (take l (c # s)) (parse_str k (drop l (c # s)))))"

definition digits_val :: "string \<Rightarrow> nat" where
  "digits_val ds = foldl (\<lambda>a d. a * 10 + (nat_of d - 48)) 0 ds"

text \<open>A number literal: an integer unless it has a fraction or an exponent.\<close>

definition parse_frac :: "string \<Rightarrow> (string \<times> string) option" where
  "parse_frac s = (case s of
       c # r \<Rightarrow> if nat_of c = 46
                then (let ds = takeWhile is_digit r in
                      if ds = [] then None else Some (c # ds, dropWhile is_digit r))
                else Some ([], s)
     | [] \<Rightarrow> Some ([], s))"

definition parse_exp :: "string \<Rightarrow> (string \<times> string) option" where
  "parse_exp s = (case s of
       c # r \<Rightarrow> if nat_of c \<in> {69, 101}
                then (let sg = (case r of x # _ \<Rightarrow> if nat_of x \<in> {43, 45} then [x] else [] | [] \<Rightarrow> []);
                          r' = drop (length sg) r; ds = takeWhile is_digit r' in
                      if ds = [] then None else Some (c # sg @ ds, dropWhile is_digit r'))
                else Some ([], s)
     | [] \<Rightarrow> Some ([], s))"

definition parse_num :: "string \<Rightarrow> (json \<times> string) option" where
  "parse_num s0 =
     (let neg = (case s0 of c # _ \<Rightarrow> nat_of c = 45 | [] \<Rightarrow> False);
          s = (if neg then tl s0 else s0);
          ds = takeWhile is_digit s; r = dropWhile is_digit s
      in if ds = [] then None
         else if nat_of (hd ds) = 48 \<and> length ds > 1 then None
         else case parse_frac r of
                None \<Rightarrow> None
              | Some (fr, r1) \<Rightarrow>
                 (case parse_exp r1 of
                    None \<Rightarrow> None
                  | Some (ex, r2) \<Rightarrow>
                      if fr = [] \<and> ex = []
                      then Some (JInt (if neg then - int (digits_val ds) else int (digits_val ds)), r2)
                      else Some (JNum ((if neg then ''-'' else []) @ ds @ fr @ ex), r2)))"

definition max_depth :: nat where "max_depth = 10000"

fun parse_val :: "nat \<Rightarrow> nat \<Rightarrow> string \<Rightarrow> (json \<times> string) option"
and parse_elems :: "nat \<Rightarrow> nat \<Rightarrow> string \<Rightarrow> (json list \<times> string) option"
and parse_members :: "nat \<Rightarrow> nat \<Rightarrow> string \<Rightarrow> ((string \<times> json) list \<times> string) option" where
  "parse_val 0 d s = None"
| "parse_val (Suc k) d s =
     (case skip_ws s of
        [] \<Rightarrow> None
      | c # r \<Rightarrow>
         let n = nat_of c in
         if n = 34 then map_option (\<lambda>(x, t). (JStr x, t)) (parse_str (Suc (length r)) r)
         else if n = 123 then
           (if d \<ge> max_depth then None
            else case skip_ws r of
                   x # t \<Rightarrow> if nat_of x = 125 then Some (JObj [], t)
                            else map_option (\<lambda>(m, u). (JObj m, u)) (parse_members k (Suc d) r)
                 | [] \<Rightarrow> None)
         else if n = 91 then
           (if d \<ge> max_depth then None
            else case skip_ws r of
                   x # t \<Rightarrow> if nat_of x = 93 then Some (JArr [], t)
                            else map_option (\<lambda>(m, u). (JArr m, u)) (parse_elems k (Suc d) r)
                 | [] \<Rightarrow> None)
         else if prefixb ''null'' (c # r) then Some (JNull, drop 4 (c # r))
         else if prefixb ''true'' (c # r) then Some (JBool True, drop 4 (c # r))
         else if prefixb ''false'' (c # r) then Some (JBool False, drop 5 (c # r))
         else parse_num (c # r))"
| "parse_elems 0 d s = None"
| "parse_elems (Suc k) d s =
     (case parse_val k d s of
        None \<Rightarrow> None
      | Some (v, r) \<Rightarrow>
         (case skip_ws r of
            x # t \<Rightarrow> if nat_of x = 93 then Some ([v], t)
                     else if nat_of x = 44
                     then map_option (\<lambda>(vs, u). (v # vs, u)) (parse_elems k d t)
                     else None
          | [] \<Rightarrow> None))"
| "parse_members 0 d s = None"
| "parse_members (Suc k) d s =
     (case skip_ws s of
        q # r \<Rightarrow>
          if nat_of q \<noteq> 34 then None
          else (case parse_str (Suc (length r)) r of
                  None \<Rightarrow> None
                | Some (key, r1) \<Rightarrow>
                   (case skip_ws r1 of
                      x # r2 \<Rightarrow>
                        if nat_of x \<noteq> 58 then None
                        else (case parse_val k d r2 of
                                None \<Rightarrow> None
                              | Some (v, r3) \<Rightarrow>
                                 (case skip_ws r3 of
                                    y # t \<Rightarrow>
                                      if nat_of y = 125 then Some ([(key, v)], t)
                                      else if nat_of y = 44
                                      then map_option (\<lambda>(ms, u). ((key, v) # ms, u)) (parse_members k d t)
                                      else None
                                  | [] \<Rightarrow> None))
                    | [] \<Rightarrow> None))
      | [] \<Rightarrow> None)"

definition parse_json :: "string \<Rightarrow> json option" where
  "parse_json s = (case parse_val (2 * length s + 2) 0 s of
       Some (v, r) \<Rightarrow> if skip_ws r = [] then Some v else None
     | None \<Rightarrow> None)"

subsection \<open>Unmarshal into a struct\<close>

text \<open>
  Field names match after \<^verbatim>\<open>encoding/json\<close>'s folding: ASCII letters by their upper case, and
  the two non-ASCII runes that fold to ASCII (long s, Kelvin sign).
\<close>

fun fold_name :: "string \<Rightarrow> string" where
  "fold_name [] = []"
| "fold_name (c # s) =
     (let n = nat_of c in
      if 97 \<le> n \<and> n \<le> 122 then chr (n - 32) # fold_name s
      else if n = 197 \<and> map nat_of (take 1 s) = [191] then CHR ''S'' # fold_name (drop 1 s)
      else if n = 226 \<and> map nat_of (take 2 s) = [132, 170] then CHR ''K'' # fold_name (drop 2 s)
      else c # fold_name s)"

text \<open>
  A struct decoder is the list of its fields: the JSON name and what a value stored under it does
  to the struct. \<^verbatim>\<open>null\<close> leaves a scalar field as it is; a value of another JSON type is an
  error, and so is an integer outside int64 (\<^verbatim>\<open>Unmarshal\<close> stores what it can and returns the
  error; every caller drops the struct then).
\<close>

type_synonym 'r field = "string \<times> (json \<Rightarrow> 'r \<Rightarrow> 'r option)"

definition str_field :: "string \<Rightarrow> ((string \<Rightarrow> string) \<Rightarrow> 'r \<Rightarrow> 'r) \<Rightarrow> 'r field" where
  "str_field name upd = (name, \<lambda>j r. case j of
     JNull \<Rightarrow> Some r | JStr s \<Rightarrow> Some (upd (\<lambda>_. s) r) | _ \<Rightarrow> None)"

definition int_field :: "string \<Rightarrow> ((int \<Rightarrow> int) \<Rightarrow> 'r \<Rightarrow> 'r) \<Rightarrow> 'r field" where
  "int_field name upd = (name, \<lambda>j r. case j of
     JNull \<Rightarrow> Some r | JInt i \<Rightarrow> if int64 i then Some (upd (\<lambda>_. i) r) else None | _ \<Rightarrow> None)"

definition strs_of :: "json list \<Rightarrow> string list option" where
  "strs_of vs = those (map (\<lambda>j. case j of JStr s \<Rightarrow> Some s | JNull \<Rightarrow> Some [] | _ \<Rightarrow> None) vs)"

definition strs_field :: "string \<Rightarrow> ((string list \<Rightarrow> string list) \<Rightarrow> 'r \<Rightarrow> 'r) \<Rightarrow> 'r field" where
  "strs_field name upd = (name, \<lambda>j r. case j of
     JNull \<Rightarrow> Some (upd (\<lambda>_. []) r)
   | JArr vs \<Rightarrow> map_option (\<lambda>ss. upd (\<lambda>_. ss) r) (strs_of vs)
   | _ \<Rightarrow> None)"

text \<open>\<^verbatim>\<open>map[string]string\<close>: as an association list without duplicate keys; a JSON object is
  merged into what an earlier occurrence of the field stored.\<close>

fun put_assoc :: "string \<Rightarrow> 'v \<Rightarrow> (string \<times> 'v) list \<Rightarrow> (string \<times> 'v) list" where
  "put_assoc k v [] = [(k, v)]"
| "put_assoc k v ((k', v') # m) = (if k' = k then (k, v) # m else (k', v') # put_assoc k v m)"

fun map_of_members :: "(string \<times> json) list \<Rightarrow> (string \<times> string) list \<Rightarrow> (string \<times> string) list option" where
  "map_of_members [] m = Some m"
| "map_of_members ((k, j) # ms) m =
     (case j of JStr s \<Rightarrow> map_of_members ms (put_assoc k s m)
      | JNull \<Rightarrow> map_of_members ms (put_assoc k [] m)
      | _ \<Rightarrow> None)"

definition map_field ::
  "string \<Rightarrow> ((((string \<times> string) list) \<Rightarrow> (string \<times> string) list) \<Rightarrow> 'r \<Rightarrow> 'r) \<Rightarrow> ('r \<Rightarrow> (string \<times> string) list) \<Rightarrow> 'r field" where
  "map_field name upd get = (name, \<lambda>j r. case j of
     JNull \<Rightarrow> Some (upd (\<lambda>_. []) r)
   | JObj ms \<Rightarrow> map_option (\<lambda>m. upd (\<lambda>_. m) r) (map_of_members ms (get r))
   | _ \<Rightarrow> None)"

fun int_map_of_members :: "(string \<times> json) list \<Rightarrow> (string \<times> int) list \<Rightarrow> (string \<times> int) list option" where
  "int_map_of_members [] m = Some m"
| "int_map_of_members ((k, j) # ms) m =
     (case j of JInt i \<Rightarrow> if int64 i then int_map_of_members ms (put_assoc k i m) else None
      | JNull \<Rightarrow> int_map_of_members ms (put_assoc k 0 m)
      | _ \<Rightarrow> None)"

text \<open>\<^verbatim>\<open>map[string]int64\<close>, where the code tells a nil map from an empty one.\<close>

definition int_map_field ::
  "string \<Rightarrow> (((string \<times> int) list option \<Rightarrow> (string \<times> int) list option) \<Rightarrow> 'r \<Rightarrow> 'r) \<Rightarrow>
     ('r \<Rightarrow> (string \<times> int) list option) \<Rightarrow> 'r field" where
  "int_map_field name upd get = (name, \<lambda>j r. case j of
     JNull \<Rightarrow> Some (upd (\<lambda>_. None) r)
   | JObj ms \<Rightarrow> map_option (\<lambda>m. upd (\<lambda>_. Some m) r)
       (int_map_of_members ms (case get r of None \<Rightarrow> [] | Some m \<Rightarrow> m))
   | _ \<Rightarrow> None)"

definition set_field :: "'r field list \<Rightarrow> string \<Rightarrow> json \<Rightarrow> 'r \<Rightarrow> 'r option" where
  "set_field fs key j r =
     (case find (\<lambda>f. fold_name (fst f) = fold_name key) fs of
        None \<Rightarrow> Some r
      | Some f \<Rightarrow> snd f j r)"

fun set_fields :: "'r field list \<Rightarrow> (string \<times> json) list \<Rightarrow> 'r \<Rightarrow> 'r option" where
  "set_fields fs [] r = Some r"
| "set_fields fs ((k, j) # ms) r =
     (case set_field fs k j r of None \<Rightarrow> None | Some r' \<Rightarrow> set_fields fs ms r')"

definition unmarshal :: "'r field list \<Rightarrow> 'r \<Rightarrow> string \<Rightarrow> 'r option" where
  "unmarshal fs zero text =
     (case parse_json text of
        Some JNull \<Rightarrow> Some zero
      | Some (JObj ms) \<Rightarrow> set_fields fs ms zero
      | _ \<Rightarrow> None)"

subsection \<open>Marshal\<close>

definition hex_digit :: "nat \<Rightarrow> char" where
  "hex_digit n = (if n < 10 then chr (48 + n) else chr (87 + n))"

definition escape_ascii :: "char \<Rightarrow> string" where
  "escape_ascii c = (let n = nat_of c in
     if n = 34 \<or> n = 92 then [chr 92, c]
     else if n = 8 then [chr 92, CHR ''b''] else if n = 12 then [chr 92, CHR ''f'']
     else if n = 10 then [chr 92, CHR ''n''] else if n = 13 then [chr 92, CHR ''r'']
     else if n = 9 then [chr 92, CHR ''t'']
     else if n < 32 \<or> n = 60 \<or> n = 62 \<or> n = 38
     then [chr 92, CHR ''u'', CHR ''0'', CHR ''0'', hex_digit (n div 16), hex_digit (n mod 16)]
     else [c])"

fun quote_chars :: "nat \<Rightarrow> string \<Rightarrow> string" where
  "quote_chars 0 s = []"
| "quote_chars (Suc k) [] = []"
| "quote_chars (Suc k) (c # s) =
     (if is_ascii c then escape_ascii c @ quote_chars k s
      else let l = rune_len (c # s) in
        if l = 0 then chr 92 # ''ufffd'' @ quote_chars k s
        else (let u = map nat_of (take l (c # s));
                  t = (if u = [226, 128, 168] then chr 92 # ''u2028''
                       else if u = [226, 128, 169] then chr 92 # ''u2029''
                       else take l (c # s))
              in t @ quote_chars k (drop l (c # s))))"

definition json_quote :: "string \<Rightarrow> string" where
  "json_quote s = chr 34 # quote_chars (length s) s @ [chr 34]"

text \<open>The value of one struct field, \<open>None\<close> when \<^verbatim>\<open>omitempty\<close> leaves it out.\<close>

definition jstr :: "string \<Rightarrow> string \<Rightarrow> (string \<times> string) option" where
  "jstr name v = Some (name, json_quote v)"

definition jstr_opt :: "string \<Rightarrow> string \<Rightarrow> (string \<times> string) option" where
  "jstr_opt name v = (if v = [] then None else Some (name, json_quote v))"

definition jint :: "string \<Rightarrow> int \<Rightarrow> (string \<times> string) option" where
  "jint name v = Some (name, show_int v)"

definition jint_opt :: "string \<Rightarrow> int \<Rightarrow> (string \<times> string) option" where
  "jint_opt name v = (if v = 0 then None else Some (name, show_int v))"

fun join_commas :: "string list \<Rightarrow> string" where
  "join_commas [] = []"
| "join_commas [p] = p"
| "join_commas (p # q # ps) = p @ '','' @ join_commas (q # ps)"

definition marshal_obj :: "(string \<times> string) option list \<Rightarrow> string" where
  "marshal_obj fs =
     ''{'' @ join_commas (map (\<lambda>(k, v). json_quote k @ '':'' @ v) (List.map_filter id fs)) @ ''}''"

text \<open>\<^verbatim>\<open>hex.EncodeToString\<close> and \<^verbatim>\<open>hex.DecodeString\<close>.\<close>

fun hex_enc :: "string \<Rightarrow> string" where
  "hex_enc [] = []"
| "hex_enc (c # s) = hex_digit (nat_of c div 16) # hex_digit (nat_of c mod 16) # hex_enc s"

fun hex_dec :: "string \<Rightarrow> string option" where
  "hex_dec [] = Some []"
| "hex_dec [c] = None"
| "hex_dec (a # b # s) = (case (hex_val a, hex_val b, hex_dec s) of
     (Some x, Some y, Some t) \<Rightarrow> Some (chr (16 * x + y) # t) | _ \<Rightarrow> None)"

subsection \<open>What Marshal writes, Unmarshal reads\<close>


lemma nat_of_inj: "nat_of c = n \<Longrightarrow> c = chr n"
  by (metis char_of_char)

lemma chr_less: "n < 256 \<Longrightarrow> nat_of (chr n) = n"
  by simp

lemma hex_val_digit: "n < 16 \<Longrightarrow> hex_val (hex_digit n) = Some n"
  by (auto simp: hex_digit_def hex_val_def Let_def)

lemma nat_of_256: "nat_of c < 256"
  using of_char_mod_256 [of c] by (metis mod_less_divisor zero_less_numeral)

lemma hex_dec_enc [simp]: "hex_dec (hex_enc s) = Some s"
proof (induction s)
  case (Cons c s)
  have "nat_of c div 16 < 16" using nat_of_256 [of c] by (simp add: less_mult_imp_div_less)
  then show ?case using Cons by (simp add: hex_val_digit)
qed simp

lemma hex_enc_inj [simp]: "hex_enc s = hex_enc t \<longleftrightarrow> s = t"
  by (metis hex_dec_enc option.inject)

lemma parse_str_escape:
  assumes "is_ascii c"
  shows "parse_str (Suc k) (escape_ascii c @ r) = cons_fst [c] (parse_str k r)"
proof -
  let ?n = "nat_of c"
  have n: "?n < 128" using assms by (simp add: is_ascii_def)
  have c: "c = chr ?n" by simp
  consider "?n = 34" | "?n = 92" | "?n = 8" | "?n = 12" | "?n = 10" | "?n = 13" | "?n = 9"
    | (u) "?n \<notin> {34, 92, 8, 12, 10, 13, 9}" "?n < 32 \<or> ?n \<in> {60, 62, 38}"
    | (plain) "?n \<notin> {34, 92, 60, 62, 38}" "\<not> ?n < 32" by auto
  then show ?thesis
  proof cases
    case u
    have h: "hex_val (hex_digit (?n div 16)) = Some (?n div 16)"
      "hex_val (hex_digit (?n mod 16)) = Some (?n mod 16)"
      using n by (auto intro!: hex_val_digit)
    have "hex4 (CHR ''0'' # CHR ''0'' # hex_digit (?n div 16) # hex_digit (?n mod 16) # r) = Some (?n, r)"
      using h by (simp add: hex_val_def)
    moreover have "unicode_escape ?n r = ([c], r)"
      using n by (simp add: unicode_escape_def utf8_encode_def)
    ultimately show ?thesis
      using u by (auto simp: escape_ascii_def Let_def chr_less)
  next
    case plain
    then show ?thesis using n by (auto simp: escape_ascii_def Let_def)
  qed (auto simp: escape_ascii_def simple_escape_def dest!: nat_of_inj)
qed


definition ascii_str :: "string \<Rightarrow> bool" where
  "ascii_str s \<longleftrightarrow> (\<forall>c \<in> set s. is_ascii c)"

lemma ascii_str_simps [simp]:
  "ascii_str []" "ascii_str (c # s) \<longleftrightarrow> is_ascii c \<and> ascii_str s"
  "ascii_str (s @ t) \<longleftrightarrow> ascii_str s \<and> ascii_str t"
  by (auto simp: ascii_str_def)

lemma parse_str_quote:
  assumes "ascii_str s" "length s < k"
  shows "parse_str k (quote_chars (length s) s @ chr 34 # r) = Some (s, r)"
  using assms
proof (induction s arbitrary: k)
  case Nil
  then show ?case by (cases k) auto
next
  case (Cons c s)
  then obtain k' where k: "k = Suc k'" by (cases k) auto
  then show ?case using Cons by (simp add: parse_str_escape cons_fst_def)
qed

lemma length_escape: "1 \<le> length (escape_ascii c)"
  by (simp add: escape_ascii_def Let_def)

lemma length_quote_chars: "ascii_str s \<Longrightarrow> length s \<le> length (quote_chars (length s) s)"
proof (induction s)
  case (Cons c s)
  then show ?case using length_escape [of c] by simp
qed simp

lemma parse_val_quote:
  assumes "ascii_str s"
  shows "parse_val (Suc k) d (json_quote s @ r) = Some (JStr s, r)"
  using assms length_quote_chars [OF assms]
  by (simp add: json_quote_def skip_ws_def json_ws_def parse_str_quote)

lemma foldl_digits: "foldl (\<lambda>a d. a * 10 + (nat_of d - 48)) a (xs @ ys) =
    foldl (\<lambda>a d. a * 10 + (nat_of d - 48)) (foldl (\<lambda>a d. a * 10 + (nat_of d - 48)) a xs) ys"
  by simp

lemma show_nat_aux_digits:
  "n < f \<Longrightarrow> digits_val (show_nat_aux f n) = n \<and> show_nat_aux f n \<noteq> [] \<and>
     (\<forall>c \<in> set (show_nat_aux f n). is_digit c) \<and>
     (nat_of (hd (show_nat_aux f n)) = 48 \<longrightarrow> n = 0)"
proof (induction f arbitrary: n)
  case (Suc f)
  show ?case
  proof (cases "n < 10")
    case True
    then show ?thesis by (simp add: digits_val_def is_digit_def)
  next
    case False
    then have lt: "n div 10 < f" using Suc.prems by auto
    note IH = Suc.IH [OF lt]
    have d: "48 + n mod 10 < 256" "48 + n mod 10 \<le> 57" by (auto simp: less_Suc_eq_le)
    show ?thesis using IH False d by (auto simp: digits_val_def is_digit_def)
  qed
qed simp

lemmas show_nat_digits = show_nat_aux_digits [of n "Suc n" for n, folded show_nat_def, simplified]

lemma show_nat_zero_len: "nat_of (hd (show_nat n)) = 48 \<Longrightarrow> length (show_nat n) = 1"
  using show_nat_digits [of n] by (auto simp: show_nat_def)

definition delim :: "string \<Rightarrow> bool" where
  "delim r \<longleftrightarrow> (\<forall>c t. r = c # t \<longrightarrow> nat_of c \<in> {44, 93, 125})"

lemma parse_num_show_nat:
  assumes "delim r"
  shows "parse_num (show_nat n @ r) = Some (JInt (int n), r)"
proof -
  have c: "nat_of c \<in> {44, 93, 125}" "\<not> is_digit c" if "r = c # t" for c t
    using assms that by (auto simp: delim_def is_digit_def)
  note D = show_nat_digits [of n]
  obtain x xs where sn: "show_nat n = x # xs" using D by (cases "show_nat n") auto
  have x: "nat_of x \<noteq> 45" using D sn by (auto simp: is_digit_def)
  have tw: "takeWhile is_digit (show_nat n @ r) = show_nat n"
    "dropWhile is_digit (show_nat n @ r) = r"
    using D c by (cases r; simp add: takeWhile_append2 dropWhile_append2)+
  have neg: "(case show_nat n @ r of c # _ \<Rightarrow> nat_of c = 45 | [] \<Rightarrow> False) = False"
    using sn x by simp
  have fr: "parse_frac r = Some ([], r)" "parse_exp r = Some ([], r)"
    using c by (cases r; auto simp: parse_frac_def parse_exp_def)+
  have z: "\<not> (nat_of (hd (show_nat n)) = 48 \<and> length (show_nat n) > 1)"
    using show_nat_zero_len [of n] by auto
  show ?thesis
    unfolding parse_num_def Let_def neg if_False tw fr option.case prod.case
    using D z by simp
qed

lemma parse_num_show_int:
  assumes "delim r"
  shows "parse_num (show_int i @ r) = Some (JInt i, r)"
proof (cases "i < 0")
  case True
  have c: "nat_of c \<in> {44, 93, 125}" "\<not> is_digit c" if "r = c # t" for c t
    using assms that by (auto simp: delim_def is_digit_def)
  let ?n = "nat (- i)"
  note D = show_nat_digits [of ?n]
  have tw: "takeWhile is_digit (show_nat ?n @ r) = show_nat ?n"
    "dropWhile is_digit (show_nat ?n @ r) = r"
    using D c by (cases r; simp add: takeWhile_append2 dropWhile_append2)+
  have fr: "parse_frac r = Some ([], r)" "parse_exp r = Some ([], r)"
    using c by (cases r; auto simp: parse_frac_def parse_exp_def)+
  have z: "\<not> (nat_of (hd (show_nat ?n)) = 48 \<and> length (show_nat ?n) > 1)"
    using show_nat_zero_len [of ?n] by auto
  have s: "show_int i @ r = CHR ''-'' # (show_nat ?n @ r)" using True by (simp add: show_int_def)
  show ?thesis
    unfolding s parse_num_def Let_def list.case
    using D z True by (simp add: tw fr)
next
  case False
  then show ?thesis by (simp add: show_int_def parse_num_show_nat assms)
qed


text \<open>A rendered value: read back wherever a struct field can stand.\<close>

definition renders :: "string \<Rightarrow> json \<Rightarrow> bool" where
  "renders v j \<longleftrightarrow> (\<forall>k d r. delim r \<longrightarrow> parse_val (Suc k) d (v @ r) = Some (j, r))"

lemma renders_quote: "ascii_str s \<Longrightarrow> renders (json_quote s) (JStr s)"
  unfolding renders_def by (intro allI impI) (rule parse_val_quote)

lemma show_int_head:
  obtains c t where "show_int i = c # t" "nat_of c = 45 \<or> is_digit c"
proof (cases "i < 0")
  case True
  then show ?thesis using that by (simp add: show_int_def)
next
  case False
  then show ?thesis using that show_nat_digits [of "nat i"]
    by (cases "show_nat (nat i)") (auto simp: show_int_def)
qed

lemma renders_int: "renders (show_int i) (JInt i)"
proof -
  obtain c t where s: "show_int i = c # t" and c: "nat_of c = 45 \<or> is_digit c"
    by (rule show_int_head)
  have n: "nat_of c \<notin> {34, 123, 91, 32, 9, 10, 13}" using c by (auto simp: is_digit_def)
  have ch: "c \<noteq> CHR ''n'' \<and> c \<noteq> CHR ''t'' \<and> c \<noteq> CHR ''f''"
    using c by (auto simp: is_digit_def)
  have pre: "\<not> prefixb ''null'' (c # t @ r)" "\<not> prefixb ''true'' (c # t @ r)"
    "\<not> prefixb ''false'' (c # t @ r)" for r
    using ch by (auto simp: prefixb_def)
  have "parse_val (Suc k) d (show_int i @ r) = Some (JInt i, r)" if "delim r" for k d r
  proof -
    have "skip_ws (show_int i @ r) = c # t @ r" using s n by (simp add: skip_ws_def json_ws_def)
    then have "parse_val (Suc k) d (show_int i @ r) = parse_num (show_int i @ r)"
      using n pre s by (simp add: Let_def)
    then show ?thesis using parse_num_show_int [OF that] by simp
  qed
  then show ?thesis by (simp add: renders_def)
qed

definition obj_body :: "(string \<times> string) list \<Rightarrow> string" where
  "obj_body fs = join_commas (map (\<lambda>(k, v). json_quote k @ '':'' @ v) fs)"

lemma ws_quote [simp]: "skip_ws (json_quote s @ r) = json_quote s @ r" "skip_ws (chr 34 # r) = chr 34 # r"
  by (simp_all add: json_quote_def skip_ws_def json_ws_def)

lemma parse_members_body:
  assumes "fs \<noteq> []" "length fs < n"
    and "list_all2 (\<lambda>(k, v) (k', j). k' = k \<and> ascii_str k \<and> renders v j) fs ms"
  shows "parse_members n d (obj_body fs @ CHR ''}'' # r) = Some (ms, r)"
  using assms
proof (induction fs arbitrary: n ms)
  case (Cons f fs)
  obtain k v where f: "f = (k, v)" by (cases f)
  from Cons.prems(3) obtain j ms' where ms: "ms = (k, j) # ms'" and k: "ascii_str k" and v: "renders v j"
    and tl: "list_all2 (\<lambda>(k, v) (k', j). k' = k \<and> ascii_str k \<and> renders v j) fs ms'"
    by (auto simp: f list_all2_Cons1)
  obtain n' where n: "n = Suc (Suc n')" using Cons.prems(2) by (cases n; cases "n - 1") auto
  have key: "parse_str (Suc (length (quote_chars (length k) k @ chr 34 # u)))
      (quote_chars (length k) k @ chr 34 # u) = Some (k, u)" for u
    using length_quote_chars [OF k] by (intro parse_str_quote [OF k]) simp
  have col: "skip_ws (CHR '':'' # u) = CHR '':'' # u" "skip_ws (CHR ''}'' # u) = CHR ''}'' # u"
    "skip_ws (CHR '','' # u) = CHR '','' # u" for u
    by (simp_all add: skip_ws_def json_ws_def)
  show ?case
  proof (cases fs)
    case Nil
    have "parse_val (Suc n') d (v @ CHR ''}'' # r) = Some (j, CHR ''}'' # r)"
      using v by (auto simp: renders_def delim_def)
    then show ?thesis
      using tl key [of "CHR '':'' # v @ CHR ''}'' # r"] unfolding f Nil n ms
      by (simp add: obj_body_def json_quote_def col del: parse_val.simps(2))
  next
    case (Cons g gs)
    have body: "obj_body (f # fs) = json_quote k @ '':'' @ v @ '','' @ obj_body fs"
      by (simp add: obj_body_def f Cons)
    have "parse_val (Suc n') d (v @ CHR '','' # obj_body fs @ CHR ''}'' # r) =
        Some (j, CHR '','' # obj_body fs @ CHR ''}'' # r)"
      using v by (auto simp: renders_def delim_def)
    moreover have "parse_members (Suc n') d (obj_body fs @ CHR ''}'' # r) = Some (ms', r)"
      by (rule Cons.IH [OF _ _ tl]) (use Cons.prems(2) n Cons in simp_all)
    ultimately show ?thesis
      using key [of "CHR '':'' # v @ CHR '','' # obj_body fs @ CHR ''}'' # r"] unfolding body n ms
      by (simp add: json_quote_def col del: parse_val.simps(2))
  qed
qed simp

lemma length_join_commas: "length ps \<le> Suc (length (join_commas ps))"
  by (induction ps rule: join_commas.induct) auto

lemma parse_marshal_obj:
  assumes "list_all2 (\<lambda>(k, v) (k', j). k' = k \<and> ascii_str k \<and> renders v j) (List.map_filter id fs) ms"
  shows "parse_json (marshal_obj fs) = Some (JObj ms)"
proof -
  let ?b = "List.map_filter id fs"
  have m: "marshal_obj fs = CHR ''{'' # obj_body ?b @ ''}''"
    by (simp add: marshal_obj_def obj_body_def)
  show ?thesis
  proof (cases ?b)
    case Nil
    then show ?thesis using assms unfolding m parse_json_def
      by (simp add: obj_body_def skip_ws_def json_ws_def max_depth_def eval_nat_numeral)
  next
    case (Cons f gs)
    obtain k v where f: "f = (k, v)" by (cases f)
    have n: "length ?b < 2 * length (marshal_obj fs) + 1"
      using length_join_commas [of "map (\<lambda>(k, v). json_quote k @ '':'' @ v) ?b"]
      unfolding m by (simp add: obj_body_def)
    have p: "parse_members (2 * length (marshal_obj fs) + 1) (Suc 0) (obj_body ?b @ ''}'') = Some (ms, [])"
      by (rule parse_members_body [OF _ n assms]) (simp add: Cons)
    obtain u where u: "obj_body ?b @ ''}'' = chr 34 # u"
      by (cases gs) (auto simp: obj_body_def Cons f json_quote_def)
    have "parse_val (2 * length (marshal_obj fs) + 2) 0 (marshal_obj fs) = Some (JObj ms, [])"
      using p unfolding u m [unfolded u]
      by (simp add: numeral_2_eq_2 skip_ws_def json_ws_def max_depth_def del: parse_members.simps)
    then show ?thesis by (simp add: parse_json_def skip_ws_def)
  qed
qed

end
