(* ===== verification/Pathkey.thy ===== *)
theory Pathkey
  imports Json
begin

section \<open>The world, and namespace paths\<close>

text \<open>
  \<^verbatim>\<open>src/internal/pathkey/pathkey.go\<close>, with the staging-directory test of
  \<^verbatim>\<open>src/internal/ignore/ignore.go\<close> that \<^verbatim>\<open>Clean\<close> calls. Paths are slash-separated Unix
  paths, so \<^verbatim>\<open>filepath.ToSlash\<close> is the identity and \<^verbatim>\<open>filepath.IsAbs\<close> looks for a
  leading slash.
\<close>

subsection \<open>What is not under src/\<close>

text \<open>
  The functions of third-party packages and of the cryptographic and Unicode tables of the
  standard library, as fields of one record that the operations take: NFC
  (\<^verbatim>\<open>golang.org/x/text/unicode/norm\<close>), \<^verbatim>\<open>strings.ToLower\<close>, the 32 digest bytes of SHA-256,
  Ed25519 verification and signing on raw bytes, the identifiers drawn from the random source, the
  reading of the clock (Unix milliseconds) and its text form, and the texts of library errors.
\<close>

record world =
  w_nfc :: "string \<Rightarrow> string"
  w_lower :: "string \<Rightarrow> string"
  w_sha :: "string \<Rightarrow> string"
  w_verify :: "string \<Rightarrow> string \<Rightarrow> string \<Rightarrow> bool"
  w_sign :: "string \<Rightarrow> string \<Rightarrow> string"
  w_new_id :: "string \<Rightarrow> nat \<Rightarrow> string"
  w_now :: int
  w_stamp :: string
  w_decode_err :: "string \<Rightarrow> string"

text \<open>A concrete instance, for the witnesses: text is ASCII and already normalised, a hash is the
  text itself, a signature is the first 64 bytes of the public key and the signed text.\<close>

definition plain_world :: "int \<Rightarrow> world" where
  "plain_world now = \<lparr>w_nfc = (\<lambda>s. s), w_lower = map lower_ascii_char, w_sha = (\<lambda>s. s),
     w_verify = (\<lambda>k m sg. sg = take 64 (k @ m @ replicate 64 CHR ''.'')),
     w_sign = (\<lambda>k m. take 64 (drop 32 k @ m @ replicate 64 CHR ''.'')),
     w_new_id = (\<lambda>pre n. pre @ ''_'' @ show_nat n), w_now = now, w_stamp = ''t'', w_decode_err = (\<lambda>s. ''malformed'')\<rparr>"

subsection \<open>Trimming\<close>

text \<open>\<^verbatim>\<open>strings.TrimSpace\<close>: the length of the UTF-8 white-space rune at the head, 0 when there is
  none; the right end is trimmed on the reversed bytes.\<close>

definition space_len :: "string \<Rightarrow> nat" where
  "space_len s = (case map nat_of (take 3 s) of
       [] \<Rightarrow> 0
     | a # r \<Rightarrow>
         if a \<in> {9, 10, 11, 12, 13, 32} then 1
         else (case r of
            [] \<Rightarrow> 0
          | b # t \<Rightarrow>
             if a = 194 \<and> b \<in> {133, 160} then 2
             else (case t of
                [] \<Rightarrow> 0
              | c # _ \<Rightarrow>
                 if (a = 225 \<and> b = 154 \<and> c = 128)
                  \<or> (a = 226 \<and> b = 128 \<and> (128 \<le> c \<and> c \<le> 138 \<or> c \<in> {168, 169, 175}))
                  \<or> (a = 226 \<and> b = 129 \<and> c = 159) \<or> (a = 227 \<and> b = 128 \<and> c = 128)
                 then 3 else 0)))"

definition space_len_end :: "string \<Rightarrow> nat" where
  "space_len_end r =
     (if space_len (rev (take 1 r)) = 1 then 1
      else if space_len (rev (take 2 r)) = 2 then 2
      else if space_len (rev (take 3 r)) = 3 then 3 else 0)"

fun trim_by :: "(string \<Rightarrow> nat) \<Rightarrow> nat \<Rightarrow> string \<Rightarrow> string" where
  "trim_by f 0 s = s"
| "trim_by f (Suc k) s = (if f s = 0 then s else trim_by f k (drop (f s) s))"

definition trim_space :: "string \<Rightarrow> string" where
  "trim_space s =
     (let l = trim_by space_len (length s) s
      in rev (trim_by space_len_end (length l) (rev l)))"

subsection \<open>Staging directories\<close>

definition StagingDirMarker :: string where "StagingDirMarker = ''.devstrap-tmp-''"

definition IsStagingDirName :: "string \<Rightarrow> bool" where
  "IsStagingDirName base =
     (prefixb ''.'' base \<and>
      (case last_index_from 0 StagingDirMarker base of
         None \<Rightarrow> False
       | Some i \<Rightarrow> i > 1 \<and> i + length StagingDirMarker < length base))"

subsection \<open>Clean\<close>

record path =
  p_display :: string
  p_key :: string

definition foldKey :: "world \<Rightarrow> string \<Rightarrow> string" where
  "foldKey w clean = w_nfc w (w_lower w clean)"

text \<open>The loop of \<^verbatim>\<open>pathClean\<close> over the parts, with its stack (top last).\<close>

fun path_clean_parts :: "string list \<Rightarrow> string list \<Rightarrow> string list option" where
  "path_clean_parts stack [] = Some stack"
| "path_clean_parts stack (part # ps) =
     (if part = [] \<or> part = ''.'' then path_clean_parts stack ps
      else if part = ''..'' then
        (if stack = [] then None else path_clean_parts (butlast stack) ps)
      else path_clean_parts (stack @ [part]) ps)"

definition pathClean :: "string \<Rightarrow> string" where
  "pathClean p =
     (case path_clean_parts [] (split_on CHR ''/'' p) of
        None \<Rightarrow> ''..''
      | Some stack \<Rightarrow> if stack = [] then ''.'' else join_with CHR ''/'' stack)"

fun check_parts :: "string list \<Rightarrow> unit res" where
  "check_parts [] = Inr ()"
| "check_parts (part # ps) =
     (if IsStagingDirName part
      then fail KOther ''namespace path contains reserved clone-staging directory''
      else if part = [] \<or> part = ''.''
      then fail KPathEmptyPart ''namespace path contains an empty segment''
      else if part = ''..''
      then fail KPathEscape ''namespace path must not escape root''
      else check_parts ps)"

definition Clean :: "world \<Rightarrow> string \<Rightarrow> path res" where
  "Clean w input =
     (let raw = w_nfc w (trim_space input) in
      if raw = [] \<or> raw = ''.'' then fail KPathEmpty ''namespace path must not be empty''
      else if prefixb ''/'' raw \<or> prefixb ''/'' input
      then fail KPathAbsolute ''namespace path must be relative''
      else bindr (check_parts (split_on CHR ''/'' raw)) (\<lambda>_.
        let clean = pathClean raw in
        if clean = ''.'' \<or> prefixb ''../'' clean \<or> clean = ''..''
        then fail KPathEscape ''namespace path must not escape root''
        else Inr \<lparr>p_display = clean, p_key = foldKey w clean\<rparr>))"

text \<open>\<^verbatim>\<open>DetectCaseConflicts\<close>: the map \<^verbatim>\<open>seen\<close> is a partial function.\<close>

fun detect_from :: "(string \<rightharpoonup> string) \<Rightarrow> path list \<Rightarrow> unit res" where
  "detect_from seen [] = Inr ()"
| "detect_from seen (p # ps) =
     (case seen (p_key p) of
        Some prev \<Rightarrow>
          if prev \<noteq> p_display p
          then fail KPathConflict (prev @ '' and '' @ p_display p)
          else detect_from (seen(p_key p \<mapsto> p_display p)) ps
      | None \<Rightarrow> detect_from (seen(p_key p \<mapsto> p_display p)) ps)"

definition DetectCaseConflicts :: "path list \<Rightarrow> unit res" where
  "DetectCaseConflicts paths = detect_from Map.empty paths"

subsection \<open>What Clean guarantees\<close>

definition safe_part :: "string \<Rightarrow> bool" where
  "safe_part p \<longleftrightarrow> p \<notin> {[], ''.'', ''..''} \<and> \<not> IsStagingDirName p"

lemma check_parts_ok: "check_parts ps = Inr () \<longleftrightarrow> (\<forall>p \<in> set ps. safe_part p)"
  by (induction ps) (auto simp: safe_part_def)

lemma path_clean_parts_safe:
  "\<forall>p \<in> set ps. safe_part p \<Longrightarrow> path_clean_parts stack ps = Some (stack @ ps)"
  by (induction ps arbitrary: stack) (auto simp: safe_part_def)

lemma pathClean_safe:
  assumes "\<forall>p \<in> set (split_on CHR ''/'' s). safe_part p"
  shows "pathClean s = s"
  using path_clean_parts_safe [OF assms, of "[]"] by (simp add: pathClean_def)

lemma Clean_parts:
  assumes "Clean w s = Inr p"
  shows "check_parts (split_on CHR ''/'' (w_nfc w (trim_space s))) = Inr ()"
proof (cases "check_parts (split_on CHR ''/'' (w_nfc w (trim_space s)))")
  case (Inl e)
  then show ?thesis using assms unfolding Clean_def Let_def by (simp split: if_split_asm)
qed simp

lemma Clean_result:
  assumes "Clean w s = Inr p"
  shows "\<lparr>p_display = pathClean (w_nfc w (trim_space s)),
           p_key = foldKey w (pathClean (w_nfc w (trim_space s)))\<rparr> = p"
  using assms unfolding Clean_def Let_def Clean_parts [OF assms] bindr_simps
  apply (simp only: split: if_split_asm)
    apply (simp_all only: fail_neq_Inr)
  apply (erule sum.inject(2) [THEN iffD1])
  done

lemma Clean_InrD:
  assumes "Clean w s = Inr p"
  shows "p_display p = w_nfc w (trim_space s)"
    and "p_key p = foldKey w (p_display p)"
    and "\<forall>q \<in> set (split_on CHR ''/'' (p_display p)). safe_part q"
proof -
  let ?raw = "w_nfc w (trim_space s)"
  note c = Clean_parts [OF assms] and p = Clean_result [OF assms, symmetric]
  from c have safe: "\<forall>q \<in> set (split_on CHR ''/'' ?raw). safe_part q"
    by (simp add: check_parts_ok)
  then have d: "p_display p = ?raw" using p by (simp add: pathClean_safe)
  show "p_display p = ?raw" by (rule d)
  show "p_key p = foldKey w (p_display p)" using p by simp
  show "\<forall>q \<in> set (split_on CHR ''/'' (p_display p)). safe_part q" using safe d by simp
qed

text \<open>The law of the normaliser that \<^verbatim>\<open>Clean\<close> relies on: a normalised, trimmed path is already
  normalised and trimmed.\<close>

definition nfc_stable :: "world \<Rightarrow> bool" where
  "nfc_stable w \<longleftrightarrow> (\<forall>s. w_nfc w (trim_space (w_nfc w (trim_space s))) = w_nfc w (trim_space s))"

lemma split_on_prefix_slash: "prefixb ''/'' s \<Longrightarrow> [] \<in> set (split_on CHR ''/'' s)"
  by (cases s) (auto simp: prefixb_def)

lemma safe_parts_nonspecial:
  assumes "\<forall>q \<in> set (split_on CHR ''/'' d). safe_part q"
  shows "d \<notin> {[], ''.'', ''..''}"
proof
  assume d: "d \<in> {[], ''.'', ''..''}"
  then have "CHR ''/'' \<notin> set d" by auto
  then have "split_on CHR ''/'' d = [d]" by (rule split_on_atom)
  then have "safe_part d" using assms by simp
  then show False using d by (simp only: safe_part_def) simp
qed

lemma Clean_display:
  assumes "nfc_stable w" "Clean w s = Inr p"
  shows "Clean w (p_display p) = Inr p"
proof -
  let ?d = "p_display p"
  have r: "w_nfc w (trim_space ?d) = ?d"
    using assms(1) Clean_InrD(1) [OF assms(2)] by (simp add: nfc_stable_def)
  note safe = Clean_InrD(3) [OF assms(2)]
  have ne: "\<not> prefixb ''/'' ?d"
  proof
    assume "prefixb ''/'' ?d"
    then have "safe_part []" by (rule bspec [OF safe split_on_prefix_slash])
    then show False by (simp add: safe_part_def)
  qed
  have "?d \<noteq> [] \<and> ?d \<noteq> ''.'' \<and> ?d \<noteq> ''..''"
    using safe_parts_nonspecial [OF safe] by simp
  moreover have "\<not> prefixb ''../'' ?d"
  proof
    assume "prefixb ''../'' ?d"
    then obtain t where "?d = ''..'' @ CHR ''/'' # t" by (auto simp: prefixb_iff)
    then have "''..'' \<in> set (split_on CHR ''/'' ?d)" by (simp add: split_on_append_sep)
    then show False using safe by (auto simp: safe_part_def)
  qed
  moreover have c: "check_parts (split_on CHR ''/'' ?d) = Inr ()" using safe check_parts_ok by blast
  moreover have abs: "\<not> prefixb ''/'' ?d \<and> \<not> prefixb ''/'' ?d" using ne by simp
  ultimately have "Clean w ?d = Inr \<lparr>p_display = ?d, p_key = foldKey w ?d\<rparr>"
    unfolding Clean_def Let_def r pathClean_safe [OF safe] c bindr_simps
    by (simp only: if_False simp_thms)
  also have "\<dots> = Inr p"
    using Clean_InrD(2) [OF assms(2)] by (cases p) (simp only: path.simps)
  finally show ?thesis .
qed

lemma key_fun_cons:
 assumes "\<And>q. k q = k p \<Longrightarrow> d p = d q \<Longrightarrow> S q" "S p"
 shows "((\<forall>q\<in>ps. (k q = k p \<longrightarrow> d p = d q) \<and> (k q \<noteq> k p \<longrightarrow> S q)) \<and>
     (\<forall>q\<in>ps. \<forall>r\<in>ps. k q = k r \<longrightarrow> d q = d r)) =
   ((S p \<and> Ball ps S) \<and>
     ((k p = k p \<longrightarrow> d p = d p) \<and> (\<forall>q\<in>ps. k p = k q \<longrightarrow> d p = d q)) \<and>
     (\<forall>pa\<in>ps. (k pa = k p \<longrightarrow> d pa = d p) \<and> (\<forall>q\<in>ps. k pa = k q \<longrightarrow> d pa = d q)))"
  (is "?L = ?R")
proof
  assume L: ?L
  then have "S q" if "q \<in> ps" for q using that assms(1) [of q] by (cases "k q = k p") blast+
  then show ?R using L assms(2) by (intro conjI ballI impI) metis+
next
  assume ?R then show ?L by (intro conjI ballI impI) metis+
qed

lemma detect_from_ok:
  "detect_from seen ps = Inr () \<longleftrightarrow>
     (\<forall>p \<in> set ps. \<forall>d. seen (p_key p) = Some d \<longrightarrow> d = p_display p) \<and>
     (\<forall>p \<in> set ps. \<forall>q \<in> set ps. p_key p = p_key q \<longrightarrow> p_display p = p_display q)"
proof (induction ps arbitrary: seen)
  case (Cons p ps)
  show ?case
  proof (cases "seen (p_key p) = None \<or> seen (p_key p) = Some (p_display p)")
    case True
    then have step: "detect_from seen (p # ps) = detect_from (seen(p_key p \<mapsto> p_display p)) ps" by auto
    define S :: "path \<Rightarrow> bool" where "S q \<longleftrightarrow> (\<forall>d. seen (p_key q) = Some d \<longrightarrow> d = p_display q)" for q
    have U: "(\<forall>d. (seen(p_key p \<mapsto> p_display p)) (p_key q) = Some d \<longrightarrow> d = p_display q) \<longleftrightarrow>
        (p_key q = p_key p \<longrightarrow> p_display p = p_display q) \<and> (p_key q \<noteq> p_key p \<longrightarrow> S q)" for q :: path
      by (auto simp: S_def)
    have Sp: "p_key q = p_key p \<Longrightarrow> p_display p = p_display q \<Longrightarrow> S q" for q :: path
      using True by (auto simp: S_def)
    have I: "detect_from seen (p # ps) = Inr () \<longleftrightarrow>
      (\<forall>q \<in> set ps. (p_key q = p_key p \<longrightarrow> p_display p = p_display q) \<and> (p_key q \<noteq> p_key p \<longrightarrow> S q)) \<and>
      (\<forall>q \<in> set ps. \<forall>r \<in> set ps. p_key q = p_key r \<longrightarrow> p_display q = p_display r)"
      unfolding step Cons.IH U ..
    have "S p" by (rule Sp) simp_all
    show ?thesis
      unfolding I S_def [symmetric] set_simps ball_simps by (rule key_fun_cons [where k = p_key and d = p_display and S = S and p = p, OF Sp \<open>S p\<close>])
  next
    case False
    then show ?thesis by auto
  qed
qed simp


lemma space_len_Nil [simp]: "space_len [] = 0" "space_len_end [] = 0"
  by (simp_all add: space_len_def space_len_end_def)

lemma space_len_prefix: "space_len (r @ x) = 0 \<Longrightarrow> space_len r = 0"
proof (cases r)
  case (Cons a r1)
  then show "space_len (r @ x) = 0 \<Longrightarrow> space_len r = 0"
  proof (cases r1)
    case Nil
    then show "space_len (r @ x) = 0 \<Longrightarrow> space_len r = 0" using Cons
      by (cases x) (auto simp: space_len_def split: if_splits)
  next
    case (Cons b r2)
    then show "space_len (r @ x) = 0 \<Longrightarrow> space_len r = 0" using \<open>r = a # r1\<close>
      by (cases r2) (auto simp: space_len_def split: if_splits)
  qed
qed simp

lemma trim_by_stop: "length s \<le> k \<Longrightarrow> f [] = 0 \<Longrightarrow> f (trim_by f k s) = 0"
proof (induction k arbitrary: s)
  case (Suc k)
  show ?case
  proof (cases "f s = 0")
    case False
    then have "length (drop (f s) s) \<le> k" using Suc.prems(1) by simp
    then show ?thesis using Suc False by simp
  qed simp
qed simp

lemma trim_by_0: "f s = 0 \<Longrightarrow> trim_by f k s = s"
  by (cases k) auto

lemma trim_by_suffix: "\<exists>p. s = p @ trim_by f k s"
proof (induction k arbitrary: s)
  case (Suc k)
  obtain p where p: "drop (f s) s = p @ trim_by f k (drop (f s) s)" using Suc.IH by blast
  have "s = (take (f s) s @ p) @ trim_by f k (drop (f s) s)"
    using p by (metis append.assoc append_take_drop_id)
  then show ?case by (cases "f s = 0") (simp, metis trim_by.simps(2))
qed auto

lemma trim_space_idem: "trim_space (trim_space s) = trim_space s"
proof -
  define l where "l = trim_by space_len (length s) s"
  define t where "t = trim_by space_len_end (length l) (rev l)"
  have ts: "trim_space s = rev t" by (simp add: trim_space_def l_def t_def Let_def)
  have l0: "space_len l = 0" unfolding l_def by (rule trim_by_stop) simp_all
  have t0: "space_len_end t = 0" unfolding t_def by (rule trim_by_stop) simp_all
  obtain p where "rev l = p @ t" using trim_by_suffix unfolding t_def by blast
  then have "l = rev t @ rev p" by (metis rev_append rev_rev_ident)
  then have "space_len (rev t) = 0" using l0 space_len_prefix [of "rev t" "rev p"] by simp
  then have "trim_by space_len n (rev t) = rev t" for n by (rule trim_by_0)
  moreover have "trim_by space_len_end n t = t" for n using t0 by (rule trim_by_0)
  ultimately show ?thesis
    unfolding ts by (simp add: trim_space_def)
qed

lemma plain_world_nfc_stable: "nfc_stable (plain_world n)"
  by (simp add: nfc_stable_def plain_world_def trim_space_idem)


text \<open>C36: a namespace path never leaves the root: whatever text a peer's event carries,
  \<^verbatim>\<open>Clean\<close> either fails or returns a relative path none of whose segments is empty, a dot,
  a parent reference or a clone-staging name, with the folded form of that path as its key.\<close>

theorem clean_paths_stay_in_root:
  assumes "Clean w input = Inr p"
  shows "(\<forall>q \<in> set (split_on CHR ''/'' (p_display p)). safe_part q) \<and>
     \<not> prefixb ''/'' (p_display p) \<and> pathClean (p_display p) = p_display p \<and>
     p_key p = foldKey w (p_display p)"
proof -
  note safe = Clean_InrD(3) [OF assms]
  have "\<not> prefixb ''/'' (p_display p)"
  proof
    assume "prefixb ''/'' (p_display p)"
    then have "safe_part []" by (rule bspec [OF safe split_on_prefix_slash])
    then show False by (simp add: safe_part_def)
  qed
  then show ?thesis using safe pathClean_safe [OF safe] Clean_InrD(2) [OF assms] by blast
qed

theorem clean_paths_stay_in_root_witness:
  "pathClean ''Work/App'' = ''Work/App'' \<and> \<not> prefixb ''/'' ''Work/App''"
proof -
  have "Clean (plain_world 0) '' Work/App'' = Inr \<lparr>p_display = ''Work/App'', p_key = ''work/app''\<rparr>"
    by code_simp
  from clean_paths_stay_in_root [OF this] show ?thesis by simp
qed

text \<open>Cleaning is idempotent: a display path read back from the store cleans to itself, with
  the same key (the apply path cleans a path once per call of the store).\<close>

theorem clean_display_fixpoint:
  assumes "nfc_stable w" and "Clean w input = Inr p"
  shows "Clean w (p_display p) = Inr p"
  using assms by (rule Clean_display)

theorem clean_display_fixpoint_witness:
  "Clean (plain_world 0) ''Work/App'' = Inr \<lparr>p_display = ''Work/App'', p_key = ''work/app''\<rparr>"
proof -
  have "Clean (plain_world 0) '' Work/App'' = Inr \<lparr>p_display = ''Work/App'', p_key = ''work/app''\<rparr>"
    by code_simp
  from clean_display_fixpoint [OF plain_world_nfc_stable this] show ?thesis by simp
qed

text \<open>\<^verbatim>\<open>DetectCaseConflicts\<close> accepts a tree exactly when no two different display paths
  share a key.\<close>

theorem detect_case_conflicts_exact:
  "DetectCaseConflicts ps = Inr () \<longleftrightarrow>
     \<not> (\<exists>p \<in> set ps. \<exists>q \<in> set ps. p_key p = p_key q \<and> p_display p \<noteq> p_display q)"
proof -
  have "(\<forall>p \<in> set ps. \<forall>d. Map.empty (p_key p) = Some d \<longrightarrow> d = p_display p)" by simp
  then show ?thesis unfolding DetectCaseConflicts_def detect_from_ok by blast
qed

end
