(* ===== verification/Events.thy ===== *)
theory Events
  imports Pathkey
begin

section \<open>Events, payloads and conflict details\<close>

text \<open>
  The event record of \<^verbatim>\<open>src/internal/state/store.go\<close> and the payload and conflict-detail
  structs of \<^verbatim>\<open>src/internal/sync/events.go\<close> with their JSON forms. \<^verbatim>\<open>WorkspaceID\<close> and
  \<^verbatim>\<open>CreatedAt\<close> are kept because \<^verbatim>\<open>json.Marshal(event)\<close> prints them.
\<close>

record event =
  ev_id :: string
  ev_workspace :: string
  ev_device :: string
  ev_seq :: int
  ev_hlc :: int
  ev_type :: string
  ev_payload :: string
  ev_content_hash :: string
  ev_sig :: string
  ev_prev_hash :: string
  ev_created :: string

definition ev_coord :: "event \<Rightarrow> coord" where
  "ev_coord e = \<lparr>c_hlc = ev_hlc e, c_dev = ev_device e, c_id = ev_id e\<rparr>"

definition EventProjectAdded :: string where "EventProjectAdded = ''project.added''"
definition EventProjectUpdated :: string where "EventProjectUpdated = ''project.updated''"
definition EventProjectDeleted :: string where "EventProjectDeleted = ''project.deleted''"
definition EventProjectRenamed :: string where "EventProjectRenamed = ''project.renamed''"
definition EventConflictCreated :: string where "EventConflictCreated = ''conflict.created''"
definition EventConflictResolved :: string where "EventConflictResolved = ''conflict.resolved''"
definition EventDraftSnapshotCreated :: string where "EventDraftSnapshotCreated = ''draft.snapshot.created''"
definition EventEnvProfileUpdated :: string where "EventEnvProfileUpdated = ''env.profile.updated''"
definition EventDeviceKeyGranted :: string where "EventDeviceKeyGranted = ''device.key.granted''"
definition EventDeviceRevoked :: string where "EventDeviceRevoked = ''device.revoked''"
definition EventDeviceLost :: string where "EventDeviceLost = ''device.lost''"
definition EventGitstateObserved :: string where "EventGitstateObserved = ''repo.gitstate.observed''"
definition EventRepoWipPushed :: string where "EventRepoWipPushed = ''repo.wip.pushed''"
definition EventRepoWipDropped :: string where "EventRepoWipDropped = ''repo.wip.dropped''"
definition EventEncryptedV2 :: string where "EventEncryptedV2 = ''enc.v2''"

lemmas event_type_defs =
  EventProjectAdded_def EventProjectUpdated_def EventProjectDeleted_def EventProjectRenamed_def
  EventConflictCreated_def EventConflictResolved_def EventDraftSnapshotCreated_def
  EventEnvProfileUpdated_def EventDeviceKeyGranted_def EventDeviceRevoked_def EventDeviceLost_def
  EventGitstateObserved_def EventRepoWipPushed_def EventRepoWipDropped_def EventEncryptedV2_def

subsection \<open>Conflict types and kinds\<close>

definition ConflictSamePathDifferentRemote :: string where
  "ConflictSamePathDifferentRemote = ''same_path_different_remote''"
definition ConflictPendingDelete :: string where "ConflictPendingDelete = ''pending_delete_conflict''"
definition ConflictRenameTargetExists :: string where "ConflictRenameTargetExists = ''rename_target_exists''"
definition ConflictEventVerification :: string where "ConflictEventVerification = ''event_verification_failure''"
definition ConflictUntrustworthyTime :: string where "ConflictUntrustworthyTime = ''untrustworthy_remote_time''"
definition ConflictEventHashChain :: string where "ConflictEventHashChain = ''event_hash_chain_break''"
definition ConflictEventOmission :: string where "ConflictEventOmission = ''event_omission''"

definition QuarantineConflictTypes :: "string list" where
  "QuarantineConflictTypes =
     [ConflictUntrustworthyTime, ConflictEventHashChain, ConflictEventVerification, ConflictEventOmission]"

lemmas conflict_type_defs =
  ConflictSamePathDifferentRemote_def ConflictPendingDelete_def ConflictRenameTargetExists_def
  ConflictEventVerification_def ConflictUntrustworthyTime_def ConflictEventHashChain_def
  ConflictEventOmission_def

definition EventConflictKindVerification :: string where "EventConflictKindVerification = ''verification''"
definition EventConflictKindDivergent :: string where "EventConflictKindDivergent = ''divergent''"
definition EventConflictKindUndecryptable :: string where "EventConflictKindUndecryptable = ''undecryptable''"
definition EventConflictKindEnvPendingProject :: string where
  "EventConflictKindEnvPendingProject = ''env_pending_project''"
definition EventConflictKindDraftPendingProject :: string where
  "EventConflictKindDraftPendingProject = ''draft_pending_project''"

lemmas conflict_kind_defs =
  EventConflictKindVerification_def EventConflictKindDivergent_def EventConflictKindUndecryptable_def
  EventConflictKindEnvPendingProject_def EventConflictKindDraftPendingProject_def

subsection \<open>Payloads\<close>

record project_payload =
  pp_path :: string
  pp_type :: string
  pp_remote_url :: string
  pp_remote_key :: string
  pp_branch :: string

definition project_fields :: "project_payload field list" where
  "project_fields =
     [str_field ''path'' pp_path_update, str_field ''type'' pp_type_update,
      str_field ''remote_url'' pp_remote_url_update, str_field ''remote_key'' pp_remote_key_update,
      str_field ''default_branch'' pp_branch_update]"

definition decode_project :: "string \<Rightarrow> project_payload option" where
  "decode_project = unmarshal project_fields
     \<lparr>pp_path = [], pp_type = [], pp_remote_url = [], pp_remote_key = [], pp_branch = []\<rparr>"

definition marshal_project :: "project_payload \<Rightarrow> string" where
  "marshal_project p = marshal_obj
     [jstr ''path'' (pp_path p), jstr ''type'' (pp_type p), jstr_opt ''remote_url'' (pp_remote_url p),
      jstr_opt ''remote_key'' (pp_remote_key p), jstr_opt ''default_branch'' (pp_branch p)]"

record rename_payload =
  rp_old :: string
  rp_new :: string

definition decode_rename :: "string \<Rightarrow> rename_payload option" where
  "decode_rename = unmarshal [str_field ''old_path'' rp_old_update, str_field ''new_path'' rp_new_update]
     \<lparr>rp_old = [], rp_new = []\<rparr>"

record resolved_payload =
  cr_conflict :: string
  cr_namespace :: string
  cr_type :: string
  cr_details :: string
  cr_action :: string

definition decode_resolved :: "string \<Rightarrow> resolved_payload option" where
  "decode_resolved = unmarshal
     [str_field ''conflict_id'' cr_conflict_update, str_field ''namespace_id'' cr_namespace_update,
      str_field ''type'' cr_type_update, str_field ''details_json'' cr_details_update,
      str_field ''action'' cr_action_update]
     \<lparr>cr_conflict = [], cr_namespace = [], cr_type = [], cr_details = [], cr_action = []\<rparr>"

record draft_payload =
  dp_path :: string
  dp_blob :: string
  dp_bytes :: int
  dp_files :: int

definition decode_draft :: "string \<Rightarrow> draft_payload option" where
  "decode_draft = unmarshal
     [str_field ''path'' dp_path_update, str_field ''blob_ref'' dp_blob_update,
      int_field ''byte_size'' dp_bytes_update, int_field ''file_count'' dp_files_update]
     \<lparr>dp_path = [], dp_blob = [], dp_bytes = 0, dp_files = 0\<rparr>"

record env_payload =
  ep_path :: string
  ep_profile :: string
  ep_provider :: string
  ep_mode :: string
  ep_blob :: string
  ep_vars :: "string list"
  ep_refs :: "(string \<times> string) list"

definition decode_env :: "string \<Rightarrow> env_payload option" where
  "decode_env = unmarshal
     [str_field ''path'' ep_path_update, str_field ''profile'' ep_profile_update,
      str_field ''provider'' ep_provider_update, str_field ''mode'' ep_mode_update,
      str_field ''blob_ref'' ep_blob_update, strs_field ''var_names'' ep_vars_update,
      map_field ''refs'' ep_refs_update ep_refs]
     \<lparr>ep_path = [], ep_profile = [], ep_provider = [], ep_mode = [], ep_blob = [], ep_vars = [],
      ep_refs = []\<rparr>"

record trust_payload =
  tp_device :: string
  tp_reason :: string

definition decode_trust :: "string \<Rightarrow> trust_payload option" where
  "decode_trust = unmarshal
     [str_field ''device_id'' tp_device_update, str_field ''reason'' tp_reason_update]
     \<lparr>tp_device = [], tp_reason = []\<rparr>"

record gitstate_payload =
  gp_path :: string
  gp_branch :: string
  gp_head :: string
  gp_up_branch :: string
  gp_up_sha :: string
  gp_dirty :: int
  gp_untracked :: int
  gp_unmerged :: int
  gp_ahead :: int
  gp_behind :: int
  gp_stash :: int

definition decode_gitstate :: "string \<Rightarrow> gitstate_payload option" where
  "decode_gitstate = unmarshal
     [str_field ''path'' gp_path_update, str_field ''branch'' gp_branch_update,
      str_field ''head_sha'' gp_head_update, str_field ''upstream_branch'' gp_up_branch_update,
      str_field ''upstream_sha'' gp_up_sha_update, int_field ''dirty_count'' gp_dirty_update,
      int_field ''untracked_count'' gp_untracked_update, int_field ''unmerged_count'' gp_unmerged_update,
      int_field ''ahead_count'' gp_ahead_update, int_field ''behind_count'' gp_behind_update,
      int_field ''stash_count'' gp_stash_update]
     \<lparr>gp_path = [], gp_branch = [], gp_head = [], gp_up_branch = [], gp_up_sha = [], gp_dirty = 0,
      gp_untracked = 0, gp_unmerged = 0, gp_ahead = 0, gp_behind = 0, gp_stash = 0\<rparr>"

record wip_payload =
  wp_path :: string
  wp_ref :: string
  wp_sha :: string
  wp_base :: string
  wp_captured :: string

definition decode_wip :: "string \<Rightarrow> wip_payload option" where
  "decode_wip = unmarshal
     [str_field ''path'' wp_path_update, str_field ''ref'' wp_ref_update, str_field ''sha'' wp_sha_update,
      str_field ''base_sha'' wp_base_update, str_field ''captured_at'' wp_captured_update]
     \<lparr>wp_path = [], wp_ref = [], wp_sha = [], wp_base = [], wp_captured = []\<rparr>"

record wip_dropped_payload =
  wd_path :: string
  wd_device :: string
  wd_sha :: string

definition decode_wip_dropped :: "string \<Rightarrow> wip_dropped_payload option" where
  "decode_wip_dropped = unmarshal
     [str_field ''path'' wd_path_update, str_field ''device_id'' wd_device_update,
      str_field ''sha'' wd_sha_update]
     \<lparr>wd_path = [], wd_device = [], wd_sha = []\<rparr>"

record key_grant =
  kg_epoch :: int
  kg_kid :: string
  kg_recipient :: string
  kg_wrapped :: string

definition decode_grant :: "string \<Rightarrow> key_grant option" where
  "decode_grant = unmarshal
     [int_field ''epoch'' kg_epoch_update, str_field ''kid'' kg_kid_update,
      str_field ''recipient'' kg_recipient_update, str_field ''wrapped_key'' kg_wrapped_update]
     \<lparr>kg_epoch = 0, kg_kid = [], kg_recipient = [], kg_wrapped = []\<rparr>"

text \<open>\<^verbatim>\<open>safeWipOwnerID\<close>\<close>

definition safeWipOwnerID :: "string \<Rightarrow> bool" where
  "safeWipOwnerID d =
     (if d = [] \<or> d = ''.'' \<or> containsb ''..'' d \<or> prefixb ''-'' d then False
      else \<not> list_ex (\<lambda>c. of_char c \<in> {47, 92, 32, 9, 13, 10, 126, 94, 58, 63, 42, 91 :: nat}) d)"

subsection \<open>Conflict details\<close>

definition skew_details :: "event \<Rightarrow> string" where
  "skew_details e = marshal_obj
     [jstr ''event_id'' (ev_id e), jstr ''device_id'' (ev_device e), jint ''hlc'' (ev_hlc e)]"

definition rename_details :: "rename_payload \<Rightarrow> event \<Rightarrow> string" where
  "rename_details p e = marshal_obj
     [jstr ''old_path'' (rp_old p), jstr ''new_path'' (rp_new p), jstr ''event_id'' (ev_id e),
      jstr ''device_id'' (ev_device e)]"

definition pending_delete_details :: "string \<Rightarrow> event \<Rightarrow> string" where
  "pending_delete_details path e = marshal_obj
     [jstr ''path'' path, jstr ''event_id'' (ev_id e), jstr ''device_id'' (ev_device e),
      jint ''hlc'' (ev_hlc e)]"

record same_path_details =
  sp_path :: string
  sp_key_a :: string
  sp_key_b :: string
  sp_winner_key :: string
  sp_winner :: coord
  sp_loser_key :: string
  sp_loser :: coord

definition marshal_same_path :: "same_path_details \<Rightarrow> string" where
  "marshal_same_path d = marshal_obj
     [jstr ''path'' (sp_path d), jstr ''remote_key_a'' (sp_key_a d), jstr ''remote_key_b'' (sp_key_b d),
      jstr ''winner_key'' (sp_winner_key d), jint_opt ''winner_hlc'' (c_hlc (sp_winner d)),
      jstr_opt ''winner_device_id'' (c_dev (sp_winner d)), jstr_opt ''winner_event_id'' (c_id (sp_winner d)),
      jstr ''loser_key'' (sp_loser_key d), jint_opt ''loser_hlc'' (c_hlc (sp_loser d)),
      jstr_opt ''loser_device_id'' (c_dev (sp_loser d)), jstr_opt ''loser_event_id'' (c_id (sp_loser d))]"

definition hash_chain_details :: "event \<Rightarrow> string \<Rightarrow> string" where
  "hash_chain_details e cause = marshal_obj
     [jstr ''event_id'' (ev_id e), jstr ''device_id'' (ev_device e), jint_opt ''hlc'' (ev_hlc e),
      jint_opt ''seq'' (ev_seq e), jstr ''prev_event_hash'' (ev_prev_hash e), jstr ''error'' cause]"

text \<open>\<^verbatim>\<open>json.Marshal(event)\<close>: the struct has no tags, so its field names are the keys.\<close>

definition marshal_event :: "event \<Rightarrow> string" where
  "marshal_event e = marshal_obj
     [jstr ''ID'' (ev_id e), jstr ''WorkspaceID'' (ev_workspace e), jstr ''DeviceID'' (ev_device e),
      jint ''Seq'' (ev_seq e), jint ''HLC'' (ev_hlc e), jstr ''Type'' (ev_type e),
      jstr ''PayloadJSON'' (ev_payload e), jstr ''ContentHash'' (ev_content_hash e),
      jstr ''DeviceSig'' (ev_sig e), jstr ''PrevEventHash'' (ev_prev_hash e),
      jstr ''CreatedAt'' (ev_created e)]"

definition event_fields :: "event field list" where
  "event_fields =
     [str_field ''ID'' ev_id_update, str_field ''WorkspaceID'' ev_workspace_update,
      str_field ''DeviceID'' ev_device_update, int_field ''Seq'' ev_seq_update,
      int_field ''HLC'' ev_hlc_update, str_field ''Type'' ev_type_update,
      str_field ''PayloadJSON'' ev_payload_update, str_field ''ContentHash'' ev_content_hash_update,
      str_field ''DeviceSig'' ev_sig_update, str_field ''PrevEventHash'' ev_prev_hash_update,
      str_field ''CreatedAt'' ev_created_update]"

definition event_zero :: event where
  "event_zero = \<lparr>ev_id = [], ev_workspace = [], ev_device = [], ev_seq = 0, ev_hlc = 0, ev_type = [],
     ev_payload = [], ev_content_hash = [], ev_sig = [], ev_prev_hash = [], ev_created = []\<rparr>"

definition decode_event :: "string \<Rightarrow> event option" where
  "decode_event = unmarshal event_fields event_zero"

record verification_details =
  vd_kind :: string
  vd_event_id :: string
  vd_device :: string
  vd_hlc :: int
  vd_seq :: int
  vd_type :: string
  vd_error :: string
  vd_event_json :: string

definition marshal_verification :: "verification_details \<Rightarrow> string" where
  "marshal_verification d = marshal_obj
     [jstr ''kind'' (vd_kind d), jstr ''event_id'' (vd_event_id d), jstr ''device_id'' (vd_device d),
      jint ''hlc'' (vd_hlc d), jint ''seq'' (vd_seq d), jstr ''type'' (vd_type d),
      jstr ''error'' (vd_error d), jstr ''event_json'' (vd_event_json d)]"

definition decode_verification :: "string \<Rightarrow> verification_details option" where
  "decode_verification = unmarshal
     [str_field ''kind'' vd_kind_update, str_field ''event_id'' vd_event_id_update,
      str_field ''device_id'' vd_device_update, int_field ''hlc'' vd_hlc_update,
      int_field ''seq'' vd_seq_update, str_field ''type'' vd_type_update,
      str_field ''error'' vd_error_update, str_field ''event_json'' vd_event_json_update]
     \<lparr>vd_kind = [], vd_event_id = [], vd_device = [], vd_hlc = 0, vd_seq = 0, vd_type = [],
      vd_error = [], vd_event_json = []\<rparr>"

text \<open>\<^verbatim>\<open>json.Marshal\<close> of a string map prints the keys in order.\<close>

definition resolution_json :: "string \<Rightarrow> event \<Rightarrow> string" where
  "resolution_json action e = marshal_obj
     [jstr ''action'' action, jstr ''resolved_by'' (ev_device e),
      jstr ''resolved_hlc'' (show_int (ev_hlc e))]"

subsection \<open>Round trips\<close>

lemma set_field_hit:
  "find (\<lambda>f. fold_name (fst f) = fold_name k) fs = Some f \<Longrightarrow> set_field fs k j r = snd f j r"
  by (simp add: set_field_def)

definition ascii_event :: "event \<Rightarrow> bool" where
  "ascii_event e \<longleftrightarrow> int64 (ev_seq e) \<and> int64 (ev_hlc e) \<and>
     (\<forall>s \<in> {ev_id e, ev_workspace e, ev_device e, ev_type e, ev_payload e, ev_content_hash e,
            ev_sig e, ev_prev_hash e, ev_created e}. ascii_str s)"

definition ascii_payload :: "project_payload \<Rightarrow> bool" where
  "ascii_payload p \<longleftrightarrow>
     (\<forall>s \<in> {pp_path p, pp_type p, pp_remote_url p, pp_remote_key p, pp_branch p}. ascii_str s)"

lemma marshal_event_parse:
  assumes "ascii_event e"
  shows "parse_json (marshal_event e) = Some (JObj
     [(''ID'', JStr (ev_id e)), (''WorkspaceID'', JStr (ev_workspace e)), (''DeviceID'', JStr (ev_device e)),
      (''Seq'', JInt (ev_seq e)), (''HLC'', JInt (ev_hlc e)), (''Type'', JStr (ev_type e)),
      (''PayloadJSON'', JStr (ev_payload e)), (''ContentHash'', JStr (ev_content_hash e)),
      (''DeviceSig'', JStr (ev_sig e)), (''PrevEventHash'', JStr (ev_prev_hash e)),
      (''CreatedAt'', JStr (ev_created e))])"
  unfolding marshal_event_def
  by (rule parse_marshal_obj)
    (use assms in \<open>simp add: List.map_filter_def jstr_def jint_def renders_quote renders_int
       ascii_event_def is_ascii_def\<close>)

lemma event_json_roundtrip_aux: "ascii_event e \<Longrightarrow> decode_event (marshal_event e) = Some e"
  by (simp add: decode_event_def unmarshal_def marshal_event_parse set_field_def event_fields_def
      str_field_def int_field_def event_zero_def ascii_event_def)

lemma marshal_project_parse:
  assumes "ascii_payload p"
  shows "parse_json (marshal_project p) = Some (JObj
     ([(''path'', JStr (pp_path p)), (''type'', JStr (pp_type p))] @
      (if pp_remote_url p = [] then [] else [(''remote_url'', JStr (pp_remote_url p))]) @
      (if pp_remote_key p = [] then [] else [(''remote_key'', JStr (pp_remote_key p))]) @
      (if pp_branch p = [] then [] else [(''default_branch'', JStr (pp_branch p))])))"
  unfolding marshal_project_def
  by (rule parse_marshal_obj)
    (use assms in \<open>simp add: List.map_filter_def jstr_def jstr_opt_def renders_quote
       ascii_payload_def is_ascii_def\<close>)

lemma project_json_roundtrip_aux: "ascii_payload p \<Longrightarrow> decode_project (marshal_project p) = Some p"
  by (cases p)
    (simp add: decode_project_def unmarshal_def marshal_project_parse set_field_def project_fields_def
      str_field_def)

text \<open>What a device writes into an event's payload and into a quarantine conflict is what
  every reader gets back: for printable values \<^verbatim>\<open>json.Unmarshal\<close> inverts \<^verbatim>\<open>json.Marshal\<close> on
  project payloads (empty optional fields included) and on whole events.\<close>

theorem payload_and_event_roundtrip:
  assumes "ascii_payload p" and "ascii_event e"
  shows "decode_project (marshal_project p) = Some p \<and> decode_event (marshal_event e) = Some e"
  using assms by (simp add: project_json_roundtrip_aux event_json_roundtrip_aux)

theorem payload_and_event_roundtrip_witness:
  "decode_project (marshal_project \<lparr>pp_path = ''a<b'', pp_type = ''git_repo'', pp_remote_url = [],
       pp_remote_key = ''k'', pp_branch = []\<rparr>) =
     Some \<lparr>pp_path = ''a<b'', pp_type = ''git_repo'', pp_remote_url = [], pp_remote_key = ''k'', pp_branch = []\<rparr>"
  using payload_and_event_roundtrip [of "\<lparr>pp_path = ''a<b'', pp_type = ''git_repo'', pp_remote_url = [],
       pp_remote_key = ''k'', pp_branch = []\<rparr>" event_zero]
  by (simp add: ascii_payload_def ascii_event_def event_zero_def int64_def is_ascii_def)

end
