(* ===== verification/Convergence.thy ===== *)
theory Convergence
  imports Prelude "HOL-Library.Multiset"
begin

section \<open>Order-independent folds\<close>

text \<open>
  The interface every last-writer-wins projection of the program promises: applying two events in
  either order gives the same state. The client is the fold over a delivered batch: whatever the
  order (and, with the idempotence law, whatever the duplication) in which a hub delivers the
  events, the state at the end is the same. The components interpret these locales on their own
  operations.
\<close>

definition batch_of :: "('e \<Rightarrow> 'e \<Rightarrow> bool) \<Rightarrow> 'e list \<Rightarrow> bool" where
  "batch_of R es \<longleftrightarrow> (\<forall>d \<in> set es. \<forall>e \<in> set es. d \<noteq> e \<longrightarrow> R d e)"

locale commuting =
  fixes step :: "'e \<Rightarrow> 's \<Rightarrow> 's"
    and ok :: "'s \<Rightarrow> bool"
    and compat :: "'e \<Rightarrow> 'e \<Rightarrow> bool"
  assumes ok_step: "ok s \<Longrightarrow> ok (step e s)"
    and swap: "ok s \<Longrightarrow> compat d e \<Longrightarrow> step d (step e s) = step e (step d s)"
begin

lemma swap_in_batch:
  assumes "batch_of compat es" "d \<in> set es" "e \<in> set es" "ok s"
  shows "step d (step e s) = step e (step d s)"
  using assms by (cases "d = e") (auto simp: batch_of_def intro: swap)

lemma ok_fold: "ok s \<Longrightarrow> ok (fold step es s)"
  by (induction es arbitrary: s) (auto intro: ok_step)

theorem fold_perm:
  assumes "mset es = mset ds" and "batch_of compat es" and "ok s"
  shows "fold step es s = fold step ds s"
  using assms(1,3)
  by (rule fold_permuted_eq [where P = ok]) (auto intro: ok_step swap_in_batch [OF assms(2)])

end

locale redelivery = commuting step ok compat
  for step :: "'e \<Rightarrow> 's \<Rightarrow> 's" and ok compat +
  assumes absorb: "ok s \<Longrightarrow> step e (step e s) = step e s"
begin

lemma fold_absorb:
  assumes "batch_of compat es" "e \<in> set es" "ok s"
  shows "fold step es (step e s) = fold step es s"
  using assms
proof (induction es arbitrary: s)
  case (Cons x xs)
  have b: "batch_of compat xs" using Cons.prems(1) by (auto simp: batch_of_def)
  show ?case
  proof (cases "x = e")
    case True
    then show ?thesis using absorb [OF Cons.prems(3)] by simp
  next
    case False
    then have "e \<in> set xs" using Cons.prems(2) by simp
    moreover have "step x (step e s) = step e (step x s)"
      by (rule swap_in_batch [OF Cons.prems(1)]) (use Cons.prems in auto)
    ultimately show ?thesis
      using Cons.IH [OF b _ ok_step [OF Cons.prems(3)]] by simp
  qed
qed simp

lemma fold_remdups:
  assumes "batch_of compat es" "ok s"
  shows "fold step (remdups es) s = fold step es s"
  using assms
proof (induction es arbitrary: s)
  case (Cons x xs)
  have b: "batch_of compat xs" using Cons.prems(1) by (auto simp: batch_of_def)
  show ?case
  proof (cases "x \<in> set xs")
    case True
    then show ?thesis using Cons.IH [OF b Cons.prems(2)] fold_absorb [OF b True Cons.prems(2)] by simp
  next
    case False
    then show ?thesis using Cons.IH [OF b ok_step [OF Cons.prems(2)]] by simp
  qed
qed simp

theorem fold_redelivery:
  assumes "set es = set ds" and "batch_of compat es" and "ok s"
  shows "fold step es s = fold step ds s"
proof -
  have bd: "batch_of compat ds" using assms(1,2) by (simp add: batch_of_def)
  have br: "batch_of compat (remdups es)" using assms(2) by (simp add: batch_of_def)
  have "mset (remdups es) = mset (remdups ds)"
    using assms(1) by (simp add: set_eq_iff_mset_remdups_eq)
  then have "fold step (remdups es) s = fold step (remdups ds) s"
    by (rule fold_perm [OF _ br assms(3)])
  then show ?thesis
    using fold_remdups [OF assms(2,3)] fold_remdups [OF bd assms(3)] by simp
qed

end

text \<open>
  A keyed join: the abstract contract of a last-writer-wins register. A component whose step joins
  a contribution into its value satisfies the two interfaces above.
\<close>

locale register_join =
  fixes join :: "'v \<Rightarrow> 'v \<Rightarrow> 'v"
    and good :: "'v \<Rightarrow> 'v \<Rightarrow> bool"
    and ctr :: "'e \<Rightarrow> 'v"
  assumes join_idem: "join (join v (ctr e)) (ctr e) = join v (ctr e)"
    and join_swap: "good (ctr d) (ctr e) \<Longrightarrow>
       join (join v (ctr d)) (ctr e) = join (join v (ctr e)) (ctr d)"
begin

definition reg_step :: "('e \<Rightarrow> 'k) \<Rightarrow> 'e \<Rightarrow> ('k \<Rightarrow> 'v) \<Rightarrow> 'k \<Rightarrow> 'v" where
  "reg_step key e m = m(key e := join (m (key e)) (ctr e))"

sublocale reg: redelivery "reg_step key" "\<lambda>m. True"
    "\<lambda>d e. key d = key e \<longrightarrow> good (ctr d) (ctr e)"
  for key :: "'e \<Rightarrow> 'k"
proof unfold_locales
  fix m :: "'k \<Rightarrow> 'v" and d e
  assume "key d = key e \<longrightarrow> good (ctr d) (ctr e)"
  then show "reg_step key d (reg_step key e m) = reg_step key e (reg_step key d m)"
    using join_swap [of d e]
    by (cases "key d = key e") (auto simp: reg_step_def fun_upd_twist join_swap fun_eq_iff)
next
  fix m :: "'k \<Rightarrow> 'v" and e
  show "reg_step key e (reg_step key e m) = reg_step key e m"
    by (simp add: reg_step_def join_idem)
qed simp

end

end
