(* ===== verification/Projection.thy ===== *)
theory Projection
  imports Events Convergence
begin

section \<open>The pure namespace decision\<close>

text \<open>
  \<^verbatim>\<open>src/internal/sync/decide.go\<close>: \<^verbatim>\<open>Decide\<close> reconciles one project event with the
  in-memory projection, \<^verbatim>\<open>Apply\<close> folds the decision into it. The abstract specification is a
  register per path key whose value is the join of what the events on that path claim; the
  theorems show that \<^verbatim>\<open>Decide\<close> followed by \<^verbatim>\<open>Apply\<close> implements it and that, therefore,
  every delivery order with any duplication converges.
\<close>

definition projectionStatusActive :: string where "projectionStatusActive = ''active''"
definition projectionStatusDeleted :: string where "projectionStatusDeleted = ''deleted''"
definition dirtyStateDirty :: string where "dirtyStateDirty = ''dirty''"

lemma status_distinct [simp]: "projectionStatusActive \<noteq> projectionStatusDeleted"
  "projectionStatusDeleted \<noteq> projectionStatusActive"
  by (simp_all add: projectionStatusActive_def projectionStatusDeleted_def)

record projection_row =
  pr_ns :: string
  pr_key :: string
  pr_path :: string
  pr_type :: string
  pr_remote_url :: string
  pr_remote_key :: string
  pr_branch :: string
  pr_status :: string
  pr_tomb :: int
  pr_src :: coord
  pr_dirty :: string

definition zero_coord :: coord where "zero_coord = \<lparr>c_hlc = 0, c_dev = [], c_id = []\<rparr>"

definition zero_row :: projection_row where
  "zero_row = \<lparr>pr_ns = [], pr_key = [], pr_path = [], pr_type = [], pr_remote_url = [],
     pr_remote_key = [], pr_branch = [], pr_status = [], pr_tomb = 0, pr_src = zero_coord, pr_dirty = []\<rparr>"

type_synonym projection = "string \<rightharpoonup> projection_row"

definition active :: "projection \<Rightarrow> string \<Rightarrow> projection_row option" where
  "active p key = (case p key of
      None \<Rightarrow> None
    | Some row \<Rightarrow> if pr_status row \<noteq> projectionStatusActive then None else Some row)"

definition tombstone :: "projection \<Rightarrow> string \<Rightarrow> int option" where
  "tombstone p key = (case p key of
      None \<Rightarrow> None
    | Some row \<Rightarrow> if pr_status row \<noteq> projectionStatusDeleted then None else Some (pr_tomb row))"

text \<open>\<^verbatim>\<open>state.UpsertProjectParams\<close>\<close>

record upsert_params =
  up_path :: string
  up_type :: string
  up_remote_url :: string
  up_remote_key :: string
  up_branch :: string
  up_lfs :: string
  up_policy :: string
  up_local_path :: string
  up_mat_state :: string
  up_dirty :: string
  up_src :: coord
  up_forge :: string

datatype mutation = MutationUpsert upsert_params | MutationTombstone string int

record conflict_record =
  cf_ns :: string
  cf_type :: string
  cf_details :: string

record decision =
  d_mutations :: "mutation list"
  d_conflicts :: "conflict_record list"

definition no_decision :: decision where
  "no_decision = \<lparr>d_mutations = [], d_conflicts = []\<rparr>"

definition upsertParamsForEvent :: "project_payload \<Rightarrow> event \<Rightarrow> upsert_params" where
  "upsertParamsForEvent p e =
     \<lparr>up_path = pp_path p, up_type = pp_type p, up_remote_url = pp_remote_url p,
      up_remote_key = pp_remote_key p, up_branch = pp_branch p, up_lfs = [], up_policy = ''lazy'',
      up_local_path = [], up_mat_state = ''skeleton'', up_dirty = [], up_src = ev_coord e, up_forge = []\<rparr>"

text \<open>\<^verbatim>\<open>toProjectStatus\<close> is the identity on the fields kept here: the row itself is passed on.\<close>

definition row_payload :: "projection_row \<Rightarrow> project_payload" where
  "row_payload r = \<lparr>pp_path = pr_path r, pp_type = pr_type r, pp_remote_url = pr_remote_url r,
     pp_remote_key = pr_remote_key r, pp_branch = pr_branch r\<rparr>"

definition reconcileSamePath ::
  "projection_row \<Rightarrow> project_payload \<Rightarrow> event \<Rightarrow> project_payload \<times> bool \<times> string" where
  "reconcileSamePath existing incoming e =
     (let current = row_payload existing;
          incomingWins = coord_less (pr_src existing) (ev_coord e);
          winner = (if incomingWins then incoming else current);
          loser = (if incomingWins then current else incoming);
          wc = (if incomingWins then ev_coord e else pr_src existing);
          lc = (if incomingWins then pr_src existing else ev_coord e);
          a = pp_remote_key current; b = pp_remote_key incoming;
          details = marshal_same_path
            \<lparr>sp_path = pp_path incoming,
             sp_key_a = (if b < a then b else a), sp_key_b = (if b < a then a else b),
             sp_winner_key = pp_remote_key winner, sp_winner = wc,
             sp_loser_key = pp_remote_key loser, sp_loser = lc\<rparr>
      in (winner, incomingWins, details))"

definition decideUpsert :: "world \<Rightarrow> projection \<Rightarrow> project_payload \<Rightarrow> event \<Rightarrow> decision res" where
  "decideUpsert w proj payload e =
     bindr (Clean w (pp_path payload)) (\<lambda>pk.
       let existing = active proj (p_key pk) in
       if (case tombstone proj (p_key pk) of Some t \<Rightarrow> ev_hlc e \<le> t | None \<Rightarrow> False)
       then Inr no_decision
       else case existing of
         Some row \<Rightarrow>
           if pr_remote_key row \<noteq> [] \<and> pp_remote_key payload \<noteq> [] \<and> pr_remote_key row \<noteq> pp_remote_key payload
           then (let (winner, incomingWins, details) = reconcileSamePath row payload e
                 in Inr \<lparr>d_mutations = (if incomingWins then [MutationUpsert (upsertParamsForEvent winner e)] else []),
                         d_conflicts = [\<lparr>cf_ns = pr_ns row, cf_type = ConflictSamePathDifferentRemote,
                                         cf_details = details\<rparr>]\<rparr>)
           else if \<not> coord_less (pr_src row) (ev_coord e) then Inr no_decision
           else Inr \<lparr>d_mutations = [MutationUpsert (upsertParamsForEvent payload e)], d_conflicts = []\<rparr>
       | None \<Rightarrow> Inr \<lparr>d_mutations = [MutationUpsert (upsertParamsForEvent payload e)], d_conflicts = []\<rparr>)"

definition decideDelete :: "world \<Rightarrow> projection \<Rightarrow> project_payload \<Rightarrow> event \<Rightarrow> decision res" where
  "decideDelete w proj payload e =
     bindr (Clean w (pp_path payload)) (\<lambda>pk.
       let delete = Inr \<lparr>d_mutations = [MutationTombstone (pp_path payload) (ev_hlc e)], d_conflicts = []\<rparr> in
       case active proj (p_key pk) of
         Some row \<Rightarrow>
           if c_hlc (pr_src row) > ev_hlc e then Inr no_decision
           else if pr_dirty row = dirtyStateDirty
           then Inr \<lparr>d_mutations = [],
                     d_conflicts = [\<lparr>cf_ns = pr_ns row, cf_type = ConflictPendingDelete,
                                     cf_details = pending_delete_details (pp_path payload) e\<rparr>]\<rparr>
           else delete
       | None \<Rightarrow> delete)"

definition decode_failure :: "world \<Rightarrow> event \<Rightarrow> 'a res" where
  "decode_failure w e = fail KOther (''decode event '' @ ev_id e @ '': '' @ w_decode_err w (ev_payload e))"

definition Decide :: "world \<Rightarrow> projection \<Rightarrow> event \<Rightarrow> decision res" where
  "Decide w proj e =
     (if ev_type e = EventProjectAdded \<or> ev_type e = EventProjectUpdated then
        (case decode_project (ev_payload e) of
           None \<Rightarrow> decode_failure w e | Some p \<Rightarrow> decideUpsert w proj p e)
      else if ev_type e = EventProjectDeleted then
        (case decode_project (ev_payload e) of
           None \<Rightarrow> decode_failure w e | Some p \<Rightarrow> decideDelete w proj p e)
      else Inr no_decision)"

definition apply_mutation :: "world \<Rightarrow> projection \<Rightarrow> mutation \<Rightarrow> projection res" where
  "apply_mutation w next m =
     (case m of
        MutationUpsert u \<Rightarrow>
          bindr (Clean w (up_path u)) (\<lambda>pk.
            let prev = (case next (p_key pk) of Some r \<Rightarrow> r | None \<Rightarrow> zero_row) in
            Inr (next(p_key pk \<mapsto>
              \<lparr>pr_ns = pr_ns prev, pr_key = p_key pk, pr_path = p_display pk, pr_type = up_type u,
               pr_remote_url = up_remote_url u, pr_remote_key = up_remote_key u, pr_branch = up_branch u,
               pr_status = projectionStatusActive, pr_tomb = 0, pr_src = up_src u,
               pr_dirty = (if pr_status prev = projectionStatusActive then pr_dirty prev else [])\<rparr>)))
      | MutationTombstone path hlc \<Rightarrow>
          bindr (Clean w path) (\<lambda>pk.
            let tomb = (case next (p_key pk) of
                  Some prev \<Rightarrow> if pr_status prev = projectionStatusDeleted \<and> pr_tomb prev > hlc
                               then pr_tomb prev else hlc
                | None \<Rightarrow> hlc) in
            Inr (next(p_key pk \<mapsto> zero_row\<lparr>pr_key := p_key pk, pr_path := p_display pk,
                   pr_status := projectionStatusDeleted, pr_tomb := tomb\<rparr>))))"

definition Apply :: "world \<Rightarrow> projection \<Rightarrow> decision \<Rightarrow> projection res" where
  "Apply w p d = foldr_res (apply_mutation w) p (d_mutations d)"


subsection \<open>Specification: a last-writer-wins register per path\<close>

record content =
  ct_path :: string
  ct_type :: string
  ct_remote_url :: string
  ct_remote_key :: string
  ct_branch :: string

datatype pview = VNone | VDead int | VLive coord content

fun vjoin :: "pview \<Rightarrow> pview \<Rightarrow> pview" where
  "vjoin v VNone = v"
| "vjoin VNone (VDead h) = VDead h"
| "vjoin (VDead t) (VDead h) = VDead (if t > h then t else h)"
| "vjoin (VLive c x) (VDead h) = (if c_hlc c > h then VLive c x else VDead h)"
| "vjoin VNone (VLive d y) = VLive d y"
| "vjoin (VDead t) (VLive d y) = (if c_hlc d \<le> t then VDead t else VLive d y)"
| "vjoin (VLive c x) (VLive d y) = (if coord_less c d then VLive d y else VLive c x)"

fun vgood :: "pview \<Rightarrow> pview \<Rightarrow> bool" where
  "vgood (VLive c x) (VLive d y) = (c = d \<longrightarrow> x = y)"
| "vgood _ _ = True"

definition row_view :: "projection_row option \<Rightarrow> pview" where
  "row_view r = (case r of
      None \<Rightarrow> VNone
    | Some row \<Rightarrow>
        if pr_status row = projectionStatusActive
        then VLive (pr_src row) \<lparr>ct_path = pr_path row, ct_type = pr_type row,
               ct_remote_url = pr_remote_url row, ct_remote_key = pr_remote_key row, ct_branch = pr_branch row\<rparr>
        else VDead (pr_tomb row))"

definition proj_view :: "projection \<Rightarrow> string \<Rightarrow> pview" where
  "proj_view p k = row_view (p k)"

text \<open>What an event claims of its path: nothing when it does not decode or its path is unsafe.\<close>

definition event_claim :: "world \<Rightarrow> event \<Rightarrow> (string \<times> pview) option" where
  "event_claim w e =
     (case decode_project (ev_payload e) of
        None \<Rightarrow> None
      | Some p \<Rightarrow>
         (case Clean w (pp_path p) of
            Inl _ \<Rightarrow> None
          | Inr pk \<Rightarrow>
             if ev_type e = EventProjectAdded \<or> ev_type e = EventProjectUpdated
             then Some (p_key pk, VLive (ev_coord e)
                    \<lparr>ct_path = p_display pk, ct_type = pp_type p, ct_remote_url = pp_remote_url p,
                     ct_remote_key = pp_remote_key p, ct_branch = pp_branch p\<rparr>)
             else if ev_type e = EventProjectDeleted then Some (p_key pk, VDead (ev_hlc e))
             else None))"

definition claim_key :: "world \<Rightarrow> event \<Rightarrow> string" where
  "claim_key w e = (case event_claim w e of Some (k, v) \<Rightarrow> k | None \<Rightarrow> [])"

definition claim :: "world \<Rightarrow> event \<Rightarrow> pview" where
  "claim w e = (case event_claim w e of Some (k, v) \<Rightarrow> v | None \<Rightarrow> VNone)"

lemma vjoin_idem: "vjoin (vjoin v c) c = vjoin v c"
  by (cases v; cases c) auto

lemma coord_less_hlc_iff:
  "coord_less a b \<longleftrightarrow> c_hlc a < c_hlc b \<or> (c_hlc a = c_hlc b \<and> coord_less a b)"
  by (auto simp: coord_less_def)

lemma swap_live3:
  assumes "c = d \<longrightarrow> x = y"
  shows "vjoin (vjoin (VLive v z) (VLive c x)) (VLive d y) = vjoin (vjoin (VLive v z) (VLive d y)) (VLive c x)"
proof -
  consider "c = d" | "coord_less c d" "\<not> coord_less d c" | "coord_less d c" "\<not> coord_less c d"
    using coord_less_total [of c d] coord_less_asym by blast
  then show ?thesis
  proof cases
    case 2
    then have "coord_less v c \<Longrightarrow> coord_less v d" using coord_less_trans by blast
    with 2 show ?thesis by auto
  next
    case 3
    then have "coord_less v d \<Longrightarrow> coord_less v c" using coord_less_trans by blast
    with 3 show ?thesis by auto
  qed (use assms in auto)
qed

lemma swap_live2:
  assumes "c = d \<longrightarrow> x = y"
  shows "vjoin (vjoin (VDead t) (VLive c x)) (VLive d y) = vjoin (vjoin (VDead t) (VLive d y)) (VLive c x)"
proof -
  consider "c = d" | "coord_less c d" "\<not> coord_less d c" "c_hlc c \<le> c_hlc d"
    | "coord_less d c" "\<not> coord_less c d" "c_hlc d \<le> c_hlc c"
    using coord_less_total [of c d] coord_less_asym coord_less_hlc by blast
  then show ?thesis by cases (use assms in auto)
qed

lemma swap_live_none:
  assumes "c = d \<longrightarrow> x = y"
  shows "vjoin (vjoin VNone (VLive c x)) (VLive d y) = vjoin (vjoin VNone (VLive d y)) (VLive c x)"
  using assms coord_less_total [of c d] coord_less_asym [of c d] coord_less_asym [of d c] by auto

lemma swap_dead_live:
  "vjoin (vjoin v (VDead h)) (VLive d y) = vjoin (vjoin v (VLive d y)) (VDead h)"
proof (cases v)
  case (VLive c x)
  show ?thesis
  proof (cases "coord_less c d")
    case True
    then show ?thesis using coord_less_hlc [OF True] VLive by auto
  next
    case False
    then have "c_hlc d \<le> c_hlc c" using coord_less_hlcI [of c d] by force
    then show ?thesis using False VLive by auto
  qed
qed auto

lemma swap_dead: "vjoin (vjoin v (VDead h)) (VDead g) = vjoin (vjoin v (VDead g)) (VDead h)"
  by (cases v) auto

lemma vjoin_swap:
  assumes "vgood c d"
  shows "vjoin (vjoin v c) d = vjoin (vjoin v d) c"
proof (cases c)
  case (VLive e x)
  then show ?thesis using assms swap_live3 swap_live2 swap_live_none swap_dead_live
    by (cases d; cases v) (simp_all del: vjoin.simps add: vjoin.simps(1))
next
  case (VDead h)
  then show ?thesis using swap_dead_live swap_dead
    by (cases d) (simp_all del: vjoin.simps add: vjoin.simps(1))
qed simp

interpretation proj_reg: register_join vjoin vgood "claim w" for w
  by unfold_locales (rule vjoin_idem, rule vjoin_swap)

subsection \<open>Decide and Apply implement the register\<close>

definition converge_step :: "world \<Rightarrow> event \<Rightarrow> projection \<Rightarrow> projection" where
  "converge_step w e p = (case bindr (Decide w p e) (Apply w p) of Inr p' \<Rightarrow> p' | Inl _ \<Rightarrow> p)"

definition row_ok :: "projection_row \<Rightarrow> bool" where
  "row_ok r \<longleftrightarrow> (pr_status r = projectionStatusActive \<and> pr_dirty r \<noteq> dirtyStateDirty)
      \<or> pr_status r = projectionStatusDeleted"

definition proj_ok :: "projection \<Rightarrow> bool" where
  "proj_ok p \<longleftrightarrow> (\<forall>k r. p k = Some r \<longrightarrow> row_ok r)"

lemma proj_okD: "proj_ok p \<Longrightarrow> p k = Some r \<Longrightarrow>
    (pr_status r = projectionStatusActive \<and> pr_dirty r \<noteq> dirtyStateDirty) \<or> pr_status r = projectionStatusDeleted"
  by (auto simp: proj_ok_def row_ok_def)

lemma proj_ok_upd: "proj_ok p \<Longrightarrow> row_ok r \<Longrightarrow> proj_ok (p(k \<mapsto> r))"
  by (auto simp: proj_ok_def)

lemma zero_row_simps [simp]: "pr_ns zero_row = []" "pr_status zero_row = []" "pr_dirty zero_row = []"
  by (simp_all add: zero_row_def)

lemma dirty_neq [simp]: "[] \<noteq> dirtyStateDirty"
  by (simp add: dirtyStateDirty_def)

definition upsert_row :: "path \<Rightarrow> upsert_params \<Rightarrow> projection_row \<Rightarrow> projection_row" where
  "upsert_row pk u prev =
     \<lparr>pr_ns = pr_ns prev, pr_key = p_key pk, pr_path = p_display pk, pr_type = up_type u,
      pr_remote_url = up_remote_url u, pr_remote_key = up_remote_key u, pr_branch = up_branch u,
      pr_status = projectionStatusActive, pr_tomb = 0, pr_src = up_src u,
      pr_dirty = (if pr_status prev = projectionStatusActive then pr_dirty prev else [])\<rparr>"

definition prev_row :: "projection \<Rightarrow> path \<Rightarrow> projection_row" where
  "prev_row p pk = (case p (p_key pk) of Some r \<Rightarrow> r | None \<Rightarrow> zero_row)"

definition tomb_row :: "path \<Rightarrow> int \<Rightarrow> projection \<Rightarrow> projection_row" where
  "tomb_row pk hlc p = zero_row\<lparr>pr_key := p_key pk, pr_path := p_display pk,
      pr_status := projectionStatusDeleted,
      pr_tomb := (case p (p_key pk) of
                  Some prev \<Rightarrow> if pr_status prev = projectionStatusDeleted \<and> pr_tomb prev > hlc
                               then pr_tomb prev else hlc
                | None \<Rightarrow> hlc)\<rparr>"

lemma Apply_mutations:
  "d_mutations d = [] \<Longrightarrow> Apply w p d = Inr p"
  "d_mutations d = [MutationUpsert u] \<Longrightarrow> Clean w (up_path u) = Inr pk \<Longrightarrow>
     Apply w p d = Inr (p(p_key pk \<mapsto> upsert_row pk u (prev_row p pk)))"
  "d_mutations d = [MutationTombstone path h] \<Longrightarrow> Clean w path = Inr pk \<Longrightarrow>
     Apply w p d = Inr (p(p_key pk \<mapsto> tomb_row pk h p))"
  by (simp_all add: Apply_def apply_mutation_def upsert_row_def prev_row_def tomb_row_def Let_def)

lemma Apply_simps:
  "Apply w p no_decision = Inr p"
  "Apply w p \<lparr>d_mutations = [], d_conflicts = cs\<rparr> = Inr p"
  "Clean w (up_path u) = Inr pk \<Longrightarrow>
     Apply w p \<lparr>d_mutations = [MutationUpsert u], d_conflicts = cs\<rparr> = Inr (p(p_key pk \<mapsto> upsert_row pk u (prev_row p pk)))"
  "Clean w path = Inr pk \<Longrightarrow>
     Apply w p \<lparr>d_mutations = [MutationTombstone path h], d_conflicts = cs\<rparr> = Inr (p(p_key pk \<mapsto> tomb_row pk h p))"
  by (simp_all add: Apply_def no_decision_def apply_mutation_def upsert_row_def prev_row_def tomb_row_def Let_def)

definition claim_content :: "path \<Rightarrow> project_payload \<Rightarrow> content" where
  "claim_content pk p = \<lparr>ct_path = p_display pk, ct_type = pp_type p, ct_remote_url = pp_remote_url p,
      ct_remote_key = pp_remote_key p, ct_branch = pp_branch p\<rparr>"

lemma row_view_upsert:
  "row_view (Some (upsert_row pk (upsertParamsForEvent p e) prev)) = VLive (ev_coord e) (claim_content pk p)"
  by (simp add: row_view_def upsert_row_def upsertParamsForEvent_def claim_content_def)

lemma row_ok_prev: "proj_ok p \<Longrightarrow> row_ok (upsert_row pk u (prev_row p pk))"
  by (cases "p (p_key pk)")
    (auto simp: row_ok_def upsert_row_def prev_row_def dest: proj_okD)

lemma row_ok_tomb: "row_ok (tomb_row pk h p)"
  by (simp add: row_ok_def tomb_row_def)

lemma upsert_path [simp]: "up_path (upsertParamsForEvent p e) = pp_path p"
  by (simp add: upsertParamsForEvent_def)

lemma proj_view_upd: "proj_view (p(k \<mapsto> r)) = (proj_view p)(k := row_view (Some r))"
  by (auto simp: fun_eq_iff proj_view_def)

text \<open>The decision of an upsert, in one equation: what was there is kept or replaced.\<close>

lemma decideUpsert_view:
  assumes ok: "\<forall>r. p (p_key pk) = Some r \<longrightarrow>
      pr_status r = projectionStatusActive \<or> pr_status r = projectionStatusDeleted"
    and cl: "Clean w (pp_path pl) = Inr pk"
  shows "\<exists>d. decideUpsert w p pl e = Inr d \<and>
     (d_mutations d = [] \<and> vjoin (proj_view p (p_key pk)) (VLive (ev_coord e) (claim_content pk pl)) = proj_view p (p_key pk)
      \<or> d_mutations d = [MutationUpsert (upsertParamsForEvent pl e)] \<and>
        vjoin (proj_view p (p_key pk)) (VLive (ev_coord e) (claim_content pk pl)) = VLive (ev_coord e) (claim_content pk pl))"
proof (cases "p (p_key pk)")
  case None
  then show ?thesis
    by (simp add: decideUpsert_def cl tombstone_def active_def no_decision_def proj_view_def row_view_def Let_def)
next
  case (Some r)
  then have "pr_status r = projectionStatusActive \<or> pr_status r = projectionStatusDeleted" using ok by blast
  then show ?thesis
  proof (elim disjE)
    assume "pr_status r = projectionStatusDeleted"
    then show ?thesis using Some
      by (auto simp: decideUpsert_def cl tombstone_def active_def no_decision_def proj_view_def row_view_def
          ev_coord_def Let_def)
  next
    assume a: "pr_status r = projectionStatusActive"
    then show ?thesis using Some
      by (cases "coord_less (pr_src r) (ev_coord e)")
        (auto simp: decideUpsert_def cl tombstone_def active_def no_decision_def proj_view_def row_view_def
          reconcileSamePath_def Let_def)
  qed
qed

lemma decideDelete_view:
  assumes ok: "proj_ok p" and cl: "Clean w (pp_path pl) = Inr pk"
  shows "\<exists>d. decideDelete w p pl e = Inr d \<and>
     (d_mutations d = [] \<and> vjoin (proj_view p (p_key pk)) (VDead (ev_hlc e)) = proj_view p (p_key pk)
      \<or> d_mutations d = [MutationTombstone (pp_path pl) (ev_hlc e)] \<and>
        vjoin (proj_view p (p_key pk)) (VDead (ev_hlc e)) = row_view (Some (tomb_row pk (ev_hlc e) p)))"
proof (cases "p (p_key pk)")
  case None
  then show ?thesis
    by (simp add: decideDelete_def cl active_def Apply_simps proj_view_def row_view_def tomb_row_def Let_def)
next
  case (Some r)
  from proj_okD [OF ok Some] show ?thesis
  proof (elim disjE conjE)
    assume "pr_status r = projectionStatusDeleted"
    then show ?thesis using Some
      by (auto simp: decideDelete_def cl active_def no_decision_def proj_view_def row_view_def tomb_row_def Let_def)
  next
    assume "pr_status r = projectionStatusActive" "pr_dirty r \<noteq> dirtyStateDirty"
    then show ?thesis using Some
      by (auto simp: decideDelete_def cl active_def no_decision_def proj_view_def row_view_def tomb_row_def Let_def)
  qed
qed

lemma event_claim_cases:
  assumes "event_claim w e = Some (k, v)"
  obtains (up) pl pk where "decode_project (ev_payload e) = Some pl" "Clean w (pp_path pl) = Inr pk"
      "k = p_key pk" "v = VLive (ev_coord e) (claim_content pk pl)"
      "\<And>p. Decide w p e = decideUpsert w p pl e"
  | (del) pl pk where "decode_project (ev_payload e) = Some pl" "Clean w (pp_path pl) = Inr pk"
      "k = p_key pk" "v = VDead (ev_hlc e)" "\<And>p. Decide w p e = decideDelete w p pl e"
proof -
  have d: "EventProjectDeleted \<noteq> EventProjectAdded" "EventProjectDeleted \<noteq> EventProjectUpdated"
    by (simp_all add: event_type_defs)
  show ?thesis
    using assms that d
    by (auto simp: event_claim_def Decide_def claim_content_def split: option.splits sum.splits if_splits)
qed

lemma no_claim_step:
  assumes "event_claim w e = None"
  shows "converge_step w e p = p"
proof -
  have d: "EventProjectDeleted \<noteq> EventProjectAdded" "EventProjectDeleted \<noteq> EventProjectUpdated"
    by (simp_all add: event_type_defs)
  show ?thesis
    using assms d
    by (auto simp: event_claim_def converge_step_def Decide_def decode_failure_def decideUpsert_def
        decideDelete_def Apply_simps fail_def split: option.splits sum.splits if_splits)
qed

lemma converge_step_refines:
  assumes ok: "proj_ok p"
  shows "proj_ok (converge_step w e p) \<and>
     proj_view (converge_step w e p) =
       (proj_view p)(claim_key w e := vjoin (proj_view p (claim_key w e)) (claim w e))"
proof (cases "event_claim w e")
  case None
  then show ?thesis using ok by (simp add: no_claim_step claim_def)
next
  case (Some kv)
  then obtain k v where e: "event_claim w e = Some (k, v)" by (cases kv) auto
  have ck: "claim_key w e = k" "claim w e = v" by (simp_all add: claim_key_def claim_def e)
  from e show ?thesis
  proof (cases rule: event_claim_cases)
    case (up pl pk)
    have "\<forall>r. p (p_key pk) = Some r \<longrightarrow>
      pr_status r = projectionStatusActive \<or> pr_status r = projectionStatusDeleted" using proj_okD [OF ok] by blast
    from decideUpsert_view [where p = p and pk = pk, OF this up(2), of e] obtain d where
      d: "decideUpsert w p pl e = Inr d" and
      "d_mutations d = [] \<and> vjoin (proj_view p (p_key pk)) v = proj_view p (p_key pk)
      \<or> d_mutations d = [MutationUpsert (upsertParamsForEvent pl e)] \<and>
        vjoin (proj_view p (p_key pk)) v = v"
      unfolding up(4) by blast
    then have c: "Apply w p d = Inr p \<and> vjoin (proj_view p (p_key pk)) v = proj_view p (p_key pk)
      \<or> Apply w p d = Inr (p(p_key pk \<mapsto> upsert_row pk (upsertParamsForEvent pl e) (prev_row p pk))) \<and>
        vjoin (proj_view p (p_key pk)) v = v"
      using up(2) by (auto simp: Apply_mutations)
    from c show ?thesis
    proof (elim disjE conjE)
      assume "Apply w p d = Inr p" "vjoin (proj_view p (p_key pk)) v = proj_view p (p_key pk)"
      then show ?thesis using d ok up by (simp add: converge_step_def ck)
    next
      assume a: "Apply w p d = Inr (p(p_key pk \<mapsto> upsert_row pk (upsertParamsForEvent pl e) (prev_row p pk)))"
        "vjoin (proj_view p (p_key pk)) v = v"
      then have "converge_step w e p = p(p_key pk \<mapsto> upsert_row pk (upsertParamsForEvent pl e) (prev_row p pk))"
        using d up(5) by (simp add: converge_step_def)
      then show ?thesis
        using a(2) proj_ok_upd [OF ok row_ok_prev [OF ok]] unfolding ck up(3)
        by (simp only: proj_view_upd row_view_upsert up(4))
    qed
  next
    case (del pl pk)
    from decideDelete_view [OF ok del(2), of e] obtain d where
      d: "decideDelete w p pl e = Inr d" and
      "d_mutations d = [] \<and> vjoin (proj_view p (p_key pk)) v = proj_view p (p_key pk)
      \<or> d_mutations d = [MutationTombstone (pp_path pl) (ev_hlc e)] \<and>
        vjoin (proj_view p (p_key pk)) v = row_view (Some (tomb_row pk (ev_hlc e) p))"
      unfolding del(4) by blast
    then have c: "Apply w p d = Inr p \<and> vjoin (proj_view p (p_key pk)) v = proj_view p (p_key pk)
      \<or> Apply w p d = Inr (p(p_key pk \<mapsto> tomb_row pk (ev_hlc e) p)) \<and>
        vjoin (proj_view p (p_key pk)) v = row_view (Some (tomb_row pk (ev_hlc e) p))"
      using del(2) by (auto simp: Apply_mutations)
    from c show ?thesis
    proof (elim disjE conjE)
      assume "Apply w p d = Inr p" "vjoin (proj_view p (p_key pk)) v = proj_view p (p_key pk)"
      then show ?thesis using d ok del by (simp add: converge_step_def ck)
    next
      assume a: "Apply w p d = Inr (p(p_key pk \<mapsto> tomb_row pk (ev_hlc e) p))"
        "vjoin (proj_view p (p_key pk)) v = row_view (Some (tomb_row pk (ev_hlc e) p))"
      then have "converge_step w e p = p(p_key pk \<mapsto> tomb_row pk (ev_hlc e) p)"
        using d del(5) by (simp add: converge_step_def)
      then show ?thesis
        using a(2) proj_ok_upd [OF ok row_ok_tomb] unfolding ck del(3)
        by (simp only: proj_view_upd)
    qed
  qed
qed

lemma fold_converge:
  assumes "proj_ok p"
  shows "proj_ok (fold (converge_step w) es p) \<and>
     proj_view (fold (converge_step w) es p) = fold (proj_reg.reg_step w (claim_key w)) es (proj_view p)"
  using assms
proof (induction es arbitrary: p)
  case (Cons e es)
  show ?case
    using Cons.IH [of "converge_step w e p"] converge_step_refines [OF Cons.prems, of w e]
    by (simp add: proj_reg.reg_step_def)
qed simp

definition distinct_coords :: "event list \<Rightarrow> bool" where
  "distinct_coords es \<longleftrightarrow> (\<forall>d \<in> set es. \<forall>e \<in> set es. ev_coord d = ev_coord e \<longrightarrow> d = e)"

lemma claim_live: "claim w e = VLive c x \<Longrightarrow> c = ev_coord e"
  by (auto simp: claim_def event_claim_def split: option.splits sum.splits if_splits)

lemma distinct_coords_good:
  assumes "distinct_coords es" "d \<in> set es" "e \<in> set es" "d \<noteq> e"
  shows "vgood (claim w d) (claim w e)"
  using assms claim_live [of w d] claim_live [of w e]
  by (cases "claim w d"; cases "claim w e") (auto simp: distinct_coords_def)

lemma distinct_coords_batch:
  "distinct_coords es \<Longrightarrow>
     batch_of (\<lambda>d e. claim_key w d = claim_key w e \<longrightarrow> vgood (claim w d) (claim w e)) es"
  by (auto simp: batch_of_def intro: distinct_coords_good)

text \<open>C1: the namespace map converges: two devices that start from the same clean projection and
  receive the same set of project events, in any order and with any duplication, end with the same
  row at every path (live with the same content and source coordinate, or deleted with the same
  tombstone HLC), as long as no two different events carry the same coordinate.\<close>

theorem namespace_convergence:
  assumes "proj_ok p" and "set es = set ds" and "distinct_coords es"
  shows "proj_view (fold (converge_step w) es p) = proj_view (fold (converge_step w) ds p)"
proof -
  note b = distinct_coords_batch [OF assms(3), of w]
  show ?thesis
    using proj_reg.reg.fold_redelivery [OF assms(2) b, where s = "proj_view p"]
    by (simp add: fold_converge [OF assms(1)])
qed


text \<open>Concrete events, for the witnesses.\<close>

definition sample_payload :: "string \<Rightarrow> string \<Rightarrow> project_payload" where
  "sample_payload path key = \<lparr>pp_path = path, pp_type = ''git_repo'', pp_remote_url = key,
     pp_remote_key = key, pp_branch = ''main''\<rparr>"

definition sample_event :: "string \<Rightarrow> string \<Rightarrow> int \<Rightarrow> string \<Rightarrow> string \<Rightarrow> event" where
  "sample_event i dev hlc typ payload = event_zero\<lparr>ev_id := i, ev_device := dev, ev_hlc := hlc,
     ev_type := typ, ev_payload := payload\<rparr>"

definition add_event :: "string \<Rightarrow> string \<Rightarrow> int \<Rightarrow> string \<Rightarrow> string \<Rightarrow> event" where
  "add_event i dev hlc path key =
     sample_event i dev hlc EventProjectAdded (marshal_project (sample_payload path key))"

definition del_event :: "string \<Rightarrow> string \<Rightarrow> int \<Rightarrow> string \<Rightarrow> event" where
  "del_event i dev hlc path =
     sample_event i dev hlc EventProjectDeleted (marshal_project (sample_payload path ''k''))"

theorem namespace_convergence_witness:
  "proj_view (fold (converge_step (plain_world 0))
       [add_event ''e1'' ''d'' 5 ''App'' ''k'', del_event ''e2'' ''c'' 7 ''app'',
        add_event ''e3'' ''b'' 9 ''app'' ''j''] Map.empty) =
   proj_view (fold (converge_step (plain_world 0))
       [add_event ''e3'' ''b'' 9 ''app'' ''j'', del_event ''e2'' ''c'' 7 ''app'',
        add_event ''e3'' ''b'' 9 ''app'' ''j'', add_event ''e1'' ''d'' 5 ''App'' ''k''] Map.empty)"
  by (rule namespace_convergence)
    (auto simp: proj_ok_def distinct_coords_def add_event_def del_event_def sample_event_def
      event_zero_def ev_coord_def)

definition above_tomb :: "int \<Rightarrow> pview \<Rightarrow> bool" where
  "above_tomb t v = (case v of VNone \<Rightarrow> False | VDead h \<Rightarrow> t \<le> h | VLive c x \<Rightarrow> t < c_hlc c)"

lemma above_tomb_join: "above_tomb t v \<Longrightarrow> above_tomb t (vjoin v c)"
  by (cases v; cases c) (auto simp: above_tomb_def dest: coord_less_hlc)

text \<open>Deletes are never undone from the past: whatever project events arrive after a delete,
  in whatever order, a deleted path stays deleted with a tombstone that never goes down, unless it
  is live again through an add or update whose HLC is above the tombstone.\<close>

theorem no_resurrection_below_tombstone:
  assumes "proj_ok p" and "proj_view p k = VDead t"
  shows "above_tomb t (proj_view (fold (converge_step w) es p) k)"
proof -
  have "above_tomb t (proj_view (fold (converge_step w) es q) k)"
    if "proj_ok q" "above_tomb t (proj_view q k)" for q
    using that
  proof (induction es arbitrary: q)
    case (Cons e es)
    have "above_tomb t (proj_view (converge_step w e q) k)"
      using converge_step_refines [OF Cons.prems(1), of w e] Cons.prems(2)
      by (cases "k = claim_key w e") (auto simp: above_tomb_join)
    then show ?case using Cons.IH converge_step_refines [OF Cons.prems(1), of w e] by simp
  qed simp
  then show ?thesis using assms by (simp add: above_tomb_def)
qed

theorem no_resurrection_below_tombstone_witness:
  "above_tomb 7 (proj_view (fold (converge_step (plain_world 0))
     [add_event ''e3'' ''b'' 6 ''app'' ''j'', del_event ''e4'' ''b'' 3 ''app'']
     [''app'' \<mapsto> zero_row\<lparr>pr_status := projectionStatusDeleted, pr_tomb := 7\<rparr>]) ''app'')"
  by (rule no_resurrection_below_tombstone)
    (simp_all add: proj_ok_def row_ok_def proj_view_def row_view_def projectionStatusActive_def
      projectionStatusDeleted_def)

text \<open>Unpushed work is not deleted: a delete that meets a dirty active checkout (and is not
  stale) changes nothing in the map and records exactly one pending-delete conflict naming the
  delete event.\<close>

theorem dirty_checkout_survives_delete:
  assumes "ev_type e = EventProjectDeleted" and "decode_project (ev_payload e) = Some pl"
    and "Clean w (pp_path pl) = Inr pk" and "active p (p_key pk) = Some row"
    and "pr_dirty row = dirtyStateDirty" and "c_hlc (pr_src row) \<le> ev_hlc e"
  shows "\<exists>d. Decide w p e = Inr d \<and> Apply w p d = Inr p \<and>
     d_conflicts d = [\<lparr>cf_ns = pr_ns row, cf_type = ConflictPendingDelete,
                       cf_details = pending_delete_details (pp_path pl) e\<rparr>]"
proof -
  have "EventProjectDeleted \<noteq> EventProjectAdded" "EventProjectDeleted \<noteq> EventProjectUpdated"
    by (simp_all add: event_type_defs)
  then show ?thesis
    using assms by (auto simp: Decide_def decideDelete_def Let_def Apply_simps)
qed

definition dirty_row :: projection_row where
  "dirty_row = zero_row\<lparr>pr_ns := ''n'', pr_status := projectionStatusActive, pr_dirty := dirtyStateDirty\<rparr>"

theorem dirty_checkout_survives_delete_witness:
  "\<exists>d. Decide (plain_world 0) [''app'' \<mapsto> dirty_row] (del_event ''e4'' ''b'' 3 ''App'') = Inr d \<and>
     Apply (plain_world 0) [''app'' \<mapsto> dirty_row] d = Inr [''app'' \<mapsto> dirty_row] \<and>
     length (d_conflicts d) = 1"
proof -
  have d: "decode_project (ev_payload (del_event ''e4'' ''b'' 3 ''App'')) = Some (sample_payload ''App'' ''k'')"
    by code_simp
  have c: "Clean (plain_world 0) (pp_path (sample_payload ''App'' ''k'')) =
      Inr \<lparr>p_display = ''App'', p_key = ''app''\<rparr>" by code_simp
  show ?thesis
    using dirty_checkout_survives_delete [OF _ d c, of "[''app'' \<mapsto> dirty_row]" dirty_row]
    by (auto simp: del_event_def sample_event_def active_def dirty_row_def zero_row_def zero_coord_def)
qed

definition row_of_event :: "string \<Rightarrow> path \<Rightarrow> project_payload \<Rightarrow> event \<Rightarrow> projection_row" where
  "row_of_event ns pk pl e = upsert_row pk (upsertParamsForEvent pl e) (zero_row\<lparr>pr_ns := ns\<rparr>)"

text \<open>Two different remotes on one path: the conflict both devices record is the same text,
  whichever of the two events they saw first, so that resolving it on one device (by its
  fingerprint) resolves it on the other.\<close>

theorem same_path_conflict_symmetric:
  assumes "pp_path a = pp_path b" and "ev_coord ea \<noteq> ev_coord eb"
  shows "snd (snd (reconcileSamePath (row_of_event na pk a ea) b eb)) =
         snd (snd (reconcileSamePath (row_of_event nb pk' b eb) a ea))"
proof -
  have r: "pr_src (row_of_event n k p e) = ev_coord e"
    "pp_remote_key (row_payload (row_of_event n k p e)) = pp_remote_key p" for n k p e
    by (simp_all add: row_of_event_def upsert_row_def upsertParamsForEvent_def row_payload_def)
  from coord_less_total [of "ev_coord ea" "ev_coord eb"] assms(2)
  consider "coord_less (ev_coord ea) (ev_coord eb)" "\<not> coord_less (ev_coord eb) (ev_coord ea)"
    | "coord_less (ev_coord eb) (ev_coord ea)" "\<not> coord_less (ev_coord ea) (ev_coord eb)"
    using coord_less_asym by blast
  then show ?thesis
    by cases (auto simp: reconcileSamePath_def r Let_def assms(1) not_less)
qed

theorem same_path_conflict_symmetric_witness:
  "snd (snd (reconcileSamePath (row_of_event ''n1'' \<lparr>p_display = ''a'', p_key = ''a''\<rparr>
      (sample_payload ''a'' ''k'') (add_event ''e1'' ''d'' 5 ''a'' ''k'')) (sample_payload ''a'' ''j'')
      (add_event ''e2'' ''d'' 6 ''a'' ''j''))) =
   snd (snd (reconcileSamePath (row_of_event ''n2'' \<lparr>p_display = ''a'', p_key = ''a''\<rparr>
      (sample_payload ''a'' ''j'') (add_event ''e2'' ''d'' 6 ''a'' ''j'')) (sample_payload ''a'' ''k'')
      (add_event ''e1'' ''d'' 5 ''a'' ''k'')))"
  by (rule same_path_conflict_symmetric)
    (simp_all add: sample_payload_def ev_coord_def add_event_def sample_event_def)

lemma sample_claims:
  assumes "ascii_str path" "ascii_str key" "Clean w path = Inr pk"
  shows "event_claim w (add_event i dev h path key) = Some (p_key pk,
      VLive \<lparr>c_hlc = h, c_dev = dev, c_id = i\<rparr>
       \<lparr>ct_path = p_display pk, ct_type = ''git_repo'', ct_remote_url = key, ct_remote_key = key,
        ct_branch = ''main''\<rparr>)"
    and "event_claim w (del_event i dev h path) = Some (p_key pk, VDead h)"
proof -
  have a: "decode_project (marshal_project (sample_payload path x)) = Some (sample_payload path x)"
    if "ascii_str x" for x
    by (rule project_json_roundtrip_aux)
      (use assms that in \<open>simp add: ascii_payload_def sample_payload_def is_ascii_def\<close>)
  show "event_claim w (add_event i dev h path key) = Some (p_key pk,
      VLive \<lparr>c_hlc = h, c_dev = dev, c_id = i\<rparr>
       \<lparr>ct_path = p_display pk, ct_type = ''git_repo'', ct_remote_url = key, ct_remote_key = key,
        ct_branch = ''main''\<rparr>)"
    using a [OF assms(2)] assms(3)
    by (simp add: event_claim_def add_event_def sample_event_def sample_payload_def ev_coord_def)
  have "ascii_str ''k''" by (simp add: is_ascii_def)
  then show "event_claim w (del_event i dev h path) = Some (p_key pk, VDead h)"
    using a [of "''k''"] assms(3)
    by (simp add: event_claim_def del_event_def sample_event_def sample_payload_def event_type_defs)
qed

lemma sample_app: "Clean (plain_world n) ''app'' = Inr \<lparr>p_display = ''app'', p_key = ''app''\<rparr>"
  by code_simp
lemma sample_App: "Clean (plain_world n) ''App'' = Inr \<lparr>p_display = ''App'', p_key = ''app''\<rparr>"
  by code_simp

end
