(* ===== verification/Store_State.thy ===== *)
theory Store_State
  imports Tables Projection
begin

section \<open>The local store\<close>

text \<open>
  The tables of \<^verbatim>\<open>src/internal/state/migrations\<close> that the sync plane reads and writes, as one
  state record. The workspace is a singleton (index \<^verbatim>\<open>idx_workspaces_singleton\<close>), so the
  \<^verbatim>\<open>workspace_id\<close> column of each table is the field \<open>st_workspace\<close>; the
  \<^verbatim>\<open>created_at\<close>/\<^verbatim>\<open>updated_at\<close> columns, which no modelled read consults except the device
  order, are left out (a time the code reads back, such as the start of a grace window, is the
  clock's reading). A nullable column is an option where the code tells NULL from its default.
\<close>

record device =
  dv_id :: string
  dv_name :: string
  dv_os :: string
  dv_arch :: string
  dv_host :: string
  dv_pub :: string
  dv_sig_pub :: string
  dv_trust :: string
  dv_revoked :: "int option"

record entry =
  ns_id :: string
  ns_path :: string
  ns_key :: string
  ns_type :: string
  ns_display :: string
  ns_policy :: string
  ns_status :: string
  ns_tomb :: "int option"
  ns_src_hlc :: "int option"
  ns_src_dev :: "string option"
  ns_src_id :: "string option"
  ns_profile :: string

record repo =
  gr_ns :: string
  gr_url :: string
  gr_key :: string
  gr_branch :: string
  gr_lfs :: string
  gr_forge :: string

record draft_project =
  dj_ns :: string
  dj_current :: string
  dj_max_bytes :: int
  dj_max_files :: int

record draft_snapshot =
  ds_id :: string
  ds_ns :: string
  ds_blob :: string
  ds_bytes :: int
  ds_files :: int
  ds_src :: coord
  ds_created :: string

record checkout =
  ck_dev :: string
  ck_ns :: string
  ck_path :: string
  ck_mat :: string
  ck_dirty :: string
  ck_error :: string

record worktree =
  wt_id :: string
  wt_ns :: string
  wt_path :: string

record conflict =
  cn_id :: string
  cn_ns :: string
  cn_type :: string
  cn_open :: bool
  cn_details :: string
  cn_resolution :: string

record clock_row =
  cl_dev :: string
  cl_hlc :: int
  cl_seq :: int

record skipped =
  sk_event :: string
  sk_dev :: string
  sk_seq :: int
  sk_hlc :: int
  sk_reason :: string
  sk_first :: int

record anchor =
  an_dev :: string
  an_seq :: int
  an_hash :: string
  an_fold :: string
  an_hlc :: int
  an_sha :: string

record env_profile =
  pf_id :: string
  pf_name :: string
  pf_provider :: string
  pf_mode :: string
  pf_src :: "coord option"

record binding =
  sb_id :: string
  sb_profile :: string
  sb_var :: string
  sb_ref :: "string option"
  sb_blob :: "string option"
  sb_rotate :: bool

record grant_row =
  gt_epoch :: int
  gt_recipient :: string
  gt_event :: string
  gt_hlc :: "int option"
  gt_dev :: "string option"
  gt_kid :: "string option"

record key_row =
  ky_epoch :: int
  ky_kid :: string
  ky_origin :: string
  ky_created :: int

record wait_row =
  kw_epoch :: int
  kw_kid :: string
  kw_first :: int

record hub_cursor =
  hc_hub :: string
  hc_hlc :: int

record hub_device_cursor =
  hq_hub :: string
  hq_dev :: string
  hq_seq :: int

record gitstate =
  gs_dev :: string
  gs_key :: string
  gs_path :: string
  gs_obs :: gitstate_payload
  gs_hlc :: int
  gs_event :: string

record wip =
  wm_dev :: string
  wm_key :: string
  wm_path :: string
  wm_ref :: string
  wm_sha :: string
  wm_base :: string
  wm_captured :: string
  wm_hlc :: int
  wm_event :: string
  wm_drop_hlc :: "int option"
  wm_drop_sha :: "string option"

record head_row =
  hd_dev :: string
  hd_seq :: int
  hd_fold :: string
  hd_hlc :: int
  hd_pending :: bool

record store =
  st_workspace :: string
  st_fresh :: nat
  st_devices :: "device list"
  st_entries :: "entry list"
  st_repos :: "repo list"
  st_drafts :: "draft_project list"
  st_snapshots :: "draft_snapshot list"
  st_checkouts :: "checkout list"
  st_worktrees :: "worktree list"
  st_events :: "event list"
  st_conflicts :: "conflict list"
  st_clocks :: "clock_row list"
  st_skipped :: "skipped list"
  st_anchors :: "anchor list"
  st_profiles :: "env_profile list"
  st_bindings :: "binding list"
  st_grants :: "grant_row list"
  st_keys :: "key_row list"
  st_waits :: "wait_row list"
  st_hub_cursors :: "hub_cursor list"
  st_hub_seqs :: "hub_device_cursor list"
  st_pending_deletes :: "string list"
  st_meta :: "(string \<times> string) list"
  st_gitstate :: "gitstate list"
  st_wip :: "wip list"
  st_heads :: "head_row list"

definition empty_store :: "string \<Rightarrow> store" where
  "empty_store ws = \<lparr>st_workspace = ws, st_fresh = 0, st_devices = [], st_entries = [], st_repos = [],
     st_drafts = [], st_snapshots = [], st_checkouts = [], st_worktrees = [], st_events = [],
     st_conflicts = [], st_clocks = [], st_skipped = [], st_anchors = [], st_profiles = [],
     st_bindings = [], st_grants = [], st_keys = [], st_waits = [], st_hub_cursors = [],
     st_hub_seqs = [], st_pending_deletes = [], st_meta = [], st_gitstate = [],
     st_wip = [], st_heads = []\<rparr>"

lemma empty_store_simps [simp]:
  "st_entries (empty_store x) = []" "st_repos (empty_store x) = []" "st_devices (empty_store x) = []"
  "st_checkouts (empty_store x) = []" "st_conflicts (empty_store x) = []" "st_events (empty_store x) = []"
  "st_fresh (empty_store x) = 0" "st_workspace (empty_store x) = x" "st_worktrees (empty_store x) = []"
  "st_clocks (empty_store x) = []" "st_anchors (empty_store x) = []" "st_gitstate (empty_store x) = []"
  "st_wip (empty_store x) = []" "st_heads (empty_store x) = []" "st_skipped (empty_store x) = []"
  "st_profiles (empty_store x) = []" "st_bindings (empty_store x) = []" "st_keys (empty_store x) = []"
  "st_meta (empty_store x) = []" "st_snapshots (empty_store x) = []" "st_drafts (empty_store x) = []"
  "st_grants (empty_store x) = []" "st_waits (empty_store x) = []"
  "st_hub_cursors (empty_store x) = []" "st_hub_seqs (empty_store x) = []" "st_pending_deletes (empty_store x) = []"
  by (simp_all add: empty_store_def)

text \<open>A new \<^verbatim>\<open>draft_projects\<close> row with the schema's default limits.\<close>

definition default_draft :: "string \<Rightarrow> draft_project" where
  "default_draft i = \<lparr>dj_ns = i, dj_current = [], dj_max_bytes = 104857600, dj_max_files = 5000\<rparr>"

text \<open>\<^verbatim>\<open>id.New(prefix)\<close>: the next identifier of the random source.\<close>

definition new_id :: "world \<Rightarrow> string \<Rightarrow> store \<Rightarrow> string \<times> store" where
  "new_id w prefix s = (w_new_id w prefix (st_fresh s), s\<lparr>st_fresh := Suc (st_fresh s)\<rparr>)"

definition nullEmpty :: "string \<Rightarrow> string option" where
  "nullEmpty v = (if v = [] then None else Some v)"

definition nullZero :: "int \<Rightarrow> int option" where
  "nullZero v = (if v = 0 then None else Some v)"

definition coalesce :: "'a option \<Rightarrow> 'a option \<Rightarrow> 'a option" where
  "coalesce a b = (case a of Some x \<Rightarrow> Some x | None \<Rightarrow> b)"

definition or_else :: "'a option \<Rightarrow> 'a \<Rightarrow> 'a" where
  "or_else a d = (case a of Some x \<Rightarrow> x | None \<Rightarrow> d)"

lemma or_else_simps [simp]: "or_else None d = d" "or_else (Some x) d = x"
  by (simp_all add: or_else_def)

lemma coalesce_simps [simp]: "coalesce None b = b" "coalesce (Some x) b = Some x"
  by (simp_all add: coalesce_def)

text \<open>\<^verbatim>\<open>WithTx\<close>: a transaction that fails leaves the store as it was.\<close>

definition with_tx :: "store \<Rightarrow> (store \<Rightarrow> ('a \<times> store) res) \<Rightarrow> 'a res \<times> store" where
  "with_tx s f = (case f s of Inl e \<Rightarrow> (Inl e, s) | Inr (x, s') \<Rightarrow> (Inr x, s'))"

lemma with_tx_error: "fst (with_tx s f) = Inl e \<Longrightarrow> snd (with_tx s f) = s"
  by (auto simp: with_tx_def split: sum.splits)

text \<open>\<^verbatim>\<open>filepathBaseSlash\<close>\<close>

definition trim_slashes :: "string \<Rightarrow> string" where
  "trim_slashes p = rev (dropWhile (\<lambda>c. c = CHR ''/'') (rev (dropWhile (\<lambda>c. c = CHR ''/'') p)))"

definition filepathBaseSlash :: "string \<Rightarrow> string" where
  "filepathBaseSlash path =
     (let p = trim_slashes path in if p = [] then [] else last (split_on CHR ''/'' p))"

text \<open>SQLite's \<^verbatim>\<open>json_extract(text, '$.member')\<close> on an object: the first member of that name.\<close>

definition json_member :: "string \<Rightarrow> string \<Rightarrow> json option" where
  "json_member text key = (case parse_json text of
       Some (JObj ms) \<Rightarrow> (case map_of ms key of Some JNull \<Rightarrow> None | v \<Rightarrow> v)
     | _ \<Rightarrow> None)"

end
