(* ===== verification/Conflict_Log.thy ===== *)
theory Conflict_Log
  imports Store_State
begin

section \<open>The conflict log\<close>

text \<open>
  \<^verbatim>\<open>conflicts\<close> rows: recording with deduplication, the three ways to resolve, and the reads.
  \<^verbatim>\<open>status\<close> is \<open>cn_open\<close> (open or resolved), \<^verbatim>\<open>COALESCE(namespace_id, '')\<close> is
  \<open>cn_ns\<close>.
\<close>

definition insertConflict :: "world \<Rightarrow> string \<Rightarrow> string \<Rightarrow> string \<Rightarrow> store \<Rightarrow> store" where
  "insertConflict w ns typ details s =
     (if list_ex (\<lambda>c. cn_ns c = ns \<and> cn_type c = typ \<and> cn_open c \<and> cn_details c = details) (st_conflicts s)
      then s
      else let (i, s') = new_id w ''cnf'' s in
        s'\<lparr>st_conflicts := st_conflicts s' @
            [\<lparr>cn_id = i, cn_ns = ns, cn_type = typ, cn_open = True, cn_details = details, cn_resolution = []\<rparr>]\<rparr>)"

definition close_where :: "(conflict \<Rightarrow> bool) \<Rightarrow> string \<Rightarrow> store \<Rightarrow> store" where
  "close_where P res s = s\<lparr>st_conflicts :=
     tmod (\<lambda>c. P c \<and> cn_open c) (\<lambda>c. c\<lparr>cn_open := False, cn_resolution := res\<rparr>) (st_conflicts s)\<rparr>"

definition ResolveConflict :: "string \<Rightarrow> string \<Rightarrow> store \<Rightarrow> store res" where
  "ResolveConflict i res s =
     (if list_ex (\<lambda>c. cn_id c = i \<and> cn_open c) (st_conflicts s)
      then Inr (close_where (\<lambda>c. cn_id c = i) res s)
      else fail KOther (''conflict not found or already resolved: '' @ i))"

definition ResolveConflictByFingerprint :: "string \<Rightarrow> string \<Rightarrow> string \<Rightarrow> store \<Rightarrow> store" where
  "ResolveConflictByFingerprint typ details res s =
     close_where (\<lambda>c. cn_type c = typ \<and> cn_details c = details) res s"

definition ResolveOpenConflictsByEventID :: "string \<Rightarrow> string \<Rightarrow> string \<Rightarrow> store \<Rightarrow> store" where
  "ResolveOpenConflictsByEventID typ evid res s =
     close_where (\<lambda>c. cn_type c = typ \<and> json_member (cn_details c) ''event_id'' = Some (JStr evid)) res s"

definition ResolveOmissionConflictsForDevice :: "string \<Rightarrow> string \<Rightarrow> string \<Rightarrow> string \<Rightarrow> store \<Rightarrow> store" where
  "ResolveOmissionConflictsForDevice typ dev kind res s =
     close_where (\<lambda>c. cn_type c = typ \<and> json_member (cn_details c) ''device_id'' = Some (JStr dev) \<and>
                     (kind = [] \<or> json_member (cn_details c) ''kind'' = Some (JStr kind))) res s"

definition CountOpenConflicts :: "store \<Rightarrow> nat" where
  "CountOpenConflicts s = tcount cn_open (st_conflicts s)"

definition OpenConflicts :: "store \<Rightarrow> conflict list" where
  "OpenConflicts s =
     sort_key cn_type (sort_key cn_details (sort_key cn_id (filter cn_open (st_conflicts s))))"

definition OpenConflictsByType :: "string \<Rightarrow> store \<Rightarrow> conflict list" where
  "OpenConflictsByType typ s =
     sort_key cn_details (sort_key cn_id (filter (\<lambda>c. cn_open c \<and> cn_type c = typ) (st_conflicts s)))"

definition ConflictByID :: "string \<Rightarrow> store \<Rightarrow> conflict res" where
  "ConflictByID i s = (case tget cn_id i (st_conflicts s) of
      Some c \<Rightarrow> Inr c | None \<Rightarrow> fail KOther (''unknown conflict '' @ i))"

subsection \<open>Facts\<close>

definition open_conflict :: "string \<Rightarrow> string \<Rightarrow> string \<Rightarrow> store \<Rightarrow> bool" where
  "open_conflict ns typ details s \<longleftrightarrow>
     (\<exists>c \<in> set (st_conflicts s). cn_ns c = ns \<and> cn_type c = typ \<and> cn_open c \<and> cn_details c = details)"

text \<open>No two open conflicts have the same fingerprint.\<close>

definition conflicts_dedup :: "store \<Rightarrow> bool" where
  "conflicts_dedup s \<longleftrightarrow>
     distinct (map (\<lambda>c. (cn_ns c, cn_type c, cn_details c)) (filter cn_open (st_conflicts s)))"

lemma insertConflict_open: "open_conflict ns typ d (insertConflict w ns typ d s)"
  by (auto simp: open_conflict_def insertConflict_def list_ex_iff Let_def new_id_def)

lemma insertConflict_idem:
  "insertConflict w ns typ d (insertConflict w ns typ d s) = insertConflict w ns typ d s"
  using insertConflict_open [of ns "typ" d w s]
  by (auto simp: insertConflict_def [of w ns "typ" d "insertConflict w ns typ d s"] open_conflict_def list_ex_iff)

lemma insertConflict_dedup [sync_inv]:
  "conflicts_dedup s \<Longrightarrow> conflicts_dedup (insertConflict w ns typ d s)"
  by (auto simp: conflicts_dedup_def insertConflict_def list_ex_iff Let_def new_id_def)

lemma filter_close:
  "filter cn_open (tmod (\<lambda>c. P c \<and> cn_open c) (\<lambda>c. c\<lparr>cn_open := False, cn_resolution := r\<rparr>) cs) =
     filter (\<lambda>c. cn_open c \<and> \<not> P c) cs"
  by (induction cs) (auto simp: tmod_def)

lemma close_where_open:
  "filter cn_open (st_conflicts (close_where P r s)) = filter (\<lambda>c. \<not> P c) (filter cn_open (st_conflicts s))"
  by (simp add: close_where_def filter_close conj_commute)

lemma close_where_dedup [sync_inv]: "conflicts_dedup s \<Longrightarrow> conflicts_dedup (close_where P r s)"
  unfolding conflicts_dedup_def close_where_open by (rule distinct_map_filter)

lemma close_where_idem: "close_where P r' (close_where P r s) = close_where P r s"
  by (auto simp: close_where_def tmod_def)

lemma close_where_count: "CountOpenConflicts (close_where P r s) \<le> CountOpenConflicts s"
  by (simp add: CountOpenConflicts_def tcount_def close_where_open del: filter_filter)

text \<open>Everything but the conflict log (and the supply of identifiers) is left alone.\<close>

lemma insertConflict_frame [sync_frame, simp]:
  "st_devices (insertConflict w ns typ d s) = st_devices s"
  "st_entries (insertConflict w ns typ d s) = st_entries s"
  "st_repos (insertConflict w ns typ d s) = st_repos s"
  "st_events (insertConflict w ns typ d s) = st_events s"
  "st_checkouts (insertConflict w ns typ d s) = st_checkouts s"
  "st_clocks (insertConflict w ns typ d s) = st_clocks s"
  "st_workspace (insertConflict w ns typ d s) = st_workspace s"
  "st_gitstate (insertConflict w ns typ d s) = st_gitstate s"
  "st_wip (insertConflict w ns typ d s) = st_wip s"
  "st_anchors (insertConflict w ns typ d s) = st_anchors s"
  "st_keys (insertConflict w ns typ d s) = st_keys s"
  "st_meta (insertConflict w ns typ d s) = st_meta s"
  by (auto simp: insertConflict_def Let_def new_id_def)

lemma close_where_frame [sync_frame, simp]:
  "st_devices (close_where P r s) = st_devices s"
  "st_entries (close_where P r s) = st_entries s"
  "st_repos (close_where P r s) = st_repos s"
  "st_events (close_where P r s) = st_events s"
  "st_checkouts (close_where P r s) = st_checkouts s"
  "st_clocks (close_where P r s) = st_clocks s"
  "st_workspace (close_where P r s) = st_workspace s"
  "st_gitstate (close_where P r s) = st_gitstate s"
  "st_wip (close_where P r s) = st_wip s"
  "st_anchors (close_where P r s) = st_anchors s"
  "st_keys (close_where P r s) = st_keys s"
  "st_meta (close_where P r s) = st_meta s"
  by (auto simp: close_where_def)

text \<open>The conflict log never holds the same open conflict twice, and recording one is
  idempotent: re-delivering an event that conflicts adds nothing, while the conflict stays visible
  until it is resolved; resolving by fingerprint closes exactly the conflicts of that type and text,
  wherever they are attributed, and a second resolution changes nothing.\<close>

theorem conflict_log_idempotent:
  assumes "conflicts_dedup s"
  shows "conflicts_dedup (insertConflict w ns typ d s) \<and>
     insertConflict w ns typ d (insertConflict w ns typ d s) = insertConflict w ns typ d s \<and>
     open_conflict ns typ d (insertConflict w ns typ d s) \<and>
     filter cn_open (st_conflicts (ResolveConflictByFingerprint typ d r s)) =
       filter (\<lambda>c. \<not> (cn_type c = typ \<and> cn_details c = d)) (filter cn_open (st_conflicts s)) \<and>
     ResolveConflictByFingerprint typ d r' (ResolveConflictByFingerprint typ d r s) =
       ResolveConflictByFingerprint typ d r s"
  using assms
  by (simp add: insertConflict_dedup insertConflict_idem insertConflict_open
      ResolveConflictByFingerprint_def close_where_open close_where_idem)

theorem conflict_log_idempotent_witness:
  "conflicts_dedup (insertConflict (plain_world 0) '''' ''t'' ''d'' (empty_store ''ws''))"
  using conflict_log_idempotent [of "empty_store ''ws''" "plain_world 0" "''''" "''t''" "''d''"]
  by (simp add: conflicts_dedup_def empty_store_def)

end
