(* ===== verification/Device_Trust.thy ===== *)
theory Device_Trust
  imports Store_State Convergence
begin

section \<open>Devices and trust\<close>

text \<open>
  The \<^verbatim>\<open>devices\<close> table of \<^verbatim>\<open>src/internal/state/store.go\<close>: placeholders for remote devices,
  enrolment, the local trust ceremony, and the synced revocations with their boundary HLC.
\<close>

definition trust_local :: string where "trust_local = ''local''"
definition trust_pending :: string where "trust_pending = ''pending''"
definition trust_approved :: string where "trust_approved = ''approved''"
definition trust_revoked :: string where "trust_revoked = ''revoked''"
definition trust_lost :: string where "trust_lost = ''lost''"

lemmas trust_defs = trust_local_def trust_pending_def trust_approved_def trust_revoked_def trust_lost_def

definition currentDevice :: "store \<Rightarrow> device res" where
  "currentDevice s = (case find (\<lambda>d. dv_trust d = trust_local) (st_devices s) of
      Some d \<Rightarrow> Inr d | None \<Rightarrow> fail KOther ''read current device: sql: no rows in result set'')"

definition ListDevices :: "store \<Rightarrow> device list" where
  "ListDevices s = sort_key (\<lambda>d. if dv_trust d = trust_local then 0 else 1 :: nat)
     (sort_key dv_name (sort_key dv_id (st_devices s)))"

definition UpsertDevice :: "device \<Rightarrow> store \<Rightarrow> store res" where
  "UpsertDevice d s =
     (if dv_id d = [] \<or> dv_name d = [] \<or> dv_os d = [] \<or> dv_arch d = []
      then fail KOther ''device id, name, os, and arch are required''
      else if dv_trust d \<notin> {trust_pending, trust_approved, trust_revoked, trust_lost}
      then fail KOther (''unsupported trust state '' @ dv_trust d)
      else bindr (currentDevice s) (\<lambda>c.
        if dv_id d = dv_id c then fail KOther ''refusing to enroll current local device''
        else Inr (s\<lparr>st_devices := tput dv_id (d\<lparr>dv_revoked := None\<rparr>)
          (\<lambda>x. if dv_trust x = trust_local then x else
             x\<lparr>dv_name := dv_name d, dv_os := dv_os d, dv_arch := dv_arch d, dv_host := dv_host d,
               dv_pub := dv_pub d, dv_sig_pub := dv_sig_pub d, dv_trust := dv_trust d\<rparr>) (st_devices s)\<rparr>)))"

definition RenameDevice :: "string \<Rightarrow> string \<Rightarrow> store \<Rightarrow> store res" where
  "RenameDevice i name s =
     (if i = [] \<or> name = [] then fail KOther ''device id and name are required''
      else if tget dv_id i (st_devices s) = None then fail KOther (''unknown device '' @ i)
      else Inr (s\<lparr>st_devices := tmod (\<lambda>d. dv_id d = i) (\<lambda>d. d\<lparr>dv_name := name\<rparr>) (st_devices s)\<rparr>))"

definition SetDeviceTrustStateTx :: "string \<Rightarrow> string \<Rightarrow> store \<Rightarrow> store res" where
  "SetDeviceTrustStateTx i trust s =
     (if i = [] then fail KOther ''device id is required''
      else if trust \<notin> {trust_approved, trust_revoked, trust_lost, trust_pending}
      then fail KOther (''unsupported trust state '' @ trust)
      else bindr (currentDevice s) (\<lambda>c.
        if i = dv_id c then fail KOther ''refusing to change local device trust state''
        else if tget dv_id i (st_devices s) = None then fail KOther (''unknown device '' @ i)
        else Inr (s\<lparr>st_devices := tmod (\<lambda>d. dv_id d = i)
          (\<lambda>d. d\<lparr>dv_trust := trust,
                 dv_revoked := (if trust = trust_approved then None else dv_revoked d)\<rparr>) (st_devices s)\<rparr>)))"

definition SetDeviceTrustState :: "string \<Rightarrow> string \<Rightarrow> store \<Rightarrow> unit res \<times> store" where
  "SetDeviceTrustState i trust s =
     with_tx s (\<lambda>s. bindr (SetDeviceTrustStateTx i trust s) (\<lambda>s'. Inr ((), s')))"

definition recordDeviceRevocationHLC :: "string \<Rightarrow> int \<Rightarrow> store \<Rightarrow> store" where
  "recordDeviceRevocationHLC i hlc s =
     (if hlc \<le> 0 then s
      else s\<lparr>st_devices := tmod (\<lambda>d. dv_id d = i \<and> dv_trust d \<noteq> trust_local)
         (\<lambda>d. d\<lparr>dv_revoked := (case dv_revoked d of
                 None \<Rightarrow> Some hlc | Some b \<Rightarrow> if hlc < b then Some hlc else Some b)\<rparr>) (st_devices s)\<rparr>)"

definition RecordDeviceRevocationHLCTx :: "string \<Rightarrow> int \<Rightarrow> store \<Rightarrow> store res" where
  "RecordDeviceRevocationHLCTx i hlc s =
     (if i = [] then fail KOther ''device id is required'' else Inr (recordDeviceRevocationHLC i hlc s))"

definition flippable :: "string \<Rightarrow> device \<Rightarrow> bool" where
  "flippable i d \<longleftrightarrow> dv_id d = i \<and> (dv_trust d = trust_pending \<or> dv_trust d = trust_approved)"

definition ApplyRemoteDeviceTrustTx :: "string \<Rightarrow> string \<Rightarrow> int \<Rightarrow> store \<Rightarrow> (bool \<times> store) res" where
  "ApplyRemoteDeviceTrustTx i trust hlc s =
     (if i = [] then fail KOther ''device id is required''
      else if trust \<notin> {trust_revoked, trust_lost}
      then fail KOther (''unsupported remote trust state '' @ trust)
      else bindr (currentDevice s) (\<lambda>c.
        if i = dv_id c then Inr (False, s)
        else
          let changed = list_ex (flippable i) (st_devices s);
              s1 = s\<lparr>st_devices := tmod (flippable i) (\<lambda>d. d\<lparr>dv_trust := trust\<rparr>) (st_devices s)\<rparr>
          in Inr (changed, recordDeviceRevocationHLC i hlc s1)))"

definition SetDevicePublicKey :: "string \<Rightarrow> string \<Rightarrow> store \<Rightarrow> store res" where
  "SetDevicePublicKey i key s =
     (if i = [] then fail KOther ''device id must not be empty''
      else if key = [] then fail KOther ''device public key must not be empty''
      else Inr (s\<lparr>st_devices := tmod (\<lambda>d. dv_id d = i) (\<lambda>d. d\<lparr>dv_pub := key\<rparr>) (st_devices s)\<rparr>))"

definition SetDeviceSigningPublicKey :: "string \<Rightarrow> string \<Rightarrow> store \<Rightarrow> store res" where
  "SetDeviceSigningPublicKey i key s =
     (if i = [] then fail KOther ''device id must not be empty''
      else if key = [] then fail KOther ''device signing public key must not be empty''
      else Inr (s\<lparr>st_devices := tmod (\<lambda>d. dv_id d = i) (\<lambda>d. d\<lparr>dv_sig_pub := key\<rparr>) (st_devices s)\<rparr>))"

definition placeholder :: "string \<Rightarrow> string \<Rightarrow> device" where
  "placeholder i name = \<lparr>dv_id = i, dv_name = name, dv_os = ''unknown'', dv_arch = ''unknown'',
     dv_host = [], dv_pub = [], dv_sig_pub = [], dv_trust = trust_pending, dv_revoked = None\<rparr>"

definition EnsureRemoteDevice :: "string \<Rightarrow> store \<Rightarrow> store res" where
  "EnsureRemoteDevice i s =
     (if i = [] then fail KOther ''device id must not be empty''
      else Inr (s\<lparr>st_devices := tins dv_id (placeholder i (''remote-'' @ take 8 i)) (st_devices s)\<rparr>))"

definition EnsureRemoteDeviceTx :: "string \<Rightarrow> store \<Rightarrow> store res" where
  "EnsureRemoteDeviceTx i s =
     (if i = [] then fail KOther ''device id must not be empty''
      else Inr (s\<lparr>st_devices := tins dv_id (placeholder i ''remote'') (st_devices s)\<rparr>))"

definition hasEnrolledDevices :: "store \<Rightarrow> bool" where
  "hasEnrolledDevices s \<longleftrightarrow>
     tcount (\<lambda>d. dv_trust d \<in> {trust_approved, trust_revoked, trust_lost}) (st_devices s) > 0"

definition ApprovedDeviceSigningKey :: "string \<Rightarrow> store \<Rightarrow> string option" where
  "ApprovedDeviceSigningKey i s =
     (case tget dv_id i (st_devices s) of
        Some d \<Rightarrow> if dv_trust d \<noteq> trust_approved \<or> dv_sig_pub d = [] then None else Some (dv_sig_pub d)
      | None \<Rightarrow> None)"

text \<open>\<^verbatim>\<open>ApprovedRecipients\<close>: the map \<^verbatim>\<open>seen\<close> is the set of the keys listed so far.\<close>

fun collect_recipients :: "string \<Rightarrow> string list \<Rightarrow> device list \<Rightarrow> string list" where
  "collect_recipients localId recipients [] = recipients"
| "collect_recipients localId recipients (d # ds) =
     (if dv_id d = localId \<or> dv_pub d = [] \<or> dv_trust d \<noteq> trust_approved
      then collect_recipients localId recipients ds
      else if dv_pub d \<in> set recipients then collect_recipients localId recipients ds
      else collect_recipients localId (recipients @ [dv_pub d]) ds)"

definition ApprovedRecipients :: "store \<Rightarrow> string list res" where
  "ApprovedRecipients s =
     bindr (currentDevice s) (\<lambda>l.
       if dv_pub l = [] then fail KOther ''local device has no age recipient; run devstrap init''
       else Inr (collect_recipients (dv_id l) [dv_pub l] (ListDevices s)))"

subsection \<open>The revocation boundary is a minimum\<close>

text \<open>Abstract specification: per device, the least revocation HLC ever seen.\<close>

fun min_boundary :: "int option \<Rightarrow> int option \<Rightarrow> int option" where
  "min_boundary b None = b"
| "min_boundary None (Some h) = Some h"
| "min_boundary (Some b) (Some h) = (if h < b then Some h else Some b)"

definition revocation_claim :: "string \<times> int \<Rightarrow> int option" where
  "revocation_claim r = (if snd r \<le> 0 then None else Some (snd r))"

interpretation boundary: register_join min_boundary "\<lambda>a b. True" revocation_claim
proof unfold_locales
  fix v e
  show "min_boundary (min_boundary v (revocation_claim e)) (revocation_claim e) = min_boundary v (revocation_claim e)"
    by (cases v; cases "revocation_claim e") auto
next
  fix v d e
  show "min_boundary (min_boundary v (revocation_claim d)) (revocation_claim e) =
        min_boundary (min_boundary v (revocation_claim e)) (revocation_claim d)"
    by (cases v; cases "revocation_claim d"; cases "revocation_claim e") auto
qed

text \<open>The boundaries of the non-local devices, and the local device's, which never changes.\<close>

definition boundary_of :: "store \<Rightarrow> string \<Rightarrow> int option" where
  "boundary_of s i = (case tget dv_id i (st_devices s) of Some d \<Rightarrow> dv_revoked d | None \<Rightarrow> None)"

definition revocable :: "string \<Rightarrow> store \<Rightarrow> bool" where
  "revocable i s \<longleftrightarrow> (\<exists>d. tget dv_id i (st_devices s) = Some d \<and> dv_trust d \<noteq> trust_local)"

definition record_step :: "string \<times> int \<Rightarrow> store \<Rightarrow> store" where
  "record_step r s = recordDeviceRevocationHLC (fst r) (snd r) s"

lemma tget_record:
  "tget dv_id i (st_devices (record_step r s)) =
     (case tget dv_id i (st_devices s) of
        None \<Rightarrow> None
      | Some d \<Rightarrow> Some (if i = fst r \<and> dv_trust d \<noteq> trust_local
                        then d\<lparr>dv_revoked := min_boundary (dv_revoked d) (revocation_claim r)\<rparr> else d))"
  by (auto simp: record_step_def recordDeviceRevocationHLC_def revocation_claim_def tget_tmod
      split: option.splits dest: tget_SomeD)

lemma revocable_record: "revocable i (record_step r s) = revocable i s"
  by (auto simp: revocable_def tget_record split: option.splits)

lemma boundary_record:
  assumes "revocable (fst r) s"
  shows "boundary_of (record_step r s) =
     (boundary_of s)(fst r := min_boundary (boundary_of s (fst r)) (revocation_claim r))"
  using assms by (auto simp: fun_eq_iff boundary_of_def tget_record revocable_def split: option.splits)

lemma boundary_fold:
  assumes "\<forall>r \<in> set rs. revocable (fst r) s"
  shows "boundary_of (fold record_step rs s) = fold (boundary.reg_step fst) rs (boundary_of s)"
  using assms
  by (induction rs arbitrary: s) (simp_all add: boundary_record revocable_record boundary.reg_step_def)

text \<open>The revocation boundary of a device does not depend on the order (or the repetition)
  in which concurrent revocations reach a receiver, so every device admits the same set of the
  revoked device's earlier events.\<close>

theorem revocation_boundary_converges:
  assumes "\<forall>r \<in> set rs. revocable (fst r) s" and "set rs = set qs"
  shows "boundary_of (fold record_step rs s) = boundary_of (fold record_step qs s)"
  using boundary.reg.fold_redelivery [OF assms(2), of fst "boundary_of s"] assms
  by (simp add: boundary_fold batch_of_def)

theorem revocation_boundary_converges_witness:
  "boundary_of (fold record_step [(''d'', 9), (''d'', 4)]
     ((empty_store ''ws'')\<lparr>st_devices := [placeholder ''d'' ''remote'']\<rparr>)) =
   boundary_of (fold record_step [(''d'', 4), (''d'', 9), (''d'', 4)]
     ((empty_store ''ws'')\<lparr>st_devices := [placeholder ''d'' ''remote'']\<rparr>))"
  by (rule revocation_boundary_converges)
    (auto simp: revocable_def placeholder_def trust_defs empty_store_def)

end
