(* ===== verification/Namespace_Store.thy ===== *)
theory Namespace_Store
  imports Conflict_Log Device_Trust
begin

section \<open>The namespace map in the store\<close>

text \<open>
  The namespace operations of \<^verbatim>\<open>src/internal/state/store.go\<close>: upsert, tombstone, rename,
  reads, tombstone collection, and the local state of checkouts. The rows are
  \<^verbatim>\<open>namespace_entries\<close> (unique by path key), \<^verbatim>\<open>git_repos\<close>, \<^verbatim>\<open>draft_projects\<close>
  and \<^verbatim>\<open>device_project_state\<close>. Deleting an entry cascades over the rows that reference it.
\<close>

definition put_checkout :: "checkout \<Rightarrow> (checkout \<Rightarrow> checkout) \<Rightarrow> store \<Rightarrow> store" where
  "put_checkout c f s = s\<lparr>st_checkouts := tput (\<lambda>x. (ck_dev x, ck_ns x)) c f (st_checkouts s)\<rparr>"

definition default_params :: "upsert_params \<Rightarrow> upsert_params" where
  "default_params u = u\<lparr>up_type := (if up_type u = [] then ''plain_folder'' else up_type u),
     up_policy := (if up_policy u = [] then ''lazy'' else up_policy u),
     up_branch := (if up_branch u = [] then ''main'' else up_branch u)\<rparr>"

definition new_entry :: "string \<Rightarrow> path \<Rightarrow> upsert_params \<Rightarrow> entry" where
  "new_entry i pk u =
     \<lparr>ns_id = i, ns_path = p_display pk, ns_key = p_key pk, ns_type = up_type u,
      ns_display = filepathBaseSlash (p_display pk), ns_policy = up_policy u, ns_status = projectionStatusActive,
      ns_tomb = None, ns_src_hlc = nullZero (c_hlc (up_src u)), ns_src_dev = nullEmpty (c_dev (up_src u)),
      ns_src_id = nullEmpty (c_id (up_src u)), ns_profile = []\<rparr>"

definition upsertNamespaceTx :: "world \<Rightarrow> path \<Rightarrow> upsert_params \<Rightarrow> store \<Rightarrow> string \<times> store" where
  "upsertNamespaceTx w pk u s =
     (let existing = (case tget ns_key (p_key pk) (st_entries s) of Some e \<Rightarrow> ns_id e | None \<Rightarrow> []);
          (i, s1) = (if existing = [] then new_id w ''prj'' s else (existing, s));
          row = new_entry i pk u
      in (i, s1\<lparr>st_entries := tput ns_key row
            (\<lambda>e. e\<lparr>ns_path := ns_path row, ns_type := ns_type row, ns_display := ns_display row,
                   ns_policy := ns_policy row, ns_status := projectionStatusActive, ns_tomb := None,
                   ns_src_hlc := coalesce (ns_src_hlc row) (ns_src_hlc e),
                   ns_src_dev := coalesce (ns_src_dev row) (ns_src_dev e),
                   ns_src_id := coalesce (ns_src_id row) (ns_src_id e)\<rparr>) (st_entries s1)\<rparr>))"

definition put_typed_row :: "string \<Rightarrow> upsert_params \<Rightarrow> store \<Rightarrow> store" where
  "put_typed_row i u s =
     (if up_type u = ''git_repo'' then
        s\<lparr>st_repos := tput gr_ns
          \<lparr>gr_ns = i, gr_url = up_remote_url u, gr_key = up_remote_key u, gr_branch = up_branch u,
           gr_lfs = (if up_lfs u = [] then ''auto'' else up_lfs u), gr_forge = up_forge u\<rparr>
          (\<lambda>g. g\<lparr>gr_url := up_remote_url u, gr_key := up_remote_key u, gr_branch := up_branch u,
                 gr_lfs := (if up_lfs u \<noteq> [] then up_lfs u else gr_lfs g),
                 gr_forge := (if up_forge u \<noteq> [] then up_forge u else gr_forge g)\<rparr>) (st_repos s)\<rparr>
      else if up_type u = ''draft_project'' then
        s\<lparr>st_drafts := tins dj_ns (default_draft i) (st_drafts s)\<rparr>
      else s)"

text \<open>\<^verbatim>\<open>func (tx *Tx) UpsertProject\<close>; the result is the id of the entry.\<close>

definition UpsertProjectTx :: "world \<Rightarrow> upsert_params \<Rightarrow> store \<Rightarrow> (string \<times> store) res" where
  "UpsertProjectTx w u0 s =
     bindr (Clean w (up_path u0)) (\<lambda>pk.
       let u = default_params u0;
           (i, s1) = upsertNamespaceTx w pk u s
       in Inr (i, put_typed_row i u s1))"

text \<open>\<^verbatim>\<open>func (s *Store) UpsertProject\<close>: the same, and the local checkout row.\<close>

definition UpsertProject :: "world \<Rightarrow> upsert_params \<Rightarrow> store \<Rightarrow> (string \<times> store) res" where
  "UpsertProject w u0 s =
     bindr (Clean w (up_path u0)) (\<lambda>pk.
       let u = (default_params u0)\<lparr>up_mat_state := (if up_mat_state u0 = [] then ''skeleton'' else up_mat_state u0),
                 up_dirty := (if up_dirty u0 = [] then ''unknown'' else up_dirty u0)\<rparr>
       in bindr (currentDevice s) (\<lambda>dev.
         let (i, s1) = upsertNamespaceTx w pk u s;
             s2 = put_typed_row i u s1
         in Inr (i, if up_local_path u = [] then s2
                    else put_checkout \<lparr>ck_dev = dv_id dev, ck_ns = i, ck_path = up_local_path u,
                           ck_mat = up_mat_state u, ck_dirty = up_dirty u, ck_error = []\<rparr>
                         (\<lambda>c. c\<lparr>ck_path := up_local_path u, ck_mat := up_mat_state u,
                                ck_dirty := up_dirty u\<rparr>) s2)))"

definition tombstone_params :: "path \<Rightarrow> upsert_params" where
  "tombstone_params pk = \<lparr>up_path = p_display pk, up_type = ''git_repo'', up_remote_url = [],
     up_remote_key = [], up_branch = [], up_lfs = [], up_policy = ''lazy'', up_local_path = [],
     up_mat_state = [], up_dirty = [], up_src = zero_coord, up_forge = []\<rparr>"

definition tombstonePath :: "world \<Rightarrow> path \<Rightarrow> int \<Rightarrow> store \<Rightarrow> store" where
  "tombstonePath w pk hlc s =
     (let (i, s1) = upsertNamespaceTx w pk (tombstone_params pk) s
      in s1\<lparr>st_entries := tmod (\<lambda>e. ns_id e = i)
           (\<lambda>e. e\<lparr>ns_status := projectionStatusDeleted,
                  ns_tomb := (case ns_tomb e of
                     None \<Rightarrow> Some hlc | Some t \<Rightarrow> if t < hlc then Some hlc else Some t)\<rparr>) (st_entries s1)\<rparr>)"

definition TombstoneProject :: "world \<Rightarrow> string \<Rightarrow> int \<Rightarrow> store \<Rightarrow> store res" where
  "TombstoneProject w path hlc s = bindr (Clean w path) (\<lambda>pk. Inr (tombstonePath w pk hlc s))"

definition TombstoneByPathKey :: "world \<Rightarrow> string \<Rightarrow> int \<Rightarrow> store \<Rightarrow> store" where
  "TombstoneByPathKey w key hlc s =
     tombstonePath w \<lparr>p_display = (case tget ns_key key (st_entries s) of Some e \<Rightarrow> ns_path e | None \<Rightarrow> key),
                      p_key = key\<rparr> hlc s"

definition TombstoneHLC :: "world \<Rightarrow> string \<Rightarrow> store \<Rightarrow> int option res" where
  "TombstoneHLC w path s =
     bindr (Clean w path) (\<lambda>pk.
       Inr (case tget ns_key (p_key pk) (st_entries s) of
              Some e \<Rightarrow> if ns_status e = projectionStatusDeleted then ns_tomb e else None
            | None \<Rightarrow> None))"

subsection \<open>Reads\<close>

record project_status =
  ps_entry :: entry
  ps_remote_url :: string
  ps_remote_key :: string
  ps_branch :: string
  ps_lfs :: string
  ps_forge :: string
  ps_local_path :: string
  ps_mat :: string
  ps_dirty :: string
  ps_error :: string

definition zero_repo :: repo where
  "zero_repo = \<lparr>gr_ns = [], gr_url = [], gr_key = [], gr_branch = [], gr_lfs = [], gr_forge = []\<rparr>"

definition zero_checkout :: checkout where
  "zero_checkout = \<lparr>ck_dev = [], ck_ns = [], ck_path = [], ck_mat = [], ck_dirty = [], ck_error = []\<rparr>"

definition local_checkout :: "store \<Rightarrow> string \<Rightarrow> checkout" where
  "local_checkout s i = (case currentDevice s of
      Inl _ \<Rightarrow> zero_checkout
    | Inr d \<Rightarrow> or_else (tget (\<lambda>x. (ck_dev x, ck_ns x)) (dv_id d, i) (st_checkouts s)) zero_checkout)"

definition status_of :: "store \<Rightarrow> entry \<Rightarrow> project_status" where
  "status_of s e =
     (let g = or_else (tget gr_ns (ns_id e) (st_repos s)) zero_repo; c = local_checkout s (ns_id e)
      in \<lparr>ps_entry = e, ps_remote_url = gr_url g, ps_remote_key = gr_key g, ps_branch = gr_branch g,
          ps_lfs = gr_lfs g, ps_forge = gr_forge g, ps_local_path = ck_path c, ps_mat = ck_mat c,
          ps_dirty = ck_dirty c, ps_error = ck_error c\<rparr>)"

definition projectByPath :: "path \<Rightarrow> store \<Rightarrow> project_status res" where
  "projectByPath pk s =
     (case tget ns_key (p_key pk) (st_entries s) of
        Some e \<Rightarrow> if ns_status e = projectionStatusActive then Inr (status_of s e)
                  else fail KNotFound (''unknown namespace path '' @ p_display pk)
      | None \<Rightarrow> fail KNotFound (''unknown namespace path '' @ p_display pk))"

definition ProjectByPath :: "world \<Rightarrow> string \<Rightarrow> store \<Rightarrow> project_status res" where
  "ProjectByPath w path s = bindr (Clean w path) (\<lambda>pk. projectByPath pk s)"

definition ProjectByPathKey :: "string \<Rightarrow> store \<Rightarrow> project_status res" where
  "ProjectByPathKey key s = projectByPath \<lparr>p_display = key, p_key = key\<rparr> s"

definition projectByID :: "string \<Rightarrow> store \<Rightarrow> project_status res" where
  "projectByID i s =
     (case tget ns_id i (st_entries s) of
        Some e \<Rightarrow> if ns_status e = projectionStatusActive then Inr (status_of s e)
                  else fail KOther (''unknown namespace id '' @ i)
      | None \<Rightarrow> fail KOther (''unknown namespace id '' @ i))"

definition ListProjects :: "store \<Rightarrow> project_status list" where
  "ListProjects s = map (status_of s)
     (sort_key ns_key (filter (\<lambda>e. ns_status e = projectionStatusActive) (st_entries s)))"

definition SkeletonProjects :: "store \<Rightarrow> project_status list" where
  "SkeletonProjects s = filter (\<lambda>p. ps_mat p \<in> {[], ''skeleton'', ''failed''}) (ListProjects s)"

subsection \<open>Rename\<close>

datatype rename_outcome = RenameApplied | RenameSourceMissing | RenameTargetConflict | RenameStale

text \<open>\<^verbatim>\<open>DELETE FROM namespace_entries WHERE id = ?\<close> with the foreign keys of the schema:
  the rows that reference the entry go with it, conflicts keep their text without it.\<close>

definition delete_entry :: "string \<Rightarrow> store \<Rightarrow> store" where
  "delete_entry i s = s\<lparr>st_entries := tdel (\<lambda>e. ns_id e = i) (st_entries s),
     st_repos := tdel (\<lambda>g. gr_ns g = i) (st_repos s), st_drafts := tdel (\<lambda>d. dj_ns d = i) (st_drafts s),
     st_snapshots := tdel (\<lambda>d. ds_ns d = i) (st_snapshots s),
     st_checkouts := tdel (\<lambda>c. ck_ns c = i) (st_checkouts s),
     st_worktrees := tdel (\<lambda>t. wt_ns t = i) (st_worktrees s),
     st_conflicts := tmod (\<lambda>c. cn_ns c = i) (\<lambda>c. c\<lparr>cn_ns := []\<rparr>) (st_conflicts s)\<rparr>"

definition move_entry :: "string \<Rightarrow> path \<Rightarrow> event \<Rightarrow> store \<Rightarrow> store" where
  "move_entry i pk ev s = s\<lparr>st_entries := tmod (\<lambda>e. ns_id e = i)
     (\<lambda>e. e\<lparr>ns_path := p_display pk, ns_key := p_key pk, ns_display := filepathBaseSlash (p_display pk),
            ns_status := projectionStatusActive, ns_tomb := None, ns_src_hlc := nullZero (ev_hlc ev),
            ns_src_dev := nullEmpty (ev_device ev), ns_src_id := nullEmpty (ev_id ev)\<rparr>) (st_entries s)\<rparr>"

definition RenameProject :: "world \<Rightarrow> string \<Rightarrow> string \<Rightarrow> event \<Rightarrow> store \<Rightarrow> (rename_outcome \<times> store) res" where
  "RenameProject w oldPath newPath ev s =
     bindr (Clean w oldPath) (\<lambda>oldPK. bindr (Clean w newPath) (\<lambda>newPK.
       if p_key oldPK = p_key newPK then Inr (RenameApplied, s)
       else case tget ns_key (p_key oldPK) (st_entries s) of
         None \<Rightarrow> Inr (RenameSourceMissing, s)
       | Some src \<Rightarrow>
           if ns_status src \<noteq> projectionStatusActive then Inr (RenameSourceMissing, s)
           else
             let finish = (\<lambda>s1. bindr (TombstoneProject w (p_display oldPK) (ev_hlc ev)
                              (move_entry (ns_id src) newPK ev s1)) (\<lambda>s2. Inr (RenameApplied, s2)))
             in case tget ns_key (p_key newPK) (st_entries s) of
               None \<Rightarrow> finish s
             | Some tgt \<Rightarrow>
                 if ns_id tgt = ns_id src then Inr (RenameApplied, s)
                 else if ns_status tgt = projectionStatusActive then Inr (RenameTargetConflict, s)
                 else if (case ns_tomb tgt of Some t \<Rightarrow> ev_hlc ev \<le> t | None \<Rightarrow> False)
                 then Inr (RenameStale, s)
                 else finish (delete_entry (ns_id tgt) s)))"

subsection \<open>Collecting tombstones\<close>

definition purgeable :: "int \<Rightarrow> entry \<Rightarrow> bool" where
  "purgeable beforeHLC e \<longleftrightarrow> ns_status e = projectionStatusDeleted \<and>
     (case ns_tomb e of Some t \<Rightarrow> t < beforeHLC | None \<Rightarrow> False)"

definition CountTombstonesBelowHLC :: "int \<Rightarrow> store \<Rightarrow> nat" where
  "CountTombstonesBelowHLC beforeHLC s = tcount (purgeable beforeHLC) (st_entries s)"

definition GCTombstones :: "int \<Rightarrow> store \<Rightarrow> nat \<times> store" where
  "GCTombstones beforeHLC s =
     (let gone = filter (\<lambda>e. purgeable beforeHLC e \<and> ns_id e \<notin> wt_ns ` set (st_worktrees s)) (st_entries s)
      in (length gone, fold (\<lambda>e. delete_entry (ns_id e)) gone s))"

subsection \<open>Local state of a checkout\<close>

definition UpdateProjectLocalState ::
  "string \<Rightarrow> string \<Rightarrow> string \<Rightarrow> string \<Rightarrow> string \<Rightarrow> store \<Rightarrow> store res" where
  "UpdateProjectLocalState i localPath mat dirty lastError s =
     bindr (currentDevice s) (\<lambda>d. Inr (put_checkout
       \<lparr>ck_dev = dv_id d, ck_ns = i, ck_path = localPath, ck_mat = mat, ck_dirty = dirty, ck_error = lastError\<rparr>
       (\<lambda>c. c\<lparr>ck_path := localPath, ck_mat := mat, ck_dirty := dirty, ck_error := lastError\<rparr>) s))"

definition RecordProjectWarning :: "string \<Rightarrow> string \<Rightarrow> store \<Rightarrow> store res" where
  "RecordProjectWarning i warning s =
     bindr (currentDevice s) (\<lambda>d. Inr (s\<lparr>st_checkouts :=
       tmod (\<lambda>c. ck_dev c = dv_id d \<and> ck_ns c = i) (\<lambda>c. c\<lparr>ck_error := warning\<rparr>) (st_checkouts s)\<rparr>))"

definition ClearProjectWarningPrefix :: "string \<Rightarrow> string \<Rightarrow> store \<Rightarrow> store res" where
  "ClearProjectWarningPrefix i prefix s =
     bindr (currentDevice s) (\<lambda>d. Inr (s\<lparr>st_checkouts :=
       tmod (\<lambda>c. ck_dev c = dv_id d \<and> ck_ns c = i \<and> take (length prefix) (ck_error c) = prefix)
         (\<lambda>c. c\<lparr>ck_error := []\<rparr>) (st_checkouts s)\<rparr>))"

definition UpdateGitDefaultBranch :: "string \<Rightarrow> string \<Rightarrow> store \<Rightarrow> store" where
  "UpdateGitDefaultBranch i branch s =
     s\<lparr>st_repos := tmod (\<lambda>g. gr_ns g = i) (\<lambda>g. g\<lparr>gr_branch := branch\<rparr>) (st_repos s)\<rparr>"

definition SetProjectForgeKind :: "string \<Rightarrow> string \<Rightarrow> store \<Rightarrow> store" where
  "SetProjectForgeKind i kind s =
     s\<lparr>st_repos := tmod (\<lambda>g. gr_ns g = i) (\<lambda>g. g\<lparr>gr_forge := kind\<rparr>) (st_repos s)\<rparr>"

subsection \<open>Well-formed entries\<close>

text \<open>\<^verbatim>\<open>id.New\<close> never repeats an identifier and never returns the empty one.\<close>

definition ids_sound :: "world \<Rightarrow> bool" where
  "ids_sound w \<longleftrightarrow> (\<forall>pre m n. w_new_id w pre m = w_new_id w pre n \<longrightarrow> m = n) \<and> (\<forall>pre n. w_new_id w pre n \<noteq> [])"

definition entries_ok :: "world \<Rightarrow> store \<Rightarrow> bool" where
  "entries_ok w s \<longleftrightarrow> uniq ns_key (st_entries s) \<and> uniq ns_id (st_entries s) \<and>
     (\<forall>e \<in> set (st_entries s). ns_id e \<noteq> [] \<and> (\<forall>n \<ge> st_fresh s. ns_id e \<noteq> w_new_id w ''prj'' n))"

lemma entries_okD:
  assumes "entries_ok w s"
  shows "uniq ns_key (st_entries s)" "uniq ns_id (st_entries s)"
    "e \<in> set (st_entries s) \<Longrightarrow> ns_id e \<noteq> []"
    "e \<in> set (st_entries s) \<Longrightarrow> n \<ge> st_fresh s \<Longrightarrow> ns_id e \<noteq> w_new_id w ''prj'' n"
  using assms by (auto simp: entries_ok_def)

lemma same_id_same_entry:
  assumes "entries_ok w s" "tget ns_key k (st_entries s) = Some e" "tget ns_key j (st_entries s) = Some f"
    and "ns_id e = ns_id f"
  shows "k = j"
proof -
  from assms(2,3) have m: "e \<in> set (st_entries s)" "f \<in> set (st_entries s)" "ns_key e = k" "ns_key f = j"
    by (auto dest: tget_SomeD)
  have "e = f" using m(1,2) assms(4) entries_okD(2) [OF assms(1)]
    by (auto simp: uniq_def distinct_map inj_on_def)
  then show ?thesis using m by simp
qed


subsection \<open>What an upsert and a tombstone do to the entries\<close>

definition merged_entry :: "string \<Rightarrow> path \<Rightarrow> upsert_params \<Rightarrow> entry option \<Rightarrow> entry" where
  "merged_entry i pk u old = (case old of
      None \<Rightarrow> new_entry i pk u
    | Some e \<Rightarrow> e\<lparr>ns_path := p_display pk, ns_type := up_type u,
         ns_display := filepathBaseSlash (p_display pk), ns_policy := up_policy u,
         ns_status := projectionStatusActive, ns_tomb := None,
         ns_src_hlc := coalesce (nullZero (c_hlc (up_src u))) (ns_src_hlc e),
         ns_src_dev := coalesce (nullEmpty (c_dev (up_src u))) (ns_src_dev e),
         ns_src_id := coalesce (nullEmpty (c_id (up_src u))) (ns_src_id e)\<rparr>)"

definition entry_id :: "world \<Rightarrow> string \<Rightarrow> store \<Rightarrow> string" where
  "entry_id w key s = (case tget ns_key key (st_entries s) of
      Some e \<Rightarrow> ns_id e | None \<Rightarrow> w_new_id w ''prj'' (st_fresh s))"

lemma new_entry_simps [simp]:
  "ns_id (new_entry i pk u) = i" "ns_key (new_entry i pk u) = p_key pk"
  "ns_path (new_entry i pk u) = p_display pk" "ns_type (new_entry i pk u) = up_type u"
  "ns_status (new_entry i pk u) = projectionStatusActive" "ns_tomb (new_entry i pk u) = None"
  "ns_src_hlc (new_entry i pk u) = nullZero (c_hlc (up_src u))"
  "ns_src_dev (new_entry i pk u) = nullEmpty (c_dev (up_src u))"
  "ns_src_id (new_entry i pk u) = nullEmpty (c_id (up_src u))"
  "ns_display (new_entry i pk u) = filepathBaseSlash (p_display pk)"
  "ns_policy (new_entry i pk u) = up_policy u"
  by (simp_all add: new_entry_def)

lemma upsertNamespace_parts:
  assumes ok: "entries_ok w s" and u: "upsertNamespaceTx w pk u s = (i, s')"
  shows "i = entry_id w (p_key pk) s"
    and "tget ns_key k (st_entries s') =
        (if k = p_key pk then Some (merged_entry i pk u (tget ns_key k (st_entries s)))
         else tget ns_key k (st_entries s))"
    and "s' = s\<lparr>st_entries := st_entries s', st_fresh := st_fresh s'\<rparr>"
proof -
  have ne: "tget ns_key (p_key pk) (st_entries s) = Some e \<Longrightarrow> ns_id e \<noteq> []" for e
    using ok by (auto dest!: tget_SomeD simp: entries_ok_def)
  show "i = entry_id w (p_key pk) s"
    using u ne by (auto simp: upsertNamespaceTx_def entry_id_def new_id_def Let_def split: option.splits if_splits)
  show "tget ns_key k (st_entries s') =
        (if k = p_key pk then Some (merged_entry i pk u (tget ns_key k (st_entries s)))
         else tget ns_key k (st_entries s))"
    using u ne by (auto simp: upsertNamespaceTx_def new_id_def Let_def tget_tput merged_entry_def
        split: option.splits if_splits prod.splits)
  show "s' = s\<lparr>st_entries := st_entries s', st_fresh := st_fresh s'\<rparr>"
    using u by (auto simp: upsertNamespaceTx_def new_id_def Let_def split: if_splits prod.splits)
qed

lemma upsertNamespace_entries:
  assumes ok: "entries_ok w s" and u: "upsertNamespaceTx w pk u s = (i, s')"
  shows "(tget ns_key (p_key pk) (st_entries s) = None \<and> st_fresh s' = Suc (st_fresh s) \<and>
            i = w_new_id w ''prj'' (st_fresh s) \<and>
            st_entries s' = st_entries s @ [new_entry i pk u])
       \<or> (st_fresh s' = st_fresh s \<and> (\<exists>e \<in> set (st_entries s). ns_id e = i \<and> ns_key e = p_key pk) \<and>
            map ns_id (st_entries s') = map ns_id (st_entries s) \<and>
            map ns_key (st_entries s') = map ns_key (st_entries s))"
proof (cases "tget ns_key (p_key pk) (st_entries s)")
  case None
  then have "\<not> list_ex (\<lambda>x. ns_key x = p_key pk) (st_entries s)" by (simp add: ex_tget)
  then show ?thesis
    using u None by (auto simp: upsertNamespaceTx_def new_id_def Let_def tput_def)
next
  case (Some e)
  have e: "ns_id e \<noteq> []" "e \<in> set (st_entries s)" "ns_key e = p_key pk"
    using ok Some by (auto dest!: tget_SomeD simp: entries_ok_def)
  have ex: "list_ex (\<lambda>x. ns_key x = p_key pk) (st_entries s)" using Some by (simp add: ex_tget)
  show ?thesis
    using u Some e ex
    by (auto simp: upsertNamespaceTx_def Let_def tput_def tmod_def comp_def)
qed

lemma upsertNamespace_ok:
  assumes ok: "entries_ok w s" and ids: "ids_sound w" and u: "upsertNamespaceTx w pk u s = (i, s')"
  shows "entries_ok w s'"
  using upsertNamespace_entries [OF ok u]
proof (elim disjE conjE)
  assume n: "tget ns_key (p_key pk) (st_entries s) = None" "st_fresh s' = Suc (st_fresh s)"
    "i = w_new_id w ''prj'' (st_fresh s)" "st_entries s' = st_entries s @ [new_entry i pk u]"
  have i: "i \<noteq> []" "\<And>m. m \<ge> Suc (st_fresh s) \<Longrightarrow> i \<noteq> w_new_id w ''prj'' m"
    using ids n(3) by (auto simp: ids_sound_def) (metis Suc_n_not_le_n)
  have nid: "tget ns_id i (st_entries s) = None"
    using entries_okD(4) [OF ok, of _ "st_fresh s"] n(3) unfolding tget_None by (metis imageE order_refl)
  show ?thesis
    using entries_okD [OF ok] n nid i
    by (auto simp: entries_ok_def uniq_snoc)
next
  assume n: "st_fresh s' = st_fresh s" "map ns_id (st_entries s') = map ns_id (st_entries s)"
    "map ns_key (st_entries s') = map ns_key (st_entries s)"
  have "ns_id ` set (st_entries s') = ns_id ` set (st_entries s)" using n(2) by (metis set_map)
  then have "\<forall>e \<in> set (st_entries s'). \<exists>f \<in> set (st_entries s). ns_id e = ns_id f" by auto
  then show ?thesis
    using ok n by (auto simp: entries_ok_def uniq_def)
qed

lemma upsertNamespace_other_id:
  assumes ok: "entries_ok w s" and u: "upsertNamespaceTx w pk u s = (i, s')"
    and k: "k \<noteq> p_key pk" and e: "tget ns_key k (st_entries s) = Some e"
  shows "ns_id e \<noteq> i"
proof (cases "tget ns_key (p_key pk) (st_entries s)")
  case None
  then show ?thesis
    using upsertNamespace_parts(1) [OF ok u] entries_okD(4) [OF ok, of e "st_fresh s"] e
    by (auto simp: entry_id_def dest: tget_SomeD)
next
  case (Some f)
  then show ?thesis
    using upsertNamespace_parts(1) [OF ok u] same_id_same_entry [OF ok e Some] k
    by (auto simp: entry_id_def)
qed

lemma tombstonePath_parts:
  assumes ok: "entries_ok w s" and ids: "ids_sound w"
  shows "entries_ok w (tombstonePath w pk h s)"
    and "tget ns_key k (st_entries (tombstonePath w pk h s)) =
        (if k = p_key pk
         then Some ((merged_entry (entry_id w k s) pk (tombstone_params pk) (tget ns_key k (st_entries s)))
                \<lparr>ns_status := projectionStatusDeleted, ns_tomb := Some h\<rparr>)
         else tget ns_key k (st_entries s))"
    and "\<exists>es n. tombstonePath w pk h s = s\<lparr>st_entries := es, st_fresh := n\<rparr>"
proof -
  obtain i s1 where u: "upsertNamespaceTx w pk (tombstone_params pk) s = (i, s1)" by fastforce
  define f where "f e = (e::entry)\<lparr>ns_status := projectionStatusDeleted,
      ns_tomb := (case ns_tomb e of None \<Rightarrow> Some h | Some t \<Rightarrow> if t < h then Some h else Some t)\<rparr>" for e
  have s2: "tombstonePath w pk h s = s1\<lparr>st_entries := tmod (\<lambda>e. ns_id e = i) f (st_entries s1)\<rparr>"
    by (simp add: tombstonePath_def u f_def [abs_def])
  have fk: "\<And>e. ns_key (f e) = ns_key e" "\<And>e. ns_id (f e) = ns_id e" by (simp_all add: f_def)
  note ok1 = upsertNamespace_ok [OF ok ids u]
  have im: "x \<in> set (tmod (\<lambda>e. ns_id e = i) f (st_entries s1)) \<Longrightarrow> \<exists>e \<in> set (st_entries s1). ns_id x = ns_id e" for x
    by (auto simp: in_tmod fk)
  show "entries_ok w (tombstonePath w pk h s)"
    using ok1 im unfolding s2 entries_ok_def by (fastforce simp: uniq_tmod fk)
  have old: "k \<noteq> p_key pk \<Longrightarrow> tget ns_key k (st_entries s1) = Some e \<Longrightarrow> ns_id e \<noteq> i" for e
    using upsertNamespace_other_id [OF ok u, of k e] upsertNamespace_parts(2) [OF ok u, of k] by simp
  have mi: "ns_id (merged_entry i pk (tombstone_params pk) (tget ns_key (p_key pk) (st_entries s))) = i"
    using upsertNamespace_parts(1) [OF ok u]
    by (auto simp: merged_entry_def entry_id_def split: option.splits)
  have mt: "ns_tomb (merged_entry i pk (tombstone_params pk) x) = None" for x
    by (auto simp: merged_entry_def split: option.splits)
  show "tget ns_key k (st_entries (tombstonePath w pk h s)) =
        (if k = p_key pk
         then Some ((merged_entry (entry_id w k s) pk (tombstone_params pk) (tget ns_key k (st_entries s)))
                \<lparr>ns_status := projectionStatusDeleted, ns_tomb := Some h\<rparr>)
         else tget ns_key k (st_entries s))"
  proof (cases "k = p_key pk")
    case True
    then show ?thesis
      using mi mt by (simp add: s2 tget_tmod fk upsertNamespace_parts(2) [OF ok u] f_def
          upsertNamespace_parts(1) [OF ok u, symmetric])
  next
    case False
    then have "tget ns_key k (st_entries s1) = tget ns_key k (st_entries s)"
      using upsertNamespace_parts(2) [OF ok u, of k] by simp
    then show ?thesis using False old
      by (cases "tget ns_key k (st_entries s)") (auto simp: s2 tget_tmod fk)
  qed
  show "\<exists>es n. tombstonePath w pk h s = s\<lparr>st_entries := es, st_fresh := n\<rparr>"
  proof -
    obtain es n where q: "s1 = s\<lparr>st_entries := es, st_fresh := n\<rparr>"
      using upsertNamespace_parts(3) [OF ok u] by blast
    have "tombstonePath w pk h s =
        s\<lparr>st_entries := tmod (\<lambda>e. ns_id e = i) f (st_entries s1), st_fresh := n\<rparr>"
      unfolding s2 by (simp add: q)
    then show ?thesis by blast
  qed
qed

end
