(* ===== verification/Namespace_Apply.thy ===== *)
theory Namespace_Apply
  imports Namespace_Store
begin

section \<open>Applying a project event to the store\<close>

text \<open>
  The impure halves around \<^verbatim>\<open>Decide\<close> in \<^verbatim>\<open>src/internal/sync/events.go\<close>:
  \<^verbatim>\<open>loadNamespaceProjection\<close> reads the row at the event's path, \<^verbatim>\<open>applyDecisionTx\<close>
  persists the decision. The refinement theorem relates the store to the register of
  \<^verbatim>\<open>Projection\<close>: one event moves the row at its path to the join with the event's claim and
  touches no other path.
\<close>

definition projectionRowFromStatus :: "project_status \<Rightarrow> projection_row" where
  "projectionRowFromStatus p =
     \<lparr>pr_ns = ns_id (ps_entry p), pr_key = ns_key (ps_entry p), pr_path = ns_path (ps_entry p),
      pr_type = ns_type (ps_entry p), pr_remote_url = ps_remote_url p, pr_remote_key = ps_remote_key p,
      pr_branch = ps_branch p, pr_status = projectionStatusActive, pr_tomb = 0,
      pr_src = \<lparr>c_hlc = or_else (ns_src_hlc (ps_entry p)) 0, c_dev = or_else (ns_src_dev (ps_entry p)) [],
               c_id = or_else (ns_src_id (ps_entry p)) []\<rparr>,
      pr_dirty = ps_dirty p\<rparr>"

definition loadNamespaceProjection :: "world \<Rightarrow> event \<Rightarrow> store \<Rightarrow> projection res" where
  "loadNamespaceProjection w e s =
     (case decode_project (ev_payload e) of
        None \<Rightarrow> decode_failure w e
      | Some payload \<Rightarrow>
          bindr (Clean w (pp_path payload)) (\<lambda>pk.
            case ProjectByPath w (pp_path payload) s of
              Inr act \<Rightarrow> Inr [p_key pk \<mapsto> projectionRowFromStatus act]
            | Inl _ \<Rightarrow>
                bindr (TombstoneHLC w (pp_path payload) s) (\<lambda>t.
                  case t of
                    Some tomb \<Rightarrow> Inr [p_key pk \<mapsto> zero_row\<lparr>pr_key := p_key pk, pr_path := p_display pk,
                                    pr_status := projectionStatusDeleted, pr_tomb := tomb\<rparr>]
                  | None \<Rightarrow> Inr Map.empty)))"

definition persist_mutation :: "world \<Rightarrow> store \<Rightarrow> mutation \<Rightarrow> store res" where
  "persist_mutation w s m = (case m of
      MutationUpsert u \<Rightarrow> bindr (UpsertProjectTx w u s) (\<lambda>(i, s'). Inr s')
    | MutationTombstone path hlc \<Rightarrow> TombstoneProject w path hlc s)"

definition persist_conflict :: "world \<Rightarrow> store \<Rightarrow> conflict_record \<Rightarrow> store" where
  "persist_conflict w s c = insertConflict w (cf_ns c) (cf_type c) (cf_details c) s"

definition applyDecisionTx :: "world \<Rightarrow> decision \<Rightarrow> store \<Rightarrow> store res" where
  "applyDecisionTx w d s =
     bindr (foldr_res (persist_mutation w) s (d_mutations d)) (\<lambda>s1.
       Inr (foldl (persist_conflict w) s1 (d_conflicts d)))"

text \<open>The project branch of \<^verbatim>\<open>applyEventTx\<close>.\<close>

definition applyProjectEvent :: "world \<Rightarrow> event \<Rightarrow> store \<Rightarrow> store res" where
  "applyProjectEvent w e s =
     bindr (loadNamespaceProjection w e s) (\<lambda>proj.
       bindr (Decide w proj e) (\<lambda>d. applyDecisionTx w d s))"

subsection \<open>The register a store holds\<close>

definition entry_view :: "store \<Rightarrow> entry \<Rightarrow> pview" where
  "entry_view s e =
     (if ns_status e = projectionStatusActive then
        (let g = or_else (tget gr_ns (ns_id e) (st_repos s)) zero_repo in
         VLive \<lparr>c_hlc = or_else (ns_src_hlc e) 0, c_dev = or_else (ns_src_dev e) [], c_id = or_else (ns_src_id e) []\<rparr>
           \<lparr>ct_path = ns_path e, ct_type = ns_type e, ct_remote_url = gr_url g, ct_remote_key = gr_key g,
            ct_branch = gr_branch g\<rparr>)
      else VDead (or_else (ns_tomb e) 0))"

definition store_view :: "store \<Rightarrow> string \<Rightarrow> pview" where
  "store_view s k = (case tget ns_key k (st_entries s) of None \<Rightarrow> VNone | Some e \<Rightarrow> entry_view s e)"

definition tombs_ok :: "store \<Rightarrow> bool" where
  "tombs_ok s \<longleftrightarrow> (\<forall>e \<in> set (st_entries s).
     ns_status e = projectionStatusActive \<or> ns_status e = projectionStatusDeleted \<and> ns_tomb e \<noteq> None)"

text \<open>A project event as \<^verbatim>\<open>createProjectEvent\<close> makes it for a repository.\<close>

definition repo_event :: "world \<Rightarrow> event \<Rightarrow> bool" where
  "repo_event w e \<longleftrightarrow> ev_hlc e \<noteq> 0 \<and> ev_device e \<noteq> [] \<and> ev_id e \<noteq> [] \<and>
     (case claim w e of VLive c x \<Rightarrow> ct_type x = ''git_repo'' \<and> ct_branch x \<noteq> [] | _ \<Rightarrow> True)"

lemma view_of_loaded:
  assumes "tombs_ok s" and "Clean w (pp_path pl) = Inr pk" and "decode_project (ev_payload e) = Some pl"
  shows "\<exists>proj. loadNamespaceProjection w e s = Inr proj \<and>
     proj_view proj (p_key pk) = store_view s (p_key pk) \<and>
     (\<forall>k r. proj k = Some r \<longrightarrow> k = p_key pk \<and>
        (pr_status r = projectionStatusActive \<and>
           (\<exists>e. tget ns_key (p_key pk) (st_entries s) = Some e \<and> pr_dirty r = ck_dirty (local_checkout s (ns_id e)) \<and> pr_ns r = ns_id e)
         \<or> pr_status r = projectionStatusDeleted))"
proof (cases "tget ns_key (p_key pk) (st_entries s)")
  case None
  then show ?thesis
    using assms by (simp add: loadNamespaceProjection_def ProjectByPath_def projectByPath_def fail_def
        TombstoneHLC_def store_view_def proj_view_def row_view_def)
next
  case (Some x)
  then have x: "x \<in> set (st_entries s)" by (auto dest: tget_SomeD)
  show ?thesis
  proof (cases "ns_status x = projectionStatusActive")
    case True
    then show ?thesis
      using assms Some by (simp add: loadNamespaceProjection_def ProjectByPath_def projectByPath_def
          store_view_def entry_view_def proj_view_def row_view_def projectionRowFromStatus_def status_of_def Let_def)
  next
    case False
    then obtain t where "ns_status x = projectionStatusDeleted" "ns_tomb x = Some t"
      using assms(1) x by (auto simp: tombs_ok_def)
    then show ?thesis
      using assms Some by (simp add: loadNamespaceProjection_def ProjectByPath_def projectByPath_def fail_def
          TombstoneHLC_def store_view_def entry_view_def proj_view_def row_view_def)
  qed
qed


lemma entries_ok_mono: "entries_ok w s \<Longrightarrow> st_entries s' = st_entries s \<Longrightarrow> st_fresh s \<le> st_fresh s' \<Longrightarrow> entries_ok w s'"
  by (auto simp: entries_ok_def)

lemma store_view_cong: "st_entries s' = st_entries s \<Longrightarrow> st_repos s' = st_repos s \<Longrightarrow> store_view s' = store_view s"
  by (auto simp: fun_eq_iff store_view_def entry_view_def split: option.splits)

lemma insertConflict_fresh: "st_fresh s \<le> st_fresh (insertConflict w ns ty d s)"
  by (simp add: insertConflict_def Let_def new_id_def)

lemma persist_conflicts:
  "entries_ok w s \<Longrightarrow> entries_ok w (foldl (persist_conflict w) s cs) \<and>
     store_view (foldl (persist_conflict w) s cs) = store_view s \<and>
     st_entries (foldl (persist_conflict w) s cs) = st_entries s"
proof (induction cs arbitrary: s)
  case (Cons c cs)
  have ok: "entries_ok w (persist_conflict w s c)"
    by (rule entries_ok_mono [OF Cons.prems]) (simp_all add: persist_conflict_def insertConflict_fresh)
  have v: "store_view (persist_conflict w s c) = store_view s"
    by (rule store_view_cong) (simp_all add: persist_conflict_def)
  show ?case using Cons.IH [OF ok] v by (simp add: persist_conflict_def)
qed simp

text \<open>The upsert of a repository installs exactly the claim of its parameters; nothing else moves.\<close>

definition params_content :: "path \<Rightarrow> upsert_params \<Rightarrow> content" where
  "params_content pk u0 = (let u = default_params u0 in
     \<lparr>ct_path = p_display pk, ct_type = up_type u, ct_remote_url = up_remote_url u, ct_remote_key = up_remote_key u,
      ct_branch = up_branch u\<rparr>)"

lemma upsert_view:
  assumes ok: "entries_ok w s" and ids: "ids_sound w"
    and cl: "Clean w (up_path u0) = Inr pk" and ty: "up_type u0 = ''git_repo''"
    and src: "c_hlc (up_src u0) \<noteq> 0" "c_dev (up_src u0) \<noteq> []" "c_id (up_src u0) \<noteq> []"
  shows "\<exists>i s'. UpsertProjectTx w u0 s = Inr (i, s') \<and> entries_ok w s' \<and>
     store_view s' = (store_view s)(p_key pk := VLive (up_src u0) (params_content pk u0)) \<and>
     (tombs_ok s \<longrightarrow> tombs_ok s') \<and> (\<exists>es n rs. s' = s\<lparr>st_entries := es, st_fresh := n, st_repos := rs\<rparr>) \<and>
     (\<exists>x. tget ns_key (p_key pk) (st_entries s') = Some x \<and> ns_id x = i)"
proof -
  define u where "u = default_params u0"
  have ut: "up_type u = ''git_repo''" "up_src u = up_src u0"
    using ty by (simp_all add: u_def default_params_def)
  obtain i s1 where un: "upsertNamespaceTx w pk u s = (i, s1)" by fastforce
  define s2 where "s2 = put_typed_row i u s1"
  have res: "UpsertProjectTx w u0 s = Inr (i, s2)"
    using cl by (simp add: UpsertProjectTx_def u_def [symmetric] un s2_def)
  note ok1 = upsertNamespace_ok [OF ok ids un]
  note get = upsertNamespace_parts(2) [OF ok un]
  have ent: "st_entries s2 = st_entries s1" "st_fresh s2 = st_fresh s1"
    by (simp_all add: s2_def put_typed_row_def ut)
  have ok2: "entries_ok w s2" using ok1 by (simp add: entries_ok_def ent)
  obtain es n where s1: "s1 = s\<lparr>st_entries := es, st_fresh := n\<rparr>" using upsertNamespace_parts(3) [OF ok un] by blast
  define row where "row g = (g::repo)\<lparr>gr_url := up_remote_url u, gr_key := up_remote_key u, gr_branch := up_branch u,
     gr_lfs := (if up_lfs u \<noteq> [] then up_lfs u else gr_lfs g),
     gr_forge := (if up_forge u \<noteq> [] then up_forge u else gr_forge g)\<rparr>" for g
  have rep: "tget gr_ns j (st_repos s2) = (if j = i then
      Some (case tget gr_ns i (st_repos s) of
          None \<Rightarrow> \<lparr>gr_ns = i, gr_url = up_remote_url u, gr_key = up_remote_key u, gr_branch = up_branch u,
           gr_lfs = (if up_lfs u = [] then ''auto'' else up_lfs u), gr_forge = up_forge u\<rparr>
        | Some g \<Rightarrow> row g)
      else tget gr_ns j (st_repos s))" for j
    by (auto simp: s2_def put_typed_row_def ut tget_tput s1 row_def split: option.splits)
  have mi: "ns_id (merged_entry i pk u (tget ns_key (p_key pk) (st_entries s))) = i"
    using upsertNamespace_parts(1) [OF ok un] by (auto simp: merged_entry_def entry_id_def split: option.splits)
  have v: "store_view s2 k = ((store_view s)(p_key pk := VLive (up_src u0) (params_content pk u0))) k" for k
  proof (cases "k = p_key pk")
    case True
    have g: "tget ns_key k (st_entries s2) = Some (merged_entry i pk u (tget ns_key k (st_entries s)))"
      using get [of k] True by (simp add: ent)
    show ?thesis
      using True mi src unfolding store_view_def g
      by (auto simp: entry_view_def rep row_def merged_entry_def ut nullZero_def nullEmpty_def
          params_content_def u_def [symmetric] split: option.splits)
  next
    case False
    have g: "tget ns_key k (st_entries s2) = tget ns_key k (st_entries s)" using get [of k] False by (simp add: ent)
    have "tget ns_key k (st_entries s) = Some x \<Longrightarrow> ns_id x \<noteq> i" for x
      using upsertNamespace_other_id [OF ok un False] by blast
    then show ?thesis using False unfolding store_view_def g
      by (auto simp: entry_view_def rep split: option.splits)
  qed
  have t: "tombs_ok s2" if "tombs_ok s"
  proof -
    have "ns_status x = projectionStatusActive \<or> ns_status x = projectionStatusDeleted \<and> ns_tomb x \<noteq> None"
      if x: "x \<in> set (st_entries s2)" for x
    proof -
      have gx: "tget ns_key (ns_key x) (st_entries s2) = Some x"
        using x tget_uniq [OF entries_okD(1) [OF ok2]] by blast
      show ?thesis
      proof (cases "ns_key x = p_key pk")
        case True
        then have "x = merged_entry i pk u (tget ns_key (p_key pk) (st_entries s))"
          using gx get [of "p_key pk"] by (simp add: ent)
        then show ?thesis by (auto simp: merged_entry_def split: option.splits)
      next
        case False
        then have "tget ns_key (ns_key x) (st_entries s) = Some x" using gx get [of "ns_key x"] by (simp add: ent)
        then show ?thesis using \<open>tombs_ok s\<close> by (auto simp: tombs_ok_def dest!: tget_SomeD)
      qed
    qed
    then show ?thesis by (simp add: tombs_ok_def)
  qed
  have "s2 = s\<lparr>st_entries := es, st_fresh := n, st_repos := st_repos s2\<rparr>"
    by (simp add: s2_def put_typed_row_def ut s1)
  moreover have "\<exists>x. tget ns_key (p_key pk) (st_entries s2) = Some x \<and> ns_id x = i"
    using get [of "p_key pk"] mi by (simp add: ent)
  ultimately show ?thesis using res ok2 v t by blast
qed

lemma upsert_event_view:
  assumes ok: "entries_ok w s" and ids: "ids_sound w"
    and cl: "Clean w (pp_path pl) = Inr pk"
    and wf: "pp_type pl = ''git_repo''" "pp_branch pl \<noteq> []" "ev_hlc e \<noteq> 0" "ev_device e \<noteq> []" "ev_id e \<noteq> []"
  shows "\<exists>i s'. UpsertProjectTx w (upsertParamsForEvent pl e) s = Inr (i, s') \<and> entries_ok w s' \<and>
     store_view s' = (store_view s)(p_key pk := VLive (ev_coord e) (claim_content pk pl)) \<and>
     (tombs_ok s \<longrightarrow> tombs_ok s')"
proof -
  let ?u = "upsertParamsForEvent pl e"
  have u: "up_path ?u = pp_path pl" "up_type ?u = ''git_repo''" "up_src ?u = ev_coord e"
    "params_content pk ?u = claim_content pk pl"
    using wf by (simp_all add: upsertParamsForEvent_def params_content_def default_params_def claim_content_def)
  show ?thesis
    using upsert_view [OF ok ids cl [folded u(1)] u(2)] wf(3-5) by (fastforce simp: u(3,4) ev_coord_def)
qed

lemma tombstonePath_view:
  assumes ok: "entries_ok w s" and ids: "ids_sound w"
  shows "entries_ok w (tombstonePath w pk h s)"
    and "store_view (tombstonePath w pk h s) = (store_view s)(p_key pk := VDead h)"
    and "tombs_ok s \<Longrightarrow> tombs_ok (tombstonePath w pk h s)"
proof -
  define s' where "s' = tombstonePath w pk h s"
  note P = tombstonePath_parts [OF ok ids, where pk = pk and h = h, folded s'_def]
  obtain es n where s': "s' = s\<lparr>st_entries := es, st_fresh := n\<rparr>" using P(3) by blast
  show "entries_ok w s'" by (rule P(1))
  show "store_view s' = (store_view s)(p_key pk := VDead h)"
  proof
    show "store_view s' k = ((store_view s)(p_key pk := VDead h)) k" for k
      using P(2) [of k] s' by (auto simp: store_view_def entry_view_def split: option.splits)
  qed
  show "tombs_ok s'" if "tombs_ok s"
    unfolding tombs_ok_def
  proof
    fix x assume x: "x \<in> set (st_entries s')"
    have gx: "tget ns_key (ns_key x) (st_entries s') = Some x"
      using x tget_uniq [OF entries_okD(1) [OF P(1)]] by blast
    show "ns_status x = projectionStatusActive \<or> ns_status x = projectionStatusDeleted \<and> ns_tomb x \<noteq> None"
    proof (cases "ns_key x = p_key pk")
      case True
      then show ?thesis using gx P(2) [of "ns_key x"] by auto
    next
      case False
      then have "tget ns_key (ns_key x) (st_entries s) = Some x" using gx P(2) [of "ns_key x"] by simp
      then show ?thesis using that by (auto simp: tombs_ok_def dest!: tget_SomeD)
    qed
  qed
qed

lemma tombstone_event_view:
  assumes ok: "entries_ok w s" and ids: "ids_sound w" and cl: "Clean w path = Inr pk"
  shows "\<exists>s'. TombstoneProject w path h s = Inr s' \<and> entries_ok w s' \<and>
     store_view s' = (store_view s)(p_key pk := VDead h) \<and> (tombs_ok s \<longrightarrow> tombs_ok s')"
  using tombstonePath_view [OF ok ids] by (simp add: TombstoneProject_def cl)
definition clean_checkout :: "store \<Rightarrow> string \<Rightarrow> bool" where
  "clean_checkout s k \<longleftrightarrow> (\<forall>e. tget ns_key k (st_entries s) = Some e \<longrightarrow>
      ck_dirty (local_checkout s (ns_id e)) \<noteq> dirtyStateDirty)"

lemma loaded_ok:
  assumes "tombs_ok s" "Clean w (pp_path pl) = Inr pk" "decode_project (ev_payload e) = Some pl"
    and "clean_checkout s (p_key pk)"
  shows "\<exists>proj. loadNamespaceProjection w e s = Inr proj \<and> proj_ok proj \<and>
     proj_view proj (p_key pk) = store_view s (p_key pk)"
  using view_of_loaded [OF assms(1-3)] assms(4)
  by (fastforce simp: proj_ok_def row_ok_def clean_checkout_def)

text \<open>What the store makes of a claim on a path: the join of the register, except that a delete of an
  already deleted path installs its own HLC, even below the standing tombstone
  (\<open>stale_delete_resurrects\<close>).\<close>

definition stored_join :: "pview \<Rightarrow> pview \<Rightarrow> pview" where
  "stored_join u v = (case (u, v) of (VDead t, VDead h) \<Rightarrow> VDead h | _ \<Rightarrow> vjoin u v)"

lemma stored_join_simps [simp]:
  "stored_join (VDead t) (VDead h) = VDead h"
  "stored_join VNone v = v"
  "stored_join (VLive c x) v = vjoin (VLive c x) v"
  "stored_join (VDead t) (VLive c x) = vjoin (VDead t) (VLive c x)"
  "stored_join u VNone = u"
  by (cases v; cases u; simp add: stored_join_def)+

lemma stored_join_idem: "stored_join (stored_join u v) v = stored_join u v"
proof (cases v)
  case (VLive c x)
  have "stored_join u' v = vjoin u' v" for u' using VLive by (cases u') simp_all
  then show ?thesis using vjoin_idem by metis
next
  case (VDead h)
  then show ?thesis by (cases u) auto
qed simp

text \<open>The register is the join wherever no delete is older than a standing tombstone.\<close>

definition undercuts :: "pview \<Rightarrow> pview \<Rightarrow> bool" where
  "undercuts u v = (case (u, v) of (VDead t, VDead h) \<Rightarrow> h < t | _ \<Rightarrow> False)"

lemma stored_join_vjoin: "\<not> undercuts u v \<Longrightarrow> stored_join u v = vjoin u v"
  by (cases u; cases v) (auto simp: undercuts_def)

text \<open>A delete is held back by unpushed work at its path.\<close>

definition held_back :: "store \<Rightarrow> string \<Rightarrow> pview \<Rightarrow> bool" where
  "held_back s k v \<longleftrightarrow> (\<exists>h. v = VDead h) \<and> (\<exists>c x. store_view s k = VLive c x) \<and> \<not> clean_checkout s k"

lemma delete_on_deleted:
  assumes ok: "entries_ok w s" and ids: "ids_sound w" and tombs: "tombs_ok s"
    and e: "event_claim w e = Some (k, VDead h)" and v: "store_view s k = VDead t"
  shows "\<exists>s'. applyProjectEvent w e s = Inr s' \<and> entries_ok w s' \<and> tombs_ok s' \<and>
     store_view s' = (store_view s)(k := VDead h)"
  using e
proof (cases rule: event_claim_cases)
  case (del pl pk)
  obtain x where x: "tget ns_key k (st_entries s) = Some x" "ns_status x \<noteq> projectionStatusActive"
    using v by (auto simp: store_view_def entry_view_def Let_def split: option.splits if_splits)
  obtain proj where p: "loadNamespaceProjection w e s = Inr proj" "proj_view proj k = store_view s k"
    using view_of_loaded [OF tombs del(2,1)] del(3) by auto
  have "active proj (p_key pk) = None"
    using p(2) v del(3) by (auto simp: active_def proj_view_def row_view_def split: option.splits if_splits)
  then have d: "Decide w proj e = Inr \<lparr>d_mutations = [MutationTombstone (pp_path pl) h], d_conflicts = []\<rparr>"
    using del(2,4,5) by (simp add: decideDelete_def Let_def)
  obtain s1 where u: "TombstoneProject w (pp_path pl) h s = Inr s1" "entries_ok w s1"
    "store_view s1 = (store_view s)(p_key pk := VDead h)" "tombs_ok s1"
    using tombstone_event_view [OF ok ids del(2), of h] tombs by blast
  then show ?thesis
    using p(1) d del(3) by (simp add: applyProjectEvent_def applyDecisionTx_def persist_mutation_def)
qed simp_all

text \<open>A delete of an active path whose checkout has unpushed work.\<close>

lemma delete_held_back:
  assumes ok: "entries_ok w s" and tombs: "tombs_ok s"
    and e: "event_claim w e = Some (k, VDead h)" and v: "store_view s k = VLive c x" and dirty: "\<not> clean_checkout s k"
  shows "\<exists>s'. applyProjectEvent w e s = Inr s' \<and> entries_ok w s' \<and> tombs_ok s' \<and> store_view s' = store_view s \<and>
     (c_hlc c \<le> h \<longrightarrow> (\<exists>r pl. tget ns_key k (st_entries s) = Some r \<and> decode_project (ev_payload e) = Some pl \<and>
        open_conflict (ns_id r) ConflictPendingDelete (pending_delete_details (pp_path pl) e) s'))"
  using e
proof (cases rule: event_claim_cases)
  case (del pl pk)
  obtain r where r: "tget ns_key k (st_entries s) = Some r" "ck_dirty (local_checkout s (ns_id r)) = dirtyStateDirty"
    using dirty by (auto simp: clean_checkout_def)
  obtain proj where p: "loadNamespaceProjection w e s = Inr proj" "proj_view proj k = VLive c x"
    and rows: "\<And>j row. proj j = Some row \<Longrightarrow> pr_status row = projectionStatusActive \<and>
        pr_dirty row = dirtyStateDirty \<and> pr_ns row = ns_id r \<or> pr_status row = projectionStatusDeleted"
    using view_of_loaded [OF tombs del(2,1)] v r unfolding del(3) by fastforce
  obtain row where row: "proj k = Some row" "pr_status row = projectionStatusActive" "pr_src row = c"
    using p(2) by (auto simp: proj_view_def row_view_def split: option.splits if_splits)
  have row': "pr_dirty row = dirtyStateDirty" "pr_ns row = ns_id r"
    using rows [OF row(1)] row(2) by (auto simp: projectionStatusActive_def projectionStatusDeleted_def)
  have a: "active proj (p_key pk) = Some row" using row del(3) by (simp add: active_def)
  define d where "d = (if c_hlc c > h then no_decision else \<lparr>d_mutations = [],
      d_conflicts = [\<lparr>cf_ns = ns_id r, cf_type = ConflictPendingDelete,
                      cf_details = pending_delete_details (pp_path pl) e\<rparr>]\<rparr>)"
  have d: "Decide w proj e = Inr d"
    using del(2,4,5) a row row' by (simp add: decideDelete_def d_def)
  have run: "applyProjectEvent w e s = Inr (foldl (persist_conflict w) s (d_conflicts d))"
    using p(1) d by (simp add: applyProjectEvent_def applyDecisionTx_def d_def no_decision_def)
  have c: "open_conflict (ns_id r) ConflictPendingDelete (pending_delete_details (pp_path pl) e)
      (foldl (persist_conflict w) s (d_conflicts d))" if "c_hlc c \<le> h"
    using that by (simp add: d_def persist_conflict_def insertConflict_open)
  show ?thesis
    using run persist_conflicts [OF ok, of "d_conflicts d"] tombs c r(1) del(1) by (auto simp: tombs_ok_def)
qed simp_all

lemma delete_of_clean:
  assumes ok: "entries_ok w s" and ids: "ids_sound w" and tombs: "tombs_ok s"
    and e: "event_claim w e = Some (k, VDead h)" and clean: "clean_checkout s k" and v: "\<not> undercuts (store_view s k) (VDead h)"
  shows "\<exists>s'. applyProjectEvent w e s = Inr s' \<and> entries_ok w s' \<and> tombs_ok s' \<and>
     store_view s' = (store_view s)(k := vjoin (store_view s k) (VDead h))"
  using e
proof (cases rule: event_claim_cases)
  case (del pl pk)
  obtain proj where p: "loadNamespaceProjection w e s = Inr proj" "proj_ok proj"
    "proj_view proj k = store_view s k"
    using loaded_ok [OF tombs del(2,1)] clean del(3) by auto
  obtain d where d: "decideDelete w proj pl e = Inr d" and
    c: "d_mutations d = [] \<and> vjoin (store_view s k) (VDead h) = store_view s k \<or>
        d_mutations d = [MutationTombstone (pp_path pl) (ev_hlc e)] \<and>
        vjoin (store_view s k) (VDead h) = row_view (Some (tomb_row pk (ev_hlc e) proj))"
    using decideDelete_view [OF p(2) del(2), of e] unfolding del(3,4) p(3) [unfolded del(3)] by blast
  have dd: "Decide w proj e = Inr d" using del(5) d by simp
  from c show ?thesis
  proof (elim disjE conjE)
    assume m: "d_mutations d = []" "vjoin (store_view s k) (VDead h) = store_view s k"
    then show ?thesis
      using p(1) dd persist_conflicts [OF ok, of "d_conflicts d"] tombs
      by (simp add: applyProjectEvent_def applyDecisionTx_def tombs_ok_def)
  next
    assume m: "d_mutations d = [MutationTombstone (pp_path pl) (ev_hlc e)]"
      "vjoin (store_view s k) (VDead h) = row_view (Some (tomb_row pk (ev_hlc e) proj))"
    have j: "vjoin (store_view s k) (VDead h) = VDead (ev_hlc e)"
      using m(2) v del(4) by (cases "store_view s k") (auto simp: undercuts_def row_view_def tomb_row_def split: if_splits)
    obtain s1 where u: "TombstoneProject w (pp_path pl) (ev_hlc e) s = Inr s1" "entries_ok w s1"
      "store_view s1 = (store_view s)(p_key pk := VDead (ev_hlc e))" "tombs_ok s1"
      using tombstone_event_view [OF ok ids del(2), of "ev_hlc e"] tombs by blast
    then show ?thesis
      using p(1) dd m(1) j persist_conflicts [OF u(2), of "d_conflicts d"] del(3)
      by (simp add: applyProjectEvent_def applyDecisionTx_def persist_mutation_def tombs_ok_def)
  qed
qed simp_all

lemma upsert_refines:
  assumes ok: "entries_ok w s" and ids: "ids_sound w" and tombs: "tombs_ok s"
    and e: "event_claim w e = Some (k, VLive c x)" and wf: "repo_event w e"
  shows "\<exists>s'. applyProjectEvent w e s = Inr s' \<and> entries_ok w s' \<and> tombs_ok s' \<and>
     store_view s' = (store_view s)(k := vjoin (store_view s k) (VLive c x))"
  using e
proof (cases rule: event_claim_cases)
  case (up pl pk)
  have wf': "pp_type pl = ''git_repo''" "pp_branch pl \<noteq> []" "ev_hlc e \<noteq> 0" "ev_device e \<noteq> []" "ev_id e \<noteq> []"
    using wf up e by (auto simp: repo_event_def claim_def claim_content_def)
  obtain proj where p: "loadNamespaceProjection w e s = Inr proj" "proj_view proj k = store_view s k"
    and rows: "\<forall>r. proj (p_key pk) = Some r \<longrightarrow>
        pr_status r = projectionStatusActive \<or> pr_status r = projectionStatusDeleted"
    using view_of_loaded [OF tombs up(2,1)] up(3) by blast
  obtain d where d: "decideUpsert w proj pl e = Inr d" and
    c: "d_mutations d = [] \<and> vjoin (store_view s k) (VLive c x) = store_view s k \<or>
        d_mutations d = [MutationUpsert (upsertParamsForEvent pl e)] \<and> vjoin (store_view s k) (VLive c x) = VLive c x"
    using decideUpsert_view [where p = proj and pk = pk, OF rows up(2), of e] unfolding up(3,4) p(2) [unfolded up(3)] by blast
  have dd: "Decide w proj e = Inr d" using up(5) d by simp
  from c show ?thesis
  proof (elim disjE conjE)
    assume m: "d_mutations d = []" "vjoin (store_view s k) (VLive c x) = store_view s k"
    then show ?thesis
      using p(1) dd persist_conflicts [OF ok, of "d_conflicts d"] tombs
      by (simp add: applyProjectEvent_def applyDecisionTx_def tombs_ok_def)
  next
    assume m: "d_mutations d = [MutationUpsert (upsertParamsForEvent pl e)]" "vjoin (store_view s k) (VLive c x) = VLive c x"
    obtain i s1 where u: "UpsertProjectTx w (upsertParamsForEvent pl e) s = Inr (i, s1)" "entries_ok w s1"
      "store_view s1 = (store_view s)(p_key pk := VLive (ev_coord e) (claim_content pk pl))" "tombs_ok s1"
      using upsert_event_view [OF ok ids up(2) wf'] tombs by blast
    then show ?thesis
      using p(1) dd m persist_conflicts [OF u(2), of "d_conflicts d"] up(3,4)
      by (simp add: applyProjectEvent_def applyDecisionTx_def persist_mutation_def tombs_ok_def)
  qed
qed simp

lemma applyProjectEvent_refines:
  assumes ok: "entries_ok w s" and ids: "ids_sound w" and tombs: "tombs_ok s"
    and e: "event_claim w e = Some (k, v)" and wf: "repo_event w e"
  shows "\<exists>s'. applyProjectEvent w e s = Inr s' \<and> entries_ok w s' \<and> tombs_ok s' \<and>
     store_view s' = (store_view s)(k := if held_back s k v then store_view s k else stored_join (store_view s k) v) \<and>
     (held_back s k v \<longrightarrow> (\<forall>c x h. store_view s k = VLive c x \<and> v = VDead h \<and> c_hlc c \<le> h \<longrightarrow>
        (\<exists>r pl. tget ns_key k (st_entries s) = Some r \<and> decode_project (ev_payload e) = Some pl \<and>
           open_conflict (ns_id r) ConflictPendingDelete (pending_delete_details (pp_path pl) e) s')))"
proof (cases v)
  case VNone
  then show ?thesis using e by (auto simp: event_claim_def split: option.splits sum.splits if_splits)
next
  case (VLive c x)
  moreover have "\<not> held_back s k v" by (simp add: held_back_def VLive)
  moreover have "stored_join (store_view s k) v = vjoin (store_view s k) v"
    by (rule stored_join_vjoin) (simp add: undercuts_def VLive split: pview.split)
  ultimately show ?thesis using upsert_refines [OF ok ids tombs e [unfolded VLive] wf] by simp
next
  case (VDead h)
  note e' = e [unfolded VDead]
  show ?thesis
  proof (cases "store_view s k")
    case (VDead t)
    then show ?thesis
      using delete_on_deleted [OF ok ids tombs e' VDead] by (simp add: \<open>v = VDead h\<close> held_back_def)
  next
    case VNone
    then have "clean_checkout s k"
      by (auto simp: clean_checkout_def store_view_def entry_view_def Let_def split: if_splits)
    then show ?thesis
      using delete_of_clean [OF ok ids tombs e'] VNone by (simp add: \<open>v = VDead h\<close> held_back_def undercuts_def)
  next
    case (VLive c x)
    show ?thesis
    proof (cases "clean_checkout s k")
      case True
      then show ?thesis
        using delete_of_clean [OF ok ids tombs e'] VLive by (simp add: \<open>v = VDead h\<close> held_back_def undercuts_def)
    next
      case False
      then have "held_back s k v" by (simp add: held_back_def VLive \<open>v = VDead h\<close>)
      then show ?thesis
        using delete_held_back [OF ok tombs e' VLive False] VLive by (auto simp: \<open>v = VDead h\<close> fun_upd_idem)
    qed
  qed
qed

text \<open>C14: the store implements the register, on every branch. For an add, update or delete event as
  it is created for a repository (with an id, a device, an HLC, the type \<^verbatim>\<open>git_repo\<close> and a branch) whose
  path is valid, applying it to a well-formed store succeeds, keeps the store well-formed and touches
  only the row at the event's path. That row moves to the join of what was there with what the event
  claims, with two exceptions: a delete that meets an active row whose checkout on this device is
  dirty changes no row (and unless it is older than the row, it leaves an open pending-delete conflict
  that names it); and a delete of an already deleted path installs its own HLC, so that a delete
  older than the standing tombstone lowers it (\<open>stale_delete_resurrects\<close>), the only case in which
  the row is not the join.\<close>

theorem store_refines_register:
  assumes "entries_ok w s" and "ids_sound w" and "tombs_ok s"
    and "event_claim w e = Some (k, v)" and "repo_event w e"
  shows "\<exists>s'. applyProjectEvent w e s = Inr s' \<and> entries_ok w s' \<and> tombs_ok s' \<and>
     store_view s' = (store_view s)(k := if held_back s k v then store_view s k else stored_join (store_view s k) v) \<and>
     (\<not> undercuts (store_view s k) v \<longrightarrow> stored_join (store_view s k) v = vjoin (store_view s k) v) \<and>
     (held_back s k v \<longrightarrow> (\<forall>c x h. store_view s k = VLive c x \<and> v = VDead h \<and> c_hlc c \<le> h \<longrightarrow>
        (\<exists>r pl. tget ns_key k (st_entries s) = Some r \<and> decode_project (ev_payload e) = Some pl \<and>
           open_conflict (ns_id r) ConflictPendingDelete (pending_delete_details (pp_path pl) e) s')))"
  using applyProjectEvent_refines [OF assms] stored_join_vjoin by blast

lemma show_nat_aux_inj:
  assumes "show_nat m = show_nat n"
  shows "m = n"
  using show_nat_digits [of m] show_nat_digits [of n] assms by metis

lemma plain_world_ids: "ids_sound (plain_world t)"
  by (auto simp: ids_sound_def plain_world_def dest: show_nat_aux_inj)

theorem store_refines_register_witness:
  "\<exists>s'. applyProjectEvent (plain_world 0) (add_event ''e1'' ''d'' 5 ''App'' ''k'') (empty_store ''ws'') = Inr s' \<and>
     store_view s' ''app'' = VLive \<lparr>c_hlc = 5, c_dev = ''d'', c_id = ''e1''\<rparr>
       \<lparr>ct_path = ''App'', ct_type = ''git_repo'', ct_remote_url = ''k'', ct_remote_key = ''k'', ct_branch = ''main''\<rparr>"
proof -
  have c: "event_claim (plain_world 0) (add_event ''e1'' ''d'' 5 ''App'' ''k'') = Some (''app'',
      VLive \<lparr>c_hlc = 5, c_dev = ''d'', c_id = ''e1''\<rparr>
       \<lparr>ct_path = ''App'', ct_type = ''git_repo'', ct_remote_url = ''k'', ct_remote_key = ''k'', ct_branch = ''main''\<rparr>)"
    using sample_claims(1) [OF _ _ sample_App, where key = "''k''" and i = "''e1''" and dev = "''d''" and h = 5] by (simp add: is_ascii_def)
  have r: "repo_event (plain_world 0) (add_event ''e1'' ''d'' 5 ''App'' ''k'')"
    using c by (simp add: repo_event_def claim_def add_event_def sample_event_def)
  show ?thesis
  proof -
    have "entries_ok (plain_world 0) (empty_store ''ws'')" "tombs_ok (empty_store ''ws'')"
      and n: "store_view (empty_store ''ws'') ''app'' = VNone"
      by (simp_all add: entries_ok_def tombs_ok_def store_view_def)
    then show ?thesis
      using store_refines_register [OF _ plain_world_ids _ c r, of "empty_store ''ws''"]
      by (auto simp: held_back_def n)
  qed
qed

text \<open>A delete that arrives after a newer delete of the same path lowers the standing
  tombstone, because \<^verbatim>\<open>upsertNamespaceTx\<close> clears \<^verbatim>\<open>tombstone_hlc\<close> before
  \<^verbatim>\<open>tombstonePath\<close> takes the maximum with it. An add between the two then brings the deleted
  project back, although the register (and the pure \<^verbatim>\<open>Projection.Apply\<close>) keeps it deleted.\<close>

theorem stale_delete_resurrects:
  assumes "entries_ok w s" and "ids_sound w" and "tombs_ok s"
    and "store_view s k = VDead t"
    and "event_claim w d = Some (k, VDead h)" and "h < t"
    and "event_claim w a = Some (k, VLive c x)" and "repo_event w a" and "h < c_hlc c" and "c_hlc c \<le> t"
  shows "\<exists>s1 s2. applyProjectEvent w d s = Inr s1 \<and> applyProjectEvent w a s1 = Inr s2 \<and>
     store_view s2 k = VLive c x \<and> vjoin (vjoin (store_view s k) (VDead h)) (VLive c x) = VDead t"
proof -
  obtain s1 where s1: "applyProjectEvent w d s = Inr s1" "entries_ok w s1" "tombs_ok s1"
    "store_view s1 = (store_view s)(k := VDead h)"
    using delete_on_deleted [OF assms(1-3,5,4)] by blast
  have v1: "store_view s1 k = VDead h" using s1(4) by simp
    show ?thesis
    using assms(7)
    proof (cases rule: event_claim_cases)
      case (up pl pk)
      have wf': "pp_type pl = ''git_repo''" "pp_branch pl \<noteq> []" "ev_hlc a \<noteq> 0" "ev_device a \<noteq> []" "ev_id a \<noteq> []"
        using assms(7,8) up by (auto simp: repo_event_def claim_def claim_content_def)
      obtain proj where p: "loadNamespaceProjection w a s1 = Inr proj" "proj_view proj k = store_view s1 k"
        using view_of_loaded [OF s1(3) up(2,1)] up(3) by auto
      have "proj k \<noteq> None" "\<forall>r. proj k = Some r \<longrightarrow> pr_status r \<noteq> projectionStatusActive \<and> pr_tomb r = h"
        using p(2) v1 by (auto simp: proj_view_def row_view_def split: option.splits if_splits)
      moreover have "c_hlc c = ev_hlc a" using up(4) by (simp add: ev_coord_def)
      ultimately have "decideUpsert w proj pl a = Inr \<lparr>d_mutations = [MutationUpsert (upsertParamsForEvent pl a)], d_conflicts = []\<rparr>"
        using up(2,3) assms(9) by (auto simp: decideUpsert_def tombstone_def active_def Let_def split: option.splits)
      then have dd: "Decide w proj a = Inr \<lparr>d_mutations = [MutationUpsert (upsertParamsForEvent pl a)], d_conflicts = []\<rparr>"
        using up(5) by simp
      obtain i s2 where u: "UpsertProjectTx w (upsertParamsForEvent pl a) s1 = Inr (i, s2)"
        "store_view s2 = (store_view s1)(p_key pk := VLive (ev_coord a) (claim_content pk pl))"
        using upsert_event_view [OF s1(2) assms(2) up(2) wf'] by blast
      then have "applyProjectEvent w a s1 = Inr s2"
        using p(1) dd by (simp add: applyProjectEvent_def applyDecisionTx_def persist_mutation_def)
      then show ?thesis using s1(1) u(2) up(3,4) assms(4,6,10) by auto
    qed simp
qed

theorem stale_delete_resurrects_witness:
  "\<exists>s1 s2. applyProjectEvent (plain_world 0) (del_event ''e2'' ''b'' 5 ''app'')
      ((empty_store ''ws'')\<lparr>st_entries := [(new_entry ''p'' \<lparr>p_display = ''app'', p_key = ''app''\<rparr>
          (tombstone_params \<lparr>p_display = ''app'', p_key = ''app''\<rparr>))
        \<lparr>ns_status := projectionStatusDeleted, ns_tomb := Some 10\<rparr>]\<rparr>) = Inr s1 \<and>
     applyProjectEvent (plain_world 0) (add_event ''e3'' ''c'' 7 ''app'' ''k'') s1 = Inr s2 \<and>
     store_view s2 ''app'' \<noteq> VDead 10"
proof -
  let ?s = "(empty_store ''ws'')\<lparr>st_entries := [(new_entry ''p'' \<lparr>p_display = ''app'', p_key = ''app''\<rparr>
          (tombstone_params \<lparr>p_display = ''app'', p_key = ''app''\<rparr>))
        \<lparr>ns_status := projectionStatusDeleted, ns_tomb := Some 10\<rparr>]\<rparr>"
  have d: "event_claim (plain_world 0) (del_event ''e2'' ''b'' 5 ''app'') = Some (''app'', VDead 5)"
    using sample_claims(2) [OF _ _ sample_app, where key = "''k''" and i = "''e2''" and dev = "''b''" and h = 5] by (simp add: is_ascii_def)
  have a: "event_claim (plain_world 0) (add_event ''e3'' ''c'' 7 ''app'' ''k'') = Some (''app'',
      VLive \<lparr>c_hlc = 7, c_dev = ''c'', c_id = ''e3''\<rparr>
       \<lparr>ct_path = ''app'', ct_type = ''git_repo'', ct_remote_url = ''k'', ct_remote_key = ''k'', ct_branch = ''main''\<rparr>)"
    using sample_claims(1) [OF _ _ sample_app, where key = "''k''" and i = "''e3''" and dev = "''c''" and h = 7] by (simp add: is_ascii_def)
  have r: "repo_event (plain_world 0) (add_event ''e3'' ''c'' 7 ''app'' ''k'')"
    using a by (simp add: repo_event_def claim_def add_event_def sample_event_def)
  have ok: "entries_ok (plain_world 0) ?s"
    by (simp add: entries_ok_def uniq_def plain_world_def)
  have t: "tombs_ok ?s" by (simp add: tombs_ok_def)
  have v: "store_view ?s ''app'' = VDead 10" by (simp add: store_view_def entry_view_def)
  show ?thesis
    using stale_delete_resurrects [OF ok plain_world_ids t v d _ a r] by auto
qed


subsection \<open>Rename\<close>

lemma tmod_rekey:
  assumes "uniq key es" "uniq idf es" "x \<in> set es" "idf x = i" "key (f x) = n" "n \<notin> key ` set es"
    and "\<And>e. idf (f e) = idf e"
  shows "uniq key (tmod (\<lambda>e. idf e = i) f es) \<and> uniq idf (tmod (\<lambda>e. idf e = i) f es) \<and>
     tget key k (tmod (\<lambda>e. idf e = i) f es) =
       (if k = n then Some (f x) else if k = key x then None else tget key k es)"
  using assms
proof (induction es arbitrary: k)
  case (Cons e es)
  show ?case
  proof (cases "idf e = i")
    case True
    have ex: "x = e" using Cons.prems(2,3,4) True by (auto simp: uniq_def)
    have "idf y \<noteq> i" if "y \<in> set es" for y
    proof
      assume "idf y = i"
      then have "idf e \<in> idf ` set es" using True that by (metis imageI)
      then show False using Cons.prems(2) by (simp add: uniq_def)
    qed
    then have rest: "tmod (\<lambda>e. idf e = i) f es = es"
      by (auto simp: tmod_def intro!: map_idI)
    have t: "tmod (\<lambda>e. idf e = i) f (e # es) = f e # es"
      using rest True by (simp add: tmod_def)
    have "tget key (key e) es = None" using Cons.prems(1) by (auto simp: tget_None uniq_def)
    then show ?thesis
      using Cons.prems t ex by (auto simp: uniq_def)
  next
    case False
    then have "x \<in> set es" using Cons.prems(3,4) by auto
    have IH: "uniq key (tmod (\<lambda>e. idf e = i) f es) \<and> uniq idf (tmod (\<lambda>e. idf e = i) f es) \<and>
       tget key k (tmod (\<lambda>e. idf e = i) f es) =
       (if k = n then Some (f x) else if k = key x then None else tget key k es)" for k
      by (rule Cons.IH) (use Cons.prems \<open>x \<in> set es\<close> in \<open>auto simp: uniq_def\<close>)
    have t: "tmod (\<lambda>e. idf e = i) f (e # es) = e # tmod (\<lambda>e. idf e = i) f es"
      using False by (simp add: tmod_def)
    have kx: "key x \<noteq> key e"
      using Cons.prems(1) imageI [OF \<open>x \<in> set es\<close>, of key] by (auto simp: uniq_def)
    have ke: "key e \<noteq> n" using Cons.prems(6) by auto
    have "key e \<notin> key ` set (tmod (\<lambda>e. idf e = i) f es)"
      unfolding tget_None [symmetric] using IH [of "key e"] Cons.prems(1) ke kx by (auto simp: tget_None uniq_def)
    moreover have "idf e \<notin> idf ` set (tmod (\<lambda>e. idf e = i) f es)"
      using Cons.prems(2,7) by (auto simp: in_tmod uniq_def split: if_splits)
    moreover have "key x \<noteq> n" using Cons.prems(6) \<open>x \<in> set es\<close> by auto
    ultimately have "uniq key (e # tmod (\<lambda>e. idf e = i) f es)" "uniq idf (e # tmod (\<lambda>e. idf e = i) f es)"
      using IH by (simp_all add: uniq_def)
    moreover have "tget key k (e # tmod (\<lambda>e. idf e = i) f es) =
        (if k = n then Some (f x) else if k = key x then None else tget key k (e # es))"
    proof (cases "key e = k")
      case True
      then have "k \<noteq> n" "k \<noteq> key x" using ke kx by auto
      then show ?thesis using True by simp
    qed (simp add: IH)
    ultimately show ?thesis unfolding t by blast
  qed
qed simp

lemma delete_entry_parts:
  assumes ok: "entries_ok w s" and t: "tget ns_key n (st_entries s) = Some tgt"
  shows "entries_ok w (delete_entry (ns_id tgt) s)"
    and "tget ns_key k (st_entries (delete_entry (ns_id tgt) s)) =
        (if k = n then None else tget ns_key k (st_entries s))"
    and "store_view (delete_entry (ns_id tgt) s) k = (if k = n then VNone else store_view s k)"
    and "tombs_ok s \<Longrightarrow> tombs_ok (delete_entry (ns_id tgt) s)"
proof -
  have d: "st_entries (delete_entry (ns_id tgt) s) = tdel (\<lambda>e. ns_id e = ns_id tgt) (st_entries s)"
    "st_fresh (delete_entry (ns_id tgt) s) = st_fresh s"
    "st_repos (delete_entry (ns_id tgt) s) = tdel (\<lambda>g. gr_ns g = ns_id tgt) (st_repos s)"
    by (simp_all add: delete_entry_def)
  have sub: "set (tdel P es) \<subseteq> set es" for P and es :: "entry list" by (auto simp: tdel_def)
  show "entries_ok w (delete_entry (ns_id tgt) s)"
    using ok sub by (fastforce simp: entries_ok_def d intro!: uniq_tdel)
  have get: "tget ns_key k (tdel (\<lambda>e. ns_id e = ns_id tgt) (st_entries s)) =
      (if k = n then None else tget ns_key k (st_entries s))" for k
  proof (cases "k = n")
    case True
    have "\<not> (\<exists>e \<in> set (tdel (\<lambda>e. ns_id e = ns_id tgt) (st_entries s)). ns_key e = n)"
    proof
      assume "\<exists>e \<in> set (tdel (\<lambda>e. ns_id e = ns_id tgt) (st_entries s)). ns_key e = n"
      then obtain e where e: "e \<in> set (st_entries s)" "ns_id e \<noteq> ns_id tgt" "ns_key e = n"
        by (auto simp: tdel_def)
      then have "e = tgt" using t tget_uniq [OF entries_okD(1) [OF ok], of n e] by simp
      then show False using e by simp
    qed
    then show ?thesis using True by (auto simp: tget_None)
  next
    case False
    have "\<And>r. r \<in> set (st_entries s) \<Longrightarrow> ns_key r = k \<Longrightarrow> \<not> ns_id r = ns_id tgt"
      using same_id_same_entry [OF ok _ t] tget_uniq [OF entries_okD(1) [OF ok]] False by blast
    then show ?thesis using False by (simp add: tget_tdel_other)
  qed
  then show g: "tget ns_key k (st_entries (delete_entry (ns_id tgt) s)) =
        (if k = n then None else tget ns_key k (st_entries s))" by (simp add: d)
  have rep: "ns_id e \<noteq> ns_id tgt \<Longrightarrow> tget gr_ns (ns_id e) (st_repos (delete_entry (ns_id tgt) s)) = tget gr_ns (ns_id e) (st_repos s)" for e
    by (auto simp: d intro!: tget_tdel_other)
  show "store_view (delete_entry (ns_id tgt) s) k = (if k = n then VNone else store_view s k)"
  proof (cases "k = n \<or> tget ns_key k (st_entries s) = None")
    case True
    then show ?thesis using g by (auto simp: store_view_def)
  next
    case False
    then obtain x where x: "tget ns_key k (st_entries s) = Some x" by auto
    have "ns_id x \<noteq> ns_id tgt" using same_id_same_entry [OF ok x t] False by blast
    then show ?thesis using g x rep [of x] False by (simp add: store_view_def entry_view_def)
  qed
  show "tombs_ok s \<Longrightarrow> tombs_ok (delete_entry (ns_id tgt) s)"
    using sub by (fastforce simp: tombs_ok_def d)
qed

definition renamed_view :: "pview \<Rightarrow> path \<Rightarrow> event \<Rightarrow> pview" where
  "renamed_view v pk ev = (case v of VLive c x \<Rightarrow> VLive (ev_coord ev) (x\<lparr>ct_path := p_display pk\<rparr>) | _ \<Rightarrow> v)"

lemma move_entry_parts:
  assumes ok: "entries_ok w s" and src: "tget ns_key ko (st_entries s) = Some src"
    and act: "ns_status src = projectionStatusActive"
    and free: "tget ns_key (p_key pk) (st_entries s) = None"
    and wf: "ev_hlc ev \<noteq> 0" "ev_device ev \<noteq> []" "ev_id ev \<noteq> []"
  shows "entries_ok w (move_entry (ns_id src) pk ev s)"
    and "store_view (move_entry (ns_id src) pk ev s) =
       (store_view s)(ko := VNone, p_key pk := renamed_view (store_view s ko) pk ev)"
    and "\<exists>e. tget ns_key (p_key pk) (st_entries (move_entry (ns_id src) pk ev s)) = Some e \<and> ns_id e = ns_id src"
    and "tombs_ok s \<Longrightarrow> tombs_ok (move_entry (ns_id src) pk ev s)"
proof -
  define f where "f e = (e::entry)\<lparr>ns_path := p_display pk, ns_key := p_key pk,
            ns_display := filepathBaseSlash (p_display pk),
            ns_status := projectionStatusActive, ns_tomb := None, ns_src_hlc := nullZero (ev_hlc ev),
            ns_src_dev := nullEmpty (ev_device ev), ns_src_id := nullEmpty (ev_id ev)\<rparr>" for e
  have m: "move_entry (ns_id src) pk ev s = s\<lparr>st_entries := tmod (\<lambda>e. ns_id e = ns_id src) f (st_entries s)\<rparr>"
    by (simp add: move_entry_def f_def [abs_def])
  have s: "src \<in> set (st_entries s)" "ns_key src = ko" using src by (auto dest: tget_SomeD)
  have n: "p_key pk \<notin> ns_key ` set (st_entries s)" using free by (simp add: tget_None)
  have R: "uniq ns_key (tmod (\<lambda>e. ns_id e = ns_id src) f (st_entries s)) \<and>
     uniq ns_id (tmod (\<lambda>e. ns_id e = ns_id src) f (st_entries s)) \<and>
     tget ns_key k (tmod (\<lambda>e. ns_id e = ns_id src) f (st_entries s)) =
       (if k = p_key pk then Some (f src) else if k = ns_key src then None else tget ns_key k (st_entries s))" for k
    by (rule tmod_rekey [OF entries_okD(1,2) [OF ok] s(1)]) (simp_all add: f_def n)
  show "entries_ok w (move_entry (ns_id src) pk ev s)"
    using R ok by (auto simp: entries_ok_def m in_tmod f_def split: if_splits)
  have "ko \<noteq> p_key pk" using src free by auto
  have "store_view (move_entry (ns_id src) pk ev s) k =
       ((store_view s)(ko := VNone, p_key pk := renamed_view (store_view s ko) pk ev)) k" for k
    using R [of k] src act wf \<open>ko \<noteq> p_key pk\<close> s(2)
    by (auto simp: store_view_def entry_view_def m f_def renamed_view_def Let_def nullZero_def nullEmpty_def
        ev_coord_def split: option.splits)
  then show "store_view (move_entry (ns_id src) pk ev s) =
       (store_view s)(ko := VNone, p_key pk := renamed_view (store_view s ko) pk ev)" by blast
  show "\<exists>e. tget ns_key (p_key pk) (st_entries (move_entry (ns_id src) pk ev s)) = Some e \<and> ns_id e = ns_id src"
    using R [of "p_key pk"] by (simp add: m f_def)
  show "tombs_ok s \<Longrightarrow> tombs_ok (move_entry (ns_id src) pk ev s)"
    by (auto simp: tombs_ok_def m in_tmod f_def split: if_splits)
qed

text \<open>A rename moves the project and leaves a tombstone: when the source is live and the target
  is free (or deleted before the rename), the row goes to the new path with its id, content and
  the rename's coordinate, the old path is deleted at the rename's HLC so that a stale add cannot
  bring it back, and no other path changes.\<close>

theorem rename_moves_project:
  assumes "entries_ok w s" and "ids_sound w" and "tombs_ok s" and "nfc_stable w"
    and "Clean w old = Inr po" and "Clean w new = Inr pn" and "p_key po \<noteq> p_key pn"
    and "tget ns_key (p_key po) (st_entries s) = Some src" and "ns_status src = projectionStatusActive"
    and "store_view s (p_key pn) \<in> insert VNone (VDead ` {..< ev_hlc ev})"
    and "ev_hlc ev \<noteq> 0" and "ev_device ev \<noteq> []" and "ev_id ev \<noteq> []"
  shows "\<exists>s'. RenameProject w old new ev s = Inr (RenameApplied, s') \<and> entries_ok w s' \<and> tombs_ok s' \<and>
     store_view s' = (store_view s)(p_key po := VDead (ev_hlc ev),
                        p_key pn := renamed_view (store_view s (p_key po)) pn ev) \<and>
     (\<exists>e. tget ns_key (p_key pn) (st_entries s') = Some e \<and> ns_id e = ns_id src)"
proof -
  define s1 where "s1 = (case tget ns_key (p_key pn) (st_entries s) of
      None \<Rightarrow> s | Some tgt \<Rightarrow> delete_entry (ns_id tgt) s)"
  have s1: "entries_ok w s1 \<and> tombs_ok s1 \<and> tget ns_key (p_key pn) (st_entries s1) = None \<and>
      tget ns_key (p_key po) (st_entries s1) = Some src \<and> store_view s1 = (store_view s)(p_key pn := VNone)"
  proof (cases "tget ns_key (p_key pn) (st_entries s)")
    case None
    then show ?thesis using assms(1,3,8) by (simp add: s1_def fun_eq_iff store_view_def)
  next
    case (Some tgt)
    then show ?thesis
      using assms(3,7,8) delete_entry_parts [OF assms(1) Some] by (simp add: s1_def fun_eq_iff)
  qed
  define s2 where "s2 = move_entry (ns_id src) pn ev s1"
  have M: "entries_ok w s2" "tombs_ok s2"
    "store_view s2 = (store_view s1)(p_key po := VNone, p_key pn := renamed_view (store_view s1 (p_key po)) pn ev)"
    "\<exists>e. tget ns_key (p_key pn) (st_entries s2) = Some e \<and> ns_id e = ns_id src"
    using move_entry_parts [of w s1 "p_key po" src pn ev] s1 assms(9,11-13) by (simp_all add: s2_def)
  have cd: "Clean w (p_display po) = Inr po" by (rule Clean_display [OF assms(4,5)])
  define s3 where "s3 = tombstonePath w po (ev_hlc ev) s2"
  obtain s3': "TombstoneProject w (p_display po) (ev_hlc ev) s2 = Inr s3" "entries_ok w s3"
    "store_view s3 = (store_view s2)(p_key po := VDead (ev_hlc ev))" "tombs_ok s3"
    using tombstone_event_view [OF M(1) assms(2) cd, of "ev_hlc ev"] M(2)
    by (auto simp: TombstoneProject_def cd s3_def)
  have g3: "tget ns_key (p_key pn) (st_entries s3) = tget ns_key (p_key pn) (st_entries s2)"
    using tombstonePath_parts(2) [OF M(1) assms(2), where k = "p_key pn" and pk = po and h = "ev_hlc ev"] assms(7)
    by (simp add: s3_def)
  have "RenameProject w old new ev s = Inr (RenameApplied, s3)"
  proof (cases "tget ns_key (p_key pn) (st_entries s)")
    case None
    then show ?thesis
      using assms(5-9) s3'(1) by (simp add: RenameProject_def Let_def s1_def s2_def)
  next
    case (Some tgt)
    then have d: "ns_status tgt \<noteq> projectionStatusActive" "or_else (ns_tomb tgt) 0 < ev_hlc ev"
      using assms(10) by (auto simp: store_view_def entry_view_def Let_def split: if_splits)
    have "ns_id tgt \<noteq> ns_id src" using same_id_same_entry [OF assms(1) Some assms(8)] assms(7) by auto
    then show ?thesis
      using assms(5-9) s3'(1) Some d
      by (auto simp: RenameProject_def Let_def s1_def s2_def split: option.splits)
  qed
  moreover have "store_view s3 = (store_view s)(p_key po := VDead (ev_hlc ev),
      p_key pn := renamed_view (store_view s (p_key po)) pn ev)"
    using s3'(3) M(3) s1 assms(7) by (auto simp: fun_eq_iff)
  ultimately show ?thesis using s3'(2,4) M(4) g3 by auto
qed

abbreviation sample_store :: "entry list \<Rightarrow> store" where
  "sample_store es \<equiv> (empty_store ''ws'')\<lparr>st_entries := es\<rparr>"

definition sample_entry :: "string \<Rightarrow> string \<Rightarrow> entry" where
  "sample_entry i k = new_entry i \<lparr>p_display = k, p_key = k\<rparr> (tombstone_params \<lparr>p_display = k, p_key = k\<rparr>)"

lemma sample_entry_simps [simp]:
  "ns_id (sample_entry i k) = i" "ns_key (sample_entry i k) = k" "ns_status (sample_entry i k) = projectionStatusActive"
  by (simp_all add: sample_entry_def)

lemma sample_b: "Clean (plain_world 0) ''b'' = Inr \<lparr>p_display = ''b'', p_key = ''b''\<rparr>"
  by code_simp

theorem rename_moves_project_witness:
  "\<exists>s'. RenameProject (plain_world 0) ''app'' ''b'' (del_event ''e2'' ''d'' 6 ''app'')
        (sample_store [sample_entry ''p'' ''app'']) = Inr (RenameApplied, s') \<and> store_view s' ''app'' = VDead 6"
proof -
  let ?s = "sample_store [sample_entry ''p'' ''app'']"
  have ok: "entries_ok (plain_world 0) ?s"
    by (simp add: entries_ok_def uniq_def plain_world_def)
  have t: "tombs_ok ?s" by (simp add: tombs_ok_def)
  have v: "store_view ?s ''b'' = VNone" by (simp add: store_view_def)
  show ?thesis
    using rename_moves_project [OF ok plain_world_ids t plain_world_nfc_stable sample_app sample_b,
        of "sample_entry ''p'' ''app''" "del_event ''e2'' ''d'' 6 ''app''"]
    by (auto simp: v del_event_def sample_event_def)
qed

lemma upsertNamespace_worktrees [simp]: "upsertNamespaceTx w pk u s = (i, s') \<Longrightarrow> st_worktrees s' = st_worktrees s"
  by (auto simp: upsertNamespaceTx_def new_id_def Let_def split: if_splits prod.splits)

lemma worktrees_kept [simp]:
  "st_worktrees (tombstonePath w pk h s) = st_worktrees s"
  "st_worktrees (move_entry i pk ev s) = st_worktrees s"
  by (auto simp: tombstonePath_def move_entry_def split: prod.splits)

subsection \<open>What collecting tombstones may delete\<close>

lemma delete_entry_sel [simp]:
  "st_entries (delete_entry i s) = tdel (\<lambda>e. ns_id e = i) (st_entries s)"
  "st_worktrees (delete_entry i s) = tdel (\<lambda>t. wt_ns t = i) (st_worktrees s)"
  "st_checkouts (delete_entry i s) = tdel (\<lambda>t. ck_ns t = i) (st_checkouts s)"
  by (simp_all add: delete_entry_def)

lemma delete_entries:
  "st_entries (fold (\<lambda>e. delete_entry (ns_id e)) gone s) = filter (\<lambda>e. ns_id e \<notin> ns_id ` set gone) (st_entries s)"
  "st_worktrees (fold (\<lambda>e. delete_entry (ns_id e)) gone s) = filter (\<lambda>t. wt_ns t \<notin> ns_id ` set gone) (st_worktrees s)"
  "st_checkouts (fold (\<lambda>e. delete_entry (ns_id e)) gone s) = filter (\<lambda>t. ck_ns t \<notin> ns_id ` set gone) (st_checkouts s)"
  by (induction gone arbitrary: s) (auto simp: tdel_def intro!: filter_cong)

text \<open>Collecting tombstones removes exactly the entries that are deleted below the horizon and
  have no registered worktree; it never drops a worktree row (the rows the deletion would
  otherwise cascade to), a live entry, or the checkout of an entry it keeps, and it reports how
  many entries it removed.\<close>

theorem gc_keeps_worktrees:
  assumes "GCTombstones h s = (n, s')" and "entries_ok w s"
  shows "st_worktrees s' = st_worktrees s \<and>
     st_entries s' = filter (\<lambda>e. \<not> (purgeable h e \<and> ns_id e \<notin> wt_ns ` set (st_worktrees s))) (st_entries s) \<and>
     n = length (st_entries s) - length (st_entries s') \<and>
     (\<forall>e c. e \<in> set (st_entries s') \<and> c \<in> set (st_checkouts s) \<and> ck_ns c = ns_id e \<longrightarrow> c \<in> set (st_checkouts s'))"
proof -
  define P where "P e \<longleftrightarrow> purgeable h e \<and> ns_id e \<notin> wt_ns ` set (st_worktrees s)" for e
  define gone where "gone = filter P (st_entries s)"
  have s': "n = length gone" "s' = fold (\<lambda>e. delete_entry (ns_id e)) gone s"
    using assms(1) by (auto simp: GCTombstones_def gone_def P_def [abs_def] Let_def)
  have mem: "ns_id e \<in> ns_id ` set gone \<longleftrightarrow> P e" if "e \<in> set (st_entries s)" for e
    using that entries_okD(2) [OF assms(2)]
    by (auto simp: gone_def uniq_def distinct_map inj_on_def)
  have ent: "st_entries s' = filter (\<lambda>e. \<not> P e) (st_entries s)"
    unfolding s' delete_entries by (rule filter_cong) (simp_all add: mem)
  have wt: "st_worktrees s' = st_worktrees s"
    unfolding s' delete_entries by (rule filter_True) (auto simp: gone_def P_def intro: rev_image_eqI)
  have "c \<in> set (st_checkouts s')"
    if "e \<in> set (st_entries s')" "c \<in> set (st_checkouts s)" "ck_ns c = ns_id e" for e c
    using that ent mem [of e] unfolding s' delete_entries by auto
  moreover have "n = length (st_entries s) - length (st_entries s')"
    using sum_length_filter_compl [of P "st_entries s"] ent s'(1) by (simp add: gone_def)
  ultimately show ?thesis using ent wt by (auto simp: P_def)
qed

theorem gc_keeps_worktrees_witness:
  "\<exists>s'. GCTombstones 9 ((empty_store ''ws'')\<lparr>st_entries := [(new_entry ''p'' \<lparr>p_display = ''app'', p_key = ''app''\<rparr>
          (tombstone_params \<lparr>p_display = ''app'', p_key = ''app''\<rparr>))
        \<lparr>ns_status := projectionStatusDeleted, ns_tomb := Some 5\<rparr>]\<rparr>) = (1, s') \<and> st_entries s' = []"
proof -
  let ?s = "(empty_store ''ws'')\<lparr>st_entries := [(new_entry ''p'' \<lparr>p_display = ''app'', p_key = ''app''\<rparr>
          (tombstone_params \<lparr>p_display = ''app'', p_key = ''app''\<rparr>))
        \<lparr>ns_status := projectionStatusDeleted, ns_tomb := Some 5\<rparr>]\<rparr>"
  obtain n s' where g: "GCTombstones 9 ?s = (n, s')" by fastforce
  have "entries_ok (plain_world 0) ?s" by (simp add: entries_ok_def uniq_def plain_world_def)
  from gc_keeps_worktrees [OF g this] show ?thesis
    using g by (simp add: purgeable_def)
qed

text \<open>A rename onto a deleted path takes the worktrees registered under that path with it.
  \<^verbatim>\<open>RenameProject\<close> deletes the target's row, whose foreign keys cascade, without the check
  that keeps \<open>GCTombstones\<close> away from an entry with registered worktrees: every worktree row of the
  target is gone afterwards.\<close>

theorem rename_over_tombstone_drops_worktrees:
  assumes "entries_ok w s" and "Clean w old = Inr po" and "Clean w new = Inr pn" and "p_key po \<noteq> p_key pn"
    and "nfc_stable w"
    and "tget ns_key (p_key po) (st_entries s) = Some src" and "ns_status src = projectionStatusActive"
    and "tget ns_key (p_key pn) (st_entries s) = Some tgt" and "ns_status tgt = projectionStatusDeleted"
    and "or_else (ns_tomb tgt) 0 < ev_hlc ev" and "t \<in> set (st_worktrees s)" and "wt_ns t = ns_id tgt"
  shows "\<exists>s'. RenameProject w old new ev s = Inr (RenameApplied, s') \<and>
      (\<forall>u \<in> set (st_worktrees s'). wt_ns u \<noteq> ns_id tgt)"
proof -
  define s2 where "s2 = tombstonePath w po (ev_hlc ev) (move_entry (ns_id src) pn ev (delete_entry (ns_id tgt) s))"
  have "Clean w (p_display po) = Inr po" by (rule Clean_display [OF assms(5,2)])
  moreover have "ns_id tgt \<noteq> ns_id src" using same_id_same_entry [OF assms(1,8,6)] assms(4) by auto
  ultimately have "RenameProject w old new ev s = Inr (RenameApplied, s2)"
    using assms(2-4,6-10)
    by (cases "ns_tomb tgt") (simp_all add: RenameProject_def Let_def s2_def TombstoneProject_def)
  moreover have "st_worktrees s2 = tdel (\<lambda>t. wt_ns t = ns_id tgt) (st_worktrees s)"
    by (simp add: s2_def)
  ultimately show ?thesis by (auto simp: tdel_def)
qed

theorem rename_over_tombstone_drops_worktrees_witness:
  "\<exists>s'. RenameProject (plain_world 0) ''app'' ''b'' (del_event ''e2'' ''d'' 6 ''app'')
        ((sample_store [sample_entry ''p'' ''app'',
            (sample_entry ''q'' ''b'')\<lparr>ns_status := projectionStatusDeleted, ns_tomb := Some 5\<rparr>])
          \<lparr>st_worktrees := [\<lparr>wt_id = ''w'', wt_ns = ''q'', wt_path = ''x''\<rparr>]\<rparr>) = Inr (RenameApplied, s') \<and>
     \<lparr>wt_id = ''w'', wt_ns = ''q'', wt_path = ''x''\<rparr> \<notin> set (st_worktrees s')"
proof -
  let ?s = "(sample_store [sample_entry ''p'' ''app'',
            (sample_entry ''q'' ''b'')\<lparr>ns_status := projectionStatusDeleted, ns_tomb := Some 5\<rparr>])
          \<lparr>st_worktrees := [\<lparr>wt_id = ''w'', wt_ns = ''q'', wt_path = ''x''\<rparr>]\<rparr>"
  have ok: "entries_ok (plain_world 0) ?s"
    by (simp add: entries_ok_def uniq_def plain_world_def)
  show ?thesis
    using rename_over_tombstone_drops_worktrees [OF ok sample_app sample_b _ plain_world_nfc_stable,
        of "sample_entry ''p'' ''app''" "(sample_entry ''q'' ''b'')\<lparr>ns_status := projectionStatusDeleted, ns_tomb := Some 5\<rparr>"
           "del_event ''e2'' ''d'' 6 ''app''" "\<lparr>wt_id = ''w'', wt_ns = ''q'', wt_path = ''x''\<rparr>"]
    by (fastforce simp: del_event_def sample_event_def)
qed

end
