(* ===== verification/Signing.thy ===== *)
theory Signing
  imports Events
begin

section \<open>Signatures\<close>

text \<open>
  \<^verbatim>\<open>Sign\<close> and \<^verbatim>\<open>Verify\<close> of \<^verbatim>\<open>src/internal/devicekeys/devicekeys.go\<close>: the text form of
  keys and signatures (prefix and standard base64 with padding), the domain-separated message, and
  the length checks around the Ed25519 primitive, which is a field of the world.
\<close>

subsection \<open>Base64\<close>

definition b64_char :: "nat \<Rightarrow> char" where
  "b64_char n = (if n < 26 then chr (n + 65) else if n < 52 then chr (n + 71)
     else if n < 62 then chr (n - 4) else if n = 62 then CHR ''+'' else CHR ''/'')"

definition b64_val :: "char \<Rightarrow> nat option" where
  "b64_val c = (let n = nat_of c in
     if 65 \<le> n \<and> n \<le> 90 then Some (n - 65) else if 97 \<le> n \<and> n \<le> 122 then Some (n - 71)
     else if 48 \<le> n \<and> n \<le> 57 then Some (n + 4) else if n = 43 then Some 62
     else if n = 47 then Some 63 else None)"

fun b64_enc :: "string \<Rightarrow> string" where
  "b64_enc [] = []"
| "b64_enc [a] = (let n = nat_of a * 65536 in
     [b64_char (n div 262144), b64_char (n div 4096 mod 64), CHR ''='', CHR ''=''])"
| "b64_enc [a, b] = (let n = nat_of a * 65536 + nat_of b * 256 in
     [b64_char (n div 262144), b64_char (n div 4096 mod 64), b64_char (n div 64 mod 64), CHR ''=''])"
| "b64_enc (a # b # c # s) = (let n = nat_of a * 65536 + nat_of b * 256 + nat_of c in
     [b64_char (n div 262144), b64_char (n div 4096 mod 64), b64_char (n div 64 mod 64), b64_char (n mod 64)]
       @ b64_enc s)"

text \<open>The decoder reads groups of four; only the last one may end in padding. Bits beyond the last
  byte are ignored, as \<^verbatim>\<open>StdEncoding\<close> (which is not strict) does.\<close>

fun b64_groups :: "string \<Rightarrow> string option" where
  "b64_groups [] = Some []"
| "b64_groups (p # q # r # s # rest) =
     (case (b64_val p, b64_val q) of
        (Some x, Some y) \<Rightarrow>
          if r = CHR ''='' then
            (if s = CHR ''='' \<and> rest = [] then Some [chr ((x * 64 + y) div 16)] else None)
          else (case b64_val r of
            None \<Rightarrow> None
          | Some z \<Rightarrow>
              if s = CHR ''='' then
                (if rest = [] then Some [chr ((x * 64 + y) div 16), chr ((x * 4096 + y * 64 + z) div 4 mod 256)]
                 else None)
              else (case b64_val s of
                None \<Rightarrow> None
              | Some v \<Rightarrow>
                  (let n = x * 262144 + y * 4096 + z * 64 + v in
                   map_option (\<lambda>t. chr (n div 65536) # chr (n div 256 mod 256) # chr (n mod 256) # t)
                     (b64_groups rest))))
      | _ \<Rightarrow> None)"
| "b64_groups _ = None"

definition b64_dec :: "string \<Rightarrow> string option" where
  "b64_dec s = b64_groups (filter (\<lambda>c. nat_of c \<noteq> 10 \<and> nat_of c \<noteq> 13) s)"

subsection \<open>Keys and signatures\<close>

definition ed_prefix :: string where "ed_prefix = ''ed25519:''"

definition parsePrefixedBytes :: "world \<Rightarrow> string \<Rightarrow> nat \<Rightarrow> string \<Rightarrow> string res" where
  "parsePrefixedBytes w value wantLen name =
     (let t = trim_space value in
      if \<not> prefixb ed_prefix t then fail KOther (name @ '' must use ed25519: prefix'')
      else case b64_dec (drop (length ed_prefix) t) of
        None \<Rightarrow> fail KOther (''decode '' @ name @ '': '' @ w_decode_err w (drop (length ed_prefix) t))
      | Some decoded \<Rightarrow>
          if length decoded \<noteq> wantLen
          then fail KOther (name @ '' length = '' @ show_nat (length decoded) @ '', want '' @ show_nat wantLen)
          else Inr decoded)"

definition parsePublicSigningKey :: "world \<Rightarrow> string \<Rightarrow> string res" where
  "parsePublicSigningKey w value = parsePrefixedBytes w value 32 ''public signing key''"

definition parsePrivateSigningKey :: "world \<Rightarrow> string \<Rightarrow> string res" where
  "parsePrivateSigningKey w value = parsePrefixedBytes w value 64 ''private signing key''"

definition domainSeparatedMessage :: "string \<Rightarrow> string \<Rightarrow> string" where
  "domainSeparatedMessage domain message = domain @ [chr 0] @ message"

definition Sign :: "world \<Rightarrow> string \<Rightarrow> string \<Rightarrow> string \<Rightarrow> string res" where
  "Sign w privateKey domain message =
     bindr (parsePrivateSigningKey w privateKey) (\<lambda>key.
       Inr (ed_prefix @ b64_enc (w_sign w key (domainSeparatedMessage domain message))))"

definition Verify :: "world \<Rightarrow> string \<Rightarrow> string \<Rightarrow> string \<Rightarrow> string \<Rightarrow> unit res" where
  "Verify w publicKey signature domain message =
     bindr (parsePublicSigningKey w publicKey) (\<lambda>pub.
       bindr (parsePrefixedBytes w signature 64 ''signature'') (\<lambda>sig.
         if w_verify w pub (domainSeparatedMessage domain message) sig then Inr ()
         else fail KOther ''ed25519 signature verification failed''))"

subsection \<open>What is encoded decodes\<close>

lemma nat_of_b64_char:
  "n < 64 \<Longrightarrow> nat_of (b64_char n) = (if n < 26 then n + 65 else if n < 52 then n + 71
     else if n < 62 then n - 4 else if n = 62 then 43 else 47)"
  by (simp add: b64_char_def)

lemma b64_val_char: "n < 64 \<Longrightarrow> b64_val (b64_char n) = Some n"
  by (auto simp: b64_val_def nat_of_b64_char Let_def)

lemma b64_char_graph:
  assumes "n < 64"
  shows "b64_char n \<noteq> CHR ''=''" "33 \<le> nat_of (b64_char n)" "nat_of (b64_char n) \<le> 126"
proof -
  show "33 \<le> nat_of (b64_char n)" "nat_of (b64_char n) \<le> 126"
    using assms by (auto simp: nat_of_b64_char)
  have "nat_of (b64_char n) \<noteq> nat_of CHR ''=''" using assms by (auto simp: nat_of_b64_char)
  then show "b64_char n \<noteq> CHR ''=''" by metis
qed

text \<open>A group of three bytes as a number below 2^24, and its four digits to the base 64.\<close>

definition group_of :: "nat \<Rightarrow> nat \<Rightarrow> nat \<Rightarrow> nat" where
  "group_of a b c = a * 65536 + b * 256 + c"

lemma group_bytes:
  assumes "b < 256" "c < 256"
  shows "group_of a b c div 65536 = a" "group_of a b c div 256 mod 256 = b" "group_of a b c mod 256 = c"
proof -
  have d: "group_of a b c div 256 = a * 256 + b"
    using assms by (simp add: group_of_def div_mult_self3 algebra_simps)
  show "group_of a b c mod 256 = c" using assms by (simp add: group_of_def mod_add_eq [symmetric])
  show "group_of a b c div 256 mod 256 = b" using assms by (simp add: d)
  have "group_of a b c div 65536 = (group_of a b c div 256) div 256" by (simp add: div_mult2_eq [symmetric])
  then show "group_of a b c div 65536 = a" using assms by (simp add: d)
qed

lemma group_less:
  assumes "a < 256" "b < 256" "c < 256"
  shows "group_of a b c div 262144 < 64"
  using assms by (intro less_mult_imp_div_less) (simp add: group_of_def)

lemma digits64:
  fixes n :: nat
  shows "n div 262144 * 64 + n div 4096 mod 64 = n div 4096"
    and "n div 262144 * 4096 + n div 4096 mod 64 * 64 + n div 64 mod 64 = n div 64"
    and "n div 262144 * 262144 + n div 4096 mod 64 * 4096 + n div 64 mod 64 * 64 + n mod 64 = n"
proof -
  have 1: "n div 4096 div 64 = n div 262144" "n div 64 div 64 = n div 4096"
    by (simp_all add: div_mult2_eq [symmetric])
  show a: "n div 262144 * 64 + n div 4096 mod 64 = n div 4096"
    using div_mult_mod_eq [of "n div 4096" 64] 1 by simp
  show b: "n div 262144 * 4096 + n div 4096 mod 64 * 64 + n div 64 mod 64 = n div 64"
    using div_mult_mod_eq [of "n div 64" 64] 1 a by simp
  show "n div 262144 * 262144 + n div 4096 mod 64 * 4096 + n div 64 mod 64 * 64 + n mod 64 = n"
  proof -
    have "(n div 262144 * 4096 + n div 4096 mod 64 * 64 + n div 64 mod 64) * 64 + n mod 64 = n"
      unfolding b by simp
    then show ?thesis by (simp add: algebra_simps)
  qed
qed

lemma group_tail:
  assumes "b < 256"
  shows "group_of a 0 0 div 4096 div 16 = a" "group_of a b 0 div 4096 div 16 = a"
    "group_of a b 0 div 64 div 4 mod 256 = b"
  using group_bytes [of 0 0 a] group_bytes [of b 0 a] assms by (simp_all add: div_mult2_eq [symmetric])

lemma b64_enc_simps:
  "b64_enc [a] = (let n = group_of (nat_of a) 0 0 in
     [b64_char (n div 262144), b64_char (n div 4096 mod 64), CHR ''='', CHR ''=''])"
  "b64_enc [a, b] = (let n = group_of (nat_of a) (nat_of b) 0 in
     [b64_char (n div 262144), b64_char (n div 4096 mod 64), b64_char (n div 64 mod 64), CHR ''=''])"
  "b64_enc (a # b # c # s) = (let n = group_of (nat_of a) (nat_of b) (nat_of c) in
     [b64_char (n div 262144), b64_char (n div 4096 mod 64), b64_char (n div 64 mod 64), b64_char (n mod 64)]
       @ b64_enc s)"
  by (simp_all add: group_of_def)

lemmas b64_enc_plain = b64_enc.simps(2-4)
declare b64_enc_plain [simp del]

lemma b64_groups_enc: "b64_groups (b64_enc s) = Some s"
proof (induction s rule: b64_enc.induct)
  case (2 a)
  show ?case
    by (simp add: b64_enc_simps Let_def b64_val_char b64_char_graph group_less nat_of_256 digits64 group_tail)
next
  case (3 a b)
  show ?case
    by (simp add: b64_enc_simps Let_def b64_val_char b64_char_graph group_less nat_of_256 digits64 group_tail)
next
  case (4 a b c s)
  have "b64_groups (b64_enc s) = Some s" using 4 by simp
  then show ?case
    by (simp add: b64_enc_simps Let_def b64_val_char b64_char_graph group_less nat_of_256 digits64 group_bytes
        del: char_of_mod_256)
qed simp

lemma b64_enc_graph: "c \<in> set (b64_enc s) \<Longrightarrow> 33 \<le> nat_of c \<and> nat_of c \<le> 126"
proof (induction s rule: b64_enc.induct)
  case (4 a b d s)
  then show ?case
    by (auto simp: b64_enc_simps Let_def b64_char_graph group_less nat_of_256)
qed (auto simp: b64_enc_simps Let_def b64_char_graph group_less nat_of_256)

lemma b64_dec_enc: "b64_dec (b64_enc s) = Some s"
proof -
  have "filter (\<lambda>c. nat_of c \<noteq> 10 \<and> nat_of c \<noteq> 13) (b64_enc s) = b64_enc s"
    by (rule filter_True) (use b64_enc_graph in force)
  then show ?thesis by (simp add: b64_dec_def b64_groups_enc)
qed

lemma space_len_graph: "33 \<le> nat_of c \<Longrightarrow> nat_of c \<le> 126 \<Longrightarrow> space_len (c # s) = 0"
  by (auto simp: space_len_def Let_def split: list.splits)

lemma trim_space_graph:
  assumes "\<And>c. c \<in> set s \<Longrightarrow> 33 \<le> nat_of c \<and> nat_of c \<le> 126"
  shows "trim_space s = s"
proof -
  have g: "space_len t = 0" if "set t \<subseteq> set s" for t
    using that by (cases t) (simp add: space_len_def, simp add: space_len_graph assms)
  have "space_len s = 0" by (rule g) simp
  moreover have "space_len_end (rev s) = 0"
    using g [of "rev (take 1 (rev s))"] g [of "rev (take 2 (rev s))"] g [of "rev (take 3 (rev s))"]
      set_take_subset [of _ "rev s"] by (simp add: space_len_end_def)
  ultimately show ?thesis by (simp add: trim_space_def trim_by_0)
qed

lemma parse_prefixed_enc:
  "length b = n \<Longrightarrow> parsePrefixedBytes w (ed_prefix @ b64_enc b) n name = Inr b"
proof -
  assume n: "length b = n"
  have "trim_space (ed_prefix @ b64_enc b) = ed_prefix @ b64_enc b"
    by (rule trim_space_graph) (auto simp: ed_prefix_def dest: b64_enc_graph)
  then show ?thesis using n by (simp add: parsePrefixedBytes_def b64_dec_enc)
qed

text \<open>The law of the Ed25519 primitive for a pair of keys: signatures have 64 bytes and a
  signature made with the private key verifies under the public key.\<close>

definition key_pair :: "world \<Rightarrow> string \<Rightarrow> string \<Rightarrow> bool" where
  "key_pair w pub priv \<longleftrightarrow> length pub = 32 \<and> length priv = 64 \<and>
     (\<forall>m. length (w_sign w priv m) = 64 \<and> w_verify w pub m (w_sign w priv m))"

definition key_text :: "string \<Rightarrow> string" where
  "key_text raw = ed_prefix @ b64_enc raw"

lemma Sign_key_pair:
  assumes "key_pair w pub priv"
  shows "Sign w (key_text priv) d m = Inr (key_text (w_sign w priv (domainSeparatedMessage d m)))"
  using assms by (simp add: Sign_def parsePrivateSigningKey_def key_text_def parse_prefixed_enc key_pair_def)

lemma Verify_key_pair:
  assumes "key_pair w pub priv"
  shows "Verify w (key_text pub) (key_text (w_sign w priv (domainSeparatedMessage d m))) d m = Inr ()"
  using assms by (simp add: Verify_def parsePublicSigningKey_def key_text_def parse_prefixed_enc key_pair_def)

lemma key_text_nonempty [simp]: "key_text s \<noteq> []"
  by (simp add: key_text_def ed_prefix_def)

text \<open>Signing and verifying agree: what \<^verbatim>\<open>Sign\<close> makes with a private key in its text form,
  \<^verbatim>\<open>Verify\<close> accepts under the matching public key, for the same domain and message; and the
  two signature domains of the event log never share a signed text, so a signature for one is a
  signature of a different message for the other.\<close>

theorem sign_verify_roundtrip:
  assumes "key_pair w pub priv"
  shows "\<exists>sig. Sign w (key_text priv) d m = Inr sig \<and> Verify w (key_text pub) sig d m = Inr () \<and>
     (\<forall>m'. domainSeparatedMessage ''devstrap:event:v1'' m \<noteq> domainSeparatedMessage ''devstrap:event:v2'' m')"
  using Sign_key_pair [OF assms] Verify_key_pair [OF assms]
  by (simp add: domainSeparatedMessage_def)

lemma plain_key_pair:
  assumes "length pub = 32" "length priv = 64" "drop 32 priv = pub"
  shows "key_pair (plain_world t) pub priv"
  using assms by (auto simp: key_pair_def plain_world_def min_def)

theorem sign_verify_roundtrip_witness:
  "\<exists>sig. Sign (plain_world 0) (key_text (replicate 64 CHR ''k'')) ''d'' ''m'' = Inr sig \<and>
     Verify (plain_world 0) (key_text (replicate 32 CHR ''k'')) sig ''d'' ''m'' = Inr ()"
  using sign_verify_roundtrip [OF plain_key_pair, of "replicate 32 CHR ''k''" "replicate 64 CHR ''k''" 0 "''d''" "''m''"]
  by auto

end
