(* ===== verification/Hlc.thy ===== *)
theory Hlc
  imports Prelude "HOL-Library.Word"
begin

unbundle bit_operations_syntax

section \<open>Hybrid logical clocks\<close>

text \<open>
  \<^verbatim>\<open>src/internal/sync/hlc.go\<close> and its copy in \<^verbatim>\<open>src/internal/state/store.go\<close>. An HLC packs
  a millisecond time and a 16-bit logical counter into one int64. The arithmetic is on \<open>int\<close>
  with \<open>wrap64\<close> written where Go's int64 can wrap: the left shift of \<open>pack\<close> and the
  additions. Shifts and masks are the library's bit operations on \<open>int\<close>, which are Go's
  arithmetic shift and two's-complement mask on every int64.
\<close>

definition hlcLogicalBits :: nat where "hlcLogicalBits = 16"
definition hlcLogicalMask :: int where "hlcLogicalMask = 65535"

definition pack :: "int \<Rightarrow> int \<Rightarrow> int" where
  "pack physical logical = wrap64 (push_bit hlcLogicalBits physical) OR logical"

definition unpack :: "int \<Rightarrow> int \<times> int" where
  "unpack v = (drop_bit hlcLogicalBits v, v AND hlcLogicalMask)"

fun maxInt64 :: "int list \<Rightarrow> int" where
  "maxInt64 (v # vs) = fold (\<lambda>value m. if value > m then value else m) vs v"
| "maxInt64 [] = 0"

text \<open>
  \<^verbatim>\<open>type HLC struct\<close>: the mutex is left out (each method is one atomic step), \<open>Now\<close> is
  the \<open>now\<close> argument of the methods (its UnixMilli), \<open>MaxSkew\<close> a duration in nanoseconds.
\<close>

record hlc_clock =
  hc_last :: int
  hc_max_skew :: int

definition hlc_send :: "int \<Rightarrow> hlc_clock \<Rightarrow> hlc_clock \<times> int" where
  "hlc_send now h =
     (let (lastPhysical, lastLogical) = unpack (hc_last h);
          l = (if now > lastPhysical then pack now 0
               else if lastLogical < hlcLogicalMask then pack lastPhysical (lastLogical + 1)
               else pack (lastPhysical + 1) 0)
      in (h\<lparr>hc_last := l\<rparr>, l))"

text \<open>\<^verbatim>\<open>Duration.Milliseconds\<close> truncates toward zero.\<close>

definition duration_ms :: "int \<Rightarrow> int" where
  "duration_ms d = (if d < 0 then - ((- d) div 1000000) else d div 1000000)"

definition defaultMaxSkew :: int where "defaultMaxSkew = 300000000000"

definition hlc_receive :: "int \<Rightarrow> int \<Rightarrow> hlc_clock \<Rightarrow> hlc_clock \<times> int res" where
  "hlc_receive now remote h =
     (let maxSkew = (if hc_max_skew h = 0 then defaultMaxSkew else hc_max_skew h);
          (remotePhysical, remoteLogical) = unpack remote
      in if wrap64 (remotePhysical - now) > duration_ms maxSkew
         then (h, fail KOther ''remote HLC is ahead of local clock, exceeds max skew'')
         else
           let (localPhysical, localLogical) = unpack (hc_last h);
               maxPhysical = maxInt64 [now, localPhysical, remotePhysical];
               logical =
                 (if maxPhysical = localPhysical \<and> maxPhysical = remotePhysical
                  then maxInt64 [localLogical, remoteLogical] + 1
                  else if maxPhysical = localPhysical then localLogical + 1
                  else if maxPhysical = remotePhysical then remoteLogical + 1
                  else 0);
               (maxPhysical', logical') =
                 (if logical > hlcLogicalMask then (wrap64 (maxPhysical + 1), 0)
                  else (maxPhysical, logical));
               l = pack maxPhysical' logical'
           in (h\<lparr>hc_last := l\<rparr>, Inr l))"

text \<open>The store's copies: \<^verbatim>\<open>packHLC\<close>, \<^verbatim>\<open>unpackHLC\<close>, \<^verbatim>\<open>advanceHLC\<close>, \<^verbatim>\<open>receiveHLC\<close>.\<close>

definition packHLC :: "int \<Rightarrow> int \<Rightarrow> int" where
  "packHLC physical logical = wrap64 (push_bit hlcLogicalBits physical) OR logical"

definition unpackHLC :: "int \<Rightarrow> int \<times> int" where
  "unpackHLC v = (drop_bit hlcLogicalBits v, v AND hlcLogicalMask)"

definition advanceHLC :: "int \<Rightarrow> int \<Rightarrow> int" where
  "advanceHLC lst now =
     (let (lastPhysical, lastLogical) = unpackHLC lst
      in if now > lastPhysical then packHLC now 0
         else if lastLogical < hlcLogicalMask then packHLC lastPhysical (lastLogical + 1)
         else packHLC (lastPhysical + 1) 0)"

definition receiveHLC :: "int \<Rightarrow> int \<Rightarrow> int \<Rightarrow> int" where
  "receiveHLC lst remote now =
     (let (lastPhysical, lastLogical) = unpackHLC lst;
          (remotePhysical, remoteLogical) = unpackHLC remote;
          m1 = (if lastPhysical > now then lastPhysical else now);
          maxPhysical = (if remotePhysical > m1 then remotePhysical else m1);
          logical =
            (if maxPhysical = lastPhysical \<and> maxPhysical = remotePhysical
             then (if lastLogical > remoteLogical then lastLogical + 1 else remoteLogical + 1)
             else if maxPhysical = lastPhysical then lastLogical + 1
             else if maxPhysical = remotePhysical then remoteLogical + 1
             else 0);
          (maxPhysical', logical') =
            (if logical > hlcLogicalMask then (wrap64 (maxPhysical + 1), 0)
             else (maxPhysical, logical))
      in packHLC maxPhysical' logical')"

definition HLCPhysicalTime :: "int \<Rightarrow> int" where
  "HLCPhysicalTime hlc = fst (unpackHLC hlc)"

definition HLCFromPhysicalTime :: "int \<Rightarrow> int" where
  "HLCFromPhysicalTime ms = packHLC ms 0"

subsection \<open>Arithmetic of the packing\<close>

definition phys_ok :: "int \<Rightarrow> bool" where
  "phys_ok p \<longleftrightarrow> - (2 ^ 47) \<le> p \<and> p < 2 ^ 47"

lemma mask_mod: "v AND hlcLogicalMask = v mod 65536"
proof -
  have "v AND hlcLogicalMask = take_bit 16 v"
    by (simp add: hlcLogicalMask_def take_bit_eq_mask mask_eq_exp_minus_1)
  then show ?thesis by (simp add: take_bit_eq_mod)
qed

lemma unpack_eq: "unpack v = (v div 65536, v mod 65536)"
  by (simp add: unpack_def mask_mod hlcLogicalBits_def drop_bit_eq_div)

lemma or_low_bits:
  fixes l p :: int
  assumes "0 \<le> l" "l < 65536"
  shows "push_bit 16 p OR l = p * 65536 + l"
proof -
  have l: "take_bit 16 l = l" using assms by (simp add: take_bit_eq_mod)
  have "push_bit 16 p OR l = push_bit 16 p + l"
  proof (rule disjunctive_add_eq_or [symmetric])
    show "push_bit 16 p AND l = 0"
      by (subst l [symmetric]) (auto intro!: bit_eqI simp: bit_simps)
  qed
  then show ?thesis by (simp add: push_bit_eq_mult)
qed

lemma pack_eq:
  assumes "phys_ok p" "0 \<le> l" "l < 65536"
  shows "pack p l = p * 65536 + l"
proof -
  have "int64 (push_bit 16 p)"
    using assms(1) by (simp add: int64_def phys_ok_def push_bit_eq_mult)
  then show ?thesis
    using or_low_bits [OF assms(2,3)] by (simp add: pack_def hlcLogicalBits_def)
qed

lemma packHLC_pack: "packHLC = pack"
  by (simp add: fun_eq_iff packHLC_def pack_def)

lemma unpackHLC_unpack: "unpackHLC = unpack"
  by (simp add: fun_eq_iff unpackHLC_def unpack_def)

lemma wrap64_succ [simp]: "phys_ok p \<Longrightarrow> wrap64 (p + 1) = p + 1"
  by (rule wrap64_id) (simp add: int64_def phys_ok_def)

lemma phys_ok_div: "int64 v \<Longrightarrow> phys_ok (v div 65536)"
  unfolding int64_def phys_ok_def by auto

subsection \<open>Monotonicity\<close>

lemma hlc_val_less:
  fixes p q l m :: int
  assumes "p < q \<or> (p = q \<and> l < m)" "l < 65536" "0 \<le> m" "0 \<le> l"
  shows "p * 65536 + l < q * 65536 + m"
  using assms by auto

lemma hlc_decompose: "(v::int) = (v div 65536) * 65536 + v mod 65536"
  by simp

lemma logical_range [simp]: "0 \<le> (v::int) mod 65536" "(v::int) mod 65536 < 65536" "(v::int) mod 65536 \<le> 65535"
proof -
  show "0 \<le> v mod 65536" "v mod 65536 < 65536" by simp_all
  then show "v mod 65536 \<le> 65535" by linarith
qed

lemma maxInt64_3: "maxInt64 [a, b, c] = max a (max b c)"
  by (simp add: max_def)

lemma maxInt64_2: "maxInt64 [a, b] = max a b"
  by (simp add: max_def)

lemma if_gt_max: "(if b > a then b else a) = max a (b::int)"
  by (simp add: max_def)

lemma if_gt_max_Suc: "(if a > b then a + 1 else b + 1) = max a b + (1::int)"
  by (simp add: max_def)

lemma sent_value:
  assumes now: "phys_ok now" and l: "phys_ok (lst div 65536 + 1)" "phys_ok (lst div 65536)"
  shows "advanceHLC lst now =
     (if now > lst div 65536 then now * 65536
      else if lst mod 65536 < 65535 then lst + 1
      else (lst div 65536 + 1) * 65536)"
proof -
  have "lst mod 65536 < 65535 \<Longrightarrow> pack (lst div 65536) (lst mod 65536 + 1) = lst + 1"
    using l(2) by (subst pack_eq) (auto intro: add_increasing2)
  then show ?thesis
    using now l
    by (auto simp: advanceHLC_def packHLC_pack unpackHLC_unpack unpack_eq hlcLogicalMask_def pack_eq)
qed

lemma advanceHLC_gt:
  assumes "phys_ok now" "phys_ok (lst div 65536 + 1)" "phys_ok (lst div 65536)"
  shows "advanceHLC lst now > lst"
proof -
  have "lst < now * 65536" if "lst div 65536 < now"
    using hlc_val_less [of "lst div 65536" now "lst mod 65536" 0] that by simp
  moreover have "lst < (lst div 65536 + 1) * 65536"
    using hlc_val_less [of "lst div 65536" "lst div 65536 + 1" "lst mod 65536" 0] by simp
  ultimately show ?thesis using sent_value [OF assms] by auto
qed

definition recv_logical :: "int \<Rightarrow> int \<Rightarrow> int \<Rightarrow> int" where
  "recv_logical m lst remote =
     (if m = lst div 65536 \<and> m = remote div 65536 then max (lst mod 65536) (remote mod 65536) + 1
      else if m = lst div 65536 then lst mod 65536 + 1
      else if m = remote div 65536 then remote mod 65536 + 1
      else 0)"

lemma recv_logical_range: "0 \<le> recv_logical m lst remote" "recv_logical m lst remote \<le> 65536"
  using logical_range [of lst] logical_range [of remote]
  unfolding recv_logical_def by (auto simp: max_def)

lemma received_value:
  assumes now: "phys_ok now"
    and l: "phys_ok (lst div 65536 + 1)" "phys_ok (lst div 65536)"
    and r: "phys_ok (remote div 65536 + 1)" "phys_ok (remote div 65536)"
    and n1: "phys_ok (now + 1)"
  shows "receiveHLC lst remote now =
     (let m = max now (max (lst div 65536) (remote div 65536))
      in m * 65536 + recv_logical m lst remote)"
proof -
  define m where "m = max now (max (lst div 65536) (remote div 65536))"
  define g where "g = recv_logical m lst remote"
  have m: "phys_ok m" "phys_ok (m + 1)"
    using assms by (auto simp: m_def max_def)
  have g: "0 \<le> g" "g \<le> 65536" by (simp_all add: g_def recv_logical_range)
  have lg: "(if m = lst div 65536 \<and> m = remote div 65536 then max (lst mod 65536) (remote mod 65536) + 1
      else if m = lst div 65536 then lst mod 65536 + 1
      else if m = remote div 65536 then remote mod 65536 + 1 else 0) = g"
    by (simp only: g_def recv_logical_def)
  have "receiveHLC lst remote now =
      (if g > 65535 then pack (m + 1) 0 else pack m g)"
    unfolding receiveHLC_def packHLC_pack unpackHLC_unpack unpack_eq hlcLogicalMask_def
      case_prod_conv Let_def if_gt_max if_gt_max_Suc max.assoc m_def [symmetric]
      lg
    using m by simp
  also have "\<dots> = m * 65536 + g"
    using m g by (auto simp: pack_eq)
  finally show ?thesis by (simp only: m_def g_def Let_def)
qed

lemma receiveHLC_gt:
  assumes "phys_ok now" "phys_ok (lst div 65536 + 1)" "phys_ok (lst div 65536)"
    "phys_ok (remote div 65536 + 1)" "phys_ok (remote div 65536)" "phys_ok (now + 1)"
  shows "receiveHLC lst remote now > lst \<and> receiveHLC lst remote now > remote \<and>
         receiveHLC lst remote now \<ge> now * 65536"
proof -
  define m where "m = max now (max (lst div 65536) (remote div 65536))"
  define g where "g = recv_logical m lst remote"
  have v: "receiveHLC lst remote now = m * 65536 + g"
    using received_value [OF assms] by (simp only: m_def g_def Let_def)
  have g: "0 \<le> g" by (simp add: g_def recv_logical_range)
  have "v < m * 65536 + g" if "v = lst \<or> v = remote" for v
  proof -
    have "v div 65536 < m \<or> (v div 65536 = m \<and> v mod 65536 < g)"
      using that by (auto simp: m_def g_def recv_logical_def max_def)
    then have "(v div 65536) * 65536 + v mod 65536 < m * 65536 + g"
      by (rule hlc_val_less) (simp_all add: g)
    then show ?thesis by simp
  qed
  moreover have "m \<ge> now" by (simp add: m_def)
  ultimately show ?thesis using v g by auto
qed

text \<open>\<^verbatim>\<open>sync.HLC\<close> and the store compute the same values: the store's copy has no skew check
  (its caller has rejected skewed events before) and is otherwise the same function.\<close>

lemma hlc_send_eq:
  "hlc_send now h = (h\<lparr>hc_last := advanceHLC (hc_last h) now\<rparr>, advanceHLC (hc_last h) now)"
  by (simp add: hlc_send_def advanceHLC_def packHLC_pack unpackHLC_unpack Let_def split: prod.splits)

text \<open>The receive is admitted when the remote stamp is not beyond the trusted skew.\<close>

definition skew_ok :: "int \<Rightarrow> int \<Rightarrow> hlc_clock \<Rightarrow> bool" where
  "skew_ok now remote h \<longleftrightarrow>
     \<not> wrap64 (fst (unpack remote) - now)
         > duration_ms (if hc_max_skew h = 0 then defaultMaxSkew else hc_max_skew h)"

lemma hlc_receive_eq:
  "hlc_receive now remote h =
     (if skew_ok now remote h
      then (h\<lparr>hc_last := receiveHLC (hc_last h) remote now\<rparr>, Inr (receiveHLC (hc_last h) remote now))
      else (h, fail KOther ''remote HLC is ahead of local clock, exceeds max skew''))"
proof (cases "skew_ok now remote h")
  case True
  show ?thesis
    unfolding hlc_receive_def receiveHLC_def packHLC_pack unpackHLC_unpack unpack_eq
      case_prod_conv Let_def if_gt_max if_gt_max_Suc max.assoc maxInt64_3 maxInt64_2
    using True by (simp only: skew_ok_def unpack_eq fst_conv if_False if_True simp_thms case_prod_beta)
next
  case False
  then have "wrap64 (remote div 65536 - now)
      > duration_ms (if hc_max_skew h = 0 then defaultMaxSkew else hc_max_skew h)"
    by (simp only: skew_ok_def unpack_eq fst_conv not_not)
  then show ?thesis
    using False by (simp only: hlc_receive_def Let_def unpack_eq case_prod_conv if_True if_False)
qed

lemma unpack_pack:
  assumes "phys_ok p" "0 \<le> l" "l < 65536"
  shows "unpack (pack p l) = (p, l)"
proof -
  have "(p * 65536 + l) div 65536 = p" "(p * 65536 + l) mod 65536 = l"
    using assms(2,3) by auto
  then show ?thesis by (simp add: pack_eq [OF assms] unpack_eq)
qed

lemma pack_unpack:
  assumes "int64 v"
  shows "pack (fst (unpack v)) (snd (unpack v)) = v"
  using assms by (simp add: unpack_eq pack_eq phys_ok_div)

subsection \<open>The clock interface\<close>

text \<open>
  What every user of a hybrid clock relies on: a local stamp exceeds everything the clock has seen,
  and receiving a remote stamp moves the clock past it. \<open>good now c\<close> and \<open>sane now r c\<close> are the
  ranges in which the arithmetic does not wrap and the receive is admitted.
\<close>

datatype clock_op = Tick int | Recv int int

fun clock_apply :: "(int \<Rightarrow> 'c \<Rightarrow> 'c) \<Rightarrow> (int \<Rightarrow> int \<Rightarrow> 'c \<Rightarrow> 'c) \<Rightarrow> clock_op \<Rightarrow> 'c \<Rightarrow> 'c" where
  "clock_apply tick recv (Tick now) c = tick now c"
| "clock_apply tick recv (Recv now r) c = recv now r c"

fun clock_in_range :: "(int \<Rightarrow> 'c \<Rightarrow> bool) \<Rightarrow> (int \<Rightarrow> int \<Rightarrow> 'c \<Rightarrow> bool) \<Rightarrow> clock_op \<Rightarrow> 'c \<Rightarrow> bool" where
  "clock_in_range good sane (Tick now) c = good now c"
| "clock_in_range good sane (Recv now r) c = (good now c \<and> sane now r c)"

fun clock_trace :: "(int \<Rightarrow> 'c \<Rightarrow> 'c) \<Rightarrow> (int \<Rightarrow> int \<Rightarrow> 'c \<Rightarrow> 'c) \<Rightarrow> clock_op list \<Rightarrow> 'c \<Rightarrow> 'c list" where
  "clock_trace tick recv [] c = []"
| "clock_trace tick recv (x # xs) c =
     (let d = clock_apply tick recv x c in d # clock_trace tick recv xs d)"

fun trace_in_range ::
  "(int \<Rightarrow> 'c \<Rightarrow> 'c) \<Rightarrow> (int \<Rightarrow> int \<Rightarrow> 'c \<Rightarrow> 'c) \<Rightarrow> (int \<Rightarrow> 'c \<Rightarrow> bool) \<Rightarrow> (int \<Rightarrow> int \<Rightarrow> 'c \<Rightarrow> bool) \<Rightarrow>
   clock_op list \<Rightarrow> 'c \<Rightarrow> bool" where
  "trace_in_range tick recv good sane [] c = True"
| "trace_in_range tick recv good sane (x # xs) c =
     (clock_in_range good sane x c \<and>
      trace_in_range tick recv good sane xs (clock_apply tick recv x c))"

fun received :: "clock_op \<Rightarrow> int option" where
  "received (Tick now) = None"
| "received (Recv now r) = Some r"

locale causal_clock =
  fixes val :: "'c \<Rightarrow> int"
    and tick :: "int \<Rightarrow> 'c \<Rightarrow> 'c"
    and recv :: "int \<Rightarrow> int \<Rightarrow> 'c \<Rightarrow> 'c"
    and good :: "int \<Rightarrow> 'c \<Rightarrow> bool"
    and sane :: "int \<Rightarrow> int \<Rightarrow> 'c \<Rightarrow> bool"
  assumes tick_gt: "good now c \<Longrightarrow> val c < val (tick now c)"
    and recv_gt: "good now c \<Longrightarrow> sane now r c \<Longrightarrow> val c < val (recv now r c)"
    and recv_remote: "good now c \<Longrightarrow> sane now r c \<Longrightarrow> r < val (recv now r c)"
begin

abbreviation "trace \<equiv> clock_trace tick recv"
abbreviation "in_range \<equiv> trace_in_range tick recv good sane"

lemma apply_gt: "clock_in_range good sane x c \<Longrightarrow> val c < val (clock_apply tick recv x c)"
  by (cases x) (auto intro: tick_gt recv_gt)

lemma trace_above: "in_range xs c \<Longrightarrow> d \<in> set (trace xs c) \<Longrightarrow> val c < val d"
proof (induction xs arbitrary: c)
  case (Cons x xs)
  have s: "val c < val (clock_apply tick recv x c)" using Cons.prems(1) by (simp add: apply_gt)
  show ?case
  proof (cases "d = clock_apply tick recv x c")
    case False
    then have "d \<in> set (trace xs (clock_apply tick recv x c))" using Cons.prems(2) by (simp add: Let_def)
    then show ?thesis using Cons.IH Cons.prems(1) s by fastforce
  qed (use s in simp)
qed simp

theorem trace_strictly_increasing: "in_range xs c \<Longrightarrow> sorted_wrt (<) (map val (trace xs c))"
  by (induction xs arbitrary: c) (auto simp: Let_def trace_above)

theorem after_receive:
  assumes "in_range (xs @ Recv now r # ys) c"
    and "d \<in> set (drop (length xs) (trace (xs @ Recv now r # ys) c))"
  shows "r < val d"
  using assms
proof (induction xs arbitrary: c)
  case Nil
  have "r < val (recv now r c)" using Nil.prems(1) by (auto intro: recv_remote)
  moreover have "d = recv now r c \<or> val (recv now r c) < val d"
    using Nil.prems trace_above [of ys "recv now r c" d] by (auto simp: Let_def)
  ultimately show ?case by auto
qed (auto simp: Let_def)

end

text \<open>Both clocks of the program provide it, as long as no stamp reaches the last millisecond
  the packing can hold (\<open>2\<^sup>4\<^sup>7\<close> ms, some 4400 years after 1970).\<close>

definition hlc_room :: "int \<Rightarrow> bool" where
  "hlc_room v \<longleftrightarrow> phys_ok (v div 65536) \<and> phys_ok (v div 65536 + 1)"

definition now_room :: "int \<Rightarrow> bool" where
  "now_room now \<longleftrightarrow> phys_ok now \<and> phys_ok (now + 1)"

interpretation store_clock: causal_clock "\<lambda>c. c" "\<lambda>now c. advanceHLC c now" "\<lambda>now r c. receiveHLC c r now"
  "\<lambda>now c. now_room now \<and> hlc_room c" "\<lambda>now r c. hlc_room r"
  by unfold_locales (auto simp: now_room_def hlc_room_def receiveHLC_gt advanceHLC_gt)

definition hlc_send_step :: "int \<Rightarrow> hlc_clock \<Rightarrow> hlc_clock" where
  "hlc_send_step now h = fst (hlc_send now h)"

definition hlc_receive_step :: "int \<Rightarrow> int \<Rightarrow> hlc_clock \<Rightarrow> hlc_clock" where
  "hlc_receive_step now r h = fst (hlc_receive now r h)"

interpretation sync_clock: causal_clock hc_last hlc_send_step hlc_receive_step
  "\<lambda>now h. now_room now \<and> hlc_room (hc_last h)" "\<lambda>now r h. hlc_room r \<and> skew_ok now r h"
  by unfold_locales
    (auto simp: now_room_def hlc_room_def hlc_send_step_def hlc_receive_step_def hlc_send_eq
      hlc_receive_eq receiveHLC_gt advanceHLC_gt)


text \<open>C35: the device's clock is causal: over any history of local stamps and received remote
  HLCs (inside the range of the packing) the stamps strictly increase, and every stamp after a
  receive exceeds the received HLC, so that an event always sorts after the events its author had
  seen.\<close>

theorem store_clock_causal:
  assumes "trace_in_range (\<lambda>now c. advanceHLC c now) (\<lambda>now r c. receiveHLC c r now)
      (\<lambda>now c. now_room now \<and> hlc_room c) (\<lambda>now r c. hlc_room r) (xs @ Recv now r # ys) c"
    and "tr = clock_trace (\<lambda>now c. advanceHLC c now) (\<lambda>now r c. receiveHLC c r now) (xs @ Recv now r # ys) c"
  shows "sorted_wrt (<) tr \<and> (\<forall>d \<in> set (drop (length xs) tr). r < d)"
  using store_clock.trace_strictly_increasing [OF assms(1)] store_clock.after_receive [OF assms(1)]
  by (simp add: assms(2))

theorem store_clock_causal_witness:
  "sorted_wrt (<) [65536 * 5, 65536 * 5 + 1, 65536 * 9 + 3, 65536 * 9 + 4 :: int] \<and>
   65536 * 9 + 2 < (65536 * 9 + 3 :: int) \<and> 65536 * 9 + 2 < (65536 * 9 + 4 :: int)"
proof -
  have t: "[65536 * 5, 65536 * 5 + 1, 65536 * 9 + 3, 65536 * 9 + 4 :: int] =
     clock_trace (\<lambda>now c. advanceHLC c now) (\<lambda>now r c. receiveHLC c r now)
       ([Tick 5, Tick 5] @ Recv 5 (65536 * 9 + 2) # [Tick 6]) 0"
    by code_simp
  have i: "trace_in_range (\<lambda>now c. advanceHLC c now) (\<lambda>now r c. receiveHLC c r now)
      (\<lambda>now c. now_room now \<and> hlc_room c) (\<lambda>now r c. hlc_room r)
      ([Tick 5, Tick 5] @ Recv 5 (65536 * 9 + 2) # [Tick 6]) 0"
    by code_simp
  show ?thesis using store_clock_causal [OF i t] by simp
qed

text \<open>The two hybrid clocks of the program are the same clock: \<^verbatim>\<open>HLC.Send\<close> returns what
  the store's \<^verbatim>\<open>advanceHLC\<close> computes, and \<^verbatim>\<open>HLC.Receive\<close> returns what the store's
  \<^verbatim>\<open>receiveHLC\<close> computes when the remote stamp is within the skew, and otherwise leaves the
  clock unchanged and fails.\<close>

theorem sync_clock_is_store_clock:
  "hlc_send now h = (h\<lparr>hc_last := advanceHLC (hc_last h) now\<rparr>, advanceHLC (hc_last h) now) \<and>
   hlc_receive now remote h =
     (if skew_ok now remote h
      then (h\<lparr>hc_last := receiveHLC (hc_last h) remote now\<rparr>, Inr (receiveHLC (hc_last h) remote now))
      else (h, fail KOther ''remote HLC is ahead of local clock, exceeds max skew''))"
  by (rule conjI [OF hlc_send_eq hlc_receive_eq])

text \<open>Packing loses nothing: every int64 is the packing of its two parts, and the parts of a
  packed pair are the pair, for every millisecond the 48-bit field can hold.\<close>

theorem pack_unpack_roundtrip:
  assumes "int64 v" and "phys_ok p" and "0 \<le> l" and "l < 65536"
  shows "pack (fst (unpack v)) (snd (unpack v)) = v \<and> unpack (pack p l) = (p, l)"
  using pack_unpack [OF assms(1)] unpack_pack [OF assms(2-4)] by simp

theorem pack_unpack_roundtrip_witness:
  "pack (fst (unpack (- 5))) (snd (unpack (- 5))) = - 5 \<and> unpack (pack 1704067200000 65535) = (1704067200000, 65535)"
  by (rule pack_unpack_roundtrip) (simp_all add: int64_def phys_ok_def)

end
