(* ===== verification/Event_Log.thy ===== *)
theory Event_Log
  imports Device_Trust Signing Hlc
begin

section \<open>The event log\<close>

text \<open>
  The \<^verbatim>\<open>events\<close> table of \<^verbatim>\<open>src/internal/state/store.go\<close>: content hashes, the signed
  payloads, the trust decision of \<^verbatim>\<open>verifyEventSignature\<close>, the per-device hash chain with its
  snapshot anchors, idempotent insertion, and the stamping, chaining and signing of local events.
  A \<open>seq\<close> of 0 and an empty signature or previous hash are SQL's NULL, as \<^verbatim>\<open>nullZero\<close> and
  \<^verbatim>\<open>nullEmpty\<close> make them.
\<close>

definition ContentHash :: "world \<Rightarrow> string \<Rightarrow> string" where
  "ContentHash w payloadJSON = ''sha256:'' @ hex_enc (w_sha w payloadJSON)"

definition normalizeEvent :: "world \<Rightarrow> event \<Rightarrow> event" where
  "normalizeEvent w e =
     (let e1 = (if ev_created e = [] then e\<lparr>ev_created := w_stamp w\<rparr> else e)
      in if ev_content_hash e1 = [] then e1\<lparr>ev_content_hash := ContentHash w (ev_payload e1)\<rparr> else e1)"

definition sameImmutableEvent :: "event \<Rightarrow> event \<Rightarrow> bool" where
  "sameImmutableEvent a b \<longleftrightarrow> ev_workspace a = ev_workspace b \<and> ev_device a = ev_device b \<and>
     ev_seq a = ev_seq b \<and> ev_hlc a = ev_hlc b \<and> ev_type a = ev_type b \<and> ev_payload a = ev_payload b \<and>
     ev_content_hash a = ev_content_hash b \<and> ev_sig a = ev_sig b \<and> ev_prev_hash a = ev_prev_hash b"

definition mustVerifyEvent :: "string \<Rightarrow> bool" where
  "mustVerifyEvent t \<longleftrightarrow> t \<in> {''project.deleted'', ''project.renamed'', ''env.profile.updated'',
     ''device.revoked'', ''device.lost''}"

definition isTimeScopedContentEvent :: "string \<Rightarrow> bool" where
  "isTimeScopedContentEvent t \<longleftrightarrow> t \<in> {''project.added'', ''project.updated'', ''project.deleted'',
     ''project.renamed'', ''env.profile.updated'', ''draft.snapshot.created''}"

definition eventSignatureDomain :: string where "eventSignatureDomain = ''devstrap:event:v1''"
definition eventSignatureDomainV2 :: string where "eventSignatureDomainV2 = ''devstrap:event:v2''"

definition EventSignaturePayload :: "event \<Rightarrow> string" where
  "EventSignaturePayload e = marshal_obj
     [jstr ''content_hash'' (ev_content_hash e), jint ''hlc'' (ev_hlc e), jstr ''id'' (ev_id e),
      jstr ''payload_json'' (ev_payload e), jstr ''prev_event_hash'' (ev_prev_hash e), jstr ''type'' (ev_type e)]"

definition EventSignaturePayloadV2 :: "event \<Rightarrow> string" where
  "EventSignaturePayloadV2 e = marshal_obj
     [jstr ''content_hash'' (ev_content_hash e), jstr ''device_id'' (ev_device e), jint ''hlc'' (ev_hlc e),
      jstr ''id'' (ev_id e), jstr ''payload_json'' (ev_payload e), jstr ''prev_event_hash'' (ev_prev_hash e),
      jint ''seq'' (ev_seq e), jstr ''type'' (ev_type e)]"

subsection \<open>Who may say what\<close>

definition verification_text :: string where "verification_text = '': event verification failed''"

definition requires :: "event \<Rightarrow> string \<Rightarrow> 'a res" where
  "requires e what = fail KVerification (''event '' @ ev_id e @ '' of type '' @ ev_type e @
     '' requires a '' @ what @ verification_text)"

text \<open>The value of \<^verbatim>\<open>approvedAtEmit\<close>: approved now, or within the window before the
  device's revocation boundary for the six content types.\<close>

definition approvedAtEmit :: "device \<Rightarrow> event \<Rightarrow> bool" where
  "approvedAtEmit d e \<longleftrightarrow> dv_trust d = trust_approved \<or>
     isTimeScopedContentEvent (ev_type e) \<and> (dv_trust d = trust_revoked \<or> dv_trust d = trust_lost) \<and>
     (case dv_revoked d of None \<Rightarrow> False | Some b \<Rightarrow> b > 0 \<and> ev_hlc e < b)"

definition verifySignature :: "world \<Rightarrow> string \<Rightarrow> event \<Rightarrow> unit res" where
  "verifySignature w key e =
     (case Verify w key (ev_sig e) eventSignatureDomainV2 (EventSignaturePayloadV2 e) of
        Inr _ \<Rightarrow> Inr ()
      | Inl er \<Rightarrow>
          (case Verify w key (ev_sig e) eventSignatureDomain (EventSignaturePayload e) of
             Inr _ \<Rightarrow> Inr ()
           | Inl _ \<Rightarrow> Inl (Err (err_kinds er @ [KVerification])
               (''event '' @ ev_id e @ '' device signature invalid: '' @ err_msg er @ verification_text))))"

definition verifyEventSignature :: "world \<Rightarrow> store \<Rightarrow> event \<Rightarrow> unit res" where
  "verifyEventSignature w s e =
     (let enrolled = hasEnrolledDevices s; must = mustVerifyEvent (ev_type e) in
      case tget dv_id (ev_device e) (st_devices s) of
        None \<Rightarrow>
          if must \<or> enrolled then requires e ''signature from a known approved device'' else Inr ()
      | Some d \<Rightarrow>
          let isLocal = (dv_trust d = trust_local) in
          if dv_sig_pub d = [] then
            (if \<not> isLocal \<and> (must \<or> enrolled)
             then requires e ''signature from a device with a signing key'' else Inr ())
          else if ev_sig e = [] then
            (if must then requires e ''device signature''
             else fail KVerification (''event '' @ ev_id e @ '' missing device signature'' @ verification_text))
          else if \<not> isLocal \<and> \<not> approvedAtEmit d e \<and> (must \<or> enrolled)
          then requires e (''signature from an approved device (current: '' @ dv_trust d @ '')'')
          else verifySignature w (dv_sig_pub d) e)"

definition contentHashMismatch :: "world \<Rightarrow> event \<Rightarrow> 'a res" where
  "contentHashMismatch w e = fail KVerification (''event '' @ ev_id e @ '' content hash mismatch: got '' @
     ev_content_hash e @ '' want '' @ ContentHash w (ev_payload e) @ verification_text)"

definition VerifyRemoteEvent :: "world \<Rightarrow> store \<Rightarrow> event \<Rightarrow> unit res" where
  "VerifyRemoteEvent w s e =
     (if ev_content_hash e \<noteq> ContentHash w (ev_payload e) then contentHashMismatch w e
      else verifyEventSignature w s e)"

subsection \<open>The hash chain\<close>

text \<open>\<^verbatim>\<open>ORDER BY hlc DESC, id DESC LIMIT 1\<close>\<close>

fun latest_event :: "event list \<Rightarrow> event option" where
  "latest_event [] = None"
| "latest_event (e # es) = (case latest_event es of
      None \<Rightarrow> Some e
    | Some f \<Rightarrow> if ev_hlc f > ev_hlc e \<or> ev_hlc f = ev_hlc e \<and> ev_id f > ev_id e then Some f else Some e)"

definition previousEventContentHash :: "store \<Rightarrow> event \<Rightarrow> string option" where
  "previousEventContentHash s e =
     (if ev_seq e > 1 then
        (case find (\<lambda>x. ev_workspace x = ev_workspace e \<and> ev_device x = ev_device e \<and> ev_seq x = ev_seq e - 1)
            (st_events s) of
           Some x \<Rightarrow> Some (ev_content_hash x)
         | None \<Rightarrow> map_option an_hash
             (find (\<lambda>a. an_dev a = ev_device e \<and> an_seq a = ev_seq e - 1) (st_anchors s)))
      else if ev_seq e = 1 then None
      else map_option ev_content_hash (latest_event (filter
         (\<lambda>x. ev_workspace x = ev_workspace e \<and> ev_device x = ev_device e \<and>
              (ev_hlc x < ev_hlc e \<or> ev_hlc x = ev_hlc e \<and> ev_id x < ev_id e)) (st_events s))))"

definition chainBreak :: "string \<Rightarrow> 'a res" where
  "chainBreak m = fail KHashChain (''event prev_event_hash chain break: '' @ m)"

definition validatePrevEventHash :: "store \<Rightarrow> event \<Rightarrow> unit res" where
  "validatePrevEventHash s e =
     (if ev_prev_hash e = [] then Inr ()
      else case previousEventContentHash s e of
        None \<Rightarrow> chainBreak (''event '' @ ev_id e @ '' references '' @ ev_prev_hash e @
           '' but no previous event exists for device '' @ ev_device e)
      | Some h \<Rightarrow>
          if h \<noteq> ev_prev_hash e
          then chainBreak (''event '' @ ev_id e @ '' prev_event_hash mismatch: got '' @ ev_prev_hash e @ '' want '' @ h)
          else Inr ())"

definition UpsertChainAnchor :: "anchor \<Rightarrow> store \<Rightarrow> store" where
  "UpsertChainAnchor a s = s\<lparr>st_anchors :=
     tput an_dev a (\<lambda>x. if an_seq a > an_seq x then a\<lparr>an_dev := an_dev x\<rparr> else x) (st_anchors s)\<rparr>"

subsection \<open>Insertion\<close>

definition divergent :: "string \<Rightarrow> 'a res" where
  "divergent m = fail KDivergent (''event id already exists with different immutable content: '' @ m)"

text \<open>\<^verbatim>\<open>INSERT OR IGNORE INTO events\<close> and what follows when the row was ignored: the primary key
  is the id, \<^verbatim>\<open>idx_events_device_seq\<close> makes (device, seq) unique where seq is not NULL, and the
  device and workspace columns are foreign keys.\<close>

definition seq_taken :: "event \<Rightarrow> event \<Rightarrow> bool" where
  "seq_taken e x \<longleftrightarrow> ev_device x = ev_device e \<and> ev_seq x = ev_seq e"

definition storeEvent :: "event \<Rightarrow> store \<Rightarrow> (bool \<times> store) res" where
  "storeEvent e s =
     (if tget ev_id (ev_id e) (st_events s) = None \<and> (ev_seq e = 0 \<or> \<not> list_ex (seq_taken e) (st_events s)) then
        (if tget dv_id (ev_device e) (st_devices s) = None \<or> ev_workspace e \<noteq> st_workspace s
         then fail KOther ''insert event: FOREIGN KEY constraint failed''
         else Inr (True, s\<lparr>st_events := st_events s @ [e]\<rparr>))
      else case tget ev_id (ev_id e) (st_events s) of
        Some x \<Rightarrow> if sameImmutableEvent x e then Inr (False, s) else divergent (ev_id e)
      | None \<Rightarrow>
          (case (if ev_seq e > 0 then find (seq_taken e) (st_events s) else None) of
             Some x \<Rightarrow> divergent (''event '' @ ev_id e @ '' claims seq '' @ show_int (ev_seq e) @
                '' already held by '' @ ev_id x @ '' for device '' @ ev_device e)
           | None \<Rightarrow> fail KNotFound (''read existing event '' @ ev_id e @ '': sql: no rows in result set'')))"

definition fill_event :: "world \<Rightarrow> event \<Rightarrow> store \<Rightarrow> event \<times> store" where
  "fill_event w e s =
     (let (e1, s1) = (if ev_id e = [] then (let (i, s1) = new_id w ''evt'' s in (e\<lparr>ev_id := i\<rparr>, s1)) else (e, s));
          e2 = (if ev_workspace e1 = [] then e1\<lparr>ev_workspace := st_workspace s\<rparr> else e1);
          e3 = (if ev_created e2 = [] then e2\<lparr>ev_created := w_stamp w\<rparr> else e2);
          e4 = (if ev_content_hash e3 = [] then e3\<lparr>ev_content_hash := ContentHash w (ev_payload e3)\<rparr> else e3)
      in (e4, s1))"

definition insertEvent :: "world \<Rightarrow> event \<Rightarrow> store \<Rightarrow> (bool \<times> store) res" where
  "insertEvent w e0 s0 =
     (let (e, s) = fill_event w e0 s0 in
      if ev_content_hash e \<noteq> ContentHash w (ev_payload e) then contentHashMismatch w e
      else bindr (verifyEventSignature w s e) (\<lambda>_.
             bindr (validatePrevEventHash s e) (\<lambda>_. storeEvent e s)))"

definition InsertEvent :: "world \<Rightarrow> event \<Rightarrow> store \<Rightarrow> (bool \<times> store) res" where
  "InsertEvent w e s = insertEvent w (normalizeEvent w e) s"

subsection \<open>Local events\<close>

definition sql_max :: "int list \<Rightarrow> int" where
  "sql_max xs = (case xs of [] \<Rightarrow> 0 | x # r \<Rightarrow> fold max r x)"

text \<open>The clock row of a device, seeded from its events when there is none.\<close>

definition clock_of :: "string \<Rightarrow> store \<Rightarrow> int \<times> int" where
  "clock_of dev s =
     (let (h, n) = (case tget cl_dev dev (st_clocks s) of
           Some r \<Rightarrow> (cl_hlc r, cl_seq r)
         | None \<Rightarrow>
             (let es = filter (\<lambda>e. ev_device e = dev) (st_events s)
              in (sql_max (map ev_hlc es), sql_max (filter (\<lambda>q. q \<noteq> 0) (map ev_seq es)) + 1)))
      in (h, if n < 1 then 1 else n))"

definition nextLocalEventStamp :: "world \<Rightarrow> string \<Rightarrow> store \<Rightarrow> (int \<times> int) \<times> store" where
  "nextLocalEventStamp w dev s =
     (let (lastHLC, nextSeq) = clock_of dev s; hlc = advanceHLC lastHLC (w_now w);
          seq' = wrap64 (nextSeq + 1)
      in ((hlc, nextSeq), s\<lparr>st_clocks := tput cl_dev \<lparr>cl_dev = dev, cl_hlc = hlc, cl_seq = seq'\<rparr>
             (\<lambda>r. r\<lparr>cl_hlc := hlc, cl_seq := seq'\<rparr>) (st_clocks s)\<rparr>))"

definition ReceiveRemoteHLC :: "world \<Rightarrow> int \<Rightarrow> store \<Rightarrow> store res" where
  "ReceiveRemoteHLC w remoteHLC s =
     bindr (currentDevice s) (\<lambda>d.
       let (lastHLC, nextSeq) = clock_of (dv_id d) s; updated = receiveHLC lastHLC remoteHLC (w_now w)
       in if updated \<le> lastHLC then Inr s
          else Inr (s\<lparr>st_clocks := tput cl_dev \<lparr>cl_dev = dv_id d, cl_hlc = updated, cl_seq = nextSeq\<rparr>
                 (\<lambda>r. r\<lparr>cl_hlc := updated\<rparr>) (st_clocks s)\<rparr>))"

definition deviceSigningPublicKey :: "string \<Rightarrow> store \<Rightarrow> string" where
  "deviceSigningPublicKey dev s = (case tget dv_id dev (st_devices s) of Some d \<Rightarrow> dv_sig_pub d | None \<Rightarrow> [])"

definition setDeviceSigningPublicKey :: "string \<Rightarrow> string \<Rightarrow> store \<Rightarrow> store res" where
  "setDeviceSigningPublicKey dev key s =
     (if list_ex (\<lambda>d. dv_id d = dev \<and> (dv_sig_pub d = [] \<or> dv_sig_pub d = key)) (st_devices s)
      then Inr (s\<lparr>st_devices := tmod (\<lambda>d. dv_id d = dev \<and> (dv_sig_pub d = [] \<or> dv_sig_pub d = key))
                   (\<lambda>d. d\<lparr>dv_sig_pub := key\<rparr>) (st_devices s)\<rparr>)
      else fail KOther ''device signing public key mismatch'')"

text \<open>\<open>keys\<close> is \<^verbatim>\<open>HybridStore.EnsureSigning\<close>: for a device and the public key it has published,
  the private and public key its custody holds or mints, or the refusal.\<close>

type_synonym key_store = "string \<Rightarrow> string \<Rightarrow> (string \<times> string) res"

definition ensureLocalEventSignature :: "world \<Rightarrow> key_store \<Rightarrow> event \<Rightarrow> store \<Rightarrow> (event \<times> store) res" where
  "ensureLocalEventSignature w keys e s =
     (if ev_sig e \<noteq> [] then Inr (e, s)
      else bindr (keys (ev_device e) (deviceSigningPublicKey (ev_device e) s)) (\<lambda>(private, public).
             bindr (setDeviceSigningPublicKey (ev_device e) public s) (\<lambda>s1.
               bindr (Sign w private eventSignatureDomainV2 (EventSignaturePayloadV2 e)) (\<lambda>sig.
                 Inr (e\<lparr>ev_sig := sig\<rparr>, s1)))))"

definition stamp_event :: "world \<Rightarrow> string \<Rightarrow> event \<Rightarrow> store \<Rightarrow> event \<times> store" where
  "stamp_event w dev e s =
     (let ((hlc, seq), s1) = nextLocalEventStamp w dev s;
          e1 = e\<lparr>ev_device := dev, ev_workspace := st_workspace s, ev_hlc := hlc, ev_seq := seq\<rparr>;
          e2 = (if ev_prev_hash e1 = [] then
                  (case previousEventContentHash s1 e1 of None \<Rightarrow> e1 | Some h \<Rightarrow> e1\<lparr>ev_prev_hash := h\<rparr>)
                else e1)
      in (e2, s1))"

definition InsertLocalEventTx :: "world \<Rightarrow> key_store \<Rightarrow> event \<Rightarrow> store \<Rightarrow> (event \<times> store) res" where
  "InsertLocalEventTx w keys e s =
     (let (e1, s1) = (if ev_id e = [] then (let (i, s1) = new_id w ''evt'' s in (e\<lparr>ev_id := i\<rparr>, s1)) else (e, s));
          e2 = normalizeEvent w e1
      in bindr (currentDevice s1) (\<lambda>d.
           let (e3, s2) = stamp_event w (dv_id d) e2 s1 in
           bindr (ensureLocalEventSignature w keys e3 s2) (\<lambda>(e4, s3).
             bindr (InsertEvent w e4 s3) (\<lambda>(inserted, s4).
               if inserted then Inr (e4, s4) else divergent (ev_id e4)))))"

definition InsertLocalEvent :: "world \<Rightarrow> key_store \<Rightarrow> event \<Rightarrow> store \<Rightarrow> event res \<times> store" where
  "InsertLocalEvent w keys e s = with_tx s (InsertLocalEventTx w keys e)"

subsection \<open>Reads of the log\<close>

definition PendingEvents :: "store \<Rightarrow> event list" where
  "PendingEvents s = sort_key ev_hlc (sort_key ev_device (sort_key ev_id (st_events s)))"

definition LocalPendingEvents :: "int \<Rightarrow> store \<Rightarrow> event list res" where
  "LocalPendingEvents afterHLC s = bindr (currentDevice s) (\<lambda>d.
     Inr (sort_key ev_hlc (sort_key ev_id
       (filter (\<lambda>e. ev_device e = dv_id d \<and> ev_hlc e > afterHLC) (st_events s)))))"

definition LocalPendingEventsBySeq :: "int \<Rightarrow> store \<Rightarrow> event list res" where
  "LocalPendingEventsBySeq afterSeq s = bindr (currentDevice s) (\<lambda>d.
     Inr (sort_key ev_seq (filter (\<lambda>e. ev_device e = dv_id d \<and> ev_seq e \<noteq> 0 \<and> ev_seq e > afterSeq) (st_events s))))"

definition EventByID :: "string \<Rightarrow> store \<Rightarrow> event res" where
  "EventByID i s = (case tget ev_id i (st_events s) of Some e \<Rightarrow> Inr e | None \<Rightarrow> fail KOther (''unknown event '' @ i))"


subsection \<open>Verification fails closed\<close>

lemma requires_neq [simp]: "requires e x \<noteq> Inr ()" "Inr () \<noteq> requires e x"
  by (simp_all add: requires_def)

lemma contentHashMismatch_neq [simp]: "contentHashMismatch w e \<noteq> Inr x" "Inr x \<noteq> contentHashMismatch w e"
  by (simp_all add: contentHashMismatch_def)

lemma divergent_neq [simp]: "divergent m \<noteq> Inr x" "Inr x \<noteq> divergent m"
  by (simp_all add: divergent_def)

lemma chainBreak_neq [simp]: "chainBreak m \<noteq> Inr x" "Inr x \<noteq> chainBreak m"
  by (simp_all add: chainBreak_def)

text \<open>C8: verification fails closed: once any device has been enrolled, and always for the
  destructive and trust-affecting event types, an event is accepted exactly when its device is
  known and either is the local device before it has a signing key, or has a signing key under
  which the event's signature verifies and is local or was approved when the event was emitted.\<close>

theorem verification_fails_closed:
  assumes "hasEnrolledDevices s \<or> mustVerifyEvent (ev_type e)"
  shows "VerifyRemoteEvent w s e = Inr () \<longleftrightarrow>
     ev_content_hash e = ContentHash w (ev_payload e) \<and>
     (\<exists>d. tget dv_id (ev_device e) (st_devices s) = Some d \<and>
       (dv_sig_pub d = [] \<and> dv_trust d = trust_local \<or>
        dv_sig_pub d \<noteq> [] \<and> ev_sig e \<noteq> [] \<and> (dv_trust d = trust_local \<or> approvedAtEmit d e) \<and>
        verifySignature w (dv_sig_pub d) e = Inr ()))"
  using assms
  by (auto simp: VerifyRemoteEvent_def verifyEventSignature_def Let_def split: option.splits if_splits)

abbreviation sample_device :: "string \<Rightarrow> string \<Rightarrow> string \<Rightarrow> int option \<Rightarrow> device" where
  "sample_device i trust key b \<equiv> (placeholder i ''n'')\<lparr>dv_trust := trust, dv_sig_pub := key, dv_revoked := b\<rparr>"

abbreviation device_store :: "device list \<Rightarrow> store" where
  "device_store ds \<equiv> (empty_store ''ws'')\<lparr>st_devices := ds\<rparr>"

lemma sample_device_simps [simp]: "dv_id (placeholder i n) = i" "dv_trust (placeholder i n) = trust_pending"
   "dv_sig_pub (placeholder i n) = []"
  by (simp_all add: placeholder_def)

theorem verification_fails_closed_witness:
  "VerifyRemoteEvent (plain_world 0) (device_store [sample_device ''d'' trust_approved ''k'' None])
     (event_zero\<lparr>ev_type := EventProjectAdded, ev_device := ''x'', ev_content_hash := ContentHash (plain_world 0) []\<rparr>)
   \<noteq> Inr ()"
  by (subst verification_fails_closed) (simp_all add: hasEnrolledDevices_def tcount_def event_zero_def trust_defs)

lemma hasEnrolled_member:
  "tget dv_id i (st_devices s) = Some d \<Longrightarrow> dv_trust d \<in> {trust_approved, trust_revoked, trust_lost} \<Longrightarrow>
   hasEnrolledDevices s"
  by (auto simp: hasEnrolledDevices_def tcount_def filter_empty_conv dest!: tget_SomeD)

text \<open>C13: a revoked or lost device cannot speak past its boundary: the only events of it that a
  receiver admits are the six content types, signed, with an HLC strictly below a recorded
  positive revocation boundary. Trust events, key grants, conflict events and every other type are
  refused, and so is everything when the boundary is unknown.\<close>

theorem revoked_device_bounded:
  assumes "tget dv_id (ev_device e) (st_devices s) = Some d"
    and "dv_trust d = trust_revoked \<or> dv_trust d = trust_lost"
    and "VerifyRemoteEvent w s e = Inr ()"
  shows "isTimeScopedContentEvent (ev_type e) \<and>
     ev_type e \<notin> {EventDeviceRevoked, EventDeviceLost, EventDeviceKeyGranted, EventConflictResolved} \<and>
     (\<exists>b. dv_revoked d = Some b \<and> 0 < b \<and> ev_hlc e < b) \<and>
     verifySignature w (dv_sig_pub d) e = Inr ()"
proof -
  have "hasEnrolledDevices s" using hasEnrolled_member [OF assms(1)] assms(2) by blast
  then have v: "dv_sig_pub d = [] \<and> dv_trust d = trust_local \<or>
      (dv_trust d = trust_local \<or> approvedAtEmit d e) \<and> verifySignature w (dv_sig_pub d) e = Inr ()"
    using assms(1,3) verification_fails_closed [of s e w] by auto
  have nl: "dv_trust d \<noteq> trust_local" "dv_trust d \<noteq> trust_approved" using assms(2) by (auto simp: trust_defs)
  then have a: "approvedAtEmit d e" "verifySignature w (dv_sig_pub d) e = Inr ()" using v by auto
  from a(1) nl(2) have ts: "isTimeScopedContentEvent (ev_type e)"
    and b: "\<exists>b. dv_revoked d = Some b \<and> 0 < b \<and> ev_hlc e < b"
    by (auto simp: approvedAtEmit_def split: option.splits)
  moreover have "ev_type e \<notin> {EventDeviceRevoked, EventDeviceLost, EventDeviceKeyGranted, EventConflictResolved}"
    using ts by (auto simp: isTimeScopedContentEvent_def event_type_defs)
  ultimately show ?thesis using a(2) by blast
qed

lemma verifySignature_signed:
  assumes "key_pair w pub priv"
    and "ev_sig e = key_text (w_sign w priv (domainSeparatedMessage eventSignatureDomainV2 (EventSignaturePayloadV2 e)))"
  shows "verifySignature w (key_text pub) e = Inr ()"
  using assms by (simp add: verifySignature_def Verify_key_pair)

definition signed_by :: "world \<Rightarrow> string \<Rightarrow> event \<Rightarrow> event" where
  "signed_by w priv e = e\<lparr>ev_sig := key_text (w_sign w priv
     (domainSeparatedMessage eventSignatureDomainV2 (EventSignaturePayloadV2 e)))\<rparr>"

lemma signed_by_simps [simp]:
  "ev_id (signed_by w p e) = ev_id e" "ev_device (signed_by w p e) = ev_device e" "ev_seq (signed_by w p e) = ev_seq e"
  "ev_hlc (signed_by w p e) = ev_hlc e" "ev_type (signed_by w p e) = ev_type e"
  "ev_payload (signed_by w p e) = ev_payload e" "ev_content_hash (signed_by w p e) = ev_content_hash e"
  "ev_workspace (signed_by w p e) = ev_workspace e" "ev_prev_hash (signed_by w p e) = ev_prev_hash e"
  "ev_created (signed_by w p e) = ev_created e" "ev_sig (signed_by w p e) \<noteq> []"
  by (simp_all add: signed_by_def)

lemma payload_signed [simp]: "EventSignaturePayloadV2 (e\<lparr>ev_sig := x\<rparr>) = EventSignaturePayloadV2 e"
  by (simp add: EventSignaturePayloadV2_def)

lemma verify_signed_by:
  "key_pair w pub priv \<Longrightarrow> verifySignature w (key_text pub) (signed_by w priv e) = Inr ()"
  by (rule verifySignature_signed) (simp_all add: signed_by_def)

text \<open>A revoked device with the boundary 9, and an event of it at 4.\<close>

definition sample_signed :: "string \<Rightarrow> int \<Rightarrow> event" where
  "sample_signed t h = signed_by (plain_world 0) (replicate 64 CHR ''k'')
     (event_zero\<lparr>ev_id := ''e'', ev_type := t, ev_device := ''d'', ev_hlc := h,
        ev_content_hash := ContentHash (plain_world 0) []\<rparr>)"

lemma sample_signed_verifies: "verifySignature (plain_world 0) (key_text (replicate 32 CHR ''k'')) (sample_signed t h) = Inr ()"
  unfolding sample_signed_def by (rule verify_signed_by [OF plain_key_pair]) simp_all

lemma sample_signed_simps [simp]:
  "ev_device (sample_signed t h) = ''d''" "ev_hlc (sample_signed t h) = h" "ev_type (sample_signed t h) = t"
  "ev_content_hash (sample_signed t h) = ContentHash (plain_world 0) []" "ev_payload (sample_signed t h) = []"
  "ev_sig (sample_signed t h) \<noteq> []"
  by (simp_all add: sample_signed_def event_zero_def)

theorem revoked_device_bounded_witness:
  "VerifyRemoteEvent (plain_world 0)
     (device_store [sample_device ''d'' trust_revoked (key_text (replicate 32 CHR ''k'')) (Some 9)])
     (sample_signed EventProjectAdded 4) = Inr () \<and> (4::int) < 9"
proof -
  let ?d = "sample_device ''d'' trust_revoked (key_text (replicate 32 CHR ''k'')) (Some 9)"
  have v: "VerifyRemoteEvent (plain_world 0) (device_store [?d]) (sample_signed EventProjectAdded 4) = Inr ()"
    by (subst verification_fails_closed)
      (simp_all add: hasEnrolledDevices_def tcount_def approvedAtEmit_def isTimeScopedContentEvent_def
         event_type_defs sample_signed_verifies [unfolded event_type_defs])
  show ?thesis
    using v revoked_device_bounded [of "sample_signed EventProjectAdded 4" "device_store [?d]" ?d "plain_world 0"] by simp
qed

text \<open>Applying a revocation does not change the verdict on what the device said before it:
  whichever of a content event and its device's revocation a receiver sees first, it decides the
  same.\<close>

theorem revocation_keeps_past_content:
  assumes "ApplyRemoteDeviceTrustTx (ev_device e) trust h s = Inr (changed, s')"
    and "tget dv_id (ev_device e) (st_devices s) = Some d" and "dv_trust d = trust_approved"
    and "dv_revoked d = None" and "isTimeScopedContentEvent (ev_type e)" and "0 < h" and "ev_hlc e < h"
    and "currentDevice s = Inr me" and "dv_id me \<noteq> ev_device e"
  shows "verifyEventSignature w s' e = verifyEventSignature w s e \<and> changed"
proof -
  have t: "trust \<in> {trust_revoked, trust_lost}"
    using assms(1) by (auto simp: ApplyRemoteDeviceTrustTx_def split: if_splits)
  have nl: "trust \<noteq> trust_local" "trust \<noteq> trust_approved" "trust_approved \<noteq> trust_local" "dv_trust d \<noteq> trust_local"
    using t assms(3) by (auto simp: trust_defs)
  have s': "s' = recordDeviceRevocationHLC (ev_device e) h
      (s\<lparr>st_devices := tmod (flippable (ev_device e)) (\<lambda>d. d\<lparr>dv_trust := trust\<rparr>) (st_devices s)\<rparr>)"
    and c: "changed = list_ex (flippable (ev_device e)) (st_devices s)"
    using assms(1,8,9) by (auto simp: ApplyRemoteDeviceTrustTx_def Let_def split: if_splits)
  have fl: "flippable (ev_device e) d" "d \<in> set (st_devices s)"
    using assms(2,3) by (auto simp: flippable_def dest: tget_SomeD)
  have g: "tget dv_id (ev_device e) (st_devices s') = Some (d\<lparr>dv_trust := trust, dv_revoked := Some h\<rparr>)"
    using assms(2,4,6) fl nl by (auto simp: s' recordDeviceRevocationHLC_def tget_tmod dest: tget_SomeD)
  have en: "hasEnrolledDevices s" "hasEnrolledDevices s'"
    using hasEnrolled_member [OF assms(2)] hasEnrolled_member [OF g] assms(3) t by auto
  have ap: "approvedAtEmit d e" "approvedAtEmit (d\<lparr>dv_trust := trust, dv_revoked := Some h\<rparr>) e"
    using assms(3,5-7) t by (auto simp: approvedAtEmit_def)
  have "verifyEventSignature w s' e = verifyEventSignature w s e"
    unfolding verifyEventSignature_def Let_def g assms(2) option.case using nl en ap by simp
  moreover have changed using c fl by (auto simp: list_ex_iff)
  ultimately show ?thesis by simp
qed

theorem revocation_keeps_past_content_witness:
  "\<exists>s'. ApplyRemoteDeviceTrustTx ''d'' trust_revoked 9
        (device_store [sample_device ''me'' trust_local [] None, sample_device ''d'' trust_approved ''k'' None]) = Inr (True, s') \<and>
     verifyEventSignature (plain_world 0) s' (sample_signed EventProjectAdded 4) =
     verifyEventSignature (plain_world 0)
        (device_store [sample_device ''me'' trust_local [] None, sample_device ''d'' trust_approved ''k'' None])
        (sample_signed EventProjectAdded 4)"
proof -
  let ?s = "device_store [sample_device ''me'' trust_local [] None, sample_device ''d'' trust_approved ''k'' None]"
  have cd: "currentDevice ?s = Inr (sample_device ''me'' trust_local [] None)"
    by (simp add: currentDevice_def)
  obtain c s' where a: "ApplyRemoteDeviceTrustTx ''d'' trust_revoked 9 ?s = Inr (c, s')"
    by (simp add: ApplyRemoteDeviceTrustTx_def cd Let_def)
  show ?thesis
    using revocation_keeps_past_content [of "sample_signed EventProjectAdded 4" trust_revoked 9 ?s c s'
        "sample_device ''d'' trust_approved ''k'' None" "sample_device ''me'' trust_local [] None" "plain_world 0"] a cd
    by (simp add: isTimeScopedContentEvent_def event_type_defs)
qed


subsection \<open>The stored log\<close>

text \<open>The well-formed log: ids are unique, no device uses a sequence number twice, every stored
  event's content hash is the hash of its payload, it belongs to a known device and to the
  workspace, and its hash link is to the stored predecessor unless a snapshot anchor covers it.\<close>

definition linked :: "store \<Rightarrow> event \<Rightarrow> bool" where
  "linked s e \<longleftrightarrow> (ev_seq e > 1 \<and> ev_prev_hash e \<noteq> [] \<longrightarrow>
     (\<exists>x \<in> set (st_events s). ev_device x = ev_device e \<and> ev_seq x = ev_seq e - 1 \<and> ev_content_hash x = ev_prev_hash e) \<or>
     (\<exists>a \<in> set (st_anchors s). an_dev a = ev_device e \<and> an_seq a \<ge> ev_seq e - 1))"

definition event_ok :: "world \<Rightarrow> store \<Rightarrow> event \<Rightarrow> bool" where
  "event_ok w s e \<longleftrightarrow> ev_content_hash e = ContentHash w (ev_payload e) \<and> ev_workspace e = st_workspace s \<and>
     ev_device e \<in> dv_id ` set (st_devices s) \<and> linked s e"

definition log_ok :: "world \<Rightarrow> store \<Rightarrow> bool" where
  "log_ok w s \<longleftrightarrow> uniq ev_id (st_events s) \<and>
     uniq (\<lambda>e. (ev_device e, ev_seq e)) (filter (\<lambda>e. ev_seq e \<noteq> 0) (st_events s)) \<and>
     (\<forall>e \<in> set (st_events s). event_ok w s e)"

lemma log_okD:
  assumes "log_ok w s"
  shows "uniq ev_id (st_events s)" "e \<in> set (st_events s) \<Longrightarrow> event_ok w s e"
    "x \<in> set (st_events s) \<Longrightarrow> y \<in> set (st_events s) \<Longrightarrow> ev_device x = ev_device y \<Longrightarrow> ev_seq x = ev_seq y \<Longrightarrow>
       ev_seq x \<noteq> 0 \<Longrightarrow> x = y"
  using assms by (auto simp: log_ok_def uniq_def distinct_map inj_on_def)

lemma storeEvent_True:
  "storeEvent e s = Inr (True, s') \<longleftrightarrow>
     tget ev_id (ev_id e) (st_events s) = None \<and> (ev_seq e = 0 \<or> \<not> list_ex (seq_taken e) (st_events s)) \<and>
     tget dv_id (ev_device e) (st_devices s) \<noteq> None \<and> ev_workspace e = st_workspace s \<and>
     s' = s\<lparr>st_events := st_events s @ [e]\<rparr>"
  by (auto simp: storeEvent_def split: option.splits if_split_asm)

lemma storeEvent_False:
  "storeEvent e s = Inr (False, s') \<longleftrightarrow>
     s' = s \<and> (\<exists>x. tget ev_id (ev_id e) (st_events s) = Some x \<and> sameImmutableEvent x e)"
  by (auto simp: storeEvent_def split: option.splits if_split_asm)

lemma fill_event_frame:
  "fill_event w e0 s0 = (e, s) \<Longrightarrow> \<exists>n. s = s0\<lparr>st_fresh := n\<rparr>"
  by (auto simp: fill_event_def new_id_def Let_def split: if_splits intro: exI [of _ "st_fresh s0"])

lemma insertEvent_Inr:
  assumes "fill_event w e0 s0 = (e, s)"
  shows "insertEvent w e0 s0 = Inr (b, s') \<longleftrightarrow>
     VerifyRemoteEvent w s e = Inr () \<and> validatePrevEventHash s e = Inr () \<and> storeEvent e s = Inr (b, s')"
  by (auto simp: insertEvent_def assms VerifyRemoteEvent_def)

lemma validate_linked:
  assumes "validatePrevEventHash s e = Inr ()"
  shows "linked s e"
proof -
  have "\<exists>x \<in> set (st_events s). ev_device x = ev_device e \<and> ev_seq x = ev_seq e - 1 \<and> ev_content_hash x = ev_prev_hash e"
    if "find (\<lambda>x. ev_workspace x = ev_workspace e \<and> ev_device x = ev_device e \<and> ev_seq x = ev_seq e - 1) (st_events s) = Some x"
       "ev_content_hash x = ev_prev_hash e" for x
    using find_Some_set [OF that(1)] that(2) by blast
  moreover have "\<exists>a \<in> set (st_anchors s). an_dev a = ev_device e \<and> an_seq a \<ge> ev_seq e - 1"
    if "find (\<lambda>a. an_dev a = ev_device e \<and> an_seq a = ev_seq e - 1) (st_anchors s) = Some a" for a
    using find_Some_set [OF that] by force
  ultimately show ?thesis
    using assms by (auto simp: linked_def validatePrevEventHash_def previousEventContentHash_def split: option.splits if_splits)
qed

lemma linked_mono:
  "linked s e \<Longrightarrow> set (st_events s) \<subseteq> set (st_events s') \<Longrightarrow> st_anchors s' = st_anchors s \<Longrightarrow> linked s' e"
  by (auto simp: linked_def)

lemma log_ok_snoc:
  assumes "log_ok w s" "event_ok w s e" "tget ev_id (ev_id e) (st_events s) = None"
    and "ev_seq e = 0 \<or> \<not> list_ex (seq_taken e) (st_events s)"
  shows "log_ok w (s\<lparr>st_events := st_events s @ [e]\<rparr>)"
proof -
  let ?t = "s\<lparr>st_events := st_events s @ [e]\<rparr>"
  have "linked s x \<Longrightarrow> linked ?t x" for x by (rule linked_mono) auto
  then have "event_ok w s x \<Longrightarrow> event_ok w ?t x" for x by (simp add: event_ok_def)
  moreover have "uniq (\<lambda>e. (ev_device e, ev_seq e)) (filter (\<lambda>e. ev_seq e \<noteq> 0) (st_events ?t))"
    using assms(1,4) by (auto simp: log_ok_def uniq_snoc tget_None seq_taken_def list_ex_iff)
  ultimately show ?thesis using assms(1-3) by (auto simp: log_ok_def uniq_snoc)
qed

text \<open>C29: inserting into the log keeps it well-formed and is append-only: a new event (verified,
  correctly chained, with an unused id and sequence number) becomes the last row; an event already
  held with the same immutable content changes nothing; anything else is an error.\<close>

theorem insert_event_log:
  assumes "log_ok w s0" and "fill_event w e0 s0 = (e, s)"
    and "insertEvent w e0 s0 = Inr (inserted, s')"
  shows "log_ok w s' \<and> VerifyRemoteEvent w s e = Inr () \<and> linked s e \<and>
     (if inserted then s' = s\<lparr>st_events := st_events s0 @ [e]\<rparr> \<and>
          (\<forall>x \<in> set (st_events s0). ev_id x \<noteq> ev_id e \<and> (ev_device x = ev_device e \<and> ev_seq x = ev_seq e \<longrightarrow> ev_seq e = 0))
      else s' = s \<and> (\<exists>x \<in> set (st_events s0). ev_id x = ev_id e \<and> sameImmutableEvent x e))"
proof -
  obtain n where n: "s = s0\<lparr>st_fresh := n\<rparr>" using fill_event_frame [OF assms(2)] by blast
  have "linked s x = linked s0 x" for x by (simp add: linked_def n)
  then have ok: "log_ok w s" using assms(1) by (simp add: log_ok_def event_ok_def n)
  have i: "VerifyRemoteEvent w s e = Inr ()" "validatePrevEventHash s e = Inr ()" "storeEvent e s = Inr (inserted, s')"
    using assms(3) insertEvent_Inr [OF assms(2)] by auto
  have l: "linked s e" by (rule validate_linked [OF i(2)])
  show ?thesis
  proof (cases inserted)
    case True
    then have st: "tget ev_id (ev_id e) (st_events s) = None" "ev_seq e = 0 \<or> \<not> list_ex (seq_taken e) (st_events s)"
      "tget dv_id (ev_device e) (st_devices s) \<noteq> None" "ev_workspace e = st_workspace s"
      "s' = s\<lparr>st_events := st_events s @ [e]\<rparr>"
      using i(3) by (simp_all add: storeEvent_True)
    have "event_ok w s e"
      using st(3,4) l i(1) by (auto simp: event_ok_def VerifyRemoteEvent_def tget_None split: if_splits)
    from log_ok_snoc [OF ok this st(1,2)] show ?thesis
      using True st(1,2) i(1) l
      by (auto simp: st(5) n tget_None seq_taken_def list_ex_iff image_iff)
  next
    case False
    then have "s' = s" "\<exists>x. tget ev_id (ev_id e) (st_events s) = Some x \<and> sameImmutableEvent x e"
      using i(3) storeEvent_False [of e s s'] by auto
    then show ?thesis using False ok i(1) l n by (auto dest!: tget_SomeD)
  qed
qed

definition sample_local :: store where
  "sample_local = device_store [sample_device ''d'' trust_local [] None]"

definition sample_plain_event :: event where
  "sample_plain_event = event_zero\<lparr>ev_id := ''e'', ev_device := ''d'', ev_seq := 1, ev_hlc := 7, ev_type := ''x''\<rparr>"

lemma sample_insert:
  "fill_event (plain_world 0) sample_plain_event sample_local =
     (sample_plain_event\<lparr>ev_workspace := ''ws'', ev_created := ''t'', ev_content_hash := ''sha256:''\<rparr>, sample_local)"
  "insertEvent (plain_world 0) sample_plain_event sample_local = Inr (True, sample_local\<lparr>st_events :=
     [sample_plain_event\<lparr>ev_workspace := ''ws'', ev_created := ''t'', ev_content_hash := ''sha256:''\<rparr>]\<rparr>)"
proof -
  show 1: "fill_event (plain_world 0) sample_plain_event sample_local =
     (sample_plain_event\<lparr>ev_workspace := ''ws'', ev_created := ''t'', ev_content_hash := ''sha256:''\<rparr>, sample_local)"
    by (simp add: fill_event_def sample_plain_event_def sample_local_def event_zero_def ContentHash_def plain_world_def)
  show "insertEvent (plain_world 0) sample_plain_event sample_local = Inr (True, sample_local\<lparr>st_events :=
     [sample_plain_event\<lparr>ev_workspace := ''ws'', ev_created := ''t'', ev_content_hash := ''sha256:''\<rparr>]\<rparr>)"
    unfolding insertEvent_def 1
    by (simp add: sample_plain_event_def sample_local_def event_zero_def ContentHash_def plain_world_def
        verifyEventSignature_def validatePrevEventHash_def storeEvent_def Let_def)
qed

theorem insert_event_log_witness:
  "log_ok (plain_world 0) (sample_local\<lparr>st_events :=
     [sample_plain_event\<lparr>ev_workspace := ''ws'', ev_created := ''t'', ev_content_hash := ''sha256:''\<rparr>]\<rparr>)"
proof -
  have "log_ok (plain_world 0) sample_local" by (simp add: log_ok_def sample_local_def)
  from insert_event_log [OF this sample_insert] show ?thesis by (rule conjunct1)
qed

lemma find_snoc: "find P (xs @ [x]) = (case find P xs of None \<Rightarrow> find P [x] | y \<Rightarrow> y)"
  by (induction xs) auto

definition filled :: "event \<Rightarrow> bool" where
  "filled e \<longleftrightarrow> ev_id e \<noteq> [] \<and> ev_workspace e \<noteq> [] \<and> ev_created e \<noteq> [] \<and> ev_content_hash e \<noteq> []"

lemma fill_filled: "filled e \<Longrightarrow> fill_event w e s = (e, s)"
  by (simp add: fill_event_def filled_def)

text \<open>Delivery is idempotent: inserting an event again right after it was accepted reports a
  duplicate and changes nothing, so redelivered pages of a hub never fail or write twice.\<close>

theorem reinsert_is_noop:
  assumes "log_ok w s" and "insertEvent w e s = Inr (True, s')"
    and "filled e"
  shows "insertEvent w e s' = Inr (False, s')"
proof -
  have i: "VerifyRemoteEvent w s e = Inr ()" "validatePrevEventHash s e = Inr ()" "storeEvent e s = Inr (True, s')"
    using assms(2) insertEvent_Inr [OF fill_filled [OF assms(3)]] by auto
  have s': "s' = s\<lparr>st_events := st_events s @ [e]\<rparr>" and n: "tget ev_id (ev_id e) (st_events s) = None"
    using i(3) by (simp_all add: storeEvent_True)
  note fill_filled [OF assms(3), of w s']
  moreover have "VerifyRemoteEvent w s' e = VerifyRemoteEvent w s e"
    unfolding VerifyRemoteEvent_def verifyEventSignature_def hasEnrolledDevices_def by (simp add: s')
  then have "VerifyRemoteEvent w s' e = Inr ()" using i(1) by simp
  moreover have "previousEventContentHash s' e = previousEventContentHash s e"
    by (auto simp: previousEventContentHash_def s' find_snoc split: option.splits)
  then have "validatePrevEventHash s' e = Inr ()"
    using i(2) unfolding validatePrevEventHash_def by (simp only:)
  moreover have "storeEvent e s' = Inr (False, s')"
    using n by (simp add: storeEvent_False s' tget_append sameImmutableEvent_def)
  ultimately show ?thesis by (simp add: insertEvent_Inr)
qed

theorem reinsert_is_noop_witness:
  "\<exists>s'. insertEvent (plain_world 0) (sample_plain_event\<lparr>ev_workspace := ''ws'', ev_created := ''t'', ev_content_hash := ''sha256:''\<rparr>) s'
     = Inr (False, s') \<and> st_events s' \<noteq> []"
proof -
  let ?e = "sample_plain_event\<lparr>ev_workspace := ''ws'', ev_created := ''t'', ev_content_hash := ''sha256:''\<rparr>"
  have ok: "log_ok (plain_world 0) sample_local" by (simp add: log_ok_def sample_local_def)
  have e: "filled ?e" by (simp add: filled_def sample_plain_event_def event_zero_def)
  have i: "insertEvent (plain_world 0) ?e sample_local = Inr (True, sample_local\<lparr>st_events := [?e]\<rparr>)"
    using sample_insert by (simp add: insertEvent_def fill_filled [OF e])
  show ?thesis using reinsert_is_noop [OF ok i e] by (intro exI conjI) auto
qed


subsection \<open>Local events are stamped, chained and signed\<close>

text \<open>The sequence numbers a device has given out in this log.\<close>

definition own_seqs :: "string \<Rightarrow> store \<Rightarrow> int set" where
  "own_seqs dev s = ev_seq ` {e \<in> set (st_events s). ev_device e = dev}"

definition gapless :: "string \<Rightarrow> store \<Rightarrow> bool" where
  "gapless dev s \<longleftrightarrow> own_seqs dev s = {1..<snd (clock_of dev s)}"

definition clock_ok :: "string \<Rightarrow> store \<Rightarrow> bool" where
  "clock_ok dev s \<longleftrightarrow> (\<forall>e \<in> set (st_events s). ev_device e = dev \<longrightarrow>
     ev_seq e < snd (clock_of dev s) \<and> ev_hlc e \<le> fst (clock_of dev s))"

lemma log_ok_cong:
  assumes "st_events s' = st_events s" "st_anchors s' = st_anchors s" "st_workspace s' = st_workspace s"
    and "dv_id ` set (st_devices s') = dv_id ` set (st_devices s)"
  shows "log_ok w s' = log_ok w s"
proof -
  have "linked s' e = linked s e" for e by (simp add: linked_def assms)
  then show ?thesis by (simp add: log_ok_def event_ok_def assms)
qed

lemma previous_cong:
  assumes "st_events s' = st_events s" "st_anchors s' = st_anchors s" "ev_seq e' = ev_seq e"
    and "ev_workspace e' = ev_workspace e" "ev_device e' = ev_device e" "ev_hlc e' = ev_hlc e" "ev_id e' = ev_id e"
  shows "previousEventContentHash s' e' = previousEventContentHash s e"
  unfolding previousEventContentHash_def assms ..

lemma sign_event:
  assumes "key_pair w pub priv"
  shows "bindr (Sign w (key_text priv) eventSignatureDomainV2 (EventSignaturePayloadV2 e)) (\<lambda>sig. Inr (e\<lparr>ev_sig := sig\<rparr>, s))
    = Inr (signed_by w priv e, s)"
  using Sign_key_pair [OF assms] by (simp add: signed_by_def)

definition publish :: "string \<Rightarrow> string \<Rightarrow> store \<Rightarrow> store" where
  "publish dev key s = s\<lparr>st_devices := tmod (\<lambda>d. dv_id d = dev \<and> (dv_sig_pub d = [] \<or> dv_sig_pub d = key))
     (\<lambda>d. d\<lparr>dv_sig_pub := key\<rparr>) (st_devices s)\<rparr>"

lemma keys_tmod: "(\<And>r. key (f r) = key r) \<Longrightarrow> key ` set (tmod P f t) = key ` set t"
  by (induction t) (auto simp: tmod_def)

lemma publish_simps [simp]:
  "st_events (publish dev key s) = st_events s" "st_anchors (publish dev key s) = st_anchors s"
  "st_workspace (publish dev key s) = st_workspace s" "st_clocks (publish dev key s) = st_clocks s"
  "dv_id ` set (st_devices (publish dev key s)) = dv_id ` set (st_devices s)"
  by (simp_all add: publish_def keys_tmod)

lemma tget_publish:
  assumes "tget dv_id dev (st_devices s) = Some d" "dv_sig_pub d \<in> {[], key}"
  shows "tget dv_id dev (st_devices (publish dev key s)) = Some (d\<lparr>dv_sig_pub := key\<rparr>)"
    and "setDeviceSigningPublicKey dev key s = Inr (publish dev key s)"
  using assms by (auto simp: publish_def tget_tmod setDeviceSigningPublicKey_def list_ex_iff dest: tget_SomeD)

lemma currentDeviceD:
  assumes "currentDevice s = Inr d" "uniq dv_id (st_devices s)"
  shows "tget dv_id (dv_id d) (st_devices s) = Some d" "dv_trust d = trust_local"
  using assms find_Some_set [of _ "st_devices s" d]
  by (auto simp: currentDevice_def tget_uniq split: option.splits)

lemma clock_of_stamped:
  assumes "nextLocalEventStamp w dev s = ((hlc, seq), s1)" and "seq < 2 ^ 63 - 1"
  shows "hlc = advanceHLC (fst (clock_of dev s)) (w_now w)" "seq = snd (clock_of dev s)" "seq \<ge> 1"
    "\<exists>cs. s1 = s\<lparr>st_clocks := cs\<rparr>" "clock_of dev (s1\<lparr>st_devices := ds, st_events := es\<rparr>) = (hlc, seq + 1)"
proof -
  obtain h n where c: "clock_of dev s = (h, n)" by fastforce
  then have n: "n \<ge> 1" by (auto simp: clock_of_def Let_def split: option.splits prod.splits if_splits)
  have e: "hlc = advanceHLC h (w_now w)" "seq = n" "s1 = s\<lparr>st_clocks := tput cl_dev
      \<lparr>cl_dev = dev, cl_hlc = hlc, cl_seq = wrap64 (n + 1)\<rparr> (\<lambda>r. r\<lparr>cl_hlc := hlc, cl_seq := wrap64 (n + 1)\<rparr>) (st_clocks s)\<rparr>"
    using assms(1) by (auto simp: nextLocalEventStamp_def c Let_def)
  then show "hlc = advanceHLC (fst (clock_of dev s)) (w_now w)" "seq = snd (clock_of dev s)" "seq \<ge> 1"
    "\<exists>cs. s1 = s\<lparr>st_clocks := cs\<rparr>" using c n by auto
  have "wrap64 (n + 1) = n + 1" using assms(2) e(2) n by (intro wrap64_id) (simp add: int64_def)
  then show "clock_of dev (s1\<lparr>st_devices := ds, st_events := es\<rparr>) = (hlc, seq + 1)"
    using n e(2) by (auto simp: clock_of_def e(3) tget_tput split: option.splits)
qed

text \<open>The stamped event: the fields that stamping sets, and those it leaves.\<close>

lemma local_stamp:
  assumes "nextLocalEventStamp w dev s = ((hlc, seq), s1)" and "s1 = s\<lparr>st_clocks := cs\<rparr>"
    and "ev_sig e = []" "ev_prev_hash e = []" "ev_content_hash e \<in> {[], ContentHash w (ev_payload e)}" "w_stamp w \<noteq> []"
  obtains e3 where "stamp_event w dev (normalizeEvent w e) s = (e3, s1)"
    "ev_id e3 = ev_id e" "ev_type e3 = ev_type e" "ev_payload e3 = ev_payload e" "ev_device e3 = dev" "ev_seq e3 = seq"
    "ev_hlc e3 = hlc" "ev_workspace e3 = st_workspace s" "ev_sig e3 = []" "ev_content_hash e3 = ContentHash w (ev_payload e)"
    "ev_created e3 \<noteq> []" "ev_prev_hash e3 = or_else (previousEventContentHash s e3) []"
proof -
  define e2 where "e2 = (normalizeEvent w e)\<lparr>ev_device := dev, ev_workspace := st_workspace s, ev_hlc := hlc, ev_seq := seq\<rparr>"
  define e3 where "e3 = e2\<lparr>ev_prev_hash := or_else (previousEventContentHash s1 e2) []\<rparr>"
  have ph: "ev_prev_hash (normalizeEvent w e) = []" "ev_prev_hash e2 = []"
    using assms(4,5) by (simp_all add: normalizeEvent_def e2_def Let_def)
  have "e2\<lparr>ev_prev_hash := []\<rparr> = e2" using ph by (cases e2) simp
  then have stamp: "stamp_event w dev (normalizeEvent w e) s = (e3, s1)"
    using ph by (simp add: stamp_event_def assms(1) e3_def e2_def [symmetric] Let_def split: option.splits)
  have prev: "previousEventContentHash s e3 = previousEventContentHash s1 e2"
    by (rule previous_cong) (simp_all add: assms(2) e3_def)
  have "ev_id (normalizeEvent w e) = ev_id e" "ev_type (normalizeEvent w e) = ev_type e"
    "ev_payload (normalizeEvent w e) = ev_payload e" "ev_sig (normalizeEvent w e) = []"
    "ev_content_hash (normalizeEvent w e) = ContentHash w (ev_payload e)" "ev_created (normalizeEvent w e) \<noteq> []"
    using assms(3,5,6) by (auto simp: normalizeEvent_def Let_def)
  then show ?thesis using prev by (intro that [OF stamp]) (simp_all add: e3_def e2_def)
qed

text \<open>Signing and inserting a stamped event.\<close>

lemma local_sign_insert:
  assumes "log_ok w s1" and "tget dv_id (ev_device e3) (st_devices s1) = Some d" and "dv_trust d = trust_local"
    and "keys (ev_device e3) (dv_sig_pub d) = Inr (key_text priv, key_text pub)" and "key_pair w pub priv"
    and "dv_sig_pub d \<in> {[], key_text pub}" and "ev_sig e3 = []" and "ev_workspace e3 = st_workspace s1"
    and "ev_id e3 \<noteq> []" and "st_workspace s1 \<noteq> []" and "ev_created e3 \<noteq> []"
    and "ev_content_hash e3 = ContentHash w (ev_payload e3)"
    and "ev_prev_hash e3 = or_else (previousEventContentHash s1 e3) []"
    and "ev_id e3 \<notin> ev_id ` set (st_events s1)" and "\<not> list_ex (seq_taken e3) (st_events s1)"
  defines "e4 \<equiv> signed_by w priv e3"
  shows "\<exists>s2 s3. ensureLocalEventSignature w keys e3 s1 = Inr (e4, s2) \<and> InsertEvent w e4 s2 = Inr (True, s3) \<and>
     s3 = (publish (ev_device e3) (key_text pub) s1)\<lparr>st_events := st_events s1 @ [e4]\<rparr> \<and> log_ok w s3"
proof -
  define s2 where "s2 = publish (ev_device e3) (key_text pub) s1"
  define s3 where "s3 = s2\<lparr>st_events := st_events s2 @ [e4]\<rparr>"
  have ens: "ensureLocalEventSignature w keys e3 s1 = Inr (e4, s2)"
    using assms(4,7) tget_publish(2) [OF assms(2,6)] sign_event [OF assms(5), of e3 s2]
    by (simp add: ensureLocalEventSignature_def deviceSigningPublicKey_def assms(2) s2_def e4_def)
  have prev: "previousEventContentHash s2 e4 = previousEventContentHash s1 e3"
    by (rule previous_cong) (simp_all add: s2_def e4_def)
  have fe: "filled e4" using assms(8-12) by (simp add: filled_def e4_def ContentHash_def)
  have p2: "tget dv_id (ev_device e3) (st_devices s2) = Some (d\<lparr>dv_sig_pub := key_text pub\<rparr>)"
    unfolding s2_def by (rule tget_publish(1) [OF assms(2,6)])
  have ver: "VerifyRemoteEvent w s2 e4 = Inr ()"
    using p2 verify_signed_by [OF assms(5), of e3] assms(3,12)
    by (simp add: VerifyRemoteEvent_def verifyEventSignature_def e4_def Let_def)
  have vp: "validatePrevEventHash s2 e4 = Inr ()"
    unfolding validatePrevEventHash_def prev
    by (cases "previousEventContentHash s1 e3") (simp_all add: e4_def assms(13))
  have fresh: "tget ev_id (ev_id e4) (st_events s2) = None" "\<not> list_ex (seq_taken e4) (st_events s2)"
    using assms(14,15) by (auto simp: tget_None s2_def e4_def list_ex_iff seq_taken_def)
  have sto: "storeEvent e4 s2 = Inr (True, s3)"
    unfolding storeEvent_True using fresh p2 assms(8) by (simp add: s3_def e4_def s2_def)
  have "normalizeEvent w e4 = e4" using fe by (simp add: normalizeEvent_def filled_def)
  then have ins: "InsertEvent w e4 s2 = Inr (True, s3)"
    using ver vp sto by (simp add: InsertEvent_def insertEvent_Inr [OF fill_filled [OF fe]])
  have ok2: "log_ok w s2" using assms(1) by (subst log_ok_cong [of _ s1]) (simp_all add: s2_def)
  have "ev_device e3 \<in> dv_id ` set (st_devices s2)" by (rule ccontr) (use p2 in \<open>simp add: tget_None [symmetric]\<close>)
  then have "event_ok w s2 e4"
    using validate_linked [OF vp] assms(8,12) by (simp add: event_ok_def e4_def s2_def)
  then have "log_ok w s3" unfolding s3_def by (rule log_ok_snoc [OF ok2 _ fresh(1)]) (simp add: fresh)
  then show ?thesis using ens ins by (auto simp: s3_def s2_def)
qed

lemma local_append:
  assumes "log_ok w s" and "currentDevice s = Inr d" and "uniq dv_id (st_devices s)"
    and "clock_ok (dv_id d) s" and "snd (clock_of (dv_id d) s) < 2 ^ 63 - 1"
    and "phys_ok (w_now w)" and "phys_ok (fst (clock_of (dv_id d) s) div 65536 + 1)"
    and "phys_ok (fst (clock_of (dv_id d) s) div 65536)"
    and "keys (dv_id d) (dv_sig_pub d) = Inr (key_text priv, key_text pub)" and "key_pair w pub priv"
    and "dv_sig_pub d \<in> {[], key_text pub}" and "ev_id e \<noteq> []" and "ev_id e \<notin> ev_id ` set (st_events s)"
    and "ev_sig e = []" and "ev_prev_hash e = []" and "ev_content_hash e \<in> {[], ContentHash w (ev_payload e)}"
    and "st_workspace s \<noteq> []" and "w_stamp w \<noteq> []"
  shows "\<exists>e' s'. InsertLocalEventTx w keys e s = Inr (e', s') \<and> st_events s' = st_events s @ [e'] \<and>
     log_ok w s' \<and> clock_ok (dv_id d) s' \<and> clock_of (dv_id d) s' = (ev_hlc e', ev_seq e' + 1) \<and>
     (gapless (dv_id d) s \<longrightarrow> gapless (dv_id d) s') \<and>
     ev_id e' = ev_id e \<and> ev_type e' = ev_type e \<and> ev_payload e' = ev_payload e \<and> ev_device e' = dv_id d \<and>
     ev_seq e' = snd (clock_of (dv_id d) s) \<and> ev_hlc e' > fst (clock_of (dv_id d) s) \<and>
     ev_prev_hash e' = or_else (previousEventContentHash s e') [] \<and>
     (\<forall>s2 d2. tget dv_id (dv_id d) (st_devices s2) = Some d2 \<and> dv_sig_pub d2 = key_text pub \<and>
        dv_trust d2 = trust_approved \<longrightarrow> VerifyRemoteEvent w s2 e' = Inr ())"
proof -
  let ?dev = "dv_id d"
  note cd = currentDeviceD [OF assms(2,3)]
  obtain hlc seq s1 where st: "nextLocalEventStamp w ?dev s = ((hlc, seq), s1)" by (metis surj_pair)
  have sq: "seq = snd (clock_of ?dev s)" using st assms(5)
    by (auto simp: nextLocalEventStamp_def Let_def split: prod.splits)
  note clk = clock_of_stamped [OF st, unfolded sq, OF assms(5)]
  obtain cs where s1: "s1 = s\<lparr>st_clocks := cs\<rparr>" using clk(4) by blast
  have hlc: "hlc > fst (clock_of ?dev s)" unfolding clk(1) by (rule advanceHLC_gt [OF assms(6-8)])
  obtain e3 where stamp: "stamp_event w ?dev (normalizeEvent w e) s = (e3, s1)"
    and f [simp]: "ev_id e3 = ev_id e" "ev_type e3 = ev_type e" "ev_payload e3 = ev_payload e" "ev_device e3 = ?dev"
      "ev_seq e3 = seq" "ev_hlc e3 = hlc" "ev_workspace e3 = st_workspace s" "ev_sig e3 = []"
      "ev_content_hash e3 = ContentHash w (ev_payload e)" "ev_created e3 \<noteq> []"
    and ph: "ev_prev_hash e3 = or_else (previousEventContentHash s e3) []"
    by (rule local_stamp [OF st s1 assms(14-16,18)])
  let ?e4 = "signed_by w priv e3"
  have pr: "previousEventContentHash s1 e3 = previousEventContentHash s e3"
    "previousEventContentHash s ?e4 = previousEventContentHash s e3"
    by (rule previous_cong; simp add: s1)+
  have ok1: "log_ok w s1" using assms(1) by (subst log_ok_cong [of _ s]) (simp_all add: s1)
  have fr: "\<not> list_ex (seq_taken e3) (st_events s1)"
    using assms(4) sq by (auto simp: s1 list_ex_iff seq_taken_def clock_ok_def)
  have dev: "tget dv_id (ev_device e3) (st_devices s1) = Some d" using cd(1) by (simp add: s1)
  obtain s2 s3 where i: "ensureLocalEventSignature w keys e3 s1 = Inr (?e4, s2)" "InsertEvent w ?e4 s2 = Inr (True, s3)"
    "s3 = (publish ?dev (key_text pub) s1)\<lparr>st_events := st_events s1 @ [?e4]\<rparr>" "log_ok w s3"
    using local_sign_insert [OF ok1 dev cd(2) _ assms(10,11) _ _ _ _ _ _ _ _ fr, of keys] assms(9,12,13,17) ph pr
    by (auto simp: s1)
  have run: "InsertLocalEventTx w keys e s = Inr (?e4, s3)"
    using assms(2,12) stamp i by (simp add: InsertLocalEventTx_def)
  have ck: "clock_of ?dev s3 = (hlc, seq + 1)"
    using clk(5) [of "st_events s1 @ [?e4]" "st_devices (publish ?dev (key_text pub) s1)"] sq
    by (simp add: i(3) publish_def)
  then have "clock_ok ?dev s3"
    using assms(4) hlc sq by (fastforce simp: clock_ok_def i(3) s1)
  moreover have "gapless ?dev s3" if "gapless ?dev s"
  proof -
    have pos: "1 \<le> seq" using sq by (auto simp: clock_of_def Let_def split: prod.splits)
    have "{x \<in> set (st_events s3). ev_device x = ?dev} = insert ?e4 {x \<in> set (st_events s). ev_device x = ?dev}"
      by (auto simp: i(3) s1)
    then have "own_seqs ?dev s3 = insert seq (own_seqs ?dev s)" by (simp add: own_seqs_def)
    then show ?thesis using that pos sq ck by (auto simp: gapless_def)
  qed
  moreover have "VerifyRemoteEvent w t ?e4 = Inr ()"
    if "tget dv_id ?dev (st_devices t) = Some d2" "dv_sig_pub d2 = key_text pub" "dv_trust d2 = trust_approved" for t d2
    using that verify_signed_by [OF assms(10), of e3]
    by (simp add: VerifyRemoteEvent_def verifyEventSignature_def approvedAtEmit_def trust_defs Let_def)
  ultimately show ?thesis
    using run i(4) hlc sq pr ph ck by (intro exI [of _ ?e4] exI [of _ s3]) (auto simp: i(3) s1)
qed

text \<open>C15: appending a local event always succeeds: on a well-formed log, with the device's key pair
  in custody, a fresh id and room in the clock, the event is stored as the last row under the next
  number of the clock and an HLC above every earlier one, chained to the predecessor's hash; the
  clock then stands at that HLC and the number after it, so that a log without gaps (the numbers
  given out are exactly those below the clock's next one) keeps being one; the log and clock stay
  well-formed; and every peer that has this device approved with its public key accepts the
  event.\<close>

theorem local_append_succeeds:
  assumes "log_ok w s" and "currentDevice s = Inr d" and "uniq dv_id (st_devices s)"
    and "clock_ok (dv_id d) s" and "snd (clock_of (dv_id d) s) < 2 ^ 63 - 1"
    and "phys_ok (w_now w)" and "phys_ok (fst (clock_of (dv_id d) s) div 65536 + 1)"
    and "phys_ok (fst (clock_of (dv_id d) s) div 65536)"
    and "keys (dv_id d) (dv_sig_pub d) = Inr (key_text priv, key_text pub)" and "key_pair w pub priv"
    and "dv_sig_pub d \<in> {[], key_text pub}" and "ev_id e \<noteq> []" and "ev_id e \<notin> ev_id ` set (st_events s)"
    and "ev_sig e = []" and "ev_prev_hash e = []" and "ev_content_hash e \<in> {[], ContentHash w (ev_payload e)}"
    and "st_workspace s \<noteq> []" and "w_stamp w \<noteq> []"
  shows "\<exists>e' s'. InsertLocalEventTx w keys e s = Inr (e', s') \<and> st_events s' = st_events s @ [e'] \<and>
     log_ok w s' \<and> clock_ok (dv_id d) s' \<and> clock_of (dv_id d) s' = (ev_hlc e', ev_seq e' + 1) \<and>
     (gapless (dv_id d) s \<longrightarrow> gapless (dv_id d) s') \<and>
     ev_id e' = ev_id e \<and> ev_type e' = ev_type e \<and> ev_payload e' = ev_payload e \<and> ev_device e' = dv_id d \<and>
     ev_seq e' = snd (clock_of (dv_id d) s) \<and> ev_hlc e' > fst (clock_of (dv_id d) s) \<and>
     ev_prev_hash e' = or_else (previousEventContentHash s e') [] \<and>
     (\<forall>s2 d2. tget dv_id (dv_id d) (st_devices s2) = Some d2 \<and> dv_sig_pub d2 = key_text pub \<and>
        dv_trust d2 = trust_approved \<longrightarrow> VerifyRemoteEvent w s2 e' = Inr ())"
  using assms by (rule local_append)

theorem local_append_succeeds_witness:
  "\<exists>e' s'. InsertLocalEventTx (plain_world 1) (\<lambda>_ _. Inr (key_text (replicate 64 CHR ''k''), key_text (replicate 32 CHR ''k'')))
     (event_zero\<lparr>ev_id := ''e'', ev_type := EventProjectAdded\<rparr>) sample_local = Inr (e', s') \<and> ev_seq e' = 1 \<and> ev_hlc e' > 0 \<and>
     clock_of ''d'' s' = (ev_hlc e', 2) \<and> gapless ''d'' s'"
proof -
  have c: "clock_of ''d'' sample_local = (0, 1)"
    by (simp add: clock_of_def sample_local_def sql_max_def)
  have l: "log_ok (plain_world 1) sample_local" by (simp add: log_ok_def sample_local_def)
  have d: "currentDevice sample_local = Inr (sample_device ''d'' trust_local [] None)"
    by (simp add: currentDevice_def sample_local_def)
  have p: "phys_ok 1" "phys_ok 0" by (simp_all add: phys_ok_def)
  have k: "key_pair (plain_world 1) (replicate 32 CHR ''k'') (replicate 64 CHR ''k'')"
    by (rule plain_key_pair) simp_all
  let ?e = "event_zero\<lparr>ev_id := ''e'', ev_type := EventProjectAdded\<rparr>"
  let ?keys = "\<lambda>_ _. Inr (key_text (replicate 64 CHR ''k''), key_text (replicate 32 CHR ''k''))"
  have e: "ev_id ?e \<noteq> []" "ev_id ?e \<notin> ev_id ` set (st_events sample_local)" "ev_sig ?e = []" "ev_prev_hash ?e = []"
    "ev_content_hash ?e \<in> {[], ContentHash (plain_world 1) (ev_payload ?e)}"
    by (simp_all add: event_zero_def sample_local_def)
  have w: "phys_ok (w_now (plain_world 1))" "w_stamp (plain_world 1) \<noteq> []" "st_workspace sample_local \<noteq> []"
    "uniq dv_id (st_devices sample_local)"
    by (simp_all add: plain_world_def p(1) sample_local_def uniq_def)
  let ?d = "sample_device ''d'' trust_local [] None"
  have ck: "clock_ok (dv_id ?d) sample_local" by (simp add: clock_ok_def sample_local_def)
  have r: "snd (clock_of (dv_id ?d) sample_local) < 2 ^ 63 - 1"
    "phys_ok (fst (clock_of (dv_id ?d) sample_local) div 65536 + 1)"
    "phys_ok (fst (clock_of (dv_id ?d) sample_local) div 65536)"
    "dv_sig_pub ?d \<in> {[], key_text (replicate 32 CHR ''k'')}"
    by (simp_all add: c p)
  have "gapless ''d'' sample_local" by (simp add: gapless_def own_seqs_def c) (simp add: sample_local_def)
  then show ?thesis
    using local_append_succeeds [OF l d w(4) ck r(1) w(1) r(2,3) refl k r(4) e w(3,2)] by (auto simp: c)
qed

end
