(* ===== verification/Env_Draft.thy ===== *)
theory Env_Draft
  imports Device_Trust Namespace_Store
begin

section \<open>Env profiles, drafts and their blobs\<close>

text \<open>
  The env-profile, draft-snapshot and blob-reference operations of
  \<^verbatim>\<open>src/internal/state/store.go\<close>. Go's map of provider references is an association list in
  the order its range visits it; \<^verbatim>\<open>required\<close> is always 1 and left out.
\<close>

record env_params =
  en_name :: string
  en_provider :: string
  en_mode :: string
  en_blob :: string
  en_vars :: "string list"
  en_refs :: "(string \<times> string) list"

definition blob_prefix :: string where "blob_prefix = ''age_blob:''"

definition devstrap_encrypted :: string where "devstrap_encrypted = ''devstrap_encrypted''"

text \<open>The checks at the head of \<^verbatim>\<open>UpsertEnvProfileTx\<close>: the parameters with their defaults
  filled in, and the names to bind, sorted.\<close>

fun check_ref_list :: "(string \<times> string) list \<Rightarrow> unit res" where
  "check_ref_list [] = Inr ()"
| "check_ref_list ((v, r) # rs) =
     (if v = [] then fail KOther ''env variable name must not be empty''
      else if trim_space r = [] then fail KOther (''provider ref for '' @ v @ '' must not be empty'')
      else check_ref_list rs)"

definition validate_env :: "env_params \<Rightarrow> (env_params \<times> string list) res" where
  "validate_env p0 =
     (let p = (if en_name p0 = [] then p0\<lparr>en_name := ''default''\<rparr> else p0) in
      if en_provider p = [] then fail KOther ''provider must not be empty''
      else if en_provider p = devstrap_encrypted then
        (let q = (if en_mode p = [] then p\<lparr>en_mode := ''hydrate_or_runtime''\<rparr> else p) in
         if en_mode q \<noteq> ''hydrate_or_runtime'' then fail KOther ''encrypted env profile mode must be hydrate_or_runtime''
         else if en_vars q = [] then fail KOther ''env profile must contain at least one binding''
         else if \<not> prefixb blob_prefix (en_blob q) then fail KOther ''encrypted value ref must use age_blob: prefix''
         else if en_refs q \<noteq> [] then fail KOther ''encrypted env profile must not contain provider refs''
         else if [] \<in> set (en_vars q) then fail KOther ''env variable name must not be empty''
         else Inr (q, sort (en_vars q)))
      else
        (let q = (if en_mode p = [] then p\<lparr>en_mode := ''runtime_only''\<rparr> else p) in
         if en_mode q \<noteq> ''runtime_only'' then fail KOther ''provider env profile mode must be runtime_only''
         else if en_refs q = [] then fail KOther ''env profile must contain at least one binding''
         else if en_blob q \<noteq> [] \<or> en_vars q \<noteq> []
         then fail KOther ''provider env profile must not contain encrypted blob refs''
         else bindr (check_ref_list (en_refs q)) (\<lambda>_. Inr (q, sort (map fst (en_refs q))))))"

definition envBindingRotationFlags :: "string \<Rightarrow> store \<Rightarrow> string \<Rightarrow> bool" where
  "envBindingRotationFlags profile s v =
     (case tget sb_var v (rev (filter (\<lambda>b. sb_profile b = profile) (st_bindings s))) of
        Some b \<Rightarrow> sb_rotate b | None \<Rightarrow> False)"

text \<open>The loop that inserts one binding per name; the second binding of a name violates
  \<^verbatim>\<open>UNIQUE(env_profile_id, var_name)\<close>.\<close>

fun insert_bindings ::
  "world \<Rightarrow> env_params \<Rightarrow> string \<Rightarrow> (string \<Rightarrow> bool) \<Rightarrow> string list \<Rightarrow> store \<Rightarrow> store res" where
  "insert_bindings w p profile flags [] s = Inr s"
| "insert_bindings w p profile flags (v # vs) s =
     (let (i, s1) = new_id w ''sec'' s;
          enc = (en_provider p = devstrap_encrypted) in
      if list_ex (\<lambda>b. sb_profile b = profile \<and> sb_var b = v) (st_bindings s1)
      then fail KOther (''insert '' @ (if enc then '''' else ''provider '') @ ''secret binding '' @ v @
             '': UNIQUE constraint failed'')
      else insert_bindings w p profile flags vs (s1\<lparr>st_bindings := st_bindings s1 @
        [\<lparr>sb_id = i, sb_profile = profile, sb_var = v,
          sb_ref = (if enc then None else map_of (en_refs p) v),
          sb_blob = (if enc then Some (en_blob p) else None), sb_rotate = flags v\<rparr>]\<rparr>))"

definition active_entry :: "string \<Rightarrow> store \<Rightarrow> entry option" where
  "active_entry ns s = (case tget ns_id ns (st_entries s) of
      Some e \<Rightarrow> if ns_status e = projectionStatusActive then Some e else None | None \<Rightarrow> None)"

definition event_source :: "event \<Rightarrow> coord option" where
  "event_source e = (if ev_hlc e \<noteq> 0 \<or> ev_device e \<noteq> [] \<or> ev_id e \<noteq> [] then Some (ev_coord e) else None)"

definition put_profile :: "world \<Rightarrow> string \<Rightarrow> env_params \<Rightarrow> event \<Rightarrow> entry \<Rightarrow> store \<Rightarrow>
    string \<times> (string \<Rightarrow> bool) \<times> store" where
  "put_profile w ns p ev e s =
     (if ns_profile e = [] then
        (let (i, s1) = new_id w ''env'' s in
         (i, \<lambda>_. False, s1\<lparr>st_profiles := st_profiles s1 @
              [\<lparr>pf_id = i, pf_name = en_name p, pf_provider = en_provider p, pf_mode = en_mode p, pf_src = event_source ev\<rparr>],
            st_entries := tmod (\<lambda>x. ns_id x = ns) (\<lambda>x. x\<lparr>ns_profile := i\<rparr>) (st_entries s1)\<rparr>))
      else (ns_profile e, envBindingRotationFlags (ns_profile e) s,
        s\<lparr>st_profiles := tmod (\<lambda>x. pf_id x = ns_profile e)
            (\<lambda>x. x\<lparr>pf_name := en_name p, pf_provider := en_provider p, pf_mode := en_mode p, pf_src := event_source ev\<rparr>)
            (st_profiles s),
          st_bindings := tdel (\<lambda>b. sb_profile b = ns_profile e) (st_bindings s)\<rparr>))"

definition UpsertEnvProfileTx :: "world \<Rightarrow> string \<Rightarrow> env_params \<Rightarrow> event \<Rightarrow> store \<Rightarrow> store res" where
  "UpsertEnvProfileTx w ns p0 ev s =
     (if ns = [] then fail KOther ''namespace id must not be empty''
      else bindr (validate_env p0) (\<lambda>(p, vars).
        case active_entry ns s of
          None \<Rightarrow> fail KOther (''unknown namespace id '' @ ns)
        | Some e \<Rightarrow>
            (let (profile, flags, s1) = put_profile w ns p ev e s
             in insert_bindings w p profile flags vars s1)))"

definition env_params_of :: "env_payload \<Rightarrow> env_params" where
  "env_params_of p = \<lparr>en_name = ep_profile p, en_provider = ep_provider p, en_mode = ep_mode p,
     en_blob = ep_blob p, en_vars = ep_vars p, en_refs = ep_refs p\<rparr>"

definition SaveCapturedEnvProfile :: "world \<Rightarrow> string \<Rightarrow> string \<Rightarrow> string list \<Rightarrow> string \<Rightarrow> store \<Rightarrow> unit res \<times> store" where
  "SaveCapturedEnvProfile w ns name vars blob s = with_tx s (\<lambda>s. bindr (UpsertEnvProfileTx w ns
     \<lparr>en_name = name, en_provider = devstrap_encrypted, en_mode = ''hydrate_or_runtime'', en_blob = blob,
      en_vars = vars, en_refs = []\<rparr> event_zero s) (\<lambda>s'. Inr ((), s')))"

definition SaveProviderEnvProfile :: "world \<Rightarrow> string \<Rightarrow> string \<Rightarrow> string \<Rightarrow> (string \<times> string) list \<Rightarrow> store \<Rightarrow> unit res \<times> store" where
  "SaveProviderEnvProfile w ns name provider refs s = with_tx s (\<lambda>s. bindr (UpsertEnvProfileTx w ns
     \<lparr>en_name = name, en_provider = provider, en_mode = ''runtime_only'', en_blob = [], en_vars = [], en_refs = refs\<rparr>
     event_zero s) (\<lambda>s'. Inr ((), s')))"

definition profile_of :: "string \<Rightarrow> store \<Rightarrow> env_profile option" where
  "profile_of ns s = (case active_entry ns s of
      Some e \<Rightarrow> tget pf_id (ns_profile e) (st_profiles s) | None \<Rightarrow> None)"

definition EnvProfileForProject :: "string \<Rightarrow> store \<Rightarrow> (env_profile \<times> binding list) res" where
  "EnvProfileForProject ns s = (case profile_of ns s of
      None \<Rightarrow> fail KNotFound (''env profile not found for namespace id '' @ ns)
    | Some p \<Rightarrow> Inr (p, sort_key sb_var (filter (\<lambda>b. sb_profile b = pf_id p) (st_bindings s))))"

definition EnvProfileSourceCoords :: "string \<Rightarrow> store \<Rightarrow> coord option" where
  "EnvProfileSourceCoords ns s = (case profile_of ns s of None \<Rightarrow> None | Some p \<Rightarrow> pf_src p)"

subsection \<open>Rotation flags\<close>

definition markEncryptedBindingsNeedingRotation :: "store \<Rightarrow> nat \<times> store" where
  "markEncryptedBindingsNeedingRotation s =
     (let P = (\<lambda>b. sb_blob b \<noteq> None \<and> \<not> sb_rotate b)
      in (tcount P (st_bindings s), s\<lparr>st_bindings := tmod P (\<lambda>b. b\<lparr>sb_rotate := True\<rparr>) (st_bindings s)\<rparr>))"

definition ClearRotationForProject :: "string \<Rightarrow> store \<Rightarrow> nat \<times> store" where
  "ClearRotationForProject ns s =
     (let P = (\<lambda>b. sb_rotate b \<and> list_ex (\<lambda>e. ns_id e = ns \<and> ns_profile e \<noteq> [] \<and> ns_profile e = sb_profile b) (st_entries s))
      in (tcount P (st_bindings s), s\<lparr>st_bindings := tmod P (\<lambda>b. b\<lparr>sb_rotate := False\<rparr>) (st_bindings s)\<rparr>))"

definition ClearAllBindingRotation :: "store \<Rightarrow> nat \<times> store" where
  "ClearAllBindingRotation s =
     (tcount sb_rotate (st_bindings s), s\<lparr>st_bindings := tmod sb_rotate (\<lambda>b. b\<lparr>sb_rotate := False\<rparr>) (st_bindings s)\<rparr>)"

definition CountSecretBindingsNeedingRotation :: "store \<Rightarrow> nat" where
  "CountSecretBindingsNeedingRotation s = tcount sb_rotate (st_bindings s)"

subsection \<open>Draft snapshots\<close>

text \<open>The order of \<^verbatim>\<open>LatestDraftSnapshot\<close>: HLC, device, event, then the local tie-breakers.\<close>

definition snap_less :: "draft_snapshot \<Rightarrow> draft_snapshot \<Rightarrow> bool" where
  "snap_less a b \<longleftrightarrow> coord_less (ds_src a) (ds_src b) \<or>
     ds_src a = ds_src b \<and> (ds_created a < ds_created b \<or> ds_created a = ds_created b \<and> ds_id a < ds_id b)"

fun latest_snap :: "draft_snapshot list \<Rightarrow> draft_snapshot option" where
  "latest_snap [] = None"
| "latest_snap (d # ds) = (case latest_snap ds of
      None \<Rightarrow> Some d | Some e \<Rightarrow> if snap_less d e then Some e else Some d)"

definition LatestDraftSnapshot :: "string \<Rightarrow> store \<Rightarrow> draft_snapshot option" where
  "LatestDraftSnapshot ns s = latest_snap (filter (\<lambda>d. ds_ns d = ns) (st_snapshots s))"

definition has_snapshot :: "string \<Rightarrow> string \<Rightarrow> store \<Rightarrow> bool" where
  "has_snapshot ns ev s \<longleftrightarrow>
     (case find (\<lambda>d. ds_ns d = ns \<and> c_id (ds_src d) = ev) (st_snapshots s) of Some d \<Rightarrow> ds_id d \<noteq> [] | None \<Rightarrow> False)"

definition add_snapshot :: "world \<Rightarrow> string \<Rightarrow> string \<Rightarrow> string \<Rightarrow> int \<Rightarrow> int \<Rightarrow> event \<Rightarrow> store \<Rightarrow> store res" where
  "add_snapshot w i ns blob bytes files ev s =
     (if tget ns_id ns (st_entries s) = None then fail KOther ''insert draft snapshot: FOREIGN KEY constraint failed''
      else Inr (s\<lparr>st_snapshots := st_snapshots s @
          [\<lparr>ds_id = i, ds_ns = ns, ds_blob = blob, ds_bytes = bytes, ds_files = files, ds_src = ev_coord ev, ds_created = w_stamp w\<rparr>],
        st_drafts := tmod (\<lambda>d. dj_ns d = ns) (\<lambda>d. d\<lparr>dj_current := i\<rparr>) (st_drafts s)\<rparr>))"

definition EnsureDraftProject :: "string \<Rightarrow> store \<Rightarrow> store res" where
  "EnsureDraftProject ns s =
     (if tget dj_ns ns (st_drafts s) = None \<and> tget ns_id ns (st_entries s) = None
      then fail KOther ''ensure draft project: FOREIGN KEY constraint failed''
      else Inr (s\<lparr>st_drafts := tins dj_ns (default_draft ns) (st_drafts s)\<rparr>))"

definition RecordDraftSnapshotTx :: "world \<Rightarrow> string \<Rightarrow> string \<Rightarrow> int \<Rightarrow> int \<Rightarrow> event \<Rightarrow> store \<Rightarrow> store res" where
  "RecordDraftSnapshotTx w ns blob bytes files ev s =
     (if \<not> prefixb blob_prefix blob then fail KOther ''draft blob ref must use age_blob: prefix''
      else bindr (EnsureDraftProject ns s) (\<lambda>s1.
        if has_snapshot ns (ev_id ev) s1 then Inr s1
        else let (i, s2) = new_id w ''snap'' s1 in add_snapshot w i ns blob bytes files ev s2))"

definition RecordDraftSnapshot :: "world \<Rightarrow> string \<Rightarrow> string \<Rightarrow> int \<Rightarrow> int \<Rightarrow> event \<Rightarrow> store \<Rightarrow> unit res \<times> store" where
  "RecordDraftSnapshot w ns blob bytes files ev s =
     (if \<not> prefixb blob_prefix blob then (fail KOther ''draft blob ref must use age_blob: prefix'', s)
      else let (i, s0) = new_id w ''snap'' s in
        with_tx s0 (\<lambda>s1. if has_snapshot ns (ev_id ev) s1 then Inr ((), s1)
          else bindr (add_snapshot w i ns blob bytes files ev s1) (\<lambda>s2. Inr ((), s2))))"

definition DraftProjectLimits :: "string \<Rightarrow> store \<Rightarrow> int \<times> int" where
  "DraftProjectLimits ns s = (case tget dj_ns ns (st_drafts s) of
      None \<Rightarrow> (104857600, 5000) | Some d \<Rightarrow> (dj_max_bytes d, dj_max_files d))"

text \<open>\<^verbatim>\<open>ROW_NUMBER() OVER (PARTITION BY namespace_id ORDER BY .. DESC)\<close>\<close>

definition snap_rank :: "draft_snapshot list \<Rightarrow> draft_snapshot \<Rightarrow> nat" where
  "snap_rank ds d = Suc (tcount (\<lambda>x. ds_ns x = ds_ns d \<and> snap_less d x) ds)"

definition PruneDraftSnapshots :: "int \<Rightarrow> store \<Rightarrow> nat \<times> store" where
  "PruneDraftSnapshots keep0 s =
     (let keep = nat (if keep0 < 1 then 1 else keep0);
          P = (\<lambda>d. snap_rank (st_snapshots s) d > keep)
      in (tcount P (st_snapshots s), s\<lparr>st_snapshots := tdel P (st_snapshots s)\<rparr>))"

subsection \<open>Blob references\<close>

text \<open>\<^verbatim>\<open>LIKE 'age_blob:%'\<close>: ASCII letters match in either case, the underscore matches any byte.\<close>

definition like_blob :: "string \<Rightarrow> bool" where
  "like_blob r \<longleftrightarrow> length r \<ge> 9 \<and> map lower_ascii_char (take 3 r) = ''age'' \<and>
     map lower_ascii_char (take 5 (drop 4 r)) = ''blob:''"

definition env_refs :: "store \<Rightarrow> string list" where
  "env_refs s = filter like_blob (List.map_filter sb_blob (st_bindings s))"

definition EnvBlobRefs :: "store \<Rightarrow> string list" where
  "EnvBlobRefs s = remdups (env_refs s)"

definition DraftBlobRefs :: "store \<Rightarrow> string list" where
  "DraftBlobRefs s = remdups (filter like_blob (map ds_blob (st_snapshots s)))"

definition AllBlobRefs :: "store \<Rightarrow> string list" where
  "AllBlobRefs s = sort (remdups (env_refs s @ filter like_blob (map ds_blob (st_snapshots s))))"

definition RetainedBlobRefs :: "int \<Rightarrow> store \<Rightarrow> string list" where
  "RetainedBlobRefs keep0 s =
     (let keep = nat (if keep0 < 1 then 1 else keep0);
          ds = filter (\<lambda>d. like_blob (ds_blob d)) (st_snapshots s)
      in sort (remdups (env_refs s @ map ds_blob (filter (\<lambda>d. snap_rank ds d \<le> keep) ds))))"

definition UpdateBlobRef :: "string \<Rightarrow> string \<Rightarrow> store \<Rightarrow> store res" where
  "UpdateBlobRef old new s =
     (if \<not> prefixb blob_prefix old \<or> \<not> prefixb blob_prefix new then fail KOther ''blob refs must use age_blob: prefix''
      else Inr (s\<lparr>st_bindings := tmod (\<lambda>b. sb_blob b = Some old) (\<lambda>b. b\<lparr>sb_blob := Some new\<rparr>) (st_bindings s),
        st_snapshots := tmod (\<lambda>d. ds_blob d = old) (\<lambda>d. d\<lparr>ds_blob := new\<rparr>) (st_snapshots s)\<rparr>))"

definition BlobRefCount :: "store \<Rightarrow> string \<Rightarrow> nat" where
  "BlobRefCount s r = tcount (\<lambda>x. x = r) (AllBlobRefs s)"

record snapshot_ref =
  sr_ns :: string
  sr_path :: string
  sr_bytes :: int
  sr_files :: int

definition DraftSnapshotsForBlobRef :: "string \<Rightarrow> store \<Rightarrow> snapshot_ref list" where
  "DraftSnapshotsForBlobRef r s = List.map_filter (\<lambda>d. case tget ns_id (ds_ns d) (st_entries s) of
      None \<Rightarrow> None
    | Some e \<Rightarrow> Some \<lparr>sr_ns = ds_ns d, sr_path = ns_path e, sr_bytes = ds_bytes d, sr_files = ds_files d\<rparr>)
     (filter (\<lambda>d. ds_blob d = r) (st_snapshots s))"

definition envProfileVarNamesForRef :: "string \<Rightarrow> string \<Rightarrow> store \<Rightarrow> string list" where
  "envProfileVarNamesForRef profile r s =
     sort (map sb_var (filter (\<lambda>b. sb_profile b = profile \<and> sb_blob b = Some r) (st_bindings s)))"

record profile_ref =
  er_ns :: string
  er_path :: string
  er_name :: string
  er_provider :: string
  er_mode :: string
  er_vars :: "string list"

definition EnvProfilesForBlobRef :: "string \<Rightarrow> store \<Rightarrow> profile_ref list" where
  "EnvProfilesForBlobRef r s = sort_key er_path (sort_key er_name (List.map_filter (\<lambda>e.
     case tget pf_id (ns_profile e) (st_profiles s) of
       None \<Rightarrow> None
     | Some p \<Rightarrow>
         if ns_status e = projectionStatusActive \<and> envProfileVarNamesForRef (pf_id p) r s \<noteq> []
         then Some \<lparr>er_ns = ns_id e, er_path = ns_path e, er_name = pf_name p, er_provider = pf_provider p,
                er_mode = pf_mode p, er_vars = envProfileVarNamesForRef (pf_id p) r s\<rparr>
         else None) (st_entries s)))"

definition QueuePendingHubDelete :: "string \<Rightarrow> store \<Rightarrow> store" where
  "QueuePendingHubDelete r s = s\<lparr>st_pending_deletes := tins (\<lambda>x. x) r (st_pending_deletes s)\<rparr>"

definition PendingHubDeletes :: "store \<Rightarrow> string list" where
  "PendingHubDeletes s = st_pending_deletes s"

definition ClearPendingHubDelete :: "string \<Rightarrow> store \<Rightarrow> store" where
  "ClearPendingHubDelete r s = s\<lparr>st_pending_deletes := tdel (\<lambda>x. x = r) (st_pending_deletes s)\<rparr>"


subsection \<open>Bindings\<close>

text \<open>The constraints of the \<^verbatim>\<open>secret_bindings\<close> table: one binding per profile and name, and a
  binding refers either to a provider or to an encrypted blob.\<close>

definition bindings_ok :: "store \<Rightarrow> bool" where
  "bindings_ok s \<longleftrightarrow> uniq (\<lambda>b. (sb_profile b, sb_var b)) (st_bindings s) \<and>
     (\<forall>b \<in> set (st_bindings s). (sb_ref b = None) \<noteq> (sb_blob b = None) \<and>
        (\<forall>r. sb_blob b = Some r \<longrightarrow> prefixb blob_prefix r))"

lemma insert_bindings_parts:
  assumes "insert_bindings w p profile flags vs s = Inr s'"
  shows "\<exists>bs n. s' = s\<lparr>st_bindings := st_bindings s @ bs, st_fresh := n\<rparr> \<and> map sb_var bs = vs \<and>
     (\<forall>b \<in> set bs. sb_profile b = profile \<and> sb_rotate b = flags (sb_var b) \<and>
        sb_ref b = (if en_provider p = devstrap_encrypted then None else map_of (en_refs p) (sb_var b)) \<and>
        sb_blob b = (if en_provider p = devstrap_encrypted then Some (en_blob p) else None)) \<and>
     (uniq (\<lambda>b. (sb_profile b, sb_var b)) (st_bindings s) \<longrightarrow> uniq (\<lambda>b. (sb_profile b, sb_var b)) (st_bindings s'))"
  using assms
proof (induction vs arbitrary: s)
  case Nil
  then have "s' = s\<lparr>st_bindings := st_bindings s @ [], st_fresh := st_fresh s\<rparr>" by simp
  then show ?case by (intro exI [of _ "[]"] exI [of _ "st_fresh s"]) auto
next
  case (Cons v vs)
  obtain i s1 where i: "new_id w ''sec'' s = (i, s1)" by fastforce
  then have s1: "s1 = s\<lparr>st_fresh := Suc (st_fresh s)\<rparr>" by (simp add: new_id_def)
  define b where "b = \<lparr>sb_id = i, sb_profile = profile, sb_var = v,
     sb_ref = (if en_provider p = devstrap_encrypted then None else map_of (en_refs p) v),
     sb_blob = (if en_provider p = devstrap_encrypted then Some (en_blob p) else None), sb_rotate = flags v\<rparr>"
  have new: "\<not> list_ex (\<lambda>b. sb_profile b = profile \<and> sb_var b = v) (st_bindings s)"
    and rest: "insert_bindings w p profile flags vs (s1\<lparr>st_bindings := st_bindings s @ [b]\<rparr>) = Inr s'"
    using Cons.prems by (auto simp: i s1 b_def Let_def split: if_splits)
  have "uniq (\<lambda>b. (sb_profile b, sb_var b)) (st_bindings s) \<Longrightarrow>
      uniq (\<lambda>b. (sb_profile b, sb_var b)) (st_bindings s @ [b])"
    using new by (auto simp: uniq_snoc tget_None b_def list_ex_iff)
  with Cons.IH [OF rest] obtain bs n where
    "s' = s1\<lparr>st_bindings := st_bindings s @ b # bs, st_fresh := n\<rparr>" "map sb_var bs = vs"
    "\<forall>b \<in> set bs. sb_profile b = profile \<and> sb_rotate b = flags (sb_var b) \<and>
        sb_ref b = (if en_provider p = devstrap_encrypted then None else map_of (en_refs p) (sb_var b)) \<and>
        sb_blob b = (if en_provider p = devstrap_encrypted then Some (en_blob p) else None)"
    "uniq (\<lambda>b. (sb_profile b, sb_var b)) (st_bindings s) \<longrightarrow> uniq (\<lambda>b. (sb_profile b, sb_var b)) (st_bindings s')"
    by auto
  then show ?case by (intro exI [of _ "b # bs"] exI [of _ n]) (auto simp: s1 b_def)
qed

lemma validate_env_shape:
  assumes "validate_env p0 = Inr (p, vars)" and "v \<in> set vars"
  shows "if en_provider p = devstrap_encrypted then prefixb blob_prefix (en_blob p) else map_of (en_refs p) v \<noteq> None"
proof -
  have "map_of (en_refs p) v \<noteq> None" if "vars = sort (map fst (en_refs p))"
    using assms(2) that by (simp add: map_of_eq_None_iff)
  then show ?thesis
    using assms(1) by (auto simp: validate_env_def Let_def split: if_split_asm)
qed

definition binding_frame :: "string \<Rightarrow> store \<Rightarrow> store \<Rightarrow> bool" where
  "binding_frame profile s s' \<longleftrightarrow>
     filter (\<lambda>b. sb_profile b \<noteq> profile) (st_bindings s') = filter (\<lambda>b. sb_profile b \<noteq> profile) (st_bindings s)"

lemma upsert_env_parts:
  assumes "UpsertEnvProfileTx w ns p0 ev s = Inr s'" and "active_entry ns s = Some e" and "ns_profile e \<noteq> []"
  obtains p vars bs n where "validate_env p0 = Inr (p, vars)"
    and "st_bindings s' = tdel (\<lambda>b. sb_profile b = ns_profile e) (st_bindings s) @ bs" and "map sb_var bs = vars"
    and "\<forall>b \<in> set bs. sb_profile b = ns_profile e \<and>
        sb_rotate b = envBindingRotationFlags (ns_profile e) s (sb_var b) \<and>
        sb_ref b = (if en_provider p = devstrap_encrypted then None else map_of (en_refs p) (sb_var b)) \<and>
        sb_blob b = (if en_provider p = devstrap_encrypted then Some (en_blob p) else None)"
    and "uniq (\<lambda>b. (sb_profile b, sb_var b)) (st_bindings s) \<longrightarrow> uniq (\<lambda>b. (sb_profile b, sb_var b)) (st_bindings s')"
    and "st_profiles s' = tmod (\<lambda>x. pf_id x = ns_profile e) (\<lambda>x. x\<lparr>pf_name := en_name p,
       pf_provider := en_provider p, pf_mode := en_mode p, pf_src := event_source ev\<rparr>) (st_profiles s)"
    and "st_entries s' = st_entries s"
proof -
  obtain p vars where v: "validate_env p0 = Inr (p, vars)"
    and i: "insert_bindings w p (ns_profile e) (envBindingRotationFlags (ns_profile e) s) vars
      (s\<lparr>st_profiles := tmod (\<lambda>x. pf_id x = ns_profile e)
            (\<lambda>x. x\<lparr>pf_name := en_name p, pf_provider := en_provider p, pf_mode := en_mode p, pf_src := event_source ev\<rparr>)
            (st_profiles s),
          st_bindings := tdel (\<lambda>b. sb_profile b = ns_profile e) (st_bindings s)\<rparr>) = Inr s'"
    using assms by (auto simp: UpsertEnvProfileTx_def put_profile_def split: if_splits)
  have u: "uniq (\<lambda>b. (sb_profile b, sb_var b)) (st_bindings s) \<Longrightarrow>
      uniq (\<lambda>b. (sb_profile b, sb_var b)) (tdel (\<lambda>b. sb_profile b = ns_profile e) (st_bindings s))"
    by (rule uniq_tdel)
  show ?thesis
    using insert_bindings_parts [OF i] u by (elim exE conjE) (rule that [OF v]; simp)
qed

text \<open>Re-encrypting an env profile never forgets that a value leaked: replacing the bindings of
  an attached profile keeps, for every name, the rotation flag that name had, binds exactly the
  validated names, leaves the bindings of every other profile alone, and keeps the constraints of
  the bindings table.\<close>

theorem rewrap_keeps_rotation:
  assumes "UpsertEnvProfileTx w ns p ev s = Inr s'" and "active_entry ns s = Some e" and "ns_profile e \<noteq> []"
    and "bindings_ok s"
  shows "bindings_ok s' \<and> binding_frame (ns_profile e) s s' \<and>
     (\<exists>q vars. validate_env p = Inr (q, vars) \<and>
        map sb_var (filter (\<lambda>b. sb_profile b = ns_profile e) (st_bindings s')) = vars) \<and>
     (\<forall>b \<in> set (st_bindings s'). sb_profile b = ns_profile e \<longrightarrow>
        sb_rotate b = envBindingRotationFlags (ns_profile e) s (sb_var b))"
  using assms(1-3)
proof (rule upsert_env_parts)
  fix q vars bs n
  assume v: "validate_env p = Inr (q, vars)"
    and b: "st_bindings s' = tdel (\<lambda>b. sb_profile b = ns_profile e) (st_bindings s) @ bs" "map sb_var bs = vars"
    and bs: "\<forall>b \<in> set bs. sb_profile b = ns_profile e \<and>
        sb_rotate b = envBindingRotationFlags (ns_profile e) s (sb_var b) \<and>
        sb_ref b = (if en_provider q = devstrap_encrypted then None else map_of (en_refs q) (sb_var b)) \<and>
        sb_blob b = (if en_provider q = devstrap_encrypted then Some (en_blob q) else None)"
    and u: "uniq (\<lambda>b. (sb_profile b, sb_var b)) (st_bindings s) \<longrightarrow> uniq (\<lambda>b. (sb_profile b, sb_var b)) (st_bindings s')"
  have sh: "x \<in> set bs \<Longrightarrow> if en_provider q = devstrap_encrypted then prefixb blob_prefix (en_blob q)
      else map_of (en_refs q) (sb_var x) \<noteq> None" for x
    by (rule validate_env_shape [OF v]) (simp add: b(2) [symmetric])
  have "(sb_ref x = None) \<noteq> (sb_blob x = None) \<and> (\<forall>r. sb_blob x = Some r \<longrightarrow> prefixb blob_prefix r)"
    if "x \<in> set bs" for x
    using bs that sh [OF that] by (simp split: if_splits)
  then have "bindings_ok s'"
    using assms(4) u by (auto simp: bindings_ok_def b(1) tdel_def)
  moreover have f: "filter (\<lambda>b. sb_profile b \<noteq> ns_profile e) bs = []" "filter (\<lambda>b. sb_profile b = ns_profile e) bs = bs"
    using bs by (auto simp: filter_empty_conv filter_id_conv)
  then have "binding_frame (ns_profile e) s s'" by (simp add: binding_frame_def b(1) tdel_def)
  moreover have "map sb_var (filter (\<lambda>b. sb_profile b = ns_profile e) (st_bindings s')) = vars"
    using f b(2) by (simp add: b(1) tdel_def)
  moreover have "\<forall>b \<in> set (st_bindings s'). sb_profile b = ns_profile e \<longrightarrow>
        sb_rotate b = envBindingRotationFlags (ns_profile e) s (sb_var b)"
    using bs by (auto simp: b(1) tdel_def)
  ultimately show ?thesis using v by blast
qed

definition sample_env_store :: store where
  "sample_env_store = (empty_store ''ws'')\<lparr>
     st_entries := [(new_entry ''n'' \<lparr>p_display = ''a'', p_key = ''a''\<rparr> (tombstone_params \<lparr>p_display = ''a'', p_key = ''a''\<rparr>))
       \<lparr>ns_profile := ''p''\<rparr>],
     st_profiles := [\<lparr>pf_id = ''p'', pf_name = ''default'', pf_provider = devstrap_encrypted,
       pf_mode = ''hydrate_or_runtime'', pf_src = None\<rparr>],
     st_bindings := [\<lparr>sb_id = ''b'', sb_profile = ''p'', sb_var = ''KEY'', sb_ref = None,
       sb_blob = Some ''age_blob:1'', sb_rotate = True\<rparr>]\<rparr>"

definition sample_env :: env_params where
  "sample_env = \<lparr>en_name = [], en_provider = devstrap_encrypted, en_mode = [], en_blob = ''age_blob:2'',
     en_vars = [''KEY''], en_refs = []\<rparr>"

lemma sample_upsert_env: "\<exists>s'. UpsertEnvProfileTx (plain_world 0) ''n'' sample_env event_zero sample_env_store = Inr s'"
  by (simp add: UpsertEnvProfileTx_def validate_env_def sample_env_def sample_env_store_def devstrap_encrypted_def
      prefixb_def blob_prefix_def active_entry_def put_profile_def tdel_def new_id_def Let_def)

theorem rewrap_keeps_rotation_witness:
  "\<exists>s'. UpsertEnvProfileTx (plain_world 0) ''n'' sample_env event_zero sample_env_store = Inr s' \<and> bindings_ok s'"
proof -
  have "\<exists>e. active_entry ''n'' sample_env_store = Some e \<and> ns_profile e = ''p''"
    by (simp add: active_entry_def sample_env_store_def)
  then obtain e where e: "active_entry ''n'' sample_env_store = Some e" "ns_profile e \<noteq> []" by auto
  have ok: "bindings_ok sample_env_store"
    by (simp add: bindings_ok_def sample_env_store_def uniq_def prefixb_def blob_prefix_def)
  obtain s' where s': "UpsertEnvProfileTx (plain_world 0) ''n'' sample_env event_zero sample_env_store = Inr s'"
    using sample_upsert_env by blast
  show ?thesis using rewrap_keeps_rotation [OF s' e ok] s' by blast
qed


subsection \<open>Pruning keeps the current snapshot\<close>

lemma snap_less_irrefl [simp]: "\<not> snap_less a a"
  by (simp add: snap_less_def)

lemma snap_less_trans: "snap_less a b \<Longrightarrow> snap_less b c \<Longrightarrow> snap_less a c"
  by (auto simp: snap_less_def dest: coord_less_trans)

lemma snap_less_total: "ds_id a \<noteq> ds_id b \<Longrightarrow> snap_less a b \<or> snap_less b a"
  using coord_less_total [of "ds_src a" "ds_src b"] by (auto simp: snap_less_def)

lemma snap_less_asym: "snap_less a b \<Longrightarrow> \<not> snap_less b a"
  using snap_less_trans snap_less_irrefl by blast

lemma snap_less_neg:
  assumes "\<not> snap_less e x" "snap_less a x"
  shows "snap_less a e"
proof (cases "snap_less x e")
  case True
  then show ?thesis using assms(2) snap_less_trans by blast
next
  case False
  then have "ds_src x = ds_src e" "ds_created x = ds_created e" "ds_id x = ds_id e"
    using assms(1) coord_less_total [of "ds_src x" "ds_src e"] by (auto simp: snap_less_def)
  then show ?thesis using assms(2) by (simp add: snap_less_def)
qed

lemma latest_snap_None [simp]: "latest_snap ds = None \<longleftrightarrow> ds = []"
  by (cases ds) (auto split: option.splits)

lemma latest_snap_max: "latest_snap ds = Some d \<Longrightarrow> d \<in> set ds \<and> (\<forall>x \<in> set ds. \<not> snap_less d x)"
proof (induction ds arbitrary: d)
  case (Cons a ds)
  show ?case
  proof (cases "latest_snap ds")
    case None
    then show ?thesis using Cons.prems by simp
  next
    case (Some e)
    note e = Cons.IH [OF Some]
    show ?thesis
    proof (cases "snap_less a e")
      case True
      then have "d = e" using Cons.prems Some by simp
      then show ?thesis using e snap_less_asym [OF True] by simp
    next
      case False
      then have "d = a" using Cons.prems Some by simp
      moreover have "\<not> snap_less a x" if "x \<in> set ds" for x
        using e that False snap_less_neg [of e x a] by blast
      ultimately show ?thesis by simp
    qed
  qed
qed simp

lemma latest_snap_unique:
  assumes "uniq ds_id ds" "d \<in> set ds" "\<forall>x \<in> set ds. \<not> snap_less d x"
  shows "latest_snap ds = Some d"
proof -
  obtain e where e: "latest_snap ds = Some e" using assms(2) by (cases "latest_snap ds") auto
  then have m: "e \<in> set ds" "\<not> snap_less e d" "\<not> snap_less d e" using latest_snap_max assms(2,3) by blast+
  then have "ds_id e = ds_id d" using snap_less_total by blast
  then have "e = d" using assms(1,2) m(1) by (auto simp: uniq_def distinct_map inj_on_def)
  then show ?thesis using e by simp
qed

lemma uniq_filter: "uniq key ds \<Longrightarrow> uniq key (filter P ds)"
  by (auto simp: uniq_def distinct_map_filter)

lemma rank_latest:
  assumes "LatestDraftSnapshot ns s = Some d"
  shows "snap_rank (st_snapshots s) d = 1"
proof -
  have "\<forall>x \<in> set (st_snapshots s). \<not> (ds_ns x = ds_ns d \<and> snap_less d x)"
    using latest_snap_max [OF assms [unfolded LatestDraftSnapshot_def]] by auto
  then have "filter (\<lambda>x. ds_ns x = ds_ns d \<and> snap_less d x) (st_snapshots s) = []" by (simp add: filter_empty_conv)
  then show ?thesis by (simp add: snap_rank_def tcount_def)
qed

text \<open>Ranks of one namespace are all different, so at most \<open>k\<close> rows have a rank up to \<open>k\<close>.\<close>

lemma snap_rank_less:
  assumes "b \<in> set ds" "ds_ns a = ds_ns b" "snap_less a b"
  shows "snap_rank ds b < snap_rank ds a"
proof -
  have "set (filter (\<lambda>x. ds_ns x = ds_ns b \<and> snap_less b x) ds) \<subseteq> set (filter (\<lambda>x. ds_ns x = ds_ns a \<and> snap_less a x) ds)"
    using assms(2,3) snap_less_trans by auto
  have "tcount (\<lambda>x. ds_ns x = ds_ns b \<and> snap_less b x) ds + tcount (\<lambda>x. x = b) ds
      \<le> tcount (\<lambda>x. ds_ns x = ds_ns a \<and> snap_less a x) ds"
    using assms(2,3)
  proof (induction ds)
    case (Cons c ds)
    then show ?case using snap_less_trans [of a b c] by (auto simp: tcount_def)
  qed (simp add: tcount_def)
  moreover have "tcount (\<lambda>x. x = b) ds > 0" using assms(1) by (auto simp: tcount_def filter_empty_conv)
  ultimately show ?thesis by (simp add: snap_rank_def)
qed

lemma few_ranks:
  assumes "uniq ds_id ds"
  shows "length (filter (\<lambda>d. ds_ns d = ns \<and> snap_rank ds d \<le> k) ds) \<le> k"
proof -
  let ?A = "set (filter (\<lambda>d. ds_ns d = ns \<and> snap_rank ds d \<le> k) ds)"
  have inj: "inj_on (snap_rank ds) ?A"
  proof (rule inj_onI)
    fix a b assume ab: "a \<in> ?A" "b \<in> ?A" "snap_rank ds a = snap_rank ds b"
    then have "\<not> snap_less a b" "\<not> snap_less b a"
      using snap_rank_less [of b ds a] snap_rank_less [of a ds b] by auto
    then have "ds_id a = ds_id b" using snap_less_total by blast
    then show "a = b" using assms ab by (auto simp: uniq_def distinct_map inj_on_def)
  qed
  have "snap_rank ds ` ?A \<subseteq> {1..k}" by (auto simp: snap_rank_def)
  then have "card ?A \<le> k" using card_inj_on_le [OF inj, of "{1..k}"] by simp
  moreover have "distinct ds" using assms by (auto simp: uniq_def distinct_map)
  then have "distinct (filter (\<lambda>d. ds_ns d = ns \<and> snap_rank ds d \<le> k) ds)" by simp
  ultimately show ?thesis by (simp add: distinct_card [symmetric])
qed

text \<open>Pruning drafts is safe and the dry run is honest: pruning never changes which snapshot is
  the latest of a project, leaves at most the requested number (at least one) per project, reports
  the number of rows it removed, and leaves referenced exactly the blobs that the dry run of the
  hub's garbage collection announces.\<close>

theorem prune_keeps_latest:
  assumes "PruneDraftSnapshots keep s = (n, s')" and "uniq ds_id (st_snapshots s)"
    and "\<forall>d \<in> set (st_snapshots s). like_blob (ds_blob d)"
  shows "LatestDraftSnapshot ns s' = LatestDraftSnapshot ns s \<and>
     length (filter (\<lambda>d. ds_ns d = ns) (st_snapshots s')) \<le> nat (max 1 keep) \<and>
     n + length (st_snapshots s') = length (st_snapshots s) \<and>
     AllBlobRefs s' = RetainedBlobRefs keep s"
proof -
  define k where "k = nat (max 1 keep)"
  define P where "P d \<longleftrightarrow> snap_rank (st_snapshots s) d > k" for d
  have k: "nat (if keep < 1 then 1 else keep) = k" "k \<ge> 1" by (auto simp: k_def max_def)
  have s': "s' = s\<lparr>st_snapshots := tdel P (st_snapshots s)\<rparr>" "n = tcount P (st_snapshots s)"
    using assms(1) by (auto simp: PruneDraftSnapshots_def Let_def k(1) P_def [abs_def])
  have sn: "st_snapshots s' = filter (\<lambda>d. \<not> P d) (st_snapshots s)" by (simp add: s' tdel_def)
  have sub: "filter (\<lambda>d. ds_ns d = ns) (st_snapshots s') = filter (\<lambda>d. \<not> P d) (filter (\<lambda>d. ds_ns d = ns) (st_snapshots s))"
    by (simp add: sn conj_commute)
  have "LatestDraftSnapshot ns s' = LatestDraftSnapshot ns s"
  proof (cases "LatestDraftSnapshot ns s")
    case None
    then show ?thesis by (simp add: LatestDraftSnapshot_def sub)
  next
    case (Some d)
    then have d: "d \<in> set (st_snapshots s)" "ds_ns d = ns"
      "\<forall>x \<in> set (st_snapshots s). ds_ns x = ns \<longrightarrow> \<not> snap_less d x"
      using latest_snap_max [of "filter (\<lambda>d. ds_ns d = ns) (st_snapshots s)" d] by (auto simp: LatestDraftSnapshot_def)
    have "\<not> P d" using rank_latest [OF Some] k(2) by (simp add: P_def)
    then have "latest_snap (filter (\<lambda>d. ds_ns d = ns) (st_snapshots s')) = Some d"
      using d by (intro latest_snap_unique) (auto simp: sn intro!: uniq_filter assms(2))
    then show ?thesis using Some by (simp add: LatestDraftSnapshot_def)
  qed
  moreover have "length (filter (\<lambda>d. ds_ns d = ns) (st_snapshots s')) \<le> k"
    using few_ranks [OF assms(2), of ns k] by (simp add: sn P_def not_less conj_commute)
  moreover have "n + length (st_snapshots s') = length (st_snapshots s)"
    using sum_length_filter_compl [of P "st_snapshots s"] by (simp add: sn s'(2) tcount_def)
  moreover have "AllBlobRefs s' = RetainedBlobRefs keep s"
  proof -
    have lk: "filter (\<lambda>d. like_blob (ds_blob d)) (st_snapshots s) = st_snapshots s"
      using assms(3) by (simp add: filter_id_conv)
    have "env_refs s' = env_refs s" by (simp add: env_refs_def s')
    moreover have "filter like_blob (map ds_blob (st_snapshots s')) =
        map ds_blob (filter (\<lambda>d. snap_rank (st_snapshots s) d \<le> k) (st_snapshots s))"
      using assms(3) by (auto simp: sn P_def not_less filter_map comp_def intro!: arg_cong [of _ _ "map ds_blob"] filter_cong)
    ultimately show ?thesis by (simp add: AllBlobRefs_def RetainedBlobRefs_def Let_def k(1) lk)
  qed
  ultimately show ?thesis by (simp add: k_def)
qed

definition sample_snap :: "string \<Rightarrow> int \<Rightarrow> draft_snapshot" where
  "sample_snap i h = \<lparr>ds_id = i, ds_ns = ''n'', ds_blob = ''age_blob:'' @ i, ds_bytes = 1, ds_files = 1,
     ds_src = \<lparr>c_hlc = h, c_dev = ''d'', c_id = i\<rparr>, ds_created = ''t''\<rparr>"

theorem prune_keeps_latest_witness:
  "LatestDraftSnapshot ''n'' (snd (PruneDraftSnapshots 0 ((empty_store ''ws'')
      \<lparr>st_snapshots := [sample_snap ''a'' 3, sample_snap ''b'' 7, sample_snap ''c'' 5]\<rparr>))) = Some (sample_snap ''b'' 7)"
proof -
  let ?s = "(empty_store ''ws'')\<lparr>st_snapshots := [sample_snap ''a'' 3, sample_snap ''b'' 7, sample_snap ''c'' 5]\<rparr>"
  obtain n s' where p: "PruneDraftSnapshots 0 ?s = (n, s')" by fastforce
  have u: "uniq ds_id (st_snapshots ?s)" by (simp add: uniq_def sample_snap_def)
  have l: "\<forall>d \<in> set (st_snapshots ?s). like_blob (ds_blob d)"
    by (simp add: sample_snap_def like_blob_def lower_ascii_char_def)
  have "LatestDraftSnapshot ''n'' ?s = Some (sample_snap ''b'' 7)"
    by (simp add: LatestDraftSnapshot_def snap_less_def coord_less_def sample_snap_def)
  then show ?thesis using prune_keeps_latest [OF p u l, of "''n''"] p by simp
qed

end
