(* ===== verification/Mirrors.thy ===== *)
theory Mirrors
  imports Store_State Convergence
begin

section \<open>Mirrors of the peers' working state\<close>

text \<open>
  \<^verbatim>\<open>src/internal/state/device_gitstate.go\<close> and \<^verbatim>\<open>device_wip.go\<close>: one row per device and
  path key, overwritten by the newest observation; a dropped WIP ref is kept as a tombstone. The
  read predicate \<^verbatim>\<open>deviceWipLivePredicate\<close> decides which rows are shown.
\<close>

definition gs_at :: "gitstate \<Rightarrow> string \<times> string" where "gs_at g = (gs_dev g, gs_key g)"
definition wm_at :: "wip \<Rightarrow> string \<times> string" where "wm_at r = (wm_dev r, wm_key r)"

definition UpsertDeviceGitstateTx ::
  "string \<Rightarrow> string \<Rightarrow> string \<Rightarrow> gitstate_payload \<Rightarrow> event \<Rightarrow> store \<Rightarrow> store" where
  "UpsertDeviceGitstateTx dev key path p ev s = s\<lparr>st_gitstate := tput gs_at
     \<lparr>gs_dev = dev, gs_key = key, gs_path = path, gs_obs = p, gs_hlc = ev_hlc ev, gs_event = ev_id ev\<rparr>
     (\<lambda>g. if ev_hlc ev \<ge> gs_hlc g
          then g\<lparr>gs_path := path, gs_obs := p, gs_hlc := ev_hlc ev, gs_event := ev_id ev\<rparr> else g) (st_gitstate s)\<rparr>"

definition DeviceGitstateForProject :: "string \<Rightarrow> store \<Rightarrow> gitstate list" where
  "DeviceGitstateForProject key s = sort_key (\<lambda>g. - gs_hlc g) (filter (\<lambda>g. gs_key g = key) (st_gitstate s))"

record wip_params =
  wi_ref :: string
  wi_sha :: string
  wi_base :: string
  wi_captured :: string

definition UpsertDeviceWipTx :: "string \<Rightarrow> string \<Rightarrow> string \<Rightarrow> wip_params \<Rightarrow> event \<Rightarrow> store \<Rightarrow> store" where
  "UpsertDeviceWipTx dev key path p ev s = s\<lparr>st_wip := tput wm_at
     \<lparr>wm_dev = dev, wm_key = key, wm_path = path, wm_ref = wi_ref p, wm_sha = wi_sha p, wm_base = wi_base p,
      wm_captured = wi_captured p, wm_hlc = ev_hlc ev, wm_event = ev_id ev, wm_drop_hlc = None, wm_drop_sha = None\<rparr>
     (\<lambda>r. if ev_hlc ev \<ge> wm_hlc r
          then r\<lparr>wm_path := path, wm_ref := wi_ref p, wm_sha := wi_sha p, wm_base := wi_base p,
                 wm_captured := wi_captured p, wm_hlc := ev_hlc ev, wm_event := ev_id ev\<rparr>
          else r) (st_wip s)\<rparr>"

definition TombstoneDeviceWipTx :: "string \<Rightarrow> string \<Rightarrow> string \<Rightarrow> string \<Rightarrow> event \<Rightarrow> store \<Rightarrow> store" where
  "TombstoneDeviceWipTx dev key path sha ev s = s\<lparr>st_wip := tput wm_at
     \<lparr>wm_dev = dev, wm_key = key, wm_path = path, wm_ref = [], wm_sha = [], wm_base = [], wm_captured = [],
      wm_hlc = 0, wm_event = ev_id ev, wm_drop_hlc = Some (ev_hlc ev), wm_drop_sha = Some sha\<rparr>
     (\<lambda>r. r\<lparr>wm_drop_sha :=
              (if ev_hlc ev > or_else (wm_drop_hlc r) 0 \<or>
                  ev_hlc ev = or_else (wm_drop_hlc r) 0 \<and> sha < or_else (wm_drop_sha r) []
               then Some sha else wm_drop_sha r),
            wm_drop_hlc := Some (max (or_else (wm_drop_hlc r) 0) (ev_hlc ev))\<rparr>) (st_wip s)\<rparr>"

definition deviceWipLivePredicate :: "wip \<Rightarrow> bool" where
  "deviceWipLivePredicate r \<longleftrightarrow> (case wm_drop_hlc r of
      None \<Rightarrow> True
    | Some d \<Rightarrow> wm_hlc r > d \<or>
        wm_hlc r > 0 \<and> or_else (wm_drop_sha r) [] \<noteq> [] \<and> wm_sha r \<noteq> or_else (wm_drop_sha r) [])"

definition DeviceWipForProject :: "string \<Rightarrow> store \<Rightarrow> wip list" where
  "DeviceWipForProject key s =
     sort_key (\<lambda>r. - wm_hlc r) (filter (\<lambda>r. wm_key r = key \<and> deviceWipLivePredicate r) (st_wip s))"

definition DeviceWipAll :: "store \<Rightarrow> wip list" where
  "DeviceWipAll s = sort_key wm_key (sort_key (\<lambda>r. - wm_hlc r) (filter deviceWipLivePredicate (st_wip s)))"

definition ShaAgnosticTombstoneRefs :: "store \<Rightarrow> string \<Rightarrow> bool" where
  "ShaAgnosticTombstoneRefs s ref \<longleftrightarrow> list_ex (\<lambda>r. wm_ref r = ref \<and> wm_drop_hlc r \<noteq> None \<and>
     or_else (wm_drop_sha r) [] = [] \<and> wm_ref r \<noteq> []) (st_wip s)"

subsection \<open>The registers behind the mirrors\<close>

text \<open>The newest observation: a later or equal HLC replaces.\<close>

fun newest :: "(int \<times> 'c) option \<Rightarrow> (int \<times> 'c) option \<Rightarrow> (int \<times> 'c) option" where
  "newest v None = v"
| "newest None (Some x) = Some x"
| "newest (Some v) (Some x) = (if fst x \<ge> fst v then Some x else Some v)"

definition same_if_tied :: "(int \<times> 'c) option \<Rightarrow> (int \<times> 'c) option \<Rightarrow> bool" where
  "same_if_tied a b \<longleftrightarrow> (case (a, b) of (Some x, Some y) \<Rightarrow> fst x = fst y \<longrightarrow> x = y | _ \<Rightarrow> True)"

lemma newest_idem: "newest (newest v c) c = newest v c"
  by (cases v; cases c) auto

lemma newest_swap: "same_if_tied c d \<Longrightarrow> newest (newest v c) d = newest (newest v d) c"
  by (cases v; cases c; cases d) (auto simp: same_if_tied_def)

text \<open>The latest drop: a greater HLC, or the same with a smaller SHA, replaces.\<close>

fun latest_drop :: "(int \<times> string) option \<Rightarrow> (int \<times> string) option \<Rightarrow> (int \<times> string) option" where
  "latest_drop v None = v"
| "latest_drop None (Some x) = Some x"
| "latest_drop (Some v) (Some x) =
     (if fst x > fst v \<or> fst x = fst v \<and> snd x < snd v then Some x else Some v)"

lemma latest_drop_idem: "latest_drop (latest_drop v c) c = latest_drop v c"
  by (cases v; cases c) auto

lemma latest_drop_swap: "latest_drop (latest_drop v c) d = latest_drop (latest_drop v d) c"
  by (cases v; cases c; cases d) (auto simp: prod_eq_iff)

subsection \<open>Observations of git state converge\<close>

record gitstate_op =
  go_dev :: string
  go_key :: string
  go_path :: string
  go_obs :: gitstate_payload
  go_event :: event

definition gitstate_step :: "gitstate_op \<Rightarrow> store \<Rightarrow> store" where
  "gitstate_step x = UpsertDeviceGitstateTx (go_dev x) (go_key x) (go_path x) (go_obs x) (go_event x)"

type_synonym gitstate_view = "(int \<times> string \<times> gitstate_payload \<times> string) option"

definition gitstate_claim :: "gitstate_op \<Rightarrow> gitstate_view" where
  "gitstate_claim x = Some (ev_hlc (go_event x), go_path x, go_obs x, ev_id (go_event x))"

definition gitstate_at :: "gitstate_op \<Rightarrow> string \<times> string" where "gitstate_at x = (go_dev x, go_key x)"

definition gitstate_view :: "store \<Rightarrow> string \<times> string \<Rightarrow> gitstate_view" where
  "gitstate_view s k = map_option (\<lambda>g. (gs_hlc g, gs_path g, gs_obs g, gs_event g)) (tget gs_at k (st_gitstate s))"

interpretation gitstate_reg: register_join newest same_if_tied gitstate_claim
  by unfold_locales (auto simp: newest_idem intro: newest_swap)

lemma gitstate_step_view:
  "gitstate_view (gitstate_step x s) = gitstate_reg.reg_step gitstate_at x (gitstate_view s)"
proof
  fix k
  show "gitstate_view (gitstate_step x s) k = gitstate_reg.reg_step gitstate_at x (gitstate_view s) k"
    by (cases "tget gs_at k (st_gitstate s)")
      (auto simp: gitstate_view_def gitstate_step_def UpsertDeviceGitstateTx_def gitstate_reg.reg_step_def
        gitstate_at_def gitstate_claim_def tget_tput gs_at_def)
qed

lemma gitstate_fold_view:
  "gitstate_view (fold gitstate_step xs s) = fold (gitstate_reg.reg_step gitstate_at) xs (gitstate_view s)"
  by (induction xs arbitrary: s) (simp_all add: gitstate_step_view)

text \<open>The git-state mirror converges: in whatever order and however often the observations are
  delivered, every device and path shows the same, newest observation (a device stamps no two
  observations of a path with one HLC).\<close>

theorem gitstate_mirror_converges:
  assumes "set xs = set ys"
    and "batch_of (\<lambda>a b. gitstate_at a = gitstate_at b \<longrightarrow> ev_hlc (go_event a) \<noteq> ev_hlc (go_event b)) xs"
  shows "gitstate_view (fold gitstate_step xs s) = gitstate_view (fold gitstate_step ys s)"
proof -
  have "batch_of (\<lambda>d e. gitstate_at d = gitstate_at e \<longrightarrow> same_if_tied (gitstate_claim d) (gitstate_claim e)) xs"
    using assms(2) by (auto simp: batch_of_def same_if_tied_def gitstate_claim_def)
  from gitstate_reg.reg.fold_redelivery [OF assms(1) this] show ?thesis
    by (simp add: gitstate_fold_view)
qed

definition sample_obs :: "string \<Rightarrow> gitstate_payload" where
  "sample_obs b = \<lparr>gp_path = ''k'', gp_branch = b, gp_head = [], gp_up_branch = [], gp_up_sha = [], gp_dirty = 0,
     gp_untracked = 0, gp_unmerged = 0, gp_ahead = 0, gp_behind = 0, gp_stash = 0\<rparr>"

theorem gitstate_mirror_converges_witness:
  "gitstate_view (fold gitstate_step [\<lparr>go_dev = ''d'', go_key = ''k'', go_path = ''k'', go_obs = sample_obs ''a'', go_event = event_zero\<lparr>ev_hlc := 1\<rparr>\<rparr>,
       \<lparr>go_dev = ''d'', go_key = ''k'', go_path = ''k'', go_obs = sample_obs ''b'', go_event = event_zero\<lparr>ev_hlc := 2\<rparr>\<rparr>] (empty_store ''ws'')) =
   gitstate_view (fold gitstate_step [\<lparr>go_dev = ''d'', go_key = ''k'', go_path = ''k'', go_obs = sample_obs ''b'', go_event = event_zero\<lparr>ev_hlc := 2\<rparr>\<rparr>,
       \<lparr>go_dev = ''d'', go_key = ''k'', go_path = ''k'', go_obs = sample_obs ''a'', go_event = event_zero\<lparr>ev_hlc := 1\<rparr>\<rparr>] (empty_store ''ws''))"
  by (rule gitstate_mirror_converges) (auto simp: batch_of_def)

subsection \<open>Pushed and dropped WIP refs converge\<close>

datatype wip_op =
    WipPush string string string wip_params event
  | WipDrop string string string string event

fun wip_step :: "wip_op \<Rightarrow> store \<Rightarrow> store" where
  "wip_step (WipPush dev key path p ev) s = UpsertDeviceWipTx dev key path p ev s"
| "wip_step (WipDrop dev key path sha ev) s = TombstoneDeviceWipTx dev key path sha ev s"

fun wip_at :: "wip_op \<Rightarrow> string \<times> string" where
  "wip_at (WipPush dev key path p ev) = (dev, key)"
| "wip_at (WipDrop dev key path sha ev) = (dev, key)"

fun wip_hlc :: "wip_op \<Rightarrow> int" where
  "wip_hlc (WipPush dev key path p ev) = ev_hlc ev"
| "wip_hlc (WipDrop dev key path sha ev) = ev_hlc ev"

type_synonym wip_view = "(int \<times> string \<times> wip_params \<times> string) option \<times> (int \<times> string) option"

fun wip_claim :: "wip_op \<Rightarrow> wip_view" where
  "wip_claim (WipPush dev key path p ev) = (Some (ev_hlc ev, path, p, ev_id ev), None)"
| "wip_claim (WipDrop dev key path sha ev) = (None, Some (ev_hlc ev, sha))"

definition wip_join :: "wip_view \<Rightarrow> wip_view \<Rightarrow> wip_view" where
  "wip_join v c = (newest (fst v) (fst c), latest_drop (snd v) (snd c))"

interpretation wip_reg: register_join wip_join "\<lambda>a b. same_if_tied (fst a) (fst b)" wip_claim
  by unfold_locales (auto simp: wip_join_def newest_idem latest_drop_idem intro: newest_swap latest_drop_swap)

definition row_wip_view :: "wip \<Rightarrow> wip_view" where
  "row_wip_view r =
     ((if wm_hlc r = 0 then None
       else Some (wm_hlc r, wm_path r, \<lparr>wi_ref = wm_ref r, wi_sha = wm_sha r, wi_base = wm_base r, wi_captured = wm_captured r\<rparr>,
              wm_event r)),
      (case wm_drop_hlc r of None \<Rightarrow> None | Some h \<Rightarrow> Some (h, or_else (wm_drop_sha r) [])))"

definition wip_view :: "store \<Rightarrow> string \<times> string \<Rightarrow> wip_view" where
  "wip_view s k = (case tget wm_at k (st_wip s) of None \<Rightarrow> (None, None) | Some r \<Rightarrow> row_wip_view r)"

text \<open>Rows the operations make: clocks are not negative, a drop is positive, and drop HLC and SHA
  are set together.\<close>

definition wip_ok :: "store \<Rightarrow> bool" where
  "wip_ok s \<longleftrightarrow> (\<forall>r \<in> set (st_wip s). wm_hlc r \<ge> 0 \<and> (wm_drop_hlc r = None) = (wm_drop_sha r = None) \<and>
     (\<forall>h. wm_drop_hlc r = Some h \<longrightarrow> h > 0))"

lemma in_tput: "x \<in> set (tput key r f t) \<Longrightarrow> x = r \<or> (\<exists>y \<in> set t. x = y \<or> x = f y)"
  by (auto simp: tput_def in_tmod split: if_splits)

lemma wip_step_ok: "wip_ok s \<Longrightarrow> wip_hlc x > 0 \<Longrightarrow> wip_ok (wip_step x s)"
  by (cases x) (auto simp: wip_ok_def UpsertDeviceWipTx_def TombstoneDeviceWipTx_def dest!: in_tput split: if_splits)

lemma wip_step_view:
  assumes "wip_ok s" "wip_hlc x > 0"
  shows "wip_view (wip_step x s) = wip_reg.reg_step wip_at x (wip_view s)"
proof
  fix k
  show "wip_view (wip_step x s) k = wip_reg.reg_step wip_at x (wip_view s) k"
  proof (cases "tget wm_at k (st_wip s)")
    case None
    then show ?thesis using assms(2)
      by (cases x) (auto simp: wip_view_def UpsertDeviceWipTx_def TombstoneDeviceWipTx_def tget_tput wm_at_def
          wip_reg.reg_step_def wip_join_def row_wip_view_def)
  next
    case (Some r)
    then have r: "wm_hlc r \<ge> 0" "(wm_drop_hlc r = None) = (wm_drop_sha r = None)" "\<And>h. wm_drop_hlc r = Some h \<Longrightarrow> h > 0"
      using assms(1) by (auto simp: wip_ok_def dest: tget_SomeD)
    show ?thesis
    proof (cases x)
      case (WipPush dev key path p ev)
      then show ?thesis using Some r(1) assms(2)
        by (cases "wm_drop_hlc r") (auto simp: wip_view_def UpsertDeviceWipTx_def tget_tput wm_at_def
            wip_reg.reg_step_def wip_join_def row_wip_view_def)
    next
      case (WipDrop dev key path sha ev)
      then show ?thesis using Some r assms(2)
        by (cases "wm_drop_hlc r"; cases "wm_drop_sha r")
          (auto simp: wip_view_def TombstoneDeviceWipTx_def tget_tput wm_at_def
            wip_reg.reg_step_def wip_join_def row_wip_view_def max_def)
    qed
  qed
qed

lemma wip_fold_view:
  assumes "wip_ok s" "\<forall>x \<in> set xs. wip_hlc x > 0"
  shows "wip_view (fold wip_step xs s) = fold (wip_reg.reg_step wip_at) xs (wip_view s)"
  using assms by (induction xs arbitrary: s) (simp_all add: wip_step_view wip_step_ok)

definition wip_view_live :: "wip_view \<Rightarrow> bool" where
  "wip_view_live v \<longleftrightarrow> (case v of
      (Some (h, _, p, _), Some (d, sha)) \<Rightarrow> h > d \<or> sha \<noteq> [] \<and> wi_sha p \<noteq> sha
    | (None, Some _) \<Rightarrow> False
    | _ \<Rightarrow> True)"

lemma live_view:
  assumes "wip_ok s" "tget wm_at k (st_wip s) = Some r"
  shows "deviceWipLivePredicate r = wip_view_live (wip_view s k)"
proof -
  have "wm_hlc r \<ge> 0" "\<And>h. wm_drop_hlc r = Some h \<Longrightarrow> h > 0"
    using assms by (auto simp: wip_ok_def dest: tget_SomeD)
  then show ?thesis using assms(2)
    by (cases "wm_drop_hlc r")
      (auto simp: deviceWipLivePredicate_def wip_view_live_def wip_view_def row_wip_view_def)
qed

text \<open>The WIP mirror converges: in whatever order and however often pushes and drops are
  delivered, every device and path ends with the same newest push and the same latest drop, and so
  with the same verdict on whether the ref is shown.\<close>

theorem wip_mirror_converges:
  assumes "set xs = set ys" and "wip_ok s" and "\<forall>x \<in> set xs. wip_hlc x > 0"
    and "batch_of (\<lambda>a b. wip_at a = wip_at b \<longrightarrow> same_if_tied (fst (wip_claim a)) (fst (wip_claim b))) xs"
  shows "wip_view (fold wip_step xs s) = wip_view (fold wip_step ys s) \<and>
     (\<forall>r q. tget wm_at k (st_wip (fold wip_step xs s)) = Some r \<and> tget wm_at k (st_wip (fold wip_step ys s)) = Some q
        \<longrightarrow> deviceWipLivePredicate r = deviceWipLivePredicate q)"
proof -
  have ok: "wip_ok (fold wip_step zs s)" if "\<forall>x \<in> set zs. wip_hlc x > 0" for zs
    using that assms(2) by (induction zs arbitrary: s) (simp_all add: wip_step_ok)
  have v: "wip_view (fold wip_step xs s) = wip_view (fold wip_step ys s)"
    using wip_reg.reg.fold_redelivery [OF assms(1,4)] assms(1-3) by (simp add: wip_fold_view)
  then show ?thesis
    using live_view [OF ok, of xs k] live_view [OF ok, of ys k] assms(1,3) by auto
qed

definition sample_push :: "int \<Rightarrow> string \<Rightarrow> wip_op" where
  "sample_push h sha = WipPush ''d'' ''k'' ''k'' \<lparr>wi_ref = ''r'', wi_sha = sha, wi_base = [], wi_captured = []\<rparr>
     (event_zero\<lparr>ev_hlc := h\<rparr>)"

definition sample_drop :: "int \<Rightarrow> string \<Rightarrow> wip_op" where
  "sample_drop h sha = WipDrop ''d'' ''k'' ''k'' sha (event_zero\<lparr>ev_hlc := h\<rparr>)"

theorem wip_mirror_converges_witness:
  "wip_view (fold wip_step [sample_push 1 ''a'', sample_drop 2 ''a'', sample_push 3 ''b''] (empty_store ''ws'')) =
   wip_view (fold wip_step [sample_drop 2 ''a'', sample_push 3 ''b'', sample_push 1 ''a''] (empty_store ''ws''))"
proof -
  have "wip_ok (empty_store ''ws'')" by (simp add: wip_ok_def)
  from wip_mirror_converges [OF _ this, of "[sample_push 1 ''a'', sample_drop 2 ''a'', sample_push 3 ''b'']"
      "[sample_drop 2 ''a'', sample_push 3 ''b'', sample_push 1 ''a'']"]
  show ?thesis
    by (auto simp: sample_push_def sample_drop_def batch_of_def same_if_tied_def event_zero_def)
qed

text \<open>A second drop forgets the first one: a push that was dropped, delivered late after a drop
  of a newer push of the same ref, is shown as pending WIP although its ref is gone, until the
  newer push arrives. The mirror keeps only the latest drop, and shows any observation whose SHA
  differs from that drop's.\<close>

theorem late_push_resurrected_by_second_drop:
  assumes "0 < h1" and "h1 < h2" and "h2 < h4" and "sha \<noteq> sha'" and "sha' \<noteq> []" and "wip_ok s"
    and "tget wm_at (dev, key) (st_wip s) = None"
    and "ev_hlc push = h1" and "ev_hlc drop1 = h2" and "ev_hlc drop2 = h4" and "wi_sha p = sha"
  shows "\<exists>r. tget wm_at (dev, key) (st_wip (fold wip_step
       [WipDrop dev key path sha drop1, WipDrop dev key path sha' drop2, WipPush dev key path p push] s)) = Some r \<and>
     deviceWipLivePredicate r \<and> wm_sha r = sha"
  using assms
  by (auto simp: UpsertDeviceWipTx_def TombstoneDeviceWipTx_def tget_tput wm_at_def deviceWipLivePredicate_def)

theorem late_push_resurrected_by_second_drop_witness:
  "\<exists>r. tget wm_at (''d'', ''k'') (st_wip (fold wip_step
     [sample_drop 2 ''a'', sample_drop 4 ''b'', sample_push 1 ''a''] (empty_store ''ws''))) = Some r \<and>
     deviceWipLivePredicate r \<and> wm_sha r = ''a''"
  unfolding sample_drop_def sample_push_def
  by (rule late_push_resurrected_by_second_drop) (auto simp: wip_ok_def event_zero_def)

end
