(* ===== verification/Stream_Fold.thy ===== *)
theory Stream_Fold
  imports Event_Log
begin

section \<open>The folded hash of a device's stream\<close>

text \<open>
  \<^verbatim>\<open>src/internal/fold/fold.go\<close> and \<^verbatim>\<open>DeviceFold\<close> of \<^verbatim>\<open>state/device_heads.go\<close>: the
  running commitment over the events of one device, its text form, and the walk over the stored
  events from the anchor (or from the seed of the stream) to the first gap.
\<close>

subsection \<open>Seed, Step and the text form\<close>

definition seedDomain :: string where "seedDomain = ''devstrap:devicehead-fold-seed:v1''"
definition stepDomain :: string where "stepDomain = ''devstrap:devicehead-fold-step:v1''"

text \<open>\<^verbatim>\<open>binary.BigEndian.PutUint64(s, uint64(seq))\<close>\<close>

definition be64 :: "int \<Rightarrow> string" where
  "be64 n = map (\<lambda>k. chr (nat (n div 256 ^ k mod 256))) [7, 6, 5, 4, 3, 2, 1, 0]"

definition seed_input :: "string \<Rightarrow> string \<Rightarrow> string" where
  "seed_input workspaceID deviceID = seedDomain @ [chr 0] @ workspaceID @ [chr 0] @ deviceID"

definition Seed :: "world \<Rightarrow> string \<Rightarrow> string \<Rightarrow> string" where
  "Seed w workspaceID deviceID = w_sha w (seed_input workspaceID deviceID)"

definition step_input :: "string \<Rightarrow> int \<Rightarrow> string \<Rightarrow> string" where
  "step_input prev seq contentHash = stepDomain @ [chr 0] @ prev @ be64 seq @ contentHash"

definition Step :: "world \<Rightarrow> string \<Rightarrow> int \<Rightarrow> string \<Rightarrow> string" where
  "Step w prev seq contentHash = w_sha w (step_input prev seq contentHash)"

definition Encode :: "string \<Rightarrow> string" where
  "Encode f = ''sha256:'' @ hex_enc f"

text \<open>\<^verbatim>\<open>Decode\<close>: the state and whether one was recorded.\<close>

definition Decode :: "string \<Rightarrow> (string \<times> bool) res" where
  "Decode s =
     (if s = [] then Inr (replicate 32 (chr 0), False)
      else if length s \<le> 7 \<or> \<not> prefixb ''sha256:'' s then fail KOther (''fold '' @ s @ '' missing sha256: prefix'')
      else case hex_dec (drop 7 s) of
        None \<Rightarrow> fail KOther (''decode fold '' @ s)
      | Some raw \<Rightarrow>
          if length raw \<noteq> 32 then fail KOther (''fold '' @ s @ '' is the wrong length, want 32'')
          else Inr (raw, True))"

subsection \<open>DeviceFold\<close>

text \<open>The loop over the rows: from the pair of sequence number and state, up to the first gap or
  to \<^verbatim>\<open>uptoSeq\<close>.\<close>

fun fold_rows :: "world \<Rightarrow> int \<Rightarrow> event list \<Rightarrow> int \<times> string \<Rightarrow> int \<times> string" where
  "fold_rows w lim [] (cur_seq, cur) = (cur_seq, cur)"
| "fold_rows w lim (e # es) (cur_seq, cur) =
     (if ev_seq e \<noteq> cur_seq + 1 then (cur_seq, cur)
      else let st = (ev_seq e, Step w cur (ev_seq e) (ev_content_hash e)) in
        if lim > 0 \<and> ev_seq e \<ge> lim then st else fold_rows w lim es st)"

definition stream_above :: "store \<Rightarrow> string \<Rightarrow> int \<Rightarrow> event list" where
  "stream_above s dev n = sort_key ev_seq
     (filter (\<lambda>e. ev_workspace e = st_workspace s \<and> ev_device e = dev \<and> ev_seq e > n) (st_events s))"

definition fold_seed :: "store \<Rightarrow> string \<Rightarrow> (int \<times> string) option res" where
  "fold_seed s dev =
     (case tget an_dev dev (st_anchors s) of
        None \<Rightarrow> Inr None
      | Some a \<Rightarrow>
          if an_fold a = [] then Inr None
          else case Decode (an_fold a) of
            Inl e \<Rightarrow> fail KOther (''decode anchor fold for '' @ dev @ '': '' @ err_msg e)
          | Inr (f, ok) \<Rightarrow> Inr (if ok then Some (an_seq a, f) else None))"

definition DeviceFold :: "world \<Rightarrow> store \<Rightarrow> string \<Rightarrow> int \<Rightarrow> (int \<times> string \<times> bool) res" where
  "DeviceFold w s dev lim =
     (case fold_seed s dev of
        Inl e \<Rightarrow> Inl e
      | Inr anchored \<Rightarrow>
         (let (seq0, st0) = (case anchored of Some p \<Rightarrow> p | None \<Rightarrow> (0, Seed w (st_workspace s) dev));
              rows = stream_above s dev seq0
          in if anchored = None \<and> rows \<noteq> [] \<and> ev_seq (hd rows) \<noteq> 1 then Inr (0, [], False)
             else let (n, f) = fold_rows w lim rows (seq0, st0)
                  in Inr (n, Encode f, anchored \<noteq> None \<or> rows \<noteq> [])))"

subsection \<open>What a fold commits to\<close>

text \<open>The fold of a stream of content hashes numbered from \<open>n + 1\<close>, and the texts that are hashed
  on the way.\<close>

fun fold_list :: "world \<Rightarrow> int \<Rightarrow> string \<Rightarrow> string list \<Rightarrow> string" where
  "fold_list w n st [] = st"
| "fold_list w n st (h # hs) = fold_list w (n + 1) (Step w st (n + 1) h) hs"

fun fold_inputs :: "world \<Rightarrow> int \<Rightarrow> string \<Rightarrow> string list \<Rightarrow> string list" where
  "fold_inputs w n st [] = []"
| "fold_inputs w n st (h # hs) = step_input st (n + 1) h # fold_inputs w (n + 1) (Step w st (n + 1) h) hs"

definition stream_fold :: "world \<Rightarrow> string \<Rightarrow> string \<Rightarrow> string list \<Rightarrow> string" where
  "stream_fold w ws dev hs = fold_list w 0 (Seed w ws dev) hs"

definition stream_inputs :: "world \<Rightarrow> string \<Rightarrow> string \<Rightarrow> string list \<Rightarrow> string list" where
  "stream_inputs w ws dev hs = fold_inputs w 0 (Seed w ws dev) hs"

text \<open>SHA-256 as the fold relies on it: 32 bytes, and no collision among the given texts.\<close>

definition digest32 :: "world \<Rightarrow> bool" where
  "digest32 w \<longleftrightarrow> (\<forall>x. length (w_sha w x) = 32)"

lemma Encode_inj [simp]: "Encode f = Encode g \<longleftrightarrow> f = g"
  by (simp add: Encode_def)

lemma Encode_nonempty [simp]: "Encode f \<noteq> []"
  by (simp add: Encode_def)

lemma Decode_Encode [simp]: "length f = 32 \<Longrightarrow> Decode (Encode f) = Inr (f, True)"
  by (cases f) (auto simp: Decode_def Encode_def prefixb_def hex_dec_enc [of "x # y" for x y, simplified])

lemma length_be64 [simp]: "length (be64 n) = 8"
  by (simp add: be64_def)

lemma step_input_inj:
  assumes "length p = 32" "length q = 32"
  shows "step_input p n g = step_input q m h \<longleftrightarrow> p = q \<and> be64 n = be64 m \<and> g = h"
  using assms by (auto simp: step_input_def append_eq_append_conv)

lemma fold_list_append:
  "fold_list w n st (xs @ ys) = fold_list w (n + int (length xs)) (fold_list w n st xs) ys"
  by (induction xs arbitrary: n st) (auto simp: algebra_simps)

lemma fold_inputs_append:
  "fold_inputs w n st (xs @ ys) = fold_inputs w n st xs @ fold_inputs w (n + int (length xs)) (fold_list w n st xs) ys"
  by (induction xs arbitrary: n st) (auto simp: algebra_simps)

lemma fold_list_32: "digest32 w \<Longrightarrow> length st = 32 \<Longrightarrow> length (fold_list w n st hs) = 32"
  by (induction hs arbitrary: n st) (auto simp: digest32_def Step_def)

text \<open>Equal folds of equally long streams come from equal streams.\<close>

lemma fold_list_inj:
  assumes "digest32 w" "length st = 32" "length xs = length ys"
    and "inj_on (w_sha w) (set (fold_inputs w n st xs) \<union> set (fold_inputs w n st ys))"
    and "fold_list w n st xs = fold_list w n st ys"
  shows "xs = ys"
  using assms(3-5)
proof (induction xs ys rule: rev_induct2)
  case 1
  then show ?case by simp
next
  case (4 x xs y ys)
  let ?p = "fold_list w n st xs" and ?q = "fold_list w n st ys" and ?m = "n + int (length xs)"
  have len: "length xs = length ys" using 4 by simp
  have l32: "length ?p = 32" "length ?q = 32" using fold_list_32 [OF assms(1,2)] by auto
  have mem: "step_input ?p (?m + 1) x \<in> set (fold_inputs w n st (xs @ [x])) \<union> set (fold_inputs w n st (ys @ [y]))"
    "step_input ?q (?m + 1) y \<in> set (fold_inputs w n st (xs @ [x])) \<union> set (fold_inputs w n st (ys @ [y]))"
    using len by (simp_all add: fold_inputs_append)
  have "w_sha w (step_input ?p (?m + 1) x) = w_sha w (step_input ?q (?m + 1) y)"
    using "4.prems"(3) len by (simp add: fold_list_append Step_def)
  from inj_onD [OF "4.prems"(2) this mem] have eq: "?p = ?q" "x = y" using step_input_inj [OF l32] by auto
  have "inj_on (w_sha w) (set (fold_inputs w n st xs) \<union> set (fold_inputs w n st ys))"
    by (rule inj_on_subset [OF "4.prems"(2)]) (auto simp: fold_inputs_append)
  from "4.IH" [OF len this eq(1)] eq(2) show ?case by simp
qed auto

subsection \<open>What DeviceFold computes\<close>

text \<open>The content hashes of the rows that continue the stream at \<open>n + 1\<close> without a gap.\<close>

fun contig :: "int \<Rightarrow> event list \<Rightarrow> string list" where
  "contig n [] = []"
| "contig n (e # es) = (if ev_seq e = n + 1 then ev_content_hash e # contig (n + 1) es else [])"

lemma fold_rows_contig:
  "\<exists>k \<le> length (contig n es). fold_rows w lim es (n, st) = (n + int k, fold_list w n st (take k (contig n es))) \<and>
     (0 < lim \<and> n < lim \<longrightarrow> k = min (length (contig n es)) (nat (lim - n)))"
proof (induction es arbitrary: n st)
  case (Cons e es)
  show ?case
  proof (cases "ev_seq e = n + 1")
    case False
    then show ?thesis by simp
  next
    case e: True
    let ?st = "Step w st (n + 1) (ev_content_hash e)"
    show ?thesis
    proof (cases "lim > 0 \<and> n + 1 \<ge> lim")
      case True
      have "nat (lim - n) = Suc 0 \<or> \<not> n < lim" using True by auto
      then show ?thesis using e True by (intro exI [of _ 1]) auto
    next
      case False
      obtain k where k: "k \<le> length (contig (n + 1) es)"
        "fold_rows w lim es (n + 1, ?st) = (n + 1 + int k, fold_list w (n + 1) ?st (take k (contig (n + 1) es)))"
        "0 < lim \<and> n + 1 < lim \<longrightarrow> k = min (length (contig (n + 1) es)) (nat (lim - (n + 1)))"
        using Cons.IH [of "n + 1" ?st] by blast
      have "nat (lim - n) = Suc (nat (lim - (n + 1)))" if "n + 1 < lim" using that by simp
      then show ?thesis using e False k by (intro exI [of _ "Suc k"]) auto
    qed
  qed
qed simp

text \<open>The origin's stream \<open>hs\<close>: every stored event of the device, and its anchor, agree with it.\<close>

definition agrees :: "world \<Rightarrow> store \<Rightarrow> string \<Rightarrow> string list \<Rightarrow> bool" where
  "agrees w s dev hs \<longleftrightarrow>
     (\<forall>e \<in> set (st_events s). ev_workspace e = st_workspace s \<and> ev_device e = dev \<and> ev_seq e > 0 \<longrightarrow>
        ev_seq e \<le> int (length hs) \<and> ev_content_hash e = hs ! nat (ev_seq e - 1)) \<and>
     (\<forall>a. tget an_dev dev (st_anchors s) = Some a \<and> an_fold a \<noteq> [] \<longrightarrow>
        0 \<le> an_seq a \<and> an_seq a \<le> int (length hs) \<and>
        an_fold a = Encode (stream_fold w (st_workspace s) dev (take (nat (an_seq a)) hs)))"

lemma contig_agrees:
  assumes "\<forall>e \<in> set es. 0 < ev_seq e \<and> ev_seq e \<le> int (length hs) \<and> ev_content_hash e = hs ! nat (ev_seq e - 1)"
    and "0 \<le> n"
  shows "contig n es = take (length (contig n es)) (drop (nat n) hs)"
  using assms
proof (induction es arbitrary: n)
  case (Cons e es)
  show ?case
  proof (cases "ev_seq e = n + 1")
    case True
    then have n: "nat n < length hs" "ev_content_hash e = hs ! nat n" using Cons.prems by auto
    have "contig (n + 1) es = take (length (contig (n + 1) es)) (drop (Suc (nat n)) hs)"
      using Cons.IH [of "n + 1"] Cons.prems by (simp add: nat_add_distrib)
    then show ?thesis using True n by (simp add: Cons_nth_drop_Suc [symmetric])
  qed simp
qed simp

lemma digest32_Seed: "digest32 w \<Longrightarrow> length (Seed w ws dev) = 32"
  by (simp add: digest32_def Seed_def)

lemma digest32_stream: "digest32 w \<Longrightarrow> length (stream_fold w ws dev hs) = 32"
  by (simp add: stream_fold_def fold_list_32 digest32_Seed)

text \<open>On a store that agrees with the origin's stream, the fold is the fold of a prefix of that
  stream; it does not go past the requested number when the anchor is below it.\<close>

lemma DeviceFold_agrees:
  assumes ag: "agrees w s dev hs" and d: "digest32 w"
  obtains l f seeded where "DeviceFold w s dev lim = Inr (l, f, seeded)"
    and "seeded \<Longrightarrow> 0 \<le> l \<and> l \<le> int (length hs) \<and> f = Encode (stream_fold w (st_workspace s) dev (take (nat l) hs))"
    and "seeded \<Longrightarrow> 0 < lim \<Longrightarrow> (\<And>a. tget an_dev dev (st_anchors s) = Some a \<Longrightarrow> an_fold a \<noteq> [] \<Longrightarrow> an_seq a < lim)
        \<Longrightarrow> l \<le> lim"
proof -
  let ?F = "\<lambda>k. stream_fold w (st_workspace s) dev (take k hs)"
  obtain anchored where sd: "fold_seed s dev = Inr anchored"
    and an: "anchored = None \<or> (\<exists>a. tget an_dev dev (st_anchors s) = Some a \<and> an_fold a \<noteq> [] \<and>
        anchored = Some (an_seq a, ?F (nat (an_seq a))) \<and> 0 \<le> an_seq a \<and> an_seq a \<le> int (length hs))"
    using ag digest32_stream [OF d]
    by (cases "tget an_dev dev (st_anchors s)") (auto simp: agrees_def fold_seed_def)
  obtain seq0 st0 where p: "(case anchored of Some p \<Rightarrow> p | None \<Rightarrow> (0, Seed w (st_workspace s) dev)) = (seq0, st0)"
    by (metis surj_pair)
  have p': "0 \<le> seq0" "seq0 \<le> int (length hs)" "st0 = ?F (nat seq0)"
    using p an by (auto simp: stream_fold_def)
  let ?rows = "stream_above s dev seq0"
  have rows: "\<forall>e \<in> set ?rows. 0 < ev_seq e \<and> ev_seq e \<le> int (length hs) \<and> ev_content_hash e = hs ! nat (ev_seq e - 1)"
    using ag p'(1) by (auto simp: agrees_def stream_above_def)
  obtain k where k: "k \<le> length (contig seq0 ?rows)"
    "fold_rows w lim ?rows (seq0, st0) = (seq0 + int k, fold_list w seq0 st0 (take k (contig seq0 ?rows)))"
    "0 < lim \<and> seq0 < lim \<longrightarrow> k = min (length (contig seq0 ?rows)) (nat (lim - seq0))"
    using fold_rows_contig [of seq0 ?rows w lim st0] by blast
  have c: "contig seq0 ?rows = take (length (contig seq0 ?rows)) (drop (nat seq0) hs)"
    by (rule contig_agrees [OF rows p'(1)])
  have tk: "take k (contig seq0 ?rows) = take k (drop (nat seq0) hs)"
    using k(1) by (subst c) (simp add: min_absorb1)
  have kl: "nat seq0 + k \<le> length hs"
  proof -
    have "length (contig seq0 ?rows) \<le> length hs - nat seq0" by (subst c) simp
    then show ?thesis using k(1) p' by linarith
  qed
  have "fold_list w seq0 st0 (take k (contig seq0 ?rows)) = ?F (nat seq0 + k)"
    unfolding tk p'(3) take_add stream_fold_def fold_list_append using p' by (simp add: min_absorb2)
  then have fr: "fold_rows w lim ?rows (seq0, st0) = (seq0 + int k, ?F (nat seq0 + k))" using k(2) by simp
  show thesis
  proof (cases "anchored = None \<and> ?rows \<noteq> [] \<and> ev_seq (hd ?rows) \<noteq> 1")
    case True
    then have "DeviceFold w s dev lim = Inr (0, [], False)" using p by (simp add: DeviceFold_def sd Let_def)
    then show ?thesis using that by blast
  next
    case False
    then have D: "DeviceFold w s dev lim = Inr (seq0 + int k, Encode (?F (nat seq0 + k)), anchored \<noteq> None \<or> ?rows \<noteq> [])"
      by (auto simp: DeviceFold_def sd p fr Let_def)
    have bound: "seq0 + int k \<le> lim" if "0 < lim"
      "\<And>a. tget an_dev dev (st_anchors s) = Some a \<Longrightarrow> an_fold a \<noteq> [] \<Longrightarrow> an_seq a < lim"
    proof -
      have "seq0 < lim" using an p that by auto
      then show ?thesis using k(3) that(1) by linarith
    qed
    show ?thesis
      by (rule that [OF D]) (use kl p' bound in \<open>auto simp: nat_add_distrib\<close>)
  qed
qed

text \<open>The unanchored stream of a device, up to its first gap.\<close>

definition no_anchor :: "store \<Rightarrow> string \<Rightarrow> bool" where
  "no_anchor s dev \<longleftrightarrow> (case tget an_dev dev (st_anchors s) of None \<Rightarrow> True | Some a \<Rightarrow> an_fold a = [])"

definition held_prefix :: "store \<Rightarrow> string \<Rightarrow> string list" where
  "held_prefix s dev = contig 0 (stream_above s dev 0)"

lemma no_anchor_seed: "no_anchor s dev \<Longrightarrow> fold_seed s dev = Inr None"
  by (auto simp: no_anchor_def fold_seed_def split: option.splits)

lemma DeviceFold_held:
  assumes "no_anchor s dev" and "held_prefix s dev \<noteq> []" and "0 < lim"
  shows "DeviceFold w s dev lim =
     (let k = min (length (held_prefix s dev)) (nat lim) in
      Inr (int k, Encode (stream_fold w (st_workspace s) dev (take k (held_prefix s dev))), True))"
proof -
  let ?rows = "stream_above s dev 0"
  have ne: "?rows \<noteq> []" "ev_seq (hd ?rows) = 1"
    using assms(2) by (auto simp: held_prefix_def neq_Nil_conv split: if_split_asm) (cases ?rows; auto split: if_split_asm)+
  show ?thesis
    using fold_rows_contig [of 0 ?rows w lim "Seed w (st_workspace s) dev"] assms(3) ne
    by (auto simp: DeviceFold_def no_anchor_seed [OF assms(1)] Let_def held_prefix_def stream_fold_def)
qed

lemma DeviceFold_unseeded:
  assumes "no_anchor s dev" and "stream_above s dev 0 = []"
  shows "\<exists>f. DeviceFold w s dev lim = Inr (0, f, False)"
  by (simp add: DeviceFold_def no_anchor_seed [OF assms(1)] assms(2))

end
