(* ===== verification/Peer_Heads.thy ===== *)
theory Peer_Heads
  imports Stream_Fold Conflict_Log
begin

section \<open>Signed heads and the detection of withheld events\<close>

text \<open>
  \<^verbatim>\<open>src/internal/sync/ack.go\<close> (the signed acknowledgement of a device),
  \<^verbatim>\<open>src/internal/sync/head.go\<close> (the check of the peers' heads against the events held here) and
  the watermark rows of \<^verbatim>\<open>src/internal/state/device_heads.go\<close>.
\<close>

subsection \<open>Ack markers\<close>

record ack =
  ak_cursor :: "(string \<times> int) list option"
  ak_device :: string
  ak_fold :: string
  ak_hlc :: int
  ak_produced :: int
  ak_pushed :: int
  ak_sig :: string
  ak_v :: int
  ak_workspace :: string

definition ackVersionV1 :: int where "ackVersionV1 = 1"
definition ackVersionV2 :: int where "ackVersionV2 = 2"
definition ackVersion :: int where "ackVersion = ackVersionV2"

definition AckSignatureDomain :: string where "AckSignatureDomain = ''devstrap:ack:v1''"

definition ackCursorOrEmpty :: "ack \<Rightarrow> (string \<times> int) list" where
  "ackCursorOrEmpty m = (case ak_cursor m of None \<Rightarrow> [] | Some c \<Rightarrow> c)"

text \<open>\<^verbatim>\<open>json.Marshal\<close> of a map prints its keys in order.\<close>

definition marshal_cursor :: "(string \<times> int) list \<Rightarrow> string" where
  "marshal_cursor c = marshal_obj (map (\<lambda>(k, v). jint k v) (sort_key fst c))"

definition AckSignaturePayload :: "ack \<Rightarrow> string" where
  "AckSignaturePayload m = marshal_obj
     [Some (''cursor'', marshal_cursor (ackCursorOrEmpty m)), jstr ''device_id'' (ak_device m),
      jint ''hlc_watermark'' (ak_hlc m), jint ''produced_at_hlc'' (ak_produced m),
      jint ''pushed_through_seq'' (ak_pushed m), jint ''v'' (ak_v m), jstr ''workspace_id'' (ak_workspace m)]"

definition AckSignaturePayloadV2 :: "ack \<Rightarrow> string" where
  "AckSignaturePayloadV2 m = marshal_obj
     [Some (''cursor'', marshal_cursor (ackCursorOrEmpty m)), jstr ''device_id'' (ak_device m),
      jstr ''folded_hash'' (ak_fold m), jint ''hlc_watermark'' (ak_hlc m), jint ''produced_at_hlc'' (ak_produced m),
      jint ''pushed_through_seq'' (ak_pushed m), jint ''v'' (ak_v m), jstr ''workspace_id'' (ak_workspace m)]"

definition ackSignaturePayloadForVersion :: "ack \<Rightarrow> string res" where
  "ackSignaturePayloadForVersion m =
     (if ak_v m = ackVersionV1 then Inr (AckSignaturePayload m)
      else if ak_v m = ackVersionV2 then Inr (AckSignaturePayloadV2 m)
      else fail KOther (''ack marker version '' @ show_int (ak_v m) @ '', want 1 or 2''))"

definition SignAckMarker :: "world \<Rightarrow> ack \<Rightarrow> string \<Rightarrow> ack res" where
  "SignAckMarker w m0 privateSigningKey =
     (let m = m0\<lparr>ak_v := ackVersion\<rparr> in
      bindr (ackSignaturePayloadForVersion m) (\<lambda>payload.
      bindr (Sign w privateSigningKey AckSignatureDomain payload) (\<lambda>sg. Inr (m\<lparr>ak_sig := sg\<rparr>))))"

definition VerifyAckMarker :: "world \<Rightarrow> ack \<Rightarrow> string \<Rightarrow> unit res" where
  "VerifyAckMarker w m publicSigningKey =
     (if ak_sig m = [] then fail KOther ''ack marker is unsigned''
      else bindr (ackSignaturePayloadForVersion m) (\<lambda>payload.
        case Verify w publicSigningKey (ak_sig m) AckSignatureDomain payload of
          Inl e \<Rightarrow> Inl (Err (err_kinds e) (''ack marker signature: '' @ err_msg e))
        | Inr _ \<Rightarrow> Inr ()))"

definition ack_zero :: ack where
  "ack_zero = \<lparr>ak_cursor = None, ak_device = [], ak_fold = [], ak_hlc = 0, ak_produced = 0, ak_pushed = 0,
     ak_sig = [], ak_v = 0, ak_workspace = []\<rparr>"

definition ParseAckMarker :: "world \<Rightarrow> string \<Rightarrow> ack res" where
  "ParseAckMarker w raw =
     (case unmarshal
        [int_map_field ''cursor'' ak_cursor_update ak_cursor, str_field ''device_id'' ak_device_update,
         str_field ''folded_hash'' ak_fold_update, int_field ''hlc_watermark'' ak_hlc_update,
         int_field ''produced_at_hlc'' ak_produced_update, int_field ''pushed_through_seq'' ak_pushed_update,
         str_field ''sig'' ak_sig_update, int_field ''v'' ak_v_update,
         str_field ''workspace_id'' ak_workspace_update] ack_zero raw of
        None \<Rightarrow> fail KOther (''parse ack marker: '' @ w_decode_err w raw)
      | Some m \<Rightarrow> Inr m)"

text \<open>The head a device signs in its own marker: empty unless the fold of its stream reaches its
  push watermark exactly.\<close>

definition ack_head :: "world \<Rightarrow> store \<Rightarrow> string \<Rightarrow> int \<Rightarrow> string res" where
  "ack_head w s dev push =
     (if push > 0 then
        bindr (DeviceFold w s dev push) (\<lambda>(reached, fh, seeded).
          Inr (if seeded \<and> reached = push then fh else []))
      else Inr [])"

subsection \<open>The watermark rows\<close>

definition head_zero :: "string \<Rightarrow> head_row" where
  "head_zero dev = \<lparr>hd_dev = dev, hd_seq = 0, hd_fold = [], hd_hlc = 0, hd_pending = False\<rparr>"

definition DeviceHead :: "string \<Rightarrow> store \<Rightarrow> head_row option" where
  "DeviceHead dev s = tget hd_dev dev (st_heads s)"

definition UpsertDeviceHead :: "head_row \<Rightarrow> store \<Rightarrow> store" where
  "UpsertDeviceHead h s = s\<lparr>st_heads := tput hd_dev h (\<lambda>r. r\<lparr>hd_seq := hd_seq h, hd_fold := hd_fold h,
     hd_hlc := hd_hlc h, hd_pending := hd_pending h\<rparr>) (st_heads s)\<rparr>"

definition DeviceGapLocallyDeclined :: "string \<Rightarrow> int \<Rightarrow> string list \<Rightarrow> store \<Rightarrow> bool" where
  "DeviceGapLocallyDeclined dev gapSeq quarantineTypes s \<longleftrightarrow>
     list_ex (\<lambda>k. sk_dev k = dev \<and> sk_seq k = gapSeq) (st_skipped s) \<or>
     st_waits s \<noteq> [] \<or>
     list_ex (\<lambda>c. cn_open c \<and> cn_type c \<in> set quarantineTypes \<and>
         json_member (cn_details c) ''device_id'' = Some (JStr dev) \<and>
         json_member (cn_details c) ''seq'' \<in> {Some (JInt gapSeq), None, Some (JInt 0)}) (st_conflicts s)"

subsection \<open>One peer's head\<close>

definition OmissionKindWithheldTail :: string where "OmissionKindWithheldTail = ''withheld_tail''"
definition OmissionKindFork :: string where "OmissionKindFork = ''fork''"

lemma omission_kinds [simp]:
  "OmissionKindWithheldTail \<noteq> OmissionKindFork" "OmissionKindFork \<noteq> OmissionKindWithheldTail"
  "OmissionKindWithheldTail \<noteq> []" "OmissionKindFork \<noteq> []" "[] \<noteq> OmissionKindWithheldTail" "[] \<noteq> OmissionKindFork"
  by (simp_all add: OmissionKindWithheldTail_def OmissionKindFork_def)

definition omission_details :: "string \<Rightarrow> string \<Rightarrow> int \<Rightarrow> string" where
  "omission_details dev kind localSeq = marshal_obj
     [jstr ''device_id'' dev, jstr ''kind'' kind, jint ''local_seq'' localSeq]"

definition localDeclineConflictTypes :: "string list" where
  "localDeclineConflictTypes = [ConflictUntrustworthyTime, ConflictEventHashChain, ConflictEventVerification]"

definition recordOmission :: "world \<Rightarrow> string \<Rightarrow> string \<Rightarrow> int \<Rightarrow> store \<Rightarrow> store" where
  "recordOmission w dev kind localSeq s = insertConflict w [] ConflictEventOmission (omission_details dev kind localSeq) s"

definition resolveOmission :: "string \<Rightarrow> string \<Rightarrow> string \<Rightarrow> store \<Rightarrow> store" where
  "resolveOmission dev kind reason s =
     ResolveOmissionConflictsForDevice ConflictEventOmission dev kind
       (''{'' @ json_quote ''action'' @ '':'' @ json_quote ''auto'' @ '','' @ json_quote ''reason'' @ '':'' @
          json_quote reason @ ''}'') s"

definition next_promise :: "head_row \<Rightarrow> ack \<Rightarrow> head_row" where
  "next_promise prev m = (if ak_pushed m > hd_seq prev
     then prev\<lparr>hd_seq := ak_pushed m, hd_fold := ak_fold m, hd_hlc := ak_produced m\<rparr> else prev)"

definition verifyOnePeerHead :: "world \<Rightarrow> string \<Rightarrow> ack \<Rightarrow> store \<Rightarrow> (string \<times> store) res" where
  "verifyOnePeerHead w dev m s =
     (let headSeq = ak_pushed m; headFold = ak_fold m;
          prev = (case DeviceHead dev s of Some h \<Rightarrow> h | None \<Rightarrow> head_zero dev) in
      if hd_seq prev > 0 \<and> headSeq = hd_seq prev \<and> headFold \<noteq> hd_fold prev
      then Inr (OmissionKindFork, recordOmission w dev OmissionKindFork (hd_seq prev) s)
      else let nx = next_promise prev m in
      case DeviceFold w s dev (hd_seq nx) of
        Inl e \<Rightarrow> Inl e
      | Inr (localSeq, localFold, seeded) \<Rightarrow>
          let clear = UpsertDeviceHead (nx\<lparr>hd_pending := False\<rparr>) s;
              arm = UpsertDeviceHead (nx\<lparr>hd_pending := True\<rparr>) s in
          if \<not> seeded then Inr ([], clear)
          else if localSeq \<ge> hd_seq nx then
            (if localFold \<noteq> hd_fold nx
             then Inr (OmissionKindFork, recordOmission w dev OmissionKindFork localSeq clear)
             else Inr ([], resolveOmission dev OmissionKindWithheldTail ''peer fold caught up to promised head'' clear))
          else if DeviceGapLocallyDeclined dev (localSeq + 1) localDeclineConflictTypes s
          then Inr ([], resolveOmission dev OmissionKindWithheldTail ''gap is a local decline, not hub withholding'' clear)
          else if hd_pending prev \<and> \<not> (hd_seq prev > 0 \<and> localSeq \<ge> hd_seq prev)
          then Inr (OmissionKindWithheldTail, recordOmission w dev OmissionKindWithheldTail localSeq arm)
          else Inr ([], arm))"

subsection \<open>All peers\<close>

text \<open>The marker of a peer whose head is evaluated; every other is skipped.\<close>

definition peer_marker :: "world \<Rightarrow> string \<Rightarrow> string \<Rightarrow> string \<times> string \<Rightarrow> store \<Rightarrow> ack option" where
  "peer_marker w workspaceID self = (\<lambda>(dev, raw) s.
     if dev = self then None
     else case ApprovedDeviceSigningKey dev s of
       None \<Rightarrow> None
     | Some pub \<Rightarrow>
         (case ParseAckMarker w raw of
            Inl _ \<Rightarrow> None
          | Inr m \<Rightarrow>
              if ak_device m \<noteq> dev \<or> ak_workspace m \<noteq> workspaceID then None
              else (case VerifyAckMarker w m pub of
                 Inl _ \<Rightarrow> None
               | Inr _ \<Rightarrow> if ak_fold m = [] then None else Some m)))"

text \<open>The loop over the markers, in the order of the list (Go iterates the map in any order): the
  number of conflicts recorded, the error that stopped the loop, and the store.\<close>

fun verify_heads :: "world \<Rightarrow> string \<Rightarrow> string \<Rightarrow> (string \<times> string) list \<Rightarrow> nat \<Rightarrow> store \<Rightarrow> nat \<times> err option \<times> store" where
  "verify_heads w ws self [] detected s = (detected, None, s)"
| "verify_heads w ws self (a # acks) detected s =
     (case peer_marker w ws self a s of
        None \<Rightarrow> verify_heads w ws self acks detected s
      | Some m \<Rightarrow>
          (case verifyOnePeerHead w (fst a) m s of
             Inl e \<Rightarrow> (detected, Some e, s)
           | Inr (kind, s') \<Rightarrow> verify_heads w ws self acks (if kind \<noteq> [] then detected + 1 else detected) s'))"

definition VerifyPeerHeads ::
  "world \<Rightarrow> (string \<times> string) list res \<Rightarrow> string \<Rightarrow> string \<Rightarrow> store \<Rightarrow> nat \<times> err option \<times> store" where
  "VerifyPeerHeads w acks workspaceID self s =
     (case acks of
        Inl e \<Rightarrow> (0, Some (Err (err_kinds e) (''list sync acks for head verification: '' @ err_msg e)), s)
      | Inr rawAcks \<Rightarrow> verify_heads w workspaceID self rawAcks 0 s)"


subsection \<open>Frames and reads\<close>

lemma head_row_eq: "(r::head_row)\<lparr>hd_seq := a, hd_fold := b, hd_hlc := c, hd_pending := d\<rparr> = \<lparr>hd_dev = hd_dev r, hd_seq = a, hd_fold = b, hd_hlc = c, hd_pending = d\<rparr>"
  by (cases r) simp

lemma DeviceHead_Upsert:
  "DeviceHead d (UpsertDeviceHead h s) = (if d = hd_dev h then Some h else DeviceHead d s)"
  by (cases h) (auto simp: DeviceHead_def UpsertDeviceHead_def tget_tput head_row_eq split: option.splits dest: tget_SomeD)

lemma heads_frame [simp, sync_frame]:
  "DeviceHead d (insertConflict w ns t x s) = DeviceHead d s"
  "DeviceHead d (close_where P r s) = DeviceHead d s"
  "DeviceHead d (recordOmission w dev k n s) = DeviceHead d s"
  "DeviceHead d (resolveOmission dev k x s) = DeviceHead d s"
  "st_conflicts (UpsertDeviceHead h s) = st_conflicts s"
  "st_devices (UpsertDeviceHead h s) = st_devices s"
  by (auto simp: DeviceHead_def insertConflict_def close_where_def Let_def new_id_def recordOmission_def
      resolveOmission_def ResolveOmissionConflictsForDevice_def UpsertDeviceHead_def)

lemma devices_frame [simp, sync_frame]:
  "st_devices (recordOmission w dev k n s) = st_devices s"
  "st_devices (resolveOmission dev k x s) = st_devices s"
  by (simp_all add: recordOmission_def resolveOmission_def ResolveOmissionConflictsForDevice_def)

lemma recordOmission_open:
  "open_conflict [] ConflictEventOmission (omission_details dev k n) (recordOmission w dev k n s)"
  by (simp add: recordOmission_def insertConflict_open)

definition prev_head :: "store \<Rightarrow> string \<Rightarrow> head_row" where
  "prev_head s dev = (case DeviceHead dev s of Some h \<Rightarrow> h | None \<Rightarrow> head_zero dev)"

lemma prev_head_dev [simp]: "hd_dev (prev_head s dev) = dev"
  by (auto simp: prev_head_def head_zero_def DeviceHead_def split: option.splits dest: tget_SomeD)

lemma prev_head_Upsert:
  "prev_head (UpsertDeviceHead h s) d = (if d = hd_dev h then h else prev_head s d)"
  by (simp add: prev_head_def DeviceHead_Upsert)

lemma prev_head_frame [simp]:
  "prev_head (recordOmission w dev k n s) d = prev_head s d"
  "prev_head (resolveOmission dev k x s) d = prev_head s d"
  by (simp_all add: prev_head_def)

lemma next_promise_dev [simp]: "hd_dev (next_promise h m) = hd_dev h"
  by (simp add: next_promise_def)

lemma next_promise_seq: "hd_seq (next_promise h m) = max (hd_seq h) (ak_pushed m)"
  by (simp add: next_promise_def)

lemmas verify_peer = verifyOnePeerHead_def [folded prev_head_def, unfolded Let_def]

text \<open>The promise only grows, and only the row of this peer changes.\<close>

lemma verify_promise:
  assumes "verifyOnePeerHead w dev m s = Inr (k, s')"
  shows "hd_seq (prev_head s dev) \<le> hd_seq (prev_head s' dev) \<and> (d \<noteq> dev \<longrightarrow> DeviceHead d s' = DeviceHead d s) \<and>
     st_devices s' = st_devices s"
  using assms
  by (auto simp: verify_peer prev_head_Upsert DeviceHead_Upsert next_promise_seq split: if_split_asm sum.splits)

subsection \<open>Honest peers\<close>

definition promise_honest :: "world \<Rightarrow> string \<Rightarrow> string list \<Rightarrow> head_row \<Rightarrow> bool" where
  "promise_honest w ws hs h \<longleftrightarrow> 0 \<le> hd_seq h \<and> hd_seq h \<le> int (length hs) \<and>
     (hd_seq h > 0 \<longrightarrow> hd_fold h = Encode (stream_fold w ws (hd_dev h) (take (nat (hd_seq h)) hs)))"

definition honest_marker :: "world \<Rightarrow> string \<Rightarrow> string \<Rightarrow> string list \<Rightarrow> ack \<Rightarrow> bool" where
  "honest_marker w ws dev hs m \<longleftrightarrow> 0 < ak_pushed m \<and> ak_pushed m \<le> int (length hs) \<and>
     ak_fold m = Encode (stream_fold w ws dev (take (nat (ak_pushed m)) hs))"

definition anchored_below :: "store \<Rightarrow> string \<Rightarrow> int \<Rightarrow> bool" where
  "anchored_below s dev n \<longleftrightarrow>
     (case tget an_dev dev (st_anchors s) of None \<Rightarrow> True | Some a \<Rightarrow> an_fold a = [] \<or> an_seq a < n)"

definition no_open_withheld :: "store \<Rightarrow> string \<Rightarrow> bool" where
  "no_open_withheld s dev \<longleftrightarrow> \<not> (\<exists>c \<in> set (st_conflicts s). cn_open c \<and> cn_type c = ConflictEventOmission \<and>
     json_member (cn_details c) ''device_id'' = Some (JStr dev) \<and>
     json_member (cn_details c) ''kind'' = Some (JStr OmissionKindWithheldTail))"

lemma resolveOmission_none: "no_open_withheld (resolveOmission dev OmissionKindWithheldTail x s) dev"
  unfolding no_open_withheld_def resolveOmission_def ResolveOmissionConflictsForDevice_def
proof (rule notI, elim bexE conjE)
  fix c
  let ?P = "\<lambda>c. cn_type c = ConflictEventOmission \<and> json_member (cn_details c) ''device_id'' = Some (JStr dev) \<and>
     (OmissionKindWithheldTail = [] \<or> json_member (cn_details c) ''kind'' = Some (JStr OmissionKindWithheldTail))"
  let ?r = "''{'' @ json_quote ''action'' @ '':'' @ json_quote ''auto'' @ '','' @ json_quote ''reason'' @ '':'' @
          json_quote x @ ''}''"
  assume "c \<in> set (st_conflicts (close_where ?P ?r s))" "cn_open c"
  then have "c \<in> set (filter cn_open (st_conflicts (close_where ?P ?r s)))" by simp
  then have "\<not> ?P c" unfolding close_where_open by simp
  moreover assume "cn_type c = ConflictEventOmission" "json_member (cn_details c) ''device_id'' = Some (JStr dev)"
    "json_member (cn_details c) ''kind'' = Some (JStr OmissionKindWithheldTail)"
  ultimately show False by simp
qed

lemma next_honest:
  "promise_honest w ws hs (prev_head s dev) \<Longrightarrow> honest_marker w ws dev hs m \<Longrightarrow>
     promise_honest w ws hs (next_promise (prev_head s dev) m) \<and> hd_seq (next_promise (prev_head s dev) m) > 0"
  by (auto simp: promise_honest_def honest_marker_def next_promise_def)

lemma promise_honest_pending [simp]: "promise_honest w ws hs (h\<lparr>hd_pending := b\<rparr>) = promise_honest w ws hs h"
  by (simp add: promise_honest_def)

text \<open>The verdict once the fold of the prefix is known.\<close>

lemma verify_unequivocal:
  assumes "\<not> (hd_seq (prev_head s dev) > 0 \<and> ak_pushed m = hd_seq (prev_head s dev) \<and> ak_fold m \<noteq> hd_fold (prev_head s dev))"
    and "nx = next_promise (prev_head s dev) m" and "DeviceFold w s dev (hd_seq nx) = Inr (l, f, seeded)"
  obtains (unseeded) "\<not> seeded" "verifyOnePeerHead w dev m s = Inr ([], UpsertDeviceHead (nx\<lparr>hd_pending := False\<rparr>) s)"
  | (fork) "seeded" "hd_seq nx \<le> l" "f \<noteq> hd_fold nx" "verifyOnePeerHead w dev m s =
      Inr (OmissionKindFork, recordOmission w dev OmissionKindFork l (UpsertDeviceHead (nx\<lparr>hd_pending := False\<rparr>) s))"
  | (caught_up) "seeded" "hd_seq nx \<le> l" "f = hd_fold nx" "verifyOnePeerHead w dev m s =
      Inr ([], resolveOmission dev OmissionKindWithheldTail ''peer fold caught up to promised head'' (UpsertDeviceHead (nx\<lparr>hd_pending := False\<rparr>) s))"
  | (declined) "seeded" "l < hd_seq nx" "DeviceGapLocallyDeclined dev (l + 1) localDeclineConflictTypes s"
      "verifyOnePeerHead w dev m s =
      Inr ([], resolveOmission dev OmissionKindWithheldTail ''gap is a local decline, not hub withholding'' (UpsertDeviceHead (nx\<lparr>hd_pending := False\<rparr>) s))"
  | (alarm) "seeded" "l < hd_seq nx" "\<not> DeviceGapLocallyDeclined dev (l + 1) localDeclineConflictTypes s"
      "hd_pending (prev_head s dev)" "hd_seq (prev_head s dev) \<le> 0 \<or> l < hd_seq (prev_head s dev)" "verifyOnePeerHead w dev m s =
      Inr (OmissionKindWithheldTail, recordOmission w dev OmissionKindWithheldTail l (UpsertDeviceHead (nx\<lparr>hd_pending := True\<rparr>) s))"
  | (grace) "seeded" "l < hd_seq nx" "\<not> DeviceGapLocallyDeclined dev (l + 1) localDeclineConflictTypes s"
      "\<not> hd_pending (prev_head s dev) \<or> 0 < hd_seq (prev_head s dev) \<and> hd_seq (prev_head s dev) \<le> l"
      "verifyOnePeerHead w dev m s = Inr ([], UpsertDeviceHead (nx\<lparr>hd_pending := True\<rparr>) s)"
  using assms unfolding verify_peer
  by (simp split: if_split_asm) (meson not_less)+

text \<open>C38: an honest hub and an honest peer cause no fork alarm while the anchor of the peer lies below
  the head that is checked: when the events held of a peer (and the folded anchor they continue from, if
  there is one, at a number strictly below the larger of the recorded and the served promise) are
  those of the peer's own stream and the peer signs the fold of that stream, the check succeeds, does
  not report a fork, and records the larger of the two promises, which is again honest; and once the
  promised prefix is held, nothing is reported and every withheld-tail alarm of the peer is closed.
  (With an anchor at or above the promise the code does report a fork,
  \<open>anchored_head_false_fork\<close>.)\<close>

theorem honest_peer_never_forks:
  assumes "agrees w s dev hs" and "digest32 w" and "honest_marker w (st_workspace s) dev hs m"
    and "promise_honest w (st_workspace s) hs (prev_head s dev)"
    and "anchored_below s dev (max (hd_seq (prev_head s dev)) (ak_pushed m))"
  shows "\<exists>k s'. verifyOnePeerHead w dev m s = Inr (k, s') \<and> k \<noteq> OmissionKindFork \<and>
     promise_honest w (st_workspace s) hs (prev_head s' dev) \<and>
     hd_seq (prev_head s' dev) = max (hd_seq (prev_head s dev)) (ak_pushed m) \<and>
     (\<forall>l f. DeviceFold w s dev (hd_seq (prev_head s' dev)) = Inr (l, f, True) \<and> hd_seq (prev_head s' dev) \<le> l \<longrightarrow>
        k = [] \<and> no_open_withheld s' dev)"
proof -
  let ?h = "prev_head s dev" and ?nx = "next_promise (prev_head s dev) m"
  note nx = next_honest [OF assms(4,3)]
  have ne: "\<not> (hd_seq ?h > 0 \<and> ak_pushed m = hd_seq ?h \<and> ak_fold m \<noteq> hd_fold ?h)"
    using assms(3,4) by (auto simp: honest_marker_def promise_honest_def)
  obtain l f seeded where D: "DeviceFold w s dev (hd_seq ?nx) = Inr (l, f, seeded)"
    and f: "seeded \<Longrightarrow> 0 \<le> l \<and> l \<le> int (length hs) \<and> f = Encode (stream_fold w (st_workspace s) dev (take (nat l) hs))"
    and b: "seeded \<Longrightarrow> 0 < hd_seq ?nx \<Longrightarrow>
      (\<And>a. tget an_dev dev (st_anchors s) = Some a \<Longrightarrow> an_fold a \<noteq> [] \<Longrightarrow> an_seq a < hd_seq ?nx) \<Longrightarrow> l \<le> hd_seq ?nx"
    using DeviceFold_agrees [OF assms(1,2)] by blast
  have le: "l \<le> hd_seq ?nx" if seeded
    by (rule b [OF that]) (use nx assms(5) in \<open>auto simp: anchored_below_def next_promise_seq split: option.splits\<close>)
  have eq: "f = hd_fold ?nx" if seeded "hd_seq ?nx \<le> l"
    using f le that nx by (auto simp: promise_honest_def)
  from ne refl D show ?thesis
    by (cases rule: verify_unequivocal)
       (use nx eq D in \<open>auto simp: prev_head_Upsert next_promise_seq [symmetric] resolveOmission_none\<close>)
qed

subsection \<open>Withheld events and forks\<close>

definition promised :: "store \<Rightarrow> string \<Rightarrow> ack \<Rightarrow> int" where
  "promised s dev m = hd_seq (next_promise (prev_head s dev) m)"

text \<open>The peer did not sign two different heads at one sequence number.\<close>

definition unequivocal :: "store \<Rightarrow> string \<Rightarrow> ack \<Rightarrow> bool" where
  "unequivocal s dev m \<longleftrightarrow>
     \<not> (hd_seq (prev_head s dev) > 0 \<and> ak_pushed m = hd_seq (prev_head s dev) \<and> ak_fold m \<noteq> hd_fold (prev_head s dev))"

lemma DeviceFold_short:
  assumes "no_anchor s dev" "held_prefix s dev \<noteq> []" "int (length (held_prefix s dev)) < n"
  obtains f where "DeviceFold w s dev n = Inr (int (length (held_prefix s dev)), f, True)"
proof -
  have "min (length (held_prefix s dev)) (nat n) = length (held_prefix s dev)" using assms(3) by simp
  then show thesis using that DeviceFold_held [OF assms(1,2), of n w] assms(3) by (simp add: Let_def)
qed

text \<open>C37: a hub that withholds the newest events of a peer is caught in the second cycle, for a peer
  whose stream this device holds from its first event on: there is no folded anchor for it, and the
  contiguous prefix held is not empty (a stream withheld as a whole is never reported,
  \<open>fully_withheld_stream_unseen\<close>). A head beyond the events held arms the grace; if at a later
  cycle, the recorded promise unchanged in between, the events held still do not reach that promise,
  whatever marker of the peer the hub then serves (an older one included), the alarm is recorded. In
  both cycles the marker is not a second head at the recorded number (that is a fork), and this device
  has no excuse for the missing position, which means: it did not skip that position, it has no open
  conflict about it or without a position for that peer, and no wait for a key grant is open at all,
  about whatever device.\<close>

theorem withheld_tail_detected:
  assumes "verifyOnePeerHead w dev m s = Inr (k, s1)" and "unequivocal s dev m" and "no_anchor s dev"
    and "held_prefix s dev \<noteq> []" and "int (length (held_prefix s dev)) < promised s dev m"
    and "\<not> DeviceGapLocallyDeclined dev (int (length (held_prefix s dev)) + 1) localDeclineConflictTypes s"
    and "DeviceHead dev s2 = DeviceHead dev s1" and "unequivocal s2 dev m2" and "no_anchor s2 dev"
    and "held_prefix s2 dev \<noteq> []" and "int (length (held_prefix s2 dev)) < promised s dev m"
    and "\<not> DeviceGapLocallyDeclined dev (int (length (held_prefix s2 dev)) + 1) localDeclineConflictTypes s2"
  shows "\<exists>s3. verifyOnePeerHead w dev m2 s2 = Inr (OmissionKindWithheldTail, s3) \<and>
     open_conflict [] ConflictEventOmission
       (omission_details dev OmissionKindWithheldTail (int (length (held_prefix s2 dev)))) s3"
proof -
  obtain f where D: "DeviceFold w s dev (promised s dev m) = Inr (int (length (held_prefix s dev)), f, True)"
    using DeviceFold_short [OF assms(3-5)] .
  have armed: "prev_head s1 dev = next_promise (prev_head s dev) m\<lparr>hd_pending := True\<rparr>"
    by (rule verify_unequivocal [OF assms(2) [unfolded unequivocal_def] refl D [unfolded promised_def]])
      (use assms(1,5,6) in \<open>auto simp: promised_def prev_head_Upsert\<close>)
  have h2: "prev_head s2 dev = next_promise (prev_head s dev) m\<lparr>hd_pending := True\<rparr>"
    using armed assms(7) by (simp add: prev_head_def)
  then have ge: "promised s dev m \<le> promised s2 dev m2" by (simp add: promised_def next_promise_seq)
  obtain f2 where D2: "DeviceFold w s2 dev (promised s2 dev m2) = Inr (int (length (held_prefix s2 dev)), f2, True)"
    using DeviceFold_short [OF assms(9,10), of "promised s2 dev m2"] assms(11) ge by auto
  show ?thesis
    by (rule verify_unequivocal [OF assms(8) [unfolded unequivocal_def] refl D2 [unfolded promised_def]])
      (use assms(11,12) h2 ge in \<open>auto simp: promised_def recordOmission_open\<close>)
qed

text \<open>A rewritten history is caught: when the peer signs the fold of its own stream and the
  prefix held here differs from it in any event (substituted, reordered or forked), the check
  records a fork, as long as SHA-256 has no collision among the texts hashed on the two streams.\<close>

theorem rewritten_stream_detected:
  assumes "honest_marker w (st_workspace s) dev hs m" and "digest32 w" and "no_anchor s dev"
    and "ak_pushed m > hd_seq (prev_head s dev)" and "0 \<le> hd_seq (prev_head s dev)"
    and "ak_pushed m \<le> int (length (held_prefix s dev))"
    and "take (nat (ak_pushed m)) (held_prefix s dev) \<noteq> take (nat (ak_pushed m)) hs"
    and "inj_on (w_sha w) (set (stream_inputs w (st_workspace s) dev (take (nat (ak_pushed m)) (held_prefix s dev))) \<union>
       set (stream_inputs w (st_workspace s) dev (take (nat (ak_pushed m)) hs)))"
  shows "\<exists>s'. verifyOnePeerHead w dev m s = Inr (OmissionKindFork, s') \<and>
     open_conflict [] ConflictEventOmission (omission_details dev OmissionKindFork (ak_pushed m)) s'"
proof -
  let ?n = "ak_pushed m" and ?gs = "held_prefix s dev" and ?nx = "next_promise (prev_head s dev) m"
  have n: "0 < ?n" "?n \<le> int (length hs)" "ak_fold m = Encode (stream_fold w (st_workspace s) dev (take (nat ?n) hs))"
    using assms(1) by (auto simp: honest_marker_def)
  have nx: "hd_seq ?nx = ?n" "hd_fold ?nx = ak_fold m" using assms(4) by (auto simp: next_promise_def)
  have ne: "\<not> (hd_seq (prev_head s dev) > 0 \<and> ?n = hd_seq (prev_head s dev) \<and> ak_fold m \<noteq> hd_fold (prev_head s dev))"
    using assms(4) by auto
  have "?gs \<noteq> []" using n(1) assms(6) by auto
  then have D: "DeviceFold w s dev (hd_seq ?nx) = Inr (?n, Encode (stream_fold w (st_workspace s) dev (take (nat ?n) ?gs)), True)"
    using DeviceFold_held [OF assms(3), of ?n w] n(1) assms(6) nx by (auto simp: min_def)
  have len: "nat ?n \<le> length ?gs" "nat ?n \<le> length hs" using assms(6) n(2) by auto
  have "stream_fold w (st_workspace s) dev (take (nat ?n) ?gs) \<noteq> stream_fold w (st_workspace s) dev (take (nat ?n) hs)"
    using fold_list_inj [OF assms(2) digest32_Seed [OF assms(2)] _ assms(8) [unfolded stream_inputs_def]] assms(7) len
    by (auto simp: stream_fold_def min_absorb2)
  then have f: "Encode (stream_fold w (st_workspace s) dev (take (nat ?n) ?gs)) \<noteq> hd_fold ?nx" using nx n(3) by simp
  show ?thesis
    by (rule verify_unequivocal [OF ne refl D]) (use f nx in \<open>auto simp: recordOmission_open\<close>)
qed

subsection \<open>What the check misses, and a false alarm\<close>

text \<open>An anchor at the promised head makes an honest peer look forked. Walking from an anchor
  at (or beyond) the bound, \<^verbatim>\<open>DeviceFold\<close> folds the next held event before it tests the bound, so
  its fold is one event past the promise, and the check compares it with the promised fold: a
  device bootstrapped from a snapshot at the peer's head, which has pulled the peer's next event
  before its next marker, records a fork although every event and marker is the peer's own.\<close>

theorem anchored_head_false_fork:
  assumes "agrees w s dev hs" and "digest32 w" and "honest_marker w (st_workspace s) dev hs m"
    and "DeviceHead dev s = None" and "tget an_dev dev (st_anchors s) = Some a" and "an_fold a \<noteq> []"
    and "an_seq a = ak_pushed m" and "e \<in> set (st_events s)" and "ev_workspace e = st_workspace s"
    and "ev_device e = dev" and "ev_seq e = ak_pushed m + 1"
    and "stream_fold w (st_workspace s) dev (take (nat (ak_pushed m) + 1) hs) \<noteq>
         stream_fold w (st_workspace s) dev (take (nat (ak_pushed m)) hs)"
  shows "\<exists>s'. verifyOnePeerHead w dev m s = Inr (OmissionKindFork, s') \<and>
     open_conflict [] ConflictEventOmission (omission_details dev OmissionKindFork (ak_pushed m + 1)) s'"
proof -
  let ?n = "ak_pushed m" and ?nx = "next_promise (prev_head s dev) m" and ?F = "\<lambda>k. stream_fold w (st_workspace s) dev (take k hs)"
  have n: "0 < ?n" "?n \<le> int (length hs)" "ak_fold m = Encode (?F (nat ?n))" using assms(3) by (auto simp: honest_marker_def)
  have h0: "prev_head s dev = head_zero dev" by (simp add: prev_head_def assms(4))
  have nx: "hd_seq ?nx = ?n" "hd_fold ?nx = ak_fold m" using n by (auto simp: h0 next_promise_def head_zero_def)
  have af: "an_fold a = Encode (?F (nat ?n))" using assms(1,5-7) by (auto simp: agrees_def)
  have seed: "fold_seed s dev = Inr (Some (?n, ?F (nat ?n)))"
    using assms(5-7) af digest32_stream [OF assms(2)] by (simp add: fold_seed_def)
  let ?rows = "stream_above s dev ?n"
  have mem: "e \<in> set ?rows" using assms(8-11) by (auto simp: stream_above_def)
  then obtain x xs where rows: "?rows = x # xs" by (cases ?rows) auto
  have "sorted (map ev_seq ?rows)" by (simp add: stream_above_def)
  then have "ev_seq x \<le> ?n + 1" using mem rows assms(11) by auto
  moreover have "x \<in> set ?rows" by (simp add: rows)
  then have x: "x \<in> set (st_events s)" "ev_workspace x = st_workspace s" "ev_device x = dev" "ev_seq x > ?n"
    by (auto simp: stream_above_def)
  ultimately have seq: "ev_seq x = ?n + 1" by simp
  have hash: "nat ?n < length hs" "ev_content_hash x = hs ! nat ?n" using assms(1) x seq n by (auto simp: agrees_def)
  have F: "?F (Suc (nat ?n)) = Step w (?F (nat ?n)) (?n + 1) (hs ! nat ?n)"
    using hash n by (simp add: take_Suc_conv_app_nth stream_fold_def fold_list_append min_absorb2)
  have D: "DeviceFold w s dev (hd_seq ?nx) = Inr (?n + 1, Encode (?F (Suc (nat ?n))), True)"
    using n seq hash by (simp add: DeviceFold_def seed nx rows F)
  have ne: "\<not> (hd_seq (prev_head s dev) > 0 \<and> ?n = hd_seq (prev_head s dev) \<and> ak_fold m \<noteq> hd_fold (prev_head s dev))"
    by (simp add: h0 head_zero_def)
  have f: "Encode (?F (Suc (nat ?n))) \<noteq> hd_fold ?nx" using nx n(3) assms(12) by simp
  show ?thesis
    by (rule verify_unequivocal [OF ne refl D]) (use f nx in \<open>auto simp: recordOmission_open\<close>)
qed

text \<open>A hub that withholds every event of a peer is not seen by the check: without an event or
  an anchor of the peer no fold is seeded, so no marker of the peer arms the grace or raises an
  alarm, in however many cycles.\<close>

theorem fully_withheld_stream_unseen:
  assumes "no_anchor s dev" and "stream_above s dev 0 = []" and "unequivocal s dev m"
  shows "\<exists>s'. verifyOnePeerHead w dev m s = Inr ([], s') \<and> st_conflicts s' = st_conflicts s \<and>
     \<not> hd_pending (prev_head s' dev) \<and> hd_seq (prev_head s' dev) = promised s dev m"
proof -
  obtain f where D: "DeviceFold w s dev (promised s dev m) = Inr (0, f, False)"
    using DeviceFold_unseeded [OF assms(1,2)] by blast
  show ?thesis
    by (rule verify_unequivocal [OF assms(3) [unfolded unequivocal_def] refl D [unfolded promised_def]])
      (auto simp: prev_head_Upsert promised_def)
qed

subsection \<open>Who can move a promise\<close>

definition head_authority :: "world \<Rightarrow> string \<Rightarrow> string \<Rightarrow> string \<Rightarrow> string \<Rightarrow> store \<Rightarrow> bool" where
  "head_authority w ws self d raw s \<longleftrightarrow> d \<noteq> self \<and>
     (\<exists>pub m. ApprovedDeviceSigningKey d s = Some pub \<and> ParseAckMarker w raw = Inr m \<and> ak_device m = d \<and>
        ak_workspace m = ws \<and> VerifyAckMarker w m pub = Inr () \<and> ak_fold m \<noteq> [])"

lemma peer_marker_authority:
  "peer_marker w ws self a s = Some m \<Longrightarrow> head_authority w ws self (fst a) (snd a) s"
  by (cases a) (auto simp: peer_marker_def head_authority_def split: if_split_asm option.splits sum.splits)

lemma ApprovedDeviceSigningKey_cong: "st_devices s = st_devices t \<Longrightarrow> ApprovedDeviceSigningKey d s = ApprovedDeviceSigningKey d t"
  by (simp add: ApprovedDeviceSigningKey_def)

lemma head_authority_cong: "st_devices s = st_devices t \<Longrightarrow> head_authority w ws self d raw s = head_authority w ws self d raw t"
  using ApprovedDeviceSigningKey_cong [of s t d] by (simp add: head_authority_def)

lemma verify_heads_guard:
  "verify_heads w ws self acks n0 s = (n, err, s') \<Longrightarrow>
     hd_seq (prev_head s d) \<le> hd_seq (prev_head s' d) \<and>
     (DeviceHead d s' = DeviceHead d s \<or> (\<exists>raw. (d, raw) \<in> set acks \<and> head_authority w ws self d raw s))"
proof (induction acks arbitrary: n0 s)
  case (Cons a acks)
  obtain d0 raw0 where a: "a = (d0, raw0)" by (cases a)
  show ?case
  proof (cases "peer_marker w ws self a s")
    case None
    then show ?thesis using Cons.IH [of n0 s] Cons.prems by auto
  next
    case (Some m)
    note auth = peer_marker_authority [OF Some]
    show ?thesis
    proof (cases "verifyOnePeerHead w d0 m s")
      case (Inl e)
      then show ?thesis using Cons.prems Some a by simp
    next
      case (Inr r)
      obtain k s1 where r: "r = (k, s1)" by (cases r)
      note st = verify_promise [OF Inr [unfolded r], of d]
      have IH: "hd_seq (prev_head s1 d) \<le> hd_seq (prev_head s' d)"
        "DeviceHead d s' = DeviceHead d s1 \<or> (\<exists>raw. (d, raw) \<in> set acks \<and> head_authority w ws self d raw s1)"
        using Cons.IH [of "if k \<noteq> [] then n0 + 1 else n0" s1] Cons.prems Some a Inr r by simp_all
      have mono: "hd_seq (prev_head s d) \<le> hd_seq (prev_head s1 d)"
        using st by (cases "d = d0") (auto simp: prev_head_def)
      show ?thesis
      proof (cases "d = d0")
        case True
        then show ?thesis using auth a mono IH(1) by auto
      next
        case False
        then show ?thesis using IH mono st head_authority_cong [of s1 s] by auto
      qed
    qed
  qed
qed simp

text \<open>A promise, once recorded, is never retracted, and only its owner can move it: whatever
  the hub lists as markers, the promised sequence number of every device stays or grows, and the
  row of a device changes only when the list holds a marker for it, of this workspace and naming it,
  that verifies under its key while it is approved here.\<close>

theorem promises_only_grow:
  assumes "VerifyPeerHeads w acks ws self s = (n, err, s')"
  shows "hd_seq (prev_head s d) \<le> hd_seq (prev_head s' d) \<and>
     (DeviceHead d s' = DeviceHead d s \<or>
      (\<exists>rawAcks raw. acks = Inr rawAcks \<and> (d, raw) \<in> set rawAcks \<and> head_authority w ws self d raw s))"
proof (cases acks)
  case (Inl e)
  then show ?thesis using assms by (simp add: VerifyPeerHeads_def)
next
  case (Inr rawAcks)
  then have "verify_heads w ws self rawAcks 0 s = (n, err, s')" using assms by (simp add: VerifyPeerHeads_def)
  from verify_heads_guard [OF this, of d] Inr show ?thesis by auto
qed

text \<open>A marker that a device signs verifies under its public key, at the current version, and
  signing changes nothing else of it.\<close>

theorem ack_sign_roundtrip:
  assumes "key_pair w pub priv"
  shows "\<exists>m'. SignAckMarker w m (key_text priv) = Inr m' \<and> VerifyAckMarker w m' (key_text pub) = Inr () \<and>
     m' = m\<lparr>ak_v := ackVersion, ak_sig := ak_sig m'\<rparr>"
proof -
  have p: "ackSignaturePayloadForVersion (m\<lparr>ak_v := ackVersion, ak_sig := x\<rparr>) =
      ackSignaturePayloadForVersion (m\<lparr>ak_v := ackVersion\<rparr>)" for x
    by (simp add: ackSignaturePayloadForVersion_def ackVersion_def ackVersionV1_def ackVersionV2_def
        AckSignaturePayloadV2_def ackCursorOrEmpty_def)
  have q: "\<exists>y. ackSignaturePayloadForVersion (m\<lparr>ak_v := ackVersion\<rparr>) = Inr y"
    by (simp add: ackSignaturePayloadForVersion_def ackVersion_def ackVersionV1_def ackVersionV2_def)
  then obtain y where y: "ackSignaturePayloadForVersion (m\<lparr>ak_v := ackVersion\<rparr>) = Inr y" ..
  show ?thesis
    using Verify_key_pair [OF assms, of AckSignatureDomain y]
    by (simp add: SignAckMarker_def VerifyAckMarker_def y p Sign_key_pair [OF assms])
qed

subsection \<open>Concrete streams\<close>

definition digest_world :: world where
  "digest_world = (plain_world 0)\<lparr>w_sha := \<lambda>x. take 32 (rev x @ replicate 32 CHR ''.'')\<rparr>"

lemma digest_world32 [simp]: "digest32 digest_world"
  by (simp add: digest32_def digest_world_def min_def)

definition peer_event :: "int \<Rightarrow> string \<Rightarrow> event" where
  "peer_event n h = event_zero\<lparr>ev_workspace := ''ws'', ev_device := ''p'', ev_seq := n, ev_content_hash := h\<rparr>"

definition peer_store :: "event list \<Rightarrow> store" where
  "peer_store es = (empty_store ''ws'')\<lparr>st_events := es\<rparr>"

definition peer_ack :: "int \<Rightarrow> string list \<Rightarrow> ack" where
  "peer_ack n hs = ack_zero\<lparr>ak_device := ''p'', ak_workspace := ''ws'', ak_pushed := n,
     ak_fold := Encode (stream_fold digest_world ''ws'' ''p'' (take (nat n) hs))\<rparr>"

lemma peer_simps [simp]:
  "ev_workspace (peer_event n h) = ''ws''" "ev_device (peer_event n h) = ''p''" "ev_seq (peer_event n h) = n"
  "ev_content_hash (peer_event n h) = h" "st_workspace (peer_store es) = ''ws''" "st_events (peer_store es) = es"
  "st_anchors (peer_store es) = []" "st_skipped (peer_store es) = []" "st_waits (peer_store es) = []"
  "st_conflicts (peer_store es) = []" "DeviceHead d (peer_store es) = None" "ak_pushed (peer_ack n hs) = n"
  by (simp_all add: peer_event_def peer_store_def peer_ack_def DeviceHead_def)

lemma head_zero_simps [simp]: "hd_seq (head_zero d) = 0" "hd_pending (head_zero d) = False" "hd_dev (head_zero d) = d"
  by (simp_all add: head_zero_def)

lemma peer_prev [simp]: "prev_head (peer_store es) d = head_zero d"
  by (simp add: prev_head_def)

lemma peer_honest: "0 < n \<Longrightarrow> n \<le> int (length hs) \<Longrightarrow> honest_marker digest_world ''ws'' ''p'' hs (peer_ack n hs)"
  by (simp add: honest_marker_def peer_ack_def)

lemma peer_held1 [simp]: "held_prefix (peer_store [peer_event 1 h]) ''p'' = [h]"
  by (simp add: held_prefix_def stream_above_def)

lemma peer_agrees: "agrees digest_world (peer_store [peer_event 1 ''a'']) ''p'' [''a'', ''b'']"
  by (simp add: agrees_def)

lemma peer_declined: "\<not> DeviceGapLocallyDeclined d n ts (peer_store es)"
  by (simp add: DeviceGapLocallyDeclined_def)

lemma zero_promise [simp]: "promise_honest w ws hs (head_zero d)" "unequivocal (peer_store es) d m"
  by (simp_all add: promise_honest_def unequivocal_def)

theorem honest_peer_never_forks_witness:
  "\<exists>k s'. verifyOnePeerHead digest_world ''p'' (peer_ack 2 [''a'', ''b'']) (peer_store [peer_event 1 ''a'']) = Inr (k, s') \<and>
     k \<noteq> OmissionKindFork \<and> hd_seq (prev_head s' ''p'') = 2"
  using honest_peer_never_forks [OF peer_agrees digest_world32, of "peer_ack 2 [''a'', ''b'']"]
  by (auto simp: peer_honest anchored_below_def)

theorem withheld_tail_detected_witness:
  "\<exists>s1 s3. verifyOnePeerHead digest_world ''p'' (peer_ack 2 [''a'', ''b'']) (peer_store [peer_event 1 ''a'']) = Inr ([], s1) \<and>
     verifyOnePeerHead digest_world ''p'' (peer_ack 1 [''a'', ''b'']) s1 = Inr (OmissionKindWithheldTail, s3)"
proof -
  let ?s = "peer_store [peer_event 1 ''a'']" and ?m = "peer_ack 2 [''a'', ''b'']"
  have pr: "promised ?s ''p'' ?m = 2" by (simp add: promised_def next_promise_seq)
  have na: "no_anchor ?s ''p''" by (simp add: no_anchor_def)
  obtain f where D: "DeviceFold digest_world ?s ''p'' 2 = Inr (1, f, True)"
    using DeviceFold_short [OF na, of 2 digest_world] by auto
  let ?s1 = "UpsertDeviceHead (next_promise (head_zero ''p'') ?m\<lparr>hd_pending := True\<rparr>) ?s"
  have s1: "verifyOnePeerHead digest_world ''p'' ?m ?s = Inr ([], ?s1)"
    using D pr peer_declined [of "''p''" 2 localDeclineConflictTypes "[peer_event 1 ''a'']"]
    by (simp add: verify_peer promised_def next_promise_seq)
  have up: "st_events (UpsertDeviceHead h s) = st_events s" "st_workspace (UpsertDeviceHead h s) = st_workspace s"
    "st_anchors (UpsertDeviceHead h s) = st_anchors s" "DeviceGapLocallyDeclined d n ts (UpsertDeviceHead h s) = DeviceGapLocallyDeclined d n ts s"
    for h s d n ts
    by (simp_all add: UpsertDeviceHead_def DeviceGapLocallyDeclined_def)
  have h1: "held_prefix ?s1 ''p'' = [''a'']"
    using peer_held1 [of "''a''"] by (simp add: held_prefix_def stream_above_def up)
  have "\<exists>s3. verifyOnePeerHead digest_world ''p'' (peer_ack 1 [''a'', ''b'']) ?s1 = Inr (OmissionKindWithheldTail, s3) \<and>
     open_conflict [] ConflictEventOmission (omission_details ''p'' OmissionKindWithheldTail (int (length (held_prefix ?s1 ''p'')))) s3"
    by (rule withheld_tail_detected [OF s1])
      (simp_all add: pr na h1 up peer_declined unequivocal_def prev_head_Upsert next_promise_seq,
       simp add: no_anchor_def up)
  then show ?thesis using s1 by blast
qed

theorem rewritten_stream_detected_witness:
  "\<exists>s'. verifyOnePeerHead digest_world ''p'' (peer_ack 1 [''a'', ''b'']) (peer_store [peer_event 1 ''x'']) =
     Inr (OmissionKindFork, s')"
proof -
  let ?s = "peer_store [peer_event 1 ''x'']" and ?m = "peer_ack 1 [''a'', ''b'']"
  have "inj_on (w_sha digest_world) (set (stream_inputs digest_world ''ws'' ''p'' [''x'']) \<union>
      set (stream_inputs digest_world ''ws'' ''p'' [''a'']))"
    by (auto simp: inj_on_def stream_inputs_def digest_world_def step_input_def)
  then have "\<exists>s'. verifyOnePeerHead digest_world ''p'' ?m ?s = Inr (OmissionKindFork, s') \<and>
     open_conflict [] ConflictEventOmission (omission_details ''p'' OmissionKindFork (ak_pushed ?m)) s'"
    by (intro rewritten_stream_detected [of _ _ _ "[''a'', ''b'']"])
      (simp_all add: peer_honest no_anchor_def)
  then show ?thesis by auto
qed

definition anchored_store :: store where
  "anchored_store = (peer_store [peer_event 2 ''b''])\<lparr>st_anchors := [\<lparr>an_dev = ''p'', an_seq = 1, an_hash = ''a'',
     an_fold = Encode (stream_fold digest_world ''ws'' ''p'' [''a'']), an_hlc = 0, an_sha = []\<rparr>]\<rparr>"

theorem anchored_head_false_fork_witness:
  "\<exists>s'. verifyOnePeerHead digest_world ''p'' (peer_ack 1 [''a'', ''b'']) anchored_store = Inr (OmissionKindFork, s')"
proof -
  have ag: "agrees digest_world anchored_store ''p'' [''a'', ''b'']"
    by (simp add: agrees_def anchored_store_def)
  have ne: "stream_fold digest_world ''ws'' ''p'' [''a'', ''b''] \<noteq> stream_fold digest_world ''ws'' ''p'' [''a'']"
    by (simp add: stream_fold_def Step_def digest_world_def step_input_def)
  show ?thesis
    using anchored_head_false_fork [OF ag digest_world32, of "peer_ack 1 [''a'', ''b'']" _ "peer_event 2 ''b''"] ne
    by (auto simp: anchored_store_def peer_honest DeviceHead_def peer_store_def)
qed

theorem fully_withheld_stream_unseen_witness:
  "\<exists>s'. verifyOnePeerHead digest_world ''p'' (peer_ack 2 [''a'', ''b'']) (peer_store []) = Inr ([], s') \<and>
     \<not> hd_pending (prev_head s' ''p'')"
  using fully_withheld_stream_unseen [of "peer_store []" "''p''" "peer_ack 2 [''a'', ''b'']" digest_world]
  by (auto simp: no_anchor_def stream_above_def)

theorem promises_only_grow_witness:
  "\<exists>n err s'. VerifyPeerHeads digest_world (Inr [(''p'', ''{}'')]) ''ws'' ''me'' (peer_store []) = (n, err, s') \<and>
     0 \<le> hd_seq (prev_head s' ''p'')"
proof -
  obtain n err s' where v: "VerifyPeerHeads digest_world (Inr [(''p'', ''{}'')]) ''ws'' ''me'' (peer_store []) = (n, err, s')"
    by (cases "VerifyPeerHeads digest_world (Inr [(''p'', ''{}'')]) ''ws'' ''me'' (peer_store [])") blast
  show ?thesis using promises_only_grow [OF v, of "''p''"] v by (auto)
qed

theorem ack_sign_roundtrip_witness:
  "\<exists>m'. SignAckMarker (plain_world 0) (peer_ack 1 [''a'']) (key_text (replicate 64 CHR ''k'')) = Inr m' \<and>
     VerifyAckMarker (plain_world 0) m' (key_text (replicate 32 CHR ''k'')) = Inr ()"
  using ack_sign_roundtrip [OF plain_key_pair, of "replicate 32 CHR ''k''" "replicate 64 CHR ''k''" 0 "peer_ack 1 [''a'']"]
  by auto

end
