(* ===== verification/Keys_Cursors.thy ===== *)
theory Keys_Cursors
  imports Peer_Heads
begin

section \<open>Key epochs, waits, skipped events, cursors and local metadata\<close>

text \<open>
  The bookkeeping tables of \<^verbatim>\<open>src/internal/state/store.go\<close> around the exchange with a hub: the
  workspace keys held (their metadata), the grants seen, the waits for keys not yet granted, the
  events a pull skipped, the transport cursors per hub and device, and \<^verbatim>\<open>local_meta\<close>, with the
  owed-rotation marker of \<^verbatim>\<open>state/wck_rotation.go\<close>. Times are the clock's readings; the store's
  text form of them has a fixed width, so that its order is theirs.
\<close>

subsection \<open>Workspace keys\<close>

definition key_at :: "key_row \<Rightarrow> int \<times> string" where "key_at k = (ky_epoch k, ky_kid k)"
definition wait_at :: "wait_row \<Rightarrow> int \<times> string" where "wait_at k = (kw_epoch k, kw_kid k)"
definition grant_at :: "grant_row \<Rightarrow> int \<times> string" where "grant_at g = (gt_epoch g, gt_recipient g)"
definition skip_at :: "skipped \<Rightarrow> string \<times> string" where "skip_at k = (sk_event k, sk_reason k)"
definition seq_at :: "hub_device_cursor \<Rightarrow> string \<times> string" where "seq_at c = (hq_hub c, hq_dev c)"

fun max_of :: "int list \<Rightarrow> int option" where
  "max_of [] = None"
| "max_of (x # xs) = (case max_of xs of None \<Rightarrow> Some x | Some y \<Rightarrow> Some (max x y))"

fun min_of :: "int list \<Rightarrow> int option" where
  "min_of [] = None"
| "min_of (x # xs) = (case min_of xs of None \<Rightarrow> Some x | Some y \<Rightarrow> Some (min x y))"

definition CurrentKeyEpoch :: "store \<Rightarrow> int" where
  "CurrentKeyEpoch s = or_else (max_of (map ky_epoch (st_keys s))) 0"

text \<open>\<^verbatim>\<open>INSERT OR IGNORE\<close> also ignores a row that violates the \<^verbatim>\<open>CHECK\<close> on \<^verbatim>\<open>origin\<close>.\<close>

definition RecordKeyEpoch :: "world \<Rightarrow> int \<Rightarrow> string \<Rightarrow> string \<Rightarrow> store \<Rightarrow> store" where
  "RecordKeyEpoch w epoch kid origin s =
     (let s1 = (if origin \<in> {''self'', ''grant'', ''legacy''}
        then s\<lparr>st_keys := tins key_at \<lparr>ky_epoch = epoch, ky_kid = kid, ky_origin = origin, ky_created = w_now w\<rparr> (st_keys s)\<rparr>
        else s)
      in s1\<lparr>st_waits := tdel (\<lambda>k. kw_epoch k = epoch \<and> kw_kid k \<in> {[], kid}) (st_waits s1)\<rparr>)"

definition NoteMissingKeyGrant :: "world \<Rightarrow> int \<Rightarrow> string \<Rightarrow> store \<Rightarrow> int \<times> store" where
  "NoteMissingKeyGrant w epoch kid s =
     (let s1 = s\<lparr>st_waits := tins wait_at \<lparr>kw_epoch = epoch, kw_kid = kid, kw_first = w_now w\<rparr> (st_waits s)\<rparr>
      in (or_else (min_of (map kw_first (filter (\<lambda>k. kw_epoch k = epoch) (st_waits s1)))) 0, s1))"

definition OpenKeyGrantWaits :: "store \<Rightarrow> wait_row list" where
  "OpenKeyGrantWaits s = sort_key kw_epoch (sort_key kw_kid (st_waits s))"

definition ActiveKeyEpochAge :: "store \<Rightarrow> (int \<times> int) option" where
  "ActiveKeyEpochAge s = (case max_of (map ky_epoch (st_keys s)) of
       None \<Rightarrow> None
     | Some m \<Rightarrow> map_option (Pair m) (min_of (map ky_created (filter (\<lambda>k. ky_epoch k = m) (st_keys s)))))"

definition HeldKeys :: "store \<Rightarrow> (int \<times> string \<times> string) list" where
  "HeldKeys s = map (\<lambda>k. (ky_epoch k, ky_kid k, ky_origin k)) (sort_key ky_epoch (sort_key ky_kid (st_keys s)))"

definition HeldKeyEpochs :: "store \<Rightarrow> int list" where
  "HeldKeyEpochs s = sort (remdups (map ky_epoch (st_keys s)))"

definition UpdateKeyKid :: "int \<Rightarrow> string \<Rightarrow> store \<Rightarrow> store" where
  "UpdateKeyKid epoch kid s =
     (case tget key_at (epoch, []) (st_keys s) of
        None \<Rightarrow> s
      | Some k \<Rightarrow> s\<lparr>st_keys := tdel (\<lambda>x. key_at x = (epoch, [])) (tins key_at (k\<lparr>ky_kid := kid\<rparr>) (st_keys s))\<rparr>)"

definition RecordKeyGrant :: "int \<Rightarrow> string \<Rightarrow> string \<Rightarrow> string \<Rightarrow> int \<Rightarrow> string \<Rightarrow> store \<Rightarrow> store" where
  "RecordKeyGrant epoch kid recipient sourceEventID sourceEventHLC sourceEventDeviceID s =
     s\<lparr>st_grants := tins grant_at \<lparr>gt_epoch = epoch, gt_recipient = recipient, gt_event = sourceEventID,
        gt_hlc = nullZero sourceEventHLC, gt_dev = nullEmpty sourceEventDeviceID, gt_kid = nullEmpty kid\<rparr> (st_grants s)\<rparr>"

definition RecordKeyGrantTx :: "int \<Rightarrow> string \<Rightarrow> string \<Rightarrow> event \<Rightarrow> store \<Rightarrow> store" where
  "RecordKeyGrantTx epoch kid recipient e s = RecordKeyGrant epoch kid recipient (ev_id e) (ev_hlc e) (ev_device e) s"

subsection \<open>Skipped events\<close>

definition NoteSkippedEvent :: "world \<Rightarrow> event \<Rightarrow> string \<Rightarrow> store \<Rightarrow> int \<times> store" where
  "NoteSkippedEvent w e reason s =
     (let s1 = s\<lparr>st_skipped := tins skip_at \<lparr>sk_event = ev_id e, sk_dev = ev_device e, sk_seq = ev_seq e,
        sk_hlc = ev_hlc e, sk_reason = reason, sk_first = w_now w\<rparr> (st_skipped s)\<rparr>
      in ((case tget skip_at (ev_id e, reason) (st_skipped s1) of Some k \<Rightarrow> sk_first k | None \<Rightarrow> 0), s1))"

definition OpenSkippedEvents :: "store \<Rightarrow> skipped list" where
  "OpenSkippedEvents s = sort_key sk_first (sort_key sk_event (st_skipped s))"

definition ClearSkippedEventTx :: "string \<Rightarrow> store \<Rightarrow> store" where
  "ClearSkippedEventTx eventID s = s\<lparr>st_skipped := tdel (\<lambda>k. sk_event k = eventID) (st_skipped s)\<rparr>"

subsection \<open>Cursors\<close>

definition HubCursor :: "string \<Rightarrow> store \<Rightarrow> int" where
  "HubCursor hub s = (case tget hc_hub hub (st_hub_cursors s) of Some c \<Rightarrow> hc_hlc c | None \<Rightarrow> 0)"

definition AdvanceHubCursor :: "string \<Rightarrow> int \<Rightarrow> store \<Rightarrow> store" where
  "AdvanceHubCursor hub hlc s = s\<lparr>st_hub_cursors := tput hc_hub \<lparr>hc_hub = hub, hc_hlc = hlc\<rparr>
     (\<lambda>r. if hlc > hc_hlc r then r\<lparr>hc_hlc := max hlc (hc_hlc r)\<rparr> else r) (st_hub_cursors s)\<rparr>"

definition HubDeviceCursors :: "string \<Rightarrow> store \<Rightarrow> (string \<times> int) list" where
  "HubDeviceCursors hub s = map (\<lambda>c. (hq_dev c, hq_seq c)) (filter (\<lambda>c. hq_hub c = hub) (st_hub_seqs s))"

definition AdvanceHubDeviceCursor :: "string \<Rightarrow> string \<Rightarrow> int \<Rightarrow> store \<Rightarrow> store" where
  "AdvanceHubDeviceCursor hub dev seq s = s\<lparr>st_hub_seqs := tput seq_at \<lparr>hq_hub = hub, hq_dev = dev, hq_seq = seq\<rparr>
     (\<lambda>r. if seq > hq_seq r then r\<lparr>hq_seq := max seq (hq_seq r)\<rparr> else r) (st_hub_seqs s)\<rparr>"

definition push_id :: "string \<Rightarrow> string" where "push_id hub = ''push:'' @ hub"

definition PushSeqCursor :: "string \<Rightarrow> store \<Rightarrow> int res" where
  "PushSeqCursor hub s =
     (case currentDevice s of
        Inl e \<Rightarrow> Inl (Err (err_kinds e) (''read current device for push cursor: '' @ err_msg e))
      | Inr d \<Rightarrow> Inr (case tget seq_at (push_id hub, dv_id d) (st_hub_seqs s) of Some c \<Rightarrow> hq_seq c | None \<Rightarrow> 0))"

definition AdvancePushSeqCursor :: "string \<Rightarrow> int \<Rightarrow> store \<Rightarrow> store res" where
  "AdvancePushSeqCursor hub seq s =
     (case currentDevice s of
        Inl e \<Rightarrow> Inl (Err (err_kinds e) (''read current device for push cursor: '' @ err_msg e))
      | Inr d \<Rightarrow> Inr (AdvanceHubDeviceCursor (push_id hub) (dv_id d) seq s))"

definition HasHubDeviceCursors :: "string \<Rightarrow> store \<Rightarrow> bool" where
  "HasHubDeviceCursors hub s \<longleftrightarrow> list_ex (\<lambda>c. hq_hub c \<in> {hub, push_id hub} \<and> hq_seq c > 0) (st_hub_seqs s)"

subsection \<open>Local metadata and the owed rotation\<close>

definition GetLocalMeta :: "string \<Rightarrow> store \<Rightarrow> string option" where
  "GetLocalMeta key s = map_option snd (tget fst key (st_meta s))"

definition SetLocalMeta :: "string \<Rightarrow> string \<Rightarrow> store \<Rightarrow> store" where
  "SetLocalMeta key v s = s\<lparr>st_meta := tput fst (key, v) (\<lambda>r. (fst r, v)) (st_meta s)\<rparr>"

definition DeleteLocalMeta :: "string \<Rightarrow> store \<Rightarrow> store" where
  "DeleteLocalMeta key s = s\<lparr>st_meta := tdel (\<lambda>r. fst r = key) (st_meta s)\<rparr>"

definition WCKRotationPendingMetaKey :: string where "WCKRotationPendingMetaKey = ''wck_rotation_pending''"

definition rotation_record :: "world \<Rightarrow> int \<Rightarrow> string" where
  "rotation_record w epoch = marshal_obj [jint ''epoch'' epoch, jstr ''since'' (w_stamp w)]"

definition SetWCKRotationPendingTx :: "world \<Rightarrow> int \<Rightarrow> store \<Rightarrow> store" where
  "SetWCKRotationPendingTx w epoch s =
     (if epoch \<le> 0 \<or> GetLocalMeta WCKRotationPendingMetaKey s \<noteq> None then s
      else SetLocalMeta WCKRotationPendingMetaKey (rotation_record w epoch) s)"

text \<open>\<^verbatim>\<open>cli/wck_rotation.go\<close>: the marker as the command line sets and clears it.\<close>

definition markWCKRotationPending :: "world \<Rightarrow> int \<Rightarrow> store \<Rightarrow> store" where
  "markWCKRotationPending w epoch s = SetLocalMeta WCKRotationPendingMetaKey (rotation_record w epoch) s"

definition clearWCKRotationPending :: "store \<Rightarrow> store" where
  "clearWCKRotationPending s = DeleteLocalMeta WCKRotationPendingMetaKey s"

subsection \<open>Cursors only move forward\<close>

lemma hub_device_cursor_read:
  "tget seq_at k (st_hub_seqs (AdvanceHubDeviceCursor hub dev seq s)) =
     (if k = (hub, dev) then
        (case tget seq_at k (st_hub_seqs s) of
           None \<Rightarrow> Some \<lparr>hq_hub = hub, hq_dev = dev, hq_seq = seq\<rparr>
         | Some r \<Rightarrow> Some (r\<lparr>hq_seq := max seq (hq_seq r)\<rparr>))
      else tget seq_at k (st_hub_seqs s))"
proof -
  have "seq_at (if seq > hq_seq r then r\<lparr>hq_seq := max seq (hq_seq r)\<rparr> else r) = seq_at r" for r
    by (simp add: seq_at_def)
  then show ?thesis
    by (auto simp: AdvanceHubDeviceCursor_def tget_tput seq_at_def max_def split: option.splits)
qed

definition cursor_of :: "string \<Rightarrow> string \<Rightarrow> store \<Rightarrow> int" where
  "cursor_of hub dev s = (case tget seq_at (hub, dev) (st_hub_seqs s) of Some c \<Rightarrow> hq_seq c | None \<Rightarrow> 0)"

definition cursor_step :: "string \<times> string \<times> int \<Rightarrow> store \<Rightarrow> store" where
  "cursor_step = (\<lambda>(hub, dev, seq). AdvanceHubDeviceCursor hub dev seq)"

lemma cursor_step_of:
  "0 \<le> n \<Longrightarrow> cursor_of hub dev (cursor_step (h, d, n) s) =
     (if h = hub \<and> d = dev then (if tget seq_at (hub, dev) (st_hub_seqs s) = None then n else max n (cursor_of hub dev s))
      else cursor_of hub dev s)"
  by (auto simp: cursor_of_def cursor_step_def hub_device_cursor_read split: option.splits)

text \<open>The sequence numbers a list of advances names for one cursor.\<close>

definition advances :: "string \<Rightarrow> string \<Rightarrow> (string \<times> string \<times> int) list \<Rightarrow> int list" where
  "advances hub dev xs = map (snd \<circ> snd) (filter (\<lambda>(h, d, n). h = hub \<and> d = dev) xs)"

text \<open>The transport cursor of a device is the largest position ever recorded: whatever advances
  arrive, in whatever order and repetition, the cursor of each hub and device is the maximum of its
  old position and the positions recorded for it, so a stale pull never moves it back.\<close>

theorem hub_cursor_is_maximum:
  assumes "\<forall>x \<in> set xs. 0 \<le> snd (snd x)" and "0 \<le> cursor_of hub dev s"
  shows "cursor_of hub dev (fold cursor_step xs s) = Max (insert (cursor_of hub dev s) (set (advances hub dev xs)))"
  using assms
proof (induction xs arbitrary: s)
  case (Cons x xs)
  obtain h d n where x: "x = (h, d, n)" by (cases x)
  have n: "0 \<le> n" using Cons.prems(1) x by simp
  have st: "cursor_of hub dev (cursor_step x s) = (if h = hub \<and> d = dev then max n (cursor_of hub dev s) else cursor_of hub dev s)"
    using cursor_step_of [OF n, of hub dev h d s] n unfolding x
    by (auto simp: cursor_of_def split: option.splits)
  then have "0 \<le> cursor_of hub dev (cursor_step x s)" using Cons.prems(2) by auto
  then have IH: "cursor_of hub dev (fold cursor_step xs (cursor_step x s)) =
      Max (insert (cursor_of hub dev (cursor_step x s)) (set (advances hub dev xs)))"
    by (rule Cons.IH [rotated]) (use Cons.prems(1) in auto)
  have *: "Max (insert (max n c) A) = Max (insert c (insert n A))" if "finite A" for c A
    using that by (cases "A = {}") (auto simp: max.assoc max.left_commute max.commute)
  show ?case using IH st x by (auto simp: advances_def *)
qed (simp add: advances_def)

theorem hub_cursor_is_maximum_witness:
  "cursor_of ''h'' ''d'' (fold cursor_step [(''h'', ''d'', 7), (''h'', ''e'', 9), (''h'', ''d'', 3)] (empty_store ''ws'')) = 7"
  using hub_cursor_is_maximum [of "[(''h'', ''d'', 7), (''h'', ''e'', 9), (''h'', ''d'', 3)]" "''h''" "''d''" "empty_store ''ws''"]
  by (simp add: advances_def cursor_of_def)

subsection \<open>Grace windows\<close>

lemma min_of_Min: "xs \<noteq> [] \<Longrightarrow> min_of xs = Some (Min (set xs))"
proof (induction xs)
  case (Cons x xs)
  then show ?case by (cases xs) auto
qed simp

definition waits_of :: "int \<Rightarrow> store \<Rightarrow> int set" where
  "waits_of epoch s = kw_first ` {k \<in> set (st_waits s). kw_epoch k = epoch}"

lemma finite_waits [simp]: "finite (waits_of e s)"
  by (simp add: waits_of_def)

lemma NoteMissing_st:
  "st_waits (snd (NoteMissingKeyGrant w e kid s)) = (if tget wait_at (e, kid) (st_waits s) = None
     then st_waits s @ [\<lparr>kw_epoch = e, kw_kid = kid, kw_first = w_now w\<rparr>] else st_waits s)"
  by (simp add: NoteMissingKeyGrant_def Let_def tins_def ex_tget) (simp add: wait_at_def)

lemma NoteMissing_row:
  obtains k where "k \<in> set (st_waits (snd (NoteMissingKeyGrant w e kid s)))" "kw_epoch k = e" "kw_kid k = kid"
proof (cases "tget wait_at (e, kid) (st_waits s)")
  case None
  then show ?thesis using that [of "\<lparr>kw_epoch = e, kw_kid = kid, kw_first = w_now w\<rparr>"] by (simp add: NoteMissing_st)
next
  case (Some r)
  then show ?thesis using that tget_SomeD [OF Some] by (auto simp: NoteMissing_st wait_at_def)
qed

lemma NoteMissing_waits:
  "waits_of e' (snd (NoteMissingKeyGrant w e kid s)) =
     (if e' = e \<and> tget wait_at (e, kid) (st_waits s) = None then insert (w_now w) (waits_of e s) else waits_of e' s)"
proof (cases "tget wait_at (e, kid) (st_waits s)")
  case None
  have "{k \<in> set (st_waits s @ [\<lparr>kw_epoch = e, kw_kid = kid, kw_first = w_now w\<rparr>]). kw_epoch k = e'} =
      (if e' = e then insert \<lparr>kw_epoch = e, kw_kid = kid, kw_first = w_now w\<rparr> {k \<in> set (st_waits s). kw_epoch k = e}
       else {k \<in> set (st_waits s). kw_epoch k = e'})"
    by auto
  then show ?thesis using None by (simp add: NoteMissing_st waits_of_def)
next
  case (Some r)
  then show ?thesis by (simp add: NoteMissing_st waits_of_def)
qed

lemma NoteMissing_first:
  "fst (NoteMissingKeyGrant w e kid s) = Min (waits_of e (snd (NoteMissingKeyGrant w e kid s)))"
proof -
  let ?t = "tins wait_at \<lparr>kw_epoch = e, kw_kid = kid, kw_first = w_now w\<rparr> (st_waits s)"
  have "map kw_first (filter (\<lambda>k. kw_epoch k = e) ?t) \<noteq> []"
    by (auto simp: tins_def list_ex_iff wait_at_def filter_empty_conv)
  from min_of_Min [OF this] show ?thesis
    by (simp add: NoteMissingKeyGrant_def Let_def waits_of_def)
qed

lemma NoteMissing_nonempty: "waits_of e (snd (NoteMissingKeyGrant w e kid s)) \<noteq> {}"
  using NoteMissing_row [of w e kid s] by (auto simp: waits_of_def)

definition sightings :: "(world \<times> int \<times> string) list \<Rightarrow> store \<Rightarrow> store" where
  "sightings xs s = fold (\<lambda>(w, e, kid) s. snd (NoteMissingKeyGrant w e kid s)) xs s"

lemma sightings_min:
  assumes "waits_of e s \<noteq> {}" "\<forall>x \<in> set xs. Min (waits_of e s) \<le> w_now (fst x)"
  shows "waits_of e (sightings xs s) \<noteq> {} \<and> Min (waits_of e (sightings xs s)) = Min (waits_of e s)"
  using assms
proof (induction xs arbitrary: s)
  case (Cons x xs)
  obtain w e' kid where x: "x = (w, e', kid)" by (cases x)
  let ?s = "snd (NoteMissingKeyGrant w e' kid s)"
  have "waits_of e ?s \<noteq> {} \<and> Min (waits_of e ?s) = Min (waits_of e s)"
    using Cons.prems x by (cases "e' = e") (simp_all add: NoteMissing_waits)
  then show ?case using Cons.IH [of ?s] Cons.prems x by (simp add: sightings_def)
qed (simp add: sightings_def)

text \<open>The grace window of a missing key cannot be restarted: once an event sealed under an
  epoch was seen without a key, every later sighting at that epoch returns the same first time,
  whatever key ids the hub writes on the events in between and after.\<close>

theorem grace_window_stable:
  assumes "NoteMissingKeyGrant w e kid s = (first, s1)" and "\<forall>x \<in> set xs. first \<le> w_now (fst x)" and "first \<le> w_now w'"
  shows "fst (NoteMissingKeyGrant w' e kid' (sightings xs s1)) = first"
proof -
  have s1: "waits_of e s1 \<noteq> {}" "first = Min (waits_of e s1)"
    using NoteMissing_nonempty [of e w kid s] NoteMissing_first [of w e kid s] assms(1) by simp_all
  have f: "fst (NoteMissingKeyGrant w' e kid' (sightings xs s1)) = Min (waits_of e (sightings (xs @ [(w', e, kid')]) s1))"
    by (simp add: NoteMissing_first sightings_def)
  have "\<forall>x \<in> set (xs @ [(w', e, kid')]). Min (waits_of e s1) \<le> w_now (fst x)" using assms(2,3) s1(2) by auto
  from sightings_min [OF s1(1) this] f s1(2) show ?thesis by simp
qed

theorem grace_window_stable_witness:
  "fst (NoteMissingKeyGrant (plain_world 90) 2 ''b''
     (sightings [(plain_world 80, 2, ''forged'')] (snd (NoteMissingKeyGrant (plain_world 70) 2 [] (empty_store ''ws''))))) = 70"
  by (rule grace_window_stable [of "plain_world 70" 2 "[]" "empty_store ''ws''" 70])
    (auto simp: NoteMissingKeyGrant_def Let_def plain_world_def tins_def)

lemma wait_survives:
  "k \<in> set (st_waits s) \<Longrightarrow> kw_epoch k \<noteq> e \<or> kw_kid k \<notin> {[], kid} \<Longrightarrow> k \<in> set (st_waits (RecordKeyEpoch w e kid origin s))"
  by (auto simp: RecordKeyEpoch_def Let_def tdel_def)

definition record_keys :: "(world \<times> int \<times> string \<times> string) list \<Rightarrow> store \<Rightarrow> store" where
  "record_keys ks s = fold (\<lambda>(w, e, kid, origin). RecordKeyEpoch w e kid origin) ks s"

lemma wait_survives_all:
  "k \<in> set (st_waits s) \<Longrightarrow> \<forall>(w, e, kid, origin) \<in> set ks. kw_epoch k \<noteq> e \<or> kw_kid k \<notin> {[], kid} \<Longrightarrow>
     k \<in> set (st_waits (record_keys ks s))"
proof (induction ks arbitrary: s)
  case (Cons x ks)
  obtain w e kid origin where x: "x = (w, e, kid, origin)" by (cases x)
  have "k \<in> set (st_waits (RecordKeyEpoch w e kid origin s))"
    using Cons.prems x by (intro wait_survives) auto
  then show ?case using Cons.IH Cons.prems(2) x by (simp add: record_keys_def)
qed (simp add: record_keys_def)

text \<open>One forged key id silences the check for withheld events for good: after a sighting of an
  event sealed under a key that nobody holds, whatever other keys are recorded, the wait stays open,
  and while it is open no head of any peer is ever reported as withheld.\<close>

theorem phantom_wait_blinds_head_check:
  assumes "\<forall>(w', e', kid', origin) \<in> set ks. e \<noteq> e' \<or> kid \<notin> {[], kid'}"
    and "st_waits s' = st_waits (record_keys ks (snd (NoteMissingKeyGrant w e kid s)))"
    and "verifyOnePeerHead w1 dev m s' = Inr (verdict, s2)"
  shows "verdict \<noteq> OmissionKindWithheldTail"
proof -
  obtain k where k: "k \<in> set (st_waits (snd (NoteMissingKeyGrant w e kid s)))" "kw_epoch k = e" "kw_kid k = kid"
    by (rule NoteMissing_row)
  have "k \<in> set (st_waits s')"
    unfolding assms(2) by (rule wait_survives_all [OF k(1)]) (use assms(1) k in auto)
  then have "DeviceGapLocallyDeclined d n ts s'" for d n ts by (auto simp: DeviceGapLocallyDeclined_def)
  then show ?thesis
    using assms(3) by (auto simp: verify_peer split: sum.splits if_split_asm)
qed

theorem phantom_wait_blinds_head_check_witness:
  "\<exists>verdict s2. verifyOnePeerHead digest_world ''p'' (peer_ack 2 [''a'', ''b''])
     (record_keys [(plain_world 80, 1, ''real'', ''grant'')]
        (snd (NoteMissingKeyGrant (plain_world 70) 1 ''forged'' (peer_store [peer_event 1 ''a''])))) = Inr (verdict, s2) \<and>
     verdict \<noteq> OmissionKindWithheldTail"
proof -
  let ?s = "record_keys [(plain_world 80, 1, ''real'', ''grant'')]
        (snd (NoteMissingKeyGrant (plain_world 70) 1 ''forged'' (peer_store [peer_event 1 ''a''])))"
  have an: "st_anchors ?s = []" by (simp add: record_keys_def NoteMissingKeyGrant_def RecordKeyEpoch_def Let_def)
  have "fold_seed ?s ''p'' = Inr None" unfolding fold_seed_def an by simp
  then have "\<exists>r. verifyOnePeerHead digest_world ''p'' (peer_ack 2 [''a'', ''b'']) ?s = Inr r"
    by (auto simp: verify_peer DeviceFold_def Let_def split: prod.splits)
  then obtain verdict s2 where v: "verifyOnePeerHead digest_world ''p'' (peer_ack 2 [''a'', ''b'']) ?s = Inr (verdict, s2)"
    by auto
  have "verdict \<noteq> OmissionKindWithheldTail"
    by (rule phantom_wait_blinds_head_check [OF _ refl v]) auto
  then show ?thesis using v by blast
qed

end
