(* ===== verification/Sync_Apply.thy ===== *)
theory Sync_Apply
  imports Namespace_Apply Event_Log Env_Draft Mirrors Keys_Cursors
begin

section \<open>Applying a batch of remote events\<close>

text \<open>
  \<^verbatim>\<open>applyEventTx\<close>, \<^verbatim>\<open>ApplyEventsWithStats\<close> and \<^verbatim>\<open>ReplayPendingProjectConflicts\<close> of
  \<^verbatim>\<open>src/internal/sync/events.go\<close>: what one event does to the store, the quarantine of events
  that cannot be applied, and the transport cursor a batch may advance to. The texts of errors only
  reach the details of conflicts; a quoted string in them is its JSON form.
\<close>

subsection \<open>One event\<close>

definition verification_failure :: "err_kind list \<Rightarrow> string \<Rightarrow> 'a res" where
  "verification_failure ks text = Inl (Err (KVerification # ks) (''event verification failed: '' @ text))"

definition decode_verified :: "world \<Rightarrow> string \<Rightarrow> event \<Rightarrow> 'p option \<Rightarrow> 'p res" where
  "decode_verified w what e p =
     (case p of Some x \<Rightarrow> Inr x
      | None \<Rightarrow> verification_failure [] (''decode '' @ what @ '' event '' @ ev_id e @ '': '' @ w_decode_err w (ev_payload e)))"

definition clean_verified :: "world \<Rightarrow> string \<Rightarrow> string \<Rightarrow> path res" where
  "clean_verified w what p =
     (case Clean w p of Inr pk \<Rightarrow> Inr pk
      | Inl er \<Rightarrow> verification_failure (err_kinds er) (what @ '' path '' @ json_quote p @ '': '' @ err_msg er))"

text \<open>A pointer event (draft or env) whose project is missing: dropped below a tombstone, held for
  replay otherwise.\<close>

definition without_project :: "world \<Rightarrow> err_kind \<Rightarrow> string \<Rightarrow> string \<Rightarrow> string \<Rightarrow> store \<Rightarrow> store res" where
  "without_project w pending text display path s =
     bindr (TombstoneHLC w display s) (\<lambda>t. case t of Some _ \<Rightarrow> Inr s | None \<Rightarrow> fail pending (text @ '': '' @ path))"

definition record_draft :: "world \<Rightarrow> event \<Rightarrow> draft_payload \<Rightarrow> path \<Rightarrow> store \<Rightarrow> store res" where
  "record_draft w e p pk s =
     (case ProjectByPath w (p_display pk) s of
        Inl _ \<Rightarrow> without_project w KDraftPending ''draft snapshot project not yet applied'' (p_display pk) (dp_path p) s
      | Inr project \<Rightarrow> RecordDraftSnapshotTx w (ns_id (ps_entry project)) (dp_blob p) (dp_bytes p) (dp_files p) e s)"

definition apply_draft :: "world \<Rightarrow> event \<Rightarrow> store \<Rightarrow> store res" where
  "apply_draft w e s =
     bindr (decode_verified w ''draft snapshot'' e (decode_draft (ev_payload e))) (\<lambda>p.
       if \<not> prefixb blob_prefix (dp_blob p)
       then verification_failure [] (''draft snapshot blob ref '' @ json_quote (dp_blob p) @ '' must use age_blob: prefix'')
       else bindr (clean_verified w ''draft snapshot'' (dp_path p)) (\<lambda>pk. record_draft w e p pk s))"

definition envCoordLess :: "coord \<Rightarrow> event \<Rightarrow> bool" where
  "envCoordLess c e = coord_less c (ev_coord e)"

definition env_stale :: "string \<Rightarrow> event \<Rightarrow> store \<Rightarrow> bool" where
  "env_stale ns e s \<longleftrightarrow> (case EnvProfileSourceCoords ns s of Some c \<Rightarrow> \<not> envCoordLess c e | None \<Rightarrow> False)"

definition record_env :: "world \<Rightarrow> event \<Rightarrow> env_payload \<Rightarrow> path \<Rightarrow> store \<Rightarrow> store res" where
  "record_env w e p pk s =
     (case ProjectByPath w (p_display pk) s of
        Inl _ \<Rightarrow> without_project w KEnvPending ''env profile project not yet applied'' (p_display pk) (ep_path p) s
      | Inr project \<Rightarrow>
          if env_stale (ns_id (ps_entry project)) e s then Inr s
          else (case UpsertEnvProfileTx w (ns_id (ps_entry project)) (env_params_of p) e s of
                 Inl er \<Rightarrow> Inl (Err (err_kinds er) (''apply env profile for '' @ json_quote (ep_path p) @ '': '' @ err_msg er))
               | Inr s' \<Rightarrow> Inr s'))"

definition apply_env :: "world \<Rightarrow> event \<Rightarrow> store \<Rightarrow> store res" where
  "apply_env w e s =
     bindr (decode_verified w ''env profile'' e (decode_env (ev_payload e))) (\<lambda>p.
       bindr (clean_verified w ''env profile'' (ep_path p)) (\<lambda>pk. record_env w e p pk s))"

definition apply_rename :: "world \<Rightarrow> event \<Rightarrow> store \<Rightarrow> store res" where
  "apply_rename w e s =
     (case decode_rename (ev_payload e) of
        None \<Rightarrow> decode_failure w e
      | Some p \<Rightarrow> bindr (RenameProject w (rp_old p) (rp_new p) e s) (\<lambda>(outcome, s').
          Inr (if outcome = RenameTargetConflict
               then insertConflict w [] ConflictRenameTargetExists (rename_details p e) s' else s')))"

definition apply_resolved :: "world \<Rightarrow> event \<Rightarrow> store \<Rightarrow> store res" where
  "apply_resolved w e s =
     (case decode_resolved (ev_payload e) of
        None \<Rightarrow> decode_failure w e
      | Some p \<Rightarrow> Inr (ResolveConflictByFingerprint (cr_type p) (cr_details p) (resolution_json (cr_action p) e) s))"

definition apply_gitstate :: "world \<Rightarrow> event \<Rightarrow> store \<Rightarrow> store res" where
  "apply_gitstate w e s =
     bindr (decode_verified w ''gitstate'' e (decode_gitstate (ev_payload e))) (\<lambda>p.
       bindr (clean_verified w ''gitstate'' (gp_path p)) (\<lambda>pk.
         Inr (UpsertDeviceGitstateTx (ev_device e) (p_key pk) (p_display pk) p e s)))"

definition apply_wip :: "world \<Rightarrow> event \<Rightarrow> store \<Rightarrow> store res" where
  "apply_wip w e s =
     bindr (decode_verified w ''wip'' e (decode_wip (ev_payload e))) (\<lambda>p.
       bindr (clean_verified w ''wip'' (wp_path p)) (\<lambda>pk.
         if trim_space (wp_sha p) = []
         then verification_failure [] (''wip event '' @ ev_id e @ '' carries no sha; the mirror's leased delete would degrade to an unconditional one'')
         else Inr (UpsertDeviceWipTx (ev_device e) (p_key pk) (p_display pk)
           \<lparr>wi_ref = wp_ref p, wi_sha = wp_sha p, wi_base = wp_base p, wi_captured = wp_captured p\<rparr> e s)))"

definition apply_wip_dropped :: "world \<Rightarrow> event \<Rightarrow> store \<Rightarrow> store res" where
  "apply_wip_dropped w e s =
     bindr (decode_verified w ''wip dropped'' e (decode_wip_dropped (ev_payload e))) (\<lambda>p.
       bindr (clean_verified w ''wip dropped'' (wd_path p)) (\<lambda>pk.
         if \<not> safeWipOwnerID (wd_device p)
         then verification_failure [] (''wip dropped event '' @ ev_id e @ '': unsafe owner device id '' @ json_quote (wd_device p))
         else Inr (TombstoneDeviceWipTx (wd_device p) (p_key pk) (p_display pk) (wd_sha p) e s)))"

definition apply_trust :: "world \<Rightarrow> event \<Rightarrow> store \<Rightarrow> store res" where
  "apply_trust w e s =
     bindr (decode_verified w ''trust'' e (decode_trust (ev_payload e))) (\<lambda>p.
       if tp_device p = []
       then verification_failure [] (''trust event '' @ ev_id e @ '': empty target device id'')
       else bindr (EnsureRemoteDeviceTx (tp_device p) s) (\<lambda>s1.
         bindr (ApplyRemoteDeviceTrustTx (tp_device p) (if ev_type e = EventDeviceLost then trust_lost else trust_revoked) (ev_hlc e) s1)
           (\<lambda>(changed, s2).
             Inr (if changed
                  then (let s3 = snd (markEncryptedBindingsNeedingRotation s2)
                        in SetWCKRotationPendingTx w (CurrentKeyEpoch s3) s3)
                  else s2))))"

definition apply_grant :: "world \<Rightarrow> event \<Rightarrow> store \<Rightarrow> store res" where
  "apply_grant w e s =
     (case decode_grant (ev_payload e) of
        None \<Rightarrow> decode_failure w e
      | Some p \<Rightarrow> Inr (RecordKeyGrantTx (kg_epoch p) (kg_kid p) (kg_recipient p) e s))"

definition applyEventTx :: "world \<Rightarrow> event \<Rightarrow> store \<Rightarrow> store res" where
  "applyEventTx w e s =
     (let t = ev_type e in
      if t \<in> {EventProjectAdded, EventProjectUpdated, EventProjectDeleted} then applyProjectEvent w e s
      else if t = EventProjectRenamed then apply_rename w e s
      else if t = EventConflictCreated then Inr (insertConflict w [] ''remote_conflict'' (ev_payload e) s)
      else if t = EventConflictResolved then apply_resolved w e s
      else if t = EventDraftSnapshotCreated then apply_draft w e s
      else if t = EventEnvProfileUpdated then apply_env w e s
      else if t = EventGitstateObserved then apply_gitstate w e s
      else if t = EventRepoWipPushed then apply_wip w e s
      else if t = EventRepoWipDropped then apply_wip_dropped w e s
      else if t \<in> {EventDeviceRevoked, EventDeviceLost} then apply_trust w e s
      else if t = EventDeviceKeyGranted then apply_grant w e s
      else Inr s)"

subsection \<open>Quarantine\<close>

definition verification_record :: "event \<Rightarrow> string \<Rightarrow> string \<Rightarrow> string" where
  "verification_record e kind cause = marshal_verification
     \<lparr>vd_kind = kind, vd_event_id = ev_id e, vd_device = ev_device e, vd_hlc = ev_hlc e, vd_seq = ev_seq e,
      vd_type = ev_type e, vd_error = cause, vd_event_json = marshal_event e\<rparr>"

text \<open>The details text records a failure of an event of that id, for that kind of reason.\<close>

definition records_failure :: "string \<Rightarrow> string \<Rightarrow> string \<Rightarrow> bool" where
  "records_failure evid kind details \<longleftrightarrow> (case decode_verification details of
     Some d \<Rightarrow> vd_event_id d = evid \<and> vd_kind d = kind | None \<Rightarrow> False)"

definition insertEventConflictOnce :: "world \<Rightarrow> event \<Rightarrow> string \<Rightarrow> string \<Rightarrow> store \<Rightarrow> store" where
  "insertEventConflictOnce w e kind cause s =
     (if list_ex (\<lambda>c. records_failure (ev_id e) kind (cn_details c)) (OpenConflictsByType ConflictEventVerification s)
      then s
      else insertConflict w [] ConflictEventVerification (verification_record e kind cause) s)"

definition quarantineSkewedEvent :: "world \<Rightarrow> event \<Rightarrow> store \<Rightarrow> store" where
  "quarantineSkewedEvent w e s = insertConflict w [] ConflictUntrustworthyTime (skew_details e) s"

definition insertEventHashChainConflict :: "world \<Rightarrow> event \<Rightarrow> err \<Rightarrow> store \<Rightarrow> store" where
  "insertEventHashChainConflict w e cause s =
     insertConflict w [] ConflictEventHashChain (hash_chain_details e (err_msg cause)) s"

definition insertPendingProjectConflict :: "world \<Rightarrow> event \<Rightarrow> string \<Rightarrow> err \<Rightarrow> store \<Rightarrow> store" where
  "insertPendingProjectConflict w e kind cause s = insertEventConflictOnce w e kind (err_msg cause) s"

definition insertEventVerificationConflict :: "world \<Rightarrow> event \<Rightarrow> err \<Rightarrow> store \<Rightarrow> store" where
  "insertEventVerificationConflict w e cause s =
     insertEventConflictOnce w e (if err_is cause KDivergent then EventConflictKindDivergent else EventConflictKindVerification)
       (err_msg cause) s"

definition insertUndecryptableEventConflict :: "world \<Rightarrow> event \<Rightarrow> store \<Rightarrow> store" where
  "insertUndecryptableEventConflict w e s = insertEventConflictOnce w e EventConflictKindUndecryptable
     ''enc.v2 AEAD authentication failed on every held key (corruption, forgery, or hub-side carrier mutation)'' s"

subsection \<open>The batch\<close>

definition epochFloorMS :: int where "epochFloorMS = 1704067200000"

text \<open>The transaction of one event; its workspace is re-stamped, which the insertion does.\<close>

definition event_tx :: "world \<Rightarrow> event \<Rightarrow> store \<Rightarrow> store res" where
  "event_tx w e s =
     bindr (EnsureRemoteDeviceTx (ev_device e) s) (\<lambda>s1.
     bindr (InsertEvent w e s1) (\<lambda>(inserted, s2).
       let s3 = ClearSkippedEventTx (ev_id e) s2 in
       if \<not> inserted then Inr s3
       else bindr (ReceiveRemoteHLC w (ev_hlc e) s3) (\<lambda>s4.
            bindr (applyEventTx w e s4) (\<lambda>s5.
              Inr (ResolveOpenConflictsByEventID ConflictEventHashChain (ev_id e)
                     ''{\"action\":\"auto\",\"reason\":\"event applied after hash-chain hold (P6-SEC-03)\"}''
                    (ResolveConflictByFingerprint ConflictUntrustworthyTime (skew_details e)
                       ''{\"action\":\"auto\",\"reason\":\"event applied after skew quarantine\"}'' s5))))))"

text \<open>How the slot of an event was disposed of: applied or deduplicated, quarantined as consumed,
  or quarantined and held back.\<close>

datatype disposal = Applied | Consumed | Held

definition apply_one :: "world \<Rightarrow> event \<Rightarrow> store \<Rightarrow> (disposal \<times> store) res" where
  "apply_one w e s =
     (let physical = drop_bit hlcLogicalBits (ev_hlc e) in
      if ev_type e = EventEncryptedV2 then Inr (Consumed, insertUndecryptableEventConflict w e s)
      else if ev_hlc e \<le> 0 \<or> physical < epochFloorMS then Inr (Consumed, quarantineSkewedEvent w e s)
      else if physical - w_now w > duration_ms defaultMaxSkew then Inr (Held, quarantineSkewedEvent w e s)
      else let e' = e\<lparr>ev_workspace := []\<rparr> in
        case event_tx w e' s of
          Inr s' \<Rightarrow> Inr (Applied, s')
        | Inl er \<Rightarrow>
            if err_is er KHashChain then Inr (Held, insertEventHashChainConflict w e' er s)
            else if err_is er KVerification \<or> err_is er KDivergent
            then Inr (Consumed, insertEventVerificationConflict w e' er s)
            else if err_is er KEnvPending \<or> err_is er KDraftPending
            then Inr (Consumed, insertPendingProjectConflict w e'
              (if err_is er KDraftPending then EventConflictKindDraftPendingProject else EventConflictKindEnvPendingProject) er s)
            else Inl er)"

record apply_stats =
  as_quarantined :: nat
  as_cursor_held :: bool

text \<open>The state of the loop: the store, the number quarantined, and the outcomes of the slots seen
  (device, sequence number, consumed), the latest first.\<close>

type_synonym slots = "(string \<times> int \<times> bool) list"

definition record_outcome :: "event \<Rightarrow> bool \<Rightarrow> slots \<Rightarrow> slots" where
  "record_outcome e consumed os = (if ev_seq e \<le> 0 then os else (ev_device e, ev_seq e, consumed) # os)"

fun apply_all :: "world \<Rightarrow> event list \<Rightarrow> nat \<Rightarrow> slots \<Rightarrow> store \<Rightarrow> err option \<times> nat \<times> slots \<times> store" where
  "apply_all w [] q os s = (None, q, os, s)"
| "apply_all w (e # es) q os s =
     (case apply_one w e s of
        Inl er \<Rightarrow> (Some er, q, os, s)
      | Inr (d, s') \<Rightarrow> apply_all w es (if d = Applied then q else q + 1) (record_outcome e (d \<noteq> Held) os) s')"

definition sort_events :: "event list \<Rightarrow> event list" where
  "sort_events es = sort_key ev_hlc (sort_key ev_device (sort_key ev_id es))"

subsection \<open>The cursor\<close>

type_synonym transport_cursor = "(string \<times> int) list"

definition After :: "transport_cursor \<Rightarrow> string \<Rightarrow> int" where
  "After c dev = or_else (map_of c dev) 0"

definition slot_seen :: "slots \<Rightarrow> string \<Rightarrow> int \<Rightarrow> bool" where
  "slot_seen os dev n \<longleftrightarrow> list_ex (\<lambda>(d, q, c). d = dev \<and> q = n) os"

definition slot_held :: "slots \<Rightarrow> string \<Rightarrow> int \<Rightarrow> bool" where
  "slot_held os dev n \<longleftrightarrow> list_ex (\<lambda>(d, q, c). d = dev \<and> q = n \<and> \<not> c) os"

definition slot_free :: "slots \<Rightarrow> string \<Rightarrow> int \<Rightarrow> bool" where
  "slot_free os dev n \<longleftrightarrow> slot_seen os dev n \<and> \<not> slot_held os dev n"

text \<open>The end of the run of consumed slots after \<open>n\<close>.\<close>

function run_end :: "slots \<Rightarrow> string \<Rightarrow> int \<Rightarrow> int" where
  "run_end os dev n = (if slot_free os dev (n + 1) then run_end os dev (n + 1) else n)"
  by pat_completeness auto

termination
proof (relation "measure (\<lambda>(os, dev, n). card {m \<in> (\<lambda>(d, q, c). q) ` set os. n < m})")
  fix os :: slots and dev and n :: int
  assume "slot_free os dev (n + 1)"
  then have m: "n + 1 \<in> (\<lambda>(d, q, c). q) ` set os"
    by (auto simp: slot_free_def slot_seen_def list_ex_iff image_iff split: prod.splits)
  have "{m \<in> (\<lambda>(d, q, c). q) ` set os. n + 1 < m} \<subset> {m \<in> (\<lambda>(d, q, c). q) ` set os. n < m}"
    using m by force
  then show "((os, dev, n + 1), os, dev, n) \<in> measure (\<lambda>(os, dev, n). card {m \<in> (\<lambda>(d, q, c). q) ` set os. n < m})"
    by (simp add: psubset_card_mono)
qed simp

declare run_end.simps [simp del]

definition max_seq :: "slots \<Rightarrow> string \<Rightarrow> int" where
  "max_seq os dev = fold max (map (\<lambda>(d, q, c). q) (filter (\<lambda>(d, q, c). d = dev) os)) 0"

definition slot_devices :: "slots \<Rightarrow> string list" where
  "slot_devices os = remdups (map fst os)"

definition safe_cursor :: "transport_cursor \<Rightarrow> slots \<Rightarrow> transport_cursor" where
  "safe_cursor c os = map (\<lambda>dev. (dev, run_end os dev (After c dev)))
     (filter (\<lambda>dev. run_end os dev (After c dev) > After c dev) (slot_devices os))"

definition cursor_held :: "transport_cursor \<Rightarrow> slots \<Rightarrow> bool" where
  "cursor_held c os \<longleftrightarrow> list_ex (\<lambda>dev. max_seq os dev > run_end os dev (After c dev)) (slot_devices os)"

text \<open>On an error the cursor is nil; what earlier events of the batch did stays committed.\<close>

definition ApplyEventsWithStats ::
  "world \<Rightarrow> event list \<Rightarrow> transport_cursor \<Rightarrow> store \<Rightarrow> (transport_cursor \<times> apply_stats) res \<times> store" where
  "ApplyEventsWithStats w events after s =
     (case apply_all w (sort_events events) 0 [] s of
        (Some er, q, os, s') \<Rightarrow> (Inl er, s')
      | (None, q, os, s') \<Rightarrow>
          (Inr (safe_cursor after os, \<lparr>as_quarantined = q, as_cursor_held = cursor_held after os\<rparr>), s'))"

definition ApplyEvents :: "world \<Rightarrow> event list \<Rightarrow> store \<Rightarrow> transport_cursor res \<times> store" where
  "ApplyEvents w events s = (case ApplyEventsWithStats w events [] s of
     (Inl e, s') \<Rightarrow> (Inl e, s') | (Inr (c, st), s') \<Rightarrow> (Inr c, s'))"

subsection \<open>Replay of held pointers\<close>

definition isPendingProjectConflictKind :: "string \<Rightarrow> bool" where
  "isPendingProjectConflictKind kind \<longleftrightarrow>
     kind = EventConflictKindEnvPendingProject \<or> kind = EventConflictKindDraftPendingProject"

text \<open>The loop over the open conflicts as they were when it started: the number replayed, and the
  error that stopped it.\<close>

fun replay_conflicts :: "world \<Rightarrow> conflict list \<Rightarrow> nat \<Rightarrow> store \<Rightarrow> nat \<times> err option \<times> store" where
  "replay_conflicts w [] n s = (n, None, s)"
| "replay_conflicts w (c # cs) n s =
     (case decode_verification (cn_details c) of
        None \<Rightarrow> replay_conflicts w cs n s
      | Some d \<Rightarrow>
          if \<not> isPendingProjectConflictKind (vd_kind d) then replay_conflicts w cs n s
          else (case decode_event (vd_event_json d) of
            None \<Rightarrow> replay_conflicts w cs n s
          | Some restored \<Rightarrow>
              (case ApplyEventsWithStats w [restored] [] s of
                 (Inl er, s1) \<Rightarrow> (n, Some er, s1)
               | (Inr (_, stats), s1) \<Rightarrow>
                   if as_quarantined stats > 0 then replay_conflicts w cs n s1
                   else (case ResolveConflict (cn_id c)
                       ''{\"action\":\"auto\",\"reason\":\"project applied after pending-project hold replay\"}'' s1 of
                      Inl er \<Rightarrow> (n, Some er, s1)
                    | Inr s2 \<Rightarrow> replay_conflicts w cs (n + 1) s2))))"

definition ReplayPendingProjectConflicts :: "world \<Rightarrow> store \<Rightarrow> nat \<times> err option \<times> store" where
  "ReplayPendingProjectConflicts w s = replay_conflicts w (OpenConflictsByType ConflictEventVerification s) 0 s"


subsection \<open>What no operation loses\<close>

lemma verification_failure_neq [simp]: "verification_failure ks x \<noteq> Inr y" "Inr y \<noteq> verification_failure ks x"
  by (simp_all add: verification_failure_def)

lemma decode_failure_neq [simp]: "decode_failure w e \<noteq> Inr y" "Inr y \<noteq> decode_failure w e"
  by (simp_all add: decode_failure_def)

definition conflict_texts :: "store \<Rightarrow> (string \<times> string) list" where
  "conflict_texts s = map (\<lambda>c. (cn_type c, cn_details c)) (st_conflicts s)"

definition same_log :: "store \<Rightarrow> store \<Rightarrow> bool" where
  "same_log s s' \<longleftrightarrow> st_events s' = st_events s \<and> conflict_texts s' = conflict_texts s"

lemma same_logI: "st_events s' = st_events s \<Longrightarrow> st_conflicts s' = st_conflicts s \<Longrightarrow> same_log s s'"
  by (simp add: same_log_def conflict_texts_def)

lemma same_log_refl [simp]: "same_log s s"
  by (simp add: same_log_def)

lemma same_log_trans: "same_log s t \<Longrightarrow> same_log t u \<Longrightarrow> same_log s u"
  by (simp add: same_log_def)

lemma same_log_device: "EnsureRemoteDeviceTx i s = Inr s' \<Longrightarrow> same_log s s'"
  by (auto simp: EnsureRemoteDeviceTx_def same_log_def conflict_texts_def split: if_split_asm)

lemma same_log_trust: "ApplyRemoteDeviceTrustTx i t h s = Inr (b, s') \<Longrightarrow> same_log s s'"
  by (auto simp: ApplyRemoteDeviceTrustTx_def RecordDeviceRevocationHLCTx_def recordDeviceRevocationHLC_def same_log_def conflict_texts_def Let_def split: if_split_asm)

lemma same_log_clock:
  assumes "ReceiveRemoteHLC w h s = Inr s'"
  shows "same_log s s'"
proof -
  obtain d where d: "currentDevice s = Inr d" using assms by (auto simp: ReceiveRemoteHLC_def)
  obtain l n where c: "clock_of (dv_id d) s = (l, n)" by (cases "clock_of (dv_id d) s")
  show ?thesis
    using assms by (auto simp: ReceiveRemoteHLC_def d c Let_def intro!: same_logI split: if_split_asm)
qed

lemma same_log_keys [simp]:
  "same_log s (snd (markEncryptedBindingsNeedingRotation s))" "same_log s (SetWCKRotationPendingTx w n s)"
  "same_log s (RecordKeyGrantTx a b c e s)" "same_log s (ClearSkippedEventTx i s)"
  "same_log s (UpsertDeviceGitstateTx d k p g e s)" "same_log s (UpsertDeviceWipTx d k p wp e s)"
  "same_log s (TombstoneDeviceWipTx d k p sh e s)"
  by (simp_all add: same_log_def conflict_texts_def markEncryptedBindingsNeedingRotation_def SetWCKRotationPendingTx_def SetLocalMeta_def
      RecordKeyGrantTx_def RecordKeyGrant_def ClearSkippedEventTx_def UpsertDeviceGitstateTx_def UpsertDeviceWipTx_def
      TombstoneDeviceWipTx_def Let_def)

lemma same_log_draft: "RecordDraftSnapshotTx w n b x y e s = Inr s' \<Longrightarrow> same_log s s'"
  by (auto simp: RecordDraftSnapshotTx_def EnsureDraftProject_def add_snapshot_def new_id_def same_log_def conflict_texts_def Let_def split: if_split_asm option.splits)

lemma same_log_bindings: "insert_bindings w p pf fl vs s = Inr s' \<Longrightarrow> same_log s s'"
  by (induction vs arbitrary: s) (auto simp: Let_def new_id_def same_log_def conflict_texts_def split: if_split_asm)

lemma same_log_env: "UpsertEnvProfileTx w n p e s = Inr s' \<Longrightarrow> same_log s s'"
  by (auto simp: UpsertEnvProfileTx_def put_profile_def new_id_def same_log_def conflict_texts_def Let_def dest!: same_log_bindings split: if_split_asm option.splits)

lemma same_log_typed: "same_log s (put_typed_row i u s)"
  by (auto simp: put_typed_row_def intro: same_logI)

lemma same_log_namespace: "same_log s (snd (upsertNamespaceTx w pk u s))"
  by (auto simp: upsertNamespaceTx_def new_id_def Let_def intro!: same_logI split: option.splits)

lemma same_log_upsert:
  assumes "UpsertProjectTx w u s = Inr (i, s')"
  shows "same_log s s'"
proof -
  obtain pk where pk: "Clean w (up_path u) = Inr pk" using assms by (auto simp: UpsertProjectTx_def)
  obtain j s1 where r: "upsertNamespaceTx w pk (default_params u) s = (j, s1)" by fastforce
  have "s' = put_typed_row j (default_params u) s1"
    using assms by (auto simp: UpsertProjectTx_def pk r)
  then show ?thesis using same_log_namespace [of s w pk "default_params u"] r
    by (auto intro: same_log_trans [OF _ same_log_typed])
qed

lemma same_log_tombstone: "same_log s (tombstonePath w pk h s)"
proof -
  obtain j s1 where r: "upsertNamespaceTx w pk (tombstone_params pk) s = (j, s1)" by fastforce
  show ?thesis using same_log_namespace [of s w pk "tombstone_params pk"]
    by (auto simp: tombstonePath_def r intro: same_log_trans [OF _ same_logI])
qed

lemma same_log_tomb: "TombstoneProject w p h s = Inr s' \<Longrightarrow> same_log s s'"
  by (auto simp: TombstoneProject_def same_log_tombstone)

lemma same_log_move: "same_log s (move_entry i pk e s)"
  by (simp add: move_entry_def same_logI)

lemma same_log_delete: "same_log s (delete_entry i s)"
  by (auto simp: delete_entry_def same_log_def conflict_texts_def tmod_def)

lemma same_log_rename:
  assumes "RenameProject w a b e s = Inr (r, s')"
  shows "same_log s s'"
proof -
  have f: "same_log s1 s2" if "TombstoneProject w x h (move_entry i pk e s1) = Inr s2" for s1 s2 x h i pk
    using same_log_trans [OF same_log_move same_log_tomb [OF that]] .
  have g: "same_log s s2" if "TombstoneProject w x h (move_entry i pk e (delete_entry k s)) = Inr s2" for s2 x h i pk k
    using same_log_trans [OF same_log_delete f [OF that]] .
  show ?thesis
    using assms by (auto simp: RenameProject_def Let_def f g split: if_split_asm option.splits)
qed

lemma same_log_close: "same_log s (close_where P r s)"
  by (auto simp: close_where_def same_log_def conflict_texts_def tmod_def)

text \<open>The log only grows: no event and no conflict text is lost.\<close>

definition log_grows :: "store \<Rightarrow> store \<Rightarrow> bool" where
  "log_grows s s' \<longleftrightarrow> set (st_events s) \<subseteq> set (st_events s') \<and> set (conflict_texts s) \<subseteq> set (conflict_texts s')"

lemma log_grows_refl [simp]: "log_grows s s"
  by (simp add: log_grows_def)

lemma log_grows_trans: "log_grows s t \<Longrightarrow> log_grows t u \<Longrightarrow> log_grows s u"
  by (auto simp: log_grows_def)

lemma same_log_grows: "same_log s s' \<Longrightarrow> log_grows s s'"
  by (simp add: same_log_def log_grows_def)

lemma insertConflict_text: "(typ, d) \<in> set (conflict_texts (insertConflict w ns typ d s))"
  by (auto simp: conflict_texts_def insertConflict_def list_ex_iff Let_def new_id_def image_iff)

lemma insertConflict_grows: "log_grows s (insertConflict w ns typ d s)"
  by (auto simp: log_grows_def conflict_texts_def insertConflict_def Let_def new_id_def)

lemma once_grows: "log_grows s (insertEventConflictOnce w e k c s)"
  by (simp add: insertEventConflictOnce_def insertConflict_grows)

lemma project_grows: "applyProjectEvent w e s = Inr s' \<Longrightarrow> log_grows s s'"
proof -
  have m: "log_grows s s1" if "foldr_res (persist_mutation w) s ms = Inr s1" for ms s s1
    using that
  proof (induction ms arbitrary: s)
    case (Cons m ms)
    then obtain s2 where s2: "persist_mutation w s m = Inr s2" "foldr_res (persist_mutation w) s2 ms = Inr s1"
      by auto
    have "same_log s s2"
      using s2(1) by (cases m) (auto simp: persist_mutation_def same_log_upsert same_log_tomb)
    then show ?case using Cons.IH [OF s2(2)] log_grows_trans same_log_grows by blast
  qed simp
  have c: "log_grows s (foldl (persist_conflict w) s cs)" for cs s
  proof (induction cs arbitrary: s)
    case (Cons c cs)
    have "log_grows s (persist_conflict w s c)" by (simp add: persist_conflict_def insertConflict_grows)
    from log_grows_trans [OF this Cons.IH] show ?case by simp
  qed simp
  assume "applyProjectEvent w e s = Inr s'"
  then show ?thesis
    by (auto simp: applyProjectEvent_def applyDecisionTx_def intro: log_grows_trans [OF m c])
qed

lemma without_project_log: "without_project w k t d p s = Inr s' \<Longrightarrow> s' = s"
  by (auto simp: without_project_def split: option.splits)

lemma same_log_record_draft: "record_draft w e p pk s = Inr s' \<Longrightarrow> same_log s s'"
  unfolding record_draft_def
  by (cases "ProjectByPath w (p_display pk) s") (auto dest: without_project_log same_log_draft)

lemma same_log_apply_draft:
  assumes "apply_draft w e s = Inr s'"
  shows "same_log s s'"
proof -
  obtain p pk where "record_draft w e p pk s = Inr s'"
    using assms unfolding apply_draft_def by (auto split: if_split_asm)
  then show ?thesis by (rule same_log_record_draft)
qed

lemma same_log_record_env:
  assumes "record_env w e p pk s = Inr s'"
  shows "same_log s s'"
proof (cases "ProjectByPath w (p_display pk) s")
  case (Inl x)
  then show ?thesis using assms by (auto simp: record_env_def dest: without_project_log)
next
  case (Inr project)
  then show ?thesis using assms
    by (cases "UpsertEnvProfileTx w (ns_id (ps_entry project)) (env_params_of p) e s")
      (auto simp: record_env_def dest: same_log_env split: if_split_asm)
qed

lemma same_log_apply_env:
  assumes "apply_env w e s = Inr s'"
  shows "same_log s s'"
proof -
  obtain p pk where "record_env w e p pk s = Inr s'"
    using assms unfolding apply_env_def by auto
  then show ?thesis by (rule same_log_record_env)
qed

lemma apply_trust_parts:
  assumes "apply_trust w e s = Inr s'"
  obtains p s1 b s2 where "decode_trust (ev_payload e) = Some p" "tp_device p \<noteq> []" "EnsureRemoteDeviceTx (tp_device p) s = Inr s1"
    "ApplyRemoteDeviceTrustTx (tp_device p) (if ev_type e = EventDeviceLost then trust_lost else trust_revoked) (ev_hlc e) s1 = Inr (b, s2)"
    "s' = (if b then SetWCKRotationPendingTx w (CurrentKeyEpoch (snd (markEncryptedBindingsNeedingRotation s2)))
       (snd (markEncryptedBindingsNeedingRotation s2)) else s2)"
proof -
  obtain p where p: "decode_verified w ''trust'' e (decode_trust (ev_payload e)) = Inr p" "tp_device p \<noteq> []"
    using assms unfolding apply_trust_def by (auto split: if_split_asm)
  obtain s1 where s1: "EnsureRemoteDeviceTx (tp_device p) s = Inr s1" using assms p by (auto simp: apply_trust_def)
  obtain r where r: "ApplyRemoteDeviceTrustTx (tp_device p) (if ev_type e = EventDeviceLost then trust_lost else trust_revoked) (ev_hlc e) s1 = Inr r"
    using assms p s1 by (auto simp: apply_trust_def)
  obtain b s2 where bs: "r = (b, s2)" by (cases r)
  have d: "decode_trust (ev_payload e) = Some p"
    using p(1) by (cases "decode_trust (ev_payload e)") (auto simp: decode_verified_def)
  show ?thesis
    by (rule that [OF d p(2) s1 r [unfolded bs]]) (use assms p s1 r bs in \<open>auto simp: apply_trust_def Let_def\<close>)
qed

lemma same_log_apply_trust:
  assumes "apply_trust w e s = Inr s'"
  shows "same_log s s'"
  using assms
proof (rule apply_trust_parts)
  fix p s1 b s2
  assume r: "EnsureRemoteDeviceTx (tp_device p) s = Inr s1"
    "ApplyRemoteDeviceTrustTx (tp_device p) (if ev_type e = EventDeviceLost then trust_lost else trust_revoked) (ev_hlc e) s1 = Inr (b, s2)"
    "s' = (if b then SetWCKRotationPendingTx w (CurrentKeyEpoch (snd (markEncryptedBindingsNeedingRotation s2)))
       (snd (markEncryptedBindingsNeedingRotation s2)) else s2)"
  have "same_log s s2" using same_log_trans [OF same_log_device [OF r(1)] same_log_trust [OF r(2)]] .
  moreover have "same_log s2 s'"
    unfolding r(3) using same_log_trans [OF same_log_keys(1) same_log_keys(2)] by simp
  ultimately show ?thesis by (rule same_log_trans)
qed

lemma apply_grows:
  assumes "applyEventTx w e s = Inr s'"
  shows "log_grows s s'"
proof -
  have rn: "log_grows s t" if "apply_rename w e s = Inr t" for t
    using that by (auto simp: apply_rename_def split: option.split_asm prod.split_asm if_split_asm
        intro: log_grows_trans [OF same_log_grows [OF same_log_rename] insertConflict_grows] same_log_grows [OF same_log_rename])
  have rs: "log_grows s t" if "apply_resolved w e s = Inr t" for t
    using that by (auto simp: apply_resolved_def ResolveConflictByFingerprint_def split: option.splits
        intro: same_log_grows [OF same_log_close])
  have gs: "log_grows s t" if "apply_gitstate w e s = Inr t" for t
    using that by (auto simp: apply_gitstate_def intro: same_log_grows)
  have wi: "log_grows s t" if "apply_wip w e s = Inr t" for t
    using that by (auto simp: apply_wip_def intro: same_log_grows split: if_split_asm)
  have wd: "log_grows s t" if "apply_wip_dropped w e s = Inr t" for t
    using that by (auto simp: apply_wip_dropped_def intro: same_log_grows split: if_split_asm)
  have gr: "log_grows s t" if "apply_grant w e s = Inr t" for t
    using that by (auto simp: apply_grant_def intro: same_log_grows split: option.splits)
  show ?thesis
    using assms unfolding applyEventTx_def Let_def
    by (auto split: if_split_asm intro: project_grows rn rs gs wi wd gr insertConflict_grows
        same_log_grows [OF same_log_apply_draft] same_log_grows [OF same_log_apply_env]
        same_log_grows [OF same_log_apply_trust])
qed

text \<open>An event that was inserted or found, as the log holds it (its id is drawn when it has none).\<close>

definition logged :: "store \<Rightarrow> event \<Rightarrow> bool" where
  "logged s e \<longleftrightarrow> (\<exists>x \<in> set (st_events s). ev_device x = ev_device e \<and> ev_seq x = ev_seq e \<and> ev_hlc x = ev_hlc e \<and>
     ev_type x = ev_type e \<and> ev_payload x = ev_payload e)"

lemma fill_same:
  "fill_event w e0 s0 = (e, s) \<Longrightarrow> ev_device e = ev_device e0 \<and> ev_seq e = ev_seq e0 \<and> ev_hlc e = ev_hlc e0 \<and>
     ev_type e = ev_type e0 \<and> ev_payload e = ev_payload e0"
  by (auto simp: fill_event_def Let_def new_id_def split: if_splits)

lemma InsertEvent_log:
  assumes "InsertEvent w e s = Inr (b, s')"
  shows "logged s' e \<and> log_grows s s'"
proof -
  obtain e1 s1 where f: "fill_event w (normalizeEvent w e) s = (e1, s1)" by fastforce
  have n: "ev_device (normalizeEvent w e) = ev_device e \<and> ev_seq (normalizeEvent w e) = ev_seq e \<and>
      ev_hlc (normalizeEvent w e) = ev_hlc e \<and> ev_type (normalizeEvent w e) = ev_type e \<and> ev_payload (normalizeEvent w e) = ev_payload e"
    by (simp add: normalizeEvent_def Let_def)
  have st: "storeEvent e1 s1 = Inr (b, s')" using assms insertEvent_Inr [OF f] by (simp add: InsertEvent_def)
  obtain k where s1: "s1 = s\<lparr>st_fresh := k\<rparr>" using fill_event_frame [OF f] by blast
  show ?thesis
  proof (cases b)
    case True
    then have "s' = s1\<lparr>st_events := st_events s1 @ [e1]\<rparr>" using st by (simp add: storeEvent_True)
    then show ?thesis using fill_same [OF f] n s1 by (auto simp: logged_def log_grows_def conflict_texts_def)
  next
    case False
    then obtain x where "s' = s1" "tget ev_id (ev_id e1) (st_events s1) = Some x" "sameImmutableEvent x e1"
      using st by (auto simp: storeEvent_False)
    then show ?thesis using fill_same [OF f] n s1
      by (auto simp: logged_def log_grows_def conflict_texts_def sameImmutableEvent_def dest!: tget_SomeD)
  qed
qed

lemma logged_grows: "log_grows s s' \<Longrightarrow> logged s e \<Longrightarrow> logged s' e"
  by (auto simp: logged_def log_grows_def)

lemma event_tx_log:
  assumes "event_tx w e s = Inr s'"
  shows "logged s' e \<and> log_grows s s'"
proof -
  obtain s1 b s2 where a: "EnsureRemoteDeviceTx (ev_device e) s = Inr s1" "InsertEvent w e s1 = Inr (b, s2)"
    using assms by (auto simp: event_tx_def)
  let ?s3 = "ClearSkippedEventTx (ev_id e) s2"
  have s3: "log_grows s ?s3" "logged ?s3 e"
    using log_grows_trans [OF same_log_grows [OF same_log_device [OF a(1)]]] InsertEvent_log [OF a(2)]
      log_grows_trans [OF _ same_log_grows [OF same_log_keys(4)]] logged_grows [OF same_log_grows [OF same_log_keys(4)]] by blast+
  show ?thesis
  proof (cases b)
    case False
    then show ?thesis using assms a s3 by (simp add: event_tx_def Let_def)
  next
    case True
    then obtain s4 s5 P r P' r' where b: "ReceiveRemoteHLC w (ev_hlc e) ?s3 = Inr s4" "applyEventTx w e s4 = Inr s5"
      "s' = close_where P r (close_where P' r' s5)"
      using assms a by (auto simp: event_tx_def Let_def ResolveOpenConflictsByEventID_def ResolveConflictByFingerprint_def)
    have "log_grows ?s3 s'" unfolding b(3)
      using same_log_grows [OF same_log_clock [OF b(1)]] apply_grows [OF b(2)]
        same_log_grows [OF same_log_close] log_grows_trans by blast
    then show ?thesis using s3 log_grows_trans logged_grows by blast
  qed
qed

end
