(* ===== verification/Apply_Safety.thy ===== *)
theory Apply_Safety
  imports Sync_Apply
begin

section \<open>What applying a batch guarantees\<close>

text \<open>
  Properties of \<^verbatim>\<open>ApplyEventsWithStats\<close> as a whole: the cursor and the quarantine account for
  every event, a learnt revocation is contained, and the two ways in which an accepted or a forged
  event defeats the batch.
\<close>


subsection \<open>The cursor passes only what is accounted for\<close>

text \<open>A quarantine that stands for an event: its skew conflict, or a verification conflict that
  carries the event or was already open for its id.\<close>

definition quarantined :: "store \<Rightarrow> event \<Rightarrow> bool" where
  "quarantined s e \<longleftrightarrow> (ConflictUntrustworthyTime, skew_details e) \<in> set (conflict_texts s) \<or>
     (\<exists>details kind. (ConflictEventVerification, details) \<in> set (conflict_texts s) \<and>
        ((\<exists>ws cause. details = verification_record (e\<lparr>ev_workspace := ws\<rparr>) kind cause) \<or> records_failure (ev_id e) kind details))"

definition accounted :: "store \<Rightarrow> event \<Rightarrow> bool" where
  "accounted s e \<longleftrightarrow> logged s e \<or> quarantined s e"

lemma accounted_grows: "log_grows s s' \<Longrightarrow> accounted s e \<Longrightarrow> accounted s' e"
  unfolding accounted_def quarantined_def using logged_grows [of s s' e] by (auto simp: log_grows_def) blast+

lemma once_quarantined: "quarantined (insertEventConflictOnce w (e\<lparr>ev_workspace := ws\<rparr>) kind cause s) e"
proof (cases "list_ex (\<lambda>c. records_failure (ev_id e) kind (cn_details c)) (OpenConflictsByType ConflictEventVerification s)")
  case True
  then obtain c where "c \<in> set (st_conflicts s)" "cn_type c = ConflictEventVerification" "records_failure (ev_id e) kind (cn_details c)"
    by (auto simp: list_ex_iff OpenConflictsByType_def)
  then have "(ConflictEventVerification, cn_details c) \<in> set (conflict_texts s)"
    by (force simp: conflict_texts_def)
  then show ?thesis using True \<open>records_failure (ev_id e) kind (cn_details c)\<close>
    by (auto simp: quarantined_def insertEventConflictOnce_def)
next
  case False
  then show ?thesis
    using insertConflict_text [of ConflictEventVerification "verification_record (e\<lparr>ev_workspace := ws\<rparr>) kind cause" w "[]" s]
    by (auto simp: quarantined_def insertEventConflictOnce_def)
qed

lemma once_quarantined_same: "quarantined (insertEventConflictOnce w e kind cause s) e"
  using once_quarantined [of w "ev_workspace e" e] by simp

lemma skew_quarantined: "quarantined (quarantineSkewedEvent w e s) e"
  by (simp add: quarantined_def quarantineSkewedEvent_def insertConflict_text)

lemma logged_workspace [simp]: "logged s (e\<lparr>ev_workspace := ws\<rparr>) = logged s e"
  by (simp add: logged_def)

lemma apply_one_accounts:
  assumes "apply_one w e s = Inr (d, s')"
  shows "log_grows s s' \<and> (d \<noteq> Held \<longrightarrow> accounted s' e)"
proof (cases "event_tx w (e\<lparr>ev_workspace := []\<rparr>) s")
  case (Inr t)
  then show ?thesis
    using assms event_tx_log [OF Inr]
    by (auto simp: apply_one_def Let_def accounted_def insertUndecryptableEventConflict_def once_quarantined_same once_grows
        skew_quarantined quarantineSkewedEvent_def insertConflict_grows
        skew_quarantined [unfolded quarantineSkewedEvent_def] split: if_split_asm)
next
  case (Inl er)
  then show ?thesis
    using assms
    by (auto simp: apply_one_def Let_def accounted_def insertUndecryptableEventConflict_def once_quarantined_same once_quarantined once_grows
        insertEventHashChainConflict_def insertEventVerificationConflict_def insertPendingProjectConflict_def
        quarantineSkewedEvent_def insertConflict_grows
        skew_quarantined [unfolded quarantineSkewedEvent_def] split: if_split_asm)
qed

lemma apply_all_accounts:
  assumes "apply_all w es q os s = (None, q', os', s')"
  shows "log_grows s s' \<and> set os \<subseteq> set os' \<and>
     (\<forall>e \<in> set es. ev_seq e > 0 \<longrightarrow> slot_seen os' (ev_device e) (ev_seq e) \<and>
        (slot_held os' (ev_device e) (ev_seq e) \<or> accounted s' e)) \<and>
     (\<forall>(d, n, c) \<in> set os'. (d, n, c) \<in> set os \<or> n > 0 \<and> (\<exists>e \<in> set es. ev_device e = d \<and> ev_seq e = n))"
  using assms
proof (induction es arbitrary: q os s)
  case (Cons e es)
  obtain d s1 where a: "apply_one w e s = Inr (d, s1)"
    using Cons.prems by (cases "apply_one w e s") auto
  let ?os = "record_outcome e (d \<noteq> Held) os"
  have rest: "apply_all w es (if d = Applied then q else q + 1) ?os s1 = (None, q', os', s')"
    using Cons.prems a by simp
  note IH = Cons.IH [OF rest]
  have g: "log_grows s s1" and acc: "d \<noteq> Held \<longrightarrow> accounted s1 e" using apply_one_accounts [OF a] by auto
  have os: "set os \<subseteq> set ?os" by (auto simp: record_outcome_def)
  have here: "slot_seen os' (ev_device e) (ev_seq e) \<and> (slot_held os' (ev_device e) (ev_seq e) \<or> accounted s' e)" if "ev_seq e > 0"
  proof -
    have m: "(ev_device e, ev_seq e, d \<noteq> Held) \<in> set os'" using that IH by (auto simp: record_outcome_def)
    then have "slot_seen os' (ev_device e) (ev_seq e)" by (force simp: slot_seen_def list_ex_iff)
    moreover have "slot_held os' (ev_device e) (ev_seq e)" if "d = Held"
      using m that by (force simp: slot_held_def list_ex_iff)
    ultimately show ?thesis using acc accounted_grows IH by blast
  qed
  have srcs: "\<forall>(d', n, c) \<in> set os'. (d', n, c) \<in> set os \<or> n > 0 \<and> (\<exists>x \<in> set (e # es). ev_device x = d' \<and> ev_seq x = n)"
  proof (safe, goal_cases)
    case (1 d' n c)
    then have "(d', n, c) \<in> set ?os \<or> n > 0 \<and> (\<exists>x \<in> set es. ev_device x = d' \<and> ev_seq x = n)" using IH by blast
    then show ?case using 1 by (auto simp: record_outcome_def split: if_split_asm)
  next
    case (2 d' n c)
    then have "(d', n, c) \<in> set ?os \<or> n > 0 \<and> (\<exists>x \<in> set es. ev_device x = d' \<and> ev_seq x = n)" using IH by blast
    then show ?case using 2 by (auto simp: record_outcome_def split: if_split_asm)
  qed
  show ?case using IH g os here srcs log_grows_trans [OF g] by auto
qed auto

lemma run_end_free: "n < m \<Longrightarrow> m \<le> run_end os dev n \<Longrightarrow> slot_free os dev m"
proof (induction os dev n rule: run_end.induct)
  case (1 os dev n)
  show ?case
  proof (cases "slot_free os dev (n + 1)")
    case True
    then have "run_end os dev n = run_end os dev (n + 1)" by (simp add: run_end.simps)
    then show ?thesis using 1 True by (cases "m = n + 1") auto
  next
    case False
    then have "run_end os dev n = n" by (simp add: run_end.simps)
    then show ?thesis using 1 by simp
  qed
qed

lemma max_seq_ge: "(dev, n, c) \<in> set os \<Longrightarrow> n \<le> max_seq os dev"
proof -
  have f: "fold max xs a = Max (insert a (set xs))" for xs :: "int list" and a
    using Max.set_eq_fold [of a xs] by simp
  assume "(dev, n, c) \<in> set os"
  then show ?thesis unfolding max_seq_def f by (intro Max_ge) (auto simp: image_iff intro!: bexI [of _ "(dev, n, c)"])
qed

lemma After_safe:
  assumes "dev \<in> set (slot_devices os)" "run_end os dev (After c dev) > After c dev"
  shows "After (safe_cursor c os) dev = run_end os dev (After c dev)"
proof -
  have "map_of (map (\<lambda>d. (d, f d)) (filter P ds)) x = (if x \<in> set ds \<and> P x then Some (f x) else None)"
    for f :: "string \<Rightarrow> int" and P ds x
    by (induction ds) auto
  then show ?thesis using assms by (simp add: After_def safe_cursor_def)
qed

lemma slot_held_mem: "slot_seen os dev n \<Longrightarrow> dev \<in> set (slot_devices os)"
  by (force simp: slot_seen_def slot_devices_def list_ex_iff)

lemma cursor_pass:
  assumes "ApplyEventsWithStats w events after s = (Inr (safe, stats), s')"
    and "(dev, end_pos) \<in> set safe" "After after dev < n" "n \<le> end_pos"
  shows "(\<exists>e \<in> set events. ev_device e = dev \<and> ev_seq e = n) \<and>
    (\<forall>e \<in> set events. ev_device e = dev \<and> ev_seq e = n \<and> 0 < n \<longrightarrow> accounted s' e)"
proof -
  obtain er q os t where a: "apply_all w (sort_events events) 0 [] s = (er, q, os, t)"
    by (metis prod_cases4)
  have r: "er = None" "safe = safe_cursor after os" "t = s'"
    using assms(1) a by (auto simp: ApplyEventsWithStats_def split: option.split_asm)
  have set_sort: "set (sort_events events) = set events" by (simp add: sort_events_def)
  note all = apply_all_accounts [OF a [unfolded r(1,3)], unfolded set_sort]
  have "end_pos = run_end os dev (After after dev)" using assms(2) by (auto simp: r(2) safe_cursor_def)
  then have f: "slot_free os dev n" using run_end_free assms(3,4) by blast
  then obtain c where "(dev, n, c) \<in> set os" by (auto simp: slot_free_def slot_seen_def list_ex_iff)
  then have "\<exists>e \<in> set events. ev_device e = dev \<and> ev_seq e = n" using all by fastforce
  moreover have "accounted s' e" if "e \<in> set events" "ev_device e = dev" "ev_seq e = n" "0 < n" for e
    using all that f by (auto simp: slot_free_def)
  ultimately show ?thesis by blast
qed



text \<open>A pull of one undeliverable event: its conflict is recorded and the cursor passes it.\<close>

definition clock_fine :: "world \<Rightarrow> event \<Rightarrow> bool" where
  "clock_fine w e \<longleftrightarrow> ev_hlc e > 0 \<and> drop_bit hlcLogicalBits (ev_hlc e) \<ge> epochFloorMS \<and>
     drop_bit hlcLogicalBits (ev_hlc e) - w_now w \<le> duration_ms defaultMaxSkew"

lemma apply_one_tx:
  "clock_fine w e \<Longrightarrow> ev_type e \<noteq> EventEncryptedV2 \<Longrightarrow> event_tx w (e\<lparr>ev_workspace := []\<rparr>) s = Inr s' \<Longrightarrow>
     apply_one w e s = Inr (Applied, s')"
  by (auto simp: apply_one_def clock_fine_def Let_def)

definition future_event :: event where
  "future_event = event_zero\<lparr>ev_id := ''e'', ev_device := ''d'', ev_seq := 1, ev_hlc := 1\<rparr>"


subsection \<open>Learning of a revocation\<close>

lemma find_tmod:
  "(\<And>r. P r \<Longrightarrow> Q (f r) = Q r) \<Longrightarrow> find Q (tmod P f t) = map_option (\<lambda>r. if P r then f r else r) (find Q t)"
  by (induction t) (auto simp: tmod_def)

lemma tmod_none: "\<not> list_ex P t \<Longrightarrow> tmod P f t = t"
  by (induction t) (auto simp: tmod_def)

lemma tmod_twice: "(\<And>r. P r \<Longrightarrow> P (f r) \<and> f (f r) = f r) \<Longrightarrow> tmod P f (tmod P f t) = tmod P f t"
  by (induction t) (auto simp: tmod_def)

lemma trust_distinct [simp]:
  "trust_revoked \<noteq> trust_local" "trust_lost \<noteq> trust_local" "trust_pending \<noteq> trust_local" "trust_approved \<noteq> trust_local"
  "trust_local \<noteq> trust_revoked" "trust_local \<noteq> trust_lost" "trust_local \<noteq> trust_pending" "trust_local \<noteq> trust_approved"
  "trust_revoked \<noteq> trust_pending" "trust_lost \<noteq> trust_pending" "trust_revoked \<noteq> trust_approved" "trust_lost \<noteq> trust_approved"
  by (simp_all add: trust_defs)

definition flipped :: "string \<Rightarrow> string \<Rightarrow> device list \<Rightarrow> device list" where
  "flipped i trust ds = tmod (flippable i) (\<lambda>d. d\<lparr>dv_trust := trust\<rparr>) ds"

definition bounded_by :: "string \<Rightarrow> int \<Rightarrow> device list \<Rightarrow> device list" where
  "bounded_by i hlc ds = tmod (\<lambda>d. dv_id d = i \<and> dv_trust d \<noteq> trust_local)
     (\<lambda>d. d\<lparr>dv_revoked := (case dv_revoked d of None \<Rightarrow> Some hlc | Some b \<Rightarrow> if hlc < b then Some hlc else Some b)\<rparr>) ds"

lemma bounded_twice: "bounded_by i hlc (bounded_by i hlc ds) = bounded_by i hlc ds"
  unfolding bounded_by_def by (rule tmod_twice) (auto split: option.splits)

lemma ApplyRemote_shape:
  assumes "i \<noteq> []" "trust \<in> {trust_revoked, trust_lost}" "currentDevice s = Inr c" "i \<noteq> dv_id c" "0 < hlc"
  shows "ApplyRemoteDeviceTrustTx i trust hlc s = Inr (list_ex (flippable i) (st_devices s),
     s\<lparr>st_devices := bounded_by i hlc (flipped i trust (st_devices s))\<rparr>)"
  using assms by (auto simp: ApplyRemoteDeviceTrustTx_def recordDeviceRevocationHLC_def Let_def bounded_by_def flipped_def)

lemma currentDevice_flip:
  assumes "currentDevice s = Inr c" "trust \<in> {trust_revoked, trust_lost}"
    and "st_devices s' = bounded_by i hlc (flipped i trust (st_devices s))"
  shows "currentDevice s' = Inr c"
proof -
  obtain d where d: "find (\<lambda>d. dv_trust d = trust_local) (st_devices s) = Some d" "c = d"
    using assms(1) by (auto simp: currentDevice_def split: option.split_asm)
  have l: "dv_trust d = trust_local" using find_Some_set [OF d(1)] by simp
  have "find (\<lambda>d. dv_trust d = trust_local) (flipped i trust (st_devices s)) = Some d"
    unfolding flipped_def by (subst find_tmod) (use assms(2) d l in \<open>auto simp: flippable_def\<close>)
  then have "find (\<lambda>d. dv_trust d = trust_local) (bounded_by i hlc (flipped i trust (st_devices s))) = Some d"
    unfolding bounded_by_def by (subst find_tmod) (use l in auto)
  then show ?thesis using d by (simp add: currentDevice_def assms(3))
qed

lemma not_flippable_again:
  assumes "trust \<in> {trust_revoked, trust_lost}"
  shows "\<not> list_ex (flippable i) (bounded_by i hlc (flipped i trust ds))"
  using assms by (induction ds) (auto simp: bounded_by_def flipped_def flippable_def tmod_def)

lemma flipped_row:
  assumes "tget dv_id i ds = Some d" "dv_trust d \<in> {trust_pending, trust_approved}" "trust \<in> {trust_revoked, trust_lost}"
  shows "tget dv_id i (bounded_by i hlc (flipped i trust ds)) =
     Some (d\<lparr>dv_trust := trust, dv_revoked := (case dv_revoked d of None \<Rightarrow> Some hlc | Some b \<Rightarrow> if hlc < b then Some hlc else Some b)\<rparr>)"
proof -
  have f: "tget dv_id i (flipped i trust ds) = Some (d\<lparr>dv_trust := trust\<rparr>)"
    unfolding flipped_def by (subst tget_tmod) (use assms tget_SomeD [OF assms(1)] in \<open>auto simp: flippable_def\<close>)
  show ?thesis
    unfolding bounded_by_def by (subst tget_tmod) (use f assms(3) tget_SomeD [OF assms(1)] in auto)
qed

lemma GetLocalMeta_Set: "GetLocalMeta k (SetLocalMeta k v s) = Some v"
  by (auto simp: GetLocalMeta_def SetLocalMeta_def tget_tput split: option.splits)

lemma rotation_armed:
  "0 < n \<Longrightarrow> \<exists>m. GetLocalMeta WCKRotationPendingMetaKey (SetWCKRotationPendingTx w n s) = Some m \<and>
     (GetLocalMeta WCKRotationPendingMetaKey s = None \<or> GetLocalMeta WCKRotationPendingMetaKey s = Some m)"
  by (cases "GetLocalMeta WCKRotationPendingMetaKey s") (auto simp: SetWCKRotationPendingTx_def GetLocalMeta_Set)

lemma rotation_frame [simp]:
  "st_devices (SetWCKRotationPendingTx w n s) = st_devices s" "st_bindings (SetWCKRotationPendingTx w n s) = st_bindings s"
  "st_keys (SetWCKRotationPendingTx w n s) = st_keys s"
  by (simp_all add: SetWCKRotationPendingTx_def SetLocalMeta_def)

lemma mark_frame [simp]:
  "st_devices (snd (markEncryptedBindingsNeedingRotation s)) = st_devices s"
  "st_meta (snd (markEncryptedBindingsNeedingRotation s)) = st_meta s"
  "st_keys (snd (markEncryptedBindingsNeedingRotation s)) = st_keys s"
  by (simp_all add: markEncryptedBindingsNeedingRotation_def Let_def)

lemma mark_all: "\<forall>b \<in> set (st_bindings (snd (markEncryptedBindingsNeedingRotation s))). sb_blob b \<noteq> None \<longrightarrow> sb_rotate b"
  by (auto simp: markEncryptedBindingsNeedingRotation_def Let_def tmod_def)

lemma applyEventTx_trust:
  "ev_type e \<in> {EventDeviceRevoked, EventDeviceLost} \<Longrightarrow> applyEventTx w e s = apply_trust w e s"
  by (auto simp: applyEventTx_def event_type_defs Let_def)

lemma ensure_known: "i \<noteq> [] \<Longrightarrow> tget dv_id i (st_devices s) \<noteq> None \<Longrightarrow> EnsureRemoteDeviceTx i s = Inr s"
  by (simp add: EnsureRemoteDeviceTx_def tins_def ex_tget)

lemma apply_trust_known:
  assumes "decode_trust (ev_payload e) = Some p" "tp_device p \<noteq> []" "tget dv_id (tp_device p) (st_devices s) \<noteq> None"
    and "currentDevice s = Inr c" "tp_device p \<noteq> dv_id c" "0 < ev_hlc e"
    and "trust = (if ev_type e = EventDeviceLost then trust_lost else trust_revoked)"
    and "s2 = s\<lparr>st_devices := bounded_by (tp_device p) (ev_hlc e) (flipped (tp_device p) trust (st_devices s))\<rparr>"
  shows "apply_trust w e s = Inr (if list_ex (flippable (tp_device p)) (st_devices s)
     then SetWCKRotationPendingTx w (CurrentKeyEpoch s) (snd (markEncryptedBindingsNeedingRotation s2)) else s2)"
proof -
  have t: "trust \<in> {trust_revoked, trust_lost}" using assms(7) by simp
  have k: "CurrentKeyEpoch (snd (markEncryptedBindingsNeedingRotation s2)) = CurrentKeyEpoch s"
    by (simp add: CurrentKeyEpoch_def assms(8))
  show ?thesis
    using ensure_known [OF assms(2,3)] ApplyRemote_shape [OF assms(2) t assms(4,5,6)] k
    by (simp add: apply_trust_def decode_verified_def assms(1,2,7,8) Let_def)
qed

text \<open>C18: a device that only learns of a revocation contains it: applying an accepted
  \<^verbatim>\<open>device.revoked\<close> or \<^verbatim>\<open>device.lost\<close> event for a trusted peer revokes it, records the least
  boundary, takes its signing key out of use, flags every encrypted value for rotation and, where
  this device holds a workspace key, arms the owed rotation without restarting the clock of one
  already owed; and applying the event again changes nothing.\<close>

theorem revocation_event_contains:
  assumes "ev_type e \<in> {EventDeviceRevoked, EventDeviceLost}" and "decode_trust (ev_payload e) = Some p"
    and "tp_device p \<noteq> []" and "currentDevice s = Inr c" and "tp_device p \<noteq> dv_id c" and "0 < ev_hlc e"
    and "tget dv_id (tp_device p) (st_devices s) = Some d" and "dv_trust d \<in> {trust_pending, trust_approved}"
  shows "\<exists>s' d'. applyEventTx w e s = Inr s' \<and> tget dv_id (tp_device p) (st_devices s') = Some d' \<and>
     dv_trust d' = (if ev_type e = EventDeviceLost then trust_lost else trust_revoked) \<and>
     dv_revoked d' = min_boundary (dv_revoked d) (Some (ev_hlc e)) \<and>
     ApprovedDeviceSigningKey (tp_device p) s' = None \<and>
     (\<forall>b \<in> set (st_bindings s'). sb_blob b \<noteq> None \<longrightarrow> sb_rotate b) \<and>
     (0 < CurrentKeyEpoch s \<longrightarrow> (\<exists>m. GetLocalMeta WCKRotationPendingMetaKey s' = Some m \<and>
        (GetLocalMeta WCKRotationPendingMetaKey s = None \<or> GetLocalMeta WCKRotationPendingMetaKey s = Some m))) \<and>
     applyEventTx w e s' = Inr s'"
proof -
  let ?i = "tp_device p" and ?t = "if ev_type e = EventDeviceLost then trust_lost else trust_revoked"
  have t: "?t \<in> {trust_revoked, trust_lost}" by simp
  define s2 where "s2 = s\<lparr>st_devices := bounded_by ?i (ev_hlc e) (flipped ?i ?t (st_devices s))\<rparr>"
  define s' where "s' = SetWCKRotationPendingTx w (CurrentKeyEpoch s) (snd (markEncryptedBindingsNeedingRotation s2))"
  define d' where "d' = d\<lparr>dv_trust := ?t, dv_revoked := (case dv_revoked d of None \<Rightarrow> Some (ev_hlc e) | Some b \<Rightarrow> if ev_hlc e < b then Some (ev_hlc e) else Some b)\<rparr>"
  have known: "tget dv_id ?i (st_devices s) \<noteq> None" using assms(7) by simp
  have fl: "list_ex (flippable ?i) (st_devices s)"
    using tget_SomeD [OF assms(7)] assms(8) by (auto simp: flippable_def list_ex_iff)
  have a: "applyEventTx w e s = Inr s'"
    using apply_trust_known [OF assms(2,3) known assms(4-6) refl s2_def] fl
    by (simp add: applyEventTx_trust [OF assms(1)] s'_def)
  have dev: "st_devices s' = bounded_by ?i (ev_hlc e) (flipped ?i ?t (st_devices s))" by (simp add: s'_def s2_def)
  have row: "tget dv_id ?i (st_devices s') = Some d'" unfolding dev d'_def by (rule flipped_row [OF assms(7,8) t])
  have cd: "currentDevice s' = Inr c" by (rule currentDevice_flip [OF assms(4) t dev])
  have nf: "\<not> list_ex (flippable ?i) (st_devices s')" unfolding dev by (rule not_flippable_again [OF t])
  have stable: "bounded_by ?i (ev_hlc e) (flipped ?i ?t (st_devices s')) = st_devices s'"
    using nf tmod_none [of "flippable ?i" "st_devices s'"] by (simp add: flipped_def) (simp add: dev bounded_twice)
  have again: "applyEventTx w e s' = Inr s'"
    using apply_trust_known [OF assms(2,3) _ cd assms(5,6) refl refl, of w] row nf stable
    by (simp add: applyEventTx_trust [OF assms(1)])
  have meta: "GetLocalMeta k (snd (markEncryptedBindingsNeedingRotation s2)) = GetLocalMeta k s" for k
    by (simp add: GetLocalMeta_def s2_def)
  have armed: "0 < CurrentKeyEpoch s \<longrightarrow> (\<exists>m. GetLocalMeta WCKRotationPendingMetaKey s' = Some m \<and>
        (GetLocalMeta WCKRotationPendingMetaKey s = None \<or> GetLocalMeta WCKRotationPendingMetaKey s = Some m))"
    unfolding s'_def using rotation_armed [of "CurrentKeyEpoch s" w "snd (markEncryptedBindingsNeedingRotation s2)"] by (simp add: meta)
  have flags: "\<forall>b \<in> set (st_bindings s'). sb_blob b \<noteq> None \<longrightarrow> sb_rotate b"
    unfolding s'_def rotation_frame by (rule mark_all)
  have key: "ApprovedDeviceSigningKey ?i s' = None" using row by (simp add: ApprovedDeviceSigningKey_def d'_def)
  have b: "dv_revoked d' = min_boundary (dv_revoked d) (Some (ev_hlc e))"
    by (cases "dv_revoked d") (auto simp: d'_def)
  show ?thesis
    using a row b key flags armed again by (intro exI [of _ s'] exI [of _ d']) (auto simp: d'_def)
qed

theorem revocation_event_contains_witness:
  "\<exists>s'. applyEventTx (plain_world 5) (event_zero\<lparr>ev_id := ''e'', ev_type := EventDeviceLost, ev_hlc := 9,
       ev_payload := marshal_obj [jstr ''device_id'' ''p'']\<rparr>)
     (device_store [sample_device ''me'' trust_local [] None, sample_device ''p'' trust_approved ''k'' None]) = Inr s' \<and>
     ApprovedDeviceSigningKey ''p'' s' = None"
proof -
  let ?e = "event_zero\<lparr>ev_id := ''e'', ev_type := EventDeviceLost, ev_hlc := 9, ev_payload := marshal_obj [jstr ''device_id'' ''p'']\<rparr>"
  let ?s = "device_store [sample_device ''me'' trust_local [] None, sample_device ''p'' trust_approved ''k'' None]"
  have j: "parse_json (marshal_obj [jstr ''device_id'' ''p'']) = Some (JObj [(''device_id'', JStr ''p'')])"
    by (rule parse_marshal_obj) (simp add: List.map_filter_def jstr_def renders_quote is_ascii_def)
  have d: "decode_trust (ev_payload ?e) = Some \<lparr>tp_device = ''p'', tp_reason = []\<rparr>"
    by (simp add: decode_trust_def unmarshal_def j set_field_def str_field_def)
  have c: "currentDevice ?s = Inr (sample_device ''me'' trust_local [] None)" by (simp add: currentDevice_def)
  have "\<exists>s' d'. applyEventTx (plain_world 5) ?e ?s = Inr s' \<and> tget dv_id (tp_device \<lparr>tp_device = ''p'', tp_reason = []\<rparr>) (st_devices s') = Some d' \<and>
     dv_trust d' = (if ev_type ?e = EventDeviceLost then trust_lost else trust_revoked) \<and>
     dv_revoked d' = min_boundary (dv_revoked (sample_device ''p'' trust_approved ''k'' None)) (Some (ev_hlc ?e)) \<and>
     ApprovedDeviceSigningKey (tp_device \<lparr>tp_device = ''p'', tp_reason = []\<rparr>) s' = None \<and>
     (\<forall>b \<in> set (st_bindings s'). sb_blob b \<noteq> None \<longrightarrow> sb_rotate b) \<and>
     (0 < CurrentKeyEpoch ?s \<longrightarrow> (\<exists>m. GetLocalMeta WCKRotationPendingMetaKey s' = Some m \<and>
        (GetLocalMeta WCKRotationPendingMetaKey ?s = None \<or> GetLocalMeta WCKRotationPendingMetaKey ?s = Some m))) \<and>
     applyEventTx (plain_world 5) ?e s' = Inr s'"
    by (rule revocation_event_contains [OF _ d _ c]) (auto simp: event_type_defs)
  then show ?thesis by auto
qed

subsection \<open>What a batch does not survive, and what a quarantine hides\<close>

text \<open>One accepted project event with an undecodable payload stops every pull: its failure is
  not among those that are quarantined (as the other event types' undecodable payloads are), so
  applying a batch with it returns the error and no cursor, leaves the store as it was, and the
  next pull meets the same event again.\<close>

theorem undecodable_project_event_aborts_batch:
  assumes "ev_type e \<in> {EventProjectAdded, EventProjectUpdated, EventProjectDeleted}"
    and "decode_project (ev_payload e) = None" and "clock_fine w e"
    and "EnsureRemoteDeviceTx (ev_device e) s = Inr s1" and "InsertEvent w (e\<lparr>ev_workspace := []\<rparr>) s1 = Inr (True, s2)"
    and "currentDevice s2 = Inr c"
  shows "\<exists>er. ApplyEventsWithStats w [e] after s = (Inl er, s)"
proof -
  let ?e = "e\<lparr>ev_workspace := []\<rparr>"
  have "currentDevice (ClearSkippedEventTx (ev_id e) s2) = Inr c"
    using assms(6) by (simp add: currentDevice_def ClearSkippedEventTx_def)
  then have "\<exists>s4. ReceiveRemoteHLC w (ev_hlc e) (ClearSkippedEventTx (ev_id e) s2) = Inr s4"
    by (cases "clock_of (dv_id c) (ClearSkippedEventTx (ev_id e) s2)") (auto simp: ReceiveRemoteHLC_def Let_def)
  then obtain s4 where s4: "ReceiveRemoteHLC w (ev_hlc e) (ClearSkippedEventTx (ev_id e) s2) = Inr s4" ..
  have "applyEventTx w ?e s4 = decode_failure w ?e"
    using assms(1,2) by (auto simp: applyEventTx_def applyProjectEvent_def loadNamespaceProjection_def event_type_defs decode_failure_def)
  then have tx: "event_tx w ?e s = decode_failure w ?e"
    using assms(4,5) s4 by (simp add: event_tx_def decode_failure_def)
  have "ev_type e \<noteq> EventEncryptedV2" using assms(1) by (auto simp: event_type_defs)
  then have "\<exists>er. apply_one w e s = Inl er"
    using assms(3) tx by (simp add: apply_one_def clock_fine_def Let_def decode_failure_def fail_def)
  then show ?thesis by (auto simp: ApplyEventsWithStats_def sort_events_def)
qed

text \<open>A forged event can bury a genuine one: while a verification conflict is open for an event
  id, another event of that id that fails verification for the same kind of reason (the genuine one,
  from a device that is only approved later) is consumed without being recorded, so that neither the
  log nor the conflict the approval replays holds it.\<close>

theorem quarantine_hides_second_event:
  assumes "clock_fine w e" and "ev_type e \<noteq> EventEncryptedV2"
    and "event_tx w (e\<lparr>ev_workspace := []\<rparr>) s = Inl er" and "err_is er KVerification"
    and "\<not> err_is er KHashChain" and "\<not> err_is er KDivergent"
    and "c \<in> set (st_conflicts s)" and "cn_open c" and "cn_type c = ConflictEventVerification"
    and "records_failure (ev_id e) EventConflictKindVerification (cn_details c)"
  shows "apply_one w e s = Inr (Consumed, s)"
proof -
  have "list_ex (\<lambda>c. records_failure (ev_id e) EventConflictKindVerification (cn_details c)) (OpenConflictsByType ConflictEventVerification s)"
    using assms(7-10) by (auto simp: list_ex_iff OpenConflictsByType_def)
  then have "insertEventVerificationConflict w (e\<lparr>ev_workspace := []\<rparr>) er s = s"
    using assms(6) by (simp add: insertEventVerificationConflict_def insertEventConflictOnce_def)
  then show ?thesis
    using assms(1-6) by (simp add: apply_one_def clock_fine_def Let_def)
qed

definition batch_hlc :: int where "batch_hlc = push_bit 16 1704067200000"

lemma batch_hlc_fine: "ev_hlc e = batch_hlc \<Longrightarrow> clock_fine (plain_world 1704067200000) e"
  by (simp add: clock_fine_def batch_hlc_def epochFloorMS_def hlcLogicalBits_def drop_bit_eq_div push_bit_eq_mult
      plain_world_def duration_ms_def defaultMaxSkew_def)

definition junk_event :: event where
  "junk_event = event_zero\<lparr>ev_id := ''e'', ev_workspace := ''ws'', ev_device := ''p'', ev_hlc := batch_hlc, ev_type := EventProjectAdded,
     ev_content_hash := ''sha256:'', ev_created := ''t''\<rparr>"

definition junk_store :: store where
  "junk_store = device_store [sample_device ''me'' trust_local [] None, sample_device ''p'' trust_pending [] None]"

lemma junk_enrolled: "\<not> hasEnrolledDevices junk_store"
  by (simp add: hasEnrolledDevices_def junk_store_def tcount_def trust_defs)

theorem undecodable_project_event_aborts_batch_witness:
  "\<exists>er. ApplyEventsWithStats (plain_world 1704067200000) [junk_event] [] junk_store = (Inl er, junk_store)"
proof -
  let ?w = "plain_world 1704067200000" and ?e = "junk_event\<lparr>ev_workspace := []\<rparr>"
  have dev: "EnsureRemoteDeviceTx (ev_device junk_event) junk_store = Inr junk_store"
    by (rule ensure_known) (simp_all add: junk_event_def junk_store_def)
  have f: "fill_event ?w (normalizeEvent ?w ?e) junk_store = (junk_event, junk_store)"
    by (simp add: fill_event_def normalizeEvent_def junk_event_def junk_store_def event_zero_def)
  have v: "verifyEventSignature ?w junk_store junk_event = Inr ()"
    using junk_enrolled
    by (simp add: verifyEventSignature_def junk_event_def junk_store_def mustVerifyEvent_def EventProjectAdded_def trust_defs)
  have ins: "InsertEvent ?w ?e junk_store = Inr (True, junk_store\<lparr>st_events := [junk_event]\<rparr>)"
  proof -
    have h: "ev_content_hash junk_event = ContentHash ?w (ev_payload junk_event)"
      by (simp add: junk_event_def event_zero_def ContentHash_def plain_world_def)
    have "previousEventContentHash junk_store junk_event = None"
      by (simp add: previousEventContentHash_def junk_event_def junk_store_def event_zero_def)
    then have p: "validatePrevEventHash junk_store junk_event = Inr ()"
      by (simp add: validatePrevEventHash_def) (simp add: junk_event_def event_zero_def)
    have "storeEvent junk_event junk_store = Inr (True, junk_store\<lparr>st_events := [junk_event]\<rparr>)"
      unfolding storeEvent_True by (simp add: junk_store_def) (simp add: junk_event_def event_zero_def)
    then show ?thesis unfolding InsertEvent_def insertEvent_def f Let_def prod.case using h p v by simp
  qed
  have dp: "decode_project (ev_payload junk_event) = None" by (simp add: junk_event_def event_zero_def) code_simp
  show ?thesis
    by (rule undecodable_project_event_aborts_batch [OF _ dp batch_hlc_fine dev ins])
      (simp_all add: junk_event_def event_zero_def junk_store_def currentDevice_def)
qed

definition forged_conflict :: conflict where
  "forged_conflict = \<lparr>cn_id = ''c'', cn_ns = [], cn_type = ConflictEventVerification, cn_open = True,
     cn_details = marshal_obj [jstr ''kind'' ''verification'', jstr ''event_id'' ''e''], cn_resolution = []\<rparr>"

theorem quarantine_hides_second_event_witness:
  "apply_one (plain_world 1704067200000) (junk_event\<lparr>ev_type := EventProjectDeleted\<rparr>)
     (junk_store\<lparr>st_conflicts := [forged_conflict]\<rparr>) = Inr (Consumed, junk_store\<lparr>st_conflicts := [forged_conflict]\<rparr>)"
proof -
  let ?w = "plain_world 1704067200000" and ?e = "junk_event\<lparr>ev_type := EventProjectDeleted\<rparr>"
  let ?s = "junk_store\<lparr>st_conflicts := [forged_conflict]\<rparr>"
  have j: "parse_json (cn_details forged_conflict) = Some (JObj [(''kind'', JStr ''verification''), (''event_id'', JStr ''e'')])"
    unfolding forged_conflict_def conflict.simps
    by (rule parse_marshal_obj) (simp add: List.map_filter_def jstr_def renders_quote is_ascii_def)
  have r: "records_failure (ev_id ?e) EventConflictKindVerification (cn_details forged_conflict)"
    by (simp add: records_failure_def decode_verification_def unmarshal_def j set_field_def str_field_def int_field_def
        junk_event_def EventConflictKindVerification_def)
  have dev: "EnsureRemoteDeviceTx (ev_device ?e) ?s = Inr ?s"
    by (rule ensure_known) (simp_all add: junk_event_def junk_store_def)
  have f: "fill_event ?w (normalizeEvent ?w (?e\<lparr>ev_workspace := []\<rparr>)) ?s = (?e, ?s)"
    by (simp add: fill_event_def normalizeEvent_def junk_event_def junk_store_def event_zero_def)
  have v: "verifyEventSignature ?w ?s ?e = requires ?e ''signature from a device with a signing key''"
    by (simp add: verifyEventSignature_def junk_event_def junk_store_def mustVerifyEvent_def EventProjectDeleted_def trust_defs)
  have h: "ev_content_hash ?e = ContentHash ?w (ev_payload ?e)"
    by (simp add: junk_event_def event_zero_def ContentHash_def plain_world_def)
  have ins: "InsertEvent ?w (?e\<lparr>ev_workspace := []\<rparr>) ?s = requires ?e ''signature from a device with a signing key''"
    unfolding InsertEvent_def insertEvent_def f Let_def prod.case using h v by (simp add: requires_def)
  have "event_tx ?w (?e\<lparr>ev_workspace := []\<rparr>) ?s = requires ?e ''signature from a device with a signing key''"
    using dev ins by (simp add: event_tx_def requires_def)
  then have tx: "event_tx ?w (?e\<lparr>ev_workspace := []\<rparr>) ?s = Inl (Err [KVerification] (''event '' @ ev_id ?e @ '' of type '' @ ev_type ?e @
     '' requires a '' @ ''signature from a device with a signing key'' @ verification_text))"
    by (simp only: requires_def fail_def)
  show ?thesis
    by (rule quarantine_hides_second_event [OF batch_hlc_fine _ tx, of forged_conflict])
      (use r in \<open>simp_all add: junk_event_def event_zero_def forged_conflict_def event_type_defs\<close>)
qed

end
