(* ===== verification/Envelope.thy ===== *)
theory Envelope
  imports Keys_Cursors
begin

section \<open>Encrypted envelopes\<close>

text \<open>
  \<^verbatim>\<open>src/internal/sync/eventcrypt.go\<close>: how the content of an event is sealed under a workspace
  content key before it leaves the device, and how a carrier pulled from the hub is opened. The
  AEAD (XChaCha20-Poly1305, \<^verbatim>\<open>golang.org/x/crypto\<close>) and age (\<^verbatim>\<open>filippo.io/age\<close>) are
  fields of the record \<open>crypto\<close>; random bytes come from its \<open>x_random\<close>, read at the
  position of a counter. What the code relies on is stated by the predicates at the end.
\<close>

record crypto =
  x_seal :: "string \<Rightarrow> string \<Rightarrow> string \<Rightarrow> string \<Rightarrow> string"
  x_open :: "string \<Rightarrow> string \<Rightarrow> string \<Rightarrow> string \<Rightarrow> string option"
  x_recipient :: "string \<Rightarrow> string option"
  x_wrap :: "string \<Rightarrow> string \<Rightarrow> string \<Rightarrow> string option"
  x_unwrap :: "string \<Rightarrow> string \<Rightarrow> string option"
  x_random :: "nat \<Rightarrow> nat \<Rightarrow> string"

subsection \<open>The envelope and the sealed tuple\<close>

definition EventEncryptedV1 :: string where "EventEncryptedV1 = ''enc.v1''"

definition envelopeVersion :: int where "envelopeVersion = 2"

definition wckSize :: nat where "wckSize = 32"
definition nonceSize :: nat where "nonceSize = 24"
definition aeadOverhead :: nat where "aeadOverhead = 16"

record envelope =
  en_version :: int
  en_epoch :: int
  en_kid :: string
  en_ct :: string

definition envelope_zero :: envelope where
  "envelope_zero = \<lparr>en_version = 0, en_epoch = 0, en_kid = [], en_ct = []\<rparr>"

definition decode_envelope :: "string \<Rightarrow> envelope option" where
  "decode_envelope = unmarshal
     [int_field ''v'' en_version_update, int_field ''epoch'' en_epoch_update,
      str_field ''kid'' en_kid_update, str_field ''ct'' en_ct_update] envelope_zero"

definition marshal_envelope :: "envelope \<Rightarrow> string" where
  "marshal_envelope v = marshal_obj
     [jint ''v'' (en_version v), jint ''epoch'' (en_epoch v), jstr_opt ''kid'' (en_kid v), jstr ''ct'' (en_ct v)]"

record sealed =
  sc_type :: string
  sc_payload :: string
  sc_content_hash :: string
  sc_prev_hash :: string

definition decode_sealed :: "string \<Rightarrow> sealed option" where
  "decode_sealed = unmarshal
     [str_field ''type'' sc_type_update, str_field ''payload_json'' sc_payload_update,
      str_field ''content_hash'' sc_content_hash_update, str_field ''prev_event_hash'' sc_prev_hash_update]
     \<lparr>sc_type = [], sc_payload = [], sc_content_hash = [], sc_prev_hash = []\<rparr>"

definition marshal_sealed :: "sealed \<Rightarrow> string" where
  "marshal_sealed c = marshal_obj
     [jstr ''type'' (sc_type c), jstr ''payload_json'' (sc_payload c),
      jstr ''content_hash'' (sc_content_hash c), jstr ''prev_event_hash'' (sc_prev_hash c)]"

definition KIDForWCK :: "world \<Rightarrow> string \<Rightarrow> string" where
  "KIDForWCK w wck = hex_enc (w_sha w wck)"

text \<open>\<^verbatim>\<open>binary.BigEndian.PutUint32(lb, uint32(len(s)))\<close>\<close>

definition be32 :: "int \<Rightarrow> string" where
  "be32 n = map (\<lambda>k. chr (nat (n div 256 ^ k mod 256))) [3, 2, 1, 0]"

definition appendLenPrefixed :: "string \<Rightarrow> string \<Rightarrow> string" where
  "appendLenPrefixed dst s = dst @ be32 (int (length s)) @ s"

definition envelopeAAD :: "event \<Rightarrow> string \<Rightarrow> int \<Rightarrow> string" where
  "envelopeAAD e kid epoch =
     appendLenPrefixed (appendLenPrefixed (appendLenPrefixed [] (ev_id e)) (ev_device e)) kid
       @ be64 (ev_seq e) @ be64 (ev_hlc e) @ be64 epoch"

subsection \<open>Sealing and opening\<close>

definition sealed_of :: "event \<Rightarrow> sealed" where
  "sealed_of e = \<lparr>sc_type = ev_type e, sc_payload = ev_payload e, sc_content_hash = ev_content_hash e,
     sc_prev_hash = ev_prev_hash e\<rparr>"

text \<open>\<^verbatim>\<open>EncryptEvent\<close>, with the drawn nonce as an argument.\<close>

definition EncryptEvent :: "crypto \<Rightarrow> world \<Rightarrow> string \<Rightarrow> event \<Rightarrow> string \<Rightarrow> int \<Rightarrow> event res" where
  "EncryptEvent x w nonce e wck epoch =
     (if length wck \<noteq> wckSize
      then fail KOther (''encrypt event '' @ ev_id e @ '': wck length = '' @ show_nat (length wck) @ '', want 32'')
      else
        (let plaintext = marshal_sealed (sealed_of e);
             kid = KIDForWCK w wck;
             ct = x_seal x wck nonce plaintext (envelopeAAD e kid epoch)
         in Inr \<lparr>ev_id = ev_id e, ev_workspace = ev_workspace e, ev_device = ev_device e, ev_seq = ev_seq e,
              ev_hlc = ev_hlc e, ev_type = EventEncryptedV2,
              ev_payload = marshal_envelope \<lparr>en_version = envelopeVersion, en_epoch = epoch, en_kid = kid,
                en_ct = b64_enc (nonce @ ct)\<rparr>,
              ev_content_hash = [], ev_sig = ev_sig e, ev_prev_hash = [], ev_created = []\<rparr>))"

definition ParseEncryptedEnvelope :: "world \<Rightarrow> event \<Rightarrow> envelope res" where
  "ParseEncryptedEnvelope w e =
     (if ev_type e \<noteq> EventEncryptedV2
      then fail KPlaintext (''plaintext event from hub (anti-downgrade rejection): event '' @ ev_id e @ '' has type '' @ ev_type e)
      else case decode_envelope (ev_payload e) of
        None \<Rightarrow> fail KOther (''parse envelope event '' @ ev_id e @ '': '' @ w_decode_err w (ev_payload e))
      | Some v \<Rightarrow>
          if en_version v \<noteq> envelopeVersion
          then fail KUnknownVersion (''unknown encrypted envelope version: event '' @ ev_id e @ '' has envelope version ''
                 @ show_int (en_version v) @ '', want 2'')
          else Inr v)"

definition EnvelopeVersion :: "event \<Rightarrow> int option" where
  "EnvelopeVersion e = map_option en_version (decode_envelope (ev_payload e))"

text \<open>What \<^verbatim>\<open>DecryptEvent\<close> does with a parsed envelope.\<close>

definition open_envelope :: "crypto \<Rightarrow> world \<Rightarrow> event \<Rightarrow> string \<Rightarrow> envelope \<Rightarrow> event res" where
  "open_envelope x w e wck env =
     (if length wck \<noteq> wckSize
      then fail KOther (''decrypt event '' @ ev_id e @ '': wck length = '' @ show_nat (length wck) @ '', want 32'')
      else case b64_dec (en_ct env) of
        None \<Rightarrow> fail KOther (''decrypt event '' @ ev_id e @ '': decode ciphertext: '' @ w_decode_err w (en_ct env))
      | Some raw \<Rightarrow>
          if length raw < nonceSize + aeadOverhead
          then fail KOther (''decrypt event '' @ ev_id e @ '': ciphertext too short'')
          else case x_open x wck (take nonceSize raw) (drop nonceSize raw)
                      (envelopeAAD e (KIDForWCK w wck) (en_epoch env)) of
            None \<Rightarrow> fail KOther (''decrypt event '' @ ev_id e @ '': aead open: chacha20poly1305: message authentication failed'')
          | Some plaintext \<Rightarrow>
             (case decode_sealed plaintext of
                None \<Rightarrow> fail KOther (''decrypt event '' @ ev_id e @ '': unmarshal sealed content: '' @ w_decode_err w plaintext)
              | Some c \<Rightarrow>
                  Inr (e\<lparr>ev_type := sc_type c, ev_payload := sc_payload c, ev_content_hash := sc_content_hash c,
                         ev_prev_hash := sc_prev_hash c\<rparr>)))"

definition DecryptEvent :: "crypto \<Rightarrow> world \<Rightarrow> event \<Rightarrow> string \<Rightarrow> event res" where
  "DecryptEvent x w e wck = bindr (ParseEncryptedEnvelope w e) (open_envelope x w e wck)"

subsection \<open>What the code relies on\<close>

text \<open>
  \<open>aead_sound\<close> is the documented behaviour of an AEAD: what is sealed opens to the same text
  under the same key, nonce and additional data, and the ciphertext is the text and a tag of 16
  bytes. \<open>opens_once\<close> is authenticity at one ciphertext: it opens under at most one
  additional data, that is, nobody has forged it for a second one.
\<close>

definition aead_sound :: "crypto \<Rightarrow> bool" where
  "aead_sound x \<longleftrightarrow> (\<forall>k n p a. x_open x k n (x_seal x k n p a) a = Some p \<and>
     length (x_seal x k n p a) = length p + aeadOverhead)"

definition opens_once :: "crypto \<Rightarrow> string \<Rightarrow> string \<Rightarrow> string \<Rightarrow> bool" where
  "opens_once x k n c \<longleftrightarrow> (\<forall>a b. x_open x k n c a \<noteq> None \<longrightarrow> x_open x k n c b \<noteq> None \<longrightarrow> a = b)"

subsection \<open>Fixed-width integers\<close>

definition un_be :: "string \<Rightarrow> int" where
  "un_be s = foldl (\<lambda>a c. a * 256 + int (nat_of c)) 0 s"

lemma foldl_be: "foldl (\<lambda>a c. a * 256 + int (nat_of c)) a s = a * 256 ^ length s + un_be s"
proof (induction s arbitrary: a)
  case (Cons c s)
  show ?case
    using Cons [of "a * 256 + int (nat_of c)"] Cons [of "int (nat_of c)"]
    by (simp add: un_be_def algebra_simps)
qed (simp add: un_be_def)

lemma un_be_digits: "un_be (map (\<lambda>k. chr (nat (n div 256 ^ k mod 256))) (rev [0..<m])) = n mod 256 ^ m"
proof (induction m)
  case (Suc m)
  let ?d = "\<lambda>k. chr (nat (n div 256 ^ k mod 256))"
  have d: "int (nat_of (?d m)) = n div 256 ^ m mod 256" by (simp add: chr_less nat_less_iff)
  have "un_be (map ?d (rev [0..<Suc m])) = foldl (\<lambda>a c. a * 256 + int (nat_of c)) (int (nat_of (?d m))) (map ?d (rev [0..<m]))"
    by (simp add: un_be_def)
  also have "\<dots> = (n div 256 ^ m mod 256) * 256 ^ m + n mod 256 ^ m"
    unfolding foldl_be d Suc.IH by simp
  also have "\<dots> = n mod (256 ^ m * 256)"
    by (subst zmod_zmult2_eq) (simp_all add: algebra_simps)
  finally show ?case by (simp add: algebra_simps)
qed (simp add: un_be_def)

lemma un_be64: "un_be (be64 n) = n mod 2 ^ 64"
  using un_be_digits [of n 8] by (simp add: be64_def upt_rec)

lemma un_be32: "un_be (be32 n) = n mod 2 ^ 32"
  using un_be_digits [of n 4] by (simp add: be32_def upt_rec)

lemma be64_inj:
  assumes "int64 n" "int64 m"
  shows "be64 n = be64 m \<longleftrightarrow> n = m"
proof
  assume "be64 n = be64 m"
  then have "n mod 2 ^ 64 = m mod 2 ^ 64" by (metis un_be64)
  then have "(n + 2 ^ 63) mod 2 ^ 64 = (m + 2 ^ 63) mod 2 ^ 64" by (rule mod_add_cong) simp
  then have "wrap64 n = wrap64 m" by (simp only: wrap64_def)
  then show "n = m" using assms by simp
qed simp

lemma length_be32 [simp]: "length (be32 n) = 4"
  by (simp add: be32_def)

lemma len_prefix_inj:
  assumes "length s < 2 ^ 32" "length t < 2 ^ 32"
    and "be32 (int (length s)) @ s @ u = be32 (int (length t)) @ t @ v"
  shows "s = t \<and> u = v"
proof -
  have "be32 (int (length s)) = be32 (int (length t))" and r: "s @ u = t @ v"
    using assms(3) by (auto simp: append_eq_append_conv)
  then have "int (length s) mod 2 ^ 32 = int (length t) mod 2 ^ 32" by (metis un_be32)
  then have "int (length s mod 2 ^ 32) = int (length t mod 2 ^ 32)" by (simp only: zmod_int of_nat_power of_nat_numeral)
  then have "length s = length t" using assms(1,2) by (simp only: of_nat_eq_iff mod_less)
  then show ?thesis using r by simp
qed

text \<open>The lengths and integers for which the additional data determines the carrier.\<close>

definition carrier_fits :: "event \<Rightarrow> bool" where
  "carrier_fits e \<longleftrightarrow> length (ev_id e) < 2 ^ 32 \<and> length (ev_device e) < 2 ^ 32 \<and> int64 (ev_seq e) \<and> int64 (ev_hlc e)"

lemma envelopeAAD_inj:
  assumes "carrier_fits e" "carrier_fits f" "length kid < 2 ^ 32" "length kid' < 2 ^ 32" "int64 p" "int64 q"
    and "envelopeAAD e kid p = envelopeAAD f kid' q"
  shows "ev_id e = ev_id f \<and> ev_device e = ev_device f \<and> ev_seq e = ev_seq f \<and> ev_hlc e = ev_hlc f \<and>
     kid = kid' \<and> p = q"
proof -
  note A = assms(7) [unfolded envelopeAAD_def appendLenPrefixed_def append_Nil append_assoc]
  from len_prefix_inj [OF _ _ A] have i: "ev_id e = ev_id f" and
    B: "be32 (int (length (ev_device e))) @ ev_device e @ be32 (int (length kid)) @ kid @ be64 (ev_seq e) @ be64 (ev_hlc e) @ be64 p =
        be32 (int (length (ev_device f))) @ ev_device f @ be32 (int (length kid')) @ kid' @ be64 (ev_seq f) @ be64 (ev_hlc f) @ be64 q"
    using assms(1,2) by (auto simp: carrier_fits_def)
  from len_prefix_inj [OF _ _ B] have d: "ev_device e = ev_device f" and
    C: "be32 (int (length kid)) @ kid @ be64 (ev_seq e) @ be64 (ev_hlc e) @ be64 p =
        be32 (int (length kid')) @ kid' @ be64 (ev_seq f) @ be64 (ev_hlc f) @ be64 q"
    using assms(1,2) by (auto simp: carrier_fits_def)
  from len_prefix_inj [OF assms(3,4) C] show ?thesis
    using i d assms(1,2,5,6) by (auto simp: carrier_fits_def be64_inj append_eq_append_conv)
qed


subsection \<open>Round trip and authenticity\<close>

definition sealable :: "event \<Rightarrow> bool" where
  "sealable e \<longleftrightarrow> ascii_str (ev_type e) \<and> ascii_str (ev_payload e) \<and> ascii_str (ev_content_hash e) \<and>
     ascii_str (ev_prev_hash e)"

lemma decode_marshal_sealed:
  assumes "sealable e"
  shows "decode_sealed (marshal_sealed (sealed_of e)) = Some (sealed_of e)"
proof -
  have "parse_json (marshal_sealed (sealed_of e)) = Some (JObj
     [(''type'', JStr (ev_type e)), (''payload_json'', JStr (ev_payload e)),
      (''content_hash'', JStr (ev_content_hash e)), (''prev_event_hash'', JStr (ev_prev_hash e))])"
    unfolding marshal_sealed_def sealed_of_def
    by (rule parse_marshal_obj)
      (use assms in \<open>simp add: List.map_filter_def jstr_def renders_quote sealable_def is_ascii_def\<close>)
  then show ?thesis
    by (simp add: decode_sealed_def unmarshal_def set_field_def str_field_def sealed_of_def)
qed

lemma decode_marshal_envelope:
  assumes "ascii_str (en_kid v)" "ascii_str (en_ct v)" "int64 (en_version v)" "int64 (en_epoch v)"
  shows "decode_envelope (marshal_envelope v) = Some v"
proof -
  have "parse_json (marshal_envelope v) = Some (JObj
     ([(''v'', JInt (en_version v)), (''epoch'', JInt (en_epoch v))] @
      (if en_kid v = [] then [] else [(''kid'', JStr (en_kid v))]) @ [(''ct'', JStr (en_ct v))]))"
    unfolding marshal_envelope_def
    by (rule parse_marshal_obj)
      (use assms in \<open>simp add: List.map_filter_def jstr_def jstr_opt_def jint_def renders_quote renders_int is_ascii_def\<close>)
  then show ?thesis using assms
    by (cases v) (simp add: decode_envelope_def unmarshal_def set_field_def str_field_def int_field_def envelope_zero_def)
qed

lemma ascii_hex_enc [simp]: "ascii_str (hex_enc s)"
proof (induction s)
  case (Cons c s)
  have "nat_of c div 16 < 16" using nat_of_256 [of c] by (simp add: less_mult_imp_div_less)
  then show ?case using Cons by (auto simp: is_ascii_def hex_digit_def)
qed simp

lemma ascii_b64_enc [simp]: "ascii_str (b64_enc s)"
  by (force simp: ascii_str_def is_ascii_def dest: b64_enc_graph)

lemma length_hex_enc [simp]: "length (hex_enc s) = 2 * length s"
  by (induction s) auto

lemma EncryptEvent_Inr:
  assumes "EncryptEvent x w nonce e wck epoch = Inr c"
  shows "length wck = wckSize"
    and "c = e\<lparr>ev_type := EventEncryptedV2, ev_payload := marshal_envelope
      \<lparr>en_version = 2, en_epoch = epoch, en_kid = KIDForWCK w wck,
       en_ct = b64_enc (nonce @ x_seal x wck nonce (marshal_sealed (sealed_of e)) (envelopeAAD e (KIDForWCK w wck) epoch))\<rparr>,
      ev_content_hash := [], ev_prev_hash := [], ev_created := []\<rparr>"
  using assms by (auto simp: EncryptEvent_def Let_def envelopeVersion_def split: if_splits)

lemma open_sealed:
  assumes "aead_sound x" "length wck = wckSize" "length nonce = nonceSize" "sealable e"
    and "en_ct v = b64_enc (nonce @ x_seal x wck nonce (marshal_sealed (sealed_of e)) a)"
    and "envelopeAAD m (KIDForWCK w wck) (en_epoch v) = a"
  shows "open_envelope x w m wck v = Inr (m\<lparr>ev_type := ev_type e, ev_payload := ev_payload e,
     ev_content_hash := ev_content_hash e, ev_prev_hash := ev_prev_hash e\<rparr>)"
  using assms by (simp add: open_envelope_def b64_dec_enc aead_sound_def decode_marshal_sealed)
    (simp add: sealed_of_def)

lemma Decrypt_Encrypt:
  assumes "EncryptEvent x w nonce e wck epoch = Inr c"
    and "aead_sound x" "length nonce = nonceSize" "sealable e" "int64 epoch"
  shows "DecryptEvent x w c wck = Inr (e\<lparr>ev_created := []\<rparr>)"
proof -
  note E = EncryptEvent_Inr [OF assms(1)]
  let ?ct = "x_seal x wck nonce (marshal_sealed (sealed_of e)) (envelopeAAD e (KIDForWCK w wck) epoch)"
  let ?v = "\<lparr>en_version = 2, en_epoch = epoch, en_kid = KIDForWCK w wck, en_ct = b64_enc (nonce @ ?ct)\<rparr>"
  have p: "ParseEncryptedEnvelope w c = Inr ?v"
    using assms(5) unfolding E(2)
    by (simp add: ParseEncryptedEnvelope_def decode_marshal_envelope KIDForWCK_def int64_def envelopeVersion_def)
  have "envelopeAAD c (KIDForWCK w wck) (en_epoch ?v) = envelopeAAD e (KIDForWCK w wck) epoch"
    by (simp add: envelopeAAD_def E(2))
  from open_sealed [OF assms(2) E(1) assms(3,4) _ this] show ?thesis
    by (simp add: DecryptEvent_def p) (simp add: E(2))
qed

lemma sealed_carrier_opens:
  assumes "EncryptEvent x w nonce e wck epoch = Inr c"
    and "aead_sound x" and "length nonce = nonceSize" and "sealable e" and "int64 epoch" and "digest32 w"
    and "ct = x_seal x wck nonce (marshal_sealed (sealed_of e)) (envelopeAAD e (KIDForWCK w wck) epoch)"
    and "opens_once x wck nonce ct"
    and "ev_type m = EventEncryptedV2" and "decode_envelope (ev_payload m) = Some v"
    and "en_ct v = b64_enc (nonce @ ct)" and "int64 (en_epoch v)" and "carrier_fits e" and "carrier_fits m"
  shows "DecryptEvent x w c wck = Inr (e\<lparr>ev_created := []\<rparr>)"
    and "(\<exists>r. DecryptEvent x w m wck = Inr r) \<longleftrightarrow>
       en_version v = envelopeVersion \<and> en_epoch v = epoch \<and>
       ev_id m = ev_id e \<and> ev_device m = ev_device e \<and> ev_seq m = ev_seq e \<and> ev_hlc m = ev_hlc e"
proof -
  show "DecryptEvent x w c wck = Inr (e\<lparr>ev_created := []\<rparr>)" by (rule Decrypt_Encrypt) fact+
  have wck: "length wck = wckSize" using EncryptEvent_Inr [OF assms(1)] by blast
  let ?kid = "KIDForWCK w wck"
  have kid: "length ?kid < 2 ^ 32" using assms(6) by (simp add: KIDForWCK_def digest32_def)
  have opened: "x_open x wck nonce ct (envelopeAAD e ?kid epoch) \<noteq> None"
    using assms(2) by (simp add: aead_sound_def assms(7))
  have same: "envelopeAAD m ?kid (en_epoch v) = envelopeAAD e ?kid epoch \<longleftrightarrow>
      en_epoch v = epoch \<and> ev_id m = ev_id e \<and> ev_device m = ev_device e \<and> ev_seq m = ev_seq e \<and> ev_hlc m = ev_hlc e"
    using envelopeAAD_inj [OF assms(14,13) kid kid assms(12,5)] by (auto simp: envelopeAAD_def)
  have "(\<exists>r. open_envelope x w m wck v = Inr r) \<longleftrightarrow> envelopeAAD m ?kid (en_epoch v) = envelopeAAD e ?kid epoch"
  proof
    assume "envelopeAAD m ?kid (en_epoch v) = envelopeAAD e ?kid epoch"
    from open_sealed [OF assms(2) wck assms(3,4) _ this] show "\<exists>r. open_envelope x w m wck v = Inr r"
      using assms(7,11) by simp
  next
    assume "\<exists>r. open_envelope x w m wck v = Inr r"
    then have "x_open x wck nonce ct (envelopeAAD m ?kid (en_epoch v)) \<noteq> None"
      using assms(3,11) wck by (auto simp: open_envelope_def b64_dec_enc split: if_splits option.splits)
    then show "envelopeAAD m ?kid (en_epoch v) = envelopeAAD e ?kid epoch"
      using assms(8) opened by (simp add: opens_once_def)
  qed
  then show "(\<exists>r. DecryptEvent x w m wck = Inr r) \<longleftrightarrow>
       en_version v = envelopeVersion \<and> en_epoch v = epoch \<and>
       ev_id m = ev_id e \<and> ev_device m = ev_device e \<and> ev_seq m = ev_seq e \<and> ev_hlc m = ev_hlc e"
    using assms(9,10) same by (auto simp: DecryptEvent_def ParseEncryptedEnvelope_def)
qed

text \<open>C22: a carrier opens to exactly the event that was sealed (its creation time apart), and a
  ciphertext that nobody has forged opens for one carrier only: an object that shows the
  ciphertext under another event id, device, sequence number, HLC, epoch or version is refused,
  while the key id written in the envelope, which the hub can change, makes no difference.\<close>

theorem only_the_sealed_carrier_opens:
  assumes "EncryptEvent x w nonce e wck epoch = Inr c"
    and "aead_sound x" and "length nonce = nonceSize" and "sealable e" and "int64 epoch" and "digest32 w"
    and "ct = x_seal x wck nonce (marshal_sealed (sealed_of e)) (envelopeAAD e (KIDForWCK w wck) epoch)"
    and "opens_once x wck nonce ct"
    and "ev_type m = EventEncryptedV2" and "decode_envelope (ev_payload m) = Some v"
    and "en_ct v = b64_enc (nonce @ ct)" and "int64 (en_epoch v)" and "carrier_fits e" and "carrier_fits m"
  shows "DecryptEvent x w c wck = Inr (e\<lparr>ev_created := []\<rparr>) \<and>
    ((\<exists>r. DecryptEvent x w m wck = Inr r) \<longleftrightarrow>
       en_version v = envelopeVersion \<and> en_epoch v = epoch \<and>
       ev_id m = ev_id e \<and> ev_device m = ev_device e \<and> ev_seq m = ev_seq e \<and> ev_hlc m = ev_hlc e)"
  using sealed_carrier_opens [OF assms] by (rule conjI)


subsection \<open>A concrete instance\<close>

text \<open>For the witnesses: the tag of a ciphertext is sixteen letters that tell one additional data
  from all the others, and a key is wrapped by putting the recipient's name before it.\<close>

definition plain_tag :: "string \<Rightarrow> string \<Rightarrow> string" where
  "plain_tag a0 a = replicate 16 (if a = a0 then CHR ''A'' else CHR ''B'')"

definition plain_crypto :: "string \<Rightarrow> crypto" where
  "plain_crypto a0 = \<lparr>x_seal = (\<lambda>k n p a. p @ plain_tag a0 a),
     x_open = (\<lambda>k n c a. if drop (length c - 16) c = plain_tag a0 a then Some (take (length c - 16) c) else None),
     x_recipient = (\<lambda>s. if prefixb ''ID-'' s then Some (''age1'' @ drop 3 s) else None),
     x_wrap = (\<lambda>coins r k. if prefixb ''age1'' r then Some (drop 4 r @ [chr 0] @ k) else None),
     x_unwrap = (\<lambda>s raw. if prefixb ''ID-'' s \<and> prefixb (drop 3 s @ [chr 0]) raw
        then Some (drop (length s - 2) raw) else None),
     x_random = (\<lambda>i n. replicate n (chr (65 + i)))\<rparr>"

lemma plain_aead_sound [simp]: "aead_sound (plain_crypto a0)"
  by (simp add: aead_sound_def plain_crypto_def plain_tag_def aeadOverhead_def)

lemma plain_opens_once: "opens_once (plain_crypto a0) k n (p @ plain_tag a0 a0)"
  by (auto simp: opens_once_def plain_crypto_def plain_tag_def split: if_splits)

definition sample_wck :: string where "sample_wck = replicate 32 CHR ''k''"
definition sample_nonce :: string where "sample_nonce = replicate 24 CHR ''n''"

definition sample_aad :: string where
  "sample_aad = envelopeAAD (peer_event 1 ''h'') (KIDForWCK digest_world sample_wck) 1"

theorem only_the_sealed_carrier_opens_witness:
  "\<exists>c. EncryptEvent (plain_crypto sample_aad) digest_world sample_nonce (peer_event 1 ''h'') sample_wck 1 = Inr c \<and>
     DecryptEvent (plain_crypto sample_aad) digest_world c sample_wck = Inr (peer_event 1 ''h'') \<and>
     \<not> (\<exists>r. DecryptEvent (plain_crypto sample_aad) digest_world (c\<lparr>ev_seq := 2\<rparr>) sample_wck = Inr r)"
proof -
  let ?x = "plain_crypto sample_aad" and ?e = "peer_event 1 ''h''"
  obtain c where c: "EncryptEvent ?x digest_world sample_nonce ?e sample_wck 1 = Inr c"
    by (simp add: EncryptEvent_def Let_def sample_wck_def wckSize_def)
  note E = EncryptEvent_Inr [OF c]
  let ?ct = "x_seal ?x sample_wck sample_nonce (marshal_sealed (sealed_of ?e)) sample_aad"
  let ?v = "\<lparr>en_version = 2, en_epoch = 1, en_kid = KIDForWCK digest_world sample_wck, en_ct = b64_enc (sample_nonce @ ?ct)\<rparr>"
  have "sealable ?e" by (simp add: sealable_def peer_event_def event_zero_def is_ascii_def)
  moreover have "opens_once ?x sample_wck sample_nonce ?ct"
    using plain_opens_once [of sample_aad] by (simp add: plain_crypto_def)
  moreover have "decode_envelope (ev_payload (c\<lparr>ev_seq := 2\<rparr>)) = Some ?v"
    unfolding E(2) sample_aad_def [symmetric]
    by (simp add: decode_marshal_envelope KIDForWCK_def int64_def)
  moreover have "carrier_fits ?e" "carrier_fits (c\<lparr>ev_seq := 2\<rparr>)"
    unfolding E(2) by (simp_all add: carrier_fits_def peer_event_def event_zero_def int64_def)
  moreover have "ev_type (c\<lparr>ev_seq := 2\<rparr>) = EventEncryptedV2" "length sample_nonce = nonceSize"
    "int64 1" "ev_created ?e = []"
    unfolding E(2) by (simp_all add: sample_nonce_def nonceSize_def int64_def peer_event_def event_zero_def)
  ultimately show ?thesis
    using only_the_sealed_carrier_opens [OF c plain_aead_sound, of ?ct "c\<lparr>ev_seq := 2\<rparr>" ?v] c
    unfolding sample_aad_def [symmetric] by simp
qed

end
