(* ===== verification/Custody.thy ===== *)
theory Custody
  imports Envelope
begin

section \<open>Custody of the device's secrets\<close>

text \<open>
  \<^verbatim>\<open>src/internal/devicekeys/devicekeys.go\<close>: where a device keeps its age identity, its
  signing key, the workspace content keys and the hub credentials. The keychain and the key
  directory belong to the operating system: the state records what they hold and how they answer
  (\<open>fault\<close>), and the identities drawn at random are arguments. The key directory is the map
  from the base names of its files.
\<close>

type_synonym custody = string

definition CustodyUnset :: custody where "CustodyUnset = []"
definition CustodyKeychain :: custody where "CustodyKeychain = ''keychain''"
definition CustodyFile :: custody where "CustodyFile = ''file''"

lemma custody_distinct [simp]:
  "CustodyKeychain \<noteq> CustodyFile" "CustodyFile \<noteq> CustodyKeychain" "CustodyUnset \<noteq> CustodyFile"
  "CustodyUnset \<noteq> CustodyKeychain" "CustodyKeychain \<noteq> CustodyUnset" "CustodyFile \<noteq> CustodyUnset"
  by (simp_all add: CustodyUnset_def CustodyKeychain_def CustodyFile_def)

datatype fault = Unreachable | Failing string

datatype file_state = Absent | Content string | Unreadable string

record secrets =
  sc_custody :: custody
  sc_backend :: bool
  sc_load_fault :: "fault option"
  sc_store_fault :: "fault option"
  sc_chain :: "string \<Rightarrow> string option"
  sc_files :: "string \<Rightarrow> file_state"
  sc_write_fault :: "string option"

record identity =
  id_private :: string
  id_recipient :: string

record signing_identity =
  sg_private :: string
  sg_public :: string

subsection \<open>The keychain\<close>

definition fault_res :: "fault \<Rightarrow> 'a res" where
  "fault_res f = (case f of Unreachable \<Rightarrow> fail KUnsupported ''keychain is not available'' | Failing m \<Rightarrow> fail KOther m)"

definition chain_load :: "secrets \<Rightarrow> string \<Rightarrow> string res" where
  "chain_load st account = (case sc_load_fault st of Some f \<Rightarrow> fault_res f
     | None \<Rightarrow> (case sc_chain st account of
         None \<Rightarrow> fail KSecretNotFound ''platform secret not found'' | Some v \<Rightarrow> Inr v))"

definition chain_store :: "string \<Rightarrow> string \<Rightarrow> secrets \<Rightarrow> secrets res" where
  "chain_store account v st = (case sc_store_fault st of Some f \<Rightarrow> fault_res f
     | None \<Rightarrow> Inr (st\<lparr>sc_chain := (sc_chain st)(account := Some v)\<rparr>))"

definition chain_delete :: "string \<Rightarrow> secrets \<Rightarrow> secrets res" where
  "chain_delete account st = (case sc_store_fault st of Some f \<Rightarrow> fault_res f
     | None \<Rightarrow> (case sc_chain st account of
         None \<Rightarrow> fail KSecretNotFound ''platform secret not found''
       | Some v \<Rightarrow> Inr (st\<lparr>sc_chain := (sc_chain st)(account := None)\<rparr>)))"

definition keychainSecretMissing :: "err \<Rightarrow> bool" where
  "keychainSecretMissing e \<longleftrightarrow> err_is e KNotExist \<or> err_is e KSecretNotFound"

definition keychainUnreachable :: "err \<Rightarrow> bool" where
  "keychainUnreachable e \<longleftrightarrow> err_is e KUnsupported \<or> err_is e KKeychainUnreachable"

definition IsKeychainUnavailable :: "err \<Rightarrow> bool" where
  "IsKeychainUnavailable e \<longleftrightarrow> keychainSecretMissing e \<or> keychainUnreachable e"

definition probeAccount :: string where "probeAccount = ''__devstrap_custody_probe__''"

definition useKeychain :: "secrets \<Rightarrow> bool" where
  "useKeychain st \<longleftrightarrow> sc_backend st \<and> sc_custody st \<noteq> CustodyFile"

definition requireKeychain :: "secrets \<Rightarrow> bool" where
  "requireKeychain st \<longleftrightarrow> sc_custody st = CustodyKeychain"

definition Probe :: "secrets \<Rightarrow> custody" where
  "Probe st =
     (if \<not> sc_backend st then CustodyFile
      else case chain_load st probeAccount of
        Inr v \<Rightarrow> CustodyKeychain
      | Inl e \<Rightarrow> if keychainUnreachable e then CustodyFile
                 else if keychainSecretMissing e then CustodyKeychain else CustodyKeychain)"

definition storeSecret :: "string \<Rightarrow> string \<Rightarrow> secrets \<Rightarrow> secrets res" where
  "storeSecret account secret st =
     (if \<not> sc_backend st then fail KNotExist ''file does not exist'' else chain_store account secret st)"

definition loadSecret :: "secrets \<Rightarrow> string \<Rightarrow> string res" where
  "loadSecret st account =
     (if \<not> sc_backend st then fail KNotExist ''file does not exist''
      else case chain_load st account of
        Inl e \<Rightarrow> if keychainSecretMissing e then fail KNotExist ''file does not exist''
                 else if keychainUnreachable e
                 then Inl (Err (KKeychainUnreachable # err_kinds e) (''keychain backend unreachable: '' @ err_msg e))
                 else Inl e
      | Inr raw \<Rightarrow> Inr (trim_space raw))"

subsection \<open>The key directory\<close>

definition read_file :: "secrets \<Rightarrow> string \<Rightarrow> string res" where
  "read_file st name = (case sc_files st name of
     Absent \<Rightarrow> fail KNotExist (''open '' @ name @ '': no such file or directory'')
   | Content c \<Rightarrow> Inr c
   | Unreadable m \<Rightarrow> fail KOther m)"

definition fileMissing :: "secrets \<Rightarrow> string \<Rightarrow> bool" where
  "fileMissing st name \<longleftrightarrow> sc_files st name = Absent"

definition write_file :: "string \<Rightarrow> string \<Rightarrow> secrets \<Rightarrow> secrets res" where
  "write_file name c st = (case sc_write_fault st of
     Some m \<Rightarrow> fail KOther m
   | None \<Rightarrow> Inr (st\<lparr>sc_files := (sc_files st)(name := Content c)\<rparr>))"

subsection \<open>Reading and storing under a custody decision\<close>

text \<open>\<^verbatim>\<open>readFile\<close> is what reading the secret's file gives in the same state.\<close>

definition resolveSecret :: "secrets \<Rightarrow> string \<Rightarrow> string \<Rightarrow> string res \<Rightarrow> string res" where
  "resolveSecret st account name readFile =
     (if useKeychain st then
        (case loadSecret st account of
           Inr raw \<Rightarrow> Inr raw
         | Inl e \<Rightarrow> if requireKeychain st then Inl e
                    else if fileMissing st name then Inl e
                    else readFile)
      else readFile)"

definition storeSecretCustody ::
  "string \<Rightarrow> string \<Rightarrow> string \<Rightarrow> (secrets \<Rightarrow> secrets res) \<Rightarrow> secrets \<Rightarrow> (string \<times> secrets) res" where
  "storeSecretCustody account secret label writeFile st =
     (let toFile = bindr (writeFile st) (\<lambda>st'. Inr (''file'', st')) in
      if useKeychain st then
        (case storeSecret account secret st of
           Inr st' \<Rightarrow> Inr (''keychain'', st')
         | Inl e \<Rightarrow>
             if requireKeychain st
             then Inl (Err (err_kinds e) (''store '' @ label @
                    '' in keychain (custody=keychain, refusing file fallback): '' @ err_msg e))
             else if keychainUnreachable e \<or> keychainSecretMissing e then toFile
             else Inl (Err (err_kinds e) (''store '' @ label @ '' in keychain: '' @ err_msg e)))
      else toFile)"

subsection \<open>Names\<close>

definition has_separator :: "string \<Rightarrow> bool" where
  "has_separator s \<longleftrightarrow> list_ex (\<lambda>c. nat_of c \<in> {47, 92}) s"

definition validateDeviceID :: "string \<Rightarrow> unit res" where
  "validateDeviceID d = (if d = [] \<or> has_separator d then fail KOther (''invalid device id '' @ d) else Inr ())"

definition validateWorkspaceID :: "string \<Rightarrow> unit res" where
  "validateWorkspaceID d = (if d = [] \<or> has_separator d then fail KOther (''invalid workspace id '' @ d) else Inr ())"

definition lower_hex :: "char \<Rightarrow> bool" where
  "lower_hex c \<longleftrightarrow> 48 \<le> nat_of c \<and> nat_of c \<le> 57 \<or> 97 \<le> nat_of c \<and> nat_of c \<le> 102"

definition validateKID :: "string \<Rightarrow> unit res" where
  "validateKID kid =
     (if kid = [] then Inr ()
      else if length kid \<noteq> 64 \<or> \<not> list_all lower_hex kid
      then fail KOther (''invalid workspace key id '' @ kid @ '': must be 64 lowercase hex characters'')
      else Inr ())"

definition ageAccount :: "string \<Rightarrow> string" where "ageAccount d = d @ ''.age''"
definition signingAccount :: "string \<Rightarrow> string" where "signingAccount d = d @ ''.signing''"
definition age_file :: "string \<Rightarrow> string" where "age_file d = d @ ''.agekey''"
definition signing_file :: "string \<Rightarrow> string" where "signing_file d = d @ ''.signing.key''"

definition wckAccount :: "string \<Rightarrow> int \<Rightarrow> string \<Rightarrow> string" where
  "wckAccount ws epoch kid = (if kid = [] then ''wck.'' @ ws @ ''.'' @ show_int epoch
     else ''wck.'' @ ws @ ''.'' @ show_int epoch @ ''.'' @ kid)"

definition wck_file :: "string \<Rightarrow> int \<Rightarrow> string \<Rightarrow> string" where
  "wck_file ws epoch kid = (if kid = [] then ''wck-'' @ ws @ ''-'' @ show_int epoch @ ''.key''
     else ''wck-'' @ ws @ ''-'' @ show_int epoch @ ''-'' @ kid @ ''.key'')"

definition hubS3Account :: "string \<Rightarrow> string" where "hubS3Account ws = ''hub-s3.'' @ ws"
definition hub_s3_file :: "string \<Rightarrow> string" where "hub_s3_file ws = ''hub-s3-'' @ ws @ ''.json''"

subsection \<open>The age identity\<close>

definition parseAgeIdentity :: "crypto \<Rightarrow> string \<Rightarrow> identity res" where
  "parseAgeIdentity x private = (case x_recipient x (trim_space private) of
     None \<Rightarrow> fail KOther ''parse device identity: malformed secret key''
   | Some r \<Rightarrow> Inr \<lparr>id_private = trim_space private, id_recipient = r\<rparr>)"

definition file_Read :: "crypto \<Rightarrow> secrets \<Rightarrow> string \<Rightarrow> identity res" where
  "file_Read x st d = bindr (validateDeviceID d) (\<lambda>_. bindr (read_file st (age_file d)) (parseAgeIdentity x))"

definition hybrid_Read :: "crypto \<Rightarrow> secrets \<Rightarrow> string \<Rightarrow> identity res" where
  "hybrid_Read x st d = bindr (validateDeviceID d) (\<lambda>_.
     bindr (resolveSecret st (ageAccount d) (age_file d) (bindr (file_Read x st d) (\<lambda>i. Inr (id_private i))))
       (parseAgeIdentity x))"

definition writeIdentity :: "string \<Rightarrow> identity \<Rightarrow> secrets \<Rightarrow> secrets res" where
  "writeIdentity d i st = bindr (validateDeviceID d) (\<lambda>_. write_file (age_file d) (id_private i @ [chr 10]) st)"

text \<open>\<^verbatim>\<open>NewIdentity\<close>: the text of the drawn key is the argument.\<close>

definition NewIdentity :: "crypto \<Rightarrow> string \<Rightarrow> identity" where
  "NewIdentity x drawn = \<lparr>id_private = drawn, id_recipient = or_else (x_recipient x drawn) []\<rparr>"

definition file_Ensure :: "crypto \<Rightarrow> string \<Rightarrow> string \<Rightarrow> secrets \<Rightarrow> ((identity \<times> bool) \<times> secrets) res" where
  "file_Ensure x drawn d st = bindr (validateDeviceID d) (\<lambda>_.
     case file_Read x st d of
       Inr i \<Rightarrow> Inr ((i, False), st)
     | Inl e \<Rightarrow> if \<not> err_is e KNotExist then Inl e
         else let i = NewIdentity x drawn in
           bindr (write_file (age_file d) (id_private i @ [chr 10]) st) (\<lambda>st'. Inr ((i, True), st')))"

definition mintRefusedUnreachable :: "string \<Rightarrow> string \<Rightarrow> err \<Rightarrow> err" where
  "mintRefusedUnreachable kind published e = Err (err_kinds e)
     (if published \<noteq> [] then ''device '' @ kind @ '' key exists ('' @ published @
        '') but the keychain is unreachable; refusing to mint a divergent key: '' @ err_msg e
      else ''keychain unreachable; refusing to mint a divergent device '' @ kind @ '' key: '' @ err_msg e)"

definition mintRefusedPublishedAbsent :: "string \<Rightarrow> string \<Rightarrow> err" where
  "mintRefusedPublishedAbsent kind published = Err [KOther] (''device '' @ kind @ '' key '' @ published @
     '' is already published but its private half is missing from custody; refusing to mint a divergent key'')"

definition mintGuard :: "secrets \<Rightarrow> string \<Rightarrow> string \<Rightarrow> err \<Rightarrow> err option" where
  "mintGuard st kind published e =
     (if err_is e KKeychainUnreachable then
        (if published \<noteq> [] \<or> requireKeychain st then Some (mintRefusedUnreachable kind published e) else None)
      else if err_is e KNotExist then
        (if published \<noteq> [] then Some (mintRefusedPublishedAbsent kind published) else None)
      else Some e)"

definition hybrid_Ensure ::
  "crypto \<Rightarrow> string \<Rightarrow> string \<Rightarrow> string \<Rightarrow> secrets \<Rightarrow> ((identity \<times> bool) \<times> secrets) res" where
  "hybrid_Ensure x drawn d published st =
     (case hybrid_Read x st d of
        Inr i \<Rightarrow> Inr ((i, False), st)
      | Inl e \<Rightarrow> (case mintGuard st ''age'' published e of
           Some g \<Rightarrow> Inl g
         | None \<Rightarrow> let i = NewIdentity x drawn in
             bindr (storeSecretCustody (ageAccount d) (id_private i) ''device age key'' (writeIdentity d i) st)
               (\<lambda>(_, st'). Inr ((i, True), st'))))"

subsection \<open>The signing key\<close>

text \<open>An Ed25519 private key ends in its public key.\<close>

definition parseSigningIdentity :: "world \<Rightarrow> string \<Rightarrow> signing_identity res" where
  "parseSigningIdentity w private =
     bindr (parsePrivateSigningKey w (trim_space private)) (\<lambda>key.
       Inr \<lparr>sg_private = trim_space private, sg_public = ed_prefix @ b64_enc (drop 32 key)\<rparr>)"

definition file_ReadSigning :: "world \<Rightarrow> secrets \<Rightarrow> string \<Rightarrow> signing_identity res" where
  "file_ReadSigning w st d = bindr (validateDeviceID d) (\<lambda>_. bindr (read_file st (signing_file d)) (parseSigningIdentity w))"

definition hybrid_ReadSigning :: "world \<Rightarrow> secrets \<Rightarrow> string \<Rightarrow> signing_identity res" where
  "hybrid_ReadSigning w st d = bindr (validateDeviceID d) (\<lambda>_.
     bindr (resolveSecret st (signingAccount d) (signing_file d) (bindr (file_ReadSigning w st d) (\<lambda>i. Inr (sg_private i))))
       (parseSigningIdentity w))"

definition writeSigningIdentity :: "string \<Rightarrow> signing_identity \<Rightarrow> secrets \<Rightarrow> secrets res" where
  "writeSigningIdentity d i st = bindr (validateDeviceID d) (\<lambda>_. write_file (signing_file d) (sg_private i @ [chr 10]) st)"

text \<open>\<^verbatim>\<open>NewSigningIdentity\<close>: the 64 bytes of the drawn key are the argument.\<close>

definition NewSigningIdentity :: "string \<Rightarrow> signing_identity" where
  "NewSigningIdentity key = \<lparr>sg_private = ed_prefix @ b64_enc key, sg_public = ed_prefix @ b64_enc (drop 32 key)\<rparr>"

definition file_EnsureSigning ::
  "world \<Rightarrow> string \<Rightarrow> string \<Rightarrow> secrets \<Rightarrow> ((signing_identity \<times> bool) \<times> secrets) res" where
  "file_EnsureSigning w key d st = bindr (validateDeviceID d) (\<lambda>_.
     case file_ReadSigning w st d of
       Inr i \<Rightarrow> Inr ((i, False), st)
     | Inl e \<Rightarrow> if \<not> err_is e KNotExist then Inl e
         else let i = NewSigningIdentity key in
           bindr (write_file (signing_file d) (sg_private i @ [chr 10]) st) (\<lambda>st'. Inr ((i, True), st')))"

definition hybrid_EnsureSigning ::
  "world \<Rightarrow> string \<Rightarrow> string \<Rightarrow> string \<Rightarrow> secrets \<Rightarrow> ((signing_identity \<times> bool) \<times> secrets) res" where
  "hybrid_EnsureSigning w key d published st =
     (case hybrid_ReadSigning w st d of
        Inr i \<Rightarrow> Inr ((i, False), st)
      | Inl e \<Rightarrow> (case mintGuard st ''signing'' published e of
           Some g \<Rightarrow> Inl g
         | None \<Rightarrow> let i = NewSigningIdentity key in
             bindr (storeSecretCustody (signingAccount d) (sg_private i) ''device signing key'' (writeSigningIdentity d i) st)
               (\<lambda>(_, st'). Inr ((i, True), st'))))"

subsection \<open>Workspace content keys\<close>

definition WriteWCK :: "string \<Rightarrow> int \<Rightarrow> string \<Rightarrow> string \<Rightarrow> secrets \<Rightarrow> secrets res" where
  "WriteWCK ws epoch kid wck st = bindr (validateWorkspaceID ws) (\<lambda>_. bindr (validateKID kid) (\<lambda>_.
     write_file (wck_file ws epoch kid) (b64_enc wck @ [chr 10]) st))"

definition decode_b64 :: "world \<Rightarrow> string \<Rightarrow> string res" where
  "decode_b64 w s = (case b64_dec s of None \<Rightarrow> fail KOther (w_decode_err w s) | Some v \<Rightarrow> Inr v)"

definition ReadWCK :: "world \<Rightarrow> secrets \<Rightarrow> string \<Rightarrow> int \<Rightarrow> string \<Rightarrow> string res" where
  "ReadWCK w st ws epoch kid = bindr (validateWorkspaceID ws) (\<lambda>_. bindr (validateKID kid) (\<lambda>_.
     bindr (read_file st (wck_file ws epoch kid)) (\<lambda>raw. decode_b64 w (trim_space raw))))"

definition StoreWCK :: "string \<Rightarrow> int \<Rightarrow> string \<Rightarrow> string \<Rightarrow> secrets \<Rightarrow> secrets res" where
  "StoreWCK ws epoch kid wck st = bindr (validateWorkspaceID ws) (\<lambda>_. bindr (validateKID kid) (\<lambda>_.
     bindr (storeSecretCustody (wckAccount ws epoch kid) (b64_enc wck) ''workspace key'' (WriteWCK ws epoch kid wck) st)
       (\<lambda>(_, st'). Inr st')))"

definition LoadWCK :: "world \<Rightarrow> secrets \<Rightarrow> string \<Rightarrow> int \<Rightarrow> string \<Rightarrow> string res" where
  "LoadWCK w st ws epoch kid = bindr (validateWorkspaceID ws) (\<lambda>_. bindr (validateKID kid) (\<lambda>_.
     bindr (resolveSecret st (wckAccount ws epoch kid) (wck_file ws epoch kid)
              (bindr (ReadWCK w st ws epoch kid) (\<lambda>b. Inr (b64_enc b)))) (decode_b64 w)))"

subsection \<open>Hub credentials\<close>

record hub_s3 =
  h3_access :: string
  h3_secret :: string

definition marshal_s3 :: "hub_s3 \<Rightarrow> string" where
  "marshal_s3 c = marshal_obj [jstr ''access_key_id'' (h3_access c), jstr ''secret_access_key'' (h3_secret c)]"

definition decode_s3 :: "world \<Rightarrow> string \<Rightarrow> hub_s3 res" where
  "decode_s3 w raw = (case unmarshal [str_field ''access_key_id'' h3_access_update,
        str_field ''secret_access_key'' h3_secret_update] \<lparr>h3_access = [], h3_secret = []\<rparr> raw of
     None \<Rightarrow> fail KOther (''parse hub s3 credentials: '' @ w_decode_err w raw) | Some c \<Rightarrow> Inr c)"

definition WriteHubS3Credentials :: "string \<Rightarrow> hub_s3 \<Rightarrow> secrets \<Rightarrow> secrets res" where
  "WriteHubS3Credentials ws c st = bindr (validateWorkspaceID ws) (\<lambda>_. write_file (hub_s3_file ws) (marshal_s3 c) st)"

definition ReadHubS3Credentials :: "world \<Rightarrow> secrets \<Rightarrow> string \<Rightarrow> hub_s3 res" where
  "ReadHubS3Credentials w st ws = bindr (validateWorkspaceID ws) (\<lambda>_. bindr (read_file st (hub_s3_file ws)) (decode_s3 w))"

definition file_DeleteHubS3 :: "string \<Rightarrow> secrets \<Rightarrow> secrets res" where
  "file_DeleteHubS3 ws st = bindr (validateWorkspaceID ws) (\<lambda>_.
     if sc_files st (hub_s3_file ws) = Absent then Inr st
     else case sc_write_fault st of
       Some m \<Rightarrow> fail KOther (''delete hub s3 credentials: '' @ m)
     | None \<Rightarrow> Inr (st\<lparr>sc_files := (sc_files st)(hub_s3_file ws := Absent)\<rparr>))"

definition StoreHubS3Credentials :: "string \<Rightarrow> hub_s3 \<Rightarrow> secrets \<Rightarrow> (string \<times> secrets) res" where
  "StoreHubS3Credentials ws c st = bindr (validateWorkspaceID ws) (\<lambda>_.
     storeSecretCustody (hubS3Account ws) (marshal_s3 c) ''hub s3 credentials'' (WriteHubS3Credentials ws c) st)"

definition LoadHubS3Credentials :: "world \<Rightarrow> secrets \<Rightarrow> string \<Rightarrow> hub_s3 res" where
  "LoadHubS3Credentials w st ws = bindr (validateWorkspaceID ws) (\<lambda>_.
     bindr (resolveSecret st (hubS3Account ws) (hub_s3_file ws)
              (bindr (ReadHubS3Credentials w st ws) (\<lambda>c. Inr (marshal_s3 c)))) (decode_s3 w))"

definition DeleteHubS3Credentials :: "string \<Rightarrow> secrets \<Rightarrow> secrets res" where
  "DeleteHubS3Credentials ws st = bindr (validateWorkspaceID ws) (\<lambda>_.
     if useKeychain st then
       (case chain_delete (hubS3Account ws) st of
          Inr st' \<Rightarrow> file_DeleteHubS3 ws st'
        | Inl e \<Rightarrow> if \<not> err_is e KNotExist \<and> \<not> IsKeychainUnavailable e
                   then Inl (Err (err_kinds e) (''delete hub s3 credentials from keychain: '' @ err_msg e))
                   else file_DeleteHubS3 ws st)
     else file_DeleteHubS3 ws st)"

subsection \<open>Recording the decision\<close>

text \<open>The decision of \<^verbatim>\<open>init\<close> (\<^verbatim>\<open>cli/init.go\<close>) in the local metadata; \<open>env\<close> says whether
  \<^verbatim>\<open>DEVSTRAP_NO_KEYCHAIN\<close> is 1.\<close>

definition keyCustodyMetaKey :: string where "keyCustodyMetaKey = ''key_custody''"

definition KeyCustody :: "store \<Rightarrow> custody" where
  "KeyCustody s = or_else (GetLocalMeta keyCustodyMetaKey s) CustodyUnset"

definition RecordKeyCustody :: "custody \<Rightarrow> store \<Rightarrow> store res" where
  "RecordKeyCustody c s =
     (if c \<noteq> CustodyKeychain \<and> c \<noteq> CustodyFile then fail KOther (''invalid key custody '' @ c)
      else Inr (s\<lparr>st_meta := tins fst (keyCustodyMetaKey, c) (st_meta s)\<rparr>))"

definition EffectiveKeyCustody :: "bool \<Rightarrow> custody \<Rightarrow> custody" where
  "EffectiveKeyCustody env recorded = (if env then CustodyFile else recorded)"

definition recordKeyCustodyAtInit :: "bool \<Rightarrow> secrets \<Rightarrow> device \<Rightarrow> store \<Rightarrow> store res" where
  "recordKeyCustodyAtInit env base d s =
     (if KeyCustody s \<noteq> CustodyUnset then Inr s
      else if env then RecordKeyCustody CustodyFile s
      else if Probe base = CustodyKeychain then RecordKeyCustody CustodyKeychain s
      else if Probe base = CustodyFile then
        (if dv_pub d = [] \<and> dv_sig_pub d = [] then RecordKeyCustody CustodyFile s else Inr s)
      else Inr s)"

subsection \<open>Escrow for a full backup\<close>

text \<open>The destination directory is another map of files; \<^verbatim>\<open>writeOnce\<close> leaves a file that is
  already there. The writers are those of \<^verbatim>\<open>FileStore\<close>, on the destination.\<close>

type_synonym escrow = "string list \<times> secrets"

definition writeOnce :: "string \<Rightarrow> (secrets \<Rightarrow> secrets res) \<Rightarrow> escrow \<Rightarrow> escrow res" where
  "writeOnce name writer es = (let (written, dst) = es in
     if sc_files dst name \<noteq> Absent then Inr (written, dst)
     else bindr (writer dst) (\<lambda>dst'. Inr (written @ [name], dst')))"

definition escrow_epoch :: "world \<Rightarrow> secrets \<Rightarrow> string \<Rightarrow> escrow \<Rightarrow> int \<times> string \<Rightarrow> escrow res" where
  "escrow_epoch w st ws es k = (let (epoch, kid) = k in
     bindr (relabel (''escrow workspace key epoch '' @ show_int epoch @ '': '') (LoadWCK w st ws epoch kid)) (\<lambda>wck.
       writeOnce (wck_file ws epoch kid) (WriteWCK ws epoch kid wck) es))"

definition escrow_hub :: "world \<Rightarrow> secrets \<Rightarrow> string \<Rightarrow> escrow \<Rightarrow> escrow res" where
  "escrow_hub w st ws es =
     (case LoadHubS3Credentials w st ws of
        Inr c \<Rightarrow> writeOnce (hub_s3_file ws) (WriteHubS3Credentials ws c) es
      | Inl e \<Rightarrow> if err_is e KNotExist then Inr es
                 else Inl (Err (err_kinds e) (''escrow hub s3 credentials: '' @ err_msg e)))"

definition ExportForBackup ::
  "crypto \<Rightarrow> world \<Rightarrow> secrets \<Rightarrow> string \<Rightarrow> string \<Rightarrow> (int \<times> string) list \<Rightarrow> secrets \<Rightarrow> escrow res" where
  "ExportForBackup x w st d ws epochs dst =
     bindr (validateDeviceID d) (\<lambda>_. bindr (validateWorkspaceID ws) (\<lambda>_.
     bindr (relabel ''escrow device age identity: '' (hybrid_Read x st d)) (\<lambda>i.
     bindr (writeOnce (age_file d) (writeIdentity d i) ([], dst)) (\<lambda>es1.
     bindr (relabel ''escrow device signing identity: '' (hybrid_ReadSigning w st d)) (\<lambda>g.
     bindr (writeOnce (signing_file d) (writeSigningIdentity d g) es1) (\<lambda>es2.
     bindr (foldr_res (escrow_epoch w st ws) es2 epochs) (\<lambda>es3.
     bindr (escrow_hub w st ws es3) (\<lambda>(written, dst').
       Inr (sort written, dst')))))))))"


subsection \<open>What is stored is read back\<close>

lemma kind_neq [simp]:
  "\<not> keychainSecretMissing (Err [KOther] m)" "\<not> keychainUnreachable (Err [KOther] m)"
  by (simp_all add: keychainSecretMissing_def keychainUnreachable_def)

lemma trim_newline:
  assumes "\<And>c. c \<in> set s \<Longrightarrow> 33 \<le> nat_of c \<and> nat_of c \<le> 126"
  shows "trim_space (s @ [chr 10]) = s"
proof -
  have g: "space_len t = 0" if "set t \<subseteq> set s" for t
    using that by (cases t) (simp add: space_len_def, simp add: space_len_graph assms)
  have e0: "space_len_end (rev s) = 0"
    using g [of "rev (take 1 (rev s))"] g [of "rev (take 2 (rev s))"] g [of "rev (take 3 (rev s))"]
      set_take_subset [of _ "rev s"] by (simp add: space_len_end_def)
  have nl: "space_len_end (chr 10 # r) = 1" for r by (simp add: space_len_end_def space_len_def)
  show ?thesis
  proof (cases s)
    case Nil
    then show ?thesis by (simp add: trim_space_def space_len_def Let_def)
  next
    case (Cons c r)
    then have "space_len (s @ [chr 10]) = 0" by (simp add: space_len_graph assms)
    moreover have "trim_by space_len_end (Suc (length s)) (chr 10 # rev s) = rev s"
      using nl [of "rev s"] e0 by (simp add: trim_by_0)
    ultimately show ?thesis by (simp add: trim_space_def trim_by_0)
  qed
qed

lemma trim_b64 [simp]: "trim_space (b64_enc s) = b64_enc s" "trim_space (b64_enc s @ [chr 10]) = b64_enc s"
  by (rule trim_space_graph, erule b64_enc_graph) (rule trim_newline, erule b64_enc_graph)

lemma decode_b64_enc [simp]: "decode_b64 w (b64_enc s) = Inr s"
  by (simp add: decode_b64_def b64_dec_enc)

text \<open>A write through \<^verbatim>\<open>storeSecretCustody\<close> and the read of the same secret afterwards, when
  the keychain answers reads and writes alike.\<close>

definition consistent_chain :: "secrets \<Rightarrow> bool" where
  "consistent_chain st \<longleftrightarrow> sc_load_fault st = sc_store_fault st"

lemma stored_resolves:
  assumes "storeSecretCustody account v label writeFile st = Inr (place, st')" and "consistent_chain st"
    and "\<And>st'. writeFile st = Inr st' \<Longrightarrow> st' = st\<lparr>sc_files := (sc_files st)(name := Content c)\<rparr>"
    and "readFile = Inr (trim_space v) \<or> sc_files st' name \<noteq> Content c"
  shows "resolveSecret st' account name readFile = Inr (trim_space v)"
proof -
  have in_file: "resolveSecret st' account name readFile = Inr (trim_space v)"
    if w: "writeFile st = Inr st'" and e: "useKeychain st \<longrightarrow> \<not> requireKeychain st \<and> (\<exists>er. storeSecret account v st = Inl er)"
  proof -
    note S = assms(3) [OF w]
    have r: "readFile = Inr (trim_space v)" using assms(4) by (auto simp: S)
    have l: "\<exists>er. loadSecret st' account = Inl er" if "useKeychain st"
      using that e assms(2)
      by (auto simp: S useKeychain_def storeSecret_def chain_store_def loadSecret_def chain_load_def consistent_chain_def
          fault_res_def fail_def keychainSecretMissing_def keychainUnreachable_def split: option.splits fault.splits)
    show ?thesis using e l r by (auto simp: resolveSecret_def useKeychain_def requireKeychain_def fileMissing_def S)
  qed
  show ?thesis
  proof (cases "useKeychain st")
    case False
    then have "writeFile st = Inr st'" using assms(1) by (auto simp: storeSecretCustody_def Let_def)
    then show ?thesis using False in_file by blast
  next
    case True
    show ?thesis
    proof (cases "storeSecret account v st")
      case (Inr s2)
      then have "st' = s2" using assms(1) True by (simp add: storeSecretCustody_def)
      then show ?thesis using Inr True assms(2)
        by (auto simp: resolveSecret_def storeSecret_def chain_store_def useKeychain_def loadSecret_def chain_load_def
            consistent_chain_def fault_res_def split: option.splits fault.splits)
    next
      case (Inl er)
      then have "writeFile st = Inr st'" "\<not> requireKeychain st"
        using assms(1) True by (auto simp: storeSecretCustody_def Let_def split: if_splits)
      then show ?thesis using Inl in_file by blast
    qed
  qed
qed

lemma write_file_Inr: "write_file name c st = Inr st' \<longleftrightarrow> sc_write_fault st = None \<and> st' = st\<lparr>sc_files := (sc_files st)(name := Content c)\<rparr>"
  by (auto simp: write_file_def split: option.splits)

lemma StoreWCK_LoadWCK:
  assumes "StoreWCK ws epoch kid wck st = Inr st'" and "consistent_chain st"
  shows "LoadWCK w st' ws epoch kid = Inr wck"
proof -
  from assms(1) obtain place where v: "validateWorkspaceID ws = Inr ()" "validateKID kid = Inr ()"
    and S: "storeSecretCustody (wckAccount ws epoch kid) (b64_enc wck) ''workspace key'' (WriteWCK ws epoch kid wck) st = Inr (place, st')"
    by (auto simp: StoreWCK_def)
  have "resolveSecret st' (wckAccount ws epoch kid) (wck_file ws epoch kid)
      (bindr (ReadWCK w st' ws epoch kid) (\<lambda>b. Inr (b64_enc b))) = Inr (trim_space (b64_enc wck))"
    by (rule stored_resolves [OF S assms(2), of _ "b64_enc wck @ [chr 10]"])
      (auto simp: WriteWCK_def v write_file_Inr ReadWCK_def read_file_def)
  then show ?thesis using v by (simp add: LoadWCK_def)
qed

text \<open>A workspace key that was stored is read back, byte for byte, under every custody
  decision, wherever it landed: the keychain, the key directory, or the directory because an
  undecided store could not reach the keychain.\<close>

theorem stored_key_is_read_back:
  assumes "StoreWCK ws epoch kid wck st = Inr st'" and "consistent_chain st"
  shows "LoadWCK w st' ws epoch kid = Inr wck"
  using assms by (rule StoreWCK_LoadWCK)

lemma hybrid_Ensure_minted:
  assumes "hybrid_Ensure x drawn d published st = Inr ((i, True), st')"
  obtains e place where "validateDeviceID d = Inr ()" "hybrid_Read x st d = Inl e" "mintGuard st ''age'' published e = None"
    "i = NewIdentity x drawn"
    "storeSecretCustody (ageAccount d) drawn ''device age key'' (writeIdentity d i) st = Inr (place, st')"
proof -
  obtain e where e: "hybrid_Read x st d = Inl e"
    using assms by (auto simp: hybrid_Ensure_def split: sum.splits)
  then have g: "mintGuard st ''age'' published e = None"
    using assms by (auto simp: hybrid_Ensure_def split: option.splits)
  have "validateDeviceID d = Inr ()"
    using e g by (auto simp: hybrid_Read_def validateDeviceID_def fail_def mintGuard_def split: if_splits)
  moreover from assms e g obtain place where "i = NewIdentity x drawn"
    "storeSecretCustody (ageAccount d) drawn ''device age key'' (writeIdentity d i) st = Inr (place, st')"
    by (auto simp: hybrid_Ensure_def Let_def NewIdentity_def)
  ultimately show ?thesis using that e g by blast
qed

lemma minted_reachable:
  assumes "hybrid_Read x st d = Inl e" "mintGuard st k published e = None" "requireKeychain st" "sc_backend st"
  shows "sc_load_fault st = None"
proof (rule ccontr)
  assume "sc_load_fault st \<noteq> None"
  then obtain f where "sc_load_fault st = Some f" by auto
  then have "\<not> err_is e KNotExist \<or> err_is e KKeychainUnreachable"
    using assms(1,3,4)
    by (cases f) (auto simp: hybrid_Read_def validateDeviceID_def resolveSecret_def useKeychain_def requireKeychain_def
        loadSecret_def chain_load_def fault_res_def fail_def keychainSecretMissing_def keychainUnreachable_def split: if_splits)
  then show False using assms(2,3) by (auto simp: mintGuard_def split: if_splits)
qed

lemma trim_key_text:
  "trim_space (key_text b) = key_text b" "trim_space (key_text b @ [chr 10]) = key_text b"
proof -
  have g: "33 \<le> nat_of c \<and> nat_of c \<le> 126" if "c \<in> set (key_text b)" for c
    using that by (auto simp: key_text_def ed_prefix_def dest: b64_enc_graph)
  show "trim_space (key_text b) = key_text b" by (rule trim_space_graph [OF g])
  show "trim_space (key_text b @ [chr 10]) = key_text b" by (rule trim_newline [OF g])
qed

lemma new_signing_parses:
  assumes "length key = 64"
  shows "parseSigningIdentity w (key_text key) = Inr (NewSigningIdentity key)"
    "parseSigningIdentity w (key_text key @ [chr 10]) = Inr (NewSigningIdentity key)"
proof -
  have p: "parsePrivateSigningKey w (key_text key) = Inr key"
    using assms by (simp add: parsePrivateSigningKey_def key_text_def parse_prefixed_enc)
  show "parseSigningIdentity w (key_text key) = Inr (NewSigningIdentity key)"
    "parseSigningIdentity w (key_text key @ [chr 10]) = Inr (NewSigningIdentity key)"
    by (simp_all add: parseSigningIdentity_def trim_key_text p NewSigningIdentity_def) (simp_all add: key_text_def)
qed

lemma hybrid_EnsureSigning_minted:
  assumes "hybrid_EnsureSigning w key d published st = Inr ((g, True), st')"
  obtains e place where "validateDeviceID d = Inr ()" "hybrid_ReadSigning w st d = Inl e"
    "mintGuard st ''signing'' published e = None" "g = NewSigningIdentity key"
    "storeSecretCustody (signingAccount d) (key_text key) ''device signing key'' (writeSigningIdentity d g) st = Inr (place, st')"
proof -
  obtain e where e: "hybrid_ReadSigning w st d = Inl e"
    using assms by (auto simp: hybrid_EnsureSigning_def split: sum.splits)
  then have m: "mintGuard st ''signing'' published e = None"
    using assms by (auto simp: hybrid_EnsureSigning_def split: option.splits)
  have "validateDeviceID d = Inr ()"
    using e m by (auto simp: hybrid_ReadSigning_def validateDeviceID_def fail_def mintGuard_def split: if_splits)
  moreover from assms e m obtain place where "g = NewSigningIdentity key"
    "storeSecretCustody (signingAccount d) (key_text key) ''device signing key'' (writeSigningIdentity d g) st = Inr (place, st')"
    by (auto simp: hybrid_EnsureSigning_def Let_def NewSigningIdentity_def key_text_def)
  ultimately show ?thesis using that e m by blast
qed

lemma signing_minted_reachable:
  assumes "hybrid_ReadSigning w st d = Inl e" "mintGuard st k published e = None" "requireKeychain st" "sc_backend st"
  shows "sc_load_fault st = None"
proof (rule ccontr)
  assume "sc_load_fault st \<noteq> None"
  then obtain f where "sc_load_fault st = Some f" by auto
  then have "\<not> err_is e KNotExist \<or> err_is e KKeychainUnreachable"
    using assms(1,3,4)
    by (cases f) (auto simp: hybrid_ReadSigning_def validateDeviceID_def resolveSecret_def useKeychain_def requireKeychain_def
        loadSecret_def chain_load_def fault_res_def fail_def keychainSecretMissing_def keychainUnreachable_def split: if_splits)
  then show False using assms(2,3) by (auto simp: mintGuard_def split: if_splits)
qed

lemma keychain_store_keeps_files:
  assumes "storeSecretCustody account v label writeFile st = Inr (place, st')" "requireKeychain st" "sc_backend st"
  shows "sc_files st' = sc_files st"
  using assms by (auto simp: storeSecretCustody_def Let_def useKeychain_def requireKeychain_def storeSecret_def chain_store_def
      fault_res_def split: sum.splits option.splits fault.splits)

lemma file_store_keeps_chain:
  assumes "storeSecretCustody account v label writeFile st = Inr (place, st')" "sc_custody st = CustodyFile"
    and "\<And>st'. writeFile st = Inr st' \<Longrightarrow> sc_chain st' = sc_chain st"
  shows "sc_chain st' = sc_chain st"
  using assms by (auto simp: storeSecretCustody_def Let_def useKeychain_def)

lemma identity_minted_once:
  assumes "hybrid_Ensure x drawn d published st = Inr ((i, minted), st')"
    and "hybrid_EnsureSigning w key d' published' st2 = Inr ((g, minted'), st2')"
  shows "published \<noteq> [] \<Longrightarrow> \<not> minted \<and> st' = st \<and> hybrid_Read x st d = Inr i"
    and "published' \<noteq> [] \<Longrightarrow> \<not> minted' \<and> st2' = st2 \<and> hybrid_ReadSigning w st2 d' = Inr g"
    and "minted \<Longrightarrow> requireKeychain st \<Longrightarrow> sc_backend st \<Longrightarrow> sc_load_fault st = None \<and> sc_files st' = sc_files st"
    and "minted \<Longrightarrow> consistent_chain st \<Longrightarrow> x_recipient x drawn = Some r \<Longrightarrow>
       (\<And>c. c \<in> set drawn \<Longrightarrow> 33 \<le> nat_of c \<and> nat_of c \<le> 126) \<Longrightarrow>
       hybrid_Read x st' d = Inr i \<and> hybrid_Ensure x drawn2 d published2 st' = Inr ((i, False), st')"
proof -
  have guard: "mintGuard st k p e = None \<Longrightarrow> p = []" for st k p e
    by (auto simp: mintGuard_def split: if_splits)
  show "published \<noteq> [] \<Longrightarrow> \<not> minted \<and> st' = st \<and> hybrid_Read x st d = Inr i"
    using assms(1) guard by (auto simp: hybrid_Ensure_def Let_def split: sum.splits option.splits)
  show "published' \<noteq> [] \<Longrightarrow> \<not> minted' \<and> st2' = st2 \<and> hybrid_ReadSigning w st2 d' = Inr g"
    using assms(2) guard by (auto simp: hybrid_EnsureSigning_def Let_def split: sum.splits option.splits)
  show "sc_load_fault st = None \<and> sc_files st' = sc_files st" if m: "minted" and k: "requireKeychain st" "sc_backend st"
  proof -
    from assms(1) m have "hybrid_Ensure x drawn d published st = Inr ((i, True), st')" by simp
    then obtain e place where M: "validateDeviceID d = Inr ()" "hybrid_Read x st d = Inl e"
      "mintGuard st ''age'' published e = None" "i = NewIdentity x drawn"
      "storeSecretCustody (ageAccount d) drawn ''device age key'' (writeIdentity d i) st = Inr (place, st')"
      by (rule hybrid_Ensure_minted)
    show ?thesis using minted_reachable [OF M(2,3) k] keychain_store_keeps_files [OF M(5) k] by blast
  qed
  show "hybrid_Read x st' d = Inr i \<and> hybrid_Ensure x drawn2 d published2 st' = Inr ((i, False), st')"
    if m: "minted" and c: "consistent_chain st" and r: "x_recipient x drawn = Some r"
      and gr: "\<And>c. c \<in> set drawn \<Longrightarrow> 33 \<le> nat_of c \<and> nat_of c \<le> 126"
  proof -
    from assms(1) m have "hybrid_Ensure x drawn d published st = Inr ((i, True), st')" by simp
    then obtain e place where M: "validateDeviceID d = Inr ()" "hybrid_Read x st d = Inl e"
      "mintGuard st ''age'' published e = None" "i = NewIdentity x drawn"
      "storeSecretCustody (ageAccount d) drawn ''device age key'' (writeIdentity d i) st = Inr (place, st')"
      by (rule hybrid_Ensure_minted)
    have tr: "trim_space drawn = drawn" "trim_space (drawn @ [chr 10]) = drawn"
      using trim_space_graph [OF gr] trim_newline [OF gr] by simp_all
    have i: "i = \<lparr>id_private = drawn, id_recipient = r\<rparr>" "parseAgeIdentity x drawn = Inr i"
      "parseAgeIdentity x (drawn @ [chr 10]) = Inr i"
      using r M(4) by (simp_all add: NewIdentity_def or_else_def parseAgeIdentity_def tr)
    have "resolveSecret st' (ageAccount d) (age_file d) (bindr (file_Read x st' d) (\<lambda>i. Inr (id_private i)))
        = Inr (trim_space drawn)"
      by (rule stored_resolves [OF M(5) c, of _ "drawn @ [chr 10]"])
        (auto simp: M(1) writeIdentity_def write_file_Inr file_Read_def read_file_def i tr)
    then have "hybrid_Read x st' d = Inr i" using M(1) i by (simp add: hybrid_Read_def tr)
    then show ?thesis by (simp add: hybrid_Ensure_def)
  qed
qed

lemma signing_minted_once:
  assumes "hybrid_EnsureSigning w key d published st = Inr ((g, True), st')"
  shows "requireKeychain st \<Longrightarrow> sc_backend st \<Longrightarrow> sc_load_fault st = None \<and> sc_files st' = sc_files st"
    and "consistent_chain st \<Longrightarrow> length key = 64 \<Longrightarrow> hybrid_ReadSigning w st' d = Inr g \<and>
       hybrid_EnsureSigning w key2 d published2 st' = Inr ((g, False), st')"
proof -
  from assms obtain e place where M: "validateDeviceID d = Inr ()" "hybrid_ReadSigning w st d = Inl e"
    "mintGuard st ''signing'' published e = None" "g = NewSigningIdentity key"
    "storeSecretCustody (signingAccount d) (key_text key) ''device signing key'' (writeSigningIdentity d g) st = Inr (place, st')"
    by (rule hybrid_EnsureSigning_minted)
  show "sc_load_fault st = None \<and> sc_files st' = sc_files st" if "requireKeychain st" "sc_backend st"
    using signing_minted_reachable [OF M(2,3) that] keychain_store_keeps_files [OF M(5) that] by blast
  assume c: "consistent_chain st" and len: "length key = 64"
  have gp: "sg_private g = key_text key" by (simp add: M(4) NewSigningIdentity_def key_text_def)
  have "resolveSecret st' (signingAccount d) (signing_file d) (bindr (file_ReadSigning w st' d) (\<lambda>i. Inr (sg_private i)))
      = Inr (trim_space (key_text key))"
    by (rule stored_resolves [OF M(5) c, of _ "key_text key @ [chr 10]"])
      (auto simp: M(1) writeSigningIdentity_def write_file_Inr file_ReadSigning_def read_file_def gp trim_key_text
        new_signing_parses [OF len] M(4) [symmetric])
  then have "hybrid_ReadSigning w st' d = Inr g"
    using M(1) by (simp add: hybrid_ReadSigning_def trim_key_text new_signing_parses [OF len] M(4))
  then show "hybrid_ReadSigning w st' d = Inr g \<and>
       hybrid_EnsureSigning w key2 d published2 st' = Inr ((g, False), st')"
    by (simp add: hybrid_EnsureSigning_def)
qed

text \<open>C21: no device gets a second identity, neither an age nor a signing one: when its public half
  is published already, \<^verbatim>\<open>Ensure\<close> and \<^verbatim>\<open>EnsureSigning\<close> return the key in
  custody or fail, whatever the keychain and the files answer; with keychain custody over a working
  backend either mints only while the keychain answers, and writes no file; and what either mints is
  what the next read returns and what every later \<^verbatim>\<open>Ensure\<close> finds instead of minting, as
  long as the keychain answers writes as it answers reads (the drawn age key is printable text that
  the library accepts, the drawn Ed25519 key has its 64 bytes).\<close>

theorem no_divergent_identity:
  assumes "hybrid_Ensure x drawn d published st = Inr ((i, minted), st')"
    and "hybrid_EnsureSigning w key d' published' st2 = Inr ((g, minted'), st2')"
  shows "(published \<noteq> [] \<longrightarrow> \<not> minted \<and> st' = st \<and> hybrid_Read x st d = Inr i) \<and>
    (published' \<noteq> [] \<longrightarrow> \<not> minted' \<and> st2' = st2 \<and> hybrid_ReadSigning w st2 d' = Inr g) \<and>
    (minted \<longrightarrow> requireKeychain st \<longrightarrow> sc_backend st \<longrightarrow> sc_load_fault st = None \<and> sc_files st' = sc_files st) \<and>
    (minted' \<longrightarrow> requireKeychain st2 \<longrightarrow> sc_backend st2 \<longrightarrow> sc_load_fault st2 = None \<and> sc_files st2' = sc_files st2) \<and>
    (minted \<longrightarrow> consistent_chain st \<longrightarrow> x_recipient x drawn \<noteq> None \<longrightarrow>
       (\<forall>c \<in> set drawn. 33 \<le> nat_of c \<and> nat_of c \<le> 126) \<longrightarrow>
       (\<forall>drawn2 published2. hybrid_Read x st' d = Inr i \<and> hybrid_Ensure x drawn2 d published2 st' = Inr ((i, False), st'))) \<and>
    (minted' \<longrightarrow> consistent_chain st2 \<longrightarrow> length key = 64 \<longrightarrow>
       (\<forall>key2 published2. hybrid_ReadSigning w st2' d' = Inr g \<and>
          hybrid_EnsureSigning w key2 d' published2 st2' = Inr ((g, False), st2')))"
proof -
  have sg: "hybrid_EnsureSigning w key d' published' st2 = Inr ((g, True), st2')" if "minted'" using assms(2) that by simp
  show ?thesis
    using identity_minted_once [OF assms] signing_minted_once [OF sg] by blast
qed

subsection \<open>The recorded decision holds over every history\<close>

inductive custody_step :: "crypto \<Rightarrow> world \<Rightarrow> secrets \<Rightarrow> secrets \<Rightarrow> bool" for x w where
  wck: "StoreWCK ws epoch kid key st = Inr st' \<Longrightarrow> custody_step x w st st'"
| age: "hybrid_Ensure x drawn d published st = Inr (r, st') \<Longrightarrow> custody_step x w st st'"
| signing: "hybrid_EnsureSigning w key d published st = Inr (q, st') \<Longrightarrow> custody_step x w st st'"
| s3: "StoreHubS3Credentials ws c st = Inr (place, st') \<Longrightarrow> custody_step x w st st'"
| s3_delete: "DeleteHubS3Credentials ws st = Inr st' \<Longrightarrow> custody_step x w st st'"

text \<open>What a step may do under each decision: with keychain custody no file is written (the
  deletion of the hub credentials may remove one), with file custody the keychain is untouched.\<close>

definition honours :: "secrets \<Rightarrow> secrets \<Rightarrow> bool" where
  "honours st st' \<longleftrightarrow> sc_custody st' = sc_custody st \<and> sc_backend st' = sc_backend st \<and>
     (sc_custody st = CustodyKeychain \<longrightarrow> sc_backend st \<longrightarrow>
        (\<forall>f. sc_files st' f = sc_files st f \<or> sc_files st' f = Absent)) \<and>
     (sc_custody st = CustodyFile \<longrightarrow> sc_chain st' = sc_chain st)"

lemma honours_refl: "honours st st"
  by (simp add: honours_def)

lemma honours_trans: "honours a b \<Longrightarrow> honours b c \<Longrightarrow> honours a c"
  unfolding honours_def by metis

definition writes_only :: "string \<Rightarrow> (secrets \<Rightarrow> secrets res) \<Rightarrow> bool" where
  "writes_only name writer \<longleftrightarrow>
     (\<forall>a b. writer a = Inr b \<longrightarrow> (\<exists>c. b = a\<lparr>sc_files := (sc_files a)(name := Content c)\<rparr>))"

lemma writers [simp]:
  "writes_only (wck_file ws epoch kid) (WriteWCK ws epoch kid key)"
  "writes_only (age_file d) (writeIdentity d i)"
  "writes_only (signing_file d) (writeSigningIdentity d g)"
  "writes_only (hub_s3_file ws) (WriteHubS3Credentials ws cr)"
  by (auto simp: writes_only_def WriteWCK_def writeIdentity_def writeSigningIdentity_def WriteHubS3Credentials_def write_file_Inr)

lemma store_honours:
  assumes "storeSecretCustody account v label writeFile st = Inr (place, st')" and "writes_only name writeFile"
  shows "honours st st'"
proof -
  have w: "sc_chain b = sc_chain st \<and> sc_custody b = sc_custody st \<and> sc_backend b = sc_backend st"
    if b: "writeFile st = Inr b" for b
  proof -
    obtain c where "b = st\<lparr>sc_files := (sc_files st)(name := Content c)\<rparr>"
      using assms(2) b unfolding writes_only_def by blast
    then show ?thesis by simp
  qed
  have k: "sc_custody b = sc_custody st \<and> sc_backend b = sc_backend st" if "storeSecret account v st = Inr b" for b
    using that by (auto simp: storeSecret_def chain_store_def fault_res_def split: if_splits option.splits fault.splits)
  have "storeSecret account v st = Inr st' \<or> writeFile st = Inr st'"
    using assms(1) by (auto simp: storeSecretCustody_def Let_def split: if_splits sum.splits)
  then have "sc_custody st' = sc_custody st \<and> sc_backend st' = sc_backend st" using w k by blast
  moreover have "sc_chain st' = sc_chain st" if "sc_custody st = CustodyFile"
    by (rule file_store_keeps_chain [OF assms(1) that]) (use w in blast)
  ultimately show ?thesis
    using keychain_store_keeps_files [OF assms(1)] by (simp add: honours_def requireKeychain_def)
qed

lemma custody_step_honours: "custody_step x w st st' \<Longrightarrow> honours st st'"
proof (induction rule: custody_step.induct)
  case (wck ws epoch kid key st st')
  then show ?case by (auto simp: StoreWCK_def intro: store_honours [OF _ writers(1)])
next
  case (age drawn d published st r st')
  then show ?case
    by (auto simp: hybrid_Ensure_def Let_def intro: honours_refl store_honours [OF _ writers(2)] split: sum.splits option.splits)
next
  case (signing key d published st q st')
  then show ?case
    by (auto simp: hybrid_EnsureSigning_def Let_def intro: honours_refl store_honours [OF _ writers(3)] split: sum.splits option.splits)
next
  case (s3 ws c st place st')
  then show ?case by (auto simp: StoreHubS3Credentials_def intro: store_honours [OF _ writers(4)])
next
  case (s3_delete ws st st')
  have f: "honours a b" if "file_DeleteHubS3 ws a = Inr b" for a b
    using that by (auto simp: file_DeleteHubS3_def honours_def split: if_splits option.splits)
  have c: "honours st b" if "chain_delete (hubS3Account ws) st = Inr b" "useKeychain st" for b
    using that by (auto simp: chain_delete_def honours_def useKeychain_def fault_res_def split: option.splits fault.splits)
  show ?case using s3_delete
    by (auto simp: DeleteHubS3Credentials_def intro: f honours_trans [OF c f] split: if_splits sum.splits)
qed

lemma custody_kept:
  assumes "(custody_step x w)\<^sup>*\<^sup>* st st'" and "sc_backend st"
  shows "sc_custody st = CustodyKeychain \<Longrightarrow>
      (\<forall>f c. sc_files st' f = Content c \<longrightarrow> sc_files st f = Content c) \<and>
      LoadWCK w (st'\<lparr>sc_files := files\<rparr>) ws epoch kid = LoadWCK w st' ws epoch kid \<and>
      hybrid_Read x (st'\<lparr>sc_files := files\<rparr>) d = hybrid_Read x st' d \<and>
      hybrid_ReadSigning w (st'\<lparr>sc_files := files\<rparr>) d = hybrid_ReadSigning w st' d \<and>
      LoadHubS3Credentials w (st'\<lparr>sc_files := files\<rparr>) ws = LoadHubS3Credentials w st' ws"
    and "sc_custody st = CustodyFile \<Longrightarrow> sc_chain st' = sc_chain st \<and>
      LoadWCK w (st'\<lparr>sc_chain := chain, sc_load_fault := fault\<rparr>) ws epoch kid = LoadWCK w st' ws epoch kid \<and>
      hybrid_Read x (st'\<lparr>sc_chain := chain, sc_load_fault := fault\<rparr>) d = hybrid_Read x st' d \<and>
      hybrid_ReadSigning w (st'\<lparr>sc_chain := chain, sc_load_fault := fault\<rparr>) d = hybrid_ReadSigning w st' d \<and>
      LoadHubS3Credentials w (st'\<lparr>sc_chain := chain, sc_load_fault := fault\<rparr>) ws = LoadHubS3Credentials w st' ws"
proof -
  have R: "honours st st'" using assms(1)
    by (induction rule: rtranclp_induct) (auto intro: honours_refl honours_trans custody_step_honours)
  have "chain_load (st'\<lparr>sc_files := files\<rparr>) a = chain_load st' a" for a
    by (auto simp: chain_load_def split: option.splits)
  then have load: "loadSecret (st'\<lparr>sc_files := files\<rparr>) a = loadSecret st' a" for a by (simp add: loadSecret_def)
  have key: "resolveSecret (st'\<lparr>sc_files := files\<rparr>) a n r = loadSecret st' a" "resolveSecret st' a n r = loadSecret st' a"
    if "sc_custody st = CustodyKeychain" for a n r
    using that R assms(2)
    by (simp_all add: resolveSecret_def useKeychain_def requireKeychain_def honours_def load split: sum.split)
  have file_only: "resolveSecret (st'\<lparr>sc_chain := chain, sc_load_fault := fault\<rparr>) a n r = resolveSecret st' a n r"
    if "sc_custody st = CustodyFile" for a n r
    using that R by (simp add: resolveSecret_def useKeychain_def honours_def)
  have rd: "read_file (st'\<lparr>sc_chain := chain, sc_load_fault := fault\<rparr>) n = read_file st' n" for n
    by (simp add: read_file_def)
  show "(\<forall>f c. sc_files st' f = Content c \<longrightarrow> sc_files st f = Content c) \<and>
      LoadWCK w (st'\<lparr>sc_files := files\<rparr>) ws epoch kid = LoadWCK w st' ws epoch kid \<and>
      hybrid_Read x (st'\<lparr>sc_files := files\<rparr>) d = hybrid_Read x st' d \<and>
      hybrid_ReadSigning w (st'\<lparr>sc_files := files\<rparr>) d = hybrid_ReadSigning w st' d \<and>
      LoadHubS3Credentials w (st'\<lparr>sc_files := files\<rparr>) ws = LoadHubS3Credentials w st' ws"
    if k: "sc_custody st = CustodyKeychain"
  proof (intro conjI allI impI)
    fix f c assume "sc_files st' f = Content c"
    moreover have "sc_files st' f = sc_files st f \<or> sc_files st' f = Absent"
      using R k assms(2) by (simp add: honours_def)
    ultimately show "sc_files st f = Content c" by auto
  qed (simp_all only: LoadWCK_def hybrid_Read_def hybrid_ReadSigning_def LoadHubS3Credentials_def key [OF k])
  show "sc_chain st' = sc_chain st \<and>
      LoadWCK w (st'\<lparr>sc_chain := chain, sc_load_fault := fault\<rparr>) ws epoch kid = LoadWCK w st' ws epoch kid \<and>
      hybrid_Read x (st'\<lparr>sc_chain := chain, sc_load_fault := fault\<rparr>) d = hybrid_Read x st' d \<and>
      hybrid_ReadSigning w (st'\<lparr>sc_chain := chain, sc_load_fault := fault\<rparr>) d = hybrid_ReadSigning w st' d \<and>
      LoadHubS3Credentials w (st'\<lparr>sc_chain := chain, sc_load_fault := fault\<rparr>) ws = LoadHubS3Credentials w st' ws"
    if k: "sc_custody st = CustodyFile"
    using R k by (simp add: honours_def LoadWCK_def hybrid_Read_def hybrid_ReadSigning_def file_only [OF k]
        ReadWCK_def file_Read_def file_ReadSigning_def LoadHubS3Credentials_def ReadHubS3Credentials_def rd)
qed

text \<open>C31: the custody decision is honoured over every history of stores, mints and deletions on a
  device that has a keychain backend (\<^verbatim>\<open>sc_backend\<close>; without one the code falls back to
  files): with keychain custody no step ever puts a secret into a file (what a file holds it
  held at the start), and what the readers of workspace keys, of the age and the signing identity and
  of the hub credentials return does not depend on what the key directory holds; with file custody no
  step changes the keychain, and none of those readers depends on what the keychain holds or
  answers.\<close>

theorem custody_is_honoured:
  assumes "(custody_step x w)\<^sup>*\<^sup>* st st'" and "sc_backend st"
  shows "(sc_custody st = CustodyKeychain \<longrightarrow>
      (\<forall>f c. sc_files st' f = Content c \<longrightarrow> sc_files st f = Content c) \<and>
      (\<forall>files. LoadWCK w (st'\<lparr>sc_files := files\<rparr>) ws epoch kid = LoadWCK w st' ws epoch kid \<and>
        hybrid_Read x (st'\<lparr>sc_files := files\<rparr>) d = hybrid_Read x st' d \<and>
        hybrid_ReadSigning w (st'\<lparr>sc_files := files\<rparr>) d = hybrid_ReadSigning w st' d \<and>
        LoadHubS3Credentials w (st'\<lparr>sc_files := files\<rparr>) ws = LoadHubS3Credentials w st' ws)) \<and>
    (sc_custody st = CustodyFile \<longrightarrow> sc_chain st' = sc_chain st \<and>
      (\<forall>chain fault. LoadWCK w (st'\<lparr>sc_chain := chain, sc_load_fault := fault\<rparr>) ws epoch kid = LoadWCK w st' ws epoch kid \<and>
        hybrid_Read x (st'\<lparr>sc_chain := chain, sc_load_fault := fault\<rparr>) d = hybrid_Read x st' d \<and>
        hybrid_ReadSigning w (st'\<lparr>sc_chain := chain, sc_load_fault := fault\<rparr>) d = hybrid_ReadSigning w st' d \<and>
        LoadHubS3Credentials w (st'\<lparr>sc_chain := chain, sc_load_fault := fault\<rparr>) ws = LoadHubS3Credentials w st' ws))"
  using custody_kept [OF assms] by blast

subsection \<open>A full backup holds every key\<close>

definition escrowed :: "escrow \<Rightarrow> escrow \<Rightarrow> bool" where
  "escrowed es es' \<longleftrightarrow> (\<forall>f. sc_files (snd es) f \<noteq> Absent \<longrightarrow> sc_files (snd es') f = sc_files (snd es) f) \<and>
     set (fst es') = set (fst es) \<union> {f. sc_files (snd es) f = Absent \<and> sc_files (snd es') f \<noteq> Absent}"

lemma escrowed_refl: "escrowed es es"
  by (simp add: escrowed_def)

lemma escrowed_trans: "escrowed a b \<Longrightarrow> escrowed b c \<Longrightarrow> escrowed a c"
  unfolding escrowed_def by (intro conjI allI impI set_eqI) (metis (mono_tags, lifting) Un_iff mem_Collect_eq)+

lemma escrowed_present: "escrowed a b \<Longrightarrow> sc_files (snd a) f \<noteq> Absent \<Longrightarrow> sc_files (snd b) f \<noteq> Absent"
  by (simp add: escrowed_def)

lemma writeOnce_escrowed:
  assumes "writeOnce name writer es = Inr es'" and "writes_only name writer"
  shows "escrowed es es' \<and> sc_files (snd es') name \<noteq> Absent"
proof (cases "sc_files (snd es) name = Absent")
  case True
  then obtain b where b: "writer (snd es) = Inr b" "es' = (fst es @ [name], b)"
    using assms(1) by (auto simp: writeOnce_def Let_def split: prod.splits if_splits)
  then show ?thesis using assms(2) True by (force simp: escrowed_def writes_only_def split: if_splits)
next
  case False
  then have "es' = es" using assms(1) by (auto simp: writeOnce_def Let_def split: prod.splits)
  then show ?thesis using False by (simp add: escrowed_refl)
qed

lemma escrow_epoch_escrowed:
  assumes "escrow_epoch w st ws es k = Inr es'"
  shows "escrowed es es' \<and> sc_files (snd es') (wck_file ws (fst k) (snd k)) \<noteq> Absent"
proof -
  obtain wck where "writeOnce (wck_file ws (fst k) (snd k)) (WriteWCK ws (fst k) (snd k) wck) es = Inr es'"
    using assms by (auto simp: escrow_epoch_def split: prod.splits)
  then show ?thesis by (rule writeOnce_escrowed) simp
qed

lemma escrow_epochs_escrowed:
  "foldr_res (escrow_epoch w st ws) es ks = Inr es' \<Longrightarrow>
     escrowed es es' \<and> (\<forall>k \<in> set ks. sc_files (snd es') (wck_file ws (fst k) (snd k)) \<noteq> Absent)"
proof (induction ks arbitrary: es)
  case (Cons k ks)
  then obtain b where b: "escrow_epoch w st ws es k = Inr b" and r: "foldr_res (escrow_epoch w st ws) b ks = Inr es'"
    by auto
  note E = escrow_epoch_escrowed [OF b] and I = Cons.IH [OF r]
  have "escrowed es es'" using E I escrowed_trans by blast
  moreover have "sc_files (snd es') (wck_file ws (fst k) (snd k)) \<noteq> Absent" using E I escrowed_present by blast
  ultimately show ?case using I by simp
qed (simp add: escrowed_refl)

text \<open>A full backup that reports success holds the age identity, the signing key and every
  held workspace key; it changes no file that was there, and lists exactly the files it added.\<close>

theorem backup_holds_every_key:
  assumes "ExportForBackup x w st d ws epochs dst = Inr (written, dst')"
  shows "(\<forall>f \<in> {age_file d, signing_file d} \<union> (\<lambda>(epoch, kid). wck_file ws epoch kid) ` set epochs. sc_files dst' f \<noteq> Absent) \<and>
     (\<forall>f. sc_files dst f \<noteq> Absent \<longrightarrow> sc_files dst' f = sc_files dst f) \<and>
     set written = {f. sc_files dst f = Absent \<and> sc_files dst' f \<noteq> Absent} \<and> sorted written"
proof -
  from assms obtain i g es1 es2 es3 wr where
    1: "writeOnce (age_file d) (writeIdentity d i) ([], dst) = Inr es1" and
    2: "writeOnce (signing_file d) (writeSigningIdentity d g) es1 = Inr es2" and
    3: "foldr_res (escrow_epoch w st ws) es2 epochs = Inr es3" and
    4: "escrow_hub w st ws es3 = Inr (wr, dst')" and written: "written = sort wr"
    by (auto simp: ExportForBackup_def)
  have a: "escrowed ([], dst) es1 \<and> sc_files (snd es1) (age_file d) \<noteq> Absent"
    using 1 by (rule writeOnce_escrowed) simp
  have b: "escrowed es1 es2 \<and> sc_files (snd es2) (signing_file d) \<noteq> Absent"
    using 2 by (rule writeOnce_escrowed) simp
  note c = escrow_epochs_escrowed [OF 3]
  have e: "escrowed es3 (wr, dst')"
  proof (cases "LoadHubS3Credentials w st ws")
    case (Inr cr)
    then have "writeOnce (hub_s3_file ws) (WriteHubS3Credentials ws cr) es3 = Inr (wr, dst')"
      using 4 by (simp add: escrow_hub_def)
    from writeOnce_escrowed [OF this writers(4)] show ?thesis by simp
  next
    case (Inl er)
    then have "es3 = (wr, dst')" using 4 by (simp add: escrow_hub_def split: if_splits)
    then show ?thesis by (simp add: escrowed_refl)
  qed
  have ce: "escrowed es2 (wr, dst')" using c e escrowed_trans by blast
  then have be: "escrowed es1 (wr, dst')" using b escrowed_trans by blast
  then have all: "escrowed ([], dst) (wr, dst')" using a escrowed_trans by blast
  have "sc_files dst' (age_file d) \<noteq> Absent" "sc_files dst' (signing_file d) \<noteq> Absent"
    using escrowed_present [OF be] escrowed_present [OF ce] a b by auto
  moreover have "\<forall>k \<in> set epochs. sc_files dst' (wck_file ws (fst k) (snd k)) \<noteq> Absent"
    using c escrowed_present [OF e] by auto
  ultimately show ?thesis using all by (auto simp: escrowed_def written)
qed


subsection \<open>Concrete instances\<close>

definition empty_secrets :: "custody \<Rightarrow> fault option \<Rightarrow> secrets" where
  "empty_secrets c f = \<lparr>sc_custody = c, sc_backend = True, sc_load_fault = f, sc_store_fault = f,
     sc_chain = (\<lambda>a. None), sc_files = (\<lambda>f. Absent), sc_write_fault = None\<rparr>"

definition full_secrets :: secrets where
  "full_secrets = (empty_secrets CustodyKeychain None)\<lparr>sc_chain := (\<lambda>a. None)
     (ageAccount ''d'' := Some ''ID-a'', signingAccount ''d'' := Some (key_text (replicate 64 CHR ''k'')))\<rparr>"

lemma trim_small [simp]: "trim_space ''ID-a'' = ''ID-a''"
  by (rule trim_space_graph) auto

lemma sample_ids [simp]: "validateDeviceID ''d'' = Inr ()" "validateWorkspaceID ''ws'' = Inr ()"
  by (simp_all add: validateDeviceID_def validateWorkspaceID_def has_separator_def)

lemma full_identity: "hybrid_Read (plain_crypto []) full_secrets ''d'' = Inr \<lparr>id_private = ''ID-a'', id_recipient = ''age1a''\<rparr>"
  by (simp add: hybrid_Read_def full_secrets_def empty_secrets_def resolveSecret_def useKeychain_def loadSecret_def chain_load_def
      ageAccount_def signingAccount_def parseAgeIdentity_def plain_crypto_def prefixb_def)

lemma full_signing: "\<exists>g. hybrid_ReadSigning digest_world full_secrets ''d'' = Inr g"
  by (simp add: hybrid_ReadSigning_def full_secrets_def empty_secrets_def resolveSecret_def useKeychain_def loadSecret_def
      chain_load_def signingAccount_def parseSigningIdentity_def parsePrivateSigningKey_def trim_key_text)
    (simp add: key_text_def parse_prefixed_enc)

theorem stored_key_is_read_back_witness:
  "\<exists>st'. StoreWCK ''ws'' 1 [] sample_wck (empty_secrets CustodyUnset (Some Unreachable)) = Inr st' \<and>
     sc_files st' (wck_file ''ws'' 1 []) \<noteq> Absent \<and> LoadWCK digest_world st' ''ws'' 1 [] = Inr sample_wck"
proof -
  let ?st = "empty_secrets CustodyUnset (Some Unreachable)"
  obtain st' where s: "StoreWCK ''ws'' 1 [] sample_wck ?st = Inr st'" and f: "sc_files st' (wck_file ''ws'' 1 []) \<noteq> Absent"
    by (simp add: StoreWCK_def validateKID_def storeSecretCustody_def Let_def useKeychain_def empty_secrets_def storeSecret_def
        chain_store_def fault_res_def fail_def requireKeychain_def keychainUnreachable_def keychainSecretMissing_def
        WriteWCK_def write_file_def)
  have "consistent_chain ?st" by (simp add: consistent_chain_def empty_secrets_def)
  then show ?thesis using stored_key_is_read_back [OF s] s f by blast
qed

theorem no_divergent_identity_witness:
  "\<exists>i st'. hybrid_Ensure (plain_crypto []) ''ID-a'' ''d'' [] (empty_secrets CustodyKeychain None) = Inr ((i, True), st') \<and>
     hybrid_Ensure (plain_crypto []) ''ID-b'' ''d'' ''age1a'' st' = Inr ((i, False), st')"
proof -
  let ?x = "plain_crypto []" and ?st = "empty_secrets CustodyKeychain None"
  obtain i st' where e: "hybrid_Ensure ?x ''ID-a'' ''d'' [] ?st = Inr ((i, True), st')"
    by (simp add: hybrid_Ensure_def hybrid_Read_def empty_secrets_def resolveSecret_def useKeychain_def loadSecret_def
        chain_load_def fail_def keychainSecretMissing_def keychainUnreachable_def requireKeychain_def mintGuard_def
        storeSecretCustody_def Let_def storeSecret_def chain_store_def)
  obtain g where "hybrid_ReadSigning digest_world full_secrets ''d'' = Inr g" using full_signing by blast
  then have g: "hybrid_EnsureSigning digest_world [] ''d'' ''k'' full_secrets = Inr ((g, False), full_secrets)"
    by (simp add: hybrid_EnsureSigning_def)
  have "x_recipient ?x ''ID-a'' = Some ''age1a''" by (simp add: plain_crypto_def prefixb_def)
  moreover have "consistent_chain ?st" by (simp add: consistent_chain_def empty_secrets_def)
  moreover have "\<And>c. c \<in> set ''ID-a'' \<Longrightarrow> 33 \<le> nat_of c \<and> nat_of c \<le> 126" by auto
  ultimately have "hybrid_Ensure ?x ''ID-b'' ''d'' ''age1a'' st' = Inr ((i, False), st')"
    using no_divergent_identity [OF e g] by blast
  then show ?thesis using e by blast
qed

theorem custody_is_honoured_witness:
  "\<exists>st'. StoreWCK ''ws'' 1 [] sample_wck full_secrets = Inr st' \<and>
     (\<forall>f c. sc_files st' f = Content c \<longrightarrow> sc_files full_secrets f = Content c)"
proof -
  obtain st' where s: "StoreWCK ''ws'' 1 [] sample_wck full_secrets = Inr st'"
    by (simp add: StoreWCK_def validateKID_def storeSecretCustody_def Let_def useKeychain_def full_secrets_def empty_secrets_def
        storeSecret_def chain_store_def)
  have "(custody_step (plain_crypto []) digest_world)\<^sup>*\<^sup>* full_secrets st'"
    using custody_step.wck [OF s] by blast
  from custody_is_honoured [OF this] s show ?thesis by (simp add: full_secrets_def empty_secrets_def)
qed

theorem backup_holds_every_key_witness:
  "\<exists>written dst'. ExportForBackup (plain_crypto []) digest_world full_secrets ''d'' ''ws'' []
       (empty_secrets CustodyFile None) = Inr (written, dst') \<and>
     sc_files dst' (age_file ''d'') \<noteq> Absent"
proof -
  obtain g where g: "hybrid_ReadSigning digest_world full_secrets ''d'' = Inr g" using full_signing by blast
  have h: "LoadHubS3Credentials digest_world full_secrets ''ws'' = fail KNotExist ''file does not exist''"
    by (simp add: LoadHubS3Credentials_def resolveSecret_def full_secrets_def empty_secrets_def useKeychain_def loadSecret_def
        chain_load_def fail_def keychainSecretMissing_def requireKeychain_def hubS3Account_def ageAccount_def signingAccount_def)
  obtain written dst' where e: "ExportForBackup (plain_crypto []) digest_world full_secrets ''d'' ''ws'' []
       (empty_secrets CustodyFile None) = Inr (written, dst')"
    by (simp add: ExportForBackup_def full_identity g relabel_def writeOnce_def writeIdentity_def writeSigningIdentity_def
        empty_secrets_def write_file_def escrow_hub_def h fail_def age_file_def signing_file_def)
  from backup_holds_every_key [OF e] e show ?thesis by auto
qed

end
