(* ===== verification/Keyring.thy ===== *)
theory Keyring
  imports Custody
begin

section \<open>The keyring of workspace content keys\<close>

text \<open>
  \<^verbatim>\<open>src/internal/workspacekeys/keyring.go\<close>: the metadata rows live in the store, the key
  bytes in the custody of the device, and the cache in memory. An operation returns its result and
  the keyring it leaves, also when it fails: the steps before the failing one have happened. The
  cache is a Go map; its list order stands for the order of one iteration. Random bytes are drawn
  from \<open>x_random\<close> at the counter \<open>kr_draws\<close>.
\<close>

record cached_key =
  ck_wck :: string
  ck_origin :: string

type_synonym key_id = "int \<times> string"

record keyring =
  kr_store :: store
  kr_secrets :: secrets
  kr_cache :: "(key_id \<times> cached_key) list"
  kr_resolved :: "(string \<times> string \<times> string) option"
  kr_draws :: nat

type_synonym 'a kr = "keyring \<Rightarrow> 'a res \<times> keyring"

subsection \<open>Origins and the cache\<close>

definition originSelf :: string where "originSelf = ''self''"
definition originGrant :: string where "originGrant = ''grant''"

definition originRank :: "string \<Rightarrow> nat" where
  "originRank origin = (if origin = originGrant then 2 else if origin = originSelf then 1 else 0)"

definition cached :: "key_id \<Rightarrow> keyring \<Rightarrow> string option" where
  "cached i k = map_option (\<lambda>r. ck_wck (snd r)) (tget fst i (kr_cache k))"

definition cacheWCK :: "int \<Rightarrow> string \<Rightarrow> string \<Rightarrow> string \<Rightarrow> keyring \<Rightarrow> keyring" where
  "cacheWCK epoch kid origin wck k = k\<lparr>kr_cache := tput fst ((epoch, kid), \<lparr>ck_wck = wck, ck_origin = origin\<rparr>)
     (\<lambda>(i, c). (i, if originRank origin > originRank (ck_origin c) then c\<lparr>ck_origin := origin\<rparr> else c)) (kr_cache k)\<rparr>"

definition WCKCandidates :: "int \<Rightarrow> string \<Rightarrow> keyring \<Rightarrow> string list" where
  "WCKCandidates epoch kid k =
     (if kid \<noteq> [] then (case cached (epoch, kid) k of Some wck \<Rightarrow> [wck] | None \<Rightarrow> [])
      else map (\<lambda>r. ck_wck (snd r)) (filter (\<lambda>r. fst (fst r) = epoch) (kr_cache k)))"

text \<open>The loops that keep the best entry so far: the first one of the highest rank wins.\<close>

fun best_by :: "('a \<Rightarrow> 'a \<Rightarrow> bool) \<Rightarrow> 'a list \<Rightarrow> 'a option \<Rightarrow> 'a option" where
  "best_by better [] best = best"
| "best_by better (x # xs) best =
     best_by better xs (case best of None \<Rightarrow> Some x | Some b \<Rightarrow> if better x b then Some x else Some b)"

definition keyring_WCK :: "int \<Rightarrow> keyring \<Rightarrow> string option" where
  "keyring_WCK epoch k = map_option ck_wck
     (best_by (\<lambda>c b. originRank (ck_origin c) > originRank (ck_origin b))
        (map snd (filter (\<lambda>r. fst (fst r) = epoch) (kr_cache k))) None)"

definition CurrentEpoch :: "keyring \<Rightarrow> int" where
  "CurrentEpoch k = CurrentKeyEpoch (kr_store k)"

subsection \<open>Custody of the keys\<close>

definition resolve :: "crypto \<Rightarrow> unit kr" where
  "resolve x k =
     (if kr_resolved k \<noteq> None then (Inr (), k)
      else case currentDevice (kr_store k) of
        Inl e \<Rightarrow> (Inl e, k)
      | Inr d \<Rightarrow>
         (case relabel ''read local device identity: '' (hybrid_Read x (kr_secrets k) (dv_id d)) of
            Inl e \<Rightarrow> (Inl e, k)
          | Inr i \<Rightarrow> (Inr (), k\<lparr>kr_resolved := Some (st_workspace (kr_store k), id_recipient i, id_private i)\<rparr>)))"

definition kr_workspace :: "keyring \<Rightarrow> string" where "kr_workspace k = (case kr_resolved k of Some (ws, _, _) \<Rightarrow> ws | None \<Rightarrow> [])"
definition kr_recipient :: "keyring \<Rightarrow> string" where "kr_recipient k = (case kr_resolved k of Some (_, r, _) \<Rightarrow> r | None \<Rightarrow> [])"
definition kr_identity :: "keyring \<Rightarrow> string" where "kr_identity k = (case kr_resolved k of Some (_, _, i) \<Rightarrow> i | None \<Rightarrow> [])"

definition load_key :: "world \<Rightarrow> keyring \<Rightarrow> int \<Rightarrow> string \<Rightarrow> string res" where
  "load_key w k epoch kid = LoadWCK w (kr_secrets k) (kr_workspace k) epoch kid"

definition store_key :: "string \<Rightarrow> int \<Rightarrow> string \<Rightarrow> string \<Rightarrow> unit kr" where
  "store_key label epoch kid wck k =
     (case relabel label (StoreWCK (kr_workspace k) epoch kid wck (kr_secrets k)) of
        Inl e \<Rightarrow> (Inl e, k)
      | Inr st \<Rightarrow> (Inr (), k\<lparr>kr_secrets := st\<rparr>))"

text \<open>The defence of \<^verbatim>\<open>IngestGrant\<close> and of the legacy upgrade: a slot is only ever written
  with the bytes it holds.\<close>

definition slot_clash :: "world \<Rightarrow> keyring \<Rightarrow> int \<Rightarrow> string \<Rightarrow> string \<Rightarrow> bool" where
  "slot_clash w k epoch kid wck \<longleftrightarrow> (case load_key w k epoch kid of Inr old \<Rightarrow> old \<noteq> wck | Inl e \<Rightarrow> False)"

definition on_store :: "(store \<Rightarrow> store) \<Rightarrow> keyring \<Rightarrow> keyring" where
  "on_store f k = k\<lparr>kr_store := f (kr_store k)\<rparr>"

definition prime_key :: "world \<Rightarrow> int \<times> string \<times> string \<Rightarrow> unit kr" where
  "prime_key w hk = (let (epoch, kid, origin) = hk in
     if kid \<noteq> [] then
       (\<lambda>k. if cached (epoch, kid) k \<noteq> None then (Inr (), k)
            else bindk (askk (''load workspace key epoch '' @ show_int epoch @ '' kid '' @ kid @ '': '') (\<lambda>k. load_key w k epoch kid))
                   (\<lambda>wck. updk (cacheWCK epoch kid origin wck)) k)
     else
       bindk (askk (''load legacy workspace key epoch '' @ show_int epoch @ '': '') (\<lambda>k. load_key w k epoch [])) (\<lambda>wck.
         let kid' = KIDForWCK w wck in (\<lambda>k.
           if slot_clash w k epoch kid' wck
           then errk (Err [KOther] (''upgrade legacy workspace key epoch '' @ show_int epoch @ '': kid-aware slot '' @ kid'
                  @ '' holds different bytes (refusing custody overwrite)'')) k
           else bindk (store_key (''upgrade legacy workspace key epoch '' @ show_int epoch @ '': '') epoch kid' wck) (\<lambda>_.
             bindk (updk (on_store (UpdateKeyKid epoch kid'))) (\<lambda>_.
               updk (cacheWCK epoch kid' origin wck))) k)))"

definition Prime :: "crypto \<Rightarrow> world \<Rightarrow> unit kr" where
  "Prime x w = bindk (resolve x) (\<lambda>_ k. bindk (mapk (prime_key w) (HeldKeys (kr_store k))) (\<lambda>_. okk ()) k)"

subsection \<open>The key of outgoing events\<close>

definition push_better :: "int \<times> string \<times> string \<Rightarrow> int \<times> string \<times> string \<Rightarrow> bool" where
  "push_better h b \<longleftrightarrow> fst h > fst b \<or> fst h = fst b \<and> originRank (snd (snd h)) > originRank (snd (snd b))"

definition PushKey :: "crypto \<Rightarrow> world \<Rightarrow> (int \<times> string \<times> string) kr" where
  "PushKey x w = bindk (Prime x w) (\<lambda>_ k.
     case best_by push_better (HeldKeys (kr_store k)) None of
       None \<Rightarrow> (Inr (0, [], []), k)
     | Some (epoch, kid, origin) \<Rightarrow>
         (case cached (epoch, kid) k of
            None \<Rightarrow> errk (Err [KOther] (''push key: WCK for held key epoch '' @ show_int epoch @ '' kid '' @ kid @ '' not in cache'')) k
          | Some wck \<Rightarrow> (Inr (epoch, kid, wck), k)))"

subsection \<open>Minting, granting and rotating\<close>

definition draw :: "crypto \<Rightarrow> nat \<Rightarrow> string kr" where
  "draw x n k = (Inr (x_random x (kr_draws k) n), k\<lparr>kr_draws := Suc (kr_draws k)\<rparr>)"

definition NewWCK :: "crypto \<Rightarrow> string kr" where
  "NewWCK x = draw x wckSize"

text \<open>\<^verbatim>\<open>wrapWCK\<close> draws the file key and the ephemeral key of age.\<close>

definition wrapWCK :: "crypto \<Rightarrow> string \<Rightarrow> string \<Rightarrow> string kr" where
  "wrapWCK x wck recipient = bindk (draw x 48) (\<lambda>coins.
     case x_wrap x coins recipient wck of
       None \<Rightarrow> errk (Err [KOther] ''parse age recipient: malformed recipient'')
     | Some raw \<Rightarrow> okk (b64_enc raw))"

definition unwrapWCK :: "crypto \<Rightarrow> world \<Rightarrow> string \<Rightarrow> string \<Rightarrow> string res" where
  "unwrapWCK x w wrapped identity =
     (if x_recipient x identity = None then fail KOther ''parse age identity: malformed secret key''
      else case b64_dec wrapped of
        None \<Rightarrow> fail KOther (''decode wrapped wck: '' @ w_decode_err w wrapped)
      | Some raw \<Rightarrow> (case x_unwrap x identity raw of
          None \<Rightarrow> fail KOther ''decrypt wck: no identity matched any of the recipients''
        | Some wck \<Rightarrow> Inr wck))"

definition marshal_grant :: "key_grant \<Rightarrow> string" where
  "marshal_grant g = marshal_obj
     [jint ''epoch'' (kg_epoch g), jstr_opt ''kid'' (kg_kid g), jstr ''recipient'' (kg_recipient g),
      jstr ''wrapped_key'' (kg_wrapped g)]"

definition NewDeviceKeyGrantEvent :: "world \<Rightarrow> string \<Rightarrow> string \<Rightarrow> event" where
  "NewDeviceKeyGrantEvent w typ payloadJSON =
     event_zero\<lparr>ev_type := typ, ev_payload := payloadJSON, ev_content_hash := ContentHash w payloadJSON\<rparr>"

text \<open>One grant: the event and its audit row in one transaction.\<close>

definition emit_grant :: "world \<Rightarrow> key_store \<Rightarrow> string \<Rightarrow> key_grant \<Rightarrow> event kr" where
  "emit_grant w keys label g k =
     (let (r, s') = with_tx (kr_store k) (\<lambda>s.
        bindr (relabel ''insert grant: '' (InsertLocalEventTx w keys (NewDeviceKeyGrantEvent w EventDeviceKeyGranted (marshal_grant g)) s))
          (\<lambda>(e, s1). Inr (e, RecordKeyGrantTx (kg_epoch g) (kg_kid g) (kg_recipient g) e s1)))
      in (relabel label r, k\<lparr>kr_store := s'\<rparr>))"

definition EnsureBootstrap :: "crypto \<Rightarrow> world \<Rightarrow> int kr" where
  "EnsureBootstrap x w k =
     (if CurrentKeyEpoch (kr_store k) > 0 then (Inr (CurrentKeyEpoch (kr_store k)), k)
      else bindk (resolve x) (\<lambda>_. bindk (NewWCK x) (\<lambda>wck.
        let kid = KIDForWCK w wck in
        bindk (store_key [] 1 kid wck) (\<lambda>_.
        bindk (updk (on_store (RecordKeyEpoch w 1 kid originSelf))) (\<lambda>_.
        bindk (updk (cacheWCK 1 kid originSelf wck)) (\<lambda>_. okk 1))))) k)"

text \<open>\<^verbatim>\<open>GrantAllEpochs\<close>: per epoch, the first held key of the highest rank.\<close>

definition best_at :: "(int \<times> string \<times> string) list \<Rightarrow> int \<Rightarrow> (int \<times> string \<times> string) option" where
  "best_at held epoch = best_by (\<lambda>h b. originRank (snd (snd h)) > originRank (snd (snd b)))
     (filter (\<lambda>h. fst h = epoch) held) None"

definition grant_epoch :: "crypto \<Rightarrow> world \<Rightarrow> key_store \<Rightarrow> string \<Rightarrow> int \<times> string \<times> string \<Rightarrow> event kr" where
  "grant_epoch x w keys recipient hk = (let (epoch, kid, origin) = hk in (\<lambda>k.
     case cached (epoch, kid) k of
       None \<Rightarrow> errk (Err [KOther] (''grant: missing WCK for held key epoch '' @ show_int epoch @ '' kid '' @ kid)) k
     | Some wck \<Rightarrow> bindk (wrapWCK x wck recipient) (\<lambda>wrapped.
         emit_grant w keys (''grant epoch '' @ show_int epoch @ '': '')
           \<lparr>kg_epoch = epoch, kg_kid = kid, kg_recipient = recipient, kg_wrapped = wrapped\<rparr>) k))"

definition GrantAllEpochs :: "crypto \<Rightarrow> world \<Rightarrow> key_store \<Rightarrow> string \<Rightarrow> event list kr" where
  "GrantAllEpochs x w keys recipient = bindk (resolve x) (\<lambda>_. bindk (Prime x w) (\<lambda>_ k.
     let held = HeldKeys (kr_store k); epochs = remdups_adj (map fst held)
     in mapk (grant_epoch x w keys recipient) (List.map_filter (best_at held) epochs) k))"

text \<open>\<^verbatim>\<open>Rotate\<close> wraps for every recipient before it writes anything.\<close>

definition wrap_grant :: "crypto \<Rightarrow> int \<Rightarrow> string \<Rightarrow> string \<Rightarrow> string \<Rightarrow> key_grant kr" where
  "wrap_grant x epoch kid wck recipient = bindk (wrapWCK x wck recipient) (\<lambda>wrapped.
     okk \<lparr>kg_epoch = epoch, kg_kid = kid, kg_recipient = recipient, kg_wrapped = wrapped\<rparr>)"

definition Rotate :: "crypto \<Rightarrow> world \<Rightarrow> key_store \<Rightarrow> (int \<times> event list) kr" where
  "Rotate x w keys = bindk (resolve x) (\<lambda>_ k0.
     let epoch = CurrentKeyEpoch (kr_store k0) + 1 in
     bindk (NewWCK x) (\<lambda>wck. let kid = KIDForWCK w wck in
     bindk (askk [] (\<lambda>k. ApprovedRecipients (kr_store k))) (\<lambda>recipients.
     bindk (mapk (wrap_grant x epoch kid wck) recipients) (\<lambda>pending.
     bindk (store_key [] epoch kid wck) (\<lambda>_.
     bindk (updk (on_store (RecordKeyEpoch w epoch kid originSelf))) (\<lambda>_.
     bindk (updk (cacheWCK epoch kid originSelf wck)) (\<lambda>_.
     bindk (mapk (emit_grant w keys ''rotate: '') pending) (\<lambda>events.
       okk (epoch, events)))))))) k0)"

subsection \<open>Receiving a grant\<close>

definition grant_text :: "key_grant \<Rightarrow> string" where
  "grant_text g = ''ingest grant epoch '' @ show_int (kg_epoch g) @ '': ''"

text \<open>What follows once the grant is addressed to this device and unwrapped.\<close>

definition admit_key :: "world \<Rightarrow> key_grant \<Rightarrow> string \<Rightarrow> unit kr" where
  "admit_key w g wck k =
     (let kid = KIDForWCK w wck in
      if length wck \<noteq> wckSize
      then errk (Err [KOther] (grant_text g @ ''unwrapped WCK length = '' @ show_nat (length wck) @ '', want 32'')) k
      else if kg_kid g \<noteq> [] \<and> kg_kid g \<noteq> kid
      then errk (Err [KOther] (grant_text g @ ''carried kid '' @ kg_kid g @ '' does not match unwrapped key kid '' @ kid
             @ '' (forged or corrupted grant)'')) k
      else if slot_clash w k (kg_epoch g) kid wck
      then errk (Err [KOther] (grant_text g @ ''held key with kid '' @ kid @ '' has different bytes (refusing custody overwrite)'')) k
      else bindk (store_key [] (kg_epoch g) kid wck) (\<lambda>_.
           bindk (updk (on_store (RecordKeyEpoch w (kg_epoch g) kid originGrant))) (\<lambda>_.
           updk (cacheWCK (kg_epoch g) kid originGrant wck))) k)"

definition IngestGrant :: "crypto \<Rightarrow> world \<Rightarrow> key_grant \<Rightarrow> unit kr" where
  "IngestGrant x w g = bindk (resolve x) (\<lambda>_ k.
     if kg_recipient g \<noteq> kr_recipient k then (Inr (), k)
     else bindk (askk (grant_text g) (\<lambda>k. unwrapWCK x w (kg_wrapped g) (kr_identity k))) (admit_key w g) k)"

end
