(* ===== verification/Key_Grants.thy ===== *)
theory Key_Grants
  imports Keyring
begin

section \<open>What the keyring guarantees\<close>

text \<open>
  The laws of \<open>Keyring\<close>: slots of custody are told apart by epoch and key id and are never
  overwritten by a grant, a grant makes its key readable, a device that was granted reads what the
  fleet seals, and a rotation switches the key of outgoing events.
\<close>


subsection \<open>Slots of custody are distinct\<close>

lemma show_int_inj: "show_int i = show_int j \<Longrightarrow> i = j"
proof -
  assume e: "show_int i = show_int j"
  have d: "delim ''}''" by (simp add: delim_def)
  have "Some (JInt i, ''}'') = parse_num (show_int j @ ''}'')"
    using parse_num_show_int [OF d, of i] unfolding e by (rule sym)
  also have "\<dots> = Some (JInt j, ''}'')" by (rule parse_num_show_int [OF d])
  finally have "JInt i = JInt j" by (metis option.inject prod.inject)
  then show ?thesis by (rule json.inject(2) [THEN iffD1])
qed

lemma show_int_shape:
  "\<exists>c t. show_int i = c # t \<and> (\<forall>x \<in> set t. is_digit x) \<and> (nat_of c = 45 \<or> is_digit c)"
proof (cases "i < 0")
  case True
  note D = show_nat_digits [of "nat (- i)"]
  have "show_int i = CHR ''-'' # show_nat (nat (- i))" using True by (simp add: show_int_def)
  then show ?thesis using D by simp
next
  case False
  note D = show_nat_digits [of "nat i"]
  have "show_int i = show_nat (nat i)" using False by (simp add: show_int_def)
  then show ?thesis using D by (cases "show_nat (nat i)") auto
qed

lemma show_int_no_dot: "CHR ''.'' \<notin> set (show_int i)"
proof -
  obtain c t where s: "show_int i = c # t" "\<forall>x \<in> set t. is_digit x" "nat_of c = 45 \<or> is_digit c"
    using show_int_shape by blast
  have "\<not> is_digit CHR ''.''" by (simp add: is_digit_def)
  then show ?thesis using s by auto
qed

lemma valid_kid_length: "validateKID kid = Inr () \<Longrightarrow> kid = [] \<or> length kid = 64"
  by (auto simp: validateKID_def split: if_splits)

lemma wckAccount_inj: "wckAccount ws p a = wckAccount ws q b \<Longrightarrow> p = q \<and> a = b"
proof -
  assume e: "wckAccount ws p a = wckAccount ws q b"
  let ?f = "\<lambda>e k. show_int e @ (if k = [] then [] else CHR ''.'' # k)"
  have eq: "?f p a = ?f q b" using e by (auto simp: wckAccount_def split: if_splits)
  have tw: "takeWhile (\<lambda>c. c \<noteq> CHR ''.'') (?f e k) = show_int e" for e k
  proof -
    have "\<forall>c \<in> set (show_int e). c \<noteq> CHR ''.''" using show_int_no_dot [of e] by metis
    then show ?thesis by (simp add: takeWhile_append2)
  qed
  have "show_int p = show_int q" using tw [of p a] tw [of q b] eq by simp
  moreover from this eq have "a = b" by (auto split: if_splits)
  ultimately show ?thesis using show_int_inj by blast
qed

lemma wck_file_inj:
  assumes "wck_file ws p a = wck_file ws q b" "validateKID a = Inr ()" "validateKID b = Inr ()"
  shows "p = q \<and> a = b"
proof -
  let ?f = "\<lambda>e k. show_int e @ (if k = [] then [] else CHR ''-'' # k)"
  have eq: "?f p a = ?f q b" using assms(1) by (auto simp: wck_file_def split: if_splits)
  have no: "show_int p \<noteq> show_int q @ CHR ''-'' # k" for p q k
  proof
    assume e: "show_int p = show_int q @ CHR ''-'' # k"
    obtain c t where s: "show_int p = c # t" "\<forall>x \<in> set t. is_digit x" using show_int_shape by blast
    obtain c' t' where q: "show_int q = c' # t'" using show_int_shape by blast
    have "CHR ''-'' \<in> set t" using e s(1) q by simp
    then show False using s(2) by (force simp: is_digit_def)
  qed
  show ?thesis
  proof (cases "a = [] \<longleftrightarrow> b = []")
    case True
    then have "length a = length b" using valid_kid_length [OF assms(2)] valid_kid_length [OF assms(3)] by auto
    then have "show_int p = show_int q \<and> a = b" using eq True by (auto simp: append_eq_append_conv split: if_splits)
    then show ?thesis using show_int_inj by blast
  next
    case False
    then show ?thesis using eq no [of p q b] no [of q p a] by (auto split: if_splits)
  qed
qed

lemma store_place:
  assumes "storeSecretCustody account v label writeFile st = Inr (place, st')" and "writes_only name writeFile"
  obtains "st' = st\<lparr>sc_chain := (sc_chain st)(account := Some v)\<rparr>"
  | c where "st' = st\<lparr>sc_files := (sc_files st)(name := Content c)\<rparr>"
proof -
  have "storeSecret account v st = Inr st' \<or> writeFile st = Inr st'"
    using assms(1) by (auto simp: storeSecretCustody_def Let_def split: if_splits sum.splits)
  then show ?thesis
  proof
    assume "storeSecret account v st = Inr st'"
    then show ?thesis using that(1)
      by (auto simp: storeSecret_def chain_store_def fault_res_def split: if_splits option.splits fault.splits)
  next
    assume w: "writeFile st = Inr st'"
    obtain c where "st' = st\<lparr>sc_files := (sc_files st)(name := Content c)\<rparr>"
      using assms(2) w unfolding writes_only_def by blast
    then show ?thesis by (rule that(2))
  qed
qed

lemma resolve_other:
  assumes "account' \<noteq> account" "name' \<noteq> name"
  shows "resolveSecret (st\<lparr>sc_chain := (sc_chain st)(account := v)\<rparr>) account' name' r = resolveSecret st account' name' r"
    and "resolveSecret (st\<lparr>sc_files := (sc_files st)(name := c)\<rparr>) account' name' r = resolveSecret st account' name' r"
proof -
  have "chain_load (st\<lparr>sc_chain := (sc_chain st)(account := v)\<rparr>) account' = chain_load st account'"
    "chain_load (st\<lparr>sc_files := (sc_files st)(name := c)\<rparr>) account' = chain_load st account'"
    using assms(1) by (auto simp: chain_load_def split: option.splits)
  then show "resolveSecret (st\<lparr>sc_chain := (sc_chain st)(account := v)\<rparr>) account' name' r = resolveSecret st account' name' r"
    "resolveSecret (st\<lparr>sc_files := (sc_files st)(name := c)\<rparr>) account' name' r = resolveSecret st account' name' r"
    using assms(2)
    by (simp_all add: resolveSecret_def useKeychain_def requireKeychain_def fileMissing_def loadSecret_def split: sum.split)
qed

lemma other_slot:
  assumes "StoreWCK ws p a b st = Inr st'" and "(q, kid) \<noteq> (p, a)"
  shows "LoadWCK w st' ws q kid = LoadWCK w st ws q kid"
proof (cases "validateKID kid")
  case (Inr u)
  have a: "validateKID a = Inr ()"
    using assms(1) by (auto simp: StoreWCK_def)
  have kid: "validateKID kid = Inr ()" using Inr by (cases u) simp
  have ne: "wckAccount ws q kid \<noteq> wckAccount ws p a" "wck_file ws q kid \<noteq> wck_file ws p a"
    using wckAccount_inj [of ws q kid p a] wck_file_inj [OF _ kid a, of ws q p] assms(2) by auto
  obtain place where S: "storeSecretCustody (wckAccount ws p a) (b64_enc b) ''workspace key'' (WriteWCK ws p a b) st = Inr (place, st')"
    using assms(1) by (auto simp: StoreWCK_def)
  have "resolveSecret st' (wckAccount ws q kid) (wck_file ws q kid) (bindr (ReadWCK w st' ws q kid) f) =
      resolveSecret st (wckAccount ws q kid) (wck_file ws q kid) (bindr (ReadWCK w st ws q kid) f)" for f
  proof (rule store_place [OF S writers(1)])
    assume "st' = st\<lparr>sc_chain := (sc_chain st)(wckAccount ws p a := Some (b64_enc b))\<rparr>"
    then show ?thesis using resolve_other [OF ne] by (simp add: ReadWCK_def read_file_def)
  next
    fix c assume "st' = st\<lparr>sc_files := (sc_files st)(wck_file ws p a := Content c)\<rparr>"
    then show ?thesis using resolve_other [OF ne] ne by (simp add: ReadWCK_def read_file_def)
  qed
  then show ?thesis by (simp add: LoadWCK_def)
qed (simp add: LoadWCK_def bindr_def split: sum.splits)

lemma StoreWCK_frame:
  assumes "StoreWCK ws p a b st = Inr st'"
  shows "consistent_chain st' = consistent_chain st"
proof -
  obtain place where S: "storeSecretCustody (wckAccount ws p a) (b64_enc b) ''workspace key'' (WriteWCK ws p a b) st = Inr (place, st')"
    using assms by (auto simp: StoreWCK_def)
  show ?thesis by (rule store_place [OF S writers(1)]) (simp_all add: consistent_chain_def)
qed

subsection \<open>Keys are bound to their ids\<close>

definition slot :: "world \<Rightarrow> keyring \<Rightarrow> int \<Rightarrow> string \<Rightarrow> string res" where
  "slot w k epoch kid = LoadWCK w (kr_secrets k) (st_workspace (kr_store k)) epoch kid"

definition keys_bound :: "world \<Rightarrow> keyring \<Rightarrow> bool" where
  "keys_bound w k \<longleftrightarrow> consistent_chain (kr_secrets k) \<and>
     (\<forall>ws r i. kr_resolved k = Some (ws, r, i) \<longrightarrow> ws = st_workspace (kr_store k)) \<and>
     (\<forall>epoch kid wck. kid \<noteq> [] \<longrightarrow> slot w k epoch kid = Inr wck \<longrightarrow> KIDForWCK w wck = kid) \<and>
     (\<forall>i c. (i, c) \<in> set (kr_cache k) \<longrightarrow> KIDForWCK w (ck_wck c) = snd i) \<and> uniq fst (kr_cache k)"

text \<open>What no step takes away: the bytes of a slot and the candidates for decryption.\<close>

definition keys_kept :: "world \<Rightarrow> keyring \<Rightarrow> keyring \<Rightarrow> bool" where
  "keys_kept w k k' \<longleftrightarrow> (\<forall>epoch kid old. slot w k epoch kid = Inr old \<longrightarrow> slot w k' epoch kid = Inr old) \<and>
     (\<forall>i b. cached i k = Some b \<longrightarrow> cached i k' = Some b)"

lemma keys_kept_refl: "keys_kept w k k"
  by (simp add: keys_kept_def)

lemma keys_kept_trans: "keys_kept w a b \<Longrightarrow> keys_kept w b c \<Longrightarrow> keys_kept w a c"
  by (simp add: keys_kept_def)

lemma kid_nonempty: "digest32 w \<Longrightarrow> KIDForWCK w b \<noteq> []"
proof
  assume "digest32 w" "KIDForWCK w b = []"
  then show False using length_hex_enc [of "w_sha w b"] by (simp add: KIDForWCK_def digest32_def)
qed

lemma RecordKeyEpoch_workspace [simp]: "st_workspace (RecordKeyEpoch w e kid o' s) = st_workspace s"
  by (simp add: RecordKeyEpoch_def Let_def)

lemma resolve_cases:
  assumes "resolve x k = (r, k1)"
  shows "k1 = k \<or> kr_resolved k = None \<and>
    (\<exists>a b. k1 = k\<lparr>kr_resolved := Some (st_workspace (kr_store k), a, b)\<rparr>)"
proof (cases "kr_resolved k")
  case (Some v)
  then show ?thesis using assms by (simp add: resolve_def)
next
  case None
  then show ?thesis using assms by (force simp: resolve_def split: sum.splits)
qed

lemma resolve_resolved: "resolve x k = (Inr u, k1) \<Longrightarrow> kr_resolved k1 \<noteq> None"
  by (auto simp: resolve_def split: if_splits sum.splits)

lemma resolve_bound:
  assumes "resolve x k = (r, k1)" "keys_bound w k"
  shows "keys_bound w k1 \<and> keys_kept w k k1"
  using resolve_cases [OF assms(1)]
proof
  assume "kr_resolved k = None \<and> (\<exists>a b. k1 = k\<lparr>kr_resolved := Some (st_workspace (kr_store k), a, b)\<rparr>)"
  then obtain a b where "k1 = k\<lparr>kr_resolved := Some (st_workspace (kr_store k), a, b)\<rparr>" by blast
  then show ?thesis using assms(2) by (simp add: keys_bound_def keys_kept_def slot_def cached_def)
qed (use assms(2) in \<open>simp add: keys_kept_refl\<close>)

lemma bound_workspace: "keys_bound w k \<Longrightarrow> kr_resolved k \<noteq> None \<Longrightarrow> kr_workspace k = st_workspace (kr_store k)"
  by (auto simp: keys_bound_def kr_workspace_def)

lemma store_key_bound:
  assumes "store_key l epoch kid b k = (Inr u, k1)" "keys_bound w k" "kr_workspace k = st_workspace (kr_store k)"
    and "\<not> slot_clash w k epoch kid b" "KIDForWCK w b = kid" "kid \<noteq> []"
  shows "keys_bound w k1 \<and> keys_kept w k k1 \<and> slot w k1 epoch kid = Inr b \<and> kr_cache k1 = kr_cache k \<and>
     kr_store k1 = kr_store k \<and> kr_resolved k1 = kr_resolved k"
proof -
  let ?ws = "st_workspace (kr_store k)"
  obtain st where S: "StoreWCK ?ws epoch kid b (kr_secrets k) = Inr st" and k1: "k1 = k\<lparr>kr_secrets := st\<rparr>"
    using assms(1,3) by (auto simp: store_key_def split: sum.splits)
  have c: "consistent_chain (kr_secrets k)" using assms(2) by (simp add: keys_bound_def)
  have now: "slot w k1 epoch kid = Inr b" using StoreWCK_LoadWCK [OF S c] by (simp add: slot_def k1)
  have other: "slot w k1 q a = slot w k q a" if "(q, a) \<noteq> (epoch, kid)" for q a
    using other_slot [OF S that] by (simp add: slot_def k1)
  have kept: "slot w k1 q a = Inr old" if o: "slot w k q a = Inr old" for q a old
  proof (cases "(q, a) = (epoch, kid)")
    case True
    then show ?thesis using o now assms(3,4) by (auto simp: slot_clash_def load_key_def slot_def)
  qed (use other o in simp)
  have "keys_bound w k1"
    using assms(2,5) other now unfolding keys_bound_def
    by (auto simp: k1 StoreWCK_frame [OF S]) (metis k1 sum.inject(2))
  then show ?thesis using kept now by (simp add: keys_kept_def cached_def k1)
qed

lemma tget_cache:
  "tget fst i (kr_cache (cacheWCK epoch kid origin b k)) =
     (if i = (epoch, kid) then (case tget fst i (kr_cache k) of
        None \<Rightarrow> Some ((epoch, kid), \<lparr>ck_wck = b, ck_origin = origin\<rparr>)
      | Some (j, c) \<Rightarrow> Some (j, if originRank origin > originRank (ck_origin c) then c\<lparr>ck_origin := origin\<rparr> else c))
      else tget fst i (kr_cache k))"
proof -
  let ?f = "\<lambda>(i, c). (i, if originRank origin > originRank (ck_origin c) then c\<lparr>ck_origin := origin\<rparr> else c)"
  have "kr_cache (cacheWCK epoch kid origin b k) =
      tput fst ((epoch, kid), \<lparr>ck_wck = b, ck_origin = origin\<rparr>) ?f (kr_cache k)" by (simp add: cacheWCK_def)
  moreover have "fst (?f p) = fst p" for p :: "key_id \<times> cached_key" by (cases p) simp
  ultimately show ?thesis by (simp add: tget_tput split: option.splits prod.splits)
qed

lemma cached_cacheWCK:
  "cached i (cacheWCK epoch kid origin b k) = (if i = (epoch, kid) \<and> cached i k = None then Some b else cached i k)"
  unfolding cached_def tget_cache by (auto split: option.splits)

lemma cache_bound:
  assumes "keys_bound w k" "KIDForWCK w b = kid"
  shows "keys_bound w (cacheWCK epoch kid origin b k) \<and> keys_kept w k (cacheWCK epoch kid origin b k)"
proof -
  let ?k = "cacheWCK epoch kid origin b k"
  have u: "uniq fst (kr_cache ?k)"
    using assms(1) unfolding cacheWCK_def keys_bound_def by (auto intro!: uniq_tput)
  have "KIDForWCK w (ck_wck c) = snd i" if m: "(i, c) \<in> set (kr_cache ?k)" for i c
  proof -
    have "tget fst i (kr_cache ?k) = Some (i, c)" using m tget_uniq [OF u] by auto
    then show ?thesis
      using assms unfolding tget_cache keys_bound_def
      by (cases i) (auto split: if_splits option.splits dest!: tget_SomeD)
  qed
  moreover have "kr_store ?k = kr_store k" "kr_secrets ?k = kr_secrets k" "kr_resolved ?k = kr_resolved k"
    by (simp_all add: cacheWCK_def)
  ultimately show ?thesis using assms(1) u
    by (auto simp: keys_bound_def keys_kept_def slot_def cached_cacheWCK)
qed

lemma record_bound:
  assumes "keys_bound w k"
  shows "keys_bound w (on_store (RecordKeyEpoch w epoch kid origin) k) \<and> keys_kept w k (on_store (RecordKeyEpoch w epoch kid origin) k)"
  using assms by (simp add: on_store_def keys_bound_def keys_kept_def slot_def cached_def)

lemma candidates_cached: "kid \<noteq> [] \<Longrightarrow> WCKCandidates epoch kid k = (case cached (epoch, kid) k of None \<Rightarrow> [] | Some b \<Rightarrow> [b])"
  by (simp add: WCKCandidates_def split: option.splits)

lemma candidates_epoch: "uniq fst (kr_cache k) \<Longrightarrow> set (WCKCandidates epoch [] k) = {b. \<exists>kid. cached (epoch, kid) k = Some b}"
  by (auto simp: WCKCandidates_def cached_def tget_uniq image_iff) (metis fst_conv snd_conv tget_uniq tget_SomeD)+

text \<open>The result of admitting an unwrapped key, for the checks that pass.\<close>

definition admissible :: "world \<Rightarrow> keyring \<Rightarrow> key_grant \<Rightarrow> string \<Rightarrow> bool" where
  "admissible w k g b \<longleftrightarrow> length b = wckSize \<and> (kg_kid g = [] \<or> kg_kid g = KIDForWCK w b) \<and>
     \<not> slot_clash w k (kg_epoch g) (KIDForWCK w b) b"

lemma admit_key_rejects: "\<not> admissible w k g b \<Longrightarrow> snd (admit_key w g b k) = k \<and> (\<exists>e. fst (admit_key w g b k) = Inl e)"
  by (auto simp: admit_key_def admissible_def Let_def errk_def)

lemma admit_key_admits:
  assumes "admissible w k g b" "keys_bound w k" "kr_workspace k = st_workspace (kr_store k)" "digest32 w"
    and "admit_key w g b k = (r, k')"
  shows "keys_bound w k' \<and> keys_kept w k k' \<and> (r = Inr () \<longrightarrow> cached (kg_epoch g, KIDForWCK w b) k' \<noteq> None)"
proof -
  let ?kid = "KIDForWCK w b"
  have run: "admit_key w g b k = bindk (store_key [] (kg_epoch g) ?kid b) (\<lambda>_.
       bindk (updk (on_store (RecordKeyEpoch w (kg_epoch g) ?kid originGrant))) (\<lambda>_.
       updk (cacheWCK (kg_epoch g) ?kid originGrant b))) k"
    using assms(1) by (auto simp: admit_key_def admissible_def Let_def)
  show ?thesis
  proof (cases "store_key [] (kg_epoch g) ?kid b k")
    case (Pair q k1)
    show ?thesis
    proof (cases q)
      case (Inl e)
      then have "k1 = k" using Pair by (auto simp: store_key_def split: sum.splits)
      then have "k' = k" "r = Inl e" using assms(5) run Pair Inl by (auto simp: bindk_def)
      then show ?thesis using assms(2) by (simp add: keys_kept_refl)
    next
      case (Inr u)
      let ?k2 = "on_store (RecordKeyEpoch w (kg_epoch g) ?kid originGrant) k1"
      have s: "keys_bound w k1 \<and> keys_kept w k k1"
        using store_key_bound [OF Pair [unfolded Inr] assms(2,3)] assms(1) kid_nonempty [OF assms(4)]
        by (simp add: admissible_def)
      have k': "k' = cacheWCK (kg_epoch g) ?kid originGrant b ?k2"
        using assms(5) run Pair Inr by (auto simp: bindk_def updk_def)
      have "keys_bound w ?k2 \<and> keys_kept w k1 ?k2" using record_bound s by blast
      moreover from this have "keys_bound w k' \<and> keys_kept w ?k2 k'" unfolding k' using cache_bound by blast
      moreover have "cached (kg_epoch g, ?kid) k' \<noteq> None" unfolding k' by (auto simp: cached_cacheWCK)
      ultimately show ?thesis using s keys_kept_trans by blast
    qed
  qed
qed

lemma admit_key_resolved: "admit_key w g b k = (r, k') \<Longrightarrow> kr_resolved k' = kr_resolved k"
  by (auto simp: admit_key_def Let_def errk_def bindk_def updk_def store_key_def on_store_def cacheWCK_def
      split: if_splits sum.splits prod.splits)

lemma IngestGrant_parts:
  assumes "IngestGrant x w g k = (r, k')" "keys_bound w k" "digest32 w"
  shows "keys_bound w k' \<and> keys_kept w k k' \<and>
    (r = Inr () \<longrightarrow> kg_recipient g = kr_recipient k' \<longrightarrow>
       (\<exists>b. unwrapWCK x w (kg_wrapped g) (kr_identity k') = Inr b \<and> length b = wckSize \<and>
          (kg_kid g = [] \<or> kg_kid g = KIDForWCK w b) \<and> cached (kg_epoch g, KIDForWCK w b) k' \<noteq> None))"
proof -
  obtain q k1 where R: "resolve x k = (q, k1)" by fastforce
  have b1: "keys_bound w k1 \<and> keys_kept w k k1" using resolve_bound [OF R assms(2)] .
  show ?thesis
  proof (cases q)
    case (Inl e)
    then have "k' = k1" "r = Inl e" using assms(1) R by (auto simp: IngestGrant_def bindk_def)
    then show ?thesis using b1 by simp
  next
    case (Inr u)
    have run: "(r, k') = (if kg_recipient g \<noteq> kr_recipient k1 then (Inr (), k1)
        else bindk (askk (grant_text g) (\<lambda>k. unwrapWCK x w (kg_wrapped g) (kr_identity k))) (admit_key w g) k1)"
      using assms(1) R Inr by (simp add: IngestGrant_def bindk_def)
    show ?thesis
    proof (cases "kg_recipient g = kr_recipient k1")
      case False
      then show ?thesis using run b1 by simp
    next
      case True
      show ?thesis
      proof (cases "unwrapWCK x w (kg_wrapped g) (kr_identity k1)")
        case (Inl e)
        then show ?thesis using run True b1 by (auto simp: bindk_def askk_def relabel_def)
      next
        case u: (Inr b)
        have ad: "admit_key w g b k1 = (r, k')" using run True u by (simp add: bindk_def askk_def relabel_def)
        have ws: "kr_workspace k1 = st_workspace (kr_store k1)"
          using b1 resolve_resolved R Inr bound_workspace by metis
        show ?thesis
        proof (cases "admissible w k1 g b")
          case False
          then show ?thesis using admit_key_rejects [OF False] ad b1 by auto
        next
          case True
          have A: "keys_bound w k' \<and> keys_kept w k1 k' \<and> (r = Inr () \<longrightarrow> cached (kg_epoch g, KIDForWCK w b) k' \<noteq> None)"
            using admit_key_admits [OF True _ ws assms(3) ad] b1 by blast
          have "kr_identity k' = kr_identity k1" if "r = Inr ()" using admit_key_resolved [OF ad] by (simp add: kr_identity_def)
          then show ?thesis using A b1 u True keys_kept_trans by (fastforce simp: admissible_def)
        qed
      qed
    qed
  qed
qed

lemma grant_keeps_keys:
  assumes "keys_bound w k" and "digest32 w" and "IngestGrant x w g k = (r, k')"
  shows "keys_bound w k'"
    and "slot w k epoch kid = Inr old \<Longrightarrow> slot w k' epoch kid = Inr old"
    and "kid \<noteq> [] \<Longrightarrow> set (WCKCandidates epoch kid k) \<subseteq> set (WCKCandidates epoch kid k')"
    and "r = Inr () \<Longrightarrow> kg_recipient g = kr_recipient k' \<Longrightarrow>
      \<exists>b. unwrapWCK x w (kg_wrapped g) (kr_identity k') = Inr b \<and> length b = wckSize \<and>
        (kg_kid g = [] \<or> kg_kid g = KIDForWCK w b) \<and> WCKCandidates (kg_epoch g) (KIDForWCK w b) k' \<noteq> []"
proof -
  note P = IngestGrant_parts [OF assms(3,1,2)]
  show "keys_bound w k'" using P by blast
  show "slot w k epoch kid = Inr old \<Longrightarrow> slot w k' epoch kid = Inr old" using P by (simp add: keys_kept_def)
  have "cached i k = Some b \<Longrightarrow> cached i k' = Some b" for i b using P unfolding keys_kept_def by blast
  then show "kid \<noteq> [] \<Longrightarrow> set (WCKCandidates epoch kid k) \<subseteq> set (WCKCandidates epoch kid k')"
    by (cases "cached (epoch, kid) k") (auto simp: candidates_cached)
  show "\<exists>b. unwrapWCK x w (kg_wrapped g) (kr_identity k') = Inr b \<and> length b = wckSize \<and>
        (kg_kid g = [] \<or> kg_kid g = KIDForWCK w b) \<and> WCKCandidates (kg_epoch g) (KIDForWCK w b) k' \<noteq> []"
    if r: "r = Inr ()" "kg_recipient g = kr_recipient k'"
  proof -
    obtain b where "unwrapWCK x w (kg_wrapped g) (kr_identity k') = Inr b" "length b = wckSize"
      "kg_kid g = [] \<or> kg_kid g = KIDForWCK w b" "cached (kg_epoch g, KIDForWCK w b) k' \<noteq> None"
      using P r by blast
    then show ?thesis using kid_nonempty [OF assms(2), of b] by (auto simp: candidates_cached)
  qed
qed

text \<open>C16: a grant never replaces a key: whatever grant arrives, every slot of custody keeps its
  bytes, every key stays available for decryption, and keys stay bound to their ids; an accepted
  grant for this device was unwrapped to a key of the right length whose digest is the id it
  carries, and that key is available afterwards.\<close>

theorem grants_never_replace_keys:
  assumes "keys_bound w k" and "digest32 w" and "IngestGrant x w g k = (r, k')"
  shows "keys_bound w k' \<and>
    (\<forall>epoch kid old. slot w k epoch kid = Inr old \<longrightarrow> slot w k' epoch kid = Inr old) \<and>
    (\<forall>epoch kid. kid \<noteq> [] \<longrightarrow> set (WCKCandidates epoch kid k) \<subseteq> set (WCKCandidates epoch kid k')) \<and>
    (r = Inr () \<longrightarrow> kg_recipient g = kr_recipient k' \<longrightarrow>
      (\<exists>b. unwrapWCK x w (kg_wrapped g) (kr_identity k') = Inr b \<and> length b = wckSize \<and>
        (kg_kid g = [] \<or> kg_kid g = KIDForWCK w b) \<and> WCKCandidates (kg_epoch g) (KIDForWCK w b) k' \<noteq> []))"
  using grant_keeps_keys [OF assms] by blast

subsection \<open>From a grant to a readable fleet\<close>

lemma decode_marshal_grant:
  assumes "int64 (kg_epoch g)" "ascii_str (kg_kid g)" "ascii_str (kg_recipient g)" "ascii_str (kg_wrapped g)"
  shows "decode_grant (marshal_grant g) = Some g"
proof -
  have "parse_json (marshal_grant g) = Some (JObj ([(''epoch'', JInt (kg_epoch g))] @
      (if kg_kid g = [] then [] else [(''kid'', JStr (kg_kid g))]) @
      [(''recipient'', JStr (kg_recipient g)), (''wrapped_key'', JStr (kg_wrapped g))]))"
    unfolding marshal_grant_def
    by (rule parse_marshal_obj)
      (use assms in \<open>simp add: List.map_filter_def jstr_def jstr_opt_def jint_def renders_quote renders_int is_ascii_def\<close>)
  then show ?thesis using assms
    by (cases g) (simp add: decode_grant_def unmarshal_def set_field_def str_field_def int_field_def)
qed

lemma local_event_content:
  assumes "InsertLocalEventTx w keys e s = Inr (e', s')"
  shows "ev_payload e' = ev_payload e \<and> ev_type e' = ev_type e"
  using assms
  by (auto simp: InsertLocalEventTx_def Let_def normalizeEvent_def stamp_event_def ensureLocalEventSignature_def divergent_def fail_def
      split: prod.splits if_splits option.splits)

lemma emit_grant_Inr:
  assumes "emit_grant w keys l g k = (Inr e, k')"
  shows "ev_payload e = marshal_grant g \<and> ev_type e = EventDeviceKeyGranted \<and> kr_cache k' = kr_cache k \<and>
    kr_secrets k' = kr_secrets k \<and> kr_resolved k' = kr_resolved k"
proof -
  obtain e1 s1 where "InsertLocalEventTx w keys (NewDeviceKeyGrantEvent w EventDeviceKeyGranted (marshal_grant g)) (kr_store k) = Inr (e1, s1)"
    and "e = e1" "k' = k\<lparr>kr_store := RecordKeyGrantTx (kg_epoch g) (kg_kid g) (kg_recipient g) e1 s1\<rparr>"
    using assms by (auto simp: emit_grant_def with_tx_def Let_def split: sum.splits prod.splits)
  then show ?thesis using local_event_content by (force simp: NewDeviceKeyGrantEvent_def)
qed

text \<open>The event that carries a key to a recipient.\<close>

definition carries :: "crypto \<Rightarrow> string \<Rightarrow> keyring \<Rightarrow> int \<times> string \<times> string \<Rightarrow> event \<Rightarrow> bool" where
  "carries x recipient k hk e \<longleftrightarrow> (\<exists>b coins raw. cached (fst hk, fst (snd hk)) k = Some b \<and>
     x_wrap x coins recipient b = Some raw \<and> ev_type e = EventDeviceKeyGranted \<and>
     ev_payload e = marshal_grant \<lparr>kg_epoch = fst hk, kg_kid = fst (snd hk), kg_recipient = recipient, kg_wrapped = b64_enc raw\<rparr>)"

lemma wrapWCK_Inr:
  assumes "wrapWCK x b recipient k = (Inr s, k1)"
  obtains coins raw where "x_wrap x coins recipient b = Some raw" "s = b64_enc raw" "kr_cache k1 = kr_cache k"
    "kr_secrets k1 = kr_secrets k" "kr_store k1 = kr_store k" "kr_resolved k1 = kr_resolved k"
  using assms that [of "x_random x (kr_draws k) 48"]
  by (auto simp: wrapWCK_def bindk_def draw_def errk_def okk_def split: option.splits)

lemma grant_epoch_carries:
  assumes "grant_epoch x w keys recipient hk k = (Inr e, k')"
  shows "carries x recipient k hk e \<and> kr_cache k' = kr_cache k"
proof -
  obtain epoch kid origin where hk: "hk = (epoch, kid, origin)" by (cases hk)
  obtain b where b: "cached (epoch, kid) k = Some b"
    using assms by (auto simp: grant_epoch_def hk split: option.splits)
  obtain s k1 where s: "wrapWCK x b recipient k = (Inr s, k1)"
    and E: "emit_grant w keys (''grant epoch '' @ show_int epoch @ '': '')
        \<lparr>kg_epoch = epoch, kg_kid = kid, kg_recipient = recipient, kg_wrapped = s\<rparr> k1 = (Inr e, k')"
    using assms b unfolding grant_epoch_def hk Let_def prod.case by (auto simp: bindk_Inr)
  obtain coins raw where W: "x_wrap x coins recipient b = Some raw" "s = b64_enc raw" and k1: "kr_cache k1 = kr_cache k"
    by (rule wrapWCK_Inr [OF s])
  show ?thesis using emit_grant_Inr [OF E] W b k1 by (auto simp: carries_def hk)
qed

lemma carries_cache: "kr_cache a = kr_cache b \<Longrightarrow> carries x r a = carries x r b"
  by (intro ext) (simp add: carries_def cached_def)

lemma grants_carry:
  "mapk (grant_epoch x w keys recipient) hks k = (Inr es, k') \<Longrightarrow> list_all2 (carries x recipient k) hks es"
proof (induction hks arbitrary: k es)
  case (Cons hk hks)
  then obtain e k1 es' where e: "grant_epoch x w keys recipient hk k = (Inr e, k1)"
    and r: "mapk (grant_epoch x w keys recipient) hks k1 = (Inr es', k')" and es: "es = e # es'"
    by (auto simp: bindk_Inr)
  have "kr_cache k1 = kr_cache k" using grant_epoch_carries [OF e] by blast
  then have "carries x recipient k1 = carries x recipient k" by (rule carries_cache)
  then show ?case using grant_epoch_carries [OF e] Cons.IH [OF r] by (simp add: es)
qed simp

lemma lower_hex_digit: "n < 16 \<Longrightarrow> lower_hex (hex_digit n)"
  by (auto simp: lower_hex_def hex_digit_def)

lemma hex_enc_lower: "list_all lower_hex (hex_enc s)"
proof (induction s)
  case (Cons c s)
  have "nat_of c div 16 < 16" using nat_of_256 [of c] by (simp add: less_mult_imp_div_less)
  then show ?case using Cons by (simp add: lower_hex_digit)
qed simp

lemma valid_kid: "digest32 w \<Longrightarrow> validateKID (KIDForWCK w b) = Inr ()"
  using hex_enc_lower by (simp add: validateKID_def KIDForWCK_def digest32_def)

text \<open>A device whose custody accepts writes.\<close>

definition open_custody :: "secrets \<Rightarrow> bool" where
  "open_custody st \<longleftrightarrow> (if useKeychain st then sc_store_fault st = None else sc_write_fault st = None)"

lemma open_custody_stores:
  assumes "open_custody st" "validateWorkspaceID ws = Inr ()" "validateKID kid = Inr ()"
  shows "\<exists>st'. StoreWCK ws epoch kid b st = Inr st' \<and> open_custody st'"
  using assms by (auto simp: StoreWCK_def storeSecretCustody_def Let_def open_custody_def storeSecret_def chain_store_def
      WriteWCK_def write_file_def useKeychain_def split: if_splits)

definition agree :: "world \<Rightarrow> keyring \<Rightarrow> keyring \<Rightarrow> bool" where
  "agree w a k \<longleftrightarrow> (\<forall>epoch kid b old. cached (epoch, kid) a = Some b \<longrightarrow>
     slot w k epoch kid = Inr old \<or> cached (epoch, kid) k = Some old \<longrightarrow> old = b)"

text \<open>A device that can receive grants: its age identity, which opens what is wrapped to its
  recipient (the law of age), and a working custody.\<close>

definition receiver :: "crypto \<Rightarrow> world \<Rightarrow> string \<Rightarrow> string \<Rightarrow> keyring \<Rightarrow> bool" where
  "receiver x w recipient ident k \<longleftrightarrow> keys_bound w k \<and> kr_resolved k = Some (st_workspace (kr_store k), recipient, ident) \<and>
     validateWorkspaceID (st_workspace (kr_store k)) = Inr () \<and> open_custody (kr_secrets k) \<and>
     x_recipient x ident = Some recipient \<and>
     (\<forall>coins b raw. x_wrap x coins recipient b = Some raw \<longrightarrow> x_unwrap x ident raw = Some b)"

definition grants_of :: "event list \<Rightarrow> key_grant list" where
  "grants_of es = List.map_filter (\<lambda>e. if ev_type e = EventDeviceKeyGranted then decode_grant (ev_payload e) else None) es"

lemma ingest_carried:
  assumes "receiver x w recipient ident k" "agree w a k" "keys_bound w a" "digest32 w"
    and "cached (epoch, kid) a = Some b" "length b = wckSize" "x_wrap x coins recipient b = Some raw"
  shows "\<exists>k'. IngestGrant x w \<lparr>kg_epoch = epoch, kg_kid = kid, kg_recipient = recipient, kg_wrapped = b64_enc raw\<rparr> k
      = (Inr (), k') \<and> receiver x w recipient ident k' \<and> agree w a k' \<and> keys_kept w k k' \<and> cached (epoch, kid) k' = Some b"
proof -
  let ?g = "\<lparr>kg_epoch = epoch, kg_kid = kid, kg_recipient = recipient, kg_wrapped = b64_enc raw\<rparr>"
  have kid: "KIDForWCK w b = kid"
    using assms(3,5) by (force simp: keys_bound_def cached_def dest: tget_SomeD)
  have kb: "keys_bound w k" and res: "kr_resolved k = Some (st_workspace (kr_store k), recipient, ident)"
    and ws: "kr_workspace k = st_workspace (kr_store k)"
    using assms(1) by (auto simp: receiver_def kr_workspace_def)
  have un: "unwrapWCK x w (b64_enc raw) ident = Inr b"
    using assms(1,7) by (auto simp: unwrapWCK_def receiver_def b64_dec_enc)
  have free: "\<not> slot_clash w k epoch kid b"
    using assms(2,5) ws by (auto simp: slot_clash_def load_key_def agree_def slot_def split: sum.splits)
  obtain st where st: "StoreWCK (st_workspace (kr_store k)) epoch kid b (kr_secrets k) = Inr st" and oc: "open_custody st"
    using open_custody_stores [of "kr_secrets k" "st_workspace (kr_store k)" kid epoch b] assms(1) valid_kid [OF assms(4), of b]
    unfolding kid by (auto simp: receiver_def)
  let ?k1 = "k\<lparr>kr_secrets := st\<rparr>"
  let ?k2 = "on_store (RecordKeyEpoch w epoch kid originGrant) ?k1"
  let ?k' = "cacheWCK epoch kid originGrant b ?k2"
  have sk: "store_key [] epoch kid b k = (Inr (), ?k1)" using st by (simp add: store_key_def ws relabel_def)
  have run: "IngestGrant x w ?g k = (Inr (), ?k')"
    using res un free sk assms(6)
    by (simp add: IngestGrant_def resolve_def bindk_def kr_recipient_def kr_identity_def askk_def relabel_def admit_key_def
        kid updk_def)
  have S: "keys_bound w ?k1 \<and> keys_kept w k ?k1 \<and> slot w ?k1 epoch kid = Inr b"
    using store_key_bound [OF sk kb ws free kid] kid_nonempty [OF assms(4), of b] kid by blast
  have B: "keys_bound w ?k' \<and> keys_kept w k ?k'"
    using IngestGrant_parts [OF run kb assms(4)] by blast
  have k2: "cached i ?k2 = cached i k" for i by (simp add: cached_def on_store_def)
  have c: "cached (epoch, kid) ?k' = Some b"
  proof (cases "cached (epoch, kid) k")
    case (Some old)
    then have "old = b" using assms(2,5) unfolding agree_def by blast
    then show ?thesis using Some by (simp add: cached_cacheWCK k2)
  qed (simp add: cached_cacheWCK k2)
  have sl: "slot w ?k' = slot w ?k1" by (intro ext) (simp add: slot_def cacheWCK_def on_store_def)
  have other: "slot w ?k1 q d = slot w k q d" if "(q, d) \<noteq> (epoch, kid)" for q d
    using other_slot [OF st that] by (simp add: slot_def)
  have ag: "agree w a ?k'"
    unfolding agree_def sl
  proof (intro allI impI)
    fix q d b' old assume A: "cached (q, d) a = Some b'" and o: "slot w ?k1 q d = Inr old \<or> cached (q, d) ?k' = Some old"
    show "old = b'"
    proof (cases "(q, d) = (epoch, kid)")
      case True
      then show ?thesis using A o S c assms(5) by auto
    next
      case False
      then have "slot w k q d = Inr old \<or> cached (q, d) k = Some old"
        using o other [OF False] False by (auto simp: cached_cacheWCK k2)
      then show ?thesis using A assms(2) unfolding agree_def by blast
    qed
  qed
  have "receiver x w recipient ident ?k'"
    using assms(1) B oc by (simp add: receiver_def cacheWCK_def on_store_def)
  then show ?thesis using run B ag c by blast
qed

lemma ingest_all_carried:
  assumes "list_all2 (carries x recipient a) hks es"
    and "receiver x w recipient ident k" "agree w a k" "keys_bound w a" "digest32 w" "ascii_str recipient"
    and "\<And>i b. cached i a = Some b \<Longrightarrow> length b = wckSize" and "\<And>h. h \<in> set hks \<Longrightarrow> int64 (fst h)"
  shows "\<exists>us k'. mapk (IngestGrant x w) (grants_of es) k = (Inr us, k') \<and> length (grants_of es) = length hks \<and> keys_kept w k k' \<and>
     (\<forall>h \<in> set hks. cached (fst h, fst (snd h)) k' = cached (fst h, fst (snd h)) a)"
  using assms(1-3,8)
proof (induction arbitrary: k rule: list_all2_induct)
  case Nil
  then show ?case by (simp add: grants_of_def List.map_filter_def keys_kept_refl)
next
  case (Cons h hs e es)
  obtain b coins raw where b: "cached (fst h, fst (snd h)) a = Some b" "x_wrap x coins recipient b = Some raw"
    and e: "ev_type e = EventDeviceKeyGranted"
      "ev_payload e = marshal_grant \<lparr>kg_epoch = fst h, kg_kid = fst (snd h), kg_recipient = recipient, kg_wrapped = b64_enc raw\<rparr>"
    using Cons.hyps(1) by (auto simp: carries_def)
  have kid: "KIDForWCK w b = fst (snd h)"
    using assms(4) b(1) by (force simp: keys_bound_def cached_def dest: tget_SomeD)
  let ?g = "\<lparr>kg_epoch = fst h, kg_kid = fst (snd h), kg_recipient = recipient, kg_wrapped = b64_enc raw\<rparr>"
  have "ascii_str (fst (snd h))" unfolding kid [symmetric] by (simp add: KIDForWCK_def)
  then have dec: "decode_grant (marshal_grant ?g) = Some ?g"
    using Cons.prems(3) assms(6) by (intro decode_marshal_grant) simp_all
  then have g: "grants_of (e # es) = ?g # grants_of es"
    using e by (simp add: grants_of_def List.map_filter_def)
  from ingest_carried [OF Cons.prems(1,2) assms(4,5) b(1) assms(7) [OF b(1)] b(2)] obtain k1 where
    k1: "IngestGrant x w ?g k = (Inr (), k1)" "receiver x w recipient ident k1" "agree w a k1" "keys_kept w k k1"
      "cached (fst h, fst (snd h)) k1 = Some b" by blast
  from Cons.IH [OF k1(2,3)] Cons.prems(3) obtain us k' where
    r: "mapk (IngestGrant x w) (grants_of es) k1 = (Inr us, k')" "length (grants_of es) = length hs" "keys_kept w k1 k'"
      "\<forall>h \<in> set hs. cached (fst h, fst (snd h)) k' = cached (fst h, fst (snd h)) a" by auto
  have "mapk (IngestGrant x w) (grants_of (e # es)) k = (Inr (() # us), k')"
    using k1(1) r(1) by (simp add: g bindk_def okk_def)
  moreover have "cached (fst h, fst (snd h)) k' = Some b" using r(3) k1(5) unfolding keys_kept_def by blast
  ultimately show ?case using r b(1) keys_kept_trans [OF k1(4) r(3)] by (simp add: g)
qed

subsection \<open>The key of outgoing events is the one that is granted\<close>

lemma best_push_epoch:
  "best_by push_better hs (Some b) = Some h \<Longrightarrow>
     best_by (\<lambda>h b. originRank (snd (snd h)) > originRank (snd (snd b))) (filter (\<lambda>x. fst x = fst h) hs)
       (if fst b = fst h then Some b else None) = Some h \<and> fst b \<le> fst h"
proof (induction hs arbitrary: b)
  case (Cons x xs)
  show ?case
  proof (cases "push_better x b")
    case True
    then have "best_by push_better xs (Some x) = Some h" using Cons.prems by simp
    note I = Cons.IH [OF this]
    show ?thesis using I True by (auto simp: push_better_def)
  next
    case False
    then have "best_by push_better xs (Some b) = Some h" using Cons.prems by simp
    note I = Cons.IH [OF this]
    show ?thesis using I False by (auto simp: push_better_def)
  qed
qed simp

lemma best_push_at: "best_by push_better hs None = Some h \<Longrightarrow> best_at hs (fst h) = Some h"
proof (cases hs)
  case (Cons x xs)
  assume "best_by push_better hs None = Some h"
  then have "best_by push_better xs (Some x) = Some h" by (simp add: Cons)
  from best_push_epoch [OF this] show ?thesis by (auto simp: best_at_def Cons split: if_splits)
qed simp

lemma best_by_mem: "best_by P hs acc = Some h \<Longrightarrow> h \<in> set hs \<or> acc = Some h"
  by (induction hs arbitrary: acc) (force split: option.splits if_splits)+

text \<open>A keyring whose cache holds every key of the store.\<close>

definition primed :: "keyring \<Rightarrow> bool" where
  "primed k \<longleftrightarrow> kr_resolved k \<noteq> None \<and>
     (\<forall>h \<in> set (HeldKeys (kr_store k)). fst (snd h) \<noteq> [] \<and> cached (fst h, fst (snd h)) k \<noteq> None)"

lemma resolve_primed: "primed k \<Longrightarrow> resolve x k = (Inr (), k)"
  by (simp add: primed_def resolve_def)

lemma mapk_unit: "(\<And>y. y \<in> set ys \<Longrightarrow> f y k = (Inr (), k)) \<Longrightarrow> \<exists>us. mapk f ys k = (Inr us, k)"
  by (induction ys) (auto simp: bindk_def okk_def)

lemma prime_key_cached:
  assumes "kid \<noteq> []" "cached (epoch, kid) k \<noteq> None"
  shows "prime_key w (epoch, kid, origin) k = (Inr (), k)"
  unfolding prime_key_def Let_def prod.case if_P [OF assms(1)] if_P [OF assms(2)] ..

lemma Prime_primed: "primed k \<Longrightarrow> Prime x w k = (Inr (), k)"
proof -
  assume p: "primed k"
  have "prime_key w h k = (Inr (), k)" if "h \<in> set (HeldKeys (kr_store k))" for h
  proof -
    obtain epoch kid origin where h: "h = (epoch, kid, origin)" by (cases h)
    have "kid \<noteq> [] \<and> cached (epoch, kid) k \<noteq> None" using p that unfolding primed_def h by fastforce
    then show ?thesis unfolding h by (intro prime_key_cached) simp_all
  qed
  from mapk_unit [of "HeldKeys (kr_store k)" "prime_key w", OF this]
  obtain us where "mapk (prime_key w) (HeldKeys (kr_store k)) k = (Inr us, k)" by blast
  then show ?thesis using resolve_primed [OF p] by (simp add: Prime_def bindk_def okk_def)
qed

lemma PushKey_primed:
  assumes "primed k" "best_by push_better (HeldKeys (kr_store k)) None = Some (epoch, kid, origin)"
  shows "\<exists>b. cached (epoch, kid) k = Some b \<and> PushKey x w k = (Inr (epoch, kid, b), k)"
proof -
  have "(epoch, kid, origin) \<in> set (HeldKeys (kr_store k))" using best_by_mem [OF assms(2)] by simp
  then have "cached (epoch, kid) k \<noteq> None" using assms(1) unfolding primed_def by fastforce
  then show ?thesis using Prime_primed [OF assms(1)] assms(2) by (auto simp: PushKey_def bindk_def)
qed

text \<open>C17: a newly approved device reads what the fleet writes: when a device with a primed keyring
  grants its keys to a recipient and the recipient ingests the grants, all of them are accepted,
  the key under which the granting device seals its events is the candidate for their envelope,
  and it opens them to exactly what was sealed.\<close>

theorem granted_device_reads_fleet:
  assumes "primed A" and "keys_bound w A" and "digest32 w"
    and "\<And>i b. cached i A = Some b \<Longrightarrow> length b = wckSize"
    and "\<And>h. h \<in> set (HeldKeys (kr_store A)) \<Longrightarrow> int64 (fst h)"
    and "ascii_str recipient"
    and "GrantAllEpochs x w keys recipient A = (Inr events, A')"
    and "receiver x w recipient ident B" and "agree w A B"
    and "PushKey x w A = (Inr (epoch, kid, wck), A2)" and "epoch \<noteq> 0"
    and "EncryptEvent x w nonce e wck epoch = Inr c" and "aead_sound x" and "length nonce = nonceSize" and "sealable e"
  shows "\<exists>us B'. mapk (IngestGrant x w) (grants_of events) B = (Inr us, B') \<and>
     WCKCandidates epoch kid B' = [wck] \<and> DecryptEvent x w c wck = Inr (e\<lparr>ev_created := []\<rparr>)"
proof -
  let ?held = "HeldKeys (kr_store A)"
  let ?hks = "List.map_filter (best_at ?held) (remdups_adj (map fst ?held))"
  have run: "mapk (grant_epoch x w keys recipient) ?hks A = (Inr events, A')"
    using assms(7) by (simp add: GrantAllEpochs_def bindk_def resolve_primed [OF assms(1)] Prime_primed [OF assms(1)] Let_def)
  have hks: "h \<in> set ?held" if "h \<in> set ?hks" for h
    using that best_by_mem by (fastforce simp: List.map_filter_def best_at_def)
  obtain origin where best: "best_by push_better ?held None = Some (epoch, kid, origin)" and b: "cached (epoch, kid) A = Some wck"
    using assms(10,11) Prime_primed [OF assms(1)]
    by (auto simp: PushKey_def bindk_def errk_def split: option.splits prod.splits)
  have mem: "(epoch, kid, origin) \<in> set ?held" using best_by_mem [OF best] by simp
  then have "epoch \<in> set (remdups_adj (map fst ?held))" by force
  then have "(epoch, kid, origin) \<in> set ?hks"
    using best_push_at [OF best] by (force simp: List.map_filter_def)
  moreover have "\<exists>us k'. mapk (IngestGrant x w) (grants_of events) B = (Inr us, k') \<and>
      length (grants_of events) = length ?hks \<and> keys_kept w B k' \<and>
      (\<forall>h \<in> set ?hks. cached (fst h, fst (snd h)) k' = cached (fst h, fst (snd h)) A)"
    by (rule ingest_all_carried [OF grants_carry [OF run] assms(8,9,2,3,6)]) (use assms(4,5) hks in blast)+
  then obtain us B' where i: "mapk (IngestGrant x w) (grants_of events) B = (Inr us, B')"
    "\<forall>h \<in> set ?hks. cached (fst h, fst (snd h)) B' = cached (fst h, fst (snd h)) A" by blast
  ultimately have "cached (epoch, kid) B' = Some wck" using b by force
  moreover have "kid \<noteq> []" using mem assms(1) by (force simp: primed_def)
  moreover have "DecryptEvent x w c wck = Inr (e\<lparr>ev_created := []\<rparr>)"
    using Decrypt_Encrypt [OF assms(12-15)] assms(5) [OF mem] by simp
  ultimately show ?thesis using i(1) by (auto simp: candidates_cached)
qed


subsection \<open>Rotation\<close>

lemma storeEvent_keys: "storeEvent e s = Inr (b, s') \<Longrightarrow> st_keys s' = st_keys s"
  by (auto simp: storeEvent_def fail_def divergent_def split: if_splits option.splits)

lemma insertEvent_keys:
  assumes "insertEvent w e0 s0 = Inr (b, s')"
  shows "st_keys s' = st_keys s0"
proof -
  obtain e s where f: "fill_event w e0 s0 = (e, s)" by fastforce
  then have "storeEvent e s = Inr (b, s')" using assms insertEvent_Inr [OF f] by blast
  then show ?thesis using storeEvent_keys fill_event_frame [OF f] by fastforce
qed

lemma stamp_keys: "stamp_event w dev e s = (e', s') \<Longrightarrow> st_keys s' = st_keys s"
  by (auto simp: stamp_event_def nextLocalEventStamp_def Let_def split: prod.splits)

lemma sign_keys: "ensureLocalEventSignature w keys e s = Inr (e', s') \<Longrightarrow> st_keys s' = st_keys s"
  by (auto simp: ensureLocalEventSignature_def setDeviceSigningPublicKey_def split: if_splits)

lemma new_id_keys: "new_id w p s = (i, s') \<Longrightarrow> st_keys s' = st_keys s"
  by (auto simp: new_id_def)

lemma local_event_keys:
  assumes "InsertLocalEventTx w keys e s = Inr (e', s')"
  shows "st_keys s' = st_keys s"
proof -
  obtain e1 s1 where 1: "(if ev_id e = [] then case new_id w ''evt'' s of (i, s1) \<Rightarrow> (e\<lparr>ev_id := i\<rparr>, s1) else (e, s)) = (e1, s1)"
    by fastforce
  have k1: "st_keys s1 = st_keys s" using 1 by (auto simp: Let_def new_id_def split: if_splits)
  from assms obtain d where d: "currentDevice s1 = Inr d"
    unfolding InsertLocalEventTx_def 1 Let_def prod.case by auto
  obtain e3 s2 where 3: "stamp_event w (dv_id d) (normalizeEvent w e1) s1 = (e3, s2)" by fastforce
  from assms obtain e4 s3 b s4 where 4: "ensureLocalEventSignature w keys e3 s2 = Inr (e4, s3)"
    "insertEvent w (normalizeEvent w e4) s3 = Inr (b, s4)" "s' = s4"
    unfolding InsertLocalEventTx_def 1 Let_def prod.case d bindr_simps 3 InsertEvent_def
    by (auto simp: divergent_def split: if_splits)
  show ?thesis using k1 stamp_keys [OF 3] sign_keys [OF 4(1)] insertEvent_keys [OF 4(2)] 4(3) by simp
qed

lemma emit_grant_keys: "emit_grant w keys l g k = (Inr e, k') \<Longrightarrow> st_keys (kr_store k') = st_keys (kr_store k)"
  by (auto simp: emit_grant_def with_tx_def Let_def RecordKeyGrantTx_def RecordKeyGrant_def dest: local_event_keys
      split: sum.splits prod.splits)

lemma emit_all:
  "mapk (emit_grant w keys l) gs k = (Inr es, k') \<Longrightarrow> st_keys (kr_store k') = st_keys (kr_store k) \<and>
     kr_cache k' = kr_cache k \<and> kr_secrets k' = kr_secrets k \<and> kr_resolved k' = kr_resolved k \<and>
     map ev_payload es = map marshal_grant gs"
proof (induction gs arbitrary: k es)
  case (Cons g gs)
  then obtain e k1 es' where e: "emit_grant w keys l g k = (Inr e, k1)"
    and r: "mapk (emit_grant w keys l) gs k1 = (Inr es', k')" and es: "es = e # es'"
    by (auto simp: bindk_Inr)
  from emit_grant_Inr [OF e] emit_grant_keys [OF e] Cons.IH [OF r] show ?case by (simp add: es)
qed simp

lemma wrap_all:
  "mapk (wrap_grant x epoch kid b) rs k = (q, k') \<Longrightarrow> kr_store k' = kr_store k \<and> kr_cache k' = kr_cache k \<and>
     kr_secrets k' = kr_secrets k \<and> kr_resolved k' = kr_resolved k \<and>
     (\<forall>gs. q = Inr gs \<longrightarrow> map kg_recipient gs = rs \<and>
        (\<forall>g \<in> set gs. kg_epoch g = epoch \<and> kg_kid g = kid \<and>
          (\<exists>coins raw. x_wrap x coins (kg_recipient g) b = Some raw \<and> kg_wrapped g = b64_enc raw)))"
proof (induction rs arbitrary: k q k')
  case Nil
  then show ?case by (auto simp: okk_def)
next
  case (Cons r rs)
  have W: "\<exists>k1. kr_store k1 = kr_store k \<and> kr_cache k1 = kr_cache k \<and> kr_secrets k1 = kr_secrets k \<and>
      kr_resolved k1 = kr_resolved k \<and> snd (wrap_grant x epoch kid b r k) = k1"
    by (auto simp: wrap_grant_def wrapWCK_def bindk_def draw_def errk_def okk_def split: option.splits)
  show ?case
  proof (cases "fst (wrap_grant x epoch kid b r k)")
    case (Inl e)
    then show ?thesis using Cons.prems W by (auto simp: bindk_def split: prod.splits)
  next
    case (Inr g)
    obtain k1 where g: "wrap_grant x epoch kid b r k = (Inr g, k1)" using Inr by (metis prod.collapse)
    obtain s where s: "wrapWCK x b r k = (Inr s, k1)" and gd: "g = \<lparr>kg_epoch = epoch, kg_kid = kid, kg_recipient = r, kg_wrapped = s\<rparr>"
      using g by (auto simp: wrap_grant_def bindk_Inr)
    obtain coins raw where w: "x_wrap x coins r b = Some raw" "s = b64_enc raw"
      by (rule wrapWCK_Inr [OF s])
    obtain q1 k2 where r: "mapk (wrap_grant x epoch kid b) rs k1 = (q1, k2)" by fastforce
    note I = Cons.IH [OF r]
    have q: "k' = k2 \<and> q = (case q1 of Inl e \<Rightarrow> Inl e | Inr gs \<Rightarrow> Inr (g # gs))"
      using Cons.prems g r by (auto simp: bindk_def okk_def split: sum.splits)
    have fr: "kr_store k1 = kr_store k" "kr_cache k1 = kr_cache k" "kr_secrets k1 = kr_secrets k" "kr_resolved k1 = kr_resolved k"
      using W g by auto
    show ?thesis using I q fr w gd by (auto split: sum.splits)
  qed
qed

lemma best_by_top:
  assumes "h \<in> set hs \<or> acc = Some h" and "\<And>y. y \<in> set hs \<or> acc = Some y \<Longrightarrow> y \<noteq> h \<Longrightarrow> better h y \<and> \<not> better y h"
  shows "best_by better hs acc = Some h"
  using assms
proof (induction hs arbitrary: acc)
  case (Cons x xs)
  let ?acc = "case acc of None \<Rightarrow> Some x | Some b \<Rightarrow> if better x b then Some x else Some b"
  have a: "?acc = Some x \<or> ?acc = acc \<and> acc \<noteq> None" by (auto split: option.splits)
  have keep: "h \<in> set xs \<or> ?acc = Some h"
  proof (cases acc)
    case (Some b)
    consider "h \<in> set xs" | "x = h" | "b = h" "x \<noteq> h" using Cons.prems(1) Some by auto
    then show ?thesis
    proof cases
      case 2
      then show ?thesis using Cons.prems(2) [of b] Some by (cases "b = h") auto
    next
      case 3
      then show ?thesis using Cons.prems(2) [of x] Some by auto
    qed simp
  qed (use Cons.prems(1) in auto)
  have "y \<in> set xs \<or> ?acc = Some y \<Longrightarrow> y \<noteq> h \<Longrightarrow> better h y \<and> \<not> better y h" for y
    using Cons.prems(2) [of y] a by auto
  from Cons.IH [OF keep this] show ?case by simp
qed simp

lemma max_of_ge: "x \<in> set xs \<Longrightarrow> \<exists>m. max_of xs = Some m \<and> x \<le> m"
  by (induction xs) (fastforce split: option.splits)+

lemma CurrentKeyEpoch_ge: "k \<in> set (st_keys s) \<Longrightarrow> ky_epoch k \<le> CurrentKeyEpoch s"
  using max_of_ge [of "ky_epoch k" "map ky_epoch (st_keys s)"] by (auto simp: CurrentKeyEpoch_def or_else_def)

lemma set_HeldKeys: "set (HeldKeys s) = (\<lambda>k. (ky_epoch k, ky_kid k, ky_origin k)) ` set (st_keys s)"
  by (simp add: HeldKeys_def)

lemma keyring_frames [simp]:
  "kr_store (cacheWCK e kid o' b k) = kr_store k" "kr_secrets (cacheWCK e kid o' b k) = kr_secrets k"
  "kr_resolved (cacheWCK e kid o' b k) = kr_resolved k" "kr_store (on_store f k) = f (kr_store k)"
  "kr_cache (on_store f k) = kr_cache k" "kr_resolved (on_store f k) = kr_resolved k"
  "cached i (on_store f k) = cached i k"
  by (simp_all add: cacheWCK_def on_store_def cached_def)

lemma cached_cong: "kr_cache a = kr_cache b \<Longrightarrow> cached i a = cached i b"
  by (simp add: cached_def)

lemma RecordKeyEpoch_rows:
  assumes "CurrentKeyEpoch s < epoch" "origin \<in> {''self'', ''grant'', ''legacy''}"
  shows "st_keys (RecordKeyEpoch w epoch kid origin s) =
     st_keys s @ [\<lparr>ky_epoch = epoch, ky_kid = kid, ky_origin = origin, ky_created = w_now w\<rparr>]"
proof -
  have "\<not> list_ex (\<lambda>r. key_at r = (epoch, kid)) (st_keys s)"
    using CurrentKeyEpoch_ge assms(1) by (fastforce simp: list_ex_iff key_at_def)
  then show ?thesis using assms(2) by (auto simp: RecordKeyEpoch_def tins_def key_at_def Let_def)
qed

lemma Rotate_parts:
  assumes "Rotate x w keys k = (Inr (epoch, events), k')" and "primed k"
  obtains rs pending st k2 where "epoch = CurrentKeyEpoch (kr_store k) + 1"
    "ApprovedRecipients (kr_store k) = Inr rs"
    "mapk (wrap_grant x epoch (KIDForWCK w (x_random x (kr_draws k) wckSize)) (x_random x (kr_draws k) wckSize)) rs
       (k\<lparr>kr_draws := Suc (kr_draws k)\<rparr>) = (Inr pending, k2)"
    "mapk (emit_grant w keys ''rotate: '') pending
       (cacheWCK epoch (KIDForWCK w (x_random x (kr_draws k) wckSize)) originSelf (x_random x (kr_draws k) wckSize)
         (on_store (RecordKeyEpoch w epoch (KIDForWCK w (x_random x (kr_draws k) wckSize)) originSelf) (k2\<lparr>kr_secrets := st\<rparr>)))
      = (Inr events, k')"
proof -
  let ?b = "x_random x (kr_draws k) wckSize" and ?k1 = "k\<lparr>kr_draws := Suc (kr_draws k)\<rparr>"
  let ?kid = "KIDForWCK w ?b" and ?e = "CurrentKeyEpoch (kr_store k) + 1"
  from assms(1) obtain rs pending k2 k3 where rs: "ApprovedRecipients (kr_store k) = Inr rs"
    and w: "mapk (wrap_grant x ?e ?kid ?b) rs ?k1 = (Inr pending, k2)"
    and s: "store_key [] ?e ?kid ?b k2 = (Inr (), k3)"
    and m: "mapk (emit_grant w keys ''rotate: '') pending
       (cacheWCK ?e ?kid originSelf ?b (on_store (RecordKeyEpoch w ?e ?kid originSelf) k3)) = (Inr events, k')"
    and e: "epoch = ?e"
    unfolding Rotate_def Let_def bindk_Inr NewWCK_def draw_def resolve_primed [OF assms(2)]
    by (auto simp: bindk_Inr)
  obtain st where "k3 = k2\<lparr>kr_secrets := st\<rparr>"
    using s by (auto simp: store_key_def split: sum.splits)
  then show ?thesis using that rs w m e by blast
qed

lemma rotation_outcome:
  assumes "primed k" and "digest32 w"
  shows "Rotate x w keys k = (Inr (epoch, events), k') \<Longrightarrow>
      (\<And>e. cached (e, KIDForWCK w (x_random x (kr_draws k) wckSize)) k = None) \<Longrightarrow>
      \<exists>rs. epoch = CurrentKeyEpoch (kr_store k) + 1 \<and> ApprovedRecipients (kr_store k) = Inr rs \<and>
        (int64 epoch \<longrightarrow> (\<forall>r \<in> set rs. ascii_str r) \<longrightarrow>
           map (map_option kg_recipient \<circ> decode_grant \<circ> ev_payload) events = map Some rs) \<and>
        PushKey x w k' = (Inr (epoch, KIDForWCK w (x_random x (kr_draws k) wckSize), x_random x (kr_draws k) wckSize), k')"
    and "ApprovedRecipients (kr_store k) = Inr rs \<Longrightarrow> r \<in> set rs \<Longrightarrow> (\<And>coins b. x_wrap x coins r b = None) \<Longrightarrow>
      \<exists>e k'. Rotate x w keys k = (Inl e, k') \<and> kr_store k' = kr_store k \<and> kr_secrets k' = kr_secrets k \<and> kr_cache k' = kr_cache k"
proof -
  let ?b = "x_random x (kr_draws k) wckSize" and ?k1 = "k\<lparr>kr_draws := Suc (kr_draws k)\<rparr>"
  let ?kid = "KIDForWCK w ?b" and ?e = "CurrentKeyEpoch (kr_store k) + 1"
  show "\<exists>rs. epoch = ?e \<and> ApprovedRecipients (kr_store k) = Inr rs \<and>
        (int64 epoch \<longrightarrow> (\<forall>r \<in> set rs. ascii_str r) \<longrightarrow>
           map (map_option kg_recipient \<circ> decode_grant \<circ> ev_payload) events = map Some rs) \<and>
        PushKey x w k' = (Inr (epoch, ?kid, ?b), k')"
    if R: "Rotate x w keys k = (Inr (epoch, events), k')"
      and fresh: "\<And>e. cached (e, ?kid) k = None"
  proof (rule Rotate_parts [OF R assms(1)])
    fix rs pending st k2
    assume e: "epoch = ?e" and rs: "ApprovedRecipients (kr_store k) = Inr rs"
      and W: "mapk (wrap_grant x epoch ?kid ?b) rs ?k1 = (Inr pending, k2)"
      and M: "mapk (emit_grant w keys ''rotate: '') pending
       (cacheWCK epoch ?kid originSelf ?b (on_store (RecordKeyEpoch w epoch ?kid originSelf) (k2\<lparr>kr_secrets := st\<rparr>))) = (Inr events, k')"
    note w2 = wrap_all [OF W] and m = emit_all [OF M]
    have keys: "st_keys (kr_store k') = st_keys (kr_store k) @
        [\<lparr>ky_epoch = epoch, ky_kid = ?kid, ky_origin = originSelf, ky_created = w_now w\<rparr>]"
      using m w2 RecordKeyEpoch_rows [of "kr_store k" epoch originSelf w ?kid] e by (simp add: originSelf_def)
    have res: "kr_resolved k' \<noteq> None" using m w2 assms(1) by (simp add: primed_def)
    have "cached i k' = cached i (cacheWCK epoch ?kid originSelf ?b
        (on_store (RecordKeyEpoch w epoch ?kid originSelf) (k2\<lparr>kr_secrets := st\<rparr>)))" for i
      by (rule cached_cong) (use m in simp)
    moreover have "cached i (k2\<lparr>kr_secrets := st\<rparr>) = cached i k" for i by (rule cached_cong) (use w2 in simp)
    ultimately have ca: "cached i k' = (if i = (epoch, ?kid) then Some ?b else cached i k)" for i
      using fresh by (simp add: cached_cacheWCK)
    have held: "set (HeldKeys (kr_store k')) = insert (epoch, ?kid, originSelf) (set (HeldKeys (kr_store k)))"
      using keys by (auto simp: set_HeldKeys)
    have below: "fst h \<le> CurrentKeyEpoch (kr_store k)" if "h \<in> set (HeldKeys (kr_store k))" for h
      using that CurrentKeyEpoch_ge by (auto simp: set_HeldKeys)
    have pr: "primed k'"
      using assms(1) res ca held kid_nonempty [OF assms(2), of ?b] by (auto simp: primed_def)
    have "best_by push_better (HeldKeys (kr_store k')) None = Some (epoch, ?kid, originSelf)"
      by (rule best_by_top) (use held below e in \<open>fastforce simp: push_better_def\<close>)+
    from PushKey_primed [OF pr this] obtain b where b: "cached (epoch, ?kid) k' = Some b"
      "PushKey x w k' = (Inr (epoch, ?kid, b), k')" by blast
    have grants: "map (map_option kg_recipient \<circ> decode_grant \<circ> ev_payload) events = map Some rs"
      if i: "int64 epoch" and a: "\<forall>r \<in> set rs. ascii_str r"
    proof -
      have d: "decode_grant (marshal_grant g) = Some g" if g: "g \<in> set pending" for g
      proof (rule decode_marshal_grant)
        have W2: "map kg_recipient pending = rs" "kg_epoch g = epoch" "kg_kid g = ?kid" "\<exists>raw. kg_wrapped g = b64_enc raw"
          using w2 g by auto
        show "int64 (kg_epoch g)" using W2 i by simp
        show "ascii_str (kg_kid g)" using W2 by (simp add: KIDForWCK_def)
        show "ascii_str (kg_recipient g)" using W2(1) g a by auto
        show "ascii_str (kg_wrapped g)" using W2(4) by auto
      qed
      have "map (map_option kg_recipient \<circ> decode_grant \<circ> ev_payload) events =
          map (map_option kg_recipient \<circ> decode_grant) (map ev_payload events)" by simp
      also have "\<dots> = map (\<lambda>g. Some (kg_recipient g)) pending" using m d by simp
      also have "\<dots> = map Some rs" using w2 by auto
      finally show ?thesis .
    qed
    show ?thesis using e rs b ca grants by auto
  qed
  show "\<exists>e k'. Rotate x w keys k = (Inl e, k') \<and> kr_store k' = kr_store k \<and> kr_secrets k' = kr_secrets k \<and> kr_cache k' = kr_cache k"
    if bad: "ApprovedRecipients (kr_store k) = Inr rs" "r \<in> set rs" "\<And>coins b. x_wrap x coins r b = None"
  proof -
    obtain q k2 where W: "mapk (wrap_grant x ?e ?kid ?b) rs ?k1 = (q, k2)" by fastforce
    note w2 = wrap_all [OF W]
    have "\<exists>e. q = Inl e"
    proof (cases q)
      case (Inr gs)
      have "map kg_recipient gs = rs" and g: "\<And>g. g \<in> set gs \<Longrightarrow> \<exists>coins raw. x_wrap x coins (kg_recipient g) ?b = Some raw"
        using w2 Inr by blast+
      then obtain g where "g \<in> set gs" "kg_recipient g = r" using bad(2) by auto
      then show ?thesis using g bad(3) by fastforce
    qed simp
    then obtain e where "q = Inl e" by blast
    then have "Rotate x w keys k = (Inl e, k2)"
      using W bad(1) by (simp add: Rotate_def bindk_def resolve_primed [OF assms(1)] NewWCK_def draw_def askk_def relabel_def Let_def)
    then show ?thesis using w2 by auto
  qed
qed

text \<open>C28: a rotation opens the next epoch under a fresh key, emits exactly one grant of that key per
  approved recipient and nobody else, and from then on outgoing events are sealed under it; and it
  wraps before it writes: when an approved recipient is malformed, it fails and leaves the store,
  the custody and the cache as they were.\<close>

theorem rotation_moves_the_push_key:
  assumes "primed k" and "digest32 w"
    and "\<forall>e. cached (e, KIDForWCK w (x_random x (kr_draws k) wckSize)) k = None"
  shows "(\<forall>epoch events k'. Rotate x w keys k = (Inr (epoch, events), k') \<longrightarrow>
      (\<exists>rs. epoch = CurrentKeyEpoch (kr_store k) + 1 \<and> ApprovedRecipients (kr_store k) = Inr rs \<and>
        (int64 epoch \<longrightarrow> (\<forall>r \<in> set rs. ascii_str r) \<longrightarrow>
           map (map_option kg_recipient \<circ> decode_grant \<circ> ev_payload) events = map Some rs) \<and>
        PushKey x w k' = (Inr (epoch, KIDForWCK w (x_random x (kr_draws k) wckSize), x_random x (kr_draws k) wckSize), k'))) \<and>
    (\<forall>rs r. ApprovedRecipients (kr_store k) = Inr rs \<longrightarrow> r \<in> set rs \<longrightarrow> (\<forall>coins b. x_wrap x coins r b = None) \<longrightarrow>
      (\<exists>e k'. Rotate x w keys k = (Inl e, k') \<and> kr_store k' = kr_store k \<and> kr_secrets k' = kr_secrets k \<and> kr_cache k' = kr_cache k))"
  using rotation_outcome [OF assms(1,2)] assms(3) by metis


subsection \<open>Concrete keyrings\<close>

definition sample_kid :: string where "sample_kid = KIDForWCK digest_world sample_wck"

definition founder_store :: store where
  "founder_store = (device_store [(sample_device ''d'' trust_local [] None)\<lparr>dv_pub := ''age1a''\<rparr>])
     \<lparr>st_keys := [\<lparr>ky_epoch = 1, ky_kid = sample_kid, ky_origin = originSelf, ky_created = 0\<rparr>]\<rparr>"

definition founder :: keyring where
  "founder = \<lparr>kr_store = founder_store, kr_secrets = empty_secrets CustodyFile None,
     kr_cache = [((1, sample_kid), \<lparr>ck_wck = sample_wck, ck_origin = originSelf\<rparr>)],
     kr_resolved = Some (''ws'', ''age1a'', ''ID-a''), kr_draws = 0\<rparr>"

definition joiner :: keyring where
  "joiner = \<lparr>kr_store = empty_store ''ws'', kr_secrets = empty_secrets CustodyFile None, kr_cache = [],
     kr_resolved = Some (''ws'', ''age1b'', ''ID-b''), kr_draws = 0\<rparr>"

definition sample_keys :: key_store where
  "sample_keys = (\<lambda>_ _. Inr (key_text (replicate 64 CHR ''k''), key_text (replicate 32 CHR ''k'')))"

lemma sample_kid_nonempty [simp]: "sample_kid \<noteq> []"
  unfolding sample_kid_def by (rule kid_nonempty) simp

lemma founder_fields [simp]: "st_workspace founder_store = ''ws''" "st_events founder_store = []"
  "HeldKeys founder_store = [(1, sample_kid, originSelf)]" "CurrentKeyEpoch founder_store = 1"
  by (simp_all add: founder_store_def empty_store_def HeldKeys_def CurrentKeyEpoch_def)

lemma empty_slots [simp]: "LoadWCK w (empty_secrets c None) ws e kid \<noteq> Inr b"
  by (auto simp: LoadWCK_def ReadWCK_def resolveSecret_def empty_secrets_def useKeychain_def loadSecret_def chain_load_def
      read_file_def fail_def bindr_def split: sum.splits if_splits)

lemma digest_key_pair: "key_pair digest_world (replicate 32 CHR ''k'') (replicate 64 CHR ''k'')"
  using plain_key_pair [of "replicate 32 CHR ''k''" "replicate 64 CHR ''k''" 0]
  by (simp add: key_pair_def digest_world_def)

lemma founder_primed: "primed founder"
  by (simp add: primed_def founder_def cached_def)

lemma founder_bound: "keys_bound digest_world founder"
  by (auto simp: keys_bound_def founder_def consistent_chain_def slot_def sample_kid_def uniq_def empty_secrets_def
      simp del: empty_slots) (auto simp: empty_secrets_def [symmetric])

lemma plain_wrap_opens: "x_wrap (plain_crypto a0) coins ''age1b'' k = Some raw \<Longrightarrow> x_unwrap (plain_crypto a0) ''ID-b'' raw = Some k"
  by (auto simp: plain_crypto_def prefixb_def)

lemma joiner_bound: "keys_bound digest_world joiner"
  by (auto simp: keys_bound_def joiner_def consistent_chain_def slot_def uniq_def) (simp add: empty_secrets_def)

lemma joiner_receives: "receiver (plain_crypto a0) digest_world ''age1b'' ''ID-b'' joiner"
proof -
  have "kr_resolved joiner = Some (st_workspace (kr_store joiner), ''age1b'', ''ID-b'')"
    and "validateWorkspaceID (st_workspace (kr_store joiner)) = Inr ()"
    by (simp_all add: joiner_def empty_store_def)
  moreover have "open_custody (kr_secrets joiner)"
    by (simp add: joiner_def open_custody_def empty_secrets_def useKeychain_def)
  moreover have "x_recipient (plain_crypto a0) ''ID-b'' = Some ''age1b''"
    by (simp add: plain_crypto_def prefixb_def)
  ultimately show ?thesis using joiner_bound plain_wrap_opens by (auto simp: receiver_def)
qed

lemma joiner_agrees: "agree digest_world founder joiner"
  by (auto simp: agree_def joiner_def slot_def cached_def)

lemma InsertLocal_new_id:
  "ev_id e = [] \<Longrightarrow> new_id w ''evt'' s = (i, s0) \<Longrightarrow> i \<noteq> [] \<Longrightarrow>
     InsertLocalEventTx w keys e s = InsertLocalEventTx w keys (e\<lparr>ev_id := i\<rparr>) s0"
  by (simp add: InsertLocalEventTx_def)

lemma founder_emits:
  assumes "st_events s = []" "st_clocks s = []" "st_workspace s = ''ws''"
    and "st_devices s = [(sample_device ''d'' trust_local [] None)\<lparr>dv_pub := ''age1a''\<rparr>]"
  shows "\<exists>e k'. emit_grant digest_world sample_keys l g (k\<lparr>kr_store := s\<rparr>) = (Inr e, k')"
proof -
  let ?d = "(sample_device ''d'' trust_local [] None)\<lparr>dv_pub := ''age1a''\<rparr>"
  let ?e = "NewDeviceKeyGrantEvent digest_world EventDeviceKeyGranted (marshal_grant g)"
  obtain i s0 where n: "new_id digest_world ''evt'' s = (i, s0)" by fastforce
  then have i: "i \<noteq> []" "s0 = s\<lparr>st_fresh := Suc (st_fresh s)\<rparr>" by (auto simp: new_id_def digest_world_def plain_world_def)
  have s0: "st_events s0 = []" "st_clocks s0 = []" "st_workspace s0 = ''ws''" "st_devices s0 = [?d]"
    using assms i(2) by simp_all
  have c: "clock_of ''d'' s0 = (0, 1)" by (simp add: clock_of_def s0 sql_max_def)
  have d: "currentDevice s0 = Inr ?d" by (simp add: currentDevice_def s0)
  have p: "phys_ok 1" "phys_ok 0" by (simp_all add: phys_ok_def)
  have w: "phys_ok (w_now digest_world)" "w_stamp digest_world \<noteq> []"
    by (simp_all add: digest_world_def plain_world_def p)
  have e: "ev_id (?e\<lparr>ev_id := i\<rparr>) \<noteq> []" "ev_id (?e\<lparr>ev_id := i\<rparr>) \<notin> ev_id ` set (st_events s0)"
    "ev_sig (?e\<lparr>ev_id := i\<rparr>) = []" "ev_prev_hash (?e\<lparr>ev_id := i\<rparr>) = []"
    "ev_content_hash (?e\<lparr>ev_id := i\<rparr>) \<in> {[], ContentHash digest_world (ev_payload (?e\<lparr>ev_id := i\<rparr>))}"
    using i(1) by (simp_all add: NewDeviceKeyGrantEvent_def event_zero_def s0)
  have l: "log_ok digest_world s0" "clock_ok (dv_id ?d) s0" "uniq dv_id (st_devices s0)"
    by (simp_all add: log_ok_def clock_ok_def s0 uniq_def)
  have r: "snd (clock_of (dv_id ?d) s0) < 2 ^ 63 - 1" "phys_ok (fst (clock_of (dv_id ?d) s0) div 65536 + 1)"
    "phys_ok (fst (clock_of (dv_id ?d) s0) div 65536)" "dv_sig_pub ?d \<in> {[], key_text (replicate 32 CHR ''k'')}"
    "sample_keys (dv_id ?d) (dv_sig_pub ?d) = Inr (key_text (replicate 64 CHR ''k''), key_text (replicate 32 CHR ''k''))"
    by (simp_all add: c p sample_keys_def)
  have "st_workspace s0 \<noteq> []" using s0 by simp
  from local_append [where keys = sample_keys and d = ?d and e = "?e\<lparr>ev_id := i\<rparr>",
      OF l(1) d l(3,2) r(1) w(1) r(2,3,5) digest_key_pair r(4) e this w(2)]
  obtain e' s' where a: "InsertLocalEventTx digest_world sample_keys (?e\<lparr>ev_id := i\<rparr>) s0 = Inr (e', s')" by blast
  have "ev_id ?e = []" by (simp add: NewDeviceKeyGrantEvent_def event_zero_def)
  from InsertLocal_new_id [OF this n i(1)] a show ?thesis
    by (simp add: emit_grant_def with_tx_def relabel_def)
qed

lemma founder_recipients: "ApprovedRecipients founder_store = Inr [''age1a'']"
  by (simp add: founder_store_def empty_store_def ApprovedRecipients_def currentDevice_def ListDevices_def)

theorem grants_never_replace_keys_witness:
  "\<exists>r k'. IngestGrant (plain_crypto []) digest_world
       \<lparr>kg_epoch = 1, kg_kid = [], kg_recipient = ''age1b'', kg_wrapped = b64_enc (''b'' @ [chr 0] @ sample_wck)\<rparr> joiner = (r, k') \<and>
     keys_bound digest_world k'"
proof -
  let ?g = "\<lparr>kg_epoch = 1, kg_kid = [], kg_recipient = ''age1b'', kg_wrapped = b64_enc (''b'' @ [chr 0] @ sample_wck)\<rparr>"
  obtain r k' where i: "IngestGrant (plain_crypto []) digest_world ?g joiner = (r, k')" by fastforce
  show ?thesis using grants_never_replace_keys [OF joiner_bound digest_world32 i] i by blast
qed

lemma founder_cached: "cached i founder = Some b \<longleftrightarrow> i = (1, sample_kid) \<and> b = sample_wck"
  by (auto simp: founder_def cached_def)

lemma founder_push: "PushKey (plain_crypto a0) digest_world founder = (Inr (1, sample_kid, sample_wck), founder)"
proof -
  have "cached (1, sample_kid) founder = Some sample_wck" by (simp add: founder_cached)
  moreover have "best_by push_better (HeldKeys (kr_store founder)) None = Some (1, sample_kid, originSelf)"
    by (simp add: founder_def)
  ultimately show ?thesis
    by (simp add: PushKey_def bindk_def Prime_primed [OF founder_primed])
qed

lemma founder_grants: "\<exists>events A'. GrantAllEpochs (plain_crypto a0) digest_world sample_keys ''age1b'' founder = (Inr events, A')"
proof -
  let ?A = "founder\<lparr>kr_draws := 1\<rparr>"
  have s: "?A = ?A\<lparr>kr_store := founder_store\<rparr>" "kr_store founder = founder_store" "kr_draws founder = 0"
    by (simp_all add: founder_def)
  have "wrapWCK (plain_crypto a0) sample_wck ''age1b'' founder = (Inr (b64_enc (''b'' @ [chr 0] @ sample_wck)), ?A)"
    by (simp add: wrapWCK_def bindk_def draw_def plain_crypto_def okk_def founder_def prefixb_def)
  moreover obtain e A' where "emit_grant digest_world sample_keys (''grant epoch '' @ show_int 1 @ '': '')
      \<lparr>kg_epoch = 1, kg_kid = sample_kid, kg_recipient = ''age1b'', kg_wrapped = b64_enc (''b'' @ [chr 0] @ sample_wck)\<rparr> ?A = (Inr e, A')"
    using founder_emits [of founder_store _ _ ?A] s(1) by (fastforce simp: founder_store_def empty_store_def)
  moreover have "cached (1, sample_kid) founder = Some sample_wck" by (simp add: founder_cached)
  ultimately have "grant_epoch (plain_crypto a0) digest_world sample_keys ''age1b'' (1, sample_kid, originSelf) founder = (Inr e, A')"
    by (simp add: grant_epoch_def bindk_def)
  then show ?thesis
    by (simp add: GrantAllEpochs_def bindk_def resolve_primed [OF founder_primed] Prime_primed [OF founder_primed] s(2)
        List.map_filter_def best_at_def okk_def)
qed

theorem granted_device_reads_fleet_witness:
  "\<exists>events A' us B' c. GrantAllEpochs (plain_crypto sample_aad) digest_world sample_keys ''age1b'' founder = (Inr events, A') \<and>
     mapk (IngestGrant (plain_crypto sample_aad) digest_world) (grants_of events) joiner = (Inr us, B') \<and>
     EncryptEvent (plain_crypto sample_aad) digest_world sample_nonce (peer_event 1 ''h'') sample_wck 1 = Inr c \<and>
     DecryptEvent (plain_crypto sample_aad) digest_world c sample_wck = Inr (peer_event 1 ''h'')"
proof -
  obtain events A' where g: "GrantAllEpochs (plain_crypto sample_aad) digest_world sample_keys ''age1b'' founder = (Inr events, A')"
    using founder_grants by blast
  obtain c where c: "EncryptEvent (plain_crypto sample_aad) digest_world sample_nonce (peer_event 1 ''h'') sample_wck 1 = Inr c"
    by (simp add: EncryptEvent_def Let_def sample_wck_def wckSize_def sample_nonce_def nonceSize_def)
  have k: "length b = wckSize" if "cached i founder = Some b" for i b using that by (simp add: founder_cached sample_wck_def wckSize_def)
  have h: "int64 (fst h)" if "h \<in> set (HeldKeys (kr_store founder))" for h
    using that by (simp add: founder_def int64_def)
  have a: "ascii_str ''age1b''" by (simp add: is_ascii_def)
  have n: "length sample_nonce = nonceSize" by (simp add: sample_nonce_def nonceSize_def)
  have s: "sealable (peer_event 1 ''h'')" by (simp add: sealable_def peer_event_def event_zero_def is_ascii_def)
  have z: "(peer_event 1 ''h'')\<lparr>ev_created := []\<rparr> = peer_event 1 ''h''" by (simp add: peer_event_def event_zero_def)
  have "\<exists>us B'. mapk (IngestGrant (plain_crypto sample_aad) digest_world) (grants_of events) joiner = (Inr us, B') \<and>
     WCKCandidates 1 sample_kid B' = [sample_wck] \<and>
     DecryptEvent (plain_crypto sample_aad) digest_world c sample_wck = Inr ((peer_event 1 ''h'')\<lparr>ev_created := []\<rparr>)"
    by (rule granted_device_reads_fleet [OF founder_primed founder_bound digest_world32 _ _ a g joiner_receives joiner_agrees
          founder_push one_neq_zero c plain_aead_sound n s]) (use k h in simp)+
  then show ?thesis using g c unfolding z by blast
qed

definition rotated_kid :: string where
  "rotated_kid = KIDForWCK digest_world (replicate 32 (chr 65))"

lemma rotated_kid_new: "cached (e, rotated_kid) founder = None"
proof -
  have "chr 65 \<noteq> CHR ''k''" by code_simp
  then show ?thesis by (simp add: cached_def founder_def rotated_kid_def sample_kid_def KIDForWCK_def digest_world_def sample_wck_def)
qed

lemma founder_rotates: "\<exists>es k'. Rotate (plain_crypto a0) digest_world sample_keys founder = (Inr (2, es), k')"
proof -
  let ?b = "replicate 32 (chr 65)"
  let ?g = "\<lparr>kg_epoch = 2, kg_kid = rotated_kid, kg_recipient = ''age1a'', kg_wrapped = b64_enc (''a'' @ [chr 0] @ ?b)\<rparr>"
  let ?k1 = "founder\<lparr>kr_draws := 1\<rparr>" and ?k2 = "founder\<lparr>kr_draws := 2\<rparr>"
  have "NewWCK (plain_crypto a0) founder = (Inr ?b, ?k1)"
    by (simp add: NewWCK_def draw_def plain_crypto_def founder_def wckSize_def)
  moreover have "mapk (wrap_grant (plain_crypto a0) 2 rotated_kid ?b) [''age1a''] ?k1 = (Inr [?g], ?k2)"
    by (simp add: wrap_grant_def wrapWCK_def bindk_def draw_def plain_crypto_def okk_def founder_def prefixb_def)
  moreover have "kr_store founder = founder_store" "kr_store ?k1 = founder_store" by (simp_all add: founder_def)
  moreover obtain k3 where "store_key [] 2 rotated_kid ?b ?k2 = (Inr (), k3)" "kr_store k3 = founder_store"
  proof -
    have "open_custody (kr_secrets ?k2)"
      by (simp add: founder_def open_custody_def empty_secrets_def useKeychain_def)
    moreover have "validateKID rotated_kid = Inr ()" unfolding rotated_kid_def by (rule valid_kid) simp
    moreover have "validateWorkspaceID (kr_workspace ?k2) = Inr ()" by (simp add: founder_def kr_workspace_def)
    ultimately obtain st' where "StoreWCK (kr_workspace ?k2) 2 rotated_kid ?b (kr_secrets ?k2) = Inr st'"
      using open_custody_stores by blast
    then show ?thesis using that [of "?k2\<lparr>kr_secrets := st'\<rparr>"]
      by (simp add: store_key_def relabel_def) (simp add: founder_def)
  qed
  moreover obtain es k' where "mapk (emit_grant digest_world sample_keys ''rotate: '') [?g]
      (cacheWCK 2 rotated_kid originSelf ?b (on_store (RecordKeyEpoch digest_world 2 rotated_kid originSelf) k3)) = (Inr es, k')"
  proof -
    let ?s = "RecordKeyEpoch digest_world 2 rotated_kid originSelf founder_store"
    let ?k4 = "cacheWCK 2 rotated_kid originSelf ?b (on_store (RecordKeyEpoch digest_world 2 rotated_kid originSelf) k3)"
    have "?k4 = ?k4\<lparr>kr_store := ?s\<rparr>" using calculation by (simp add: cacheWCK_def on_store_def)
    moreover have "st_events ?s = []" "st_clocks ?s = []" "st_workspace ?s = ''ws''"
      "st_devices ?s = [(sample_device ''d'' trust_local [] None)\<lparr>dv_pub := ''age1a''\<rparr>]"
      by (simp_all add: RecordKeyEpoch_def founder_store_def empty_store_def)
    ultimately obtain e k5 where "emit_grant digest_world sample_keys ''rotate: '' ?g ?k4 = (Inr e, k5)"
      using founder_emits [of ?s "''rotate: ''" ?g ?k4] by metis
    then show ?thesis using that by (simp add: bindk_def okk_def)
  qed
  ultimately show ?thesis
    by (simp add: Rotate_def bindk_def resolve_primed [OF founder_primed] askk_def relabel_def founder_recipients
        rotated_kid_def [symmetric] updk_def okk_def Let_def del: mapk.simps)
qed

theorem rotation_moves_the_push_key_witness:
  "\<exists>es k'. Rotate (plain_crypto []) digest_world sample_keys founder = (Inr (2, es), k') \<and>
     PushKey (plain_crypto []) digest_world k' = (Inr (2, rotated_kid, replicate 32 (chr 65)), k')"
proof -
  have x: "x_random (plain_crypto []) (kr_draws founder) wckSize = replicate 32 (chr 65)"
    by (simp add: plain_crypto_def founder_def wckSize_def)
  obtain es k' where r: "Rotate (plain_crypto []) digest_world sample_keys founder = (Inr (2, es), k')"
    using founder_rotates by blast
  have n: "cached (e, KIDForWCK digest_world (x_random (plain_crypto []) (kr_draws founder) wckSize)) founder = None" for e
    unfolding x using rotated_kid_new by (simp add: rotated_kid_def)
  from rotation_moves_the_push_key [OF founder_primed digest_world32 allI, OF n] show ?thesis
    using r unfolding x by (auto simp: rotated_kid_def)
qed

end
