(* ===== verification/Retention.thy ===== *)
theory Retention
  imports Sync_Apply
begin

section \<open>The retention manifest\<close>

text \<open>
  The signed marker of \<^verbatim>\<open>src/internal/sync/snapshot.go\<close> that names, per device, the smallest
  sequence number the hub still keeps. The pull path reads its floors unverified; whatever is not
  a well-formed manifest is an error there, never the absence of floors.
\<close>

record snapshot_link =
  sl_epoch :: int
  sl_hlc :: int
  sl_kid :: string
  sl_produced_by :: string
  sl_sha :: string

record manifest =
  mf_v :: int
  mf_workspace :: string
  mf_floors :: "(string \<times> int) list option"
  mf_snapshot :: snapshot_link
  mf_produced_by :: string
  mf_produced_at :: int
  mf_prev :: string
  mf_min_reader :: int
  mf_sig :: string

definition snapshotVersion :: int where "snapshotVersion = 2"
definition minReadableRetentionManifestVersion :: int where "minReadableRetentionManifestVersion = 1"

definition retentionManifestVersionOK :: "int \<Rightarrow> bool" where
  "retentionManifestVersionOK v \<longleftrightarrow> v \<ge> minReadableRetentionManifestVersion \<and> v \<le> snapshotVersion"

definition RetentionSignatureDomain :: string where
  "RetentionSignatureDomain = ''devstrap:retention:v1''"

definition marshal_link :: "snapshot_link \<Rightarrow> string" where
  "marshal_link l = marshal_obj
     [jint ''epoch'' (sl_epoch l), jint ''hlc'' (sl_hlc l), jstr ''kid'' (sl_kid l),
      jstr ''produced_by'' (sl_produced_by l), jstr ''sha256'' (sl_sha l)]"

text \<open>A nil map is marshalled as \<^verbatim>\<open>null\<close>.\<close>

definition marshal_floors :: "(string \<times> int) list option \<Rightarrow> string" where
  "marshal_floors f = (case f of None \<Rightarrow> ''null'' | Some c \<Rightarrow> marshal_cursor c)"

definition RetentionSignaturePayload :: "manifest \<Rightarrow> string" where
  "RetentionSignaturePayload m = marshal_obj
     [Some (''floors'', marshal_floors (mf_floors m)), jint_opt ''min_reader_version'' (mf_min_reader m),
      jstr ''prev_sha256'' (mf_prev m), jint ''produced_at_hlc'' (mf_produced_at m),
      jstr ''produced_by'' (mf_produced_by m), Some (''snapshot'', marshal_link (mf_snapshot m)),
      jint ''v'' (mf_v m), jstr ''workspace_id'' (mf_workspace m)]"

definition SignRetentionManifest :: "world \<Rightarrow> manifest \<Rightarrow> string \<Rightarrow> manifest res" where
  "SignRetentionManifest w m0 privateSigningKey =
     (let m = m0\<lparr>mf_v := snapshotVersion\<rparr> in
      bindr (relabel ''sign retention manifest: ''
        (Sign w privateSigningKey RetentionSignatureDomain (RetentionSignaturePayload m)))
        (\<lambda>sg. Inr (m\<lparr>mf_sig := sg\<rparr>)))"

definition VerifyRetentionManifest :: "world \<Rightarrow> manifest \<Rightarrow> string \<Rightarrow> unit res" where
  "VerifyRetentionManifest w m publicSigningKey =
     (if \<not> retentionManifestVersionOK (mf_v m)
      then fail KSnapshotVerification (''retention manifest version '' @ show_int (mf_v m) @ '', want 1-2'')
      else if mf_min_reader m > snapshotVersion
      then fail KSnapshotVerification (''retention manifest declares min reader version '' @ show_int (mf_min_reader m))
      else if mf_sig m = [] then fail KSnapshotVerification ''retention manifest is unsigned''
      else case Verify w publicSigningKey (mf_sig m) RetentionSignatureDomain (RetentionSignaturePayload m) of
        Inl e \<Rightarrow> Inl (Err (KSnapshotVerification # err_kinds e) (''retention manifest signature: '' @ err_msg e))
      | Inr _ \<Rightarrow> Inr ())"

text \<open>A field that is a struct of its own.\<close>

definition struct_field ::
  "string \<Rightarrow> 's field list \<Rightarrow> (('s \<Rightarrow> 's) \<Rightarrow> 'r \<Rightarrow> 'r) \<Rightarrow> ('r \<Rightarrow> 's) \<Rightarrow> 'r field" where
  "struct_field name fs upd get = (name, \<lambda>j r. case j of
     JNull \<Rightarrow> Some r
   | JObj ms \<Rightarrow> map_option (\<lambda>v. upd (\<lambda>_. v) r) (set_fields fs ms (get r))
   | _ \<Rightarrow> None)"

definition link_zero :: snapshot_link where
  "link_zero = \<lparr>sl_epoch = 0, sl_hlc = 0, sl_kid = [], sl_produced_by = [], sl_sha = []\<rparr>"

definition manifest_zero :: manifest where
  "manifest_zero = \<lparr>mf_v = 0, mf_workspace = [], mf_floors = None, mf_snapshot = link_zero, mf_produced_by = [],
     mf_produced_at = 0, mf_prev = [], mf_min_reader = 0, mf_sig = []\<rparr>"

definition link_fields :: "snapshot_link field list" where
  "link_fields = [int_field ''epoch'' sl_epoch_update, int_field ''hlc'' sl_hlc_update, str_field ''kid'' sl_kid_update,
     str_field ''produced_by'' sl_produced_by_update, str_field ''sha256'' sl_sha_update]"

definition decode_manifest :: "string \<Rightarrow> manifest option" where
  "decode_manifest raw = unmarshal
     [int_field ''v'' mf_v_update, str_field ''workspace_id'' mf_workspace_update,
      int_map_field ''floors'' mf_floors_update mf_floors,
      struct_field ''snapshot'' link_fields mf_snapshot_update mf_snapshot,
      str_field ''produced_by'' mf_produced_by_update, int_field ''produced_at_hlc'' mf_produced_at_update,
      str_field ''prev_sha256'' mf_prev_update, int_field ''min_reader_version'' mf_min_reader_update,
      str_field ''sig'' mf_sig_update] manifest_zero raw"

text \<open>The loop over the floors stops at the first bad entry; Go visits the map in any order.\<close>

definition check_floors :: "(string \<times> int) list \<Rightarrow> unit res" where
  "check_floors fs =
     (case find (\<lambda>(dev, floor). dev = [] \<or> floor < 0) fs of
        None \<Rightarrow> Inr ()
      | Some (dev, floor) \<Rightarrow>
          if dev = [] then fail KOther ''parse retention manifest: empty device id in floors''
          else fail KOther (''parse retention manifest: negative floor '' @ show_int floor @ '' for device '' @ dev))"

definition ParseRetentionManifest :: "world \<Rightarrow> string \<Rightarrow> manifest res" where
  "ParseRetentionManifest w raw =
     (case decode_manifest raw of
        None \<Rightarrow> fail KOther (''parse retention manifest: '' @ w_decode_err w raw)
      | Some m \<Rightarrow>
          if \<not> retentionManifestVersionOK (mf_v m)
          then fail KOther (''parse retention manifest: version '' @ show_int (mf_v m) @ '', want 1-2'')
          else if mf_min_reader m > snapshotVersion
          then fail KOther (''parse retention manifest: declares min reader version '' @ show_int (mf_min_reader m))
          else case mf_floors m of
            None \<Rightarrow> fail KOther ''parse retention manifest: missing floors map''
          | Some fs \<Rightarrow> bindr (check_floors fs) (\<lambda>_. Inr m))"

definition ParseRetentionFloors :: "world \<Rightarrow> string \<Rightarrow> (string \<times> int) list res" where
  "ParseRetentionFloors w raw = bindr (ParseRetentionManifest w raw) (\<lambda>m. Inr (or_else (mf_floors m) []))"

definition CurrentSnapshotVersion :: int where
  "CurrentSnapshotVersion = snapshotVersion"

record version_stamp =
  vs_v :: int
  vs_min :: int

definition RetentionManifestVersionStamp :: "world \<Rightarrow> string \<Rightarrow> (int \<times> int) res" where
  "RetentionManifestVersionStamp w raw =
     (case unmarshal [int_field ''v'' vs_v_update, int_field ''min_reader_version'' vs_min_update]
        \<lparr>vs_v = 0, vs_min = 0\<rparr> raw of
        None \<Rightarrow> fail KOther (''read retention manifest version stamp: '' @ w_decode_err w raw)
      | Some s \<Rightarrow> Inr (vs_v s, vs_min s))"

lemma floors_shape:
  assumes "ParseRetentionFloors w raw = Inr fs"
  shows "(dev, floor) \<in> set fs \<Longrightarrow> dev \<noteq> [] \<and> 0 \<le> floor"
  using assms
  by (fastforce simp: ParseRetentionFloors_def ParseRetentionManifest_def check_floors_def fail_def find_None_iff
      split: option.splits if_splits prod.splits sum.splits)

lemma manifest_sign_verify:
  assumes "key_pair w pub priv" and "mf_min_reader m \<le> snapshotVersion"
  shows "\<exists>sg. SignRetentionManifest w m (key_text priv) = Inr (m\<lparr>mf_v := snapshotVersion, mf_sig := sg\<rparr>) \<and>
     VerifyRetentionManifest w (m\<lparr>mf_v := snapshotVersion, mf_sig := sg\<rparr>) (key_text pub) = Inr ()"
proof -
  let ?m = "m\<lparr>mf_v := snapshotVersion\<rparr>"
  let ?sg = "key_text (w_sign w priv (domainSeparatedMessage RetentionSignatureDomain (RetentionSignaturePayload ?m)))"
  have p: "RetentionSignaturePayload (m\<lparr>mf_v := snapshotVersion, mf_sig := x\<rparr>) = RetentionSignaturePayload ?m" for x
    by (simp add: RetentionSignaturePayload_def)
  have v: "retentionManifestVersionOK snapshotVersion"
    by (simp add: retentionManifestVersionOK_def minReadableRetentionManifestVersion_def snapshotVersion_def)
  have "SignRetentionManifest w m (key_text priv) = Inr (m\<lparr>mf_v := snapshotVersion, mf_sig := ?sg\<rparr>)"
    by (simp add: SignRetentionManifest_def Sign_key_pair [OF assms(1)] relabel_def Let_def)
  moreover have "VerifyRetentionManifest w (m\<lparr>mf_v := snapshotVersion, mf_sig := ?sg\<rparr>) (key_text pub) = Inr ()"
    using Verify_key_pair [OF assms(1)] assms(2) v by (simp add: VerifyRetentionManifest_def p)
  ultimately show ?thesis by blast
qed

end
