(* ===== verification/File_Hub.thy ===== *)
theory File_Hub
  imports Retention Custody "HOL-Library.AList"
begin

section \<open>The file hub\<close>

text \<open>
  The backend \<^verbatim>\<open>FileHub\<close> of \<^verbatim>\<open>src/internal/sync/hub.go\<close>: one file with the event log, a
  directory of blobs, one of snapshots, and the mutable markers. The state is what is on disk: the
  log in decoded form, a directory as the list of its files. Reads and writes of the file system
  succeed; an operation that fails leaves the disk as it was. The lock file that makes
  \<^verbatim>\<open>PutRetention\<close> atomic is the atomicity of the step.
\<close>

datatype log_file = No_Log | Bad_Log | Log "event list"

record disk_file =
  df_name :: string
  df_bytes :: string
  df_mtime :: int

record file_hub =
  fh_log :: log_file
  fh_blobs :: "disk_file list"
  fh_snapshots :: "disk_file list"
  fh_acks :: "disk_file list"
  fh_retention :: "string option"
  fh_lock :: "(string \<times> int) option"

type_synonym 'a hub_res = "('a \<times> file_hub) res"

definition empty_hub :: file_hub where
  "empty_hub = \<lparr>fh_log = No_Log, fh_blobs = [], fh_snapshots = [], fh_acks = [], fh_retention = None, fh_lock = None\<rparr>"

subsection \<open>Names\<close>

definition has_suffix :: "string \<Rightarrow> string \<Rightarrow> bool" where
  "has_suffix s t \<longleftrightarrow> length t \<le> length s \<and> drop (length s - length t) s = t"

definition trim_suffix :: "string \<Rightarrow> string \<Rightarrow> string" where
  "trim_suffix s t = (if has_suffix s t then take (length s - length t) s else s)"

fun has_dotdot :: "string \<Rightarrow> bool" where
  "has_dotdot (a # b # s) \<longleftrightarrow> a = CHR ''.'' \<and> b = CHR ''.'' \<or> has_dotdot (b # s)"
| "has_dotdot s \<longleftrightarrow> False"

definition hub_validateDeviceID :: "string \<Rightarrow> unit res" where
  "hub_validateDeviceID deviceID =
     (if deviceID = [] then fail KInvalidBlobKey ''invalid blob key: empty device id''
      else if has_separator deviceID \<or> has_dotdot deviceID
      then fail KInvalidBlobKey ''invalid blob key: device id contains a path separator''
      else Inr ())"

definition validateBlobKey :: "string \<Rightarrow> unit res" where
  "validateBlobKey key =
     (if length key \<noteq> 64 then fail KInvalidBlobKey (''invalid blob key: expected 64 hex chars, got '' @ show_nat (length key))
      else if has_separator key then fail KInvalidBlobKey ''invalid blob key: contains path separator''
      else if hex_dec key = None then fail KInvalidBlobKey ''invalid blob key: invalid hex''
      else Inr ())"

definition blob_file :: "string \<Rightarrow> string" where "blob_file key = key @ ''.blob''"
definition json_file :: "string \<Rightarrow> string" where "json_file key = key @ ''.json''"

definition contentETag :: "world \<Rightarrow> string \<Rightarrow> string" where
  "contentETag w raw = hex_enc (w_sha w raw)"

subsection \<open>The event log\<close>

definition sortEvents :: "event list \<Rightarrow> event list" where
  "sortEvents es = sort_key ev_hlc (sort_key ev_device (sort_key ev_id es))"

definition hub_read :: "file_hub \<Rightarrow> event list res" where
  "hub_read h = (case fh_log h of No_Log \<Rightarrow> Inr [] | Bad_Log \<Rightarrow> fail KOther ''decode hub'' | Log es \<Rightarrow> Inr es)"

definition hub_write :: "event list \<Rightarrow> file_hub \<Rightarrow> file_hub" where
  "hub_write es h = h\<lparr>fh_log := Log es\<rparr>"

text \<open>The loop of \<^verbatim>\<open>Push\<close> over the events, with the log and the ids seen so far.\<close>

definition push_event :: "event list \<Rightarrow> event \<Rightarrow> event list" where
  "push_event log e = (if ev_id e \<in> set (map ev_id log) then log else log @ [e])"

definition hub_Push :: "event list \<Rightarrow> file_hub \<Rightarrow> file_hub res" where
  "hub_Push events h = bindr (hub_read h) (\<lambda>log. Inr (hub_write (sortEvents (foldl push_event log events)) h))"

text \<open>\<^verbatim>\<open>RetentionSeqs\<close>, the floors given to the hub itself, only raise those of the manifest.\<close>

definition raise_floor :: "(string \<times> int) list \<Rightarrow> string \<times> int \<Rightarrow> (string \<times> int) list" where
  "raise_floor floors f = (case f of (dev, seq) \<Rightarrow>
     if seq > After floors dev then AList.update dev seq floors else floors)"

definition hub_GetRetention :: "world \<Rightarrow> file_hub \<Rightarrow> (string \<times> string) res" where
  "hub_GetRetention w h = (case fh_retention h of
     None \<Rightarrow> fail KRetentionNotFound ''no retention manifest on hub''
   | Some raw \<Rightarrow> Inr (raw, contentETag w raw))"

definition hub_retentionFloors :: "world \<Rightarrow> (string \<times> int) list \<Rightarrow> file_hub \<Rightarrow> (string \<times> int) list res" where
  "hub_retentionFloors w seqs h =
     bindr (case hub_GetRetention w h of
        Inl e \<Rightarrow> if KRetentionNotFound \<in> set (err_kinds e) then Inr [] else Inl e
      | Inr (raw, _) \<Rightarrow> relabel ''read retention manifest: '' (ParseRetentionFloors w raw))
     (\<lambda>floors. Inr (foldl raise_floor floors seqs))"

definition snapshot_required :: "(string \<times> int) list \<Rightarrow> transport_cursor \<Rightarrow> bool" where
  "snapshot_required floors after \<longleftrightarrow>
     list_ex (\<lambda>(dev, minRetained). minRetained > 0 \<and> wrap64 (After after dev + 1) < minRetained) floors"

definition above :: "transport_cursor \<Rightarrow> event \<Rightarrow> bool" where
  "above after e \<longleftrightarrow> ev_seq e \<le> 0 \<or> ev_seq e > After after (ev_device e)"

definition hub_Pull :: "world \<Rightarrow> (string \<times> int) list \<Rightarrow> transport_cursor \<Rightarrow> file_hub \<Rightarrow> event list res" where
  "hub_Pull w seqs after h =
     bindr (hub_retentionFloors w seqs h) (\<lambda>floors.
       if snapshot_required floors after then fail KSnapshotRequired ''full snapshot required''
       else bindr (hub_read h) (\<lambda>log. Inr (sortEvents (filter (above after) log))))"

definition hub_HasEvents :: "file_hub \<Rightarrow> bool res" where
  "hub_HasEvents h = bindr (hub_read h) (\<lambda>log. Inr (log \<noteq> []))"

definition compacted :: "transport_cursor \<Rightarrow> event \<Rightarrow> bool" where
  "compacted floors e \<longleftrightarrow> ev_seq e > 0 \<and> After floors (ev_device e) > 0 \<and> ev_seq e < After floors (ev_device e)"

definition drop_events :: "(event \<Rightarrow> bool) \<Rightarrow> file_hub \<Rightarrow> nat hub_res" where
  "drop_events P h = bindr (hub_read h) (\<lambda>log.
     let deleted = length (filter P log) in
     if deleted = 0 then Inr (0, h) else Inr (deleted, hub_write (filter (\<lambda>e. \<not> P e) log) h))"

definition hub_CompactEventsBelow :: "transport_cursor \<Rightarrow> file_hub \<Rightarrow> nat hub_res" where
  "hub_CompactEventsBelow floors h = drop_events (compacted floors) h"

definition hub_DeleteDeviceStream :: "string \<Rightarrow> file_hub \<Rightarrow> nat hub_res" where
  "hub_DeleteDeviceStream deviceID h =
     bindr (hub_validateDeviceID deviceID) (\<lambda>_. drop_events (\<lambda>e. ev_device e = deviceID) h)"

definition hub_MigrateLegacyEvents :: "bool \<Rightarrow> file_hub \<Rightarrow> (int \<times> int) hub_res" where
  "hub_MigrateLegacyEvents dryRun h = Inr ((0, 0), h)"

subsection \<open>The retention marker\<close>

definition hub_PutRetention :: "world \<Rightarrow> string \<Rightarrow> string \<Rightarrow> file_hub \<Rightarrow> file_hub res" where
  "hub_PutRetention w raw ifMatchETag h =
     (case fh_retention h of
        None \<Rightarrow>
          if ifMatchETag \<noteq> [] then fail KRetentionConflict (''manifest absent, expected etag '' @ ifMatchETag)
          else Inr (h\<lparr>fh_retention := Some raw\<rparr>)
      | Some current \<Rightarrow>
          if ifMatchETag = [] then fail KRetentionConflict ''manifest already exists''
          else if contentETag w current \<noteq> ifMatchETag then fail KRetentionConflict ''etag mismatch''
          else Inr (h\<lparr>fh_retention := Some raw\<rparr>))"

subsection \<open>Blobs\<close>

definition file_bytes :: "string \<Rightarrow> disk_file list \<Rightarrow> string option" where
  "file_bytes name d = map_option df_bytes (tget df_name name d)"

definition write_disk :: "int \<Rightarrow> string \<Rightarrow> string \<Rightarrow> disk_file list \<Rightarrow> disk_file list" where
  "write_disk now name bytes d =
     tput df_name \<lparr>df_name = name, df_bytes = bytes, df_mtime = now\<rparr> (\<lambda>f. f\<lparr>df_bytes := bytes, df_mtime := now\<rparr>) d"

definition remove_file :: "string \<Rightarrow> disk_file list \<Rightarrow> disk_file list" where
  "remove_file name = tdel (\<lambda>f. df_name f = name)"

text \<open>\<^verbatim>\<open>os.ReadDir\<close> lists a directory by name.\<close>

definition listing :: "disk_file list \<Rightarrow> disk_file list" where
  "listing d = sort_key df_name d"

definition hub_PutBlob :: "int \<Rightarrow> string \<Rightarrow> string \<Rightarrow> file_hub \<Rightarrow> file_hub res" where
  "hub_PutBlob now key body h = bindr (validateBlobKey key) (\<lambda>_.
     case file_bytes (blob_file key) (fh_blobs h) of
       Some old \<Rightarrow> Inr (h\<lparr>fh_blobs := tmod (\<lambda>f. df_name f = blob_file key) (df_mtime_update (\<lambda>_. now)) (fh_blobs h)\<rparr>)
     | None \<Rightarrow> Inr (h\<lparr>fh_blobs := write_disk now (blob_file key) body (fh_blobs h)\<rparr>))"

definition hub_GetBlob :: "string \<Rightarrow> file_hub \<Rightarrow> string res" where
  "hub_GetBlob key h = bindr (validateBlobKey key) (\<lambda>_.
     case file_bytes (blob_file key) (fh_blobs h) of
       None \<Rightarrow> fail KBlobNotFound (''blob not found: '' @ key) | Some b \<Rightarrow> Inr b)"

definition hub_DeleteBlob :: "string \<Rightarrow> file_hub \<Rightarrow> file_hub res" where
  "hub_DeleteBlob key h = bindr (validateBlobKey key) (\<lambda>_.
     Inr (h\<lparr>fh_blobs := remove_file (blob_file key) (fh_blobs h)\<rparr>))"

definition hub_ListBlobs :: "file_hub \<Rightarrow> (string \<times> int) list" where
  "hub_ListBlobs h = List.map_filter (\<lambda>f.
     if has_suffix (df_name f) ''.blob'' \<and> validateBlobKey (trim_suffix (df_name f) ''.blob'') = Inr ()
     then Some (trim_suffix (df_name f) ''.blob'', df_mtime f) else None) (listing (fh_blobs h))"

definition hub_StatBlob :: "string \<Rightarrow> file_hub \<Rightarrow> (string \<times> int) res" where
  "hub_StatBlob key h = bindr (validateBlobKey key) (\<lambda>_.
     case tget df_name (blob_file key) (fh_blobs h) of
       None \<Rightarrow> fail KBlobNotFound (''blob not found: '' @ key) | Some f \<Rightarrow> Inr (key, df_mtime f))"

subsection \<open>Snapshot objects\<close>

definition hub_PutSnapshotObject :: "world \<Rightarrow> int \<Rightarrow> string \<Rightarrow> string \<Rightarrow> file_hub \<Rightarrow> file_hub res" where
  "hub_PutSnapshotObject w now key body h = bindr (validateBlobKey key) (\<lambda>_.
     if contentETag w body \<noteq> key then fail KInvalidBlobKey (''snapshot body does not hash to its key '' @ key)
     else if file_bytes (json_file key) (fh_snapshots h) \<noteq> None then Inr h
     else Inr (h\<lparr>fh_snapshots := write_disk now (json_file key) body (fh_snapshots h)\<rparr>))"

definition hub_GetSnapshotObject :: "string \<Rightarrow> file_hub \<Rightarrow> string res" where
  "hub_GetSnapshotObject key h = bindr (validateBlobKey key) (\<lambda>_.
     case file_bytes (json_file key) (fh_snapshots h) of
       None \<Rightarrow> fail KBlobNotFound (''blob not found: snapshot '' @ key) | Some b \<Rightarrow> Inr b)"

definition hub_ListSnapshotObjects :: "file_hub \<Rightarrow> (string \<times> int) list" where
  "hub_ListSnapshotObjects h = List.map_filter (\<lambda>f.
     if validateBlobKey (trim_suffix (df_name f) ''.json'') = Inr ()
     then Some (trim_suffix (df_name f) ''.json'', df_mtime f) else None) (listing (fh_snapshots h))"

definition hub_DeleteSnapshotObject :: "string \<Rightarrow> file_hub \<Rightarrow> file_hub res" where
  "hub_DeleteSnapshotObject key h = bindr (validateBlobKey key) (\<lambda>_.
     Inr (h\<lparr>fh_snapshots := remove_file (json_file key) (fh_snapshots h)\<rparr>))"

subsection \<open>Acknowledgements and the sweep lock\<close>

definition hub_PutAck :: "int \<Rightarrow> string \<Rightarrow> string \<Rightarrow> file_hub \<Rightarrow> file_hub res" where
  "hub_PutAck now deviceID raw h = bindr (hub_validateDeviceID deviceID) (\<lambda>_.
     Inr (h\<lparr>fh_acks := write_disk now (json_file deviceID) raw (fh_acks h)\<rparr>))"

definition hub_ListAcks :: "file_hub \<Rightarrow> (string \<times> string) list" where
  "hub_ListAcks h = List.map_filter (\<lambda>f.
     if has_suffix (df_name f) ''.json'' \<and> hub_validateDeviceID (trim_suffix (df_name f) ''.json'') = Inr ()
     then Some (trim_suffix (df_name f) ''.json'', df_bytes f) else None) (listing (fh_acks h))"

definition hub_DeleteAck :: "string \<Rightarrow> file_hub \<Rightarrow> file_hub res" where
  "hub_DeleteAck deviceID h = bindr (hub_validateDeviceID deviceID) (\<lambda>_.
     Inr (h\<lparr>fh_acks := remove_file (json_file deviceID) (fh_acks h)\<rparr>))"

definition hub_GetSweepLock :: "file_hub \<Rightarrow> (string \<times> int) res" where
  "hub_GetSweepLock h = (case fh_lock h of None \<Rightarrow> fail KSweepLockNotFound ''sweep lock not found'' | Some l \<Rightarrow> Inr l)"

definition hub_PutSweepLock :: "int \<Rightarrow> string \<Rightarrow> file_hub \<Rightarrow> file_hub res" where
  "hub_PutSweepLock now raw h = (if fh_lock h \<noteq> None then fail KSweepLockHeld ''sweep lock already held''
     else Inr (h\<lparr>fh_lock := Some (raw, now)\<rparr>))"

definition hub_DeleteSweepLock :: "file_hub \<Rightarrow> file_hub" where
  "hub_DeleteSweepLock h = h\<lparr>fh_lock := None\<rparr>"

end
