(* ===== verification/Hub_Laws.thy ===== *)
theory Hub_Laws
  imports File_Hub
begin

section \<open>What a device may rely on at a hub\<close>

text \<open>
  The event plane of the interface \<^verbatim>\<open>Hub\<close>, as its comment states it: a push adds events
  and never repeats an id, a pull returns exactly the events above the cursor in the order of
  application, or asks for a snapshot, and a compaction removes what lies below the floors.
\<close>

text \<open>A hub keeps the events of an id once; of two with one id, the one that came first.\<close>

definition first_wins :: "event list \<Rightarrow> event list \<Rightarrow> event set" where
  "first_wins log events = set log \<union> {e. ev_id e \<notin> ev_id ` set log \<and> tget ev_id (ev_id e) events = Some e}"

locale event_hub =
  fixes log_of :: "'h \<Rightarrow> event list"
    and floors_of :: "'h \<Rightarrow> transport_cursor"
    and push :: "event list \<Rightarrow> 'h \<Rightarrow> 'h res"
    and pull :: "transport_cursor \<Rightarrow> 'h \<Rightarrow> event list res"
    and compact :: "transport_cursor \<Rightarrow> 'h \<Rightarrow> (nat \<times> 'h) res"
    and sound :: "'h \<Rightarrow> bool"
    and fits :: "'h \<Rightarrow> event list \<Rightarrow> bool"
    and readable :: "transport_cursor \<Rightarrow> bool"
  assumes push_ok: "sound h \<Longrightarrow> fits h events \<Longrightarrow> \<exists>h'. push events h = Inr h' \<and> sound h' \<and> floors_of h' = floors_of h \<and>
      set (log_of h') = first_wins (log_of h) events \<and> (uniq ev_id (log_of h) \<longrightarrow> uniq ev_id (log_of h'))"
    and pull_ok: "sound h \<Longrightarrow> readable after \<Longrightarrow> \<not> snapshot_required (floors_of h) after \<Longrightarrow>
      pull after h = Inr (sortEvents (filter (above after) (log_of h)))"
    and pull_gap: "sound h \<Longrightarrow> snapshot_required (floors_of h) after \<Longrightarrow> pull after h = fail KSnapshotRequired ''full snapshot required''"
    and compact_ok: "sound h \<Longrightarrow> readable floors \<Longrightarrow> \<exists>n h'. compact floors h = Inr (n, h') \<and> sound h' \<and> floors_of h' = floors_of h \<and>
      n = length (filter (compacted floors) (log_of h)) \<and> log_of h' = filter (\<lambda>e. \<not> compacted floors e) (log_of h)"
begin

lemma pulled:
  assumes "sound h" "readable after" "pull after h = Inr es"
  shows "es = sortEvents (filter (above after) (log_of h)) \<and> \<not> snapshot_required (floors_of h) after"
  using assms pull_ok [of h after] pull_gap [of h after]
  by (cases "snapshot_required (floors_of h) after") (auto simp: fail_def)

text \<open>What one device pushes, the next pull of another one brings, below whose cursor it lies not.\<close>

lemma pushed_is_pulled:
  assumes "sound h" "push events h = Inr h'" "pull after h' = Inr es"
    and "e \<in> set events" "above after e" "ev_id e \<notin> ev_id ` set (log_of h)" "uniq ev_id events"
    and "fits h events" "readable after"
  shows "e \<in> set es"
proof -
  have "sound h' \<and> e \<in> set (log_of h')"
    using push_ok [OF assms(1,8)] assms(2,4,6,7) by (auto simp: first_wins_def tget_uniq)
  then show ?thesis using pulled [OF _ assms(9,3)] assms(5) by (auto simp: sortEvents_def)
qed

text \<open>Pushing again changes no pull.\<close>

lemma push_again:
  assumes "sound h" "uniq ev_id (log_of h)" "push events h = Inr h1" "push events h1 = Inr h2"
    and "fits h events" "fits h1 events"
  shows "mset (log_of h2) = mset (log_of h1)"
proof -
  have 1: "sound h1" "set (log_of h1) = first_wins (log_of h) events" "uniq ev_id (log_of h1)"
    using push_ok [OF assms(1,5)] assms(2,3) by auto
  have 2: "set (log_of h2) = first_wins (log_of h1) events" "uniq ev_id (log_of h2)"
    using push_ok [OF 1(1) assms(6)] 1(3) assms(4) by auto
  have "e \<in> set (log_of h1)" if "tget ev_id (ev_id e) events = Some e" "ev_id e \<notin> ev_id ` set (log_of h1)" for e
    using that unfolding 1(2) by (auto simp: first_wins_def)
  then have "set (log_of h2) = set (log_of h1)" unfolding 2(1) by (auto simp: first_wins_def)
  moreover have "distinct (log_of h1)" "distinct (log_of h2)"
    using 1(3) 2(2) by (auto simp: uniq_def distinct_map)
  ultimately show ?thesis by (simp add: set_eq_iff_mset_eq_distinct)
qed

text \<open>A compaction below published floors is invisible: every cursor gets what it would have got, or
  is sent to the snapshot.\<close>

lemma compaction_invisible:
  assumes "sound h" "compact floors h = Inr (n, h')"
    and "\<And>dev. 0 < After floors dev \<Longrightarrow> \<exists>m \<ge> After floors dev. (dev, m) \<in> set (floors_of h)"
    and "\<And>dev. int64 (After after dev + 1)" and "readable floors" "readable after"
  shows "pull after h' = pull after h"
proof -
  have h': "sound h'" "floors_of h' = floors_of h" "log_of h' = filter (\<lambda>e. \<not> compacted floors e) (log_of h)"
    using compact_ok [OF assms(1,5)] assms(2) by auto
  show ?thesis
  proof (cases "snapshot_required (floors_of h) after")
    case True
    then show ?thesis using pull_gap [OF assms(1) True] pull_gap [OF h'(1)] h'(2) by (auto simp: fail_def)
  next
    case False
    have "\<not> compacted floors e" if "above after e" for e
    proof
      assume c: "compacted floors e"
      then obtain m where m: "m \<ge> After floors (ev_device e)" "(ev_device e, m) \<in> set (floors_of h)"
        using assms(3) by (auto simp: compacted_def)
      have "After after (ev_device e) + 1 < m" using c m that by (auto simp: compacted_def above_def)
      then have "snapshot_required (floors_of h) after"
        unfolding snapshot_required_def list_ex_iff
        using m(1) c assms(4) [of "ev_device e"] by (intro bexI [OF _ m(2)]) (auto simp: compacted_def)
      then show False using False by simp
    qed
    then have "filter (above after) (log_of h') = filter (above after) (log_of h)"
      unfolding h'(3) by (auto simp: conj_commute intro: filter_cong)
    then show ?thesis using pull_ok [OF assms(1,6) False] pull_ok [OF h'(1) assms(6)] h'(2) False by simp
  qed
qed

end

subsection \<open>The file hub keeps the contract\<close>

definition file_log :: "file_hub \<Rightarrow> event list" where
  "file_log h = (case hub_read h of Inr es \<Rightarrow> es | Inl e \<Rightarrow> [])"

definition file_floors :: "world \<Rightarrow> (string \<times> int) list \<Rightarrow> file_hub \<Rightarrow> transport_cursor" where
  "file_floors w seqs h = (case hub_retentionFloors w seqs h of Inr fs \<Rightarrow> fs | Inl e \<Rightarrow> [])"

definition file_sound :: "world \<Rightarrow> (string \<times> int) list \<Rightarrow> file_hub \<Rightarrow> bool" where
  "file_sound w seqs h \<longleftrightarrow> (\<exists>es. hub_read h = Inr es) \<and> (\<exists>fs. hub_retentionFloors w seqs h = Inr fs)"

lemma file_soundD:
  "file_sound w seqs h \<Longrightarrow> hub_read h = Inr (file_log h) \<and> hub_retentionFloors w seqs h = Inr (file_floors w seqs h)"
  by (auto simp: file_sound_def file_log_def file_floors_def)

lemma floors_hub_write [simp]: "hub_retentionFloors w seqs (hub_write es h) = hub_retentionFloors w seqs h"
  by (simp add: hub_retentionFloors_def hub_GetRetention_def hub_write_def)

lemma file_hub_write [simp]:
  "file_log (hub_write es h) = es" "file_floors w seqs (hub_write es h) = file_floors w seqs h"
  "file_sound w seqs (hub_write es h) \<longleftrightarrow> (\<exists>fs. hub_retentionFloors w seqs h = Inr fs)"
  by (simp_all add: file_log_def file_floors_def file_sound_def) (simp_all add: hub_read_def hub_write_def)

lemma sortEvents_simps [simp]: "set (sortEvents es) = set es" "uniq ev_id (sortEvents es) = uniq ev_id es"
proof -
  show "set (sortEvents es) = set es" by (simp add: sortEvents_def)
  have "mset (map ev_id (sortEvents es)) = mset (map ev_id es)" by (simp add: sortEvents_def)
  then show "uniq ev_id (sortEvents es) = uniq ev_id es" unfolding uniq_def by (rule mset_eq_imp_distinct_iff)
qed

lemma push_fold:
  "set (foldl push_event log events) = first_wins log events \<and>
     (uniq ev_id log \<longrightarrow> uniq ev_id (foldl push_event log events))"
proof (induction events arbitrary: log)
  case Nil
  then show ?case by (simp add: first_wins_def)
next
  case (Cons e es)
  have "first_wins (push_event log e) es = first_wins log (e # es)"
    by (force simp: first_wins_def push_event_def dest: tget_SomeD)
  moreover have "uniq ev_id log \<longrightarrow> uniq ev_id (push_event log e)"
    by (auto simp: push_event_def uniq_def)
  ultimately show ?case using Cons.IH [of "push_event log e"] by simp
qed

lemma drop_events_sound:
  assumes "file_sound w seqs h"
  shows "\<exists>h'. drop_events P h = Inr (length (filter P (file_log h)), h') \<and> file_sound w seqs h' \<and>
    file_floors w seqs h' = file_floors w seqs h \<and> file_log h' = filter (\<lambda>e. \<not> P e) (file_log h)"
proof (cases "filter P (file_log h) = []")
  case True
  then show ?thesis using assms file_soundD [OF assms]
    by (auto simp: drop_events_def filter_empty_conv intro!: filter_True [symmetric])
next
  case False
  then show ?thesis using assms file_soundD [OF assms] by (auto simp: drop_events_def)
qed

interpretation fh: event_hub file_log "file_floors w seqs" hub_Push "hub_Pull w seqs" hub_CompactEventsBelow "file_sound w seqs"
    "\<lambda>h events. True" "\<lambda>after. True"
  for w seqs
proof
  fix h events
  assume s: "file_sound w seqs h"
  show "\<exists>h'. hub_Push events h = Inr h' \<and> file_sound w seqs h' \<and> file_floors w seqs h' = file_floors w seqs h \<and>
      set (file_log h') = first_wins (file_log h) events \<and> (uniq ev_id (file_log h) \<longrightarrow> uniq ev_id (file_log h'))"
    using file_soundD [OF s] push_fold [of "file_log h" events] by (auto simp: hub_Push_def)
next
  fix h after
  assume s: "file_sound w seqs h"
  show "\<not> snapshot_required (file_floors w seqs h) after \<Longrightarrow>
      hub_Pull w seqs after h = Inr (sortEvents (filter (above after) (file_log h)))"
    using file_soundD [OF s] by (simp add: hub_Pull_def)
  show "snapshot_required (file_floors w seqs h) after \<Longrightarrow> hub_Pull w seqs after h = fail KSnapshotRequired ''full snapshot required''"
    using file_soundD [OF s] by (simp add: hub_Pull_def)
next
  fix h floors
  assume s: "file_sound w seqs h"
  show "\<exists>n h'. hub_CompactEventsBelow floors h = Inr (n, h') \<and> file_sound w seqs h' \<and>
      file_floors w seqs h' = file_floors w seqs h \<and> n = length (filter (compacted floors) (file_log h)) \<and>
      file_log h' = filter (\<lambda>e. \<not> compacted floors e) (file_log h)"
    using drop_events_sound [OF s] unfolding hub_CompactEventsBelow_def by blast
qed


subsection \<open>Every state of a file hub is well-formed\<close>

text \<open>The operations of a file hub that write, as its clients may interleave them.\<close>

inductive hub_step :: "world \<Rightarrow> file_hub \<Rightarrow> file_hub \<Rightarrow> bool" for w where
  push: "hub_Push events h = Inr h' \<Longrightarrow> hub_step w h h'"
| compact: "hub_CompactEventsBelow floors h = Inr (n, h') \<Longrightarrow> hub_step w h h'"
| delete_stream: "hub_DeleteDeviceStream d h = Inr (n, h') \<Longrightarrow> hub_step w h h'"
| migrate: "hub_MigrateLegacyEvents dry h = Inr (r, h') \<Longrightarrow> hub_step w h h'"
| put_retention: "hub_PutRetention w raw etag h = Inr h' \<Longrightarrow> hub_step w h h'"
| put_blob: "hub_PutBlob now key body h = Inr h' \<Longrightarrow> hub_step w h h'"
| delete_blob: "hub_DeleteBlob key h = Inr h' \<Longrightarrow> hub_step w h h'"
| put_snapshot: "hub_PutSnapshotObject w now key body h = Inr h' \<Longrightarrow> hub_step w h h'"
| delete_snapshot: "hub_DeleteSnapshotObject key h = Inr h' \<Longrightarrow> hub_step w h h'"
| put_ack: "hub_PutAck now d raw h = Inr h' \<Longrightarrow> hub_step w h h'"
| delete_ack: "hub_DeleteAck d h = Inr h' \<Longrightarrow> hub_step w h h'"
| put_lock: "hub_PutSweepLock now raw h = Inr h' \<Longrightarrow> hub_step w h h'"
| delete_lock: "hub_step w h (hub_DeleteSweepLock h)"

text \<open>The log is in the order of application and repeats no id; the files of a directory have
  distinct names, each the name of a valid key; the body of a snapshot object hashes to its key.\<close>

definition dir_ok :: "(string \<Rightarrow> string) \<Rightarrow> (string \<Rightarrow> bool) \<Rightarrow> (string \<Rightarrow> string \<Rightarrow> bool) \<Rightarrow> disk_file list \<Rightarrow> bool" where
  "dir_ok name valid body d \<longleftrightarrow> uniq df_name d \<and>
     (\<forall>f \<in> set d. \<exists>key. df_name f = name key \<and> valid key \<and> body key (df_bytes f))"

definition hub_ok :: "world \<Rightarrow> file_hub \<Rightarrow> bool" where
  "hub_ok w h \<longleftrightarrow>
     (case fh_log h of No_Log \<Rightarrow> True | Bad_Log \<Rightarrow> False | Log es \<Rightarrow> sortEvents es = es \<and> uniq ev_id es) \<and>
     dir_ok blob_file (\<lambda>k. validateBlobKey k = Inr ()) (\<lambda>k b. True) (fh_blobs h) \<and>
     dir_ok json_file (\<lambda>k. validateBlobKey k = Inr ()) (\<lambda>k b. contentETag w b = k) (fh_snapshots h) \<and>
     dir_ok json_file (\<lambda>d. hub_validateDeviceID d = Inr ()) (\<lambda>k b. True) (fh_acks h)"

lemma sortEvents_mset:
  assumes "mset es = mset fs" "uniq ev_id es"
  shows "sortEvents es = sortEvents fs"
proof -
  have "inj_on ev_id (set es)" using assms(2) by (simp add: uniq_def distinct_map)
  then have "sort_key ev_id es = sort_key ev_id fs"
    using assms(1) by (intro sort_key_inj_key_eq) simp_all
  then show ?thesis by (simp add: sortEvents_def)
qed

lemma mset_sortEvents [simp]: "mset (sortEvents es) = mset es"
  by (simp add: sortEvents_def)

lemma sortEvents_twice [simp]: "uniq ev_id es \<Longrightarrow> sortEvents (sortEvents es) = sortEvents es"
  by (rule sortEvents_mset) simp_all

lemma sort_key_filter: "filter P (sort_key f xs) = sort_key f (filter P xs)"
  by (induction xs) (auto simp: filter_insort filter_insort_triv)

lemma sortEvents_filter: "filter P (sortEvents es) = sortEvents (filter P es)"
  by (simp add: sortEvents_def sort_key_filter)

lemma uniq_filtered: "uniq key t \<Longrightarrow> uniq key (filter P t)"
  using uniq_tdel [of key t "\<lambda>x. \<not> P x"] by (simp add: tdel_def)

lemma dir_ok_write:
  assumes "dir_ok name valid body d" "valid key" "body key b" "inj name"
  shows "dir_ok name valid body (write_disk now (name key) b d)"
proof -
  let ?t = "tput df_name \<lparr>df_name = name key, df_bytes = b, df_mtime = now\<rparr> (\<lambda>f. f\<lparr>df_bytes := b, df_mtime := now\<rparr>) d"
  have "uniq df_name ?t" using assms by (intro uniq_tput) (simp_all add: dir_ok_def)
  moreover have "\<exists>k. df_name f = name k \<and> valid k \<and> body k (df_bytes f)" if "f \<in> set ?t" for f
    using that assms by (auto simp: dir_ok_def tput_def in_tmod split: if_splits) 
  ultimately show ?thesis by (simp add: dir_ok_def write_disk_def)
qed

lemma dir_ok_remove: "dir_ok name valid body d \<Longrightarrow> dir_ok name valid body (remove_file n d)"
  by (auto simp: dir_ok_def remove_file_def uniq_tdel) (auto simp: tdel_def)

lemma dir_ok_touch: "dir_ok name valid body d \<Longrightarrow> dir_ok name valid body (tmod P (df_mtime_update g) d)"
  by (auto simp: dir_ok_def uniq_tmod in_tmod)

lemma name_inj: "inj blob_file" "inj json_file"
  by (simp_all add: inj_def blob_file_def json_file_def)

lemma drop_events_ok:
  assumes "drop_events P h = Inr (n, h')" "hub_ok w h"
  shows "hub_ok w h'"
  using assms
  by (auto simp: drop_events_def hub_ok_def hub_read_def hub_write_def Let_def sortEvents_filter [symmetric] uniq_filtered
      split: if_splits log_file.splits)

lemma hub_step_ok:
  assumes "hub_step w h h'" "hub_ok w h"
  shows "hub_ok w h'"
  using assms
proof cases
  case (push events)
  then show ?thesis using assms(2) push_fold [of _ events]
    by (auto simp: hub_Push_def hub_ok_def hub_read_def hub_write_def split: log_file.splits)
next
  case (compact floors n)
  then show ?thesis using drop_events_ok [OF _ assms(2)] by (simp add: hub_CompactEventsBelow_def)
next
  case (delete_stream d n)
  then show ?thesis using drop_events_ok [OF _ assms(2)] by (auto simp: hub_DeleteDeviceStream_def bindr_Inr_iff)
next
  case (put_blob now key body)
  then show ?thesis using assms(2) name_inj
    by (auto simp: hub_PutBlob_def hub_ok_def bindr_Inr_iff dir_ok_write dir_ok_touch split: option.splits)
next
  case (put_snapshot now key body)
  then show ?thesis using assms(2) name_inj
    by (auto simp: hub_PutSnapshotObject_def hub_ok_def bindr_Inr_iff intro: dir_ok_write split: if_splits)
next
  case (put_ack now d raw)
  then show ?thesis using assms(2) name_inj
    by (auto simp: hub_PutAck_def hub_ok_def bindr_Inr_iff dir_ok_write)
next
  case (put_lock now raw)
  then show ?thesis using assms(2) by (auto simp: hub_PutSweepLock_def hub_ok_def split: if_splits)
next
  case (put_retention raw etag)
  then show ?thesis using assms(2) by (auto simp: hub_PutRetention_def hub_ok_def split: if_splits option.splits)
qed (use assms(2) in \<open>auto simp: hub_MigrateLegacyEvents_def hub_DeleteBlob_def hub_DeleteSnapshotObject_def hub_DeleteAck_def
       hub_DeleteSweepLock_def hub_ok_def bindr_Inr_iff dir_ok_remove\<close>)

lemma empty_hub_ok: "hub_ok w empty_hub"
  by (simp add: hub_ok_def empty_hub_def dir_ok_def)

lemma reachable_hub_ok:
  assumes "(hub_step w)\<^sup>*\<^sup>* empty_hub h"
  shows "hub_ok w h"
    and "hub_GetSnapshotObject key h = Inr body \<Longrightarrow> contentETag w body = key"
proof -
  show ok: "hub_ok w h" using assms
    by (induction rule: rtranclp_induct) (auto intro: hub_step_ok empty_hub_ok)
  show "hub_GetSnapshotObject key h = Inr body \<Longrightarrow> contentETag w body = key"
    using ok name_inj(2)
    by (auto simp: hub_GetSnapshotObject_def bindr_Inr_iff hub_ok_def dir_ok_def file_bytes_def
        json_file_def dest!: tget_SomeD split: option.splits)
qed

text \<open>C33: whatever its clients do, in whatever order, a file hub that started empty stays
  well-formed: the log is decodable, in the order of application and repeats no event id, no file
  lies outside the names of valid keys, and a snapshot object that is read hashes to the key it
  was asked for.\<close>

theorem hub_stays_well_formed:
  assumes "(hub_step w)\<^sup>*\<^sup>* empty_hub h"
  shows "hub_ok w h \<and> (\<forall>key body. hub_GetSnapshotObject key h = Inr body \<longrightarrow> contentETag w body = key)"
  using reachable_hub_ok [OF assms] by blast

abbreviation hub_event :: "string \<Rightarrow> int \<Rightarrow> event" where
  "hub_event i n \<equiv> event_zero\<lparr>ev_id := i, ev_device := ''d'', ev_seq := n, ev_hlc := n\<rparr>"

definition pushed_hub :: file_hub where
  "pushed_hub = empty_hub\<lparr>fh_log := Log [hub_event ''a'' 1, hub_event ''b'' 2]\<rparr>"

lemma push_sample: "hub_Push [hub_event ''b'' 2, hub_event ''a'' 1] empty_hub = Inr pushed_hub"
  by (simp add: hub_Push_def hub_read_def empty_hub_def push_event_def sortEvents_def hub_write_def pushed_hub_def event_zero_def)

theorem hub_stays_well_formed_witness:
  "(hub_step (plain_world 0))\<^sup>*\<^sup>* empty_hub pushed_hub \<and> hub_ok (plain_world 0) pushed_hub"
proof -
  have s: "(hub_step (plain_world 0))\<^sup>*\<^sup>* empty_hub pushed_hub"
    by (rule r_into_rtranclp, rule hub_step.push, rule push_sample)
  from hub_stays_well_formed [OF s] s show ?thesis by blast
qed

lemma pulled_after_push:
  assumes "file_sound w seqs h" and "uniq ev_id (file_log h)" and "uniq ev_id events"
    and "hub_Push events h = Inr h'" and "hub_Pull w seqs after h' = Inr es"
  shows "set es = {e \<in> set (file_log h) \<union> {e \<in> set events. ev_id e \<notin> ev_id ` set (file_log h)}. above after e}"
    and "sorted (map ev_hlc es)" and "uniq ev_id es" and "hub_Push events h' = Inr h'"
proof -
  have h': "file_sound w seqs h'" "set (file_log h') = first_wins (file_log h) events" "uniq ev_id (file_log h')"
    using fh.push_ok [OF assms(1) TrueI, of events] assms(2,4) by auto
  have es: "es = sortEvents (filter (above after) (file_log h'))" using fh.pulled [OF h'(1) TrueI assms(5)] by blast
  show "set es = {e \<in> set (file_log h) \<union> {e \<in> set events. ev_id e \<notin> ev_id ` set (file_log h)}. above after e}"
    unfolding es using h'(2) assms(3) by (auto simp: first_wins_def tget_uniq)
  show "sorted (map ev_hlc es)" unfolding es by (simp add: sortEvents_def)
  show "uniq ev_id es" unfolding es using h'(3) by (simp add: uniq_filtered)
  have r: "hub_read h = Inr (file_log h)" using file_soundD [OF assms(1)] by blast
  then have h: "h' = hub_write (sortEvents (foldl push_event (file_log h) events)) h"
    using assms(4) by (simp add: hub_Push_def)
  then have l: "file_log h' = sortEvents (foldl push_event (file_log h) events)" by simp
  have "foldl push_event (file_log h') es' = file_log h'" if "ev_id ` set es' \<subseteq> ev_id ` set (file_log h')" for es'
    using that by (induction es') (auto simp: push_event_def)
  moreover have "ev_id ` set events \<subseteq> ev_id ` set (file_log h')"
    using h'(2) by (auto simp: first_wins_def tget_uniq [OF assms(3)] image_iff)
  ultimately have "foldl push_event (file_log h') events = file_log h'" by blast
  moreover have "sortEvents (file_log h') = file_log h'"
    using push_fold [of "file_log h" events] assms(2) unfolding l by simp
  moreover have "hub_read h' = Inr (file_log h')" using file_soundD [OF h'(1)] by blast
  ultimately have "hub_Push events h' = Inr (hub_write (file_log h') h')" by (simp add: hub_Push_def)
  moreover have "hub_write (file_log h') h' = h'" unfolding l unfolding h by (simp add: hub_write_def)
  ultimately show "hub_Push events h' = Inr h'" by simp
qed

text \<open>A pull brings exactly what the hub holds above the cursor, in the order of application,
  whatever was pushed by whom in between: the new events of a push are all there, an id that was
  there first keeps its event, and pushing once more changes nothing.\<close>

theorem pull_brings_what_was_pushed:
  assumes "file_sound w seqs h" and "uniq ev_id (file_log h)" and "uniq ev_id events"
    and "hub_Push events h = Inr h'" and "hub_Pull w seqs after h' = Inr es"
  shows "set es = {e \<in> set (file_log h) \<union> {e \<in> set events. ev_id e \<notin> ev_id ` set (file_log h)}. above after e} \<and>
    sorted (map ev_hlc es) \<and> uniq ev_id es \<and> hub_Push events h' = Inr h'"
  using pulled_after_push [OF assms] by blast

lemma sample_hub:
  "hub_read empty_hub = Inr []" "hub_read pushed_hub = Inr [hub_event ''a'' 1, hub_event ''b'' 2]"
  "hub_retentionFloors w [] empty_hub = Inr []" "hub_retentionFloors w [] pushed_hub = Inr []"
  by (simp_all add: hub_read_def empty_hub_def pushed_hub_def hub_retentionFloors_def hub_GetRetention_def fail_def)

theorem pull_brings_what_was_pushed_witness:
  "hub_Pull (plain_world 0) [] [(''d'', 1)] pushed_hub = Inr [hub_event ''b'' 2] \<and> set [hub_event ''b'' 2] = {hub_event ''b'' 2}"
proof -
  have s: "file_sound (plain_world 0) [] empty_hub" "file_log empty_hub = []"
    using sample_hub by (auto simp: file_sound_def file_log_def)
  have p: "hub_Pull (plain_world 0) [] [(''d'', 1)] pushed_hub = Inr [hub_event ''b'' 2]"
    by (simp add: hub_Pull_def sample_hub snapshot_required_def above_def After_def event_zero_def sortEvents_def)
  have u: "uniq ev_id (file_log empty_hub)" "uniq ev_id [hub_event ''b'' 2, hub_event ''a'' 1]"
    by (simp_all add: s(2) uniq_def event_zero_def)
  from pull_brings_what_was_pushed [OF s(1) u push_sample p] p show ?thesis by simp
qed

lemma raise_floor_keeps:
  assumes "(dev, m) \<in> set floors"
  shows "\<exists>m' \<ge> m. (dev, m') \<in> set (raise_floor floors f)"
proof (cases f)
  case (Pair d seq)
  have "\<exists>m' \<ge> m. (dev, m') \<in> set (AList.update d seq floors)" if "seq > After floors d"
    using assms that by (induction floors) (auto simp: After_def intro: exI [of _ seq] split: if_splits)
  then show ?thesis using assms Pair by (auto simp: raise_floor_def)
qed

lemma raise_floors_keep:
  "(dev, m) \<in> set floors \<Longrightarrow> \<exists>m' \<ge> m. (dev, m') \<in> set (foldl raise_floor floors fs)"
proof (induction fs arbitrary: m floors)
  case (Cons f fs)
  from raise_floor_keeps [OF Cons.prems] obtain m1 where "m1 \<ge> m" "(dev, m1) \<in> set (raise_floor floors f)" by blast
  with Cons.IH [of m1 "raise_floor floors f"] show ?case by (auto intro: order_trans)
qed auto

text \<open>C30: compaction loses nothing silently: once the manifest with the floors is on the hub,
  deleting what lies below them changes no pull; every cursor gets the very same events as before
  the deletion, or is refused and sent to the snapshot, before and after.\<close>

theorem compaction_is_invisible:
  assumes "file_sound w seqs h" and "fh_retention h = Some raw" and "ParseRetentionFloors w raw = Inr floors"
    and "\<And>dev. int64 (After after dev + 1)"
  shows "\<exists>n h'. hub_CompactEventsBelow floors h = Inr (n, h') \<and> hub_Pull w seqs after h' = hub_Pull w seqs after h \<and>
    file_log h' = filter (\<lambda>e. \<not> compacted floors e) (file_log h)"
proof -
  obtain n h' where c: "hub_CompactEventsBelow floors h = Inr (n, h')"
    "file_log h' = filter (\<lambda>e. \<not> compacted floors e) (file_log h)"
    using fh.compact_ok [OF assms(1) TrueI, of floors] by blast
  have f: "file_floors w seqs h = foldl raise_floor floors seqs"
    using assms(2,3) by (simp add: file_floors_def hub_retentionFloors_def hub_GetRetention_def relabel_def)
  have "\<exists>m \<ge> After floors dev. (dev, m) \<in> set (file_floors w seqs h)" if "0 < After floors dev" for dev
  proof -
    have "(dev, After floors dev) \<in> set floors" using that
      by (cases "map_of floors dev") (simp_all add: After_def map_of_SomeD)
    then show ?thesis unfolding f by (rule raise_floors_keep)
  qed
  from fh.compaction_invisible [OF assms(1) c(1) this assms(4) TrueI TrueI] c show ?thesis by blast
qed

definition floors_text :: string where
  "floors_text = marshal_obj [jint ''v'' 2, Some (''floors'', marshal_cursor [(''d'', 2)])]"

lemma floors_text_parsed: "ParseRetentionFloors (plain_world 0) floors_text = Inr [(''d'', 2)]"
  by code_simp

theorem compaction_is_invisible_witness:
  "\<exists>n h'. hub_CompactEventsBelow [(''d'', 2)] (pushed_hub\<lparr>fh_retention := Some floors_text\<rparr>) = Inr (n, h') \<and>
     hub_Pull (plain_world 0) [] [(''d'', 1)] h' =
       hub_Pull (plain_world 0) [] [(''d'', 1)] (pushed_hub\<lparr>fh_retention := Some floors_text\<rparr>) \<and>
     file_log h' = [hub_event ''b'' 2]"
proof -
  let ?h = "pushed_hub\<lparr>fh_retention := Some floors_text\<rparr>"
  have l: "hub_read ?h = Inr [hub_event ''a'' 1, hub_event ''b'' 2]"
    by (simp add: hub_read_def pushed_hub_def)
  have s: "file_sound (plain_world 0) [] ?h" using l floors_text_parsed
    by (simp add: file_sound_def hub_retentionFloors_def hub_GetRetention_def relabel_def)
  have r: "fh_retention ?h = Some floors_text" by simp
  have i: "int64 (After [(''d'', 1)] dev + 1)" for dev by (simp add: After_def int64_def)
  from compaction_is_invisible [OF s r floors_text_parsed i] show ?thesis
    using l by (simp add: file_log_def compacted_def After_def event_zero_def)
qed

lemma retention_cas:
  assumes "hub_PutRetention w a etag h = Inr h1"
  shows "(etag = [] \<and> fh_retention h = None) \<or> (\<exists>current. hub_GetRetention w h = Inr (current, etag))"
    and "hub_GetRetention w h1 = Inr (a, contentETag w a) \<and> h1 = h\<lparr>fh_retention := Some a\<rparr>"
    and "contentETag w a \<noteq> etag \<Longrightarrow> \<exists>m. hub_PutRetention w b etag h1 = fail KRetentionConflict m"
  using assms by (auto simp: hub_PutRetention_def hub_GetRetention_def split: option.splits if_splits)

text \<open>C34: of two writers that read the same retention marker, at most one wins: a write with a
  token that is not the current one fails and changes nothing, whether the marker was replaced or
  created in between, so a pointer to a published snapshot is never overwritten unread.\<close>

theorem retention_has_one_winner:
  assumes "hub_PutRetention w a etag h = Inr h1"
  shows "((etag = [] \<and> fh_retention h = None) \<or> (\<exists>current. hub_GetRetention w h = Inr (current, etag))) \<and>
    hub_GetRetention w h1 = Inr (a, contentETag w a) \<and> h1 = h\<lparr>fh_retention := Some a\<rparr> \<and>
    (contentETag w a \<noteq> etag \<longrightarrow> (\<forall>b. \<exists>m. hub_PutRetention w b etag h1 = fail KRetentionConflict m))"
  using retention_cas [OF assms] by blast

theorem retention_has_one_winner_witness:
  "\<exists>h1 m. hub_PutRetention digest_world ''x'' [] empty_hub = Inr h1 \<and>
     hub_PutRetention digest_world ''y'' [] h1 = fail KRetentionConflict m"
proof -
  have p: "hub_PutRetention digest_world ''x'' [] empty_hub = Inr (empty_hub\<lparr>fh_retention := Some ''x''\<rparr>)"
    by (simp add: hub_PutRetention_def empty_hub_def)
  have e: "contentETag digest_world ''x'' \<noteq> []" by (simp add: contentETag_def digest_world_def)
  show ?thesis using retention_has_one_winner [OF p] e p by blast
qed

end
