(* ===== verification/Encrypted_Hub.thy ===== *)
theory Encrypted_Hub
  imports Key_Grants Hub_Laws
begin

section \<open>The encrypting hub\<close>

text \<open>
  \<^verbatim>\<open>src/internal/sync/encryptedhub.go\<close>: what a device pushes is sealed under its push key, and
  what it pulls is decrypted, deferred, forwarded for quarantine or skipped. The state is the
  keyring, whose store is also the one behind the three hooks: \<^verbatim>\<open>Verify\<close>
  (\<open>VerifyRemoteEvent\<close>), \<^verbatim>\<open>MissingKeyWait\<close> (\<open>NoteMissingKeyGrant\<close>) and \<^verbatim>\<open>NoteSkipped\<close>
  (\<open>NoteSkippedEvent\<close>), as \<^verbatim>\<open>cli/hub.go\<close> wires them; a hook may be nil. The backend is given by
  its push and pull. Log lines are left out; times are in milliseconds.
\<close>

record hub_hooks =
  hh_verify :: bool
  hh_wait :: bool
  hh_note :: bool
  hh_grace :: int

record pull_stats =
  ps_raw :: nat
  ps_truncated :: nat
  ps_skipped :: nat
  ps_undecryptable :: nat

subsection \<open>Push\<close>

definition encrypt_one :: "crypto \<Rightarrow> world \<Rightarrow> string \<Rightarrow> int \<Rightarrow> event \<Rightarrow> event kr" where
  "encrypt_one x w wck epoch e =
     (if ev_type e = EventDeviceKeyGranted then okk e
      else bindk (draw x nonceSize) (\<lambda>nonce. askk [] (\<lambda>k. EncryptEvent x w nonce e wck epoch)))"

definition relabelk :: "string \<Rightarrow> 'a kr \<Rightarrow> 'a kr" where
  "relabelk l m k = (case m k of (r, k') \<Rightarrow> (relabel l r, k'))"

definition encryptEvents :: "crypto \<Rightarrow> world \<Rightarrow> event list \<Rightarrow> event list kr" where
  "encryptEvents x w events =
     bindk (relabelk ''encrypted hub push: prime keyring: '' (Prime x w)) (\<lambda>_.
     bindk (relabelk ''encrypted hub push: select push key: '' (PushKey x w)) (\<lambda>(epoch, kid, wck).
     if epoch = 0
     then errk (Err [KMissingKey] ''missing workspace key: awaiting workspace key grant'')
     else mapk (encrypt_one x w wck epoch) events))"

text \<open>The backend leaves its new state as the result.\<close>

definition enc_Push :: "crypto \<Rightarrow> world \<Rightarrow> (event list \<Rightarrow> 'h \<Rightarrow> 'h res) \<Rightarrow> event list \<Rightarrow> 'h \<Rightarrow> 'h kr" where
  "enc_Push x w push events h = bindk (encryptEvents x w events) (\<lambda>out. askk [] (\<lambda>k. push out h))"

subsection \<open>The grace windows\<close>

definition isCanonicalKID :: "string \<Rightarrow> bool" where
  "isCanonicalKID s \<longleftrightarrow> length s = 64 \<and> list_all lower_hex s"

definition missingKeyGraceExpired :: "hub_hooks \<Rightarrow> world \<Rightarrow> int \<Rightarrow> string \<Rightarrow> keyring \<Rightarrow> bool \<times> keyring" where
  "missingKeyGraceExpired c w epoch kid k =
     (if \<not> hh_wait c then (False, k)
      else let (first, s) = NoteMissingKeyGrant w epoch kid (kr_store k)
           in (w_now w - first \<ge> hh_grace c, k\<lparr>kr_store := s\<rparr>))"

definition SkipReasonUnknownVersion :: string where "SkipReasonUnknownVersion = ''unknown-envelope-version''"
definition SkipReasonRetiredV1 :: string where "SkipReasonRetiredV1 = ''retired-enc-v1''"
definition SkipReasonPlaintext :: string where "SkipReasonPlaintext = ''plaintext-anti-downgrade''"

definition noteSkip :: "hub_hooks \<Rightarrow> world \<Rightarrow> event \<Rightarrow> string \<Rightarrow> keyring \<Rightarrow> keyring" where
  "noteSkip c w e reason k =
     (if \<not> hh_note c then k else k\<lparr>kr_store := snd (NoteSkippedEvent w e reason (kr_store k))\<rparr>)"

definition skipGraceExpired :: "hub_hooks \<Rightarrow> world \<Rightarrow> event \<Rightarrow> string \<Rightarrow> keyring \<Rightarrow> bool \<times> keyring" where
  "skipGraceExpired c w e reason k =
     (if \<not> hh_note c then (False, k)
      else let (first, s) = NoteSkippedEvent w e reason (kr_store k)
           in (w_now w - first \<ge> hh_grace c, k\<lparr>kr_store := s\<rparr>))"

subsection \<open>Pull\<close>

text \<open>The first pass: the key of every decodable, verified grant is offered to the keyring; a grant
  that is refused is skipped.\<close>

definition ingest_event :: "hub_hooks \<Rightarrow> crypto \<Rightarrow> world \<Rightarrow> keyring \<Rightarrow> event \<Rightarrow> keyring" where
  "ingest_event c x w k e =
     (if ev_type e \<noteq> EventDeviceKeyGranted then k
      else case decode_grant (ev_payload e) of
        None \<Rightarrow> k
      | Some g \<Rightarrow> if hh_verify c \<and> VerifyRemoteEvent w (kr_store k) e \<noteq> Inr () then k
                  else snd (IngestGrant x w g k))"

text \<open>The second pass gives every event one of four fates.\<close>

datatype fate = Deliver event | Forward event | Defer | Skip

fun first_open :: "crypto \<Rightarrow> world \<Rightarrow> event \<Rightarrow> string list \<Rightarrow> event option" where
  "first_open x w e [] = None"
| "first_open x w e (wck # rest) =
     (case DecryptEvent x w e wck of Inr restored \<Rightarrow> Some restored | Inl _ \<Rightarrow> first_open x w e rest)"

definition forward_or_defer :: "event \<Rightarrow> bool \<times> keyring \<Rightarrow> fate \<times> keyring" where
  "forward_or_defer e r = (case r of (expired, k) \<Rightarrow> (if expired then Forward e else Defer, k))"

definition open_carrier :: "hub_hooks \<Rightarrow> crypto \<Rightarrow> world \<Rightarrow> event \<Rightarrow> envelope \<Rightarrow> keyring \<Rightarrow> fate \<times> keyring" where
  "open_carrier c x w e env k =
     (let exact = (if en_kid env \<noteq> [] then WCKCandidates (en_epoch env) (en_kid env) k else []);
          held = WCKCandidates (en_epoch env) [] k in
      if held = [] then forward_or_defer e (missingKeyGraceExpired c w (en_epoch env) [] k)
      else case first_open x w e (exact @ held) of
        Some restored \<Rightarrow> (Deliver restored, k)
      | None \<Rightarrow>
          if en_kid env \<noteq> [] \<and> exact = [] \<and> isCanonicalKID (en_kid env)
          then forward_or_defer e (missingKeyGraceExpired c w (en_epoch env) (en_kid env) k)
          else (Forward e, k))"

definition unknown_version :: "hub_hooks \<Rightarrow> world \<Rightarrow> event \<Rightarrow> keyring \<Rightarrow> fate \<times> keyring" where
  "unknown_version c w e k =
     (if or_else (EnvelopeVersion e) 0 \<le> envelopeVersion then (Forward e, k)
      else forward_or_defer e (skipGraceExpired c w e SkipReasonUnknownVersion k))"

definition classify :: "hub_hooks \<Rightarrow> crypto \<Rightarrow> world \<Rightarrow> event \<Rightarrow> keyring \<Rightarrow> fate \<times> keyring" where
  "classify c x w e k =
     (if ev_type e = EventDeviceKeyGranted then (Deliver e, k)
      else if ev_type e = EventEncryptedV1 then (Skip, noteSkip c w e SkipReasonRetiredV1 k)
      else if ev_type e = EventEncryptedV2
      then (case ParseEncryptedEnvelope w e of
              Inl er \<Rightarrow> if KUnknownVersion \<in> set (err_kinds er) then unknown_version c w e k else (Forward e, k)
            | Inr env \<Rightarrow> open_carrier c x w e env k)
      else (Skip, noteSkip c w e SkipReasonPlaintext k))"

text \<open>The loop: the devices deferred so far, and what is delivered.\<close>

fun second_pass :: "hub_hooks \<Rightarrow> crypto \<Rightarrow> world \<Rightarrow> event list \<Rightarrow> string list \<Rightarrow> pull_stats \<Rightarrow> keyring \<Rightarrow>
    event list \<times> pull_stats \<times> keyring" where
  "second_pass c x w [] deferred st k = ([], st, k)"
| "second_pass c x w (e # es) deferred st k =
     (if ev_device e \<in> set deferred
      then second_pass c x w es deferred (st\<lparr>ps_truncated := Suc (ps_truncated st)\<rparr>) k
      else case classify c x w e k of (f, k1) \<Rightarrow>
        (case f of
           Deliver r \<Rightarrow> (let (out, rest) = second_pass c x w es deferred st k1 in (r # out, rest))
         | Forward r \<Rightarrow> (let (out, rest) = second_pass c x w es deferred
               (st\<lparr>ps_undecryptable := Suc (ps_undecryptable st)\<rparr>) k1 in (r # out, rest))
         | Defer \<Rightarrow> second_pass c x w es (ev_device e # deferred) (st\<lparr>ps_truncated := Suc (ps_truncated st)\<rparr>) k1
         | Skip \<Rightarrow> second_pass c x w es deferred (st\<lparr>ps_skipped := Suc (ps_skipped st)\<rparr>) k1))"

definition enc_Pull :: "hub_hooks \<Rightarrow> crypto \<Rightarrow> world \<Rightarrow> (transport_cursor \<Rightarrow> 'h \<Rightarrow> event list res) \<Rightarrow>
    transport_cursor \<Rightarrow> 'h \<Rightarrow> (event list \<times> pull_stats) kr" where
  "enc_Pull c x w pull after h =
     bindk (askk [] (\<lambda>k. pull after h)) (\<lambda>raw.
     bindk (relabelk ''encrypted hub pull: prime keyring: '' (Prime x w)) (\<lambda>_ k.
       let (out, st, k') = second_pass c x w raw []
             \<lparr>ps_raw = length raw, ps_truncated = 0, ps_skipped = 0, ps_undecryptable = 0\<rparr>
             (foldl (ingest_event c x w) k raw)
       in (Inr (out, st), k')))"

subsection \<open>Replay of what could not be decrypted\<close>

definition last_open :: "crypto \<Rightarrow> world \<Rightarrow> event \<Rightarrow> string list \<Rightarrow> event res" where
  "last_open x w e wcks = (case first_open x w e wcks of
     Some r \<Rightarrow> Inr r
   | None \<Rightarrow> DecryptEvent x w e (last wcks))"

definition TryDecrypt :: "crypto \<Rightarrow> world \<Rightarrow> event \<Rightarrow> event kr" where
  "TryDecrypt x w e = bindk (relabelk ''encrypted hub try-decrypt: prime keyring: '' (Prime x w)) (\<lambda>_ k.
     case ParseEncryptedEnvelope w e of
       Inl er \<Rightarrow> (Inl er, k)
     | Inr env \<Rightarrow>
        (let wcks = (if en_kid env \<noteq> [] then WCKCandidates (en_epoch env) (en_kid env) k else [])
               @ WCKCandidates (en_epoch env) [] k in
         if wcks = [] then errk (Err [KMissingKey] (''missing workspace key: epoch '' @ show_int (en_epoch env))) k
         else (last_open x w e wcks, k)))"

definition replay_resolution :: string where
  "replay_resolution = marshal_obj [jstr ''action'' ''auto'',
     jstr ''reason'' ''carrier decrypted after a later key grant (P6-SYNC-04 replay)'']"

text \<open>One conflict of the loop: whether it was replayed, or the error that ends the loop.\<close>

definition replay_one :: "crypto \<Rightarrow> world \<Rightarrow> conflict \<Rightarrow> bool kr" where
  "replay_one x w cn =
     (case decode_verification (cn_details cn) of
        None \<Rightarrow> okk False
      | Some d \<Rightarrow>
          if vd_kind d \<noteq> EventConflictKindUndecryptable then okk False
          else (case decode_event (vd_event_json d) of
            None \<Rightarrow> okk False
          | Some carrier \<Rightarrow> (\<lambda>k.
              case TryDecrypt x w carrier k of
                (Inl er, k1) \<Rightarrow> (Inr False, k1)
              | (Inr restored, k1) \<Rightarrow>
                  if drop_bit hlcLogicalBits (ev_hlc restored) - w_now w > duration_ms defaultMaxSkew
                  then (Inr False, k1)
                  else (case ApplyEventsWithStats w [restored] [] (kr_store k1) of
                      (Inl er, s) \<Rightarrow> (Inl er, k1\<lparr>kr_store := s\<rparr>)
                    | (Inr _, s) \<Rightarrow>
                        (case ResolveConflict (cn_id cn) replay_resolution s of
                           Inl er \<Rightarrow> (Inl er, k1\<lparr>kr_store := s\<rparr>)
                         | Inr s' \<Rightarrow> (Inr True, k1\<lparr>kr_store := s'\<rparr>))))))"

fun replay_undecryptable :: "crypto \<Rightarrow> world \<Rightarrow> conflict list \<Rightarrow> nat \<Rightarrow> keyring \<Rightarrow> (nat \<times> err option) \<times> keyring" where
  "replay_undecryptable x w [] n k = ((n, None), k)"
| "replay_undecryptable x w (cn # cs) n k =
     (case replay_one x w cn k of
        (Inl er, k') \<Rightarrow> ((n, Some er), k')
      | (Inr b, k') \<Rightarrow> replay_undecryptable x w cs (if b then n + 1 else n) k')"

definition ReplayUndecryptableConflicts :: "crypto \<Rightarrow> world \<Rightarrow> keyring \<Rightarrow> (nat \<times> err option) \<times> keyring" where
  "ReplayUndecryptableConflicts x w k =
     replay_undecryptable x w (OpenConflictsByType ConflictEventVerification (kr_store k)) 0 k"

end
