(* ===== verification/Hub_Safety.thy ===== *)
theory Hub_Safety
  imports Encrypted_Hub Apply_Safety
begin

section \<open>What an untrusted hub can and cannot do\<close>

subsection \<open>Fates of a pulled event\<close>

definition held_keys :: "keyring \<Rightarrow> string set" where
  "held_keys k = (\<lambda>r. ck_wck (snd r)) ` set (kr_cache k)"

lemma candidates_held: "b \<in> set (WCKCandidates epoch kid k) \<Longrightarrow> b \<in> held_keys k"
proof (cases "kid = []")
  case False
  then show "b \<in> set (WCKCandidates epoch kid k) \<Longrightarrow> b \<in> held_keys k"
    by (cases "tget fst (epoch, kid) (kr_cache k)")
      (auto simp: WCKCandidates_def held_keys_def cached_def dest: tget_SomeD)
qed (force simp: WCKCandidates_def held_keys_def)

lemma first_open_Some: "first_open x w e ks = Some r \<Longrightarrow> \<exists>b \<in> set ks. DecryptEvent x w e b = Inr r"
  by (induction ks) (auto split: sum.splits)

text \<open>A raw event and what the pull makes of it.\<close>

definition restores :: "crypto \<Rightarrow> world \<Rightarrow> string set \<Rightarrow> event \<Rightarrow> event \<Rightarrow> bool" where
  "restores x w keys e r \<longleftrightarrow> ev_type e = EventDeviceKeyGranted \<and> r = e \<or>
     ev_type e = EventEncryptedV2 \<and> (r = e \<or> (\<exists>b \<in> keys. DecryptEvent x w e b = Inr r))"

lemma DecryptEvent_carrier:
  assumes "DecryptEvent x w e b = Inr r"
  shows "ev_type e = EventEncryptedV2 \<and> ev_id r = ev_id e \<and> ev_device r = ev_device e \<and> ev_seq r = ev_seq e \<and>
     ev_hlc r = ev_hlc e \<and> ev_sig r = ev_sig e"
  using assms
  by (auto simp: DecryptEvent_def ParseEncryptedEnvelope_def open_envelope_def fail_def split: if_split_asm option.split_asm)

lemma restores_carrier:
  "restores x w keys e r \<Longrightarrow> ev_id r = ev_id e \<and> ev_device r = ev_device e \<and> ev_seq r = ev_seq e \<and> ev_hlc r = ev_hlc e"
  using DecryptEvent_carrier by (fastforce simp: restores_def)

lemma grace_frame:
  "kr_cache (snd (missingKeyGraceExpired c w q d k)) = kr_cache k"
  "kr_cache (snd (skipGraceExpired c w e r k)) = kr_cache k"
  "kr_cache (noteSkip c w e r k) = kr_cache k"
  by (simp_all add: missingKeyGraceExpired_def skipGraceExpired_def noteSkip_def split: prod.splits)

lemma forward_or_defer_cases:
  "fst (forward_or_defer e r) \<in> {Forward e, Defer}" "snd (forward_or_defer e r) = snd r"
  by (auto simp: forward_or_defer_def split: prod.splits)

lemma classify_cache [simp]: "kr_cache (snd (classify c x w e k)) = kr_cache k"
  by (auto simp: classify_def unknown_version_def open_carrier_def Let_def grace_frame forward_or_defer_cases
      split: sum.splits option.splits)

definition fate_event :: "fate \<Rightarrow> event option" where
  "fate_event f = (case f of Deliver r \<Rightarrow> Some r | Forward r \<Rightarrow> Some r | _ \<Rightarrow> None)"

lemma fate_or_defer:
  "fate_event (fst (forward_or_defer e q)) = Some r \<Longrightarrow> r = e" "fst (forward_or_defer e q) \<noteq> Skip"
  by (auto simp: forward_or_defer_def fate_event_def split: prod.splits if_splits)

lemma fate_event_simps [simp]: "fate_event (Deliver r) = Some r" "fate_event (Forward r) = Some r"
  "fate_event Defer = None" "fate_event Skip = None"
  by (simp_all add: fate_event_def)

lemma open_carrier_fate:
  "fate_event (fst (open_carrier c x w e env k)) = Some r \<Longrightarrow>
     r = e \<or> (\<exists>b \<in> held_keys k. DecryptEvent x w e b = Inr r)"
  "fst (open_carrier c x w e env k) \<noteq> Skip"
proof -
  let ?ks = "(if en_kid env \<noteq> [] then WCKCandidates (en_epoch env) (en_kid env) k else []) @ WCKCandidates (en_epoch env) [] k"
  have held: "set ?ks \<subseteq> held_keys k" using candidates_held by (auto split: if_splits)
  have "(fate_event (fst (open_carrier c x w e env k)) = Some r \<longrightarrow>
     r = e \<or> (\<exists>b \<in> held_keys k. DecryptEvent x w e b = Inr r)) \<and> fst (open_carrier c x w e env k) \<noteq> Skip"
  proof (cases "WCKCandidates (en_epoch env) [] k = []")
    case True
    then show ?thesis using fate_or_defer by (auto simp: open_carrier_def)
  next
    case False
    then show ?thesis
    proof (cases "first_open x w e ?ks")
      case None
      then show ?thesis using False fate_or_defer by (auto simp: open_carrier_def Let_def)
    next
      case (Some r')
      then show ?thesis using False first_open_Some [OF Some] held by (auto simp: open_carrier_def Let_def)
    qed
  qed
  then show "fate_event (fst (open_carrier c x w e env k)) = Some r \<Longrightarrow>
     r = e \<or> (\<exists>b \<in> held_keys k. DecryptEvent x w e b = Inr r)" "fst (open_carrier c x w e env k) \<noteq> Skip"
    by blast+
qed

lemma unknown_version_fate:
  "fate_event (fst (unknown_version c w e k)) = Some r \<Longrightarrow> r = e" "fst (unknown_version c w e k) \<noteq> Skip"
  using fate_or_defer by (auto simp: unknown_version_def split: if_splits)

lemma granted_neq [simp]: "EventDeviceKeyGranted \<noteq> EventEncryptedV1" "EventDeviceKeyGranted \<noteq> EventEncryptedV2"
  "EventEncryptedV1 \<noteq> EventEncryptedV2" "EventEncryptedV2 \<noteq> EventDeviceKeyGranted" "EventEncryptedV2 \<noteq> EventEncryptedV1"
  by (simp_all add: EventEncryptedV1_def EventEncryptedV2_def EventDeviceKeyGranted_def)

lemma classify_fate:
  "fate_event (fst (classify c x w e k)) = Some r \<Longrightarrow> restores x w (held_keys k) e r"
  "fst (classify c x w e k) = Skip \<Longrightarrow> ev_type e \<notin> {EventDeviceKeyGranted, EventEncryptedV2}"
  using open_carrier_fate [of c x w e _ k] unknown_version_fate [of c w e k]
  by (auto simp: classify_def restores_def split: if_split_asm sum.split_asm)

subsection \<open>The second pass\<close>

lemma second_pass_restores:
  assumes "second_pass c x w es deferred st k = (out, st', k')"
  shows "kr_cache k' = kr_cache k \<and> (\<forall>r \<in> set out. \<exists>e \<in> set es. restores x w (held_keys k) e r)"
  using assms
proof (induction es arbitrary: deferred st k out)
  case (Cons e es)
  show ?case
  proof (cases "ev_device e \<in> set deferred")
    case True
    then show ?thesis using Cons by fastforce
  next
    case False
    obtain f k1 where f: "classify c x w e k = (f, k1)" by fastforce
    then have k1: "kr_cache k1 = kr_cache k" "held_keys k1 = held_keys k"
      using classify_cache [of c x w e k] by (simp_all add: held_keys_def)
    have r: "fate_event f = Some r \<Longrightarrow> restores x w (held_keys k) e r" for r
      using classify_fate(1) [of c x w e k] f by simp
    show ?thesis
    proof (cases "fate_event f")
      case None
      then show ?thesis using Cons.prems False f k1 by (cases f) (auto dest!: Cons.IH)
    next
      case (Some q)
      obtain st1 where "second_pass c x w es deferred st1 k1 = (tl out, st', k')" "out = q # tl out"
        using Cons.prems False f Some by (cases f) (auto split: prod.split_asm)
      then show ?thesis using Cons.IH k1 r [OF Some] by (metis list.set_intros set_ConsD)
    qed
  qed
qed auto

lemma classify_skips: "ev_type e \<notin> {EventDeviceKeyGranted, EventEncryptedV2} \<Longrightarrow> fst (classify c x w e k) = Skip"
  by (simp add: classify_def)

text \<open>Per device, what is delivered or forwarded is the sealed and the grant events of a prefix of
  its stream; a stream that is cut off is counted.\<close>

definition carries_content :: "event \<Rightarrow> bool" where
  "carries_content e \<longleftrightarrow> ev_type e \<in> {EventDeviceKeyGranted, EventEncryptedV2}"

abbreviation stream_of :: "string \<Rightarrow> event list \<Rightarrow> event list" where
  "stream_of d es \<equiv> filter (\<lambda>e. ev_device e = d) es"

abbreviation slots_of :: "event list \<Rightarrow> (string \<times> int) list" where
  "slots_of es \<equiv> map (\<lambda>e. (ev_id e, ev_seq e)) es"

lemma second_pass_truncated:
  "second_pass c x w es deferred st k = (out, st', k') \<Longrightarrow> ps_truncated st \<le> ps_truncated st'"
proof (induction es arbitrary: deferred st k out)
  case (Cons e es)
  then show ?case
    by (cases "classify c x w e k"; cases "fst (classify c x w e k)")
      (fastforce split: if_split_asm prod.split_asm dest: Cons.IH)+
qed simp

text \<open>The stream of \<open>d\<close> in \<open>es\<close> is cut off before \<open>out\<close>: at once when \<open>b\<close>, and only with a
  positive count \<open>lost\<close>.\<close>

definition cut :: "string \<Rightarrow> bool \<Rightarrow> bool \<Rightarrow> event list \<Rightarrow> event list \<Rightarrow> bool" where
  "cut d b lost es out \<longleftrightarrow> (\<exists>pre post. stream_of d es = pre @ post \<and>
     slots_of (stream_of d out) = slots_of (filter carries_content pre) \<and> (b \<longrightarrow> pre = []) \<and> (post \<noteq> [] \<longrightarrow> lost))"

lemma cut_other: "cut d b lost es out \<Longrightarrow> ev_device e \<noteq> d \<Longrightarrow> (lost \<longrightarrow> lost') \<Longrightarrow> cut d b lost' (e # es) out"
  unfolding cut_def by auto

lemma cut_defer: "cut d True lost es out \<Longrightarrow> ev_device e = d \<Longrightarrow> cut d b True (e # es) out"
  unfolding cut_def by (elim exE conjE, rule exI [of _ "[]"]) simp

lemma cut_skip:
  assumes "cut d False lost es out" "ev_device e = d" "\<not> carries_content e"
  shows "cut d False lost (e # es) out"
proof -
  obtain pre post where "stream_of d es = pre @ post" "slots_of (stream_of d out) = slots_of (filter carries_content pre)"
    "post \<noteq> [] \<longrightarrow> lost" using assms(1) unfolding cut_def by blast
  then show ?thesis using assms(2-) unfolding cut_def by (intro exI [of _ "e # pre"] exI [of _ post]) simp
qed

lemma cut_keep:
  assumes "cut d False lost es out" "ev_device e = d" "carries_content e" "ev_device r = d" "ev_id r = ev_id e" "ev_seq r = ev_seq e"
  shows "cut d False lost (e # es) (r # out)"
proof -
  obtain pre post where "stream_of d es = pre @ post" "slots_of (stream_of d out) = slots_of (filter carries_content pre)"
    "post \<noteq> [] \<longrightarrow> lost" using assms(1) unfolding cut_def by blast
  then show ?thesis using assms(2-) unfolding cut_def by (intro exI [of _ "e # pre"] exI [of _ post]) simp
qed

lemma cut_out_other: "cut d b lost es out \<Longrightarrow> ev_device r \<noteq> d \<Longrightarrow> cut d b lost es (r # out)"
  unfolding cut_def by simp

lemma second_pass_prefix:
  assumes "second_pass c x w es deferred st k = (out, st', k')"
  shows "cut d (d \<in> set deferred) (ps_truncated st < ps_truncated st') es out"
  using assms
proof (induction es arbitrary: deferred st k out)
  case Nil
  then show ?case by (simp add: cut_def)
next
  case (Cons e es)
  let ?st = "st\<lparr>ps_truncated := Suc (ps_truncated st)\<rparr>"
  have cutoff: "cut d (d \<in> set deferred) (ps_truncated st < ps_truncated st') (e # es) out"
    if s: "second_pass c x w es D ?st k2 = (out, st', k')" and D: "set D = insert (ev_device e) (set deferred)" for D k2
  proof -
    have "ps_truncated st < ps_truncated st'" using second_pass_truncated [OF s] by simp
    then show ?thesis using Cons.IH [OF s] D cut_defer cut_other by (cases "ev_device e = d") fastforce+
  qed
  show ?case
  proof (cases "ev_device e \<in> set deferred")
    case True
    then show ?thesis using Cons.prems by (intro cutoff [of deferred k]) auto
  next
    case fresh: False
    obtain f k1 where f: "classify c x w e k = (f, k1)" by fastforce
    show ?thesis
    proof (cases "f = Defer")
      case True
      then show ?thesis using Cons.prems fresh f by (intro cutoff [of "ev_device e # deferred" k1]) auto
    next
      case nd: False
      obtain st1 o1 where s: "second_pass c x w es deferred st1 k1 = (o1, st', k')"
        and st1: "ps_truncated st1 = ps_truncated st" and o: "out = (case fate_event f of None \<Rightarrow> o1 | Some r \<Rightarrow> r # o1)"
        using Cons.prems fresh f nd by (cases f) (auto split: prod.split_asm)
      note IH = Cons.IH [OF s, unfolded st1]
      show ?thesis
      proof (cases "fate_event f")
        case None
        then have "\<not> carries_content e" using classify_fate(2) [of c x w e k] f nd by (cases f) (simp_all add: carries_content_def)
        then show ?thesis using IH o None fresh cut_skip cut_other by (cases "ev_device e = d") auto
      next
        case (Some r)
        then have "restores x w (held_keys k) e r" using classify_fate(1) [of c x w e k] f by simp
        note R = restores_carrier [OF this]
        have "f \<noteq> Skip" using Some by auto
        then have "carries_content e" using classify_skips [of e c x w k] f by (auto simp: carries_content_def)
        then show ?thesis using IH o Some R fresh cut_keep cut_other cut_out_other by (cases "ev_device e = d") auto
      qed
    qed
  qed
qed

end
