(* ===== verification/Hub_Journey.thy ===== *)
theory Hub_Journey
  imports Hub_Safety Event_Log
begin

section \<open>From one device to another\<close>

text \<open>
  A push, the hub and a pull composed: what a device appends to its log reaches, through any hub
  that keeps the contract, every peer that holds the key, as the same signed event.
\<close>

subsection \<open>The order of application\<close>

lemma insort_key_map: "(\<And>x. x \<in> insert a (set xs) \<Longrightarrow> f (g x) = f x) \<Longrightarrow> insort_key f (g a) (map g xs) = map g (insort_key f a xs)"
  by (induction xs) auto

lemma sort_key_map: "\<forall>x \<in> set xs. f (g x) = f x \<Longrightarrow> sort_key f (map g xs) = map g (sort_key f xs)"
proof (induction xs)
  case (Cons a xs)
  have "insort_key f (g a) (map g (sort_key f xs)) = map g (insort_key f a (sort_key f xs))"
    by (rule insort_key_map) (use Cons.prems in auto)
  then show ?case using Cons by simp
qed simp

lemma sortEvents_map:
  assumes "\<And>e. e \<in> set es \<Longrightarrow> ev_id (g e) = ev_id e \<and> ev_device (g e) = ev_device e \<and> ev_hlc (g e) = ev_hlc e"
  shows "sortEvents (map g es) = map g (sortEvents es)"
proof -
  have "sort_key ev_id (map g es) = map g (sort_key ev_id es)" by (rule sort_key_map) (simp add: assms)
  moreover have "sort_key ev_device (map g (sort_key ev_id es)) = map g (sort_key ev_device (sort_key ev_id es))"
    by (rule sort_key_map) (simp add: assms)
  moreover have "sort_key ev_hlc (map g (sort_key ev_device (sort_key ev_id es))) = map g (sortEvents es)"
    unfolding sortEvents_def by (rule sort_key_map) (simp add: assms)
  ultimately show ?thesis by (simp add: sortEvents_def)
qed

subsection \<open>A pull of readable events\<close>

definition strip :: "event \<Rightarrow> event" where "strip e = e\<lparr>ev_created := []\<rparr>"

text \<open>A carrier that was sealed from \<open>e\<close> under the key \<open>wck\<close> of \<open>epoch\<close>.\<close>

definition sealed_from :: "crypto \<Rightarrow> world \<Rightarrow> string \<Rightarrow> int \<Rightarrow> event \<Rightarrow> event \<Rightarrow> bool" where
  "sealed_from x w wck epoch e ce \<longleftrightarrow>
     (\<exists>nonce. length nonce = nonceSize \<and> EncryptEvent x w nonce e wck epoch = Inr ce)"

lemma sealed_carrier:
  assumes "sealed_from x w wck epoch e ce"
  shows "ev_id ce = ev_id e \<and> ev_device ce = ev_device e \<and> ev_seq ce = ev_seq e \<and> ev_hlc ce = ev_hlc e \<and>
    ev_type ce = EventEncryptedV2"
proof -
  obtain nonce where "EncryptEvent x w nonce e wck epoch = Inr ce" using assms by (auto simp: sealed_from_def)
  from EncryptEvent_Inr(2) [OF this] show ?thesis by simp
qed

lemma first_opens: "DecryptEvent x w e b = Inr r \<Longrightarrow> first_open x w e (b # ks) = Some r"
  by simp

lemma classify_sealed:
  assumes "sealed_from x w wck epoch e ce" "aead_sound x" "sealable e" "int64 epoch" "digest32 w"
    and "cached (epoch, KIDForWCK w wck) k = Some wck"
  shows "classify c x w ce k = (Deliver (strip e), k)"
proof -
  obtain nonce where n: "length nonce = nonceSize" and c: "EncryptEvent x w nonce e wck epoch = Inr ce"
    using assms(1) by (auto simp: sealed_from_def)
  note E = EncryptEvent_Inr [OF c]
  let ?kid = "KIDForWCK w wck"
  let ?v = "\<lparr>en_version = 2, en_epoch = epoch, en_kid = ?kid,
     en_ct = b64_enc (nonce @ x_seal x wck nonce (marshal_sealed (sealed_of e)) (envelopeAAD e ?kid epoch))\<rparr>"
  have p: "ParseEncryptedEnvelope w ce = Inr ?v"
    using assms(4) unfolding E(2)
    by (simp add: ParseEncryptedEnvelope_def decode_marshal_envelope KIDForWCK_def int64_def envelopeVersion_def)
  have d: "DecryptEvent x w ce wck = Inr (strip e)"
    using Decrypt_Encrypt [OF c assms(2) n assms(3,4)] by (simp add: strip_def)
  have kid: "?kid \<noteq> []" by (rule kid_nonempty) fact
  have ex: "WCKCandidates epoch ?kid k = [wck]" using assms(6) by (simp add: candidates_cached [OF kid])
  have "wck \<in> set (WCKCandidates epoch [] k)"
    using assms(6) by (force simp: WCKCandidates_def cached_def dest: tget_SomeD)
  then have "WCKCandidates epoch [] k \<noteq> []" by auto
  then have "open_carrier c x w ce ?v k = (Deliver (strip e), k)"
    using ex kid first_opens [OF d] by (simp add: open_carrier_def Let_def)
  then show ?thesis using p sealed_carrier [OF assms(1)] by (simp add: classify_def)
qed

lemma second_pass_delivers:
  assumes "\<And>e. e \<in> set es \<Longrightarrow> classify c x w e k = (Deliver (f e), k)"
  shows "second_pass c x w es [] st k = (map f es, st, k)"
  using assms by (induction es) simp_all

lemma ingest_none: "(\<And>e. e \<in> set es \<Longrightarrow> ev_type e \<noteq> EventDeviceKeyGranted) \<Longrightarrow> foldl (ingest_event c x w) k es = k"
  by (induction es) (simp_all add: ingest_event_def)

subsection \<open>A push\<close>

definition random_sized :: "crypto \<Rightarrow> bool" where
  "random_sized x \<longleftrightarrow> (\<forall>i n. length (x_random x i n) = n)"

lemma encrypt_all:
  assumes "random_sized x" "length wck = wckSize" "\<And>e. e \<in> set es \<Longrightarrow> ev_type e \<noteq> EventDeviceKeyGranted"
  shows "\<exists>ces k'. mapk (encrypt_one x w wck epoch) es k = (Inr ces, k') \<and> list_all2 (sealed_from x w wck epoch) es ces"
  using assms(3)
proof (induction es arbitrary: k)
  case Nil
  then show ?case by (simp add: okk_def)
next
  case (Cons e es)
  let ?n = "x_random x (kr_draws k) nonceSize" and ?k = "k\<lparr>kr_draws := Suc (kr_draws k)\<rparr>"
  obtain ce where ce: "EncryptEvent x w ?n e wck epoch = Inr ce"
    using assms(2) by (auto simp: EncryptEvent_def Let_def)
  from Cons obtain ces k' where r: "mapk (encrypt_one x w wck epoch) es ?k = (Inr ces, k')"
    "list_all2 (sealed_from x w wck epoch) es ces" by fastforce
  have "encrypt_one x w wck epoch e k = (Inr ce, ?k)"
    using Cons.prems ce by (simp add: encrypt_one_def bindk_def draw_def askk_def relabel_def)
  then have "mapk (encrypt_one x w wck epoch) (e # es) k = (Inr (ce # ces), k')"
    using r(1) by (simp add: bindk_def okk_def)
  moreover have "sealed_from x w wck epoch e ce" using ce assms(1) by (auto simp: sealed_from_def random_sized_def)
  ultimately show ?case using r(2) by blast
qed

lemma enc_Push_run:
  assumes "primed A" "PushKey x w A = (Inr (epoch, kid, wck), A)" "epoch \<noteq> 0" "random_sized x" "length wck = wckSize"
    and "\<And>e. e \<in> set events \<Longrightarrow> ev_type e \<noteq> EventDeviceKeyGranted"
  shows "\<exists>ces A'. list_all2 (sealed_from x w wck epoch) events ces \<and>
     enc_Push x w push events h A = (push ces h, A')"
proof -
  obtain ces A' where r: "mapk (encrypt_one x w wck epoch) events A = (Inr ces, A')"
    "list_all2 (sealed_from x w wck epoch) events ces"
    using encrypt_all [OF assms(4-6)] by blast
  have "encryptEvents x w events A = (Inr ces, A')"
    using r(1) assms(2,3) Prime_primed [OF assms(1), of x w]
    by (simp add: encryptEvents_def bindk_def relabelk_def relabel_def)
  then show ?thesis using r(2)
    by (intro exI [of _ ces] exI [of _ A']) (simp add: enc_Push_def bindk_def askk_def relabel_def split: sum.splits)
qed

subsection \<open>The journey\<close>

lemma strip_keys [simp]: "ev_id (strip e) = ev_id e" "ev_device (strip e) = ev_device e" "ev_seq (strip e) = ev_seq e"
  "ev_hlc (strip e) = ev_hlc e" "above after (strip e) = above after e"
  by (simp_all add: strip_def above_def)

lemma strip_verified [simp]: "VerifyRemoteEvent w s (strip e) = VerifyRemoteEvent w s e"
proof -
  have f [simp]: "ev_type (strip e) = ev_type e" "ev_payload (strip e) = ev_payload e" "ev_sig (strip e) = ev_sig e"
    "ev_content_hash (strip e) = ev_content_hash e" "ev_prev_hash (strip e) = ev_prev_hash e"
    by (simp_all add: strip_def)
  have p: "EventSignaturePayloadV2 (strip e) = EventSignaturePayloadV2 e" "EventSignaturePayload (strip e) = EventSignaturePayload e"
    by (simp_all add: EventSignaturePayloadV2_def EventSignaturePayload_def)
  have "verifySignature w k (strip e) = verifySignature w k e" for k
    unfolding verifySignature_def p f strip_keys ..
  moreover have "requires (strip e) t = requires e t" for t by (simp add: requires_def)
  moreover have "approvedAtEmit d (strip e) = approvedAtEmit d e" for d
    unfolding approvedAtEmit_def f strip_keys ..
  ultimately have v: "verifySignature w k (strip e) = verifySignature w k e" "requires (strip e) = requires e"
    "approvedAtEmit d (strip e) = approvedAtEmit d e" for k d
    by (auto simp: fun_eq_iff)
  show ?thesis
    unfolding VerifyRemoteEvent_def contentHashMismatch_def verifyEventSignature_def v f strip_keys ..
qed

text \<open>What the pull returns when the log is a permutation of the sealed events and others that are
  not above the cursor.\<close>

lemma pull_of_sealed:
  assumes "list_all2 (sealed_from x w wck epoch) events ces" "aead_sound x" "int64 epoch" "digest32 w"
    and "\<And>e. e \<in> set events \<Longrightarrow> sealable e" "cached (epoch, KIDForWCK w wck) B = Some wck" "primed B"
    and "uniq ev_id events" "mset raw = mset (filter (above after) ces)" "pull after h = Inr (sortEvents raw)"
  shows "\<exists>st. enc_Pull c x w pull after h B = (Inr (sortEvents (filter (above after) (map strip events)), st), B) \<and>
    ps_truncated st = 0 \<and> ps_skipped st = 0 \<and> ps_undecryptable st = 0"
proof -
  define f where "f ce = (case DecryptEvent x w ce wck of Inr r \<Rightarrow> r | Inl er \<Rightarrow> ce)" for ce
  have dec: "f ce = strip e \<and> classify c x w ce B = (Deliver (strip e), B)" if "(e, ce) \<in> set (zip events ces)" for e ce
  proof -
    have s: "sealed_from x w wck epoch e ce" using assms(1) that by (auto simp: list_all2_iff)
    have e: "e \<in> set events" using that by (rule set_zip_leftD)
    obtain nonce where n: "length nonce = nonceSize" "EncryptEvent x w nonce e wck epoch = Inr ce"
      using s by (auto simp: sealed_from_def)
    have "DecryptEvent x w ce wck = Inr (strip e)"
      using Decrypt_Encrypt [OF n(2) assms(2) n(1) assms(5) [OF e] assms(3)] by (simp add: strip_def)
    then show ?thesis using classify_sealed [OF s assms(2) assms(5) [OF e] assms(3,4,6)] by (simp add: f_def)
  qed
  have len: "length events = length ces" using assms(1) by (rule list_all2_lengthD)
  have mem: "\<exists>e. (e, ce) \<in> set (zip events ces)" if "ce \<in> set ces" for ce
    using that len by (metis in_set_impl_in_set_zip2)
  have fs: "map f ces = map strip events"
  proof (rule nth_equalityI)
    show "length (map f ces) = length (map strip events)" using len by simp
    fix i assume "i < length (map f ces)"
    then have i: "i < length ces" "i < length events" using len by auto
    then have "(events ! i, ces ! i) \<in> set (zip events ces)" by (auto simp: set_zip)
    then show "map f ces ! i = map strip events ! i" using dec i by auto
  qed
  have keys: "ev_id (f ce) = ev_id ce \<and> ev_device (f ce) = ev_device ce \<and> ev_hlc (f ce) = ev_hlc ce \<and> ev_seq (f ce) = ev_seq ce"
    "ev_type ce = EventEncryptedV2" if "ce \<in> set ces" for ce
    using mem [OF that] dec sealed_carrier assms(1) by (auto simp: list_all2_iff dest!: bspec)
  have raw: "set raw \<subseteq> set ces" using assms(9) by (metis filter_is_subset set_mset_mset)
  have "map ev_id ces = map ev_id (map f ces)" using keys by simp
  then have "uniq ev_id ces" using assms(8) unfolding fs by (simp add: uniq_def comp_def)
  then have u: "uniq ev_id raw" using assms(9)
    by (metis distinct_map_filter mset_eq_imp_distinct_iff mset_map uniq_def)
  have sorted: "sortEvents raw = sortEvents (filter (above after) ces)" by (rule sortEvents_mset) fact+
  have pass: "second_pass c x w (sortEvents raw) [] st B = (map f (sortEvents raw), st, B)" for st
    by (rule second_pass_delivers) (use mem dec raw in \<open>fastforce\<close>)
  have "foldl (ingest_event c x w) B (sortEvents raw) = B"
    by (rule ingest_none) (use keys(2) raw in fastforce)
  moreover have "map f (sortEvents raw) = sortEvents (map f (filter (above after) ces))"
    unfolding sorted by (rule sortEvents_map [symmetric]) (use keys in simp)
  moreover have "map f (filter (above after) ces) = filter (above after) (map f ces)"
    unfolding filter_map by (rule arg_cong [of _ _ "map f"], rule filter_cong) (use keys in \<open>simp_all add: above_def\<close>)
  ultimately show ?thesis using pass Prime_primed [OF assms(7)]
    by (simp add: enc_Pull_def bindk_def askk_def relabel_def assms(10) relabelk_def fs)
qed

context event_hub begin

lemma sealed_push:
  assumes "sound h" "uniq ev_id (log_of h)" "list_all2 (sealed_from x w wck epoch) events ces"
    and "uniq ev_id events" "ev_id ` set events \<inter> ev_id ` set (log_of h) = {}"
    and "\<And>e. e \<in> set (log_of h) \<Longrightarrow> \<not> above after e" and "fits h ces"
  obtains h' where "push ces h = Inr h'" "sound h'" "floors_of h' = floors_of h"
    "mset (filter (above after) (log_of h')) = mset (filter (above after) ces)"
proof -
  obtain h' where h': "push ces h = Inr h'" "sound h'" "floors_of h' = floors_of h"
    "set (log_of h') = first_wins (log_of h) ces" "uniq ev_id (log_of h')"
    using push_ok [OF assms(1,7)] assms(2) by blast
  have ids: "map ev_id ces = map ev_id events"
    using assms(3) by (induction rule: list_all2_induct) (auto dest: sealed_carrier)
  then have u: "uniq ev_id ces" using assms(4) by (simp add: uniq_def)
  have "ev_id ` set ces = ev_id ` set events" using ids by (metis set_map)
  then have "set (log_of h') = set (log_of h) \<union> set ces"
    using h'(4) assms(5) u by (auto simp: first_wins_def tget_uniq)
  then have "set (filter (above after) (log_of h')) = set (filter (above after) ces)" using assms(6) by auto
  moreover have "distinct (filter (above after) (log_of h'))" "distinct (filter (above after) ces)"
    using h'(5) u by (simp_all add: uniq_def distinct_map)
  ultimately have "mset (filter (above after) (log_of h')) = mset (filter (above after) ces)"
    using set_eq_iff_mset_eq_distinct by blast
  then show ?thesis using that h' by blast
qed

lemma journey:
  assumes "sound h" "uniq ev_id (log_of h)" "\<not> snapshot_required (floors_of h) after"
    and "\<And>e. e \<in> set (log_of h) \<Longrightarrow> \<not> above after e"
    and "primed A" "PushKey x w A = (Inr (epoch, KIDForWCK w wck, wck), A)" "epoch \<noteq> 0" "int64 epoch" "length wck = wckSize"
    and "primed B" "cached (epoch, KIDForWCK w wck) B = Some wck"
    and "aead_sound x" "random_sized x" "digest32 w"
    and "uniq ev_id events" "ev_id ` set events \<inter> ev_id ` set (log_of h) = {}"
    and "\<And>e. e \<in> set events \<Longrightarrow> ev_type e \<noteq> EventDeviceKeyGranted \<and> sealable e"
    and "\<And>ces. list_all2 (sealed_from x w wck epoch) events ces \<Longrightarrow> fits h ces" and "readable after"
  shows "\<exists>h' A' st. enc_Push x w push events h A = (Inr h', A') \<and> sound h' \<and>
    enc_Pull c x w pull after h' B = (Inr (sortEvents (filter (above after) (map strip events)), st), B) \<and>
    ps_truncated st = 0 \<and> ps_skipped st = 0 \<and> ps_undecryptable st = 0"
proof -
  have ng: "ev_type e \<noteq> EventDeviceKeyGranted" if "e \<in> set events" for e using assms(17) that by blast
  from enc_Push_run [OF assms(5-7,13,9) ng, of events push h]
  obtain ces A' where ces: "list_all2 (sealed_from x w wck epoch) events ces"
    and p: "enc_Push x w push events h A = (push ces h, A')" by blast
  obtain h' where h': "push ces h = Inr h'" "sound h'" "floors_of h' = floors_of h"
    "mset (filter (above after) (log_of h')) = mset (filter (above after) ces)"
    by (rule sealed_push [OF assms(1,2) ces assms(15,16,4) assms(18) [OF ces]])
  have pull: "pull after h' = Inr (sortEvents (filter (above after) (log_of h')))"
    using pull_ok [OF h'(2) assms(19)] assms(3) h'(3) by simp
  have sl: "sealable e" if "e \<in> set events" for e using assms(17) that by blast
  from pull_of_sealed [where pull = pull and h = h' and after = after and raw = "filter (above after) (log_of h')" and c = c,
      OF ces assms(12,8,14) sl assms(11,10,15) h'(4) pull] show ?thesis
    using p h' by auto
qed

end

end
