(* ===== verification/Hub_Claims.thy ===== *)
theory Hub_Claims
  imports Hub_Journey
begin

section \<open>What holds between a device and its hub\<close>

subsection \<open>What a pull lets in\<close>

lemma VerifyRemote_devices: "st_devices s = st_devices t \<Longrightarrow> VerifyRemoteEvent w s e = VerifyRemoteEvent w t e"
  unfolding VerifyRemoteEvent_def verifyEventSignature_def hasEnrolledDevices_def by simp

text \<open>What a grant that is offered to a resolved keyring leaves alone, and what it can add.\<close>

lemma held_cacheWCK: "held_keys (cacheWCK epoch kid origin b k) \<subseteq> insert b (held_keys k)"
proof
  fix y assume "y \<in> held_keys (cacheWCK epoch kid origin b k)"
  then show "y \<in> insert b (held_keys k)"
    by (force simp: held_keys_def cacheWCK_def tput_def in_tmod split: if_splits)
qed

lemma admit_key_frame:
  assumes "admit_key w g b k = (r, k')"
  shows "st_devices (kr_store k') = st_devices (kr_store k) \<and> held_keys k' \<subseteq> insert b (held_keys k)"
proof (cases "admissible w k g b")
  case False
  then show ?thesis using admit_key_rejects [OF False] assms by auto
next
  case True
  let ?kid = "KIDForWCK w b"
  have run: "admit_key w g b k = bindk (store_key [] (kg_epoch g) ?kid b) (\<lambda>_.
       bindk (updk (on_store (RecordKeyEpoch w (kg_epoch g) ?kid originGrant))) (\<lambda>_.
       updk (cacheWCK (kg_epoch g) ?kid originGrant b))) k"
    using True by (auto simp: admit_key_def admissible_def Let_def)
  obtain q k1 where s: "store_key [] (kg_epoch g) ?kid b k = (q, k1)" by fastforce
  then have k1: "kr_store k1 = kr_store k" "held_keys k1 = held_keys k"
    by (auto simp: store_key_def held_keys_def split: sum.splits)
  show ?thesis
  proof (cases q)
    case (Inl er)
    then show ?thesis using assms run s k1 by (auto simp: bindk_def)
  next
    case (Inr u)
    then have k': "k' = cacheWCK (kg_epoch g) ?kid originGrant b (on_store (RecordKeyEpoch w (kg_epoch g) ?kid originGrant) k1)"
      using assms run s by (auto simp: bindk_def updk_def)
    then have "st_devices (kr_store k') = st_devices (kr_store k)"
      using k1 by (simp add: cacheWCK_def on_store_def RecordKeyEpoch_def Let_def)
    moreover have "held_keys k' \<subseteq> insert b (held_keys k)"
    proof -
      have "held_keys (on_store (RecordKeyEpoch w (kg_epoch g) ?kid originGrant) k1) = held_keys k1"
        by (simp add: held_keys_def on_store_def)
      then show ?thesis unfolding k' using held_cacheWCK k1(2) by metis
    qed
    ultimately show ?thesis by blast
  qed
qed

lemma IngestGrant_frame:
  assumes "IngestGrant x w g k = (r, k')" "kr_resolved k \<noteq> None"
  shows "st_devices (kr_store k') = st_devices (kr_store k) \<and> kr_resolved k' = kr_resolved k \<and>
    (b \<in> held_keys k' \<longrightarrow> b \<in> held_keys k \<or>
      kg_recipient g = kr_recipient k \<and> unwrapWCK x w (kg_wrapped g) (kr_identity k) = Inr b)"
proof -
  have rs: "resolve x k = (Inr (), k)" using assms(2) by (auto simp: resolve_def)
  show ?thesis
  proof (cases "kg_recipient g = kr_recipient k \<and> (\<exists>b. unwrapWCK x w (kg_wrapped g) (kr_identity k) = Inr b)")
    case False
    then show ?thesis using assms(1) rs
      by (cases "unwrapWCK x w (kg_wrapped g) (kr_identity k)")
        (auto simp: IngestGrant_def bindk_def askk_def relabel_def split: if_splits)
  next
    case True
    then obtain b' where b': "kg_recipient g = kr_recipient k" "unwrapWCK x w (kg_wrapped g) (kr_identity k) = Inr b'" by blast
    then have "admit_key w g b' k = (r, k')" using assms(1) rs
      by (simp add: IngestGrant_def bindk_def askk_def relabel_def)
    then show ?thesis using admit_key_frame admit_key_resolved b' by blast
  qed
qed

text \<open>A grant of the batch that brought the key \<open>b\<close>: addressed to this device, verified when
  verification is on, and wrapping \<open>b\<close>.\<close>

definition brings :: "hub_hooks \<Rightarrow> crypto \<Rightarrow> world \<Rightarrow> keyring \<Rightarrow> event \<Rightarrow> string \<Rightarrow> bool" where
  "brings c x w k e b \<longleftrightarrow> ev_type e = EventDeviceKeyGranted \<and>
     (hh_verify c \<longrightarrow> VerifyRemoteEvent w (kr_store k) e = Inr ()) \<and>
     (\<exists>g. decode_grant (ev_payload e) = Some g \<and> kg_recipient g = kr_recipient k \<and>
       unwrapWCK x w (kg_wrapped g) (kr_identity k) = Inr b)"

lemma ingest_event_frame:
  assumes "kr_resolved k \<noteq> None"
  shows "st_devices (kr_store (ingest_event c x w k e)) = st_devices (kr_store k) \<and>
    kr_resolved (ingest_event c x w k e) = kr_resolved k \<and>
    (b \<in> held_keys (ingest_event c x w k e) \<longrightarrow> b \<in> held_keys k \<or> brings c x w k e b)"
proof (cases "ev_type e = EventDeviceKeyGranted \<and> \<not> (hh_verify c \<and> VerifyRemoteEvent w (kr_store k) e \<noteq> Inr ())")
  case True
  then show ?thesis
    using IngestGrant_frame [OF prod.collapse [symmetric] assms, of x w _ b]
    by (auto simp: ingest_event_def brings_def split: option.splits)
next
  case False
  then show ?thesis by (auto simp: ingest_event_def split: option.splits)
qed

lemma ingest_all_frame:
  assumes "kr_resolved k \<noteq> None"
  shows "st_devices (kr_store (foldl (ingest_event c x w) k es)) = st_devices (kr_store k) \<and>
    kr_resolved (foldl (ingest_event c x w) k es) = kr_resolved k \<and>
    (b \<in> held_keys (foldl (ingest_event c x w) k es) \<longrightarrow> b \<in> held_keys k \<or> (\<exists>e \<in> set es. brings c x w k e b))"
  using assms
proof (induction es arbitrary: k)
  case (Cons e es)
  let ?k = "ingest_event c x w k e"
  note f = ingest_event_frame [OF Cons.prems, of c x w e b]
  then have "kr_resolved ?k \<noteq> None" using Cons.prems by simp
  note IH = Cons.IH [OF this]
  have "brings c x w ?k e' b \<longleftrightarrow> brings c x w k e' b" for e'
    unfolding brings_def kr_recipient_def kr_identity_def
    using f VerifyRemote_devices [of "kr_store ?k" "kr_store k" w e'] by simp
  then show ?case using f IH by auto
qed simp

lemma enc_Pull_parts:
  assumes "enc_Pull c x w pull after h k = (Inr (out, st), k')"
  obtains raw k1 where "pull after h = Inr raw" "Prime x w k = (Inr (), k1)"
    "second_pass c x w raw [] \<lparr>ps_raw = length raw, ps_truncated = 0, ps_skipped = 0, ps_undecryptable = 0\<rparr>
       (foldl (ingest_event c x w) k1 raw) = (out, st, k')"
  using assms by (auto simp: enc_Pull_def bindk_def askk_def relabel_def relabelk_def split: sum.splits prod.splits)

text \<open>C7: what an untrusted hub can make a device see: everything a pull delivers is a key grant as
  it was served, an encrypted carrier as it was served (for quarantine), or what a key the device
  holds opened a carrier to, never an event in plaintext; and every key the pull adds was wrapped
  to this device in a grant of the batch, signed by a device that this one trusts.\<close>

theorem pull_admits_only_sealed_content:
  assumes "enc_Pull c x w pull after h k = (Inr (out, st), k')" and "primed k"
  shows "\<exists>raw. pull after h = Inr raw \<and>
    (\<forall>r \<in> set out. \<exists>e \<in> set raw. ev_type e = EventDeviceKeyGranted \<and> r = e \<or>
       ev_type e = EventEncryptedV2 \<and> (r = e \<or> (\<exists>b \<in> held_keys k'. DecryptEvent x w e b = Inr r))) \<and>
    (\<forall>b \<in> held_keys k' - held_keys k. \<exists>e \<in> set raw. \<exists>g. ev_type e = EventDeviceKeyGranted \<and>
       (hh_verify c \<longrightarrow> VerifyRemoteEvent w (kr_store k) e = Inr ()) \<and> decode_grant (ev_payload e) = Some g \<and>
       kg_recipient g = kr_recipient k \<and> unwrapWCK x w (kg_wrapped g) (kr_identity k) = Inr b)"
proof -
  obtain raw where p: "pull after h = Inr raw"
    and s: "second_pass c x w raw [] \<lparr>ps_raw = length raw, ps_truncated = 0, ps_skipped = 0, ps_undecryptable = 0\<rparr>
       (foldl (ingest_event c x w) k raw) = (out, st, k')"
    using enc_Pull_parts [OF assms(1)] Prime_primed [OF assms(2)] by (metis prod.inject)
  have r: "kr_resolved k \<noteq> None" using assms(2) by (simp add: primed_def)
  note R = second_pass_restores [OF s]
  then have "held_keys k' = held_keys (foldl (ingest_event c x w) k raw)" by (simp add: held_keys_def)
  then show ?thesis using p R ingest_all_frame [OF r, of c x w raw] unfolding restores_def brings_def by auto
qed

subsection \<open>What a pull leaves out comes again\<close>

text \<open>C9: an event that a pull holds back is never lost: what is delivered of a device's stream is
  the content of a prefix of what the hub served, a cut stream is counted, and when the batch is
  applied, every position the device's cursor then covers is that of an event of the prefix, so
  the next pull is served the rest again.\<close>

theorem deferred_tail_is_pulled_again:
  assumes "enc_Pull c x w pull after h k = (Inr (out, st), k')"
    and "ApplyEventsWithStats w out after s = (Inr (safe, stats), s')"
  shows "\<exists>raw pre post. pull after h = Inr raw \<and> filter (\<lambda>e. ev_device e = d) raw = pre @ post \<and>
     (post \<noteq> [] \<longrightarrow> 0 < ps_truncated st) \<and>
     map (\<lambda>e. (ev_id e, ev_seq e)) (filter (\<lambda>e. ev_device e = d) out) =
       map (\<lambda>e. (ev_id e, ev_seq e)) (filter (\<lambda>e. ev_type e \<in> {EventDeviceKeyGranted, EventEncryptedV2}) pre) \<and>
     (\<forall>n m. (d, m) \<in> set safe \<longrightarrow> After after d < n \<longrightarrow> n \<le> m \<longrightarrow> n \<in> ev_seq ` set pre)"
proof -
  obtain raw k1 where p: "pull after h = Inr raw"
    and s: "second_pass c x w raw [] \<lparr>ps_raw = length raw, ps_truncated = 0, ps_skipped = 0, ps_undecryptable = 0\<rparr>
       (foldl (ingest_event c x w) k1 raw) = (out, st, k')"
    by (rule enc_Pull_parts [OF assms(1)])
  obtain pre post where c: "stream_of d raw = pre @ post"
    "slots_of (stream_of d out) = slots_of (filter carries_content pre)" "post \<noteq> [] \<longrightarrow> 0 < ps_truncated st"
    using second_pass_prefix [OF s, of d] by (auto simp: cut_def)
  have "n \<in> ev_seq ` set pre" if cv: "(d, m) \<in> set safe" "After after d < n" "n \<le> m" for n m
  proof -
    obtain e where e: "e \<in> set out" "ev_device e = d" "ev_seq e = n" using cursor_pass [OF assms(2) cv] by blast
    then have "(ev_id e, n) \<in> set (slots_of (stream_of d out))" by force
    then show ?thesis unfolding c(2) by auto
  qed
  then show ?thesis using p c by (intro exI [of _ raw] exI [of _ pre] exI [of _ post]) (auto simp: carries_content_def [abs_def])
qed

subsection \<open>Through the hub\<close>


subsection \<open>Replay\<close>

lemma TryDecrypt_sealed:
  assumes "sealed_from x w wck epoch e ce" "aead_sound x" "sealable e" "int64 epoch" "digest32 w"
    and "cached (epoch, KIDForWCK w wck) k = Some wck" "primed k"
  shows "TryDecrypt x w ce k = (Inr (strip e), k)"
proof -
  obtain nonce where n: "length nonce = nonceSize" and c: "EncryptEvent x w nonce e wck epoch = Inr ce"
    using assms(1) by (auto simp: sealed_from_def)
  note E = EncryptEvent_Inr [OF c]
  let ?kid = "KIDForWCK w wck"
  let ?v = "\<lparr>en_version = 2, en_epoch = epoch, en_kid = ?kid,
     en_ct = b64_enc (nonce @ x_seal x wck nonce (marshal_sealed (sealed_of e)) (envelopeAAD e ?kid epoch))\<rparr>"
  have p: "ParseEncryptedEnvelope w ce = Inr ?v"
    using assms(4) unfolding E(2)
    by (simp add: ParseEncryptedEnvelope_def decode_marshal_envelope KIDForWCK_def int64_def envelopeVersion_def)
  have d: "DecryptEvent x w ce wck = Inr (strip e)"
    using Decrypt_Encrypt [OF c assms(2) n assms(3,4)] by (simp add: strip_def)
  have kid: "?kid \<noteq> []" by (rule kid_nonempty) fact
  have ex: "WCKCandidates epoch ?kid k = [wck]" using assms(6) by (simp add: candidates_cached [OF kid])
  show ?thesis using ex kid first_opens [OF d] p Prime_primed [OF assms(7)]
    by (simp add: TryDecrypt_def bindk_def relabelk_def relabel_def last_open_def)
qed

definition in_receive_skew :: "world \<Rightarrow> event \<Rightarrow> bool" where
  "in_receive_skew w e \<longleftrightarrow> \<not> drop_bit hlcLogicalBits (ev_hlc e) - w_now w > duration_ms defaultMaxSkew"

text \<open>What is written into a conflict is read back: the texts are printable.\<close>

lemma ascii_escape: "is_ascii c \<Longrightarrow> ascii_str (escape_ascii c)"
  by (auto simp: escape_ascii_def Let_def is_ascii_def hex_digit_def)

lemma ascii_quote_chars: "ascii_str s \<Longrightarrow> ascii_str (quote_chars n s)"
  by (induction n s rule: quote_chars.induct) (auto simp: ascii_escape)

lemma ascii_quote [simp]: "ascii_str s \<Longrightarrow> ascii_str (json_quote s)"
  by (simp add: json_quote_def ascii_quote_chars is_ascii_def)

lemma ascii_show_int [simp]: "ascii_str (show_int i)"
  using show_int_shape [of i] by (force simp: ascii_str_def is_ascii_def is_digit_def)

lemma ascii_join: "(\<forall>s \<in> set ps. ascii_str s) \<Longrightarrow> ascii_str (join_commas ps)"
  by (induction ps rule: join_commas.induct) (auto simp: is_ascii_def)

lemma ascii_marshal_obj:
  "(\<And>k v. Some (k, v) \<in> set fs \<Longrightarrow> ascii_str k \<and> ascii_str v) \<Longrightarrow> ascii_str (marshal_obj fs)"
  unfolding marshal_obj_def
  by (auto simp: is_ascii_def List.map_filter_def intro!: ascii_join)

lemma ascii_marshal_event: "ascii_event e \<Longrightarrow> ascii_str (marshal_event e)"
  unfolding marshal_event_def
  by (rule ascii_marshal_obj) (auto simp: jstr_def jint_def ascii_event_def is_ascii_def)

lemma record_readable:
  assumes "ascii_event e" "ascii_str kind" "ascii_str cause"
  shows "\<exists>d. decode_verification (verification_record e kind cause) = Some d \<and> vd_kind d = kind \<and>
     vd_event_id d = ev_id e \<and> decode_event (vd_event_json d) = Some e"
proof -
  let ?v = "\<lparr>vd_kind = kind, vd_event_id = ev_id e, vd_device = ev_device e, vd_hlc = ev_hlc e, vd_seq = ev_seq e,
      vd_type = ev_type e, vd_error = cause, vd_event_json = marshal_event e\<rparr>"
  have "parse_json (marshal_verification ?v) = Some (JObj
     [(''kind'', JStr kind), (''event_id'', JStr (ev_id e)), (''device_id'', JStr (ev_device e)),
      (''hlc'', JInt (ev_hlc e)), (''seq'', JInt (ev_seq e)), (''type'', JStr (ev_type e)),
      (''error'', JStr cause), (''event_json'', JStr (marshal_event e))])"
    unfolding marshal_verification_def
    by (rule parse_marshal_obj)
      (use assms ascii_marshal_event in \<open>simp add: List.map_filter_def jstr_def jint_def renders_quote renders_int
         ascii_event_def is_ascii_def\<close>)
  then have "decode_verification (marshal_verification ?v) = Some ?v"
    using assms(1) by (simp add: decode_verification_def unmarshal_def set_field_def str_field_def int_field_def ascii_event_def)
  then show ?thesis using event_json_roundtrip_aux [OF assms(1)]
    by (intro exI [of _ ?v]) (simp add: verification_record_def)
qed

text \<open>The open conflict that the application of an undecryptable carrier leaves behind.\<close>

definition quarantines :: "conflict \<Rightarrow> event \<Rightarrow> bool" where
  "quarantines cn carrier \<longleftrightarrow> cn_open cn \<and> ascii_event carrier \<and>
     (\<exists>cause. ascii_str cause \<and> cn_details cn = verification_record carrier EventConflictKindUndecryptable cause)"

lemma undecryptable_ascii: "ascii_str EventConflictKindUndecryptable"
  by (simp add: EventConflictKindUndecryptable_def is_ascii_def)

lemma quarantines_decodes:
  assumes "quarantines cn carrier"
  obtains d where "decode_verification (cn_details cn) = Some d" "vd_kind d = EventConflictKindUndecryptable"
    "decode_event (vd_event_json d) = Some carrier"
  using assms record_readable [OF _ undecryptable_ascii] unfolding quarantines_def by fastforce

lemma replay_one_skewed:
  assumes "quarantines cn carrier" "TryDecrypt x w carrier k = (Inr r, k1)" "\<not> in_receive_skew w r"
  shows "replay_one x w cn k = (Inr False, k1)"
  using assms(2,3) by (cases rule: quarantines_decodes [OF assms(1)]) (auto simp: replay_one_def in_receive_skew_def)

lemma replay_one_failed:
  assumes "quarantines cn carrier" "TryDecrypt x w carrier k = (Inr r, k1)" "in_receive_skew w r"
    and "apply_one w r (kr_store k1) = Inl er"
  shows "replay_one x w cn k = (Inl er, k1)"
proof -
  have "ApplyEventsWithStats w [r] [] (kr_store k1) = (Inl er, kr_store k1)"
    using assms(4) by (simp add: ApplyEventsWithStats_def sort_events_def)
  then show ?thesis
    using assms(2,3) by (cases rule: quarantines_decodes [OF assms(1)]) (auto simp: replay_one_def in_receive_skew_def)
qed

lemma replay_one_step:
  assumes "quarantines cn carrier" "TryDecrypt x w carrier k = (Inr r, k1)" "in_receive_skew w r"
    and "ApplyEventsWithStats w [r] [] (kr_store k1) = (Inr q, s)" "ResolveConflict (cn_id cn) replay_resolution s = Inr s'"
  shows "replay_one x w cn k = (Inr True, k1\<lparr>kr_store := s'\<rparr>)"
proof -
  from assms(1) obtain d where "decode_verification (cn_details cn) = Some d" "vd_kind d = EventConflictKindUndecryptable"
    "decode_event (vd_event_json d) = Some carrier"
    by (rule quarantines_decodes)
  then show ?thesis using assms(2-) by (auto simp: replay_one_def in_receive_skew_def)
qed

lemma apply_single:
  assumes "apply_one w e s = Inr (d, s')"
  shows "\<exists>q. ApplyEventsWithStats w [e] after s = (Inr q, s')"
  using assms by (simp add: ApplyEventsWithStats_def sort_events_def)

lemma resolve_open:
  assumes "cn \<in> set (st_conflicts s)" "cn_open cn"
  shows "ResolveConflict (cn_id cn) res s = Inr (close_where (\<lambda>c. cn_id c = cn_id cn) res s)"
  using assms by (auto simp: ResolveConflict_def list_ex_iff)

lemma closed_rest:
  "c \<in> set (st_conflicts (close_where P res s)) \<Longrightarrow> cn_open c \<Longrightarrow> c \<in> set (st_conflicts s) \<and> \<not> P c"
  by (auto simp: close_where_def tmod_def split: if_splits)

lemma inserted_conflict:
  "c \<in> set (st_conflicts (insertConflict w ns t d s)) \<Longrightarrow> c \<in> set (st_conflicts s) \<or> cn_type c = t \<and> cn_details c = d"
  by (auto simp: insertConflict_def Let_def new_id_def split: if_splits)

lemma strip_sends: "drop_bit n (ev_hlc (strip e)) = drop_bit n (ev_hlc e)" "ev_type (strip e) = ev_type e"
  by (simp_all add: strip_def)

text \<open>C32: a carrier that was quarantined because its key had not arrived opens once the key is held
  (the sealing key is in the keyring cache under its own key id and epoch), whatever key id the hub had
  written on it: it opens to exactly the event that was sealed, and the replay hands that event to the
  application a pulled event goes through. When the application runs (\<^verbatim>\<open>event_tx\<close>
  succeeds, on an event whose clock is fine) the event is applied and the conflict is closed; when the
  application only holds or quarantines the event, the conflict is closed all the same
  (\<open>replay_drops_held_event\<close> shows what that loses); when it fails otherwise, the error is
  returned and the store is as it was, the conflict still open; and an event too far in the future is
  left quarantined. (Closing needs the conflict still to be in the log after the application.)\<close>

theorem late_key_recovers_event:
  assumes "sealed_from x w wck epoch e ce" and "aead_sound x" and "sealable e" and "int64 epoch" and "digest32 w"
    and "cached (epoch, KIDForWCK w wck) k = Some wck" and "primed k" and "quarantines cn ce"
  shows "TryDecrypt x w ce k = (Inr (strip e), k) \<and>
    (\<not> in_receive_skew w e \<longrightarrow> replay_one x w cn k = (Inr False, k)) \<and>
    (in_receive_skew w e \<longrightarrow>
      (\<forall>er. apply_one w (strip e) (kr_store k) = Inl er \<longrightarrow> replay_one x w cn k = (Inl er, k)) \<and>
      (\<forall>d s'. apply_one w (strip e) (kr_store k) = Inr (d, s') \<and> cn \<in> set (st_conflicts s') \<longrightarrow>
         replay_one x w cn k = (Inr True, k\<lparr>kr_store := close_where (\<lambda>c. cn_id c = cn_id cn) replay_resolution s'\<rparr>)) \<and>
      (\<forall>s'. event_tx w (e\<lparr>ev_created := [], ev_workspace := []\<rparr>) (kr_store k) = Inr s' \<and> clock_fine w e \<and>
         ev_type e \<noteq> EventEncryptedV2 \<longrightarrow> apply_one w (strip e) (kr_store k) = Inr (Applied, s')))"
proof -
  note opens = TryDecrypt_sealed [OF assms(1-7)]
  have op: "cn_open cn" using assms(8) by (simp add: quarantines_def)
  have sk: "in_receive_skew w (strip e) = in_receive_skew w e" by (simp add: in_receive_skew_def strip_def)
  have closed: "replay_one x w cn k = (Inr True, k\<lparr>kr_store := close_where (\<lambda>c. cn_id c = cn_id cn) replay_resolution s'\<rparr>)"
    if a: "in_receive_skew w e" "apply_one w (strip e) (kr_store k) = Inr (d, s')" "cn \<in> set (st_conflicts s')" for d s'
  proof -
    obtain q where "ApplyEventsWithStats w [strip e] [] (kr_store k) = (Inr q, s')" using apply_single [OF a(2)] by blast
    from replay_one_step [OF assms(8) opens _ this resolve_open [OF a(3) op]] sk a(1) show ?thesis by simp
  qed
  have skewed: "replay_one x w cn k = (Inr False, k)" if "\<not> in_receive_skew w e"
    using replay_one_skewed [OF assms(8) opens] sk that by simp
  have failed: "replay_one x w cn k = (Inl er, k)"
    if "in_receive_skew w e" "apply_one w (strip e) (kr_store k) = Inl er" for er
    using replay_one_failed [OF assms(8) opens] sk that by simp
  have applied: "apply_one w (strip e) (kr_store k) = Inr (Applied, s')"
    if "event_tx w (e\<lparr>ev_created := [], ev_workspace := []\<rparr>) (kr_store k) = Inr s'" "clock_fine w e"
      "ev_type e \<noteq> EventEncryptedV2" for s'
    using that by (simp add: apply_one_def clock_fine_def Let_def strip_def)
  show ?thesis using opens closed skewed failed applied by blast
qed

text \<open>The replay gives a carrier one attempt only: when the event it opens to does not link to its
  device's chain yet (its predecessor is still missing), the event is held, that is not stored, but
  the conflict that preserves the carrier is closed all the same, and what is recorded instead does
  not contain the event; the cursor passed its slot when it was quarantined, so it never comes
  back.\<close>

theorem replay_drops_held_event:
  assumes "sealed_from x w wck epoch e ce" and "aead_sound x" and "sealable e" and "int64 epoch" and "digest32 w"
    and "cached (epoch, KIDForWCK w wck) k = Some wck" and "primed k"
    and "quarantines cn ce" and "in_receive_skew w e" and "clock_fine w e" and "ev_type e \<noteq> EventEncryptedV2"
    and "event_tx w (e\<lparr>ev_created := [], ev_workspace := []\<rparr>) (kr_store k) = Inl er" and "err_is er KHashChain"
    and "cn \<in> set (st_conflicts (kr_store k))"
  shows "\<exists>k'. replay_one x w cn k = (Inr True, k') \<and> st_events (kr_store k') = st_events (kr_store k) \<and>
    (\<forall>c \<in> set (st_conflicts (kr_store k')). cn_open c \<longrightarrow> c \<in> set (st_conflicts (kr_store k)) \<and> cn_id c \<noteq> cn_id cn \<or>
       cn_type c = ConflictEventHashChain \<and>
       cn_details c = hash_chain_details (e\<lparr>ev_created := [], ev_workspace := []\<rparr>) (err_msg er))"
proof -
  let ?e = "e\<lparr>ev_created := [], ev_workspace := []\<rparr>"
  let ?s = "insertEventHashChainConflict w ?e er (kr_store k)"
  have a: "apply_one w (strip e) (kr_store k) = Inr (Held, ?s)"
    using assms(10-13) by (simp add: apply_one_def clock_fine_def Let_def strip_def)
  obtain q where q: "ApplyEventsWithStats w [strip e] [] (kr_store k) = (Inr q, ?s)" using apply_single [OF a] by blast
  have op: "cn_open cn" using assms(8) by (simp add: quarantines_def)
  have sk: "in_receive_skew w (strip e)" using assms(9) by (simp add: in_receive_skew_def strip_def)
  have cn: "cn \<in> set (st_conflicts ?s)" using assms(14)
    by (auto simp: insertEventHashChainConflict_def insertConflict_def Let_def new_id_def)
  from replay_one_step [OF assms(8) TryDecrypt_sealed [OF assms(1-7)] sk q resolve_open [OF cn op]]
  have r: "replay_one x w cn k = (Inr True, k\<lparr>kr_store := close_where (\<lambda>c. cn_id c = cn_id cn) replay_resolution ?s\<rparr>)" .
  have "st_events (close_where (\<lambda>c. cn_id c = cn_id cn) replay_resolution ?s) = st_events (kr_store k)"
    by (simp add: close_where_def insertEventHashChainConflict_def)
  then show ?thesis unfolding r using closed_rest inserted_conflict
    by (fastforce simp: insertEventHashChainConflict_def)
qed

subsection \<open>The properties at work\<close>

abbreviation plain :: crypto where "plain \<equiv> plain_crypto []"

definition trusting :: hub_hooks where
  "trusting = \<lparr>hh_verify = True, hh_wait = False, hh_note = False, hh_grace = 0\<rparr>"

abbreviation sent :: event where "sent \<equiv> peer_event 1 ''h''"

definition sent_sealed :: event where
  "sent_sealed = (case EncryptEvent plain digest_world sample_nonce sent sample_wck 1 of Inr c \<Rightarrow> c | Inl e \<Rightarrow> sent)"

lemma sent_facts:
  "sealable sent" "int64 1" "length sample_wck = wckSize" "length sample_nonce = nonceSize"
  "cached (1, KIDForWCK digest_world sample_wck) founder = Some sample_wck" "strip sent = sent"
  "ev_type sent \<noteq> EventDeviceKeyGranted" "ev_device sent = ''p''" "ev_seq sent = 1"
  using founder_cached [of "(1, sample_kid)"]
  by (simp_all add: sealable_def peer_event_def event_zero_def is_ascii_def int64_def sample_wck_def wckSize_def
      sample_nonce_def nonceSize_def sample_kid_def strip_def EventDeviceKeyGranted_def)

lemma plain_random: "random_sized (plain_crypto a0)"
  by (simp add: random_sized_def plain_crypto_def)

lemma sent_sealed_from: "sealed_from plain digest_world sample_wck 1 sent sent_sealed"
  using sent_facts(3,4) by (auto simp: sealed_from_def sent_sealed_def EncryptEvent_def Let_def intro!: exI [of _ sample_nonce])

lemma sample_hub_facts:
  "file_sound digest_world [] empty_hub" "uniq ev_id (file_log empty_hub)"
  "\<not> snapshot_required (file_floors digest_world [] empty_hub) []" "\<And>e. e \<in> set (file_log empty_hub) \<Longrightarrow> \<not> above [] e"
  "uniq ev_id [sent]" "ev_id ` set [sent] \<inter> ev_id ` set (file_log empty_hub) = {}"
  "PushKey plain digest_world founder = (Inr (1, KIDForWCK digest_world sample_wck, sample_wck), founder)"
  using sample_hub(1,3) founder_push
  by (simp_all add: file_sound_def file_log_def file_floors_def snapshot_required_def uniq_def sample_kid_def)

lemma sent_pulled: "sortEvents (filter (above []) (map strip [sent])) = [sent]"
  using sent_facts(6,9) by (simp add: above_def After_def sortEvents_def)

lemmas sample_journey_facts = sample_hub_facts(1-4) founder_primed sample_hub_facts(7) one_neq_zero sent_facts(2,3)
  founder_primed sent_facts(5) plain_aead_sound plain_random digest_world32 sample_hub_facts(5,6)


text \<open>The same through the lemma of the contract, for the properties that start from a pull.\<close>

lemma sent_arrives:
  "\<exists>h' st. enc_Pull trusting plain digest_world (hub_Pull digest_world []) [] h' founder = (Inr ([sent], st), founder)"
proof -
  have "ev_type e \<noteq> EventDeviceKeyGranted \<and> sealable e" if "e \<in> set [sent]" for e using that sent_facts by simp
  from fh.journey [OF sample_journey_facts this TrueI TrueI, of trusting] show ?thesis unfolding sent_pulled by blast
qed

text \<open>A device without the key defers the carrier; nothing of the batch gets past it.\<close>

lemma joiner_defers:
  "enc_Pull trusting plain digest_world (\<lambda>after h. Inr [sent_sealed]) [] () joiner =
     (Inr ([], \<lparr>ps_raw = 1, ps_truncated = 1, ps_skipped = 0, ps_undecryptable = 0\<rparr>), joiner)"
proof -
  obtain nonce where n: "EncryptEvent plain digest_world nonce sent sample_wck 1 = Inr sent_sealed"
    using sent_sealed_from by (auto simp: sealed_from_def)
  let ?v = "\<lparr>en_version = 2, en_epoch = 1, en_kid = KIDForWCK digest_world sample_wck,
     en_ct = b64_enc (nonce @ x_seal plain sample_wck nonce (marshal_sealed (sealed_of sent))
       (envelopeAAD sent (KIDForWCK digest_world sample_wck) 1))\<rparr>"
  have p: "ParseEncryptedEnvelope digest_world sent_sealed = Inr ?v"
    unfolding EncryptEvent_Inr(2) [OF n]
    by (simp add: ParseEncryptedEnvelope_def decode_marshal_envelope KIDForWCK_def int64_def envelopeVersion_def)
  have t: "ev_type sent_sealed = EventEncryptedV2" using sealed_carrier [OF sent_sealed_from] by blast
  have "WCKCandidates 1 [] joiner = []" by (simp add: WCKCandidates_def joiner_def)
  then have c: "classify trusting plain digest_world sent_sealed joiner = (Defer, joiner)"
    using p t by (simp add: classify_def open_carrier_def missingKeyGraceExpired_def trusting_def forward_or_defer_def)
  have "primed joiner" by (simp add: primed_def joiner_def HeldKeys_def empty_store_def)
  then show ?thesis using c t
    by (simp add: enc_Pull_def bindk_def askk_def relabel_def relabelk_def Prime_primed ingest_event_def)
qed

theorem deferred_tail_is_pulled_again_witness:
  "\<exists>pre post. [sent_sealed] = pre @ post \<and> ev_device sent_sealed = ''p'' \<and> pre = []"
proof -
  have a: "\<exists>stats. ApplyEventsWithStats digest_world [] [] (kr_store joiner) = (Inr ([], stats), kr_store joiner)"
    by (simp add: ApplyEventsWithStats_def sort_events_def safe_cursor_def slot_devices_def)
  then obtain stats where a: "ApplyEventsWithStats digest_world [] [] (kr_store joiner) = (Inr ([], stats), kr_store joiner)" ..
  have d: "ev_device sent_sealed = ''p''" "ev_type sent_sealed = EventEncryptedV2"
    using sealed_carrier [OF sent_sealed_from] sent_facts by auto
  from deferred_tail_is_pulled_again [OF joiner_defers a, of "''p''"] show ?thesis
    using d by (fastforce simp: Cons_eq_append_conv)
qed

theorem pull_admits_only_sealed_content_witness:
  "\<exists>h' st raw. enc_Pull trusting plain digest_world (hub_Pull digest_world []) [] h' founder = (Inr ([sent], st), founder) \<and>
     hub_Pull digest_world [] [] h' = Inr raw \<and>
     (\<exists>e \<in> set raw. \<exists>b \<in> held_keys founder. ev_type e = EventEncryptedV2 \<and> DecryptEvent plain digest_world e b = Inr sent)"
proof -
  obtain h' st where p: "enc_Pull trusting plain digest_world (hub_Pull digest_world []) [] h' founder = (Inr ([sent], st), founder)"
    using sent_arrives by blast
  have "ev_type sent \<notin> {EventDeviceKeyGranted, EventEncryptedV2}"
    by (simp add: peer_event_def event_zero_def EventDeviceKeyGranted_def EventEncryptedV2_def)
  then show ?thesis using pull_admits_only_sealed_content [OF p founder_primed] p by fastforce
qed

definition late_world :: world where "late_world = digest_world\<lparr>w_now := 1704067200000\<rparr>"

definition late_event :: "string \<Rightarrow> event" where
  "late_event prev = event_zero\<lparr>ev_id := ''e'', ev_device := ''p'', ev_hlc := batch_hlc, ev_type := ''x'',
     ev_content_hash := ContentHash late_world [], ev_prev_hash := prev\<rparr>"

definition late_carrier :: "string \<Rightarrow> event" where
  "late_carrier prev = (case EncryptEvent plain late_world sample_nonce (late_event prev) sample_wck 1 of
     Inr c \<Rightarrow> c | Inl e \<Rightarrow> late_event prev)"

definition late_conflict :: "string \<Rightarrow> conflict" where
  "late_conflict prev = \<lparr>cn_id = ''c'', cn_ns = [], cn_type = ConflictEventVerification, cn_open = True,
     cn_details = verification_record (late_carrier prev) EventConflictKindUndecryptable [], cn_resolution = []\<rparr>"

definition late_store :: "string \<Rightarrow> store" where
  "late_store prev = founder_store\<lparr>st_conflicts := [late_conflict prev]\<rparr>"

lemma late_from: "sealed_from plain late_world sample_wck 1 (late_event prev) (late_carrier prev)"
  using sent_facts(3,4) by (auto simp: sealed_from_def late_carrier_def EncryptEvent_def Let_def intro!: exI [of _ sample_nonce])

lemma late_facts:
  "ascii_str prev \<Longrightarrow> sealable (late_event prev)" "digest32 late_world" "int64 1"
  "cached (1, KIDForWCK late_world sample_wck) (founder\<lparr>kr_store := late_store prev\<rparr>) = Some sample_wck"
  "primed (founder\<lparr>kr_store := late_store prev\<rparr>)" "in_receive_skew late_world (late_event prev)"
  "clock_fine late_world (late_event prev)" "ev_type (late_event prev) \<noteq> EventEncryptedV2"
proof -
  have k: "KIDForWCK late_world sample_wck = sample_kid" by (simp add: KIDForWCK_def late_world_def sample_kid_def)
  show "cached (1, KIDForWCK late_world sample_wck) (founder\<lparr>kr_store := late_store prev\<rparr>) = Some sample_wck"
    unfolding k using founder_cached [of "(1, sample_kid)"] by (simp add: cached_def)
  show "primed (founder\<lparr>kr_store := late_store prev\<rparr>)"
    by (simp add: primed_def founder_def cached_def late_store_def HeldKeys_def founder_store_def empty_store_def)
  show "digest32 late_world" using digest_world32 by (simp add: digest32_def late_world_def)
  show "sealable (late_event prev)" if "ascii_str prev"
    using that ascii_hex_enc by (simp add: sealable_def late_event_def event_zero_def ContentHash_def is_ascii_def)
  show "clock_fine late_world (late_event prev)" "in_receive_skew late_world (late_event prev)"
    by (simp_all add: clock_fine_def in_receive_skew_def late_event_def batch_hlc_def epochFloorMS_def hlcLogicalBits_def
        drop_bit_eq_div push_bit_eq_mult late_world_def duration_ms_def defaultMaxSkew_def)
  show "ev_type (late_event prev) \<noteq> EventEncryptedV2" by (simp add: late_event_def EventEncryptedV2_def)
qed (simp add: int64_def)

lemma late_quarantined: "quarantines (late_conflict prev) (late_carrier prev)"
proof -
  obtain nonce where n: "EncryptEvent plain late_world nonce (late_event prev) sample_wck 1 = Inr (late_carrier prev)"
    using late_from by (auto simp: sealed_from_def)
  have "ascii_str (marshal_envelope \<lparr>en_version = 2, en_epoch = 1, en_kid = KIDForWCK late_world sample_wck, en_ct = b64_enc s\<rparr>)" for s
    unfolding marshal_envelope_def
    by (rule ascii_marshal_obj) (auto simp: jstr_def jstr_opt_def jint_def is_ascii_def KIDForWCK_def split: if_splits)
  then have "ascii_event (late_carrier prev)"
    unfolding EncryptEvent_Inr(2) [OF n]
    by (simp add: ascii_event_def late_event_def event_zero_def is_ascii_def int64_def EventEncryptedV2_def batch_hlc_def push_bit_eq_mult)
  then show ?thesis by (auto simp: quarantines_def late_conflict_def intro!: exI [of _ "[]"])
qed

lemma receive_runs:
  assumes "currentDevice s = Inr d"
  shows "\<exists>cs. ReceiveRemoteHLC w h s = Inr (s\<lparr>st_clocks := cs\<rparr>)"
proof -
  have "\<exists>cs. s = s\<lparr>st_clocks := cs\<rparr>" by (rule exI [of _ "st_clocks s"]) simp
  then show ?thesis using assms by (cases "clock_of (dv_id d) s") (auto simp: ReceiveRemoteHLC_def Let_def)
qed

text \<open>How the application of the restored event runs.\<close>

lemma late_tx:
  fixes prev
  defines "e \<equiv> late_event prev\<lparr>ev_created := [], ev_workspace := []\<rparr>" and "s \<equiv> late_store prev"
  shows "prev = [] \<Longrightarrow> \<exists>s'. event_tx late_world e s = Inr s' \<and> st_conflicts s' = [late_conflict prev]"
    and "prev \<noteq> [] \<Longrightarrow> \<exists>m. event_tx late_world e s = Inl (Err [KHashChain] m)"
proof -
  let ?w = late_world
  define s1 where "s1 = s\<lparr>st_devices := st_devices s @ [placeholder ''p'' ''remote'']\<rparr>"
  define e1 where "e1 = e\<lparr>ev_workspace := ''ws'', ev_created := w_stamp ?w\<rparr>"
  have st: "w_stamp ?w \<noteq> []" by (simp add: late_world_def digest_world_def plain_world_def)
  have ens: "EnsureRemoteDeviceTx (ev_device e) s = Inr s1"
    by (simp add: EnsureRemoteDeviceTx_def e_def late_event_def s_def s1_def late_store_def founder_store_def tins_def)
  have fill: "fill_event ?w (normalizeEvent ?w e) s1 = (e1, s1)"
    using st by (simp add: fill_event_def normalizeEvent_def e_def e1_def late_event_def s1_def s_def late_store_def
        ContentHash_def event_zero_def founder_store_def empty_store_def)
  have h: "ev_content_hash e1 = ContentHash ?w (ev_payload e1)" by (simp add: e1_def e_def late_event_def event_zero_def)
  have v: "verifyEventSignature ?w s1 e1 = Inr ()"
    by (simp add: verifyEventSignature_def Let_def hasEnrolledDevices_def tcount_def s1_def s_def late_store_def
        founder_store_def trust_defs e1_def e_def late_event_def mustVerifyEvent_def placeholder_def)
  have pv: "previousEventContentHash s1 e1 = None"
    by (simp add: previousEventContentHash_def e1_def e_def late_event_def event_zero_def s1_def s_def late_store_def
        founder_store_def empty_store_def)
  have pr: "ev_prev_hash e1 = prev" by (simp add: e1_def e_def late_event_def)
  have "storeEvent e1 s1 = Inr (True, s1\<lparr>st_events := [e1]\<rparr>)"
    unfolding storeEvent_True by (simp add: s1_def s_def late_store_def e1_def e_def late_event_def event_zero_def founder_store_def empty_store_def placeholder_def)
  moreover have "validatePrevEventHash s1 e1 = Inr ()" if "prev = []"
    using pr that by (simp add: validatePrevEventHash_def)
  ultimately have ins: "InsertEvent ?w e s1 = Inr (True, s1\<lparr>st_events := [e1]\<rparr>)" if "prev = []"
    unfolding InsertEvent_def insertEvent_def fill Let_def prod.case using that h v by simp
  show "\<exists>s'. event_tx ?w e s = Inr s' \<and> st_conflicts s' = [late_conflict prev]" if "prev = []"
  proof -
    let ?s2 = "s1\<lparr>st_events := [e1]\<rparr>"
    have "currentDevice (ClearSkippedEventTx (ev_id e) ?s2) = Inr ((sample_device ''d'' trust_local [] None)\<lparr>dv_pub := ''age1a''\<rparr>)"
      by (simp add: currentDevice_def ClearSkippedEventTx_def s1_def s_def late_store_def founder_store_def)
    then obtain s4 where s4: "ReceiveRemoteHLC ?w (ev_hlc e) (ClearSkippedEventTx (ev_id e) ?s2) = Inr s4" "st_conflicts s4 = [late_conflict prev]"
      using receive_runs by (fastforce simp: ClearSkippedEventTx_def s1_def s_def late_store_def)
    have "applyEventTx ?w e s4 = Inr s4"
      by (simp add: applyEventTx_def e_def late_event_def event_type_defs)
    then have "event_tx ?w e s = Inr (ResolveOpenConflictsByEventID ConflictEventHashChain (ev_id e)
                     ''{\"action\":\"auto\",\"reason\":\"event applied after hash-chain hold (P6-SEC-03)\"}''
                    (ResolveConflictByFingerprint ConflictUntrustworthyTime (skew_details e)
                       ''{\"action\":\"auto\",\"reason\":\"event applied after skew quarantine\"}'' s4))"
      using ens ins [OF that] s4(1) by (simp add: event_tx_def)
    then show ?thesis using s4(2)
      by (simp add: ResolveOpenConflictsByEventID_def ResolveConflictByFingerprint_def close_where_def tmod_def late_conflict_def
          ConflictEventVerification_def ConflictEventHashChain_def ConflictUntrustworthyTime_def)
  qed
  show "\<exists>m. event_tx ?w e s = Inl (Err [KHashChain] m)" if "prev \<noteq> []"
  proof -
    have "\<exists>m. validatePrevEventHash s1 e1 = Inl (Err [KHashChain] m)"
      using pr pv that by (simp add: validatePrevEventHash_def chainBreak_def fail_def)
    then have "\<exists>m. InsertEvent ?w e s1 = Inl (Err [KHashChain] m)"
      unfolding InsertEvent_def insertEvent_def fill Let_def prod.case using h v by auto
    then show ?thesis using ens by (auto simp: event_tx_def)
  qed
qed

theorem late_key_recovers_event_witness:
  "\<exists>s'. event_tx late_world (late_event []\<lparr>ev_created := [], ev_workspace := []\<rparr>) (late_store []) = Inr s' \<and>
     replay_one plain late_world (late_conflict []) (founder\<lparr>kr_store := late_store []\<rparr>) =
       (Inr True, founder\<lparr>kr_store := close_where (\<lambda>c. cn_id c = ''c'') replay_resolution s'\<rparr>)"
proof -
  obtain s' where s': "event_tx late_world (late_event []\<lparr>ev_created := [], ev_workspace := []\<rparr>)
      (kr_store (founder\<lparr>kr_store := late_store []\<rparr>)) = Inr s'" "late_conflict [] \<in> set (st_conflicts s')"
    using late_tx(1) [of "[]"] by auto
  have a: "ascii_str []" by simp
  from late_key_recovers_event [OF late_from plain_aead_sound late_facts(1) [OF a] late_facts(3,2,4,5) late_quarantined]
    late_facts(6-8) s'
  have "replay_one plain late_world (late_conflict []) (founder\<lparr>kr_store := late_store []\<rparr>) =
      (Inr True, founder\<lparr>kr_store := late_store []\<rparr>\<lparr>kr_store := close_where (\<lambda>c. cn_id c = cn_id (late_conflict [])) replay_resolution s'\<rparr>)"
    by blast
  then show ?thesis using s'(1) by (simp add: late_conflict_def)
qed

theorem replay_drops_held_event_witness:
  "\<exists>k'. replay_one plain late_world (late_conflict ''y'') (founder\<lparr>kr_store := late_store ''y''\<rparr>) = (Inr True, k') \<and>
     st_events (kr_store k') = []"
proof -
  obtain m where m: "event_tx late_world (late_event ''y''\<lparr>ev_created := [], ev_workspace := []\<rparr>)
      (kr_store (founder\<lparr>kr_store := late_store ''y''\<rparr>)) = Inl (Err [KHashChain] m)"
    using late_tx(2) [of "''y''"] by auto
  have c: "err_is (Err [KHashChain] m) KHashChain" "late_conflict ''y'' \<in> set (st_conflicts (kr_store (founder\<lparr>kr_store := late_store ''y''\<rparr>)))"
    by (simp_all add: err_is_def late_store_def)
  have a: "ascii_str ''y''" by (simp add: is_ascii_def)
  from replay_drops_held_event [OF late_from plain_aead_sound late_facts(1) [OF a] late_facts(3,2,4,5) late_quarantined
      late_facts(6-8) m c] show ?thesis by (auto simp: late_store_def founder_store_def empty_store_def)
qed

end
