(* ===== verification/Object_Store.thy ===== *)
theory Object_Store
  imports Hub_Laws
begin

section \<open>Object stores\<close>

text \<open>
  The interface \<^verbatim>\<open>S3Client\<close> of \<^verbatim>\<open>src/internal/hub/r2.go\<close> and its implementation on a directory
  tree, \<^verbatim>\<open>fsObjectStore\<close> of \<^verbatim>\<open>src/internal/hub/gitcarrier.go\<close>, which carries the hub in a git
  checkout or a shared folder. A client is a record of operations on a state of any type, so that
  the R2 hub, the in-memory doubles and the folder store are instances of one model. The contract
  that the hub relies on is the locale \<open>object_store\<close>, which the folder store is proved to keep.
  An object's metadata (\<^verbatim>\<open>BlobInfo\<close>) is its key and the time of its last change.
\<close>

type_synonym blob_info = "string \<times> int"

record 's s3_client =
  s3_PutObject :: "string \<Rightarrow> string \<Rightarrow> bool \<Rightarrow> ('s, unit) op"
  s3_GetObject :: "string \<Rightarrow> ('s, string) op"
  s3_ObjectExists :: "string \<Rightarrow> ('s, bool) op"
  s3_DeleteObject :: "string \<Rightarrow> ('s, unit) op"
  s3_ListObjectsV2 :: "string \<Rightarrow> string \<Rightarrow> int \<Rightarrow> ('s, blob_info list \<times> string) op"
  s3_ListCommonPrefixes :: "string \<Rightarrow> string \<Rightarrow> ('s, string list) op"
  s3_GetObjectWithETag :: "string \<Rightarrow> ('s, string \<times> string) op"
  s3_PutObjectIfMatch :: "string \<Rightarrow> string \<Rightarrow> string \<Rightarrow> ('s, unit) op"
  s3_StatObject :: "string \<Rightarrow> ('s, blob_info) op"

subsection \<open>The folder store\<close>

text \<open>
  The tree holds the objects under their keys, the marker of the carrier and temporary files that a
  crashed writer left; the time sidecars under \<^verbatim>\<open>.devstrap-meta/times/\<close> are kept apart, in decoded
  form (one that does not parse counts as missing), and so are the observation index in memory
  (\<open>None\<close> until it is first used) and its file. System calls on the tree succeed, apart from
  the check that the root is still the registered directory; a path is never both a file and a
  directory, as no key of the hub is a directory of another. The lock is the atomicity of a step.
\<close>

record fs_store =
  fs_same_root :: bool
  fs_files :: "disk_file list"
  fs_times :: "(string \<times> int) list"
  fs_obs :: "(string \<times> int) list option"
  fs_obs_file :: "(string \<times> int) list option"
  fs_now :: int

definition gitMarkerFile :: string where "gitMarkerFile = ''devstrap-hub.json''"

text \<open>An hour, in nanoseconds.\<close>

definition staleTempAge :: int where "staleTempAge = 3600 * 10 ^ 9"

definition keyPath :: "string \<Rightarrow> string res" where
  "keyPath key =
     (if key = [] \<or> prefixb ''/'' key \<or> chr 92 \<in> set key then fail KInvalidBlobKey (''invalid blob key: '' @ key)
      else if list_ex (\<lambda>part. part \<in> {[], ''.'', ''..''}) (split_on CHR ''/'' key)
      then fail KInvalidBlobKey (''invalid blob key: '' @ key)
      else Inr key)"

definition openRoot :: "(fs_store, unit) op" where
  "openRoot = askk [] (\<lambda>s. if fs_same_root s then Inr ()
     else fail KOther ''folder hub: root no longer denotes the registered directory; refusing to operate outside it'')"

text \<open>The file system: a file is looked up, replaced through a temporary and a rename, removed.\<close>

definition fs_read :: "string \<Rightarrow> fs_store \<Rightarrow> string option" where
  "fs_read path s = file_bytes path (fs_files s)"

definition fs_write :: "string \<Rightarrow> string \<Rightarrow> fs_store \<Rightarrow> fs_store" where
  "fs_write path body s = s\<lparr>fs_files := write_disk (fs_now s) path body (fs_files s)\<rparr>"

definition writeTimestamp :: "string \<Rightarrow> fs_store \<Rightarrow> fs_store" where
  "writeTimestamp key s = s\<lparr>fs_times := AList.update key (fs_now s) (fs_times s)\<rparr>"

subsection \<open>The observation floor\<close>

definition loaded_obs :: "fs_store \<Rightarrow> (string \<times> int) list" where
  "loaded_obs s = (case fs_obs s of Some m \<Rightarrow> m | None \<Rightarrow> or_else (fs_obs_file s) [])"

definition saveObs :: "(string \<times> int) list \<Rightarrow> fs_store \<Rightarrow> fs_store" where
  "saveObs m s = s\<lparr>fs_obs := Some m, fs_obs_file := Some m\<rparr>"

definition observe :: "string \<Rightarrow> fs_store \<Rightarrow> int \<times> fs_store" where
  "observe key s =
     (let m = loaded_obs s in
      case map_of m key of
        Some t \<Rightarrow> (t, s\<lparr>fs_obs := Some m\<rparr>)
      | None \<Rightarrow> (fs_now s, saveObs (AList.update key (fs_now s) m) s))"

definition observedAt :: "string \<Rightarrow> fs_store \<Rightarrow> int option \<times> fs_store" where
  "observedAt key s = (map_of (loaded_obs s) key, s\<lparr>fs_obs := Some (loaded_obs s)\<rparr>)"

text \<open>An index that has not been read yet is left as it is on disk.\<close>

definition forgetObserved :: "string \<Rightarrow> fs_store \<Rightarrow> fs_store" where
  "forgetObserved key s = (case fs_obs s of None \<Rightarrow> s | Some m \<Rightarrow> saveObs (AList.delete key m) s)"

definition pruneObservedTo :: "string set \<Rightarrow> fs_store \<Rightarrow> fs_store" where
  "pruneObservedTo live s =
     (case (case fs_obs s of Some m \<Rightarrow> Some m | None \<Rightarrow> fs_obs_file s) of
        None \<Rightarrow> s
      | Some m \<Rightarrow>
          let m' = filter (\<lambda>(k, t). k \<in> live) m in
          if m' = m then s\<lparr>fs_obs := Some m\<rparr> else saveObs m' s)"

text \<open>The later of what the writer claims and when this clone first saw the object.\<close>

definition modTime :: "string \<Rightarrow> fs_store \<Rightarrow> int \<times> fs_store" where
  "modTime key s =
     (let (obs, s') = observe key s in
      (case map_of (fs_times s) key of None \<Rightarrow> obs | Some t \<Rightarrow> if t < obs then obs else t, s'))"

subsection \<open>Objects\<close>

definition fsETag :: "world \<Rightarrow> string \<Rightarrow> string" where
  "fsETag w body = CHR 0x22 # hex_enc (w_sha w body) @ [CHR 0x22]"

definition published :: "string \<Rightarrow> string \<Rightarrow> fs_store \<Rightarrow> fs_store" where
  "published key body s = writeTimestamp key (snd (observe key (fs_write key body s)))"

definition fs_PutObject :: "string \<Rightarrow> string \<Rightarrow> bool \<Rightarrow> (fs_store, unit) op" where
  "fs_PutObject key body ifNoneMatch =
     bindk (askk [] (\<lambda>s. keyPath key)) (\<lambda>path.
     bindk openRoot (\<lambda>_.
     bindk (askk [] (\<lambda>s. if ifNoneMatch \<and> fs_read path s \<noteq> None
        then fail KPreconditionFailed ''object already exists (conditional put failed)'' else Inr ())) (\<lambda>_.
     updk (published path body))))"

definition fs_GetObject :: "string \<Rightarrow> (fs_store, string) op" where
  "fs_GetObject key =
     bindk (askk [] (\<lambda>s. keyPath key)) (\<lambda>path.
     bindk openRoot (\<lambda>_.
     askk [] (\<lambda>s. case fs_read path s of
       None \<Rightarrow> fail KBlobNotFound (''blob not found: '' @ key) | Some b \<Rightarrow> Inr b)))"

definition fs_ObjectExists :: "string \<Rightarrow> (fs_store, bool) op" where
  "fs_ObjectExists key =
     bindk (askk [] (\<lambda>s. keyPath key)) (\<lambda>path.
     bindk openRoot (\<lambda>_. askk [] (\<lambda>s. Inr (fs_read path s \<noteq> None))))"

definition fs_DeleteObject :: "string \<Rightarrow> (fs_store, unit) op" where
  "fs_DeleteObject key =
     bindk (askk [] (\<lambda>s. keyPath key)) (\<lambda>path.
     bindk openRoot (\<lambda>_.
     updk (\<lambda>s. forgetObserved key
       (s\<lparr>fs_files := remove_file path (fs_files s), fs_times := AList.delete key (fs_times s)\<rparr>))))"

subsection \<open>Listing\<close>

definition base_name :: "string \<Rightarrow> string" where
  "base_name path = last (split_on CHR ''/'' path)"

text \<open>The directories that the walk does not enter, and the files that it does not report.\<close>

definition skipped_dir :: "string \<Rightarrow> bool" where
  "skipped_dir path \<longleftrightarrow> prefixb ''.git/'' path \<or> prefixb ''.devstrap-meta/'' path"

definition is_temp :: "string \<Rightarrow> bool" where
  "is_temp path \<longleftrightarrow> prefixb ''.tmp-'' (base_name path)"

definition visible :: "string \<Rightarrow> bool" where
  "visible path \<longleftrightarrow> \<not> skipped_dir path \<and> path \<noteq> gitMarkerFile \<and> \<not> is_temp path"

definition stale_temp :: "int \<Rightarrow> disk_file \<Rightarrow> bool" where
  "stale_temp now f \<longleftrightarrow> \<not> skipped_dir (df_name f) \<and> df_name f \<noteq> gitMarkerFile \<and> is_temp (df_name f) \<and>
     now - df_mtime f > staleTempAge"

definition listKeys :: "(fs_store, string list) op" where
  "listKeys s = (Inr (sort (filter visible (map df_name (fs_files s)))),
     s\<lparr>fs_files := tdel (stale_temp (fs_now s)) (fs_files s)\<rparr>)"

definition stamped :: "string \<Rightarrow> (fs_store, blob_info) op" where
  "stamped key s = (let (t, s') = modTime key s in (Inr (key, t), s'))"

definition fs_ListObjectsV2 :: "string \<Rightarrow> string \<Rightarrow> int \<Rightarrow> (fs_store, blob_info list \<times> string) op" where
  "fs_ListObjectsV2 prefix startAfter maxKeys0 =
     bindk openRoot (\<lambda>_. bindk listKeys (\<lambda>all.
       let ks = filter (\<lambda>k. prefixb prefix k \<and> k > startAfter) all;
           maxKeys = (if maxKeys0 \<le> 0 then 1000 else maxKeys0);
           (limit, nxt) = (if int (length ks) > maxKeys then (nat maxKeys, ks ! (nat maxKeys - 1)) else (length ks, []))
       in bindk (mapk stamped (take limit ks)) (\<lambda>objs. okk (objs, nxt))))"

text \<open>\<^verbatim>\<open>strings.Index\<close>\<close>

fun index_of :: "string \<Rightarrow> string \<Rightarrow> nat option" where
  "index_of p [] = (if p = [] then Some 0 else None)"
| "index_of p (x # xs) = (if prefixb p (x # xs) then Some 0 else map_option Suc (index_of p xs))"

definition trim_prefix :: "string \<Rightarrow> string \<Rightarrow> string" where
  "trim_prefix s p = (if prefixb p s then drop (length p) s else s)"

definition common_prefix :: "string \<Rightarrow> string \<Rightarrow> string \<Rightarrow> string option" where
  "common_prefix prefix delimiter k =
     (if \<not> prefixb prefix k then None
      else let rest = trim_prefix k prefix in
        map_option (\<lambda>i. prefix @ take (i + length delimiter) rest) (index_of delimiter rest))"

definition fs_ListCommonPrefixes :: "string \<Rightarrow> string \<Rightarrow> (fs_store, string list) op" where
  "fs_ListCommonPrefixes prefix delimiter =
     bindk openRoot (\<lambda>_. bindk listKeys (\<lambda>all.
       okk (sort (remdups (List.map_filter (common_prefix prefix delimiter) all)))))"

definition fs_StatObject :: "string \<Rightarrow> (fs_store, blob_info) op" where
  "fs_StatObject key =
     bindk (askk [] (\<lambda>s. keyPath key)) (\<lambda>path.
     bindk openRoot (\<lambda>_.
     bindk (askk [] (\<lambda>s. if fs_read path s = None then fail KBlobNotFound (''blob not found: '' @ key) else Inr ())) (\<lambda>_.
     stamped key)))"

definition fs_GetObjectWithETag :: "world \<Rightarrow> string \<Rightarrow> (fs_store, string \<times> string) op" where
  "fs_GetObjectWithETag w key = bindk (fs_GetObject key) (\<lambda>data. okk (data, fsETag w data))"

definition fs_PutObjectIfMatch :: "world \<Rightarrow> string \<Rightarrow> string \<Rightarrow> string \<Rightarrow> (fs_store, unit) op" where
  "fs_PutObjectIfMatch w key body etag =
     bindk (askk [] (\<lambda>s. keyPath key)) (\<lambda>path.
     bindk openRoot (\<lambda>_.
     bindk (askk [] (\<lambda>s. case fs_read path s of
         None \<Rightarrow> fail KPreconditionFailed ''object already exists (conditional put failed)''
       | Some current \<Rightarrow> if fsETag w current \<noteq> etag
           then fail KPreconditionFailed ''object already exists (conditional put failed)'' else Inr ())) (\<lambda>_.
     updk (published path body))))"

definition pruneObservedToCheckout :: "(fs_store, unit) op" where
  "pruneObservedToCheckout =
     bindk openRoot (\<lambda>_. bindk listKeys (\<lambda>keys. updk (pruneObservedTo (set keys))))"

definition fs_client :: "world \<Rightarrow> fs_store s3_client" where
  "fs_client w = \<lparr>s3_PutObject = fs_PutObject, s3_GetObject = fs_GetObject, s3_ObjectExists = fs_ObjectExists,
     s3_DeleteObject = fs_DeleteObject, s3_ListObjectsV2 = fs_ListObjectsV2,
     s3_ListCommonPrefixes = fs_ListCommonPrefixes, s3_GetObjectWithETag = fs_GetObjectWithETag w,
     s3_PutObjectIfMatch = fs_PutObjectIfMatch w, s3_StatObject = fs_StatObject\<rparr>"

text \<open>An empty store whose clock shows \<open>now\<close>.\<close>

definition empty_folder :: "int \<Rightarrow> fs_store" where
  "empty_folder now = \<lparr>fs_same_root = True, fs_files = [], fs_times = [], fs_obs = None, fs_obs_file = None, fs_now = now\<rparr>"

subsection \<open>The contract of an object store\<close>

text \<open>The keys of a map with a prefix, beyond a key, in lexicographic order.\<close>

definition keys_after :: "(string \<rightharpoonup> string) \<Rightarrow> string \<Rightarrow> string \<Rightarrow> string list" where
  "keys_after m p a = sorted_list_of_set {k \<in> dom m. prefixb p k \<and> a < k}"

text \<open>An error that the retry policy does not retry and that says that the condition of a put
  failed, or that the object is missing.\<close>

definition refused_by :: "err_kind \<Rightarrow> err \<Rightarrow> bool" where
  "refused_by k e \<longleftrightarrow> k \<in> set (err_kinds e) \<and> KS3Throttle \<notin> set (err_kinds e) \<and> KS3Transient \<notin> set (err_kinds e)"

lemma refused_by_single [simp]: "k \<noteq> KS3Throttle \<Longrightarrow> k \<noteq> KS3Transient \<Longrightarrow> refused_by k (Err [k] m)"
  by (simp add: refused_by_def)

locale object_store =
  fixes c :: "'s s3_client"
    and obj :: "'s \<Rightarrow> string \<rightharpoonup> string"
    and tag :: "'s \<Rightarrow> string \<Rightarrow> string"
    and sound :: "'s \<Rightarrow> bool"
    and key_ok :: "string \<Rightarrow> bool"
  assumes finite_obj: "sound s \<Longrightarrow> finite (dom (obj s))"
    and put_ok: "sound s \<Longrightarrow> key_ok k \<Longrightarrow> \<not> none \<or> obj s k = None \<Longrightarrow>
      \<exists>s'. s3_PutObject c k b none s = (Inr (), s') \<and> sound s' \<and> obj s' = (obj s)(k \<mapsto> b)"
    and put_taken: "sound s \<Longrightarrow> key_ok k \<Longrightarrow> obj s k \<noteq> None \<Longrightarrow>
      \<exists>e s'. s3_PutObject c k b True s = (Inl e, s') \<and> refused_by KPreconditionFailed e \<and> sound s' \<and> obj s' = obj s"
    and get_ok: "sound s \<Longrightarrow> key_ok k \<Longrightarrow> obj s k = Some b \<Longrightarrow>
      \<exists>s'. s3_GetObject c k s = (Inr b, s') \<and> sound s' \<and> obj s' = obj s"
    and get_none: "sound s \<Longrightarrow> key_ok k \<Longrightarrow> obj s k = None \<Longrightarrow>
      \<exists>e s'. s3_GetObject c k s = (Inl e, s') \<and> refused_by KBlobNotFound e \<and> sound s' \<and> obj s' = obj s"
    and del_ok: "sound s \<Longrightarrow> key_ok k \<Longrightarrow>
      \<exists>s'. s3_DeleteObject c k s = (Inr (), s') \<and> sound s' \<and> obj s' = (obj s)(k := None)"
    and list_ok: "sound s \<Longrightarrow> 0 < n \<Longrightarrow> ks = keys_after (obj s) p a \<Longrightarrow>
      \<exists>os s'. s3_ListObjectsV2 c p a n s = (Inr (os, if length ks > nat n then ks ! (nat n - 1) else []), s') \<and>
        map fst os = take (nat n) ks \<and> sound s' \<and> obj s' = obj s"
    and prefixes_ok: "sound s \<Longrightarrow>
      \<exists>ps s'. s3_ListCommonPrefixes c p d s = (Inr ps, s') \<and> sound s' \<and> obj s' = obj s \<and>
        set ps = {q. \<exists>k \<in> dom (obj s). common_prefix p d k = Some q} \<and> distinct ps"
    and tag_get: "sound s \<Longrightarrow> key_ok k \<Longrightarrow> obj s k = Some b \<Longrightarrow>
      \<exists>s'. s3_GetObjectWithETag c k s = (Inr (b, tag s k), s') \<and> sound s' \<and> obj s' = obj s \<and> tag s' k = tag s k"
    and tag_none: "sound s \<Longrightarrow> key_ok k \<Longrightarrow> obj s k = None \<Longrightarrow>
      \<exists>e s'. s3_GetObjectWithETag c k s = (Inl e, s') \<and> refused_by KBlobNotFound e \<and> sound s' \<and> obj s' = obj s"
    and tag_put: "sound s \<Longrightarrow> key_ok k \<Longrightarrow> obj s k \<noteq> None \<Longrightarrow> t = tag s k \<Longrightarrow>
      \<exists>s'. s3_PutObjectIfMatch c k b t s = (Inr (), s') \<and> sound s' \<and> obj s' = (obj s)(k \<mapsto> b)"
    and tag_lost: "sound s \<Longrightarrow> key_ok k \<Longrightarrow> obj s k = None \<or> t \<noteq> tag s k \<Longrightarrow>
      \<exists>e s'. s3_PutObjectIfMatch c k b t s = (Inl e, s') \<and> refused_by KPreconditionFailed e \<and> sound s' \<and> obj s' = obj s"
    and key_ok_listed: "sound s \<Longrightarrow> k \<in> dom (obj s) \<Longrightarrow> key_ok k"

subsection \<open>The folder store keeps it\<close>

definition fs_key_ok :: "string \<Rightarrow> bool" where
  "fs_key_ok k \<longleftrightarrow> keyPath k = Inr k \<and> visible k"

definition fs_obj :: "fs_store \<Rightarrow> string \<rightharpoonup> string" where
  "fs_obj s k = (if fs_key_ok k then fs_read k s else None)"

definition fs_sound :: "fs_store \<Rightarrow> bool" where
  "fs_sound s \<longleftrightarrow> fs_same_root s \<and> uniq df_name (fs_files s) \<and>
     (\<forall>f \<in> set (fs_files s). visible (df_name f) \<longrightarrow> keyPath (df_name f) = Inr (df_name f))"

text \<open>What the bookkeeping of times changes: nothing that is read as an object.\<close>

definition same_files :: "fs_store \<Rightarrow> fs_store \<Rightarrow> bool" where
  "same_files s s' \<longleftrightarrow> fs_same_root s' = fs_same_root s \<and> fs_files s' = fs_files s"

lemma same_files_refl [simp]: "same_files s s"
  by (simp add: same_files_def)

lemma same_files_trans: "same_files s s' \<Longrightarrow> same_files s' s'' \<Longrightarrow> same_files s s''"
  by (simp add: same_files_def)

lemma same_filesD: "same_files s s' \<Longrightarrow> fs_sound s' = fs_sound s \<and> fs_obj s' = fs_obj s"
  by (auto simp: same_files_def fs_sound_def fs_obj_def fs_read_def fun_eq_iff)

lemma same_files_observe: "same_files s (snd (observe k s))"
  by (simp add: observe_def Let_def same_files_def saveObs_def split: option.splits)

lemma same_files_stamped: "same_files s (snd (stamped k s)) \<and> (\<exists>t. fst (stamped k s) = Inr (k, t))"
  using same_files_observe [of s k] by (auto simp: stamped_def modTime_def split: prod.splits)

lemma mapk_stamped: "\<exists>os s'. mapk stamped ks s = (Inr os, s') \<and> map fst os = ks \<and> same_files s s'"
proof (induction ks arbitrary: s)
  case (Cons k ks)
  obtain t s1 where 1: "stamped k s = (Inr (k, t), s1)" "same_files s s1"
    using same_files_stamped [of s k] by (metis prod.collapse snd_conv)
  obtain os s' where 2: "mapk stamped ks s1 = (Inr os, s')" "map fst os = ks" "same_files s1 s'"
    using Cons.IH by blast
  show ?case
    by (intro exI [of _ "(k, t) # os"] exI [of _ s'])
      (use 1 2 same_files_trans in \<open>auto simp: bindk_def okk_def\<close>)
qed (simp add: okk_def)

lemma fs_obj_dom: "fs_sound s \<Longrightarrow> dom (fs_obj s) = {k \<in> df_name ` set (fs_files s). visible k}"
proof -
  assume s: "fs_sound s"
  have "fs_read k s \<noteq> None \<longleftrightarrow> k \<in> df_name ` set (fs_files s)" for k
    using tget_None [of df_name k "fs_files s"] by (auto simp: fs_read_def file_bytes_def)
  moreover have "keyPath k = Inr k" if "k \<in> df_name ` set (fs_files s)" "visible k" for k
    using s that by (auto simp: fs_sound_def)
  ultimately show ?thesis by (auto simp: fs_obj_def fs_key_ok_def dom_def)
qed

lemma fs_obj_read: "fs_key_ok k \<Longrightarrow> fs_read k s = fs_obj s k"
  by (simp add: fs_obj_def)

lemma listed_keys:
  assumes "fs_sound s"
  shows "sort (filter visible (map df_name (fs_files s))) = sorted_list_of_set (dom (fs_obj s))"
proof -
  have "set (filter visible (map df_name (fs_files s))) = dom (fs_obj s)" using fs_obj_dom [OF assms] by auto
  moreover have "distinct (filter visible (map df_name (fs_files s)))"
    using assms by (simp add: fs_sound_def uniq_def)
  ultimately show ?thesis using sorted_list_of_set_sort_remdups distinct_remdups_id by metis
qed

lemma keys_after_filter:
  assumes "finite (dom m)"
  shows "filter (\<lambda>k. prefixb p k \<and> k > a) (sorted_list_of_set (dom m)) = keys_after m p a"
  unfolding keys_after_def
  by (rule sorted_distinct_set_unique) (use assms in \<open>auto simp: sorted_wrt_filter\<close>)

lemma listKeys_run:
  assumes "fs_sound s"
  shows "\<exists>s'. listKeys s = (Inr (sorted_list_of_set (dom (fs_obj s))), s') \<and> fs_sound s' \<and> fs_obj s' = fs_obj s \<and>
    fs_same_root s'"
proof -
  let ?s' = "s\<lparr>fs_files := tdel (stale_temp (fs_now s)) (fs_files s)\<rparr>"
  have "tget df_name k (tdel (stale_temp (fs_now s)) (fs_files s)) = tget df_name k (fs_files s)" if "visible k" for k
    by (rule tget_tdel_other) (use that in \<open>auto simp: stale_temp_def visible_def\<close>)
  then have "fs_obj ?s' = fs_obj s"
    by (auto simp: fs_obj_def fs_read_def file_bytes_def fs_key_ok_def fun_eq_iff)
  moreover have "fs_sound ?s'" using assms by (auto simp: fs_sound_def uniq_tdel) (auto simp: tdel_def)
  ultimately show ?thesis using listed_keys [OF assms] assms by (auto simp: listKeys_def fs_sound_def)
qed

lemma openRoot_run [simp]: "fs_sound s \<Longrightarrow> openRoot s = (Inr (), s)"
  by (simp add: openRoot_def fs_sound_def)

lemma keyPath_run [simp]: "fs_key_ok k \<Longrightarrow> keyPath k = Inr k"
  by (simp add: fs_key_ok_def)

lemma askk_pure [simp]: "askk [] (\<lambda>s. Inr x) s = (Inr x, s)"
  by (simp add: askk_def relabel_def)

lemma published_run:
  assumes "fs_sound s" "fs_key_ok k"
  shows "fs_sound (published k b s) \<and> fs_obj (published k b s) = (fs_obj s)(k \<mapsto> b)"
proof -
  let ?w = "fs_write k b s"
  have st: "same_files ?w (published k b s)"
    using same_files_observe [of ?w k] by (simp add: published_def writeTimestamp_def same_files_def)
  have "fs_sound ?w"
    using assms by (auto simp: fs_sound_def fs_write_def write_disk_def uniq_tput fs_key_ok_def)
      (auto simp: tput_def in_tmod split: if_splits)
  moreover have "tget df_name j (fs_files ?w) = (if j = k then Some
      (case tget df_name k (fs_files s) of
         None \<Rightarrow> \<lparr>df_name = k, df_bytes = b, df_mtime = fs_now s\<rparr> | Some f \<Rightarrow> f\<lparr>df_bytes := b, df_mtime := fs_now s\<rparr>)
    else tget df_name j (fs_files s))" for j
    by (simp add: fs_write_def write_disk_def tget_tput split: option.splits)
  then have "fs_obj ?w = (fs_obj s)(k \<mapsto> b)"
    using assms(2) by (auto simp: fun_eq_iff fs_obj_def fs_read_def file_bytes_def split: option.splits)
  ultimately show ?thesis using same_filesD [OF st] by simp
qed

lemma fs_delete_run:
  assumes "fs_sound s" "fs_key_ok k"
  shows "\<exists>s'. fs_DeleteObject k s = (Inr (), s') \<and> fs_sound s' \<and> fs_obj s' = (fs_obj s)(k := None)"
proof -
  let ?d = "s\<lparr>fs_files := remove_file k (fs_files s), fs_times := AList.delete k (fs_times s)\<rparr>"
  have st: "same_files ?d (forgetObserved k ?d)"
    by (simp add: forgetObserved_def same_files_def saveObs_def split: option.splits)
  have "fs_sound ?d" using assms by (auto simp: fs_sound_def remove_file_def uniq_tdel) (auto simp: tdel_def)
  moreover have "tget df_name j (remove_file k (fs_files s)) = (if j = k then None else tget df_name j (fs_files s))" for j
    using tget_tdel_key [of df_name k "fs_files s"] tget_tdel_other [of "fs_files s" df_name j "\<lambda>f. df_name f = k"]
    by (auto simp: remove_file_def)
  then have "fs_obj ?d = (fs_obj s)(k := None)" by (auto simp: fun_eq_iff fs_obj_def fs_read_def file_bytes_def)
  ultimately have "fs_sound (forgetObserved k ?d) \<and> fs_obj (forgetObserved k ?d) = (fs_obj s)(k := None)"
    using same_filesD [OF st] by simp
  then show ?thesis using assms by (simp add: fs_DeleteObject_def bindk_def updk_def)
qed

lemma fs_list_run:
  assumes "fs_sound s" "0 < n" "ks = keys_after (fs_obj s) p a"
  shows "\<exists>os s'. fs_ListObjectsV2 p a n s = (Inr (os, if length ks > nat n then ks ! (nat n - 1) else []), s') \<and>
        map fst os = take (nat n) ks \<and> fs_sound s' \<and> fs_obj s' = fs_obj s"
proof -
  obtain s1 where 1: "listKeys s = (Inr (sorted_list_of_set (dom (fs_obj s))), s1)" "fs_sound s1" "fs_obj s1 = fs_obj s"
    using listKeys_run [OF assms(1)] by blast
  have "finite (dom (fs_obj s))" unfolding fs_obj_dom [OF assms(1)] by simp
  then have ks: "filter (\<lambda>k. prefixb p k \<and> k > a) (sorted_list_of_set (dom (fs_obj s))) = ks"
    using keys_after_filter assms(3) by blast
  obtain os s' where 2: "mapk stamped (take (nat n) ks) s1 = (Inr os, s')" "map fst os = take (nat n) ks" "same_files s1 s'"
    using mapk_stamped by blast
  have "take (length ks) ks = take (nat n) ks" if "\<not> length ks > nat n" using that by simp
  then have "fs_ListObjectsV2 p a n s = (Inr (os, if length ks > nat n then ks ! (nat n - 1) else []), s')"
    using 1(1) 2(1) assms(1,2) unfolding fs_ListObjectsV2_def bindk_def
    by (auto simp: ks Let_def okk_def)
  then show ?thesis using 2(2) same_filesD [OF 2(3)] 1(2,3) by auto
qed

lemma fs_prefixes_run:
  assumes "fs_sound s"
  shows "\<exists>ps s'. fs_ListCommonPrefixes p d s = (Inr ps, s') \<and> fs_sound s' \<and> fs_obj s' = fs_obj s \<and>
        set ps = {q. \<exists>k \<in> dom (fs_obj s). common_prefix p d k = Some q} \<and> distinct ps"
proof -
  obtain s1 where 1: "listKeys s = (Inr (sorted_list_of_set (dom (fs_obj s))), s1)" "fs_sound s1" "fs_obj s1 = fs_obj s"
    using listKeys_run [OF assms] by blast
  have f: "finite (dom (fs_obj s))" unfolding fs_obj_dom [OF assms] by simp
  let ?ps = "sort (remdups (List.map_filter (common_prefix p d) (sorted_list_of_set (dom (fs_obj s)))))"
  have "fs_ListCommonPrefixes p d s = (Inr ?ps, s1)"
    using 1(1) assms by (simp add: fs_ListCommonPrefixes_def bindk_def okk_def)
  moreover have "set ?ps = {q. \<exists>k \<in> dom (fs_obj s). common_prefix p d k = Some q}"
    using f by (force simp: List.map_filter_def)
  ultimately show ?thesis using 1(2,3) by auto
qed

lemma fs_stat_run:
  assumes "fs_sound s" "fs_key_ok k" "fs_obj s k \<noteq> None"
  shows "\<exists>t s'. fs_StatObject k s = (Inr (k, t), s') \<and> fs_sound s' \<and> fs_obj s' = fs_obj s"
proof -
  obtain t s' where "stamped k s = (Inr (k, t), s')" "same_files s s'"
    using same_files_stamped [of s k] by (metis prod.collapse snd_conv)
  then show ?thesis using assms same_filesD
    by (auto simp: fs_StatObject_def bindk_def askk_def relabel_def fs_obj_read)
qed

interpretation fs: object_store "fs_client w" fs_obj "\<lambda>s k. fsETag w (or_else (fs_obj s k) [])" fs_sound fs_key_ok
  for w
proof
  fix s k assume s: "fs_sound s"
  show "finite (dom (fs_obj s))" unfolding fs_obj_dom [OF s] by simp
  show "k \<in> dom (fs_obj s) \<Longrightarrow> fs_key_ok k" by (auto simp: fs_obj_def split: if_splits)
next
  fix s k none b assume s: "fs_sound s" "fs_key_ok k" "\<not> none \<or> fs_obj s k = None"
  then show "\<exists>s'. s3_PutObject (fs_client w) k b none s = (Inr (), s') \<and> fs_sound s' \<and> fs_obj s' = (fs_obj s)(k \<mapsto> b)"
    using published_run [OF s(1,2)]
    by (auto simp: fs_client_def fs_PutObject_def bindk_def updk_def fs_obj_read askk_def relabel_def)
next
  fix s k b assume s: "fs_sound s" "fs_key_ok k" "fs_obj s k \<noteq> None"
  then show "\<exists>e s'. s3_PutObject (fs_client w) k b True s = (Inl e, s') \<and> refused_by KPreconditionFailed e \<and> fs_sound s' \<and> fs_obj s' = fs_obj s"
    by (simp add: fs_client_def fs_PutObject_def bindk_def fs_obj_read askk_def relabel_def fail_def)
next
  fix s k b assume s: "fs_sound s" "fs_key_ok k"
  show "fs_obj s k = Some b \<Longrightarrow> \<exists>s'. s3_GetObject (fs_client w) k s = (Inr b, s') \<and> fs_sound s' \<and> fs_obj s' = fs_obj s"
    "fs_obj s k = None \<Longrightarrow> \<exists>e s'. s3_GetObject (fs_client w) k s = (Inl e, s') \<and> refused_by KBlobNotFound e \<and> fs_sound s' \<and> fs_obj s' = fs_obj s"
    using s by (simp_all add: fs_client_def fs_GetObject_def bindk_def fs_obj_read askk_def relabel_def fail_def)
  show "fs_obj s k = Some b \<Longrightarrow> \<exists>s'. s3_GetObjectWithETag (fs_client w) k s = (Inr (b, fsETag w (or_else (fs_obj s k) [])), s') \<and>
      fs_sound s' \<and> fs_obj s' = fs_obj s \<and> fsETag w (or_else (fs_obj s' k) []) = fsETag w (or_else (fs_obj s k) [])"
    "fs_obj s k = None \<Longrightarrow> \<exists>e s'. s3_GetObjectWithETag (fs_client w) k s = (Inl e, s') \<and> refused_by KBlobNotFound e \<and> fs_sound s' \<and> fs_obj s' = fs_obj s"
    using s by (simp_all add: fs_client_def fs_GetObjectWithETag_def fs_GetObject_def bindk_def fs_obj_read askk_def okk_def relabel_def fail_def)
  show "\<exists>s'. s3_DeleteObject (fs_client w) k s = (Inr (), s') \<and> fs_sound s' \<and> fs_obj s' = (fs_obj s)(k := None)"
    using fs_delete_run [OF s] by (simp add: fs_client_def)
next
  fix s ks p a and n :: int assume "fs_sound s" "0 < n" "ks = keys_after (fs_obj s) p a"
  then show "\<exists>os s'. s3_ListObjectsV2 (fs_client w) p a n s = (Inr (os, if length ks > nat n then ks ! (nat n - 1) else []), s') \<and>
        map fst os = take (nat n) ks \<and> fs_sound s' \<and> fs_obj s' = fs_obj s"
    using fs_list_run by (simp add: fs_client_def)
next
  fix s p d assume "fs_sound s"
  then show "\<exists>ps s'. s3_ListCommonPrefixes (fs_client w) p d s = (Inr ps, s') \<and> fs_sound s' \<and> fs_obj s' = fs_obj s \<and>
        set ps = {q. \<exists>k \<in> dom (fs_obj s). common_prefix p d k = Some q} \<and> distinct ps"
    using fs_prefixes_run by (simp add: fs_client_def)
next
  fix s k t b assume s: "fs_sound s" "fs_key_ok k"
  show "fs_obj s k \<noteq> None \<Longrightarrow> t = fsETag w (or_else (fs_obj s k) []) \<Longrightarrow>
      \<exists>s'. s3_PutObjectIfMatch (fs_client w) k b t s = (Inr (), s') \<and> fs_sound s' \<and> fs_obj s' = (fs_obj s)(k \<mapsto> b)"
    using s published_run [OF s]
    by (auto simp: fs_client_def fs_PutObjectIfMatch_def bindk_def updk_def fs_obj_read askk_def relabel_def)
  show "fs_obj s k = None \<or> t \<noteq> fsETag w (or_else (fs_obj s k) []) \<Longrightarrow>
      \<exists>e s'. s3_PutObjectIfMatch (fs_client w) k b t s = (Inl e, s') \<and> refused_by KPreconditionFailed e \<and> fs_sound s' \<and> fs_obj s' = fs_obj s"
    using s by (auto simp: fs_client_def fs_PutObjectIfMatch_def bindk_def fs_obj_read askk_def relabel_def fail_def split: option.splits)
qed

end
