(* ===== verification/R2_Retry.thy ===== *)
theory R2_Retry
  imports Object_Store
begin

section \<open>Retrying with backoff\<close>

text \<open>
  \<^verbatim>\<open>R2Retry\<close> of \<^verbatim>\<open>src/internal/hub/r2.go\<close>: an operation on the object store is tried again after a
  throttling or transient error, up to a number of attempts, with capped exponential backoff and
  full jitter. What surrounds the loop is a record of the environment: the state of the context
  (\<^verbatim>\<open>ctx.Err()\<close>), the wait on the timer or the context, and the random number
  \<^verbatim>\<open>rand.Int63n\<close>. Durations are nanoseconds and int64; their arithmetic wraps.
\<close>

record 's go_env =
  go_ctx :: "'s \<Rightarrow> err option"
  go_wait :: "int \<Rightarrow> ('s, unit) op"
  go_rand :: "int \<Rightarrow> 's \<Rightarrow> int \<times> 's"

record 's r2_retry =
  rr_MaxAttempts :: int
  rr_BaseDelay :: int
  rr_ThrottleDelay :: int
  rr_Cap :: int
  rr_Jitter :: "(int \<Rightarrow> 's \<Rightarrow> int \<times> 's) option"

datatype s3_class = S3_Terminal | S3_Transient | S3_Throttle

definition classifyS3Error :: "err \<Rightarrow> s3_class" where
  "classifyS3Error e =
     (if KS3Throttle \<in> set (err_kinds e) then S3_Throttle
      else if KS3Transient \<in> set (err_kinds e) then S3_Transient
      else S3_Terminal)"

definition retry_policy :: "'s r2_retry \<Rightarrow> 's r2_retry" where
  "retry_policy r =
     (if rr_MaxAttempts r > 0 then r
      else \<lparr>rr_MaxAttempts = 3, rr_BaseDelay = 50 * 10 ^ 6, rr_ThrottleDelay = 10 ^ 9, rr_Cap = 20 * 10 ^ 9,
            rr_Jitter = None\<rparr>)"

text \<open>The base and the cap that a sleep goes by.\<close>

definition sleep_base :: "'s r2_retry \<Rightarrow> s3_class \<Rightarrow> int" where
  "sleep_base p cls = (let base = (if cls = S3_Throttle then rr_ThrottleDelay p else rr_BaseDelay p)
     in if base \<le> 0 then 50 * 10 ^ 6 else base)"

definition sleep_cap :: "'s r2_retry \<Rightarrow> int" where
  "sleep_cap p = (if rr_Cap p \<le> 0 then 20 * 10 ^ 9 else rr_Cap p)"

text \<open>\<^verbatim>\<open>base * time.Duration(1<<(attempt-1))\<close>, clamped to the cap.\<close>

definition sleep_exp :: "'s r2_retry \<Rightarrow> nat \<Rightarrow> s3_class \<Rightarrow> int" where
  "sleep_exp p attempt cls =
     (let exp = wrap64 (sleep_base p cls * wrap64 (2 ^ (attempt - 1)))
      in if exp > sleep_cap p \<or> exp \<le> 0 then sleep_cap p else exp)"

definition retry_sleep :: "'s go_env \<Rightarrow> 's r2_retry \<Rightarrow> nat \<Rightarrow> s3_class \<Rightarrow> ('s, unit) op" where
  "retry_sleep v p attempt cls s =
     (let (d, s1) = or_else (rr_Jitter p) (go_rand v) (wrap64 (sleep_exp p attempt cls + 1)) s
      in go_wait v (if d < 0 then 0 else d) s1)"

text \<open>The loop of \<^verbatim>\<open>do\<close> from an attempt on. The error that it returns after the last attempt
  is never reached with \<^verbatim>\<open>nil\<close>, as a policy allows one attempt at least.\<close>

function retry_from :: "'s go_env \<Rightarrow> 's r2_retry \<Rightarrow> ('s, 'a) op \<Rightarrow> nat \<Rightarrow> err \<Rightarrow> ('s, 'a) op" where
  "retry_from v p f attempt lastErr s =
     (if int attempt > rr_MaxAttempts p then (Inl lastErr, s)
      else case go_ctx v s of
        Some e \<Rightarrow> (Inl e, s)
      | None \<Rightarrow>
         (case f s of
            (Inr x, s1) \<Rightarrow> (Inr x, s1)
          | (Inl e, s1) \<Rightarrow>
              if classifyS3Error e = S3_Terminal \<or> int attempt = rr_MaxAttempts p then (Inl e, s1)
              else (case retry_sleep v p attempt (classifyS3Error e) s1 of
                      (Inl e', s2) \<Rightarrow> (Inl e', s2)
                    | (Inr _, s2) \<Rightarrow> retry_from v p f (Suc attempt) e s2)))"
  by pat_completeness auto
termination by (relation "measure (\<lambda>(v, p, f, attempt, e, s). nat (rr_MaxAttempts p + 1 - int attempt))") auto

declare retry_from.simps [simp del]

definition retry_do :: "'s go_env \<Rightarrow> 's r2_retry \<Rightarrow> ('s, 'a) op \<Rightarrow> ('s, 'a) op" where
  "retry_do v r f = retry_from v (retry_policy r) f 1 (Err [] [])"

lemma policy_attempts [simp]: "rr_MaxAttempts (retry_policy r) \<ge> 1"
  by (simp add: retry_policy_def)

subsection \<open>The delays\<close>

lemma sleep_params: "0 < sleep_base p cls" "0 < sleep_cap p"
  by (simp_all add: sleep_base_def sleep_cap_def Let_def)

lemma wrap64_mult: "wrap64 (a * wrap64 b) = wrap64 (a * b)"
proof -
  have "(a * wrap64 b) mod 2 ^ 64 = (a * b) mod 2 ^ 64"
  proof -
    have "wrap64 b mod 2 ^ 64 = b mod 2 ^ 64"
      unfolding wrap64_def by (simp add: mod_diff_left_eq)
    then show ?thesis by (metis mod_mult_right_eq)
  qed
  then show ?thesis unfolding wrap64_def by (metis mod_add_left_eq)
qed

text \<open>A multiple of a power of two stays one when it wraps.\<close>

lemma wrap64_dvd:
  assumes "(2::int) ^ k dvd x" "k \<le> 63"
  shows "2 ^ k dvd wrap64 x"
proof -
  have "(2::int) ^ k dvd 2 ^ 63" "(2::int) ^ k dvd 2 ^ 64"
    by (rule le_imp_power_dvd, use assms(2) in simp)+
  then show ?thesis using assms(1) unfolding wrap64_def by (simp add: dvd_mod_iff)
qed

lemma wrap64_big:
  assumes "(2::int) ^ 64 dvd x"
  shows "wrap64 x = 0"
  using assms by (auto simp: wrap64_def elim!: dvdE)

lemma delay_is_capped:
  assumes "sleep_base p cls = m * 2 ^ j" "m * sleep_cap p < 2 ^ 63"
  shows "sleep_exp p attempt cls = min (sleep_cap p) (sleep_base p cls * 2 ^ (attempt - 1))"
proof -
  let ?b = "sleep_base p cls" and ?c = "sleep_cap p" and ?n = "attempt - 1"
  let ?x = "?b * 2 ^ ?n"
  have pos: "0 < ?b" "0 < ?c" by (rule sleep_params)+
  have m: "1 \<le> m" using pos(1) assms(1) by (simp add: zero_less_mult_iff)
  have x: "?x = m * 2 ^ (j + ?n)" by (simp add: assms(1) power_add)
  have exp: "sleep_exp p attempt cls = (if wrap64 ?x > ?c \<or> wrap64 ?x \<le> 0 then ?c else wrap64 ?x)"
    by (simp add: sleep_exp_def Let_def wrap64_mult)
  show ?thesis
  proof (cases "2 ^ (j + ?n) \<le> ?c")
    case True
    have "?x \<le> m * ?c" unfolding x using True m by (intro mult_left_mono) simp_all
    then have "int64 ?x" using assms(2) pos by (simp add: int64_def) (smt (verit) zero_le_power mult_nonneg_nonneg)
    moreover have "0 < ?x" using pos by simp
    ultimately show ?thesis unfolding exp by auto
  next
    case False
    have "?x > ?c" unfolding x using False m by (smt (verit) mult_le_cancel_right1 zero_less_power)
    moreover have "wrap64 ?x > ?c \<or> wrap64 ?x \<le> 0"
    proof (cases "j + ?n \<le> 63")
      case True
      have "2 ^ (j + ?n) dvd wrap64 ?x" by (rule wrap64_dvd) (use True x in simp_all)
      then have "wrap64 ?x > 0 \<Longrightarrow> 2 ^ (j + ?n) \<le> wrap64 ?x" by (rule zdvd_imp_le)
      then show ?thesis using False by linarith
    next
      case False
      then have "(2::int) ^ 64 dvd 2 ^ (j + ?n)" by (intro le_imp_power_dvd) simp
      then have "(2::int) ^ 64 dvd ?x" unfolding x by (rule dvd_mult)
      then show ?thesis by (simp add: wrap64_big)
    qed
    ultimately show ?thesis unfolding exp by (auto simp: min_def)
  qed
qed

text \<open>The delay before a further attempt is bounded by the plain formula, base times a power of
  two up to the cap, at every attempt, although the product wraps around: where the odd part of the
  base times the cap fits in 63 bits (as in the default policy), no wrapped product can pass for a
  delay. The bound handed to the random source is positive, so that it does not panic.\<close>

theorem backoff_is_capped_exponential:
  assumes "sleep_base p cls = m * 2 ^ j" and "m * sleep_cap p < 2 ^ 63" and "sleep_cap p < 2 ^ 63 - 1"
  shows "sleep_exp p attempt cls = min (sleep_cap p) (sleep_base p cls * 2 ^ (attempt - 1)) \<and>
    wrap64 (sleep_exp p attempt cls + 1) = sleep_exp p attempt cls + 1 \<and> 0 < sleep_exp p attempt cls"
proof -
  have e: "sleep_exp p attempt cls = min (sleep_cap p) (sleep_base p cls * 2 ^ (attempt - 1))"
    by (rule delay_is_capped [OF assms(1,2)])
  have "0 < sleep_base p cls * 2 ^ (attempt - 1)"
    using sleep_params(1) [of p cls] by simp
  then have "0 < sleep_exp p attempt cls" "sleep_exp p attempt cls \<le> sleep_cap p"
    unfolding e using sleep_params(2) [of p] by auto
  then have "int64 (sleep_exp p attempt cls + 1)" using assms(3) by (simp add: int64_def)
  then show ?thesis using e \<open>0 < sleep_exp p attempt cls\<close> by simp
qed

definition default_retry :: "'s r2_retry" where
  "default_retry = \<lparr>rr_MaxAttempts = 0, rr_BaseDelay = 0, rr_ThrottleDelay = 0, rr_Cap = 0, rr_Jitter = None\<rparr>"

theorem backoff_is_capped_exponential_witness:
  "sleep_exp (retry_policy (default_retry :: unit r2_retry)) 100 S3_Throttle = 20 * 10 ^ 9"
proof -
  have b: "sleep_base (retry_policy (default_retry :: unit r2_retry)) S3_Throttle = 1953125 * 2 ^ 9"
    "sleep_cap (retry_policy (default_retry :: unit r2_retry)) = 20 * 10 ^ 9"
    by (simp_all add: sleep_base_def sleep_cap_def retry_policy_def default_retry_def)
  have "sleep_exp (retry_policy (default_retry :: unit r2_retry)) 100 S3_Throttle =
      min (20 * 10 ^ 9) (1953125 * 2 ^ 9 * 2 ^ (100 - 1))"
    using backoff_is_capped_exponential [OF b(1), of 100] unfolding b by simp
  also have "\<dots> = 20 * 10 ^ 9" by simp
  finally show ?thesis .
qed

text \<open>With the largest cap the bound does wrap: the clamp does not keep it positive.\<close>

lemma jitter_bound_can_wrap:
  assumes "rr_Cap p = 2 ^ 63 - 1"
  shows "wrap64 (sleep_exp p 65 cls + 1) < 0"
proof -
  have "wrap64 (2 ^ 64) = 0" by (simp add: wrap64_def)
  then have "sleep_exp p 65 cls = 2 ^ 63 - 1" using assms by (simp add: sleep_exp_def sleep_cap_def wrap64_def)
  then show ?thesis by (simp add: wrap64_def)
qed

subsection \<open>The attempts\<close>

text \<open>The states before each further attempt: the operation failed with an error that may be retried,
  and the sleep was not interrupted.\<close>

inductive tried :: "'s go_env \<Rightarrow> 's r2_retry \<Rightarrow> ('s, 'a) op \<Rightarrow> 's \<Rightarrow> nat \<Rightarrow> 's \<Rightarrow> bool" for v p f s where
  start: "tried v p f s 0 s"
| again: "tried v p f s n t \<Longrightarrow> go_ctx v t = None \<Longrightarrow> f t = (Inl e, u) \<Longrightarrow> classifyS3Error e \<noteq> S3_Terminal \<Longrightarrow>
    retry_sleep v p (Suc n) (classifyS3Error e) u = (Inr x, t') \<Longrightarrow> tried v p f s (Suc n) t'"

text \<open>How an attempt may be the last one.\<close>

definition ends :: "'s go_env \<Rightarrow> 's r2_retry \<Rightarrow> ('s, 'a) op \<Rightarrow> nat \<Rightarrow> 's \<Rightarrow> 'a res \<times> 's \<Rightarrow> bool" where
  "ends v p f n t r \<longleftrightarrow>
     (case go_ctx v t of
        Some e \<Rightarrow> r = (Inl e, t)
      | None \<Rightarrow>
         (case f t of
            (Inr x, u) \<Rightarrow> r = (Inr x, u)
          | (Inl e, u) \<Rightarrow>
              if classifyS3Error e = S3_Terminal \<or> int (Suc n) = rr_MaxAttempts p then r = (Inl e, u)
              else \<exists>e' u'. retry_sleep v p (Suc n) (classifyS3Error e) u = (Inl e', u') \<and> r = (Inl e', u')))"

lemma retry_from_ends:
  assumes "tried v p f s n t" "int (Suc n) \<le> rr_MaxAttempts p"
  shows "\<exists>m u. int m < rr_MaxAttempts p \<and> tried v p f s m u \<and> ends v p f m u (retry_from v p f (Suc n) e t)"
  using assms
proof (induction "nat (rr_MaxAttempts p) - n" arbitrary: n t e rule: less_induct)
  case less
  let ?r = "retry_from v p f (Suc n) e t"
  show ?case
  proof (cases "ends v p f n t ?r")
    case True
    then show ?thesis using less.prems by (intro exI [of _ n] exI [of _ t]) simp
  next
    case False
    have r: "?r = (case go_ctx v t of Some e \<Rightarrow> (Inl e, t) | None \<Rightarrow>
        (case f t of (Inr x, s1) \<Rightarrow> (Inr x, s1)
          | (Inl e, s1) \<Rightarrow>
              if classifyS3Error e = S3_Terminal \<or> int (Suc n) = rr_MaxAttempts p then (Inl e, s1)
              else (case retry_sleep v p (Suc n) (classifyS3Error e) s1 of
                      (Inl e', s2) \<Rightarrow> (Inl e', s2)
                    | (Inr _, s2) \<Rightarrow> retry_from v p f (Suc (Suc n)) e s2)))"
      using less.prems(2) by (subst retry_from.simps) simp
    with False obtain e1 u x t' where g: "go_ctx v t = None" "f t = (Inl e1, u)" "classifyS3Error e1 \<noteq> S3_Terminal"
      "int (Suc n) \<noteq> rr_MaxAttempts p" "retry_sleep v p (Suc n) (classifyS3Error e1) u = (Inr x, t')"
      by (auto simp: ends_def split: option.splits prod.splits sum.splits if_splits)
    have "?r = retry_from v p f (Suc (Suc n)) e1 t'" unfolding r using g by simp
    moreover have "tried v p f s (Suc n) t'" using less.prems(1) g by (intro tried.again)
    ultimately show ?thesis using less.hyps [of "Suc n" t' e1] less.prems(2) g(4) by simp
  qed
qed

text \<open>C40: retrying stops: whatever the operation and its surroundings do, \<^verbatim>\<open>do\<close> makes at most the
  allowed number of attempts, each after a failure that may be retried and a completed sleep, and
  its result is that of the last attempt: its value, its terminal error or the error of the last
  allowed attempt, or the cancellation of the context before it or in the sleep after it.\<close>

theorem retry_stops:
  "\<exists>n t. int n < rr_MaxAttempts (retry_policy r) \<and> tried v (retry_policy r) f s n t \<and>
     ends v (retry_policy r) f n t (retry_do v r f s)"
  unfolding retry_do_def using retry_from_ends [OF tried.start, of "retry_policy r"] policy_attempts by simp

text \<open>What needs no retry is not repeated.\<close>

lemma retry_once:
  assumes "go_ctx v s = None" "f s = (r, s')" "\<And>e. r = Inl e \<Longrightarrow> classifyS3Error e = S3_Terminal"
  shows "retry_do v p f s = (r, s')"
  unfolding retry_do_def
  by (subst retry_from.simps) (use assms policy_attempts [of p] in \<open>auto simp: not_less [symmetric] split: sum.splits\<close>)

end
