(* ===== verification/R2_Hub.thy ===== *)
theory R2_Hub
  imports R2_Retry
begin

section \<open>The hub on an object store\<close>

text \<open>
  \<^verbatim>\<open>R2Hub\<close> of \<^verbatim>\<open>src/internal/hub/r2.go\<close>: the hub that keeps every event, blob, snapshot and
  marker as an object of an S3 client. Events lie under one prefix per device, in keys that sort by
  sequence number; the retired layout under \<^verbatim>\<open>events/\<close> is still read. The fields of the record are
  those of the struct, the environment of the retries, and a limit on the pages that one loop may
  read, as a client could go on listing for ever (\<open>KFuel\<close>); the counters of operations are left
  out. The concurrent puts of \<^verbatim>\<open>Push\<close> and gets of \<^verbatim>\<open>Pull\<close> are modelled in the order of the batch,
  up to the first that fails.
\<close>

record 's r2_hub =
  r2_S3 :: "'s s3_client"
  r2_WorkspaceID :: string
  r2_RetentionSeqs :: "(string \<times> int) list"
  r2_Retry :: "'s r2_retry"
  r2_env :: "'s go_env"
  r2_pages :: nat

subsection \<open>Keys\<close>

text \<open>\<^verbatim>\<open>fmt.Sprintf("%020d", n)\<close>: zeros between the sign and the digits up to a width of 20.\<close>

definition pad20 :: "int \<Rightarrow> string" where
  "pad20 n = (let ds = show_nat (nat \<bar>n\<bar>); sg = (if n < 0 then ''-'' else [])
     in sg @ replicate (20 - length sg - length ds) CHR ''0'' @ ds)"

definition r2_workspace :: "'s r2_hub \<Rightarrow> string" where
  "r2_workspace h = ''workspaces/'' @ r2_WorkspaceID h @ ''/''"

definition eventlogPrefix :: "'s r2_hub \<Rightarrow> string" where "eventlogPrefix h = r2_workspace h @ ''eventlog/''"
definition devicePrefix :: "'s r2_hub \<Rightarrow> string \<Rightarrow> string" where "devicePrefix h deviceID = eventlogPrefix h @ deviceID @ ''/''"
definition eventKey :: "'s r2_hub \<Rightarrow> event \<Rightarrow> string" where
  "eventKey h e = devicePrefix h (ev_device e) @ pad20 (ev_seq e) @ ''_'' @ ev_id e @ ''.json''"
definition blobsPrefix :: "'s r2_hub \<Rightarrow> string" where "blobsPrefix h = r2_workspace h @ ''blobs/''"
definition blobKey :: "'s r2_hub \<Rightarrow> string \<Rightarrow> string" where "blobKey h sha256Hex = blobsPrefix h @ sha256Hex"
definition legacyEventsPrefix :: "'s r2_hub \<Rightarrow> string" where "legacyEventsPrefix h = r2_workspace h @ ''events/''"
definition retentionKey :: "'s r2_hub \<Rightarrow> string" where "retentionKey h = r2_workspace h @ ''meta/retention.json''"
definition sweepLockKey :: "'s r2_hub \<Rightarrow> string" where "sweepLockKey h = r2_workspace h @ ''meta/sweep.lock''"
definition snapshotsPrefix :: "'s r2_hub \<Rightarrow> string" where "snapshotsPrefix h = r2_workspace h @ ''snapshots/''"
definition snapshotKey :: "'s r2_hub \<Rightarrow> string \<Rightarrow> string" where "snapshotKey h sha256Hex = snapshotsPrefix h @ sha256Hex @ ''.json''"
definition acksPrefix :: "'s r2_hub \<Rightarrow> string" where "acksPrefix h = r2_workspace h @ ''meta/acks/''"
definition ackKey :: "'s r2_hub \<Rightarrow> string \<Rightarrow> string" where "ackKey h deviceID = acksPrefix h @ deviceID @ ''.json''"

definition validAckDeviceID :: "string \<Rightarrow> bool" where
  "validAckDeviceID deviceID \<longleftrightarrow> deviceID \<noteq> [] \<and> \<not> has_separator deviceID \<and> \<not> containsb ''..'' deviceID"

definition isValidHexKey :: "string \<Rightarrow> bool" where
  "isValidHexKey s \<longleftrightarrow> length s = 64 \<and> \<not> has_separator s \<and> list_all (\<lambda>c.
     48 \<le> nat_of c \<and> nat_of c \<le> 57 \<or> 97 \<le> nat_of c \<and> nat_of c \<le> 102 \<or> 65 \<le> nat_of c \<and> nat_of c \<le> 70) s"

text \<open>\<^verbatim>\<open>strconv.ParseInt(s, 10, 64)\<close>\<close>

definition parse_int64 :: "string \<Rightarrow> int option" where
  "parse_int64 s =
     (let neg = prefixb ''-'' s; ds = (if neg \<or> prefixb ''+'' s then tl s else s) in
      if ds = [] \<or> \<not> list_all is_digit ds then None
      else let v = (if neg then - int (digits_val ds) else int (digits_val ds))
           in if int64 v then Some v else None)"

subsection \<open>Operations that fail and loop\<close>

definition labelk :: "string \<Rightarrow> ('s, 'a) op \<Rightarrow> ('s, 'a) op" where
  "labelk l m s = (case m s of (r, s') \<Rightarrow> (relabel l r, s'))"

definition catchk :: "('s, 'a) op \<Rightarrow> (err \<Rightarrow> ('s, 'a) op) \<Rightarrow> ('s, 'a) op" where
  "catchk m f s = (case m s of (Inl e, s') \<Rightarrow> f e s' | (Inr x, s') \<Rightarrow> (Inr x, s'))"

fun foldk :: "('a \<Rightarrow> 'b \<Rightarrow> ('s, 'b) op) \<Rightarrow> 'a list \<Rightarrow> 'b \<Rightarrow> ('s, 'b) op" where
  "foldk f [] acc = okk acc"
| "foldk f (x # xs) acc = bindk (f x acc) (foldk f xs)"

text \<open>The loop over a page: each object is handed to the body, which may leave the loop.\<close>

fun for_objects :: "(blob_info \<Rightarrow> 'a \<Rightarrow> ('s, 'a \<times> bool) op) \<Rightarrow> blob_info list \<Rightarrow> 'a \<Rightarrow> ('s, 'a \<times> bool) op" where
  "for_objects f [] acc = okk (acc, False)"
| "for_objects f (x # xs) acc = bindk (f x acc) (\<lambda>(acc', leave). if leave then okk (acc', True) else for_objects f xs acc')"

fun each_page :: "nat \<Rightarrow> (string \<Rightarrow> ('s, blob_info list \<times> string) op) \<Rightarrow> (blob_info \<Rightarrow> 'a \<Rightarrow> ('s, 'a \<times> bool) op) \<Rightarrow>
    string \<Rightarrow> 'a \<Rightarrow> ('s, 'a) op" where
  "each_page 0 lst f startAfter acc = errk (Err [KFuel] ''page limit reached'')"
| "each_page (Suc n) lst f startAfter acc =
     bindk (lst startAfter) (\<lambda>(page, nxt).
     bindk (for_objects f page acc) (\<lambda>(acc', leave).
       if leave \<or> nxt = [] then okk acc' else each_page n lst f nxt acc'))"

definition r2_try :: "'s r2_hub \<Rightarrow> ('s, 'a) op \<Rightarrow> ('s, 'a) op" where
  "r2_try h f = retry_do (r2_env h) (r2_Retry h) f"

definition r2_list :: "'s r2_hub \<Rightarrow> string \<Rightarrow> string \<Rightarrow> int \<Rightarrow> string \<Rightarrow> ('s, blob_info list \<times> string) op" where
  "r2_list h label prefix n startAfter = labelk label (r2_try h (s3_ListObjectsV2 (r2_S3 h) prefix startAfter n))"

definition paged :: "'s r2_hub \<Rightarrow> string \<Rightarrow> string \<Rightarrow> string \<Rightarrow> (blob_info \<Rightarrow> 'a \<Rightarrow> ('s, 'a \<times> bool) op) \<Rightarrow> 'a \<Rightarrow> ('s, 'a) op" where
  "paged h label prefix startAfter f acc = each_page (r2_pages h) (r2_list h label prefix 1000) f startAfter acc"

definition collect :: "blob_info \<Rightarrow> blob_info list \<Rightarrow> ('s, blob_info list \<times> bool) op" where
  "collect obj acc = okk (acc @ [obj], False)"

subsection \<open>Push\<close>

definition push_object :: "'s r2_hub \<Rightarrow> event \<Rightarrow> ('s, unit) op" where
  "push_object h e =
     catchk (r2_try h (s3_PutObject (r2_S3 h) (eventKey h e) (marshal_event e) True))
       (\<lambda>er. if KPreconditionFailed \<in> set (err_kinds er) then okk ()
             else errk (Err (err_kinds er) (''put event '' @ ev_id e @ '': '' @ err_msg er)))"

definition r2_Push :: "'s r2_hub \<Rightarrow> event list \<Rightarrow> ('s, unit) op" where
  "r2_Push h events s =
     (case find (\<lambda>e. ev_seq e \<le> 0) events of
        Some e \<Rightarrow> (fail KOther (''refusing to push event '' @ ev_id e @ '' with non-positive seq '' @ show_int (ev_seq e)), s)
      | None \<Rightarrow>
         (case go_ctx (r2_env h) s of
            Some er \<Rightarrow> (Inl er, s)
          | None \<Rightarrow> bindk (mapk (push_object h) events) (\<lambda>_. okk ()) s))"

subsection \<open>The retention manifest\<close>

definition r2_GetRetention :: "'s r2_hub \<Rightarrow> ('s, string \<times> string) op" where
  "r2_GetRetention h =
     catchk (r2_try h (s3_GetObjectWithETag (r2_S3 h) (retentionKey h)))
       (\<lambda>er. if KBlobNotFound \<in> set (err_kinds er) then errk (Err [KRetentionNotFound] ''no retention manifest on hub'')
             else errk (Err (err_kinds er) (''get retention manifest: '' @ err_msg er)))"

text \<open>The floors given to the hub itself win over those of the manifest, device by device.\<close>

definition override_floors :: "(string \<times> int) list \<Rightarrow> (string \<times> int) list \<Rightarrow> (string \<times> int) list" where
  "override_floors floors seqs = foldl (\<lambda>fs (dev, seq). AList.update dev seq fs) floors seqs"

definition r2_retentionFloors :: "world \<Rightarrow> 's r2_hub \<Rightarrow> ('s, (string \<times> int) list) op" where
  "r2_retentionFloors w h s =
     (case r2_GetRetention h s of
        (Inl er, s') \<Rightarrow>
          (if KRetentionNotFound \<in> set (err_kinds er) then Inr (override_floors [] (r2_RetentionSeqs h)) else Inl er, s')
      | (Inr (raw, _), s') \<Rightarrow>
          (bindr (relabel ''read retention manifest: '' (ParseRetentionFloors w raw))
             (\<lambda>parsed. Inr (override_floors parsed (r2_RetentionSeqs h))), s'))"

definition r2_PutRetention :: "'s r2_hub \<Rightarrow> string \<Rightarrow> string \<Rightarrow> ('s, unit) op" where
  "r2_PutRetention h raw ifMatchETag =
     catchk (if ifMatchETag = [] then r2_try h (s3_PutObject (r2_S3 h) (retentionKey h) raw True)
             else r2_try h (s3_PutObjectIfMatch (r2_S3 h) (retentionKey h) raw ifMatchETag))
       (\<lambda>er. if KPreconditionFailed \<in> set (err_kinds er)
             then (\<lambda>s. case r2_GetRetention h s of
                     (Inr (current, _), s') \<Rightarrow>
                       if current = raw then (Inr (), s')
                       else (Inl (Err (KRetentionConflict # err_kinds er) (''retention manifest changed concurrently: '' @ err_msg er)), s')
                   | (Inl _, s') \<Rightarrow>
                       (Inl (Err (KRetentionConflict # err_kinds er) (''retention manifest changed concurrently: '' @ err_msg er)), s'))
             else errk (Err (err_kinds er) (''put retention manifest: '' @ err_msg er)))"

subsection \<open>Pull\<close>

definition device_keys :: "'s r2_hub \<Rightarrow> transport_cursor \<Rightarrow> string \<Rightarrow> ('s, string list) op" where
  "device_keys h after dp =
     (let dev = trim_suffix (trim_prefix dp (eventlogPrefix h)) ''/'' in
      bindk (paged h (''list events for device '' @ dev @ '': '') dp (dp @ pad20 (wrap64 (After after dev + 1))) collect [])
        (\<lambda>objs. okk (map fst objs)))"

text \<open>A key of the retired layout that the cursor has not consumed, or that does not parse.\<close>

definition legacy_wanted :: "'s r2_hub \<Rightarrow> transport_cursor \<Rightarrow> string \<Rightarrow> bool" where
  "legacy_wanted h after key =
     (case split_on CHR ''/'' (trim_prefix key (legacyEventsPrefix h)) of
        [hlc, dev, sq, name] \<Rightarrow>
          (case parse_int64 sq of None \<Rightarrow> True | Some seq \<Rightarrow> \<not> (seq > 0 \<and> seq \<le> After after dev))
      | _ \<Rightarrow> True)"

definition legacyEventKeys :: "'s r2_hub \<Rightarrow> transport_cursor \<Rightarrow> ('s, string list) op" where
  "legacyEventKeys h after =
     bindk (paged h ''list legacy events: '' (legacyEventsPrefix h) []
        (\<lambda>obj acc. okk (if legacy_wanted h after (fst obj) then acc @ [fst obj] else acc, False)) []) okk"

definition fetch_event :: "world \<Rightarrow> 's r2_hub \<Rightarrow> string \<Rightarrow> ('s, event) op" where
  "fetch_event w h key =
     bindk (labelk (''get event object '' @ key @ '': '') (r2_try h (s3_GetObject (r2_S3 h) key))) (\<lambda>raw.
       askk (''decode event object '' @ key @ '': '')
         (\<lambda>s. case decode_event raw of None \<Rightarrow> fail KOther (w_decode_err w raw) | Some e \<Rightarrow> Inr e))"

text \<open>The filter on the event's own sequence number and the first of each id.\<close>

fun first_of_id :: "string list \<Rightarrow> event list \<Rightarrow> event list" where
  "first_of_id seen [] = []"
| "first_of_id seen (e # es) =
     (if ev_id e \<in> set seen then first_of_id seen es else e # first_of_id (ev_id e # seen) es)"

definition r2_Pull :: "world \<Rightarrow> 's r2_hub \<Rightarrow> transport_cursor \<Rightarrow> ('s, event list) op" where
  "r2_Pull w h after =
     bindk (r2_retentionFloors w h) (\<lambda>floors.
       if snapshot_required floors after then errk (Err [KSnapshotRequired] ''full snapshot required'')
       else bindk (labelk ''list device streams: '' (r2_try h (s3_ListCommonPrefixes (r2_S3 h) (eventlogPrefix h) ''/''))) (\<lambda>devPrefixes.
       bindk (mapk (device_keys h after) devPrefixes) (\<lambda>ks.
       bindk (legacyEventKeys h after) (\<lambda>legacyKeys.
       bindk (mapk (fetch_event w h) (concat ks @ legacyKeys)) (\<lambda>fetched.
         okk (sortEvents (first_of_id [] (filter (above after) fetched))))))))"

definition r2_HasEvents :: "'s r2_hub \<Rightarrow> ('s, bool) op" where
  "r2_HasEvents h =
     bindk (r2_list h ''list events: '' (eventlogPrefix h) 1 []) (\<lambda>(page, _).
       if page \<noteq> [] then okk True
       else bindk (r2_list h ''list events: '' (legacyEventsPrefix h) 1 []) (\<lambda>(page', _). okk (page' \<noteq> [])))"

subsection \<open>Blobs and snapshots\<close>

definition r2_ListBlobs :: "'s r2_hub \<Rightarrow> ('s, blob_info list) op" where
  "r2_ListBlobs h = paged h ''list blobs: '' (blobsPrefix h) []
     (\<lambda>(k, t) acc. okk (acc @ [(trim_prefix k (blobsPrefix h), t)], False)) []"

definition valid_hex :: "string \<Rightarrow> ('s, unit) op" where
  "valid_hex sha256Hex = askk [] (\<lambda>s. if isValidHexKey sha256Hex then Inr () else fail KInvalidBlobKey ''invalid blob key'')"

definition r2_PutBlob :: "'s r2_hub \<Rightarrow> string \<Rightarrow> string \<Rightarrow> ('s, unit) op" where
  "r2_PutBlob h sha256Hex data =
     bindk (valid_hex sha256Hex) (\<lambda>_.
     catchk (r2_try h (s3_PutObject (r2_S3 h) (blobKey h sha256Hex) data True))
       (\<lambda>er. if KPreconditionFailed \<in> set (err_kinds er)
             then labelk (''refresh blob '' @ sha256Hex @ '' last-modified: '')
                    (r2_try h (s3_PutObject (r2_S3 h) (blobKey h sha256Hex) data False))
             else errk (Err (err_kinds er) (''put blob '' @ sha256Hex @ '': '' @ err_msg er))))"

definition r2_GetBlob :: "'s r2_hub \<Rightarrow> string \<Rightarrow> ('s, string) op" where
  "r2_GetBlob h sha256Hex = bindk (valid_hex sha256Hex) (\<lambda>_. r2_try h (s3_GetObject (r2_S3 h) (blobKey h sha256Hex)))"

definition r2_StatBlob :: "'s r2_hub \<Rightarrow> string \<Rightarrow> ('s, blob_info) op" where
  "r2_StatBlob h sha256Hex = bindk (valid_hex sha256Hex) (\<lambda>_.
     bindk (r2_try h (s3_StatObject (r2_S3 h) (blobKey h sha256Hex))) (\<lambda>(k, t). okk (sha256Hex, t)))"

definition r2_DeleteBlob :: "'s r2_hub \<Rightarrow> string \<Rightarrow> ('s, unit) op" where
  "r2_DeleteBlob h sha256Hex = bindk (valid_hex sha256Hex) (\<lambda>_. r2_try h (s3_DeleteObject (r2_S3 h) (blobKey h sha256Hex)))"

definition r2_PutSnapshotObject :: "world \<Rightarrow> 's r2_hub \<Rightarrow> string \<Rightarrow> string \<Rightarrow> ('s, unit) op" where
  "r2_PutSnapshotObject w h sha256Hex body =
     bindk (valid_hex sha256Hex) (\<lambda>_.
     bindk (askk [] (\<lambda>s. if hex_enc (w_sha w body) \<noteq> sha256Hex
        then fail KInvalidBlobKey (''invalid blob key: snapshot body does not hash to its key '' @ sha256Hex) else Inr ())) (\<lambda>_.
     catchk (r2_try h (s3_PutObject (r2_S3 h) (snapshotKey h sha256Hex) body True))
       (\<lambda>er. if KPreconditionFailed \<in> set (err_kinds er) then okk ()
             else errk (Err (err_kinds er) (''put snapshot object '' @ sha256Hex @ '': '' @ err_msg er)))))"

definition r2_GetSnapshotObject :: "'s r2_hub \<Rightarrow> string \<Rightarrow> ('s, string) op" where
  "r2_GetSnapshotObject h sha256Hex =
     bindk (valid_hex sha256Hex) (\<lambda>_. r2_try h (s3_GetObject (r2_S3 h) (snapshotKey h sha256Hex)))"

definition r2_ListSnapshotObjects :: "'s r2_hub \<Rightarrow> ('s, blob_info list) op" where
  "r2_ListSnapshotObjects h = paged h ''list snapshots: '' (snapshotsPrefix h) []
     (\<lambda>(k, t) acc. let rest = trim_prefix k (snapshotsPrefix h); key = trim_suffix rest ''.json'' in
        okk (if has_suffix rest ''.json'' \<and> isValidHexKey key then acc @ [(key, t)] else acc, False)) []"

definition r2_DeleteSnapshotObject :: "'s r2_hub \<Rightarrow> string \<Rightarrow> ('s, unit) op" where
  "r2_DeleteSnapshotObject h sha256Hex =
     bindk (valid_hex sha256Hex) (\<lambda>_. r2_try h (s3_DeleteObject (r2_S3 h) (snapshotKey h sha256Hex)))"

subsection \<open>Compaction\<close>

definition delete_counted :: "'s r2_hub \<Rightarrow> string \<Rightarrow> string \<Rightarrow> nat \<Rightarrow> ('s, nat \<times> bool) op" where
  "delete_counted h label key deleted =
     bindk (labelk (label @ key @ '': '') (r2_try h (s3_DeleteObject (r2_S3 h) key))) (\<lambda>_. okk (deleted + 1, False))"

text \<open>The stream of one device, up to the bare padded floor key.\<close>

definition compact_device :: "'s r2_hub \<Rightarrow> string \<times> int \<Rightarrow> nat \<Rightarrow> ('s, nat) op" where
  "compact_device h f deleted =
     (case f of (dev, floor) \<Rightarrow>
        if floor \<le> 0 then okk deleted
        else paged h (''list events for device '' @ dev @ '': '') (devicePrefix h dev) []
          (\<lambda>obj n. if fst obj \<ge> devicePrefix h dev @ pad20 floor then okk (n, True)
                   else delete_counted h ''delete event object '' (fst obj) n) deleted)"

text \<open>A legacy key that parses below the floor of its device.\<close>

definition legacy_below :: "'s r2_hub \<Rightarrow> transport_cursor \<Rightarrow> string \<Rightarrow> bool" where
  "legacy_below h floors key =
     (case split_on CHR ''/'' (trim_prefix key (legacyEventsPrefix h)) of
        [hlc, dev, sq, name] \<Rightarrow>
          (case parse_int64 sq of
             None \<Rightarrow> False
           | Some seq \<Rightarrow> seq > 0 \<and> After floors dev > 0 \<and> seq < After floors dev)
      | _ \<Rightarrow> False)"

definition r2_CompactEventsBelow :: "'s r2_hub \<Rightarrow> transport_cursor \<Rightarrow> ('s, nat) op" where
  "r2_CompactEventsBelow h floors =
     bindk (foldk (compact_device h) floors 0) (\<lambda>deleted.
       paged h ''list legacy events: '' (legacyEventsPrefix h) []
         (\<lambda>obj n. if legacy_below h floors (fst obj)
                  then delete_counted h ''delete legacy event object '' (fst obj) n
                  else okk (n, False)) deleted)"

definition valid_device :: "string \<Rightarrow> ('s, unit) op" where
  "valid_device deviceID = askk [] (\<lambda>s. if validAckDeviceID deviceID then Inr () else fail KInvalidBlobKey ''invalid blob key'')"

definition r2_DeleteDeviceStream :: "'s r2_hub \<Rightarrow> string \<Rightarrow> ('s, nat) op" where
  "r2_DeleteDeviceStream h deviceID =
     bindk (valid_device deviceID) (\<lambda>_.
       paged h (''list device stream '' @ deviceID @ '': '') (devicePrefix h deviceID) []
         (\<lambda>obj n. delete_counted h ''delete device stream object '' (fst obj) n) 0)"

subsection \<open>Acknowledgements\<close>

definition r2_PutAck :: "'s r2_hub \<Rightarrow> string \<Rightarrow> string \<Rightarrow> ('s, unit) op" where
  "r2_PutAck h deviceID raw =
     bindk (valid_device deviceID) (\<lambda>_.
     labelk (''put ack marker '' @ deviceID @ '': '') (r2_try h (s3_PutObject (r2_S3 h) (ackKey h deviceID) raw False)))"

definition r2_ListAcks :: "'s r2_hub \<Rightarrow> ('s, (string \<times> string) list) op" where
  "r2_ListAcks h = paged h ''list acks: '' (acksPrefix h) []
     (\<lambda>obj acc. let deviceID = trim_suffix (trim_prefix (fst obj) (acksPrefix h)) ''.json'' in
        if \<not> validAckDeviceID deviceID then okk (acc, False)
        else catchk (bindk (r2_try h (s3_GetObject (r2_S3 h) (fst obj)))
                      (\<lambda>raw. okk (AList.update deviceID raw acc, False)))
               (\<lambda>er. if KBlobNotFound \<in> set (err_kinds er) then okk (acc, False)
                     else errk (Err (err_kinds er) (''get ack marker '' @ deviceID @ '': '' @ err_msg er)))) []"

definition r2_DeleteAck :: "'s r2_hub \<Rightarrow> string \<Rightarrow> ('s, unit) op" where
  "r2_DeleteAck h deviceID =
     bindk (valid_device deviceID) (\<lambda>_. r2_try h (s3_DeleteObject (r2_S3 h) (ackKey h deviceID)))"

subsection \<open>Migration of the retired layout\<close>

definition parseLegacyEventKey :: "string \<Rightarrow> string \<Rightarrow> (string \<times> int) option" where
  "parseLegacyEventKey prefix key =
     (case split_on CHR ''/'' (trim_prefix key prefix) of
        [hlc, dev, sq, name] \<Rightarrow>
          (case parse_int64 sq of
             None \<Rightarrow> None
           | Some seq \<Rightarrow> if seq \<le> 0 \<or> dev = [] then None else Some (dev, seq))
      | _ \<Rightarrow> None)"

text \<open>Copying an object to its new key: a put that finds one there falls through to the read-back,
  and only equal bytes let the legacy object go. The result counts the migrated and the kept.\<close>

definition rekey_object :: "'s r2_hub \<Rightarrow> string \<Rightarrow> string \<Rightarrow> event \<Rightarrow> ('s, nat \<times> nat) op" where
  "rekey_object h legacyKey raw e =
     bindk (catchk (r2_try h (s3_PutObject (r2_S3 h) (eventKey h e) raw True))
       (\<lambda>er. if KPreconditionFailed \<in> set (err_kinds er) then okk ()
             else errk (Err (err_kinds er) (''put migrated event '' @ eventKey h e @ '': '' @ err_msg er)))) (\<lambda>_.
     bindk (labelk (''read back migrated event '' @ eventKey h e @ '': '') (r2_try h (s3_GetObject (r2_S3 h) (eventKey h e)))) (\<lambda>rb.
       if rb \<noteq> raw then okk (0, 1)
       else bindk (labelk (''delete legacy event '' @ legacyKey @ '': '') (r2_try h (s3_DeleteObject (r2_S3 h) legacyKey)))
              (\<lambda>_. okk (1, 0))))"

definition migrateOneLegacyEvent :: "'s r2_hub \<Rightarrow> bool \<Rightarrow> string \<Rightarrow> ('s, nat \<times> nat) op" where
  "migrateOneLegacyEvent h dryRun legacyKey =
     (case parseLegacyEventKey (legacyEventsPrefix h) legacyKey of
        None \<Rightarrow> okk (0, 1)
      | Some (dev, seq) \<Rightarrow>
          bindk (labelk (''get legacy event '' @ legacyKey @ '': '') (r2_try h (s3_GetObject (r2_S3 h) legacyKey))) (\<lambda>raw.
            case decode_event raw of
              None \<Rightarrow> okk (0, 1)
            | Some e \<Rightarrow>
                if ev_device e \<noteq> dev \<or> ev_seq e \<noteq> seq then okk (0, 1)
                else if dryRun then okk (1, 0)
                else rekey_object h legacyKey raw e))"

definition r2_MigrateLegacyEvents :: "'s r2_hub \<Rightarrow> bool \<Rightarrow> ('s, nat \<times> nat) op" where
  "r2_MigrateLegacyEvents h dryRun =
     paged h ''list legacy events: '' (legacyEventsPrefix h) []
       (\<lambda>obj (migrated, kept). bindk (migrateOneLegacyEvent h dryRun (fst obj))
          (\<lambda>(m, k). okk ((migrated + m, kept + k), False))) (0, 0)"

subsection \<open>The sweep lock\<close>

text \<open>The time of the lock, \<open>None\<close> for the zero time where the listing does not show it.\<close>

definition r2_GetSweepLock :: "'s r2_hub \<Rightarrow> ('s, string \<times> int option) op" where
  "r2_GetSweepLock h =
     bindk (catchk (r2_try h (s3_GetObject (r2_S3 h) (sweepLockKey h)))
       (\<lambda>er. if KBlobNotFound \<in> set (err_kinds er) then errk (Err [KSweepLockNotFound] ''sweep lock not found'')
             else errk (Err (err_kinds er) (''get sweep lock: '' @ err_msg er)))) (\<lambda>raw.
     bindk (r2_list h ''stat sweep lock: '' (sweepLockKey h) 1 []) (\<lambda>(page, _).
       okk (raw, map_of (rev page) (sweepLockKey h))))"

definition r2_PutSweepLock :: "'s r2_hub \<Rightarrow> string \<Rightarrow> ('s, unit) op" where
  "r2_PutSweepLock h raw =
     catchk (r2_try h (s3_PutObject (r2_S3 h) (sweepLockKey h) raw True))
       (\<lambda>er. if KPreconditionFailed \<in> set (err_kinds er) then errk (Err [KSweepLockHeld] ''sweep lock already held'')
             else errk (Err (err_kinds er) (''put sweep lock: '' @ err_msg er)))"

definition r2_DeleteSweepLock :: "'s r2_hub \<Rightarrow> ('s, unit) op" where
  "r2_DeleteSweepLock h = r2_try h (s3_DeleteObject (r2_S3 h) (sweepLockKey h))"

end
