(* ===== verification/R2_Laws.thy ===== *)
theory R2_Laws
  imports R2_Hub
begin

section \<open>The R2 hub over any object store that keeps its contract\<close>

text \<open>
  What follows holds for every client that satisfies \<open>object_store\<close>, in an environment whose
  context is not cancelled (\<open>calm\<close>): the paged loops see every object once, whatever the pages;
  a push stores, a pull reads back, and a compaction or a migration moves, exactly the objects it
  should.
\<close>

definition calm :: "'s r2_hub \<Rightarrow> bool" where
  "calm h \<longleftrightarrow> (\<forall>s. go_ctx (r2_env h) s = None)"

lemma try_ok: "calm h \<Longrightarrow> f s = (Inr x, s') \<Longrightarrow> r2_try h f s = (Inr x, s')"
  unfolding r2_try_def by (rule retry_once) (simp_all add: calm_def)

lemma refused_terminal: "refused_by k e \<Longrightarrow> classifyS3Error e = S3_Terminal"
  by (simp add: refused_by_def classifyS3Error_def)

lemma try_refused: "calm h \<Longrightarrow> f s = (Inl e, s') \<Longrightarrow> refused_by k e \<Longrightarrow> r2_try h f s = (Inl e, s')"
  unfolding r2_try_def by (rule retry_once) (auto simp: calm_def refused_terminal)

lemma refused_kind: "refused_by k e \<Longrightarrow> k \<in> set (err_kinds e)"
  by (simp add: refused_by_def)

subsection \<open>Sorted keys\<close>

lemma keys_after_sorted: "sorted_wrt (<) (keys_after m p a)"
  by (simp add: keys_after_def strict_sorted_iff)

lemma in_keys_after: "finite (dom m) \<Longrightarrow> k \<in> set (keys_after m p a) \<longleftrightarrow> k \<in> dom m \<and> prefixb p k \<and> a < k"
  by (auto simp: keys_after_def)

lemma keys_after_eqI:
  assumes "finite (dom m)" "sorted_wrt (<) ks" "\<And>k. k \<in> set ks \<longleftrightarrow> k \<in> dom m \<and> prefixb p k \<and> a < k"
  shows "keys_after m p a = ks"
proof -
  have "set (keys_after m p a) = set ks" using in_keys_after [OF assms(1)] assms(3) by blast
  moreover have "sorted ks \<and> distinct ks" using assms(2) by (simp add: strict_sorted_iff)
  moreover have "sorted (keys_after m p a) \<and> distinct (keys_after m p a)"
    using keys_after_sorted [of m p a] by (simp only: strict_sorted_iff)
  ultimately show ?thesis by (simp add: sorted_distinct_set_unique)
qed

subsection \<open>Pages\<close>

text \<open>What is left to list after the keys \<open>gone\<close> were handled: the rest of the first listing.\<close>

definition left_to_list :: "string \<Rightarrow> string \<Rightarrow> string list \<Rightarrow> string list \<Rightarrow> (string \<rightharpoonup> string) \<Rightarrow> bool" where
  "left_to_list p a gone rest m \<longleftrightarrow> (\<forall>j. prefixb p j \<and> a < j \<and> j \<notin> set gone \<longrightarrow> (j \<in> dom m \<longleftrightarrow> j \<in> set rest))"

lemma left_keys_after:
  assumes "finite (dom m)" "left_to_list p a gone rest m" "sorted_wrt (<) (gone @ rest)"
    and "\<forall>j \<in> set (gone @ rest). prefixb p j \<and> a < j" "gone \<noteq> []"
  shows "keys_after m p (last gone) = rest"
proof (rule keys_after_eqI [OF assms(1)])
  show "sorted_wrt (<) rest" using assms(3) by (simp add: sorted_wrt_append)
  fix k
  have l: "last gone \<in> set gone" using assms(5) by simp
  show "k \<in> set rest \<longleftrightarrow> k \<in> dom m \<and> prefixb p k \<and> last gone < k"
  proof
    assume k: "k \<in> set rest"
    have "last gone < k" using assms(3) k l by (simp add: sorted_wrt_append)
    moreover have "k \<notin> set gone" using assms(3) k by (auto simp: sorted_wrt_append)
    ultimately show "k \<in> dom m \<and> prefixb p k \<and> last gone < k"
      using assms(2,4) k by (auto simp: left_to_list_def)
  next
    assume k: "k \<in> dom m \<and> prefixb p k \<and> last gone < k"
    have "a < k" using k l assms(4) order_less_trans [of a "last gone" k] by simp
    moreover have "k \<notin> set gone"
    proof
      assume "k \<in> set gone"
      moreover have "gone = butlast gone @ [last gone]" using assms(5) by simp
      ultimately have "k \<in> set (butlast gone) \<or> k = last gone" by (metis Un_iff empty_iff list.set(1) list.set(2) insert_iff set_append)
      moreover have "\<forall>j \<in> set (butlast gone). j < last gone"
        using assms(3,5) by (metis append_butlast_last_id list.set_intros(1) sorted_wrt_append)
      ultimately show False using k by auto
    qed
    ultimately show "k \<in> set rest" using assms(2) k by (auto simp: left_to_list_def)
  qed
qed

context object_store begin

lemma list_run:
  assumes "sound s" "calm h" "r2_S3 h = c" "0 < n" "ks = keys_after (obj s) p a"
  shows "\<exists>os s'. r2_list h label p n a s = (Inr (os, if length ks > nat n then ks ! (nat n - 1) else []), s') \<and>
    map fst os = take (nat n) ks \<and> sound s' \<and> obj s' = obj s"
proof -
  obtain os s' where l: "s3_ListObjectsV2 c p a n s = (Inr (os, if length ks > nat n then ks ! (nat n - 1) else []), s')"
    "map fst os = take (nat n) ks" "sound s'" "obj s' = obj s"
    using list_ok [OF assms(1,4,5)] by blast
  from try_ok [OF assms(2), of "s3_ListObjectsV2 c p a n", OF l(1)] l(2-4) show ?thesis
    by (auto simp: r2_list_def labelk_def relabel_def assms(3))
qed

lemma for_objects_rule:
  assumes "map fst os = now" "ks = gone @ now @ rest" "sound t" "I gone acc (obj t)"
    and "\<And>gone k m rest acc t. ks = gone @ k # rest \<Longrightarrow> sound t \<Longrightarrow> I gone acc (obj t) \<Longrightarrow>
      \<exists>acc' leave t'. f (k, m) acc t = (Inr (acc', leave), t') \<and> sound t' \<and>
        (if leave then Q acc' (obj t') else I (gone @ [k]) acc' (obj t'))"
  shows "\<exists>acc' leave t'. for_objects f os acc t = (Inr (acc', leave), t') \<and> sound t' \<and>
    (if leave then Q acc' (obj t') else I (gone @ now) acc' (obj t'))"
  using assms(1-4)
proof (induction os arbitrary: gone now acc t)
  case Nil
  then show ?case by (intro exI [of _ acc] exI [of _ False]) (simp add: okk_def)
next
  case (Cons x os)
  obtain k m where x: "x = (k, m)" by (cases x)
  then have now: "now = k # map fst os" using Cons.prems(1) by simp
  have "ks = gone @ k # map fst os @ rest" using Cons.prems(2) now by simp
  from assms(5) [OF this Cons.prems(3,4), of m] obtain acc1 leave t1 where 1: "f x acc t = (Inr (acc1, leave), t1)" "sound t1"
    "if leave then Q acc1 (obj t1) else I (gone @ [k]) acc1 (obj t1)"
    unfolding x by blast
  show ?case
  proof (cases leave)
    case True
    then show ?thesis using 1 by (auto simp: bindk_def okk_def)
  next
    case False
    have spl: "ks = (gone @ [k]) @ map fst os @ rest" and g: "(gone @ [k]) @ map fst os = gone @ now"
      using Cons.prems(2) now by simp_all
    have "I (gone @ [k]) acc1 (obj t1)" using 1(3) False by simp
    from Cons.IH [OF refl spl 1(2) this] obtain acc' leave' t' where
      "for_objects f os acc1 t1 = (Inr (acc', leave'), t')" "sound t'"
      "if leave' then Q acc' (obj t') else I (gone @ now) acc' (obj t')"
      unfolding g by blast
    then show ?thesis using 1(1) False by (auto simp: bindk_def)
  qed
qed

lemma each_page_rule:
  assumes "sound s" "calm h" "r2_S3 h = c" "ks = keys_after (obj s) p a" "length ks < fuel" "I [] acc (obj s)"
    and "\<And>gone rest acc m. I gone acc m \<Longrightarrow> ks = gone @ rest \<Longrightarrow> left_to_list p a gone rest m"
    and "\<And>gone k m rest acc t. ks = gone @ k # rest \<Longrightarrow> sound t \<Longrightarrow> I gone acc (obj t) \<Longrightarrow>
      \<exists>acc' leave t'. f (k, m) acc t = (Inr (acc', leave), t') \<and> sound t' \<and>
        (if leave then Q acc' (obj t') else I (gone @ [k]) acc' (obj t'))"
  shows "\<exists>acc' t'. each_page fuel (r2_list h label p 1000) f a acc s = (Inr acc', t') \<and> sound t' \<and>
    (I ks acc' (obj t') \<or> Q acc' (obj t'))"
proof -
  have srt: "sorted_wrt (<) ks" using keys_after_sorted assms(4) by simp
  have mem: "\<forall>j \<in> set ks. prefixb p j \<and> a < j" using in_keys_after [OF finite_obj [OF assms(1)]] assms(4) by blast
  have "\<exists>acc' t'. each_page fuel (r2_list h label p 1000) f b acc t = (Inr acc', t') \<and> sound t' \<and> (I ks acc' (obj t') \<or> Q acc' (obj t'))"
    if "ks = gone @ rest" "sound t" "I gone acc (obj t)" "rest = keys_after (obj t) p b" "length rest < fuel" for gone rest b acc t fuel
    using that
  proof (induction fuel arbitrary: gone rest b acc t)
    case (Suc fuel)
    let ?nxt = "if length rest > 1000 then rest ! 999 else []"
    obtain os t1 where 1: "r2_list h label p 1000 b t = (Inr (os, ?nxt), t1)" "map fst os = take 1000 rest" "sound t1" "obj t1 = obj t"
      using list_run [OF Suc.prems(2) assms(2,3) _ Suc.prems(4), of 1000 label] by auto
    have "ks = gone @ take 1000 rest @ drop 1000 rest" using Suc.prems(1) by simp
    from for_objects_rule [where f = f and Q = Q, OF 1(2) this 1(3), of I acc] 1(4) Suc.prems(3) assms(8)
    obtain acc2 leave t2 where 2: "for_objects f os acc t1 = (Inr (acc2, leave), t2)" "sound t2"
      "if leave then Q acc2 (obj t2) else I (gone @ take 1000 rest) acc2 (obj t2)"
      by auto
    have run: "each_page (Suc fuel) (r2_list h label p 1000) f b acc t =
        (if leave \<or> ?nxt = [] then okk acc2 else each_page fuel (r2_list h label p 1000) f ?nxt acc2) t2"
      using 1(1) 2(1) by (simp add: bindk_def)
    show ?case
    proof (cases "leave \<or> length rest \<le> 1000")
      case True
      then show ?thesis using 2 Suc.prems(1) unfolding run by (cases leave) (auto simp: okk_def)
    next
      case False
      then have len: "1000 < length rest" and I2: "I (gone @ take 1000 rest) acc2 (obj t2)" using 2(3) by auto
      have in_ks: "rest ! 999 \<in> set ks" using Suc.prems(1) len by simp
      have ne: "rest ! 999 \<noteq> []" using mem in_ks by (metis not_less_Nil)
      have spl: "ks = (gone @ take 1000 rest) @ drop 1000 rest" using Suc.prems(1) by simp
      have ne0: "take 1000 rest \<noteq> []" using len by auto
      then have "last (take 1000 rest) = rest ! 999" using len by (simp add: last_conv_nth min_def)
      then have "last (gone @ take 1000 rest) = rest ! 999" using ne0 by simp
      moreover have "keys_after (obj t2) p (last (gone @ take 1000 rest)) = drop 1000 rest"
        by (rule left_keys_after [OF finite_obj [OF 2(2)] assms(7) [OF I2 spl]])
          (use srt mem spl len in \<open>auto simp: take_eq_Nil\<close>)
      ultimately have "drop 1000 rest = keys_after (obj t2) p (rest ! 999)" by simp
      from Suc.IH [OF spl 2(2) I2 this] Suc.prems(5) len show ?thesis using ne False unfolding run by simp
    qed
  qed simp
  from this [of "[]" ks s acc a fuel] assms(1,4-6) show ?thesis by simp
qed

end

end
