(* ===== verification/R2_Keys.thy ===== *)
theory R2_Keys
  imports R2_Laws
begin

section \<open>The order of the event keys\<close>

text \<open>
  The keys of a device's stream are read and cut at a padded number: for the sequence numbers of
  events the lexicographic order of the keys is the order of the numbers, so that listing from
  \<open>pad20 n\<close> on brings exactly the events from \<open>n\<close> on.
\<close>

subsection \<open>Padded numbers\<close>

lemma digits_val_Cons: "digits_val (c # s) = (nat_of c - 48) * 10 ^ length s + digits_val s"
proof -
  have "foldl (\<lambda>a d. a * 10 + (nat_of d - 48)) a s = a * 10 ^ length s + digits_val s" for a
  proof (induction s arbitrary: a)
    case (Cons d s)
    show ?case
      using Cons [of "a * 10 + (nat_of d - 48)"] Cons [of "nat_of d - 48"]
      by (simp add: digits_val_def algebra_simps)
  qed (simp add: digits_val_def)
  from this [of "nat_of c - 48"] show ?thesis by (simp add: digits_val_def)
qed

lemma digits_val_Nil [simp]: "digits_val [] = 0"
  by (simp add: digits_val_def)

lemma digits_val_less: "list_all is_digit s \<Longrightarrow> digits_val s < 10 ^ length s"
proof (induction s)
  case (Cons c s)
  then have "nat_of c - 48 \<le> 9" "digits_val s < 10 ^ length s" by (auto simp: is_digit_def)
  then have "(nat_of c - 48) * 10 ^ length s \<le> 9 * 10 ^ length s" by (intro mult_right_mono) simp_all
  then show ?case using \<open>digits_val s < 10 ^ length s\<close>
    unfolding digits_val_Cons length_Cons power_Suc by linarith
qed simp

lemma char_less_nat: "c < d \<longleftrightarrow> nat_of c < nat_of (d :: char)"
  by (simp add: less_char_def)

lemma digits_lex:
  assumes "length s = length t" "list_all is_digit s" "list_all is_digit t"
  shows "s < t \<longleftrightarrow> digits_val s < digits_val t"
  using assms
proof (induction s t rule: list_induct2)
  case (Cons c s d t)
  have b: "digits_val s < 10 ^ length s" "digits_val t < 10 ^ length s"
    using digits_val_less [of s] digits_val_less [of t] Cons.prems Cons.hyps by simp_all
  let ?c = "nat_of c - 48" and ?d = "nat_of d - 48" and ?p = "10 ^ length s :: nat"
  have v: "digits_val (c # s) = ?c * ?p + digits_val s" "digits_val (d # t) = ?d * ?p + digits_val t"
    using Cons.hyps by (simp_all add: digits_val_Cons)
  have le: "48 \<le> nat_of c" "48 \<le> nat_of d" using Cons.prems by (simp_all add: is_digit_def)
  have lt: "x * ?p + a < y * ?p + b'" if "x < y" "a < ?p" for x y a b' :: nat
  proof -
    have "x * ?p + a < Suc x * ?p" using that(2) by simp
    also have "\<dots> \<le> y * ?p" using that(1) by (intro mult_right_mono) simp_all
    finally show ?thesis by simp
  qed
  consider "nat_of c < nat_of d" | "nat_of d < nat_of c" | "c = d" by (metis linorder_neqE_nat of_char_eq_iff)
  then show ?case
  proof cases
    case 1
    then have "?c < ?d" using le by simp
    then show ?thesis using lt [OF _ b(1)] 1 unfolding v by (simp add: char_less_nat)
  next
    case 2
    then have "?d < ?c" using le by simp
    then have "digits_val (d # t) < digits_val (c # s)" using lt [OF _ b(2)] unfolding v by simp
    then show ?thesis using 2 by (auto simp: char_less_nat)
  next
    case 3
    then show ?thesis using Cons.IH Cons.prems unfolding v by simp
  qed
qed simp

lemma digits_val_zeros: "digits_val (replicate k CHR ''0'' @ s) = digits_val s"
  by (induction k) (simp_all add: digits_val_Cons)

lemma length_show_nat: "n < 10 ^ k \<Longrightarrow> 0 < k \<Longrightarrow> length (show_nat n) \<le> k"
proof -
  have "length (show_nat_aux f n) \<le> k" if "n < 10 ^ k" "0 < k" "n < f" for f
    using that
  proof (induction f arbitrary: n k)
    case (Suc f)
    show ?case
    proof (cases "n < 10")
      case False
      then obtain k' where k: "k = Suc k'" "0 < k'" using Suc.prems(1,2) by (cases k; cases "k - 1") auto
      have "n div 10 < 10 ^ k'" using Suc.prems(1) k by (simp add: less_mult_imp_div_less mult.commute)
      moreover have "n div 10 < f" using Suc.prems(3) False by linarith
      ultimately show ?thesis using Suc.IH [of "n div 10" k'] False k by simp
    qed (use Suc.prems in simp)
  qed simp
  then show "n < 10 ^ k \<Longrightarrow> 0 < k \<Longrightarrow> length (show_nat n) \<le> k" unfolding show_nat_def by blast
qed

lemma pad20_props:
  assumes "0 \<le> n" "n < 10 ^ 20"
  shows "length (pad20 n) = 20 \<and> list_all is_digit (pad20 n) \<and> digits_val (pad20 n) = nat n"
proof -
  have "nat n < 10 ^ 20" using assms by (simp add: nat_less_iff)
  then have "length (show_nat (nat n)) \<le> 20" by (intro length_show_nat) simp_all
  moreover have "is_digit CHR ''0''" by (simp add: is_digit_def)
  ultimately show ?thesis using assms show_nat_digits [of "nat n"]
    by (auto simp: pad20_def Let_def digits_val_zeros list_all_iff)
qed

text \<open>Padding makes the order of the keys the order of the numbers: from 0 up to twenty digits,
  which includes every int64, the padded numbers have the same length and compare as strings
  exactly as the numbers do.\<close>

theorem padded_order_is_numeric:
  assumes "0 \<le> m" and "m < 10 ^ 20" and "0 \<le> n" and "n < 10 ^ 20"
  shows "(pad20 m < pad20 n \<longleftrightarrow> m < n) \<and> length (pad20 m) = length (pad20 n)"
  using pad20_props [OF assms(1,2)] pad20_props [OF assms(3,4)] digits_lex [of "pad20 m" "pad20 n"] assms
  by auto

theorem padded_order_is_numeric_witness:
  "pad20 9 < pad20 10 \<and> \<not> show_int 9 < show_int 10"
proof
  show "pad20 9 < pad20 10" using padded_order_is_numeric [of 9 10] by simp
  show "\<not> show_int 9 < show_int 10" by code_simp
qed

subsection \<open>Keys of one stream\<close>

lemma append_less [simp]: "p @ s < p @ t \<longleftrightarrow> s < (t :: string)"
  by (induction p) simp_all

lemma append_le [simp]: "p @ s \<le> p @ t \<longleftrightarrow> s \<le> (t :: string)"
  by (simp add: less_eq_list_code(3) linorder_not_less [symmetric])

lemma less_longer: "length s = length t \<Longrightarrow> r \<noteq> [] \<Longrightarrow> s < t @ r \<longleftrightarrow> s \<le> (t :: string)"
proof (induction s t rule: list_induct2)
  case Nil
  then show ?case by (cases r) auto
next
  case (Cons c s d t)
  then show ?case by (auto simp: le_less)
qed

definition event_key_tail :: "event \<Rightarrow> string" where
  "event_key_tail e = ''_'' @ ev_id e @ ''.json''"

lemma eventKey_tail: "eventKey h e = devicePrefix h (ev_device e) @ pad20 (ev_seq e) @ event_key_tail e"
  by (simp add: eventKey_def event_key_tail_def)

lemma beyond_boundary:
  assumes "int64 n" "int64 (ev_seq e)" "0 < ev_seq e"
  shows "pad20 n < pad20 (ev_seq e) @ event_key_tail e \<longleftrightarrow> n \<le> ev_seq e"
proof (cases "n < 0")
  case True
  then obtain t where t: "pad20 n = CHR ''-'' # t" by (simp add: pad20_def Let_def)
  have "length (pad20 (ev_seq e)) = 20" "list_all is_digit (pad20 (ev_seq e))"
    using pad20_props [of "ev_seq e"] assms(2,3) by (simp_all add: int64_def)
  then obtain d u where d: "pad20 (ev_seq e) = d # u" "is_digit d" by (cases "pad20 (ev_seq e)") auto
  have "CHR ''-'' < d" using d(2) by (simp add: char_less_nat is_digit_def)
  then show ?thesis using t d True assms(3) by simp
next
  case False
  then have n: "0 \<le> n" "n < 10 ^ 20" "0 \<le> ev_seq e" "ev_seq e < 10 ^ 20" using assms by (simp_all add: int64_def)
  have "length (pad20 n) = length (pad20 (ev_seq e))" using padded_order_is_numeric [OF n] by blast
  then have "pad20 n < pad20 (ev_seq e) @ event_key_tail e \<longleftrightarrow> \<not> pad20 (ev_seq e) < pad20 n"
    using less_longer [of "pad20 n" "pad20 (ev_seq e)" "event_key_tail e"] by (auto simp: event_key_tail_def)
  then show ?thesis using padded_order_is_numeric [OF n(3,4,1,2)] by auto
qed

end
