(* ===== verification/R2_Streams.thy ===== *)
theory R2_Streams
  imports R2_Keys
begin

section \<open>Reading the event streams of an object store\<close>

text \<open>
  Which events a store holds, as a set, and that \<^verbatim>\<open>Pull\<close> returns exactly those beyond the cursor.
\<close>

subsection \<open>The events of a store\<close>

definition storable :: "event \<Rightarrow> bool" where
  "storable e \<longleftrightarrow> ascii_event e \<and> 0 < ev_seq e \<and> CHR ''/'' \<notin> set (ev_device e)"

definition event_of :: "(string \<rightharpoonup> string) \<Rightarrow> string \<Rightarrow> event" where
  "event_of m k = or_else (decode_event (or_else (m k) [])) event_zero"

definition good_stream :: "'s r2_hub \<Rightarrow> (string \<rightharpoonup> string) \<Rightarrow> bool" where
  "good_stream h m \<longleftrightarrow> (\<forall>k b. m k = Some b \<and> prefixb (eventlogPrefix h) k \<longrightarrow>
     (\<exists>e. decode_event b = Some e \<and> storable e \<and> k = eventKey h e))"

text \<open>The coordinates that the retired layout reads from a key.\<close>

definition legacy_coords :: "'s r2_hub \<Rightarrow> string \<Rightarrow> (string \<times> int) option" where
  "legacy_coords h key =
     (case split_on CHR ''/'' (trim_prefix key (legacyEventsPrefix h)) of
        [hlc, dev, sq, name] \<Rightarrow>
          (case parse_int64 sq of None \<Rightarrow> None | Some seq \<Rightarrow> if seq > 0 then Some (dev, seq) else None)
      | _ \<Rightarrow> None)"

definition good_legacy :: "'s r2_hub \<Rightarrow> (string \<rightharpoonup> string) \<Rightarrow> bool" where
  "good_legacy h m \<longleftrightarrow> (\<forall>k b. m k = Some b \<and> prefixb (legacyEventsPrefix h) k \<longrightarrow>
     (\<exists>e. decode_event b = Some e \<and> storable e \<and> (\<forall>c. legacy_coords h k = Some c \<longrightarrow> c = (ev_device e, ev_seq e))))"

definition event_keys :: "'s r2_hub \<Rightarrow> (string \<rightharpoonup> string) \<Rightarrow> string set" where
  "event_keys h m = {k \<in> dom m. prefixb (eventlogPrefix h) k \<or> prefixb (legacyEventsPrefix h) k}"

definition stored_events :: "'s r2_hub \<Rightarrow> (string \<rightharpoonup> string) \<Rightarrow> event set" where
  "stored_events h m = event_of m ` event_keys h m"

text \<open>One event per id, though it may be stored twice.\<close>

definition one_per_id :: "'s r2_hub \<Rightarrow> (string \<rightharpoonup> string) \<Rightarrow> bool" where
  "one_per_id h m \<longleftrightarrow> inj_on ev_id (stored_events h m)"

definition roomy :: "'s r2_hub \<Rightarrow> (string \<rightharpoonup> string) \<Rightarrow> bool" where
  "roomy h m \<longleftrightarrow> card (dom m) < r2_pages h"

text \<open>A cursor as the program makes it: a map from device ids to int64 numbers.\<close>

definition sane_cursor :: "transport_cursor \<Rightarrow> bool" where
  "sane_cursor after \<longleftrightarrow> distinct (map fst after) \<and> (\<forall>(d, n) \<in> set after. int64 n \<and> CHR ''/'' \<notin> set d)"

lemma sane_After: "sane_cursor after \<Longrightarrow> int64 (After after d)"
  by (cases "map_of after d") (auto simp: sane_cursor_def After_def int64_def dest: map_of_SomeD)

subsection \<open>Prefixes\<close>

lemma layouts_differ: "prefixb (eventlogPrefix h) k \<Longrightarrow> \<not> prefixb (legacyEventsPrefix h) k"
  by (auto simp: prefixb_iff eventlogPrefix_def legacyEventsPrefix_def)

lemma prefix_eventKey [simp]: "prefixb (eventlogPrefix h) (eventKey h e)" "prefixb (devicePrefix h (ev_device e)) (eventKey h e)"
  by (auto simp: eventKey_def devicePrefix_def prefixb_iff)

lemma sep_prefix_unique:
  assumes "x \<notin> set p" "x \<notin> set q" "p @ x # s = q @ x # t"
  shows "p = q \<and> s = t"
  using assms by (induction p arbitrary: q) (auto simp: Cons_eq_append_conv)

lemma device_of_key:
  assumes "CHR ''/'' \<notin> set d" "CHR ''/'' \<notin> set (ev_device e)" "prefixb (devicePrefix h d) (eventKey h e)"
  shows "d = ev_device e"
proof -
  obtain r where "eventKey h e = devicePrefix h d @ r" using assms(3) by (auto simp: prefixb_iff)
  then have "ev_device e @ CHR ''/'' # (pad20 (ev_seq e) @ ''_'' @ ev_id e @ ''.json'') = d @ CHR ''/'' # r"
    by (simp add: eventKey_def devicePrefix_def)
  from sep_prefix_unique [OF assms(2,1) this] show ?thesis by simp
qed

lemma index_of_slash: "CHR ''/'' \<notin> set d \<Longrightarrow> index_of ''/'' (d @ CHR ''/'' # r) = Some (length d)"
  by (induction d) (auto simp: prefixb_def)

lemma common_prefix_eventKey:
  "CHR ''/'' \<notin> set (ev_device e) \<Longrightarrow> common_prefix (eventlogPrefix h) ''/'' (eventKey h e) = Some (devicePrefix h (ev_device e))"
  by (simp add: common_prefix_def eventKey_def devicePrefix_def trim_prefix_def Let_def index_of_slash)

lemma device_trimmed: "trim_suffix (trim_prefix (devicePrefix h d) (eventlogPrefix h)) ''/'' = d"
  by (simp add: devicePrefix_def trim_prefix_def trim_suffix_def has_suffix_def)

lemma legacy_wanted_coords:
  "legacy_wanted h after k \<longleftrightarrow> (\<forall>d n. legacy_coords h k = Some (d, n) \<longrightarrow> After after d < n)"
  by (auto simp: legacy_wanted_def legacy_coords_def split: list.splits option.splits)

lemma legacy_below_coords:
  "legacy_below h floors k \<longleftrightarrow> (\<exists>d n. legacy_coords h k = Some (d, n) \<and> 0 < After floors d \<and> n < After floors d)"
  by (auto simp: legacy_below_def legacy_coords_def split: list.splits option.splits)

lemma parseLegacy_coords:
  "parseLegacyEventKey (legacyEventsPrefix h) k = (case legacy_coords h k of
     None \<Rightarrow> None | Some (d, n) \<Rightarrow> if d = [] then None else Some (d, n))"
  by (auto simp: parseLegacyEventKey_def legacy_coords_def split: list.splits option.splits)

subsection \<open>First of each id\<close>

lemma first_of_id_set: "set (first_of_id seen es) \<subseteq> set es"
  by (induction seen es rule: first_of_id.induct) auto

lemma first_of_id_ids: "ev_id ` set (first_of_id seen es) = ev_id ` set es - set seen"
proof (induction seen es rule: first_of_id.induct)
  case (2 seen e es)
  then show ?case by (cases "ev_id e \<in> set seen") (simp_all add: insert_Diff_if, blast)
qed simp

lemma first_of_id_uniq: "uniq ev_id (first_of_id seen es)"
proof (induction seen es rule: first_of_id.induct)
  case (2 seen e es)
  then show ?case using first_of_id_ids [of "ev_id e # seen" es] by (simp add: uniq_def)
qed (simp add: uniq_def)

lemma first_of_id_inj:
  assumes "inj_on ev_id (set es)"
  shows "set (first_of_id [] es) = set es \<and> uniq ev_id (first_of_id [] es)"
proof -
  have s: "set (first_of_id [] es) \<subseteq> set es" by (rule first_of_id_set)
  have i: "ev_id ` set (first_of_id [] es) = ev_id ` set es" "uniq ev_id (first_of_id [] es)"
    using first_of_id_ids [of "[]" es] first_of_id_uniq by simp_all
  have "e \<in> set (first_of_id [] es)" if "e \<in> set es" for e
  proof -
    have "ev_id e \<in> ev_id ` set (first_of_id [] es)" using i(1) that by simp
    then obtain f where "f \<in> set (first_of_id [] es)" "ev_id f = ev_id e" by auto
    then show ?thesis using assms s that by (metis inj_onD subsetD)
  qed
  then show ?thesis using s i(2) by auto
qed

subsection \<open>Runs\<close>

lemma finite_keys_length:
  assumes "finite (dom m)"
  shows "length (keys_after m p a) \<le> card (dom m)"
proof -
  have "distinct (keys_after m p a)" using keys_after_sorted by (simp add: keys_after_def)
  then have "length (keys_after m p a) = card (set (keys_after m p a))" by (simp add: distinct_card)
  also have "\<dots> \<le> card (dom m)" using assms in_keys_after by (intro card_mono) blast+
  finally show ?thesis .
qed

context object_store begin

lemma mapk_run:
  assumes "\<And>x t. x \<in> set xs \<Longrightarrow> sound t \<Longrightarrow> obj t = m \<Longrightarrow> \<exists>t'. f x t = (Inr (g x), t') \<and> sound t' \<and> obj t' = m"
    and "sound s" "obj s = m"
  shows "\<exists>s'. mapk f xs s = (Inr (map g xs), s') \<and> sound s' \<and> obj s' = m"
  using assms
proof (induction xs arbitrary: s)
  case (Cons x xs)
  obtain t where t: "f x s = (Inr (g x), t)" "sound t" "obj t = m" using Cons.prems(1) [of x s] Cons.prems(2,3) by auto
  obtain s' where "mapk f xs t = (Inr (map g xs), s')" "sound s'" "obj s' = m"
    using Cons.IH [OF _ t(2,3)] Cons.prems(1) by auto
  then show ?case using t(1) by (simp add: bindk_def okk_def)
qed (simp add: okk_def)

lemma get_run:
  assumes "sound s" "calm h" "r2_S3 h = c" "obj s k = Some b"
  shows "\<exists>s'. r2_try h (s3_GetObject (r2_S3 h) k) s = (Inr b, s') \<and> sound s' \<and> obj s' = obj s"
proof -
  have "key_ok k" using key_ok_listed [OF assms(1)] assms(4) by blast
  then obtain s' where g: "s3_GetObject c k s = (Inr b, s')" "sound s'" "obj s' = obj s"
    using get_ok [OF assms(1) _ assms(4)] by blast
  from try_ok [where f = "s3_GetObject c k" and s = s, OF assms(2) g(1)] g(2,3) show ?thesis by (simp add: assms(3))
qed

lemma fetch_run:
  assumes "sound s" "calm h" "r2_S3 h = c" "obj s k = Some b" "decode_event b = Some e"
  shows "\<exists>s'. fetch_event w h k s = (Inr (event_of (obj s) k), s') \<and> sound s' \<and> obj s' = obj s"
  using get_run [OF assms(1-4)] assms(4,5)
  by (auto simp: fetch_event_def bindk_def labelk_def relabel_def askk_def event_of_def)

text \<open>A loop over pages that only reads.\<close>

lemma read_pages:
  assumes "sound s" "calm h" "r2_S3 h = c" "roomy h (obj s)" "ks = keys_after (obj s) p a" "J [] acc"
    and "\<And>gone k rest n acc t. ks = gone @ k # rest \<Longrightarrow> sound t \<Longrightarrow> obj t = obj s \<Longrightarrow> J gone acc \<Longrightarrow>
      \<exists>acc' t'. f (k, n) acc t = (Inr (acc', False), t') \<and> sound t' \<and> obj t' = obj s \<and> J (gone @ [k]) acc'"
  shows "\<exists>acc' t'. paged h label p a f acc s = (Inr acc', t') \<and> sound t' \<and> obj t' = obj s \<and> J ks acc'"
proof -
  let ?I = "\<lambda>gone acc m. J gone acc \<and> m = obj s"
  have fin: "finite (dom (obj s))" by (rule finite_obj) fact
  have len: "length ks < r2_pages h" using finite_keys_length [OF fin, of p a] assms(4,5) by (simp add: roomy_def)
  have "\<exists>acc' t'. each_page (r2_pages h) (r2_list h label p 1000) f a acc s = (Inr acc', t') \<and> sound t' \<and>
      (?I ks acc' (obj t') \<or> False)"
  proof (rule each_page_rule [where I = ?I and Q = "\<lambda>acc m. False", OF assms(1-3,5) len])
    show "?I [] acc (obj s)" using assms(6) by simp
  next
    fix gone rest acc m assume "?I gone acc m" "ks = gone @ rest"
    then show "left_to_list p a gone rest m"
      using in_keys_after [OF fin, of _ p a] assms(5) by (auto simp: left_to_list_def)
  next
    fix gone k m rest acc t assume "ks = gone @ k # rest" "sound t" "?I gone acc (obj t)"
    then obtain acc' t' where "f (k, m) acc t = (Inr (acc', False), t')" "sound t'" "?I (gone @ [k]) acc' (obj t')"
      using assms(7) [of gone k rest t acc m] by auto
    then show "\<exists>acc' leave t'. f (k, m) acc t = (Inr (acc', leave), t') \<and> sound t' \<and>
        (if leave then False else ?I (gone @ [k]) acc' (obj t'))"
      by (intro exI [of _ acc'] exI [of _ False] exI [of _ t']) simp
  qed
  then show ?thesis unfolding paged_def by auto
qed

lemma collect_run:
  assumes "sound s" "calm h" "r2_S3 h = c" "roomy h (obj s)"
  shows "\<exists>os s'. paged h label p a collect [] s = (Inr os, s') \<and> map fst os = keys_after (obj s) p a \<and> sound s' \<and> obj s' = obj s"
proof -
  have "\<exists>os s'. paged h label p a collect [] s = (Inr os, s') \<and> sound s' \<and> obj s' = obj s \<and> map fst os = keys_after (obj s) p a"
    by (rule read_pages [where J = "\<lambda>gone acc. map fst acc = gone", OF assms refl]) (simp_all add: collect_def okk_def)
  then show ?thesis by blast
qed

lemma device_keys_run:
  assumes "sound s" "calm h" "r2_S3 h = c" "roomy h (obj s)"
  shows "\<exists>s'. device_keys h after (devicePrefix h d) s =
      (Inr (keys_after (obj s) (devicePrefix h d) (devicePrefix h d @ pad20 (wrap64 (After after d + 1)))), s') \<and>
    sound s' \<and> obj s' = obj s"
proof -
  from collect_run [OF assms, of "''list events for device '' @ d @ '': ''" "devicePrefix h d"
      "devicePrefix h d @ pad20 (wrap64 (After after d + 1))"]
  show ?thesis by (auto simp: device_keys_def device_trimmed bindk_def okk_def)
qed

lemma legacy_keys_run:
  assumes "sound s" "calm h" "r2_S3 h = c" "roomy h (obj s)"
  shows "\<exists>s'. legacyEventKeys h after s =
      (Inr (filter (legacy_wanted h after) (keys_after (obj s) (legacyEventsPrefix h) [])), s') \<and> sound s' \<and> obj s' = obj s"
proof -
  have "\<exists>os s'. paged h ''list legacy events: '' (legacyEventsPrefix h) []
      (\<lambda>o1 acc. okk (if legacy_wanted h after (fst o1) then acc @ [fst o1] else acc, False)) [] s = (Inr os, s') \<and>
      sound s' \<and> obj s' = obj s \<and> os = filter (legacy_wanted h after) (keys_after (obj s) (legacyEventsPrefix h) [])"
    by (rule read_pages [where J = "\<lambda>gone acc. acc = filter (legacy_wanted h after) gone", OF assms refl])
      (simp_all add: okk_def)
  then show ?thesis unfolding legacyEventKeys_def by (auto simp: bindk_def okk_def)
qed

lemma prefixes_run:
  assumes "sound s" "calm h" "r2_S3 h = c"
  shows "\<exists>ps s'. labelk l (r2_try h (s3_ListCommonPrefixes (r2_S3 h) p d)) s = (Inr ps, s') \<and> sound s' \<and> obj s' = obj s \<and>
      set ps = {q. \<exists>k \<in> dom (obj s). common_prefix p d k = Some q} \<and> distinct ps"
proof -
  obtain ps s' where g: "s3_ListCommonPrefixes c p d s = (Inr ps, s')" "sound s'" "obj s' = obj s"
    "set ps = {q. \<exists>k \<in> dom (obj s). common_prefix p d k = Some q}" "distinct ps"
    using prefixes_ok [OF assms(1)] by blast
  from try_ok [where f = "s3_ListCommonPrefixes c p d" and s = s, OF assms(2) g(1)] g(2-) show ?thesis by (simp add: assms(3) labelk_def relabel_def)
qed

end

subsection \<open>Floors\<close>

text \<open>The floors that the manifest in a store and the hub's own ones give.\<close>

definition floors_in :: "world \<Rightarrow> 's r2_hub \<Rightarrow> (string \<rightharpoonup> string) \<Rightarrow> (string \<times> int) list res" where
  "floors_in w h m = (case m (retentionKey h) of
     None \<Rightarrow> Inr (override_floors [] (r2_RetentionSeqs h))
   | Some raw \<Rightarrow> bindr (relabel ''read retention manifest: '' (ParseRetentionFloors w raw))
       (\<lambda>parsed. Inr (override_floors parsed (r2_RetentionSeqs h))))"

context object_store begin

lemma get_retention_run:
  assumes "sound s" "calm h" "r2_S3 h = c" "key_ok (retentionKey h)"
  shows "\<exists>s'. sound s' \<and> obj s' = obj s \<and> r2_GetRetention h s =
    (case obj s (retentionKey h) of
       None \<Rightarrow> (Inl (Err [KRetentionNotFound] ''no retention manifest on hub''), s')
     | Some raw \<Rightarrow> (Inr (raw, tag s (retentionKey h)), s'))"
proof (cases "obj s (retentionKey h)")
  case None
  then obtain e s' where g: "s3_GetObjectWithETag c (retentionKey h) s = (Inl e, s')" "refused_by KBlobNotFound e"
    "sound s'" "obj s' = obj s"
    using tag_none [OF assms(1,4)] by blast
  from try_refused [where f = "s3_GetObjectWithETag c (retentionKey h)" and s = s, OF assms(2) g(1,2)] None g(3,4)
  show ?thesis using refused_kind [OF g(2)]
    by (intro exI [of _ s']) (simp add: r2_GetRetention_def catchk_def assms(3) errk_def)
next
  case (Some raw)
  then obtain s' where g: "s3_GetObjectWithETag c (retentionKey h) s = (Inr (raw, tag s (retentionKey h)), s')"
    "sound s'" "obj s' = obj s"
    using tag_get [OF assms(1,4)] by blast
  from try_ok [where f = "s3_GetObjectWithETag c (retentionKey h)" and s = s, OF assms(2) g(1)] Some g(2,3)
  show ?thesis by (intro exI [of _ s']) (simp add: r2_GetRetention_def catchk_def assms(3))
qed

lemma floors_run:
  assumes "sound s" "calm h" "r2_S3 h = c" "key_ok (retentionKey h)"
  shows "\<exists>s'. r2_retentionFloors w h s = (floors_in w h (obj s), s') \<and> sound s' \<and> obj s' = obj s"
proof -
  obtain s' where "sound s'" "obj s' = obj s" "r2_GetRetention h s =
    (case obj s (retentionKey h) of
       None \<Rightarrow> (Inl (Err [KRetentionNotFound] ''no retention manifest on hub''), s')
     | Some raw \<Rightarrow> (Inr (raw, tag s (retentionKey h)), s'))"
    using get_retention_run [OF assms] by blast
  then show ?thesis by (cases "obj s (retentionKey h)") (simp_all add: r2_retentionFloors_def floors_in_def)
qed

end

subsection \<open>Pull\<close>

lemma event_of_key:
  assumes "good_stream h m" "k \<in> dom m" "prefixb (eventlogPrefix h) k"
  shows "\<exists>b. m k = Some b \<and> decode_event b = Some (event_of m k) \<and> storable (event_of m k) \<and> k = eventKey h (event_of m k)"
  using assms unfolding good_stream_def event_of_def by force

lemma legacy_event_of_key:
  assumes "good_legacy h m" "k \<in> dom m" "prefixb (legacyEventsPrefix h) k"
  shows "\<exists>b. m k = Some b \<and> decode_event b = Some (event_of m k) \<and> storable (event_of m k) \<and>
    (\<forall>c. legacy_coords h k = Some c \<longrightarrow> c = (ev_device (event_of m k), ev_seq (event_of m k)))"
  using assms unfolding good_legacy_def event_of_def by force

text \<open>The keys that a pull fetches: some hold events below the cursor, none beyond it is missing.\<close>

lemma fetched_events:
  assumes "finite (dom m)" "good_stream h m" "good_legacy h m" "sane_cursor after"
    and "set ps = {q. \<exists>k \<in> dom m. common_prefix (eventlogPrefix h) ''/'' k = Some q}"
    and "ks = concat (map (\<lambda>dp. keys_after m dp (dp @ pad20 (wrap64 (After after (trim_suffix (trim_prefix dp (eventlogPrefix h)) ''/'') + 1)))) ps)
       @ filter (legacy_wanted h after) (keys_after m (legacyEventsPrefix h) [])"
  shows "set ks \<subseteq> event_keys h m \<and> set (filter (above after) (map (event_of m) ks)) = {e \<in> stored_events h m. above after e}"
proof -
  note mem = in_keys_after [OF assms(1)]
  have ps: "\<exists>e. storable e \<and> dp = devicePrefix h (ev_device e) \<and> (\<exists>k \<in> dom m. k = eventKey h e)" if q: "dp \<in> set ps" for dp
  proof -
    obtain k where k: "k \<in> dom m" "common_prefix (eventlogPrefix h) ''/'' k = Some dp" using q assms(5) by auto
    then have "prefixb (eventlogPrefix h) k" by (auto simp: common_prefix_def split: if_splits)
    from event_of_key [OF assms(2) k(1) this] k show ?thesis
      using common_prefix_eventKey [of "event_of m k" h] by (auto simp: storable_def)
  qed
  have sub: "set ks \<subseteq> event_keys h m"
  proof
    fix k assume "k \<in> set ks"
    then consider dp where "dp \<in> set ps" "k \<in> dom m" "prefixb dp k" | "k \<in> dom m" "prefixb (legacyEventsPrefix h) k"
      unfolding assms(6) by (auto simp: mem)
    then show "k \<in> event_keys h m"
    proof cases
      case 1
      then have "prefixb (eventlogPrefix h) k" using ps [OF 1(1)] by (auto simp: prefixb_iff devicePrefix_def)
      then show ?thesis using 1 by (simp add: event_keys_def)
    qed (simp add: event_keys_def)
  qed
  have all: "k \<in> set ks" if k: "k \<in> event_keys h m" "above after (event_of m k)" for k
  proof (cases "prefixb (eventlogPrefix h) k")
    case True
    let ?e = "event_of m k"
    have e: "storable ?e" "k = eventKey h ?e" using event_of_key [OF assms(2) _ True] k(1) by (auto simp: event_keys_def)
    let ?dp = "devicePrefix h (ev_device ?e)" and ?a = "After after (ev_device ?e)"
    have "?dp \<in> set ps" using assms(5) k(1) e common_prefix_eventKey [of ?e h]
      by (auto simp: event_keys_def storable_def intro!: bexI [of _ k])
    moreover have "int64 (wrap64 (?a + 1))" by simp
    then have "?dp @ pad20 (wrap64 (?a + 1)) < eventKey h ?e \<longleftrightarrow> wrap64 (?a + 1) \<le> ev_seq ?e"
      unfolding eventKey_tail using beyond_boundary [of "wrap64 (?a + 1)" ?e] e(1)
      by (simp add: storable_def ascii_event_def)
    moreover have "wrap64 (?a + 1) \<le> ev_seq ?e"
    proof -
      have a: "?a < ev_seq ?e" "int64 (ev_seq ?e)" "int64 ?a"
        using k(2) e(1) sane_After [OF assms(4)] by (auto simp: above_def storable_def ascii_event_def)
      then have "int64 (?a + 1)" by (auto simp: int64_def)
      then show ?thesis using a(1) by simp
    qed
    ultimately have "?dp \<in> set ps" "?dp @ pad20 (wrap64 (?a + 1)) < k" using e(2) by simp_all
    moreover have "prefixb ?dp k" by (subst e(2)) (rule prefix_eventKey(2))
    moreover have "k \<in> dom m" using k(1) by (simp add: event_keys_def)
    ultimately have "k \<in> set (keys_after m ?dp (?dp @ pad20 (wrap64 (?a + 1))))" "?dp \<in> set ps" by (simp_all add: mem)
    then show ?thesis unfolding assms(6) by (simp only: set_append set_concat set_map) (force simp: device_trimmed)
  next
    case False
    then have l: "k \<in> dom m" "prefixb (legacyEventsPrefix h) k" using k(1) by (auto simp: event_keys_def)
    have "k \<noteq> []" using l(2) by (auto simp: prefixb_def legacyEventsPrefix_def r2_workspace_def)
    moreover have "legacy_wanted h after k"
      using legacy_event_of_key [OF assms(3) l] k(2) by (auto simp: legacy_wanted_coords above_def storable_def)
    ultimately show ?thesis using l unfolding assms(6) by (cases k) (auto simp: mem)
  qed
  show ?thesis using sub all by (auto simp: stored_events_def)
qed

context object_store begin

lemma pull_run:
  assumes "sound s" "calm h" "r2_S3 h = c" "key_ok (retentionKey h)" "roomy h (obj s)"
    and "floors_in w h (obj s) = Inr floors" "\<not> snapshot_required floors after" "sane_cursor after"
    and "good_stream h (obj s)" "good_legacy h (obj s)" "one_per_id h (obj s)"
  shows "\<exists>es s'. r2_Pull w h after s = (Inr es, s') \<and> sound s' \<and> obj s' = obj s \<and>
    set es = {e \<in> stored_events h (obj s). above after e} \<and> uniq ev_id es \<and> sortEvents es = es"
proof -
  let ?m = "obj s"
  have fin: "finite (dom ?m)" by (rule finite_obj) fact
  obtain s1 where 1: "r2_retentionFloors w h s = (Inr floors, s1)" "sound s1" "obj s1 = ?m"
    using floors_run [OF assms(1-4), of w] assms(6) by auto
  obtain ps s2 where 2: "labelk ''list device streams: '' (r2_try h (s3_ListCommonPrefixes (r2_S3 h) (eventlogPrefix h) ''/'')) s1 = (Inr ps, s2)"
    "sound s2" "obj s2 = ?m" "set ps = {q. \<exists>k \<in> dom ?m. common_prefix (eventlogPrefix h) ''/'' k = Some q}"
    using prefixes_run [OF 1(2) assms(2,3), where l = "''list device streams: ''" and p = "eventlogPrefix h" and d = "''/''"] 1(3) by auto
  let ?g = "\<lambda>dp. keys_after ?m dp (dp @ pad20 (wrap64 (After after (trim_suffix (trim_prefix dp (eventlogPrefix h)) ''/'') + 1)))"
  have dp: "\<exists>d. dp = devicePrefix h d" if q: "dp \<in> set ps" for dp
  proof -
    obtain k where k: "k \<in> dom ?m" "common_prefix (eventlogPrefix h) ''/'' k = Some dp" using q 2(4) by auto
    then have "prefixb (eventlogPrefix h) k" by (auto simp: common_prefix_def split: if_splits)
    from event_of_key [OF assms(9) k(1) this] k show ?thesis
      using common_prefix_eventKey [of "event_of ?m k" h] by (auto simp: storable_def)
  qed
  have "\<exists>s'. mapk (device_keys h after) ps s2 = (Inr (map ?g ps), s') \<and> sound s' \<and> obj s' = ?m"
  proof (rule mapk_run [OF _ 2(2,3)])
    fix q t assume q: "q \<in> set ps" "sound t" "obj t = ?m"
    obtain d where d: "q = devicePrefix h d" using dp [OF q(1)] by blast
    show "\<exists>t'. device_keys h after q t = (Inr (?g q), t') \<and> sound t' \<and> obj t' = ?m"
      using device_keys_run [OF q(2) assms(2,3), of after d] assms(5) q(3) unfolding d device_trimmed by simp
  qed
  then obtain s3 where 3: "mapk (device_keys h after) ps s2 = (Inr (map ?g ps), s3)" "sound s3" "obj s3 = ?m" by blast
  obtain s4 where 4: "legacyEventKeys h after s3 = (Inr (filter (legacy_wanted h after) (keys_after ?m (legacyEventsPrefix h) [])), s4)"
    "sound s4" "obj s4 = ?m"
    using legacy_keys_run [OF 3(2) assms(2,3), of after] assms(5) 3(3) by auto
  define ks where "ks = concat (map ?g ps) @ filter (legacy_wanted h after) (keys_after ?m (legacyEventsPrefix h) [])"
  note F = fetched_events [OF fin assms(9,10,8) 2(4) ks_def]
  have "\<exists>s'. mapk (fetch_event w h) ks s4 = (Inr (map (event_of ?m) ks), s') \<and> sound s' \<and> obj s' = ?m"
  proof (rule mapk_run [OF _ 4(2,3)])
    fix k t assume k: "k \<in> set ks" "sound t" "obj t = ?m"
    have "\<exists>b. ?m k = Some b \<and> decode_event b = Some (event_of ?m k)"
      using F k(1) event_of_key [OF assms(9), of k] legacy_event_of_key [OF assms(10), of k] by (auto simp: event_keys_def)
    then show "\<exists>t'. fetch_event w h k t = (Inr (event_of ?m k), t') \<and> sound t' \<and> obj t' = ?m"
      using fetch_run [OF k(2) assms(2,3)] k(3) by auto
  qed
  then obtain s5 where 5: "mapk (fetch_event w h) ks s4 = (Inr (map (event_of ?m) ks), s5)" "sound s5" "obj s5 = ?m" by blast
  let ?es = "first_of_id [] (filter (above after) (map (event_of ?m) ks))"
  have "r2_Pull w h after s = (Inr (sortEvents ?es), s5)"
    using 1(1) 2(1) 3(1) 4(1) 5(1) assms(7) by (simp add: r2_Pull_def bindk_def okk_def ks_def)
  moreover have "inj_on ev_id (set (filter (above after) (map (event_of ?m) ks)))"
    using assms(11) F unfolding one_per_id_def by (auto intro: inj_on_subset)
  then have "set ?es = {e \<in> stored_events h ?m. above after e}" "uniq ev_id ?es"
    using first_of_id_inj F by auto
  ultimately show ?thesis using 5(2,3) by auto
qed

end

end
