(* ===== verification/R2_Writes.thy ===== *)
theory R2_Writes
  imports R2_Streams
begin

section \<open>Writing and moving events in an object store\<close>

subsection \<open>Keys name events\<close>

lemma pad20_inj:
  assumes "0 \<le> m" "m < 10 ^ 20" "0 \<le> n" "n < 10 ^ 20" "pad20 m = pad20 n"
  shows "m = n"
  using pad20_props [OF assms(1,2)] pad20_props [OF assms(3,4)] assms by simp

lemma storable_seq: "storable e \<Longrightarrow> 0 \<le> ev_seq e \<and> ev_seq e < 10 ^ 20 \<and> int64 (ev_seq e) \<and> 0 < ev_seq e"
  by (simp add: storable_def ascii_event_def int64_def)

lemma eventKey_inj:
  assumes "storable e" "storable f" "eventKey h e = eventKey h f"
  shows "ev_device e = ev_device f \<and> ev_seq e = ev_seq f \<and> ev_id e = ev_id f"
proof -
  have sl: "CHR ''/'' \<notin> set (ev_device e)" "CHR ''/'' \<notin> set (ev_device f)" using assms(1,2) by (simp_all add: storable_def)
  have "ev_device e @ CHR ''/'' # (pad20 (ev_seq e) @ event_key_tail e) = ev_device f @ CHR ''/'' # (pad20 (ev_seq f) @ event_key_tail f)"
    using assms(3) by (simp add: eventKey_tail devicePrefix_def)
  from sep_prefix_unique [OF sl this] have d: "ev_device e = ev_device f"
    and r: "pad20 (ev_seq e) @ event_key_tail e = pad20 (ev_seq f) @ event_key_tail f" by auto
  have "length (pad20 (ev_seq e)) = length (pad20 (ev_seq f))"
    using padded_order_is_numeric [of "ev_seq e" "ev_seq f"] storable_seq assms(1,2) by blast
  then have "pad20 (ev_seq e) = pad20 (ev_seq f)" "event_key_tail e = event_key_tail f" using r by simp_all
  then show ?thesis using d pad20_inj [of "ev_seq e" "ev_seq f"] storable_seq assms(1,2) by (auto simp: event_key_tail_def)
qed

lemma decode_storable: "storable e \<Longrightarrow> decode_event (marshal_event e) = Some e"
  by (simp add: storable_def event_json_roundtrip_aux)

subsection \<open>What a push does to the objects\<close>

definition put_event :: "'s r2_hub \<Rightarrow> (string \<rightharpoonup> string) \<Rightarrow> event \<Rightarrow> (string \<rightharpoonup> string)" where
  "put_event h m e = (if m (eventKey h e) = None then m(eventKey h e \<mapsto> marshal_event e) else m)"

text \<open>An id stands for one place in one stream.\<close>

definition same_places :: "'s r2_hub \<Rightarrow> event set \<Rightarrow> event list \<Rightarrow> bool" where
  "same_places h S events \<longleftrightarrow>
     (\<forall>e \<in> set events. \<forall>x \<in> S \<union> set events. ev_id x = ev_id e \<longrightarrow> eventKey h x = eventKey h e)"

lemma same_places_rest:
  assumes "same_places h S (e # es)" "S' \<subseteq> insert e S"
  shows "same_places h S' es"
proof -
  have "x \<in> S \<union> set (e # es)" if "x \<in> S' \<union> set es" for x using that assms(2) by auto
  then show ?thesis using assms(1) unfolding same_places_def by (meson list.set_intros(2))
qed

definition no_legacy :: "'s r2_hub \<Rightarrow> (string \<rightharpoonup> string) \<Rightarrow> bool" where
  "no_legacy h m \<longleftrightarrow> (\<forall>k \<in> dom m. \<not> prefixb (legacyEventsPrefix h) k)"

lemma no_legacy_good: "no_legacy h m \<Longrightarrow> good_legacy h m"
  by (auto simp: no_legacy_def good_legacy_def)

lemma stream_keys: "no_legacy h m \<Longrightarrow> event_keys h m = {k \<in> dom m. prefixb (eventlogPrefix h) k}"
  by (auto simp: event_keys_def no_legacy_def)

lemma not_legacy_eventKey [simp]: "\<not> prefixb (legacyEventsPrefix h) (eventKey h e)"
  using layouts_differ [of h "eventKey h e"] by auto

lemma put_event_step:
  assumes "good_stream h m" "no_legacy h m" "storable e" "same_places h (stored_events h m) [e]"
  shows "good_stream h (put_event h m e) \<and> no_legacy h (put_event h m e) \<and>
    stored_events h (put_event h m e) = (if ev_id e \<in> ev_id ` stored_events h m then stored_events h m else insert e (stored_events h m)) \<and>
    (put_event h m e) (retentionKey h) = m (retentionKey h)"
proof -
  let ?k = "eventKey h e"
  have ret: "?k \<noteq> retentionKey h"
    by (auto simp: eventKey_def devicePrefix_def eventlogPrefix_def retentionKey_def)
  have stored: "\<exists>k \<in> dom m. prefixb (eventlogPrefix h) k \<and> event_of m k = x" if "x \<in> stored_events h m" for x
    using that by (auto simp: stored_events_def stream_keys [OF assms(2)])
  have taken: "m ?k \<noteq> None \<longleftrightarrow> ev_id e \<in> ev_id ` stored_events h m"
  proof
    assume t: "m ?k \<noteq> None"
    then have "storable (event_of m ?k)" "?k = eventKey h (event_of m ?k)"
      using event_of_key [OF assms(1), of ?k] by auto
    then have "ev_id (event_of m ?k) = ev_id e" using eventKey_inj [OF assms(3)] by metis
    moreover have "event_of m ?k \<in> stored_events h m" using t by (auto simp: stored_events_def event_keys_def)
    ultimately show "ev_id e \<in> ev_id ` stored_events h m" by (metis image_eqI)
  next
    assume "ev_id e \<in> ev_id ` stored_events h m"
    then obtain x where x: "x \<in> stored_events h m" "ev_id x = ev_id e" by auto
    then have "eventKey h x = ?k" using assms(4) by (auto simp: same_places_def)
    moreover obtain k where "k \<in> dom m" "prefixb (eventlogPrefix h) k" "event_of m k = x" using stored [OF x(1)] by auto
    then have "k = eventKey h x \<and> k \<in> dom m" using event_of_key [OF assms(1), of k] by auto
    ultimately show "m ?k \<noteq> None" by auto
  qed
  show ?thesis
  proof (cases "m ?k = None")
    case True
    let ?m = "m(?k \<mapsto> marshal_event e)"
    have p: "put_event h m e = ?m" using True by (simp add: put_event_def)
    have g: "good_stream h ?m" using assms(1) decode_storable [OF assms(3)] assms(3) by (auto simp: good_stream_def)
    have n: "no_legacy h ?m" using assms(2) by (auto simp: no_legacy_def)
    have "event_of ?m j = (if j = ?k then e else event_of m j)" for j
      using decode_storable [OF assms(3)] by (simp add: event_of_def)
    moreover have "event_keys h ?m = insert ?k (event_keys h m)" by (auto simp: event_keys_def)
    moreover have "?k \<notin> event_keys h m" using True by (simp add: event_keys_def domIff)
    ultimately have "stored_events h ?m = insert e (stored_events h m)"
      unfolding stored_events_def by (auto simp: image_iff)
    then show ?thesis using p g n taken True ret by simp
  next
    case False
    then have "put_event h m e = m" unfolding put_event_def by (rule if_not_P)
    then show ?thesis using taken False assms by simp
  qed
qed

lemma first_wins_step:
  "first_wins log (e # es) = first_wins (if ev_id e \<in> ev_id ` set log then log else log @ [e]) es"
  by (force simp: first_wins_def dest: tget_SomeD)

lemma put_events:
  assumes "good_stream h m" "no_legacy h m" "\<And>e. e \<in> set events \<Longrightarrow> storable e"
    and "same_places h (stored_events h m) events" "set log = stored_events h m" "one_per_id h m"
  shows "good_stream h (foldl (put_event h) m events) \<and> no_legacy h (foldl (put_event h) m events) \<and>
    stored_events h (foldl (put_event h) m events) = first_wins log events \<and> one_per_id h (foldl (put_event h) m events) \<and>
    foldl (put_event h) m events (retentionKey h) = m (retentionKey h)"
  using assms
proof (induction events arbitrary: m log)
  case Nil
  then show ?case by (simp add: first_wins_def)
next
  case (Cons e es)
  have p: "same_places h (stored_events h m) [e]" using Cons.prems(4) by (simp add: same_places_def)
  have st: "storable e" using Cons.prems(3) by simp
  let ?m = "put_event h m e" and ?log = "if ev_id e \<in> ev_id ` set log then log else log @ [e]"
  from put_event_step [OF Cons.prems(1,2) st p] have g: "good_stream h ?m" "no_legacy h ?m"
    and se: "stored_events h ?m = (if ev_id e \<in> ev_id ` stored_events h m then stored_events h m else insert e (stored_events h m))"
    and r: "?m (retentionKey h) = m (retentionKey h)" by blast+
  have 1: "set ?log = stored_events h ?m" unfolding se using Cons.prems(5) by simp
  have "stored_events h ?m \<subseteq> insert e (stored_events h m)" unfolding se by (cases "ev_id e \<in> ev_id ` stored_events h m") auto
  then have 2: "same_places h (stored_events h ?m) es" by (rule same_places_rest [OF Cons.prems(4)])
  have 3: "one_per_id h ?m" using Cons.prems(6) unfolding one_per_id_def se by (auto simp: inj_on_insert)
  have "storable x" if "x \<in> set es" for x using Cons.prems(3) that by simp
  from Cons.IH [OF g this 2 1 3] r show ?case unfolding first_wins_step [of log e es] foldl.simps by simp
qed

lemma put_events_card:
  assumes "finite (dom m)"
  shows "finite (dom (foldl (put_event h) m events)) \<and> card (dom (foldl (put_event h) m events)) \<le> card (dom m) + length events"
  using assms
proof (induction events arbitrary: m)
  case (Cons e es)
  have f: "finite (dom (put_event h m e))" using Cons.prems by (simp add: put_event_def)
  have "card (dom (put_event h m e)) \<le> card (dom m) + 1" using Cons.prems by (simp add: put_event_def card_insert_if)
  then show ?case using Cons.IH [OF f] by auto
qed simp

context object_store begin

lemma push_object_run:
  assumes "sound s" "calm h" "r2_S3 h = c" "key_ok (eventKey h e)"
  shows "\<exists>s'. push_object h e s = (Inr (), s') \<and> sound s' \<and> obj s' = put_event h (obj s) e"
proof (cases "obj s (eventKey h e) = None")
  case True
  then obtain s' where p: "s3_PutObject c (eventKey h e) (marshal_event e) True s = (Inr (), s')" "sound s'"
    "obj s' = (obj s)(eventKey h e \<mapsto> marshal_event e)"
    using put_ok [OF assms(1,4)] by blast
  from try_ok [where f = "s3_PutObject c (eventKey h e) (marshal_event e) True" and s = s, OF assms(2) p(1)] p(2,3) True
  show ?thesis by (simp add: push_object_def catchk_def assms(3) put_event_def)
next
  case False
  then obtain er s' where p: "s3_PutObject c (eventKey h e) (marshal_event e) True s = (Inl er, s')"
    "refused_by KPreconditionFailed er" "sound s'" "obj s' = obj s"
    using put_taken [OF assms(1,4)] by blast
  from try_refused [where f = "s3_PutObject c (eventKey h e) (marshal_event e) True" and s = s, OF assms(2) p(1,2)]
    refused_kind [OF p(2)] p(3,4)
  show ?thesis using False by (simp add: push_object_def catchk_def assms(3) put_event_def okk_def del: not_None_eq)
qed

lemma push_run:
  assumes "sound s" "calm h" "r2_S3 h = c" "\<And>e. e \<in> set events \<Longrightarrow> 0 < ev_seq e \<and> key_ok (eventKey h e)"
  shows "\<exists>s'. r2_Push h events s = (Inr (), s') \<and> sound s' \<and> obj s' = foldl (put_event h) (obj s) events"
proof -
  have "\<exists>us s'. mapk (push_object h) events s = (Inr us, s') \<and> sound s' \<and> obj s' = foldl (put_event h) (obj s) events"
    using assms(1,4)
  proof (induction events arbitrary: s)
    case (Cons e es)
    obtain s1 where 1: "push_object h e s = (Inr (), s1)" "sound s1" "obj s1 = put_event h (obj s) e"
      using push_object_run [OF Cons.prems(1) assms(2,3)] Cons.prems(2) by auto
    obtain us s2 where "mapk (push_object h) es s1 = (Inr us, s2)" "sound s2" "obj s2 = foldl (put_event h) (obj s1) es"
      using Cons.IH [OF 1(2)] Cons.prems(2) by auto
    then show ?case using 1 by (simp add: bindk_def okk_def)
  qed (simp add: okk_def)
  moreover have "find (\<lambda>e. ev_seq e \<le> 0) events = None" unfolding find_None_iff using assms(4) by (meson not_le)
  ultimately show ?thesis using assms(2) by (auto simp: r2_Push_def calm_def bindk_def okk_def)
qed

end

end
