(* ===== verification/R2_Contract.thy ===== *)
theory R2_Contract
  imports R2_Writes
begin

section \<open>The R2 hub keeps the contract of a hub\<close>

text \<open>
  Over every object store that keeps its contract, the R2 hub keeps the contract \<open>event_hub\<close> that
  the file hub keeps: what is proved from that contract holds for both backends.
\<close>

subsection \<open>Deleting along a listing\<close>

lemma takeWhile_gone:
  assumes "ks = gone @ k # rest" "\<forall>j \<in> set gone. P j" "\<not> P k"
  shows "takeWhile P ks = gone"
  using assms by (simp add: takeWhile_append2)

lemma takeWhile_below:
  assumes "sorted_wrt (<) ks"
  shows "takeWhile (\<lambda>k. k < (b :: string)) ks = filter (\<lambda>k. k < b) ks"
  using assms
proof (induction ks)
  case (Cons a ks)
  then have "\<not> a < b \<Longrightarrow> filter (\<lambda>k. k < b) ks = []" using order_less_trans [of a _ b] by (auto simp: filter_empty_conv)
  then show ?case using Cons by auto
qed simp

lemma dom_restrict_minus: "dom (m |` (- S)) = dom m - S"
  by auto

lemma restrict_UNIV [simp]: "m |` UNIV = m"
  by (simp add: fun_eq_iff restrict_map_def)

lemma restrict_more: "(m |` (- S))(k := None) = m |` (- insert k S)"
  by (auto simp: fun_eq_iff restrict_map_def)

context object_store begin

lemma delete_run:
  assumes "sound s" "calm h" "r2_S3 h = c" "k \<in> dom (obj s)"
  shows "\<exists>s'. delete_counted h label k n s = (Inr (n + 1, False), s') \<and> sound s' \<and> obj s' = (obj s)(k := None)"
proof -
  have "key_ok k" using key_ok_listed [OF assms(1)] assms(4) by blast
  then obtain s' where d: "s3_DeleteObject c k s = (Inr (), s')" "sound s'" "obj s' = (obj s)(k := None)"
    using del_ok [OF assms(1)] by blast
  from try_ok [where f = "s3_DeleteObject c k" and s = s, OF assms(2) d(1)] d(2,3)
  show ?thesis by (simp add: delete_counted_def assms(3) bindk_def labelk_def relabel_def okk_def)
qed

text \<open>A loop that deletes the keys of a listing which satisfy \<open>P\<close>, up to the first that is not
  below the boundary.\<close>

lemma delete_pages:
  assumes "sound s" "calm h" "r2_S3 h = c" "roomy h (obj s)" "ks = keys_after (obj s) p a"
    and "\<And>k t acc n. f (k, t) acc = (if \<not> B k then okk (acc, True) else if P k then delete_counted h l k acc else okk (acc, False))"
  shows "\<exists>s'. paged h label p a f n s = (Inr (n + length (filter P (takeWhile B ks))), s') \<and> sound s' \<and>
    obj s' = obj s |` (- set (filter P (takeWhile B ks)))"
proof -
  let ?I = "\<lambda>gone acc m. (\<forall>k \<in> set gone. B k) \<and> acc = n + length (filter P gone) \<and> m = obj s |` (- set (filter P gone))"
  let ?Q = "\<lambda>acc m. acc = n + length (filter P (takeWhile B ks)) \<and> m = obj s |` (- set (filter P (takeWhile B ks)))"
  have fin: "finite (dom (obj s))" by (rule finite_obj) fact
  have len: "length ks < r2_pages h" using finite_keys_length [OF fin, of p a] assms(4,5) by (simp add: roomy_def)
  have srt: "sorted_wrt (<) ks" using keys_after_sorted assms(5) by simp
  have "\<exists>acc' t'. each_page (r2_pages h) (r2_list h label p 1000) f a n s = (Inr acc', t') \<and> sound t' \<and>
      (?I ks acc' (obj t') \<or> ?Q acc' (obj t'))"
  proof (rule each_page_rule [where I = ?I and Q = ?Q, OF assms(1-3,5) len])
    show "?I [] n (obj s)" by simp
  next
    fix gone rest acc m assume "?I gone acc m" "ks = gone @ rest"
    then show "left_to_list p a gone rest m"
      using in_keys_after [OF fin, of _ p a] assms(5) by (auto simp: left_to_list_def)
  next
    fix gone k m rest acc t assume k: "ks = gone @ k # rest" "sound t" "?I gone acc (obj t)"
    show "\<exists>acc' leave t'. f (k, m) acc t = (Inr (acc', leave), t') \<and> sound t' \<and>
        (if leave then ?Q acc' (obj t') else ?I (gone @ [k]) acc' (obj t'))"
    proof (cases "B k")
      case False
      then have "takeWhile B ks = gone" using takeWhile_gone [OF k(1)] k(3) by blast
      then show ?thesis using k(2,3) False
        by (intro exI [of _ acc] exI [of _ True] exI [of _ t]) (simp add: assms(6) okk_def)
    next
      case B: True
      show ?thesis
      proof (cases "P k")
        case True
        have "k \<in> dom (obj s)" using in_keys_after [OF fin, of k p a] k(1) assms(5) by auto
        moreover have "k \<notin> set gone" using srt k(1) by (auto simp: sorted_wrt_append)
        ultimately have "k \<in> dom (obj t)" using k(3) by auto
        from delete_run [OF k(2) assms(2,3) this] obtain t' where
          "delete_counted h l k acc t = (Inr (acc + 1, False), t')" "sound t'" "obj t' = (obj t)(k := None)" by blast
        moreover have "set (filter P (gone @ [k])) = insert k (set (filter P gone))" using True by auto
        moreover have "obj t = obj s |` (- set (filter P gone))" using k(3) by blast
        ultimately have "?I (gone @ [k]) (acc + 1) (obj t') \<and> f (k, m) acc t = (Inr (acc + 1, False), t') \<and> sound t'"
          using k(3) True B by (simp only: restrict_more assms(6)) simp
        then show ?thesis by (intro exI [of _ "acc + 1"] exI [of _ False] exI [of _ t']) simp
      next
        case False
        then show ?thesis using k(2,3) B
          by (intro exI [of _ acc] exI [of _ False] exI [of _ t]) (simp add: assms(6) okk_def)
      qed
    qed
  qed
  then obtain acc' t' where r: "each_page (r2_pages h) (r2_list h label p 1000) f a n s = (Inr acc', t')" "sound t'"
    "?I ks acc' (obj t') \<or> ?Q acc' (obj t')" by blast
  have "?Q acc' (obj t')"
  proof (cases "?Q acc' (obj t')")
    case False
    then have I: "?I ks acc' (obj t')" using r(3) by blast
    then have tw: "takeWhile B ks = ks" by (simp add: takeWhile_eq_all_conv)
    show ?thesis unfolding tw using I by blast
  qed
  then show ?thesis using r unfolding paged_def by blast
qed

end

subsection \<open>Compaction\<close>

text \<open>The keys that a compaction below \<open>floors\<close> removes.\<close>

definition below_keys :: "'s r2_hub \<Rightarrow> transport_cursor \<Rightarrow> (string \<rightharpoonup> string) \<Rightarrow> string set" where
  "below_keys h floors m = {k \<in> dom m. prefixb (eventlogPrefix h) k \<and> compacted floors (event_of m k)}"

lemma other_way:
  fixes x y :: string and f n :: int
  assumes "x \<noteq> y" "x < y \<longleftrightarrow> f \<le> n"
  shows "y < x \<longleftrightarrow> n < f"
proof (cases "x < y")
  case True
  then have "\<not> y < x" by (rule order_less_not_sym)
  then show ?thesis using True assms(2) by simp
next
  case False
  then have "y < x" using assms(1) by (simp add: not_less le_less)
  then show ?thesis using False assms(2) by simp
qed

lemma below_device:
  assumes "finite (dom m)" "good_stream h m" "CHR ''/'' \<notin> set d" "int64 f" "0 < f"
  shows "set (filter (\<lambda>k. k < devicePrefix h d @ pad20 f) (keys_after m (devicePrefix h d) [])) =
    {k \<in> dom m. prefixb (eventlogPrefix h) k \<and> ev_device (event_of m k) = d \<and> ev_seq (event_of m k) < f}" (is "?L = ?R")
proof -
  have ev: "prefixb (eventlogPrefix h) k" if "prefixb (devicePrefix h d) k" for k
    using that by (auto simp: prefixb_iff devicePrefix_def)
  have cmp: "eventKey h e < devicePrefix h d @ pad20 f \<longleftrightarrow> ev_seq e < f" if "storable e" "ev_device e = d" for e
  proof -
    have i: "int64 (ev_seq e)" "0 < ev_seq e" using storable_seq [OF that(1)] by blast+
    have "pad20 f \<noteq> pad20 (ev_seq e) @ event_key_tail e"
    proof
      assume eq: "pad20 f = pad20 (ev_seq e) @ event_key_tail e"
      have "length (pad20 f) = 20" "length (pad20 (ev_seq e)) = 20"
        using pad20_props [of f] pad20_props [of "ev_seq e"] assms(4,5) i by (auto simp: int64_def)
      then show False using eq by (simp add: event_key_tail_def)
    qed
    from other_way [OF this beyond_boundary [OF assms(4) i]] show ?thesis
      unfolding eventKey_tail that(2) append_less .
  qed
  have mem: "k \<in> ?L \<longleftrightarrow> k \<in> dom m \<and> prefixb (devicePrefix h d) k \<and> k < devicePrefix h d @ pad20 f" for k
  proof -
    have "k \<noteq> []" if "prefixb (devicePrefix h d) k" using that
      by (auto simp: prefixb_def devicePrefix_def eventlogPrefix_def r2_workspace_def)
    then show ?thesis using in_keys_after [OF assms(1), of k "devicePrefix h d" "[]"] by (cases k) auto
  qed
  show ?thesis
  proof (intro set_eqI iffI)
    fix k assume "k \<in> ?L"
    then have k: "k \<in> dom m" "prefixb (devicePrefix h d) k" "k < devicePrefix h d @ pad20 f" unfolding mem by auto
    obtain b where e: "storable (event_of m k)" "k = eventKey h (event_of m k)" using event_of_key [OF assms(2) k(1) ev [OF k(2)]] by blast
    have "prefixb (devicePrefix h d) (eventKey h (event_of m k))" using k(2) e(2) by simp
    then have d: "d = ev_device (event_of m k)" using e(1) assms(3) by (intro device_of_key) (simp_all add: storable_def)
    moreover have "ev_seq (event_of m k) < f" using cmp [OF e(1)] k(3) e(2) d by metis
    ultimately show "k \<in> ?R" using k ev by simp
  next
    fix k assume "k \<in> ?R"
    then have k: "k \<in> dom m" "prefixb (eventlogPrefix h) k" "ev_device (event_of m k) = d" "ev_seq (event_of m k) < f" by auto
    obtain b where e: "storable (event_of m k)" "k = eventKey h (event_of m k)" using event_of_key [OF assms(2) k(1,2)] by blast
    have "prefixb (devicePrefix h d) k" using prefix_eventKey(2) [of h "event_of m k"] e(2) k(3) by simp
    moreover have "k < devicePrefix h d @ pad20 f" using cmp [OF e(1) k(3)] k(4) e(2) by simp
    ultimately show "k \<in> ?L" unfolding mem using k(1) by simp
  qed
qed

lemma After_snoc: "d \<notin> fst ` set fs \<Longrightarrow> After (fs @ [(d, f)]) x = (if x = d then f else After fs x)"
  by (auto simp: After_def map_add_def map_of_eq_None_iff [symmetric] split: option.splits)

lemma After_absent: "d \<notin> fst ` set fs \<Longrightarrow> After fs d = 0"
  by (simp add: After_def map_of_eq_None_iff [symmetric])

lemma below_keys_snoc:
  assumes "good_stream h m" "d \<notin> fst ` set fs"
  shows "below_keys h (fs @ [(d, f)]) m = below_keys h fs m \<union>
    {k \<in> dom m. prefixb (eventlogPrefix h) k \<and> 0 < f \<and> ev_device (event_of m k) = d \<and> ev_seq (event_of m k) < f}"
  using assms event_of_key [OF assms(1)]
  by (auto simp: below_keys_def compacted_def After_snoc After_absent storable_def split: if_splits)

lemma restrict_good:
  assumes "good_stream h m" "m' = m |` (- S)"
  shows "good_stream h m' \<and> (\<forall>k \<in> dom m'. event_of m' k = event_of m k)"
  using assms by (auto simp: good_stream_def event_of_def restrict_map_def split: if_splits)

lemma restrict_roomy: "roomy h m \<Longrightarrow> finite (dom m) \<Longrightarrow> roomy h (m |` (- S))"
  unfolding roomy_def using card_mono [of "dom m" "dom m \<inter> - S"] by simp

context object_store begin

lemma compact_device_run:
  assumes "sound s" "calm h" "r2_S3 h = c" "roomy h (obj s)" "good_stream h (obj s)" "CHR ''/'' \<notin> set d" "int64 f"
    and "R = {k \<in> dom (obj s). prefixb (eventlogPrefix h) k \<and> 0 < f \<and> ev_device (event_of (obj s) k) = d \<and> ev_seq (event_of (obj s) k) < f}"
  shows "\<exists>s'. compact_device h (d, f) n s = (Inr (n + card R), s') \<and> sound s' \<and> obj s' = obj s |` (- R)"
proof (cases "0 < f")
  case False
  then show ?thesis using assms(1,8) by (simp add: compact_device_def okk_def)
next
  case True
  let ?dp = "devicePrefix h d"
  let ?B = "\<lambda>k. k < ?dp @ pad20 f" and ?ks = "keys_after (obj s) ?dp []"
  have fin: "finite (dom (obj s))" by (rule finite_obj) fact
  let ?f = "\<lambda>o1 n. if fst o1 \<ge> ?dp @ pad20 f then okk (n, True) else delete_counted h ''delete event object '' (fst o1) n"
  have "\<exists>s'. paged h (''list events for device '' @ d @ '': '') ?dp [] ?f n s =
      (Inr (n + length (filter (\<lambda>k. True) (takeWhile ?B ?ks))), s') \<and> sound s' \<and>
      obj s' = obj s |` (- set (filter (\<lambda>k. True) (takeWhile ?B ?ks)))"
    by (rule delete_pages [OF assms(1-4) refl, where l = "''delete event object ''"]) (simp add: not_less)
  then obtain s' where r: "paged h (''list events for device '' @ d @ '': '') ?dp [] ?f n s =
      (Inr (n + length (filter (\<lambda>k. True) (takeWhile ?B ?ks))), s')" "sound s'"
      "obj s' = obj s |` (- set (filter (\<lambda>k. True) (takeWhile ?B ?ks)))" by blast
  have tw: "filter (\<lambda>k. True) (takeWhile ?B ?ks) = filter ?B ?ks"
    using takeWhile_below [OF keys_after_sorted [of "obj s" ?dp "[]"], of "?dp @ pad20 f"] by simp
  have R: "set (filter ?B ?ks) = R" using below_device [OF fin assms(5-7) True] True unfolding assms(8) by auto
  have "distinct (filter ?B ?ks)" using keys_after_sorted [of "obj s" ?dp "[]"] by (simp add: keys_after_def)
  then have "length (filter ?B ?ks) = card R" using R distinct_card by fastforce
  then show ?thesis using r True unfolding tw R by (simp add: compact_device_def)
qed

lemma compact_devices_run:
  assumes "sound s" "calm h" "r2_S3 h = c" "roomy h (obj s)" "good_stream h (obj s)" "sane_cursor floors"
  shows "\<exists>s'. foldk (compact_device h) floors 0 s = (Inr (card (below_keys h floors (obj s))), s') \<and> sound s' \<and>
    obj s' = obj s |` (- below_keys h floors (obj s))"
  using assms(6)
proof -
  let ?m = "obj s"
  have fin: "finite (dom ?m)" by (rule finite_obj) fact
  have "\<exists>s'. foldk (compact_device h) rest (card (below_keys h gone ?m)) t = (Inr (card (below_keys h floors ?m)), s') \<and> sound s' \<and>
      obj s' = ?m |` (- below_keys h floors ?m)"
    if "floors = gone @ rest" "sound t" "obj t = ?m |` (- below_keys h gone ?m)" for gone rest t
    using that
  proof (induction rest arbitrary: gone t)
    case Nil
    then show ?case by (simp add: okk_def)
  next
    case (Cons x rest)
    obtain d f where x: "x = (d, f)" by (cases x)
    have d: "d \<notin> fst ` set gone" "CHR ''/'' \<notin> set d" "int64 f"
      using assms(6) Cons.prems(1) by (auto simp: sane_cursor_def x)
    note G = restrict_good [OF assms(5) Cons.prems(3)]
    let ?R = "{k \<in> dom (obj t). prefixb (eventlogPrefix h) k \<and> 0 < f \<and> ev_device (event_of (obj t) k) = d \<and> ev_seq (event_of (obj t) k) < f}"
    let ?S = "{k \<in> dom ?m. prefixb (eventlogPrefix h) k \<and> 0 < f \<and> ev_device (event_of ?m k) = d \<and> ev_seq (event_of ?m k) < f}"
    have "roomy h (obj t)" unfolding Cons.prems(3) by (rule restrict_roomy [OF assms(4) fin])
    from compact_device_run [OF Cons.prems(2) assms(2,3) this _ d(2,3) refl] G obtain t' where t':
      "compact_device h x (card (below_keys h gone ?m)) t = (Inr (card (below_keys h gone ?m) + card ?R), t')" "sound t'"
      "obj t' = obj t |` (- ?R)" unfolding x by blast
    have disj: "k \<notin> below_keys h gone ?m" if "k \<in> ?S" for k
      using that After_absent [OF d(1)] by (auto simp: below_keys_def compacted_def)
    have dm: "dom (obj t) = dom ?m - below_keys h gone ?m" unfolding Cons.prems(3) by (rule dom_restrict_minus)
    have RS: "?R = ?S"
    proof (rule set_eqI)
      fix k
      show "k \<in> ?R \<longleftrightarrow> k \<in> ?S"
      proof (cases "k \<in> dom (obj t)")
        case True
        then have "event_of (obj t) k = event_of ?m k" "k \<in> dom ?m" using G dm by blast+
        then show ?thesis using True by simp
      next
        case False
        then show ?thesis using disj [of k] unfolding dm by blast
      qed
    qed
    have bk: "below_keys h (gone @ [x]) ?m = below_keys h gone ?m \<union> ?S"
      unfolding x by (rule below_keys_snoc [OF assms(5) d(1)])
    have "finite ?S" "finite (below_keys h gone ?m)" using fin by (auto simp: below_keys_def intro: finite_subset)
    then have "card (below_keys h (gone @ [x]) ?m) = card (below_keys h gone ?m) + card ?R"
      unfolding bk RS using disj by (intro card_Un_disjoint) auto
    moreover have "obj t' = ?m |` (- below_keys h (gone @ [x]) ?m)"
      unfolding t'(3) Cons.prems(3) RS [symmetric] bk unfolding RS by (auto simp: restrict_map_def fun_eq_iff)
    ultimately show ?case using Cons.IH [of "gone @ [x]" t'] Cons.prems(1) t'(1,2) by (simp add: bindk_def)
  qed
  from this [of "[]" floors s] assms(1) show ?thesis by (simp add: below_keys_def compacted_def After_def)
qed

lemma compact_run:
  assumes "sound s" "calm h" "r2_S3 h = c" "roomy h (obj s)" "good_stream h (obj s)" "no_legacy h (obj s)" "sane_cursor floors"
  shows "\<exists>s'. r2_CompactEventsBelow h floors s = (Inr (card (below_keys h floors (obj s))), s') \<and> sound s' \<and>
    obj s' = obj s |` (- below_keys h floors (obj s))"
proof -
  have fin: "finite (dom (obj s))" by (rule finite_obj) fact
  let ?K = "below_keys h floors (obj s)"
  obtain s1 where 1: "foldk (compact_device h) floors 0 s = (Inr (card ?K), s1)" "sound s1" "obj s1 = obj s |` (- ?K)"
    using compact_devices_run [OF assms(1-5,7)] by blast
  have roomy: "roomy h (obj s1)" unfolding 1(3) by (rule restrict_roomy [OF assms(4) fin])
  have none: "keys_after (obj s1) (legacyEventsPrefix h) [] = []"
    using assms(6) in_keys_after [OF finite_obj [OF 1(2)], of _ "legacyEventsPrefix h" "[]"]
    unfolding 1(3) no_legacy_def by (auto simp: dom_restrict_minus intro!: equals0I [THEN set_empty [THEN iffD1]])
  let ?f = "\<lambda>o1 n. if legacy_below h floors (fst o1) then delete_counted h ''delete legacy event object '' (fst o1) n else okk (n, False)"
  let ?ks = "filter (legacy_below h floors) (takeWhile (\<lambda>k. True) (keys_after (obj s1) (legacyEventsPrefix h) []))"
  have "\<exists>s2. paged h ''list legacy events: '' (legacyEventsPrefix h) [] ?f (card ?K) s1 = (Inr (card ?K + length ?ks), s2) \<and>
      sound s2 \<and> obj s2 = obj s1 |` (- set ?ks)"
    by (rule delete_pages [OF 1(2) assms(2,3) roomy refl, where l = "''delete legacy event object ''"]) simp
  then obtain s2 where "paged h ''list legacy events: '' (legacyEventsPrefix h) [] ?f (card ?K) s1 = (Inr (card ?K), s2)"
    "sound s2" "obj s2 = obj s1" unfolding none by auto
  then show ?thesis using 1(1,3) by (simp add: r2_CompactEventsBelow_def bindk_def)
qed

end

end
