(* ===== verification/R2_Backend.thy ===== *)
theory R2_Backend
  imports R2_Contract
begin

section \<open>The R2 hub as a backend\<close>

definition as_push :: "('s, unit) op \<Rightarrow> 's \<Rightarrow> 's res" where
  "as_push f s = (case f s of (Inl e, s') \<Rightarrow> Inl e | (Inr _, s') \<Rightarrow> Inr s')"

definition as_count :: "('s, nat) op \<Rightarrow> 's \<Rightarrow> (nat \<times> 's) res" where
  "as_count f s = (case f s of (Inl e, s') \<Rightarrow> Inl e | (Inr n, s') \<Rightarrow> Inr (n, s'))"

definition log_in :: "'s r2_hub \<Rightarrow> (string \<rightharpoonup> string) \<Rightarrow> event list" where
  "log_in h m = map (event_of m) (keys_after m (eventlogPrefix h) [])"

definition floors_of :: "world \<Rightarrow> 's r2_hub \<Rightarrow> (string \<rightharpoonup> string) \<Rightarrow> transport_cursor" where
  "floors_of w h m = (case floors_in w h m of Inr fs \<Rightarrow> fs | Inl e \<Rightarrow> [])"

text \<open>A store on which the hub is in order: the streams hold decodable events under their keys, one
  per id, the retired layout is empty, and the manifest can be read.\<close>

definition stream_sound :: "world \<Rightarrow> 's r2_hub \<Rightarrow> (string \<rightharpoonup> string) \<Rightarrow> bool" where
  "stream_sound w h m \<longleftrightarrow> good_stream h m \<and> no_legacy h m \<and> one_per_id h m \<and> roomy h m \<and> (\<exists>fs. floors_in w h m = Inr fs)"

definition pushable :: "(string \<Rightarrow> bool) \<Rightarrow> 's r2_hub \<Rightarrow> (string \<rightharpoonup> string) \<Rightarrow> event list \<Rightarrow> bool" where
  "pushable ok h m events \<longleftrightarrow> (\<forall>e \<in> set events. storable e \<and> ok (eventKey h e)) \<and> same_places h (stored_events h m) events \<and>
     card (dom m) + length events < r2_pages h"

lemma in_log_keys:
  assumes "finite (dom m)"
  shows "k \<in> set (keys_after m (eventlogPrefix h) []) \<longleftrightarrow> k \<in> dom m \<and> prefixb (eventlogPrefix h) k"
proof -
  have "k \<noteq> []" if "prefixb (eventlogPrefix h) k" using that by (auto simp: prefixb_def eventlogPrefix_def r2_workspace_def)
  then show ?thesis using in_keys_after [OF assms, of k "eventlogPrefix h" "[]"] by (cases k) auto
qed

lemma log_in_props:
  assumes "finite (dom m)" "good_stream h m" "no_legacy h m" "one_per_id h m"
  shows "set (log_in h m) = stored_events h m \<and> uniq ev_id (log_in h m)"
proof -
  let ?ks = "keys_after m (eventlogPrefix h) []"
  have s: "set ?ks = event_keys h m" using in_log_keys [OF assms(1)] stream_keys [OF assms(3)] by blast
  have "inj_on (event_of m) (set ?ks)"
  proof (rule inj_onI)
    fix j k assume jk: "j \<in> set ?ks" "k \<in> set ?ks" "event_of m j = event_of m k"
    then have "j = eventKey h (event_of m j)" "k = eventKey h (event_of m k)"
      using event_of_key [OF assms(2)] in_log_keys [OF assms(1)] by blast+
    then show "j = k" using jk(3) by simp
  qed
  moreover have "distinct ?ks" by (simp add: keys_after_def)
  ultimately have d: "distinct (log_in h m)" by (simp add: log_in_def distinct_map)
  have set: "set (log_in h m) = stored_events h m" by (simp add: log_in_def stored_events_def s)
  then show ?thesis using d assms(4) by (simp add: uniq_def distinct_map one_per_id_def)
qed

lemma log_in_restrict:
  assumes "finite (dom m)" "good_stream h m"
  shows "log_in h (m |` (- below_keys h floors m)) = filter (\<lambda>e. \<not> compacted floors e) (log_in h m)"
proof -
  let ?K = "below_keys h floors m" and ?p = "eventlogPrefix h"
  have ks: "keys_after (m |` (- ?K)) ?p [] = filter (\<lambda>k. k \<notin> ?K) (keys_after m ?p [])"
  proof (rule keys_after_eqI)
    show "finite (dom (m |` (- ?K)))" using assms(1) by simp
    show "sorted_wrt (<) (filter (\<lambda>k. k \<notin> ?K) (keys_after m ?p []))"
      using keys_after_sorted [of m ?p "[]"] by (rule sorted_wrt_filter)
  qed (use in_keys_after [OF assms(1)] in auto)
  have e: "event_of (m |` (- ?K)) k = event_of m k" if "k \<notin> ?K" for k using that by (simp add: event_of_def)
  have c: "k \<in> ?K \<longleftrightarrow> compacted floors (event_of m k)" if "k \<in> set (keys_after m ?p [])" for k
    using that in_log_keys [OF assms(1), of k h] by (simp add: below_keys_def)
  show ?thesis unfolding log_in_def ks filter_map o_def
    by (simp add: e c cong: filter_cong)
qed

lemma compacted_count:
  assumes "finite (dom m)" "good_stream h m"
  shows "length (filter (compacted floors) (log_in h m)) = card (below_keys h floors m)"
proof -
  let ?ks = "keys_after m (eventlogPrefix h) []"
  have "length (filter (compacted floors) (log_in h m)) = length (filter (\<lambda>k. compacted floors (event_of m k)) ?ks)"
    by (simp add: log_in_def filter_map o_def)
  also have "\<dots> = card (set (filter (\<lambda>k. compacted floors (event_of m k)) ?ks))"
    by (rule distinct_card [symmetric]) (simp add: keys_after_def)
  also have "set (filter (\<lambda>k. compacted floors (event_of m k)) ?ks) = below_keys h floors m"
    using in_log_keys [OF assms(1)] by (auto simp: below_keys_def)
  finally show ?thesis .
qed

lemma same_sorted:
  assumes "set es = set fs" "uniq ev_id es" "uniq ev_id fs"
  shows "sortEvents es = sortEvents fs"
proof (rule sortEvents_mset [OF _ assms(2)])
  have "distinct es" "distinct fs" using assms(2,3) by (simp_all add: uniq_def distinct_map)
  then show "mset es = mset fs" using assms(1) by (simp add: set_eq_iff_mset_eq_distinct)
qed

text \<open>A hub on a store, and that it is an event hub.\<close>

locale r2_backend = object_store +
  fixes h :: "'a r2_hub" and w :: world
  assumes client: "r2_S3 h = c" and calm: "calm h"

sublocale r2_backend < r2: event_hub "\<lambda>s. log_in h (obj s)" "\<lambda>s. floors_of w h (obj s)" "\<lambda>events. as_push (r2_Push h events)"
  "\<lambda>after s. fst (r2_Pull w h after s)" "\<lambda>floors. as_count (r2_CompactEventsBelow h floors)"
  "\<lambda>s. sound s \<and> key_ok (retentionKey h) \<and> stream_sound w h (obj s)" "\<lambda>s. pushable key_ok h (obj s)" sane_cursor
proof
  fix s events
  assume a: "sound s \<and> key_ok (retentionKey h) \<and> stream_sound w h (obj s)" and f: "pushable key_ok h (obj s) events"
  let ?m = "obj s" and ?m' = "foldl (put_event h) (obj s) events"
  have fin: "finite (dom ?m)" using finite_obj a by blast
  have ss: "good_stream h ?m" "no_legacy h ?m" "one_per_id h ?m" "roomy h ?m" "\<exists>fs. floors_in w h ?m = Inr fs"
    using a by (simp_all add: stream_sound_def)
  have ev: "storable e" "key_ok (eventKey h e)" if "e \<in> set events" for e using f that by (simp_all add: pushable_def)
  note L = log_in_props [OF fin ss(1-3)]
  have P: "good_stream h ?m' \<and> no_legacy h ?m' \<and> stored_events h ?m' = first_wins (log_in h ?m) events \<and> one_per_id h ?m' \<and>
      ?m' (retentionKey h) = ?m (retentionKey h)"
    using f L by (intro put_events [OF ss(1,2) ev(1) _ _ ss(3)]) (simp_all add: pushable_def)
  have C: "finite (dom ?m')" "roomy h ?m'" using put_events_card [OF fin, of h events] f by (auto simp: roomy_def pushable_def)
  obtain s' where s': "r2_Push h events s = (Inr (), s')" "sound s'" "obj s' = ?m'"
    using push_run [OF _ calm client, of s events] a ev storable_seq by blast
  have "floors_in w h ?m' = floors_in w h ?m" using P by (simp add: floors_in_def)
  then show "\<exists>h'. as_push (r2_Push h events) s = Inr h' \<and> (sound h' \<and> key_ok (retentionKey h) \<and> stream_sound w h (obj h')) \<and>
      floors_of w h (obj h') = floors_of w h (obj s) \<and> set (log_in h (obj h')) = first_wins (log_in h (obj s)) events \<and>
      (uniq ev_id (log_in h (obj s)) \<longrightarrow> uniq ev_id (log_in h (obj h')))"
    using s' a P C ss(5) log_in_props [OF C(1)] by (auto simp: as_push_def stream_sound_def floors_of_def)
next
  fix s after
  assume a: "sound s \<and> key_ok (retentionKey h) \<and> stream_sound w h (obj s)"
  have fin: "finite (dom (obj s))" using finite_obj a by blast
  have ss: "good_stream h (obj s)" "no_legacy h (obj s)" "one_per_id h (obj s)" "roomy h (obj s)"
    and fl: "floors_in w h (obj s) = Inr (floors_of w h (obj s))"
    using a by (auto simp: stream_sound_def floors_of_def)
  note L = log_in_props [OF fin ss(1-3)]
  show "fst (r2_Pull w h after s) = Inr (sortEvents (filter (above after) (log_in h (obj s))))"
    if c: "sane_cursor after" and g: "\<not> snapshot_required (floors_of w h (obj s)) after"
  proof -
    obtain es s' where p: "r2_Pull w h after s = (Inr es, s')" "set es = {e \<in> stored_events h (obj s). above after e}"
      "uniq ev_id es" "sortEvents es = es"
      using pull_run [OF _ calm client _ ss(4) fl g c ss(1) no_legacy_good [OF ss(2)] ss(3)] a by auto
    have "sortEvents es = sortEvents (filter (above after) (log_in h (obj s)))"
      by (rule same_sorted) (use p L uniq_filtered in auto)
    then show ?thesis using p by simp
  qed
  show "fst (r2_Pull w h after s) = fail KSnapshotRequired ''full snapshot required''"
    if g: "snapshot_required (floors_of w h (obj s)) after"
  proof -
    obtain s1 where "r2_retentionFloors w h s = (Inr (floors_of w h (obj s)), s1)"
      using floors_run [OF _ calm client, of s w] a fl by auto
    then show ?thesis using g by (simp add: r2_Pull_def bindk_def errk_def fail_def)
  qed
next
  fix s floors
  assume a: "sound s \<and> key_ok (retentionKey h) \<and> stream_sound w h (obj s)" and c: "sane_cursor floors"
  let ?m = "obj s" and ?K = "below_keys h floors (obj s)"
  have fin: "finite (dom ?m)" using finite_obj a by blast
  have ss: "good_stream h ?m" "no_legacy h ?m" "one_per_id h ?m" "roomy h ?m" "\<exists>fs. floors_in w h ?m = Inr fs"
    using a by (simp_all add: stream_sound_def)
  obtain s' where s': "r2_CompactEventsBelow h floors s = (Inr (card ?K), s')" "sound s'" "obj s' = ?m |` (- ?K)"
    using compact_run [OF _ calm client ss(4,1,2) c] a by blast
  note G = restrict_good [OF ss(1) s'(3)]
  have ret: "retentionKey h \<notin> ?K"
    by (auto simp: below_keys_def prefixb_iff retentionKey_def eventlogPrefix_def)
  have "floors_in w h (obj s') = floors_in w h ?m" using ret by (simp add: floors_in_def s'(3))
  moreover have "no_legacy h (obj s')" using ss(2) unfolding s'(3) by (auto simp: no_legacy_def)
  moreover have "stored_events h (obj s') \<subseteq> stored_events h ?m"
    using G unfolding s'(3) by (auto simp: stored_events_def event_keys_def)
  then have "one_per_id h (obj s')" using ss(3) unfolding one_per_id_def by (rule inj_on_subset [rotated])
  moreover have "roomy h (obj s')" unfolding s'(3) by (rule restrict_roomy [OF ss(4) fin])
  ultimately show "\<exists>n h'. as_count (r2_CompactEventsBelow h floors) s = Inr (n, h') \<and>
      (sound h' \<and> key_ok (retentionKey h) \<and> stream_sound w h (obj h')) \<and> floors_of w h (obj h') = floors_of w h (obj s) \<and>
      n = length (filter (compacted floors) (log_in h (obj s))) \<and> log_in h (obj h') = filter (\<lambda>e. \<not> compacted floors e) (log_in h (obj s))"
    using s' a G ss(5) compacted_count [OF fin ss(1)] log_in_restrict [OF fin ss(1)]
    by (auto simp: as_count_def stream_sound_def floors_of_def)
qed

subsection \<open>The hub of a shared folder\<close>

text \<open>
  \<^verbatim>\<open>src/internal/hub/folder.go\<close> and the git carrier run the R2 hub over the folder store. Its
  context is not cancelled, waiting moves the clock, and the random source is any function.
\<close>

definition fs_env :: "(int \<Rightarrow> int) \<Rightarrow> fs_store go_env" where
  "fs_env rnd = \<lparr>go_ctx = (\<lambda>s. None), go_wait = (\<lambda>d s. (Inr (), s\<lparr>fs_now := fs_now s + d\<rparr>)), go_rand = (\<lambda>n s. (rnd n, s))\<rparr>"

definition folder_hub :: "world \<Rightarrow> string \<Rightarrow> (string \<times> int) list \<Rightarrow> (int \<Rightarrow> int) \<Rightarrow> nat \<Rightarrow> fs_store r2_hub" where
  "folder_hub w ws seqs rnd n = \<lparr>r2_S3 = fs_client w, r2_WorkspaceID = ws, r2_RetentionSeqs = seqs,
     r2_Retry = default_retry, r2_env = fs_env rnd, r2_pages = n\<rparr>"

interpretation fsh: r2_backend "fs_client w" fs_obj "\<lambda>s k. fsETag w (or_else (fs_obj s k) [])" fs_sound fs_key_ok
  "folder_hub w ws seqs rnd n" w
  for w ws seqs rnd n
  by unfold_locales (simp_all add: folder_hub_def calm_def fs_env_def)

definition folder_sound :: "world \<Rightarrow> fs_store r2_hub \<Rightarrow> fs_store \<Rightarrow> bool" where
  "folder_sound w h s \<longleftrightarrow> fs_sound s \<and> fs_key_ok (retentionKey h) \<and> stream_sound w h (fs_obj s)"

text \<open>The pull of a hub that keeps the contract depends on the set of the events alone.\<close>

lemma first_wins_cong: "set log = set log' \<Longrightarrow> first_wins log events = first_wins log' events"
  by (simp add: first_wins_def)

end
