(* ===== verification/R2_Migration.thy ===== *)
theory R2_Migration
  imports R2_Backend
begin

section \<open>Migrating the retired layout\<close>

text \<open>
  \<^verbatim>\<open>MigrateLegacyEvents\<close> copies every legacy object to its key in the stream of its device and
  deletes it there, and no pull can tell: the events of the store stay the same at every step.
\<close>

subsection \<open>One object\<close>

text \<open>A store with events in both layouts, one per id.\<close>

definition mixed_ok :: "'s r2_hub \<Rightarrow> (string \<rightharpoonup> string) \<Rightarrow> bool" where
  "mixed_ok h m \<longleftrightarrow> good_stream h m \<and> good_legacy h m \<and> one_per_id h m"

text \<open>What migrating the object under \<open>k\<close> does to the objects, and whether it was moved.\<close>

definition moves :: "'s r2_hub \<Rightarrow> (string \<rightharpoonup> string) \<Rightarrow> string \<Rightarrow> bool" where
  "moves h m k \<longleftrightarrow>
     (case parseLegacyEventKey (legacyEventsPrefix h) k of
        None \<Rightarrow> False
      | Some (dev, seq) \<Rightarrow>
          ev_device (event_of m k) = dev \<and> ev_seq (event_of m k) = seq \<and>
          (m (eventKey h (event_of m k)) = None \<or> m (eventKey h (event_of m k)) = m k))"

definition moved :: "'s r2_hub \<Rightarrow> (string \<rightharpoonup> string) \<Rightarrow> string \<Rightarrow> (string \<rightharpoonup> string)" where
  "moved h m k = (m(eventKey h (event_of m k) := m k))(k := None)"

lemma moved_keeps:
  assumes "mixed_ok h m" "m k = Some b" "prefixb (legacyEventsPrefix h) k" "moves h m k" "finite (dom m)"
  shows "mixed_ok h (moved h m k) \<and> stored_events h (moved h m k) = stored_events h m \<and>
    moved h m k (retentionKey h) = m (retentionKey h) \<and> card (dom (moved h m k)) \<le> card (dom m) \<and>
    (\<forall>j. prefixb (legacyEventsPrefix h) j \<longrightarrow> moved h m k j = (if j = k then None else m j))"
proof -
  let ?e = "event_of m k" and ?m = "moved h m k"
  let ?n = "eventKey h ?e"
  have e: "decode_event b = Some ?e" "storable ?e"
    using legacy_event_of_key [of h m k] assms(1-3) by (auto simp: mixed_ok_def)
  have nk: "?n \<noteq> k" using assms(3) not_legacy_eventKey [of h ?e] by metis
  have ret: "?n \<noteq> retentionKey h" "k \<noteq> retentionKey h"
    using assms(3) by (auto simp: eventKey_def devicePrefix_def eventlogPrefix_def retentionKey_def legacyEventsPrefix_def prefixb_iff)
  have new: "m ?n = None \<or> m ?n = Some b"
    using assms(2,4) by (auto simp: moves_def split: option.splits)
  have val: "?m j = (if j = k then None else if j = ?n then Some b else m j)" for j
    using assms(2) nk by (simp add: moved_def)
  have ev: "event_of ?m j = (if j = ?n then ?e else event_of m j)" if "j \<noteq> k" for j
    using that e(1) by (simp add: event_of_def val)
  have dom: "dom ?m = insert ?n (dom m) - {k}" using val nk by (auto simp: dom_def)
  have stored: "stored_events h ?m = stored_events h m"
  proof -
    have ek: "event_keys h ?m = insert ?n (event_keys h m) - {k}" using dom by (auto simp: event_keys_def)
    have kin: "k \<in> event_keys h m" using assms(2,3) by (auto simp: event_keys_def)
    have at: "event_of m ?n = ?e" if "?n \<in> dom m" using that new e(1) by (auto simp: event_of_def)
    have same: "event_of ?m j = event_of m j" if "j \<in> event_keys h m" "j \<noteq> k" for j
    proof (cases "j = ?n")
      case True
      then have "?n \<in> dom m" using that(1) by (simp add: event_keys_def)
      then show ?thesis using at ev [OF that(2)] True by metis
    qed (simp add: ev [OF that(2)])
    show ?thesis
    proof (intro set_eqI iffI)
      fix x assume "x \<in> stored_events h ?m"
      then obtain j where j: "j \<in> event_keys h ?m" "x = event_of ?m j" by (auto simp: stored_events_def)
      then have "j \<noteq> k" "j = ?n \<or> j \<in> event_keys h m" using ek by auto
      then show "x \<in> stored_events h m" using ev [of j] same [of j] j(2) kin unfolding stored_events_def by (metis imageI)
    next
      fix x assume "x \<in> stored_events h m"
      then obtain j where j: "j \<in> event_keys h m" "x = event_of m j" by (auto simp: stored_events_def)
      show "x \<in> stored_events h ?m"
      proof (cases "j = k")
        case True
        then have "x = event_of ?m ?n" using ev [of ?n] nk j(2) by simp
        then show ?thesis using ek nk unfolding stored_events_def by blast
      next
        case False
        then have "x = event_of ?m j" "j \<in> event_keys h ?m" using same j ek by auto
        then show ?thesis unfolding stored_events_def by blast
      qed
    qed
  qed
  have "good_stream h ?m"
    using assms(1) e layouts_differ [of h k] assms(3) unfolding good_stream_def mixed_ok_def val by auto
  moreover have "good_legacy h ?m"
    using assms(1) not_legacy_eventKey [of h ?e] unfolding good_legacy_def mixed_ok_def val by auto
  moreover have "one_per_id h ?m" using assms(1) stored by (simp add: one_per_id_def mixed_ok_def)
  moreover have "card (dom ?m) \<le> card (dom m)"
  proof -
    have "card (insert ?n (dom m) - {k}) = card (insert ?n (dom m)) - 1"
      using assms(2,5) by (intro card_Diff_singleton) auto
    then show ?thesis unfolding dom using assms(5) card_insert_le_m1 [of "card (dom m) + 1" "dom m"] by (simp add: card_insert_if)
  qed
  moreover have "?m j = (if j = k then None else m j)" if "prefixb (legacyEventsPrefix h) j" for j
    using that not_legacy_eventKey [of h ?e] unfolding val by auto
  ultimately show ?thesis using stored ret by (simp add: mixed_ok_def val)
qed

context object_store begin

lemma rekey_run:
  assumes "sound s" "calm h" "r2_S3 h = c" "obj s k = Some b" "e = event_of (obj s) k" "key_ok (eventKey h e)" "eventKey h e \<noteq> k"
  shows "\<exists>s'. sound s' \<and> (if obj s (eventKey h e) = None \<or> obj s (eventKey h e) = Some b
      then rekey_object h k b e s = (Inr (1, 0), s') \<and> obj s' = moved h (obj s) k
      else rekey_object h k b e s = (Inr (0, 1), s') \<and> obj s' = obj s)"
proof -
  let ?n = "eventKey h e"
  let ?put = "catchk (r2_try h (s3_PutObject (r2_S3 h) ?n b True))
       (\<lambda>er. if KPreconditionFailed \<in> set (err_kinds er) then okk ()
             else errk (Err (err_kinds er) (''put migrated event '' @ ?n @ '': '' @ err_msg er)))"
  have "\<exists>s1. ?put s = (Inr (), s1) \<and> sound s1 \<and> obj s1 = (if obj s ?n = None then (obj s)(?n \<mapsto> b) else obj s)"
  proof (cases "obj s ?n = None")
    case True
    then obtain s1 where p: "s3_PutObject c ?n b True s = (Inr (), s1)" "sound s1" "obj s1 = (obj s)(?n \<mapsto> b)"
      using put_ok [OF assms(1,6)] by blast
    from try_ok [where f = "s3_PutObject c ?n b True" and s = s, OF assms(2) p(1)] p(2,3) True
    show ?thesis by (simp add: catchk_def assms(3))
  next
    case False
    then obtain er s1 where p: "s3_PutObject c ?n b True s = (Inl er, s1)" "refused_by KPreconditionFailed er" "sound s1" "obj s1 = obj s"
      using put_taken [OF assms(1,6)] by blast
    from try_refused [where f = "s3_PutObject c ?n b True" and s = s, OF assms(2) p(1,2)] refused_kind [OF p(2)] p(3,4)
    show ?thesis using False by (simp add: catchk_def assms(3) okk_def del: not_None_eq)
  qed
  then obtain s1 where 1: "?put s = (Inr (), s1)" "sound s1" "obj s1 = (if obj s ?n = None then (obj s)(?n \<mapsto> b) else obj s)" by blast
  obtain rb where rb: "obj s1 ?n = Some rb" "obj s ?n = None \<longrightarrow> rb = b" "obj s ?n \<noteq> None \<longrightarrow> obj s ?n = Some rb"
    unfolding 1(3) by (cases "obj s ?n") auto
  from get_run [OF 1(2) assms(2,3) rb(1)] obtain s2 where 2: "r2_try h (s3_GetObject (r2_S3 h) ?n) s1 = (Inr rb, s2)" "sound s2" "obj s2 = obj s1"
    by blast
  have run: "rekey_object h k b e s = (if rb \<noteq> b then okk (0, 1)
      else bindk (labelk (''delete legacy event '' @ k @ '': '') (r2_try h (s3_DeleteObject (r2_S3 h) k))) (\<lambda>_. okk (1, 0))) s2"
    using 1(1) 2(1) by (simp add: rekey_object_def bindk_def labelk_def relabel_def)
  show ?thesis
  proof (cases "rb = b")
    case False
    then have no: "\<not> (obj s ?n = None \<or> obj s ?n = Some b)" using rb by auto
    then have "obj s1 = obj s" using 1(3) by auto
    then show ?thesis using no run False 2 by (intro exI [of _ s2]) (simp add: okk_def)
  next
    case True
    have yes: "obj s ?n = None \<or> obj s ?n = Some b" using rb True by auto
    have "obj s2 = (obj s)(?n \<mapsto> b)" unfolding 2(3) 1(3) using yes by (auto simp: fun_eq_iff)
    moreover have "key_ok k" using key_ok_listed [OF assms(1)] assms(4) by blast
    then obtain s3 where d: "s3_DeleteObject c k s2 = (Inr (), s3)" "sound s3" "obj s3 = (obj s2)(k := None)"
      using del_ok [OF 2(2)] by blast
    moreover from try_ok [where f = "s3_DeleteObject c k" and s = s2, OF assms(2) d(1)]
    have "rekey_object h k b e s = (Inr (1, 0), s3)"
      using run True by (simp add: assms(3) bindk_def labelk_def relabel_def okk_def)
    ultimately show ?thesis using yes by (intro exI [of _ s3]) (simp add: moved_def assms(4,5))
  qed
qed

lemma migrate_one_run:
  assumes "sound s" "calm h" "r2_S3 h = c" "mixed_ok h (obj s)" "obj s k = Some b" "prefixb (legacyEventsPrefix h) k"
    and "key_ok (eventKey h (event_of (obj s) k))"
  shows "\<exists>s'. sound s' \<and> (if moves h (obj s) k
      then migrateOneLegacyEvent h False k s = (Inr (1, 0), s') \<and> obj s' = moved h (obj s) k
      else migrateOneLegacyEvent h False k s = (Inr (0, 1), s') \<and> obj s' = obj s)"
proof (cases "parseLegacyEventKey (legacyEventsPrefix h) k")
  case None
  then show ?thesis using assms(1) by (intro exI [of _ s]) (simp add: moves_def migrateOneLegacyEvent_def okk_def)
next
  case (Some c0)
  obtain dev seq where c0: "c0 = (dev, seq)" by (cases c0)
  let ?e = "event_of (obj s) k"
  have e: "decode_event b = Some ?e" using legacy_event_of_key [of h "obj s" k] assms(4-6) by (auto simp: mixed_ok_def)
  have nk: "eventKey h ?e \<noteq> k" using assms(6) not_legacy_eventKey [of h ?e] by metis
  from get_run [OF assms(1-3,5)] obtain s1 where 1: "r2_try h (s3_GetObject (r2_S3 h) k) s = (Inr b, s1)" "sound s1" "obj s1 = obj s" by blast
  have run: "migrateOneLegacyEvent h False k s = (if ev_device ?e \<noteq> dev \<or> ev_seq ?e \<noteq> seq then okk (0, 1) else rekey_object h k b ?e) s1"
    using 1(1) e Some c0 by (simp add: migrateOneLegacyEvent_def bindk_def labelk_def relabel_def)
  show ?thesis
  proof (cases "ev_device ?e \<noteq> dev \<or> ev_seq ?e \<noteq> seq")
    case True
    then have "\<not> moves h (obj s) k" using Some c0 by (auto simp: moves_def)
    then show ?thesis using True run 1 by (intro exI [of _ s1]) (simp add: okk_def)
  next
    case False
    have b1: "obj s1 k = Some b" and e1: "?e = event_of (obj s1) k" using assms(5) 1(3) by simp_all
    have m: "moves h (obj s) k \<longleftrightarrow> obj s1 (eventKey h ?e) = None \<or> obj s1 (eventKey h ?e) = Some b"
      using False Some c0 assms(5) 1(3) by (simp add: moves_def)
    from rekey_run [OF 1(2) assms(2,3) b1 e1 assms(7) nk] obtain s2 where s2: "sound s2"
      "if moves h (obj s) k then rekey_object h k b ?e s1 = (Inr (1, 0), s2) \<and> obj s2 = moved h (obj s) k
       else rekey_object h k b ?e s1 = (Inr (0, 1), s2) \<and> obj s2 = obj s"
      unfolding m unfolding 1(3) by blast
    have "migrateOneLegacyEvent h False k s = rekey_object h k b ?e s1" using run False by simp
    then show ?thesis using s2 by (intro exI [of _ s2]) simp
  qed
qed

text \<open>The whole migration.\<close>

lemma migrate_run:
  assumes "sound s" "calm h" "r2_S3 h = c" "roomy h (obj s)" "mixed_ok h (obj s)"
    and "\<And>k. k \<in> dom (obj s) \<Longrightarrow> prefixb (legacyEventsPrefix h) k \<Longrightarrow> key_ok (eventKey h (event_of (obj s) k))"
    and "ks = keys_after (obj s) (legacyEventsPrefix h) []"
  shows "\<exists>mg kp s'. r2_MigrateLegacyEvents h False s = (Inr (mg, kp), s') \<and> sound s' \<and> mixed_ok h (obj s') \<and>
    stored_events h (obj s') = stored_events h (obj s) \<and> obj s' (retentionKey h) = obj s (retentionKey h) \<and>
    roomy h (obj s') \<and> mg + kp = length ks \<and> kp = length (keys_after (obj s') (legacyEventsPrefix h) [])"
proof -
  let ?p = "legacyEventsPrefix h" and ?m = "obj s"
  let ?I = "\<lambda>gone (acc :: nat \<times> nat) m. mixed_ok h m \<and> stored_events h m = stored_events h ?m \<and> m (retentionKey h) = ?m (retentionKey h) \<and>
    card (dom m) \<le> card (dom ?m) \<and> (\<forall>j. prefixb ?p j \<and> j \<notin> set gone \<longrightarrow> m j = ?m j) \<and>
    fst acc + snd acc = length gone \<and> snd acc = length (filter (\<lambda>j. m j \<noteq> None) gone)"
  let ?f = "\<lambda>o1 (migrated, kept). bindk (migrateOneLegacyEvent h False (fst o1)) (\<lambda>(m, k). okk ((migrated + m, kept + k), False))"
  have fin: "finite (dom ?m)" by (rule finite_obj) fact
  have len: "length ks < r2_pages h" using finite_keys_length [OF fin, of ?p "[]"] assms(4,7) by (simp add: roomy_def)
  have srt: "sorted_wrt (<) ks" using keys_after_sorted assms(7) by simp
  have mem: "k \<in> set ks \<longleftrightarrow> k \<in> dom ?m \<and> prefixb ?p k" for k
  proof -
    have "k \<noteq> []" if "prefixb ?p k" using that by (auto simp: prefixb_def legacyEventsPrefix_def r2_workspace_def)
    then show ?thesis using in_keys_after [OF fin, of k ?p "[]"] assms(7) by (cases k) auto
  qed
  have "\<exists>acc' t'. each_page (r2_pages h) (r2_list h ''list legacy events: '' ?p 1000) ?f [] (0, 0) s = (Inr acc', t') \<and> sound t' \<and>
      (?I ks acc' (obj t') \<or> False)"
  proof (rule each_page_rule [where I = ?I and Q = "\<lambda>acc m. False", OF assms(1-3,7) len])
    show "?I [] (0, 0) ?m" using assms(5) by simp
  next
    fix gone rest acc m assume "?I gone acc m" "ks = gone @ rest"
    then show "left_to_list ?p [] gone rest m"
      using mem unfolding left_to_list_def by (auto simp: domIff)
  next
    fix gone k n rest acc t assume k: "ks = gone @ k # rest" "sound t" "?I gone acc (obj t)"
    obtain mg kp where acc: "acc = (mg, kp)" by (cases acc)
    have kk: "k \<in> dom ?m" "prefixb ?p k" "k \<notin> set gone" using mem [of k] k(1) srt by (auto simp: sorted_wrt_append)
    then have same: "obj t k = ?m k" using k(3) by blast
    then obtain b where b: "obj t k = Some b" using kk(1) by auto
    have "event_of (obj t) k = event_of ?m k" by (simp add: event_of_def same)
    then have ok: "key_ok (eventKey h (event_of (obj t) k))" using assms(6) kk by simp
    have mx: "mixed_ok h (obj t)" using k(3) by blast
    have gl: "prefixb ?p j" if "j \<in> set gone" for j using mem [of j] k(1) that by simp
    from migrate_one_run [OF k(2) assms(2,3) mx b kk(2) ok] obtain t' where t': "sound t'"
      "if moves h (obj t) k then migrateOneLegacyEvent h False k t = (Inr (1, 0), t') \<and> obj t' = moved h (obj t) k
       else migrateOneLegacyEvent h False k t = (Inr (0, 1), t') \<and> obj t' = obj t" by blast
    have "\<exists>acc'. ?f (k, n) acc t = (Inr (acc', False), t') \<and> ?I (gone @ [k]) acc' (obj t')"
    proof (cases "moves h (obj t) k")
      case True
      note M = moved_keeps [OF mx b kk(2) True finite_obj [OF k(2)]]
      have o: "obj t' = moved h (obj t) k" and r: "migrateOneLegacyEvent h False k t = (Inr (1, 0), t')" using t'(2) True by auto
      have old: "moved h (obj t) k j = obj t j" if "j \<in> set gone" for j using M gl [OF that] kk(3) that by auto
      have "filter (\<lambda>j. moved h (obj t) k j \<noteq> None) (gone @ [k]) = filter (\<lambda>j. obj t j \<noteq> None) gone"
        using old M kk(2) by (auto cong: filter_cong)
      then have "?I (gone @ [k]) (mg + 1, kp) (obj t')" unfolding o using M k(3) acc by auto
      moreover have "?f (k, n) acc t = (Inr ((mg + 1, kp), False), t')" using r by (simp add: acc bindk_def okk_def)
      ultimately show ?thesis by blast
    next
      case False
      have o: "obj t' = obj t" and r: "migrateOneLegacyEvent h False k t = (Inr (0, 1), t')" using t'(2) False by auto
      have "?I (gone @ [k]) (mg, kp + 1) (obj t')" unfolding o using k(3) acc b by auto
      moreover have "?f (k, n) acc t = (Inr ((mg, kp + 1), False), t')" using r by (simp add: acc bindk_def okk_def)
      ultimately show ?thesis by blast
    qed
    then show "\<exists>acc' leave t'. ?f (k, n) acc t = (Inr (acc', leave), t') \<and> sound t' \<and>
        (if leave then False else ?I (gone @ [k]) acc' (obj t'))" using t'(1) by force
  qed
  then obtain acc' t' where r: "each_page (r2_pages h) (r2_list h ''list legacy events: '' ?p 1000) ?f [] (0, 0) s = (Inr acc', t')"
    "sound t'" "?I ks acc' (obj t')" by blast
  have "keys_after (obj t') ?p [] = filter (\<lambda>j. obj t' j \<noteq> None) ks"
  proof (rule keys_after_eqI [OF finite_obj [OF r(2)]])
    show "sorted_wrt (<) (filter (\<lambda>j. obj t' j \<noteq> None) ks)" using srt by (rule sorted_wrt_filter)
    fix k
    have "k \<noteq> []" if "prefixb ?p k" using that by (auto simp: prefixb_def legacyEventsPrefix_def r2_workspace_def)
    moreover have "k \<in> dom ?m" if "prefixb ?p k" "k \<in> dom (obj t')" "k \<notin> set ks" using r(3) that by (metis domIff)
    ultimately show "k \<in> set (filter (\<lambda>j. obj t' j \<noteq> None) ks) \<longleftrightarrow> k \<in> dom (obj t') \<and> prefixb ?p k \<and> [] < k"
      using mem [of k] by (cases k) (auto simp: domIff)
  qed
  moreover have "roomy h (obj t')" using r(3) assms(4) unfolding roomy_def by linarith
  moreover obtain mg kp where "acc' = (mg, kp)" by (cases acc')
  ultimately show ?thesis using r by (auto simp: r2_MigrateLegacyEvents_def paged_def)
qed

text \<open>No pull can tell.\<close>

lemma migration_invisible:
  assumes "sound s" "calm h" "r2_S3 h = c" "roomy h (obj s)" "mixed_ok h (obj s)" "key_ok (retentionKey h)"
    and "floors_in w h (obj s) = Inr floors" "sane_cursor after"
    and "\<And>k. k \<in> dom (obj s) \<Longrightarrow> prefixb (legacyEventsPrefix h) k \<Longrightarrow> key_ok (eventKey h (event_of (obj s) k))"
  shows "\<exists>mg kp s'. r2_MigrateLegacyEvents h False s = (Inr (mg, kp), s') \<and>
    mg + kp = length (keys_after (obj s) (legacyEventsPrefix h) []) \<and>
    kp = length (keys_after (obj s') (legacyEventsPrefix h) []) \<and>
    fst (r2_Pull w h after s') = fst (r2_Pull w h after s)"
proof -
  obtain mg kp s' where m: "r2_MigrateLegacyEvents h False s = (Inr (mg, kp), s')" "sound s'" "mixed_ok h (obj s')"
    "stored_events h (obj s') = stored_events h (obj s)" "obj s' (retentionKey h) = obj s (retentionKey h)" "roomy h (obj s')"
    "mg + kp = length (keys_after (obj s) (legacyEventsPrefix h) [])" "kp = length (keys_after (obj s') (legacyEventsPrefix h) [])"
    using migrate_run [OF assms(1-5,9) refl] by blast
  have fl: "floors_in w h (obj s') = Inr floors" using assms(7) m(5) by (simp add: floors_in_def)
  have "fst (r2_Pull w h after s') = fst (r2_Pull w h after s)"
  proof (cases "snapshot_required floors after")
    case True
    obtain s1 s2 where "r2_retentionFloors w h s = (Inr floors, s1)" "r2_retentionFloors w h s' = (Inr floors, s2)"
      using floors_run [OF assms(1-3,6), of w] floors_run [OF m(2) assms(2,3,6), of w] assms(7) fl by auto
    then show ?thesis using True by (simp add: r2_Pull_def bindk_def errk_def)
  next
    case False
    obtain es t where p: "r2_Pull w h after s = (Inr es, t)" "set es = {e \<in> stored_events h (obj s). above after e}"
      "uniq ev_id es" "sortEvents es = es"
      using pull_run [OF assms(1-3,6,4,7) False assms(8)] assms(5) by (auto simp: mixed_ok_def)
    obtain es' t' where p': "r2_Pull w h after s' = (Inr es', t')" "set es' = {e \<in> stored_events h (obj s'). above after e}"
      "uniq ev_id es'" "sortEvents es' = es'"
      using pull_run [OF m(2) assms(2,3,6) m(6) fl False assms(8)] m(3) by (auto simp: mixed_ok_def)
    have "sortEvents es' = sortEvents es" by (rule same_sorted) (use p p' m(4) in auto)
    then show ?thesis using p p' by simp
  qed
  then show ?thesis using m by blast
qed

end

end
