(* ===== verification/R2_Claims.thy ===== *)
theory R2_Claims
  imports R2_Migration
begin

section \<open>What the folder hub promises\<close>

subsection \<open>Concrete stores\<close>

text \<open>A folder with the given objects, and the hub on it.\<close>

definition folder_with :: "(string \<times> string) list \<Rightarrow> fs_store" where
  "folder_with os = (empty_folder 0)\<lparr>fs_files := map (\<lambda>(k, b). \<lparr>df_name = k, df_bytes = b, df_mtime = 0\<rparr>) os\<rparr>"

abbreviation sample_folder :: "fs_store r2_hub" where
  "sample_folder \<equiv> folder_hub (plain_world 0) ''w'' [] (\<lambda>n. 0) 100"

definition old_key :: string where "old_key = ''workspaces/w/events/00000000000000000007/d/1/a.json''"

lemma sample_keys:
  "retentionKey sample_folder = ''workspaces/w/meta/retention.json''"
  "eventKey sample_folder (hub_event ''a'' 1) = ''workspaces/w/eventlog/d/00000000000000000001_a.json''"
  "eventlogPrefix sample_folder = ''workspaces/w/eventlog/''" "legacyEventsPrefix sample_folder = ''workspaces/w/events/''"
proof -
  have p: "pad20 1 = ''00000000000000000001''" by code_simp
  show "retentionKey sample_folder = ''workspaces/w/meta/retention.json''"
    "eventKey sample_folder (hub_event ''a'' 1) = ''workspaces/w/eventlog/d/00000000000000000001_a.json''"
    "eventlogPrefix sample_folder = ''workspaces/w/eventlog/''" "legacyEventsPrefix sample_folder = ''workspaces/w/events/''"
    by (simp_all add: retentionKey_def eventKey_def devicePrefix_def eventlogPrefix_def legacyEventsPrefix_def r2_workspace_def
      folder_hub_def event_zero_def p)
qed

lemma sample_valid:
  "fs_key_ok ''workspaces/w/meta/retention.json''"
  "fs_key_ok ''workspaces/w/eventlog/d/00000000000000000001_a.json''" "fs_key_ok old_key"
  unfolding old_key_def by code_simp+

lemma sample_storable: "storable (hub_event ''a'' 1)"
  by (simp add: storable_def ascii_event_def event_zero_def int64_def is_ascii_def)

lemma empty_obj: "fs_obj (empty_folder 0) = Map.empty"
  by (simp add: fun_eq_iff fs_obj_def fs_read_def file_bytes_def empty_folder_def)

lemma sample_sizes [simp]: "r2_pages sample_folder = 100" "r2_RetentionSeqs sample_folder = []"
  by (simp_all add: folder_hub_def)

lemma empty_sound:
  "fs_sound (empty_folder 0)" "stored_events h (fs_obj (empty_folder 0)) = {}"
  "folder_sound (plain_world 0) sample_folder (empty_folder 0)"
  "floors_of (plain_world 0) sample_folder (fs_obj (empty_folder 0)) = []"
proof -
  show s: "fs_sound (empty_folder 0)" by (simp add: fs_sound_def empty_folder_def uniq_def)
  show e: "stored_events h (fs_obj (empty_folder 0)) = {}" for h by (simp add: stored_events_def event_keys_def empty_obj)
  show "folder_sound (plain_world 0) sample_folder (empty_folder 0)"
    using s e [of sample_folder] sample_valid(1) unfolding empty_obj
    by (simp add: folder_sound_def stream_sound_def good_stream_def no_legacy_def one_per_id_def roomy_def floors_in_def
        sample_keys(1) empty_obj)
  show "floors_of (plain_world 0) sample_folder (fs_obj (empty_folder 0)) = []"
    by (simp add: floors_of_def floors_in_def empty_obj override_floors_def)
qed

text \<open>C39: the file hub and the folder hub are interchangeable: a well-formed file hub and a
  well-formed folder store that hold the same events (each id once) and give the same floors take the
  same push and then answer every pull from a sane cursor alike, event for event, or both ask for the
  snapshot. The pushed events must be ones that a folder can store: positive sequence numbers, ids and
  devices that make valid keys, one place per id, and no more of them than the listing has pages for (an
  id that makes no valid key is refused by the folder and accepted by the file hub). A sane cursor
  has each device once, 64-bit numbers and no slash in a device. The folder store is the plain one;
  the git carrier, which refreshes and commits around the same operations, is not modelled.\<close>

theorem backends_agree:
  assumes "file_sound w seqs hf" and "folder_sound w (folder_hub w ws seqs' rnd n) s"
    and "set (file_log hf) = stored_events (folder_hub w ws seqs' rnd n) (fs_obj s)" and "uniq ev_id (file_log hf)"
    and "file_floors w seqs hf = floors_of w (folder_hub w ws seqs' rnd n) (fs_obj s)"
    and "pushable fs_key_ok (folder_hub w ws seqs' rnd n) (fs_obj s) events" and "sane_cursor after"
  shows "\<exists>hf' s'. hub_Push events hf = Inr hf' \<and> r2_Push (folder_hub w ws seqs' rnd n) events s = (Inr (), s') \<and>
     hub_Pull w seqs after hf' = fst (r2_Pull w (folder_hub w ws seqs' rnd n) after s')"
proof -
  let ?h = "folder_hub w ws seqs' rnd n"
  have a: "fs_sound s \<and> fs_key_ok (retentionKey ?h) \<and> stream_sound w ?h (fs_obj s)"
    using assms(2) by (simp add: folder_sound_def)
  have fin: "finite (dom (fs_obj s))" using fs.finite_obj a by blast
  have L: "set (log_in ?h (fs_obj s)) = stored_events ?h (fs_obj s)" "uniq ev_id (log_in ?h (fs_obj s))"
    using log_in_props [OF fin, of ?h] a by (simp_all add: stream_sound_def)
  obtain hf' where f: "hub_Push events hf = Inr hf'" "file_sound w seqs hf'" "file_floors w seqs hf' = file_floors w seqs hf"
    "set (file_log hf') = first_wins (file_log hf) events" "uniq ev_id (file_log hf')"
    using fh.push_ok [OF assms(1) TrueI, of events] assms(4) by auto
  obtain s' where s': "as_push (r2_Push ?h events) s = Inr s'"
    "fs_sound s' \<and> fs_key_ok (retentionKey ?h) \<and> stream_sound w ?h (fs_obj s')"
    "floors_of w ?h (fs_obj s') = floors_of w ?h (fs_obj s)" "set (log_in ?h (fs_obj s')) = first_wins (log_in ?h (fs_obj s)) events"
    "uniq ev_id (log_in ?h (fs_obj s'))"
    using fsh.r2.push_ok [OF a assms(6)] L(2) by blast
  have push: "r2_Push ?h events s = (Inr (), s')"
    using s'(1) by (auto simp: as_push_def split: prod.splits sum.splits)
  have "hub_Pull w seqs after hf' = fst (r2_Pull w ?h after s')"
  proof (cases "snapshot_required (floors_of w ?h (fs_obj s)) after")
    case True
    then have "snapshot_required (file_floors w seqs hf') after" "snapshot_required (floors_of w ?h (fs_obj s')) after"
      using f(3) s'(3) assms(5) by simp_all
    then show ?thesis using fh.pull_gap [OF f(2)] fsh.r2.pull_gap [OF s'(2)] by simp
  next
    case False
    have n: "\<not> snapshot_required (file_floors w seqs hf') after" "\<not> snapshot_required (floors_of w ?h (fs_obj s')) after"
      using False f(3) s'(3) assms(5) by simp_all
    have "set (file_log hf') = set (log_in ?h (fs_obj s'))"
      unfolding f(4) s'(4) using assms(3) L(1) by (intro first_wins_cong) simp
    then have "sortEvents (filter (above after) (file_log hf')) = sortEvents (filter (above after) (log_in ?h (fs_obj s')))"
      by (intro same_sorted uniq_filtered f(5) s'(5)) simp
    then show ?thesis using fh.pull_ok [OF f(2) TrueI n(1)] fsh.r2.pull_ok [OF s'(2) assms(7) n(2)] by simp
  qed
  then show ?thesis using f(1) push by blast
qed

theorem backends_agree_witness:
  "\<exists>s'. r2_Push sample_folder [hub_event ''a'' 1] (empty_folder 0) = (Inr (), s') \<and>
     fst (r2_Pull (plain_world 0) sample_folder [] s') = Inr [hub_event ''a'' 1]"
proof -
  have h: "file_sound (plain_world 0) [] empty_hub" "file_log empty_hub = []" "file_floors (plain_world 0) [] empty_hub = []"
    using sample_hub by (auto simp: file_sound_def file_log_def file_floors_def)
  have p: "pushable fs_key_ok sample_folder (fs_obj (empty_folder 0)) [hub_event ''a'' 1]"
    using sample_storable sample_valid(2) empty_sound(2) [of sample_folder]
    by (simp add: pushable_def same_places_def empty_obj sample_keys(2))
  have c: "sane_cursor []" by (simp add: sane_cursor_def)
  obtain hf' s' where r: "hub_Push [hub_event ''a'' 1] empty_hub = Inr hf'"
    "r2_Push sample_folder [hub_event ''a'' 1] (empty_folder 0) = (Inr (), s')"
    "hub_Pull (plain_world 0) [] [] hf' = fst (r2_Pull (plain_world 0) sample_folder [] s')"
    using backends_agree [OF h(1) empty_sound(3) _ _ _ p c] h(2,3) empty_sound(2,4) by (auto simp: uniq_def)
  have "hf' = empty_hub\<lparr>fh_log := Log [hub_event ''a'' 1]\<rparr>"
    using r(1) by (simp add: hub_Push_def sample_hub push_event_def sortEvents_def hub_write_def)
  then have "hub_Pull (plain_world 0) [] [] hf' = Inr [hub_event ''a'' 1]"
    by (simp add: hub_Pull_def hub_retentionFloors_def hub_GetRetention_def fail_def empty_hub_def hub_read_def
        snapshot_required_def above_def After_def event_zero_def sortEvents_def)
  then show ?thesis using r(2,3) by auto
qed

subsection \<open>Migration\<close>

text \<open>Migrating the retired layout loses and changes nothing: on a folder whose objects in both
  layouts decode to one event per id, with keys that agree with their bodies, the migration ends
  with every legacy object counted as moved or kept, the kept ones are those still there, and
  every pull, from whatever cursor, returns afterwards exactly what it returned before.\<close>

theorem migration_is_invisible:
  assumes "fs_sound s" and "h = folder_hub w ws seqs rnd n" and "roomy h (fs_obj s)" and "mixed_ok h (fs_obj s)"
    and "fs_key_ok (retentionKey h)" and "floors_in w h (fs_obj s) = Inr floors" and "sane_cursor after"
    and "\<And>k. k \<in> dom (fs_obj s) \<Longrightarrow> prefixb (legacyEventsPrefix h) k \<Longrightarrow> fs_key_ok (eventKey h (event_of (fs_obj s) k))"
  shows "\<exists>mg kp s'. r2_MigrateLegacyEvents h False s = (Inr (mg, kp), s') \<and>
    mg + kp = length (keys_after (fs_obj s) (legacyEventsPrefix h) []) \<and>
    kp = length (keys_after (fs_obj s') (legacyEventsPrefix h) []) \<and>
    fst (r2_Pull w h after s') = fst (r2_Pull w h after s)"
proof -
  have c: "calm h" "r2_S3 h = fs_client w" by (simp_all add: assms(2) folder_hub_def calm_def fs_env_def)
  from fs.migration_invisible [OF assms(1) c assms(3-8)] show ?thesis .
qed

definition old_store :: fs_store where
  "old_store = folder_with [(old_key, marshal_event (hub_event ''a'' 1))]"

lemma old_obj: "fs_obj old_store = [old_key \<mapsto> marshal_event (hub_event ''a'' 1)]"
  using sample_valid(3)
  by (simp add: fun_eq_iff fs_obj_def fs_read_def file_bytes_def old_store_def folder_with_def)

lemma old_facts:
  "prefixb ''workspaces/w/events/'' old_key" "\<not> prefixb ''workspaces/w/eventlog/'' old_key"
  "old_key \<noteq> ''workspaces/w/meta/retention.json''" "legacy_coords sample_folder old_key = Some (''d'', 1)"
proof -
  show 1: "prefixb ''workspaces/w/events/'' old_key" "\<not> prefixb ''workspaces/w/eventlog/'' old_key"
    "old_key \<noteq> ''workspaces/w/meta/retention.json''" unfolding old_key_def by code_simp+
  have "split_on CHR ''/'' (trim_prefix old_key ''workspaces/w/events/'') = [''00000000000000000007'', ''d'', ''1'', ''a.json'']"
    "parse_int64 ''1'' = Some 1"
    unfolding old_key_def by code_simp+
  then show "legacy_coords sample_folder old_key = Some (''d'', 1)" by (simp add: legacy_coords_def sample_keys(4))
qed

lemma old_sound:
  "fs_sound old_store" "event_of (fs_obj old_store) old_key = hub_event ''a'' 1" "roomy sample_folder (fs_obj old_store)"
  "mixed_ok sample_folder (fs_obj old_store)" "floors_in (plain_world 0) sample_folder (fs_obj old_store) = Inr []"
proof -
  have k: "visible old_key \<longrightarrow> keyPath old_key = Inr old_key" using sample_valid(3) by (simp add: fs_key_ok_def)
  then show "fs_sound old_store" by (simp add: fs_sound_def old_store_def folder_with_def empty_folder_def uniq_def)
  have d: "decode_event (marshal_event (hub_event ''a'' 1)) = Some (hub_event ''a'' 1)"
    by (rule decode_storable) (rule sample_storable)
  show e: "event_of (fs_obj old_store) old_key = hub_event ''a'' 1" by (simp add: event_of_def old_obj d)
  show "roomy sample_folder (fs_obj old_store)" by (simp add: roomy_def old_obj)
  have "stored_events sample_folder (fs_obj old_store) = {hub_event ''a'' 1}"
    using e old_facts by (auto simp: stored_events_def event_keys_def old_obj sample_keys split: if_splits)
  then show "mixed_ok sample_folder (fs_obj old_store)"
    using d old_facts sample_storable
    by (simp add: mixed_ok_def good_stream_def good_legacy_def one_per_id_def old_obj sample_keys event_zero_def)
  show "floors_in (plain_world 0) sample_folder (fs_obj old_store) = Inr []"
    using old_facts(3) by (simp add: floors_in_def old_obj sample_keys override_floors_def)
qed

theorem migration_is_invisible_witness:
  "\<exists>mg kp s'. r2_MigrateLegacyEvents sample_folder False old_store = (Inr (mg, kp), s') \<and> mg + kp = 1 \<and>
    fst (r2_Pull (plain_world 0) sample_folder [] s') = fst (r2_Pull (plain_world 0) sample_folder [] old_store)"
proof -
  have c: "sane_cursor []" by (simp add: sane_cursor_def)
  have r: "fs_key_ok (retentionKey sample_folder)" using sample_valid(1) by (simp add: sample_keys)
  have k: "fs_key_ok (eventKey sample_folder (event_of (fs_obj old_store) k))" if "k \<in> dom (fs_obj old_store)" for k
  proof -
    have "k = old_key" using that by (simp add: old_obj split: if_splits)
    then show ?thesis using sample_valid(2) by (simp add: old_sound(2) sample_keys(2))
  qed
  have "keys_after (fs_obj old_store) (legacyEventsPrefix sample_folder) [] = [old_key]"
    using old_facts(1) by (intro keys_after_eqI) (auto simp: old_obj sample_keys old_key_def split: if_splits)
  then show ?thesis
    using migration_is_invisible [OF old_sound(1) refl old_sound(3,4) r old_sound(5) c k] by auto
qed

end
