(* ===== verification/Json_Tree.thy ===== *)
theory Json_Tree
  imports Json
begin

section \<open>Nested JSON documents\<close>

text \<open>
  What \<^verbatim>\<open>json.Marshal\<close> writes for a tree of structs, slices, maps and pointers, and that
  \<^verbatim>\<open>json.Unmarshal\<close> reads it back. \<open>reads h v j\<close> says that the text \<open>v\<close> parses to
  \<open>j\<close> wherever a value may stand with \<open>h\<close> more levels of nesting allowed, and
  \<open>codes h v fs zero x\<close> that a struct decoder then finds \<open>x\<close>. The parser's fuel is paid for by
  the characters of the text, so that the bound on it is the length of \<open>v\<close>.
\<close>

definition marshal_arr :: "string list \<Rightarrow> string" where
  "marshal_arr vs = ''['' @ join_commas vs @ '']''"

text \<open>Fields of the other kinds: a slice or a map with \<^verbatim>\<open>omitempty\<close>, a pointer.\<close>

definition jarr_opt :: "string \<Rightarrow> ('a \<Rightarrow> string) \<Rightarrow> 'a list \<Rightarrow> (string \<times> string) option" where
  "jarr_opt name m xs = (if xs = [] then None else Some (name, marshal_arr (map m xs)))"

definition jptr_opt :: "string \<Rightarrow> ('a \<Rightarrow> string) \<Rightarrow> 'a option \<Rightarrow> (string \<times> string) option" where
  "jptr_opt name m p = map_option (\<lambda>x. (name, m x)) p"

definition marshal_strmap :: "(string \<times> string) list \<Rightarrow> string" where
  "marshal_strmap c = marshal_obj (map (\<lambda>(k, v). jstr k v) (sort_key fst c))"

definition jstrmap_opt :: "string \<Rightarrow> (string \<times> string) list \<Rightarrow> (string \<times> string) option" where
  "jstrmap_opt name c = (if c = [] then None else Some (name, marshal_strmap c))"

definition struct_of :: "'s field list \<Rightarrow> 's \<Rightarrow> json \<Rightarrow> 's option" where
  "struct_of fs zero j = (case j of JNull \<Rightarrow> Some zero | JObj ms \<Rightarrow> set_fields fs ms zero | _ \<Rightarrow> None)"

text \<open>A slice of structs; a pointer to a struct, which a second occurrence of the field fills further.\<close>

definition structs_field ::
  "string \<Rightarrow> 's field list \<Rightarrow> 's \<Rightarrow> (('s list \<Rightarrow> 's list) \<Rightarrow> 'r \<Rightarrow> 'r) \<Rightarrow> 'r field" where
  "structs_field name fs zero upd = (name, \<lambda>j r. case j of
     JNull \<Rightarrow> Some (upd (\<lambda>_. []) r)
   | JArr js \<Rightarrow> map_option (\<lambda>xs. upd (\<lambda>_. xs) r) (those (map (struct_of fs zero) js))
   | _ \<Rightarrow> None)"

definition ptr_field ::
  "string \<Rightarrow> 's field list \<Rightarrow> 's \<Rightarrow> (('s option \<Rightarrow> 's option) \<Rightarrow> 'r \<Rightarrow> 'r) \<Rightarrow> ('r \<Rightarrow> 's option) \<Rightarrow> 'r field" where
  "ptr_field name fs zero upd get = (name, \<lambda>j r. case j of
     JNull \<Rightarrow> Some (upd (\<lambda>_. None) r)
   | JObj ms \<Rightarrow> map_option (\<lambda>x. upd (\<lambda>_. Some x) r)
       (set_fields fs ms (case get r of None \<Rightarrow> zero | Some y \<Rightarrow> y))
   | _ \<Rightarrow> None)"

subsection \<open>Reading a value in its place\<close>

definition value_start :: "string \<Rightarrow> bool" where
  "value_start v \<longleftrightarrow> v \<noteq> [] \<and> \<not> json_ws (hd v) \<and> nat_of (hd v) \<notin> {93, 125}"

definition reads :: "nat \<Rightarrow> string \<Rightarrow> json \<Rightarrow> bool" where
  "reads h v j \<longleftrightarrow> value_start v \<and>
     (\<forall>k d r. length v \<le> k \<longrightarrow> d + h \<le> max_depth \<longrightarrow> delim r \<longrightarrow> parse_val k d (v @ r) = Some (j, r))"

lemma readsD:
  "reads h v j \<Longrightarrow> length v \<le> k \<Longrightarrow> d + h \<le> max_depth \<Longrightarrow> delim r \<Longrightarrow> parse_val k d (v @ r) = Some (j, r)"
  by (simp add: reads_def)

lemma reads_start: "reads h v j \<Longrightarrow> value_start v"
  by (simp add: reads_def)

lemma reads_mono: "reads h v j \<Longrightarrow> h \<le> h' \<Longrightarrow> reads h' v j"
  by (simp add: reads_def)

lemma reads_renders: "renders v j \<Longrightarrow> value_start v \<Longrightarrow> reads h v j"
  unfolding reads_def renders_def value_start_def
  by (metis One_nat_def Suc_le_D le_trans length_0_conv less_Suc0 not_less)

lemma reads_quote: "ascii_str s \<Longrightarrow> reads h (json_quote s) (JStr s)"
  by (rule reads_renders [OF renders_quote]) (simp_all add: value_start_def json_quote_def json_ws_def)

lemma reads_int: "reads h (show_int i) (JInt i)"
proof (rule reads_renders [OF renders_int])
  show "value_start (show_int i)"
    by (rule show_int_head [of i]) (auto simp: value_start_def is_digit_def json_ws_def)
qed

lemma reads_null: "reads h ''null'' JNull"
proof -
  have "parse_val (Suc k) d (''null'' @ r) = Some (JNull, r)" for k d r
    by (simp add: skip_ws_def json_ws_def prefixb_def)
  then show ?thesis unfolding reads_def value_start_def
    by (auto simp: json_ws_def Suc_le_eq gr0_conv_Suc dest!: less_imp_Suc_add)
qed

lemma delim_cons [simp]: "delim (c # r) \<longleftrightarrow> nat_of c \<in> {44, 93, 125}"
  by (simp add: delim_def)

lemma delim_Nil [simp]: "delim []"
  by (simp add: delim_def)

lemma skip_start: "value_start v \<Longrightarrow> skip_ws (v @ r) = v @ r"
  by (cases v) (auto simp: value_start_def skip_ws_def)

lemma skip_punct [simp]:
  "skip_ws (CHR '':'' # u) = CHR '':'' # u" "skip_ws (CHR ''}'' # u) = CHR ''}'' # u"
  "skip_ws (CHR '','' # u) = CHR '','' # u" "skip_ws (CHR '']'' # u) = CHR '']'' # u"
  "skip_ws (CHR ''{'' # u) = CHR ''{'' # u" "skip_ws (CHR ''['' # u) = CHR ''['' # u"
  by (simp_all add: skip_ws_def json_ws_def)

lemma parse_elems_reads:
  assumes "vs \<noteq> []" and "length (join_commas vs) < n" and "d + h \<le> max_depth" and "list_all2 (reads h) vs js"
  shows "parse_elems n d (join_commas vs @ CHR '']'' # r) = Some (js, r)"
  using assms
proof (induction vs arbitrary: n js)
  case (Cons v vs)
  from Cons.prems(4) obtain j js' where js: "js = j # js'" and v: "reads h v j" and tl: "list_all2 (reads h) vs js'"
    by (auto simp: list_all2_Cons1)
  obtain n' where n: "n = Suc n'" using Cons.prems(2) by (cases n) auto
  show ?case
  proof (cases vs)
    case Nil
    then have "parse_val n' d (v @ CHR '']'' # r) = Some (j, CHR '']'' # r)"
      using Cons.prems(2,3) n by (intro readsD [OF v]) simp_all
    then show ?thesis using tl unfolding Nil n js by simp
  next
    case (Cons u us)
    have "parse_val n' d (v @ CHR '','' # join_commas vs @ CHR '']'' # r) =
        Some (j, CHR '','' # join_commas vs @ CHR '']'' # r)"
      using Cons.prems(2,3) n Cons by (intro readsD [OF v]) simp_all
    moreover have "parse_elems n' d (join_commas vs @ CHR '']'' # r) = Some (js', r)"
      by (rule Cons.IH [OF _ _ Cons.prems(3) tl]) (use Cons.prems(2) n Cons in simp_all)
    ultimately show ?thesis unfolding Cons n js by simp
  qed
qed simp

lemma parse_members_reads:
  assumes "fs \<noteq> []" and "length (obj_body fs) < n" and "d + h \<le> max_depth"
    and "list_all2 (\<lambda>(k, v) (k', j). k' = k \<and> ascii_str k \<and> reads h v j) fs ms"
  shows "parse_members n d (obj_body fs @ CHR ''}'' # r) = Some (ms, r)"
  using assms
proof (induction fs arbitrary: n ms)
  case (Cons f fs)
  obtain k v where f: "f = (k, v)" by (cases f)
  from Cons.prems(4) obtain j ms' where ms: "ms = (k, j) # ms'" and k: "ascii_str k" and v: "reads h v j"
    and tl: "list_all2 (\<lambda>(k, v) (k', j). k' = k \<and> ascii_str k \<and> reads h v j) fs ms'"
    by (auto simp: f list_all2_Cons1)
  obtain n' where n: "n = Suc n'" using Cons.prems(2) by (cases n) auto
  have key: "parse_str (Suc (length (quote_chars (length k) k @ chr 34 # u)))
      (quote_chars (length k) k @ chr 34 # u) = Some (k, u)" for u
    using length_quote_chars [OF k] by (intro parse_str_quote [OF k]) simp
  show ?case
  proof (cases fs)
    case Nil
    have "parse_val n' d (v @ CHR ''}'' # r) = Some (j, CHR ''}'' # r)"
      using Cons.prems(2,3) n Nil f by (intro readsD [OF v]) (simp_all add: obj_body_def)
    then show ?thesis
      using tl key [of "CHR '':'' # v @ CHR ''}'' # r"] unfolding f Nil n ms
      by (simp add: obj_body_def json_quote_def)
  next
    case (Cons g gs)
    have body: "obj_body (f # fs) = json_quote k @ '':'' @ v @ '','' @ obj_body fs"
      by (simp add: obj_body_def f Cons)
    have "parse_val n' d (v @ CHR '','' # obj_body fs @ CHR ''}'' # r) =
        Some (j, CHR '','' # obj_body fs @ CHR ''}'' # r)"
      using Cons.prems(2,3) n by (intro readsD [OF v]) (simp_all add: body)
    moreover have "parse_members n' d (obj_body fs @ CHR ''}'' # r) = Some (ms', r)"
      by (rule Cons.IH [OF _ _ Cons.prems(3) tl]) (use Cons.prems(2) n Cons body in simp_all)
    ultimately show ?thesis
      using key [of "CHR '':'' # v @ CHR '','' # obj_body fs @ CHR ''}'' # r"] unfolding body n ms
      by (simp add: json_quote_def)
  qed
qed simp

lemma marshal_obj_body: "marshal_obj fs = CHR ''{'' # obj_body (List.map_filter id fs) @ ''}''"
  by (simp add: marshal_obj_def obj_body_def)

text \<open>An object is read back whatever follows it.\<close>

lemma parse_val_obj:
  assumes "list_all2 (\<lambda>(k, v) (k', j). k' = k \<and> ascii_str k \<and> reads h v j) (List.map_filter id fs) ms"
    and "length (marshal_obj fs) \<le> k" and "d + Suc h \<le> max_depth"
  shows "parse_val k d (marshal_obj fs @ r) = Some (JObj ms, r)"
proof -
  let ?b = "List.map_filter id fs"
  obtain k' where k: "k = Suc k'" using assms(2) by (cases k) (auto simp: marshal_obj_body)
  show ?thesis
  proof (cases ?b)
    case Nil
    then show ?thesis using assms(1,3) by (simp add: marshal_obj_body obj_body_def k)
  next
    case (Cons f gs)
    obtain u where u: "obj_body ?b = chr 34 # u"
      by (cases f; cases gs) (auto simp: obj_body_def Cons json_quote_def)
    have "parse_members k' (Suc d) (obj_body ?b @ CHR ''}'' # r) = Some (ms, r)"
      by (rule parse_members_reads [OF _ _ _ assms(1)]) (use assms(2,3) k in \<open>simp_all add: Cons marshal_obj_body\<close>)
    then show ?thesis using assms(3) u
      by (simp add: marshal_obj_body k)
  qed
qed

lemma reads_obj:
  assumes "list_all2 (\<lambda>(k, v) (k', j). k' = k \<and> ascii_str k \<and> reads h v j) (List.map_filter id fs) ms"
  shows "reads (Suc h) (marshal_obj fs) (JObj ms)"
  unfolding reads_def using parse_val_obj [OF assms]
  by (simp add: value_start_def marshal_obj_body json_ws_def)

lemma reads_arr:
  assumes "list_all2 (reads h) vs js"
  shows "reads (Suc h) (marshal_arr vs) (JArr js)"
proof -
  have "parse_val k d (marshal_arr vs @ r) = Some (JArr js, r)"
    if k: "length (marshal_arr vs) \<le> k" and d: "d + Suc h \<le> max_depth" for k d r
  proof -
    obtain k' where k': "k = Suc k'" using k by (cases k) (auto simp: marshal_arr_def)
    show ?thesis
    proof (cases vs)
      case Nil
      then show ?thesis using assms d by (simp add: marshal_arr_def k')
    next
      case (Cons v us)
      have v: "value_start v" using assms Cons by (auto simp: list_all2_Cons1 dest: reads_start)
      obtain c u where u: "join_commas vs = c # u" "\<not> json_ws c" "nat_of c \<noteq> 93"
        using v unfolding Cons by (cases v; cases us) (auto simp: value_start_def)
      have "parse_elems k' (Suc d) (join_commas vs @ CHR '']'' # r) = Some (js, r)"
        by (rule parse_elems_reads [OF _ _ _ assms]) (use k d k' in \<open>simp_all add: Cons marshal_arr_def\<close>)
      moreover have "skip_ws (c # u @ CHR '']'' # r) = c # u @ CHR '']'' # r" using u(2) by (simp add: skip_ws_def)
      ultimately show ?thesis using d u by (simp add: marshal_arr_def k')
    qed
  qed
  then show ?thesis by (simp add: reads_def value_start_def marshal_arr_def json_ws_def)
qed

lemma reads_parse:
  assumes "reads h v j" and "h \<le> max_depth"
  shows "parse_json v = Some j"
  using readsD [OF assms(1), of "2 * length v + 2" 0 "[]"] assms(2)
  by (simp add: parse_json_def skip_ws_def)

subsection \<open>Decoding a struct\<close>

definition codes :: "nat \<Rightarrow> string \<Rightarrow> 'r field list \<Rightarrow> 'r \<Rightarrow> 'r \<Rightarrow> bool" where
  "codes h v fs zero x \<longleftrightarrow> (\<exists>ms. reads h v (JObj ms) \<and> set_fields fs ms zero = Some x)"

lemma set_fields_append:
  "set_fields fs (xs @ ys) r = (case set_fields fs xs r of None \<Rightarrow> None | Some r' \<Rightarrow> set_fields fs ys r')"
  by (induction fs xs r rule: set_fields.induct) (auto split: option.splits)

lemma codes_unmarshal: "codes h v fs zero x \<Longrightarrow> h \<le> max_depth \<Longrightarrow> unmarshal fs zero v = Some x"
  by (auto simp: codes_def unmarshal_def dest: reads_parse)

lemma codesI:
  assumes "list_all2 (\<lambda>(k, v) (k', j). k' = k \<and> ascii_str k \<and> reads h v j) (List.map_filter id ps) ms"
    and "set_fields fs ms zero = Some x"
  shows "codes (Suc h) (marshal_obj ps) fs zero x"
  unfolding codes_def using reads_obj [OF assms(1)] assms(2) by blast

lemma codes_mono: "codes h v fs zero x \<Longrightarrow> h \<le> h' \<Longrightarrow> codes h' v fs zero x"
  by (auto simp: codes_def intro: reads_mono)

text \<open>A slice of structs.\<close>

lemma codes_slice:
  assumes "\<And>x. x \<in> set xs \<Longrightarrow> codes h (m x) fs zero x"
  shows "\<exists>js. reads (Suc h) (marshal_arr (map m xs)) (JArr js) \<and> those (map (struct_of fs zero) js) = Some xs"
proof -
  have "\<exists>js. list_all2 (reads h) (map m xs) js \<and> those (map (struct_of fs zero) js) = Some xs"
    using assms
  proof (induction xs)
    case (Cons x xs)
    then obtain js where "list_all2 (reads h) (map m xs) js" "those (map (struct_of fs zero) js) = Some xs" by auto
    moreover obtain ms where "reads h (m x) (JObj ms)" and "set_fields fs ms zero = Some x"
      using Cons.prems [of x] by (auto simp: codes_def)
    moreover have "struct_of fs zero (JObj ms) = Some x"
      using \<open>set_fields fs ms zero = Some x\<close> by (simp add: struct_of_def)
    ultimately show ?case by (intro exI [of _ "JObj ms # js"]) simp
  qed simp
  then show ?thesis by (blast intro: reads_arr)
qed

subsection \<open>Maps\<close>

text \<open>A map is read back as the list of its members in the order of the keys: \<open>canonical\<close>.\<close>

definition canonical :: "(string \<times> 'v) list \<Rightarrow> bool" where
  "canonical m \<longleftrightarrow> sorted (map fst m) \<and> distinct (map fst m)"

lemma sort_canonical: "canonical m \<Longrightarrow> sort_key fst m = m"
  by (simp add: canonical_def sorted_sort_id sort_key_id_if_sorted)

lemma put_assoc_snoc: "k \<notin> fst ` set m \<Longrightarrow> put_assoc k v m = m @ [(k, v)]"
  by (induction m) auto

lemma int_map_of_members_append:
  "distinct (map fst (a @ m)) \<Longrightarrow> \<forall>(k, i) \<in> set m. int64 i \<Longrightarrow>
     int_map_of_members (map (\<lambda>(k, i). (k, JInt i)) m) a = Some (a @ m)"
proof (induction m arbitrary: a)
  case (Cons x m)
  obtain k i where x: "x = (k, i)" by (cases x)
  have "put_assoc k i a = a @ [(k, i)]" using Cons.prems(1) by (intro put_assoc_snoc) (auto simp: x)
  then show ?case using Cons.IH [of "a @ [x]"] Cons.prems by (simp add: x)
qed simp

lemma map_of_members_append:
  "distinct (map fst (a @ m)) \<Longrightarrow> map_of_members (map (\<lambda>(k, i). (k, JStr i)) m) a = Some (a @ m)"
proof (induction m arbitrary: a)
  case (Cons x m)
  obtain k i where x: "x = (k, i)" by (cases x)
  have "put_assoc k i a = a @ [(k, i)]" using Cons.prems(1) by (intro put_assoc_snoc) (auto simp: x)
  then show ?case using Cons.IH [of "a @ [x]"] Cons.prems by (simp add: x)
qed simp

lemma map_filter_some: "List.map_filter id (map (\<lambda>x. Some (f x)) m) = map f m"
  by (induction m) (simp_all add: List.map_filter_def)

lemma reads_strmap:
  assumes "canonical m" and "\<forall>(k, v) \<in> set m. ascii_str k \<and> ascii_str v"
  shows "reads (Suc h) (marshal_strmap m) (JObj (map (\<lambda>(k, i). (k, JStr i)) m))"
  unfolding marshal_strmap_def sort_canonical [OF assms(1)] jstr_def case_prod_beta
  by (rule reads_obj, unfold map_filter_some)
    (use assms(2) in \<open>auto simp: list_all2_map1 list_all2_map2 list_all2_same reads_quote\<close>)

subsection \<open>One rule per kind of field\<close>

text \<open>\<open>field_ok h fs p r r'\<close>: what is written for one field is read back and takes the struct from
  \<open>r\<close> to \<open>r'\<close>; an omitted field leaves it as it is.\<close>

definition field_ok :: "nat \<Rightarrow> 'r field list \<Rightarrow> (string \<times> string) option \<Rightarrow> 'r \<Rightarrow> 'r \<Rightarrow> bool" where
  "field_ok h fs p r r' \<longleftrightarrow> (case p of None \<Rightarrow> r' = r
     | Some (k, v) \<Rightarrow> ascii_str k \<and> (\<exists>j. reads h v j \<and> set_field fs k j r = Some r'))"

fun fields_ok :: "nat \<Rightarrow> 'r field list \<Rightarrow> (string \<times> string) option list \<Rightarrow> 'r \<Rightarrow> 'r \<Rightarrow> bool" where
  "fields_ok h fs [] r r' \<longleftrightarrow> r = r'"
| "fields_ok h fs (p # ps) r r' \<longleftrightarrow> (\<exists>r1. field_ok h fs p r r1 \<and> fields_ok h fs ps r1 r')"

lemma fields_Cons: "field_ok h fs p r r1 \<Longrightarrow> fields_ok h fs ps r1 r' \<Longrightarrow> fields_ok h fs (p # ps) r r'"
  by auto

lemma map_filter_id:
  "List.map_filter id [] = []" "List.map_filter id (None # ps) = List.map_filter id ps"
  "List.map_filter id (Some x # ps) = x # List.map_filter id ps"
  by (simp_all only: List.map_filter_simps id_apply option.case)

lemma fields_members:
  assumes "fields_ok h fs ps r r'"
  shows "\<exists>ms. list_all2 (\<lambda>(k, v) (k', j). k' = k \<and> ascii_str k \<and> reads h v j) (List.map_filter id ps) ms \<and>
     set_fields fs ms r = Some r'"
  using assms
proof (induction ps arbitrary: r)
  case (Cons p ps)
  then obtain r1 where p: "field_ok h fs p r r1" and ps: "fields_ok h fs ps r1 r'" by auto
  obtain ms where ms: "list_all2 (\<lambda>(k, v) (k', j). k' = k \<and> ascii_str k \<and> reads h v j) (List.map_filter id ps) ms"
    "set_fields fs ms r1 = Some r'" using Cons.IH [OF ps] by blast
  show ?case
  proof (cases p)
    case None
    then have "r1 = r" using p by (simp add: field_ok_def)
    then show ?thesis using ms unfolding None map_filter_id by blast
  next
    case (Some kv)
    obtain k v where kv: "kv = (k, v)" by (cases kv)
    obtain j where "ascii_str k" "reads h v j" "set_field fs k j r = Some r1"
      using p by (auto simp: Some kv field_ok_def)
    then show ?thesis using ms unfolding Some kv map_filter_id
      by (intro exI [of _ "(k, j) # ms"]) (simp only: list.rel_inject prod.case set_fields.simps option.case simp_thms)
  qed
qed (simp add: map_filter_id)

lemma codes_fields: "fields_ok h fs ps zero x \<Longrightarrow> codes (Suc h) (marshal_obj ps) fs zero x"
  by (drule fields_members) (auto intro: codesI)

lemma field_names [simp]:
  "fst (str_field n u) = n" "fst (int_field n u1) = n" "fst (strs_field n u2) = n" "fst (map_field n u3 g3) = n"
  "fst (int_map_field n u4 g4) = n" "fst (structs_field n fs z u5) = n" "fst (ptr_field n fs z u6 g6) = n"
  by (simp_all add: str_field_def int_field_def strs_field_def map_field_def int_map_field_def structs_field_def
      ptr_field_def)

definition finds :: "'r field list \<Rightarrow> string \<Rightarrow> 'r field \<Rightarrow> bool" where
  "finds fs n f \<longleftrightarrow> ascii_str n \<and> find (\<lambda>f. fold_name (fst f) = fold_name n) fs = Some f"

lemma finds_tl: "fold_name (fst g) \<noteq> fold_name n \<Longrightarrow> finds fs n f \<Longrightarrow> finds (g # fs) n f"
  by (simp add: finds_def)

lemma finds_hd:
  "ascii_str n \<Longrightarrow> finds (str_field n u # fs) n (str_field n u)"
  "ascii_str n \<Longrightarrow> finds (int_field n u1 # fs) n (int_field n u1)"
  "ascii_str n \<Longrightarrow> finds (strs_field n u2 # fs) n (strs_field n u2)"
  "ascii_str n \<Longrightarrow> finds (map_field n u3 g3 # fs) n (map_field n u3 g3)"
  "ascii_str n \<Longrightarrow> finds (int_map_field n u4 g4 # fs) n (int_map_field n u4 g4)"
  "ascii_str n \<Longrightarrow> finds (structs_field n gs z u5 # fs) n (structs_field n gs z u5)"
  "ascii_str n \<Longrightarrow> finds (ptr_field n gs z u6 g6 # fs) n (ptr_field n gs z u6 g6)"
  by (simp_all add: finds_def)

lemma field_okI: "finds fs n f \<Longrightarrow> reads h v j \<Longrightarrow> snd f j r = Some r' \<Longrightarrow> field_ok h fs (Some (n, v)) r r'"
  unfolding finds_def field_ok_def set_field_def by fastforce

lemma field_str:
  "finds fs n (str_field n upd) \<Longrightarrow> ascii_str v \<Longrightarrow> field_ok h fs (jstr n v) r (upd (\<lambda>_. v) r)"
  unfolding jstr_def by (erule field_okI, erule reads_quote) (simp add: str_field_def)

lemma field_int:
  "finds fs n (int_field n upd) \<Longrightarrow> int64 v \<Longrightarrow> field_ok h fs (jint n v) r (upd (\<lambda>_. v) r)"
  unfolding jint_def by (erule field_okI, rule reads_int) (simp add: int_field_def)

lemma field_str_opt:
  "finds fs n (str_field n upd) \<Longrightarrow> ascii_str v \<Longrightarrow> upd (\<lambda>_. []) r = r \<Longrightarrow> field_ok h fs (jstr_opt n v) r (upd (\<lambda>_. v) r)"
  using field_str [of fs n upd v h r] by (auto simp: jstr_opt_def jstr_def field_ok_def)

lemma field_int_opt:
  "finds fs n (int_field n upd) \<Longrightarrow> int64 v \<Longrightarrow> upd (\<lambda>_. 0) r = r \<Longrightarrow> field_ok h fs (jint_opt n v) r (upd (\<lambda>_. v) r)"
  using field_int [of fs n upd v h r] by (auto simp: jint_opt_def jint_def field_ok_def)

lemma strs_of_JStr: "strs_of (map JStr xs) = Some xs"
  by (induction xs) (simp_all add: strs_of_def)

lemma field_strs:
  assumes "finds fs n (strs_field n upd)" and "\<forall>t \<in> set v. ascii_str t" and "upd (\<lambda>_. []) r = r"
  shows "field_ok (Suc h) fs (jarr_opt n json_quote v) r (upd (\<lambda>_. v) r)"
proof -
  have "reads (Suc h) (marshal_arr (map json_quote v)) (JArr (map JStr v))"
    by (rule reads_arr) (use assms(2) in \<open>simp add: list_all2_map1 list_all2_map2 list_all2_same reads_quote\<close>)
  note F = field_okI [OF assms(1) this, where r = r and r' = "upd (\<lambda>_. v) r"]
  show ?thesis
  proof (cases "v = []")
    case False
    then show ?thesis using F by (simp add: jarr_opt_def strs_field_def strs_of_JStr)
  qed (use assms(3) in \<open>simp add: jarr_opt_def field_ok_def\<close>)
qed

lemma field_strmap:
  assumes "finds fs n (map_field n upd get)" and "canonical v" and "\<forall>(k, i) \<in> set v. ascii_str k \<and> ascii_str i"
    and "upd (\<lambda>_. []) r = r" and "get r = []"
  shows "field_ok (Suc h) fs (jstrmap_opt n v) r (upd (\<lambda>_. v) r)"
proof (cases "v = []")
  case False
  have "snd (map_field n upd get) (JObj (map (\<lambda>(k, i). (k, JStr i)) v)) r = Some (upd (\<lambda>_. v) r)"
    using assms(2,5) map_of_members_append [of "[]" v] by (simp add: map_field_def canonical_def)
  from field_okI [OF assms(1) reads_strmap [OF assms(2,3)] this] show ?thesis
    using False by (simp add: jstrmap_opt_def)
qed (use assms(4) in \<open>simp add: jstrmap_opt_def field_ok_def\<close>)

lemma field_structs:
  assumes "finds fs n (structs_field n gs zero upd)" and "\<forall>x \<in> set v. codes h (m x) gs zero x" and "upd (\<lambda>_. []) r = r"
  shows "field_ok (Suc h) fs (jarr_opt n m v) r (upd (\<lambda>_. v) r)"
proof -
  obtain js where js: "reads (Suc h) (marshal_arr (map m v)) (JArr js)" "those (map (struct_of gs zero) js) = Some v"
    using codes_slice [of v h m gs zero] assms(2) by blast
  note F = field_okI [OF assms(1) js(1), where r = r and r' = "upd (\<lambda>_. v) r"]
  show ?thesis
  proof (cases "v = []")
    case False
    then show ?thesis using F js(2) by (simp add: jarr_opt_def structs_field_def)
  qed (use assms(3) in \<open>simp add: jarr_opt_def field_ok_def\<close>)
qed

lemma field_ptr:
  assumes "finds fs n (ptr_field n gs zero upd get)" and "pred_option (\<lambda>x. codes h (m x) gs zero x) v"
    and "upd (\<lambda>_. None) r = r" and "get r = None"
  shows "field_ok h fs (jptr_opt n m v) r (upd (\<lambda>_. v) r)"
proof (cases v)
  case (Some x)
  then obtain ms where ms: "reads h (m x) (JObj ms)" "set_fields gs ms zero = Some x" using assms(2) by (auto simp: codes_def)
  from field_okI [OF assms(1) ms(1)] show ?thesis
    using assms(4) ms(2) Some by (simp add: jptr_opt_def ptr_field_def)
qed (use assms(3) in \<open>simp add: jptr_opt_def field_ok_def\<close>)

lemmas field_rules = field_str field_int field_str_opt field_int_opt field_strs field_strmap field_structs field_ptr

end
