(* ===== verification/Snapshot_Format.thy ===== *)
theory Snapshot_Format
  imports Json_Tree Retention Envelope
begin

section \<open>The snapshot document and its sealed object\<close>

text \<open>
  \<^verbatim>\<open>src/internal/sync/snapshot.go\<close>: the full-state document a compaction publishes, and the
  object that carries it, sealed under a workspace content key like an event and named by its
  SHA-256. The read types of \<^verbatim>\<open>state/snapshot_reads.go\<close> have the fields of the wire types but
  \<^verbatim>\<open>CloneFilter\<close> and \<^verbatim>\<open>SparseConfig\<close>, which the builder leaves empty; one record stands for
  both.
\<close>

record snap_git =
  sg_url :: string
  sg_key :: string
  sg_branch :: string
  sg_clone :: string
  sg_sparse :: string
  sg_lfs :: string
  sg_forge :: string

record snap_draft =
  sd_blob :: string
  sd_bytes :: int
  sd_files :: int
  sd_src :: coord

record snap_env =
  sv_name :: string
  sv_provider :: string
  sv_mode :: string
  sv_blob :: string
  sv_vars :: "string list"
  sv_refs :: "(string \<times> string) list"
  sv_src :: coord

record snap_entry =
  se_path :: string
  se_key :: string
  se_type :: string
  se_display :: string
  se_policy :: string
  se_status :: string
  se_src :: coord
  se_git :: "snap_git option"
  se_draft :: "snap_draft option"
  se_env :: "snap_env option"

record snap_tomb =
  sx_key :: string
  sx_hlc :: int
  sx_dev :: string
  sx_id :: string

record snap_trust =
  sr_dev :: string
  sr_state :: string
  sr_revoked :: int

record chain_anchor =
  sa_dev :: string
  sa_seq :: int
  sa_hash :: string
  sa_fold :: string
  sa_hlc :: int

record snapshot =
  sn_v :: int
  sn_workspace :: string
  sn_produced_by :: string
  sn_hlc :: int
  sn_epoch :: int
  sn_kid :: string
  sn_floor :: "(string \<times> int) list option"
  sn_anchors :: "chain_anchor list"
  sn_entries :: "snap_entry list"
  sn_tombs :: "snap_tomb list"
  sn_trust :: "snap_trust list"

subsection \<open>Marshal\<close>

definition marshal_git :: "snap_git \<Rightarrow> string" where
  "marshal_git g = marshal_obj [jstr ''remote_url'' (sg_url g), jstr ''remote_key'' (sg_key g),
     jstr_opt ''default_branch'' (sg_branch g), jstr_opt ''clone_filter'' (sg_clone g),
     jstr_opt ''sparse_config'' (sg_sparse g), jstr_opt ''lfs_policy'' (sg_lfs g), jstr_opt ''forge_kind'' (sg_forge g)]"

definition marshal_draft :: "snap_draft \<Rightarrow> string" where
  "marshal_draft d = marshal_obj [jstr ''blob_ref'' (sd_blob d), jint ''byte_size'' (sd_bytes d),
     jint ''file_count'' (sd_files d), jint ''source_event_hlc'' (c_hlc (sd_src d)),
     jstr ''source_event_device_id'' (c_dev (sd_src d)), jstr ''source_event_id'' (c_id (sd_src d))]"

definition marshal_env :: "snap_env \<Rightarrow> string" where
  "marshal_env e = marshal_obj [jstr ''name'' (sv_name e), jstr ''provider'' (sv_provider e), jstr ''mode'' (sv_mode e),
     jstr_opt ''blob_ref'' (sv_blob e), jarr_opt ''var_names'' json_quote (sv_vars e), jstrmap_opt ''refs'' (sv_refs e),
     jint ''source_event_hlc'' (c_hlc (sv_src e)), jstr ''source_event_device_id'' (c_dev (sv_src e)),
     jstr ''source_event_id'' (c_id (sv_src e))]"

definition marshal_entry :: "snap_entry \<Rightarrow> string" where
  "marshal_entry e = marshal_obj [jstr ''path'' (se_path e), jstr ''path_key'' (se_key e), jstr ''type'' (se_type e),
     jstr_opt ''display_name'' (se_display e), jstr_opt ''materialization_policy'' (se_policy e),
     jstr ''status'' (se_status e), jint ''source_event_hlc'' (c_hlc (se_src e)),
     jstr ''source_event_device_id'' (c_dev (se_src e)), jstr ''source_event_id'' (c_id (se_src e)),
     jptr_opt ''git'' marshal_git (se_git e), jptr_opt ''draft'' marshal_draft (se_draft e),
     jptr_opt ''env'' marshal_env (se_env e)]"

definition marshal_tomb :: "snap_tomb \<Rightarrow> string" where
  "marshal_tomb t = marshal_obj [jstr ''path_key'' (sx_key t), jint ''tombstone_hlc'' (sx_hlc t),
     jstr_opt ''source_event_device_id'' (sx_dev t), jstr_opt ''source_event_id'' (sx_id t)]"

definition marshal_trust :: "snap_trust \<Rightarrow> string" where
  "marshal_trust t = marshal_obj [jstr ''device_id'' (sr_dev t), jstr ''state'' (sr_state t),
     jint_opt ''revoked_at_hlc'' (sr_revoked t)]"

definition marshal_anchor :: "chain_anchor \<Rightarrow> string" where
  "marshal_anchor a = marshal_obj [jstr ''device_id'' (sa_dev a), jint ''seq'' (sa_seq a),
     jstr ''content_hash'' (sa_hash a), jstr_opt ''folded_hash'' (sa_fold a), jint ''hlc'' (sa_hlc a)]"

definition marshal_snapshot :: "snapshot \<Rightarrow> string" where
  "marshal_snapshot s = marshal_obj [jint ''v'' (sn_v s), jstr ''workspace_id'' (sn_workspace s),
     jstr ''produced_by'' (sn_produced_by s), jint ''hlc'' (sn_hlc s), jint ''epoch'' (sn_epoch s),
     jstr ''kid'' (sn_kid s), Some (''floor'', marshal_floors (sn_floor s)),
     jarr_opt ''anchors'' marshal_anchor (sn_anchors s), jarr_opt ''entries'' marshal_entry (sn_entries s),
     jarr_opt ''tombstones'' marshal_tomb (sn_tombs s), jarr_opt ''trust'' marshal_trust (sn_trust s)]"

subsection \<open>Unmarshal\<close>

definition git_fields :: "snap_git field list" where
  "git_fields = [str_field ''remote_url'' sg_url_update, str_field ''remote_key'' sg_key_update,
     str_field ''default_branch'' sg_branch_update, str_field ''clone_filter'' sg_clone_update,
     str_field ''sparse_config'' sg_sparse_update, str_field ''lfs_policy'' sg_lfs_update,
     str_field ''forge_kind'' sg_forge_update]"

definition git_zero :: snap_git where
  "git_zero = \<lparr>sg_url = [], sg_key = [], sg_branch = [], sg_clone = [], sg_sparse = [], sg_lfs = [], sg_forge = []\<rparr>"

definition draft_fields :: "snap_draft field list" where
  "draft_fields = [str_field ''blob_ref'' sd_blob_update, int_field ''byte_size'' sd_bytes_update,
     int_field ''file_count'' sd_files_update, int_field ''source_event_hlc'' (\<lambda>f. sd_src_update (c_hlc_update f)),
     str_field ''source_event_device_id'' (\<lambda>f. sd_src_update (c_dev_update f)),
     str_field ''source_event_id'' (\<lambda>f. sd_src_update (c_id_update f))]"

definition draft_zero :: snap_draft where
  "draft_zero = \<lparr>sd_blob = [], sd_bytes = 0, sd_files = 0, sd_src = zero_coord\<rparr>"

definition env_fields :: "snap_env field list" where
  "env_fields = [str_field ''name'' sv_name_update, str_field ''provider'' sv_provider_update,
     str_field ''mode'' sv_mode_update, str_field ''blob_ref'' sv_blob_update, strs_field ''var_names'' sv_vars_update,
     map_field ''refs'' sv_refs_update sv_refs, int_field ''source_event_hlc'' (\<lambda>f. sv_src_update (c_hlc_update f)),
     str_field ''source_event_device_id'' (\<lambda>f. sv_src_update (c_dev_update f)),
     str_field ''source_event_id'' (\<lambda>f. sv_src_update (c_id_update f))]"

definition env_zero :: snap_env where
  "env_zero = \<lparr>sv_name = [], sv_provider = [], sv_mode = [], sv_blob = [], sv_vars = [], sv_refs = [], sv_src = zero_coord\<rparr>"

definition entry_fields :: "snap_entry field list" where
  "entry_fields = [str_field ''path'' se_path_update, str_field ''path_key'' se_key_update,
     str_field ''type'' se_type_update, str_field ''display_name'' se_display_update,
     str_field ''materialization_policy'' se_policy_update, str_field ''status'' se_status_update,
     int_field ''source_event_hlc'' (\<lambda>f. se_src_update (c_hlc_update f)),
     str_field ''source_event_device_id'' (\<lambda>f. se_src_update (c_dev_update f)),
     str_field ''source_event_id'' (\<lambda>f. se_src_update (c_id_update f)),
     ptr_field ''git'' git_fields git_zero se_git_update se_git,
     ptr_field ''draft'' draft_fields draft_zero se_draft_update se_draft,
     ptr_field ''env'' env_fields env_zero se_env_update se_env]"

definition entry_zero :: snap_entry where
  "entry_zero = \<lparr>se_path = [], se_key = [], se_type = [], se_display = [], se_policy = [], se_status = [],
     se_src = zero_coord, se_git = None, se_draft = None, se_env = None\<rparr>"

definition tomb_fields :: "snap_tomb field list" where
  "tomb_fields = [str_field ''path_key'' sx_key_update, int_field ''tombstone_hlc'' sx_hlc_update,
     str_field ''source_event_device_id'' sx_dev_update, str_field ''source_event_id'' sx_id_update]"

definition tomb_zero :: snap_tomb where "tomb_zero = \<lparr>sx_key = [], sx_hlc = 0, sx_dev = [], sx_id = []\<rparr>"

definition trust_fields :: "snap_trust field list" where
  "trust_fields = [str_field ''device_id'' sr_dev_update, str_field ''state'' sr_state_update,
     int_field ''revoked_at_hlc'' sr_revoked_update]"

definition trust_zero :: snap_trust where "trust_zero = \<lparr>sr_dev = [], sr_state = [], sr_revoked = 0\<rparr>"

definition anchor_fields :: "chain_anchor field list" where
  "anchor_fields = [str_field ''device_id'' sa_dev_update, int_field ''seq'' sa_seq_update,
     str_field ''content_hash'' sa_hash_update, str_field ''folded_hash'' sa_fold_update, int_field ''hlc'' sa_hlc_update]"

definition anchor_zero :: chain_anchor where
  "anchor_zero = \<lparr>sa_dev = [], sa_seq = 0, sa_hash = [], sa_fold = [], sa_hlc = 0\<rparr>"

definition snapshot_fields :: "snapshot field list" where
  "snapshot_fields = [int_field ''v'' sn_v_update, str_field ''workspace_id'' sn_workspace_update,
     str_field ''produced_by'' sn_produced_by_update, int_field ''hlc'' sn_hlc_update,
     int_field ''epoch'' sn_epoch_update, str_field ''kid'' sn_kid_update,
     int_map_field ''floor'' sn_floor_update sn_floor,
     structs_field ''anchors'' anchor_fields anchor_zero sn_anchors_update,
     structs_field ''entries'' entry_fields entry_zero sn_entries_update,
     structs_field ''tombstones'' tomb_fields tomb_zero sn_tombs_update,
     structs_field ''trust'' trust_fields trust_zero sn_trust_update]"

definition snapshot_zero :: snapshot where
  "snapshot_zero = \<lparr>sn_v = 0, sn_workspace = [], sn_produced_by = [], sn_hlc = 0, sn_epoch = 0, sn_kid = [],
     sn_floor = None, sn_anchors = [], sn_entries = [], sn_tombs = [], sn_trust = []\<rparr>"

definition decode_snapshot :: "string \<Rightarrow> snapshot option" where
  "decode_snapshot = unmarshal snapshot_fields snapshot_zero"

subsection \<open>The sealed object\<close>

record snap_envelope =
  vn_v :: int
  vn_workspace :: string
  vn_produced_by :: string
  vn_hlc :: int
  vn_epoch :: int
  vn_kid :: string
  vn_ct :: string

definition marshal_snap_envelope :: "snap_envelope \<Rightarrow> string" where
  "marshal_snap_envelope v = marshal_obj [jint ''v'' (vn_v v), jstr ''workspace_id'' (vn_workspace v),
     jstr ''produced_by'' (vn_produced_by v), jint ''hlc'' (vn_hlc v), jint ''epoch'' (vn_epoch v),
     jstr ''kid'' (vn_kid v), jstr ''ct'' (vn_ct v)]"

definition decode_snap_envelope :: "string \<Rightarrow> snap_envelope option" where
  "decode_snap_envelope = unmarshal
     [int_field ''v'' vn_v_update, str_field ''workspace_id'' vn_workspace_update,
      str_field ''produced_by'' vn_produced_by_update, int_field ''hlc'' vn_hlc_update,
      int_field ''epoch'' vn_epoch_update, str_field ''kid'' vn_kid_update, str_field ''ct'' vn_ct_update]
     \<lparr>vn_v = 0, vn_workspace = [], vn_produced_by = [], vn_hlc = 0, vn_epoch = 0, vn_kid = [], vn_ct = []\<rparr>"

definition snapshotAADDomain :: string where "snapshotAADDomain = ''devstrap:snapshot-aead:v1''"

definition snapshotAAD :: "string \<Rightarrow> string \<Rightarrow> string \<Rightarrow> int \<Rightarrow> int \<Rightarrow> string" where
  "snapshotAAD workspaceID producedBy kid hlc epoch =
     appendLenPrefixed (appendLenPrefixed (appendLenPrefixed (appendLenPrefixed [] snapshotAADDomain) workspaceID)
       producedBy) kid @ be64 hlc @ be64 epoch"

text \<open>\<^verbatim>\<open>SealSnapshot\<close>, with the drawn nonce as an argument: the object and its name.\<close>

definition stamped_snapshot :: "world \<Rightarrow> string \<Rightarrow> int \<Rightarrow> snapshot \<Rightarrow> snapshot" where
  "stamped_snapshot w wck epoch snap =
     snap\<lparr>sn_v := snapshotVersion, sn_epoch := epoch, sn_kid := KIDForWCK w wck\<rparr>"

definition SealSnapshot :: "crypto \<Rightarrow> world \<Rightarrow> string \<Rightarrow> snapshot \<Rightarrow> string \<Rightarrow> int \<Rightarrow> (string \<times> string) res" where
  "SealSnapshot x w nonce snap0 wck epoch =
     (if length wck \<noteq> wckSize
      then fail KOther (''seal snapshot: wck length = '' @ show_nat (length wck) @ '', want 32'')
      else
        (let kid = KIDForWCK w wck;
             snap = stamped_snapshot w wck epoch snap0;
             aad = snapshotAAD (sn_workspace snap) (sn_produced_by snap) kid (sn_hlc snap) epoch;
             ct = x_seal x wck nonce (marshal_snapshot snap) aad;
             obj = marshal_snap_envelope \<lparr>vn_v = snapshotVersion, vn_workspace = sn_workspace snap,
               vn_produced_by = sn_produced_by snap, vn_hlc = sn_hlc snap, vn_epoch = epoch, vn_kid = kid,
               vn_ct = b64_enc (nonce @ ct)\<rparr>
         in Inr (obj, hex_enc (w_sha w obj))))"

definition ParseSnapshotEnvelope :: "world \<Rightarrow> string \<Rightarrow> snap_envelope res" where
  "ParseSnapshotEnvelope w obj =
     (case decode_snap_envelope obj of
        None \<Rightarrow> fail KSnapshotVerification (''parse snapshot envelope: '' @ w_decode_err w obj)
      | Some env \<Rightarrow>
          if vn_v env \<noteq> snapshotVersion
          then fail KSnapshotVerification (''snapshot envelope version '' @ show_int (vn_v env) @ '', want 2'')
          else Inr env)"

text \<open>What \<^verbatim>\<open>UnsealSnapshot\<close> does once the AEAD has opened the text.\<close>

definition accept_document :: "world \<Rightarrow> string \<Rightarrow> snap_envelope \<Rightarrow> string \<Rightarrow> snapshot res" where
  "accept_document w wck env plaintext =
     (case decode_snapshot plaintext of
        None \<Rightarrow> fail KSnapshotVerification (''unmarshal snapshot document: '' @ w_decode_err w plaintext)
      | Some snap \<Rightarrow>
          if sn_v snap \<noteq> snapshotVersion
          then fail KSnapshotVerification (''snapshot document version '' @ show_int (sn_v snap) @ '', want 2'')
          else if sn_workspace snap \<noteq> vn_workspace env \<or> sn_produced_by snap \<noteq> vn_produced_by env \<or>
            sn_hlc snap \<noteq> vn_hlc env \<or> sn_epoch snap \<noteq> vn_epoch env \<or> sn_kid snap \<noteq> KIDForWCK w wck
          then fail KSnapshotVerification ''sealed snapshot document identity disagrees with its authenticated envelope''
          else Inr snap)"

definition UnsealSnapshot :: "crypto \<Rightarrow> world \<Rightarrow> string \<Rightarrow> string \<Rightarrow> snapshot res" where
  "UnsealSnapshot x w obj wck =
     bindr (ParseSnapshotEnvelope w obj) (\<lambda>env.
       if length wck \<noteq> wckSize
       then fail KOther (''unseal snapshot: wck length = '' @ show_nat (length wck) @ '', want 32'')
       else case b64_dec (vn_ct env) of
         None \<Rightarrow> fail KSnapshotVerification (''decode snapshot ciphertext: '' @ w_decode_err w (vn_ct env))
       | Some raw \<Rightarrow>
           if length raw < nonceSize + aeadOverhead then fail KSnapshotVerification ''snapshot ciphertext too short''
           else case x_open x wck (take nonceSize raw) (drop nonceSize raw)
                  (snapshotAAD (vn_workspace env) (vn_produced_by env) (KIDForWCK w wck) (vn_hlc env) (vn_epoch env)) of
             None \<Rightarrow> fail KSnapshotVerification ''snapshot aead open: chacha20poly1305: message authentication failed''
           | Some plaintext \<Rightarrow> accept_document w wck env plaintext)"

subsection \<open>Documents that survive the trip\<close>

text \<open>ASCII texts, 64-bit integers, and maps listed by key.\<close>

definition coord_fits :: "coord \<Rightarrow> bool" where
  "coord_fits c \<longleftrightarrow> int64 (c_hlc c) \<and> ascii_str (c_dev c) \<and> ascii_str (c_id c)"

definition git_fits :: "snap_git \<Rightarrow> bool" where
  "git_fits g \<longleftrightarrow> (\<forall>t \<in> {sg_url g, sg_key g, sg_branch g, sg_clone g, sg_sparse g, sg_lfs g, sg_forge g}. ascii_str t)"

definition draft_fits :: "snap_draft \<Rightarrow> bool" where
  "draft_fits d \<longleftrightarrow> ascii_str (sd_blob d) \<and> int64 (sd_bytes d) \<and> int64 (sd_files d) \<and> coord_fits (sd_src d)"

definition env_fits :: "snap_env \<Rightarrow> bool" where
  "env_fits e \<longleftrightarrow> (\<forall>t \<in> {sv_name e, sv_provider e, sv_mode e, sv_blob e} \<union> set (sv_vars e). ascii_str t) \<and>
     canonical (sv_refs e) \<and> (\<forall>(k, v) \<in> set (sv_refs e). ascii_str k \<and> ascii_str v) \<and> coord_fits (sv_src e)"

definition entry_fits :: "snap_entry \<Rightarrow> bool" where
  "entry_fits e \<longleftrightarrow>
     (\<forall>t \<in> {se_path e, se_key e, se_type e, se_display e, se_policy e, se_status e}. ascii_str t) \<and>
     coord_fits (se_src e) \<and> pred_option git_fits (se_git e) \<and> pred_option draft_fits (se_draft e) \<and>
     pred_option env_fits (se_env e)"

definition tomb_fits :: "snap_tomb \<Rightarrow> bool" where
  "tomb_fits t \<longleftrightarrow> ascii_str (sx_key t) \<and> int64 (sx_hlc t) \<and> ascii_str (sx_dev t) \<and> ascii_str (sx_id t)"

definition trust_fits :: "snap_trust \<Rightarrow> bool" where
  "trust_fits t \<longleftrightarrow> ascii_str (sr_dev t) \<and> ascii_str (sr_state t) \<and> int64 (sr_revoked t)"

definition anchor_fits :: "chain_anchor \<Rightarrow> bool" where
  "anchor_fits a \<longleftrightarrow> ascii_str (sa_dev a) \<and> int64 (sa_seq a) \<and> ascii_str (sa_hash a) \<and> ascii_str (sa_fold a) \<and>
     int64 (sa_hlc a)"

definition floors_fit :: "(string \<times> int) list option \<Rightarrow> bool" where
  "floors_fit f \<longleftrightarrow> pred_option (\<lambda>m. canonical m \<and> (\<forall>(k, i) \<in> set m. ascii_str k \<and> int64 i)) f"

definition snapshot_fits :: "snapshot \<Rightarrow> bool" where
  "snapshot_fits s \<longleftrightarrow> int64 (sn_hlc s) \<and> ascii_str (sn_workspace s) \<and> ascii_str (sn_produced_by s) \<and>
     floors_fit (sn_floor s) \<and> (\<forall>a \<in> set (sn_anchors s). anchor_fits a) \<and> (\<forall>e \<in> set (sn_entries s). entry_fits e) \<and>
     (\<forall>t \<in> set (sn_tombs s). tomb_fits t) \<and> (\<forall>t \<in> set (sn_trust s). trust_fits t)"

lemmas struct_defs = finds_def is_ascii_def coord_fits_def zero_coord_def

lemma codes_git: "git_fits g \<Longrightarrow> codes 1 (marshal_git g) git_fields git_zero g"
  unfolding marshal_git_def One_nat_def git_fields_def
  by (rule codes_fields, (rule fields_Cons finds_hd field_rules | rule finds_tl
      | simp add: struct_defs git_fits_def git_zero_def; fail)+)

lemma codes_draft: "draft_fits d \<Longrightarrow> codes 1 (marshal_draft d) draft_fields draft_zero d"
  unfolding marshal_draft_def One_nat_def draft_fields_def
  by (rule codes_fields, (rule fields_Cons finds_hd field_rules | rule finds_tl
      | simp add: struct_defs draft_fits_def draft_zero_def; fail)+)

lemma codes_env: "env_fits e \<Longrightarrow> codes 2 (marshal_env e) env_fields env_zero e"
  unfolding marshal_env_def numeral_2_eq_2 env_fields_def
  by (rule codes_fields, (rule fields_Cons finds_hd field_rules | rule finds_tl
      | simp add: struct_defs env_fits_def env_zero_def; fail)+)

lemma codes_tomb: "tomb_fits t \<Longrightarrow> codes 1 (marshal_tomb t) tomb_fields tomb_zero t"
  unfolding marshal_tomb_def One_nat_def tomb_fields_def
  by (rule codes_fields, (rule fields_Cons finds_hd field_rules | rule finds_tl
      | simp add: struct_defs tomb_fits_def tomb_zero_def; fail)+)

lemma codes_trust: "trust_fits t \<Longrightarrow> codes 1 (marshal_trust t) trust_fields trust_zero t"
  unfolding marshal_trust_def One_nat_def trust_fields_def
  by (rule codes_fields, (rule fields_Cons finds_hd field_rules | rule finds_tl
      | simp add: struct_defs trust_fits_def trust_zero_def; fail)+)

lemma codes_anchor: "anchor_fits a \<Longrightarrow> codes 1 (marshal_anchor a) anchor_fields anchor_zero a"
  unfolding marshal_anchor_def One_nat_def anchor_fields_def
  by (rule codes_fields, (rule fields_Cons finds_hd field_rules | rule finds_tl
      | simp add: struct_defs anchor_fits_def anchor_zero_def; fail)+)

lemma int_map_JObj:
  "canonical m \<Longrightarrow> \<forall>(k, i) \<in> set m. ascii_str k \<and> int64 i \<Longrightarrow>
     int_map_of_members (map (\<lambda>(k, i). (k, JInt i)) m) [] = Some m"
  using int_map_of_members_append [where a = "[]" and m = m] by (fastforce simp: canonical_def)

lemma field_floors:
  assumes "finds fs n (int_map_field n upd get)" and "floors_fit f" and "get r = None"
  shows "field_ok (Suc h) fs (Some (n, marshal_floors f)) r (upd (\<lambda>_. f) r)"
proof (cases f)
  case None
  then show ?thesis
    using field_okI [OF assms(1) reads_null, where r = r and r' = "upd (\<lambda>_. f) r"]
    by (simp add: marshal_floors_def int_map_field_def)
next
  case (Some m)
  then have m: "canonical m" "\<forall>(k, i) \<in> set m. ascii_str k \<and> int64 i" using assms(2) by (simp_all add: floors_fit_def)
  have "reads (Suc h) (marshal_cursor m) (JObj (map (\<lambda>(k, i). (k, JInt i)) m))"
    unfolding marshal_cursor_def sort_canonical [OF m(1)] jint_def case_prod_beta
    by (rule reads_obj, unfold map_filter_some)
      (use m(2) in \<open>auto simp: list_all2_map1 list_all2_map2 list_all2_same reads_int\<close>)
  from field_okI [OF assms(1) this, where r = r and r' = "upd (\<lambda>_. f) r"] show ?thesis
    using Some assms(3) by (simp add: marshal_floors_def int_map_field_def int_map_JObj [OF m])
qed

lemma codes_pointers:
  "pred_option git_fits g \<Longrightarrow> pred_option (\<lambda>x. codes 2 (marshal_git x) git_fields git_zero x) g"
  "pred_option draft_fits d \<Longrightarrow> pred_option (\<lambda>x. codes 2 (marshal_draft x) draft_fields draft_zero x) d"
  "pred_option env_fits e \<Longrightarrow> pred_option (\<lambda>x. codes 2 (marshal_env x) env_fields env_zero x) e"
  using codes_mono [OF codes_git] codes_mono [OF codes_draft] codes_env
  by (cases g; cases d; cases e; auto)+

lemma codes_entry: "entry_fits e \<Longrightarrow> codes 3 (marshal_entry e) entry_fields entry_zero e"
  unfolding marshal_entry_def numeral_3_eq_3 numeral_2_eq_2 [symmetric] entry_fields_def
  by (rule codes_fields, (rule fields_Cons finds_hd field_rules codes_pointers | rule finds_tl
      | simp add: struct_defs entry_fits_def entry_zero_def; fail)+)

lemma codes_slices:
  "anchor_fits a \<Longrightarrow> codes 3 (marshal_anchor a) anchor_fields anchor_zero a"
  "tomb_fits b \<Longrightarrow> codes 3 (marshal_tomb b) tomb_fields tomb_zero b"
  "trust_fits c \<Longrightarrow> codes 3 (marshal_trust c) trust_fields trust_zero c"
  using codes_mono [OF codes_anchor] codes_mono [OF codes_tomb] codes_mono [OF codes_trust] by auto

lemma codes_snapshot:
  assumes "snapshot_fits s" and "int64 (sn_v s)" and "int64 (sn_epoch s)" and "ascii_str (sn_kid s)"
  shows "codes 5 (marshal_snapshot s) snapshot_fields snapshot_zero s"
proof -
  have "codes (Suc (Suc 3)) (marshal_snapshot s) snapshot_fields snapshot_zero s"
    unfolding marshal_snapshot_def snapshot_fields_def
    by (insert assms, rule codes_fields, (rule fields_Cons finds_hd field_floors field_rules | rule finds_tl
        | simp add: struct_defs snapshot_fits_def snapshot_zero_def codes_slices codes_entry; fail)+)
  then show ?thesis by (simp add: eval_nat_numeral)
qed

lemma decode_marshal_snapshot:
  assumes "snapshot_fits s" and "int64 (sn_v s)" and "int64 (sn_epoch s)" and "ascii_str (sn_kid s)"
  shows "decode_snapshot (marshal_snapshot s) = Some s"
  unfolding decode_snapshot_def by (rule codes_unmarshal [OF codes_snapshot [OF assms]]) (simp add: max_depth_def)

subsection \<open>Sealing and opening\<close>

definition sealed_ct :: "crypto \<Rightarrow> world \<Rightarrow> string \<Rightarrow> snapshot \<Rightarrow> string \<Rightarrow> int \<Rightarrow> string" where
  "sealed_ct x w nonce snap wck epoch = x_seal x wck nonce (marshal_snapshot (stamped_snapshot w wck epoch snap))
     (snapshotAAD (sn_workspace snap) (sn_produced_by snap) (KIDForWCK w wck) (sn_hlc snap) epoch)"

definition sealed_carrier :: "crypto \<Rightarrow> world \<Rightarrow> string \<Rightarrow> snapshot \<Rightarrow> string \<Rightarrow> int \<Rightarrow> snap_envelope" where
  "sealed_carrier x w nonce snap wck epoch =
     \<lparr>vn_v = snapshotVersion, vn_workspace = sn_workspace snap, vn_produced_by = sn_produced_by snap,
      vn_hlc = sn_hlc snap, vn_epoch = epoch, vn_kid = KIDForWCK w wck,
      vn_ct = b64_enc (nonce @ sealed_ct x w nonce snap wck epoch)\<rparr>"

lemma stamped_simps [simp]:
  "sn_workspace (stamped_snapshot w wck epoch snap) = sn_workspace snap"
  "sn_produced_by (stamped_snapshot w wck epoch snap) = sn_produced_by snap"
  "sn_hlc (stamped_snapshot w wck epoch snap) = sn_hlc snap"
  "sn_epoch (stamped_snapshot w wck epoch snap) = epoch"
  "sn_v (stamped_snapshot w wck epoch snap) = snapshotVersion"
  "sn_kid (stamped_snapshot w wck epoch snap) = KIDForWCK w wck"
  "sn_floor (stamped_snapshot w wck epoch snap) = sn_floor snap"
  "sn_entries (stamped_snapshot w wck epoch snap) = sn_entries snap"
  "sn_tombs (stamped_snapshot w wck epoch snap) = sn_tombs snap"
  "sn_trust (stamped_snapshot w wck epoch snap) = sn_trust snap"
  "sn_anchors (stamped_snapshot w wck epoch snap) = sn_anchors snap"
  "snapshot_fits (stamped_snapshot w wck epoch snap) = snapshot_fits snap"
  by (simp_all add: stamped_snapshot_def snapshot_fits_def)

lemma SealSnapshot_Inr:
  "SealSnapshot x w nonce snap wck epoch = Inr (obj, sha) \<longleftrightarrow> length wck = wckSize \<and>
     obj = marshal_snap_envelope (sealed_carrier x w nonce snap wck epoch) \<and> sha = hex_enc (w_sha w obj)"
  by (auto simp: SealSnapshot_def Let_def sealed_carrier_def sealed_ct_def)

lemma decode_marshal_snap_envelope:
  assumes "int64 (vn_v v)" "ascii_str (vn_workspace v)" "ascii_str (vn_produced_by v)" "int64 (vn_hlc v)"
    "int64 (vn_epoch v)" "ascii_str (vn_kid v)" "ascii_str (vn_ct v)"
  shows "decode_snap_envelope (marshal_snap_envelope v) = Some v"
  unfolding decode_snap_envelope_def marshal_snap_envelope_def
  by (rule codes_unmarshal [where h = 1], unfold One_nat_def, insert assms, rule codes_fields,
      (rule fields_Cons finds_hd field_rules | rule finds_tl | simp add: struct_defs; fail)+)
    (simp add: max_depth_def)

lemma carrier_decodes:
  assumes "snapshot_fits snap" and "int64 epoch"
  shows "decode_snap_envelope (marshal_snap_envelope (sealed_carrier x w nonce snap wck epoch)) =
     Some (sealed_carrier x w nonce snap wck epoch)"
  by (rule decode_marshal_snap_envelope)
    (use assms in \<open>simp_all add: sealed_carrier_def snapshot_fits_def KIDForWCK_def snapshotVersion_def int64_def\<close>)

text \<open>An object that carries the sealed ciphertext opens if and only if its carrier has the sealed
  additional data, and then to the sealed document.\<close>

lemma open_carrier:
  assumes "aead_sound x" and "length nonce = nonceSize" and "length wck = wckSize" and "snapshot_fits snap"
    and "int64 epoch" and "ParseSnapshotEnvelope w m = Inr v"
    and "vn_ct v = b64_enc (nonce @ sealed_ct x w nonce snap wck epoch)"
    and "vn_workspace v = sn_workspace snap" and "vn_produced_by v = sn_produced_by snap"
    and "vn_hlc v = sn_hlc snap" and "vn_epoch v = epoch"
  shows "UnsealSnapshot x w m wck = Inr (stamped_snapshot w wck epoch snap)"
proof -
  have d: "decode_snapshot (marshal_snapshot (stamped_snapshot w wck epoch snap)) = Some (stamped_snapshot w wck epoch snap)"
    by (rule decode_marshal_snapshot) (use assms(4,5) in \<open>simp_all add: KIDForWCK_def snapshotVersion_def int64_def\<close>)
  show ?thesis
    using assms(1-3,6-) d
    by (simp add: UnsealSnapshot_def b64_dec_enc sealed_ct_def aead_sound_def accept_document_def)
qed

definition aad_fits :: "string \<Rightarrow> string \<Rightarrow> int \<Rightarrow> int \<Rightarrow> bool" where
  "aad_fits ws dev hlc epoch \<longleftrightarrow> length ws < 2 ^ 32 \<and> length dev < 2 ^ 32 \<and> int64 hlc \<and> int64 epoch"

lemma snapshotAAD_inj:
  assumes "aad_fits ws dev hlc epoch" "aad_fits ws' dev' hlc' epoch'" "length kid < 2 ^ 32" "length kid' < 2 ^ 32"
    and "snapshotAAD ws dev kid hlc epoch = snapshotAAD ws' dev' kid' hlc' epoch'"
  shows "ws = ws' \<and> dev = dev' \<and> kid = kid' \<and> hlc = hlc' \<and> epoch = epoch'"
proof -
  from assms(5) have A: "be32 (int (length ws)) @ ws @ be32 (int (length dev)) @ dev @ be32 (int (length kid)) @ kid @ be64 hlc @ be64 epoch =
      be32 (int (length ws')) @ ws' @ be32 (int (length dev')) @ dev' @ be32 (int (length kid')) @ kid' @ be64 hlc' @ be64 epoch'"
    by (simp add: snapshotAAD_def appendLenPrefixed_def)
  from len_prefix_inj [OF _ _ A] have ws: "ws = ws'" and
    B: "be32 (int (length dev)) @ dev @ be32 (int (length kid)) @ kid @ be64 hlc @ be64 epoch =
      be32 (int (length dev')) @ dev' @ be32 (int (length kid')) @ kid' @ be64 hlc' @ be64 epoch'"
    using assms(1,2) by (auto simp: aad_fits_def)
  from len_prefix_inj [OF _ _ B] have d: "dev = dev'" and
    C: "be32 (int (length kid)) @ kid @ be64 hlc @ be64 epoch = be32 (int (length kid')) @ kid' @ be64 hlc' @ be64 epoch'"
    using assms(1,2) by (auto simp: aad_fits_def)
  from len_prefix_inj [OF assms(3,4) C] show ?thesis
    using ws d assms(1,2) by (auto simp: aad_fits_def be64_inj append_eq_append_conv)
qed

text \<open>C23: what a compaction seals, the holder of the key opens again, entry for entry; and a
  ciphertext that nobody has forged opens for one carrier only: under another workspace, producer,
  clock or epoch it is refused. (The texts of the document are ASCII and its maps are listed by
  key.)\<close>

theorem sealed_snapshot_opens:
  assumes "SealSnapshot x w nonce snap wck epoch = Inr (obj, sha)"
    and "aead_sound x" and "length nonce = nonceSize" and "snapshot_fits snap" and "digest32 w"
    and "aad_fits (sn_workspace snap) (sn_produced_by snap) (sn_hlc snap) epoch"
    and "opens_once x wck nonce (sealed_ct x w nonce snap wck epoch)"
    and "ParseSnapshotEnvelope w m = Inr v" and "vn_ct v = b64_enc (nonce @ sealed_ct x w nonce snap wck epoch)"
    and "aad_fits (vn_workspace v) (vn_produced_by v) (vn_hlc v) (vn_epoch v)"
  shows "UnsealSnapshot x w obj wck = Inr (stamped_snapshot w wck epoch snap) \<and>
     ((\<exists>r. UnsealSnapshot x w m wck = Inr r) \<longleftrightarrow>
        vn_workspace v = sn_workspace snap \<and> vn_produced_by v = sn_produced_by snap \<and>
        vn_hlc v = sn_hlc snap \<and> vn_epoch v = epoch)"
proof (intro conjI iffI)
  note S = assms(1) [unfolded SealSnapshot_Inr]
  have epoch: "int64 epoch" using assms(6) by (simp add: aad_fits_def)
  have "ParseSnapshotEnvelope w obj = Inr (sealed_carrier x w nonce snap wck epoch)"
    using carrier_decodes [OF assms(4) epoch] S by (simp add: ParseSnapshotEnvelope_def sealed_carrier_def)
  then show "UnsealSnapshot x w obj wck = Inr (stamped_snapshot w wck epoch snap)"
    using S by (intro open_carrier [OF assms(2,3) _ assms(4) epoch]) (auto simp: sealed_carrier_def)
  let ?kid = "KIDForWCK w wck"
  have kid: "length ?kid < 2 ^ 32" using assms(5) by (simp add: KIDForWCK_def digest32_def)
  show "\<exists>r. UnsealSnapshot x w m wck = Inr r"
    if "vn_workspace v = sn_workspace snap \<and> vn_produced_by v = sn_produced_by snap \<and>
        vn_hlc v = sn_hlc snap \<and> vn_epoch v = epoch"
    using open_carrier [OF assms(2,3) _ assms(4) epoch assms(8,9)] S that by blast
  assume "\<exists>r. UnsealSnapshot x w m wck = Inr r"
  then have "x_open x wck nonce (sealed_ct x w nonce snap wck epoch)
      (snapshotAAD (vn_workspace v) (vn_produced_by v) ?kid (vn_hlc v) (vn_epoch v)) \<noteq> None"
    using assms(3,8,9) S by (auto simp: UnsealSnapshot_def b64_dec_enc split: if_splits option.splits)
  moreover have "x_open x wck nonce (sealed_ct x w nonce snap wck epoch)
      (snapshotAAD (sn_workspace snap) (sn_produced_by snap) ?kid (sn_hlc snap) epoch) \<noteq> None"
    using assms(2) by (simp add: aead_sound_def sealed_ct_def)
  ultimately have "snapshotAAD (vn_workspace v) (vn_produced_by v) ?kid (vn_hlc v) (vn_epoch v) =
      snapshotAAD (sn_workspace snap) (sn_produced_by snap) ?kid (sn_hlc snap) epoch"
    using assms(7) by (simp add: opens_once_def)
  from snapshotAAD_inj [OF assms(10,6) kid kid this]
  show "vn_workspace v = sn_workspace snap" "vn_produced_by v = sn_produced_by snap" "vn_hlc v = sn_hlc snap"
    "vn_epoch v = epoch" by simp_all
qed

definition sample_snap :: snapshot where
  "sample_snap = snapshot_zero\<lparr>sn_workspace := ''ws'', sn_produced_by := ''d'', sn_hlc := 7, sn_floor := Some [(''d'', 3)],
     sn_tombs := [\<lparr>sx_key = ''app'', sx_hlc = 5, sx_dev = ''d'', sx_id = ''e1''\<rparr>],
     sn_trust := [\<lparr>sr_dev = ''x'', sr_state = ''revoked'', sr_revoked = 4\<rparr>]\<rparr>"

definition snap_aad :: string where
  "snap_aad = snapshotAAD ''ws'' ''d'' (KIDForWCK digest_world sample_wck) 7 1"

definition moved_carrier :: snap_envelope where
  "moved_carrier = (sealed_carrier (plain_crypto snap_aad) digest_world sample_nonce sample_snap sample_wck 1)\<lparr>vn_hlc := 8\<rparr>"

theorem sealed_snapshot_opens_witness:
  "\<exists>obj sha. SealSnapshot (plain_crypto snap_aad) digest_world sample_nonce sample_snap sample_wck 1 = Inr (obj, sha) \<and>
     UnsealSnapshot (plain_crypto snap_aad) digest_world obj sample_wck =
       Inr (stamped_snapshot digest_world sample_wck 1 sample_snap) \<and>
     \<not> (\<exists>r. UnsealSnapshot (plain_crypto snap_aad) digest_world (marshal_snap_envelope moved_carrier) sample_wck = Inr r)"
proof -
  let ?x = "plain_crypto snap_aad"
  obtain obj sha where c: "SealSnapshot ?x digest_world sample_nonce sample_snap sample_wck 1 = Inr (obj, sha)"
    by (simp add: SealSnapshot_Inr sample_wck_def wckSize_def)
  have fits: "snapshot_fits sample_snap"
    by (simp add: snapshot_fits_def sample_snap_def snapshot_zero_def floors_fit_def canonical_def tomb_fits_def trust_fits_def
        is_ascii_def int64_def)
  have s: "sn_workspace sample_snap = ''ws''" "sn_produced_by sample_snap = ''d''" "sn_hlc sample_snap = 7"
    by (simp_all add: sample_snap_def)
  have "opens_once ?x sample_wck sample_nonce (sealed_ct ?x digest_world sample_nonce sample_snap sample_wck 1)"
    using plain_opens_once [of snap_aad] by (simp add: sealed_ct_def s snap_aad_def [symmetric] plain_crypto_def)
  moreover have "ParseSnapshotEnvelope digest_world (marshal_snap_envelope moved_carrier) = Inr moved_carrier"
    unfolding ParseSnapshotEnvelope_def
    by (subst decode_marshal_snap_envelope)
      (simp_all add: moved_carrier_def sealed_carrier_def s KIDForWCK_def snapshotVersion_def int64_def is_ascii_def)
  moreover have "length sample_nonce = nonceSize" by (simp add: sample_nonce_def nonceSize_def)
  ultimately show ?thesis
    using sealed_snapshot_opens [OF c plain_aead_sound _ fits digest_world32, of "marshal_snap_envelope moved_carrier" moved_carrier] c
    by (simp add: s aad_fits_def int64_def moved_carrier_def sealed_carrier_def)
qed

end
