(* ===== verification/Snapshot_Import.thy ===== *)
theory Snapshot_Import
  imports Snapshot_Format Apply_Safety Stream_Fold File_Hub
begin

section \<open>Building a snapshot and importing it\<close>

text \<open>
  The two halves of the snapshot exchange on the store: \<^verbatim>\<open>state/snapshot_reads.go\<close> and
  \<^verbatim>\<open>sync/snapshot_build.go\<close> read the namespace, the tombstones, the terminal trust states and
  the chain anchors; \<^verbatim>\<open>sync/snapshot_import.go\<close> merges them into another store, row by row
  under the order of the source coordinates, in one transaction, and then moves the pull cursors.
\<close>

subsection \<open>Reads\<close>

definition env_binding :: "snap_env \<Rightarrow> binding \<Rightarrow> snap_env" where
  "env_binding e b =
     (if or_else (sb_blob b) [] \<noteq> []
      then e\<lparr>sv_blob := or_else (sb_blob b) [], sv_vars := sv_vars e @ [sb_var b]\<rparr>
      else e\<lparr>sv_refs := put_assoc (sb_var b) (or_else (sb_ref b) []) (sv_refs e)\<rparr>)"

definition snapshotEnvForProject :: "string \<Rightarrow> store \<Rightarrow> snap_env option" where
  "snapshotEnvForProject ns s = (case profile_of ns s of
      None \<Rightarrow> None
    | Some p \<Rightarrow>
        (case pf_src p of
           None \<Rightarrow> None
         | Some c \<Rightarrow>
             if c_dev c = [] \<or> c_id c = [] then None
             else Some (foldl env_binding
               \<lparr>sv_name = pf_name p, sv_provider = pf_provider p, sv_mode = pf_mode p, sv_blob = [], sv_vars = [],
                sv_refs = [], sv_src = c\<rparr>
               (sort_key sb_var (filter (\<lambda>b. sb_profile b = pf_id p) (st_bindings s))))))"

definition entry_src :: "entry \<Rightarrow> coord" where
  "entry_src e = \<lparr>c_hlc = or_else (ns_src_hlc e) 0, c_dev = or_else (ns_src_dev e) [], c_id = or_else (ns_src_id e) []\<rparr>"

definition snapshot_entry :: "store \<Rightarrow> project_status \<Rightarrow> snap_entry" where
  "snapshot_entry s p = (let e = ps_entry p in
     \<lparr>se_path = ns_path e, se_key = ns_key e, se_type = ns_type e, se_display = ns_display e,
      se_policy = ns_policy e, se_status = ns_status e, se_src = entry_src e,
      se_git = (if ps_remote_url p = [] then None
        else Some \<lparr>sg_url = ps_remote_url p, sg_key = ps_remote_key p, sg_branch = ps_branch p, sg_clone = [],
          sg_sparse = [], sg_lfs = ps_lfs p, sg_forge = ps_forge p\<rparr>),
      se_draft = map_option (\<lambda>d. \<lparr>sd_blob = ds_blob d, sd_bytes = ds_bytes d, sd_files = ds_files d, sd_src = ds_src d\<rparr>)
        (LatestDraftSnapshot (ns_id e) s),
      se_env = snapshotEnvForProject (ns_id e) s\<rparr>)"

definition SnapshotEntries :: "store \<Rightarrow> snap_entry list" where
  "SnapshotEntries s = map (snapshot_entry s) (ListProjects s)"

definition SnapshotTombstones :: "store \<Rightarrow> snap_tomb list" where
  "SnapshotTombstones s = List.map_filter (\<lambda>e. case ns_tomb e of
       None \<Rightarrow> None
     | Some t \<Rightarrow> Some \<lparr>sx_key = ns_key e, sx_hlc = t, sx_dev = or_else (ns_src_dev e) [], sx_id = or_else (ns_src_id e) []\<rparr>)
     (sort_key ns_key (filter (\<lambda>e. ns_status e = projectionStatusDeleted) (st_entries s)))"

definition SnapshotTrust :: "store \<Rightarrow> snap_trust list" where
  "SnapshotTrust s = map (\<lambda>d. \<lparr>sr_dev = dv_id d, sr_state = dv_trust d, sr_revoked = or_else (dv_revoked d) 0\<rparr>)
     (sort_key dv_id (filter (\<lambda>d. dv_trust d = trust_revoked \<or> dv_trust d = trust_lost) (st_devices s)))"

text \<open>The anchor of one device: from its event at the floor, else the imported one.\<close>

definition anchor_for :: "world \<Rightarrow> store \<Rightarrow> string \<Rightarrow> int \<Rightarrow> chain_anchor option res" where
  "anchor_for w s dev anchorSeq =
     (if anchorSeq < 1 then Inr None
      else case find (\<lambda>e. ev_workspace e = st_workspace s \<and> ev_device e = dev \<and> ev_seq e = anchorSeq) (st_events s) of
        Some e \<Rightarrow> bindr (relabel (''fold chain anchor for '' @ dev @ '': '') (DeviceFold w s dev anchorSeq)) (\<lambda>(reached, fh, seeded).
          Inr (Some \<lparr>sa_dev = dev, sa_seq = anchorSeq, sa_hash = ev_content_hash e,
            sa_fold = (if seeded \<and> reached = anchorSeq then fh else []), sa_hlc = ev_hlc e\<rparr>))
      | None \<Rightarrow> Inr (map_option (\<lambda>a. \<lparr>sa_dev = dev, sa_seq = an_seq a, sa_hash = an_hash a, sa_fold = an_fold a,
            sa_hlc = an_hlc a\<rparr>) (tget an_dev dev (st_anchors s))))"

fun anchors_for :: "world \<Rightarrow> store \<Rightarrow> (string \<times> int) list \<Rightarrow> chain_anchor list res" where
  "anchors_for w s [] = Inr []"
| "anchors_for w s ((dev, floor) # fs) =
     bindr (anchor_for w s dev (wrap64 (floor - 1))) (\<lambda>a. bindr (anchors_for w s fs) (\<lambda>as.
       Inr (case a of None \<Rightarrow> as | Some x \<Rightarrow> x # as)))"

definition ChainAnchorsForFloors :: "world \<Rightarrow> (string \<times> int) list \<Rightarrow> store \<Rightarrow> chain_anchor list res" where
  "ChainAnchorsForFloors w floors s = anchors_for w s (sort_key fst floors)"

definition CurrentHLC :: "store \<Rightarrow> int res" where
  "CurrentHLC s = bindr (currentDevice s) (\<lambda>d.
     let eventsMax = sql_max (map ev_hlc (filter (\<lambda>e. ev_workspace e = st_workspace s) (st_events s)));
         deviceClock = (case tget cl_dev (dv_id d) (st_clocks s) of Some c \<Rightarrow> cl_hlc c | None \<Rightarrow> 0)
     in Inr (if deviceClock > eventsMax then deviceClock else eventsMax))"

definition BuildSnapshot :: "world \<Rightarrow> string \<Rightarrow> int \<Rightarrow> (string \<times> int) list \<Rightarrow> store \<Rightarrow> snapshot res" where
  "BuildSnapshot w producedBy hlc floors s =
     bindr (ChainAnchorsForFloors w floors s) (\<lambda>anchors.
       Inr \<lparr>sn_v = 0, sn_workspace = st_workspace s, sn_produced_by = producedBy, sn_hlc = hlc, sn_epoch = 0,
         sn_kid = [], sn_floor = Some floors, sn_anchors = anchors, sn_entries = SnapshotEntries s,
         sn_tombs = SnapshotTombstones s, sn_trust = SnapshotTrust s\<rparr>)"

subsection \<open>Import\<close>

text \<open>The event that stands for the source of an imported pointer.\<close>

definition source_event :: "coord \<Rightarrow> event" where
  "source_event c = event_zero\<lparr>ev_id := c_id c, ev_device := c_dev c, ev_hlc := c_hlc c\<rparr>"

definition upsertParamsForSnapshotEntry :: "snap_entry \<Rightarrow> upsert_params" where
  "upsertParamsForSnapshotEntry e =
     \<lparr>up_path = se_path e, up_type = se_type e,
      up_remote_url = (case se_git e of None \<Rightarrow> [] | Some g \<Rightarrow> sg_url g),
      up_remote_key = (case se_git e of None \<Rightarrow> [] | Some g \<Rightarrow> sg_key g),
      up_branch = (case se_git e of None \<Rightarrow> [] | Some g \<Rightarrow> sg_branch g),
      up_lfs = (case se_git e of None \<Rightarrow> [] | Some g \<Rightarrow> sg_lfs g),
      up_policy = se_policy e, up_local_path = [], up_mat_state = [], up_dirty = [], up_src = se_src e,
      up_forge = (case se_git e of None \<Rightarrow> [] | Some g \<Rightarrow> sg_forge g)\<rparr>"

definition snap_env_params :: "snap_env \<Rightarrow> env_params" where
  "snap_env_params e = \<lparr>en_name = sv_name e, en_provider = sv_provider e, en_mode = sv_mode e,
     en_blob = sv_blob e, en_vars = sv_vars e, en_refs = sv_refs e\<rparr>"

definition importEnvTx :: "world \<Rightarrow> string \<Rightarrow> snap_env \<Rightarrow> store \<Rightarrow> store res" where
  "importEnvTx w ns env s =
     (if env_stale ns (source_event (sv_src env)) s then Inr s
      else relabel (''import env profile for namespace '' @ ns @ '': '')
             (UpsertEnvProfileTx w ns (snap_env_params env) (source_event (sv_src env)) s))"

definition import_env_of :: "world \<Rightarrow> string \<Rightarrow> snap_entry \<Rightarrow> store \<Rightarrow> store res" where
  "import_env_of w ns e s = (case se_env e of None \<Rightarrow> Inr s | Some env \<Rightarrow> importEnvTx w ns env s)"

definition import_draft_of :: "world \<Rightarrow> string \<Rightarrow> snap_entry \<Rightarrow> store \<Rightarrow> store res" where
  "import_draft_of w ns e s = (case se_draft e of
      None \<Rightarrow> Inr s
    | Some d \<Rightarrow> RecordDraftSnapshotTx w ns (sd_blob d) (sd_bytes d) (sd_files d) (source_event (sd_src d)) s)"

definition import_winner :: "world \<Rightarrow> snap_entry \<Rightarrow> store \<Rightarrow> store res" where
  "import_winner w e s =
     bindr (UpsertProjectTx w (upsertParamsForSnapshotEntry e) s) (\<lambda>(i, s1).
       bindr (import_draft_of w i e s1) (\<lambda>s2. import_env_of w i e s2))"

definition importEntryTx :: "world \<Rightarrow> store \<Rightarrow> snap_entry \<Rightarrow> store res" where
  "importEntryTx w s e =
     bindr (TombstoneHLC w (se_path e) s) (\<lambda>t.
       if (case t of Some h \<Rightarrow> c_hlc (se_src e) \<le> h | None \<Rightarrow> False) then Inr s
       else case ProjectByPath w (se_path e) s of
         Inr existing \<Rightarrow>
           if coord_less (entry_src (ps_entry existing)) (se_src e) then import_winner w e s
           else import_env_of w (ns_id (ps_entry existing)) e s
       | Inl _ \<Rightarrow> import_winner w e s)"

text \<open>The tombstone keeps only the device and event of its source, which the pending-delete
  conflict reports.\<close>

definition tomb_event :: "snap_tomb \<Rightarrow> event" where
  "tomb_event t = event_zero\<lparr>ev_id := sx_id t, ev_device := sx_dev t, ev_hlc := sx_hlc t\<rparr>"

definition importTombstoneTx :: "world \<Rightarrow> store \<Rightarrow> snap_tomb \<Rightarrow> store res" where
  "importTombstoneTx w s t =
     (case ProjectByPathKey (sx_key t) s of
        Inr existing \<Rightarrow>
          if or_else (ns_src_hlc (ps_entry existing)) 0 > sx_hlc t then Inr s
          else if ps_dirty existing = dirtyStateDirty
          then Inr (insertConflict w (ns_id (ps_entry existing)) ConflictPendingDelete
                 (pending_delete_details (ns_path (ps_entry existing)) (tomb_event t)) s)
          else Inr (TombstoneByPathKey w (sx_key t) (sx_hlc t) s)
      | Inl _ \<Rightarrow> Inr (TombstoneByPathKey w (sx_key t) (sx_hlc t) s))"

definition import_trust_row :: "world \<Rightarrow> bool \<times> store \<Rightarrow> snap_trust \<Rightarrow> (bool \<times> store) res" where
  "import_trust_row w acc tr =
     (if sr_dev tr = [] then fail KOther ''import snapshot trust: empty device id''
      else if sr_state tr \<noteq> trust_revoked \<and> sr_state tr \<noteq> trust_lost
      then fail KOther (''import snapshot trust: unsupported state '' @ json_quote (sr_state tr) @ '' for device '' @ sr_dev tr)
      else bindr (EnsureRemoteDeviceTx (sr_dev tr) (snd acc)) (\<lambda>s1.
        bindr (ApplyRemoteDeviceTrustTx (sr_dev tr) (sr_state tr) (sr_revoked tr) s1) (\<lambda>(changed, s2).
          Inr (fst acc \<or> changed, s2))))"

definition importTrustTx :: "world \<Rightarrow> snap_trust list \<Rightarrow> store \<Rightarrow> store res" where
  "importTrustTx w trust s =
     bindr (foldr_res (import_trust_row w) (False, s) trust) (\<lambda>(changedAny, s1).
       if changedAny then
         (let s2 = snd (markEncryptedBindingsNeedingRotation s1)
          in Inr (SetWCKRotationPendingTx w (CurrentKeyEpoch s2) s2))
       else Inr s1)"

definition import_anchor :: "string \<Rightarrow> store \<Rightarrow> chain_anchor \<Rightarrow> store" where
  "import_anchor sha s a = UpsertChainAnchor
     \<lparr>an_dev = sa_dev a, an_seq = sa_seq a, an_hash = sa_hash a, an_fold = sa_fold a, an_hlc = sa_hlc a, an_sha = sha\<rparr> s"

definition import_tx :: "world \<Rightarrow> snapshot \<Rightarrow> string \<Rightarrow> store \<Rightarrow> store res" where
  "import_tx w snap sha s =
     bindr (foldr_res (importEntryTx w) s (sn_entries snap)) (\<lambda>s1.
     bindr (foldr_res (importTombstoneTx w) s1 (sn_tombs snap)) (\<lambda>s2.
     bindr (importTrustTx w (sn_trust snap) s2) (\<lambda>s3.
       ReceiveRemoteHLC w (sn_hlc snap) (foldl (import_anchor sha) s3 (sn_anchors snap)))))"

subsection \<open>The cache of verified floors\<close>

definition RetentionFloorMetaKey :: "string \<Rightarrow> string" where
  "RetentionFloorMetaKey hubID = ''retention_floor:'' @ hubID"

text \<open>A text that is no map of integers reads as the empty map; the program never writes one.\<close>

definition decode_floor_cache :: "string \<Rightarrow> (string \<times> int) list" where
  "decode_floor_cache raw = (case parse_json raw of
      Some (JObj ms) \<Rightarrow> (case int_map_of_members ms [] of Some m \<Rightarrow> m | None \<Rightarrow> []) | _ \<Rightarrow> [])"

definition LoadRetentionFloorCache :: "string \<Rightarrow> store \<Rightarrow> (string \<times> int) list" where
  "LoadRetentionFloorCache hubID s = (case GetLocalMeta (RetentionFloorMetaKey hubID) s of
      None \<Rightarrow> [] | Some raw \<Rightarrow> decode_floor_cache raw)"

definition cacheRetentionFloor :: "string \<Rightarrow> (string \<times> int) list \<Rightarrow> store \<Rightarrow> store" where
  "cacheRetentionFloor hubID floor s =
     SetLocalMeta (RetentionFloorMetaKey hubID)
       (marshal_cursor (foldl raise_floor (LoadRetentionFloorCache hubID s) floor)) s"

definition advance_to_floor :: "string \<Rightarrow> store \<Rightarrow> string \<times> int \<Rightarrow> store" where
  "advance_to_floor hubID s f =
     (if snd f \<le> 0 then s else AdvanceHubDeviceCursor hubID (fst f) (snd f - 1) s)"

definition snapshot_floor :: "snapshot \<Rightarrow> (string \<times> int) list" where
  "snapshot_floor snap = or_else (sn_floor snap) []"

definition ImportSnapshot :: "world \<Rightarrow> snapshot \<Rightarrow> string \<Rightarrow> string \<Rightarrow> store \<Rightarrow> unit res \<times> store" where
  "ImportSnapshot w snap sha hubID s =
     (case import_tx w snap sha s of
        Inl e \<Rightarrow> (Inl e, s)
      | Inr s1 \<Rightarrow> (Inr (), cacheRetentionFloor hubID (snapshot_floor snap)
            (foldl (advance_to_floor hubID) s1 (snapshot_floor snap))))"

end
