(* ===== verification/Snapshot_Merge.thy ===== *)
theory Snapshot_Merge
  imports Snapshot_Import
begin

section \<open>Import is a merge\<close>

text \<open>
  What importing a snapshot does to the register of the store: every path moves to the join of what
  was there with what the snapshot says of it, where a tombstone of the snapshot replaces a standing
  one (\<open>stored_join\<close>). From this follow the agreement of import with the
  replay of events, and that a second import changes nothing.
\<close>

subsection \<open>What the snapshot claims\<close>

definition entry_content :: "path \<Rightarrow> snap_entry \<Rightarrow> content" where
  "entry_content pk e = params_content pk (upsertParamsForSnapshotEntry e)"

definition entry_claim :: "world \<Rightarrow> snap_entry \<Rightarrow> string \<times> pview" where
  "entry_claim w e = (case Clean w (se_path e) of
      Inr pk \<Rightarrow> (p_key pk, VLive (se_src e) (entry_content pk e)) | Inl _ \<Rightarrow> ([], VNone))"

definition tomb_claim :: "snap_tomb \<Rightarrow> string \<times> pview" where
  "tomb_claim t = (sx_key t, VDead (sx_hlc t))"

definition join_claim :: "(string \<Rightarrow> pview) \<Rightarrow> string \<times> pview \<Rightarrow> string \<Rightarrow> pview" where
  "join_claim v kc = v(fst kc := stored_join (v (fst kc)) (snd kc))"

definition snapshot_claims :: "world \<Rightarrow> snapshot \<Rightarrow> (string \<times> pview) list" where
  "snapshot_claims w snap = map (entry_claim w) (sn_entries snap) @ map tomb_claim (sn_tombs snap)"

definition merged_view :: "world \<Rightarrow> snapshot \<Rightarrow> (string \<Rightarrow> pview) \<Rightarrow> string \<Rightarrow> pview" where
  "merged_view w snap v = foldl join_claim v (snapshot_claims w snap)"

text \<open>An entry as \<^verbatim>\<open>BuildSnapshot\<close> reads it from the row of a repository.\<close>

definition repo_entry :: "world \<Rightarrow> snap_entry \<Rightarrow> bool" where
  "repo_entry w e \<longleftrightarrow> se_type e = ''git_repo'' \<and> (\<exists>pk. Clean w (se_path e) = Inr pk) \<and>
     c_hlc (se_src e) \<noteq> 0 \<and> c_dev (se_src e) \<noteq> [] \<and> c_id (se_src e) \<noteq> []"

subsection \<open>Rows that only a pointer was added to\<close>

definition no_profile :: "entry \<Rightarrow> entry" where
  "no_profile e = e\<lparr>ns_profile := []\<rparr>"

definition pointer_step :: "store \<Rightarrow> store \<Rightarrow> bool" where
  "pointer_step s s' \<longleftrightarrow> st_fresh s \<le> st_fresh s' \<and> map no_profile (st_entries s') = map no_profile (st_entries s) \<and>
     st_repos s' = st_repos s \<and> st_checkouts s' = st_checkouts s \<and> st_devices s' = st_devices s \<and>
     st_hub_seqs s' = st_hub_seqs s"

lemma pointer_step_refl [simp]: "pointer_step s s"
  by (simp add: pointer_step_def)

lemma pointer_step_trans: "pointer_step s t \<Longrightarrow> pointer_step t u \<Longrightarrow> pointer_step s u"
  by (auto simp: pointer_step_def)

lemma tget_no_profile:
  assumes "map no_profile es = map no_profile fs"
  shows "map_option no_profile (tget ns_key k es) = map_option no_profile (tget ns_key k fs)"
  using assms
proof (induction es fs rule: list_induct2')
  case (4 e es f fs)
  then have "no_profile e = no_profile f" by simp
  then have "ns_key (no_profile e) = ns_key (no_profile f)" by simp
  then have "ns_key e = ns_key f" by (simp add: no_profile_def)
  then show ?case using 4 by simp
qed simp_all

lemma view_no_profile: "entry_view s (no_profile e) = entry_view s e"
  by (simp add: entry_view_def no_profile_def)

lemma store_view_no_profile:
  "store_view s k = (case map_option no_profile (tget ns_key k (st_entries s)) of
     None \<Rightarrow> VNone | Some e \<Rightarrow> entry_view s e)"
  by (cases "tget ns_key k (st_entries s)") (simp_all add: store_view_def view_no_profile)

lemma map_through:
  assumes "map no_profile es = map no_profile fs" and "\<And>e. f (no_profile e) = f e"
  shows "map f es = map f fs"
proof -
  have "map f xs = map f (map no_profile xs)" for xs using assms(2) by (simp add: comp_def)
  then show ?thesis using assms(1) by metis
qed

lemma map_no_profile:
  assumes "map no_profile es = map no_profile fs"
  shows "map ns_key es = map ns_key fs" "map ns_id es = map ns_id fs"
    "(\<forall>e \<in> set es. P (no_profile e)) = (\<forall>e \<in> set fs. P (no_profile e))"
proof -
  show "map ns_key es = map ns_key fs" by (rule map_through [OF assms]) (simp add: no_profile_def)
  show "map ns_id es = map ns_id fs" by (rule map_through [OF assms]) (simp add: no_profile_def)
  have "no_profile ` set es = no_profile ` set fs" using assms by (metis set_map)
  then have "(\<forall>x \<in> no_profile ` set es. P x) = (\<forall>x \<in> no_profile ` set fs. P x)" by (simp only:)
  then show "(\<forall>e \<in> set es. P (no_profile e)) = (\<forall>e \<in> set fs. P (no_profile e))" by (simp only: ball_simps)
qed

lemma pointer_step_parts:
  assumes p: "pointer_step s s'" and ok: "entries_ok w s"
  shows "entries_ok w s'" "store_view s' = store_view s" "tombs_ok s' = tombs_ok s"
proof -
  have m: "map no_profile (st_entries s') = map no_profile (st_entries s)" and f: "st_fresh s \<le> st_fresh s'"
    and r: "st_repos s' = st_repos s" using p by (simp_all add: pointer_step_def)
  have "ns_id ` set (st_entries s') = ns_id ` set (st_entries s)" using map_no_profile(2) [OF m] by (metis set_map)
  then have "\<forall>e \<in> set (st_entries s'). \<exists>x \<in> set (st_entries s). ns_id x = ns_id e" by (metis imageE imageI)
  then show "entries_ok w s'"
    unfolding entries_ok_def uniq_def map_no_profile(1,2) [OF m]
    using ok f by (fastforce simp: entries_ok_def uniq_def)
  show "store_view s' = store_view s"
  proof
    have "entry_view s' e = entry_view s e" for e by (simp add: entry_view_def r)
    then show "store_view s' k = store_view s k" for k
      by (simp only: store_view_no_profile tget_no_profile [OF m])
  qed
  show "tombs_ok s' = tombs_ok s"
    using map_no_profile(3) [OF m, where P = "\<lambda>e. ns_status e = projectionStatusActive \<or> ns_status e = projectionStatusDeleted \<and> ns_tomb e \<noteq> None"]
    by (simp add: tombs_ok_def no_profile_def)
qed

lemma draft_pointer:
  "RecordDraftSnapshotTx w ns blob b f ev s = Inr s' \<Longrightarrow> pointer_step s s'"
  by (auto simp: RecordDraftSnapshotTx_def EnsureDraftProject_def add_snapshot_def new_id_def pointer_step_def Let_def
      split: if_splits)

lemma bindings_pointer: "insert_bindings w p pf fl vs s = Inr s' \<Longrightarrow> pointer_step s s'"
proof (induction vs arbitrary: s)
  case (Cons v vs)
  then show ?case
    by (auto simp: new_id_def Let_def pointer_step_def split: if_splits)
      (fastforce dest!: Cons.IH simp: pointer_step_def)+
qed simp

lemma put_profile_pointer:
  assumes "put_profile w ns p ev e s = (i, fl, s1)"
  shows "pointer_step s s1"
proof -
  have "map no_profile (tmod (\<lambda>x. ns_id x = ns) (\<lambda>x. x\<lparr>ns_profile := j\<rparr>) es) = map no_profile es" for j es
    by (simp add: tmod_def no_profile_def)
  then show ?thesis
    using assms by (auto simp: put_profile_def new_id_def pointer_step_def Let_def split: if_splits)
qed

lemma env_pointer:
  assumes "UpsertEnvProfileTx w ns p ev s = Inr s'"
  shows "pointer_step s s'"
proof -
  obtain q vars e where v: "validate_env p = Inr (q, vars)" "active_entry ns s = Some e"
    using assms by (auto simp: UpsertEnvProfileTx_def split: if_splits option.splits)
  obtain i fl s1 where p: "put_profile w ns q ev e s = (i, fl, s1)" by (cases "put_profile w ns q ev e s") auto
  have "insert_bindings w q i fl vars s1 = Inr s'"
    using assms by (auto simp: UpsertEnvProfileTx_def v p split: if_splits)
  then show ?thesis by (rule pointer_step_trans [OF put_profile_pointer [OF p] bindings_pointer])
qed

lemma import_env_pointer: "import_env_of w ns e s = Inr s' \<Longrightarrow> pointer_step s s'"
  by (auto simp: import_env_of_def importEnvTx_def dest: env_pointer split: option.splits if_splits)

lemma import_draft_pointer: "import_draft_of w ns e s = Inr s' \<Longrightarrow> pointer_step s s'"
  by (auto simp: import_draft_of_def dest: draft_pointer split: option.splits)

subsection \<open>One entry, one tombstone\<close>

text \<open>The register part of a well-formed store: no checkout on this device is dirty.\<close>

definition merge_ready :: "world \<Rightarrow> store \<Rightarrow> bool" where
  "merge_ready w s \<longleftrightarrow> entries_ok w s \<and> tombs_ok s \<and> (\<forall>c \<in> set (st_checkouts s). ck_dirty c \<noteq> dirtyStateDirty)"

lemma merge_ready_clean:
  assumes "merge_ready w s"
  shows "ck_dirty (local_checkout s i) \<noteq> dirtyStateDirty"
proof (cases "currentDevice s")
  case (Inr d)
  show ?thesis
    using assms by (cases "tget (\<lambda>x. (ck_dev x, ck_ns x)) (dv_id d, i) (st_checkouts s)")
      (auto simp: local_checkout_def Inr merge_ready_def zero_checkout_def dirtyStateDirty_def dest: tget_SomeD)
qed (simp add: local_checkout_def zero_checkout_def dirtyStateDirty_def)

lemma upsert_claims_entry:
  assumes ok: "entries_ok w s" and ids: "ids_sound w" and cl: "Clean w (se_path e) = Inr pk" and r: "repo_entry w e"
  shows "\<exists>i s'. UpsertProjectTx w (upsertParamsForSnapshotEntry e) s = Inr (i, s') \<and> entries_ok w s' \<and>
     store_view s' = (store_view s)(p_key pk := VLive (se_src e) (entry_content pk e)) \<and>
     (tombs_ok s \<longrightarrow> tombs_ok s') \<and> (\<exists>es n rs. s' = s\<lparr>st_entries := es, st_fresh := n, st_repos := rs\<rparr>) \<and>
     (\<exists>x. tget ns_key (p_key pk) (st_entries s') = Some x \<and> ns_id x = i)"
proof -
  let ?u = "upsertParamsForSnapshotEntry e"
  have u: "up_path ?u = se_path e" "up_type ?u = ''git_repo''" "up_src ?u = se_src e"
    using r by (simp_all add: upsertParamsForSnapshotEntry_def repo_entry_def)
  show ?thesis
    using upsert_view [OF ok ids cl [folded u(1)] u(2)] r by (simp add: u(3) repo_entry_def entry_content_def)
qed

text \<open>Whether the import of a pointer can fail is a matter of the pointer alone.\<close>

definition same_local :: "store \<Rightarrow> store \<Rightarrow> bool" where
  "same_local s s' \<longleftrightarrow> st_checkouts s' = st_checkouts s \<and> st_devices s' = st_devices s \<and> st_hub_seqs s' = st_hub_seqs s"

lemma same_local_refl [simp]: "same_local s s"
  by (simp add: same_local_def)

lemma same_local_trans: "same_local s t \<Longrightarrow> same_local t u \<Longrightarrow> same_local s u"
  by (simp add: same_local_def)

lemma import_winner_view:
  assumes ready: "merge_ready w s" and ids: "ids_sound w" and cl: "Clean w (se_path e) = Inr pk" and r: "repo_entry w e"
    and run: "import_winner w e s = Inr s'"
  shows "merge_ready w s' \<and> same_local s s' \<and>
     store_view s' = (store_view s)(p_key pk := VLive (se_src e) (entry_content pk e))"
proof -
  have ok: "entries_ok w s" "tombs_ok s" using ready by (simp_all add: merge_ready_def)
  obtain i s1 where s1: "UpsertProjectTx w (upsertParamsForSnapshotEntry e) s = Inr (i, s1)" "entries_ok w s1"
    "store_view s1 = (store_view s)(p_key pk := VLive (se_src e) (entry_content pk e))" "tombs_ok s1"
    "same_local s s1"
    using upsert_claims_entry [OF ok(1) ids cl r] ok(2) by (auto simp: same_local_def)
  obtain s2 where s2: "import_draft_of w i e s1 = Inr s2" "import_env_of w i e s2 = Inr s'"
    using run by (auto simp: import_winner_def s1(1))
  have p: "pointer_step s1 s'"
    using pointer_step_trans [OF import_draft_pointer [OF s2(1)] import_env_pointer [OF s2(2)]] .
  show ?thesis
    using pointer_step_parts [OF p s1(2)] s1(3-5) ready p
    by (auto simp: merge_ready_def same_local_def pointer_step_def)
qed

lemma view_cases:
  assumes "tombs_ok s"
  shows "store_view s k = VNone \<and> tget ns_key k (st_entries s) = None \<or>
    (\<exists>x t. store_view s k = VDead t \<and> tget ns_key k (st_entries s) = Some x \<and> ns_status x = projectionStatusDeleted \<and> ns_tomb x = Some t) \<or>
    (\<exists>x c. store_view s k = VLive (entry_src x) c \<and> tget ns_key k (st_entries s) = Some x \<and> ns_status x = projectionStatusActive)"
proof (cases "tget ns_key k (st_entries s)")
  case (Some x)
  then have "ns_status x = projectionStatusActive \<or> ns_status x = projectionStatusDeleted \<and> ns_tomb x \<noteq> None"
    using assms by (auto simp: tombs_ok_def dest!: tget_SomeD)
  then show ?thesis using Some
    by (auto simp: store_view_def entry_view_def entry_src_def Let_def projectionStatusActive_def projectionStatusDeleted_def)
qed (simp add: store_view_def)

lemma import_entry_view:
  assumes ready: "merge_ready w s" and ids: "ids_sound w" and r: "repo_entry w e" and run: "importEntryTx w s e = Inr s'"
  shows "merge_ready w s' \<and> same_local s s' \<and> store_view s' = join_claim (store_view s) (entry_claim w e)"
proof -
  obtain pk where cl: "Clean w (se_path e) = Inr pk" using r by (auto simp: repo_entry_def)
  have claim: "entry_claim w e = (p_key pk, VLive (se_src e) (entry_content pk e))" by (simp add: entry_claim_def cl)
  have ok: "entries_ok w s" "tombs_ok s" using ready by (simp_all add: merge_ready_def)
  have stay: "merge_ready w s' \<and> same_local s s' \<and> store_view s' = store_view s" if "pointer_step s s'"
    using pointer_step_parts [OF that ok(1)] that ready by (auto simp: merge_ready_def same_local_def pointer_step_def)
  note win = import_winner_view [OF ready ids cl r]
  note case_defs = importEntryTx_def TombstoneHLC_def ProjectByPath_def projectByPath_def cl
  show ?thesis
    using view_cases [OF ok(2), of "p_key pk"]
  proof (elim disjE exE conjE)
    assume "store_view s (p_key pk) = VNone" "tget ns_key (p_key pk) (st_entries s) = None"
    then show ?thesis using run win by (simp add: case_defs fail_def claim join_claim_def)
  next
    fix x t assume x: "store_view s (p_key pk) = VDead t" "tget ns_key (p_key pk) (st_entries s) = Some x"
      "ns_status x = projectionStatusDeleted" "ns_tomb x = Some t"
    show ?thesis
    proof (cases "c_hlc (se_src e) \<le> t")
      case True
      then have "s' = s" using run x by (simp add: case_defs)
      then show ?thesis using True x(1) ready by (simp add: claim join_claim_def fun_upd_idem)
    next
      case False
      then show ?thesis using run x win
        by (simp add: case_defs fail_def claim join_claim_def projectionStatusActive_def projectionStatusDeleted_def)
    qed
  next
    fix x c assume x: "store_view s (p_key pk) = VLive (entry_src x) c" "tget ns_key (p_key pk) (st_entries s) = Some x"
      "ns_status x = projectionStatusActive"
    then have nd: "ns_status x \<noteq> projectionStatusDeleted" by (simp add: projectionStatusActive_def projectionStatusDeleted_def)
    have ps: "ps_entry (status_of s x) = x" by (simp add: status_of_def Let_def)
    show ?thesis
    proof (cases "coord_less (entry_src x) (se_src e)")
      case True
      then show ?thesis using run x nd win by (simp add: case_defs ps claim join_claim_def)
    next
      case False
      then have "import_env_of w (ns_id x) e s = Inr s'" using run x nd by (simp add: case_defs ps)
      from stay [OF import_env_pointer [OF this]] show ?thesis
        using False x(1) by (simp add: claim join_claim_def fun_upd_idem)
    qed
  qed
qed

lemma import_tomb_view:
  assumes ready: "merge_ready w s" and ids: "ids_sound w"
  shows "\<exists>s'. importTombstoneTx w s t = Inr s' \<and> merge_ready w s' \<and> same_local s s' \<and>
     store_view s' = join_claim (store_view s) (tomb_claim t)"
proof -
  have ok: "entries_ok w s" "tombs_ok s" using ready by (simp_all add: merge_ready_def)
  define s1 where "s1 = TombstoneByPathKey w (sx_key t) (sx_hlc t) s"
  define pk where "pk = \<lparr>p_display = (case tget ns_key (sx_key t) (st_entries s) of Some e \<Rightarrow> ns_path e | None \<Rightarrow> sx_key t),
     p_key = sx_key t\<rparr>"
  have s1': "s1 = tombstonePath w pk (sx_hlc t) s" by (simp add: s1_def pk_def TombstoneByPathKey_def)
  note T = tombstonePath_view [OF ok(1) ids, where pk = pk and h = "sx_hlc t", folded s1']
  have loc: "same_local s s1"
    using tombstonePath_parts(3) [OF ok(1) ids, where pk = pk and h = "sx_hlc t"] by (auto simp: s1' same_local_def)
  have dead: "merge_ready w s1 \<and> same_local s s1 \<and> store_view s1 = (store_view s)(sx_key t := VDead (sx_hlc t))"
    using T ok(2) loc ready by (simp add: merge_ready_def same_local_def pk_def)
  note case_defs = importTombstoneTx_def ProjectByPathKey_def projectByPath_def s1_def [symmetric]
  show ?thesis
    using view_cases [OF ok(2), of "sx_key t"]
  proof (elim disjE exE conjE)
    assume "store_view s (sx_key t) = VNone" "tget ns_key (sx_key t) (st_entries s) = None"
    then show ?thesis using dead by (simp add: case_defs fail_def tomb_claim_def join_claim_def)
  next
    fix x d assume x: "store_view s (sx_key t) = VDead d" "tget ns_key (sx_key t) (st_entries s) = Some x"
      "ns_status x = projectionStatusDeleted" "ns_tomb x = Some d"
    then show ?thesis using dead
      by (auto simp: case_defs fail_def tomb_claim_def join_claim_def projectionStatusActive_def projectionStatusDeleted_def)
  next
    fix x c assume x: "store_view s (sx_key t) = VLive (entry_src x) c" "tget ns_key (sx_key t) (st_entries s) = Some x"
      "ns_status x = projectionStatusActive"
    have ps: "ps_entry (status_of s x) = x" "ps_dirty (status_of s x) \<noteq> dirtyStateDirty"
      using merge_ready_clean [OF ready, of "ns_id x"] by (simp_all add: status_of_def Let_def)
    have h: "or_else (ns_src_hlc x) 0 = c_hlc (entry_src x)" by (simp add: entry_src_def)
    show ?thesis
    proof (cases "c_hlc (entry_src x) > sx_hlc t")
      case True
      then show ?thesis using x ps ready by (simp add: case_defs h tomb_claim_def join_claim_def fun_upd_idem)
    next
      case False
      then show ?thesis using x ps dead by (simp add: case_defs h tomb_claim_def join_claim_def)
    qed
  qed
qed

subsection \<open>The whole snapshot\<close>

lemma import_entries_view:
  assumes "merge_ready w s" and "ids_sound w" and "\<forall>e \<in> set es. repo_entry w e" and "foldr_res (importEntryTx w) s es = Inr s'"
  shows "merge_ready w s' \<and> same_local s s' \<and> store_view s' = foldl join_claim (store_view s) (map (entry_claim w) es)"
  using assms
proof (induction es arbitrary: s)
  case (Cons e es)
  then obtain s1 where s1: "importEntryTx w s e = Inr s1" "foldr_res (importEntryTx w) s1 es = Inr s'" by auto
  have v: "merge_ready w s1" "same_local s s1" "store_view s1 = join_claim (store_view s) (entry_claim w e)"
    using import_entry_view [OF Cons.prems(1,2) _ s1(1)] Cons.prems(3) by auto
  show ?case using Cons.IH [OF v(1) Cons.prems(2) _ s1(2)] Cons.prems(3) v by (auto simp: same_local_def)
qed simp

lemma import_tombs_view:
  assumes "merge_ready w s" and "ids_sound w"
  shows "\<exists>s'. foldr_res (importTombstoneTx w) s ts = Inr s' \<and> merge_ready w s' \<and> same_local s s' \<and>
     store_view s' = foldl join_claim (store_view s) (map tomb_claim ts)"
  using assms
proof (induction ts arbitrary: s)
  case (Cons t ts)
  obtain s1 where s1: "importTombstoneTx w s t = Inr s1" "merge_ready w s1" "same_local s s1"
    "store_view s1 = join_claim (store_view s) (tomb_claim t)"
    using import_tomb_view [OF Cons.prems(1,2)] by blast
  show ?case using Cons.IH [OF s1(2) Cons.prems(2)] s1 by (auto simp: same_local_def)
qed simp

text \<open>The trust rows, the anchors, the clock, the cursors and the cache leave the namespace alone.\<close>

definition same_rows :: "store \<Rightarrow> store \<Rightarrow> bool" where
  "same_rows s s' \<longleftrightarrow> st_entries s' = st_entries s \<and> st_repos s' = st_repos s \<and> st_fresh s' = st_fresh s \<and>
     st_checkouts s' = st_checkouts s"

lemma same_rows_refl [simp]: "same_rows s s"
  by (simp add: same_rows_def)

lemma same_rows_trans: "same_rows s t \<Longrightarrow> same_rows t u \<Longrightarrow> same_rows s u"
  by (simp add: same_rows_def)

lemma same_rows_ready: "same_rows s s' \<Longrightarrow> merge_ready w s' = merge_ready w s"
  by (simp add: same_rows_def merge_ready_def entries_ok_def tombs_ok_def)

lemma same_rows_view: "same_rows s s' \<Longrightarrow> store_view s' = store_view s"
  by (rule store_view_cong) (simp_all add: same_rows_def)

definition row_trust :: "snap_trust \<Rightarrow> device \<Rightarrow> device" where
  "row_trust tr d = (if dv_trust d = trust_local then d
     else d\<lparr>dv_trust := (if dv_trust d = trust_pending \<or> dv_trust d = trust_approved then sr_state tr else dv_trust d),
            dv_revoked := min_boundary (dv_revoked d) (revocation_claim (sr_dev tr, sr_revoked tr))\<rparr>)"

definition trust_row_ok :: "snap_trust \<Rightarrow> bool" where
  "trust_row_ok tr \<longleftrightarrow> sr_dev tr \<noteq> [] \<and> (sr_state tr = trust_revoked \<or> sr_state tr = trust_lost)"

lemma find_app: "find P (xs @ ys) = (case find P xs of None \<Rightarrow> find P ys | Some x \<Rightarrow> Some x)"
  by (induction xs) auto

lemma current_tins: "currentDevice s = Inr c \<Longrightarrow> dv_trust p \<noteq> trust_local \<Longrightarrow>
   currentDevice (s\<lparr>st_devices := tins dv_id p (st_devices s)\<rparr>) = Inr c"
  by (auto simp: currentDevice_def tins_def find_app split: option.splits)

lemma current_tmod:
  assumes "currentDevice s = Inr c" and "\<And>d. P d \<Longrightarrow> dv_trust d \<noteq> trust_local" and "\<And>d. P d \<Longrightarrow> dv_trust (f d) \<noteq> trust_local"
  shows "currentDevice (s\<lparr>st_devices := tmod P f (st_devices s)\<rparr>) = Inr c"
proof -
  obtain d where d: "find (\<lambda>d. dv_trust d = trust_local) (st_devices s) = Some d" "c = d"
    using assms(1) by (auto simp: currentDevice_def split: option.split_asm)
  have "\<not> P d" using find_Some_set [OF d(1)] assms(2) by auto
  then have "find (\<lambda>d. dv_trust d = trust_local) (tmod P f (st_devices s)) = Some d"
    by (subst find_tmod) (use assms(2,3) d in auto)
  then show ?thesis using d by (simp add: currentDevice_def)
qed

lemma import_trust_row_spec:
  assumes "trust_row_ok tr" and c: "currentDevice s = Inr c"
  shows "\<exists>b ds. import_trust_row w (f, s) tr = Inr (f \<or> b, s\<lparr>st_devices := ds\<rparr>) \<and>
     currentDevice (s\<lparr>st_devices := ds\<rparr>) = Inr c \<and>
     (\<forall>i. tget dv_id i ds = (if i = sr_dev tr \<and> i \<noteq> dv_id c
        then Some (row_trust tr (or_else (tget dv_id i (st_devices s)) (placeholder i ''remote'')))
        else if i = sr_dev tr \<and> tget dv_id i (st_devices s) = None then Some (placeholder i ''remote'')
        else tget dv_id i (st_devices s)))"
proof -
  let ?i = "sr_dev tr"
  define s1 where "s1 = s\<lparr>st_devices := tins dv_id (placeholder ?i ''remote'') (st_devices s)\<rparr>"
  have e: "EnsureRemoteDeviceTx ?i s = Inr s1" using assms(1) by (simp add: EnsureRemoteDeviceTx_def trust_row_ok_def s1_def)
  have c1: "currentDevice s1 = Inr c" unfolding s1_def by (rule current_tins [OF c]) (simp add: placeholder_def)
  have g1: "tget dv_id i (st_devices s1) = (if i = ?i then Some (or_else (tget dv_id i (st_devices s)) (placeholder i ''remote''))
      else tget dv_id i (st_devices s))" for i
    by (cases "tget dv_id i (st_devices s)") (auto simp: s1_def tget_tins placeholder_def)
  show ?thesis
  proof (cases "?i = dv_id c")
    case True
    then have "import_trust_row w (f, s) tr = Inr (f \<or> False, s\<lparr>st_devices := st_devices s1\<rparr>)"
      using assms(1) e c1 by (auto simp: import_trust_row_def trust_row_ok_def ApplyRemoteDeviceTrustTx_def s1_def)
    moreover have "currentDevice (s\<lparr>st_devices := st_devices s1\<rparr>) = Inr c" using c1 by (simp add: s1_def)
    ultimately show ?thesis using g1 True
      by (intro exI [of _ False] exI [of _ "st_devices s1"])
        (auto simp: or_else_def split: option.splits)
  next
    case False
    define s2 where "s2 = s1\<lparr>st_devices := tmod (flippable ?i) (\<lambda>d. d\<lparr>dv_trust := sr_state tr\<rparr>) (st_devices s1)\<rparr>"
    define s3 where "s3 = record_step (?i, sr_revoked tr) s2"
    have r: "import_trust_row w (f, s) tr = Inr (f \<or> list_ex (flippable ?i) (st_devices s1), s3)"
      using assms(1) e c1 False
      by (auto simp: import_trust_row_def trust_row_ok_def ApplyRemoteDeviceTrustTx_def Let_def s3_def s2_def record_step_def)
    have st: "sr_state tr \<noteq> trust_local" using assms(1) by (auto simp: trust_row_ok_def)
    have "currentDevice s2 = Inr c"
      unfolding s2_def by (rule current_tmod [OF c1]) (use st in \<open>auto simp: flippable_def\<close>)
    then have c3: "currentDevice s3 = Inr c"
      by (cases "sr_revoked tr \<le> 0")
        (auto simp: s3_def record_step_def recordDeviceRevocationHLC_def intro!: current_tmod)
    have g2: "tget dv_id i (st_devices s2) = map_option (\<lambda>d. if flippable ?i d then d\<lparr>dv_trust := sr_state tr\<rparr> else d)
        (tget dv_id i (st_devices s1))" for i
      by (simp add: s2_def tget_tmod)
    have g3: "tget dv_id i (st_devices s3) = (if i = ?i
        then Some (row_trust tr (or_else (tget dv_id i (st_devices s)) (placeholder i ''remote'')))
        else tget dv_id i (st_devices s))" for i
    proof (cases "i = ?i")
      case True
      define d where "d = or_else (tget dv_id ?i (st_devices s)) (placeholder ?i ''remote'')"
      have "dv_id d = ?i" by (cases "tget dv_id ?i (st_devices s)") (auto simp: d_def placeholder_def dest: tget_SomeD)
      then show ?thesis using True st
        by (simp add: s3_def tget_record g2 g1 d_def [symmetric] row_trust_def flippable_def)
    next
      case False
      then show ?thesis
        by (cases "tget dv_id i (st_devices s)") (auto simp: s3_def tget_record g2 g1 flippable_def dest: tget_SomeD)
    qed
    have "s3 = s\<lparr>st_devices := st_devices s3\<rparr>"
      by (simp add: s3_def record_step_def recordDeviceRevocationHLC_def s2_def s1_def)
    then have "import_trust_row w (f, s) tr = Inr (f \<or> list_ex (flippable ?i) (st_devices s1), s\<lparr>st_devices := st_devices s3\<rparr>)"
      "currentDevice (s\<lparr>st_devices := st_devices s3\<rparr>) = Inr c" using r c3 by simp_all
    then show ?thesis using g3 False by auto
  qed
qed

end
