(* ===== verification/Snapshot_Exchange.thy ===== *)
theory Snapshot_Exchange
  imports Snapshot_Merge
begin

section \<open>A snapshot from one store to another\<close>

text \<open>
  Import as a whole: when it succeeds, what it leaves in place, and the path-wise merge it makes of
  the importing store with the store the snapshot was built from.
\<close>

subsection \<open>What stays in place\<close>

lemma local_upsertNamespace: "upsertNamespaceTx w pk u s = (i, s1) \<Longrightarrow> same_local s s1"
  by (auto simp: upsertNamespaceTx_def new_id_def Let_def same_local_def split: option.splits if_splits)

lemma local_typed: "same_local s (put_typed_row i u s)"
  by (simp add: put_typed_row_def same_local_def)

lemma local_upsert:
  assumes "UpsertProjectTx w u s = Inr (i, s')"
  shows "same_local s s'"
proof -
  obtain pk where pk: "Clean w (up_path u) = Inr pk" using assms by (auto simp: UpsertProjectTx_def)
  obtain j s1 where r: "upsertNamespaceTx w pk (default_params u) s = (j, s1)" by fastforce
  have "s' = put_typed_row j (default_params u) s1" using assms by (auto simp: UpsertProjectTx_def pk r)
  then show ?thesis using same_local_trans [OF local_upsertNamespace [OF r] local_typed] by simp
qed

lemma local_tombstone: "same_local s (tombstonePath w pk h s)"
proof -
  obtain j s1 where r: "upsertNamespaceTx w pk (tombstone_params pk) s = (j, s1)" by fastforce
  show ?thesis using local_upsertNamespace [OF r] by (simp add: tombstonePath_def r same_local_def)
qed

lemma local_tomb: "TombstoneProject w p h s = Inr s' \<Longrightarrow> same_local s s'"
  by (auto simp: TombstoneProject_def local_tombstone)

lemma local_conflict: "same_local s (insertConflict w ns ty d s)"
  by (simp add: insertConflict_def Let_def new_id_def same_local_def)

lemma foldr_res_local:
  assumes "\<And>s x s'. f s x = Inr s' \<Longrightarrow> same_local s s'"
  shows "foldr_res f s xs = Inr s' \<Longrightarrow> same_local s s'"
proof (induction xs arbitrary: s)
  case (Cons x xs)
  then obtain s1 where "f s x = Inr s1" "foldr_res f s1 xs = Inr s'" by auto
  then show ?case using same_local_trans [OF assms Cons.IH] by blast
qed simp

lemma local_project:
  assumes "applyProjectEvent w e s = Inr s'"
  shows "same_local s s'"
proof -
  have m: "same_local t t'" if "persist_mutation w t m = Inr t'" for t m t'
    using that by (cases m) (auto simp: persist_mutation_def local_upsert local_tomb)
  have c: "same_local t (foldl (persist_conflict w) t cs)" for cs t
  proof (induction cs arbitrary: t)
    case (Cons c cs)
    show ?case using same_local_trans [OF _ Cons.IH] local_conflict by (simp add: persist_conflict_def)
  qed simp
  show ?thesis
    using assms same_local_trans [OF foldr_res_local [where f = "persist_mutation w", OF m] c]
    by (auto simp: applyProjectEvent_def applyDecisionTx_def)
qed

lemma local_pointer: "pointer_step s s' \<Longrightarrow> same_local s s'"
  by (simp add: pointer_step_def same_local_def)

lemma local_entry: "importEntryTx w s e = Inr s' \<Longrightarrow> same_local s s'"
proof -
  have "same_local t t'" if "import_winner w e t = Inr t'" for t t'
    using that same_local_trans [OF local_upsert same_local_trans [OF local_pointer [OF import_draft_pointer]
        local_pointer [OF import_env_pointer]]]
    by (auto simp: import_winner_def)
  moreover assume "importEntryTx w s e = Inr s'"
  ultimately show ?thesis
    by (auto simp: importEntryTx_def dest: local_pointer [OF import_env_pointer] split: sum.splits if_splits)
qed

lemma local_tomb_row: "importTombstoneTx w s t = Inr s' \<Longrightarrow> same_local s s'"
  by (auto simp: importTombstoneTx_def TombstoneByPathKey_def local_tombstone local_conflict split: sum.splits if_splits)

subsection \<open>The trust rows\<close>

definition trust_fold :: "string \<Rightarrow> snap_trust list \<Rightarrow> device option \<Rightarrow> device option" where
  "trust_fold i trs = fold (\<lambda>tr d. if sr_dev tr = i
     then Some (row_trust tr (or_else d (placeholder i ''remote''))) else d) trs"

lemma trust_fold_simps [simp]:
  "trust_fold i [] d = d"
  "trust_fold i (tr # trs) d = trust_fold i trs (if sr_dev tr = i
     then Some (row_trust tr (or_else d (placeholder i ''remote''))) else d)"
  by (simp_all add: trust_fold_def)

lemma current_mem: "currentDevice s = Inr c \<Longrightarrow> c \<in> set (st_devices s) \<and> dv_trust c = trust_local"
  by (auto simp: currentDevice_def split: option.splits dest: find_Some_set)

lemma import_trust_rows:
  assumes "\<forall>tr \<in> set trs. trust_row_ok tr" and "currentDevice s = Inr c"
  shows "\<exists>b ds. foldr_res (import_trust_row w) (f, s) trs = Inr (b, s\<lparr>st_devices := ds\<rparr>) \<and>
     currentDevice (s\<lparr>st_devices := ds\<rparr>) = Inr c \<and>
     (\<forall>i. i \<noteq> dv_id c \<longrightarrow> tget dv_id i ds = trust_fold i trs (tget dv_id i (st_devices s)))"
  using assms
proof (induction trs arbitrary: s f)
  case Nil
  then show ?case by (intro exI [of _ f] exI [of _ "st_devices s"]) simp
next
  case (Cons tr trs)
  obtain b ds where r: "import_trust_row w (f, s) tr = Inr (f \<or> b, s\<lparr>st_devices := ds\<rparr>)"
    "currentDevice (s\<lparr>st_devices := ds\<rparr>) = Inr c"
    "\<And>i. i \<noteq> dv_id c \<Longrightarrow> tget dv_id i ds = (if sr_dev tr = i
        then Some (row_trust tr (or_else (tget dv_id i (st_devices s)) (placeholder i ''remote''))) else tget dv_id i (st_devices s))"
    using import_trust_row_spec [of tr s c w f] Cons.prems by auto
  obtain b' ds' where "foldr_res (import_trust_row w) (f \<or> b, s\<lparr>st_devices := ds\<rparr>) trs = Inr (b', s\<lparr>st_devices := ds'\<rparr>)"
    "currentDevice (s\<lparr>st_devices := ds'\<rparr>) = Inr c"
    "\<And>i. i \<noteq> dv_id c \<Longrightarrow> tget dv_id i ds' = trust_fold i trs (tget dv_id i ds)"
    using Cons.IH [of "s\<lparr>st_devices := ds\<rparr>" "f \<or> b"] Cons.prems(1) r(2) by auto
  then show ?case using r(1,3) by (intro exI [of _ b'] exI [of _ ds']) simp
qed

lemma importTrust_spec:
  assumes "\<forall>tr \<in> set trs. trust_row_ok tr" and "currentDevice s = Inr c"
  shows "\<exists>s'. importTrustTx w trs s = Inr s' \<and> same_rows s s' \<and> st_hub_seqs s' = st_hub_seqs s \<and>
     currentDevice s' = Inr c \<and> (\<forall>i. i \<noteq> dv_id c \<longrightarrow> tget dv_id i (st_devices s') = trust_fold i trs (tget dv_id i (st_devices s)))"
proof -
  obtain b ds where b: "foldr_res (import_trust_row w) (False, s) trs = Inr (b, s\<lparr>st_devices := ds\<rparr>)"
    "currentDevice (s\<lparr>st_devices := ds\<rparr>) = Inr c"
    "\<forall>i. i \<noteq> dv_id c \<longrightarrow> tget dv_id i ds = trust_fold i trs (tget dv_id i (st_devices s))"
    using import_trust_rows [OF assms] by blast
  show ?thesis
    using b by (auto simp: importTrustTx_def Let_def same_rows_def currentDevice_def SetWCKRotationPendingTx_def
        SetLocalMeta_def markEncryptedBindingsNeedingRotation_def split: option.splits)
qed

subsection \<open>The transaction\<close>

definition importable :: "world \<Rightarrow> snapshot \<Rightarrow> bool" where
  "importable w snap \<longleftrightarrow>
     (\<forall>e \<in> set (sn_entries snap). repo_entry w e \<and> se_env e = None \<and>
        pred_option (\<lambda>d. prefixb blob_prefix (sd_blob d)) (se_draft e)) \<and>
     (\<forall>tr \<in> set (sn_trust snap). trust_row_ok tr)"

lemma import_draft_succeeds:
  assumes "pred_option (\<lambda>d. prefixb blob_prefix (sd_blob d)) (se_draft e)" and "tget ns_id i (st_entries s) \<noteq> None"
  shows "\<exists>s'. import_draft_of w i e s = Inr s'"
  using assms by (cases "se_draft e")
    (auto simp: import_draft_of_def RecordDraftSnapshotTx_def EnsureDraftProject_def add_snapshot_def new_id_def Let_def)

lemma import_entry_succeeds:
  assumes ready: "merge_ready w s" and ids: "ids_sound w" and r: "repo_entry w e" and env: "se_env e = None"
    and draft: "pred_option (\<lambda>d. prefixb blob_prefix (sd_blob d)) (se_draft e)"
  shows "\<exists>s'. importEntryTx w s e = Inr s'"
proof -
  obtain pk where cl: "Clean w (se_path e) = Inr pk" using r by (auto simp: repo_entry_def)
  have ok: "entries_ok w s" using ready by (simp add: merge_ready_def)
  obtain i s1 x where s1: "UpsertProjectTx w (upsertParamsForSnapshotEntry e) s = Inr (i, s1)"
    "tget ns_key (p_key pk) (st_entries s1) = Some x" "ns_id x = i"
    using upsert_claims_entry [OF ok ids cl r] by blast
  have "tget ns_id i (st_entries s1) \<noteq> None"
    using tget_SomeD [OF s1(2)] s1(3) by (auto simp: tget_None)
  then obtain s2 where "import_draft_of w i e s1 = Inr s2" using import_draft_succeeds [OF draft] by blast
  then have "import_winner w e s = Inr s2" by (simp add: import_winner_def s1(1) import_env_of_def env)
  then show ?thesis
    by (auto simp: importEntryTx_def TombstoneHLC_def cl import_env_of_def env split: option.splits sum.splits)
qed

lemma import_entries_succeed:
  assumes "merge_ready w s" and "ids_sound w" and "\<forall>e \<in> set es. repo_entry w e \<and> se_env e = None \<and>
        pred_option (\<lambda>d. prefixb blob_prefix (sd_blob d)) (se_draft e)"
  shows "\<exists>s'. foldr_res (importEntryTx w) s es = Inr s'"
  using assms
proof (induction es arbitrary: s)
  case (Cons e es)
  obtain s1 where s1: "importEntryTx w s e = Inr s1" using import_entry_succeeds [OF Cons.prems(1,2)] Cons.prems(3) by auto
  have "merge_ready w s1" using import_entry_view [OF Cons.prems(1,2) _ s1] Cons.prems(3) by auto
  then show ?case using Cons.IH [OF _ Cons.prems(2)] Cons.prems(3) s1 by auto
qed simp

lemma import_anchors_rows:
  "same_rows s (foldl (import_anchor sha) s as) \<and> st_devices (foldl (import_anchor sha) s as) = st_devices s \<and>
     st_hub_seqs (foldl (import_anchor sha) s as) = st_hub_seqs s"
  by (induction as arbitrary: s) (auto simp: import_anchor_def UpsertChainAnchor_def same_rows_def)

lemma receive_rows:
  assumes "currentDevice s = Inr c"
  shows "\<exists>s'. ReceiveRemoteHLC w h s = Inr s' \<and> same_rows s s' \<and> st_devices s' = st_devices s \<and> st_hub_seqs s' = st_hub_seqs s"
  using assms by (auto simp: ReceiveRemoteHLC_def Let_def same_rows_def split: prod.splits)

text \<open>Nothing but the namespace is touched before the trust rows.\<close>

definition entry_views :: "world \<Rightarrow> snapshot \<Rightarrow> (string \<Rightarrow> pview) \<Rightarrow> string \<Rightarrow> pview" where
  "entry_views w snap v = foldl join_claim v (map (entry_claim w) (sn_entries snap))"

lemma merged_view_split:
  "merged_view w snap v = foldl join_claim (entry_views w snap v) (map tomb_claim (sn_tombs snap))"
  by (simp add: merged_view_def snapshot_claims_def entry_views_def)

lemma import_tx_spec:
  assumes "merge_ready w s" and "ids_sound w" and "importable w snap" and "currentDevice s = Inr c"
  shows "\<exists>s'. import_tx w snap sha s = Inr s' \<and> merge_ready w s' \<and> st_checkouts s' = st_checkouts s \<and>
     store_view s' = merged_view w snap (store_view s) \<and> currentDevice s' = Inr c \<and> st_hub_seqs s' = st_hub_seqs s \<and>
     (\<forall>i. i \<noteq> dv_id c \<longrightarrow> tget dv_id i (st_devices s') = trust_fold i (sn_trust snap) (tget dv_id i (st_devices s)))"
proof -
  obtain s1 where s1: "foldr_res (importEntryTx w) s (sn_entries snap) = Inr s1"
    using import_entries_succeed [OF assms(1,2), of "sn_entries snap"] assms(3) by (auto simp: importable_def)
  have v1: "merge_ready w s1" "same_local s s1" "store_view s1 = entry_views w snap (store_view s)"
    using import_entries_view [OF assms(1,2) _ s1] assms(3) by (auto simp: importable_def entry_views_def)
  obtain s2 where s2: "foldr_res (importTombstoneTx w) s1 (sn_tombs snap) = Inr s2" "merge_ready w s2" "same_local s1 s2"
    "store_view s2 = merged_view w snap (store_view s)"
    using import_tombs_view [OF v1(1) assms(2)] v1(3) by (auto simp: merged_view_split)
  have d: "st_devices s2 = st_devices s" "st_checkouts s2 = st_checkouts s" "st_hub_seqs s2 = st_hub_seqs s"
    using v1(2) s2(3) by (simp_all add: same_local_def)
  then have "currentDevice s2 = Inr c" using assms(4) by (simp add: currentDevice_def)
  then obtain s3 where s3: "importTrustTx w (sn_trust snap) s2 = Inr s3" "same_rows s2 s3" "currentDevice s3 = Inr c"
    "st_hub_seqs s3 = st_hub_seqs s2"
    "\<forall>i. i \<noteq> dv_id c \<longrightarrow> tget dv_id i (st_devices s3) = trust_fold i (sn_trust snap) (tget dv_id i (st_devices s))"
    using importTrust_spec [of "sn_trust snap" s2 c w] assms(3) d(1) by (auto simp: importable_def)
  let ?s4 = "foldl (import_anchor sha) s3 (sn_anchors snap)"
  note A = import_anchors_rows [of s3 sha "sn_anchors snap"]
  have "currentDevice ?s4 = Inr c" using s3(3) A by (simp add: currentDevice_def)
  then obtain s' where s': "ReceiveRemoteHLC w (sn_hlc snap) ?s4 = Inr s'" "same_rows ?s4 s'" "st_devices s' = st_devices ?s4"
    "st_hub_seqs s' = st_hub_seqs ?s4"
    using receive_rows by blast
  have c': "currentDevice s' = Inr c" using s3(3) s'(3) A by (simp add: currentDevice_def)
  have rows: "same_rows s2 s'" using same_rows_trans [OF s3(2) same_rows_trans [OF conjunct1 [OF A] s'(2)]] .
  have "import_tx w snap sha s = Inr s'" by (simp add: import_tx_def s1 s2(1) s3(1) s'(1))
  then show ?thesis
    using same_rows_ready [OF rows] same_rows_view [OF rows] s2(2,4) s3(4,5) s'(3,4) A d(2,3) rows c'
    by (auto simp: same_rows_def)
qed

lemma advance_rows:
  "same_rows s (foldl (advance_to_floor hub) s fs) \<and> st_devices (foldl (advance_to_floor hub) s fs) = st_devices s"
  by (induction fs arbitrary: s) (auto simp: advance_to_floor_def AdvanceHubDeviceCursor_def same_rows_def)

lemma cache_rows:
  "same_rows s (cacheRetentionFloor hub fs s) \<and> st_devices (cacheRetentionFloor hub fs s) = st_devices s \<and>
     st_hub_seqs (cacheRetentionFloor hub fs s) = st_hub_seqs s"
  by (simp add: cacheRetentionFloor_def SetLocalMeta_def same_rows_def)

lemma after_import_rows:
  assumes "ImportSnapshot w snap sha hub s = (Inr (), s')"
  obtains s1 where "import_tx w snap sha s = Inr s1" "same_rows s1 s'" "st_devices s' = st_devices s1"
    "st_hub_seqs s' = st_hub_seqs (foldl (advance_to_floor hub) s1 (snapshot_floor snap))"
proof -
  obtain s1 where s1: "import_tx w snap sha s = Inr s1"
    and s': "s' = cacheRetentionFloor hub (snapshot_floor snap) (foldl (advance_to_floor hub) s1 (snapshot_floor snap))"
    using assms by (auto simp: ImportSnapshot_def split: sum.splits)
  show ?thesis
    using that [OF s1] advance_rows [of s1 hub "snapshot_floor snap"]
      cache_rows [of "foldl (advance_to_floor hub) s1 (snapshot_floor snap)" hub "snapshot_floor snap"]
    unfolding s' by (auto simp: same_rows_def)
qed

lemma ImportSnapshot_spec:
  assumes "merge_ready w s" and "ids_sound w" and "importable w snap" and "currentDevice s = Inr c"
  shows "\<exists>s'. ImportSnapshot w snap sha hub s = (Inr (), s') \<and> merge_ready w s' \<and> st_checkouts s' = st_checkouts s \<and>
     store_view s' = merged_view w snap (store_view s) \<and> currentDevice s' = Inr c"
proof -
  obtain s1 where s1: "import_tx w snap sha s = Inr s1" "merge_ready w s1" "st_checkouts s1 = st_checkouts s"
    "store_view s1 = merged_view w snap (store_view s)" "currentDevice s1 = Inr c"
    using import_tx_spec [OF assms] by blast
  then obtain s' where s': "ImportSnapshot w snap sha hub s = (Inr (), s')" by (simp add: ImportSnapshot_def)
  show ?thesis
    by (rule after_import_rows [OF s'])
      (use s1 s' in \<open>auto simp: same_rows_ready same_rows_view same_rows_def [of s1 s'] currentDevice_def\<close>)
qed

subsection \<open>What a store exports\<close>

text \<open>The rows of a store as the pull and scan paths of repositories leave them.\<close>

definition exportable_row :: "world \<Rightarrow> store \<Rightarrow> entry \<Rightarrow> bool" where
  "exportable_row w s e \<longleftrightarrow> Clean w (ns_path e) = Inr \<lparr>p_display = ns_path e, p_key = ns_key e\<rparr> \<and> ns_type e = ''git_repo'' \<and>
     or_else (ns_src_hlc e) 0 \<noteq> 0 \<and> or_else (ns_src_dev e) [] \<noteq> [] \<and> or_else (ns_src_id e) [] \<noteq> [] \<and>
     (case tget gr_ns (ns_id e) (st_repos s) of None \<Rightarrow> False | Some g \<Rightarrow> gr_url g \<noteq> [] \<and> gr_branch g \<noteq> []) \<and>
     snapshotEnvForProject (ns_id e) s = None \<and>
     pred_option (\<lambda>d. prefixb blob_prefix (ds_blob d)) (LatestDraftSnapshot (ns_id e) s)"

definition exportable :: "world \<Rightarrow> store \<Rightarrow> bool" where
  "exportable w s \<longleftrightarrow> uniq ns_key (st_entries s) \<and> tombs_ok s \<and> (\<forall>d \<in> set (st_devices s). dv_id d \<noteq> []) \<and>
     (\<forall>e \<in> set (st_entries s). ns_status e = projectionStatusActive \<longrightarrow> exportable_row w s e)"

definition row_claim :: "store \<Rightarrow> entry \<Rightarrow> string \<times> pview" where
  "row_claim s e = (ns_key e, entry_view s e)"

lemma exported_entry:
  assumes "exportable_row w s e" and "ns_status e = projectionStatusActive"
  shows "repo_entry w (snapshot_entry s (status_of s e))" "entry_claim w (snapshot_entry s (status_of s e)) = row_claim s e"
    "se_env (snapshot_entry s (status_of s e)) = None"
    "pred_option (\<lambda>d. prefixb blob_prefix (sd_blob d)) (se_draft (snapshot_entry s (status_of s e)))"
  using assms
  by (auto simp: exportable_row_def repo_entry_def snapshot_entry_def status_of_def Let_def entry_src_def row_claim_def
      entry_claim_def entry_content_def params_content_def upsertParamsForSnapshotEntry_def default_params_def entry_view_def
      option.pred_map comp_def split: option.splits)

abbreviation live_rows :: "store \<Rightarrow> entry list" where
  "live_rows s \<equiv> sort_key ns_key (filter (\<lambda>e. ns_status e = projectionStatusActive) (st_entries s))"

abbreviation dead_rows :: "store \<Rightarrow> entry list" where
  "dead_rows s \<equiv> sort_key ns_key (filter (\<lambda>e. ns_status e = projectionStatusDeleted) (st_entries s))"

lemma exported_entries:
  assumes "exportable w s"
  shows "map (entry_claim w) (SnapshotEntries s) = map (row_claim s) (live_rows s)"
    "\<forall>e \<in> set (SnapshotEntries s). repo_entry w e \<and> se_env e = None \<and> pred_option (\<lambda>d. prefixb blob_prefix (sd_blob d)) (se_draft e)"
  using assms exported_entry by (auto simp: exportable_def SnapshotEntries_def ListProjects_def)

lemma map_filter_total:
  assumes "\<And>x. x \<in> set xs \<Longrightarrow> f x = Some (g x)"
  shows "List.map_filter f xs = map g xs"
  using assms by (induction xs) simp_all

lemma exported_tombs:
  assumes "exportable w s"
  shows "map tomb_claim (SnapshotTombstones s) = map (row_claim s) (dead_rows s)"
proof -
  have d: "\<exists>t. ns_tomb e = Some t" if "e \<in> set (dead_rows s)" for e
    using assms that by (fastforce simp: exportable_def tombs_ok_def projectionStatusActive_def projectionStatusDeleted_def)
  have "SnapshotTombstones s = map (\<lambda>e. \<lparr>sx_key = ns_key e, sx_hlc = the (ns_tomb e), sx_dev = or_else (ns_src_dev e) [],
      sx_id = or_else (ns_src_id e) []\<rparr>) (dead_rows s)"
    unfolding SnapshotTombstones_def by (rule map_filter_total) (use d in force)
  then show ?thesis
    using d by (fastforce simp: tomb_claim_def row_claim_def entry_view_def)
qed

lemma exported_trust: "exportable w s \<Longrightarrow> \<forall>tr \<in> set (SnapshotTrust s). trust_row_ok tr"
  by (auto simp: exportable_def SnapshotTrust_def trust_row_ok_def)

lemma built_parts:
  assumes "BuildSnapshot w p h fl s = Inr snap"
  shows "sn_entries snap = SnapshotEntries s" "sn_tombs snap = SnapshotTombstones s" "sn_trust snap = SnapshotTrust s"
    "sn_floor snap = Some fl"
  using assms by (auto simp: BuildSnapshot_def)

lemma built_importable: "exportable w s \<Longrightarrow> BuildSnapshot w p h fl s = Inr snap \<Longrightarrow> importable w snap"
  using exported_entries(2) exported_trust by (simp add: importable_def built_parts)

text \<open>Claims on distinct paths act pointwise.\<close>

lemma fold_claims:
  assumes "distinct (map fst kcs)"
  shows "foldl join_claim v kcs k = (case map_of kcs k of None \<Rightarrow> v k | Some c \<Rightarrow> stored_join (v k) c)"
  using assms
proof (induction kcs arbitrary: v)
  case (Cons kc kcs)
  have "map_of kcs (fst kc) = None" using Cons.prems by (simp add: map_of_eq_None_iff)
  then show ?case using Cons by (cases kc) (auto simp: join_claim_def)
qed simp

lemma map_of_rows:
  assumes "uniq ns_key (st_entries s)"
  shows "map_of (map (row_claim s) (sort_key ns_key (filter P (st_entries s)))) k =
    (case tget ns_key k (st_entries s) of None \<Rightarrow> None | Some e \<Rightarrow> if P e then Some (entry_view s e) else None)"
proof -
  let ?t = "sort_key ns_key (filter P (st_entries s))"
  have d: "distinct (map fst (map (row_claim s) ?t))"
  proof -
    have "map fst (map (row_claim s) ?t) = map ns_key ?t" by (simp add: row_claim_def)
    moreover have "distinct (map ns_key ?t)"
      using assms by (simp add: uniq_def distinct_map inj_on_def)
    ultimately show ?thesis by (simp only:)
  qed
  have m: "map_of (map (row_claim s) ?t) k = Some v \<longleftrightarrow> (\<exists>e \<in> set (st_entries s). P e \<and> ns_key e = k \<and> v = entry_view s e)" for v
    using map_of_eq_Some_iff [OF d, of k v] by (auto simp: row_claim_def)
  show ?thesis
  proof (cases "tget ns_key k (st_entries s)")
    case None
    then have "\<not> (\<exists>e \<in> set (st_entries s). P e \<and> ns_key e = k \<and> v = entry_view s e)" for v by (auto simp: tget_None)
    then have "map_of (map (row_claim s) ?t) k = None" using m by (metis not_Some_eq)
    then show ?thesis by (simp add: None)
  next
    case (Some x)
    have x: "x \<in> set (st_entries s)" "ns_key x = k" using tget_SomeD [OF Some] by simp_all
    have u: "e = x" if "e \<in> set (st_entries s)" "ns_key e = k" for e
      using assms that x by (auto simp: uniq_def distinct_map inj_on_def)
    show ?thesis
    proof (cases "P x")
      case True
      then have "map_of (map (row_claim s) ?t) k = Some (entry_view s x)" using m x by blast
      then show ?thesis by (simp add: Some True)
    next
      case False
      then have "\<not> (\<exists>e \<in> set (st_entries s). P e \<and> ns_key e = k \<and> v = entry_view s e)" for v using u by blast
      then have "map_of (map (row_claim s) ?t) k = None" using m by (metis not_Some_eq)
      then show ?thesis by (simp add: Some False)
    qed
  qed
qed

lemma row_states:
  assumes "exportable w s"
  shows "tget ns_key k (st_entries s) = Some e \<Longrightarrow> ns_status e = projectionStatusActive \<or> ns_status e = projectionStatusDeleted"
  using assms by (auto simp: exportable_def tombs_ok_def dest: tget_SomeD)

lemma built_view:
  assumes ex: "exportable w sA" and b: "BuildSnapshot w p h fl sA = Inr snap"
  shows "merged_view w snap v k = stored_join (v k) (store_view sA k)"
proof -
  have u: "uniq ns_key (st_entries sA)" using ex by (simp add: exportable_def)
  have d: "distinct (map fst (map (row_claim sA) (sort_key ns_key (filter P (st_entries sA)))))" for P
    using u by (simp add: row_claim_def uniq_def distinct_map inj_on_def comp_def)
  have "merged_view w snap v = foldl join_claim (foldl join_claim v (map (row_claim sA) (live_rows sA))) (map (row_claim sA) (dead_rows sA))"
    by (simp only: merged_view_split entry_views_def built_parts [OF b] exported_entries(1) [OF ex] exported_tombs [OF ex])
  then show ?thesis
    using row_states [OF ex]
    by (auto simp: fold_claims [OF d] map_of_rows [OF u] store_view_def split: option.splits)
qed

lemma exchange:
  assumes "merge_ready w sB" and "ids_sound w" and "currentDevice sB = Inr c" and "exportable w sA"
    and "BuildSnapshot w p h fl sA = Inr snap"
  shows "\<exists>s'. ImportSnapshot w snap sha hub sB = (Inr (), s') \<and> merge_ready w s' \<and> st_checkouts s' = st_checkouts sB \<and>
     currentDevice s' = Inr c \<and> (\<forall>k. store_view s' k = stored_join (store_view sB k) (store_view sA k))"
  using ImportSnapshot_spec [OF assms(1,2) built_importable [OF assms(4,5)] assms(3), of sha hub]
  by (auto simp: built_view [OF assms(4,5)])

end
