(* ===== verification/Sweep_Lock.thy ===== *)
theory Sweep_Lock
  imports File_Hub Snapshot_Import
begin

section \<open>The advisory sweep lock\<close>

text \<open>
  \<^verbatim>\<open>src/internal/sync/sweeplock.go\<close> and \<^verbatim>\<open>src/internal/cli/hub_sweeplock.go\<close>: the object that
  keeps the destructive passes over a hub apart. A time is the number of nanoseconds since 1970,
  the zero \<^verbatim>\<open>time.Time\<close> the first of January of the year 1. Between the calls of one client on the
  hub the other clients act: what they do is the argument \<open>env\<close> of the operation, one function on
  the hub per gap.
\<close>

subsection \<open>The body of the lock\<close>

record sweep_lock =
  lk_holder :: string
  lk_hlc :: int
  lk_ttl :: int
  lk_nonce :: string

definition MarshalSweepLock :: "sweep_lock \<Rightarrow> string" where
  "MarshalSweepLock l = marshal_obj [jstr ''holder_device'' (lk_holder l), jint ''acquired_at_hlc'' (lk_hlc l),
     jint ''ttl_seconds'' (lk_ttl l), jstr ''nonce'' (lk_nonce l)]"

definition lock_zero :: sweep_lock where
  "lock_zero = \<lparr>lk_holder = [], lk_hlc = 0, lk_ttl = 0, lk_nonce = []\<rparr>"

definition ParseSweepLock :: "world \<Rightarrow> string \<Rightarrow> sweep_lock res" where
  "ParseSweepLock w raw =
     (case unmarshal [str_field ''holder_device'' lk_holder_update, int_field ''acquired_at_hlc'' lk_hlc_update,
        int_field ''ttl_seconds'' lk_ttl_update, str_field ''nonce'' lk_nonce_update] lock_zero raw of
        None \<Rightarrow> fail KOther (''parse sweep lock: '' @ w_decode_err w raw)
      | Some l \<Rightarrow> Inr l)"

lemma lock_round_trip:
  assumes "ascii_str (lk_holder l)" and "int64 (lk_hlc l)" and "int64 (lk_ttl l)" and "ascii_str (lk_nonce l)"
  shows "ParseSweepLock w (MarshalSweepLock l) = Inr l"
proof -
  have "unmarshal [str_field ''holder_device'' lk_holder_update, int_field ''acquired_at_hlc'' lk_hlc_update,
        int_field ''ttl_seconds'' lk_ttl_update, str_field ''nonce'' lk_nonce_update] lock_zero (MarshalSweepLock l) = Some l"
    unfolding MarshalSweepLock_def
    by (rule codes_unmarshal [where h = 1], unfold One_nat_def, insert assms, rule codes_fields,
        (rule fields_Cons finds_hd field_rules | rule finds_tl | simp add: struct_defs lock_zero_def; fail)+)
      (simp add: max_depth_def)
  then show ?thesis by (simp add: ParseSweepLock_def)
qed

subsection \<open>Times\<close>

definition second_ns :: int where "second_ns = 1000000000"
definition zero_time :: int where "zero_time = - 62135596800 * second_ns"
definition defaultSweepLockTTL :: int where "defaultSweepLockTTL = 3600 * second_ns"

text \<open>\<^verbatim>\<open>time.Duration(l.TTLSeconds) * time.Second\<close> wraps; \<^verbatim>\<open>Time.Sub\<close> saturates.\<close>

definition lock_TTL :: "sweep_lock \<Rightarrow> int" where
  "lock_TTL l = wrap64 (lk_ttl l * second_ns)"

definition AcquiredAt :: "sweep_lock \<Rightarrow> int" where
  "AcquiredAt l = fst (unpack (lk_hlc l)) * 1000000"

definition time_Sub :: "int \<Rightarrow> int \<Rightarrow> int" where
  "time_Sub t u = max (- (2 ^ 63)) (min (2 ^ 63 - 1) (t - u))"

definition sweepLockStale :: "sweep_lock \<Rightarrow> int \<Rightarrow> int \<Rightarrow> bool" where
  "sweepLockStale held lastModified now =
     (let ttl = (if lock_TTL held \<le> 0 then defaultSweepLockTTL else lock_TTL held);
          ref = (if lastModified = zero_time then AcquiredAt held else lastModified)
      in ref \<noteq> zero_time \<and> time_Sub now ref > ttl)"

subsection \<open>Acquire and release\<close>

definition sweepRaceRefusal :: "err \<Rightarrow> err" where
  "sweepRaceRefusal e =
     (if err_is e KSweepLockHeld
      then Err [KExitConflict] ''another sweep acquired the lock while we were breaking a stale one; re-run later''
      else Err (KExitNetwork # err_kinds e) (''acquire sweep lock: '' @ err_msg e))"

definition lock_body :: "string \<Rightarrow> int \<Rightarrow> int \<Rightarrow> string \<Rightarrow> string" where
  "lock_body device hlc ttl nonce = MarshalSweepLock
     \<lparr>lk_holder = device, lk_hlc = hlc, lk_ttl = ttl div second_ns, lk_nonce = nonce\<rparr>"

text \<open>The second create, after the lock was seen gone or was broken.\<close>

definition create_again :: "int \<Rightarrow> string \<Rightarrow> file_hub \<Rightarrow> string res \<times> file_hub" where
  "create_again now body h = (case hub_PutSweepLock now body h of
      Inl e \<Rightarrow> (Inl (sweepRaceRefusal e), h) | Inr h' \<Rightarrow> (Inr body, h'))"

definition break_lock :: "int \<Rightarrow> string \<Rightarrow> (file_hub \<Rightarrow> file_hub) \<Rightarrow> file_hub \<Rightarrow> string res \<times> file_hub" where
  "break_lock now body env h = create_again now body (env (hub_DeleteSweepLock h))"

text \<open>\<^verbatim>\<open>hubSweepLock\<close> returns the body the release compares against. \<open>env0\<close> acts between the create
  and the read of the lock, \<open>env1\<close> after the read, \<open>env2\<close> between the break and the second create.\<close>

definition acquire_body :: "world \<Rightarrow> int \<Rightarrow> string \<Rightarrow> (file_hub \<Rightarrow> file_hub) \<Rightarrow> (file_hub \<Rightarrow> file_hub) \<Rightarrow>
    (file_hub \<Rightarrow> file_hub) \<Rightarrow> file_hub \<Rightarrow> string res \<times> file_hub" where
  "acquire_body w now body env0 env1 env2 h =
     (case hub_PutSweepLock now body h of
        Inr h' \<Rightarrow> (Inr body, h')
      | Inl e \<Rightarrow>
          if \<not> err_is e KSweepLockHeld
          then (Inl (Err (KExitNetwork # err_kinds e) (''acquire sweep lock: '' @ err_msg e)), h)
          else (let h1 = env0 h in
            case hub_GetSweepLock h1 of
              Inl g \<Rightarrow>
                if err_is g KSweepLockNotFound then create_again now body (env1 h1)
                else (Inl (Err (KExitNetwork # err_kinds g) (''read sweep lock: '' @ err_msg g)), h1)
            | Inr (raw, lastModified) \<Rightarrow>
                (let held = (case ParseSweepLock w raw of Inr l \<Rightarrow> l | Inl _ \<Rightarrow> lock_zero) in
                 if \<not> sweepLockStale held lastModified now
                 then (Inl (Err [KExitConflict] (''another sweep is in progress (lock held by device '' @ lk_holder held @ '')'')), h1)
                 else break_lock now body env2 (env1 h1))))"

definition hubSweepLock :: "world \<Rightarrow> int \<Rightarrow> int \<Rightarrow> string \<Rightarrow> (file_hub \<Rightarrow> file_hub) \<Rightarrow> (file_hub \<Rightarrow> file_hub) \<Rightarrow>
    (file_hub \<Rightarrow> file_hub) \<Rightarrow> store \<Rightarrow> file_hub \<Rightarrow> string res \<times> file_hub" where
  "hubSweepLock w now ttl0 nonce env0 env1 env2 s h =
     (case bindr (currentDevice s) (\<lambda>d. bindr (CurrentHLC s) (\<lambda>hlc. Inr (dv_id d, hlc))) of
        Inl e \<Rightarrow> (Inl e, h)
      | Inr (dev, hlc) \<Rightarrow>
          acquire_body w now (lock_body dev hlc (if ttl0 \<le> 0 then defaultSweepLockTTL else ttl0) nonce) env0 env1 env2 h)"

definition release :: "string \<Rightarrow> (file_hub \<Rightarrow> file_hub) \<Rightarrow> file_hub \<Rightarrow> file_hub" where
  "release body env h = (case hub_GetSweepLock h of
      Inl _ \<Rightarrow> h
    | Inr (cur, _) \<Rightarrow> if cur \<noteq> body then env h else hub_DeleteSweepLock (env h))"

subsection \<open>One client at a time\<close>

definition calm :: "file_hub \<Rightarrow> file_hub" where "calm h = h"

definition lock_held :: "file_hub \<Rightarrow> string \<Rightarrow> int \<Rightarrow> bool" where
  "lock_held h raw t \<longleftrightarrow> fh_lock h = Some (raw, t)"

lemmas lock_ops = hub_PutSweepLock_def hub_GetSweepLock_def hub_DeleteSweepLock_def fail_def

lemma acquire_free:
  "fh_lock h = None \<Longrightarrow> acquire_body w now body e0 e1 e2 h = (Inr body, h\<lparr>fh_lock := Some (body, now)\<rparr>)"
  by (simp add: acquire_body_def lock_ops)

lemma acquire_live:
  assumes "fh_lock h = Some (raw, t)" and "\<not> sweepLockStale (case ParseSweepLock w raw of Inr l \<Rightarrow> l | Inl _ \<Rightarrow> lock_zero) t now"
    and "\<And>g. fh_lock (e0 g) = fh_lock g"
  shows "\<exists>er. acquire_body w now body e0 e1 e2 h = (Inl er, e0 h) \<and> err_is er KExitConflict"
  using assms by (simp add: acquire_body_def lock_ops)

lemma acquire_stale:
  assumes "fh_lock h = Some (raw, t)" and "sweepLockStale (case ParseSweepLock w raw of Inr l \<Rightarrow> l | Inl _ \<Rightarrow> lock_zero) t now"
    and "fh_lock (e0 h) = Some (raw, t)"
  shows "acquire_body w now body e0 e1 e2 h = create_again now body (e2 (hub_DeleteSweepLock (e1 (e0 h))))"
  using assms by (simp add: acquire_body_def break_lock_def lock_ops Let_def)

text \<open>How long a lock on the hub lives, in seconds: what its body says when it parses and says a
  positive number, an hour otherwise. The number of nanoseconds must fit a \<^verbatim>\<open>Duration\<close>.\<close>

definition stated_ttl :: "world \<Rightarrow> string \<Rightarrow> int" where
  "stated_ttl w raw = (case ParseSweepLock w raw of Inr l \<Rightarrow> lk_ttl l | Inl _ \<Rightarrow> 0)"

lemma stale_by_age:
  assumes "t \<noteq> zero_time" and "\<bar>stated_ttl w raw\<bar> \<le> 9223372036"
  shows "sweepLockStale (case ParseSweepLock w raw of Inr l \<Rightarrow> l | Inl _ \<Rightarrow> lock_zero) t now \<longleftrightarrow>
    now - t > (if 0 < stated_ttl w raw then stated_ttl w raw else 3600) * 1000000000"
proof -
  define l where "l = (case ParseSweepLock w raw of Inr l \<Rightarrow> l | Inl _ \<Rightarrow> lock_zero)"
  have k: "lk_ttl l = stated_ttl w raw" by (simp add: l_def stated_ttl_def lock_zero_def split: sum.split)
  have r: "lk_ttl l \<le> 9223372036" "- 9223372036 \<le> lk_ttl l" using assms(2) k by auto
  then have T: "lock_TTL l = lk_ttl l * 1000000000"
    unfolding lock_TTL_def second_ns_def by (intro wrap64_id) (simp add: int64_def)
  have m: "time_Sub now t > b \<longleftrightarrow> now - t > b" if "0 \<le> b" "b < 2 ^ 63 - 1" for b
    using that by (auto simp: time_Sub_def max_def min_def)
  have ttl: "(if lock_TTL l \<le> 0 then defaultSweepLockTTL else lock_TTL l) =
      (if 0 < lk_ttl l then lk_ttl l else 3600) * 1000000000"
    by (auto simp: T defaultSweepLockTTL_def second_ns_def)
  define b where "b = (if 0 < lk_ttl l then lk_ttl l else 3600) * 1000000000"
  have "time_Sub now t > b \<longleftrightarrow> now - t > b" by (rule m) (use r in \<open>auto simp: b_def\<close>)
  then show ?thesis
    unfolding l_def [symmetric] sweepLockStale_def Let_def ttl k [symmetric] b_def [symmetric]
    using assms(1) by simp
qed

text \<open>C27: while no other client acts in between, the sweep lock excludes. A sweep that meets no lock
  takes it and holds it from then on. One that meets a lock the backend has dated, whose stated life in
  nanoseconds fits 64 bits, is refused with a conflict and changes nothing as long as no more than
  that life has passed since that date (the seconds its body states, an hour when it states none or
  does not parse); once more time has passed, it replaces the lock with its own. And a release
  removes the lock exactly when the body on the hub is the one the releasing sweep wrote. (Without a
  date on the lock its age is taken from the clock its holder reported; that case is not here.)\<close>

theorem sweep_lock_excludes:
  "(fh_lock h = None \<longrightarrow> acquire_body w now body calm calm calm h = (Inr body, h\<lparr>fh_lock := Some (body, now)\<rparr>)) \<and>
   (\<forall>raw t. fh_lock h = Some (raw, t) \<longrightarrow>
      (t \<noteq> zero_time \<and> \<bar>stated_ttl w raw\<bar> \<le> 9223372036 \<longrightarrow>
       (if now - t \<le> (if 0 < stated_ttl w raw then stated_ttl w raw else 3600) * 1000000000
        then \<exists>er. acquire_body w now body calm calm calm h = (Inl er, h) \<and> err_is er KExitConflict
        else acquire_body w now body calm calm calm h = (Inr body, h\<lparr>fh_lock := Some (body, now)\<rparr>))) \<and>
      release other calm h = (if other = raw then h\<lparr>fh_lock := None\<rparr> else h))"
proof -
  have c: "calm g = g" for g by (simp add: calm_def)
  have live: "\<exists>er. acquire_body w now body calm calm calm h = (Inl er, h) \<and> err_is er KExitConflict"
    if "fh_lock h = Some (raw, t)" "t \<noteq> zero_time" "\<bar>stated_ttl w raw\<bar> \<le> 9223372036"
      "now - t \<le> (if 0 < stated_ttl w raw then stated_ttl w raw else 3600) * 1000000000" for raw t
    using acquire_live [OF that(1), of w now calm body calm calm] stale_by_age [OF that(2,3), of now] that(4) by (simp add: c)
  have dead: "acquire_body w now body calm calm calm h = (Inr body, h\<lparr>fh_lock := Some (body, now)\<rparr>)"
    if "fh_lock h = Some (raw, t)" "t \<noteq> zero_time" "\<bar>stated_ttl w raw\<bar> \<le> 9223372036"
      "\<not> now - t \<le> (if 0 < stated_ttl w raw then stated_ttl w raw else 3600) * 1000000000" for raw t
    using acquire_stale [OF that(1), of w now calm body calm calm] stale_by_age [OF that(2,3), of now] that(1,4)
    by (simp add: c create_again_def lock_ops)
  have "release other calm h = (if other = raw then h\<lparr>fh_lock := None\<rparr> else h)" if "fh_lock h = Some (raw, t)" for raw t
    using that by (auto simp: release_def lock_ops c)
  then show ?thesis using acquire_free [of h w now body calm calm calm] live dead by (simp split: if_split)
qed

definition stale_lock :: string where
  "stale_lock = MarshalSweepLock \<lparr>lk_holder = ''c'', lk_hlc = 0, lk_ttl = 3600, lk_nonce = ''0''\<rparr>"

lemma stale_lock_parses: "ParseSweepLock w stale_lock = Inr \<lparr>lk_holder = ''c'', lk_hlc = 0, lk_ttl = 3600, lk_nonce = ''0''\<rparr>"
  unfolding stale_lock_def by (rule lock_round_trip) (simp_all add: is_ascii_def int64_def)

theorem sweep_lock_excludes_witness:
  "\<exists>er. acquire_body (plain_world 0) (2 * second_ns) ''b'' calm calm calm (empty_hub\<lparr>fh_lock := Some (stale_lock, second_ns)\<rparr>) =
       (Inl er, empty_hub\<lparr>fh_lock := Some (stale_lock, second_ns)\<rparr>) \<and> err_is er KExitConflict"
  using sweep_lock_excludes [of "empty_hub\<lparr>fh_lock := Some (stale_lock, second_ns)\<rparr>" "plain_world 0" "2 * second_ns" "''b''" "''b''"]
  by (simp add: stated_ttl_def stale_lock_parses second_ns_def zero_time_def)

text \<open>Two sweeps that meet the same expired lock may both end up holding the lock. The break
  deletes whatever lock is there, so a sweep that read the expired one deletes the fresh lock of the
  sweep that broke it first: both acquires succeed, and the two destructive passes run side by side.\<close>

theorem two_sweeps_break_one_lock:
  assumes "fh_lock h = Some (raw, t)" and "sweepLockStale (case ParseSweepLock w raw of Inr l \<Rightarrow> l | Inl _ \<Rightarrow> lock_zero) t now"
    and "other = (\<lambda>g. snd (acquire_body w now a calm calm calm g))"
  shows "fst (acquire_body w now a calm calm calm h) = Inr a \<and>
     fst (acquire_body w now b calm other calm h) = Inr b"
proof -
  have c: "calm g = g" for g by (simp add: calm_def)
  have "acquire_body w now x calm e calm h = create_again now x (calm (hub_DeleteSweepLock (e (calm h))))" for x e
    by (rule acquire_stale [OF assms(1,2)]) (simp add: c assms(1))
  then show ?thesis by (simp add: c create_again_def lock_ops)
qed

theorem two_sweeps_break_one_lock_witness:
  "fst (acquire_body (plain_world 0) (7200 * second_ns) ''b'' calm (\<lambda>g. snd (acquire_body (plain_world 0) (7200 * second_ns) ''a'' calm calm calm g)) calm
     (empty_hub\<lparr>fh_lock := Some (stale_lock, second_ns)\<rparr>)) = Inr ''b''"
  using two_sweeps_break_one_lock [where h = "empty_hub\<lparr>fh_lock := Some (stale_lock, second_ns)\<rparr>" and t = second_ns and
      raw = stale_lock and w = "plain_world 0" and now = "7200 * second_ns" and a = "''a''" and b = "''b''"]
  by (simp add: stale_lock_parses sweepLockStale_def lock_TTL_def int64_def second_ns_def zero_time_def time_Sub_def)

text \<open>A lock without any sign of its age is not safe from being broken: the fallback reads the
  self-reported clock, and a clock of zero is the year 1970, not the zero time.\<close>

lemma ageless_lock_is_stale:
  assumes "now > defaultSweepLockTTL"
  shows "sweepLockStale lock_zero zero_time now"
proof -
  have "AcquiredAt lock_zero = 0" "lock_TTL lock_zero = 0"
    by (simp_all add: AcquiredAt_def lock_TTL_def lock_zero_def unpack_def int64_def)
  then show ?thesis
    using assms by (simp add: sweepLockStale_def time_Sub_def zero_time_def second_ns_def defaultSweepLockTTL_def)
qed

end
