(* ===== verification/Compaction.thy ===== *)
theory Compaction
  imports Snapshot_Exchange Sweep_Lock
begin

section \<open>Compaction of the hub log\<close>

text \<open>
  \<^verbatim>\<open>src/internal/cli/hub_compact.go\<close> from the floors on: the reconciliation with the standing
  manifest, the plan of the tombstone collection, the publication of snapshot and manifest with one
  retry, the read-back, and only then the deletion, the cleanup of revoked streams and the pruning
  of old snapshots; and the signed acknowledgement of \<^verbatim>\<open>cli/sync.go\<close> the plan reads. The
  converging pull and push before are not here. As for the sweep lock, what other clients do to the
  hub between the calls is an argument, one function per gap; which of the calls after the deletion
  fail (the cursors, the device list, the listing of the snapshots) is part of the job. Warnings go
  unreported.
\<close>

subsection \<open>Floors\<close>

definition computeCompactFloors :: "string \<Rightarrow> string \<Rightarrow> store \<Rightarrow> (string \<times> int) list res" where
  "computeCompactFloors hubID self s =
     bindr (PushSeqCursor hubID s) (\<lambda>push.
       let floors = List.map_filter (\<lambda>(dev, seq). if dev = self \<or> seq \<le> 0 then None else Some (dev, wrap64 (seq + 1)))
             (HubDeviceCursors hubID s)
       in Inr (if push > 0 then put_assoc self (wrap64 (push + 1)) floors else floors))"

text \<open>The key the standing manifest is verified with.\<close>

definition producer_key :: "store \<Rightarrow> device \<Rightarrow> manifest \<Rightarrow> string res" where
  "producer_key s self m =
     (if mf_produced_by m = dv_id self then
        (if dv_sig_pub self = []
         then Inl (Err [KExitInvalidConfig, KSnapshotVerification] ''the local device has no recorded signing key'')
         else Inr (dv_sig_pub self))
      else case ApprovedDeviceSigningKey (mf_produced_by m) s of
        None \<Rightarrow> Inl (Err [KExitInvalidConfig, KSnapshotVerification]
                 (''the current retention manifest was produced by '' @ mf_produced_by m @ '', which is not a locally approved device''))
      | Some pub \<Rightarrow> Inr pub)"

definition carry_floor :: "(string \<times> int) list \<Rightarrow> string \<times> int \<Rightarrow> (string \<times> int) list" where
  "carry_floor floors f = (if map_of floors (fst f) = None then floors @ [f] else floors)"

text \<open>The floors are a Go map, listed by key here.\<close>

definition reconcileCompactFloors ::
  "world \<Rightarrow> store \<Rightarrow> device \<Rightarrow> (string \<times> int) list \<Rightarrow> string \<Rightarrow> ((string \<times> int) list \<times> string) res" where
  "reconcileCompactFloors w s self base currentRaw =
     (if currentRaw = [] then Inr (sort_key fst base, [])
      else case ParseRetentionManifest w currentRaw of
        Inl e \<Rightarrow> Inl (Err (KExitNetwork # err_kinds e) (''parse current retention manifest: '' @ err_msg e))
      | Inr m \<Rightarrow> bindr (producer_key s self m) (\<lambda>pub.
          case VerifyRetentionManifest w m pub of
            Inl e \<Rightarrow> Inl (Err (KExitInvalidConfig # err_kinds e) (err_msg e))
          | Inr _ \<Rightarrow>
             (let old = or_else (mf_floors m) [] in
              case find (\<lambda>(dev, nf). case map_of old dev of Some f \<Rightarrow> nf < f | None \<Rightarrow> False) base of
                Some (dev, nf) \<Rightarrow> Inl (Err [KExitInvalidConfig, KRetentionRollback]
                  (''new floor for device '' @ dev @ '' ('' @ show_int nf @ '') is below the current manifest floor''))
              | None \<Rightarrow> Inr (sort_key fst (foldl carry_floor base old), hex_enc (w_sha w currentRaw)))))"

definition estimateCompactedEvents :: "(string \<times> int) list \<Rightarrow> (string \<times> int) list \<Rightarrow> int" where
  "estimateCompactedEvents newFloors oldFloors =
     foldl (\<lambda>total (dev, nf). let f = or_else (map_of oldFloors dev) 1 in
        if nf > f then wrap64 (total + wrap64 (nf - f)) else total) 0 newFloors"

subsection \<open>Acknowledgements and the tombstone plan\<close>

definition marshal_ack :: "ack \<Rightarrow> string" where
  "marshal_ack m = marshal_obj
     [Some (''cursor'', marshal_floors (ak_cursor m)), jstr ''device_id'' (ak_device m), jstr_opt ''folded_hash'' (ak_fold m),
      jint ''hlc_watermark'' (ak_hlc m), jint ''produced_at_hlc'' (ak_produced m), jint ''pushed_through_seq'' (ak_pushed m),
      jstr ''sig'' (ak_sig m), jint ''v'' (ak_v m), jstr ''workspace_id'' (ak_workspace m)]"

definition syncAckCacheKey :: "string \<Rightarrow> string" where "syncAckCacheKey hubID = ''sync_ack:'' @ hubID"

definition ackCacheValue :: "(string \<times> int) list \<Rightarrow> int \<Rightarrow> string" where
  "ackCacheValue cursor push = marshal_obj [Some (''cursor'', marshal_cursor cursor), jint ''push'' push]"

definition ack_fold :: "world \<Rightarrow> store \<Rightarrow> string \<Rightarrow> int \<Rightarrow> string res" where
  "ack_fold w s dev push =
     (if push > 0 then bindr (DeviceFold w s dev push) (\<lambda>(reached, fh, seeded). Inr (if seeded \<and> reached = push then fh else []))
      else Inr [])"

definition ack_marker :: "world \<Rightarrow> string \<Rightarrow> string \<Rightarrow> store \<Rightarrow> ack res" where
  "ack_marker w hubID priv s =
     bindr (PushSeqCursor hubID s) (\<lambda>push. bindr (CurrentHLC s) (\<lambda>hlc. bindr (currentDevice s) (\<lambda>d.
       bindr (ack_fold w s (dv_id d) push) (\<lambda>fold.
         SignAckMarker w \<lparr>ak_cursor = Some (HubDeviceCursors hubID s), ak_device = dv_id d, ak_fold = fold, ak_hlc = hlc,
           ak_produced = hlc, ak_pushed = push, ak_sig = [], ak_v = 0, ak_workspace = st_workspace s\<rparr> priv))))"

text \<open>\<open>clean\<close> is the outcome of the cycle: nothing deferred, quarantined, held back, truncated,
  skipped or undecryptable. A failure of any step only leaves the acknowledgement unwritten.\<close>

definition maybeWriteSyncAck :: "world \<Rightarrow> int \<Rightarrow> string \<Rightarrow> string \<Rightarrow> bool \<Rightarrow> store \<Rightarrow> file_hub \<Rightarrow> store \<times> file_hub" where
  "maybeWriteSyncAck w now hubID priv clean s h =
     (if \<not> clean \<or> OpenSkippedEvents s \<noteq> [] then (s, h)
      else case PushSeqCursor hubID s of
        Inl _ \<Rightarrow> (s, h)
      | Inr push \<Rightarrow>
         (let val = ackCacheValue (HubDeviceCursors hubID s) push in
          if GetLocalMeta (syncAckCacheKey hubID) s = Some val then (s, h)
          else case ack_marker w hubID priv s of
            Inl _ \<Rightarrow> (s, h)
          | Inr m \<Rightarrow>
              (case hub_PutAck now (ak_device m) (marshal_ack m) h of
                 Inl _ \<Rightarrow> (s, h)
               | Inr h' \<Rightarrow> (SetLocalMeta (syncAckCacheKey hubID) val s, h'))))"

definition verified_ack :: "world \<Rightarrow> store \<Rightarrow> string \<Rightarrow> string \<times> string \<Rightarrow> (string \<times> ack) option" where
  "verified_ack w s self r = (let (dev, raw) = r in
     if dev = self then None
     else case ApprovedDeviceSigningKey dev s of
       None \<Rightarrow> None
     | Some pub \<Rightarrow> (case ParseAckMarker w raw of
         Inl _ \<Rightarrow> None
       | Inr m \<Rightarrow> if ak_device m \<noteq> dev \<or> ak_workspace m \<noteq> st_workspace s then None
                  else if VerifyAckMarker w m pub \<noteq> Inr () then None else Some (dev, m)))"

fun min_watermark :: "(string \<times> ack) list \<Rightarrow> string \<Rightarrow> int \<Rightarrow> device list \<Rightarrow> int \<times> bool \<times> string" where
  "min_watermark verified self m [] = (m, True, [])"
| "min_watermark verified self m (d # ds) =
     (if dv_id d = self \<or> dv_trust d \<noteq> trust_approved then min_watermark verified self m ds
      else case map_of verified (dv_id d) of
        None \<Rightarrow> (0, False, ''device '' @ dv_id d @ '' has never written a verified sync ack'')
      | Some a \<Rightarrow> min_watermark verified self (if ak_hlc a < m then ak_hlc a else m) ds)"

definition planTombstoneGC :: "world \<Rightarrow> store \<Rightarrow> file_hub \<Rightarrow> string \<Rightarrow> (int \<times> bool \<times> string) res" where
  "planTombstoneGC w s h self =
     bindr (CurrentHLC s) (\<lambda>localWatermark.
       Inr (min_watermark (List.map_filter (verified_ack w s self) (hub_ListAcks h)) self localWatermark (ListDevices s)))"

subsection \<open>Cleaning up behind the floors\<close>

definition cleanup_stream :: "(string \<times> int) list \<Rightarrow> nat \<times> file_hub \<Rightarrow> device \<Rightarrow> nat \<times> file_hub" where
  "cleanup_stream floors nh d = (let (n, h) = nh in
     if dv_trust d \<noteq> trust_revoked \<and> dv_trust d \<noteq> trust_lost then (n, h)
     else if or_else (map_of floors (dv_id d)) 0 \<le> 0 then (n, h)
     else case hub_DeleteDeviceStream (dv_id d) h of
       Inl _ \<Rightarrow> (n, h)
     | Inr (k, h1) \<Rightarrow> (n + k, case hub_DeleteAck (dv_id d) h1 of Inl _ \<Rightarrow> h1 | Inr h2 \<Rightarrow> h2))"

text \<open>The calls after the deletion that end the pass with an error: moving the cursor of a device,
  listing the devices, listing the snapshot objects. (A stream, an acknowledgement or a snapshot that
  cannot be removed is only warned about.)\<close>

record late_faults =
  lf_advance :: "string \<Rightarrow> err option"
  lf_devices :: "err option"
  lf_list :: "err option"

definition no_faults :: late_faults where
  "no_faults = \<lparr>lf_advance = (\<lambda>dev. None), lf_devices = None, lf_list = None\<rparr>"

definition cleanupRevokedStreams :: "late_faults \<Rightarrow> store \<Rightarrow> (string \<times> int) list \<Rightarrow> file_hub \<Rightarrow> nat hub_res" where
  "cleanupRevokedStreams fa s floors h = (case lf_devices fa of
      Some e \<Rightarrow> Inl e
    | None \<Rightarrow> Inr (foldl (cleanup_stream floors) (0, h) (ListDevices s)))"

text \<open>\<^verbatim>\<open>sort.Slice\<close> need not be stable; of equally old objects the listing's order is kept here.\<close>

definition newest_first :: "(string \<times> int) list \<Rightarrow> string list" where
  "newest_first objs = map fst (sort_key (\<lambda>p. - snd p) objs)"

definition kept_snapshots :: "string \<Rightarrow> nat \<Rightarrow> string list \<Rightarrow> string list" where
  "kept_snapshots referenced keep keys = referenced # take (keep - 1) (filter (\<lambda>k. k \<noteq> referenced) keys)"

definition prune_object :: "string list \<Rightarrow> nat \<times> file_hub \<Rightarrow> string \<Rightarrow> nat \<times> file_hub" where
  "prune_object kept nh key = (let (n, h) = nh in
     if key \<in> set kept then (n, h)
     else case hub_DeleteSnapshotObject key h of Inl _ \<Rightarrow> (n, h) | Inr h' \<Rightarrow> (n + 1, h'))"

definition pruneSnapshotObjects :: "late_faults \<Rightarrow> string \<Rightarrow> nat \<Rightarrow> file_hub \<Rightarrow> nat hub_res" where
  "pruneSnapshotObjects fa referenced keep h = (case lf_list fa of
      Some e \<Rightarrow> Inl (Err (KExitNetwork # err_kinds e) (''list snapshot objects: '' @ err_msg e))
    | None \<Rightarrow>
       (let keys = newest_first (hub_ListSnapshotObjects h)
        in Inr (foldl (prune_object (kept_snapshots referenced keep keys)) (0, h) keys)))"

subsection \<open>Publishing\<close>

definition marshal_manifest :: "manifest \<Rightarrow> string" where
  "marshal_manifest m = marshal_obj
     [jint ''v'' (mf_v m), jstr ''workspace_id'' (mf_workspace m), Some (''floors'', marshal_floors (mf_floors m)),
      Some (''snapshot'', marshal_link (mf_snapshot m)), jstr ''produced_by'' (mf_produced_by m),
      jint ''produced_at_hlc'' (mf_produced_at m), jstr ''prev_sha256'' (mf_prev m),
      jint_opt ''min_reader_version'' (mf_min_reader m), jstr ''sig'' (mf_sig m)]"

text \<open>What a compaction works with: the local device, the hub, the push key and the signing key, the
  clock, the options, and the failures that meet it after the deletion.\<close>

record compact_job =
  cj_self :: device
  cj_hub :: string
  cj_epoch :: int
  cj_kid :: string
  cj_wck :: string
  cj_nonces :: "nat \<Rightarrow> string"
  cj_priv :: string
  cj_now :: int
  cj_keep :: nat
  cj_min_events :: int
  cj_gc :: bool
  cj_faults :: late_faults

definition read_retention :: "world \<Rightarrow> string \<Rightarrow> file_hub \<Rightarrow> (string \<times> string) res" where
  "read_retention w label h = (case hub_GetRetention w h of
      Inr r \<Rightarrow> Inr r
    | Inl e \<Rightarrow> if err_is e KRetentionNotFound then Inr ([], [])
               else Inl (Err (KExitNetwork # err_kinds e) (label @ err_msg e)))"

definition new_manifest :: "compact_job \<Rightarrow> int \<Rightarrow> string \<Rightarrow> (string \<times> int) list \<Rightarrow> string \<Rightarrow> string \<Rightarrow> manifest" where
  "new_manifest j hlc ws floors sha prev =
     \<lparr>mf_v = 0, mf_workspace = ws, mf_floors = Some floors,
      mf_snapshot = \<lparr>sl_epoch = cj_epoch j, sl_hlc = hlc, sl_kid = cj_kid j, sl_produced_by = dv_id (cj_self j), sl_sha = sha\<rparr>,
      mf_produced_by = dv_id (cj_self j), mf_produced_at = hlc, mf_prev = prev, mf_min_reader = 0, mf_sig = []\<rparr>"

definition sealed_snapshot :: "crypto \<Rightarrow> world \<Rightarrow> compact_job \<Rightarrow> int \<Rightarrow> nat \<Rightarrow> store \<Rightarrow> (string \<times> int) list \<Rightarrow> string \<Rightarrow>
    ((string \<times> int) list \<times> string \<times> snapshot \<times> string \<times> string) res" where
  "sealed_snapshot x w j hlc i s base curRaw =
     bindr (reconcileCompactFloors w s (cj_self j) base curRaw) (\<lambda>(floors, prev).
     bindr (BuildSnapshot w (dv_id (cj_self j)) hlc floors s) (\<lambda>snap.
     bindr (SealSnapshot x w (cj_nonces j i) snap (cj_wck j) (cj_epoch j)) (\<lambda>(obj, sha).
       Inr (floors, prev, snap, obj, sha))))"

definition publish :: "crypto \<Rightarrow> world \<Rightarrow> compact_job \<Rightarrow> int \<Rightarrow> nat \<Rightarrow> (file_hub \<Rightarrow> file_hub) \<Rightarrow> store \<Rightarrow>
    (string \<times> int) list \<Rightarrow> string \<times> string \<Rightarrow> file_hub \<Rightarrow> (manifest \<times> string \<times> string) res \<times> file_hub" where
  "publish x w j hlc i env s base cur h =
     (case sealed_snapshot x w j hlc i s base (fst cur) of
        Inl e \<Rightarrow> (Inl e, h)
      | Inr (floors, prev, snap, obj, sha) \<Rightarrow>
         (case hub_PutSnapshotObject w (cj_now j) sha obj h of
            Inl e \<Rightarrow> (Inl (Err (KExitNetwork # err_kinds e) (''put snapshot object: '' @ err_msg e)), h)
          | Inr h1 \<Rightarrow>
             (case SignRetentionManifest w (new_manifest j hlc (sn_workspace snap) floors sha prev) (cj_priv j) of
                Inl e \<Rightarrow> (Inl e, h1)
              | Inr m \<Rightarrow>
                 (case hub_PutRetention w (marshal_manifest m) (snd cur) (env h1) of
                    Inl e \<Rightarrow> (Inl e, env h1)
                  | Inr h2 \<Rightarrow> (Inr (m, sha, marshal_manifest m), h2)))))"

definition publish_retry :: "crypto \<Rightarrow> world \<Rightarrow> compact_job \<Rightarrow> int \<Rightarrow> (nat \<Rightarrow> file_hub \<Rightarrow> file_hub) \<Rightarrow> store \<Rightarrow>
    (string \<times> int) list \<Rightarrow> string \<times> string \<Rightarrow> file_hub \<Rightarrow> (manifest \<times> string \<times> string) res \<times> file_hub" where
  "publish_retry x w j hlc env s base cur h =
     (case publish x w j hlc 0 (env 1) s base cur h of
        (Inr r, h1) \<Rightarrow> (Inr r, h1)
      | (Inl e, h1) \<Rightarrow>
          if \<not> err_is e KRetentionConflict then (Inl e, h1)
          else (let h2 = env 2 h1 in
            case read_retention w ''re-read retention manifest after CAS conflict: '' h2 of
              Inl g \<Rightarrow> (Inl g, h2)
            | Inr cur2 \<Rightarrow>
               (case publish x w j hlc 1 (env 3) s base cur2 h2 of
                  (Inr r, h3) \<Rightarrow> (Inr r, h3)
                | (Inl g, h3) \<Rightarrow> (Inl (if err_is g KRetentionConflict
                     then Err [KExitNetwork] ''retention manifest changed twice during compaction'' else g), h3))))"

text \<open>The read-back compares bytes.\<close>

definition read_back :: "world \<Rightarrow> string \<Rightarrow> file_hub \<Rightarrow> unit res" where
  "read_back w raw h = (case hub_GetRetention w h of
      Inl e \<Rightarrow> Inl (Err (KExitNetwork # err_kinds e) (''read back retention manifest: '' @ err_msg e))
    | Inr (rb, _) \<Rightarrow> if rb \<noteq> raw
        then Inl (Err [KExitNetwork] ''retention manifest read-back does not match what this device just wrote'') else Inr ())"

subsection \<open>The whole pass\<close>

record compact_result =
  cr_sha :: string
  cr_floors :: "(string \<times> int) list"
  cr_deleted :: nat
  cr_tombs :: nat
  cr_revoked :: nat
  cr_pruned :: nat

text \<open>The floors are a Go map: its order is arbitrary, here it is that of the list.\<close>

fun advance_own :: "late_faults \<Rightarrow> string \<Rightarrow> (string \<times> int) list \<Rightarrow> store \<Rightarrow> err option \<times> store" where
  "advance_own fa hubID [] s = (None, s)"
| "advance_own fa hubID (f # fs) s =
     (if snd f > 1
      then (case lf_advance fa (fst f) of
              Some e \<Rightarrow> (Some e, s)
            | None \<Rightarrow> advance_own fa hubID fs (AdvanceHubDeviceCursor hubID (fst f) (snd f - 1) s))
      else advance_own fa hubID fs s)"

text \<open>After the read-back: the deletion, the cursors, the revoked streams, the old snapshots. An error
  after the deletion leaves what was done before it.\<close>

definition delete_cold :: "compact_job \<Rightarrow> manifest \<Rightarrow> string \<Rightarrow> nat \<Rightarrow> store \<Rightarrow> file_hub \<Rightarrow>
    compact_result res \<times> store \<times> file_hub" where
  "delete_cold j m sha tombs s h = (let floors = or_else (mf_floors m) [] in
     case hub_CompactEventsBelow floors h of
       Inl e \<Rightarrow> (Inl (Err (KExitNetwork # err_kinds e) (''delete cold events: '' @ err_msg e)), s, h)
     | Inr (deleted, h1) \<Rightarrow>
        (case advance_own (cj_faults j) (cj_hub j) floors s of
           (Some e, s1) \<Rightarrow> (Inl e, s1, h1)
         | (None, s1) \<Rightarrow>
            (case cleanupRevokedStreams (cj_faults j) s1 floors h1 of
               Inl e \<Rightarrow> (Inl e, s1, h1)
             | Inr (revoked, h2) \<Rightarrow>
                (case pruneSnapshotObjects (cj_faults j) sha (max 1 (cj_keep j)) h2 of
                   Inl e \<Rightarrow> (Inl e, s1, h2)
                 | Inr (pruned, h3) \<Rightarrow>
                     (Inr \<lparr>cr_sha = sha, cr_floors = floors, cr_deleted = deleted, cr_tombs = tombs, cr_revoked = revoked,
                        cr_pruned = pruned\<rparr>, s1, h3)))))"

definition publish_and_delete :: "crypto \<Rightarrow> world \<Rightarrow> compact_job \<Rightarrow> int \<Rightarrow> (nat \<Rightarrow> file_hub \<Rightarrow> file_hub) \<Rightarrow>
    (string \<times> int) list \<Rightarrow> string \<times> string \<Rightarrow> nat \<Rightarrow> store \<Rightarrow> file_hub \<Rightarrow> compact_result res \<times> store \<times> file_hub" where
  "publish_and_delete x w j hlc env base cur tombs s h =
     (case publish_retry x w j hlc env s base cur h of
        (Inl e, h1) \<Rightarrow> (Inl e, s, h1)
      | (Inr (m, sha, raw), h1) \<Rightarrow>
          (let h2 = env 4 h1 in
           case read_back w raw h2 of
             Inl e \<Rightarrow> (Inl e, s, h2)
           | Inr _ \<Rightarrow> delete_cold j m sha tombs s h2))"

definition collect_tombs :: "int \<times> bool \<times> string \<Rightarrow> store \<Rightarrow> nat \<times> store" where
  "collect_tombs plan s = (if fst (snd plan) then GCTombstones (fst plan) s else (0, s))"

text \<open>The destructive part runs under the sweep lock, which is released on every path.\<close>

definition destructive_pass :: "crypto \<Rightarrow> world \<Rightarrow> compact_job \<Rightarrow> string \<Rightarrow> int \<Rightarrow> (nat \<Rightarrow> file_hub \<Rightarrow> file_hub) \<Rightarrow>
    (string \<times> int) list \<Rightarrow> string \<times> string \<Rightarrow> int \<times> bool \<times> string \<Rightarrow> store \<Rightarrow> file_hub \<Rightarrow> compact_result res \<times> store \<times> file_hub" where
  "destructive_pass x w j nonce hlc env base cur plan s h =
     (case hubSweepLock w (cj_now j) defaultSweepLockTTL nonce (env 5) (env 6) (env 7) s h of
        (Inl e, h1) \<Rightarrow> (Inl e, s, h1)
      | (Inr body, h1) \<Rightarrow>
          if cj_epoch j = 0 \<or> cj_wck j = []
          then (Inl (Err [KExitInvalidConfig] ''cannot compact: this device holds no workspace key to seal a snapshot under''),
                s, release body (env 8) h1)
          else (let (tombs, s1) = collect_tombs plan s;
                    (r, s2, h2) = publish_and_delete x w j hlc env base cur tombs s1 h1
                in (r, s2, release body (env 8) h2)))"

definition hubCompact :: "crypto \<Rightarrow> world \<Rightarrow> compact_job \<Rightarrow> string \<Rightarrow> (nat \<Rightarrow> file_hub \<Rightarrow> file_hub) \<Rightarrow> bool \<Rightarrow> store \<Rightarrow>
    file_hub \<Rightarrow> compact_result res \<times> store \<times> file_hub" where
  "hubCompact x w j nonce env dryRun s h =
     (case bindr (computeCompactFloors (cj_hub j) (dv_id (cj_self j)) s) (\<lambda>base.
           bindr (read_retention w ''read retention manifest: '' h) (\<lambda>cur.
           bindr (reconcileCompactFloors w s (cj_self j) base (fst cur)) (\<lambda>(preview, _).
             let old = (case ParseRetentionFloors w (fst cur) of Inr fs \<Rightarrow> fs | Inl _ \<Rightarrow> []);
                 estimate = estimateCompactedEvents preview (if fst cur = [] then [] else old)
             in if cj_min_events j > 0 \<and> estimate < cj_min_events j
                then Inl (Err [KExitInvalidConfig] (''refusing to compact: only '' @ show_int estimate @ '' event(s) would be deleted''))
                else bindr (CurrentHLC s) (\<lambda>hlc.
                     bindr (if cj_gc j then planTombstoneGC w s h (dv_id (cj_self j)) else Inr (0, False, [])) (\<lambda>plan.
                       Inr (base, cur, preview, estimate, hlc, plan)))))) of
        Inl e \<Rightarrow> (Inl e, s, h)
      | Inr (base, cur, preview, estimate, hlc, plan) \<Rightarrow>
          if dryRun
          then (Inr \<lparr>cr_sha = [], cr_floors = preview, cr_deleted = nat estimate,
                  cr_tombs = (if fst (snd plan) then CountTombstonesBelowHLC (fst plan) s else 0), cr_revoked = 0, cr_pruned = 0\<rparr>, s, h)
          else destructive_pass x w j nonce hlc env base cur plan s (env 0 h))"

end
