(* ===== verification/Snapshot_Claims.thy ===== *)
theory Snapshot_Claims
  imports Snapshot_Exchange
begin

section \<open>What a snapshot exchange guarantees\<close>

text \<open>
  The merge of two stores is all an import does, when it may come before or after the replay of an
  event, that it carries every revocation over and forgets none, and that it leaves the pull cursors
  exactly where the retention gate lets them pass.
\<close>

text \<open>C3: a device whose checkouts are clean and whose rows are well-formed, and that imports the
  snapshot another device built, holds on every path the last-writer-wins join of what the two stores
  held, with one exception: where both hold the path as deleted, it takes the tombstone of the
  snapshot, which is below its own when its own is newer (\<open>stored_join\<close>, \<open>undercuts\<close>). So
  away from paths on which the importer has the newer tombstone the result is the join; and on every
  path importing the same snapshot once more changes nothing. (The exporting store holds repositories
  without env profiles, at valid paths and with a source coordinate, as the scan and the pull leave
  them: \<open>exportable\<close>.)\<close>

theorem snapshot_exchange_joins:
  assumes "merge_ready w sB" and "ids_sound w" and "currentDevice sB = Inr c" and "exportable w sA"
    and "BuildSnapshot w p h fl sA = Inr snap"
  shows "\<exists>s1 s2. ImportSnapshot w snap sha hub sB = (Inr (), s1) \<and>
     (\<forall>k. store_view s1 k = stored_join (store_view sB k) (store_view sA k)) \<and>
     (\<forall>k. \<not> undercuts (store_view sB k) (store_view sA k) \<longrightarrow> store_view s1 k = vjoin (store_view sB k) (store_view sA k)) \<and>
     ImportSnapshot w snap sha hub s1 = (Inr (), s2) \<and> store_view s2 = store_view s1"
proof -
  obtain s1 where s1: "ImportSnapshot w snap sha hub sB = (Inr (), s1)" "merge_ready w s1" "currentDevice s1 = Inr c"
    "\<And>k. store_view s1 k = stored_join (store_view sB k) (store_view sA k)"
    using exchange [OF assms, of sha hub] by blast
  obtain s2 where s2: "ImportSnapshot w snap sha hub s1 = (Inr (), s2)"
    "\<And>k. store_view s2 k = stored_join (store_view s1 k) (store_view sA k)"
    using exchange [OF s1(2) assms(2) s1(3) assms(4,5), of sha hub] by blast
  have "store_view s2 = store_view s1" by (simp add: fun_eq_iff s2(2) s1(4) stored_join_idem)
  then show ?thesis using s1(1,4) s2(1) stored_join_vjoin by auto
qed

definition export_store :: store where
  "export_store = (device_store [sample_device ''a'' trust_local [] None, sample_device ''x'' trust_revoked ''k'' (Some 7)])
     \<lparr>st_entries := [(sample_entry ''p'' ''app'')\<lparr>ns_src_hlc := Some 5, ns_src_dev := Some ''a'', ns_src_id := Some ''e1''\<rparr>,
        (sample_entry ''q'' ''b'')\<lparr>ns_status := projectionStatusDeleted, ns_tomb := Some 9\<rparr>],
      st_repos := [\<lparr>gr_ns = ''p'', gr_url = ''u'', gr_key = ''k'', gr_branch = ''main'', gr_lfs = ''auto'', gr_forge = []\<rparr>]\<rparr>"

definition import_store :: store where
  "import_store = device_store [sample_device ''me'' trust_local [] None, sample_device ''x'' trust_approved ''k'' None]"

definition export_snap :: snapshot where
  "export_snap = \<lparr>sn_v = 0, sn_workspace = st_workspace export_store, sn_produced_by = ''a'', sn_hlc = 9, sn_epoch = 0,
     sn_kid = [], sn_floor = Some [(''a'', 3)], sn_anchors = [], sn_entries = SnapshotEntries export_store,
     sn_tombs = SnapshotTombstones export_store, sn_trust = SnapshotTrust export_store\<rparr>"

lemma export_row:
  "exportable_row (plain_world 0) export_store
     ((sample_entry ''p'' ''app'')\<lparr>ns_src_hlc := Some 5, ns_src_dev := Some ''a'', ns_src_id := Some ''e1''\<rparr>)"
  by (simp add: exportable_row_def export_store_def sample_entry_def new_entry_def tombstone_params_def sample_app
      snapshotEnvForProject_def profile_of_def active_entry_def LatestDraftSnapshot_def)

lemma export_ok: "exportable (plain_world 0) export_store"
  using export_row
  by (simp add: exportable_def export_store_def uniq_def tombs_ok_def)

lemma export_built: "BuildSnapshot (plain_world 0) ''a'' 9 [(''a'', 3)] export_store = Inr export_snap"
  by (simp add: BuildSnapshot_def ChainAnchorsForFloors_def anchor_for_def export_snap_def int64_def)
    (simp add: export_store_def)

lemma import_sample:
  "merge_ready (plain_world 0) import_store" "currentDevice import_store = Inr (sample_device ''me'' trust_local [] None)"
  "store_view import_store k = VNone"
  by (simp_all add: merge_ready_def entries_ok_def uniq_def tombs_ok_def import_store_def currentDevice_def
      store_view_def)

theorem snapshot_exchange_joins_witness:
  "\<exists>s1 s2. ImportSnapshot (plain_world 0) export_snap ''s'' ''h'' import_store = (Inr (), s1) \<and>
     store_view s1 ''app'' = VLive \<lparr>c_hlc = 5, c_dev = ''a'', c_id = ''e1''\<rparr>
       \<lparr>ct_path = ''app'', ct_type = ''git_repo'', ct_remote_url = ''u'', ct_remote_key = ''k'', ct_branch = ''main''\<rparr> \<and>
     store_view s1 ''b'' = VDead 9 \<and>
     ImportSnapshot (plain_world 0) export_snap ''s'' ''h'' s1 = (Inr (), s2) \<and> store_view s2 = store_view s1"
proof -
  have v: "store_view export_store ''app'' = VLive \<lparr>c_hlc = 5, c_dev = ''a'', c_id = ''e1''\<rparr>
       \<lparr>ct_path = ''app'', ct_type = ''git_repo'', ct_remote_url = ''u'', ct_remote_key = ''k'', ct_branch = ''main''\<rparr>"
    "store_view export_store ''b'' = VDead 9"
    by (simp_all add: store_view_def entry_view_def export_store_def sample_entry_def new_entry_def tombstone_params_def
       )
  show ?thesis
    using snapshot_exchange_joins [OF import_sample(1) plain_world_ids import_sample(2) export_ok export_built,
        of "''s''" "''h''"] by (fastforce simp: import_sample(3) v)
qed

lemma replay_upsert:
  assumes "merge_ready w s" and "ids_sound w" and "event_claim w e = Some (k, VLive d y)" and "repo_event w e"
  shows "\<exists>s'. applyProjectEvent w e s = Inr s' \<and> merge_ready w s' \<and> currentDevice s' = currentDevice s \<and>
     store_view s' = (store_view s)(k := vjoin (store_view s k) (VLive d y))"
proof -
  have "entries_ok w s" "tombs_ok s" using assms(1) by (simp_all add: merge_ready_def)
  then obtain s' where s': "applyProjectEvent w e s = Inr s'" "entries_ok w s'" "tombs_ok s'"
    "store_view s' = (store_view s)(k := vjoin (store_view s k) (VLive d y))"
    using upsert_refines [OF _ assms(2) _ assms(3,4)] by blast
  then show ?thesis using local_project [OF s'(1)] assms(1) by (auto simp: merge_ready_def same_local_def currentDevice_def)
qed

text \<open>Taking a register over and joining a live claim commute, but for a claim between two
  tombstones of which the newer is overwritten.\<close>

lemma stored_join_commutes:
  assumes "vgood a (VLive d y)"
  shows "vjoin (stored_join u a) (VLive d y) = stored_join (vjoin u (VLive d y)) a \<longleftrightarrow>
    (\<forall>t h. u = VDead t \<and> a = VDead h \<longrightarrow> c_hlc d \<le> h \<or> t < c_hlc d)"
proof (cases a)
  case (VDead h)
  show ?thesis
  proof (cases u)
    case (VLive c x)
    have "stored_join (vjoin u (VLive d y)) a = vjoin (vjoin u (VLive d y)) a"
      using VLive by (cases "coord_less c d") simp_all
    then show ?thesis using VLive vjoin_swap [OF assms, of u] by simp
  next
    case VNone
    then show ?thesis using vjoin_swap [OF assms, of u] \<open>a = VDead h\<close> by simp
  qed (use VDead in auto)
next
  case (VLive c x)
  have "stored_join v a = vjoin v a" for v using VLive by (cases v) simp_all
  then show ?thesis using vjoin_swap [OF assms, of u] VLive by simp
qed simp

text \<open>C11: a device (rows well-formed, checkouts clean) may import a snapshot before or after it applies
  an add or an update of a repository: both orders succeed, and they leave the same namespace unless
  the path is deleted on both sides and the event lies between the snapshot's tombstone and a newer
  one of the importer, in which case the namespaces differ (the import first lowers the tombstone, and
  the event then brings the project back). So away from that case recovery by snapshot followed by
  the tail of the log agrees with having replayed the log. (The exporter is \<open>exportable\<close>, and the
  event is not a second claim under the coordinate of the exported row.)\<close>

theorem import_commutes_with_replay:
  assumes "merge_ready w sB" and "ids_sound w" and "currentDevice sB = Inr c" and "exportable w sA"
    and "BuildSnapshot w p h fl sA = Inr snap"
    and "event_claim w e = Some (k, VLive d y)" and "repo_event w e" and "vgood (store_view sA k) (VLive d y)"
  shows "\<exists>s1 s2 t1 t2. ImportSnapshot w snap sha hub sB = (Inr (), s1) \<and> applyProjectEvent w e s1 = Inr s2 \<and>
     applyProjectEvent w e sB = Inr t1 \<and> ImportSnapshot w snap sha hub t1 = (Inr (), t2) \<and>
     (store_view t2 = store_view s2 \<longleftrightarrow>
       (\<forall>t u. store_view sB k = VDead t \<and> store_view sA k = VDead u \<longrightarrow> c_hlc d \<le> u \<or> t < c_hlc d))"
proof -
  obtain s1 where s1: "ImportSnapshot w snap sha hub sB = (Inr (), s1)" "merge_ready w s1"
    "\<And>j. store_view s1 j = stored_join (store_view sB j) (store_view sA j)"
    using exchange [OF assms(1-5), of sha hub] by blast
  obtain s2 where s2: "applyProjectEvent w e s1 = Inr s2"
    "store_view s2 = (store_view s1)(k := vjoin (store_view s1 k) (VLive d y))"
    using replay_upsert [OF s1(2) assms(2,6,7)] by blast
  obtain t1 where t1: "applyProjectEvent w e sB = Inr t1" "merge_ready w t1" "currentDevice t1 = Inr c"
    "store_view t1 = (store_view sB)(k := vjoin (store_view sB k) (VLive d y))"
    using replay_upsert [OF assms(1,2,6,7)] assms(3) by auto
  obtain t2 where t2: "ImportSnapshot w snap sha hub t1 = (Inr (), t2)"
    "\<And>j. store_view t2 j = stored_join (store_view t1 j) (store_view sA j)"
    using exchange [OF t1(2) assms(2) t1(3) assms(4,5), of sha hub] by blast
  have "store_view t2 = store_view s2 \<longleftrightarrow> store_view t2 k = store_view s2 k"
    by (auto simp: fun_eq_iff t2(2) s2(2) s1(3) t1(4))
  also have "\<dots> \<longleftrightarrow> vjoin (stored_join (store_view sB k) (store_view sA k)) (VLive d y) =
      stored_join (vjoin (store_view sB k) (VLive d y)) (store_view sA k)"
    by (auto simp: t2(2) s2(2) s1(3) t1(4))
  finally show ?thesis using s1(1) s2(1) t1(1) t2(1) stored_join_commutes [OF assms(8)] by blast
qed

theorem import_commutes_with_replay_witness:
  "\<exists>s1 s2 t1 t2. ImportSnapshot (plain_world 0) export_snap ''s'' ''h'' import_store = (Inr (), s1) \<and>
     applyProjectEvent (plain_world 0) (add_event ''e2'' ''d'' 8 ''App'' ''k'') s1 = Inr s2 \<and>
     applyProjectEvent (plain_world 0) (add_event ''e2'' ''d'' 8 ''App'' ''k'') import_store = Inr t1 \<and>
     ImportSnapshot (plain_world 0) export_snap ''s'' ''h'' t1 = (Inr (), t2) \<and> store_view t2 = store_view s2"
proof -
  have c: "event_claim (plain_world 0) (add_event ''e2'' ''d'' 8 ''App'' ''k'') = Some (''app'',
      VLive \<lparr>c_hlc = 8, c_dev = ''d'', c_id = ''e2''\<rparr>
       \<lparr>ct_path = ''App'', ct_type = ''git_repo'', ct_remote_url = ''k'', ct_remote_key = ''k'', ct_branch = ''main''\<rparr>)"
    using sample_claims(1) [OF _ _ sample_App, where key = "''k''" and i = "''e2''" and dev = "''d''" and h = 8] by (simp add: is_ascii_def)
  have r: "repo_event (plain_world 0) (add_event ''e2'' ''d'' 8 ''App'' ''k'')"
    using c by (simp add: repo_event_def claim_def add_event_def sample_event_def)
  show ?thesis
    using import_commutes_with_replay [OF import_sample(1) plain_world_ids import_sample(2) export_ok export_built c r,
        of "''s''" "''h''"]
    by (auto simp: import_sample(3) store_view_def entry_view_def export_store_def sample_entry_def new_entry_def tombstone_params_def)
qed

subsection \<open>Revocations\<close>

definition known_trust :: "device \<Rightarrow> bool" where
  "known_trust d \<longleftrightarrow> dv_trust d \<in> {trust_pending, trust_approved, trust_revoked, trust_lost}"

definition terminal_by :: "int \<Rightarrow> device \<Rightarrow> bool" where
  "terminal_by n d \<longleftrightarrow> dv_trust d \<in> {trust_revoked, trust_lost} \<and> (0 < n \<longrightarrow> (\<exists>b. dv_revoked d = Some b \<and> b \<le> n))"

lemma row_trust_terminal:
  assumes "trust_row_ok tr"
  shows "known_trust d \<Longrightarrow> terminal_by (sr_revoked tr) (row_trust tr d)"
    and "terminal_by n d \<Longrightarrow> terminal_by n (row_trust tr d)"
    and "known_trust d \<Longrightarrow> known_trust (row_trust tr d)"
  using assms
  by (auto simp: row_trust_def trust_row_ok_def known_trust_def terminal_by_def revocation_claim_def trust_defs
      split: if_splits) (cases "dv_revoked d"; auto)+

lemma trust_fold_keeps:
  assumes "\<forall>tr \<in> set trs. trust_row_ok tr" and "pred_option P d" and "d \<noteq> None \<or> P = known_trust"
    and "\<And>tr x. trust_row_ok tr \<Longrightarrow> P x \<Longrightarrow> P (row_trust tr x)"
  shows "pred_option P (trust_fold i trs d) \<and> (d \<noteq> None \<longrightarrow> trust_fold i trs d \<noteq> None)"
  using assms(1-3)
proof (induction trs arbitrary: d)
  case (Cons tr trs)
  have "known_trust (placeholder i ''remote'')" by (simp add: known_trust_def placeholder_def)
  then have "P (or_else d (placeholder i ''remote''))" using Cons.prems(2,3) by (cases d) auto
  then have "P (row_trust tr (or_else d (placeholder i ''remote'')))" using assms(4) Cons.prems(1) by simp
  then show ?case using Cons.IH [of "if sr_dev tr = i then Some (row_trust tr (or_else d (placeholder i ''remote''))) else d"] Cons.prems
    by auto
qed simp

lemma trust_fold_terminal:
  assumes "\<forall>tr \<in> set trs. trust_row_ok tr" and "tr \<in> set trs" and "sr_dev tr = i" and "pred_option known_trust d"
  shows "\<exists>x. trust_fold i trs d = Some x \<and> terminal_by (sr_revoked tr) x"
  using assms
proof (induction trs arbitrary: d)
  case (Cons t trs)
  let ?x = "row_trust t (or_else d (placeholder i ''remote''))"
  have k: "known_trust (or_else d (placeholder i ''remote''))"
    using Cons.prems(4) by (cases d) (auto simp: known_trust_def placeholder_def)
  show ?case
  proof (cases "t = tr")
    case True
    then have "terminal_by (sr_revoked tr) ?x" using row_trust_terminal(1) k Cons.prems(1) by auto
    then show ?thesis
      using trust_fold_keeps [of trs "terminal_by (sr_revoked tr)" "Some ?x" i] row_trust_terminal(2) Cons.prems(1,3) True
      by auto
  next
    case False
    have "known_trust ?x" using row_trust_terminal(3) k Cons.prems(1) by auto
    then show ?thesis using Cons False by auto
  qed
qed simp

text \<open>What a revocation with boundary \<open>b\<close> demands of a store: the device is revoked or lost, its
  boundary is no later, and no key of it is trusted.\<close>

definition barred :: "string \<Rightarrow> int option \<Rightarrow> store \<Rightarrow> bool" where
  "barred i b s \<longleftrightarrow> (\<exists>x. tget dv_id i (st_devices s) = Some x \<and> dv_trust x \<in> {trust_revoked, trust_lost} \<and>
     (\<forall>n. b = Some n \<and> 0 < n \<longrightarrow> (\<exists>n'. dv_revoked x = Some n' \<and> n' \<le> n)) \<and> ApprovedDeviceSigningKey i s = None)"

lemma terminal_barred:
  assumes "tget dv_id i (st_devices s) = Some x" and "terminal_by (or_else b 0) x"
  shows "barred i b s"
  using assms by (auto simp: barred_def terminal_by_def ApprovedDeviceSigningKey_def trust_defs)

lemma own_terminal: "dv_trust x \<in> {trust_revoked, trust_lost} \<Longrightarrow> terminal_by (or_else (dv_revoked x) 0) x"
  by (cases "dv_revoked x") (auto simp: terminal_by_def)

text \<open>C19: compaction does not forget a revocation: whatever device the exporter holds as revoked or
  lost, with whatever boundary, the importer holds as revoked or lost from then on, with a boundary
  no later, and trusts no signing key of it; and whatever device the importer itself held as revoked
  or lost stays so, with a boundary no later. (This is about devices other than the importer's own,
  which an import leaves alone, and for the exporter's revocations about devices that the importer
  does not know or holds in one of the four remote trust states. The exporter is
  \<open>exportable\<close>, the importer's checkouts are clean.)\<close>

theorem revocations_survive_compaction:
  assumes "merge_ready w sB" and "ids_sound w" and "currentDevice sB = Inr c" and "exportable w sA"
    and "BuildSnapshot w p h fl sA = Inr snap"
  shows "\<exists>s1. ImportSnapshot w snap sha hub sB = (Inr (), s1) \<and>
     (\<forall>d \<in> set (st_devices sA). dv_trust d \<in> {trust_revoked, trust_lost} \<and> dv_id d \<noteq> dv_id c \<and>
        pred_option known_trust (tget dv_id (dv_id d) (st_devices sB)) \<longrightarrow> barred (dv_id d) (dv_revoked d) s1) \<and>
     (\<forall>i x. tget dv_id i (st_devices sB) = Some x \<and> dv_trust x \<in> {trust_revoked, trust_lost} \<and> i \<noteq> dv_id c \<longrightarrow>
        barred i (dv_revoked x) s1)"
proof -
  have imp: "importable w snap" by (rule built_importable [OF assms(4,5)])
  then have rows: "\<forall>tr \<in> set (sn_trust snap). trust_row_ok tr" by (simp add: importable_def)
  obtain s0 where s0: "import_tx w snap sha sB = Inr s0"
    "\<And>i. i \<noteq> dv_id c \<Longrightarrow> tget dv_id i (st_devices s0) = trust_fold i (sn_trust snap) (tget dv_id i (st_devices sB))"
    using import_tx_spec [OF assms(1,2) imp assms(3), of sha] by auto
  obtain s1 where s1: "ImportSnapshot w snap sha hub sB = (Inr (), s1)" by (simp add: ImportSnapshot_def s0(1))
  have dev: "st_devices s1 = st_devices s0" by (rule after_import_rows [OF s1]) (simp add: s0(1))
  have theirs: "barred (dv_id d) (dv_revoked d) s1"
    if d: "d \<in> set (st_devices sA)" "dv_trust d \<in> {trust_revoked, trust_lost}" "dv_id d \<noteq> dv_id c"
      "pred_option known_trust (tget dv_id (dv_id d) (st_devices sB))" for d
  proof -
    let ?tr = "\<lparr>sr_dev = dv_id d, sr_state = dv_trust d, sr_revoked = or_else (dv_revoked d) 0\<rparr>"
    have "?tr \<in> set (sn_trust snap)" using d(1,2) by (auto simp: built_parts [OF assms(5)] SnapshotTrust_def)
    from trust_fold_terminal [OF rows this refl, of "tget dv_id (dv_id d) (st_devices sB)"] d(4)
    show ?thesis by (auto simp: dev s0(2) [OF d(3)] intro: terminal_barred)
  qed
  have own: "barred i (dv_revoked x) s1"
    if x: "tget dv_id i (st_devices sB) = Some x" "dv_trust x \<in> {trust_revoked, trust_lost}" "i \<noteq> dv_id c" for i x
  proof -
    have "pred_option (terminal_by (or_else (dv_revoked x) 0)) (trust_fold i (sn_trust snap) (Some x)) \<and>
        trust_fold i (sn_trust snap) (Some x) \<noteq> None"
      using trust_fold_keeps [OF rows, of "terminal_by (or_else (dv_revoked x) 0)" "Some x" i] own_terminal [OF x(2)]
        row_trust_terminal(2) by simp
    then show ?thesis by (auto simp: dev s0(2) [OF x(3)] x(1) intro: terminal_barred)
  qed
  show ?thesis using s1 theirs own by blast
qed

theorem revocations_survive_compaction_witness:
  "\<exists>s1. ImportSnapshot (plain_world 0) export_snap ''s'' ''h'' import_store = (Inr (), s1) \<and>
     ApprovedDeviceSigningKey ''x'' import_store = Some ''k'' \<and> barred ''x'' (Some 7) s1"
proof -
  have "sample_device ''x'' trust_revoked ''k'' (Some 7) \<in> set (st_devices export_store)"
    by (simp add: export_store_def)
  then show ?thesis
    using revocations_survive_compaction [OF import_sample(1) plain_world_ids import_sample(2) export_ok export_built,
        of "''s''" "''h''"]
    by (fastforce simp: import_store_def known_trust_def ApprovedDeviceSigningKey_def)
qed

subsection \<open>The pull cursors\<close>

lemma same_cursors_row: "import_trust_row w p tr = Inr q \<Longrightarrow> st_hub_seqs (snd q) = st_hub_seqs (snd p)"
  by (auto simp: import_trust_row_def EnsureRemoteDeviceTx_def ApplyRemoteDeviceTrustTx_def Let_def
      recordDeviceRevocationHLC_def split: if_split_asm)

lemma same_cursors_rows: "foldr_res (import_trust_row w) p trs = Inr q \<Longrightarrow> st_hub_seqs (snd q) = st_hub_seqs (snd p)"
proof (induction trs arbitrary: p)
  case (Cons t ts)
  then obtain p1 where "import_trust_row w p t = Inr p1" "foldr_res (import_trust_row w) p1 ts = Inr q" by auto
  then show ?case using same_cursors_row Cons.IH by metis
qed simp

lemma same_cursors_trust:
  assumes "importTrustTx w trs s = Inr s'"
  shows "st_hub_seqs s' = st_hub_seqs s"
proof -
  obtain b s1 where f: "foldr_res (import_trust_row w) (False, s) trs = Inr (b, s1)"
    using assms by (auto simp: importTrustTx_def)
  have "st_hub_seqs s1 = st_hub_seqs s" using same_cursors_rows [OF f] by simp
  moreover have "st_hub_seqs s' = st_hub_seqs s1"
    using assms by (auto simp: importTrustTx_def f Let_def SetWCKRotationPendingTx_def SetLocalMeta_def
        markEncryptedBindingsNeedingRotation_def split: if_split_asm)
  ultimately show ?thesis by simp
qed

lemma import_keeps_cursors:
  assumes "import_tx w snap sha s = Inr s'"
  shows "st_hub_seqs s' = st_hub_seqs s"
proof -
  obtain s1 s2 s3 where r: "foldr_res (importEntryTx w) s (sn_entries snap) = Inr s1"
    "foldr_res (importTombstoneTx w) s1 (sn_tombs snap) = Inr s2" "importTrustTx w (sn_trust snap) s2 = Inr s3"
    "ReceiveRemoteHLC w (sn_hlc snap) (foldl (import_anchor sha) s3 (sn_anchors snap)) = Inr s'"
    using assms by (auto simp: import_tx_def)
  have "st_hub_seqs s' = st_hub_seqs (foldl (import_anchor sha) s3 (sn_anchors snap))"
    using r(4) by (auto simp: ReceiveRemoteHLC_def Let_def case_prod_beta split: if_split_asm)
  then show ?thesis
    using foldr_res_local [where f = "importEntryTx w", OF local_entry r(1)]
      foldr_res_local [where f = "importTombstoneTx w", OF local_tomb_row r(2)]
      same_cursors_trust [OF r(3)] import_anchors_rows [of s3 sha "sn_anchors snap"]
    by (simp add: same_local_def)
qed

lemma cursor_of_After: "After (HubDeviceCursors hub s) dev = cursor_of hub dev s"
proof -
  have "map_of (map (\<lambda>c. (hq_dev c, hq_seq c)) (filter (\<lambda>c. hq_hub c = hub) t)) dev = map_option hq_seq (tget seq_at (hub, dev) t)" for t
    by (induction t) (auto simp: seq_at_def)
  then show ?thesis by (simp add: After_def HubDeviceCursors_def cursor_of_def or_else_def split: option.split)
qed

lemma cursor_of_floor:
  "cursor_of hub dev (advance_to_floor hub s f) =
     (if snd f > 0 \<and> fst f = dev then max (snd f - 1) (cursor_of hub dev s) else cursor_of hub dev s)"
  by (auto simp: advance_to_floor_def hub_device_cursor_read cursor_of_def split: option.splits)

lemma cursors_advance:
  "cursor_of hub dev s \<le> cursor_of hub dev (foldl (advance_to_floor hub) s fs)"
  "(dev, n) \<in> set fs \<Longrightarrow> n > 0 \<Longrightarrow> n - 1 \<le> cursor_of hub dev (foldl (advance_to_floor hub) s fs)"
  "cursor_of hub dev s < m \<Longrightarrow> \<forall>f \<in> set fs. snd f \<le> m \<Longrightarrow> cursor_of hub dev (foldl (advance_to_floor hub) s fs) < m"
proof (induction fs arbitrary: s)
  case (Cons f fs)
  { case 1
    have "cursor_of hub dev s \<le> cursor_of hub dev (advance_to_floor hub s f)" by (simp add: cursor_of_floor)
    also note Cons.IH(1) [of "advance_to_floor hub s f"]
    finally show ?case by simp
  next
    case 2
    show ?case
    proof (cases "f = (dev, n)")
      case True
      then have "n - 1 \<le> cursor_of hub dev (advance_to_floor hub s f)" using 2 by (simp add: cursor_of_floor)
      also note Cons.IH(1) [of "advance_to_floor hub s f"]
      finally show ?thesis by simp
    next
      case False
      then show ?thesis using 2 Cons.IH(2) by simp
    qed
  next
    case 3
    have "cursor_of hub dev (advance_to_floor hub s f) < m" using 3 by (simp add: cursor_of_floor)
    then show ?case using 3 Cons.IH(3) [of "advance_to_floor hub s f"] by simp
  }
qed simp_all

text \<open>Where exactly the cursors end.\<close>

definition cursor_at_floor :: "(string \<times> int) list \<Rightarrow> string \<Rightarrow> int \<Rightarrow> int" where
  "cursor_at_floor fs dev n = (case map_of fs dev of
      None \<Rightarrow> n
    | Some f \<Rightarrow> if 0 < f then max n (f - 1) else n)"

lemma cursors_exact:
  assumes "distinct (map fst fs)"
  shows "cursor_of hub dev (foldl (advance_to_floor hub) s fs) = cursor_at_floor fs dev (cursor_of hub dev s)"
  using assms
proof (induction fs arbitrary: s)
  case (Cons f fs)
  have "map_of fs (fst f) = None" using Cons.prems by (simp add: map_of_eq_None_iff)
  then show ?case
    using Cons.IH [of "advance_to_floor hub s f"] Cons.prems
    by (cases f) (auto simp: cursor_at_floor_def cursor_of_floor max.commute split: option.split)
qed (simp add: cursor_at_floor_def)

lemma import_passes_gate:
  assumes "ImportSnapshot w snap sha hub s = (Inr (), s1)"
    and "\<forall>(dev, n) \<in> set (snapshot_floor snap). n \<le> 2 ^ 63 - 1"
    and "\<forall>c \<in> set (st_hub_seqs s). hq_seq c < 2 ^ 63 - 1"
  shows "\<not> snapshot_required (snapshot_floor snap) (HubDeviceCursors hub s1)"
    and "distinct (map fst (snapshot_floor snap)) \<Longrightarrow>
      After (HubDeviceCursors hub s1) dev = cursor_at_floor (snapshot_floor snap) dev (After (HubDeviceCursors hub s) dev)"
proof -
  obtain s0 where s0: "st_hub_seqs s0 = st_hub_seqs s"
    "st_hub_seqs s1 = st_hub_seqs (foldl (advance_to_floor hub) s0 (snapshot_floor snap))"
    by (rule after_import_rows [OF assms(1)]) (auto dest: import_keeps_cursors)
  have v: "cursor_of hub dev s1 = cursor_of hub dev (foldl (advance_to_floor hub) s0 (snapshot_floor snap))"
    "cursor_of hub dev s0 = cursor_of hub dev s" for dev
    by (simp_all add: cursor_of_def s0)
  have up: "cursor_of hub dev s \<le> cursor_of hub dev s1" for dev unfolding v(1) v(2) [symmetric] by (rule cursors_advance)
  have lt: "cursor_of hub dev s1 < 2 ^ 63 - 1" for dev
    unfolding v(1)
  proof (rule cursors_advance)
    show "cursor_of hub dev s0 < 2 ^ 63 - 1" using assms(3)
      by (cases "tget seq_at (hub, dev) (st_hub_seqs s)") (auto simp: cursor_of_def s0(1) dest: tget_SomeD)
    show "\<forall>f \<in> set (snapshot_floor snap). snd f \<le> 2 ^ 63 - 1" using assms(2) by auto
  qed
  have "\<not> (n > 0 \<and> wrap64 (cursor_of hub dev s1 + 1) < n)" if "(dev, n) \<in> set (snapshot_floor snap)" for dev n
  proof
    assume n: "n > 0 \<and> wrap64 (cursor_of hub dev s1 + 1) < n"
    have "n - 1 \<le> cursor_of hub dev s1" unfolding v(1) using cursors_advance(2) [OF that] n by blast
    moreover from this have "int64 (cursor_of hub dev s1 + 1)" using n lt [of dev] by (simp add: int64_def)
    ultimately show False using n by simp
  qed
  then show "\<not> snapshot_required (snapshot_floor snap) (HubDeviceCursors hub s1)"
    by (auto simp: snapshot_required_def list_ex_iff cursor_of_After)
  show "After (HubDeviceCursors hub s1) dev = cursor_at_floor (snapshot_floor snap) dev (After (HubDeviceCursors hub s) dev)"
    if "distinct (map fst (snapshot_floor snap))"
    using cursors_exact [OF that, of hub dev s0] by (simp add: cursor_of_After v)
qed

text \<open>C20: a device that fell below the retention floors can pull again once it has imported the
  snapshot, and no event at or above a floor is lost to it. The import leaves each cursor at the larger
  of where it was and one below the device's positive floor in the snapshot, no further (so that the
  first event it has not consumed is the event at the floor), and the cursor of a device without a
  positive floor where it was; and a hub whose effective floors are those of the snapshot answers the
  next pull from these cursors with every event of its log above them, instead of demanding a snapshot
  once more. (The snapshot names each device once, floors and cursors stay below the largest 64-bit
  integer, and the log of the hub can be read.)\<close>

theorem recovery_unblocks_pull:
  assumes "ImportSnapshot w snap sha hub s = (Inr (), s1)"
    and "\<forall>(dev, n) \<in> set (snapshot_floor snap). n \<le> 2 ^ 63 - 1"
    and "\<forall>c \<in> set (st_hub_seqs s). hq_seq c < 2 ^ 63 - 1"
    and "hub_retentionFloors w seqs h = Inr (snapshot_floor snap)" and "hub_read h = Inr log"
    and "distinct (map fst (snapshot_floor snap))"
  shows "hub_Pull w seqs (HubDeviceCursors hub s1) h = Inr (sortEvents (filter (above (HubDeviceCursors hub s1)) log)) \<and>
     (\<forall>dev. After (HubDeviceCursors hub s1) dev =
        (case map_of (snapshot_floor snap) dev of
           None \<Rightarrow> After (HubDeviceCursors hub s) dev
         | Some f \<Rightarrow> if 0 < f then max (After (HubDeviceCursors hub s) dev) (f - 1) else After (HubDeviceCursors hub s) dev))"
  using import_passes_gate(1) [OF assms(1-3)] import_passes_gate(2) [OF assms(1-3,6)]
  by (simp add: hub_Pull_def assms(4,5) cursor_at_floor_def)

theorem recovery_unblocks_pull_witness:
  "snapshot_required [(''a'', 3)] (HubDeviceCursors ''h'' import_store) \<and>
   hub_Pull (plain_world 0) [(''a'', 3)]
     (HubDeviceCursors ''h'' (snd (ImportSnapshot (plain_world 0) export_snap ''s'' ''h'' import_store))) empty_hub = Inr []"
proof -
  obtain s1 where s1: "ImportSnapshot (plain_world 0) export_snap ''s'' ''h'' import_store = (Inr (), s1)"
    using exchange [OF import_sample(1) plain_world_ids import_sample(2) export_ok export_built] by blast
  have f: "snapshot_floor export_snap = [(''a'', 3)]" by (simp add: snapshot_floor_def export_snap_def)
  have h: "hub_retentionFloors (plain_world 0) [(''a'', 3)] empty_hub = Inr (snapshot_floor export_snap)"
    by (simp add: f hub_retentionFloors_def hub_GetRetention_def empty_hub_def fail_def raise_floor_def After_def)
  have "hub_Pull (plain_world 0) [(''a'', 3)] (HubDeviceCursors ''h'' s1) empty_hub = Inr (sortEvents (filter (above (HubDeviceCursors ''h'' s1)) []))"
    using recovery_unblocks_pull [OF s1 _ _ h] by (simp add: f import_store_def hub_read_def empty_hub_def)
  then have "hub_Pull (plain_world 0) [(''a'', 3)]
     (HubDeviceCursors ''h'' (snd (ImportSnapshot (plain_world 0) export_snap ''s'' ''h'' import_store))) empty_hub = Inr []"
    by (simp add: s1 sortEvents_def)
  moreover have "snapshot_required [(''a'', 3)] (HubDeviceCursors ''h'' import_store)"
    by (simp add: snapshot_required_def HubDeviceCursors_def import_store_def After_def int64_def empty_store_def)
  ultimately show ?thesis by simp
qed

end
