(* ===== verification/Compact_Claims.thy ===== *)
theory Compact_Claims
  imports Compaction Key_Grants Snapshot_Claims
begin

section \<open>What a compaction guarantees\<close>

text \<open>
  The manifest and the acknowledgement survive their JSON form; floors never fall; what other
  clients may do between the steps (the rely, a preorder on hubs) and what a pass may destroy and when;
  what a finished pass leaves on the hub for a recovery.
\<close>

subsection \<open>Round trips\<close>

lemma field_struct:
  assumes "finds fs n (struct_field n gs upd get)" and "codes h (m v) gs (get r) v"
  shows "field_ok h fs (Some (n, m v)) r (upd (\<lambda>_. v) r)"
proof -
  obtain ms where ms: "reads h (m v) (JObj ms)" "set_fields gs ms (get r) = Some v" using assms(2) by (auto simp: codes_def)
  from field_okI [OF assms(1) ms(1)] show ?thesis using ms(2) by (simp add: struct_field_def)
qed

lemma struct_name [simp]: "fst (struct_field n fs u g) = n"
  by (simp add: struct_field_def)

lemma finds_struct: "ascii_str n \<Longrightarrow> finds (struct_field n gs u g # fs) n (struct_field n gs u g)"
  by (simp add: finds_def)

definition link_fits :: "snapshot_link \<Rightarrow> bool" where
  "link_fits l \<longleftrightarrow> int64 (sl_epoch l) \<and> int64 (sl_hlc l) \<and> ascii_str (sl_kid l) \<and> ascii_str (sl_produced_by l) \<and> ascii_str (sl_sha l)"

definition manifest_fits :: "manifest \<Rightarrow> bool" where
  "manifest_fits m \<longleftrightarrow> int64 (mf_v m) \<and> ascii_str (mf_workspace m) \<and> floors_fit (mf_floors m) \<and> link_fits (mf_snapshot m) \<and>
     ascii_str (mf_produced_by m) \<and> int64 (mf_produced_at m) \<and> ascii_str (mf_prev m) \<and> int64 (mf_min_reader m) \<and>
     ascii_str (mf_sig m)"

lemma codes_link: "link_fits l \<Longrightarrow> codes 1 (marshal_link l) link_fields link_zero l"
  unfolding marshal_link_def One_nat_def link_fields_def
  by (rule codes_fields, (rule fields_Cons finds_hd field_rules | rule finds_tl
      | simp add: struct_defs link_fits_def link_zero_def; fail)+)

lemma decode_marshal_manifest:
  assumes "manifest_fits m"
  shows "decode_manifest (marshal_manifest m) = Some m"
proof -
  have "codes 2 (marshal_manifest m) [int_field ''v'' mf_v_update, str_field ''workspace_id'' mf_workspace_update,
      int_map_field ''floors'' mf_floors_update mf_floors,
      struct_field ''snapshot'' link_fields mf_snapshot_update mf_snapshot,
      str_field ''produced_by'' mf_produced_by_update, int_field ''produced_at_hlc'' mf_produced_at_update,
      str_field ''prev_sha256'' mf_prev_update, int_field ''min_reader_version'' mf_min_reader_update,
      str_field ''sig'' mf_sig_update] manifest_zero m"
    unfolding marshal_manifest_def numeral_2_eq_2 One_nat_def [symmetric]
    by (insert assms, rule codes_fields, unfold One_nat_def,
        (rule fields_Cons finds_hd finds_struct field_floors field_struct [where m = marshal_link] field_rules | rule finds_tl
        | simp add: struct_defs manifest_fits_def manifest_zero_def codes_link [unfolded One_nat_def]; fail)+)
  from codes_unmarshal [OF this] show ?thesis by (simp add: decode_manifest_def max_depth_def)
qed

definition ack_fits :: "ack \<Rightarrow> bool" where
  "ack_fits m \<longleftrightarrow> floors_fit (ak_cursor m) \<and> ascii_str (ak_device m) \<and> ascii_str (ak_fold m) \<and> int64 (ak_hlc m) \<and>
     int64 (ak_produced m) \<and> int64 (ak_pushed m) \<and> ascii_str (ak_sig m) \<and> int64 (ak_v m) \<and> ascii_str (ak_workspace m)"

lemma parse_marshal_ack:
  assumes "ack_fits m"
  shows "ParseAckMarker w (marshal_ack m) = Inr m"
proof -
  have "codes 2 (marshal_ack m) [int_map_field ''cursor'' ak_cursor_update ak_cursor, str_field ''device_id'' ak_device_update,
         str_field ''folded_hash'' ak_fold_update, int_field ''hlc_watermark'' ak_hlc_update,
         int_field ''produced_at_hlc'' ak_produced_update, int_field ''pushed_through_seq'' ak_pushed_update,
         str_field ''sig'' ak_sig_update, int_field ''v'' ak_v_update,
         str_field ''workspace_id'' ak_workspace_update] ack_zero m"
    unfolding marshal_ack_def numeral_2_eq_2
    by (insert assms, rule codes_fields,
        (rule fields_Cons finds_hd field_floors field_rules | rule finds_tl
        | simp add: struct_defs ack_fits_def ack_zero_def; fail)+)
  from codes_unmarshal [OF this] show ?thesis by (simp add: ParseAckMarker_def max_depth_def)
qed

subsection \<open>Floors never fall\<close>

lemma carry_floor_map: "map_of (carry_floor fl f) d = (if map_of fl d = None \<and> fst f = d then Some (snd f) else map_of fl d)"
  by (cases f) (auto simp: carry_floor_def map_add_def split: option.splits)

lemma carry_distinct: "distinct (map fst fl) \<Longrightarrow> distinct (map fst (carry_floor fl f))"
  by (auto simp: carry_floor_def map_of_eq_None_iff)

lemma carry_floors_map:
  "map_of (foldl carry_floor fl old) d = (case map_of fl d of Some n \<Rightarrow> Some n | None \<Rightarrow> map_of old d)"
  by (induction old arbitrary: fl) (auto simp: carry_floor_map split: option.splits)

lemma carry_floors_distinct: "distinct (map fst fl) \<Longrightarrow> distinct (map fst (foldl carry_floor fl old))"
  by (induction old arbitrary: fl) (simp_all add: carry_distinct)

lemma map_of_sort:
  assumes "distinct (map fst m)"
  shows "map_of (sort_key fst m) = map_of m"
proof (rule map_of_eqI)
  show "set (map fst (sort_key fst m)) = set (map fst m)" by simp
  have d: "distinct (map fst (sort_key fst m))"
    using assms by (simp add: distinct_map)
  show "\<forall>k \<in> set (map fst (sort_key fst m)). map_of (sort_key fst m) k = map_of m k"
    using assms d by (metis map_of_eq_Some_iff set_sort map_of_SomeD not_Some_eq)
qed

lemma canonical_sort: "distinct (map fst m) \<Longrightarrow> canonical (sort_key fst m)"
  unfolding canonical_def by (simp add: distinct_map strict_sorted_iff)

lemma reconcile_on_manifest:
  assumes "raw \<noteq> []" and "reconcileCompactFloors w s self base raw = Inr (fl, prev)"
  obtains m pub where "ParseRetentionManifest w raw = Inr m" "producer_key s self m = Inr pub"
    "VerifyRetentionManifest w m pub = Inr ()"
    "find (\<lambda>(dev, nf). case map_of (or_else (mf_floors m) []) dev of Some f \<Rightarrow> nf < f | None \<Rightarrow> False) base = None"
    "fl = sort_key fst (foldl carry_floor base (or_else (mf_floors m) []))" "prev = hex_enc (w_sha w raw)"
proof -
  obtain m where m: "ParseRetentionManifest w raw = Inr m"
    using assms by (cases "ParseRetentionManifest w raw") (auto simp: reconcileCompactFloors_def)
  obtain pub where pub: "producer_key s self m = Inr pub"
    using assms by (cases "producer_key s self m") (auto simp: reconcileCompactFloors_def m)
  have v: "VerifyRetentionManifest w m pub = Inr ()"
    using assms by (cases "VerifyRetentionManifest w m pub") (auto simp: reconcileCompactFloors_def m pub)
  show ?thesis
    by (rule that [OF m pub v]) (use assms in \<open>auto simp: reconcileCompactFloors_def m pub v Let_def split: option.splits\<close>)
qed

lemma reconcile_shape:
  assumes "reconcileCompactFloors w s self base raw = Inr (fl, prev)" and "distinct (map fst base)"
  shows "canonical fl" "map_of base d = Some n \<Longrightarrow> map_of fl d = Some n"
    and "prev = (if raw = [] then [] else hex_enc (w_sha w raw))"
proof -
  have "\<exists>old. fl = sort_key fst (foldl carry_floor base old) \<and> prev = (if raw = [] then [] else hex_enc (w_sha w raw))"
  proof (cases "raw = []")
    case True
    then have "fl = sort_key fst (foldl carry_floor base [])" "prev = []" using assms(1) by (simp_all add: reconcileCompactFloors_def)
    then show ?thesis using True by metis
  next
    case False
    show ?thesis by (rule reconcile_on_manifest [OF False assms(1)]) (auto simp: False)
  qed
  then obtain old where "fl = sort_key fst (foldl carry_floor base old)" "prev = (if raw = [] then [] else hex_enc (w_sha w raw))" by blast
  then show "canonical fl" "map_of base d = Some n \<Longrightarrow> map_of fl d = Some n"
    "prev = (if raw = [] then [] else hex_enc (w_sha w raw))"
    using assms(2) by (simp_all add: canonical_sort carry_floors_distinct map_of_sort carry_floors_map)
qed

text \<open>C24: floors never fall: what a compaction publishes over a standing manifest keeps every device's
  floor or raises it, carries over the devices it does not know, uses its own floor for those it
  knows, and chains to the manifest it replaces; and it only builds on a manifest whose signature
  verifies under the key of its own device or of one it approved.\<close>

theorem floors_never_fall:
  assumes "reconcileCompactFloors w s self base raw = Inr (fl, prev)" and "raw \<noteq> []" and "distinct (map fst base)"
  shows "\<exists>m pub. ParseRetentionManifest w raw = Inr m \<and> VerifyRetentionManifest w m pub = Inr () \<and>
     (pub = dv_sig_pub self \<and> mf_produced_by m = dv_id self \<or> ApprovedDeviceSigningKey (mf_produced_by m) s = Some pub) \<and>
     (\<forall>d n. map_of (or_else (mf_floors m) []) d = Some n \<longrightarrow> (\<exists>n'. map_of fl d = Some n' \<and> n \<le> n')) \<and>
     (\<forall>d n. map_of base d = Some n \<longrightarrow> map_of fl d = Some n) \<and>
     (\<forall>d. map_of fl d = None \<longleftrightarrow> map_of base d = None \<and> map_of (or_else (mf_floors m) []) d = None) \<and>
     prev = hex_enc (w_sha w raw)"
proof -
  obtain m pub where m: "ParseRetentionManifest w raw = Inr m" and pub: "producer_key s self m = Inr pub"
    "VerifyRetentionManifest w m pub = Inr ()"
    and none: "find (\<lambda>(dev, nf). case map_of (or_else (mf_floors m) []) dev of Some f \<Rightarrow> nf < f | None \<Rightarrow> False) base = None"
    and fl: "fl = sort_key fst (foldl carry_floor base (or_else (mf_floors m) []))" "prev = hex_enc (w_sha w raw)"
    by (rule reconcile_on_manifest [OF assms(2,1)])
  let ?old = "or_else (mf_floors m) []"
  have f: "map_of fl d = (case map_of base d of Some n \<Rightarrow> Some n | None \<Rightarrow> map_of ?old d)" for d
    using assms(3) by (simp add: fl map_of_sort carry_floors_distinct carry_floors_map)
  have "n \<le> n'" if "map_of ?old d = Some n" "map_of base d = Some n'" for d n n'
    using none that map_of_SomeD [OF that(2)] by (fastforce simp: find_None_iff)
  then have up: "\<exists>n'. map_of fl d = Some n' \<and> n \<le> n'" if "map_of ?old d = Some n" for d n
    using that by (cases "map_of base d") (auto simp: f)
  have "pub = dv_sig_pub self \<and> mf_produced_by m = dv_id self \<or> ApprovedDeviceSigningKey (mf_produced_by m) s = Some pub"
    using pub(1) by (auto simp: producer_key_def split: if_splits option.splits)
  then show ?thesis using m pub(2) up by (auto simp: f fl(2) split: option.splits)
qed

subsection \<open>What may happen to a hub\<close>

definition log_events :: "file_hub \<Rightarrow> event set" where
  "log_events h = (case fh_log h of Log es \<Rightarrow> set es | No_Log \<Rightarrow> {} | Bad_Log \<Rightarrow> {})"

definition kept_files :: "disk_file list \<Rightarrow> disk_file list \<Rightarrow> bool" where
  "kept_files d d' \<longleftrightarrow> (\<forall>n b. file_bytes n d = Some b \<longrightarrow> file_bytes n d' = Some b)"

text \<open>Nothing that was on the hub is gone: no event, no blob, no snapshot, no device's
  acknowledgement (which may have been replaced). The manifest and the lock are not counted.\<close>

definition nothing_lost :: "file_hub \<Rightarrow> file_hub \<Rightarrow> bool" where
  "nothing_lost g h \<longleftrightarrow> log_events g \<subseteq> log_events h \<and> kept_files (fh_blobs g) (fh_blobs h) \<and>
     kept_files (fh_snapshots g) (fh_snapshots h) \<and>
     (\<forall>n. file_bytes n (fh_acks g) \<noteq> None \<longrightarrow> file_bytes n (fh_acks h) \<noteq> None)"

definition held_snapshot :: "string \<Rightarrow> file_hub \<Rightarrow> string option" where
  "held_snapshot key h = file_bytes (json_file key) (fh_snapshots h)"

definition honest_snapshots :: "world \<Rightarrow> file_hub \<Rightarrow> bool" where
  "honest_snapshots w h \<longleftrightarrow> (\<forall>k b. held_snapshot k h = Some b \<longrightarrow> contentETag w b = k)"

lemma json_file_inj [simp]: "json_file a = json_file b \<longleftrightarrow> a = b"
  by (simp add: json_file_def)

lemma kept_files_refl [simp]: "kept_files d d"
  by (simp add: kept_files_def)

lemma kept_files_trans: "kept_files a b \<Longrightarrow> kept_files b c \<Longrightarrow> kept_files a c"
  by (simp add: kept_files_def)

lemma kept_held: "kept_files (fh_snapshots g) (fh_snapshots h) \<Longrightarrow> held_snapshot k g = Some b \<Longrightarrow> held_snapshot k h = Some b"
  by (simp add: kept_files_def held_snapshot_def)

lemma nothing_lost_trans: "nothing_lost a b \<Longrightarrow> nothing_lost b c \<Longrightarrow> nothing_lost a c"
  by (auto simp: nothing_lost_def intro: kept_files_trans)

lemma file_bytes_write: "file_bytes n (write_disk now f b d) = (if n = f then Some b else file_bytes n d)"
  by (simp add: file_bytes_def write_disk_def tget_tput split: option.split)

lemma put_snapshot_held:
  assumes "hub_PutSnapshotObject w now sha obj h = Inr h1"
  shows "held_snapshot k h1 = (if k = sha \<and> held_snapshot sha h = None then Some obj else held_snapshot k h)"
    "contentETag w obj = sha" "held_snapshot sha h1 \<noteq> None" "fh_retention h1 = fh_retention h"
  using assms
  by (auto simp: hub_PutSnapshotObject_def held_snapshot_def file_bytes_write fail_def split: if_split_asm)

lemma put_snapshot_keeps: "hub_PutSnapshotObject w now sha obj h = Inr h1 \<Longrightarrow> nothing_lost h h1"
  by (auto simp: hub_PutSnapshotObject_def nothing_lost_def log_events_def kept_files_def file_bytes_write fail_def
      split: if_split_asm)

lemma put_snapshot_honest:
  "hub_PutSnapshotObject w now sha obj h = Inr h1 \<Longrightarrow> honest_snapshots w h \<Longrightarrow> honest_snapshots w h1"
  using put_snapshot_held(1,2) by (fastforce simp: honest_snapshots_def split: if_split_asm)

lemma put_retention_log: "hub_PutRetention w raw etag h = Inr h' \<Longrightarrow> h' = h\<lparr>fh_retention := Some raw\<rparr>"
  by (auto simp: hub_PutRetention_def fail_def split: if_split_asm option.splits)

lemma create_again_lock: "create_again now body h = (r, h') \<Longrightarrow> \<exists>l. h' = h\<lparr>fh_lock := l\<rparr>"
  by (auto simp: create_again_def lock_ops split: if_split_asm) (metis file_hub.surjective file_hub.update_convs(6))+

text \<open>A preorder on hubs that the lock, the manifest and a new snapshot respect: what the other
  clients are relied on for, and what a compaction guarantees up to its deletion.\<close>

locale hub_order =
  fixes R :: "file_hub \<Rightarrow> file_hub \<Rightarrow> bool" and w :: world
  assumes R_refl: "R h h"
    and R_trans: "R a b \<Longrightarrow> R b c \<Longrightarrow> R a c"
    and R_lock: "R h (h\<lparr>fh_lock := l\<rparr>)"
    and R_retention: "R h (h\<lparr>fh_retention := raw\<rparr>)"
    and R_snapshot: "hub_PutSnapshotObject w now sha obj h = Inr h' \<Longrightarrow> R h h'"
    and R_files: "R g h \<Longrightarrow> kept_files (fh_snapshots g) (fh_snapshots h)"
begin

lemma R_create: "R h (snd (create_again now body h))"
  using create_again_lock [of now body h] R_lock [of h] by (metis prod.collapse)

lemma R_acquire:
  assumes "\<And>g. R g (e0 g)" and "\<And>g. R g (e1 g)" and "\<And>g. R g (e2 g)"
  shows "R h (snd (acquire_body w now body e0 e1 e2 h))"
proof -
  have "R h (e1 (e0 h))" using R_trans assms by blast
  then have a: "R h (snd (create_again now body (e1 (e0 h))))" using R_trans R_create by blast
  have "R h (e2 (hub_DeleteSweepLock (e1 (e0 h))))"
    unfolding hub_DeleteSweepLock_def using R_trans R_lock assms \<open>R h (e1 (e0 h))\<close> by blast
  then have b: "R h (snd (create_again now body (e2 (hub_DeleteSweepLock (e1 (e0 h))))))" using R_trans R_create by blast
  show ?thesis
    using assms R_refl R_lock [of h] a b
    by (auto simp: acquire_body_def Let_def break_lock_def hub_PutSweepLock_def split: sum.split prod.split)
qed

lemma R_sweep_lock:
  assumes "\<And>i g. R g (env i g)"
  shows "R h (snd (hubSweepLock w now ttl nonce (env i) (env j) (env k) s h))"
  using R_acquire [of "env i" "env j" "env k"] assms R_refl
  by (auto simp: hubSweepLock_def split: sum.split prod.split)

lemma R_release:
  assumes "\<And>i g. R g (env i g)"
  shows "R h (release body (env i) h)"
proof -
  have "R h (env i h\<lparr>fh_lock := l\<rparr>)" for l using R_trans assms R_lock by blast
  then show ?thesis using assms R_refl
    by (auto simp: release_def hub_DeleteSweepLock_def split: sum.split prod.split)
qed

lemma R_publish:
  assumes "publish x w j hlc i e s base cur h = (r, h')" and "\<And>g. R g (e g)"
  shows "R h h'"
proof (cases "\<exists>fl prev snap obj sha h1. sealed_snapshot x w j hlc i s base (fst cur) = Inr (fl, prev, snap, obj, sha) \<and>
    hub_PutSnapshotObject w (cj_now j) sha obj h = Inr h1")
  case True
  then obtain fl prev snap obj sha h1 where a: "sealed_snapshot x w j hlc i s base (fst cur) = Inr (fl, prev, snap, obj, sha)"
    "hub_PutSnapshotObject w (cj_now j) sha obj h = Inr h1" by blast
  have "R h h1" by (rule R_snapshot [OF a(2)])
  moreover from this have "R h (e h1)" using R_trans assms(2) by blast
  moreover from this have "R h ((e h1)\<lparr>fh_retention := raw\<rparr>)" for raw using R_trans R_retention by blast
  ultimately show ?thesis
    using assms(1) by (auto simp: publish_def a dest!: put_retention_log split: sum.splits)
next
  case False
  then have "h' = h" using assms(1) by (auto simp: publish_def split: sum.splits)
  then show ?thesis by (simp add: R_refl)
qed

text \<open>The publication with its retry: it stays within the order, and when it succeeds, its last
  attempt does.\<close>

lemma R_publish_retry:
  assumes "publish_retry x w j hlc env s base cur h = (r, h')" and "\<And>i g. R g (env i g)"
  shows "R h h'"
    and "r = Inr t \<Longrightarrow> \<exists>i k cur' g. publish x w j hlc i (env k) s base cur' g = (Inr t, h') \<and> R h g"
proof -
  obtain r1 h1 where p1: "publish x w j hlc 0 (env 1) s base cur h = (r1, h1)" by fastforce
  have l1: "R h h1" by (rule R_publish [OF p1 assms(2)])
  note p1' = p1 [unfolded One_nat_def]
  have "R h h' \<and> (r = Inr t \<longrightarrow> (\<exists>i k cur' g. publish x w j hlc i (env k) s base cur' g = (Inr t, h') \<and> R h g))"
  proof (cases "\<exists>e. r1 = Inl e \<and> err_is e KRetentionConflict")
    case False
    then have "r = r1 \<and> h' = h1" using assms(1) by (auto simp: publish_retry_def p1' split: sum.splits)
    then show ?thesis using l1 p1 R_refl by metis
  next
    case True
    then obtain e where e: "r1 = Inl e" "err_is e KRetentionConflict" by blast
    have l2: "R h (env 2 h1)" using R_trans l1 assms(2) by blast
    show ?thesis
    proof (cases "read_retention w ''re-read retention manifest after CAS conflict: '' (env 2 h1)")
      case (Inr cur2)
      obtain r2 h2 where p2: "publish x w j hlc 1 (env 3) s base cur2 (env 2 h1) = (r2, h2)" by fastforce
      have "R h h2" using R_trans l2 R_publish [OF p2 assms(2)] by blast
      moreover have "h' = h2 \<and> (r = Inr t \<longrightarrow> r2 = Inr t)"
        using assms(1) e Inr p2 [unfolded One_nat_def] by (cases r2) (auto simp: publish_retry_def p1' Let_def)
      ultimately show ?thesis using p2 l2 by metis
    qed (use assms(1) l2 e in \<open>auto simp: publish_retry_def p1' Let_def\<close>)
  qed
  then show "R h h'" "r = Inr t \<Longrightarrow> \<exists>i k cur' g. publish x w j hlc i (env k) s base cur' g = (Inr t, h') \<and> R h g" by blast+
qed

end

interpretation keeps_all: hub_order nothing_lost w for w
proof
  show "nothing_lost h h" for h by (simp add: nothing_lost_def)
  show "nothing_lost a b \<Longrightarrow> nothing_lost b c \<Longrightarrow> nothing_lost a c" for a b c by (rule nothing_lost_trans)
  show "nothing_lost h (h\<lparr>fh_lock := l\<rparr>)" "nothing_lost h (h\<lparr>fh_retention := raw\<rparr>)" for h l raw
    by (simp_all add: nothing_lost_def log_events_def)
  show "hub_PutSnapshotObject w now sha obj h = Inr h' \<Longrightarrow> nothing_lost h h'" for now sha obj h h'
    by (rule put_snapshot_keeps)
  show "nothing_lost g h \<Longrightarrow> kept_files (fh_snapshots g) (fh_snapshots h)" for g h by (simp add: nothing_lost_def)
qed

text \<open>Snapshots stay, and stay under their hashes; the log, the markers and the lock may change freely.\<close>

definition keeps_snapshots :: "world \<Rightarrow> file_hub \<Rightarrow> file_hub \<Rightarrow> bool" where
  "keeps_snapshots w g h \<longleftrightarrow> kept_files (fh_snapshots g) (fh_snapshots h) \<and> (honest_snapshots w g \<longrightarrow> honest_snapshots w h)"

interpretation keeps_snaps: hub_order "keeps_snapshots w" w for w
proof
  show "keeps_snapshots w h h" for h by (simp add: keeps_snapshots_def)
  show "keeps_snapshots w a b \<Longrightarrow> keeps_snapshots w b c \<Longrightarrow> keeps_snapshots w a c" for a b c
    using kept_files_trans by (auto simp: keeps_snapshots_def)
  show "keeps_snapshots w h (h\<lparr>fh_lock := l\<rparr>)" "keeps_snapshots w h (h\<lparr>fh_retention := raw\<rparr>)" for h l raw
    by (simp_all add: keeps_snapshots_def honest_snapshots_def held_snapshot_def)
  show "hub_PutSnapshotObject w now sha obj h = Inr h' \<Longrightarrow> keeps_snapshots w h h'" for now sha obj h h'
    using put_snapshot_keeps put_snapshot_honest by (simp add: keeps_snapshots_def nothing_lost_def)
  show "keeps_snapshots w g h \<Longrightarrow> kept_files (fh_snapshots g) (fh_snapshots h)" for g h by (simp add: keeps_snapshots_def)
qed

text \<open>What one successful publication has put on the hub.\<close>

lemma publish_ok:
  assumes "publish x w j hlc i e s base cur h = (Inr (m, sha, raw), h')"
  obtains floors prev snap obj h1 where
    "sealed_snapshot x w j hlc i s base (fst cur) = Inr (floors, prev, snap, obj, sha)"
    "hub_PutSnapshotObject w (cj_now j) sha obj h = Inr h1"
    "SignRetentionManifest w (new_manifest j hlc (sn_workspace snap) floors sha prev) (cj_priv j) = Inr m"
    "raw = marshal_manifest m" "h' = (e h1)\<lparr>fh_retention := Some raw\<rparr>"
proof -
  obtain floors prev snap obj sha' where a: "sealed_snapshot x w j hlc i s base (fst cur) = Inr (floors, prev, snap, obj, sha')"
    using assms by (cases "sealed_snapshot x w j hlc i s base (fst cur)") (auto simp: publish_def)
  obtain h1 where b: "hub_PutSnapshotObject w (cj_now j) sha' obj h = Inr h1"
    using assms by (cases "hub_PutSnapshotObject w (cj_now j) sha' obj h") (auto simp: publish_def a)
  obtain m' where c: "SignRetentionManifest w (new_manifest j hlc (sn_workspace snap) floors sha' prev) (cj_priv j) = Inr m'"
    using assms by (cases "SignRetentionManifest w (new_manifest j hlc (sn_workspace snap) floors sha' prev) (cj_priv j)")
      (auto simp: publish_def a b)
  obtain h2 where d: "hub_PutRetention w (marshal_manifest m') (snd cur) (e h1) = Inr h2"
    using assms by (cases "hub_PutRetention w (marshal_manifest m') (snd cur) (e h1)") (auto simp: publish_def a b c)
  have "m' = m \<and> sha' = sha \<and> raw = marshal_manifest m' \<and> h2 = h'" using assms by (auto simp: publish_def a b c d)
  then show ?thesis using that [of floors prev snap obj h1] a b c put_retention_log [OF d] by auto
qed

subsection \<open>The deletion\<close>

lemma file_bytes_remove: "file_bytes n (remove_file f d) = (if n = f then None else file_bytes n d)"
  by (auto simp: file_bytes_def remove_file_def tget_tdel_key tget_tdel_other)

lemma prune_object_held:
  "held_snapshot k (snd (prune_object kept nh key)) =
     (if k = key \<and> key \<notin> set kept \<and> validateBlobKey key = Inr () then None else held_snapshot k (snd nh))"
  by (cases nh) (auto simp: prune_object_def hub_DeleteSnapshotObject_def held_snapshot_def file_bytes_remove split: sum.split)

lemma prune_held:
  "held_snapshot k (snd (foldl (prune_object kept) nh keys)) =
     (if k \<in> set keys \<and> k \<notin> set kept \<and> validateBlobKey k = Inr () then None else held_snapshot k (snd nh))"
  by (induction keys arbitrary: nh) (auto simp: prune_object_held)

lemma prune_rest:
  "fh_retention (snd (foldl (prune_object kept) nh keys)) = fh_retention (snd nh) \<and>
   fh_log (snd (foldl (prune_object kept) nh keys)) = fh_log (snd nh)"
  by (induction keys arbitrary: nh)
    (auto simp: prune_object_def hub_DeleteSnapshotObject_def split: prod.split sum.split)

lemma drop_events_spec:
  assumes "drop_events P h = Inr (n, h')"
  shows "fh_retention h' = fh_retention h" "fh_snapshots h' = fh_snapshots h"
    "log_events h' = {e \<in> log_events h. \<not> P e}"
  using assms
  by (auto simp: drop_events_def hub_read_def hub_write_def Let_def log_events_def fail_def filter_empty_conv
      split: log_file.splits if_split_asm)

text \<open>The streams that the cleanup may drop.\<close>

definition written_off :: "(string \<times> int) list \<Rightarrow> device list \<Rightarrow> event \<Rightarrow> bool" where
  "written_off floors ds e \<longleftrightarrow> (\<exists>d \<in> set ds. dv_id d = ev_device e \<and> dv_trust d \<in> {trust_revoked, trust_lost} \<and>
     0 < or_else (map_of floors (dv_id d)) 0)"

lemma cleanup_stream_spec:
  "fh_retention (snd (cleanup_stream fl nh d)) = fh_retention (snd nh) \<and>
   fh_snapshots (snd (cleanup_stream fl nh d)) = fh_snapshots (snd nh) \<and>
   (\<forall>e \<in> log_events (snd nh). e \<notin> log_events (snd (cleanup_stream fl nh d)) \<longrightarrow> written_off fl [d] e)"
proof -
  obtain n h where nh: "nh = (n, h)" by (cases nh)
  show ?thesis
  proof (cases "(dv_trust d = trust_revoked \<or> dv_trust d = trust_lost) \<and> 0 < or_else (map_of fl (dv_id d)) 0")
    case True
    show ?thesis
    proof (cases "hub_DeleteDeviceStream (dv_id d) h")
      case (Inr p)
      then obtain k h1 where p: "hub_DeleteDeviceStream (dv_id d) h = Inr (k, h1)" by (cases p) auto
      then have D: "drop_events (\<lambda>e. ev_device e = dv_id d) h = Inr (k, h1)"
        by (auto simp: hub_DeleteDeviceStream_def)
      note S = drop_events_spec [OF D]
      have "log_events (h1\<lparr>fh_acks := a\<rparr>) = log_events h1" for a by (simp add: log_events_def)
      then show ?thesis using True S
        by (auto simp: nh cleanup_stream_def p hub_DeleteAck_def written_off_def split: sum.split)
    qed (use True in \<open>auto simp: nh cleanup_stream_def\<close>)
  qed (auto simp: nh cleanup_stream_def)
qed

lemma cleanup_spec:
  "fh_retention (snd (foldl (cleanup_stream fl) nh ds)) = fh_retention (snd nh) \<and>
   fh_snapshots (snd (foldl (cleanup_stream fl) nh ds)) = fh_snapshots (snd nh) \<and>
   (\<forall>e \<in> log_events (snd nh). e \<notin> log_events (snd (foldl (cleanup_stream fl) nh ds)) \<longrightarrow> written_off fl ds e)"
proof (induction ds arbitrary: nh)
  case (Cons d ds)
  have w: "written_off fl [d] e \<or> written_off fl ds e \<Longrightarrow> written_off fl (d # ds) e" for e
    by (auto simp: written_off_def)
  show ?case
    using Cons.IH [of "cleanup_stream fl nh d"] cleanup_stream_spec [of fl nh d] w by auto
qed simp

lemma advance_own_devices: "advance_own fa hubID fs s = (r, s') \<Longrightarrow> st_devices s' = st_devices s"
proof (induction fs arbitrary: s)
  case (Cons f fs)
  have "st_devices (AdvanceHubDeviceCursor hubID (fst f) (snd f - 1) s) = st_devices s"
    by (simp add: AdvanceHubDeviceCursor_def)
  then show ?case using Cons by (auto split: if_split_asm option.splits)
qed simp

text \<open>The errors that can come after the first deletion.\<close>

definition late_error :: "compact_job \<Rightarrow> err \<Rightarrow> bool" where
  "late_error j e \<longleftrightarrow> (\<exists>dev. lf_advance (cj_faults j) dev = Some e) \<or> lf_devices (cj_faults j) = Some e \<or>
     (\<exists>g. lf_list (cj_faults j) = Some g \<and> e = Err (KExitNetwork # err_kinds g) (''list snapshot objects: '' @ err_msg g))"

lemma advance_own_error: "advance_own fa hubID fs s = (Some e, s') \<Longrightarrow> \<exists>dev. lf_advance fa dev = Some e"
  by (induction fs arbitrary: s) (auto split: if_split_asm option.splits)

lemma pruned_held:
  assumes "pruneSnapshotObjects fa sha keep h = Inr (q, h')"
  shows "held_snapshot sha h' = held_snapshot sha h" "fh_retention h' = fh_retention h" "log_events h' = log_events h"
proof -
  let ?keys = "newest_first (hub_ListSnapshotObjects h)"
  have "h' = snd (foldl (prune_object (kept_snapshots sha keep ?keys)) (0, h) ?keys)"
    using assms by (auto simp: pruneSnapshotObjects_def Let_def split: option.split_asm)
  then show "held_snapshot sha h' = held_snapshot sha h" "fh_retention h' = fh_retention h" "log_events h' = log_events h"
    by (simp_all only: prune_held prune_rest log_events_def) (simp_all add: kept_snapshots_def)
qed

lemma cleaned_up:
  assumes "cleanupRevokedStreams fa s fl h = Inr (k, h')"
  shows "fh_retention h' = fh_retention h" "held_snapshot sha h' = held_snapshot sha h"
    "e \<in> log_events h \<Longrightarrow> e \<notin> log_events h' \<Longrightarrow> written_off fl (st_devices s) e"
proof -
  have h': "h' = snd (foldl (cleanup_stream fl) (0, h) (ListDevices s))"
    using assms by (auto simp: cleanupRevokedStreams_def split: option.split_asm)
  note C = cleanup_spec [of fl "(0, h)" "ListDevices s", folded h']
  have "written_off fl (ListDevices s) e = written_off fl (st_devices s) e" for e
    by (simp add: written_off_def ListDevices_def)
  then show "fh_retention h' = fh_retention h" "held_snapshot sha h' = held_snapshot sha h"
    "e \<in> log_events h \<Longrightarrow> e \<notin> log_events h' \<Longrightarrow> written_off fl (st_devices s) e"
    using C by (auto simp: held_snapshot_def)
qed

lemma delete_cold_effect:
  assumes run: "delete_cold j m sha tombs s h = (r, s', h')" and fl: "fl = or_else (mf_floors m) []"
  shows "fh_retention h' = fh_retention h" "held_snapshot sha h' = held_snapshot sha h"
    "e \<in> log_events h \<Longrightarrow> e \<notin> log_events h' \<Longrightarrow> compacted fl e \<or> written_off fl (st_devices s) e"
    "r = Inr c \<Longrightarrow> cr_sha c = sha \<and> cr_floors c = fl"
    "r = Inl er \<Longrightarrow> h' = h \<or> late_error j er"
proof -
  have "fh_retention h' = fh_retention h \<and> held_snapshot sha h' = held_snapshot sha h \<and>
    (\<forall>e. e \<in> log_events h \<and> e \<notin> log_events h' \<longrightarrow> compacted fl e \<or> written_off fl (st_devices s) e) \<and>
    (\<forall>c. r = Inr c \<longrightarrow> cr_sha c = sha \<and> cr_floors c = fl) \<and> (\<forall>er. r = Inl er \<longrightarrow> h' = h \<or> late_error j er)"
  proof (cases "hub_CompactEventsBelow fl h")
    case (Inl er)
    then show ?thesis using run by (auto simp: delete_cold_def fl)
  next
    case (Inr p)
    then obtain n h1 where c: "hub_CompactEventsBelow fl h = Inr (n, h1)" by (cases p) auto
    note D = drop_events_spec [OF c [unfolded hub_CompactEventsBelow_def]]
    obtain a s1 where a: "advance_own (cj_faults j) (cj_hub j) fl s = (a, s1)" by fastforce
    have dev: "st_devices s1 = st_devices s" by (rule advance_own_devices [OF a])
    show ?thesis
    proof (cases a)
      case (Some er)
      then have "late_error j er" using advance_own_error a by (fastforce simp: late_error_def)
      then show ?thesis using run D a Some by (auto simp: delete_cold_def fl [symmetric] c held_snapshot_def)
    next
      case None
      show ?thesis
      proof (cases "cleanupRevokedStreams (cj_faults j) s1 fl h1")
        case (Inl er)
        then have "late_error j er" by (auto simp: late_error_def cleanupRevokedStreams_def split: option.split_asm)
        then show ?thesis using run D a None Inl by (auto simp: delete_cold_def fl [symmetric] c held_snapshot_def)
      next
        case (Inr p)
        then obtain k h2 where k: "cleanupRevokedStreams (cj_faults j) s1 fl h1 = Inr (k, h2)" by (cases p) auto
        note C = cleaned_up(1) [OF k] cleaned_up(2) [OF k, of sha] cleaned_up(3) [OF k, unfolded dev]
        show ?thesis
        proof (cases "pruneSnapshotObjects (cj_faults j) sha (max 1 (cj_keep j)) h2")
          case (Inl er)
          then have "late_error j er" by (auto simp: late_error_def pruneSnapshotObjects_def Let_def split: option.split_asm)
          moreover have "r = Inl er \<and> h' = h2"
            using run a None k Inl by (auto simp: delete_cold_def fl [symmetric] c)
          ultimately show ?thesis using D C by (auto simp: held_snapshot_def)
        next
          case (Inr p)
          then obtain q h3 where q: "pruneSnapshotObjects (cj_faults j) sha (max 1 (cj_keep j)) h2 = Inr (q, h3)" by (cases p) auto
          have "r = Inr \<lparr>cr_sha = sha, cr_floors = fl, cr_deleted = n, cr_tombs = tombs, cr_revoked = k, cr_pruned = q\<rparr> \<and> h' = h3"
            using run a None k q by (auto simp: delete_cold_def fl [symmetric] c)
          then show ?thesis using D C pruned_held [OF q] by (auto simp: held_snapshot_def)
        qed
      qed
    qed
  qed
  then show "fh_retention h' = fh_retention h" "held_snapshot sha h' = held_snapshot sha h"
    "e \<in> log_events h \<Longrightarrow> e \<notin> log_events h' \<Longrightarrow> compacted fl e \<or> written_off fl (st_devices s) e"
    "r = Inr c \<Longrightarrow> cr_sha c = sha \<and> cr_floors c = fl"
    "r = Inl er \<Longrightarrow> h' = h \<or> late_error j er" by blast+
qed

subsection \<open>Confirmed before deleted\<close>

text \<open>What has been read back when the deletion starts: the pass's own manifest, signed with the job's
  key, and the snapshot it names.\<close>

definition confirmed :: "world \<Rightarrow> compact_job \<Rightarrow> manifest \<Rightarrow> string \<Rightarrow> file_hub \<Rightarrow> bool" where
  "confirmed w j m sha g \<longleftrightarrow> fh_retention g = Some (marshal_manifest m) \<and> mf_floors m \<noteq> None \<and>
     mf_produced_by m = dv_id (cj_self j) \<and> sl_sha (mf_snapshot m) = sha \<and> held_snapshot sha g \<noteq> None \<and>
     (\<forall>pub priv. key_pair w pub priv \<and> cj_priv j = key_text priv \<longrightarrow> VerifyRetentionManifest w m (key_text pub) = Inr ())"

lemma signed_new_manifest:
  assumes "SignRetentionManifest w (new_manifest j hlc ws floors sha prev) (cj_priv j) = Inr m"
  shows "mf_floors m = Some floors" "mf_produced_by m = dv_id (cj_self j)" "sl_sha (mf_snapshot m) = sha"
    "key_pair w pub priv \<Longrightarrow> cj_priv j = key_text priv \<Longrightarrow> VerifyRetentionManifest w m (key_text pub) = Inr ()"
proof -
  show "mf_floors m = Some floors" "mf_produced_by m = dv_id (cj_self j)" "sl_sha (mf_snapshot m) = sha"
    using assms by (auto simp: SignRetentionManifest_def new_manifest_def Let_def)
  assume k: "key_pair w pub priv" "cj_priv j = key_text priv"
  have "mf_min_reader (new_manifest j hlc ws floors sha prev) \<le> snapshotVersion"
    by (simp add: new_manifest_def snapshotVersion_def)
  from manifest_sign_verify [OF k(1) this] show "VerifyRetentionManifest w m (key_text pub) = Inr ()"
    using assms k(2) by auto
qed

lemma collect_tombs_devices: "collect_tombs plan s = (n, s1) \<Longrightarrow> st_devices s1 = st_devices s"
proof -
  have "st_devices (fold (\<lambda>e. delete_entry (ns_id e)) gone t) = st_devices t" for gone t
    by (induction gone arbitrary: t) (simp_all add: delete_entry_def)
  then show "collect_tombs plan s = (n, s1) \<Longrightarrow> st_devices s1 = st_devices s"
    by (auto simp: collect_tombs_def GCTombstones_def Let_def split: if_split_asm)
qed

context hub_order
begin

text \<open>Every run either stops with an error within the order, or is a dry run, or reaches the deletion on
  a hub within the order on which manifest and snapshot are confirmed.\<close>

lemma reaches_deletion:
  assumes run: "hubCompact x w j nonce env dryRun s h = (r, s', h')" and env: "\<And>i g. R g (env i g)"
  obtains (stopped) e where "r = Inl e" "R h h'" "dryRun \<Longrightarrow> s' = s \<and> h' = h"
  | (dry) "dryRun" "s' = s" "h' = h"
  | (deleting) m sha tombs s1 g h2 body g0 where "\<not> dryRun" "R h g" "confirmed w j m sha g"
      "delete_cold j m sha tombs s1 g = (r, s', h2)" "h' = release body (env 8) h2" "st_devices s1 = st_devices s"
      "R h g0" "\<exists>now obj g1. hub_PutSnapshotObject w now sha obj g0 = Inr g1 \<and> R g1 g"
proof (cases "dryRun \<or> (\<exists>e. r = Inl e \<and> s' = s \<and> h' = h)")
  case True
  show ?thesis
  proof (cases dryRun)
    case True
    have "snd (hubCompact x w j nonce env True s h) = (s, h)" by (simp add: hubCompact_def split: sum.split)
    then show ?thesis using dry True run by simp
  next
    case False
    then show ?thesis using \<open>dryRun \<or> _\<close> stopped R_refl by blast
  qed
next
  case False
  then obtain base cur preview estimate hlc plan where
    d: "destructive_pass x w j nonce hlc env base cur plan s (env 0 h) = (r, s', h')"
    using run by (auto simp: hubCompact_def split: sum.splits)
  have l0: "R h (env 0 h)" by (rule env)
  obtain r1 h1 where l: "hubSweepLock w (cj_now j) defaultSweepLockTTL nonce (env 5) (env 6) (env 7) s (env 0 h) = (r1, h1)" by fastforce
  have l1: "R h h1" using R_trans [OF l0] R_sweep_lock [of env, OF env] l by (metis snd_conv)
  have rel: "R h (release body (env 8) g)" if "R h g" for body g using R_trans [OF that R_release [of env, OF env]] .
  show ?thesis
  proof (cases "\<exists>body. r1 = Inr body \<and> \<not> (cj_epoch j = 0 \<or> cj_wck j = [])")
    case False
    then have "\<exists>e. r = Inl e" "R h h'" using d l1 rel by (auto simp: destructive_pass_def l split: sum.splits)
    then show ?thesis using stopped \<open>\<not> (dryRun \<or> _)\<close> by blast
  next
    case True
    then obtain body where body: "r1 = Inr body" "\<not> (cj_epoch j = 0 \<or> cj_wck j = [])" by blast
    obtain tombs s1 where c: "collect_tombs plan s = (tombs, s1)" by fastforce
    obtain q s2 h2 where p: "publish_and_delete x w j hlc env base cur tombs s1 h1 = (q, s2, h2)" by (metis prod_cases3)
    have q: "q = r" "s2 = s'" "h' = release body (env 8) h2" using d body(2) by (simp_all add: destructive_pass_def l body(1) c p)
    obtain t h3 where t: "publish_retry x w j hlc env s1 base cur h1 = (t, h3)" by fastforce
    have l3: "R h h3" using R_trans [OF l1 R_publish_retry(1) [OF t env]] .
    have l4: "R h (env 4 h3)" using R_trans [OF l3 env] .
    show ?thesis
    proof (cases "\<exists>m sha raw. t = Inr (m, sha, raw) \<and> read_back w raw (env 4 h3) = Inr ()")
      case False
      then have "\<exists>e. r = Inl e" "R h h2"
        using p q(1) l3 l4 by (auto simp: publish_and_delete_def t Let_def split: sum.splits prod.splits)
      then show ?thesis using stopped rel q(3) \<open>\<not> (dryRun \<or> _)\<close> by blast
    next
      case True
      then obtain m sha raw where t': "t = Inr (m, sha, raw)" and rb: "read_back w raw (env 4 h3) = Inr ()" by blast
      have dc: "delete_cold j m sha tombs s1 (env 4 h3) = (r, s', h2)"
        using p q rb by (simp add: publish_and_delete_def t t')
      obtain i k cur' g where pub: "publish x w j hlc i (env k) s1 base cur' g = (Inr (m, sha, raw), h3)" "R h1 g"
        using R_publish_retry(2) [OF t env t'] by blast
      obtain floors prev snap obj g1 where P: "sealed_snapshot x w j hlc i s1 base (fst cur') = Inr (floors, prev, snap, obj, sha)"
        "hub_PutSnapshotObject w (cj_now j) sha obj g = Inr g1"
        "SignRetentionManifest w (new_manifest j hlc (sn_workspace snap) floors sha prev) (cj_priv j) = Inr m"
        "raw = marshal_manifest m" "h3 = (env k g1)\<lparr>fh_retention := Some raw\<rparr>"
        by (rule publish_ok [OF pub(1)])
      have "R (env k g1) h3" unfolding P(5) by (rule R_retention)
      then have after: "R g1 (env 4 h3)" using R_trans env by blast
      have "held_snapshot sha (env 4 h3) \<noteq> None"
        using kept_held [OF R_files [OF after]] put_snapshot_held(3) [OF P(2)] by fastforce
      moreover have "fh_retention (env 4 h3) = Some raw"
        using rb by (auto simp: read_back_def hub_GetRetention_def fail_def split: option.splits if_split_asm)
      moreover have "\<forall>pub priv. key_pair w pub priv \<and> cj_priv j = key_text priv \<longrightarrow>
          VerifyRetentionManifest w m (key_text pub) = Inr ()"
        using signed_new_manifest(4) [OF P(3)] by blast
      ultimately have "confirmed w j m sha (env 4 h3)"
        using signed_new_manifest(1-3) [OF P(3)] P(4) by (simp only: confirmed_def) simp
      then show ?thesis
        using deleting [OF _ l4 _ dc q(3) collect_tombs_devices [OF c] R_trans [OF l1 pub(2)]] P(2) after \<open>\<not> (dryRun \<or> _)\<close>
        by blast
    qed
  qed
qed

end


subsection \<open>What a finished pass leaves on the hub\<close>

text \<open>C5: a compaction that succeeds leaves on the hub what a device below the floors needs: its own
  manifest, with the floors it reports, whose signature verifies under the public half of the job's
  signing key, and the snapshot that manifest names, which neither the cleanup nor the pruning took away
  and whose bytes hash to its name. Other clients may do anything between its steps to the log, the
  blobs, the acknowledgements and the lock, and they may replace the manifest up to the read-back; they
  are relied on to remove or change no snapshot object and to put none under a name that is not its
  hash (and none stands so at the start), and to leave the manifest alone at the last step, while the
  lock is released.\<close>

theorem finished_compaction_is_recoverable:
  assumes "hubCompact x w j nonce env False s h = (Inr r, s', h')"
    and "\<And>i g. keeps_snapshots w g (env i g)" and "\<And>g. fh_retention (env 8 g) = fh_retention g" and "honest_snapshots w h"
  shows "\<exists>m body. fh_retention h' = Some (marshal_manifest m) \<and> mf_floors m = Some (cr_floors r) \<and>
     mf_produced_by m = dv_id (cj_self j) \<and> sl_sha (mf_snapshot m) = cr_sha r \<and>
     (\<forall>pub priv. key_pair w pub priv \<and> cj_priv j = key_text priv \<longrightarrow>
        VerifyRetentionManifest w m (key_text pub) = Inr ()) \<and>
     held_snapshot (cr_sha r) h' = Some body \<and> contentETag w body = cr_sha r"
  using assms(1,2)
proof (cases rule: keeps_snaps.reaches_deletion)
  case (deleting m sha tombs s1 g h2 body g0)
  note D = delete_cold_effect [OF deleting(4) refl]
  have rel: "keeps_snapshots w h2 h'" unfolding deleting(5) by (rule keeps_snaps.R_release [OF assms(2)])
  obtain b where b: "held_snapshot sha g = Some b" using deleting(3) by (auto simp: confirmed_def)
  have "honest_snapshots w g" using deleting(2) assms(4) by (simp add: keeps_snapshots_def)
  then have hash: "contentETag w b = sha" using b by (simp add: honest_snapshots_def)
  have h': "held_snapshot sha h' = Some b" using kept_held [OF keeps_snaps.R_files [OF rel]] D(2) b by simp
  have "fh_retention h' = fh_retention g"
    using D(1) assms(3) by (auto simp: deleting(5) release_def hub_DeleteSweepLock_def split: sum.split)
  then show ?thesis
    using D(4) [OF refl] deleting(3) h' hash by (auto simp: confirmed_def)
qed simp_all

subsection \<open>An undisturbed pass succeeds\<close>

definition quiet :: "nat \<Rightarrow> file_hub \<Rightarrow> file_hub" where "quiet i = calm"

lemma quiet_simps [simp]: "quiet i h = h"
  by (simp add: quiet_def calm_def)

lemma digest_key:
  assumes "digest32 w"
  shows "validateBlobKey (hex_enc (w_sha w x)) = Inr ()"
proof -
  have "\<not> has_separator (hex_enc s)" for s
    using hex_enc_lower [of s] by (auto simp: has_separator_def list_ex_iff list_all_iff lower_hex_def)
  then show ?thesis using assms by (simp add: validateBlobKey_def digest32_def)
qed

text \<open>The object a job makes of a snapshot, and the manifest that names it.\<close>

definition job_object :: "crypto \<Rightarrow> world \<Rightarrow> compact_job \<Rightarrow> snapshot \<Rightarrow> string" where
  "job_object x w j snap = marshal_snap_envelope (sealed_carrier x w (cj_nonces j 0) snap (cj_wck j) (cj_epoch j))"

definition job_ready :: "world \<Rightarrow> compact_job \<Rightarrow> string \<Rightarrow> string \<Rightarrow> bool" where
  "job_ready w j pub priv \<longleftrightarrow> cj_min_events j \<le> 0 \<and> \<not> cj_gc j \<and> cj_faults j = no_faults \<and> cj_epoch j \<noteq> 0 \<and> int64 (cj_epoch j) \<and>
     length (cj_wck j) = wckSize \<and> cj_kid j = KIDForWCK w (cj_wck j) \<and> length (cj_nonces j 0) = nonceSize \<and>
     key_pair w pub priv \<and> cj_priv j = key_text priv \<and> ascii_str (dv_id (cj_self j))"

definition floors_sound :: "(string \<times> int) list \<Rightarrow> bool" where
  "floors_sound fl \<longleftrightarrow> canonical fl \<and> (\<forall>(d, n) \<in> set fl. d \<noteq> [] \<and> ascii_str d \<and> 0 \<le> n \<and> n \<le> 2 ^ 63 - 1)"

lemma new_manifest_simps [simp]:
  "mf_produced_by (new_manifest j hlc ws fl sha prev) = dv_id (cj_self j)"
  "mf_floors (new_manifest j hlc ws fl sha prev) = Some fl" "mf_min_reader (new_manifest j hlc ws fl sha prev) = 0"
  "mf_snapshot (new_manifest j hlc ws fl sha prev) =
     \<lparr>sl_epoch = cj_epoch j, sl_hlc = hlc, sl_kid = cj_kid j, sl_produced_by = dv_id (cj_self j), sl_sha = sha\<rparr>"
  by (simp_all add: new_manifest_def)

lemma signed_ascii:
  assumes "key_pair w pub priv" and "SignRetentionManifest w m0 (key_text priv) = Inr (m0\<lparr>mf_v := snapshotVersion, mf_sig := sg\<rparr>)"
  shows "ascii_str sg"
proof -
  have "Sign w (key_text priv) RetentionSignatureDomain (RetentionSignaturePayload (m0\<lparr>mf_v := snapshotVersion\<rparr>)) = Inr sg"
    using assms(2)
    by (auto simp: SignRetentionManifest_def Let_def relabel_def split: sum.splits) (drule arg_cong [where f = mf_sig], simp)
  then have "sg = key_text (w_sign w priv (domainSeparatedMessage RetentionSignatureDomain (RetentionSignaturePayload (m0\<lparr>mf_v := snapshotVersion\<rparr>))))"
    by (simp add: Sign_key_pair [OF assms(1)])
  then show ?thesis by (simp add: key_text_def ed_prefix_def is_ascii_def)
qed

lemma quiet_publish:
  assumes job: "job_ready w j pub priv" and rec: "reconcileCompactFloors w s (cj_self j) base (fst cur) = Inr (fl, prev)"
    and b: "BuildSnapshot w (dv_id (cj_self j)) hlc fl s = Inr snap" and w: "digest32 w"
    and cur: "read_retention w l h = Inr cur"
    and sha: "sha = hex_enc (w_sha w (job_object x w j snap))"
    and new: "pred_option (\<lambda>c. c = job_object x w j snap) (held_snapshot sha h)"
    and m: "m0 = new_manifest j hlc (sn_workspace snap) fl sha prev"
  shows "\<exists>h' sg. publish_retry x w j hlc quiet s base cur h =
      (Inr (m0\<lparr>mf_v := snapshotVersion, mf_sig := sg\<rparr>, sha, marshal_manifest (m0\<lparr>mf_v := snapshotVersion, mf_sig := sg\<rparr>)), h') \<and>
     held_snapshot sha h' = Some (job_object x w j snap) \<and> fh_log h' = fh_log h \<and> fh_lock h' = fh_lock h \<and>
     fh_retention h' = Some (marshal_manifest (m0\<lparr>mf_v := snapshotVersion, mf_sig := sg\<rparr>)) \<and> ascii_str sg \<and>
     VerifyRetentionManifest w (m0\<lparr>mf_v := snapshotVersion, mf_sig := sg\<rparr>) (key_text pub) = Inr ()"
proof -
  have J: "length (cj_wck j) = wckSize" "key_pair w pub priv" "cj_priv j = key_text priv" using job by (simp_all add: job_ready_def)
  have "SealSnapshot x w (cj_nonces j 0) snap (cj_wck j) (cj_epoch j) = Inr (job_object x w j snap, sha)"
    using J(1) by (simp add: SealSnapshot_Inr job_object_def sha)
  then have sealed: "sealed_snapshot x w j hlc 0 s base (fst cur) = Inr (fl, prev, snap, job_object x w j snap, sha)"
    by (simp add: sealed_snapshot_def rec b)
  have "\<exists>h1. hub_PutSnapshotObject w (cj_now j) sha (job_object x w j snap) h = Inr h1 \<and> fh_log h1 = fh_log h \<and> fh_lock h1 = fh_lock h"
    using digest_key [OF w, of "job_object x w j snap"]
    by (cases "file_bytes (json_file sha) (fh_snapshots h)") (simp_all add: hub_PutSnapshotObject_def contentETag_def sha)
  then obtain h1 where put: "hub_PutSnapshotObject w (cj_now j) sha (job_object x w j snap) h = Inr h1" "fh_log h1 = fh_log h"
    "fh_lock h1 = fh_lock h" by blast
  have held: "held_snapshot sha h1 = Some (job_object x w j snap)" "fh_retention h1 = fh_retention h"
    using put_snapshot_held [OF put(1)] new by (cases "held_snapshot sha h"; auto)+
  have "mf_min_reader m0 \<le> snapshotVersion" by (simp add: m new_manifest_def snapshotVersion_def)
  then obtain sg where sg: "SignRetentionManifest w m0 (cj_priv j) = Inr (m0\<lparr>mf_v := snapshotVersion, mf_sig := sg\<rparr>)"
    "VerifyRetentionManifest w (m0\<lparr>mf_v := snapshotVersion, mf_sig := sg\<rparr>) (key_text pub) = Inr ()"
    using manifest_sign_verify [OF J(2)] J(3) by metis
  have asc: "ascii_str sg" using signed_ascii [OF J(2)] sg(1) unfolding J(3) .
  let ?m = "m0\<lparr>mf_v := snapshotVersion, mf_sig := sg\<rparr>"
  have etag: "contentETag w y \<noteq> []" for y
  proof -
    have "length (contentETag w y) = 64" using w by (simp add: contentETag_def digest32_def)
    then show ?thesis by auto
  qed
  have "hub_PutRetention w (marshal_manifest ?m) (snd cur) h1 = Inr (h1\<lparr>fh_retention := Some (marshal_manifest ?m)\<rparr>)"
    using cur etag held(2)
    by (auto simp: read_retention_def hub_GetRetention_def hub_PutRetention_def fail_def split: option.splits if_split_asm)
  then have "publish_retry x w j hlc quiet s base cur h =
      (Inr (?m, sha, marshal_manifest ?m), h1\<lparr>fh_retention := Some (marshal_manifest ?m)\<rparr>)"
    using put(1) sg(1) by (simp add: publish_retry_def publish_def sealed m)
  then show ?thesis using put(2,3) held(1) sg(2) asc by (intro exI) (auto simp: held_snapshot_def)
qed

lemma advance_own_runs: "\<exists>s'. advance_own no_faults hubID fs s = (None, s')"
  by (induction fs arbitrary: s) (auto simp: no_faults_def)

lemma delete_cold_runs:
  assumes "hub_read h = Inr log" and "cj_faults j = no_faults"
  shows "\<exists>r s' h'. delete_cold j m sha tombs s h = (Inr r, s', h')"
proof -
  let ?fl = "or_else (mf_floors m) []"
  have "\<exists>p. hub_CompactEventsBelow ?fl h = Inr p"
    using assms by (auto simp: hub_CompactEventsBelow_def drop_events_def Let_def)
  then obtain n h1 where c: "hub_CompactEventsBelow ?fl h = Inr (n, h1)" by (metis surj_pair)
  obtain s1 where a: "advance_own no_faults (cj_hub j) ?fl s = (None, s1)" using advance_own_runs by blast
  obtain k h2 where k: "cleanupRevokedStreams no_faults s1 ?fl h1 = Inr (k, h2)"
    by (cases "foldl (cleanup_stream ?fl) (0, h1) (ListDevices s1)") (simp add: cleanupRevokedStreams_def no_faults_def)
  obtain q h3 where q: "pruneSnapshotObjects no_faults sha (max 1 (cj_keep j)) h2 = Inr (q, h3)"
    by (cases "pruneSnapshotObjects no_faults sha (max 1 (cj_keep j)) h2")
      (auto simp: pruneSnapshotObjects_def no_faults_def Let_def)
  show ?thesis using q by (simp add: delete_cold_def c assms(2) a k Let_def)
qed

lemma quiet_compaction:
  assumes job: "job_ready w j pub priv" and rec: "reconcileCompactFloors w s (cj_self j) base (fst cur) = Inr (fl, prev)"
    and b: "BuildSnapshot w (dv_id (cj_self j)) hlc fl s = Inr snap" and w: "digest32 w"
    and cur: "read_retention w ''read retention manifest: '' h = Inr cur"
    and sha: "sha = hex_enc (w_sha w (job_object x w j snap))"
    and new: "pred_option (\<lambda>c. c = job_object x w j snap) (held_snapshot sha h)"
    and m: "m0 = new_manifest j hlc (sn_workspace snap) fl sha prev"
    and dev: "currentDevice s = Inr d" and hlc: "CurrentHLC s = Inr hlc" and free: "fh_lock h = None" and log: "hub_read h = Inr log"
    and base: "computeCompactFloors (cj_hub j) (dv_id (cj_self j)) s = Inr base"
  shows "\<exists>r s' h' sg. hubCompact x w j nonce quiet False s h = (Inr r, s', h') \<and> cr_floors r = fl \<and>
     held_snapshot sha h' = Some (job_object x w j snap) \<and>
     fh_retention h' = Some (marshal_manifest (m0\<lparr>mf_v := snapshotVersion, mf_sig := sg\<rparr>)) \<and> ascii_str sg \<and>
     VerifyRetentionManifest w (m0\<lparr>mf_v := snapshotVersion, mf_sig := sg\<rparr>) (key_text pub) = Inr ()"
proof -
  have J: "\<not> cj_gc j" "cj_min_events j \<le> 0" "cj_epoch j \<noteq> 0" "cj_wck j \<noteq> []" using job by (auto simp: job_ready_def wckSize_def)
  let ?body = "lock_body (dv_id d) hlc defaultSweepLockTTL nonce"
  let ?h1 = "h\<lparr>fh_lock := Some (?body, cj_now j)\<rparr>"
  have q: "quiet i = calm" for i by (simp add: quiet_def)
  have lock: "hubSweepLock w (cj_now j) defaultSweepLockTTL nonce (quiet 5) (quiet 6) (quiet 7) s h = (Inr ?body, ?h1)"
    by (simp add: hubSweepLock_def dev hlc q acquire_free [OF free] defaultSweepLockTTL_def second_ns_def)
  have cur1: "read_retention w ''read retention manifest: '' ?h1 = Inr cur"
    using cur by (simp add: read_retention_def hub_GetRetention_def)
  have new1: "pred_option (\<lambda>c. c = job_object x w j snap) (held_snapshot sha ?h1)"
    using new by (simp add: held_snapshot_def)
  obtain h2 sg where p: "publish_retry x w j hlc quiet s base cur ?h1 =
      (Inr (m0\<lparr>mf_v := snapshotVersion, mf_sig := sg\<rparr>, sha, marshal_manifest (m0\<lparr>mf_v := snapshotVersion, mf_sig := sg\<rparr>)), h2)"
    "held_snapshot sha h2 = Some (job_object x w j snap)" "fh_log h2 = fh_log ?h1"
    "fh_retention h2 = Some (marshal_manifest (m0\<lparr>mf_v := snapshotVersion, mf_sig := sg\<rparr>))" "ascii_str sg"
    "VerifyRetentionManifest w (m0\<lparr>mf_v := snapshotVersion, mf_sig := sg\<rparr>) (key_text pub) = Inr ()"
    using quiet_publish [OF job rec b w cur1 sha new1 m] by blast
  let ?m = "m0\<lparr>mf_v := snapshotVersion, mf_sig := sg\<rparr>"
  have "hub_read h2 = Inr log" using p(3) log by (simp add: hub_read_def)
  moreover have "cj_faults j = no_faults" using job by (simp add: job_ready_def)
  ultimately obtain r s' h3 where dc: "delete_cold j ?m sha 0 s h2 = (Inr r, s', h3)" using delete_cold_runs by blast
  have "read_back w (marshal_manifest ?m) h2 = Inr ()" by (simp add: read_back_def hub_GetRetention_def p(4))
  then have "publish_and_delete x w j hlc quiet base cur 0 s ?h1 = (Inr r, s', h3)"
    by (simp add: publish_and_delete_def p(1) dc)
  then have "destructive_pass x w j nonce hlc quiet base cur (0, False, []) s h = (Inr r, s', release ?body (quiet 8) h3)"
    using J by (simp add: destructive_pass_def lock collect_tombs_def)
  then have run: "hubCompact x w j nonce quiet False s h = (Inr r, s', release ?body (quiet 8) h3)"
    using J by (simp add: hubCompact_def base cur rec hlc Let_def)
  have rel: "fh_retention (release ?body (quiet 8) h3) = fh_retention h3" "held_snapshot sha (release ?body (quiet 8) h3) = held_snapshot sha h3"
    by (simp_all add: release_def hub_DeleteSweepLock_def held_snapshot_def split: sum.split)
  have "mf_floors ?m = Some fl" by (simp add: m new_manifest_def)
  then show ?thesis using run rel p(2,4-6) delete_cold_effect(1,2) [OF dc refl] delete_cold_effect(4) [OF dc refl refl]
    by (intro exI [of _ r] exI [of _ s'] exI) auto
qed

subsection \<open>A concrete pass\<close>

definition desk_pub :: string where "desk_pub = key_text (replicate 32 CHR ''k'')"
definition desk_priv :: string where "desk_priv = key_text (replicate 64 CHR ''k'')"

definition desk :: device where "desk = sample_device ''a'' trust_local desk_pub None"

text \<open>A store that has pushed two events of its own, and a job for it.\<close>

definition desk_store :: store where
  "desk_store = export_store\<lparr>st_devices := [desk, sample_device ''x'' trust_revoked ''k'' (Some 7)],
     st_hub_seqs := [\<lparr>hq_hub = push_id ''h'', hq_dev = ''a'', hq_seq = 2\<rparr>]\<rparr>"

definition desk_job :: compact_job where
  "desk_job = \<lparr>cj_self = desk, cj_hub = ''h'', cj_epoch = 1, cj_kid = KIDForWCK digest_world sample_wck, cj_wck = sample_wck,
     cj_nonces = (\<lambda>i. sample_nonce), cj_priv = desk_priv, cj_now = 5, cj_keep = 2, cj_min_events = 0, cj_gc = False,
     cj_faults = no_faults\<rparr>"

definition desk_snap :: snapshot where
  "desk_snap = \<lparr>sn_v = 0, sn_workspace = ''ws'', sn_produced_by = ''a'', sn_hlc = 0, sn_epoch = 0,
     sn_kid = [], sn_floor = Some [(''a'', 3)], sn_anchors = [], sn_entries = SnapshotEntries desk_store,
     sn_tombs = SnapshotTombstones desk_store, sn_trust = SnapshotTrust desk_store\<rparr>"

lemma desk_ready: "job_ready digest_world desk_job (replicate 32 CHR ''k'') (replicate 64 CHR ''k'')"
  by (simp add: job_ready_def desk_job_def desk_priv_def desk_def digest_key_pair int64_def sample_wck_def sample_nonce_def
      wckSize_def nonceSize_def is_ascii_def)

lemma desk_reads:
  "currentDevice desk_store = Inr desk" "CurrentHLC desk_store = Inr 0"
  "computeCompactFloors ''h'' ''a'' desk_store = Inr [(''a'', 3)]"
  "BuildSnapshot digest_world ''a'' 0 [(''a'', 3)] desk_store = Inr desk_snap"
  "st_workspace desk_store = ''ws''"
proof -
  show c: "currentDevice desk_store = Inr desk" by (simp add: currentDevice_def desk_store_def desk_def)
  show "CurrentHLC desk_store = Inr 0"
    by (simp add: CurrentHLC_def c Let_def) (simp add: desk_store_def export_store_def sql_max_def)
  show "computeCompactFloors ''h'' ''a'' desk_store = Inr [(''a'', 3)]"
    by (simp add: computeCompactFloors_def PushSeqCursor_def c Let_def)
      (simp add: desk_store_def desk_def HubDeviceCursors_def seq_at_def push_id_def int64_def)
  show "BuildSnapshot digest_world ''a'' 0 [(''a'', 3)] desk_store = Inr desk_snap"
    by (simp add: BuildSnapshot_def ChainAnchorsForFloors_def anchor_for_def desk_snap_def int64_def)
      (simp add: desk_store_def export_store_def)
  show "st_workspace desk_store = ''ws''" by (simp add: desk_store_def export_store_def)
qed

lemma desk_reconcile: "reconcileCompactFloors digest_world desk_store desk [(''a'', 3)] [] = Inr ([(''a'', 3)], [])"
  by (simp add: reconcileCompactFloors_def)

lemma desk_hub:
  "read_retention digest_world l empty_hub = Inr ([], [])" "held_snapshot key empty_hub = None" "fh_lock empty_hub = None"
  "hub_read empty_hub = Inr []" "honest_snapshots digest_world empty_hub"
  by (simp_all add: read_retention_def hub_GetRetention_def fail_def empty_hub_def held_snapshot_def file_bytes_def hub_read_def
      honest_snapshots_def)

lemma desk_compacts:
  "\<exists>r s' h' sg. hubCompact x digest_world desk_job nonce quiet False desk_store empty_hub = (Inr r, s', h') \<and> cr_floors r = [(''a'', 3)] \<and>
     held_snapshot (hex_enc (w_sha digest_world (job_object x digest_world desk_job desk_snap))) h' =
       Some (job_object x digest_world desk_job desk_snap) \<and>
     fh_retention h' = Some (marshal_manifest ((new_manifest desk_job 0 ''ws'' [(''a'', 3)]
        (hex_enc (w_sha digest_world (job_object x digest_world desk_job desk_snap))) [])\<lparr>mf_v := snapshotVersion, mf_sig := sg\<rparr>)) \<and>
     ascii_str sg \<and> VerifyRetentionManifest digest_world ((new_manifest desk_job 0 ''ws'' [(''a'', 3)]
        (hex_enc (w_sha digest_world (job_object x digest_world desk_job desk_snap))) [])\<lparr>mf_v := snapshotVersion, mf_sig := sg\<rparr>) desk_pub = Inr ()"
proof -
  have self: "cj_self desk_job = desk" "dv_id desk = ''a''" "cj_hub desk_job = ''h''" by (simp_all add: desk_job_def desk_def)
  have ws: "sn_workspace desk_snap = ''ws''" by (simp add: desk_snap_def)
  show ?thesis
    using quiet_compaction [where j = desk_job and s = desk_store and h = empty_hub and base = "[(''a'', 3)]" and cur = "([], [])" and
        fl = "[(''a'', 3)]" and prev = "[]" and hlc = 0 and snap = desk_snap and d = desk and log = "[]" and x = x and nonce = nonce,
        OF desk_ready, unfolded self, OF _ desk_reads(4) digest_world32 desk_hub(1) refl _ refl desk_reads(1,2) desk_hub(3,4) desk_reads(3)]
    by (auto simp: desk_reconcile desk_hub(2) ws desk_pub_def)
qed

theorem finished_compaction_is_recoverable_witness:
  "\<exists>r s' h' m. hubCompact (plain_crypto []) digest_world desk_job ''n'' quiet False desk_store empty_hub = (Inr r, s', h') \<and>
     fh_retention h' = Some (marshal_manifest m) \<and> mf_floors m = Some [(''a'', 3)] \<and>
     VerifyRetentionManifest digest_world m desk_pub = Inr () \<and> held_snapshot (cr_sha r) h' \<noteq> None"
proof -
  obtain r s' h' where c: "hubCompact (plain_crypto []) digest_world desk_job ''n'' quiet False desk_store empty_hub = (Inr r, s', h')"
    "cr_floors r = [(''a'', 3)]" using desk_compacts by blast
  have k: "key_pair digest_world (replicate 32 CHR ''k'') (replicate 64 CHR ''k'')" "cj_priv desk_job = key_text (replicate 64 CHR ''k'')"
    by (simp_all add: digest_key_pair desk_job_def desk_priv_def)
  show ?thesis
    using finished_compaction_is_recoverable [OF c(1) _ _ desk_hub(5)] c k
    by (fastforce simp: keeps_snaps.R_refl desk_pub_def)
qed


definition standing_manifest :: manifest where
  "standing_manifest = new_manifest desk_job 0 ''ws'' [(''a'', 2), (''b'', 2)] ''s'' []"

theorem floors_never_fall_witness:
  "\<exists>raw fl prev. raw \<noteq> [] \<and> reconcileCompactFloors digest_world desk_store desk [(''a'', 3)] raw = Inr (fl, prev) \<and>
     map_of fl ''a'' = Some 3 \<and> (\<exists>n. map_of fl ''b'' = Some n \<and> 2 \<le> n)"
proof -
  have "mf_min_reader standing_manifest \<le> snapshotVersion" by (simp add: standing_manifest_def snapshotVersion_def)
  then obtain sg where sg: "SignRetentionManifest digest_world standing_manifest (key_text (replicate 64 CHR ''k'')) =
      Inr (standing_manifest\<lparr>mf_v := snapshotVersion, mf_sig := sg\<rparr>)"
    "VerifyRetentionManifest digest_world (standing_manifest\<lparr>mf_v := snapshotVersion, mf_sig := sg\<rparr>) desk_pub = Inr ()"
    using manifest_sign_verify [OF digest_key_pair] unfolding desk_pub_def by blast
  let ?m = "standing_manifest\<lparr>mf_v := snapshotVersion, mf_sig := sg\<rparr>"
  have "ascii_str sg" using signed_ascii [OF digest_key_pair sg(1)] .
  then have "manifest_fits ?m"
    by (simp add: manifest_fits_def standing_manifest_def new_manifest_def link_fits_def floors_fit_def canonical_def snapshotVersion_def
        int64_def desk_job_def desk_def KIDForWCK_def is_ascii_def)
  then have parse: "ParseRetentionManifest digest_world (marshal_manifest ?m) = Inr ?m"
    unfolding ParseRetentionManifest_def decode_marshal_manifest option.case
    by (simp add: decode_marshal_manifest retentionManifestVersionOK_def minReadableRetentionManifestVersion_def snapshotVersion_def
        standing_manifest_def new_manifest_def check_floors_def)
  have raw: "marshal_manifest ?m \<noteq> []" by (simp add: marshal_manifest_def marshal_obj_def)
  have key: "producer_key desk_store desk ?m = Inr desk_pub"
    by (simp add: producer_key_def standing_manifest_def desk_job_def desk_def desk_pub_def key_text_def ed_prefix_def)
  have fl: "mf_floors ?m = Some [(''a'', 2), (''b'', 2)]" by (simp add: standing_manifest_def)
  obtain fl prev where r: "reconcileCompactFloors digest_world desk_store desk [(''a'', 3)] (marshal_manifest ?m) = Inr (fl, prev)"
    using raw unfolding reconcileCompactFloors_def parse by (simp add: key sg(2) fl)
  show ?thesis using floors_never_fall [OF r raw] r raw parse fl by auto
qed

end
