(* ===== verification/Recovery.thy ===== *)
theory Recovery
  imports Compact_Claims Snapshot_Claims Encrypted_Hub
begin

section \<open>Recovery by snapshot\<close>

text \<open>
  \<^verbatim>\<open>src/internal/cli/snapshot_recovery.go\<close>: what a device does when the retention floors of a hub
  have passed its cursors. The pull of the tail is the hub's, an argument here; the transfer of the
  blobs the imported pointers name is its outcome, the number that were missing. The messages to the
  user are left out.
\<close>

definition floorsEqual :: "(string \<times> int) list \<Rightarrow> (string \<times> int) list \<Rightarrow> bool" where
  "floorsEqual a b \<longleftrightarrow> length a = length b \<and> list_all (\<lambda>(dev, seq). or_else (map_of b dev) 0 = seq) a"

definition wckCandidates :: "keyring \<Rightarrow> int \<Rightarrow> string \<Rightarrow> string list" where
  "wckCandidates k epoch kid = (if kid \<noteq> [] then WCKCandidates epoch kid k else []) @ WCKCandidates epoch [] k"

text \<open>Steps 1 and 2: the manifest, and who signed it.\<close>

definition refusal :: "string \<Rightarrow> 'a res" where
  "refusal m = Inl (Err [KExitInvalidConfig, KSnapshotVerification] m)"

definition fetch_manifest :: "world \<Rightarrow> store \<Rightarrow> file_hub \<Rightarrow> manifest res" where
  "fetch_manifest w s h =
     (case hub_GetRetention w h of
        Inl e \<Rightarrow> if err_is e KRetentionNotFound
          then Inl (Err [KExitNetwork] ''hub demands a snapshot but has no retention manifest'')
          else Inl (Err (KExitNetwork # err_kinds e) (''read retention manifest: '' @ err_msg e))
      | Inr (raw, _) \<Rightarrow>
         (case ParseRetentionManifest w raw of
            Inl e \<Rightarrow> Inl (Err (KExitNetwork # err_kinds e) (''parse retention manifest: '' @ err_msg e))
          | Inr m \<Rightarrow>
             (case ApprovedDeviceSigningKey (mf_produced_by m) s of
                None \<Rightarrow> refusal (''snapshot producer '' @ mf_produced_by m @ '' is not a locally approved device'')
              | Some pub \<Rightarrow>
                 (case VerifyRetentionManifest w m pub of
                    Inl e \<Rightarrow> Inl (Err (KExitInvalidConfig # err_kinds e) (err_msg e))
                  | Inr _ \<Rightarrow>
                      if sl_produced_by (mf_snapshot m) \<noteq> mf_produced_by m
                      then refusal (''manifest signed by '' @ mf_produced_by m @ '' names a snapshot produced by '' @ sl_produced_by (mf_snapshot m))
                      else Inr m))))"

text \<open>Steps 3 and 4: the floors a cached one may raise, and the cursor of the tail.\<close>

definition effective_floors :: "(string \<times> int) list \<Rightarrow> (string \<times> int) list \<Rightarrow> (string \<times> int) list" where
  "effective_floors floors verified = foldl raise_floor floors verified"

definition raise_cursor :: "transport_cursor \<Rightarrow> string \<times> int \<Rightarrow> transport_cursor" where
  "raise_cursor c f = (if wrap64 (snd f - 1) > After c (fst f) then AList.update (fst f) (wrap64 (snd f - 1)) c else c)"

definition tail_cursor :: "string \<Rightarrow> manifest \<Rightarrow> store \<Rightarrow> transport_cursor" where
  "tail_cursor hubID m s = foldl raise_cursor (HubDeviceCursors hubID s)
     (effective_floors (or_else (mf_floors m) []) (LoadRetentionFloorCache hubID s))"

text \<open>Step 5: the object, its envelope, and the keys it may open under.\<close>

definition fetch_object :: "world \<Rightarrow> manifest \<Rightarrow> file_hub \<Rightarrow> (string \<times> snap_envelope) res" where
  "fetch_object w m h = (let l = mf_snapshot m in
     case hub_GetSnapshotObject (sl_sha l) h of
       Inl e \<Rightarrow> Inl (Err (KExitNetwork # err_kinds e) (''fetch snapshot object: '' @ err_msg e))
     | Inr obj \<Rightarrow>
         if hex_enc (w_sha w obj) \<noteq> sl_sha l
         then refusal (''snapshot object sha256 '' @ hex_enc (w_sha w obj) @ '' does not match manifest '' @ sl_sha l)
         else case ParseSnapshotEnvelope w obj of
           Inl e \<Rightarrow> Inl (Err (KExitInvalidConfig # err_kinds e) (err_msg e))
         | Inr v \<Rightarrow>
             if vn_produced_by v \<noteq> sl_produced_by l \<or> vn_epoch v \<noteq> sl_epoch l \<or> vn_kid v \<noteq> sl_kid l \<or> vn_hlc v \<noteq> sl_hlc l
             then refusal ''snapshot envelope disagrees with the signed manifest''
             else Inr (obj, v))"

fun first_unseal :: "crypto \<Rightarrow> world \<Rightarrow> string \<Rightarrow> string list \<Rightarrow> snapshot option" where
  "first_unseal x w obj [] = None"
| "first_unseal x w obj (wck # rest) =
     (case UnsealSnapshot x w obj wck of Inr s \<Rightarrow> Some s | Inl _ \<Rightarrow> first_unseal x w obj rest)"

text \<open>Step 6: the sealed document against the workspace, its envelope and the signed floors.\<close>

definition check_document :: "string \<Rightarrow> snap_envelope \<Rightarrow> manifest \<Rightarrow> snapshot \<Rightarrow> unit res" where
  "check_document ws v m snap =
     (if sn_workspace snap \<noteq> ws
      then refusal (''snapshot workspace '' @ sn_workspace snap @ '' does not match local workspace '' @ ws)
      else if sn_produced_by snap \<noteq> vn_produced_by v \<or> sn_hlc snap \<noteq> vn_hlc v \<or> sn_epoch snap \<noteq> vn_epoch v \<or> sn_kid snap \<noteq> vn_kid v
      then refusal ''sealed snapshot document identity disagrees with its envelope''
      else if \<not> floorsEqual (snapshot_floor snap) (or_else (mf_floors m) [])
      then refusal ''snapshot floors disagree with the signed manifest floors''
      else Inr ())"

definition pointer_refs :: "snapshot \<Rightarrow> string list" where
  "pointer_refs snap = concat (map (\<lambda>e.
     (case se_draft e of Some d \<Rightarrow> if sd_blob d \<noteq> [] then [sd_blob d] else [] | None \<Rightarrow> []) @
     (case se_env e of Some v \<Rightarrow> if sv_blob v \<noteq> [] then [sv_blob v] else [] | None \<Rightarrow> [])) (sn_entries snap))"

definition open_document :: "crypto \<Rightarrow> world \<Rightarrow> manifest \<Rightarrow> string \<Rightarrow> snap_envelope \<Rightarrow> keyring \<Rightarrow> snapshot option res" where
  "open_document x w m obj v k = (let candidates = wckCandidates k (vn_epoch v) (vn_kid v) in
     if candidates = [] then Inr None
     else case first_unseal x w obj candidates of
       None \<Rightarrow> refusal (''snapshot object failed to open under every held key at epoch '' @ show_int (vn_epoch v))
     | Some snap \<Rightarrow> bindr (check_document (st_workspace (kr_store k)) v m snap) (\<lambda>_. Inr (Some snap)))"

definition import_document :: "world \<Rightarrow> string \<Rightarrow> (string list \<Rightarrow> nat res) \<Rightarrow> manifest \<Rightarrow> snapshot \<Rightarrow> bool kr" where
  "import_document w hubID blobs m snap k =
     (case ImportSnapshot w snap (sl_sha (mf_snapshot m)) hubID (kr_store k) of
        (Inl e, s) \<Rightarrow> (Inl (Err (err_kinds e) (''import snapshot: '' @ err_msg e)), k\<lparr>kr_store := s\<rparr>)
      | (Inr _, s) \<Rightarrow>
          (case blobs (pointer_refs snap) of
             Inl e \<Rightarrow> (Inl (Err (KExitNetwork # err_kinds e) (''pull imported draft/env blobs: '' @ err_msg e)), k\<lparr>kr_store := s\<rparr>)
           | Inr missing \<Rightarrow> (Inr True, k\<lparr>kr_store := s\<rparr>)))"

definition recoverFromSnapshot :: "crypto \<Rightarrow> world \<Rightarrow> string \<Rightarrow> (transport_cursor \<Rightarrow> file_hub \<Rightarrow> unit kr) \<Rightarrow>
    (string list \<Rightarrow> nat res) \<Rightarrow> file_hub \<Rightarrow> bool kr" where
  "recoverFromSnapshot x w hubID pull blobs h k =
     (case fetch_manifest w (kr_store k) h of
        Inl e \<Rightarrow> (Inl e, k)
      | Inr m \<Rightarrow>
         (case pull (tail_cursor hubID m (kr_store k)) h k of
            (Inl e, k1) \<Rightarrow> (Inl (if err_is e KSnapshotRequired
                then Err [KExitNetwork] ''retention floor moved during recovery''
                else Err (KExitNetwork # err_kinds e) (''pull snapshot tail: '' @ err_msg e)), k1)
          | (Inr _, k1) \<Rightarrow>
             (case fetch_object w m h of
                Inl e \<Rightarrow> (Inl e, k1)
              | Inr (obj, v) \<Rightarrow>
                 (case relabelk ''recover: prime keyring: '' (Prime x w) k1 of
                    (Inl e, k2) \<Rightarrow> (Inl e, k2)
                  | (Inr _, k2) \<Rightarrow>
                     (case open_document x w m obj v k2 of
                        Inl e \<Rightarrow> (Inl e, k2)
                      | Inr None \<Rightarrow> (Inr False, k2)
                      | Inr (Some snap) \<Rightarrow> import_document w hubID blobs m snap k2)))))"

subsection \<open>What a device imports\<close>

lemma first_unseal_mem: "first_unseal x w obj cs = Some snap \<Longrightarrow> \<exists>wck \<in> set cs. UnsealSnapshot x w obj wck = Inr snap"
  by (induction cs) (auto split: sum.splits)

lemma fetch_manifest_Inr:
  assumes "fetch_manifest w s h = Inr m"
  shows "\<exists>pub. ApprovedDeviceSigningKey (mf_produced_by m) s = Some pub \<and> VerifyRetentionManifest w m pub = Inr () \<and>
     sl_produced_by (mf_snapshot m) = mf_produced_by m"
proof -
  obtain raw t where "hub_GetRetention w h = Inr (raw, t)" "ParseRetentionManifest w raw = Inr m"
    and p: "(case ApprovedDeviceSigningKey (mf_produced_by m) s of None \<Rightarrow> refusal (''snapshot producer '' @ mf_produced_by m @ '' is not a locally approved device'')
              | Some pub \<Rightarrow>
                 (case VerifyRetentionManifest w m pub of
                    Inl e \<Rightarrow> Inl (Err (KExitInvalidConfig # err_kinds e) (err_msg e))
                  | Inr _ \<Rightarrow>
                      if sl_produced_by (mf_snapshot m) \<noteq> mf_produced_by m
                      then refusal (''manifest signed by '' @ mf_produced_by m @ '' names a snapshot produced by '' @ sl_produced_by (mf_snapshot m))
                      else Inr m)) = Inr m"
    using assms by (auto simp: fetch_manifest_def refusal_def split: sum.splits option.splits if_split_asm)
  then show ?thesis by (auto simp: refusal_def split: option.splits sum.splits if_split_asm)
qed

text \<open>C6: a device only imports what a device it trusts has signed and sealed: if recovery reports an
  import, then the manifest on the hub verifies under the signing key of a device this one has
  approved, the object has the digest the manifest names, it opened under a workspace key this
  device holds, the document belongs to this workspace and to that producer, and the namespace, the
  trust states and the cursors are those the import of that document makes of this device's store.\<close>

theorem recovery_imports_only_signed_state:
  assumes "recoverFromSnapshot x w hubID pull blobs h k = (Inr True, k')"
  shows "\<exists>m pub obj wck snap k1 k2. ApprovedDeviceSigningKey (mf_produced_by m) (kr_store k) = Some pub \<and>
     VerifyRetentionManifest w m pub = Inr () \<and> contentETag w obj = sl_sha (mf_snapshot m) \<and>
     pull (tail_cursor hubID m (kr_store k)) h k = (Inr (), k1) \<and> Prime x w k1 = (Inr (), k2) \<and>
     wck \<in> set (wckCandidates k2 (sl_epoch (mf_snapshot m)) (sl_kid (mf_snapshot m))) \<and>
     UnsealSnapshot x w obj wck = Inr snap \<and> sn_workspace snap = st_workspace (kr_store k2) \<and>
     sn_produced_by snap = mf_produced_by m \<and> sn_hlc snap = sl_hlc (mf_snapshot m) \<and>
     ImportSnapshot w snap (sl_sha (mf_snapshot m)) hubID (kr_store k2) = (Inr (), kr_store k')"
proof -
  obtain m where m: "fetch_manifest w (kr_store k) h = Inr m"
    using assms by (cases "fetch_manifest w (kr_store k) h") (auto simp: recoverFromSnapshot_def)
  obtain r k1 where r: "pull (tail_cursor hubID m (kr_store k)) h k = (r, k1)" by fastforce
  have k1: "pull (tail_cursor hubID m (kr_store k)) h k = (Inr (), k1)"
    using assms by (cases r) (auto simp: recoverFromSnapshot_def m r)
  obtain obj v where obj: "fetch_object w m h = Inr (obj, v)"
    using assms by (cases "fetch_object w m h") (auto simp: recoverFromSnapshot_def m k1)
  obtain p k2 where p: "Prime x w k1 = (p, k2)" by fastforce
  have k2: "Prime x w k1 = (Inr (), k2)"
    using assms by (cases p) (auto simp: recoverFromSnapshot_def m k1 obj p relabelk_def relabel_def)
  have rest: "(case open_document x w m obj v k2 of
      Inl e \<Rightarrow> (Inl e, k2) | Inr None \<Rightarrow> (Inr False, k2) | Inr (Some snap) \<Rightarrow> import_document w hubID blobs m snap k2) = (Inr True, k')"
    using assms by (simp add: recoverFromSnapshot_def m k1 obj k2 relabelk_def relabel_def)
  then obtain snap where snap: "open_document x w m obj v k2 = Inr (Some snap)" "import_document w hubID blobs m snap k2 = (Inr True, k')"
    by (auto split: sum.splits option.splits)
  have f: "first_unseal x w obj (wckCandidates k2 (vn_epoch v) (vn_kid v)) = Some snap"
    "check_document (st_workspace (kr_store k2)) v m snap = Inr ()"
    using snap(1) by (auto simp: open_document_def Let_def refusal_def split: if_split_asm option.splits)
  obtain wck where wck: "wck \<in> set (wckCandidates k2 (vn_epoch v) (vn_kid v))" "UnsealSnapshot x w obj wck = Inr snap"
    using first_unseal_mem [OF f(1)] by blast
  have v: "contentETag w obj = sl_sha (mf_snapshot m)" "vn_produced_by v = sl_produced_by (mf_snapshot m)"
    "vn_epoch v = sl_epoch (mf_snapshot m)" "vn_kid v = sl_kid (mf_snapshot m)" "vn_hlc v = sl_hlc (mf_snapshot m)"
    using obj by (auto simp: fetch_object_def Let_def refusal_def contentETag_def split: sum.splits if_split_asm)
  have d: "sn_workspace snap = st_workspace (kr_store k2)" "sn_produced_by snap = vn_produced_by v" "sn_hlc snap = vn_hlc v"
    using f(2) by (auto simp: check_document_def refusal_def split: if_split_asm)
  have "ImportSnapshot w snap (sl_sha (mf_snapshot m)) hubID (kr_store k2) = (Inr (), kr_store k')"
    using snap(2) by (auto simp: import_document_def split: prod.splits sum.splits)
  then show ?thesis using fetch_manifest_Inr [OF m] k1 k2 wck v d by metis
qed

text \<open>The comparison of the floors of the sealed document with the floors of the signed manifest
  is equality of the two maps when every floor is positive. (It is not in general: a device with a
  floor of zero on one side and any other device on the other side compare equal.)\<close>

theorem floors_equal_when_positive:
  assumes "distinct (map fst a)" and "distinct (map fst b)" and "\<forall>(d, n) \<in> set a. 0 < n"
  shows "floorsEqual a b \<longleftrightarrow> map_of a = map_of b"
proof
  assume f: "floorsEqual a b"
  have ab: "map_of b d = Some n" if "(d, n) \<in> set a" for d n
  proof -
    have "or_else (map_of b d) 0 = n" "0 < n" using f assms(3) that by (auto simp: floorsEqual_def list_all_iff)
    then show ?thesis by (cases "map_of b d") auto
  qed
  then have sub: "set a \<subseteq> set b" by (auto dest: map_of_SomeD)
  have "card (set a) = card (set b)"
    using f assms(1,2) by (simp add: floorsEqual_def distinct_card distinct_zipI1 distinct_map distinct_card)
  then have "set a = set b" using sub by (simp add: card_subset_eq)
  then show "map_of a = map_of b" using assms(1,2) by (simp add: map_of_inject_set)
next
  assume m: "map_of a = map_of b"
  then have "set a = set b" using assms(1,2) by (simp add: map_of_inject_set)
  then have "length a = length b" using assms(1,2) by (metis distinct_card distinct_map)
  then show "floorsEqual a b"
    using assms(1) by (auto simp: floorsEqual_def list_all_iff m [symmetric] or_else_def)
qed

theorem floors_equal_when_positive_witness:
  "floorsEqual [(''a'', 3), (''b'', 1)] [(''b'', 1), (''a'', 3)] \<longleftrightarrow>
     map_of [(''a'', 3), (''b'', 1)] = map_of [(''b'', 1), (''a'', 3::int)]"
  by (rule floors_equal_when_positive) simp_all

lemma floors_equal_on_zero: "floorsEqual [(''a'', 0)] [(''b'', 5)]"
  by (simp add: floorsEqual_def)

subsection \<open>From compaction to recovery\<close>

lemma same_import:
  "ImportSnapshot w (stamped_snapshot w2 wck epoch snap) sha hub s = ImportSnapshot w snap sha hub s"
proof -
  have f: "snapshot_floor (stamped_snapshot w2 wck epoch snap) = snapshot_floor snap" by (simp add: snapshot_floor_def)
  show ?thesis unfolding ImportSnapshot_def import_tx_def f stamped_simps ..
qed

lemma canonical_distinct: "canonical m \<Longrightarrow> distinct (map fst m)"
  by (auto simp: canonical_def strict_sorted_iff)

lemma floorsEqual_refl: "distinct (map fst a) \<Longrightarrow> floorsEqual a a"
  by (auto simp: floorsEqual_def list_all_iff)

text \<open>One run of recovery against the manifest and the object of an undisturbed pass.\<close>

lemma recover_runs:
  assumes job: "job_ready w j pub priv" and b: "BuildSnapshot w (dv_id (cj_self j)) hlc fl sA = Inr snap" and w: "digest32 w"
    and sha: "sha = hex_enc (w_sha w (job_object x w j snap))" and m0: "m0 = new_manifest j hlc (sn_workspace snap) fl sha prev"
    and hub: "held_snapshot sha h = Some (job_object x w j snap)"
      "fh_retention h = Some (marshal_manifest (m0\<lparr>mf_v := snapshotVersion, mf_sig := sg\<rparr>))" "ascii_str sg"
      "VerifyRetentionManifest w (m0\<lparr>mf_v := snapshotVersion, mf_sig := sg\<rparr>) (key_text pub) = Inr ()"
    and fits: "snapshot_fits snap" "ascii_str prev" "floors_sound fl" and x: "aead_sound x"
    and B: "st_workspace (kr_store k) = st_workspace sA" "ApprovedDeviceSigningKey (dv_id (cj_self j)) (kr_store k) = Some (key_text pub)"
    and keys: "Prime x w k = (Inr (), k)" "wckCandidates k (cj_epoch j) (cj_kid j) = cj_wck j # others"
    and tail: "\<And>after g. pull after g k = (Inr (), k)" and blobs: "\<And>refs. blobs refs = Inr n"
    and imp: "ImportSnapshot w snap sha hubID (kr_store k) = (Inr (), s1)"
  shows "recoverFromSnapshot x w hubID pull blobs h k = (Inr True, k\<lparr>kr_store := s1\<rparr>)"
proof -
  let ?obj = "job_object x w j snap"
  let ?m = "m0\<lparr>mf_v := snapshotVersion, mf_sig := sg\<rparr>"
  have J: "length (cj_wck j) = wckSize" "cj_kid j = KIDForWCK w (cj_wck j)" "length (cj_nonces j 0) = nonceSize"
    "int64 (cj_epoch j)" "ascii_str (dv_id (cj_self j))" "cj_epoch j \<noteq> 0"
    using job by (simp_all add: job_ready_def)
  have sn: "sn_hlc snap = hlc" "sn_produced_by snap = dv_id (cj_self j)" "sn_workspace snap = st_workspace sA" "sn_floor snap = Some fl"
    using b by (auto simp: BuildSnapshot_def)
  have F: "int64 hlc" "ascii_str (sn_workspace snap)" using fits(1) sn(1) by (simp_all add: snapshot_fits_def)
  have fl: "canonical fl" "\<forall>(q, n) \<in> set fl. q \<noteq> [] \<and> ascii_str q \<and> 0 \<le> n \<and> n \<le> 2 ^ 63 - 1"
    using fits(3) by (simp_all add: floors_sound_def)
  have "manifest_fits ?m"
    using F J fits(2) hub(3) fl
    by (fastforce simp: manifest_fits_def m0 sha new_manifest_def link_fits_def floors_fit_def snapshotVersion_def int64_def KIDForWCK_def)
  then have dec: "decode_manifest (marshal_manifest ?m) = Some ?m" by (rule decode_marshal_manifest)
  have "find (\<lambda>(q, n). q = [] \<or> n < 0) fl = None" using fl(2) by (fastforce simp: find_None_iff)
  then have parse: "ParseRetentionManifest w (marshal_manifest ?m) = Inr ?m"
    unfolding ParseRetentionManifest_def dec option.case
    by (simp add: retentionManifestVersionOK_def minReadableRetentionManifestVersion_def snapshotVersion_def check_floors_def m0)
  have get: "hub_GetRetention w h = Inr (marshal_manifest ?m, contentETag w (marshal_manifest ?m))"
    by (simp add: hub_GetRetention_def hub(2))
  have m_sel: "mf_produced_by m0 = dv_id (cj_self j)" "mf_floors m0 = Some fl"
    "mf_snapshot m0 = \<lparr>sl_epoch = cj_epoch j, sl_hlc = hlc, sl_kid = cj_kid j, sl_produced_by = dv_id (cj_self j), sl_sha = sha\<rparr>"
    by (simp_all add: m0)
  have fetch: "fetch_manifest w (kr_store k) h = Inr ?m"
    unfolding fetch_manifest_def get by (simp add: parse hub(4) B(2) m_sel)
  let ?v = "sealed_carrier x w (cj_nonces j 0) snap (cj_wck j) (cj_epoch j)"
  have env: "ParseSnapshotEnvelope w ?obj = Inr ?v"
    using carrier_decodes [OF fits(1) J(4)] by (simp add: ParseSnapshotEnvelope_def job_object_def sealed_carrier_def)
  have "hub_GetSnapshotObject sha h = Inr ?obj"
    using digest_key [OF w, of ?obj] hub(1) by (simp add: hub_GetSnapshotObject_def held_snapshot_def sha)
  then have obj: "fetch_object w ?m h = Inr (?obj, ?v)"
    using env by (simp add: fetch_object_def sealed_carrier_def sn J(2) Let_def m_sel sha)
  let ?s = "stamped_snapshot w (cj_wck j) (cj_epoch j) snap"
  have unseal: "UnsealSnapshot x w ?obj (cj_wck j) = Inr ?s"
    by (rule open_carrier [OF x J(3,1) fits(1) J(4) env]) (simp_all add: sealed_carrier_def)
  have open_doc: "open_document x w ?m ?obj ?v k = Inr (Some ?s)"
    using keys(2) unseal floorsEqual_refl [OF canonical_distinct [OF fl(1)]]
    by (simp add: open_document_def sealed_carrier_def J(2) check_document_def sn B(1) snapshot_floor_def m_sel)
  have "import_document w hubID blobs ?m ?s k = (Inr True, k\<lparr>kr_store := s1\<rparr>)"
    by (simp add: import_document_def same_import imp blobs m_sel)
  then show ?thesis
    by (simp add: recoverFromSnapshot_def fetch tail obj keys(1) open_doc relabelk_def relabel_def)
qed

text \<open>C2: compaction and recovery fit together: after a compaction that nothing disturbs and that
  collects no tombstones, a device that has approved the compacting one and holds its workspace key
  recovers from the hub: on every path it ends with what the merge of the two stores makes
  (\<open>stored_join\<close>), which is the join of the two namespaces wherever it does not hold a newer
  tombstone than the compacting device, and the floors the compaction published let it through the
  retention gate. (The compacting store is \<open>exportable\<close>: repositories without env profiles. The
  recovering one has well-formed rows and no dirty checkout, its first key candidate is the key the
  snapshot was sealed with, its tail pull changes nothing and its blobs arrive. Texts are ASCII,
  numbers 64-bit, no clock, cursor or floor at the limit, the hub's log is readable and its lock
  free.)\<close>

theorem compaction_then_recovery:
  assumes job: "job_ready w j pub priv" and rec: "reconcileCompactFloors w sA (cj_self j) base (fst cur) = Inr (fl, prev)"
    and b: "BuildSnapshot w (dv_id (cj_self j)) hlc fl sA = Inr snap" and w: "digest32 w"
    and cur: "read_retention w ''read retention manifest: '' h = Inr cur"
    and new: "pred_option (\<lambda>c. c = job_object x w j snap) (held_snapshot (hex_enc (w_sha w (job_object x w j snap))) h)"
    and dev: "currentDevice sA = Inr d" and hlc: "CurrentHLC sA = Inr hlc" and free: "fh_lock h = None" and log: "hub_read h = Inr log"
    and base: "computeCompactFloors (cj_hub j) (dv_id (cj_self j)) sA = Inr base"
    and fits: "snapshot_fits snap" "ascii_str prev" "floors_sound fl" and x: "aead_sound x"
    and B: "merge_ready w (kr_store k)" "ids_sound w" "currentDevice (kr_store k) = Inr c" "exportable w sA"
      "st_workspace (kr_store k) = st_workspace sA"
      "ApprovedDeviceSigningKey (dv_id (cj_self j)) (kr_store k) = Some (key_text pub)"
      "\<forall>q \<in> set (st_hub_seqs (kr_store k)). hq_seq q < 2 ^ 63 - 1"
    and keys: "Prime x w k = (Inr (), k)" "wckCandidates k (cj_epoch j) (cj_kid j) = cj_wck j # others"
    and tail: "\<And>after g. pull after g k = (Inr (), k)" and blobs: "\<And>refs. blobs refs = Inr n"
  shows "\<exists>r sA' h' k'. hubCompact x w j nonce quiet False sA h = (Inr r, sA', h') \<and>
     recoverFromSnapshot x w hubID pull blobs h' k = (Inr True, k') \<and>
     (\<forall>p. store_view (kr_store k') p = stored_join (store_view (kr_store k) p) (store_view sA p) \<and>
        (\<not> undercuts (store_view (kr_store k) p) (store_view sA p) \<longrightarrow>
           store_view (kr_store k') p = vjoin (store_view (kr_store k) p) (store_view sA p))) \<and>
     \<not> snapshot_required (cr_floors r) (HubDeviceCursors hubID (kr_store k'))"
proof -
  let ?sha = "hex_enc (w_sha w (job_object x w j snap))"
  obtain r sA' h' sg where run: "hubCompact x w j nonce quiet False sA h = (Inr r, sA', h')" "cr_floors r = fl"
    "held_snapshot ?sha h' = Some (job_object x w j snap)"
    "fh_retention h' = Some (marshal_manifest ((new_manifest j hlc (sn_workspace snap) fl ?sha prev)\<lparr>mf_v := snapshotVersion, mf_sig := sg\<rparr>))"
    "ascii_str sg"
    "VerifyRetentionManifest w ((new_manifest j hlc (sn_workspace snap) fl ?sha prev)\<lparr>mf_v := snapshotVersion, mf_sig := sg\<rparr>) (key_text pub) = Inr ()"
    using quiet_compaction [OF job rec b w cur refl new refl dev hlc free log base] by blast
  obtain s1 where s1: "ImportSnapshot w snap ?sha hubID (kr_store k) = (Inr (), s1)"
    "\<forall>p. store_view s1 p = stored_join (store_view (kr_store k) p) (store_view sA p)"
    using exchange [OF B(1-4) b, of ?sha hubID] by blast
  have "snapshot_floor snap = fl" using b by (auto simp: BuildSnapshot_def snapshot_floor_def)
  then have gate: "\<not> snapshot_required fl (HubDeviceCursors hubID s1)"
    using import_passes_gate(1) [OF s1(1) _ B(7)] fits(3) by (force simp: floors_sound_def)
  have "recoverFromSnapshot x w hubID pull blobs h' k = (Inr True, k\<lparr>kr_store := s1\<rparr>)"
  proof (rule recover_runs [where sha = ?sha and sA = sA and hlc = hlc and fl = fl and prev = prev and sg = sg])
  qed (rule job b w refl run fits x B keys tail blobs s1)+
  then show ?thesis using run(1,2) s1(2) gate stored_join_vjoin by auto
qed

subsection \<open>A concrete recovery\<close>

definition laptop_store :: store where
  "laptop_store = device_store [sample_device ''me'' trust_local [] None, sample_device ''a'' trust_approved desk_pub None]"

definition laptop_ring :: keyring where
  "laptop_ring = \<lparr>kr_store = laptop_store, kr_secrets = empty_secrets CustodyKeychain None,
     kr_cache = [((1, KIDForWCK digest_world sample_wck), \<lparr>ck_wck = sample_wck, ck_origin = originGrant\<rparr>)],
     kr_resolved = Some (''ws'', ''age1a'', ''ID-a''), kr_draws = 0\<rparr>"

lemma laptop_keys:
  "Prime x w laptop_ring = (Inr (), laptop_ring)"
  "wckCandidates laptop_ring 1 (KIDForWCK digest_world sample_wck) = [sample_wck, sample_wck]"
proof -
  have "resolve x laptop_ring = (Inr (), laptop_ring)"
    by (simp add: resolve_def laptop_ring_def)
  moreover have "HeldKeys laptop_store = []"
    by (simp add: HeldKeys_def laptop_store_def empty_store_def)
  ultimately show "Prime x w laptop_ring = (Inr (), laptop_ring)"
    by (simp add: Prime_def bindk_def okk_def laptop_ring_def)
  show "wckCandidates laptop_ring 1 (KIDForWCK digest_world sample_wck) = [sample_wck, sample_wck]"
    using digest_world32 length_hex_enc [of "w_sha digest_world sample_wck"]
    by (auto simp: wckCandidates_def WCKCandidates_def laptop_ring_def cached_def KIDForWCK_def digest32_def
        simp del: length_hex_enc)
qed

lemma laptop_ready:
  "merge_ready digest_world laptop_store" "currentDevice laptop_store = Inr (sample_device ''me'' trust_local [] None)"
  "store_view laptop_store p = VNone" "st_workspace laptop_store = ''ws''"
  "ApprovedDeviceSigningKey ''a'' laptop_store = Some desk_pub" "st_hub_seqs laptop_store = []"
  by (simp_all add: merge_ready_def entries_ok_def uniq_def tombs_ok_def laptop_store_def currentDevice_def
      store_view_def ApprovedDeviceSigningKey_def desk_pub_def key_text_def ed_prefix_def empty_store_def)

lemma digest_ids: "ids_sound digest_world"
  using plain_world_ids [of 0] by (simp add: ids_sound_def digest_world_def)

lemma digest_app: "Clean digest_world ''app'' = Inr \<lparr>p_display = ''app'', p_key = ''app''\<rparr>"
  by code_simp

lemma desk_exportable: "exportable digest_world desk_store"
  by (simp add: exportable_def exportable_row_def desk_store_def export_store_def uniq_def tombs_ok_def desk_def
      sample_entry_def new_entry_def tombstone_params_def digest_app snapshotEnvForProject_def profile_of_def active_entry_def
      LatestDraftSnapshot_def)

lemma desk_fits: "snapshot_fits desk_snap" "floors_sound [(''a'', 3)]"
proof -
  note export = SnapshotEntries_def SnapshotTombstones_def SnapshotTrust_def desk_store_def export_store_def
  note rows = ListProjects_def snapshot_entry_def status_of_def sample_entry_def new_entry_def tombstone_params_def
    snapshotEnvForProject_def profile_of_def active_entry_def LatestDraftSnapshot_def entry_src_def
  have base: "filepathBaseSlash ''app'' = ''app''" by code_simp
  have "SnapshotEntries desk_store =
      [\<lparr>se_path = ''app'', se_key = ''app'', se_type = ''git_repo'', se_display = ''app'', se_policy = ''lazy'', se_status = ''active'',
        se_src = \<lparr>c_hlc = 5, c_dev = ''a'', c_id = ''e1''\<rparr>,
        se_git = Some \<lparr>sg_url = ''u'', sg_key = ''k'', sg_branch = ''main'', sg_clone = [], sg_sparse = [], sg_lfs = ''auto'', sg_forge = []\<rparr>,
        se_draft = None, se_env = None\<rparr>]"
    by (simp add: export rows Let_def base projectionStatusActive_def projectionStatusDeleted_def)
  then have "\<forall>e \<in> set (SnapshotEntries desk_store). entry_fits e"
    by (simp add: entry_fits_def git_fits_def coord_fits_def int64_def is_ascii_def)
  moreover have "\<forall>t \<in> set (SnapshotTombstones desk_store). tomb_fits t"
    by (simp add: export rows zero_coord_def nullEmpty_def tomb_fits_def is_ascii_def int64_def map_filter_simps)
  moreover have "\<forall>t \<in> set (SnapshotTrust desk_store). trust_fits t"
    by (simp add: export desk_def trust_revoked_def trust_local_def trust_lost_def trust_fits_def is_ascii_def int64_def)
  ultimately show "snapshot_fits desk_snap"
    by (simp add: snapshot_fits_def desk_snap_def floors_fit_def canonical_def int64_def is_ascii_def)
  show "floors_sound [(''a'', 3)]" by (simp add: floors_sound_def canonical_def is_ascii_def)
qed

lemma desk_views:
  "store_view desk_store ''app'' = VLive \<lparr>c_hlc = 5, c_dev = ''a'', c_id = ''e1''\<rparr>
     \<lparr>ct_path = ''app'', ct_type = ''git_repo'', ct_remote_url = ''u'', ct_remote_key = ''k'', ct_branch = ''main''\<rparr>"
  "store_view desk_store ''b'' = VDead 9"
  by (simp_all add: store_view_def entry_view_def desk_store_def export_store_def sample_entry_def new_entry_def tombstone_params_def)

lemma same_workspace: "st_workspace laptop_store = st_workspace desk_store"
  "ApprovedDeviceSigningKey ''a'' laptop_store = Some (key_text (replicate 32 CHR ''k''))"
  "\<forall>q \<in> set (st_hub_seqs laptop_store). hq_seq q < 2 ^ 63 - 1"
  using laptop_ready(4-6) desk_reads(5) by (simp_all add: desk_pub_def)

lemma desk_ws: "sn_workspace desk_snap = ''ws''" by (simp add: desk_snap_def)

theorem recovery_imports_only_signed_state_witness:
  "\<exists>r sA' h' k' m pub snap. hubCompact (plain_crypto []) digest_world desk_job ''n'' quiet False desk_store empty_hub = (Inr r, sA', h') \<and>
     recoverFromSnapshot (plain_crypto []) digest_world ''h'' (\<lambda>after g k. (Inr (), k)) (\<lambda>r. Inr 0) h' laptop_ring = (Inr True, k') \<and>
     ApprovedDeviceSigningKey (mf_produced_by m) laptop_store = Some pub \<and> VerifyRetentionManifest digest_world m pub = Inr () \<and>
     ImportSnapshot digest_world snap (sl_sha (mf_snapshot m)) ''h'' laptop_store = (Inr (), kr_store k')"
proof -
  let ?sha = "hex_enc (w_sha digest_world (job_object (plain_crypto []) digest_world desk_job desk_snap))"
  obtain r sA' h' sg where c: "hubCompact (plain_crypto []) digest_world desk_job ''n'' quiet False desk_store empty_hub = (Inr r, sA', h')"
    "held_snapshot ?sha h' = Some (job_object (plain_crypto []) digest_world desk_job desk_snap)"
    "fh_retention h' = Some (marshal_manifest ((new_manifest desk_job 0 (sn_workspace desk_snap) [(''a'', 3)] ?sha [])
       \<lparr>mf_v := snapshotVersion, mf_sig := sg\<rparr>))" "ascii_str sg"
    "VerifyRetentionManifest digest_world ((new_manifest desk_job 0 (sn_workspace desk_snap) [(''a'', 3)] ?sha [])
       \<lparr>mf_v := snapshotVersion, mf_sig := sg\<rparr>) desk_pub = Inr ()"
    using desk_compacts unfolding desk_ws by blast
  obtain s1 where s1: "ImportSnapshot digest_world desk_snap ?sha ''h'' laptop_store = (Inr (), s1)"
    using exchange [OF laptop_ready(1) digest_ids laptop_ready(2) desk_exportable desk_reads(4)] by blast
  have self: "cj_self desk_job = desk" "dv_id desk = ''a''" "cj_epoch desk_job = 1"
    "cj_kid desk_job = KIDForWCK digest_world sample_wck" "cj_wck desk_job = sample_wck" "kr_store laptop_ring = laptop_store"
    by (simp_all add: desk_job_def desk_def laptop_ring_def)
  have run: "recoverFromSnapshot (plain_crypto []) digest_world ''h'' (\<lambda>after g k. (Inr (), k)) (\<lambda>r. Inr 0) h' laptop_ring =
      (Inr True, laptop_ring\<lparr>kr_store := s1\<rparr>)"
  proof (rule recover_runs [where j = desk_job and k = laptop_ring and n = 0 and sha = ?sha and sA = desk_store and hlc = 0 and fl = "[(''a'', 3)]" and prev = "[]" and
        sg = sg and others = "[sample_wck]" and priv = "replicate 64 CHR ''k''", unfolded self])
  qed (rule desk_ready desk_reads(4) [folded self] desk_reads(4) digest_world32 refl c [unfolded desk_pub_def] desk_fits ascii_str_simps(1) plain_aead_sound same_workspace laptop_keys s1)+
  show ?thesis
    using recovery_imports_only_signed_state [OF run] c(1) run unfolding self(6) by (auto simp: laptop_keys(1) self(6))
qed

theorem compaction_then_recovery_witness:
  "\<exists>r sA' h' k'. hubCompact (plain_crypto []) digest_world desk_job ''n'' quiet False desk_store empty_hub = (Inr r, sA', h') \<and>
     recoverFromSnapshot (plain_crypto []) digest_world ''h'' (\<lambda>after g k. (Inr (), k)) (\<lambda>r. Inr 0) h' laptop_ring = (Inr True, k') \<and>
     store_view (kr_store k') ''app'' = VLive \<lparr>c_hlc = 5, c_dev = ''a'', c_id = ''e1''\<rparr>
       \<lparr>ct_path = ''app'', ct_type = ''git_repo'', ct_remote_url = ''u'', ct_remote_key = ''k'', ct_branch = ''main''\<rparr> \<and>
     store_view (kr_store k') ''b'' = VDead 9 \<and> \<not> snapshot_required (cr_floors r) (HubDeviceCursors ''h'' (kr_store k'))"
proof -
  have self: "cj_self desk_job = desk" "dv_id desk = ''a''" "cj_hub desk_job = ''h''" "cj_epoch desk_job = 1"
    "cj_kid desk_job = KIDForWCK digest_world sample_wck" "cj_wck desk_job = sample_wck" "kr_store laptop_ring = laptop_store"
    by (simp_all add: desk_job_def desk_def laptop_ring_def)
  have fresh: "pred_option (\<lambda>c. c = job_object (plain_crypto []) digest_world desk_job desk_snap)
      (held_snapshot (hex_enc (w_sha digest_world (job_object (plain_crypto []) digest_world desk_job desk_snap))) empty_hub)"
    by (simp add: desk_hub(2))
  note run = compaction_then_recovery [where j = desk_job and sA = desk_store and h = empty_hub and base = "[(''a'', 3)]" and
      cur = "([], [])" and fl = "[(''a'', 3)]" and prev = "[]" and hlc = 0 and snap = desk_snap and d = desk and log = "[]" and
      x = "plain_crypto []" and w = digest_world and nonce = "''n''" and k = laptop_ring and hubID = "''h''" and
      pull = "\<lambda>after g k. (Inr (), k)" and blobs = "\<lambda>r. Inr 0" and others = "[sample_wck]" and n = 0 and pub = "replicate 32 CHR ''k''" and
      priv = "replicate 64 CHR ''k''" and c = "sample_device ''me'' trust_local [] None", unfolded self fst_conv]
  have rec: "reconcileCompactFloors digest_world desk_store desk [(''a'', 3)] [] = Inr ([(''a'', 3)], [])" by (rule desk_reconcile)
  note run = run [OF desk_ready rec desk_reads(4) digest_world32 desk_hub(1) _ desk_reads(1,2) desk_hub(3,4) desk_reads(3) desk_fits(1) _
      desk_fits(2) plain_aead_sound laptop_ready(1) digest_ids laptop_ready(2) desk_exportable]
  obtain r sA' h' k' where "hubCompact (plain_crypto []) digest_world desk_job ''n'' quiet False desk_store empty_hub = (Inr r, sA', h')"
    "recoverFromSnapshot (plain_crypto []) digest_world ''h'' (\<lambda>after g k. (Inr (), k)) (\<lambda>r. Inr 0) h' laptop_ring = (Inr True, k')"
    "\<forall>p. store_view (kr_store k') p = stored_join (store_view laptop_store p) (store_view desk_store p)"
    "\<not> snapshot_required (cr_floors r) (HubDeviceCursors ''h'' (kr_store k'))"
    using run [OF fresh ascii_str_simps(1) same_workspace laptop_keys refl refl] by blast
  then show ?thesis by (fastforce simp: laptop_ready(3) desk_views)
qed

end
