(* ===== verification/Tombstone_Claims.thy ===== *)
theory Tombstone_Claims
  imports Compact_Claims
begin

section \<open>Collecting tombstones before a compaction\<close>

text \<open>
  What \<^verbatim>\<open>hub compact --gc-tombstones\<close> does to the snapshot that is published afterwards: the
  collected paths are missing from it, so that an importing device keeps whatever it holds there.
  That is harmless for a device that has seen the deletes; the plan, which only compares clocks,
  does not make sure of that.
\<close>

lemma delete_entries_repos:
  "st_repos (fold (\<lambda>e. delete_entry (ns_id e)) gone s) = filter (\<lambda>r. gr_ns r \<notin> ns_id ` set gone) (st_repos s)"
  by (induction gone arbitrary: s) (auto simp: tdel_def delete_entry_def intro!: filter_cong)

definition collectable :: "int \<Rightarrow> store \<Rightarrow> entry \<Rightarrow> bool" where
  "collectable g s e \<longleftrightarrow> purgeable g e \<and> ns_id e \<notin> wt_ns ` set (st_worktrees s)"

lemma collected_parts:
  assumes "GCTombstones g s = (n, s')" and "entries_ok w s"
  shows "st_entries s' = filter (\<lambda>e. \<not> collectable g s e) (st_entries s)"
    "\<exists>gone. st_repos s' = filter (\<lambda>r. gr_ns r \<notin> ns_id ` gone) (st_repos s) \<and> (\<forall>e \<in> gone. e \<in> set (st_entries s) \<and> collectable g s e)"
proof -
  show "st_entries s' = filter (\<lambda>e. \<not> collectable g s e) (st_entries s)"
    using gc_keeps_worktrees [OF assms] by (simp add: collectable_def)
  have "s' = fold (\<lambda>e. delete_entry (ns_id e)) (filter (collectable g s) (st_entries s)) s"
    using assms(1) by (auto simp: GCTombstones_def collectable_def [abs_def] Let_def)
  then have "st_repos s' = filter (\<lambda>r. gr_ns r \<notin> ns_id ` set (filter (collectable g s) (st_entries s))) (st_repos s)"
    by (simp only: delete_entries_repos)
  then show "\<exists>gone. st_repos s' = filter (\<lambda>r. gr_ns r \<notin> ns_id ` gone) (st_repos s) \<and>
      (\<forall>e \<in> gone. e \<in> set (st_entries s) \<and> collectable g s e)" by (intro exI conjI) auto
qed

lemma tget_filter_keep: "P k \<Longrightarrow> tget f k (filter (\<lambda>r. P (f r)) xs) = tget f k xs"
  by (induction xs) (auto simp: tget_def)

lemma tget_filter:
  assumes "uniq f xs"
  shows "tget f k (filter P xs) = (case tget f k xs of None \<Rightarrow> None | Some x \<Rightarrow> if P x then Some x else None)"
  using assms by (induction xs) (auto simp: uniq_def tget_None split: option.splits dest!: tget_SomeD)

text \<open>The register after the collection: the collected paths are empty, every other is as before.\<close>

lemma collected_view:
  assumes gc: "GCTombstones g s = (n, s')" and ok: "entries_ok w s"
  shows "store_view s' k = (case tget ns_key k (st_entries s) of
     None \<Rightarrow> VNone | Some e \<Rightarrow> if collectable g s e then VNone else store_view s k)"
proof (cases "tget ns_key k (st_entries s)")
  case None
  then show ?thesis
    by (simp add: store_view_def collected_parts(1) [OF gc ok] tget_filter [OF entries_okD(1) [OF ok]])
next
  case (Some e)
  obtain gone where r: "st_repos s' = filter (\<lambda>r. gr_ns r \<notin> ns_id ` gone) (st_repos s)"
    and gone: "\<forall>e \<in> gone. e \<in> set (st_entries s) \<and> collectable g s e"
    using collected_parts(2) [OF gc ok] by blast
  have "entry_view s' e = entry_view s e" if "\<not> collectable g s e"
  proof -
    have "ns_id e \<notin> ns_id ` gone"
      using gone that tget_SomeD [OF Some] entries_okD(2) [OF ok] by (auto simp: uniq_def distinct_map inj_on_def)
    then have "tget gr_ns (ns_id e) (st_repos s') = tget gr_ns (ns_id e) (st_repos s)"
      unfolding r by (rule tget_filter_keep)
    then show ?thesis by (simp add: entry_view_def)
  qed
  then show ?thesis
    using Some by (simp add: store_view_def collected_parts(1) [OF gc ok] tget_filter [OF entries_okD(1) [OF ok]])
qed

text \<open>C25: collecting tombstones before a compaction is invisible to every device that has consumed the
  deletes. If at each collected path the importing device holds a tombstone at least as new as the
  collected one, or a project newer than the delete, then importing the snapshot built after the
  collection leaves on each collected path the join of the two namespaces as they were before the
  collection, which is what the importer held; and on every other path the merge an uncollected snapshot
  would make (\<open>stored_join\<close>), the join wherever the importer does not hold the newer of two
  tombstones. (The store after the collection is \<open>exportable\<close>, so it holds repositories without
  env profiles; the importer's rows are well-formed and its checkouts clean.)\<close>

theorem collection_invisible_to_consumers:
  assumes gc: "GCTombstones g sA = (n, sA')" and ok: "entries_ok w sA"
    and B: "merge_ready w sB" "ids_sound w" "currentDevice sB = Inr c" "exportable w sA'"
      "BuildSnapshot w p hlc fl sA' = Inr snap"
    and consumed: "\<And>k e t. tget ns_key k (st_entries sA) = Some e \<Longrightarrow> collectable g sA e \<Longrightarrow> ns_tomb e = Some t \<Longrightarrow>
      (\<exists>u. store_view sB k = VDead u \<and> t \<le> u) \<or> (\<exists>d y. store_view sB k = VLive d y \<and> t < c_hlc d)"
  shows "\<exists>s1. ImportSnapshot w snap sha hub sB = (Inr (), s1) \<and>
     (\<forall>k. if \<exists>e. tget ns_key k (st_entries sA) = Some e \<and> collectable g sA e
        then store_view s1 k = vjoin (store_view sB k) (store_view sA k) \<and> store_view s1 k = store_view sB k
        else store_view s1 k = stored_join (store_view sB k) (store_view sA k) \<and>
          (\<not> undercuts (store_view sB k) (store_view sA k) \<longrightarrow>
             store_view s1 k = vjoin (store_view sB k) (store_view sA k)))"
proof -
  obtain s1 where s1: "ImportSnapshot w snap sha hub sB = (Inr (), s1)"
    "\<And>k. store_view s1 k = stored_join (store_view sB k) (store_view sA' k)"
    using exchange [OF B, of sha hub] by blast
  have gone: "store_view s1 k = vjoin (store_view sB k) (store_view sA k) \<and> store_view s1 k = store_view sB k"
    if e: "tget ns_key k (st_entries sA) = Some e" "collectable g sA e" for k e
  proof -
    obtain t where t: "ns_tomb e = Some t" "store_view sA k = VDead t"
      using e by (auto simp: collectable_def purgeable_def store_view_def entry_view_def status_distinct split: option.splits)
    show ?thesis
      using consumed [OF e t(1)] by (auto simp: s1(2) collected_view [OF gc ok] e t(2))
  qed
  have rest: "store_view s1 k = stored_join (store_view sB k) (store_view sA k)"
    if "\<not> (\<exists>e. tget ns_key k (st_entries sA) = Some e \<and> collectable g sA e)" for k
  proof -
    have "store_view sA' k = store_view sA k"
      using that by (auto simp: collected_view [OF gc ok] store_view_def [of sA] split: option.split)
    then show ?thesis by (simp add: s1(2))
  qed
  have "if \<exists>e. tget ns_key k (st_entries sA) = Some e \<and> collectable g sA e
        then store_view s1 k = vjoin (store_view sB k) (store_view sA k) \<and> store_view s1 k = store_view sB k
        else store_view s1 k = stored_join (store_view sB k) (store_view sA k) \<and>
          (\<not> undercuts (store_view sB k) (store_view sA k) \<longrightarrow>
             store_view s1 k = vjoin (store_view sB k) (store_view sA k))" for k
    using gone rest stored_join_vjoin by (auto simp del: not_ex)
  then show ?thesis using s1(1) by blast
qed

subsection \<open>The plan\<close>

text \<open>What the hub holds of the other devices: their acknowledgements, as far as they verify.\<close>

definition verified_acks :: "world \<Rightarrow> store \<Rightarrow> string \<Rightarrow> file_hub \<Rightarrow> (string \<times> ack) list" where
  "verified_acks w s self h = List.map_filter (verified_ack w s self) (hub_ListAcks h)"

definition waits_for :: "string \<Rightarrow> device \<Rightarrow> bool" where
  "waits_for self d \<longleftrightarrow> dv_id d \<noteq> self \<and> dv_trust d = trust_approved"

lemma min_watermark_spec:
  assumes "\<forall>d \<in> set ds. waits_for self d \<longrightarrow> (\<exists>a. map_of V (dv_id d) = Some a \<and> t < ak_hlc a)" and "t < m"
  shows "\<exists>g. min_watermark V self m ds = (g, True, []) \<and> t < g \<and> g \<le> m \<and>
    (\<forall>d \<in> set ds. \<forall>a. waits_for self d \<and> map_of V (dv_id d) = Some a \<longrightarrow> g \<le> ak_hlc a)"
  using assms
proof (induction ds arbitrary: m)
  case (Cons d ds)
  show ?case
  proof (cases "waits_for self d")
    case True
    then obtain a where a: "map_of V (dv_id d) = Some a" "t < ak_hlc a" using Cons.prems(1) by auto
    define m' where "m' = (if ak_hlc a < m then ak_hlc a else m)"
    have m': "t < m'" "m' \<le> m" "m' \<le> ak_hlc a" using a(2) Cons.prems(2) by (simp_all add: m'_def)
    have rest: "\<forall>d \<in> set ds. waits_for self d \<longrightarrow> (\<exists>a. map_of V (dv_id d) = Some a \<and> t < ak_hlc a)"
      using Cons.prems(1) by simp
    obtain g where g: "min_watermark V self m' ds = (g, True, [])" "t < g" "g \<le> m'"
      "\<forall>d \<in> set ds. \<forall>a. waits_for self d \<and> map_of V (dv_id d) = Some a \<longrightarrow> g \<le> ak_hlc a"
      using Cons.IH [OF rest m'(1)] by blast
    have "min_watermark V self m (d # ds) = (g, True, [])" using True a(1) g(1) by (simp add: waits_for_def m'_def)
    then show ?thesis using g(2-4) m' a(1) by auto
  next
    case False
    then have "min_watermark V self m (d # ds) = min_watermark V self m ds" by (auto simp: waits_for_def)
    then show ?thesis using Cons.IH [OF _ Cons.prems(2)] Cons.prems(1) False by auto
  qed
qed simp

text \<open>C26: the plan of the collection does not make sure that the deletes were consumed: it reads the
  clocks of the signed acknowledgements and not their cursors. Whenever this device's clock and the
  clock in the verified acknowledgement of every other approved device are beyond a tombstone, whatever
  those acknowledgements say their devices have consumed, the plan succeeds with a bound above the
  tombstone (and at most each of those clocks), and the collection under that bound takes the
  tombstone. A device that had acknowledged in this way before it consumed the delete, and holds the
  project at an HLC not above it, then keeps the project when it imports the snapshot built after the
  collection, where the join of the two namespaces, and so every device that took part in time, has
  the tombstone. (The collected store is \<open>exportable\<close>, no worktree hangs on the deleted row, the
  importer's rows are well-formed and its checkouts clean.)\<close>

theorem tombstone_gc_forgets_delete:
  assumes clock: "CurrentHLC sA = Inr now" "t < now"
    and acks: "\<forall>d \<in> set (st_devices sA). waits_for self d \<longrightarrow>
      (\<exists>a. map_of (verified_acks w sA self h) (dv_id d) = Some a \<and> t < ak_hlc a)"
    and ok: "entries_ok w sA"
    and dead: "tget ns_key k (st_entries sA) = Some e" "ns_status e = projectionStatusDeleted" "ns_tomb e = Some t"
      "ns_id e \<notin> wt_ns ` set (st_worktrees sA)"
    and B: "merge_ready w sB" "ids_sound w" "currentDevice sB = Inr c"
    and laggard: "store_view sB k = VLive d y" "c_hlc d \<le> t"
  shows "\<exists>g. planTombstoneGC w sA h self = Inr (g, True, []) \<and> t < g \<and> g \<le> now \<and>
     (\<forall>d \<in> set (st_devices sA). \<forall>a. waits_for self d \<and> map_of (verified_acks w sA self h) (dv_id d) = Some a \<longrightarrow>
        g \<le> ak_hlc a) \<and>
     (\<forall>n sA' snap. GCTombstones g sA = (n, sA') \<and> exportable w sA' \<and> BuildSnapshot w p hlc fl sA' = Inr snap \<longrightarrow>
        (\<exists>s1. ImportSnapshot w snap sha hub sB = (Inr (), s1) \<and> store_view s1 k = VLive d y)) \<and>
     vjoin (store_view sB k) (store_view sA k) = VDead t"
proof -
  have devs: "set (ListDevices sA) = set (st_devices sA)" by (simp add: ListDevices_def)
  obtain g where g: "min_watermark (verified_acks w sA self h) self now (ListDevices sA) = (g, True, [])" "t < g" "g \<le> now"
    "\<forall>d \<in> set (st_devices sA). \<forall>a. waits_for self d \<and> map_of (verified_acks w sA self h) (dv_id d) = Some a \<longrightarrow> g \<le> ak_hlc a"
    using min_watermark_spec [of "ListDevices sA" self "verified_acks w sA self h" t now] acks clock(2) by (auto simp: devs)
  have plan: "planTombstoneGC w sA h self = Inr (g, True, [])"
    using g(1) clock(1) by (simp add: planTombstoneGC_def verified_acks_def)
  have coll: "collectable g sA e" using dead(2-4) g(2) by (simp add: collectable_def purgeable_def)
  have join: "vjoin (store_view sB k) (store_view sA k) = VDead t"
    using dead laggard by (simp add: store_view_def [of sA] entry_view_def status_distinct)
  have keeps: "\<exists>s1. ImportSnapshot w snap sha hub sB = (Inr (), s1) \<and> store_view s1 k = VLive d y"
    if s: "GCTombstones g sA = (n, sA')" "exportable w sA'" "BuildSnapshot w p hlc fl sA' = Inr snap" for n sA' snap
  proof -
    obtain s1 where "ImportSnapshot w snap sha hub sB = (Inr (), s1)"
      "\<forall>k. store_view s1 k = stored_join (store_view sB k) (store_view sA' k)"
      using exchange [OF B s(2,3), of sha hub] by blast
    then show ?thesis using laggard(1) by (auto simp: collected_view [OF s(1) ok] dead(1) coll)
  qed
  show ?thesis using plan g(2-4) keeps join by blast
qed

subsection \<open>A device that acknowledged too early\<close>

definition office_store :: store where
  "office_store = (sample_store [(sample_entry ''q'' ''b'')\<lparr>ns_status := projectionStatusDeleted, ns_tomb := Some 9\<rparr>])
     \<lparr>st_devices := [desk, sample_device ''b'' trust_approved desk_pub None],
      st_clocks := [\<lparr>cl_dev = ''a'', cl_hlc = 20, cl_seq = 2\<rparr>]\<rparr>"

definition office_after :: store where "office_after = snd (GCTombstones 20 office_store)"

definition office_snap :: snapshot where
  "office_snap = \<lparr>sn_v = 0, sn_workspace = ''ws'', sn_produced_by = ''a'', sn_hlc = 20, sn_epoch = 0, sn_kid = [], sn_floor = Some [],
     sn_anchors = [], sn_entries = [], sn_tombs = [], sn_trust = []\<rparr>"

definition home_store :: "entry \<Rightarrow> store" where
  "home_store e = (sample_store [e])\<lparr>st_devices := [sample_device ''b'' trust_local [] None]\<rparr>"

text \<open>The acknowledgement of the other device: its clock is at 20, and it has consumed nothing.\<close>

definition early_ack :: ack where
  "early_ack = ack_zero\<lparr>ak_device := ''b'', ak_workspace := ''ws'', ak_cursor := Some [], ak_hlc := 20, ak_produced := 20\<rparr>"

definition office_hub :: "string \<Rightarrow> file_hub" where
  "office_hub raw = empty_hub\<lparr>fh_acks := [\<lparr>df_name = ''b.json'', df_bytes = raw, df_mtime = 0\<rparr>]\<rparr>"

lemma early_ack_signed:
  "\<exists>m. SignAckMarker digest_world early_ack desk_priv = Inr m \<and> VerifyAckMarker digest_world m desk_pub = Inr () \<and>
     ak_cursor m = Some [] \<and> ak_device m = ''b'' \<and> ak_workspace m = ''ws'' \<and> ak_hlc m = 20 \<and>
     ParseAckMarker digest_world (marshal_ack m) = Inr m"
proof -
  obtain m where m: "SignAckMarker digest_world early_ack desk_priv = Inr m" "VerifyAckMarker digest_world m desk_pub = Inr ()"
    "m = early_ack\<lparr>ak_v := ackVersion, ak_sig := ak_sig m\<rparr>"
    using ack_sign_roundtrip [OF digest_key_pair] unfolding desk_priv_def desk_pub_def by blast
  obtain payload where "Sign digest_world desk_priv AckSignatureDomain payload = Inr (ak_sig m)"
    using m(1) by (auto simp: SignAckMarker_def Let_def split: sum.splits)
  then have "ascii_str (ak_sig m)"
    unfolding desk_priv_def Sign_key_pair [OF digest_key_pair] by (auto simp: key_text_def ed_prefix_def is_ascii_def dest!: sym [of _ "ak_sig m"])
  then have "ack_fits (early_ack\<lparr>ak_v := ackVersion, ak_sig := ak_sig m\<rparr>)"
    by (simp add: ack_fits_def early_ack_def ack_zero_def ackVersion_def ackVersionV2_def floors_fit_def canonical_def int64_def is_ascii_def)
  then have "ParseAckMarker digest_world (marshal_ack m) = Inr m"
    using m(3) parse_marshal_ack by metis
  moreover have "ak_cursor m = Some []" "ak_device m = ''b''" "ak_workspace m = ''ws''" "ak_hlc m = 20"
    by (subst m(3), simp add: early_ack_def)+
  ultimately show ?thesis using m(1,2) by blast
qed

lemma office_acks:
  assumes "VerifyAckMarker digest_world m desk_pub = Inr ()" "ak_device m = ''b''" "ak_workspace m = ''ws''" "ak_hlc m = 20"
    "ParseAckMarker digest_world (marshal_ack m) = Inr m"
  shows "CurrentHLC office_store = Inr 20"
    "verified_acks digest_world office_store ''a'' (office_hub (marshal_ack m)) = [(''b'', m)]"
    "\<forall>d \<in> set (st_devices office_store). waits_for ''a'' d \<longrightarrow> dv_id d = ''b''"
    "\<exists>d \<in> set (st_devices office_store). waits_for ''a'' d"
proof -
  have "hub_validateDeviceID ''b'' = Inr ()" "has_suffix ''b.json'' ''.json''" "trim_suffix ''b.json'' ''.json'' = ''b''"
    by code_simp+
  then have l: "hub_ListAcks (office_hub raw) = [(''b'', raw)]" for raw
    by (simp add: hub_ListAcks_def office_hub_def listing_def map_filter_simps)
  show "CurrentHLC office_store = Inr 20"
    by (simp add: CurrentHLC_def currentDevice_def office_store_def desk_def sql_max_def trust_local_def trust_approved_def)
  have "verified_ack digest_world office_store ''a'' (''b'', marshal_ack m) = Some (''b'', m)"
    using assms by (simp add: verified_ack_def ApprovedDeviceSigningKey_def office_store_def desk_def desk_pub_def key_text_def ed_prefix_def)
  then show "verified_acks digest_world office_store ''a'' (office_hub (marshal_ack m)) = [(''b'', m)]"
    by (simp add: verified_acks_def l map_filter_simps)
  show "\<forall>d \<in> set (st_devices office_store). waits_for ''a'' d \<longrightarrow> dv_id d = ''b''"
    "\<exists>d \<in> set (st_devices office_store). waits_for ''a'' d"
    by (simp_all add: office_store_def waits_for_def desk_def trust_local_def trust_approved_def)
qed

lemma office_collects:
  "GCTombstones 20 office_store = (1, office_after)" "st_entries office_after = []" "st_repos office_after = []"
  "st_devices office_after = st_devices office_store" "st_anchors office_after = []" "st_events office_after = []" "st_workspace office_after = ''ws''"
  by (simp_all add: office_after_def GCTombstones_def office_store_def purgeable_def delete_entry_def tdel_def Let_def)

lemma office_facts:
  "entries_ok digest_world office_store" "exportable digest_world office_after"
  "BuildSnapshot digest_world ''a'' 20 [] office_after = Inr office_snap"
proof -
  show "entries_ok digest_world office_store"
    by (simp add: entries_ok_def office_store_def uniq_def digest_world_def plain_world_def)
  show "exportable digest_world office_after"
    by (simp add: exportable_def office_collects tombs_ok_def) (simp add: office_store_def desk_def)
  show "BuildSnapshot digest_world ''a'' 20 [] office_after = Inr office_snap"
    by (simp add: BuildSnapshot_def ChainAnchorsForFloors_def office_snap_def office_collects SnapshotEntries_def ListProjects_def
        SnapshotTombstones_def SnapshotTrust_def map_filter_simps)
      (simp add: office_store_def desk_def trust_local_def trust_approved_def trust_revoked_def trust_lost_def)
qed

lemma home_facts:
  assumes "ns_id e = ''q''" and "ns_status e = projectionStatusActive \<or> ns_status e = projectionStatusDeleted \<and> ns_tomb e \<noteq> None"
  shows "merge_ready digest_world (home_store e)" "currentDevice (home_store e) = Inr (sample_device ''b'' trust_local [] None)"
  using assms by (simp_all add: merge_ready_def entries_ok_def uniq_def tombs_ok_def home_store_def currentDevice_def digest_world_def plain_world_def)

lemma digest_sound: "ids_sound digest_world"
  using plain_world_ids [of 0] by (simp add: ids_sound_def digest_world_def)

lemma office_collectable:
  "tget ns_key ''b'' (st_entries office_store) = Some ((sample_entry ''q'' ''b'')\<lparr>ns_status := projectionStatusDeleted, ns_tomb := Some 9\<rparr>)"
  "collectable 20 office_store ((sample_entry ''q'' ''b'')\<lparr>ns_status := projectionStatusDeleted, ns_tomb := Some 9\<rparr>)"
  by (simp_all add: office_store_def collectable_def purgeable_def)

theorem collection_invisible_to_consumers_witness:
  "\<exists>s1. ImportSnapshot digest_world office_snap ''s'' ''h''
       (home_store ((sample_entry ''q'' ''b'')\<lparr>ns_status := projectionStatusDeleted, ns_tomb := Some 9\<rparr>)) = (Inr (), s1) \<and>
     store_view s1 ''b'' = VDead 9"
proof -
  let ?e = "(sample_entry ''q'' ''b'')\<lparr>ns_status := projectionStatusDeleted, ns_tomb := Some 9\<rparr>"
  have h: "ns_id ?e = ''q''" "ns_status ?e = projectionStatusActive \<or> ns_status ?e = projectionStatusDeleted \<and> ns_tomb ?e \<noteq> None"
    by simp_all
  have v: "store_view (home_store ?e) ''b'' = VDead 9" "store_view office_store ''b'' = VDead 9"
    by (simp_all add: store_view_def home_store_def office_store_def entry_view_def status_distinct)
  have consumed: "(\<exists>u. store_view (home_store ?e) k = VDead u \<and> t \<le> u) \<or> (\<exists>d y. store_view (home_store ?e) k = VLive d y \<and> t < c_hlc d)"
    if "tget ns_key k (st_entries office_store) = Some x" "collectable 20 office_store x" "ns_tomb x = Some t" for k x t
    using that by (auto simp: office_store_def store_view_def home_store_def entry_view_def status_distinct split: if_split_asm)
  note R = collection_invisible_to_consumers [where sha = "''s''" and hub = "''h''", OF office_collects(1) office_facts(1)
      home_facts(1) [OF h] digest_sound home_facts(2) [OF h] office_facts(2,3)]
  show ?thesis
    by (rule R [THEN exE], rule consumed, assumption+, elim conjE, drule spec [of _ "''b''"])
      (simp add: office_collectable v)
qed

theorem tombstone_gc_forgets_delete_witness:
  "\<exists>m s1. VerifyAckMarker digest_world m desk_pub = Inr () \<and> ak_cursor m = Some [] \<and>
     planTombstoneGC digest_world office_store (office_hub (marshal_ack m)) ''a'' = Inr (20, True, []) \<and>
     ImportSnapshot digest_world office_snap ''s'' ''h''
       (home_store ((sample_entry ''q'' ''b'')\<lparr>ns_src_hlc := Some 5, ns_src_dev := Some ''b'', ns_src_id := Some ''e1''\<rparr>)) = (Inr (), s1) \<and>
     (\<exists>d y. store_view s1 ''b'' = VLive d y)"
proof -
  let ?e = "(sample_entry ''q'' ''b'')\<lparr>ns_src_hlc := Some 5, ns_src_dev := Some ''b'', ns_src_id := Some ''e1''\<rparr>"
  obtain m where m: "VerifyAckMarker digest_world m desk_pub = Inr ()" "ak_cursor m = Some []" "ak_device m = ''b''" "ak_workspace m = ''ws''"
    "ak_hlc m = 20" "ParseAckMarker digest_world (marshal_ack m) = Inr m"
    using early_ack_signed by blast
  note acks = office_acks [OF m(1,3-6)]
  have h: "ns_id ?e = ''q''" "ns_status ?e = projectionStatusActive \<or> ns_status ?e = projectionStatusDeleted \<and> ns_tomb ?e \<noteq> None"
    by simp_all
  have seen: "\<forall>d \<in> set (st_devices office_store). waits_for ''a'' d \<longrightarrow>
      (\<exists>a. map_of (verified_acks digest_world office_store ''a'' (office_hub (marshal_ack m))) (dv_id d) = Some a \<and> 9 < ak_hlc a)"
    using acks(3) by (auto simp: acks(2) m(5))
  obtain d y where v: "store_view (home_store ?e) ''b'' = VLive d y" "c_hlc d \<le> 9"
    by (simp add: store_view_def home_store_def entry_view_def)
  obtain g where g: "planTombstoneGC digest_world office_store (office_hub (marshal_ack m)) ''a'' = Inr (g, True, [])" "9 < g" "g \<le> 20"
    and imp: "\<And>n sA' snap. GCTombstones g office_store = (n, sA') \<Longrightarrow> exportable digest_world sA' \<Longrightarrow>
        BuildSnapshot digest_world ''a'' 20 [] sA' = Inr snap \<Longrightarrow>
        \<exists>s1. ImportSnapshot digest_world snap ''s'' ''h'' (home_store ?e) = (Inr (), s1) \<and> store_view s1 ''b'' = VLive d y"
    using tombstone_gc_forgets_delete [where p = "''a''" and hlc = 20 and fl = "[]" and sha = "''s''" and hub = "''h''", OF acks(1) _ seen
        office_facts(1) office_collectable(1) _ _ _ home_facts(1) [OF h] digest_sound home_facts(2) [OF h] v]
    by (auto simp: office_store_def)
  have "min_watermark [(''b'', m)] ''a'' 20 ds = (20, True, [])"
    if "set ds \<subseteq> {desk, sample_device ''b'' trust_approved desk_pub None}" for ds
    using that m(5) by (induction ds) (auto simp: desk_def trust_local_def trust_approved_def)
  moreover have "set (ListDevices office_store) = {desk, sample_device ''b'' trust_approved desk_pub None}"
    by (auto simp: ListDevices_def office_store_def)
  ultimately have "g = 20" using g(1) acks(1,2) by (simp add: planTombstoneGC_def verified_acks_def)
  then show ?thesis using imp [OF _ office_facts(2,3)] office_collects(1) g(1) m(1,2) by blast
qed

end
