(* ===== verification/Spec2Isabelle.thy ===== *)
theory Spec2Isabelle
  imports Namespace_Apply Event_Log Env_Draft Mirrors Apply_Safety Key_Grants Hub_Claims R2_Claims Recovery Tombstone_Claims
begin

text \<open>
  A verification development for DevStrap, the local-first synchroniser of a developer's project
  namespace (\<^verbatim>\<open>src/internal\<close>).

  \<^bold>\<open>The program.\<close> Every device keeps a SQLite store with a namespace of projects, the
  devices it knows and a log of signed events. A device appends its own events, encrypts them and
  pushes them to a hub that it does not trust; it pulls what its peers pushed, decrypts, verifies
  and applies it to its namespace, and sets aside what it cannot accept. Workspace keys are minted,
  rotated and granted from device to device through the same log. The hub is a file, an object
  store or a git repository.

  \<^bold>\<open>Foundations.\<close>
  \<^item> \<^theory_text>\<open>Prelude\<close>: errors with the sentinels that \<^verbatim>\<open>errors.Is\<close> finds, the result type
    \<open>'a res\<close> with its bind, 64-bit wrap-around (\<open>wrap64\<close>, \<open>int64\<close>), and operations on a
    state that may fail; the collections \<open>sync_inv\<close>, \<open>sync_frame\<close>.
  \<^item> \<^theory_text>\<open>Convergence\<close>: the locales of order-independent and idempotent folds.
  \<^item> \<^theory_text>\<open>Tables\<close>: the SQL statements the store uses, on lists of rows.
  \<^item> \<^theory_text>\<open>Json\<close>: \<^verbatim>\<open>encoding/json\<close> as the program uses it. The parser recurses on a fuel
    that is the length of the text plus one, which every consumed character pays for; nesting is
    bounded by Go's limit of 10000. Printing and parsing are inverse on ASCII texts
    (\<open>parse_marshal_obj\<close>).

  \<^bold>\<open>Time, names, events.\<close>
  \<^item> \<^theory_text>\<open>Hlc\<close>: \<^verbatim>\<open>sync/hlc.go\<close> and the copy of the clock in \<^verbatim>\<open>state/store.go\<close>, on
    64-bit values; causality of both and their agreement.
  \<^item> \<^theory_text>\<open>Pathkey\<close>: \<^verbatim>\<open>pathkey/pathkey.go\<close>; what is cleaned stays below the root. Unicode
    normalisation and lower-casing are parameters of the record \<open>world\<close>, which also holds
    SHA-256, Ed25519, the clock reading, the minted identifiers and the texts of library errors.
  \<^item> \<^theory_text>\<open>Events\<close>: the event struct and all payloads with their JSON forms.
  \<^item> \<^theory_text>\<open>Signing\<close>: \<^verbatim>\<open>Sign\<close> and \<^verbatim>\<open>Verify\<close> of \<^verbatim>\<open>devicekeys\<close>, base64 included.

  \<^bold>\<open>The namespace.\<close>
  \<^item> \<^theory_text>\<open>Projection\<close>: \<^verbatim>\<open>sync/decide.go\<close>. Its specification is a register per path (the
    join of claims and tombstones), which it implements for every order of arrival.
  \<^item> \<^theory_text>\<open>Store_State\<close>: the tables of the store as one record. \<^theory_text>\<open>Namespace_Store\<close>,
    \<^theory_text>\<open>Namespace_Apply\<close>: projects, tombstones, renames and collection of
    \<^verbatim>\<open>state/store.go\<close>, and the effectful shell of \<^verbatim>\<open>sync/events.go\<close> around the decision;
    the store refines the register, but for a delete that a dirty checkout holds back
    (\<open>held_back\<close>) and a delete below a standing tombstone, which lowers it (\<open>stored_join\<close>).
  \<^item> \<^theory_text>\<open>Env_Draft\<close>, \<^theory_text>\<open>Mirrors\<close>, \<^theory_text>\<open>Conflict_Log\<close>: env profiles with their rotation
    flags and draft snapshots; the mirrors of \<^verbatim>\<open>state/device_gitstate.go\<close> and
    \<^verbatim>\<open>state/device_wip.go\<close>; the conflict rows.

  \<^bold>\<open>Trust and the log.\<close>
  \<^item> \<^theory_text>\<open>Device_Trust\<close>: enrolment, the trust states and the revocation boundary, a minimum.
  \<^item> \<^theory_text>\<open>Event_Log\<close>: verification, the hash chain, insertion, and the stamping, chaining and
    signing of local events.
  \<^item> \<^theory_text>\<open>Stream_Fold\<close>, \<^theory_text>\<open>Peer_Heads\<close>: \<^verbatim>\<open>fold/fold.go\<close>, \<^verbatim>\<open>state/device_heads.go\<close>,
    \<^verbatim>\<open>sync/ack.go\<close>, \<^verbatim>\<open>sync/head.go\<close>: detection of withheld and rewritten streams.
  \<^item> \<^theory_text>\<open>Keys_Cursors\<close>: key metadata, waits, skipped events and cursors of the store.
  \<^item> \<^theory_text>\<open>Sync_Apply\<close>, \<^theory_text>\<open>Apply_Safety\<close>: \<^verbatim>\<open>ApplyEventsWithStats\<close> with its
    transaction per event, the quarantines and the transport cursor. \<open>run_end\<close> walks the
    outcomes of consecutive positions; it ends because each step uses up a position of the batch.

  \<^bold>\<open>Keys and encryption.\<close>
  \<^item> \<^theory_text>\<open>Custody\<close>: \<^verbatim>\<open>devicekeys/devicekeys.go\<close>: keychain, key files and the custody
    decision. The keychain is its contents and the fault it shows; a file is absent, has contents
    or cannot be read.
  \<^item> \<^theory_text>\<open>Envelope\<close>: \<^verbatim>\<open>sync/eventcrypt.go\<close>. The record \<open>crypto\<close> holds what is outside
    the source: the AEAD, age and the random source; the laws used are \<open>aead_sound\<close> (opening
    what was sealed gives the plaintext) and, for the binding of carriers, \<open>opens_once\<close> (nobody
    has forged this ciphertext).
  \<^item> \<^theory_text>\<open>Keyring\<close>, \<^theory_text>\<open>Key_Grants\<close>: \<^verbatim>\<open>workspacekeys/keyring.go\<close>; keys are bound to
    their ids, grants add keys and never replace one, and a granted device reads the fleet.

  \<^bold>\<open>The hub.\<close>
  \<^item> \<^theory_text>\<open>Retention\<close>: the signed retention manifest of \<^verbatim>\<open>sync/snapshot.go\<close>.
  \<^item> \<^theory_text>\<open>File_Hub\<close>, \<^theory_text>\<open>Hub_Laws\<close>: \<^verbatim>\<open>sync/hub.go\<close>. The locale \<open>event_hub\<close> is the
    contract of the event plane, proved for the file hub.
  \<^item> \<^theory_text>\<open>Encrypted_Hub\<close>, \<^theory_text>\<open>Hub_Safety\<close>, \<^theory_text>\<open>Hub_Journey\<close>, \<^theory_text>\<open>Hub_Claims\<close>:
    \<^verbatim>\<open>sync/encryptedhub.go\<close>. What a hostile hub can and cannot make a pull deliver, that
    deferred events come again, that pushed events reach every peer through any hub that keeps the
    contract, and what the replay of quarantined carriers recovers and loses.

  \<^bold>\<open>The object-store hub.\<close>
  \<^item> \<^theory_text>\<open>Object_Store\<close>: the \<^verbatim>\<open>S3Client\<close> interface (\<open>s3_client\<close>), the store on a
    folder or a working tree of \<^verbatim>\<open>hub/gitcarrier.go\<close> (\<open>fs_store\<close>: objects, side files with
    their times, temporary files, the index of first sightings), and the locale
    \<open>object_store\<close> of what a client may rely on, proved for it.
  \<^item> \<^theory_text>\<open>R2_Retry\<close>: the retry loop of \<^verbatim>\<open>hub/r2.go\<close> with wrapping and clamped
    backoff. It ends because every attempt uses up one of the allowed ones
    (\<open>retry_from\<close>, with that measure).
  \<^item> \<^theory_text>\<open>R2_Hub\<close>: every operation of \<^verbatim>\<open>R2Hub\<close> over any client. A loop over list pages
    runs at most \<open>r2_pages\<close> times and fails with \<open>KFuel\<close> afterwards; a page is at least one
    key long, so that any limit above the number of objects (\<open>roomy\<close>) is never reached, which
    the rules of \<^theory_text>\<open>R2_Laws\<close> prove rather than assume.
  \<^item> \<^theory_text>\<open>R2_Keys\<close>, \<^theory_text>\<open>R2_Streams\<close>, \<^theory_text>\<open>R2_Writes\<close>, \<^theory_text>\<open>R2_Contract\<close>: padded
    keys sort as numbers; what a pull, a push and a compaction do to the streams.
  \<^item> \<^theory_text>\<open>R2_Backend\<close>: over any object store this hub keeps the contract \<open>event_hub\<close>, so that
    all that \<^theory_text>\<open>Hub_Journey\<close> proves holds of it; interpreted on the folder store.
  \<^item> \<^theory_text>\<open>R2_Migration\<close>, \<^theory_text>\<open>R2_Claims\<close>: the migration of the retired layout, and the
    agreement of the two backends.

  \<^bold>\<open>Snapshots, compaction, recovery.\<close>
  \<^item> \<^theory_text>\<open>Json_Tree\<close>: JSON of nested documents (arrays, pointers, maps): a struct that is printed
    field by field is read back as it was, by one rule per kind of field.
  \<^item> \<^theory_text>\<open>Snapshot_Format\<close>: the documents of \<^verbatim>\<open>sync/snapshot.go\<close>, their JSON and the sealed
    carrier. The round trips hold of ASCII texts, 64-bit numbers and maps listed by key
    (\<open>snapshot_fits\<close>).
  \<^item> \<^theory_text>\<open>Snapshot_Import\<close>: \<^verbatim>\<open>state/snapshot_reads.go\<close>,
    \<^verbatim>\<open>sync/snapshot_build.go\<close> and \<^verbatim>\<open>sync/snapshot_import.go\<close>. \<^theory_text>\<open>Snapshot_Merge\<close>,
    \<^theory_text>\<open>Snapshot_Exchange\<close>, \<^theory_text>\<open>Snapshot_Claims\<close>: seen through the register of a path,
    the import is the join of the two namespaces, except that of two tombstones it keeps the
    snapshot's, be it the older one (\<open>stored_join\<close>, \<open>undercuts\<close>); it commutes with the
    replay of events except between two such tombstones; it keeps the revocations of both sides, and
    leaves the cursors exactly where the retention gate lets them pass. The rows that are exported
    are repositories without env profile (\<open>exportable\<close>); the importing store has no dirty
    checkout (\<open>merge_ready\<close>).
  \<^item> \<^theory_text>\<open>Sweep_Lock\<close>: \<^verbatim>\<open>sync/sweeplock.go\<close>, \<^verbatim>\<open>cli/hub_sweeplock.go\<close>.
    \<^theory_text>\<open>Compaction\<close>, \<^theory_text>\<open>Compact_Claims\<close>: \<^verbatim>\<open>cli/hub_compact.go\<close> and the
    acknowledgement of \<^verbatim>\<open>cli/sync.go\<close>. Between two calls on the hub the other clients act;
    what they do is an argument \<open>env\<close>, one function per gap, and each claim names the
    preorder that the others are relied on to respect (the locale \<open>hub_order\<close>, interpreted for
    \<open>nothing_lost\<close> and \<open>keeps_snapshots\<close>). The failures that can come after the
    deletion are part of the job (\<open>cj_faults\<close>), those of the hub's single calls are not.
  \<^item> \<^theory_text>\<open>Recovery\<close>: \<^verbatim>\<open>cli/snapshot_recovery.go\<close>: what a device imports, and that a
    compaction followed by a recovery joins the two namespaces. \<^theory_text>\<open>Tombstone_Claims\<close>: the
    collection of tombstones before a compaction is harmless to devices that have consumed the
    deletes; the plan compares clocks and does not make sure of it.

  \<^bold>\<open>Conventions.\<close> A \<open>string\<close> is a list of bytes. A transaction is a function that returns
  the new store or an error, so that a failed one changes nothing (\<open>with_tx\<close>). NULL and the zero
  value of Go are one where the code treats them as one. The error of the code is kept with its
  sentinels; long message texts are shortened. Log lines, contexts and their cancellation, and the
  failures of the database and the file system themselves are left out, except those after the
  deletion of a compaction.

  \<^bold>\<open>Not modelled.\<close> The command line (flags, prompts and rendering around the modelled
  operations), the git plumbing (it runs the git executable), the AWS client of the object store and
  its metrics, the refresh and push of the git hub's repository, the pull and
  push with which a compaction begins and the transfer of blobs after a recovery (both are arguments
  or outcomes), blobs and bundles, the daemon, the file
  watcher, the platform integration, worktrees and agent runs beyond their rows, the pairing
  dialogue and the terminal interface. Concurrency inside a process is not modelled: each operation
  is one step, as the store's mutex and SQLite's transactions make it.
\<close>

end
